(* ===== verification/Prelude.thy ===== *)
theory Prelude
  imports Main "HOL-Library.Word" "HOL-Library.AList"
begin

text \<open>
  Shared vocabulary of the development: the error values every fallible operation returns, the
  two result monads (a pure one for codecs and a state-passing one in which an exception keeps the
  state reached so far, as a C++ exception does), byte buffers with \<open>memcpy\<close>-like access, and the
  little-endian representation of machine integers in memory.
\<close>

named_theorems result_simps \<open>unfolding of the result and execution monads\<close>
named_theorems data_simps \<open>lengths and slices of byte buffers\<close>

type_synonym byte = "8 word"
type_synonym data = "byte list"
type_synonym u16 = "16 word"
type_synonym u32 = "32 word"
type_synonym u64 = "64 word"

section \<open>Errors\<close>

text \<open>
  \<open>AssertFailed\<close> is a failing \<open>ASSERT\<close>, \<open>RuntimeError\<close>, \<open>LogicError\<close>, \<open>OutOfRange\<close>,
  \<open>InvalidArgument\<close> and \<open>BadAlloc\<close> are the standard
  exceptions, \<open>Errno\<close> is \<open>FuseErrnoException\<close>, and \<open>MemoryFault\<close> stands for an access outside of a
  buffer, which C++ leaves undefined. \<open>IntegrityViolationOnPreviousRun\<close> is the exception class of the
  integrity store, and \<open>CryfsException\<close> carries an exit code. \<open>OutOfFuel\<close> is not a behaviour of the code: it marks a loop whose bound in the model
  is used up, and the lemmas on such a loop show that it is not returned.
\<close>

datatype errno = ENOENT | EEXIST | EISDIR | ENOTDIR | ENOTEMPTY | EBADF | EINVAL | EIO | EBUSY

text \<open>The exit codes of \<open>cryfs/impl/ErrorCodes.h\<close>.\<close>

datatype error_code =
    ErrorCode_Success
  | ErrorCode_UnspecifiedError
  | ErrorCode_InvalidArguments
  | ErrorCode_WrongPassword
  | ErrorCode_EmptyPassword
  | ErrorCode_TooNewFilesystemFormat
  | ErrorCode_TooOldFilesystemFormat
  | ErrorCode_WrongCipher
  | ErrorCode_InaccessibleBaseDir
  | ErrorCode_InaccessibleMountDir
  | ErrorCode_BaseDirInsideMountDir
  | ErrorCode_InvalidFilesystem
  | ErrorCode_FilesystemIdChanged
  | ErrorCode_EncryptionKeyChanged
  | ErrorCode_FilesystemHasDifferentIntegritySetup
  | ErrorCode_SingleClientFileSystem
  | ErrorCode_IntegrityViolationOnPreviousRun
  | ErrorCode_IntegrityViolation

datatype error =
    AssertFailed string
  | RuntimeError string
  | LogicError string
  | OutOfRange
  | InvalidArgument
  | BadAlloc
  | Errno errno
  | MemoryFault
  | IntegrityViolationOnPreviousRun
  | CryfsException error_code
  | OutOfFuel

type_synonym 'a result = "error + 'a"

section \<open>The result monad\<close>

definition rbind :: "'a result \<Rightarrow> ('a \<Rightarrow> 'b result) \<Rightarrow> 'b result" where
  "rbind m f = (case m of Inl e \<Rightarrow> Inl e | Inr x \<Rightarrow> f x)"

definition ASSERT :: "bool \<Rightarrow> string \<Rightarrow> unit result" where
  "ASSERT b msg = (if b then Inr () else Inl (AssertFailed msg))"

lemma rbind_simps [simp]:
  "rbind (Inr x) f = f x"
  "rbind (Inl e) f = Inl e"
  by (simp_all add: rbind_def)

lemma rbind_Inr_iff: "rbind m f = Inr y \<longleftrightarrow> (\<exists>x. m = Inr x \<and> f x = Inr y)"
  by (cases m) auto

lemma rbind_cases:
  assumes "rbind m f = Inr y"
  obtains x where "m = Inr x" and "f x = Inr y"
  using assms by (auto simp: rbind_Inr_iff)

lemma ASSERT_simps [simp]:
  "ASSERT True msg = Inr ()"
  "ASSERT False msg = Inl (AssertFailed msg)"
  by (simp_all add: ASSERT_def)

lemma ASSERT_Inr_iff [simp]: "ASSERT b msg = Inr u \<longleftrightarrow> b"
  by (cases b) auto

section \<open>The execution monad\<close>

text \<open>
  A stateful operation maps a state to its outcome and the state it leaves behind. An exception
  leaves the state as it was when it was thrown.
\<close>

type_synonym ('s, 'a) exec = "'s \<Rightarrow> 'a result \<times> 's"

definition ret :: "'a \<Rightarrow> ('s, 'a) exec" where
  "ret x s = (Inr x, s)"

definition throw :: "error \<Rightarrow> ('s, 'a) exec" where
  "throw e s = (Inl e, s)"

definition ebind :: "('s, 'a) exec \<Rightarrow> ('a \<Rightarrow> ('s, 'b) exec) \<Rightarrow> ('s, 'b) exec" where
  "ebind m f s = (case m s of (Inl e, t) \<Rightarrow> (Inl e, t) | (Inr x, t) \<Rightarrow> f x t)"

definition lift_result :: "'a result \<Rightarrow> ('s, 'a) exec" where
  "lift_result r s = (r, s)"

definition assert_exec :: "bool \<Rightarrow> string \<Rightarrow> ('s, unit) exec" where
  "assert_exec b msg = (if b then ret () else throw (AssertFailed msg))"

definition gets :: "('s \<Rightarrow> 'a) \<Rightarrow> ('s, 'a) exec" where
  "gets f s = (Inr (f s), s)"

definition modify :: "('s \<Rightarrow> 's) \<Rightarrow> ('s, unit) exec" where
  "modify f s = (Inr (), f s)"

text \<open>An operation of an inner object, run inside the object that owns it.\<close>

definition zoom_fst :: "('a, 'r) exec \<Rightarrow> ('a \<times> 'b, 'r) exec" where
  "zoom_fst m s = (case m (fst s) of (r, a) \<Rightarrow> (r, (a, snd s)))"

definition zoom_snd :: "('b, 'r) exec \<Rightarrow> ('a \<times> 'b, 'r) exec" where
  "zoom_snd m s = (case m (snd s) of (r, b) \<Rightarrow> (r, (fst s, b)))"

text \<open>The destructors that run when an exception leaves a scope.\<close>

definition on_error :: "('s, 'a) exec \<Rightarrow> ('s \<Rightarrow> 's) \<Rightarrow> ('s, 'a) exec" where
  "on_error m cleanup s = (case m s of (Inl e, t) \<Rightarrow> (Inl e, cleanup t) | (Inr x, t) \<Rightarrow> (Inr x, t))"

lemma ret_apply [simp]: "ret x s = (Inr x, s)"
  and throw_apply [simp]: "throw e s = (Inl e, s)"
  and lift_result_apply [simp]: "lift_result r s = (r, s)"
  and gets_apply [simp]: "gets f s = (Inr (f s), s)"
  and modify_apply [simp]: "modify h s = (Inr (), h s)"
  by (simp_all add: ret_def throw_def lift_result_def gets_def modify_def)

lemma ebind_Inr: "m s = (Inr x, t) \<Longrightarrow> ebind m f s = f x t"
  and ebind_Inl: "m s = (Inl e, t) \<Longrightarrow> ebind m f s = (Inl e, t)"
  by (simp_all add: ebind_def)

lemma ebind_assoc: "ebind (ebind m f) g = ebind m (\<lambda>x. ebind (f x) g)"
  by (auto simp: ebind_def fun_eq_iff split: prod.splits sum.splits)

lemma ebind_ret [simp]: "ebind (ret x) f s = f x s"
  by (simp add: ebind_def)

lemma ebind_throw [simp]: "ebind (throw e) f s = (Inl e, s)"
  by (simp add: ebind_def)

lemma ebind_Pair [simp]:
  "ebind (Pair (Inr x)) f s = f x s"
  "ebind (Pair (Inl e)) f s = (Inl e, s)"
  by (simp_all add: ebind_def)

lemma ebind_gets [simp]: "ebind (gets g) f s = f (g s) s"
  by (simp add: ebind_def)

lemma ebind_modify [simp]: "ebind (modify h) f s = f () (h s)"
  by (simp add: ebind_def)

lemma ebind_lift_result [simp]:
  "ebind (lift_result (Inr x)) f s = f x s"
  "ebind (lift_result (Inl e)) f s = (Inl e, s)"
  by (simp_all add: ebind_def)

lemma assert_exec_True [simp]: "assert_exec True msg = ret ()"
  and assert_exec_False [simp]: "assert_exec False msg = throw (AssertFailed msg)"
  by (simp_all add: assert_exec_def)

lemma zoom_snd_eq: "m b = (r, b') \<Longrightarrow> zoom_snd m (a, b) = (r, (a, b'))"
  and zoom_fst_eq: "n a = (r, a') \<Longrightarrow> zoom_fst n (a, b) = (r, (a', b))"
  by (simp_all add: zoom_snd_def zoom_fst_def)

declare ebind_def [result_simps] zoom_snd_def [result_simps] zoom_fst_def [result_simps]
  assert_exec_def [result_simps] rbind_def [result_simps]

text \<open>
  \<open>yields m s x Q\<close>: run from \<open>s\<close>, the operation returns (it does not throw) the value \<open>x\<close> and
  leaves a state with \<open>Q\<close>. The laws of the store interfaces are stated in this form.
\<close>

definition yields :: "('s, 'a) exec \<Rightarrow> 's \<Rightarrow> 'a \<Rightarrow> ('s \<Rightarrow> bool) \<Rightarrow> bool" where
  "yields m s x Q \<longleftrightarrow> (\<exists>t. m s = (Inr x, t) \<and> Q t)"

lemma yieldsI: "m s = (Inr x, t) \<Longrightarrow> Q t \<Longrightarrow> yields m s x Q"
  by (auto simp: yields_def)

lemma yieldsE:
  assumes "yields m s x Q"
  obtains t where "m s = (Inr x, t)" and "Q t"
  using assms by (auto simp: yields_def)

lemma yields_mono: "yields m s x P \<Longrightarrow> (\<And>t. P t \<Longrightarrow> Q t) \<Longrightarrow> yields m s x Q"
  by (auto simp: yields_def)

lemma yields_ebind:
  assumes "yields m s x P" and "\<And>t. P t \<Longrightarrow> yields (f x) t y Q"
  shows "yields (ebind m f) s y Q"
  using assms by (fastforce simp: yields_def ebind_def)

lemma yields_ret [simp]: "yields (ret x) s y Q \<longleftrightarrow> x = y \<and> Q s"
  and yields_gets [simp]: "yields (gets f) s y Q \<longleftrightarrow> f s = y \<and> Q s"
  and yields_modify [simp]: "yields (modify h) s u Q \<longleftrightarrow> Q (h s)"
  and yields_throw [simp]: "\<not> yields (throw e) s y Q"
  by (auto simp: yields_def)

lemma yields_Pair [simp]:
  "yields (Pair r) s y Q \<longleftrightarrow> r = Inr y \<and> Q s"
  by (auto simp: yields_def)

lemma yields_zoom_snd:
  "yields m (snd s) x (\<lambda>b. Q (fst s, b)) \<Longrightarrow> yields (zoom_snd m) s x Q"
  by (auto simp: yields_def zoom_snd_def)

lemma yields_zoom_fst:
  "yields m (fst s) x (\<lambda>a. Q (a, snd s)) \<Longrightarrow> yields (zoom_fst m) s x Q"
  by (auto simp: yields_def zoom_fst_def)

lemma yields_on_error: "yields m s x Q \<Longrightarrow> yields (on_error m c) s x Q"
  by (auto simp: yields_def on_error_def)

lemma yields_eq: "yields m s x Q \<Longrightarrow> fst (m s) = Inr x \<and> Q (snd (m s))"
  by (auto simp: yields_def)

section \<open>Unordered maps\<close>

text \<open>
  A \<open>std::unordered_map\<close> is an association list with distinct keys, in its iteration order.
  \<open>um_insert\<close> is \<open>insert\<close>, which keeps an existing entry, and also the entry creation of \<open>operator[]\<close>;
  \<open>um_put\<close> is an assignment through \<open>operator[]\<close>; \<open>um_get\<close> reads an entry with its default.
\<close>

definition um_insert :: "'k \<times> 'v \<Rightarrow> ('k \<times> 'v) list \<Rightarrow> ('k \<times> 'v) list" where
  "um_insert e m = (if map_of m (fst e) = None then m @ [e] else m)"

definition um_put :: "'k \<Rightarrow> 'v \<Rightarrow> ('k \<times> 'v) list \<Rightarrow> ('k \<times> 'v) list" where
  "um_put k v m = AList.update k v m"

definition um_get :: "'v \<Rightarrow> 'k \<Rightarrow> ('k \<times> 'v) list \<Rightarrow> 'v" where
  "um_get z k m = (case map_of m k of None \<Rightarrow> z | Some v \<Rightarrow> v)"

definition um_wf :: "('k \<times> 'v) list \<Rightarrow> bool" where
  "um_wf m \<longleftrightarrow> distinct (map fst m)"

lemma um_wf_put [simp]: "um_wf m \<Longrightarrow> um_wf (um_put k v m)"
  by (simp add: um_wf_def um_put_def distinct_update)

lemma um_wf_insert [simp]: "um_wf m \<Longrightarrow> um_wf (um_insert e m)"
  by (auto simp: um_wf_def um_insert_def map_of_eq_None_iff)

lemma um_wf_delete [simp]: "um_wf m \<Longrightarrow> um_wf (AList.delete k m)"
  by (simp add: um_wf_def distinct_delete)

lemma um_wf_Nil [simp]: "um_wf []"
  by (simp add: um_wf_def)

lemma map_of_um_put [simp]: "map_of (um_put k v m) = (map_of m)(k \<mapsto> v)"
  by (simp add: um_put_def update_conv')

lemma map_of_um_insert: "map_of (um_insert (k, v) m) j =
  (if j = k \<and> map_of m k = None then Some v else map_of m j)"
  by (auto simp: um_insert_def map_add_def split: option.splits)

lemma um_get_put [simp]: "um_get z j (um_put k v m) = (if j = k then v else um_get z j m)"
  by (simp add: um_get_def)

lemma um_get_touch [simp]: "um_get z j (um_insert (k, z) m) = um_get z j m"
  by (simp add: um_get_def map_of_um_insert)

lemma um_insert_fresh: "map_of m k = None \<Longrightarrow> um_insert (k, v) m = m @ [(k, v)]"
  by (simp add: um_insert_def)

section \<open>Byte buffers\<close>

text \<open>
  \<open>slice off n\<close> is the region \<open>[off, off + n)\<close> of a buffer, \<open>write_at off src\<close> the buffer after
  \<open>memcpy(dst + off, src, |src|)\<close>.
\<close>

definition slice :: "nat \<Rightarrow> nat \<Rightarrow> 'a list \<Rightarrow> 'a list" where
  "slice off n xs = take n (drop off xs)"

definition write_at :: "nat \<Rightarrow> 'a list \<Rightarrow> 'a list \<Rightarrow> 'a list" where
  "write_at off src dst = take off dst @ src @ drop (off + length src) dst"

definition zeroes :: "nat \<Rightarrow> data" where
  "zeroes n = replicate n 0"

text \<open>A string literal as the bytes of a \<open>std::string\<close>.\<close>

definition ascii :: "string \<Rightarrow> data" where
  "ascii s = map of_char s"

lemma length_ascii [simp, data_simps]: "length (ascii s) = length s"
  by (simp add: ascii_def)

lemma length_zeroes [simp, data_simps]: "length (zeroes n) = n"
  by (simp add: zeroes_def)

lemma length_slice [simp, data_simps]: "length (slice off n xs) = min n (length xs - off)"
  by (simp add: slice_def)

lemma length_write_at [simp, data_simps]:
  "off + length src \<le> length dst \<Longrightarrow> length (write_at off src dst) = length dst"
  by (simp add: write_at_def)

lemma nth_slice: "i < n \<Longrightarrow> off + i < length xs \<Longrightarrow> slice off n xs ! i = xs ! (off + i)"
  by (simp add: slice_def)

lemma nth_write_at:
  assumes "off + length src \<le> length dst" and "i < length dst"
  shows "write_at off src dst ! i =
    (if off \<le> i \<and> i < off + length src then src ! (i - off) else dst ! i)"
proof -
  have *: "min (length dst) off = off" using assms(1) by simp
  show ?thesis using assms by (auto simp: write_at_def nth_append *)
qed

lemma slice_write_at_same:
  "off + length src \<le> length dst \<Longrightarrow> slice off (length src) (write_at off src dst) = src"
  by (simp add: slice_def write_at_def)

lemma slice_write_at_same' [data_simps]:
  "n = length src \<Longrightarrow> off + n \<le> length dst \<Longrightarrow> slice off n (write_at off src dst) = src"
  by (simp add: slice_write_at_same)

lemma slice_write_at_before [data_simps]:
  assumes "off' + n \<le> off" and "off + length src \<le> length dst"
  shows "slice off' n (write_at off src dst) = slice off' n dst"
proof (rule nth_equalityI)
  show "length (slice off' n (write_at off src dst)) = length (slice off' n dst)"
    using assms by simp
next
  fix i assume "i < length (slice off' n (write_at off src dst))"
  then have "i < n" and "off' + i < length dst" using assms by simp_all
  then show "slice off' n (write_at off src dst) ! i = slice off' n dst ! i"
    using assms by (simp add: nth_slice nth_write_at)
qed

lemma slice_write_at_after [data_simps]:
  assumes "off + length src \<le> off'" and "off + length src \<le> length dst"
  shows "slice off' n (write_at off src dst) = slice off' n dst"
proof (rule nth_equalityI)
  show "length (slice off' n (write_at off src dst)) = length (slice off' n dst)"
    using assms by simp
next
  fix i assume "i < length (slice off' n (write_at off src dst))"
  then have "i < n" and "off' + i < length dst" using assms by auto
  then show "slice off' n (write_at off src dst) ! i = slice off' n dst ! i"
    using assms by (simp add: nth_slice nth_write_at)
qed

lemma slice_drop: "slice off n xs @ drop (off + n) xs = drop off xs"
  by (metis slice_def append_take_drop_id drop_drop add.commute)

lemma slice_all [simp]: "length xs \<le> n \<Longrightarrow> slice 0 n xs = xs"
  by (simp add: slice_def)

lemma slice_append_left: "off + n \<le> length xs \<Longrightarrow> slice off n (xs @ ys) = slice off n xs"
  by (simp add: slice_def)

lemma slice_append_exact: "length xs = off \<Longrightarrow> length ys = n \<Longrightarrow> slice off n (xs @ ys @ zs) = ys"
  by (simp add: slice_def)

lemma write_at_0_all: "length src = length dst \<Longrightarrow> write_at 0 src dst = src"
  by (simp add: write_at_def)

lemma write_at_end: "write_at (length xs) src (xs @ ys) = xs @ src @ drop (length src) ys"
  by (simp add: write_at_def)

section \<open>Integers in memory\<close>

text \<open>
  The targets of the library are little-endian, so the object representation that
  \<open>memcpy(dst, &obj, sizeof obj)\<close> copies is the least significant byte first.
\<close>

fun nat_le :: "nat \<Rightarrow> nat \<Rightarrow> data" where
  "nat_le 0 x = []"
| "nat_le (Suc n) x = of_nat (x mod 256) # nat_le n (x div 256)"

fun le_nat :: "data \<Rightarrow> nat" where
  "le_nat [] = 0"
| "le_nat (b # bs) = unat b + 256 * le_nat bs"

lemma nat_le_numeral [simp]:
  "nat_le (numeral k) x = of_nat (x mod 256) # nat_le (pred_numeral k) (x div 256)"
  by (subst numeral_eq_Suc) (rule nat_le.simps(2))

lemma length_nat_le [simp]: "length (nat_le n x) = n"
  by (induction n arbitrary: x) auto

lemma unat_byte_less: "unat (b :: byte) < 256"
proof -
  have "unat b < 2 ^ LENGTH(8)" by (rule unsigned_less)
  then show ?thesis by simp
qed

lemma unat_byte_mod: "unat (of_nat (x mod 256) :: byte) = x mod 256"
  by (simp add: unat_of_nat)

lemma le_nat_nat_le: "le_nat (nat_le n x) = x mod 256 ^ n"
proof (induction n arbitrary: x)
  case 0
  then show ?case by simp
next
  case (Suc n)
  have "le_nat (nat_le (Suc n) x) = x mod 256 + 256 * (x div 256 mod 256 ^ n)"
    using Suc unat_byte_mod by simp
  also have "\<dots> = x mod (256 * 256 ^ n)"
    by (simp add: mod_mult2_eq)
  finally show ?case by simp
qed

lemma le_nat_bound: "le_nat bs < 256 ^ length bs"
proof (induction bs)
  case Nil
  then show ?case by simp
next
  case (Cons b bs)
  have "unat b < 256" by (rule unat_byte_less)
  moreover have "le_nat bs + 1 \<le> 256 ^ length bs" using Cons by simp
  ultimately have "unat b + 256 * le_nat bs < 256 * 256 ^ length bs" by linarith
  then show ?case by simp
qed

lemma nat_le_le_nat: "nat_le (length bs) (le_nat bs) = bs"
proof (induction bs)
  case Nil
  then show ?case by simp
next
  case (Cons b bs)
  have b: "unat b < 256" by (rule unat_byte_less)
  then have "(unat b + 256 * le_nat bs) mod 256 = unat b" by simp
  moreover have "(unat b + 256 * le_nat bs) div 256 = le_nat bs" using b by simp
  ultimately show ?case using Cons by simp
qed

end
