(* ===== verification/CppData.thy ===== *)
theory CppData
  imports Prelude
begin

text \<open>
  \<open>src/src/cpp-utils/data\<close> and \<open>cpp-utils/crypto/RandomPadding\<close>: memory regions (\<open>Data\<close>,
  \<open>FixedSizeData\<close>), the object representation of integers (\<open>SerializationHelper\<close>), the
  \<open>Serializer\<close>/\<open>Deserializer\<close> pair and the padding of the configuration file. A \<open>Data\<close> object is
  the list of its bytes. Reads outside of a buffer that the code does not check are
  \<open>MemoryFault\<close>; the lemmas say which callers can never reach it.
\<close>

section \<open>SerializationHelper\<close>

text \<open>\<open>sizeof\<close> of an unsigned integer type.\<close>

definition sizeof :: "'a::len itself \<Rightarrow> nat" where
  "sizeof t = LENGTH('a) div 8"

lemma sizeof_simps [simp]:
  "sizeof TYPE(8) = 1" "sizeof TYPE(16) = 2" "sizeof TYPE(32) = 4" "sizeof TYPE(64) = 8"
  by (simp_all add: sizeof_def)

definition serialize :: "'a::len word \<Rightarrow> data" where
  "serialize obj = nat_le (sizeof TYPE('a)) (unat obj)"

definition deserialize :: "data \<Rightarrow> 'a::len word result" where
  "deserialize src =
     (if sizeof TYPE('a) \<le> length src
      then Inr (of_nat (le_nat (take (sizeof TYPE('a)) src)))
      else Inl MemoryFault)"

definition deserializeWithOffset :: "data \<Rightarrow> nat \<Rightarrow> 'a::len word result" where
  "deserializeWithOffset src offset = deserialize (drop offset src)"

lemma length_serialize [simp, data_simps]: "length (serialize (w :: 'a::len word)) = sizeof TYPE('a)"
  by (simp add: serialize_def)

lemma unat_mod_bytes:
  assumes "8 dvd LENGTH('a::len)"
  shows "unat (w :: 'a word) mod 256 ^ sizeof TYPE('a) = unat w"
proof -
  obtain k where k: "LENGTH('a) = 8 * k" using assms by auto
  have "256 ^ k = (2 :: nat) ^ LENGTH('a)"
    by (simp add: k power_mult)
  moreover have "sizeof TYPE('a) = k" by (simp add: sizeof_def k)
  moreover have "unat w < 2 ^ LENGTH('a)" by (rule unsigned_less)
  ultimately show ?thesis by simp
qed

lemma deserialize_serialize:
  assumes "8 dvd LENGTH('a::len)"
  shows "deserialize (serialize (w :: 'a word) @ rest) = Inr w"
  by (simp add: deserialize_def serialize_def le_nat_nat_le unat_mod_bytes [OF assms])

lemma deserialize_serialize_widths [simp]:
  "deserialize (serialize (a :: byte) @ rest) = Inr a"
  "deserialize (serialize (b :: u16) @ rest) = Inr b"
  "deserialize (serialize (c :: u32) @ rest) = Inr c"
  "deserialize (serialize (d :: u64) @ rest) = Inr d"
  by (simp_all add: deserialize_serialize)

lemma serialize_surj:
  assumes "length xs = sizeof TYPE('a::len)" and "8 dvd LENGTH('a)"
  shows "\<exists>w :: 'a word. serialize w = xs"
proof -
  obtain k where k: "LENGTH('a) = 8 * k" using assms(2) by auto
  have "le_nat xs < 2 ^ LENGTH('a)"
    using le_nat_bound [of xs] assms(1) by (simp add: sizeof_def k power_mult)
  then have "unat (of_nat (le_nat xs) :: 'a word) = le_nat xs"
    by (simp add: unat_of_nat)
  then show ?thesis using nat_le_le_nat [of xs] assms(1) by (metis serialize_def)
qed

lemma deserialize_slice:
  assumes "slice off (sizeof TYPE('a)) buf = serialize (w :: 'a::len word)"
    and "8 dvd LENGTH('a)"
  shows "deserializeWithOffset buf off = Inr w"
proof -
  let ?n = "sizeof TYPE('a)"
  have "length (slice off ?n buf) = ?n" using assms(1) by simp
  then have len: "?n \<le> length (drop off buf)" by simp
  have "drop off buf = slice off ?n buf @ drop ?n (drop off buf)"
    unfolding slice_def by (rule append_take_drop_id [symmetric])
  then have "drop off buf = serialize w @ drop ?n (drop off buf)"
    using assms(1) by simp
  then show ?thesis
    unfolding deserializeWithOffset_def by (metis deserialize_serialize assms(2))
qed

lemma deserialize_bytes [simp]: "deserialize (b # bs) = Inr (b :: byte)"
  by (simp add: deserialize_def)

section \<open>Data\<close>

text \<open>
  Allocation: \<open>malloc\<close> refuses a request beyond \<open>PTRDIFF_MAX\<close>, which the constructor turns into
  \<open>std::bad_alloc\<close>. The contents of fresh memory are arbitrary; they are the argument \<open>fresh\<close>.
\<close>

definition Data_new :: "(nat \<Rightarrow> data) \<Rightarrow> nat \<Rightarrow> data result" where
  "Data_new fresh sz = (if sz < 2 ^ 63 then Inr (fresh sz) else Inl BadAlloc)"

definition Data_copyAndRemovePrefix :: "data \<Rightarrow> nat \<Rightarrow> data result" where
  "Data_copyAndRemovePrefix d prefixSize =
     rbind (ASSERT (prefixSize \<le> length d) ''Can't remove more than there is'')
       (\<lambda>_. Inr (drop prefixSize d))"

definition Data_FillWithZeroes :: "data \<Rightarrow> data" where
  "Data_FillWithZeroes d = zeroes (length d)"

definition Data_equal :: "data \<Rightarrow> data \<Rightarrow> bool" where
  "Data_equal lhs rhs \<longleftrightarrow> length lhs = length rhs \<and> list_all2 (=) lhs rhs"

lemma Data_equal_iff: "Data_equal lhs rhs \<longleftrightarrow> lhs = rhs"
  by (auto simp: Data_equal_def list.rel_eq)

text \<open>\<open>DataUtils::resize\<close>: keep the common prefix, fill the rest with zeroes.\<close>

definition DataUtils_resize :: "data \<Rightarrow> nat \<Rightarrow> data" where
  "DataUtils_resize d newSize =
     write_at 0 (take (min newSize (length d)) d) (zeroes newSize)"

lemma DataUtils_resize_eq: "DataUtils_resize d n = take n d @ zeroes (n - length d)"
  by (simp add: DataUtils_resize_def write_at_def zeroes_def min_def)

lemma length_DataUtils_resize [simp, data_simps]: "length (DataUtils_resize d n) = n"
  by (simp add: DataUtils_resize_eq min_def)

section \<open>Serializer\<close>

record serializer =
  ser_pos :: nat
  ser_result :: data

definition Serializer_new :: "data \<Rightarrow> serializer" where
  "Serializer_new fresh = \<lparr>ser_pos = 0, ser_result = fresh\<rparr>"

definition Serializer_writeBytes :: "data \<Rightarrow> serializer \<Rightarrow> serializer result" where
  "Serializer_writeBytes d s =
     (if ser_pos s + length d > length (ser_result s)
      then Inl (RuntimeError ''Serialization failed - size overflow'')
      else Inr (s\<lparr>ser_pos := ser_pos s + length d,
                  ser_result := write_at (ser_pos s) d (ser_result s)\<rparr>))"

definition Serializer_write :: "'a::len word \<Rightarrow> serializer \<Rightarrow> serializer result" where
  "Serializer_write obj s =
     (if ser_pos s + sizeof TYPE('a) > length (ser_result s)
      then Inl (RuntimeError ''Serialization failed - size overflow'')
      else Inr (s\<lparr>ser_pos := ser_pos s + sizeof TYPE('a),
                  ser_result := write_at (ser_pos s) (serialize obj) (ser_result s)\<rparr>))"

definition Serializer_writeUint8 :: "byte \<Rightarrow> serializer \<Rightarrow> serializer result" where
  "Serializer_writeUint8 = Serializer_write"

definition Serializer_writeUint16 :: "u16 \<Rightarrow> serializer \<Rightarrow> serializer result" where
  "Serializer_writeUint16 = Serializer_write"

definition Serializer_writeUint32 :: "u32 \<Rightarrow> serializer \<Rightarrow> serializer result" where
  "Serializer_writeUint32 = Serializer_write"

definition Serializer_writeUint64 :: "u64 \<Rightarrow> serializer \<Rightarrow> serializer result" where
  "Serializer_writeUint64 = Serializer_write"

definition Serializer_writeBool :: "bool \<Rightarrow> serializer \<Rightarrow> serializer result" where
  "Serializer_writeBool value = Serializer_writeUint8 (if value then 1 else 0)"

definition Serializer_writeData :: "data \<Rightarrow> serializer \<Rightarrow> serializer result" where
  "Serializer_writeData d s =
     rbind (Serializer_writeUint64 (of_nat (length d)) s) (Serializer_writeBytes d)"

definition Serializer_writeFixedSizeData :: "data \<Rightarrow> serializer \<Rightarrow> serializer result" where
  "Serializer_writeFixedSizeData d = Serializer_writeBytes d"

definition Serializer_writeTailData :: "data \<Rightarrow> serializer \<Rightarrow> serializer result" where
  "Serializer_writeTailData d s =
     rbind (ASSERT (ser_pos s + length d = length (ser_result s))
              ''Not enough data given to write until the end of the stream'')
       (\<lambda>_. Serializer_writeBytes d s)"

definition Serializer_writeString :: "data \<Rightarrow> serializer \<Rightarrow> serializer result" where
  "Serializer_writeString value = Serializer_writeBytes (value @ [0])"

definition Serializer_BoolSize :: nat where
  "Serializer_BoolSize = sizeof TYPE(8)"

definition Serializer_DataSize :: "data \<Rightarrow> nat" where
  "Serializer_DataSize d = sizeof TYPE(64) + length d"

definition Serializer_StringSize :: "data \<Rightarrow> nat" where
  "Serializer_StringSize value = length value + 1"

definition Serializer_finished :: "serializer \<Rightarrow> data result" where
  "Serializer_finished s =
     (if ser_pos s \<noteq> length (ser_result s)
      then Inl (RuntimeError ''Serialization failed - size not fully used.'')
      else Inr (ser_result s))"

text \<open>
  Every write appends the representation of its argument to the bytes written so far, or fails
  without effect; \<open>Serializer_appends m bs\<close> says so of the write \<open>m\<close>.
\<close>

definition written :: "serializer \<Rightarrow> data" where
  "written s = take (ser_pos s) (ser_result s)"

definition ser_room :: "serializer \<Rightarrow> nat" where
  "ser_room s = length (ser_result s) - ser_pos s"

definition ser_wf :: "serializer \<Rightarrow> bool" where
  "ser_wf s \<longleftrightarrow> ser_pos s \<le> length (ser_result s)"

definition Serializer_appends :: "(serializer \<Rightarrow> serializer result) \<Rightarrow> data \<Rightarrow> bool" where
  "Serializer_appends m bs \<longleftrightarrow>
     (\<forall>s. ser_wf s \<longrightarrow> length bs \<le> ser_room s \<longrightarrow>
        (\<exists>s'. m s = Inr s' \<and> ser_wf s' \<and> written s' = written s @ bs \<and>
              ser_room s' = ser_room s - length bs))"

lemma Serializer_writeBytes_appends: "Serializer_appends (Serializer_writeBytes d) d"
  by (auto simp: Serializer_appends_def Serializer_writeBytes_def ser_wf_def written_def
      ser_room_def write_at_def)

lemma Serializer_write_eq:
  "Serializer_write w = Serializer_writeBytes (serialize w)"
  by (auto simp: Serializer_write_def Serializer_writeBytes_def fun_eq_iff)

lemma Serializer_write_appends: "Serializer_appends (Serializer_write w) (serialize w)"
  by (simp add: Serializer_write_eq Serializer_writeBytes_appends)

lemma Serializer_appends_then:
  assumes "Serializer_appends m bs" and "Serializer_appends n cs"
  shows "Serializer_appends (\<lambda>s. rbind (m s) n) (bs @ cs)"
  unfolding Serializer_appends_def
proof (intro allI impI)
  fix s assume wf: "ser_wf s" and room: "length (bs @ cs) \<le> ser_room s"
  then obtain t where t: "m s = Inr t" "ser_wf t" "written t = written s @ bs"
      "ser_room t = ser_room s - length bs"
    using assms(1) unfolding Serializer_appends_def by fastforce
  with room have "length cs \<le> ser_room t" by simp
  with t(2) obtain u where "n t = Inr u" "ser_wf u" "written u = written t @ cs"
      "ser_room u = ser_room t - length cs"
    using assms(2) unfolding Serializer_appends_def by blast
  with t show "\<exists>u. rbind (m s) n = Inr u \<and> ser_wf u \<and> written u = written s @ bs @ cs \<and>
      ser_room u = ser_room s - length (bs @ cs)" by auto
qed

lemma Serializer_writeBool_appends:
  "Serializer_appends (Serializer_writeBool b) [if b then 1 else 0]"
proof -
  have "serialize (if b then 1 else 0 :: byte) = [if b then 1 else 0]"
    by (simp add: serialize_def)
  then show ?thesis
    using Serializer_write_appends [of "if b then 1 else 0 :: byte"]
    by (simp add: Serializer_writeBool_def Serializer_writeUint8_def)
qed

lemma Serializer_writeString_appends:
  "Serializer_appends (Serializer_writeString v) (v @ [0])"
  by (simp add: Serializer_writeString_def Serializer_writeBytes_appends)

lemma Serializer_writeUint_appends:
  "Serializer_appends (Serializer_writeUint8 a) (serialize a)"
  "Serializer_appends (Serializer_writeUint16 b) (serialize b)"
  "Serializer_appends (Serializer_writeUint32 c) (serialize c)"
  "Serializer_appends (Serializer_writeUint64 d) (serialize d)"
  by (simp_all add: Serializer_writeUint8_def Serializer_writeUint16_def
      Serializer_writeUint32_def Serializer_writeUint64_def Serializer_write_appends)

lemma Serializer_writeData_appends:
  "Serializer_appends (Serializer_writeData d) (serialize (of_nat (length d) :: u64) @ d)"
  unfolding Serializer_writeData_def
  by (rule Serializer_appends_then [OF Serializer_writeUint_appends(4) Serializer_writeBytes_appends])

lemma Serializer_writeFixedSizeData_appends:
  "Serializer_appends (Serializer_writeFixedSizeData d) d"
  by (simp add: Serializer_writeFixedSizeData_def Serializer_writeBytes_appends)

lemma Serializer_appends_skip: "Serializer_appends Inr []"
  by (simp add: Serializer_appends_def)

lemmas Serializer_appends_intros =
  Serializer_appends_then Serializer_writeBool_appends Serializer_writeString_appends
  Serializer_writeUint_appends Serializer_writeData_appends Serializer_writeFixedSizeData_appends

text \<open>A run of writes that fills the buffer exactly finishes with the concatenation.\<close>

lemma Serializer_run_finished:
  assumes "Serializer_appends m bs" and "length fresh = length bs"
  shows "rbind (m (Serializer_new fresh)) Serializer_finished = Inr bs"
proof -
  have wf: "ser_wf (Serializer_new fresh)" "ser_room (Serializer_new fresh) = length bs"
      "written (Serializer_new fresh) = []"
    by (simp_all add: ser_wf_def ser_room_def written_def Serializer_new_def assms(2))
  then obtain t where t: "m (Serializer_new fresh) = Inr t" "ser_wf t" "written t = bs"
      "ser_room t = 0"
    using assms(1) unfolding Serializer_appends_def by fastforce
  then have "ser_pos t = length (ser_result t)"
    by (simp add: ser_wf_def ser_room_def)
  with t show ?thesis by (simp add: Serializer_finished_def written_def)
qed

section \<open>Deserializer\<close>

record deserializer =
  des_pos :: nat
  des_source :: data

definition Deserializer_new :: "data \<Rightarrow> deserializer" where
  "Deserializer_new source = \<lparr>des_pos = 0, des_source = source\<rparr>"

definition Deserializer_read :: "deserializer \<Rightarrow> ('a::len word \<times> deserializer) result" where
  "Deserializer_read d =
     (if des_pos d + sizeof TYPE('a) > length (des_source d)
      then Inl (RuntimeError ''Deserialization failed - size overflow'')
      else rbind (deserialize (drop (des_pos d) (des_source d)))
             (\<lambda>result. Inr (result, d\<lparr>des_pos := des_pos d + sizeof TYPE('a)\<rparr>)))"

definition Deserializer_readUint8 :: "deserializer \<Rightarrow> (byte \<times> deserializer) result" where
  "Deserializer_readUint8 = Deserializer_read"

definition Deserializer_readUint16 :: "deserializer \<Rightarrow> (u16 \<times> deserializer) result" where
  "Deserializer_readUint16 = Deserializer_read"

definition Deserializer_readUint32 :: "deserializer \<Rightarrow> (u32 \<times> deserializer) result" where
  "Deserializer_readUint32 = Deserializer_read"

definition Deserializer_readUint64 :: "deserializer \<Rightarrow> (u64 \<times> deserializer) result" where
  "Deserializer_readUint64 = Deserializer_read"

definition Deserializer_readBool :: "deserializer \<Rightarrow> (bool \<times> deserializer) result" where
  "Deserializer_readBool d =
     rbind (Deserializer_readUint8 d) (\<lambda>(read, d').
       if read = 1 then Inr (True, d')
       else if read = 0 then Inr (False, d')
       else Inl (RuntimeError ''Read invalid bool value''))"

text \<open>The unchecked \<open>_readData\<close>: a \<open>memcpy\<close> out of the source at the current position.\<close>

definition Deserializer_readBytes :: "nat \<Rightarrow> deserializer \<Rightarrow> (data \<times> deserializer) result" where
  "Deserializer_readBytes sz d =
     (if des_pos d + sz \<le> length (des_source d)
      then Inr (slice (des_pos d) sz (des_source d), d\<lparr>des_pos := des_pos d + sz\<rparr>)
      else Inl MemoryFault)"

text \<open>\<open>readData\<close> compares \<open>_pos + sz\<close> in 64 bit arithmetic, then allocates \<open>size\<close> bytes.\<close>

definition Deserializer_readData :: "deserializer \<Rightarrow> (data \<times> deserializer) result" where
  "Deserializer_readData d =
     rbind (Deserializer_readUint64 d) (\<lambda>(sz, d').
       if of_nat (des_pos d') + sz > (of_nat (length (des_source d')) :: u64)
       then Inl (RuntimeError ''Deserialization failed - size overflow'')
       else rbind (Data_new zeroes (unat sz)) (\<lambda>_. Deserializer_readBytes (unat sz) d'))"

definition Deserializer_readTailData :: "deserializer \<Rightarrow> (data \<times> deserializer) result" where
  "Deserializer_readTailData d = Deserializer_readBytes (length (des_source d) - des_pos d) d"

definition Deserializer_readFixedSizeData :: "nat \<Rightarrow> deserializer \<Rightarrow> (data \<times> deserializer) result" where
  "Deserializer_readFixedSizeData SIZE d = Deserializer_readBytes SIZE d"

definition Deserializer_readString :: "deserializer \<Rightarrow> (data \<times> deserializer) result" where
  "Deserializer_readString d =
     (let rest = drop (des_pos d) (des_source d); result = takeWhile (\<lambda>b. b \<noteq> 0) rest
      in if 0 \<notin> set rest
         then Inl (RuntimeError ''Deserialization failed - missing nullbyte for string termination'')
         else Inr (result, d\<lparr>des_pos := des_pos d + length result + 1\<rparr>))"

definition Deserializer_finished :: "deserializer \<Rightarrow> unit result" where
  "Deserializer_finished d =
     (if des_pos d \<noteq> length (des_source d)
      then Inl (RuntimeError ''Deserialization failed - size not fully used.'')
      else Inr ())"

text \<open>
  Reading laws, dual to \<open>Serializer_appends\<close>: a reader consumes exactly the representation in
  front of it. \<open>des_at d bs\<close>: the unread part of the source is \<open>bs\<close>.
\<close>

definition des_at :: "deserializer \<Rightarrow> data \<Rightarrow> bool" where
  "des_at d bs \<longleftrightarrow> des_pos d \<le> length (des_source d) \<and> drop (des_pos d) (des_source d) = bs \<and>
     length (des_source d) < 2 ^ 63"

definition Deserializer_reads ::
  "(deserializer \<Rightarrow> ('a \<times> deserializer) result) \<Rightarrow> data \<Rightarrow> 'a \<Rightarrow> bool" where
  "Deserializer_reads m bs v \<longleftrightarrow>
     (\<forall>d rest. des_at d (bs @ rest) \<longrightarrow> (\<exists>d'. m d = Inr (v, d') \<and> des_at d' rest))"

lemma des_at_advance:
  assumes "des_at d (bs @ rest)"
  shows "des_at (d\<lparr>des_pos := des_pos d + length bs\<rparr>) rest"
proof -
  have eq: "drop (des_pos d) (des_source d) = bs @ rest" using assms by (simp add: des_at_def)
  then have "length (bs @ rest) = length (des_source d) - des_pos d"
    by (metis length_drop)
  moreover have "drop (des_pos d + length bs) (des_source d) = rest"
    using arg_cong [OF eq, of "drop (length bs)"] by (simp add: add.commute)
  ultimately show ?thesis using assms by (auto simp: des_at_def)
qed

lemma des_at_length: "des_at d (bs @ rest) \<Longrightarrow> des_pos d + length bs \<le> length (des_source d)"
  by (auto simp: des_at_def dest: arg_cong [where f = length])

lemma Deserializer_read_reads:
  assumes "8 dvd LENGTH('a::len)"
  shows "Deserializer_reads Deserializer_read (serialize (w :: 'a word)) w"
  unfolding Deserializer_reads_def
proof (intro allI impI)
  fix d rest assume at: "des_at d (serialize w @ rest)"
  have src: "drop (des_pos d) (des_source d) = serialize w @ rest"
    using at by (simp add: des_at_def)
  show "\<exists>d'. Deserializer_read d = Inr (w, d') \<and> des_at d' rest"
    using des_at_length [OF at] des_at_advance [OF at]
    by (simp add: Deserializer_read_def src deserialize_serialize [OF assms])
qed

lemma Deserializer_readUint_reads:
  "Deserializer_reads Deserializer_readUint8 (serialize a) a"
  "Deserializer_reads Deserializer_readUint16 (serialize b) b"
  "Deserializer_reads Deserializer_readUint32 (serialize c) c"
  "Deserializer_reads Deserializer_readUint64 (serialize e) e"
  by (simp_all add: Deserializer_readUint8_def Deserializer_readUint16_def
      Deserializer_readUint32_def Deserializer_readUint64_def Deserializer_read_reads)

lemma Deserializer_readBytes_reads: "Deserializer_reads (Deserializer_readBytes (length bs)) bs bs"
  unfolding Deserializer_reads_def
proof (intro allI impI)
  fix d rest assume at: "des_at d (bs @ rest)"
  then have "slice (des_pos d) (length bs) (des_source d) = bs"
    by (simp add: des_at_def slice_def)
  then show "\<exists>d'. Deserializer_readBytes (length bs) d = Inr (bs, d') \<and> des_at d' rest"
    using des_at_length [OF at] des_at_advance [OF at] by (simp add: Deserializer_readBytes_def)
qed

lemma Deserializer_readFixedSizeData_reads:
  "length bs = n \<Longrightarrow> Deserializer_reads (Deserializer_readFixedSizeData n) bs bs"
  using Deserializer_readBytes_reads [of bs]
  by (simp add: Deserializer_readFixedSizeData_def [abs_def])

lemma Deserializer_readBool_reads:
  "Deserializer_reads Deserializer_readBool [if b then 1 else 0] b"
  unfolding Deserializer_reads_def
proof (intro allI impI)
  fix d rest assume at: "des_at d ([if b then 1 else 0] @ rest)"
  have ser: "serialize (if b then 1 else 0 :: byte) = [if b then 1 else 0]"
    by (simp add: serialize_def)
  from at ser obtain d' where
    "Deserializer_readUint8 d = Inr (if b then 1 else 0, d')" "des_at d' rest"
    using Deserializer_readUint_reads(1) [of "if b then 1 else 0"]
    unfolding Deserializer_reads_def by metis
  then show "\<exists>d'. Deserializer_readBool d = Inr (b, d') \<and> des_at d' rest"
    by (auto simp: Deserializer_readBool_def)
qed

lemma Deserializer_readString_reads:
  assumes "0 \<notin> set v"
  shows "Deserializer_reads Deserializer_readString (v @ [0]) v"
  unfolding Deserializer_reads_def
proof (intro allI impI)
  fix d rest assume at: "des_at d ((v @ [0]) @ rest)"
  then have src: "drop (des_pos d) (des_source d) = v @ 0 # rest" by (simp add: des_at_def)
  have "takeWhile (\<lambda>b. b \<noteq> 0) (v @ 0 # rest) = v"
    using assms by (induction v) auto
  then show "\<exists>d'. Deserializer_readString d = Inr (v, d') \<and> des_at d' rest"
    using des_at_advance [OF at] by (simp add: Deserializer_readString_def src Let_def)
qed

lemma Deserializer_readData_reads:
  assumes "length v < 2 ^ 63"
  shows "Deserializer_reads Deserializer_readData (serialize (of_nat (length v) :: u64) @ v) v"
  unfolding Deserializer_reads_def
proof (intro allI impI)
  let ?n = "of_nat (length v) :: u64"
  fix d rest assume "des_at d ((serialize ?n @ v) @ rest)"
  then obtain d1 where d1: "Deserializer_readUint64 d = Inr (?n, d1)" "des_at d1 (v @ rest)"
    using Deserializer_readUint_reads(4) [of ?n] unfolding Deserializer_reads_def by fastforce
  have n: "unat ?n = length v"
    using assms by (simp add: unat_of_nat)
  have bound: "des_pos d1 + length v \<le> length (des_source d1)" "length (des_source d1) < 2 ^ 63"
    using des_at_length [OF d1(2)] d1(2) by (simp_all add: des_at_def)
  have sum: "of_nat (des_pos d1) + ?n = (of_nat (des_pos d1 + length v) :: u64)" by simp
  have "unat (of_nat (des_pos d1 + length v) :: u64) = des_pos d1 + length v"
      "unat (of_nat (length (des_source d1)) :: u64) = length (des_source d1)"
    using bound by (simp_all add: unat_of_nat del: of_nat_add)
  then have "\<not> of_nat (des_pos d1) + ?n > (of_nat (length (des_source d1)) :: u64)"
    unfolding sum word_less_nat_alt using bound by simp
  then show "\<exists>d'. Deserializer_readData d = Inr (v, d') \<and> des_at d' rest"
    using Deserializer_readBytes_reads [of v] d1 n assms
    unfolding Deserializer_reads_def Deserializer_readData_def Data_new_def by auto
qed

lemma Deserializer_reads_then:
  assumes "Deserializer_reads m bs v" and "Deserializer_reads (n v) cs w"
  shows "Deserializer_reads (\<lambda>d. rbind (m d) (\<lambda>(x, d'). n x d')) (bs @ cs) w"
  using assms unfolding Deserializer_reads_def by fastforce

lemma Deserializer_reads_return: "Deserializer_reads (\<lambda>d. Inr (v, d)) [] v"
  by (simp add: Deserializer_reads_def)

lemma Deserializer_run_finished:
  assumes "Deserializer_reads m bs v" and "length bs < 2 ^ 63"
  obtains d where "m (Deserializer_new bs) = Inr (v, d)" and "Deserializer_finished d = Inr ()"
proof -
  have "des_at (Deserializer_new bs) (bs @ [])"
    using assms(2) by (simp add: des_at_def Deserializer_new_def)
  then obtain d where d: "m (Deserializer_new bs) = Inr (v, d)" "des_at d []"
    using assms(1) unfolding Deserializer_reads_def by blast
  then have "des_pos d = length (des_source d)" by (auto simp: des_at_def)
  with d that show thesis by (simp add: Deserializer_finished_def)
qed

section \<open>RandomPadding\<close>

text \<open>\<open>randomData n\<close> is the output of the pseudo random generator for \<open>n\<close> bytes.\<close>

definition RandomPadding_add :: "(nat \<Rightarrow> data) \<Rightarrow> data \<Rightarrow> nat \<Rightarrow> data result" where
  "RandomPadding_add randomData d targetSize =
     (let sz = of_nat (length d) :: u32;
          limit = of_nat targetSize - 4 :: u64
      in if ucast sz \<ge> limit
         then Inl (RuntimeError ''Data too large. We should increase padding target size.'')
         else rbind (Data_new randomData (unat (limit - ucast sz))) (\<lambda>pad.
              rbind (ASSERT (4 + unat sz + length pad = targetSize)
                       ''Calculated size of randomData incorrectly'')
                (\<lambda>_. Inr (serialize sz @ take (unat sz) d @ pad))))"

definition RandomPadding_remove :: "data \<Rightarrow> data option result" where
  "RandomPadding_remove d =
     rbind (deserialize d) (\<lambda>sz :: u32.
       if 4 + unat sz \<ge> length d then Inr None
       else Inr (Some (slice 4 (unat sz) d)))"

end
