(* ===== verification/BlockIds.thy ===== *)
theory BlockIds
  imports CppData "HOL-Library.List_Lexorder"
begin

text \<open>
  \<open>src/src/blockstore/utils/IdWrapper.h\<close> and the \<open>FixedSizeData<16>\<close> it wraps: block identifiers
  are arrays of exactly 16 bytes, compared by \<open>memcmp\<close>. \<open>std::less\<close> on them is a linear order,
  which the directory listings rely on.
\<close>

section \<open>FixedSizeData and BlockId\<close>

typedef block_id = "{bs :: data. length bs = 16}" morphisms block_bytes Abs_block_id
  by (rule exI [of _ "zeroes 16"]) simp

definition BINARY_LENGTH :: nat where
  "BINARY_LENGTH = 16"

text \<open>The identifier made of the first 16 bytes of a buffer.\<close>

definition BlockId_of :: "data \<Rightarrow> block_id" where
  "BlockId_of bs = Abs_block_id (take 16 (bs @ zeroes 16))"

definition BlockId_ToBinary :: "block_id \<Rightarrow> data" where
  "BlockId_ToBinary i = block_bytes i"

declare block_bytes_inverse [code abstype]

lemma block_bytes_BlockId_of [code abstract]:
  "block_bytes (BlockId_of bs) = take 16 (bs @ zeroes 16)"
  by (simp add: BlockId_of_def Abs_block_id_inverse)

definition BlockId_FromBinary :: "data \<Rightarrow> block_id result" where
  "BlockId_FromBinary source =
     (if BINARY_LENGTH \<le> length source then Inr (BlockId_of source) else Inl MemoryFault)"

definition BlockId_Null :: block_id where
  "BlockId_Null = BlockId_of (zeroes BINARY_LENGTH)"

lemma length_ToBinary [simp, data_simps]: "length (BlockId_ToBinary i) = 16"
  using block_bytes [of i] by (simp add: BlockId_ToBinary_def)

lemma BlockId_of_ToBinary [simp]: "BlockId_of (BlockId_ToBinary i @ rest) = i"
  using block_bytes [of i] by (simp add: BlockId_ToBinary_def BlockId_of_def block_bytes_inverse)

lemma BlockId_of_ToBinary' [simp]: "BlockId_of (BlockId_ToBinary i) = i"
  using BlockId_of_ToBinary [of i "[]"] by simp

lemma ToBinary_BlockId_of: "16 \<le> length bs \<Longrightarrow> BlockId_ToBinary (BlockId_of bs) = take 16 bs"
  by (simp add: BlockId_ToBinary_def block_bytes_BlockId_of)

lemma ToBinary_inject [simp]: "BlockId_ToBinary i = BlockId_ToBinary j \<longleftrightarrow> i = j"
  by (metis BlockId_of_ToBinary')

lemma BlockId_of_inject:
  "length bs = 16 \<Longrightarrow> length cs = 16 \<Longrightarrow> BlockId_of bs = BlockId_of cs \<longleftrightarrow> bs = cs"
  by (metis ToBinary_BlockId_of order_refl take_all)

lemma FromBinary_ToBinary [simp]: "BlockId_FromBinary (BlockId_ToBinary i @ rest) = Inr i"
  by (simp add: BlockId_FromBinary_def BINARY_LENGTH_def)

lemma FromBinary_slice:
  assumes "slice off 16 buf = BlockId_ToBinary i"
  shows "BlockId_FromBinary (drop off buf) = Inr i"
proof -
  have "drop off buf = slice off 16 buf @ drop 16 (drop off buf)"
    unfolding slice_def by (rule append_take_drop_id [symmetric])
  with assms show ?thesis by (metis FromBinary_ToBinary)
qed

definition IdWrapper_equal :: "block_id \<Rightarrow> block_id \<Rightarrow> bool" where
  "IdWrapper_equal lhs rhs \<longleftrightarrow> BlockId_ToBinary lhs = BlockId_ToBinary rhs"

instantiation block_id :: equal
begin

definition equal_block_id :: "block_id \<Rightarrow> block_id \<Rightarrow> bool" where
  "equal_block_id = IdWrapper_equal"

instance
  by intro_classes (simp add: equal_block_id_def IdWrapper_equal_def)

end

section \<open>The order\<close>

text \<open>\<open>memcmp\<close>: the sign of the first difference of unsigned bytes.\<close>

fun memcmp :: "data \<Rightarrow> data \<Rightarrow> int" where
  "memcmp (a # as) (b # bs) = (if a < b then -1 else if b < a then 1 else memcmp as bs)"
| "memcmp _ _ = 0"

lemma memcmp_less: "length as = length bs \<Longrightarrow> memcmp as bs < 0 \<longleftrightarrow> as < bs"
  by (induction as bs rule: memcmp.induct) auto

lemma memcmp_zero: "length as = length bs \<Longrightarrow> memcmp as bs = 0 \<longleftrightarrow> as = bs"
  by (induction as bs rule: memcmp.induct) auto

definition IdWrapper_less :: "block_id \<Rightarrow> block_id \<Rightarrow> bool" where
  "IdWrapper_less lhs rhs \<longleftrightarrow> 0 > memcmp (BlockId_ToBinary lhs) (BlockId_ToBinary rhs)"

instantiation block_id :: linorder
begin

definition less_block_id :: "block_id \<Rightarrow> block_id \<Rightarrow> bool" where
  "less_block_id = IdWrapper_less"

definition less_eq_block_id :: "block_id \<Rightarrow> block_id \<Rightarrow> bool" where
  "less_eq_block_id lhs rhs \<longleftrightarrow> lhs < rhs \<or> lhs = rhs"

instance
proof
  fix x y z :: block_id
  have less: "(a :: block_id) < b \<longleftrightarrow> BlockId_ToBinary a < BlockId_ToBinary b" for a b
    by (simp add: less_block_id_def IdWrapper_less_def memcmp_less)
  have le: "(a :: block_id) \<le> b \<longleftrightarrow> BlockId_ToBinary a \<le> BlockId_ToBinary b" for a b
    unfolding less_eq_block_id_def less by (metis ToBinary_inject order.order_iff_strict)
  show "(x < y) = (x \<le> y \<and> \<not> y \<le> x)" unfolding less le by (rule less_le_not_le)
  show "x \<le> x" unfolding le by simp
  show "x \<le> y \<Longrightarrow> y \<le> z \<Longrightarrow> x \<le> z" unfolding le by (rule order_trans)
  show "x \<le> y \<Longrightarrow> y \<le> x \<Longrightarrow> x = y" unfolding le by (metis ToBinary_inject order_antisym)
  show "x \<le> y \<or> y \<le> x" unfolding le by (rule linear)
qed

end

lemma less_block_id_iff: "(i :: block_id) < j \<longleftrightarrow> BlockId_ToBinary i < BlockId_ToBinary j"
  by (simp add: less_block_id_def IdWrapper_less_def memcmp_less)

text \<open>Concrete identifiers used by the examples: \<open>bid n\<close> has \<open>n\<close> in every byte.\<close>

definition bid :: "byte \<Rightarrow> block_id" where
  "bid n = BlockId_of (replicate 16 n)"

lemma bid_inject [simp]: "bid m = bid n \<longleftrightarrow> m = n"
  unfolding bid_def by (subst BlockId_of_inject) auto

lemma ToBinary_bid [simp]: "BlockId_ToBinary (bid n) = replicate 16 n"
  unfolding bid_def by (subst ToBinary_BlockId_of) auto

lemma bid_less [simp]: "bid m < bid n \<longleftrightarrow> m < n"
proof -
  have "0 > memcmp (replicate (Suc k) m) (replicate (Suc k) n) \<longleftrightarrow> m < n" for k
    by (induction k) auto
  from this [of 15] show ?thesis by (simp add: less_block_id_def IdWrapper_less_def)
qed

end
