(* ===== verification/BlockStores.thy ===== *)
theory BlockStores
  imports BlockIds "HOL-Library.AList"
begin

text \<open>
  \<open>src/src/blockstore/interface/BlockStore2.h\<close>: the virtual interface of a low level block store is
  a record of operations on the state of the implementing object, so that a decorator (encryption,
  integrity, caching) is a function from such records to such records. The locale \<open>block_store2\<close> is
  the contract of the interface: through an abstraction to a finite map from identifiers to blocks.
  The in-memory store and the read-only decorator are modelled here.
\<close>

named_theorems store_simps \<open>the operations of the block stores\<close>

section \<open>The interface\<close>

record 's block_store2 =
  tryCreate_of :: "block_id \<Rightarrow> data \<Rightarrow> ('s, bool) exec"
  remove_of :: "block_id \<Rightarrow> ('s, bool) exec"
  load_of :: "block_id \<Rightarrow> ('s, data option) exec"
  store_of :: "block_id \<Rightarrow> data \<Rightarrow> ('s, unit) exec"
  numBlocks_of :: "('s, nat) exec"
  estimateNumFreeBytes_of :: "('s, nat) exec"
  blockSizeFromPhysicalBlockSize_of :: "nat \<Rightarrow> nat"
  forEachBlock_of :: "('s, block_id list) exec"

text \<open>
  \<open>forEachBlock\<close> is the sequence of identifiers the callback is invoked with. \<open>create\<close> draws random
  identifiers until \<open>tryCreate\<close> accepts one; the list argument is the sequence of identifiers the
  random generator delivers, and \<open>None\<close> means that the loop is still running when it is used up.
\<close>

fun BlockStore2_create :: "'s block_store2 \<Rightarrow> block_id list \<Rightarrow> data \<Rightarrow> ('s, block_id option) exec" where
  "BlockStore2_create bs [] d = ret None"
| "BlockStore2_create bs (blockId # ids) d =
     ebind (tryCreate_of bs blockId d)
       (\<lambda>success. if success then ret (Some blockId) else BlockStore2_create bs ids d)"

section \<open>Sequences of operations\<close>

text \<open>
  A run of a store is a list of calls; the reference is a plain map. \<open>fresh_creates\<close> says that
  \<open>tryCreate\<close> is only called with an identifier that is not in use.
\<close>

datatype store_op =
    Load block_id
  | Store block_id data
  | TryCreate block_id data
  | Remove block_id
  | NumBlocks

datatype store_answer =
    Loaded "data option"
  | Stored
  | Created bool
  | Removed bool
  | Counted nat

definition answer :: "('a \<Rightarrow> store_answer) \<Rightarrow> ('s, 'a) exec \<Rightarrow> ('s, store_answer) exec" where
  "answer f m = ebind m (\<lambda>x. ret (f x))"

primrec run_op :: "'s block_store2 \<Rightarrow> store_op \<Rightarrow> ('s, store_answer) exec" where
  "run_op bs (Load i) = answer Loaded (load_of bs i)"
| "run_op bs (Store i d) = answer (\<lambda>_. Stored) (store_of bs i d)"
| "run_op bs (TryCreate i d) = answer Created (tryCreate_of bs i d)"
| "run_op bs (Remove i) = answer Removed (remove_of bs i)"
| "run_op bs NumBlocks = answer Counted (numBlocks_of bs)"

primrec run_ops :: "'s block_store2 \<Rightarrow> store_op list \<Rightarrow> ('s, store_answer list) exec" where
  "run_ops bs [] = ret []"
| "run_ops bs (p # ps) = ebind (run_op bs p) (\<lambda>a. ebind (run_ops bs ps) (\<lambda>as. ret (a # as)))"

primrec spec_answer :: "(block_id \<rightharpoonup> data) \<Rightarrow> store_op \<Rightarrow> store_answer" where
  "spec_answer m (Load i) = Loaded (m i)"
| "spec_answer m (Store i d) = Stored"
| "spec_answer m (TryCreate i d) = Created (m i = None)"
| "spec_answer m (Remove i) = Removed (m i \<noteq> None)"
| "spec_answer m NumBlocks = Counted (card (dom m))"

primrec spec_map :: "(block_id \<rightharpoonup> data) \<Rightarrow> store_op \<Rightarrow> (block_id \<rightharpoonup> data)" where
  "spec_map m (Load i) = m"
| "spec_map m (Store i d) = m(i \<mapsto> d)"
| "spec_map m (TryCreate i d) = (if m i = None then m(i \<mapsto> d) else m)"
| "spec_map m (Remove i) = m(i := None)"
| "spec_map m NumBlocks = m"

primrec spec_answers :: "(block_id \<rightharpoonup> data) \<Rightarrow> store_op list \<Rightarrow> store_answer list" where
  "spec_answers m [] = []"
| "spec_answers m (p # ps) = spec_answer m p # spec_answers (spec_map m p) ps"

primrec fresh_creates :: "(block_id \<rightharpoonup> data) \<Rightarrow> store_op list \<Rightarrow> bool" where
  "fresh_creates m [] \<longleftrightarrow> True"
| "fresh_creates m (p # ps) \<longleftrightarrow>
     (case p of TryCreate i d \<Rightarrow> m i = None | _ \<Rightarrow> True) \<and> fresh_creates (spec_map m p) ps"

primrec op_data :: "store_op \<Rightarrow> data set" where
  "op_data (Load i) = {}"
| "op_data (Store i d) = {d}"
| "op_data (TryCreate i d) = {d}"
| "op_data (Remove i) = {}"
| "op_data NumBlocks = {}"

lemma yields_answer: "yields m s x Q \<Longrightarrow> f x = y \<Longrightarrow> yields (answer f m) s y Q"
  unfolding answer_def by (erule yields_ebind) simp

section \<open>The contract\<close>

text \<open>
  \<open>blocks s\<close> is the map a store represents. Two limits of real stores are part of the contract:
  \<open>fits d\<close> says that a block has an acceptable size (a cipher has a maximal message size), and
  \<open>capacity s n\<close> that the store can take \<open>n\<close> more writes (an integrity store runs out of version
  numbers). A write uses up at most one unit of capacity, every other operation none.
\<close>

locale block_store2 =
  fixes bs :: "'s block_store2"
    and inv :: "'s \<Rightarrow> bool"
    and blocks :: "'s \<Rightarrow> block_id \<rightharpoonup> data"
    and fits :: "data \<Rightarrow> bool"
    and capacity :: "'s \<Rightarrow> nat \<Rightarrow> bool"
  assumes load: "inv s \<Longrightarrow>
      yields (load_of bs i) s (blocks s i)
        (\<lambda>t. inv t \<and> blocks t = blocks s \<and> (\<forall>n. capacity s n \<longrightarrow> capacity t n))"
    and store: "inv s \<Longrightarrow> fits d \<Longrightarrow> capacity s (Suc 0) \<Longrightarrow>
      yields (store_of bs i d) s ()
        (\<lambda>t. inv t \<and> blocks t = (blocks s)(i \<mapsto> d) \<and> (\<forall>n. capacity s (Suc n) \<longrightarrow> capacity t n))"
    and tryCreate_fresh: "inv s \<Longrightarrow> fits d \<Longrightarrow> capacity s (Suc 0) \<Longrightarrow> blocks s i = None \<Longrightarrow>
      yields (tryCreate_of bs i d) s True
        (\<lambda>t. inv t \<and> blocks t = (blocks s)(i \<mapsto> d) \<and> (\<forall>n. capacity s (Suc n) \<longrightarrow> capacity t n))"
    and remove: "inv s \<Longrightarrow>
      yields (remove_of bs i) s (blocks s i \<noteq> None)
        (\<lambda>t. inv t \<and> blocks t = (blocks s)(i := None) \<and> (\<forall>n. capacity s n \<longrightarrow> capacity t n))"
    and numBlocks: "inv s \<Longrightarrow>
      yields (numBlocks_of bs) s (card (dom (blocks s)))
        (\<lambda>t. inv t \<and> blocks t = blocks s \<and> (\<forall>n. capacity s n \<longrightarrow> capacity t n))"
    and finite_blocks: "inv s \<Longrightarrow> finite (dom (blocks s))"
    and capacity_mono: "capacity s n \<Longrightarrow> m \<le> n \<Longrightarrow> capacity s m"
begin

lemma load_after_store:
  assumes "inv s" and "fits d" and "capacity s (Suc 0)"
  shows "yields (ebind (store_of bs i d) (\<lambda>_. load_of bs j)) s
    (if j = i then Some d else blocks s j) (\<lambda>t. inv t \<and> blocks t = (blocks s)(i \<mapsto> d))"
  by (rule yields_ebind [OF store [OF assms]])
    (use load in \<open>auto elim!: yields_mono dest: load [where i = j]\<close>)

lemma load_after_remove:
  assumes "inv s"
  shows "yields (ebind (remove_of bs i) (\<lambda>_. load_of bs j)) s
    (if j = i then None else blocks s j) (\<lambda>t. inv t \<and> blocks t = (blocks s)(i := None))"
  by (rule yields_ebind [OF remove [OF assms]])
    (use load in \<open>auto elim!: yields_mono dest: load [where i = j]\<close>)

text \<open>Any sequence of calls is answered as by the map.\<close>

lemma run_op_refines:
  assumes "inv s" and "\<forall>d\<in>op_data p. fits d" and "capacity s (Suc n)"
    and "fresh_creates (blocks s) [p]"
  shows "yields (run_op bs p) s (spec_answer (blocks s) p)
    (\<lambda>t. inv t \<and> blocks t = spec_map (blocks s) p \<and> capacity t n)"
proof -
  have c: "capacity s n" "capacity s (Suc 0)"
    using assms(3) capacity_mono by (meson le_SucI le_refl, meson Suc_le_mono zero_le)
  show ?thesis
  proof (cases p)
    case (Load i)
    show ?thesis unfolding Load run_op.simps spec_answer.simps spec_map.simps
      by (rule yields_answer [OF yields_mono [OF load [OF assms(1)]]]) (use c in auto)
  next
    case (Store i d)
    then have "fits d" using assms by auto
    from store [OF assms(1) this c(2)] show ?thesis
      unfolding Store run_op.simps spec_answer.simps spec_map.simps
      by (rule yields_answer [OF yields_mono]) (use assms(3) in auto)
  next
    case (TryCreate i d)
    then have "blocks s i = None" "fits d" using assms by auto
    then show ?thesis
      using yields_mono [OF tryCreate_fresh [OF assms(1) _ c(2)],
        of d i "\<lambda>t. inv t \<and> blocks t = spec_map (blocks s) p \<and> capacity t n"] assms(3)
      by (simp add: TryCreate yields_answer)
  next
    case (Remove i)
    show ?thesis unfolding Remove run_op.simps spec_answer.simps spec_map.simps
      by (rule yields_answer [OF yields_mono [OF remove [OF assms(1)]]]) (use c in auto)
  next
    case NumBlocks
    show ?thesis unfolding NumBlocks run_op.simps spec_answer.simps spec_map.simps
      by (rule yields_answer [OF yields_mono [OF numBlocks [OF assms(1)]]]) (use c in auto)
  qed
qed

lemma run_ops_refines:
  assumes "inv s" and "\<forall>p\<in>set ps. \<forall>d\<in>op_data p. fits d" and "capacity s (length ps + n)"
    and "fresh_creates (blocks s) ps"
  shows "yields (run_ops bs ps) s (spec_answers (blocks s) ps)
    (\<lambda>t. inv t \<and> blocks t = fold (\<lambda>p m. spec_map m p) ps (blocks s) \<and> capacity t n)"
  using assms
proof (induction ps arbitrary: s)
  case Nil
  then show ?case by simp
next
  case (Cons p ps)
  have "capacity s (Suc (length ps + n))" "fresh_creates (blocks s) [p]"
    using Cons.prems by auto
  with Cons.prems(1,2) have "yields (run_op bs p) s (spec_answer (blocks s) p)
      (\<lambda>t. inv t \<and> blocks t = spec_map (blocks s) p \<and> capacity t (length ps + n))"
    by (intro run_op_refines) auto
  then show ?case
    unfolding run_ops.simps spec_answers.simps
  proof (rule yields_ebind, elim conjE)
    fix t assume t: "inv t" "blocks t = spec_map (blocks s) p" "capacity t (length ps + n)"
    have "yields (run_ops bs ps) t (spec_answers (blocks t) ps)
        (\<lambda>u. inv u \<and> blocks u = fold (\<lambda>p m. spec_map m p) ps (blocks t) \<and> capacity u n)"
      using Cons.prems t by (intro Cons.IH) auto
    then show "yields (ebind (run_ops bs ps) (\<lambda>as. ret (spec_answer (blocks s) p # as))) t
        (spec_answer (blocks s) p # spec_answers (spec_map (blocks s) p) ps)
        (\<lambda>u. inv u \<and> blocks u = fold (\<lambda>p m. spec_map m p) (p # ps) (blocks s) \<and> capacity u n)"
      unfolding t(2) by (rule yields_ebind) simp
  qed
qed

end

text \<open>
  The stores that also refuse to create a block that exists. \<open>IntegrityBlockStore2\<close> and
  \<open>CachingBlockStore2\<close> do not belong to them, see the theories \<open>IntegrityStore\<close> and \<open>CachingStore\<close>.
\<close>

locale block_store2_strict = block_store2 +
  assumes tryCreate_existing: "inv s \<Longrightarrow> blocks s i \<noteq> None \<Longrightarrow> fits d \<Longrightarrow> capacity s (Suc 0) \<Longrightarrow>
      yields (tryCreate_of bs i d) s False
        (\<lambda>t. inv t \<and> blocks t = blocks s \<and> (\<forall>n. capacity s n \<longrightarrow> capacity t n))"
begin

text \<open>\<open>create\<close> stores the block under the first identifier that is not in use.\<close>

lemma create_first_fresh:
  assumes "inv s" and "fits d" and "capacity s (Suc 0)"
  shows "yields (BlockStore2_create bs ids d) s (List.find (\<lambda>i. blocks s i = None) ids)
    (\<lambda>t. inv t \<and> blocks t =
       (case List.find (\<lambda>i. blocks s i = None) ids of None \<Rightarrow> blocks s | Some i \<Rightarrow> (blocks s)(i \<mapsto> d)))"
  using assms
proof (induction ids arbitrary: s)
  case Nil
  then show ?case by simp
next
  case (Cons i ids)
  show ?case
  proof (cases "blocks s i = None")
    case True
    with Cons.prems show ?thesis
      by (auto intro!: yields_ebind [OF tryCreate_fresh] simp: fun_eq_iff)
  next
    case False
    then have ex: "yields (tryCreate_of bs i d) s False
        (\<lambda>t. inv t \<and> blocks t = blocks s \<and> (\<forall>n. capacity s n \<longrightarrow> capacity t n))"
      using tryCreate_existing Cons.prems by auto
    show ?thesis
      unfolding BlockStore2_create.simps
    proof (rule yields_ebind [OF ex])
      fix t assume t: "inv t \<and> blocks t = blocks s \<and> (\<forall>n. capacity s n \<longrightarrow> capacity t n)"
      then have bt: "blocks t = blocks s" and "capacity t (Suc 0)"
        using Cons.prems by auto
      with t have "yields (BlockStore2_create bs ids d) t (List.find (\<lambda>i. blocks s i = None) ids)
          (\<lambda>u. inv u \<and> blocks u = (case List.find (\<lambda>i. blocks s i = None) ids of
             None \<Rightarrow> blocks s | Some i \<Rightarrow> (blocks s)(i \<mapsto> d)))"
        using Cons.IH [of t] Cons.prems(2) unfolding bt by blast
      then show "yields (if False then ret (Some i) else BlockStore2_create bs ids d) t
          (List.find (\<lambda>i. blocks s i = None) (i # ids))
          (\<lambda>u. inv u \<and> blocks u = (case List.find (\<lambda>i. blocks s i = None) (i # ids) of
             None \<Rightarrow> blocks s | Some i \<Rightarrow> (blocks s)(i \<mapsto> d)))"
        by (simp only: find.simps False if_False)
    qed
  qed
qed

end

section \<open>InMemoryBlockStore2\<close>

text \<open>
  The \<open>std::unordered_map\<close> is an association list with distinct keys; its order stands for the
  unspecified iteration order.
\<close>

type_synonym inmemory = "(block_id \<times> data) list"

definition InMemoryBlockStore2_tryCreate_unlocked :: "block_id \<Rightarrow> data \<Rightarrow> (inmemory, bool) exec" where
  "InMemoryBlockStore2_tryCreate_unlocked blockId d s =
     (if map_of s blockId = None then (Inr True, s @ [(blockId, d)]) else (Inr False, s))"

definition InMemoryBlockStore2_tryCreate :: "block_id \<Rightarrow> data \<Rightarrow> (inmemory, bool) exec" where
  "InMemoryBlockStore2_tryCreate blockId d = InMemoryBlockStore2_tryCreate_unlocked blockId d"

definition InMemoryBlockStore2_remove :: "block_id \<Rightarrow> (inmemory, bool) exec" where
  "InMemoryBlockStore2_remove blockId s =
     (case map_of s blockId of
        None \<Rightarrow> (Inr False, s)
      | Some _ \<Rightarrow> (Inr True, AList.delete blockId s))"

definition InMemoryBlockStore2_load :: "block_id \<Rightarrow> (inmemory, data option) exec" where
  "InMemoryBlockStore2_load blockId s = (Inr (map_of s blockId), s)"

definition InMemoryBlockStore2_store :: "block_id \<Rightarrow> data \<Rightarrow> (inmemory, unit) exec" where
  "InMemoryBlockStore2_store blockId d s =
     (case map_of s blockId of
        None \<Rightarrow>
          ebind (InMemoryBlockStore2_tryCreate_unlocked blockId d)
            (\<lambda>success. if \<not> success
               then throw (RuntimeError ''Could neither save nor create the block in InMemoryBlockStore::store()'')
               else ret ()) s
      | Some _ \<Rightarrow> (Inr (), AList.update blockId d s))"

definition InMemoryBlockStore2_allBlockIds :: "inmemory \<Rightarrow> block_id list" where
  "InMemoryBlockStore2_allBlockIds s = map fst s"

text \<open>\<open>totalMemory\<close> is what \<open>get_total_memory()\<close> reports.\<close>

definition InMemoryBlockStore2 :: "nat \<Rightarrow> inmemory block_store2" where
  "InMemoryBlockStore2 totalMemory = \<lparr>
     tryCreate_of = InMemoryBlockStore2_tryCreate,
     remove_of = InMemoryBlockStore2_remove,
     load_of = InMemoryBlockStore2_load,
     store_of = InMemoryBlockStore2_store,
     numBlocks_of = gets length,
     estimateNumFreeBytes_of = ret totalMemory,
     blockSizeFromPhysicalBlockSize_of = (\<lambda>blockSize. blockSize),
     forEachBlock_of = gets InMemoryBlockStore2_allBlockIds\<rparr>"

definition inmemory_inv :: "inmemory \<Rightarrow> bool" where
  "inmemory_inv s \<longleftrightarrow> distinct (map fst s)"

lemma InMemoryBlockStore2_sel [simp]:
  "tryCreate_of (InMemoryBlockStore2 m) = InMemoryBlockStore2_tryCreate"
  "remove_of (InMemoryBlockStore2 m) = InMemoryBlockStore2_remove"
  "load_of (InMemoryBlockStore2 m) = InMemoryBlockStore2_load"
  "store_of (InMemoryBlockStore2 m) = InMemoryBlockStore2_store"
  "numBlocks_of (InMemoryBlockStore2 m) = gets length"
  "blockSizeFromPhysicalBlockSize_of (InMemoryBlockStore2 m) n = n"
  "forEachBlock_of (InMemoryBlockStore2 m) = gets InMemoryBlockStore2_allBlockIds"
  by (simp_all add: InMemoryBlockStore2_def)

lemmas InMemoryBlockStore2_ops [store_simps] =
  InMemoryBlockStore2_tryCreate_def InMemoryBlockStore2_tryCreate_unlocked_def
  InMemoryBlockStore2_remove_def InMemoryBlockStore2_load_def InMemoryBlockStore2_store_def

lemma map_of_snoc: "map_of (s @ [(k, v)]) k' = (case map_of s k' of None \<Rightarrow> [k \<mapsto> v] k' | Some w \<Rightarrow> Some w)"
  by (simp add: map_add_def split: option.splits)

lemma inmemory_create_inv:
  assumes "inmemory_inv s" and "map_of s i = None"
  shows "inmemory_inv (s @ [(i, d)]) \<and> map_of (s @ [(i, d)]) = (map_of s)(i \<mapsto> d)"
proof
  show "inmemory_inv (s @ [(i, d)])"
    using assms by (auto simp: inmemory_inv_def map_of_eq_None_iff)
  show "map_of (s @ [(i, d)]) = (map_of s)(i \<mapsto> d)"
    using assms(2) by (auto simp: fun_eq_iff map_of_snoc simp del: map_of_append split: option.splits)
qed

lemma card_dom_map_of: "distinct (map fst s) \<Longrightarrow> card (dom (map_of s)) = length s"
  by (metis distinct_card dom_map_of_conv_image_fst length_map set_map)

interpretation inmemory: block_store2_strict
  "InMemoryBlockStore2 m" inmemory_inv map_of "\<lambda>d. True" "\<lambda>s n. True" for m
proof unfold_locales
  fix s :: inmemory and i d
  assume inv: "inmemory_inv s"
  show "yields (load_of (InMemoryBlockStore2 m) i) s (map_of s i)
      (\<lambda>t. inmemory_inv t \<and> map_of t = map_of s \<and> (\<forall>n. True \<longrightarrow> True))"
    using inv by (simp add: store_simps yields_def)
  show "yields (store_of (InMemoryBlockStore2 m) i d) s ()
      (\<lambda>t. inmemory_inv t \<and> map_of t = (map_of s)(i \<mapsto> d) \<and> (\<forall>n. True \<longrightarrow> True))"
    using inv inmemory_create_inv [OF inv, of i d]
    by (auto simp: store_simps yields_def ebind_def update_conv' distinct_update inmemory_inv_def
        split: option.splits)
  show "yields (remove_of (InMemoryBlockStore2 m) i) s (map_of s i \<noteq> None)
      (\<lambda>t. inmemory_inv t \<and> map_of t = (map_of s)(i := None) \<and> (\<forall>n. True \<longrightarrow> True))"
    using inv
    by (auto simp: store_simps yields_def delete_conv' distinct_delete inmemory_inv_def fun_upd_idem
        split: option.splits)
  show "yields (numBlocks_of (InMemoryBlockStore2 m)) s (card (dom (map_of s)))
      (\<lambda>t. inmemory_inv t \<and> map_of t = map_of s \<and> (\<forall>n. True \<longrightarrow> True))"
    using inv by (simp add: card_dom_map_of inmemory_inv_def)
  show "yields (tryCreate_of (InMemoryBlockStore2 m) i d) s True
      (\<lambda>t. inmemory_inv t \<and> map_of t = (map_of s)(i \<mapsto> d) \<and> (\<forall>n. True \<longrightarrow> True))"
    if "map_of s i = None"
    using inmemory_create_inv [OF inv that] that by (simp add: store_simps yields_def)
  show "yields (tryCreate_of (InMemoryBlockStore2 m) i d) s False
      (\<lambda>t. inmemory_inv t \<and> map_of t = map_of s \<and> (\<forall>n. True \<longrightarrow> True))"
    if "map_of s i \<noteq> None"
    using inv that by (auto simp: store_simps yields_def)
  show "finite (dom (map_of s))" by (rule finite_dom_map_of)
qed simp

section \<open>ReadOnlyBlockStore2\<close>

definition ReadOnlyBlockStore2 :: "'s block_store2 \<Rightarrow> 's block_store2" where
  "ReadOnlyBlockStore2 base = \<lparr>
     tryCreate_of = (\<lambda>_ _. throw (LogicError ''Tried to call tryCreate on a ReadOnlyBlockStore. Writes to the block store aren't allowed.'')),
     remove_of = (\<lambda>_. throw (LogicError ''Tried to call remove on a ReadOnlyBlockStore. Writes to the block store aren't allowed.'')),
     load_of = load_of base,
     store_of = (\<lambda>_ _. throw (LogicError ''Tried to call store on a ReadOnlyBlockStore. Writes to the block store aren't allowed.'')),
     numBlocks_of = numBlocks_of base,
     estimateNumFreeBytes_of = estimateNumFreeBytes_of base,
     blockSizeFromPhysicalBlockSize_of = blockSizeFromPhysicalBlockSize_of base,
     forEachBlock_of = forEachBlock_of base\<rparr>"

end
