(* ===== verification/HighLevel.thy ===== *)
theory HighLevel
  imports BlockStores
begin

text \<open>
  \<open>src/src/blockstore/implementations/low2highlevel\<close>, \<open>interface/BlockStore.h\<close> and
  \<open>utils/BlockStoreUtils.cpp\<close>: block objects that are loaded into memory, changed there and written
  back when they are flushed or destroyed. The upper layers work with such objects; as
  \<open>ParallelAccessBlockStore\<close> hands out one shared object per identifier, what a holder of an open
  block reads is what any holder last wrote, and the second part models open blocks that way: by
  their identifier, each write visible at once.
\<close>

section \<open>LowToHighLevelBlock\<close>

record high_block =
  hb_blockId :: block_id
  hb_data :: data
  hb_dataChanged :: bool

definition LowToHighLevelBlock_new :: "block_id \<Rightarrow> data \<Rightarrow> high_block" where
  "LowToHighLevelBlock_new blockId d = \<lparr>hb_blockId = blockId, hb_data = d, hb_dataChanged = False\<rparr>"

definition LowToHighLevelBlock_TryCreateNew ::
  "'s block_store2 \<Rightarrow> block_id \<Rightarrow> data \<Rightarrow> ('s, high_block option) exec" where
  "LowToHighLevelBlock_TryCreateNew base blockId d =
     ebind (tryCreate_of base blockId d) (\<lambda>success.
       if \<not> success then ret None else ret (Some (LowToHighLevelBlock_new blockId d)))"

definition LowToHighLevelBlock_Overwrite ::
  "'s block_store2 \<Rightarrow> block_id \<Rightarrow> data \<Rightarrow> ('s, high_block) exec" where
  "LowToHighLevelBlock_Overwrite base blockId d =
     ebind (store_of base blockId d) (\<lambda>_. ret (LowToHighLevelBlock_new blockId d))"

definition LowToHighLevelBlock_Load :: "'s block_store2 \<Rightarrow> block_id \<Rightarrow> ('s, high_block option) exec" where
  "LowToHighLevelBlock_Load base blockId =
     ebind (load_of base blockId) (\<lambda>loadedData.
       case loadedData of
         None \<Rightarrow> ret None
       | Some d \<Rightarrow> ret (Some (LowToHighLevelBlock_new blockId d)))"

text \<open>\<open>offset + count\<close> is a 64 bit sum; the test on \<open>offset\<close> alone rules its overflow out.\<close>

definition LowToHighLevelBlock_write :: "data \<Rightarrow> nat \<Rightarrow> high_block \<Rightarrow> high_block result" where
  "LowToHighLevelBlock_write source offset b =
     rbind (ASSERT (offset \<le> length (hb_data b) \<and> offset + length source \<le> length (hb_data b))
              ''Write outside of valid area'')
       (\<lambda>_. Inr (b\<lparr>hb_data := write_at offset source (hb_data b), hb_dataChanged := True\<rparr>))"

definition LowToHighLevelBlock_resize :: "nat \<Rightarrow> high_block \<Rightarrow> high_block" where
  "LowToHighLevelBlock_resize newSize b =
     b\<lparr>hb_data := DataUtils_resize (hb_data b) newSize, hb_dataChanged := True\<rparr>"

definition LowToHighLevelBlock_storeToBaseBlock ::
  "'s block_store2 \<Rightarrow> high_block \<Rightarrow> ('s, high_block) exec" where
  "LowToHighLevelBlock_storeToBaseBlock base b =
     (if hb_dataChanged b
      then ebind (store_of base (hb_blockId b) (hb_data b)) (\<lambda>_. ret (b\<lparr>hb_dataChanged := False\<rparr>))
      else ret b)"

definition LowToHighLevelBlock_flush :: "'s block_store2 \<Rightarrow> high_block \<Rightarrow> ('s, high_block) exec" where
  "LowToHighLevelBlock_flush base b = LowToHighLevelBlock_storeToBaseBlock base b"

definition LowToHighLevelBlock_destroy :: "'s block_store2 \<Rightarrow> high_block \<Rightarrow> ('s, unit) exec" where
  "LowToHighLevelBlock_destroy base b =
     ebind (LowToHighLevelBlock_storeToBaseBlock base b) (\<lambda>_. ret ())"

section \<open>LowToHighLevelBlockStore\<close>

text \<open>
  The state adds the identifiers that \<open>BlockId::Random()\<close> is going to deliver. \<open>create\<close> tries them
  until one is free; it runs out of fuel if the model's supply ends first.
\<close>

type_synonym 's hl_state = "block_id list \<times> 's"

definition LowToHighLevelBlockStore_createBlockId :: "('s hl_state, block_id) exec" where
  "LowToHighLevelBlockStore_createBlockId s =
     (case fst s of [] \<Rightarrow> (Inl OutOfFuel, s) | i # ids \<Rightarrow> (Inr i, (ids, snd s)))"

definition LowToHighLevelBlockStore_tryCreate ::
  "'s block_store2 \<Rightarrow> block_id \<Rightarrow> data \<Rightarrow> ('s hl_state, high_block option) exec" where
  "LowToHighLevelBlockStore_tryCreate base blockId d =
     zoom_snd (LowToHighLevelBlock_TryCreateNew base blockId d)"

fun BlockStore_create_loop :: "'s block_store2 \<Rightarrow> data \<Rightarrow> nat \<Rightarrow> ('s hl_state, high_block) exec" where
  "BlockStore_create_loop base d 0 = throw OutOfFuel"
| "BlockStore_create_loop base d (Suc fuel) =
     ebind LowToHighLevelBlockStore_createBlockId (\<lambda>i.
     ebind (LowToHighLevelBlockStore_tryCreate base i d) (\<lambda>block.
       case block of Some b \<Rightarrow> ret b | None \<Rightarrow> BlockStore_create_loop base d fuel))"

definition BlockStore_create :: "'s block_store2 \<Rightarrow> data \<Rightarrow> ('s hl_state, high_block) exec" where
  "BlockStore_create base d = ebind (gets (\<lambda>s. length (fst s))) (\<lambda>fuel. BlockStore_create_loop base d fuel)"

definition LowToHighLevelBlockStore_remove :: "'s block_store2 \<Rightarrow> block_id \<Rightarrow> ('s hl_state, unit) exec" where
  "LowToHighLevelBlockStore_remove base blockId =
     ebind (zoom_snd (remove_of base blockId)) (\<lambda>success.
       if \<not> success then throw (RuntimeError ''Couldn't delete block with id'') else ret ())"

section \<open>Open blocks\<close>

definition Block_open :: "'s block_store2 \<Rightarrow> block_id \<Rightarrow> ('s hl_state, bool) exec" where
  "Block_open base i = ebind (zoom_snd (load_of base i)) (\<lambda>d. ret (d \<noteq> None))"

definition Block_data :: "'s block_store2 \<Rightarrow> block_id \<Rightarrow> ('s hl_state, data) exec" where
  "Block_data base i =
     ebind (zoom_snd (load_of base i)) (\<lambda>d. case d of None \<Rightarrow> throw MemoryFault | Some bytes \<Rightarrow> ret bytes)"

definition Block_size :: "'s block_store2 \<Rightarrow> block_id \<Rightarrow> ('s hl_state, nat) exec" where
  "Block_size base i = ebind (Block_data base i) (\<lambda>d. ret (length d))"

definition Block_write :: "'s block_store2 \<Rightarrow> block_id \<Rightarrow> data \<Rightarrow> nat \<Rightarrow> ('s hl_state, unit) exec" where
  "Block_write base i source offset =
     ebind (Block_data base i) (\<lambda>d.
     ebind (lift_result (LowToHighLevelBlock_write source offset (LowToHighLevelBlock_new i d))) (\<lambda>b.
     zoom_snd (store_of base i (hb_data b))))"

definition Block_create :: "'s block_store2 \<Rightarrow> data \<Rightarrow> ('s hl_state, block_id) exec" where
  "Block_create base d = ebind (BlockStore_create base d) (\<lambda>b. ret (hb_blockId b))"

text \<open>\<open>overwrite\<close> of a block, open or not: its content is replaced.\<close>

definition Block_overwrite :: "'s block_store2 \<Rightarrow> block_id \<Rightarrow> data \<Rightarrow> ('s hl_state, unit) exec" where
  "Block_overwrite base i d = zoom_snd (ebind (LowToHighLevelBlock_Overwrite base i d) (\<lambda>_. ret ()))"

definition utils_copyToNewBlock :: "'s block_store2 \<Rightarrow> block_id \<Rightarrow> ('s hl_state, block_id) exec" where
  "utils_copyToNewBlock base i = ebind (Block_data base i) (Block_create base)"

definition utils_copyTo :: "'s block_store2 \<Rightarrow> block_id \<Rightarrow> block_id \<Rightarrow> ('s hl_state, unit) exec" where
  "utils_copyTo base target source =
     ebind (Block_size base target) (\<lambda>n.
     ebind (Block_data base source) (\<lambda>d.
     ebind (assert_exec (n = length d) ''Can't copy block data when blocks have different sizes'') (\<lambda>_.
     Block_write base target d 0)))"

definition utils_fillWithZeroes :: "'s block_store2 \<Rightarrow> block_id \<Rightarrow> ('s hl_state, unit) exec" where
  "utils_fillWithZeroes base target =
     ebind (Block_size base target) (\<lambda>n. Block_write base target (zeroes n) 0)"

section \<open>The heap of blocks\<close>

text \<open>
  The contract the trees rely on: a block store whose blocks of one size \<open>n\<close> always fit and that never
  runs out of capacity, with a supply of unused identifiers.
\<close>

locale block_heap = block_store2 bs inv blocks fits capacity
  for bs :: "'s block_store2" and inv blocks fits capacity +
  fixes n :: nat
  assumes fits_n: "length d = n \<Longrightarrow> fits d"
    and unbounded: "inv s \<Longrightarrow> capacity s k"
begin

text \<open>\<open>supplied ids s\<close>: the identifiers to come are distinct and not in use.\<close>

definition supplied :: "'s hl_state \<Rightarrow> bool" where
  "supplied s \<longleftrightarrow> inv (snd s) \<and> distinct (fst s) \<and> (\<forall>i\<in>set (fst s). blocks (snd s) i = None)"

lemma Block_data_ok:
  assumes "supplied s" and "blocks (snd s) i = Some d"
  shows "yields (Block_data bs i) s d
    (\<lambda>t. supplied t \<and> fst t = fst s \<and> blocks (snd t) = blocks (snd s))"
proof -
  obtain ids b where s: "s = (ids, b)" by (cases s)
  from assms(1) have "inv b" by (simp add: supplied_def s)
  from load [OF this, of i] obtain t where "load_of bs i b = (Inr (blocks b i), t)" "inv t" "blocks t = blocks b"
    by (rule yieldsE) blast
  with assms show ?thesis
    by (auto simp: Block_data_def yields_def ebind_def zoom_snd_def supplied_def s)
qed

lemma Block_open_ok:
  assumes "supplied s"
  shows "yields (Block_open bs i) s (blocks (snd s) i \<noteq> None)
    (\<lambda>t. supplied t \<and> fst t = fst s \<and> blocks (snd t) = blocks (snd s))"
proof -
  obtain ids b where s: "s = (ids, b)" by (cases s)
  from assms(1) have "inv b" by (simp add: supplied_def s)
  from load [OF this, of i] obtain t where "load_of bs i b = (Inr (blocks b i), t)" "inv t" "blocks t = blocks b"
    by (rule yieldsE) blast
  with assms show ?thesis
    by (auto simp: Block_open_def yields_def ebind_def zoom_snd_def supplied_def s)
qed

lemma store_ok:
  assumes "supplied s" and "length d = n" and "i \<notin> set (fst s)"
  shows "yields (zoom_snd (store_of bs i d)) s ()
    (\<lambda>t. supplied t \<and> fst t = fst s \<and> blocks (snd t) = (blocks (snd s))(i \<mapsto> d))"
proof -
  obtain ids b where s: "s = (ids, b)" by (cases s)
  from assms(1) have "inv b" by (simp add: supplied_def s)
  from store [OF this fits_n [OF assms(2)] unbounded [OF this], of i] obtain t where
    "store_of bs i d b = (Inr (), t)" "inv t" "blocks t = (blocks b)(i \<mapsto> d)"
    by (rule yieldsE) blast
  with assms show ?thesis
    by (auto simp: yields_def zoom_snd_def supplied_def s)
qed

lemma Block_write_ok:
  assumes "supplied s" and "blocks (snd s) i = Some d" and "length d = n" and "off + length src \<le> n"
  shows "yields (Block_write bs i src off) s ()
    (\<lambda>t. supplied t \<and> fst t = fst s \<and> blocks (snd t) = (blocks (snd s))(i \<mapsto> write_at off src d))"
  unfolding Block_write_def
proof (rule yields_ebind [OF Block_data_ok [OF assms(1,2)]])
  fix t assume t: "supplied t \<and> fst t = fst s \<and> blocks (snd t) = blocks (snd s)"
  have "i \<notin> set (fst t)" using assms(1,2) t by (auto simp: supplied_def)
  moreover have "length (write_at off src d) = n" using assms(3,4) by simp
  ultimately have "yields (zoom_snd (store_of bs i (write_at off src d))) t ()
      (\<lambda>u. supplied u \<and> fst u = fst t \<and> blocks (snd u) = (blocks (snd t))(i \<mapsto> write_at off src d))"
    using t by (intro store_ok) auto
  then show "yields (ebind (lift_result (LowToHighLevelBlock_write src off (LowToHighLevelBlock_new i d)))
      (\<lambda>b. zoom_snd (store_of bs i (hb_data b)))) t ()
     (\<lambda>u. supplied u \<and> fst u = fst s \<and> blocks (snd u) = (blocks (snd s))(i \<mapsto> write_at off src d))"
    using t assms(3,4)
    by (simp add: LowToHighLevelBlock_write_def LowToHighLevelBlock_new_def yields_def)
qed

lemma Block_create_ok:
  assumes "supplied s" and "length d = n" and "fst s = i # ids"
  shows "yields (Block_create bs d) s i
    (\<lambda>t. supplied t \<and> fst t = ids \<and> blocks (snd t) = (blocks (snd s))(i \<mapsto> d))"
proof -
  obtain b where s: "s = (i # ids, b)" using assms(3) by (cases s) auto
  have inv: "inv b" and fresh: "blocks b i = None" using assms(1) by (auto simp: supplied_def s)
  from tryCreate_fresh [OF inv fits_n [OF assms(2)] unbounded [OF inv] fresh] obtain t where
    "tryCreate_of bs i d b = (Inr True, t)" "inv t" "blocks t = (blocks b)(i \<mapsto> d)"
    by (rule yieldsE) blast
  with assms(1) show ?thesis
    by (auto simp: Block_create_def BlockStore_create_def LowToHighLevelBlockStore_createBlockId_def
        LowToHighLevelBlockStore_tryCreate_def LowToHighLevelBlock_TryCreateNew_def
        LowToHighLevelBlock_new_def yields_def ebind_def zoom_snd_def supplied_def s)
qed

lemma remove_ok:
  assumes "supplied s" and "blocks (snd s) i \<noteq> None"
  shows "yields (LowToHighLevelBlockStore_remove bs i) s ()
    (\<lambda>t. supplied t \<and> fst t = fst s \<and> blocks (snd t) = (blocks (snd s))(i := None))"
proof -
  obtain ids b where s: "s = (ids, b)" by (cases s)
  from assms(1) have "inv b" by (simp add: supplied_def s)
  from remove [OF this, of i] obtain t where "remove_of bs i b = (Inr (blocks b i \<noteq> None), t)" "inv t"
      "blocks t = (blocks b)(i := None)"
    by (rule yieldsE) blast
  with assms show ?thesis
    by (auto simp: LowToHighLevelBlockStore_remove_def yields_def ebind_def zoom_snd_def supplied_def s)
qed

lemma remove_missing:
  assumes "supplied s" and "blocks (snd s) i = None"
  shows "fst (LowToHighLevelBlockStore_remove bs i s) = Inl (RuntimeError ''Couldn't delete block with id'')"
proof -
  obtain ids b where s: "s = (ids, b)" by (cases s)
  from assms(1) have "inv b" by (simp add: supplied_def s)
  from remove [OF this, of i] obtain t where "remove_of bs i b = (Inr (blocks b i \<noteq> None), t)"
    by (rule yieldsE) blast
  with assms(2) show ?thesis
    by (simp add: LowToHighLevelBlockStore_remove_def ebind_def zoom_snd_def s)
qed

end

interpretation inmemory_heap: block_heap
  "InMemoryBlockStore2 m" inmemory_inv map_of "\<lambda>d. True" "\<lambda>s k. True" n for m n
  by unfold_locales simp_all

section \<open>Write-back of a block object\<close>

text \<open>
  Loading a block, writing to the object and destroying it leaves the base store as the write of an
  open block does.
\<close>

lemma open_write_destroy:
  assumes "load_of base i b = (Inr (Some d), b')" and "off + length src \<le> length d"
  shows "ebind (LowToHighLevelBlock_Load base i) (\<lambda>h. case h of
        None \<Rightarrow> throw MemoryFault
      | Some hb \<Rightarrow> ebind (lift_result (LowToHighLevelBlock_write src off hb)) (LowToHighLevelBlock_destroy base)) b =
    (let (r, t) = Block_write base i src off (ids, b) in (r, snd t))"
  using assms
  by (simp add: LowToHighLevelBlock_Load_def LowToHighLevelBlock_new_def LowToHighLevelBlock_write_def
      LowToHighLevelBlock_destroy_def LowToHighLevelBlock_storeToBaseBlock_def Block_write_def
      Block_data_def ebind_def zoom_snd_def split: prod.splits sum.splits)

end
