(* ===== verification/DataNodes.thy ===== *)
theory DataNodes
  imports HighLevel
begin

text \<open>
  \<open>src/src/blobstore/implementations/onblocks/datanodestore\<close> and \<open>utils/Math.h\<close>: the nodes of the
  trees blobs are made of. A node is an open block with a header (format version, depth, size) and
  a data region: the bytes of a leaf or the identifiers of the children of an inner node. The
  lemmas relate the bytes to the abstract \<open>node\<close> they represent.
\<close>

named_theorems node_simps \<open>layout constants of nodes\<close>

section \<open>Math\<close>

text \<open>
  The unsigned integer functions at width \<open>w\<close>, on naturals below \<open>2 ^ w\<close>.
\<close>

fun intPow_loop :: "nat \<Rightarrow> nat \<Rightarrow> nat \<Rightarrow> nat \<Rightarrow> nat" where
  "intPow_loop w base 0 result = result"
| "intPow_loop w base (Suc n) result = intPow_loop w base n (result * base mod 2 ^ w)"

definition intPow :: "nat \<Rightarrow> nat \<Rightarrow> nat \<Rightarrow> nat" where
  "intPow w base exponent = intPow_loop w base exponent 1"

definition ceilDivision :: "nat \<Rightarrow> nat \<Rightarrow> nat \<Rightarrow> nat" where
  "ceilDivision w dividend divisor = ((dividend + divisor + 2 ^ w - 1) mod 2 ^ w) div divisor"

definition maxZeroSubtraction :: "nat \<Rightarrow> nat \<Rightarrow> nat" where
  "maxZeroSubtraction minuend subtrahend = (if minuend < subtrahend then 0 else minuend - subtrahend)"

lemma intPow_loop_eq: "r < 2 ^ w \<Longrightarrow> intPow_loop w b n r = r * b ^ n mod 2 ^ w"
proof (induction n arbitrary: r)
  case 0
  then show ?case by simp
next
  case (Suc n)
  have "intPow_loop w b (Suc n) r = (r * b mod 2 ^ w) * b ^ n mod 2 ^ w"
    using Suc.IH [of "r * b mod 2 ^ w"] by simp
  also have "\<dots> = r * b ^ Suc n mod 2 ^ w"
    by (simp add: mod_mult_left_eq mult.assoc)
  finally show ?case .
qed

lemma intPow_eq:
  assumes "0 < w"
  shows "intPow w b n = b ^ n mod 2 ^ w"
proof -
  have "(1::nat) < 2 ^ w" using assms by (intro one_less_power) simp_all
  then show ?thesis using intPow_loop_eq [of 1 w b n] by (simp add: intPow_def)
qed

lemma maxZeroSubtraction_eq [simp]: "maxZeroSubtraction a b = a - b"
  by (simp add: maxZeroSubtraction_def)

lemma ceilDivision_eq:
  assumes "0 < b" and "a + b - 1 < 2 ^ w"
  shows "ceilDivision w a b = (a + b - 1) div b"
proof -
  have "a + b + 2 ^ w - 1 = (a + b - 1) + 2 ^ w" using assms(1) by simp
  then have "(a + b + 2 ^ w - 1) mod 2 ^ w = (a + b - 1) mod 2 ^ w" by (metis mod_add_self2)
  also have "\<dots> = a + b - 1" using assms(2) by (rule mod_less)
  finally show ?thesis by (simp only: ceilDivision_def)
qed

lemma ceil_div_bounds:
  fixes a b :: nat
  assumes "0 < b"
  shows "a \<le> (a + b - 1) div b * b" and "(a + b - 1) div b * b < a + b"
proof -
  have "(a + b - 1) div b * b + (a + b - 1) mod b = a + b - 1" by (rule div_mult_mod_eq)
  moreover have "(a + b - 1) mod b < b" using assms by simp
  ultimately show "a \<le> (a + b - 1) div b * b" and "(a + b - 1) div b * b < a + b"
    using assms by linarith+
qed

lemma ceil_div_le_iff:
  fixes a b k :: nat
  assumes "0 < b"
  shows "(a + b - 1) div b \<le> k \<longleftrightarrow> a \<le> k * b"
proof
  assume "(a + b - 1) div b \<le> k"
  then have "(a + b - 1) div b * b \<le> k * b" by simp
  with ceil_div_bounds(1) [OF assms, of a] show "a \<le> k * b" by (rule order_trans)
next
  assume "a \<le> k * b"
  then have "a + b - 1 < Suc k * b" using assms by simp
  then have "(a + b - 1) div b < Suc k" by (simp add: less_mult_imp_div_less)
  then show "(a + b - 1) div b \<le> k" by simp
qed

section \<open>Layout\<close>

definition HEADERSIZE_BYTES :: nat where "HEADERSIZE_BYTES = 8"
definition FORMAT_VERSION_OFFSET_BYTES :: nat where "FORMAT_VERSION_OFFSET_BYTES = 0"
definition DEPTH_OFFSET_BYTES :: nat where "DEPTH_OFFSET_BYTES = 3"
definition SIZE_OFFSET_BYTES :: nat where "SIZE_OFFSET_BYTES = 4"
definition sizeof_ChildEntry :: nat where "sizeof_ChildEntry = 16"
definition DataNode_FORMAT_VERSION_HEADER :: u16 where "DataNode_FORMAT_VERSION_HEADER = 0"
definition DataNodeStore_MAX_DEPTH :: nat where "DataNodeStore_MAX_DEPTH = 10"

declare HEADERSIZE_BYTES_def [node_simps] FORMAT_VERSION_OFFSET_BYTES_def [node_simps]
  DEPTH_OFFSET_BYTES_def [node_simps] SIZE_OFFSET_BYTES_def [node_simps] sizeof_ChildEntry_def [node_simps]

text \<open>
  The layout, with the one byte of a fresh buffer that \<open>serialize_\<close> leaves as it was allocated
  (offset 2, between the format version and the depth).
\<close>

record node_layout =
  blocksizeBytes :: nat
  uninitialised :: byte

definition DataNodeLayout_new :: "nat \<Rightarrow> byte \<Rightarrow> node_layout result" where
  "DataNodeLayout_new blocksize junk =
     (if HEADERSIZE_BYTES + 2 * sizeof_ChildEntry \<le> blocksize
      then Inr \<lparr>blocksizeBytes = blocksize mod 2 ^ 32, uninitialised = junk\<rparr>
      else Inl (LogicError ''Blocksize too small, not enough space to store two children in an inner node''))"

definition datasizeBytes :: "node_layout \<Rightarrow> nat" where
  "datasizeBytes L = (blocksizeBytes L + 2 ^ 32 - HEADERSIZE_BYTES) mod 2 ^ 32"

definition maxChildrenPerInnerNode :: "node_layout \<Rightarrow> nat" where
  "maxChildrenPerInnerNode L = datasizeBytes L div sizeof_ChildEntry"

definition maxBytesPerLeaf :: "node_layout \<Rightarrow> nat" where
  "maxBytesPerLeaf L = datasizeBytes L"

definition layout_ok :: "node_layout \<Rightarrow> bool" where
  "layout_ok L \<longleftrightarrow> 40 \<le> blocksizeBytes L \<and> blocksizeBytes L < 2 ^ 32"

lemma DataNodeLayout_new_ok:
  "b < 2 ^ 32 \<Longrightarrow> DataNodeLayout_new b j = Inr L \<Longrightarrow> layout_ok L"
  by (auto simp: DataNodeLayout_new_def layout_ok_def node_simps split: if_splits)

lemma datasizeBytes_eq: "layout_ok L \<Longrightarrow> datasizeBytes L = blocksizeBytes L - 8"
proof -
  assume L: "layout_ok L"
  then have "blocksizeBytes L + 2 ^ 32 - 8 = (blocksizeBytes L - 8) + 2 ^ 32"
    by (simp add: layout_ok_def)
  then have "datasizeBytes L = (blocksizeBytes L - 8) mod 2 ^ 32"
    unfolding datasizeBytes_def HEADERSIZE_BYTES_def by (metis mod_add_self2)
  also have "\<dots> = blocksizeBytes L - 8"
    using L by (intro mod_less) (auto simp: layout_ok_def)
  finally show ?thesis .
qed

lemma layout_sizes:
  assumes "layout_ok L"
  shows "blocksizeBytes L = maxBytesPerLeaf L + 8" and "2 \<le> maxChildrenPerInnerNode L"
    and "0 < maxBytesPerLeaf L" and "maxBytesPerLeaf L < 2 ^ 32"
    and "16 * maxChildrenPerInnerNode L \<le> maxBytesPerLeaf L" and "maxChildrenPerInnerNode L < 2 ^ 28"
  using assms datasizeBytes_eq [OF assms]
  by (auto simp: maxBytesPerLeaf_def maxChildrenPerInnerNode_def layout_ok_def node_simps)

section \<open>DataNodeView\<close>

definition DataNodeView_serialize ::
  "node_layout \<Rightarrow> u16 \<Rightarrow> byte \<Rightarrow> u32 \<Rightarrow> data \<Rightarrow> data" where
  "DataNodeView_serialize L formatVersion depth sz d =
     (let result = replicate (blocksizeBytes L) (uninitialised L);
          result = write_at FORMAT_VERSION_OFFSET_BYTES (serialize formatVersion) result;
          result = write_at DEPTH_OFFSET_BYTES (serialize depth) result;
          result = write_at SIZE_OFFSET_BYTES (serialize sz) result;
          result = write_at HEADERSIZE_BYTES d result
      in write_at (HEADERSIZE_BYTES + length d) (zeroes (datasizeBytes L - length d)) result)"

definition DataNodeView_create ::
  "'s block_store2 \<Rightarrow> node_layout \<Rightarrow> u16 \<Rightarrow> byte \<Rightarrow> u32 \<Rightarrow> data \<Rightarrow> ('s hl_state, block_id) exec" where
  "DataNodeView_create bs L formatVersion depth sz d =
     ebind (assert_exec (length d \<le> datasizeBytes L) ''Data is too large for node'') (\<lambda>_.
       let serialized = DataNodeView_serialize L formatVersion depth sz d
       in ebind (assert_exec (length serialized = blocksizeBytes L) ''Wrong block size'') (\<lambda>_.
          Block_create bs serialized))"

definition DataNodeView_initialize ::
  "'s block_store2 \<Rightarrow> block_id \<Rightarrow> node_layout \<Rightarrow> u16 \<Rightarrow> byte \<Rightarrow> u32 \<Rightarrow> data \<Rightarrow> ('s hl_state, unit) exec" where
  "DataNodeView_initialize bs block L formatVersion depth sz d =
     ebind (Block_size bs block) (\<lambda>n.
     ebind (lift_result (DataNodeLayout_new n (uninitialised L))) (\<lambda>L'.
     ebind (assert_exec (length d \<le> datasizeBytes L') ''Data is too large for node'') (\<lambda>_.
       let serialized = DataNodeView_serialize L formatVersion depth sz d
       in ebind (assert_exec (length serialized = n) ''Block has wrong size'') (\<lambda>_.
          Block_write bs block serialized 0))))"

definition DataNodeView_overwrite ::
  "'s block_store2 \<Rightarrow> node_layout \<Rightarrow> u16 \<Rightarrow> byte \<Rightarrow> u32 \<Rightarrow> block_id \<Rightarrow> data \<Rightarrow> ('s hl_state, unit) exec" where
  "DataNodeView_overwrite bs L formatVersion depth sz blockId d =
     ebind (assert_exec (length d \<le> datasizeBytes L) ''Data is too large for node'') (\<lambda>_.
     Block_overwrite bs blockId (DataNodeView_serialize L formatVersion depth sz d))"

definition DataNodeView_FormatVersion :: "'s block_store2 \<Rightarrow> block_id \<Rightarrow> ('s hl_state, u16) exec" where
  "DataNodeView_FormatVersion bs i =
     ebind (Block_data bs i) (\<lambda>d. lift_result (deserializeWithOffset d FORMAT_VERSION_OFFSET_BYTES))"

definition DataNodeView_Depth :: "'s block_store2 \<Rightarrow> block_id \<Rightarrow> ('s hl_state, byte) exec" where
  "DataNodeView_Depth bs i =
     ebind (Block_data bs i) (\<lambda>d. lift_result (deserializeWithOffset d DEPTH_OFFSET_BYTES))"

definition DataNodeView_Size :: "'s block_store2 \<Rightarrow> block_id \<Rightarrow> ('s hl_state, u32) exec" where
  "DataNodeView_Size bs i =
     ebind (Block_data bs i) (\<lambda>d. lift_result (deserializeWithOffset d SIZE_OFFSET_BYTES))"

definition DataNodeView_setFormatVersion :: "'s block_store2 \<Rightarrow> block_id \<Rightarrow> u16 \<Rightarrow> ('s hl_state, unit) exec" where
  "DataNodeView_setFormatVersion bs i v = Block_write bs i (serialize v) FORMAT_VERSION_OFFSET_BYTES"

definition DataNodeView_setDepth :: "'s block_store2 \<Rightarrow> block_id \<Rightarrow> byte \<Rightarrow> ('s hl_state, unit) exec" where
  "DataNodeView_setDepth bs i v = Block_write bs i (serialize v) DEPTH_OFFSET_BYTES"

definition DataNodeView_setSize :: "'s block_store2 \<Rightarrow> block_id \<Rightarrow> u32 \<Rightarrow> ('s hl_state, unit) exec" where
  "DataNodeView_setSize bs i v = Block_write bs i (serialize v) SIZE_OFFSET_BYTES"

definition DataNodeView_data :: "'s block_store2 \<Rightarrow> block_id \<Rightarrow> ('s hl_state, data) exec" where
  "DataNodeView_data bs i = ebind (Block_data bs i) (\<lambda>d. ret (drop HEADERSIZE_BYTES d))"

definition DataNodeView_write :: "'s block_store2 \<Rightarrow> block_id \<Rightarrow> data \<Rightarrow> nat \<Rightarrow> ('s hl_state, unit) exec" where
  "DataNodeView_write bs i source offset = Block_write bs i source (offset + HEADERSIZE_BYTES)"

definition DataNodeView_layout :: "'s block_store2 \<Rightarrow> byte \<Rightarrow> block_id \<Rightarrow> ('s hl_state, node_layout) exec" where
  "DataNodeView_layout bs junk i = ebind (Block_size bs i) (\<lambda>n. lift_result (DataNodeLayout_new n junk))"

section \<open>Nodes\<close>

text \<open>A loaded node: its dynamic type and its block.\<close>

datatype data_node = DataLeafNode (blockId: block_id) | DataInnerNode (blockId: block_id)

definition DataNode_depth :: "'s block_store2 \<Rightarrow> data_node \<Rightarrow> ('s hl_state, nat) exec" where
  "DataNode_depth bs node = ebind (DataNodeView_Depth bs (blockId node)) (\<lambda>d. ret (unat d))"

subsection \<open>DataLeafNode\<close>

definition DataLeafNode_numBytes :: "'s block_store2 \<Rightarrow> block_id \<Rightarrow> ('s hl_state, nat) exec" where
  "DataLeafNode_numBytes bs i = ebind (DataNodeView_Size bs i) (\<lambda>n. ret (unat n))"

definition DataLeafNode_maxStoreableBytes :: "'s block_store2 \<Rightarrow> byte \<Rightarrow> block_id \<Rightarrow> ('s hl_state, nat) exec" where
  "DataLeafNode_maxStoreableBytes bs junk i =
     ebind (DataNodeView_layout bs junk i) (\<lambda>L. ret (maxBytesPerLeaf L))"

definition DataLeafNode_new :: "'s block_store2 \<Rightarrow> byte \<Rightarrow> block_id \<Rightarrow> ('s hl_state, data_node) exec" where
  "DataLeafNode_new bs junk i =
     ebind (DataNodeView_Depth bs i) (\<lambda>depth.
     ebind (assert_exec (depth = 0) ''Leaf node must have depth 0. Is it an inner node instead?'') (\<lambda>_.
     ebind (DataLeafNode_numBytes bs i) (\<lambda>n.
     ebind (DataLeafNode_maxStoreableBytes bs junk i) (\<lambda>m.
     ebind (assert_exec (n \<le> m) ''Leaf says it stores more bytes than it has space for'') (\<lambda>_.
     ebind (DataNodeView_FormatVersion bs i) (\<lambda>v.
       if v \<noteq> DataNode_FORMAT_VERSION_HEADER
       then throw (RuntimeError ''This node format is not supported. Was it created with a newer version of CryFS?'')
       else ret (DataLeafNode i)))))))"

definition DataLeafNode_CreateNewNode ::
  "'s block_store2 \<Rightarrow> node_layout \<Rightarrow> data \<Rightarrow> ('s hl_state, data_node) exec" where
  "DataLeafNode_CreateNewNode bs L d =
     ebind (assert_exec (length d \<le> maxBytesPerLeaf L) ''Data passed in is too large for one leaf.'') (\<lambda>_.
     ebind (DataNodeView_create bs L DataNode_FORMAT_VERSION_HEADER 0 (of_nat (length d)) d) (\<lambda>i.
     DataLeafNode_new bs (uninitialised L) i))"

definition DataLeafNode_OverwriteNode ::
  "'s block_store2 \<Rightarrow> node_layout \<Rightarrow> block_id \<Rightarrow> data \<Rightarrow> ('s hl_state, data_node) exec" where
  "DataLeafNode_OverwriteNode bs L i d =
     ebind (assert_exec (length d = maxBytesPerLeaf L) ''Data passed in is too large for one leaf.'') (\<lambda>_.
     ebind (DataNodeView_overwrite bs L DataNode_FORMAT_VERSION_HEADER 0 (of_nat (length d)) i d) (\<lambda>_.
     DataLeafNode_new bs (uninitialised L) i))"

definition DataLeafNode_read :: "'s block_store2 \<Rightarrow> block_id \<Rightarrow> nat \<Rightarrow> nat \<Rightarrow> ('s hl_state, data) exec" where
  "DataLeafNode_read bs i offset sz =
     ebind (DataLeafNode_numBytes bs i) (\<lambda>n.
     ebind (assert_exec (offset \<le> n \<and> offset + sz \<le> n) ''Read out of valid area'') (\<lambda>_.
     ebind (DataNodeView_data bs i) (\<lambda>d. ret (slice offset sz d))))"

definition DataLeafNode_write :: "'s block_store2 \<Rightarrow> block_id \<Rightarrow> data \<Rightarrow> nat \<Rightarrow> ('s hl_state, unit) exec" where
  "DataLeafNode_write bs i source offset =
     ebind (DataLeafNode_numBytes bs i) (\<lambda>n.
     ebind (assert_exec (offset \<le> n \<and> offset + length source \<le> n) ''Write out of valid area'') (\<lambda>_.
     DataNodeView_write bs i source offset))"

definition DataLeafNode_fillDataWithZeroesFromTo ::
  "'s block_store2 \<Rightarrow> block_id \<Rightarrow> nat \<Rightarrow> nat \<Rightarrow> ('s hl_state, unit) exec" where
  "DataLeafNode_fillDataWithZeroesFromTo bs i begin end =
     DataNodeView_write bs i (zeroes (end - begin)) begin"

definition DataLeafNode_resize :: "'s block_store2 \<Rightarrow> byte \<Rightarrow> block_id \<Rightarrow> nat \<Rightarrow> ('s hl_state, unit) exec" where
  "DataLeafNode_resize bs junk i new_size =
     ebind (DataLeafNode_maxStoreableBytes bs junk i) (\<lambda>m.
     ebind (assert_exec (new_size \<le> m) ''Trying to resize to a size larger than the maximal size'') (\<lambda>_.
     ebind (DataLeafNode_numBytes bs i) (\<lambda>old_size.
     ebind (if new_size < old_size then DataLeafNode_fillDataWithZeroesFromTo bs i new_size old_size
            else ret ()) (\<lambda>_.
     DataNodeView_setSize bs i (of_nat new_size)))))"

subsection \<open>DataInnerNode\<close>

definition DataInnerNode_new :: "'s block_store2 \<Rightarrow> block_id \<Rightarrow> ('s hl_state, data_node) exec" where
  "DataInnerNode_new bs i =
     ebind (DataNodeView_Depth bs i) (\<lambda>depth.
     ebind (assert_exec (depth > 0) ''Inner node can't have depth 0. Is this a leaf maybe?'') (\<lambda>_.
     ebind (DataNodeView_FormatVersion bs i) (\<lambda>v.
       if v \<noteq> DataNode_FORMAT_VERSION_HEADER
       then throw (RuntimeError ''This node format is not supported. Was it created with a newer version of CryFS?'')
       else ret (DataInnerNode i))))"

fun serializeChildren_loop :: "block_id list \<Rightarrow> nat \<Rightarrow> data \<Rightarrow> data" where
  "serializeChildren_loop [] i d = d"
| "serializeChildren_loop (child # children) i d =
     serializeChildren_loop children (i + 1) (write_at (i * BINARY_LENGTH) (BlockId_ToBinary child) d)"

definition DataInnerNode_serializeChildren :: "block_id list \<Rightarrow> data" where
  "DataInnerNode_serializeChildren children =
     serializeChildren_loop children 0 (zeroes (sizeof_ChildEntry * length children))"

definition DataInnerNode_InitializeNewNode ::
  "'s block_store2 \<Rightarrow> block_id \<Rightarrow> node_layout \<Rightarrow> nat \<Rightarrow> block_id list \<Rightarrow> ('s hl_state, data_node) exec" where
  "DataInnerNode_InitializeNewNode bs block L depth children =
     ebind (assert_exec (length children \<ge> 1) ''An inner node must have at least one child'') (\<lambda>_.
     ebind (DataNodeView_initialize bs block L DataNode_FORMAT_VERSION_HEADER (of_nat depth)
              (of_nat (length children)) (DataInnerNode_serializeChildren children)) (\<lambda>_.
     DataInnerNode_new bs block))"

definition DataInnerNode_CreateNewNode ::
  "'s block_store2 \<Rightarrow> node_layout \<Rightarrow> nat \<Rightarrow> block_id list \<Rightarrow> ('s hl_state, data_node) exec" where
  "DataInnerNode_CreateNewNode bs L depth children =
     ebind (assert_exec (length children \<ge> 1) ''An inner node must have at least one child'') (\<lambda>_.
     ebind (DataNodeView_create bs L DataNode_FORMAT_VERSION_HEADER (of_nat depth)
              (of_nat (length children)) (DataInnerNode_serializeChildren children)) (\<lambda>i.
     DataInnerNode_new bs i))"

definition DataInnerNode_numChildren :: "'s block_store2 \<Rightarrow> block_id \<Rightarrow> ('s hl_state, nat) exec" where
  "DataInnerNode_numChildren bs i = ebind (DataNodeView_Size bs i) (\<lambda>n. ret (unat n))"

definition DataInnerNode_readChild :: "'s block_store2 \<Rightarrow> block_id \<Rightarrow> nat \<Rightarrow> ('s hl_state, block_id) exec" where
  "DataInnerNode_readChild bs i index =
     ebind (DataInnerNode_numChildren bs i) (\<lambda>n.
     ebind (assert_exec (index < n) ''Accessing child out of range'') (\<lambda>_.
     ebind (DataNodeView_data bs i) (\<lambda>d.
     lift_result (BlockId_FromBinary (drop (index * sizeof_ChildEntry) d)))))"

definition DataInnerNode_writeChild :: "'s block_store2 \<Rightarrow> block_id \<Rightarrow> nat \<Rightarrow> block_id \<Rightarrow> ('s hl_state, unit) exec" where
  "DataInnerNode_writeChild bs i index child =
     ebind (DataInnerNode_numChildren bs i) (\<lambda>n.
     ebind (assert_exec (index < n) ''Accessing child out of range'') (\<lambda>_.
     DataNodeView_write bs i (BlockId_ToBinary child) (index * sizeof_ChildEntry)))"

text \<open>\<open>numChildren() - 1\<close> is a 32 bit subtraction.\<close>

definition DataInnerNode_readLastChild :: "'s block_store2 \<Rightarrow> block_id \<Rightarrow> ('s hl_state, block_id) exec" where
  "DataInnerNode_readLastChild bs i =
     ebind (DataNodeView_Size bs i) (\<lambda>n. DataInnerNode_readChild bs i (unat (n - 1)))"

definition DataInnerNode_writeLastChild :: "'s block_store2 \<Rightarrow> block_id \<Rightarrow> block_id \<Rightarrow> ('s hl_state, unit) exec" where
  "DataInnerNode_writeLastChild bs i child =
     ebind (DataNodeView_Size bs i) (\<lambda>n. DataInnerNode_writeChild bs i (unat (n - 1)) child)"

definition DataInnerNode_maxStoreableChildren :: "'s block_store2 \<Rightarrow> byte \<Rightarrow> block_id \<Rightarrow> ('s hl_state, nat) exec" where
  "DataInnerNode_maxStoreableChildren bs junk i =
     ebind (DataNodeView_layout bs junk i) (\<lambda>L. ret (maxChildrenPerInnerNode L))"

definition DataInnerNode_addChild ::
  "'s block_store2 \<Rightarrow> byte \<Rightarrow> block_id \<Rightarrow> data_node \<Rightarrow> ('s hl_state, unit) exec" where
  "DataInnerNode_addChild bs junk i child =
     ebind (DataInnerNode_numChildren bs i) (\<lambda>n.
     ebind (DataInnerNode_maxStoreableChildren bs junk i) (\<lambda>m.
     ebind (assert_exec (n < m) ''Adding more children than we can store'') (\<lambda>_.
     ebind (DataNode_depth bs child) (\<lambda>cd.
     ebind (DataNodeView_Depth bs i) (\<lambda>d.
     ebind (assert_exec (int cd = int (unat d) - 1) ''The child that should be added has wrong depth'') (\<lambda>_.
     ebind (DataNodeView_Size bs i) (\<lambda>sz.
     ebind (DataNodeView_setSize bs i (sz + 1)) (\<lambda>_.
     DataInnerNode_writeLastChild bs i (blockId child)))))))))"

definition DataInnerNode_removeLastChild :: "'s block_store2 \<Rightarrow> block_id \<Rightarrow> ('s hl_state, unit) exec" where
  "DataInnerNode_removeLastChild bs i =
     ebind (DataNodeView_Size bs i) (\<lambda>n.
     ebind (assert_exec (n > 1) ''There is no child to remove'') (\<lambda>_.
     ebind (DataInnerNode_writeLastChild bs i BlockId_Null) (\<lambda>_.
     ebind (DataNodeView_Size bs i) (\<lambda>n.
     DataNodeView_setSize bs i (n - 1)))))"

definition DataNode_convertToNewInnerNode ::
  "'s block_store2 \<Rightarrow> node_layout \<Rightarrow> data_node \<Rightarrow> data_node \<Rightarrow> ('s hl_state, data_node) exec" where
  "DataNode_convertToNewInnerNode bs L node first_child =
     ebind (utils_fillWithZeroes bs (blockId node)) (\<lambda>_.
     ebind (DataNode_depth bs first_child) (\<lambda>d.
     DataInnerNode_InitializeNewNode bs (blockId node) L (d + 1) [blockId first_child]))"

section \<open>DataNodeStore\<close>

definition DataNodeStore_load_block ::
  "'s block_store2 \<Rightarrow> node_layout \<Rightarrow> block_id \<Rightarrow> ('s hl_state, data_node) exec" where
  "DataNodeStore_load_block bs L i =
     ebind (DataNodeView_Depth bs i) (\<lambda>depth.
       if depth = 0 then DataLeafNode_new bs (uninitialised L) i
       else if unat depth \<le> DataNodeStore_MAX_DEPTH then DataInnerNode_new bs i
       else throw (RuntimeError ''Tree is to deep. Data corruption?''))"

definition DataNodeStore_createNewInnerNode ::
  "'s block_store2 \<Rightarrow> node_layout \<Rightarrow> nat \<Rightarrow> block_id list \<Rightarrow> ('s hl_state, data_node) exec" where
  "DataNodeStore_createNewInnerNode bs L depth children =
     ebind (assert_exec (length children \<ge> 1) ''Inner node must have at least one child'') (\<lambda>_.
     DataInnerNode_CreateNewNode bs L depth children)"

definition DataNodeStore_createNewLeafNode ::
  "'s block_store2 \<Rightarrow> node_layout \<Rightarrow> data \<Rightarrow> ('s hl_state, data_node) exec" where
  "DataNodeStore_createNewLeafNode bs L d = DataLeafNode_CreateNewNode bs L d"

definition DataNodeStore_overwriteLeaf ::
  "'s block_store2 \<Rightarrow> node_layout \<Rightarrow> block_id \<Rightarrow> data \<Rightarrow> ('s hl_state, data_node) exec" where
  "DataNodeStore_overwriteLeaf bs L i d = DataLeafNode_OverwriteNode bs L i d"

definition DataNodeStore_load ::
  "'s block_store2 \<Rightarrow> node_layout \<Rightarrow> block_id \<Rightarrow> ('s hl_state, data_node option) exec" where
  "DataNodeStore_load bs L i =
     ebind (Block_open bs i) (\<lambda>found.
       if \<not> found then ret None
       else
         ebind (Block_size bs i) (\<lambda>n.
         ebind (assert_exec (n = blocksizeBytes L) ''Loading block of wrong size'') (\<lambda>_.
         ebind (DataNodeStore_load_block bs L i) (\<lambda>node. ret (Some node)))))"

definition DataNodeStore_createNewNodeAsCopyFrom ::
  "'s block_store2 \<Rightarrow> node_layout \<Rightarrow> data_node \<Rightarrow> ('s hl_state, data_node) exec" where
  "DataNodeStore_createNewNodeAsCopyFrom bs L source =
     ebind (DataNodeView_layout bs (uninitialised L) (blockId source)) (\<lambda>SL.
     ebind (assert_exec (blocksizeBytes SL = blocksizeBytes L)
              ''Source node has wrong layout. Is it from the same DataNodeStore?'') (\<lambda>_.
     ebind (utils_copyToNewBlock bs (blockId source)) (DataNodeStore_load_block bs L)))"

definition DataNodeStore_overwriteNodeWith ::
  "'s block_store2 \<Rightarrow> node_layout \<Rightarrow> data_node \<Rightarrow> data_node \<Rightarrow> ('s hl_state, data_node) exec" where
  "DataNodeStore_overwriteNodeWith bs L target source =
     ebind (DataNodeView_layout bs (uninitialised L) (blockId target)) (\<lambda>TL.
     ebind (assert_exec (blocksizeBytes TL = blocksizeBytes L)
              ''Target node has wrong layout. Is it from the same DataNodeStore?'') (\<lambda>_.
     ebind (DataNodeView_layout bs (uninitialised L) (blockId source)) (\<lambda>SL.
     ebind (assert_exec (blocksizeBytes SL = blocksizeBytes L)
              ''Source node has wrong layout. Is it from the same DataNodeStore?'') (\<lambda>_.
     ebind (utils_copyTo bs (blockId target) (blockId source)) (\<lambda>_.
     DataNodeStore_load_block bs L (blockId target))))))"

definition DataNodeStore_remove :: "'s block_store2 \<Rightarrow> block_id \<Rightarrow> ('s hl_state, unit) exec" where
  "DataNodeStore_remove bs i = LowToHighLevelBlockStore_remove bs i"

text \<open>Loops that run an operation for every element of a list.\<close>

fun for_each :: "('a \<Rightarrow> ('s, unit) exec) \<Rightarrow> 'a list \<Rightarrow> ('s, unit) exec" where
  "for_each f [] = ret ()"
| "for_each f (x # xs) = ebind (f x) (\<lambda>_. for_each f xs)"

primrec DataNodeStore_removeSubtree_at ::
  "nat \<Rightarrow> 's block_store2 \<Rightarrow> node_layout \<Rightarrow> block_id \<Rightarrow> ('s hl_state, unit) exec" where
  "DataNodeStore_removeSubtree_at 0 bs L i = DataNodeStore_remove bs i"
| "DataNodeStore_removeSubtree_at (Suc depth) bs L i =
     ebind (DataNodeStore_load bs L i) (\<lambda>node.
     ebind (assert_exec (node \<noteq> None) ''Node for removeSubtree not found'') (\<lambda>_.
     ebind (case node of Some (DataInnerNode j) \<Rightarrow> ret j
            | _ \<Rightarrow> throw (AssertFailed ''Is not an inner node, but depth was not zero'')) (\<lambda>inner.
     ebind (DataNode_depth bs (DataInnerNode inner)) (\<lambda>d.
     ebind (assert_exec (d = Suc depth) ''Wrong depth given'') (\<lambda>_.
     ebind (DataInnerNode_numChildren bs inner) (\<lambda>n.
     ebind (for_each (\<lambda>c. ebind (DataInnerNode_readChild bs inner c)
                             (DataNodeStore_removeSubtree_at depth bs L)) [0..<n]) (\<lambda>_.
     DataNodeStore_remove bs inner)))))))"

definition DataNodeStore_removeSubtree ::
  "'s block_store2 \<Rightarrow> node_layout \<Rightarrow> data_node \<Rightarrow> ('s hl_state, unit) exec" where
  "DataNodeStore_removeSubtree bs L node =
     (case node of
        DataLeafNode i \<Rightarrow> DataNodeStore_remove bs i
      | DataInnerNode i \<Rightarrow>
          ebind (DataInnerNode_numChildren bs i) (\<lambda>n.
          ebind (DataNode_depth bs node) (\<lambda>d.
          ebind (for_each (\<lambda>c. ebind (DataInnerNode_readChild bs i c)
                                  (DataNodeStore_removeSubtree_at (d - 1) bs L)) [0..<n]) (\<lambda>_.
          DataNodeStore_remove bs i))))"

definition DataNodeStore_numNodes :: "'s block_store2 \<Rightarrow> ('s hl_state, nat) exec" where
  "DataNodeStore_numNodes bs = zoom_snd (numBlocks_of bs)"

definition DataNodeStore_estimateSpaceForNumNodesLeft :: "'s block_store2 \<Rightarrow> nat \<Rightarrow> ('s hl_state, nat) exec" where
  "DataNodeStore_estimateSpaceForNumNodesLeft bs physicalBlockSizeBytes =
     ebind (zoom_snd (estimateNumFreeBytes_of bs)) (\<lambda>n. ret (n div physicalBlockSizeBytes))"

definition DataNodeStore_virtualBlocksizeBytes :: "node_layout \<Rightarrow> nat" where
  "DataNodeStore_virtualBlocksizeBytes L = maxBytesPerLeaf L"

end
