(* ===== verification/DataTrees.thy ===== *)
theory DataTrees
  imports DataNodes
begin

text \<open>
  \<open>src/src/blobstore/implementations/onblocks/datatreestore\<close>: the left-max data trees, their leaf
  traversal (\<open>LeafTraverser\<close>), the byte-level reads, writes and resizes of \<open>DataTree\<close> with its size
  cache, and \<open>DataTreeStore\<close>. All index arithmetic is written at the width the code uses: leaf indices
  are 32 bit, byte offsets 64 bit.
\<close>

section \<open>Arithmetic at a width\<close>

definition trunc32 :: "nat \<Rightarrow> nat" where "trunc32 n = n mod 2 ^ 32"
definition trunc64 :: "nat \<Rightarrow> nat" where "trunc64 n = n mod 2 ^ 64"

text \<open>Subtraction of unsigned integers, which wraps.\<close>

definition sub32 :: "nat \<Rightarrow> nat \<Rightarrow> nat" where "sub32 a b = (a + (2 ^ 32 - b mod 2 ^ 32)) mod 2 ^ 32"
definition sub64 :: "nat \<Rightarrow> nat \<Rightarrow> nat" where "sub64 a b = (a + (2 ^ 64 - b mod 2 ^ 64)) mod 2 ^ 64"

text \<open>An unsigned division; dividing by zero is undefined in C++.\<close>

definition udiv :: "nat \<Rightarrow> nat \<Rightarrow> nat result" where
  "udiv a b = (if b = 0 then Inl MemoryFault else Inr (a div b))"

lemma trunc_less [simp]: "n < 2 ^ 32 \<Longrightarrow> trunc32 n = n" "m < 2 ^ 64 \<Longrightarrow> trunc64 m = m"
  by (simp_all only: trunc32_def trunc64_def mod_less)

lemma sub32_le: "b \<le> a \<Longrightarrow> a < 2 ^ 32 \<Longrightarrow> sub32 a b = a - b"
proof -
  assume le: "b \<le> a" "a < 2 ^ 32"
  then have "a + (2 ^ 32 - b mod 2 ^ 32) = (a - b) + 2 ^ 32" by simp
  then have "sub32 a b = (a - b) mod 2 ^ 32" unfolding sub32_def by (metis mod_add_self2)
  also have "\<dots> = a - b" using le by (intro mod_less) linarith
  finally show ?thesis .
qed

lemma sub64_le: "b \<le> a \<Longrightarrow> a < 2 ^ 64 \<Longrightarrow> sub64 a b = a - b"
proof -
  assume le: "b \<le> a" "a < 2 ^ 64"
  then have "a + (2 ^ 64 - b mod 2 ^ 64) = (a - b) + 2 ^ 64" by simp
  then have "sub64 a b = (a - b) mod 2 ^ 64" unfolding sub64_def by (metis mod_add_self2)
  also have "\<dots> = a - b" using le by (intro mod_less) linarith
  finally show ?thesis .
qed

section \<open>LeafHandle\<close>

record leaf_handle =
  lh_blockId :: block_id
  lh_loaded :: bool

definition LeafHandle_new_id :: "block_id \<Rightarrow> leaf_handle" where
  "LeafHandle_new_id i = \<lparr>lh_blockId = i, lh_loaded = False\<rparr>"

definition LeafHandle_new_node :: "block_id \<Rightarrow> leaf_handle" where
  "LeafHandle_new_node leaf = \<lparr>lh_blockId = leaf, lh_loaded = True\<rparr>"

text \<open>The handle after \<open>node()\<close>: its leaf is loaded.\<close>

definition LeafHandle_node ::
  "'s block_store2 \<Rightarrow> node_layout \<Rightarrow> leaf_handle \<Rightarrow> ('s hl_state, leaf_handle) exec" where
  "LeafHandle_node bs L h =
     (if lh_loaded h then ret h
      else
        ebind (DataNodeStore_load bs L (lh_blockId h)) (\<lambda>loaded.
        case loaded of
          None \<Rightarrow> throw (AssertFailed ''Leaf not found'')
        | Some (DataInnerNode i) \<Rightarrow> throw (AssertFailed ''Loaded leaf is not leaf node'')
        | Some (DataLeafNode i) \<Rightarrow> ret (h\<lparr>lh_loaded := True\<rparr>)))"

section \<open>LeafTraverser\<close>

text \<open>
  The traverser of a node store. \<open>lt_ceilLog\<close> is \<open>utils::ceilLog\<close>, which the code computes with
  floating point logarithms: it is a parameter of the model. The callbacks run on their own state \<open>'x\<close>
  (the variables they capture) and on the store.
\<close>

record 's leaf_traverser =
  lt_nodeStore :: "'s block_store2"
  lt_layout :: node_layout
  lt_readOnlyTraversal :: bool
  lt_ceilLog :: "nat \<Rightarrow> nat \<Rightarrow> nat"

type_synonym ('x, 's) tr_state = "'x \<times> 's hl_state"

record ('x, 's) tr_callbacks =
  onExistingLeaf :: "nat \<Rightarrow> bool \<Rightarrow> leaf_handle \<Rightarrow> (('x, 's) tr_state, unit) exec"
  onCreateLeaf :: "nat \<Rightarrow> (('x, 's) tr_state, data) exec"
  onBacktrackFromSubtree :: "block_id \<Rightarrow> (('x, 's) tr_state, unit) exec"

definition LeafTraverser_maxLeavesForTreeDepth :: "'s leaf_traverser \<Rightarrow> nat \<Rightarrow> nat" where
  "LeafTraverser_maxLeavesForTreeDepth T depth =
     trunc32 (intPow 64 (maxChildrenPerInnerNode (lt_layout T)) depth)"

definition LeafTraverser_createMaxSizeLeaf :: "'s leaf_traverser \<Rightarrow> nat \<Rightarrow> (('x, 's) tr_state, data) exec" where
  "LeafTraverser_createMaxSizeLeaf T index = ret (zeroes (maxBytesPerLeaf (lt_layout T)))"

definition not_readOnly :: "'s leaf_traverser \<Rightarrow> string \<Rightarrow> (('x, 's) tr_state, unit) exec" where
  "not_readOnly T msg = assert_exec (\<not> lt_readOnlyTraversal T) msg"

text \<open>A loop that collects one value per element, and a counted loop.\<close>

fun collect_each :: "('a \<Rightarrow> ('s, 'b) exec) \<Rightarrow> 'a list \<Rightarrow> ('s, 'b list) exec" where
  "collect_each f [] = ret []"
| "collect_each f (x # xs) = ebind (f x) (\<lambda>y. ebind (collect_each f xs) (\<lambda>ys. ret (y # ys)))"

primrec LeafTraverser_createNewSubtree ::
  "nat \<Rightarrow> 's leaf_traverser \<Rightarrow> nat \<Rightarrow> nat \<Rightarrow> nat \<Rightarrow> (nat \<Rightarrow> (('x, 's) tr_state, data) exec) \<Rightarrow>
   (block_id \<Rightarrow> (('x, 's) tr_state, unit) exec) \<Rightarrow> (('x, 's) tr_state, data_node) exec" where
  "LeafTraverser_createNewSubtree 0 T beginIndex endIndex leafOffset onCreate onBacktrack =
     ebind (not_readOnly T ''Can't create a new subtree in a read-only traversal'') (\<lambda>_.
     ebind (assert_exec (beginIndex \<le> endIndex) ''Invalid parameters'') (\<lambda>_.
     ebind (assert_exec (beginIndex \<le> 1 \<and> endIndex = 1)
              ''With depth 0, we can only traverse one or zero leaves'') (\<lambda>_.
     ebind ((if beginIndex = 0 then onCreate else LeafTraverser_createMaxSizeLeaf T) leafOffset) (\<lambda>d.
     zoom_snd (DataNodeStore_createNewLeafNode (lt_nodeStore T) (lt_layout T) d)))))"
| "LeafTraverser_createNewSubtree (Suc depth) T beginIndex endIndex leafOffset onCreate onBacktrack =
     ebind (not_readOnly T ''Can't create a new subtree in a read-only traversal'') (\<lambda>_.
     ebind (assert_exec (beginIndex \<le> endIndex) ''Invalid parameters'') (\<lambda>_.
     let minNeededDepth = lt_ceilLog T (maxChildrenPerInnerNode (lt_layout T)) endIndex mod 2 ^ 8 in
     ebind (assert_exec (minNeededDepth \<le> Suc depth)
              ''Given tree depth doesn't fit given number of leaves to create.'') (\<lambda>_.
     let leavesPerChild = LeafTraverser_maxLeavesForTreeDepth T depth in
     ebind (lift_result (udiv beginIndex leavesPerChild)) (\<lambda>beginChild.
     let endChild = ceilDivision 32 endIndex leavesPerChild in
     ebind (collect_each (\<lambda>childIndex.
              let childOffset = trunc32 (childIndex * leavesPerChild) in
              ebind (LeafTraverser_createNewSubtree depth T leavesPerChild leavesPerChild
                       (trunc32 (leafOffset + childOffset))
                       (\<lambda>index. throw (AssertFailed ''We're only creating gap leaves here, not traversing any.''))
                       (\<lambda>node. ret ())) (\<lambda>child.
              ebind (zoom_snd (DataNode_depth (lt_nodeStore T) child)) (\<lambda>d.
              ebind (assert_exec (d = depth) ''Created child node has wrong depth'') (\<lambda>_.
              ret (blockId child))))) [0..<beginChild]) (\<lambda>gapChildren.
     ebind (collect_each (\<lambda>childIndex.
              let childOffset = trunc32 (childIndex * leavesPerChild);
                  localBeginIndex = maxZeroSubtraction beginIndex childOffset;
                  localEndIndex = min leavesPerChild (sub32 endIndex childOffset) in
              ebind (LeafTraverser_createNewSubtree depth T localBeginIndex localEndIndex
                       (trunc32 (leafOffset + childOffset)) onCreate onBacktrack) (\<lambda>child.
              ebind (zoom_snd (DataNode_depth (lt_nodeStore T) child)) (\<lambda>d.
              ebind (assert_exec (d = depth) ''Created child node has wrong depth'') (\<lambda>_.
              ret (blockId child))))) [beginChild..<endChild]) (\<lambda>newChildren.
     let children = gapChildren @ newChildren in
     ebind (assert_exec (length children > 0) ''No children created'') (\<lambda>_.
     ebind (zoom_snd (DataNodeStore_createNewInnerNode (lt_nodeStore T) (lt_layout T) (Suc depth) children)) (\<lambda>newNode.
     ebind (if endIndex > beginIndex then onBacktrack (blockId newNode) else ret ()) (\<lambda>_.
     ret newNode)))))))))"

text \<open>
  \<open>_traverseExistingSubtree\<close> on an inner node of depth \<open>Suc depth\<close>; \<open>descend\<close> is the traversal of its
  children, which takes the identifier of the child and the same further arguments.
\<close>

type_synonym ('x, 's) subtree_traversal =
  "block_id \<Rightarrow> nat \<Rightarrow> nat \<Rightarrow> nat \<Rightarrow> bool \<Rightarrow> bool \<Rightarrow> bool \<Rightarrow> ('x, 's) tr_callbacks \<Rightarrow> (('x, 's) tr_state, unit) exec"

definition no_leaves_callbacks :: "('x, 's) tr_callbacks" where
  "no_leaves_callbacks =
     \<lparr>onExistingLeaf = (\<lambda>index isRightBorderNode leaf. throw (AssertFailed ''We don't actually traverse any leaves.'')),
      onCreateLeaf = (\<lambda>index. throw (AssertFailed ''We don't actually traverse any leaves.'')),
      onBacktrackFromSubtree = (\<lambda>node. throw (AssertFailed ''We don't actually traverse any leaves.''))\<rparr>"

definition LeafTraverser_traverseInner ::
  "nat \<Rightarrow> ('x, 's) subtree_traversal \<Rightarrow> 's leaf_traverser \<Rightarrow> ('x, 's) subtree_traversal" where
  "LeafTraverser_traverseInner depth descend T root beginIndex endIndex leafOffset
       isLeftBorderOfTraversal isRightBorderNode growLastLeaf callbacks =
     ebind (assert_exec (beginIndex \<le> endIndex) ''Invalid parameters'') (\<lambda>_.
     let leavesPerChild = LeafTraverser_maxLeavesForTreeDepth T depth in
     ebind (lift_result (udiv beginIndex leavesPerChild)) (\<lambda>beginChild.
     let endChild = ceilDivision 32 endIndex leavesPerChild in
     ebind (assert_exec (endChild \<le> maxChildrenPerInnerNode (lt_layout T))
              ''Traversal region would need increasing the tree depth. This should have happened before calling this function.'') (\<lambda>_.
     ebind (zoom_snd (DataInnerNode_numChildren (lt_nodeStore T) root)) (\<lambda>numChildren.
     ebind (assert_exec (\<not> growLastLeaf \<or> endChild \<ge> numChildren) ''Can only grow last leaf if it exists'') (\<lambda>_.
     ebind (assert_exec (\<not> lt_readOnlyTraversal T \<or> endChild \<le> numChildren)
              ''Can only traverse out of bounds in a read-only traversal'') (\<lambda>_.
     let shouldGrowLastExistingLeaf = (growLastLeaf \<or> endChild > numChildren) in
     ebind (if isLeftBorderOfTraversal \<and> beginChild \<ge> numChildren
            then
              ebind (assert_exec (numChildren > 0) ''Node doesn't have children.'') (\<lambda>_.
              ebind (zoom_snd (DataInnerNode_readLastChild (lt_nodeStore T) root)) (\<lambda>childBlockId.
              let childOffset = trunc32 (sub32 numChildren 1 * leavesPerChild) in
              descend childBlockId leavesPerChild leavesPerChild childOffset True False True no_leaves_callbacks))
            else ret ()) (\<lambda>_.
     ebind (for_each (\<lambda>childIndex.
              ebind (zoom_snd (DataInnerNode_readChild (lt_nodeStore T) root childIndex)) (\<lambda>childBlockId.
              let childOffset = trunc32 (childIndex * leavesPerChild);
                  localBeginIndex = maxZeroSubtraction beginIndex childOffset;
                  localEndIndex = min leavesPerChild (sub32 endIndex childOffset);
                  isFirstChild = (childIndex = beginChild);
                  isLastExistingChild = (childIndex = sub32 numChildren 1);
                  isLastChild = (isLastExistingChild \<and> numChildren = endChild) in
              ebind (assert_exec (localEndIndex \<le> leavesPerChild)
                       ''We don't want the child to add a tree level because it doesn't have enough space for the traversal.'') (\<lambda>_.
              descend childBlockId localBeginIndex localEndIndex (trunc32 (leafOffset + childOffset))
                (isLeftBorderOfTraversal \<and> isFirstChild) (isRightBorderNode \<and> isLastChild)
                (shouldGrowLastExistingLeaf \<and> isLastExistingChild) callbacks)))
            [beginChild..<min endChild numChildren]) (\<lambda>_.
     ebind (for_each (\<lambda>childIndex.
              ebind (not_readOnly T ''Can't create new children in a read-only traversal'') (\<lambda>_.
              let childOffset = trunc32 (childIndex * leavesPerChild);
                  localBeginIndex = min leavesPerChild (maxZeroSubtraction beginIndex childOffset);
                  localEndIndex = min leavesPerChild (sub32 endIndex childOffset);
                  leafCreator = (if childIndex \<ge> beginChild then onCreateLeaf callbacks
                                 else LeafTraverser_createMaxSizeLeaf T) in
              ebind (LeafTraverser_createNewSubtree depth T localBeginIndex localEndIndex
                       (trunc32 (leafOffset + childOffset)) leafCreator (onBacktrackFromSubtree callbacks)) (\<lambda>child.
              zoom_snd (DataInnerNode_addChild (lt_nodeStore T) (uninitialised (lt_layout T)) root child))))
            [numChildren..<endChild]) (\<lambda>_.
     if endIndex > beginIndex then onBacktrackFromSubtree callbacks root else ret ())))))))))"

primrec LeafTraverser_traverseExistingSubtree ::
  "nat \<Rightarrow> 's leaf_traverser \<Rightarrow> ('x, 's) subtree_traversal" where
  "LeafTraverser_traverseExistingSubtree 0 T i beginIndex endIndex leafOffset
       isLeftBorderOfTraversal isRightBorderNode growLastLeaf callbacks =
     ebind (assert_exec (beginIndex \<le> 1 \<and> endIndex \<le> 1)
              ''If root node is a leaf, the (sub)tree has only one leaf - access indices must be 0 or 1.'') (\<lambda>_.
     ebind (if growLastLeaf
            then
              ebind (zoom_snd (LeafHandle_node (lt_nodeStore T) (lt_layout T) (LeafHandle_new_id i))) (\<lambda>leafHandle.
              ebind (zoom_snd (DataLeafNode_numBytes (lt_nodeStore T) (lh_blockId leafHandle))) (\<lambda>n.
              if n \<noteq> maxBytesPerLeaf (lt_layout T)
              then
                ebind (not_readOnly T ''Can't grow the last leaf in a read-only traversal'') (\<lambda>_.
                ebind (zoom_snd (DataLeafNode_resize (lt_nodeStore T) (uninitialised (lt_layout T))
                         (lh_blockId leafHandle) (maxBytesPerLeaf (lt_layout T)))) (\<lambda>_.
                ret leafHandle))
              else ret leafHandle))
            else ret (LeafHandle_new_id i)) (\<lambda>leafHandle.
     if beginIndex = 0 \<and> endIndex = 1 then onExistingLeaf callbacks leafOffset isRightBorderNode leafHandle
     else ret ()))"
| "LeafTraverser_traverseExistingSubtree (Suc depth) T i beginIndex endIndex leafOffset
       isLeftBorderOfTraversal isRightBorderNode growLastLeaf callbacks =
     ebind (zoom_snd (DataNodeStore_load (lt_nodeStore T) (lt_layout T) i)) (\<lambda>node.
     ebind (case node of
              None \<Rightarrow> throw (RuntimeError ''Couldn't find child node'')
            | Some (DataLeafNode j) \<Rightarrow> throw (AssertFailed ''Has to be either leaf or inner node'')
            | Some (DataInnerNode j) \<Rightarrow> ret j) (\<lambda>inner.
     ebind (zoom_snd (DataNode_depth (lt_nodeStore T) (DataInnerNode inner))) (\<lambda>d.
     ebind (assert_exec (d = Suc depth) ''Wrong depth given'') (\<lambda>_.
     LeafTraverser_traverseInner depth (LeafTraverser_traverseExistingSubtree depth T) T inner
       beginIndex endIndex leafOffset isLeftBorderOfTraversal isRightBorderNode growLastLeaf callbacks))))"

definition LeafTraverser_increaseTreeDepth ::
  "'s leaf_traverser \<Rightarrow> data_node \<Rightarrow> (('x, 's) tr_state, data_node) exec" where
  "LeafTraverser_increaseTreeDepth T root =
     ebind (not_readOnly T ''Can't increase tree depth in a read-only traversal'') (\<lambda>_.
     ebind (zoom_snd (DataNodeStore_createNewNodeAsCopyFrom (lt_nodeStore T) (lt_layout T) root)) (\<lambda>copyOfOldRoot.
     zoom_snd (DataNode_convertToNewInnerNode (lt_nodeStore T) (lt_layout T) root copyOfOldRoot)))"

text \<open>
  The chain below the root is as long as the tree is deep. A damaged store could hold a cycle of inner
  nodes with one child each, on which the code would not return: the recursion has fuel.
\<close>

primrec LeafTraverser_whileRootHasOnlyOneChildRemoveRootReturnChild ::
  "nat \<Rightarrow> 's leaf_traverser \<Rightarrow> block_id \<Rightarrow> (('x, 's) tr_state, data_node) exec" where
  "LeafTraverser_whileRootHasOnlyOneChildRemoveRootReturnChild 0 T i = throw OutOfFuel"
| "LeafTraverser_whileRootHasOnlyOneChildRemoveRootReturnChild (Suc fuel) T i =
     ebind (not_readOnly T ''Can't decrease tree depth in a read-only traversal'') (\<lambda>_.
     ebind (zoom_snd (DataNodeStore_load (lt_nodeStore T) (lt_layout T) i)) (\<lambda>current.
     case current of
       None \<Rightarrow> throw (AssertFailed ''Node not found'')
     | Some (DataLeafNode j) \<Rightarrow> ret (DataLeafNode j)
     | Some (DataInnerNode j) \<Rightarrow>
         ebind (zoom_snd (DataInnerNode_numChildren (lt_nodeStore T) j)) (\<lambda>n.
         if n = 1 then
           ebind (zoom_snd (DataInnerNode_readChild (lt_nodeStore T) j 0)) (\<lambda>child.
           ebind (LeafTraverser_whileRootHasOnlyOneChildRemoveRootReturnChild fuel T child) (\<lambda>result.
           ebind (zoom_snd (DataNodeStore_remove (lt_nodeStore T) j)) (\<lambda>_.
           ret result)))
         else ret (DataInnerNode j))))"

definition LeafTraverser_whileRootHasOnlyOneChildReplaceRootWithItsChild ::
  "nat \<Rightarrow> 's leaf_traverser \<Rightarrow> data_node \<Rightarrow> (('x, 's) tr_state, data_node) exec" where
  "LeafTraverser_whileRootHasOnlyOneChildReplaceRootWithItsChild fuel T root =
     (case root of
        DataLeafNode i \<Rightarrow> ret root
      | DataInnerNode i \<Rightarrow>
          ebind (zoom_snd (DataInnerNode_numChildren (lt_nodeStore T) i)) (\<lambda>n.
          if n = 1 then
            ebind (not_readOnly T ''Can't decrease tree depth in a read-only traversal'') (\<lambda>_.
            ebind (zoom_snd (DataInnerNode_readChild (lt_nodeStore T) i 0)) (\<lambda>child.
            ebind (LeafTraverser_whileRootHasOnlyOneChildRemoveRootReturnChild fuel T child) (\<lambda>newRoot.
            ebind (zoom_snd (DataNodeStore_overwriteNodeWith (lt_nodeStore T) (lt_layout T) root newRoot)) (\<lambda>root'.
            ebind (zoom_snd (DataNodeStore_remove (lt_nodeStore T) (blockId newRoot))) (\<lambda>_.
            ret root')))))
          else ret root))"

text \<open>
  The root grows by one level per round. The fuel of the rounds and of the chain above is the number of
  depths a byte can hold, so that only a store whose nodes form a cycle runs out of it.
\<close>

primrec LeafTraverser_traverseAndUpdateRoot_rounds ::
  "nat \<Rightarrow> 's leaf_traverser \<Rightarrow> data_node \<Rightarrow> nat \<Rightarrow> nat \<Rightarrow> bool \<Rightarrow> ('x, 's) tr_callbacks \<Rightarrow>
   (('x, 's) tr_state, data_node) exec" where
  "LeafTraverser_traverseAndUpdateRoot_rounds 0 T root beginIndex endIndex isLeftBorderOfTraversal callbacks =
     throw OutOfFuel"
| "LeafTraverser_traverseAndUpdateRoot_rounds (Suc fuel) T root beginIndex endIndex isLeftBorderOfTraversal callbacks =
     ebind (assert_exec (beginIndex \<le> endIndex) ''Invalid parameters'') (\<lambda>_.
     ebind (zoom_snd (DataNode_depth (lt_nodeStore T) root)) (\<lambda>depth.
     let maxLeavesForDepth = LeafTraverser_maxLeavesForTreeDepth T depth;
         increaseTreeDepth = (endIndex > maxLeavesForDepth) in
     ebind (assert_exec (\<not> lt_readOnlyTraversal T \<or> \<not> increaseTreeDepth)
              ''Tried to grow a tree on a read only traversal'') (\<lambda>_.
     ebind (case depth of
              0 \<Rightarrow>
                (case root of
                   DataInnerNode i \<Rightarrow> throw (AssertFailed ''Depth 0 has to be leaf node'')
                 | DataLeafNode leaf \<Rightarrow>
                     ebind (zoom_snd (DataLeafNode_numBytes (lt_nodeStore T) leaf)) (\<lambda>n.
                     ebind (if increaseTreeDepth \<and> n \<noteq> maxBytesPerLeaf (lt_layout T)
                            then zoom_snd (DataLeafNode_resize (lt_nodeStore T) (uninitialised (lt_layout T))
                                   leaf (maxBytesPerLeaf (lt_layout T)))
                            else ret ()) (\<lambda>_.
                     if beginIndex = 0 \<and> endIndex \<ge> 1
                     then onExistingLeaf callbacks 0 (endIndex = 1) (LeafHandle_new_node leaf)
                     else ret ())))
            | Suc childDepth \<Rightarrow>
                (case root of
                   DataLeafNode i \<Rightarrow> throw (AssertFailed ''Depth != 0 has to be leaf node'')
                 | DataInnerNode inner \<Rightarrow>
                     LeafTraverser_traverseInner childDepth (LeafTraverser_traverseExistingSubtree childDepth T) T inner
                       (min beginIndex maxLeavesForDepth) (min endIndex maxLeavesForDepth) 0
                       isLeftBorderOfTraversal (\<not> increaseTreeDepth) increaseTreeDepth callbacks)) (\<lambda>_.
     if increaseTreeDepth then
       ebind (LeafTraverser_increaseTreeDepth T root) (\<lambda>root'.
       LeafTraverser_traverseAndUpdateRoot_rounds fuel T root' (max beginIndex maxLeavesForDepth) endIndex False callbacks)
     else LeafTraverser_whileRootHasOnlyOneChildReplaceRootWithItsChild 256 T root))))"

definition LeafTraverser_traverseAndUpdateRoot ::
  "'s leaf_traverser \<Rightarrow> data_node \<Rightarrow> nat \<Rightarrow> nat \<Rightarrow> ('x, 's) tr_callbacks \<Rightarrow> (('x, 's) tr_state, data_node) exec" where
  "LeafTraverser_traverseAndUpdateRoot T root beginIndex endIndex callbacks =
     LeafTraverser_traverseAndUpdateRoot_rounds 256 T root beginIndex endIndex True callbacks"

section \<open>DataTree\<close>

record size_cache =
  sc_numLeaves :: nat
  sc_numBytes :: nat

text \<open>
  A tree object: its root node and the \<open>CachedValue\<close> of its size. When a traversal throws, the model
  keeps the root node object it had before.
\<close>

record data_tree =
  rootNode :: data_node
  dt_blockId :: block_id
  sizeCache :: "size_cache option"

record 's data_tree_env =
  dte_nodeStore :: "'s block_store2"
  dte_layout :: node_layout
  dte_ceilLog :: "nat \<Rightarrow> nat \<Rightarrow> nat"

type_synonym 's tree_state = "data_tree \<times> 's hl_state"

definition DataTree_new :: "data_node \<Rightarrow> data_tree" where
  "DataTree_new root = \<lparr>rootNode = root, dt_blockId = blockId root, sizeCache = None\<rparr>"

subsection \<open>CachedValue\<close>

definition CachedValue_getOrCompute :: "('s tree_state, size_cache) exec \<Rightarrow> ('s tree_state, size_cache) exec" where
  "CachedValue_getOrCompute compute =
     ebind (gets (\<lambda>s. sizeCache (fst s))) (\<lambda>cache.
       case cache of
         Some c \<Rightarrow> ret c
       | None \<Rightarrow> ebind compute (\<lambda>c. ebind (modify (\<lambda>s. ((fst s)\<lparr>sizeCache := Some c\<rparr>, snd s))) (\<lambda>_. ret c)))"

definition CachedValue_update :: "(size_cache option \<Rightarrow> size_cache option) \<Rightarrow> ('s tree_state, unit) exec" where
  "CachedValue_update func = modify (\<lambda>s. ((fst s)\<lparr>sizeCache := func (sizeCache (fst s))\<rparr>, snd s))"

definition CachedValue_clear :: "('s tree_state, unit) exec" where
  "CachedValue_clear = CachedValue_update (\<lambda>cache. None)"

subsection \<open>Sizes\<close>

definition DataTree_leavesPerFullChild :: "'s data_tree_env \<Rightarrow> nat \<Rightarrow> nat" where
  "DataTree_leavesPerFullChild E depth =
     trunc32 (intPow 64 (maxChildrenPerInnerNode (dte_layout E)) (sub64 depth 1))"

text \<open>The recursion goes down the right border; as above, only a cyclic store exceeds its fuel.\<close>

primrec DataTree_computeSizeCache_loop ::
  "nat \<Rightarrow> 's data_tree_env \<Rightarrow> data_node \<Rightarrow> ('s hl_state, size_cache) exec" where
  "DataTree_computeSizeCache_loop 0 E node = throw OutOfFuel"
| "DataTree_computeSizeCache_loop (Suc fuel) E node =
     (case node of
        DataLeafNode leaf \<Rightarrow>
          ebind (DataLeafNode_numBytes (dte_nodeStore E) leaf) (\<lambda>n.
          ret \<lparr>sc_numLeaves = 1, sc_numBytes = n\<rparr>)
      | DataInnerNode inner \<Rightarrow>
          ebind (DataInnerNode_numChildren (dte_nodeStore E) inner) (\<lambda>numChildren.
          ebind (DataNode_depth (dte_nodeStore E) node) (\<lambda>depth.
          let numLeavesInLeftChildren = trunc32 (sub32 numChildren 1 * DataTree_leavesPerFullChild E depth);
              numBytesInLeftChildren = trunc64 (numLeavesInLeftChildren * maxBytesPerLeaf (dte_layout E)) in
          ebind (DataInnerNode_readLastChild (dte_nodeStore E) inner) (\<lambda>lastChildId.
          ebind (DataNodeStore_load (dte_nodeStore E) (dte_layout E) lastChildId) (\<lambda>lastChild.
          case lastChild of
            None \<Rightarrow> throw (AssertFailed ''Couldn't load last child'')
          | Some c \<Rightarrow>
              ebind (DataTree_computeSizeCache_loop fuel E c) (\<lambda>sizeInRightChild.
              ret \<lparr>sc_numLeaves = trunc32 (numLeavesInLeftChildren + sc_numLeaves sizeInRightChild),
                   sc_numBytes = trunc64 (numBytesInLeftChildren + sc_numBytes sizeInRightChild)\<rparr>))))))"

definition DataTree_computeSizeCache :: "'s data_tree_env \<Rightarrow> data_node \<Rightarrow> ('s hl_state, size_cache) exec" where
  "DataTree_computeSizeCache E node = DataTree_computeSizeCache_loop 256 E node"

definition DataTree_getOrComputeSizeCache :: "'s data_tree_env \<Rightarrow> ('s tree_state, size_cache) exec" where
  "DataTree_getOrComputeSizeCache E =
     CachedValue_getOrCompute (ebind (gets (\<lambda>s. rootNode (fst s))) (\<lambda>root.
       zoom_snd (DataTree_computeSizeCache E root)))"

definition DataTree_numLeaves :: "'s data_tree_env \<Rightarrow> ('s tree_state, nat) exec" where
  "DataTree_numLeaves E = ebind (DataTree_getOrComputeSizeCache E) (\<lambda>c. ret (sc_numLeaves c))"

definition DataTree_numBytes :: "'s data_tree_env \<Rightarrow> ('s tree_state, nat) exec" where
  "DataTree_numBytes E = ebind (DataTree_getOrComputeSizeCache E) (\<lambda>c. ret (sc_numBytes c))"

definition DataTree_forceComputeNumLeaves :: "'s data_tree_env \<Rightarrow> ('s tree_state, nat) exec" where
  "DataTree_forceComputeNumLeaves E = ebind CachedValue_clear (\<lambda>_. DataTree_numLeaves E)"

definition DataTree_depth :: "'s data_tree_env \<Rightarrow> ('s tree_state, nat) exec" where
  "DataTree_depth E =
     ebind (gets (\<lambda>s. rootNode (fst s))) (\<lambda>root. zoom_snd (DataNode_depth (dte_nodeStore E) root))"

fun DataTree_numNodes_loop :: "nat \<Rightarrow> nat \<Rightarrow> nat \<Rightarrow> nat \<Rightarrow> nat" where
  "DataTree_numNodes_loop maxChildren 0 numNodesCurrentLevel totalNumNodes = totalNumNodes"
| "DataTree_numNodes_loop maxChildren (Suc levels) numNodesCurrentLevel totalNumNodes =
     (let numNodesCurrentLevel = ceilDivision 32 numNodesCurrentLevel maxChildren
      in DataTree_numNodes_loop maxChildren levels numNodesCurrentLevel (trunc32 (totalNumNodes + numNodesCurrentLevel)))"

definition DataTree_numNodes :: "'s data_tree_env \<Rightarrow> ('s tree_state, nat) exec" where
  "DataTree_numNodes E =
     ebind (DataTree_numLeaves E) (\<lambda>numLeaves.
     ebind (DataTree_depth E) (\<lambda>depth.
     ret (DataTree_numNodes_loop (trunc32 (maxChildrenPerInnerNode (dte_layout E))) depth numLeaves numLeaves)))"

subsection \<open>Traversals\<close>

definition DataTree_traverseLeavesByLeafIndices ::
  "'s data_tree_env \<Rightarrow> data_node \<Rightarrow> nat \<Rightarrow> nat \<Rightarrow> bool \<Rightarrow> ('x, 's) tr_callbacks \<Rightarrow> (('x, 's) tr_state, data_node) exec" where
  "DataTree_traverseLeavesByLeafIndices E root beginIndex endIndex readOnlyTraversal callbacks =
     (if endIndex \<le> beginIndex then ret root
      else LeafTraverser_traverseAndUpdateRoot
             \<lparr>lt_nodeStore = dte_nodeStore E, lt_layout = dte_layout E,
              lt_readOnlyTraversal = readOnlyTraversal, lt_ceilLog = dte_ceilLog E\<rparr>
             root beginIndex endIndex callbacks)"

text \<open>
  The byte-level callbacks run on the caller's state \<open>'x\<close>, and the traversal keeps
  \<open>blobIsGrowingFromThisTraversal\<close> beside it.
\<close>

record ('x, 's) byte_callbacks =
  onExistingLeafBytes :: "nat \<Rightarrow> leaf_handle \<Rightarrow> nat \<Rightarrow> nat \<Rightarrow> (('x, 's) tr_state, unit) exec"
  onCreateLeafBytes :: "nat \<Rightarrow> nat \<Rightarrow> (('x, 's) tr_state, data) exec"

definition zoom_growing :: "(('x, 's) tr_state, 'a) exec \<Rightarrow> ((bool \<times> 'x, 's) tr_state, 'a) exec" where
  "zoom_growing m s =
     (case m (snd (fst s), snd s) of (r, t) \<Rightarrow> (r, ((fst (fst s), fst t), snd t)))"

definition set_growing :: "((bool \<times> 'x, 's) tr_state, unit) exec" where
  "set_growing = modify (\<lambda>s. ((True, snd (fst s)), snd s))"

definition DataTree_byteOnExistingLeaf ::
  "'s data_tree_env \<Rightarrow> nat \<Rightarrow> nat \<Rightarrow> nat \<Rightarrow> ('x, 's) byte_callbacks \<Rightarrow>
   nat \<Rightarrow> bool \<Rightarrow> leaf_handle \<Rightarrow> ((bool \<times> 'x, 's) tr_state, unit) exec" where
  "DataTree_byteOnExistingLeaf E beginByte endByte endLeaf callbacks leafIndex isRightBorderLeaf leafHandle =
     (let maxBytes = maxBytesPerLeaf (dte_layout E);
          indexOfFirstLeafByte = trunc64 (leafIndex * maxBytes) in
      ebind (assert_exec (endByte > indexOfFirstLeafByte) ''Traversal went too far right'') (\<lambda>_.
      let dataBegin = trunc32 (maxZeroSubtraction beginByte indexOfFirstLeafByte);
          dataEnd = trunc32 (min maxBytes (sub64 endByte indexOfFirstLeafByte)) in
      ebind (if isRightBorderLeaf
             then
               ebind (assert_exec (leafIndex = sub32 endLeaf 1)
                        ''If we traversed further right, this wouldn't be the right border leaf.'') (\<lambda>_.
               ebind (zoom_snd (LeafHandle_node (dte_nodeStore E) (dte_layout E) leafHandle)) (\<lambda>h.
               ebind (zoom_snd (DataLeafNode_numBytes (dte_nodeStore E) (lh_blockId h))) (\<lambda>n.
               if n < dataEnd
               then
                 ebind (zoom_snd (DataLeafNode_resize (dte_nodeStore E) (uninitialised (dte_layout E)) (lh_blockId h) dataEnd)) (\<lambda>_.
                 ebind set_growing (\<lambda>_. ret h))
               else ret h)))
             else ret leafHandle) (\<lambda>h.
      zoom_growing (onExistingLeafBytes callbacks indexOfFirstLeafByte h dataBegin (sub32 dataEnd dataBegin)))))"

definition DataTree_byteOnCreateLeaf ::
  "'s data_tree_env \<Rightarrow> bool \<Rightarrow> nat \<Rightarrow> nat \<Rightarrow> nat \<Rightarrow> nat \<Rightarrow> ('x, 's) byte_callbacks \<Rightarrow>
   nat \<Rightarrow> ((bool \<times> 'x, 's) tr_state, data) exec" where
  "DataTree_byteOnCreateLeaf E readOnlyTraversal beginByte endByte firstLeaf endLeaf callbacks leafIndex =
     ebind (assert_exec (\<not> readOnlyTraversal) ''Cannot create leaves in a read-only traversal'') (\<lambda>_.
     ebind set_growing (\<lambda>_.
     let maxBytes = maxBytesPerLeaf (dte_layout E);
         indexOfFirstLeafByte = trunc64 (leafIndex * maxBytes) in
     ebind (assert_exec (endByte > indexOfFirstLeafByte) ''Traversal went too far right'') (\<lambda>_.
     let dataBegin = trunc32 (maxZeroSubtraction beginByte indexOfFirstLeafByte);
         dataEnd = trunc32 (min maxBytes (sub64 endByte indexOfFirstLeafByte)) in
     ebind (assert_exec (leafIndex = firstLeaf \<or> dataBegin = 0) ''Only the leftmost leaf can have a gap on the left.'') (\<lambda>_.
     ebind (assert_exec (leafIndex = sub32 endLeaf 1 \<or> dataEnd = maxBytes) ''Only the rightmost leaf can have a gap on the right'') (\<lambda>_.
     ebind (zoom_growing (onCreateLeafBytes callbacks (trunc64 (indexOfFirstLeafByte + dataBegin)) (sub32 dataEnd dataBegin))) (\<lambda>d.
     ebind (assert_exec (length d = sub32 dataEnd dataBegin) ''Returned leaf data with wrong size'') (\<lambda>_.
     if dataBegin \<noteq> 0 then ret (zeroes dataBegin @ d) else ret d)))))))"

definition DataTree_traverseLeavesByByteIndices ::
  "'s data_tree_env \<Rightarrow> nat \<Rightarrow> nat \<Rightarrow> bool \<Rightarrow> ('x, 's) byte_callbacks \<Rightarrow> 'x \<Rightarrow> ('s tree_state, 'x) exec" where
  "DataTree_traverseLeavesByByteIndices E beginByte sizeBytes readOnlyTraversal callbacks captured =
     (if sizeBytes = 0 then ret captured
      else
        let endByte = trunc64 (beginByte + sizeBytes);
            maxBytes = maxBytesPerLeaf (dte_layout E);
            firstLeaf = trunc32 (beginByte div maxBytes);
            endLeaf = trunc32 (ceilDivision 64 endByte maxBytes) in
        ebind (\<lambda>s.
          case DataTree_traverseLeavesByLeafIndices E (rootNode (fst s)) firstLeaf endLeaf readOnlyTraversal
                 \<lparr>onExistingLeaf = DataTree_byteOnExistingLeaf E beginByte endByte endLeaf callbacks,
                  onCreateLeaf = DataTree_byteOnCreateLeaf E readOnlyTraversal beginByte endByte firstLeaf endLeaf callbacks,
                  onBacktrackFromSubtree = (\<lambda>node. ret ())\<rparr>
                 ((False, captured), snd s) of
            (Inl e, t) \<Rightarrow> (Inl e, (fst s, snd t))
          | (Inr root, t) \<Rightarrow> (Inr (fst t), ((fst s)\<lparr>rootNode := root\<rparr>, snd t))) (\<lambda>(blobIsGrowingFromThisTraversal, result).
        ebind (assert_exec (\<not> readOnlyTraversal \<or> \<not> blobIsGrowingFromThisTraversal)
                 ''Blob grew from traversal that didn't allow growing (i.e. reading)'') (\<lambda>_.
        ebind (if blobIsGrowingFromThisTraversal
               then CachedValue_update (\<lambda>cache. Some \<lparr>sc_numLeaves = endLeaf, sc_numBytes = endByte\<rparr>)
               else ret ()) (\<lambda>_.
        ret result))))"

subsection \<open>Resizing\<close>

definition DataTree_resizeOnExistingLeaf ::
  "'s data_tree_env \<Rightarrow> nat \<Rightarrow> nat \<Rightarrow> bool \<Rightarrow> leaf_handle \<Rightarrow> ((unit, 's) tr_state, unit) exec" where
  "DataTree_resizeOnExistingLeaf E newLastLeafSize index isRightBorderLeaf leafHandle =
     ebind (zoom_snd (LeafHandle_node (dte_nodeStore E) (dte_layout E) leafHandle)) (\<lambda>h.
     ebind (zoom_snd (DataLeafNode_numBytes (dte_nodeStore E) (lh_blockId h))) (\<lambda>n.
     if n \<noteq> newLastLeafSize
     then zoom_snd (DataLeafNode_resize (dte_nodeStore E) (uninitialised (dte_layout E)) (lh_blockId h) newLastLeafSize)
     else ret ()))"

text \<open>The loop removes at least one child per round, so the number of children bounds its rounds.\<close>

primrec DataTree_removeChildrenRightOf ::
  "nat \<Rightarrow> 's data_tree_env \<Rightarrow> nat \<Rightarrow> block_id \<Rightarrow> ('s hl_state, unit) exec" where
  "DataTree_removeChildrenRightOf 0 E needed node = throw OutOfFuel"
| "DataTree_removeChildrenRightOf (Suc fuel) E needed node =
     ebind (DataInnerNode_numChildren (dte_nodeStore E) node) (\<lambda>n.
     if n > needed
     then
       ebind (DataNode_depth (dte_nodeStore E) (DataInnerNode node)) (\<lambda>depth.
       ebind (DataInnerNode_readLastChild (dte_nodeStore E) node) (\<lambda>child.
       ebind (DataNodeStore_removeSubtree_at (sub32 depth 1 mod 2 ^ 8) (dte_nodeStore E) (dte_layout E) child) (\<lambda>_.
       ebind (DataInnerNode_removeLastChild (dte_nodeStore E) node) (\<lambda>_.
       DataTree_removeChildrenRightOf fuel E needed node))))
     else ret ())"

definition DataTree_resizeOnBacktrack ::
  "'s data_tree_env \<Rightarrow> nat \<Rightarrow> block_id \<Rightarrow> ((unit, 's) tr_state, unit) exec" where
  "DataTree_resizeOnBacktrack E newNumLeaves node =
     zoom_snd (
     ebind (DataNode_depth (dte_nodeStore E) (DataInnerNode node)) (\<lambda>depth.
     let maxChildren = trunc32 (maxChildrenPerInnerNode (dte_layout E));
         maxLeavesPerChild = trunc32 (intPow 64 maxChildren (sub64 depth 1)) in
     ebind (lift_result (udiv newNumLeaves maxLeavesPerChild)) (\<lambda>_.
     let neededNodesOnChildLevel = ceilDivision 32 newNumLeaves maxLeavesPerChild;
         neededSiblings = ceilDivision 32 neededNodesOnChildLevel maxChildren;
         neededChildrenForRightBorderNode =
           sub32 neededNodesOnChildLevel (trunc32 (sub32 neededSiblings 1 * maxChildren)) in
     ebind (DataInnerNode_numChildren (dte_nodeStore E) node) (\<lambda>n.
     ebind (assert_exec (neededChildrenForRightBorderNode \<le> n) ''Node has too few children'') (\<lambda>_.
     DataTree_removeChildrenRightOf (Suc n) E neededChildrenForRightBorderNode node)))))"

definition DataTree_resizeNumBytes :: "'s data_tree_env \<Rightarrow> nat \<Rightarrow> ('s tree_state, unit) exec" where
  "DataTree_resizeNumBytes E newNumBytes =
     (let maxBytes = maxBytesPerLeaf (dte_layout E);
          newNumLeaves = trunc32 (max 1 (ceilDivision 64 newNumBytes maxBytes));
          newLastLeafSize = trunc32 (sub64 newNumBytes (trunc64 (sub32 newNumLeaves 1 * maxBytes))) in
      ebind (\<lambda>s.
        case DataTree_traverseLeavesByLeafIndices E (rootNode (fst s)) (sub32 newNumLeaves 1) newNumLeaves False
               \<lparr>onExistingLeaf = DataTree_resizeOnExistingLeaf E newLastLeafSize,
                onCreateLeaf = (\<lambda>index. ret (zeroes newLastLeafSize)),
                onBacktrackFromSubtree = DataTree_resizeOnBacktrack E newNumLeaves\<rparr>
               ((), snd s) of
          (Inl e, t) \<Rightarrow> (Inl e, (fst s, snd t))
        | (Inr root, t) \<Rightarrow> (Inr (), ((fst s)\<lparr>rootNode := root\<rparr>, snd t))) (\<lambda>_.
      CachedValue_update (\<lambda>cache. Some \<lparr>sc_numLeaves = newNumLeaves, sc_numBytes = newNumBytes\<rparr>)))"

subsection \<open>Reading and writing\<close>

text \<open>The buffer \<open>target\<close> of a read is the captured state of its callbacks.\<close>

definition DataTree_readOnExistingLeaf ::
  "'s data_tree_env \<Rightarrow> nat \<Rightarrow> nat \<Rightarrow> nat \<Rightarrow> leaf_handle \<Rightarrow> nat \<Rightarrow> nat \<Rightarrow> ((data, 's) tr_state, unit) exec" where
  "DataTree_readOnExistingLeaf E offset count indexOfFirstLeafByte leaf leafDataOffset leafDataSize =
     ebind (assert_exec (trunc64 (indexOfFirstLeafByte + leafDataOffset) \<ge> offset \<and>
                         trunc64 (sub64 indexOfFirstLeafByte offset + leafDataOffset) \<le> count \<and>
                         trunc64 (sub64 indexOfFirstLeafByte offset + leafDataOffset + leafDataSize) \<le> count)
              ''Writing to target out of bounds'') (\<lambda>_.
     ebind (zoom_snd (LeafHandle_node (dte_nodeStore E) (dte_layout E) leaf)) (\<lambda>h.
     ebind (zoom_snd (DataLeafNode_read (dte_nodeStore E) (lh_blockId h) leafDataOffset leafDataSize)) (\<lambda>bytes.
     modify (\<lambda>s. (write_at (indexOfFirstLeafByte + leafDataOffset - offset) bytes (fst s), snd s)))))"

definition DataTree_doReadBytes :: "'s data_tree_env \<Rightarrow> nat \<Rightarrow> nat \<Rightarrow> data \<Rightarrow> ('s tree_state, data) exec" where
  "DataTree_doReadBytes E offset count target =
     DataTree_traverseLeavesByByteIndices E offset count True
       \<lparr>onExistingLeafBytes = DataTree_readOnExistingLeaf E offset count,
        onCreateLeafBytes = (\<lambda>beginByte count. throw (AssertFailed ''Reading shouldn't create new leaves.''))\<rparr> target"

definition DataTree_realCount :: "nat \<Rightarrow> nat \<Rightarrow> nat \<Rightarrow> nat" where
  "DataTree_realCount sz offset count =
     nat (max 0 (min (sint (of_nat count :: u64)) (sint (of_nat sz - of_nat offset :: u64))))"

definition DataTree_tryReadBytes ::
  "'s data_tree_env \<Rightarrow> nat \<Rightarrow> nat \<Rightarrow> data \<Rightarrow> ('s tree_state, nat \<times> data) exec" where
  "DataTree_tryReadBytes E offset count target =
     ebind (DataTree_numBytes E) (\<lambda>sz.
     let realCount = DataTree_realCount sz offset count in
     ebind (DataTree_doReadBytes E offset realCount target) (\<lambda>target'.
     ret (realCount, target')))"

definition DataTree_readBytes :: "'s data_tree_env \<Rightarrow> nat \<Rightarrow> nat \<Rightarrow> data \<Rightarrow> ('s tree_state, data) exec" where
  "DataTree_readBytes E offset count target =
     ebind (DataTree_numBytes E) (\<lambda>sz.
     if offset > sz \<or> trunc64 (offset + count) > sz
     then throw (RuntimeError ''BlobOnBlocks::read() read outside blob. Use BlobOnBlocks::tryRead() if this should be allowed.'')
     else
       ebind (DataTree_tryReadBytes E offset count target) (\<lambda>(nread, target').
       if nread \<noteq> count
       then throw (RuntimeError ''BlobOnBlocks::read() couldn't read all requested bytes. Use BlobOnBlocks::tryRead() if this should be allowed.'')
       else ret target'))"

text \<open>The buffer of \<open>readAllBytes\<close> is allocated without initialisation; \<open>fill\<close> is what it holds.\<close>

definition DataTree_readAllBytes :: "byte \<Rightarrow> 's data_tree_env \<Rightarrow> ('s tree_state, data) exec" where
  "DataTree_readAllBytes fill E =
     ebind (DataTree_numBytes E) (\<lambda>count. DataTree_doReadBytes E 0 count (replicate count fill))"

definition DataTree_writeOnExistingLeaf ::
  "'s data_tree_env \<Rightarrow> data \<Rightarrow> nat \<Rightarrow> nat \<Rightarrow> nat \<Rightarrow> leaf_handle \<Rightarrow> nat \<Rightarrow> nat \<Rightarrow> ((unit, 's) tr_state, unit) exec" where
  "DataTree_writeOnExistingLeaf E source offset count indexOfFirstLeafByte leaf leafDataOffset leafDataSize =
     ebind (assert_exec (trunc64 (indexOfFirstLeafByte + leafDataOffset) \<ge> offset \<and>
                         trunc64 (sub64 indexOfFirstLeafByte offset + leafDataOffset) \<le> count \<and>
                         trunc64 (sub64 indexOfFirstLeafByte offset + leafDataOffset + leafDataSize) \<le> count)
              ''Reading from source out of bounds'') (\<lambda>_.
     if leafDataOffset = 0 \<and> leafDataSize = maxBytesPerLeaf (dte_layout E)
     then
       ebind (zoom_snd (DataNodeStore_overwriteLeaf (dte_nodeStore E) (dte_layout E) (lh_blockId leaf)
                (slice (indexOfFirstLeafByte - offset) leafDataSize source))) (\<lambda>_. ret ())
     else
       ebind (zoom_snd (LeafHandle_node (dte_nodeStore E) (dte_layout E) leaf)) (\<lambda>h.
       zoom_snd (DataLeafNode_write (dte_nodeStore E) (lh_blockId h)
         (slice (indexOfFirstLeafByte + leafDataOffset - offset) leafDataSize source) leafDataOffset)))"

definition DataTree_writeOnCreateLeaf ::
  "data \<Rightarrow> nat \<Rightarrow> nat \<Rightarrow> nat \<Rightarrow> nat \<Rightarrow> ((unit, 's) tr_state, data) exec" where
  "DataTree_writeOnCreateLeaf source offset count beginByte numBytes =
     ebind (assert_exec (beginByte \<ge> offset \<and> sub64 beginByte offset \<le> count \<and>
                         trunc64 (sub64 beginByte offset + numBytes) \<le> count)
              ''Reading from source out of bounds'') (\<lambda>_.
     ret (slice (beginByte - offset) numBytes source))"

definition DataTree_writeBytes :: "'s data_tree_env \<Rightarrow> data \<Rightarrow> nat \<Rightarrow> nat \<Rightarrow> ('s tree_state, unit) exec" where
  "DataTree_writeBytes E source offset count =
     DataTree_traverseLeavesByByteIndices E offset count False
       \<lparr>onExistingLeafBytes = DataTree_writeOnExistingLeaf E source offset count,
        onCreateLeafBytes = DataTree_writeOnCreateLeaf source offset count\<rparr> ()"

section \<open>DataTreeStore\<close>

definition DataTreeStore_load ::
  "'s data_tree_env \<Rightarrow> block_id \<Rightarrow> ('s hl_state, data_tree option) exec" where
  "DataTreeStore_load E i =
     ebind (DataNodeStore_load (dte_nodeStore E) (dte_layout E) i) (\<lambda>node.
     ret (map_option DataTree_new node))"

definition DataTreeStore_createNewTree :: "'s data_tree_env \<Rightarrow> ('s hl_state, data_tree) exec" where
  "DataTreeStore_createNewTree E =
     ebind (DataNodeStore_createNewLeafNode (dte_nodeStore E) (dte_layout E) []) (\<lambda>newleaf.
     ret (DataTree_new newleaf))"

definition DataTreeStore_remove_tree :: "'s data_tree_env \<Rightarrow> data_tree \<Rightarrow> ('s hl_state, unit) exec" where
  "DataTreeStore_remove_tree E tree =
     DataNodeStore_removeSubtree (dte_nodeStore E) (dte_layout E) (rootNode tree)"

definition DataTreeStore_remove :: "'s data_tree_env \<Rightarrow> block_id \<Rightarrow> ('s hl_state, unit) exec" where
  "DataTreeStore_remove E i =
     ebind (DataTreeStore_load E i) (\<lambda>tree.
       case tree of
         None \<Rightarrow> throw (AssertFailed ''Tree to remove not found'')
       | Some t \<Rightarrow> DataTreeStore_remove_tree E t)"

end
