(* ===== verification/NodeHeap.thy ===== *)
theory NodeHeap
  imports DataTrees
begin

text \<open>
  What the operations of the data nodes do to the heap of blocks. \<open>leaf_bytes\<close> and \<open>inner_bytes\<close> say which
  bytes represent a leaf with given content and an inner node with given children; the lemmas of the
  locale \<open>node_heap\<close> state each node operation as a result together with an update of the heap.
\<close>

type_synonym heap = "block_id \<rightharpoonup> data"

section \<open>Bytes of a node\<close>

definition node_bytes :: "node_layout \<Rightarrow> nat \<Rightarrow> nat \<Rightarrow> data \<Rightarrow> bool" where
  "node_bytes L depth sz v \<longleftrightarrow> length v = blocksizeBytes L \<and> depth < 2 ^ 8 \<and> sz < 2 ^ 32 \<and>
     slice 0 2 v = serialize DataNode_FORMAT_VERSION_HEADER \<and>
     slice 3 1 v = serialize (of_nat depth :: byte) \<and> slice 4 4 v = serialize (of_nat sz :: u32)"

definition leaf_bytes :: "node_layout \<Rightarrow> data \<Rightarrow> data \<Rightarrow> bool" where
  "leaf_bytes L d v \<longleftrightarrow> node_bytes L 0 (length d) v \<and> length d \<le> maxBytesPerLeaf L \<and>
     drop 8 v = d @ zeroes (maxBytesPerLeaf L - length d)"

definition inner_bytes :: "node_layout \<Rightarrow> nat \<Rightarrow> block_id list \<Rightarrow> data \<Rightarrow> bool" where
  "inner_bytes L depth is v \<longleftrightarrow> node_bytes L depth (length is) v \<and> 0 < depth \<and>
     0 < length is \<and> length is \<le> maxChildrenPerInnerNode L \<and>
     (\<forall>k<length is. slice (8 + 16 * k) 16 v = BlockId_ToBinary (is ! k))"

lemma node_bytes_unat:
  assumes "node_bytes L depth sz v"
  shows "unat (of_nat depth :: byte) = depth" and "unat (of_nat sz :: u32) = sz"
  using assms by (simp_all add: node_bytes_def unat_of_nat)

lemma node_bytes_fields:
  assumes "node_bytes L depth sz v"
  shows "deserializeWithOffset v FORMAT_VERSION_OFFSET_BYTES = Inr DataNode_FORMAT_VERSION_HEADER"
    and "deserializeWithOffset v DEPTH_OFFSET_BYTES = Inr (of_nat depth :: byte)"
    and "deserializeWithOffset v SIZE_OFFSET_BYTES = Inr (of_nat sz :: u32)"
  using assms by (auto intro!: deserialize_slice simp: node_bytes_def node_simps)

text \<open>Changes of the size field and of the data region.\<close>

lemma node_bytes_setSize:
  assumes "node_bytes L depth sz v" and "8 \<le> blocksizeBytes L" and "sz' < 2 ^ 32"
  shows "node_bytes L depth sz' (write_at 4 (serialize (of_nat sz' :: u32)) v)"
  using assms by (simp add: node_bytes_def data_simps)

lemma node_bytes_write:
  assumes "node_bytes L depth sz v" and "off + length d + 8 \<le> blocksizeBytes L"
  shows "node_bytes L depth sz (write_at (off + 8) d v)"
  using assms by (simp add: node_bytes_def data_simps)

lemma drop_write_at_before: "off + length src \<le> k \<Longrightarrow> k \<le> length dst \<Longrightarrow> drop k (write_at off src dst) = drop k dst"
  by (simp add: write_at_def add.commute)

lemma drop_write_at_after: "off + k \<le> length dst \<Longrightarrow> drop k (write_at (off + k) src dst) = write_at off src (drop k dst)"
  by (simp add: write_at_def take_drop add.commute add.left_commute)

lemma drop_write_fill:
  assumes "length b = m + 8" and "length d \<le> m"
  shows "drop 8 (write_at (8 + length d) (zeroes (m - length d)) (write_at 8 d b)) = d @ zeroes (m - length d)"
  using assms by (simp add: write_at_def)

lemma length_node_serialize:
  assumes "layout_ok L" and "length d \<le> maxBytesPerLeaf L"
  shows "length (DataNodeView_serialize L v depth sz d) = blocksizeBytes L"
  using assms(2) layout_sizes(1) [OF assms(1)]
  by (simp add: DataNodeView_serialize_def Let_def node_simps flip: maxBytesPerLeaf_def)

lemma node_serialize:
  assumes "layout_ok L" and "length d \<le> maxBytesPerLeaf L" and "depth < 2 ^ 8" and "sz < 2 ^ 32"
  shows "node_bytes L depth sz (DataNodeView_serialize L DataNode_FORMAT_VERSION_HEADER (of_nat depth) (of_nat sz) d)"
    and "drop 8 (DataNodeView_serialize L DataNode_FORMAT_VERSION_HEADER (of_nat depth) (of_nat sz) d) =
      d @ zeroes (maxBytesPerLeaf L - length d)"
proof -
  note sizes = layout_sizes [OF assms(1)]
  have ds: "datasizeBytes L = maxBytesPerLeaf L" by (simp add: maxBytesPerLeaf_def)
  show "node_bytes L depth sz (DataNodeView_serialize L DataNode_FORMAT_VERSION_HEADER (of_nat depth) (of_nat sz) d)"
    using assms sizes by (simp add: node_bytes_def DataNodeView_serialize_def Let_def node_simps data_simps ds)
  let ?b = "write_at 4 (serialize (of_nat sz :: u32)) (write_at 3 (serialize (of_nat depth :: byte))
    (write_at 0 (serialize DataNode_FORMAT_VERSION_HEADER) (replicate (blocksizeBytes L) (uninitialised L))))"
  have len: "length ?b = maxBytesPerLeaf L + 8" using sizes by simp
  from drop_write_fill [OF len assms(2)]
  show "drop 8 (DataNodeView_serialize L DataNode_FORMAT_VERSION_HEADER (of_nat depth) (of_nat sz) d) =
      d @ zeroes (maxBytesPerLeaf L - length d)"
    by (simp add: DataNodeView_serialize_def Let_def node_simps ds)
qed

lemma leaf_serialize:
  assumes "layout_ok L" and "length d \<le> maxBytesPerLeaf L"
  shows "leaf_bytes L d (DataNodeView_serialize L DataNode_FORMAT_VERSION_HEADER 0 (of_nat (length d)) d)"
  using node_serialize [OF assms, of 0 "length d"] layout_sizes(4) [OF assms(1)] assms(2)
  by (simp add: leaf_bytes_def)

text \<open>The children of an inner node in its bytes.\<close>

lemma serializeChildren_loop_eq:
  "16 * (i + length is) \<le> length d \<Longrightarrow>
   serializeChildren_loop is i d = write_at (16 * i) (concat (map BlockId_ToBinary is)) d"
proof (induction "is" arbitrary: i d)
  case Nil
  then show ?case by (simp add: write_at_def)
next
  case (Cons x xs)
  let ?d = "write_at (i * BINARY_LENGTH) (BlockId_ToBinary x) d"
  have len: "length (concat (map BlockId_ToBinary ys)) = 16 * length ys" for ys :: "block_id list"
    by (induction ys) auto
  have "length ?d = length d" using Cons.prems by (simp add: BINARY_LENGTH_def)
  then have "serializeChildren_loop (x # xs) i d = write_at (16 * (i + 1)) (concat (map BlockId_ToBinary xs)) ?d"
    using Cons by simp
  also have "\<dots> = write_at (16 * i) (concat (map BlockId_ToBinary (x # xs))) d"
    using Cons.prems by (simp add: write_at_def BINARY_LENGTH_def len mult.commute min_def add_ac)
  finally show ?case .
qed

lemma length_concat_ids [simp]: "length (concat (map BlockId_ToBinary is)) = 16 * length is"
  by (induction "is") auto

lemma serializeChildren_eq: "DataInnerNode_serializeChildren is = concat (map BlockId_ToBinary is)"
proof -
  have "length (concat (map BlockId_ToBinary is)) = 16 * length is" by (induction "is") auto
  then show ?thesis
    unfolding DataInnerNode_serializeChildren_def
    by (subst serializeChildren_loop_eq) (simp_all add: sizeof_ChildEntry_def write_at_def)
qed

lemma slice_concat_ids:
  "k < length is \<Longrightarrow> slice (16 * k) 16 (concat (map BlockId_ToBinary is) @ rest) = BlockId_ToBinary (is ! k)"
proof (induction "is" arbitrary: k)
  case Nil
  then show ?case by simp
next
  case (Cons x xs)
  then show ?case
    by (cases k) (auto simp: slice_def)
qed

lemma slice_drop_add: "slice (a + b) n v = slice b n (drop a v)"
  by (simp add: slice_def add.commute)

lemma inner_serialize:
  assumes "layout_ok L" and "0 < depth" and "depth < 2 ^ 8" and "0 < length is" and "length is \<le> maxChildrenPerInnerNode L"
  shows "inner_bytes L depth is (DataNodeView_serialize L DataNode_FORMAT_VERSION_HEADER (of_nat depth)
    (of_nat (length is)) (DataInnerNode_serializeChildren is))"
proof -
  note sizes = layout_sizes [OF assms(1)]
  have len: "length (DataInnerNode_serializeChildren is) \<le> maxBytesPerLeaf L"
    using assms(5) sizes(5) by (simp add: serializeChildren_eq)
  show ?thesis
    using node_serialize [OF assms(1) len assms(3), of "length is"] assms sizes(6)
    by (simp add: inner_bytes_def slice_drop_add slice_concat_ids serializeChildren_eq)
qed

text \<open>The content of a leaf after \<open>resize\<close>: cut, or extended with zeroes.\<close>

definition resized :: "nat \<Rightarrow> data \<Rightarrow> data" where
  "resized k d = take k d @ zeroes (k - length d)"

lemma length_resized [simp]: "length (resized k d) = k"
  by (simp add: resized_def min_def)

section \<open>Operations as heap updates\<close>

locale node_heap = block_heap bs inv blocks fits capacity "blocksizeBytes L"
  for bs :: "'s block_store2" and inv blocks fits capacity and L :: node_layout +
  assumes layout: "layout_ok L"
begin

lemmas sizes = layout_sizes [OF layout]

abbreviation heap_of :: "'s hl_state \<Rightarrow> heap" where
  "heap_of s \<equiv> blocks (snd s)"

text \<open>
  \<open>does P m x U\<close>: on every heap with \<open>P\<close> the operation returns \<open>x\<close>, takes no identifier and updates the heap
  by \<open>U\<close>.
\<close>

definition does :: "(heap \<Rightarrow> bool) \<Rightarrow> ('s hl_state, 'a) exec \<Rightarrow> 'a \<Rightarrow> (heap \<Rightarrow> heap) \<Rightarrow> bool" where
  "does P m x U \<longleftrightarrow> (\<forall>s. supplied s \<longrightarrow> P (heap_of s) \<longrightarrow>
     yields m s x (\<lambda>t. supplied t \<and> fst t = fst s \<and> heap_of t = U (heap_of s)))"

lemma doesD:
  assumes "does P m x U" and "supplied s" and "P (heap_of s)"
  shows "yields m s x (\<lambda>t. supplied t \<and> fst t = fst s \<and> heap_of t = U (heap_of s))"
  using assms unfolding does_def by blast

lemma doesI:
  assumes "\<And>s. supplied s \<Longrightarrow> P (heap_of s) \<Longrightarrow>
    yields m s x (\<lambda>t. supplied t \<and> fst t = fst s \<and> heap_of t = U (heap_of s))"
  shows "does P m x U"
  using assms unfolding does_def by blast

lemma does_ebind:
  assumes "does P m x U" and "does Q (f x) y V" and "\<And>h. P h \<Longrightarrow> Q (U h)"
  shows "does P (ebind m f) y (\<lambda>h. V (U h))"
proof (rule doesI)
  fix s assume "supplied s" "P (heap_of s)"
  from doesD [OF assms(1) this] show "yields (ebind m f) s y
      (\<lambda>t. supplied t \<and> fst t = fst s \<and> heap_of t = V (U (heap_of s)))"
  proof (rule yields_ebind)
    fix t assume t: "supplied t \<and> fst t = fst s \<and> heap_of t = U (heap_of s)"
    with assms(3) [OF \<open>P (heap_of s)\<close>] have "Q (heap_of t)" by simp
    from doesD [OF assms(2) _ this] t show "yields (f x) t y
        (\<lambda>u. supplied u \<and> fst u = fst s \<and> heap_of u = V (U (heap_of s)))" by simp
  qed
qed

lemma does_read:
  assumes "does P m x (\<lambda>h. h)" and "does P (f x) y V"
  shows "does P (ebind m f) y V"
  using does_ebind [where U = "\<lambda>h. h" and x = x and Q = P and P = P and m = m and f = f and y = y and V = V] assms
  by simp

lemma does_ret [simp]: "does P (ret x) x (\<lambda>h. h)"
  and does_lift [simp]: "r = Inr x \<Longrightarrow> does P (lift_result r) x (\<lambda>h. h)"
  and does_assert [simp]: "b \<Longrightarrow> does P (assert_exec b msg) () (\<lambda>h. h)"
  by (auto intro!: doesI simp: yields_def)

lemma does_weaken:
  assumes "does P m x U" and "\<And>h. Q h \<Longrightarrow> P h" and "\<And>h. Q h \<Longrightarrow> U h = V h"
  shows "does Q m x V"
proof (rule doesI)
  fix s assume "supplied s" "Q (heap_of s)"
  with doesD [OF assms(1) this(1) assms(2)] assms(3) show "yields m s x
      (\<lambda>t. supplied t \<and> fst t = fst s \<and> heap_of t = V (heap_of s))" by simp
qed

lemma does_pre: "does P m x U \<Longrightarrow> (\<And>h. Q h \<Longrightarrow> P h) \<Longrightarrow> does Q m x U"
  by (erule does_weaken) simp_all

text \<open>The blocks.\<close>

abbreviation at :: "block_id \<Rightarrow> data \<Rightarrow> heap \<Rightarrow> bool" where
  "at i v \<equiv> (\<lambda>h. h i = Some v)"

lemma Block_data_does: "does (at i v) (Block_data bs i) v (\<lambda>h. h)"
  by (intro doesI Block_data_ok)

lemma Block_size_does: "length v = k \<Longrightarrow> does (at i v) (Block_size bs i) k (\<lambda>h. h)"
  unfolding Block_size_def by (rule does_read [OF Block_data_does]) simp

lemma Block_open_does: "does (at i v) (Block_open bs i) True (\<lambda>h. h)"
  and Block_open_missing: "does (\<lambda>h. h i = None) (Block_open bs i) False (\<lambda>h. h)"
  using Block_open_ok [of _ i] by (fastforce intro!: doesI)+

lemma Block_write_does:
  "length v = blocksizeBytes L \<Longrightarrow> off + length src \<le> blocksizeBytes L \<Longrightarrow>
   does (at i v) (Block_write bs i src off) () (\<lambda>h. h(i \<mapsto> write_at off src v))"
  by (intro doesI Block_write_ok)

lemma Block_overwrite_does:
  assumes "length d = blocksizeBytes L"
  shows "does (at i v) (Block_overwrite bs i d) () (\<lambda>h. h(i \<mapsto> d))"
proof (rule doesI)
  fix s assume s: "supplied s" "at i v (heap_of s)"
  then have "i \<notin> set (fst s)" by (auto simp: supplied_def)
  from store_ok [OF s(1) assms this] show "yields (Block_overwrite bs i d) s ()
      (\<lambda>t. supplied t \<and> fst t = fst s \<and> heap_of t = (heap_of s)(i \<mapsto> d))"
    by (auto simp: Block_overwrite_def LowToHighLevelBlock_Overwrite_def yields_def zoom_snd_def ebind_def
        split: prod.splits sum.splits)
qed

lemma remove_does: "does (\<lambda>h. h i \<noteq> None) (DataNodeStore_remove bs i) () (\<lambda>h. h(i := None))"
  unfolding DataNodeStore_remove_def by (intro doesI remove_ok)

subsection \<open>Fields\<close>

lemma layout_does:
  assumes "length v = blocksizeBytes L"
  shows "does (at i v) (DataNodeView_layout bs junk i) \<lparr>blocksizeBytes = blocksizeBytes L, uninitialised = junk\<rparr> (\<lambda>h. h)"
  unfolding DataNodeView_layout_def
  by (rule does_read [OF Block_size_does [OF assms]])
    (use layout in \<open>simp add: DataNodeLayout_new_def node_simps layout_ok_def\<close>)

lemma layout_junk [simp]:
  "maxBytesPerLeaf \<lparr>blocksizeBytes = blocksizeBytes L, uninitialised = junk\<rparr> = maxBytesPerLeaf L"
  "maxChildrenPerInnerNode \<lparr>blocksizeBytes = blocksizeBytes L, uninitialised = junk\<rparr> = maxChildrenPerInnerNode L"
  by (simp_all add: maxBytesPerLeaf_def maxChildrenPerInnerNode_def datasizeBytes_def)

lemma len_v: "node_bytes L depth sz v \<Longrightarrow> length v = blocksizeBytes L"
  by (simp add: node_bytes_def)

lemma Depth_does: "node_bytes L depth sz v \<Longrightarrow> does (at i v) (DataNodeView_Depth bs i) (of_nat depth) (\<lambda>h. h)"
  unfolding DataNodeView_Depth_def
  by (rule does_read [OF Block_data_does]) (simp add: node_bytes_fields [where L = L])

lemma FormatVersion_does: "node_bytes L depth sz v \<Longrightarrow> does (at i v) (DataNodeView_FormatVersion bs i) DataNode_FORMAT_VERSION_HEADER (\<lambda>h. h)"
  unfolding DataNodeView_FormatVersion_def
  by (rule does_read [OF Block_data_does]) (simp add: node_bytes_fields [where L = L])

lemma Size_does: "node_bytes L depth sz v \<Longrightarrow> does (at i v) (DataNodeView_Size bs i) (of_nat sz) (\<lambda>h. h)"
  unfolding DataNodeView_Size_def
  by (rule does_read [OF Block_data_does]) (simp add: node_bytes_fields [where L = L])

lemma data_does: "does (at i v) (DataNodeView_data bs i) (drop 8 v) (\<lambda>h. h)"
  unfolding DataNodeView_data_def
  by (rule does_read [OF Block_data_does]) (simp add: node_simps)

lemma depth_does: "node_bytes L depth sz v \<Longrightarrow> blockId node = i \<Longrightarrow> does (at i v) (DataNode_depth bs node) depth (\<lambda>h. h)"
  unfolding DataNode_depth_def
  by (rule does_read) (auto intro: Depth_does simp: node_bytes_unat)

lemma numBytes_does: "node_bytes L depth sz v \<Longrightarrow> does (at i v) (DataLeafNode_numBytes bs i) sz (\<lambda>h. h)"
  unfolding DataLeafNode_numBytes_def
  by (rule does_read [OF Size_does]) (assumption, simp add: node_bytes_unat)

lemma numChildren_does: "node_bytes L depth sz v \<Longrightarrow> does (at i v) (DataInnerNode_numChildren bs i) sz (\<lambda>h. h)"
  unfolding DataInnerNode_numChildren_def
  by (rule does_read [OF Size_does]) (assumption, simp add: node_bytes_unat)

lemma setSize_does:
  "node_bytes L depth sz v \<Longrightarrow> sz' < 2 ^ 32 \<Longrightarrow> does (at i v) (DataNodeView_setSize bs i (of_nat sz')) ()
     (\<lambda>h. h(i \<mapsto> write_at 4 (serialize (of_nat sz' :: u32)) v))"
  unfolding DataNodeView_setSize_def SIZE_OFFSET_BYTES_def
  by (rule Block_write_does) (simp_all add: len_v sizes(1))

lemma write_does:
  "node_bytes L depth sz v \<Longrightarrow> off + length src \<le> maxBytesPerLeaf L \<Longrightarrow> does (at i v) (DataNodeView_write bs i src off) ()
     (\<lambda>h. h(i \<mapsto> write_at (off + 8) src v))"
  unfolding DataNodeView_write_def HEADERSIZE_BYTES_def
  by (rule Block_write_does) (simp_all add: len_v sizes(1))

subsection \<open>Leaves\<close>

lemma leaf_node: "leaf_bytes L d v \<Longrightarrow> node_bytes L 0 (length d) v"
  by (simp add: leaf_bytes_def)

lemma maxStoreableBytes_does:
  "length v = blocksizeBytes L \<Longrightarrow> does (at i v) (DataLeafNode_maxStoreableBytes bs junk i) (maxBytesPerLeaf L) (\<lambda>h. h)"
  unfolding DataLeafNode_maxStoreableBytes_def by (rule does_read [OF layout_does]) (assumption, simp)

lemma leaf_new_does:
  assumes "leaf_bytes L d v"
  shows "does (at i v) (DataLeafNode_new bs junk i) (DataLeafNode i) (\<lambda>h. h)"
proof -
  note v = leaf_node [OF assms]
  show ?thesis
    unfolding DataLeafNode_new_def
    by (rule does_read [OF Depth_does [OF v]], rule does_read [OF does_assert], simp,
        rule does_read [OF numBytes_does [OF v]], rule does_read [OF maxStoreableBytes_does [OF len_v [OF v]]],
        rule does_read [OF does_assert], use assms in \<open>simp add: leaf_bytes_def\<close>,
        rule does_read [OF FormatVersion_does [OF v]]) simp
qed

lemma load_leaf_does:
  assumes "leaf_bytes L d v"
  shows "does (at i v) (DataNodeStore_load bs L i) (Some (DataLeafNode i)) (\<lambda>h. h)"
proof -
  note v = leaf_node [OF assms]
  have "does (at i v) (DataNodeStore_load_block bs L i) (DataLeafNode i) (\<lambda>h. h)"
    unfolding DataNodeStore_load_block_def
    by (rule does_read [OF Depth_does [OF v]]) (simp add: leaf_new_does [OF assms])
  then show ?thesis
    unfolding DataNodeStore_load_def
    by (intro does_read [OF Block_open_does])
      (simp, intro does_read [OF Block_size_does [OF len_v [OF v]]] does_read [OF does_assert] does_read [OF _ does_ret], simp_all)
qed

lemma load_missing_does: "does (\<lambda>h. h i = None) (DataNodeStore_load bs L i) None (\<lambda>h. h)"
  unfolding DataNodeStore_load_def by (rule does_read [OF Block_open_missing]) simp

lemma leaf_read_does:
  assumes "leaf_bytes L d v" and "off + k \<le> length d"
  shows "does (at i v) (DataLeafNode_read bs i off k) (slice off k d) (\<lambda>h. h)"
proof -
  note v = leaf_node [OF assms(1)]
  have "slice off k (drop 8 v) = slice off k d"
    using assms by (simp add: leaf_bytes_def slice_append_left)
  then show ?thesis
    unfolding DataLeafNode_read_def
    by (intro does_read [OF numBytes_does [OF v]] does_read [OF does_assert] does_read [OF data_does])
      (use assms(2) in simp_all)
qed

lemma leaf_write_bytes:
  assumes "leaf_bytes L d v" and "off + length src \<le> length d"
  shows "leaf_bytes L (write_at off src d) (write_at (off + 8) src v)"
proof -
  note v = leaf_node [OF assms(1)]
  have "drop 8 (write_at (off + 8) src v) = write_at off src (drop 8 v)"
    by (rule drop_write_at_after) (use assms len_v [OF v] sizes in \<open>simp add: leaf_bytes_def\<close>)
  also have "\<dots> = write_at off src d @ zeroes (maxBytesPerLeaf L - length d)"
    using assms by (simp add: leaf_bytes_def write_at_def)
  finally show ?thesis
    using assms node_bytes_write [OF v, of off src] sizes(1) by (simp add: leaf_bytes_def)
qed

lemma leaf_write_does:
  assumes "leaf_bytes L d v" and "off + length src \<le> length d"
  shows "does (at i v) (DataLeafNode_write bs i src off) () (\<lambda>h. h(i \<mapsto> write_at (off + 8) src v))"
proof -
  note v = leaf_node [OF assms(1)]
  show ?thesis
    unfolding DataLeafNode_write_def
    by (intro does_read [OF numBytes_does [OF v]] does_read [OF does_assert] write_does [OF v])
      (use assms in \<open>simp_all add: leaf_bytes_def\<close>)
qed

lemma leaf_resize_does:
  assumes "leaf_bytes L d v" and "k \<le> maxBytesPerLeaf L"
  obtains w where "leaf_bytes L (resized k d) w"
    and "\<And>i. does (at i v) (DataLeafNode_resize bs junk i k) () (\<lambda>h. h(i \<mapsto> w))"
proof -
  note v = leaf_node [OF assms(1)]
  have k: "k < 2 ^ 32" using assms(2) sizes(4) by linarith
  define u where "u = (if k < length d then write_at (k + 8) (zeroes (length d - k)) v else v)"
  have u: "node_bytes L 0 (length d) u" and du: "drop 8 u = resized k d @ zeroes (maxBytesPerLeaf L - k)"
  proof -
    show "node_bytes L 0 (length d) u"
      using node_bytes_write [OF v, of k "zeroes (length d - k)"] v assms(1) sizes(1)
      by (simp add: u_def leaf_bytes_def)
    have "drop 8 v = d @ zeroes (maxBytesPerLeaf L - length d)" and len: "length d \<le> maxBytesPerLeaf L"
      using assms(1) by (simp_all add: leaf_bytes_def)
    moreover have "drop 8 (write_at (k + 8) (zeroes (length d - k)) v) = write_at k (zeroes (length d - k)) (drop 8 v)"
      by (rule drop_write_at_after) (use assms(2) len_v [OF v] sizes(1) in simp)
    ultimately show "drop 8 u = resized k d @ zeroes (maxBytesPerLeaf L - k)"
      using assms(2) by (auto simp: u_def write_at_def resized_def zeroes_def simp flip: replicate_add)
  qed
  define w where "w = write_at 4 (serialize (of_nat k :: u32)) u"
  have lenu: "length u = blocksizeBytes L" using u by (simp add: node_bytes_def)
  have "leaf_bytes L (resized k d) w"
    using node_bytes_setSize [OF u _ k] sizes(1) drop_write_at_before [of 4 "serialize (of_nat k :: u32)" 8 u] lenu du assms(2)
    by (simp add: leaf_bytes_def w_def)
  moreover have "does (at i v) (DataLeafNode_resize bs junk i k) () (\<lambda>h. h(i \<mapsto> w))" for i
  proof -
    have "does (at i v) (if k < length d then DataLeafNode_fillDataWithZeroesFromTo bs i k (length d) else ret ()) ()
        (\<lambda>h. h(i \<mapsto> u))"
    proof (cases "k < length d")
      case True
      then show ?thesis using write_does [OF v, of k "zeroes (length d - k)" i] assms(1)
        by (simp add: u_def leaf_bytes_def DataLeafNode_fillDataWithZeroesFromTo_def)
    next
      case False
      have "does (at i v) (ret ()) () (\<lambda>h. h(i \<mapsto> u))"
        by (rule does_weaken [OF does_ret [where P = "at i v"]]) (use False in \<open>auto simp: u_def fun_eq_iff\<close>)
      with False show ?thesis by simp
    qed
    then have "does (at i v) (ebind (if k < length d then DataLeafNode_fillDataWithZeroesFromTo bs i k (length d) else ret ())
        (\<lambda>_. DataNodeView_setSize bs i (of_nat k))) () (\<lambda>h. h(i \<mapsto> u, i \<mapsto> w))"
      unfolding w_def
      by (rule does_ebind [where Q = "at i u" and V = "\<lambda>h. h(i \<mapsto> write_at 4 (serialize (of_nat k :: u32)) u)"])
        (simp_all add: setSize_does [OF u k])
    then have "does (at i v) (ebind (if k < length d then DataLeafNode_fillDataWithZeroesFromTo bs i k (length d) else ret ())
        (\<lambda>_. DataNodeView_setSize bs i (of_nat k))) () (\<lambda>h. h(i \<mapsto> w))"
      by simp
    then show ?thesis
      unfolding DataLeafNode_resize_def
      by (intro does_read [OF maxStoreableBytes_does [OF len_v [OF v]]] does_read [OF does_assert]
          does_read [OF numBytes_does [OF v]]) (use assms(2) in simp_all)
  qed
  ultimately show thesis by (rule that)
qed

lemma overwriteLeaf_does:
  assumes "length d = maxBytesPerLeaf L"
  obtains w where "leaf_bytes L d w"
    and "\<And>i v. does (at i v) (DataNodeStore_overwriteLeaf bs L i d) (DataLeafNode i) (\<lambda>h. h(i \<mapsto> w))"
proof -
  let ?w = "DataNodeView_serialize L DataNode_FORMAT_VERSION_HEADER 0 (of_nat (length d)) d"
  have w: "leaf_bytes L d ?w" by (rule leaf_serialize [OF layout]) (simp add: assms)
  have len: "length ?w = blocksizeBytes L" by (rule length_node_serialize [OF layout]) (simp add: assms)
  have "does (at i v) (DataNodeStore_overwriteLeaf bs L i d) (DataLeafNode i) (\<lambda>h. h(i \<mapsto> ?w))" for i v
    unfolding DataNodeStore_overwriteLeaf_def DataLeafNode_OverwriteNode_def DataNodeView_overwrite_def
    by (intro does_read [OF does_assert] does_ebind [where Q = "at i ?w" and V = "\<lambda>h. h",
          OF does_read [OF does_assert Block_overwrite_does [OF len]]]
        leaf_new_does [OF w]) (simp_all add: assms flip: maxBytesPerLeaf_def)
  with w show thesis by (rule that)
qed

subsection \<open>Inner nodes\<close>

lemma inner_node: "inner_bytes L depth is v \<Longrightarrow> node_bytes L depth (length is) v"
  by (simp add: inner_bytes_def)

lemma inner_new_does:
  assumes "inner_bytes L depth is v"
  shows "does (at i v) (DataInnerNode_new bs i) (DataInnerNode i) (\<lambda>h. h)"
proof -
  note v = inner_node [OF assms]
  have "0 < (of_nat depth :: byte)"
    using node_bytes_unat(1) [OF v] assms by (metis inner_bytes_def unat_gt_0 word_gt_0)
  then show ?thesis
    unfolding DataInnerNode_new_def
    by (intro does_read [OF Depth_does [OF v]] does_read [OF does_assert] does_read [OF FormatVersion_does [OF v]]) simp_all
qed

lemma load_inner_does:
  assumes "inner_bytes L depth is v" and "depth \<le> 10"
  shows "does (at i v) (DataNodeStore_load bs L i) (Some (DataInnerNode i)) (\<lambda>h. h)"
proof -
  note v = inner_node [OF assms(1)]
  have u: "unat (of_nat depth :: byte) = depth" by (rule node_bytes_unat [OF v])
  then have "(of_nat depth :: byte) \<noteq> 0"
    using assms(1) by (metis inner_bytes_def unat_0 less_irrefl)
  with u assms(2) have "does (at i v) (DataNodeStore_load_block bs L i) (DataInnerNode i) (\<lambda>h. h)"
    unfolding DataNodeStore_load_block_def DataNodeStore_MAX_DEPTH_def
    by (intro does_read [OF Depth_does [OF v]]) (simp add: inner_new_does [OF assms(1)])
  then show ?thesis
    unfolding DataNodeStore_load_def
    by (intro does_read [OF Block_open_does])
      (simp, intro does_read [OF Block_size_does [OF len_v [OF v]]] does_read [OF does_assert] does_read [OF _ does_ret], simp_all)
qed

lemma readChild_does:
  assumes "inner_bytes L depth is v" and "k < length is"
  shows "does (at i v) (DataInnerNode_readChild bs i k) (is ! k) (\<lambda>h. h)"
proof -
  note v = inner_node [OF assms(1)]
  have "slice (k * 16) 16 (drop 8 v) = BlockId_ToBinary (is ! k)"
    using assms by (simp add: inner_bytes_def slice_drop_add mult.commute)
  then have "BlockId_FromBinary (drop (k * sizeof_ChildEntry) (drop 8 v)) = Inr (is ! k)"
    unfolding sizeof_ChildEntry_def by (rule FromBinary_slice)
  then show ?thesis
    unfolding DataInnerNode_readChild_def
    by (intro does_read [OF numChildren_does [OF v]] does_read [OF does_assert] does_read [OF data_does])
      (use assms(2) in simp_all)
qed

lemma last_index:
  assumes "inner_bytes L depth is v"
  shows "unat (of_nat (length is) - 1 :: u32) = length is - 1"
proof -
  have "0 < length is" and len: "length is < 2 ^ 32"
    using assms by (simp_all add: inner_bytes_def node_bytes_def)
  then have "of_nat (length is) - 1 = (of_nat (length is - 1) :: u32)"
    by (metis One_nat_def Suc_leI of_nat_1 of_nat_diff)
  then show ?thesis using len by (simp add: unat_of_nat)
qed

lemma readLastChild_does:
  assumes "inner_bytes L depth is v"
  shows "does (at i v) (DataInnerNode_readLastChild bs i) (last is) (\<lambda>h. h)"
proof -
  have "0 < length is" using assms by (simp add: inner_bytes_def)
  then show ?thesis
    unfolding DataInnerNode_readLastChild_def
    by (intro does_read [OF Size_does [OF inner_node [OF assms]]])
      (simp add: last_index [OF assms] last_conv_nth readChild_does [OF assms])
qed

lemma inner_addChild_does:
  assumes v: "inner_bytes L depth is v" and room: "length is < maxChildrenPerInnerNode L"
    and c: "node_bytes L (depth - 1) sz cv" and ne: "blockId child \<noteq> i"
  obtains w where "inner_bytes L depth (is @ [blockId child]) w"
    and "does (\<lambda>h. h i = Some v \<and> h (blockId child) = Some cv) (DataInnerNode_addChild bs junk i child) () (\<lambda>h. h(i \<mapsto> w))"
proof -
  let ?P = "\<lambda>h. h i = Some v \<and> h (blockId child) = Some cv" and ?n = "length is"
  note vn = inner_node [OF v]
  have n: "Suc ?n < 2 ^ 32" and d: "0 < depth" and n0: "0 < ?n" using v room sizes(6) by (simp_all add: inner_bytes_def)
  define u where "u = write_at 4 (serialize (of_nat (Suc ?n) :: u32)) v"
  have u: "node_bytes L depth (Suc ?n) u"
    unfolding u_def by (rule node_bytes_setSize [OF vn _ n]) (use sizes(1) in simp)
  have len: "length u = blocksizeBytes L" "length v = blocksizeBytes L"
    using u vn by (simp_all add: node_bytes_def)
  define w where "w = write_at (16 * ?n + 8) (BlockId_ToBinary (blockId child)) u"
  have fit: "16 * ?n + 16 \<le> maxBytesPerLeaf L" using room sizes(5) by linarith
  have "inner_bytes L depth (is @ [blockId child]) w"
  proof -
    have "node_bytes L depth (Suc ?n) w"
      unfolding w_def by (rule node_bytes_write [OF u]) (use fit sizes(1) in simp)
    moreover have "slice (8 + 16 * k) 16 w = BlockId_ToBinary ((is @ [blockId child]) ! k)" if "k < Suc ?n" for k
    proof (cases "k = ?n")
      case True
      then show ?thesis using fit len sizes(1) by (simp add: w_def slice_write_at_same' add.commute)
    next
      case False
      with that have k: "k < ?n" by simp
      then have "slice (8 + 16 * k) 16 w = slice (8 + 16 * k) 16 u"
        unfolding w_def by (intro slice_write_at_before) (use fit len sizes(1) in simp_all)
      also have "\<dots> = slice (8 + 16 * k) 16 v"
        unfolding u_def by (intro slice_write_at_after) (use len sizes(1) in simp_all)
      finally show ?thesis using v k by (simp add: inner_bytes_def nth_append)
    qed
    ultimately show ?thesis using room d by (simp add: inner_bytes_def)
  qed
  moreover have "does ?P (DataInnerNode_addChild bs junk i child) () (\<lambda>h. h(i \<mapsto> w))"
  proof -
    have cu: "int (depth - 1) = int (unat (of_nat depth :: byte)) - 1"
      using node_bytes_unat(1) [OF vn] d by simp
    have "unat (of_nat (Suc ?n) - 1 :: u32) = ?n" using n by (simp add: unat_of_nat)
    then have wl: "does (at i u) (DataInnerNode_writeLastChild bs i (blockId child)) () (\<lambda>h. h(i \<mapsto> w))"
      unfolding DataInnerNode_writeLastChild_def DataInnerNode_writeChild_def w_def sizeof_ChildEntry_def
      by (intro does_read [OF Size_does [OF u]])
        (simp, intro does_read [OF numChildren_does [OF u]] does_read [OF does_assert],
          use fit in \<open>auto intro!: write_does [OF u] simp: mult.commute\<close>)
    have st: "does ?P (DataNodeView_setSize bs i (of_nat ?n + 1)) () (\<lambda>h. h(i \<mapsto> u))"
      using setSize_does [OF vn n, of i] unfolding u_def by (simp add: add.commute) (erule does_pre, simp)
    have "does ?P (ebind (DataNodeView_setSize bs i (of_nat ?n + 1)) (\<lambda>_. DataInnerNode_writeLastChild bs i (blockId child))) ()
        (\<lambda>h. h(i \<mapsto> u, i \<mapsto> w))"
      by (rule does_ebind [OF st wl]) simp
    then have "does ?P (ebind (DataNodeView_setSize bs i (of_nat ?n + 1)) (\<lambda>_. DataInnerNode_writeLastChild bs i (blockId child))) ()
        (\<lambda>h. h(i \<mapsto> w))" by simp
    then show ?thesis
      unfolding DataInnerNode_addChild_def DataInnerNode_maxStoreableChildren_def
      by (intro does_read [OF numChildren_does [OF vn, THEN does_pre]]
          does_read [OF does_read [OF layout_does [THEN does_pre] does_ret]] does_read [OF does_assert]
          does_read [OF depth_does [OF c refl, THEN does_pre]] does_read [OF Depth_does [OF vn, THEN does_pre]]
          does_read [OF Size_does [OF vn, THEN does_pre]])
        (use room len cu in \<open>simp_all\<close>)
  qed
  ultimately show thesis by (rule that)
qed

lemma inner_removeLast_does:
  assumes v: "inner_bytes L depth is v" and more: "1 < length is"
  obtains w where "inner_bytes L depth (butlast is) w"
    and "does (at i v) (DataInnerNode_removeLastChild bs i) () (\<lambda>h. h(i \<mapsto> w))"
proof -
  let ?n = "length is"
  note vn = inner_node [OF v]
  have n: "?n < 2 ^ 32" and d: "0 < depth" and le: "?n \<le> maxChildrenPerInnerNode L"
    using v sizes(6) by (simp_all add: inner_bytes_def node_bytes_def)
  define u where "u = write_at (16 * (?n - 1) + 8) (BlockId_ToBinary BlockId_Null) v"
  have fit: "16 * (?n - 1) + 16 \<le> maxBytesPerLeaf L" using le more sizes(5) by linarith
  have u: "node_bytes L depth ?n u"
    unfolding u_def by (rule node_bytes_write [OF vn]) (use fit sizes(1) in simp)
  have len: "length u = blocksizeBytes L" "length v = blocksizeBytes L"
    using u vn by (simp_all add: node_bytes_def)
  define w where "w = write_at 4 (serialize (of_nat (?n - 1) :: u32)) u"
  have n1: "?n - 1 < 2 ^ 32" using n by linarith
  have "inner_bytes L depth (butlast is) w"
  proof -
    have "node_bytes L depth (?n - 1) w"
      unfolding w_def by (rule node_bytes_setSize [OF u _ n1]) (use sizes(1) in simp)
    moreover have "slice (8 + 16 * k) 16 w = BlockId_ToBinary (butlast is ! k)" if k: "k < ?n - 1" for k
    proof -
      have "slice (8 + 16 * k) 16 w = slice (8 + 16 * k) 16 u"
        unfolding w_def by (intro slice_write_at_after) (use len sizes(1) in simp_all)
      also have "\<dots> = slice (8 + 16 * k) 16 v"
        unfolding u_def by (intro slice_write_at_before) (use k fit len sizes(1) in simp_all)
      finally show ?thesis using v k by (simp add: inner_bytes_def nth_butlast)
    qed
    ultimately show ?thesis using le more d by (simp add: inner_bytes_def)
  qed
  moreover have "does (at i v) (DataInnerNode_removeLastChild bs i) () (\<lambda>h. h(i \<mapsto> w))"
  proof -
    have un: "unat (of_nat ?n - 1 :: u32) = ?n - 1" by (rule last_index [OF v])
    have wl: "does (at i v) (DataInnerNode_writeLastChild bs i BlockId_Null) () (\<lambda>h. h(i \<mapsto> u))"
      unfolding DataInnerNode_writeLastChild_def DataInnerNode_writeChild_def u_def sizeof_ChildEntry_def
      by (intro does_read [OF Size_does [OF vn]], simp only: un,
          intro does_read [OF numChildren_does [OF vn]] does_read [OF does_assert])
        (use fit more write_does [OF vn, of "16 * (?n - 1)" "BlockId_ToBinary BlockId_Null" i] in \<open>simp_all add: mult.commute\<close>)
    have of_nat_n1: "of_nat ?n - 1 = (of_nat (?n - 1) :: u32)" using more by (simp add: of_nat_diff)
    have "does (at i u) (ebind (DataNodeView_Size bs i) (\<lambda>n. DataNodeView_setSize bs i (n - 1))) () (\<lambda>h. h(i \<mapsto> w))"
      unfolding w_def by (rule does_read [OF Size_does [OF u]]) (simp only: of_nat_n1 setSize_does [OF u n1])
    then have "does (at i v) (ebind (DataInnerNode_writeLastChild bs i BlockId_Null)
        (\<lambda>_. ebind (DataNodeView_Size bs i) (\<lambda>n. DataNodeView_setSize bs i (n - 1)))) () (\<lambda>h. h(i \<mapsto> u, i \<mapsto> w))"
      by (rule does_ebind [OF wl]) simp
    moreover have "1 < (of_nat ?n :: u32)"
      using more node_bytes_unat(2) [OF vn] by (simp add: word_less_nat_alt)
    ultimately show ?thesis
      unfolding DataInnerNode_removeLastChild_def
      by (intro does_read [OF Size_does [OF vn]] does_read [OF does_assert]) simp_all
  qed
  ultimately show thesis by (rule that)
qed

subsection \<open>New nodes\<close>

text \<open>Creation takes the next identifier.\<close>

lemma create_ok:
  assumes "supplied s" and "fst s = i # ids" and "length d = blocksizeBytes L"
    and "does (at i d) (f i) y (\<lambda>h. h)"
  shows "yields (ebind (Block_create bs d) f) s y
    (\<lambda>t. supplied t \<and> fst t = ids \<and> heap_of t = (heap_of s)(i \<mapsto> d))"
proof (rule yields_ebind [OF Block_create_ok [OF assms(1,3,2)]])
  fix t assume t: "supplied t \<and> fst t = ids \<and> heap_of t = (heap_of s)(i \<mapsto> d)"
  with doesD [OF assms(4), of t] show "yields (f i) t y
      (\<lambda>t. supplied t \<and> fst t = ids \<and> heap_of t = (heap_of s)(i \<mapsto> d))" by simp
qed

lemma yields_assert: "b \<Longrightarrow> yields (f ()) s y Q \<Longrightarrow> yields (ebind (assert_exec b msg) f) s y Q"
  by (simp add: yields_def)

lemma create_leaf_ok:
  assumes "supplied s" and "fst s = i # ids" and "length d \<le> maxBytesPerLeaf L"
  obtains v where "leaf_bytes L d v"
    and "yields (DataNodeStore_createNewLeafNode bs L d) s (DataLeafNode i)
      (\<lambda>t. supplied t \<and> fst t = ids \<and> heap_of t = (heap_of s)(i \<mapsto> v))"
proof -
  let ?v = "DataNodeView_serialize L DataNode_FORMAT_VERSION_HEADER 0 (of_nat (length d)) d"
  have v: "leaf_bytes L d ?v" by (rule leaf_serialize [OF layout assms(3)])
  have len: "length ?v = blocksizeBytes L" by (rule length_node_serialize [OF layout assms(3)])
  have "yields (DataNodeStore_createNewLeafNode bs L d) s (DataLeafNode i)
      (\<lambda>t. supplied t \<and> fst t = ids \<and> heap_of t = (heap_of s)(i \<mapsto> ?v))"
    unfolding DataNodeStore_createNewLeafNode_def DataLeafNode_CreateNewNode_def DataNodeView_create_def ebind_assoc Let_def
    by (intro yields_assert create_ok [OF assms(1,2) len] leaf_new_does [OF v])
      (use assms(3) len in \<open>simp_all flip: maxBytesPerLeaf_def\<close>)
  with v show thesis by (rule that)
qed

lemma create_inner_ok:
  assumes "supplied s" and "fst s = i # ids" and "0 < depth" and "depth < 2 ^ 8"
    and "0 < length is" and "length is \<le> maxChildrenPerInnerNode L"
  obtains v where "inner_bytes L depth is v"
    and "yields (DataNodeStore_createNewInnerNode bs L depth is) s (DataInnerNode i)
      (\<lambda>t. supplied t \<and> fst t = ids \<and> heap_of t = (heap_of s)(i \<mapsto> v))"
proof -
  let ?v = "DataNodeView_serialize L DataNode_FORMAT_VERSION_HEADER (of_nat depth)
    (of_nat (length is)) (DataInnerNode_serializeChildren is)"
  have v: "inner_bytes L depth is ?v" by (rule inner_serialize [OF layout assms(3-6)])
  have fit: "length (DataInnerNode_serializeChildren is) \<le> maxBytesPerLeaf L"
    using assms(6) sizes(5) by (simp add: serializeChildren_eq)
  have len: "length ?v = blocksizeBytes L" by (rule length_node_serialize [OF layout fit])
  have "yields (DataNodeStore_createNewInnerNode bs L depth is) s (DataInnerNode i)
      (\<lambda>t. supplied t \<and> fst t = ids \<and> heap_of t = (heap_of s)(i \<mapsto> ?v))"
    unfolding DataNodeStore_createNewInnerNode_def DataInnerNode_CreateNewNode_def DataNodeView_create_def ebind_assoc Let_def
    by (intro yields_assert create_ok [OF assms(1,2) len] inner_new_does [OF v])
      (use assms(5) fit len in \<open>simp_all add: Suc_le_eq flip: maxBytesPerLeaf_def\<close>)
  with v show thesis by (rule that)
qed

end

end
