(* ===== verification/TreeShapes.thy ===== *)
theory TreeShapes
  imports NodeHeap
begin

text \<open>
  Left-max trees as values: the trees that the nodes of a blob form, with the identifiers of their
  blocks. \<open>holds\<close> relates a tree to the heap, \<open>shape\<close> says that a tree of some depth has as many leaves as
  announced and is packed to the left, so that the number of its leaves determines it up to the
  identifiers.
\<close>

datatype tree = Tip (troot: block_id) (tdata: data) | Br (troot: block_id) (kids: "tree list")

fun leaves :: "tree \<Rightarrow> data list" where
  "leaves (Tip i d) = [d]"
| "leaves (Br i ts) = concat (map leaves ts)"

fun tids :: "tree \<Rightarrow> block_id list" where
  "tids (Tip i d) = [i]"
| "tids (Br i ts) = i # concat (map tids ts)"

fun holds :: "node_layout \<Rightarrow> heap \<Rightarrow> nat \<Rightarrow> tree \<Rightarrow> bool" where
  "holds L h 0 (Tip i d) \<longleftrightarrow> (\<exists>v. h i = Some v \<and> leaf_bytes L d v)"
| "holds L h (Suc depth) (Br i ts) \<longleftrightarrow>
     (\<exists>v. h i = Some v \<and> inner_bytes L (Suc depth) (map troot ts) v) \<and> (\<forall>t\<in>set ts. holds L h depth t)"
| "holds L h _ _ \<longleftrightarrow> False"

definition cdiv :: "nat \<Rightarrow> nat \<Rightarrow> nat" where
  "cdiv a b = (a + b - 1) div b"

fun shape :: "nat \<Rightarrow> nat \<Rightarrow> nat \<Rightarrow> tree \<Rightarrow> bool" where
  "shape c 0 n (Tip i d) \<longleftrightarrow> n = 1"
| "shape c (Suc depth) n (Br i ts) \<longleftrightarrow> 0 < n \<and> n \<le> c ^ Suc depth \<and> length ts = cdiv n (c ^ depth) \<and>
     (\<forall>j<length ts. shape c depth (min (c ^ depth) (n - j * c ^ depth)) (ts ! j))"
| "shape c _ n _ \<longleftrightarrow> False"

lemma troot_in_tids [simp]: "troot t \<in> set (tids t)"
  by (cases t) auto

lemma holds_cong:
  "(\<And>i. i \<in> set (tids t) \<Longrightarrow> h i = h' i) \<Longrightarrow> holds L h depth t = holds L h' depth t"
proof (induction L h depth t arbitrary: h' rule: holds.induct)
  case (2 L h depth i ts)
  have "holds L h depth t = holds L h' depth t" if "t \<in> set ts" for t
    using that by (intro 2(1)) (auto intro!: 2(2))
  moreover have "h i = h' i" by (rule 2(2)) simp
  ultimately show ?case by simp
qed auto

lemma holds_ids: "holds L h depth t \<Longrightarrow> i \<in> set (tids t) \<Longrightarrow> h i \<noteq> None"
  by (induction L h depth t rule: holds.induct) auto

section \<open>Division into children\<close>

lemma cdiv_le_iff: "0 < b \<Longrightarrow> cdiv a b \<le> k \<longleftrightarrow> a \<le> k * b"
  unfolding cdiv_def by (rule ceil_div_le_iff)

lemma less_cdiv_iff: "0 < b \<Longrightarrow> k < cdiv a b \<longleftrightarrow> k * b < a"
  using cdiv_le_iff [of b a k] by (simp add: not_le flip: not_less)

lemma cdiv_0 [simp]: "0 < b \<Longrightarrow> cdiv 0 b = 0"
  by (simp add: cdiv_def)

lemma cdiv_pos [simp]: "0 < b \<Longrightarrow> 0 < cdiv a b \<longleftrightarrow> 0 < a"
  by (simp add: less_cdiv_iff)

lemma cdiv_1 [simp]: "cdiv a 1 = a"
  by (simp add: cdiv_def)

lemma cdiv_step: "0 < b \<Longrightarrow> 0 < a \<Longrightarrow> cdiv a b = Suc (cdiv (a - b) b)"
proof (rule antisym)
  assume b: "0 < b" "0 < a"
  have "a - b \<le> cdiv (a - b) b * b" using cdiv_le_iff [OF b(1), of "a - b"] by blast
  then show "cdiv a b \<le> Suc (cdiv (a - b) b)" using b by (simp add: cdiv_le_iff)
  have "cdiv (a - b) b < cdiv a b" if "cdiv (a - b) b = Suc k" for k
  proof -
    have "k < cdiv (a - b) b" using that by simp
    then have "k * b < a - b" using b(1) by (simp only: less_cdiv_iff)
    then have "Suc k * b < a" by simp
    then show ?thesis unfolding that using b(1) by (simp only: less_cdiv_iff)
  qed
  then show "Suc (cdiv (a - b) b) \<le> cdiv a b"
    using b by (cases "cdiv (a - b) b") (auto simp: Suc_le_eq)
qed

lemma cdiv_mult [simp]: "0 < b \<Longrightarrow> cdiv (k * b) b = k"
proof (rule antisym)
  assume b: "0 < b"
  show "cdiv (k * b) b \<le> k" using b by (simp add: cdiv_le_iff)
  have "k - 1 < cdiv (k * b) b" if "0 < k" using b that by (simp add: less_cdiv_iff)
  then show "k \<le> cdiv (k * b) b" by (cases k) (auto simp: Suc_le_eq)
qed

lemma cdiv_mono: "0 < l \<Longrightarrow> a \<le> b \<Longrightarrow> cdiv a l \<le> cdiv b l"
  using cdiv_le_iff [of l b "cdiv b l"] by (simp add: cdiv_le_iff)

lemma cdiv_max: "0 < l \<Longrightarrow> cdiv (max a b) l = max (cdiv a l) (cdiv b l)"
  using cdiv_mono [of l a b] cdiv_mono [of l b a] by (auto simp: max_def)

text \<open>Lists cut into pieces of one size, the last one perhaps shorter.\<close>

lemma concat_pieces:
  assumes "0 < l" and "length xs = cdiv n l"
    and "\<And>j. j < length xs \<Longrightarrow> xs ! j = map (\<lambda>k. G (j * l + k)) [0..<min l (n - j * l)]"
  shows "concat xs = map G [0..<n]"
  using assms(2,3)
proof (induction xs arbitrary: n G)
  case Nil
  then have "n = 0" using assms(1) cdiv_pos [of l n] by (metis list.size(3) not_gr_zero)
  then show ?case by simp
next
  case (Cons x xs)
  then have n: "0 < n" using assms(1) cdiv_0 [of l] by (metis length_Cons nat.distinct(1) not_gr_zero)
  have len: "length xs = cdiv (n - l) l" using Cons.prems(1) cdiv_step [OF assms(1) n] by simp
  have x: "x = map G [0..<min l n]" using Cons.prems(2) [of 0] by simp
  have "xs ! j = map (\<lambda>k. G (l + (j * l + k))) [0..<min l (n - l - j * l)]" if "j < length xs" for j
    using Cons.prems(2) [of "Suc j"] that by (simp add: add.assoc diff_diff_left)
  from Cons.IH [of "n - l" "\<lambda>k. G (l + k)", OF len this]
  have "concat xs = map (\<lambda>k. G (l + k)) [0..<n - l]" .
  moreover have "map G [0..<n] = map G [0..<min l n] @ map (\<lambda>k. G (l + k)) [0..<n - l]"
  proof (cases "l \<le> n")
    case True
    then obtain m where m: "n = l + m" by (auto simp: le_iff_add)
    have "map G [l..<l + m] = map (\<lambda>k. G (l + k)) [0..<m]"
      by (rule nth_equalityI) simp_all
    then show ?thesis using upt_add_eq_append [of 0 l m] by (simp add: m)
  qed simp
  ultimately show ?case by (simp add: x)
qed

lemma nth_concat_pieces:
  assumes "0 < l" and "length xs = cdiv n l"
    and "\<And>j. j < length xs \<Longrightarrow> length (xs ! j) = min l (n - j * l)"
  shows "length (concat xs) = n"
    and "j < length xs \<Longrightarrow> k < length (xs ! j) \<Longrightarrow> concat xs ! (j * l + k) = xs ! j ! k"
proof -
  let ?G = "\<lambda>k. xs ! (k div l) ! (k mod l)"
  have "xs ! j = map (\<lambda>k. ?G (j * l + k)) [0..<min l (n - j * l)]" if "j < length xs" for j
    by (rule nth_equalityI) (use assms(1,3) that in simp_all)
  from concat_pieces [OF assms(1,2) this] have c: "concat xs = map ?G [0..<n]" .
  then show "length (concat xs) = n" by simp
  assume j: "j < length xs" "k < length (xs ! j)"
  then have k: "k < l" "j * l + k < n" using assms(3) by auto
  then show "concat xs ! (j * l + k) = xs ! j ! k" using c by simp
qed

lemma shape_pos: "shape c depth n t \<Longrightarrow> 0 < n"
  by (cases "(c, depth, n, t)" rule: shape.cases) auto

lemma shape_le: "0 < c \<Longrightarrow> shape c depth n t \<Longrightarrow> n \<le> c ^ depth"
  by (cases "(c, depth, n, t)" rule: shape.cases) auto

lemma length_leaves: "0 < c \<Longrightarrow> shape c depth n t \<Longrightarrow> length (leaves t) = n"
proof (induction c depth n t rule: shape.induct)
  case (2 c depth n i ts)
  then have "length (concat (map leaves ts)) = n"
    by (intro nth_concat_pieces(1) [of "c ^ depth"]) auto
  then show ?case by simp
qed auto

lemma nth_leaves:
  assumes "0 < c" and "shape c (Suc depth) n (Br i ts)" and "j < length ts"
    and "k < min (c ^ depth) (n - j * c ^ depth)"
  shows "leaves (Br i ts) ! (j * c ^ depth + k) = leaves (ts ! j) ! k"
proof -
  have len: "length (map leaves ts ! j) = min (c ^ depth) (n - j * c ^ depth)" if "j < length ts" for j
    using assms(1,2) that by (auto intro: length_leaves)
  have "concat (map leaves ts) ! (j * c ^ depth + k) = map leaves ts ! j ! k"
    by (rule nth_concat_pieces(2) [of _ _ n]) (use assms len in auto)
  with assms(3) show ?thesis by simp
qed

end
