(* ===== verification/TreeHeap.thy ===== *)
theory TreeHeap
  imports TreeShapes
begin

text \<open>
  Trees in the heap of blocks. \<open>evolves s t A B\<close> says what an operation on one tree may do to the heap: the
  blocks \<open>A\<close> of the tree become the blocks \<open>B\<close>, new identifiers come from the supply, blocks that leave the
  tree are removed, and nothing else changes. The lemmas lift a change of one subtree to the tree around
  it.
\<close>

section \<open>Operations that return\<close>

text \<open>\<open>returns m s Q\<close>: run from \<open>s\<close>, the operation returns a value and leaves a state with \<open>Q\<close>.\<close>

definition returns :: "('s, 'a) exec \<Rightarrow> 's \<Rightarrow> ('a \<Rightarrow> 's \<Rightarrow> bool) \<Rightarrow> bool" where
  "returns m s Q \<longleftrightarrow> (\<exists>x t. m s = (Inr x, t) \<and> Q x t)"

lemma returns_mono: "returns m s P \<Longrightarrow> (\<And>x t. P x t \<Longrightarrow> Q x t) \<Longrightarrow> returns m s Q"
  by (auto simp: returns_def)

lemma returns_ebind:
  assumes "returns m s P" and "\<And>x t. P x t \<Longrightarrow> returns (f x) t Q"
  shows "returns (ebind m f) s Q"
  using assms by (fastforce simp: returns_def ebind_def)

lemma returns_yields: "yields m s x P \<Longrightarrow> (\<And>t. P t \<Longrightarrow> Q x t) \<Longrightarrow> returns m s Q"
  by (auto simp: returns_def yields_def)

lemma returns_yields_ebind:
  assumes "yields m s x P" and "\<And>t. P t \<Longrightarrow> returns (f x) t Q"
  shows "returns (ebind m f) s Q"
  using assms by (fastforce simp: returns_def yields_def ebind_def)

lemma returns_ret [simp]: "returns (ret x) s Q \<longleftrightarrow> Q x s"
  and returns_Pair [simp]: "returns (Pair (Inr x)) s Q \<longleftrightarrow> Q x s"
  by (simp_all add: returns_def)

lemma returns_ebind_ret [simp]: "returns (ebind (ret x) f) s Q \<longleftrightarrow> returns (f x) s Q"
  by (simp add: returns_def)

lemma returns_assert: "b \<Longrightarrow> returns (f ()) s Q \<Longrightarrow> returns (ebind (assert_exec b msg) f) s Q"
  by (simp add: returns_def)

lemma returns_lift: "r = Inr x \<Longrightarrow> returns (f x) s Q \<Longrightarrow> returns (ebind (lift_result r) f) s Q"
  by (simp add: returns_def)

lemma returns_zoom_snd: "returns m (snd s) (\<lambda>x b. Q x (fst s, b)) \<Longrightarrow> returns (zoom_snd m) s Q"
  by (auto simp: returns_def zoom_snd_def)

lemma returns_for_each:
  assumes "a \<le> m" and "Inv a s"
    and "\<And>j t. a \<le> j \<Longrightarrow> j < m \<Longrightarrow> Inv j t \<Longrightarrow> returns (f j) t (\<lambda>_. Inv (Suc j))"
  shows "returns (for_each f [a..<m]) s (\<lambda>_. Inv m)"
  using assms
proof (induction "m - a" arbitrary: a s)
  case 0
  then show ?case by simp
next
  case (Suc k)
  then have "a < m" by simp
  then have "[a..<m] = a # [Suc a..<m]" by (rule upt_conv_Cons)
  moreover have "returns (for_each f [Suc a..<m]) t (\<lambda>_. Inv m)" if "Inv (Suc a) t" for t
    using Suc.hyps(2) Suc.prems that by (intro Suc.hyps(1)) auto
  ultimately show ?case using Suc.prems \<open>a < m\<close> by (auto intro!: returns_ebind [where P = "\<lambda>_. Inv (Suc a)"])
qed

lemma returns_collect_each:
  assumes "a \<le> m" and "Inv a us s"
    and "\<And>j vs t. a \<le> j \<Longrightarrow> j < m \<Longrightarrow> Inv j vs t \<Longrightarrow> returns (f j) t (\<lambda>v. Inv (Suc j) (vs @ [v]))"
  shows "returns (collect_each f [a..<m]) s (\<lambda>vs. Inv m (us @ vs))"
  using assms
proof (induction "m - a" arbitrary: a s us)
  case 0
  then show ?case by simp
next
  case (Suc k)
  then have "a < m" by simp
  then have upt: "[a..<m] = a # [Suc a..<m]" by (rule upt_conv_Cons)
  show ?case
    unfolding upt collect_each.simps
  proof (rule returns_ebind)
    show "returns (f a) s (\<lambda>v. Inv (Suc a) (us @ [v]))" using Suc.prems \<open>a < m\<close> by simp
    fix v t assume "Inv (Suc a) (us @ [v]) t"
    then have "returns (collect_each f [Suc a..<m]) t (\<lambda>vs. Inv m ((us @ [v]) @ vs))"
      using Suc.hyps(2) Suc.prems \<open>a < m\<close> by (intro Suc.hyps(1)) auto
    then show "returns (ebind (collect_each f [Suc a..<m]) (\<lambda>ys. ret (v # ys))) t (\<lambda>vs. Inv m (us @ vs))"
      by (rule returns_ebind) simp
  qed
qed

section \<open>Changes of the heap\<close>

context block_heap
begin

definition evolves :: "'s hl_state \<Rightarrow> 's hl_state \<Rightarrow> block_id set \<Rightarrow> block_id set \<Rightarrow> bool" where
  "evolves s t A B \<longleftrightarrow> supplied t \<and> (\<exists>used. fst s = used @ fst t \<and> B \<subseteq> A \<union> set used) \<and>
     (\<forall>i. i \<notin> B \<longrightarrow> blocks (snd t) i = (if i \<in> A then None else blocks (snd s) i))"

lemma supplied_None: "supplied s \<Longrightarrow> i \<in> set (fst s) \<Longrightarrow> blocks (snd s) i = None"
  by (simp add: supplied_def)

lemma evolves_refl: "supplied s \<Longrightarrow> supplied t \<Longrightarrow> fst t = fst s \<Longrightarrow> blocks (snd t) = blocks (snd s) \<Longrightarrow> evolves s t {} {}"
  by (simp add: evolves_def)

lemma evolves_trans:
  assumes "supplied s" and "evolves s t A B" and "evolves t u B C"
  shows "evolves s u A C"
proof -
  obtain u1 u2 where u: "fst s = u1 @ fst t" "B \<subseteq> A \<union> set u1" "fst t = u2 @ fst u" "C \<subseteq> B \<union> set u2"
    using assms(2,3) by (auto simp: evolves_def)
  have "blocks (snd u) i = (if i \<in> A then None else blocks (snd s) i)" if "i \<notin> C" for i
  proof (cases "i \<in> B")
    case True
    then have "i \<in> A \<or> blocks (snd s) i = None"
      using u(1,2) supplied_None [OF assms(1)] by auto
    then show ?thesis using assms(3) that True by (auto simp: evolves_def)
  next
    case False
    then show ?thesis using assms(2,3) that by (auto simp: evolves_def)
  qed
  moreover have "fst s = (u1 @ u2) @ fst u" "C \<subseteq> A \<union> set (u1 @ u2)" using u by auto
  ultimately show ?thesis using assms(3) by (auto simp: evolves_def)
qed

lemma evolves_outside:
  assumes "supplied s" and "evolves s t A B" and "i \<notin> A" and "blocks (snd s) i \<noteq> None"
  shows "i \<notin> B" and "blocks (snd t) i = blocks (snd s) i"
proof -
  obtain used where "fst s = used @ fst t" "B \<subseteq> A \<union> set used" using assms(2) by (auto simp: evolves_def)
  then show "i \<notin> B" using supplied_None [OF assms(1), of i] assms(3,4) by auto
  then show "blocks (snd t) i = blocks (snd s) i" using assms(2,3) by (auto simp: evolves_def)
qed

lemma evolves_frame:
  assumes "evolves s t A B"
  shows "evolves s t (A \<union> C) (B \<union> C)"
  using assms by (auto simp: evolves_def)

lemma evolves_supplied: "evolves s t A B \<Longrightarrow> supplied t"
  by (simp add: evolves_def)

end

section \<open>Trees\<close>

context node_heap
begin

text \<open>One step of an operation that works on the store and on captured variables.\<close>

lemma returns_does:
  assumes "does P m y U" and "supplied (snd r)" and "P (heap_of (snd r))"
    and "\<And>s'. supplied s' \<Longrightarrow> fst s' = fst (snd r) \<Longrightarrow> heap_of s' = U (heap_of (snd r)) \<Longrightarrow> returns (f y) (fst r, s') Q"
  shows "returns (ebind (zoom_snd m) f) r Q"
proof (rule returns_yields_ebind [OF yields_zoom_snd])
  show "yields m (snd r) y (\<lambda>b. fst (fst r, b) = fst r \<and> supplied (snd (fst r, b)) \<and>
      fst (snd (fst r, b)) = fst (snd r) \<and> heap_of (snd (fst r, b)) = U (heap_of (snd r)))"
    using doesD [OF assms(1-3)] by simp
  fix t assume "fst t = fst r \<and> supplied (snd t) \<and> fst (snd t) = fst (snd r) \<and> heap_of (snd t) = U (heap_of (snd r))"
  then show "returns (f y) t Q" using assms(4) [of "snd t"] by (metis prod.collapse)
qed

lemma returns_does':
  assumes "does P m y U" and "supplied (snd r)" and "P (heap_of (snd r))"
    and "\<And>s'. supplied s' \<Longrightarrow> fst s' = fst (snd r) \<Longrightarrow> heap_of s' = U (heap_of (snd r)) \<Longrightarrow> Q y (fst r, s')"
  shows "returns (zoom_snd m) r Q"
proof -
  from doesD [OF assms(1-3)] obtain s' where "m (snd r) = (Inr y, s')" "supplied s'" "fst s' = fst (snd r)"
      "heap_of s' = U (heap_of (snd r))"
    by (auto elim: yieldsE)
  with assms(4) [of s'] show ?thesis by (auto simp: returns_def zoom_snd_def)
qed

definition tree_in :: "'s hl_state \<Rightarrow> nat \<Rightarrow> tree \<Rightarrow> bool" where
  "tree_in s depth t \<longleftrightarrow> supplied s \<and> holds L (heap_of s) depth t \<and> distinct (tids t)"

text \<open>A tree becomes another one with the same root block.\<close>

definition turns :: "'s hl_state \<Rightarrow> 's hl_state \<Rightarrow> nat \<Rightarrow> tree \<Rightarrow> tree \<Rightarrow> bool" where
  "turns s s' depth t t' \<longleftrightarrow> tree_in s' depth t' \<and> evolves s s' (set (tids t)) (set (tids t')) \<and> troot t' = troot t"

lemma tree_in_supplied: "tree_in s depth t \<Longrightarrow> supplied s"
  by (simp add: tree_in_def)

lemma turns_in: "turns s s' depth t t' \<Longrightarrow> tree_in s' depth t'"
  by (simp add: turns_def)

lemma turns_trans: "tree_in s depth t \<Longrightarrow> turns s s' depth t t' \<Longrightarrow> turns s' s'' depth t' t'' \<Longrightarrow> turns s s'' depth t t''"
  by (auto simp: turns_def tree_in_def intro: evolves_trans)

lemma turns_same:
  assumes "tree_in s depth t" and "supplied s'" and "fst s' = fst s" and "heap_of s' = heap_of s"
  shows "turns s s' depth t t"
  using assms evolves_frame [OF evolves_refl [of s s'], of "set (tids t)"] by (simp add: turns_def tree_in_def)

lemma turns_refl: "tree_in s depth t \<Longrightarrow> turns s s depth t t"
  by (rule turns_same) (simp_all add: tree_in_def)

lemma tree_in_child:
  assumes "tree_in s (Suc depth) (Br i ts)" and "j < length ts"
  shows "tree_in s depth (ts ! j)"
proof -
  have t: "ts ! j \<in> set ts" using assms(2) by simp
  then have "distinct (tids (ts ! j))" using assms(1) by (auto simp: tree_in_def distinct_concat_iff)
  with t show ?thesis using assms(1) by (auto simp: tree_in_def)
qed

text \<open>A change of one child.\<close>

lemma turns_split:
  assumes "tree_in s (Suc depth) (Br i (xs @ t # ys))" and "turns s s' depth t t'"
  shows "turns s s' (Suc depth) (Br i (xs @ t # ys)) (Br i (xs @ t' # ys))"
proof -
  let ?C = "insert i (set (concat (map tids xs)) \<union> set (concat (map tids ys)))"
  have sup: "supplied s" and h: "holds L (heap_of s) (Suc depth) (Br i (xs @ t # ys))"
    and dist: "distinct (tids (Br i (xs @ t # ys)))"
    using assms(1) by (simp_all add: tree_in_def)
  have evo: "evolves s s' (set (tids t)) (set (tids t'))" and t': "tree_in s' depth t'" "troot t' = troot t"
    using assms(2) by (simp_all add: turns_def)
  have out: "x \<notin> set (tids t')" "heap_of s' x = heap_of s x" if "x \<in> ?C" for x
  proof -
    have "x \<in> set (tids (Br i (xs @ t # ys)))" "x \<notin> set (tids t)" using that dist by auto
    with evolves_outside [OF sup evo] holds_ids [OF h, of x]
    show "x \<notin> set (tids t')" "heap_of s' x = heap_of s x" by blast+
  qed
  have same: "holds L (heap_of s') depth u = holds L (heap_of s) depth u" if "u \<in> set xs \<union> set ys" for u
    by (rule holds_cong, rule out(2)) (use that in auto)
  have "holds L (heap_of s') (Suc depth) (Br i (xs @ t' # ys))"
    using h t' same out(2) [of i] by (auto simp: tree_in_def)
  moreover have "distinct (tids (Br i (xs @ t' # ys)))"
    using dist out(1) t'(1) by (auto simp: tree_in_def)
  moreover have "evolves s s' (set (tids (Br i (xs @ t # ys)))) (set (tids (Br i (xs @ t' # ys))))"
  proof -
    have "set (tids (Br i (xs @ u # ys))) = set (tids u) \<union> ?C" for u by auto
    then show ?thesis using evolves_frame [OF evo, of ?C] by simp
  qed
  moreover have "supplied s'" by (rule evolves_supplied [OF evo])
  ultimately show ?thesis by (simp add: turns_def tree_in_def del: holds.simps tids.simps)
qed

lemma turns_child:
  assumes "tree_in s (Suc depth) (Br i ts)" and "j < length ts" and "turns s s' depth (ts ! j) t'"
  shows "turns s s' (Suc depth) (Br i ts) (Br i (ts[j := t']))"
proof -
  have "ts = take j ts @ ts ! j # drop (Suc j) ts" by (rule id_take_nth_drop [OF assms(2)])
  moreover have "ts[j := t'] = take j ts @ t' # drop (Suc j) ts" by (rule upd_conv_take_nth_drop [OF assms(2)])
  ultimately show ?thesis using turns_split [of s depth i "take j ts" "ts ! j" "drop (Suc j) ts"] assms by metis
qed

text \<open>A new tree beside the old one, and its addition to the children.\<close>

definition grown :: "'s hl_state \<Rightarrow> 's hl_state \<Rightarrow> nat \<Rightarrow> tree \<Rightarrow> bool" where
  "grown s s' depth t \<longleftrightarrow> tree_in s' depth t \<and> evolves s s' {} (set (tids t))"

lemma holds_node: "holds L h depth t \<Longrightarrow> \<exists>v sz. h (troot t) = Some v \<and> node_bytes L depth sz v"
  by (cases "(L, h, depth, t)" rule: holds.cases) (auto simp: leaf_bytes_def inner_bytes_def)

lemma grown_beside:
  assumes "tree_in s depth' u" and "grown s s' depth t"
  shows "tree_in s' depth' u" and "set (tids t) \<inter> set (tids u) = {}"
    and "evolves s s' (set (tids u)) (set (tids u) \<union> set (tids t))"
proof -
  have sup: "supplied s" and h: "holds L (heap_of s) depth' u" using assms(1) by (simp_all add: tree_in_def)
  have evo: "evolves s s' {} (set (tids t))" using assms(2) by (simp add: grown_def)
  have out: "x \<notin> set (tids t)" "heap_of s' x = heap_of s x" if "x \<in> set (tids u)" for x
    using evolves_outside [OF sup evo, of x] holds_ids [OF h that] by auto
  then show "set (tids t) \<inter> set (tids u) = {}" by auto
  have "holds L (heap_of s') depth' u = holds L (heap_of s) depth' u" by (rule holds_cong) (rule out(2))
  then show "tree_in s' depth' u" using assms(1) evolves_supplied [OF evo] by (simp add: tree_in_def)
  show "evolves s s' (set (tids u)) (set (tids u) \<union> set (tids t))"
    using evolves_frame [OF evo, of "set (tids u)"] by (simp add: Un_commute)
qed

lemma addChild_ok:
  assumes tr: "tree_in s (Suc depth) (Br i ts)" and room: "length ts < maxChildrenPerInnerNode L"
    and g: "grown s s' depth t" and child: "blockId child = troot t"
  shows "yields (DataInnerNode_addChild bs junk i child) s' ()
    (\<lambda>s''. turns s s'' (Suc depth) (Br i ts) (Br i (ts @ [t])) \<and> fst s'' = fst s')"
proof -
  note beside = grown_beside [OF tr g]
  have ti: "tree_in s' depth t" using g by (simp add: grown_def)
  obtain v where v: "heap_of s' i = Some v" "inner_bytes L (Suc depth) (map troot ts) v"
    using beside(1) by (auto simp: tree_in_def)
  obtain cv sz where cv: "heap_of s' (troot t) = Some cv" "node_bytes L depth sz cv"
    using holds_node ti by (meson tree_in_def)
  have fresh: "i \<notin> set (tids t)" and ne: "blockId child \<noteq> i"
    using beside(2) child by (auto simp: disjoint_iff)
  obtain w where w: "inner_bytes L (Suc depth) (map troot ts @ [blockId child]) w"
    and d: "does (\<lambda>h. h i = Some v \<and> h (blockId child) = Some cv) (DataInnerNode_addChild bs junk i child) () (\<lambda>h. h(i \<mapsto> w))"
    by (rule inner_addChild_does [OF v(2) _ _ ne, of sz cv junk]) (use room cv(2) in auto)
  have sup: "supplied s'" using ti by (simp add: tree_in_def)
  from doesD [OF d sup] v(1) cv(1) child
  have "yields (DataInnerNode_addChild bs junk i child) s' ()
      (\<lambda>s''. supplied s'' \<and> fst s'' = fst s' \<and> heap_of s'' = (heap_of s')(i \<mapsto> w))" by simp
  then show ?thesis
  proof (rule yields_mono)
    fix s'' assume s'': "supplied s'' \<and> fst s'' = fst s' \<and> heap_of s'' = (heap_of s')(i \<mapsto> w)"
    have dist: "distinct (tids (Br i ts))" using tr by (simp add: tree_in_def)
    have same: "holds L (heap_of s'') depth u = holds L (heap_of s') depth u" if "u \<in> set (ts @ [t])" for u
      by (rule holds_cong) (use s'' that fresh dist in auto)
    have "holds L (heap_of s'') (Suc depth) (Br i (ts @ [t]))"
      using same beside(1) ti w s'' child by (auto simp: tree_in_def)
    moreover have "distinct (tids (Br i (ts @ [t])))" using dist beside(2) ti by (auto simp: tree_in_def)
    moreover have "evolves s s'' (set (tids (Br i ts))) (set (tids (Br i (ts @ [t]))))"
    proof -
      have "set (tids (Br i (ts @ [t]))) = set (tids (Br i ts)) \<union> set (tids t)" by auto
      then show ?thesis using beside(3) s'' by (auto simp: evolves_def)
    qed
    ultimately show "turns s s'' (Suc depth) (Br i ts) (Br i (ts @ [t])) \<and> fst s'' = fst s'"
      using s'' by (simp add: turns_def tree_in_def del: holds.simps tids.simps)
  qed
qed

text \<open>New trees side by side, and a new inner node above them.\<close>

definition forest :: "'s hl_state \<Rightarrow> 's hl_state \<Rightarrow> nat \<Rightarrow> tree list \<Rightarrow> bool" where
  "forest s s' depth ts \<longleftrightarrow> supplied s' \<and> (\<forall>t\<in>set ts. holds L (heap_of s') depth t) \<and>
     distinct (concat (map tids ts)) \<and> evolves s s' {} (set (concat (map tids ts)))"

lemma forest_Nil: "supplied s \<Longrightarrow> forest s s depth []"
  by (simp add: forest_def evolves_refl)

lemma forest_snoc:
  assumes "supplied s" and "forest s s' depth ts" and "grown s' s'' depth t"
  shows "forest s s'' depth (ts @ [t])"
proof -
  let ?B = "set (concat (map tids ts))"
  have evo: "evolves s' s'' {} (set (tids t))" and t: "tree_in s'' depth t" using assms(3) by (simp_all add: grown_def)
  have sup: "supplied s'" using assms(2) by (simp add: forest_def)
  have ids: "heap_of s' x \<noteq> None" if "x \<in> ?B" for x
    using that assms(2) holds_ids by (fastforce simp: forest_def)
  have out: "x \<notin> set (tids t)" "heap_of s'' x = heap_of s' x" if "x \<in> ?B" for x
    using evolves_outside [OF sup evo, of x] ids [OF that] by auto
  have "holds L (heap_of s'') depth u = holds L (heap_of s') depth u" if "u \<in> set ts" for u
    by (rule holds_cong, rule out(2)) (use that in auto)
  then have "\<forall>u\<in>set (ts @ [t]). holds L (heap_of s'') depth u"
    using assms(2) t by (auto simp: forest_def tree_in_def)
  moreover have "distinct (concat (map tids (ts @ [t])))"
    using assms(2) t out(1) by (auto simp: forest_def tree_in_def)
  moreover have "evolves s s'' {} (set (concat (map tids (ts @ [t]))))"
  proof -
    have "evolves s' s'' ?B (set (tids t) \<union> ?B)" using evolves_frame [OF evo, of ?B] by simp
    moreover have "evolves s s' {} ?B" using assms(2) by (simp add: forest_def)
    ultimately have "evolves s s'' {} (set (tids t) \<union> ?B)" using evolves_trans [OF assms(1)] by blast
    then show ?thesis by (simp add: Un_commute)
  qed
  ultimately show ?thesis using evolves_supplied [OF evo] by (simp add: forest_def)
qed

lemma create_inner_grown:
  assumes sup: "supplied s" and f: "forest s s' depth ts" and "depth < 10" and ts: "ts \<noteq> []" "length ts \<le> maxChildrenPerInnerNode L"
    and room: "fst s' \<noteq> []"
  shows "returns (DataNodeStore_createNewInnerNode bs L (Suc depth) (map troot ts)) s'
    (\<lambda>node t. \<exists>i. node = DataInnerNode i \<and> grown s t (Suc depth) (Br i ts) \<and> Suc (length (fst t)) = length (fst s'))"
proof -
  let ?B = "set (concat (map tids ts))"
  obtain i ids where ids: "fst s' = i # ids" using room by (cases "fst s'") auto
  have sup': "supplied s'" using f by (simp add: forest_def)
  obtain v where v: "inner_bytes L (Suc depth) (map troot ts) v"
    and y: "yields (DataNodeStore_createNewInnerNode bs L (Suc depth) (map troot ts)) s' (DataInnerNode i)
      (\<lambda>t. supplied t \<and> fst t = ids \<and> heap_of t = (heap_of s')(i \<mapsto> v))"
    by (rule create_inner_ok [OF sup' ids, of "Suc depth" "map troot ts"]) (use assms in auto)
  have i: "i \<notin> ?B"
    using f holds_ids supplied_None [OF sup', of i] by (fastforce simp: ids forest_def)
  from y show ?thesis
  proof (rule returns_yields)
    fix t assume t: "supplied t \<and> fst t = ids \<and> heap_of t = (heap_of s')(i \<mapsto> v)"
    have "holds L (heap_of t) depth u = holds L (heap_of s') depth u" if "u \<in> set ts" for u
      by (rule holds_cong) (use t i that in auto)
    then have "tree_in t (Suc depth) (Br i ts)" using f t v i by (auto simp: tree_in_def forest_def)
    moreover have "evolves s t {} (insert i ?B)"
    proof -
    have "evolves s' t ?B (insert i ?B)"
      using t ids by (auto simp: evolves_def)
    moreover have "evolves s s' {} ?B" using f by (simp add: forest_def)
    ultimately show ?thesis using evolves_trans [OF sup] by blast
    qed
    ultimately show "\<exists>j. DataInnerNode i = DataInnerNode j \<and> grown s t (Suc depth) (Br j ts) \<and> Suc (length (fst t)) = length (fst s')"
      using t ids by (auto simp: grown_def)
  qed
qed

lemma create_leaf_grown:
  assumes sup: "supplied s" and len: "length d \<le> maxBytesPerLeaf L" and room: "fst s \<noteq> []"
  shows "returns (DataNodeStore_createNewLeafNode bs L d) s
    (\<lambda>node t. \<exists>i. node = DataLeafNode i \<and> grown s t 0 (Tip i d) \<and> Suc (length (fst t)) = length (fst s))"
proof -
  obtain i ids where ids: "fst s = i # ids" using room by (cases "fst s") auto
  obtain v where v: "leaf_bytes L d v"
    and y: "yields (DataNodeStore_createNewLeafNode bs L d) s (DataLeafNode i)
      (\<lambda>t. supplied t \<and> fst t = ids \<and> heap_of t = (heap_of s)(i \<mapsto> v))"
    by (rule create_leaf_ok [OF sup ids len])
  from y show ?thesis
    by (rule returns_yields) (use v ids in \<open>auto simp: grown_def tree_in_def evolves_def\<close>)
qed

end

end
