(* ===== verification/TreeCreation.thy ===== *)
theory TreeCreation
  imports TreeHeap
begin

text \<open>
  The setting of the traversal proofs and the first half of \<open>LeafTraverser.cpp\<close>: \<open>_createNewSubtree\<close> builds a
  left-max tree with exactly the leaves that the callback returns, behind a gap of zeroes.
\<close>

section \<open>The setting\<close>

text \<open>
  \<open>maxDepth\<close> bounds the depth of the trees such that the number of leaves of a full tree stays below the
  width of the index arithmetic, and \<open>clog\<close> is \<open>ceilLog\<close>, which rounds up a logarithm.
\<close>

locale tree_store = node_heap bs inv blocks fits capacity L
  for bs :: "'s block_store2" and inv blocks fits capacity and L +
  fixes clog :: "nat \<Rightarrow> nat \<Rightarrow> nat" and maxDepth :: nat
  assumes maxDepth: "maxDepth \<le> 10" and few_leaves: "maxChildrenPerInnerNode L ^ maxDepth \<le> 2 ^ 31"
    and ceilLog: "depth \<le> maxDepth \<Longrightarrow> 0 < e \<Longrightarrow> e \<le> maxChildrenPerInnerNode L ^ depth \<Longrightarrow>
      clog (maxChildrenPerInnerNode L) e mod 2 ^ 8 \<le> depth"
begin

abbreviation mc :: nat where "mc \<equiv> maxChildrenPerInnerNode L"
abbreviation mb :: nat where "mb \<equiv> maxBytesPerLeaf L"

abbreviation traverser :: "bool \<Rightarrow> 's leaf_traverser" where
  "traverser ro \<equiv> \<lparr>lt_nodeStore = bs, lt_layout = L, lt_readOnlyTraversal = ro, lt_ceilLog = clog\<rparr>"

lemma mc_pos [simp]: "0 < mc" "mc \<noteq> 0" "0 < mc ^ k"
  using sizes(2) by simp_all

lemma leaves_bound: "depth \<le> maxDepth \<Longrightarrow> mc ^ depth \<le> 2 ^ 31"
  using few_leaves power_increasing [of depth maxDepth mc] mc_pos(1) by linarith

lemma maxLeaves_eq: "depth \<le> maxDepth \<Longrightarrow> LeafTraverser_maxLeavesForTreeDepth (traverser ro) depth = mc ^ depth"
proof -
  assume "depth \<le> maxDepth"
  then have le: "mc ^ depth \<le> 2 ^ 31" by (rule leaves_bound)
  then have "intPow 64 mc depth = mc ^ depth" by (subst intPow_eq) (simp_all add: mod_less)
  then show ?thesis using le by (simp add: LeafTraverser_maxLeavesForTreeDepth_def)
qed

lemma ceilDivision32: "0 < b \<Longrightarrow> a \<le> 2 ^ 31 \<Longrightarrow> b \<le> 2 ^ 31 \<Longrightarrow> ceilDivision 32 a b = cdiv a b"
  unfolding cdiv_def by (rule ceilDivision_eq) simp_all

section \<open>New subtrees\<close>

definition creates ::
  "(nat \<Rightarrow> (('x, 's) tr_state, data) exec) \<Rightarrow> (nat \<Rightarrow> 'x \<Rightarrow> bool) \<Rightarrow> (nat \<Rightarrow> data) \<Rightarrow> nat \<Rightarrow> nat \<Rightarrow> bool" where
  "creates onCreate I Y begin end \<longleftrightarrow> (\<forall>k x s. begin \<le> k \<longrightarrow> k < end \<longrightarrow> I k x \<longrightarrow> supplied s \<longrightarrow>
     length (Y k) \<le> mb \<and> yields (onCreate k) (x, s) (Y k) (\<lambda>t. snd t = s \<and> I (Suc k) (fst t)))"

text \<open>
  Backtracking from an inner node whose subtree starts at leaf \<open>off\<close> and whose range ends at its leaf \<open>e\<close>:
  when the traversal trims the tree to \<open>newNum\<close> leaves, the children behind the range are removed.
\<close>

definition kept :: "bool \<Rightarrow> nat \<Rightarrow> 'a list \<Rightarrow> 'a list" where
  "kept trim n ts = (if trim then take n ts else ts)"

definition backs :: "(block_id \<Rightarrow> (('x, 's) tr_state, unit) exec) \<Rightarrow> bool \<Rightarrow> nat \<Rightarrow> bool" where
  "backs onBack trim newNum \<longleftrightarrow> (\<forall>depth x s i ts off e.
     tree_in s (Suc depth) (Br i ts) \<longrightarrow> Suc depth \<le> maxDepth \<longrightarrow> 0 < e \<longrightarrow> e \<le> mc ^ Suc depth \<longrightarrow>
     mc ^ Suc depth dvd off \<longrightarrow> (trim \<longrightarrow> off + e = newNum) \<longrightarrow> cdiv e (mc ^ depth) \<le> length ts \<longrightarrow>
     returns (onBack i) (x, s) (\<lambda>_ t. fst t = x \<and> fst (snd t) = fst s \<and>
       turns s (snd t) (Suc depth) (Br i ts) (Br i (kept trim (cdiv e (mc ^ depth)) ts))))"

lemma backs_nothing: "backs (\<lambda>node. ret ()) False newNum"
  by (simp add: backs_def kept_def turns_refl)

text \<open>Leaves of a created subtree: a gap of empty leaves, then what the callback returns.\<close>

definition gap_or :: "nat \<Rightarrow> (nat \<Rightarrow> data) \<Rightarrow> nat \<Rightarrow> data" where
  "gap_or begin Y k = (if begin \<le> k then Y k else zeroes mb)"

definition created :: "'s hl_state \<Rightarrow> 's hl_state \<Rightarrow> nat \<Rightarrow> nat \<Rightarrow> (nat \<Rightarrow> data) \<Rightarrow> tree \<Rightarrow> bool" where
  "created s s' depth n G t \<longleftrightarrow> grown s s' depth t \<and> shape mc depth n t \<and> leaves t = map G [0..<n] \<and>
     length (fst s) \<le> length (fst s') + n * Suc depth"

text \<open>The children of a new inner node, as far as they are created.\<close>

definition created_kids ::
  "'s hl_state \<Rightarrow> nat \<Rightarrow> nat \<Rightarrow> (nat \<Rightarrow> data) \<Rightarrow> nat \<Rightarrow> tree list \<Rightarrow> 's hl_state \<Rightarrow> bool" where
  "created_kids s depth n G j ts s' \<longleftrightarrow> forest s s' depth ts \<and> length ts = j \<and>
     (\<forall>k<j. shape mc depth (min (mc ^ depth) (n - k * mc ^ depth)) (ts ! k) \<and>
        leaves (ts ! k) = map (\<lambda>q. G (k * mc ^ depth + q)) [0..<min (mc ^ depth) (n - k * mc ^ depth)]) \<and>
     length (fst s) \<le> length (fst s') + min n (j * mc ^ depth) * Suc depth"

lemma created_kids_snoc:
  assumes "supplied s" and "created_kids s depth n G j ts s'" and "j * mc ^ depth < n"
    and "created s' s'' depth (min (mc ^ depth) (n - j * mc ^ depth)) (\<lambda>q. G (j * mc ^ depth + q)) t"
  shows "created_kids s depth n G (Suc j) (ts @ [t]) s''"
proof -
  let ?l = "mc ^ depth"
  have "forest s s'' depth (ts @ [t])"
    using assms by (auto simp: created_kids_def created_def intro: forest_snoc)
  moreover have "min n (Suc j * ?l) = min n (j * ?l) + min ?l (n - j * ?l)" using assms(3) by simp
  then have "min n (Suc j * ?l) * Suc depth = min n (j * ?l) * Suc depth + min ?l (n - j * ?l) * Suc depth"
    by (metis add_mult_distrib)
  then have "length (fst s) \<le> length (fst s'') + min n (Suc j * ?l) * Suc depth"
    using assms(2,4) by (simp only: created_kids_def created_def) linarith
  ultimately show ?thesis
    using assms(2,4) by (auto simp: created_kids_def created_def nth_append less_Suc_eq)
qed

lemma created_inner:
  assumes "supplied s" and "created_kids s depth n G (cdiv n (mc ^ depth)) ts s'" and "0 < n" and "n \<le> mc ^ Suc depth"
    and "Suc depth \<le> maxDepth" and "n * Suc (Suc depth) \<le> length (fst s)"
  shows "returns (DataNodeStore_createNewInnerNode bs L (Suc depth) (map troot ts)) s'
    (\<lambda>node s''. \<exists>i. blockId node = i \<and> created s s'' (Suc depth) n G (Br i ts))"
proof -
  let ?l = "mc ^ depth"
  have len: "length ts = cdiv n ?l" and f: "forest s s' depth ts"
    and kid: "\<And>k. k < length ts \<Longrightarrow> shape mc depth (min ?l (n - k * ?l)) (ts ! k)"
      "\<And>k. k < length ts \<Longrightarrow> leaves (ts ! k) = map (\<lambda>q. G (k * ?l + q)) [0..<min ?l (n - k * ?l)]"
    and used: "length (fst s) \<le> length (fst s') + min n (cdiv n ?l * ?l) * Suc depth"
    using assms(2) by (auto simp: created_kids_def)
  have n: "n \<le> cdiv n ?l * ?l" using cdiv_le_iff [of ?l n "cdiv n ?l"] by simp
  have "0 < length ts" "length ts \<le> mc"
    unfolding len using assms(3,4) by (simp_all add: cdiv_le_iff)
  then have ts: "ts \<noteq> []" "length ts \<le> mc" by auto
  have "leaves (Br i ts) = map G [0..<n]" for i
    unfolding leaves.simps by (rule concat_pieces [of ?l]) (use len kid in auto)
  moreover have "shape mc (Suc depth) n (Br i ts)" for i using assms(3,4) len kid by simp
  moreover have "n + n * Suc depth \<le> length (fst s') + n * Suc depth"
    using used n assms(6) by (simp add: min_absorb1)
  then have "fst s' \<noteq> []" using assms(3) by auto
  from create_inner_grown [OF assms(1) f _ ts this] assms(5) maxDepth
  have "returns (DataNodeStore_createNewInnerNode bs L (Suc depth) (map troot ts)) s'
    (\<lambda>node t. \<exists>i. node = DataInnerNode i \<and> grown s t (Suc depth) (Br i ts) \<and> Suc (length (fst t)) = length (fst s'))" by simp
  moreover have "length (fst s) \<le> m + n * Suc (Suc depth)" if "Suc m = length (fst s')" for m
    using used n assms(3) that by (simp add: min_absorb1)
  ultimately show ?thesis by (elim returns_mono) (force simp: created_def)
qed

lemma createsD:
  assumes "creates onCreate I Y begin end" and "begin \<le> k" and "k < end" and "I k x" and "supplied s"
  shows "length (Y k) \<le> mb" and "yields (onCreate k) (x, s) (Y k) (\<lambda>t. snd t = s \<and> I (Suc k) (fst t))"
  using assms unfolding creates_def by blast+

lemma creates_shift:
  assumes "creates onCreate I Y begin end" and "begin \<le> begin'" and "end' \<le> end"
  shows "creates onCreate I Y begin' end'"
  using assms by (fastforce simp: creates_def)

lemma creates_gap: "creates (\<lambda>index. throw e) I Y begin begin"
  by (simp add: creates_def)

lemma depth_of_created:
  assumes "created s s' depth n G t" and "blockId node = troot t"
  shows "yields (DataNode_depth bs node) s' depth (\<lambda>s''. supplied s'' \<and> fst s'' = fst s' \<and> heap_of s'' = heap_of s')"
proof -
  have t: "tree_in s' depth t" using assms(1) by (simp add: created_def grown_def)
  then obtain v sz where v: "heap_of s' (blockId node) = Some v" "node_bytes L depth sz v"
    using holds_node assms(2) by (metis tree_in_def)
  from doesD [OF depth_does [OF v(2) refl] tree_in_supplied [OF t]] v(1) show ?thesis by simp
qed

lemma created_same:
  assumes "created s s' depth n G t" and "supplied s''" and "fst s'' = fst s'" and "heap_of s'' = heap_of s'"
  shows "created s s'' depth n G t"
  using assms by (auto simp: created_def grown_def tree_in_def evolves_def)

text \<open>The creation of a child, with the check of its depth.\<close>

lemma child_created:
  assumes "returns m r (\<lambda>node t. \<exists>tr. blockId node = troot tr \<and> created (snd r) (snd t) depth n G tr \<and> Q (fst t))"
  shows "returns (ebind m (\<lambda>child.
      ebind (zoom_snd (DataNode_depth bs child)) (\<lambda>d.
      ebind (assert_exec (d = depth) msg) (\<lambda>_. ret (blockId child))))) r
    (\<lambda>i t. \<exists>tr. i = troot tr \<and> created (snd r) (snd t) depth n G tr \<and> Q (fst t))"
  using assms
proof (rule returns_ebind, elim exE conjE)
  fix node t tr assume tr: "blockId node = troot tr" "created (snd r) (snd t) depth n G tr" "Q (fst t)"
  show "returns (ebind (zoom_snd (DataNode_depth bs node)) (\<lambda>d.
      ebind (assert_exec (d = depth) msg) (\<lambda>_. ret (blockId node)))) t
    (\<lambda>i t. \<exists>tr. i = troot tr \<and> created (snd r) (snd t) depth n G tr \<and> Q (fst t))"
  proof (rule returns_yields_ebind)
    show "yields (zoom_snd (DataNode_depth bs node)) t depth
        (\<lambda>t'. fst t' = fst t \<and> supplied (snd t') \<and> fst (snd t') = fst (snd t) \<and> heap_of (snd t') = heap_of (snd t))"
      by (rule yields_zoom_snd) (simp add: depth_of_created [OF tr(2,1)])
    fix t' assume "fst t' = fst t \<and> supplied (snd t') \<and> fst (snd t') = fst (snd t) \<and> heap_of (snd t') = heap_of (snd t)"
    moreover from this have "created (snd r) (snd t') depth n G tr" by (intro created_same [OF tr(2)]) simp_all
    ultimately show "returns (ebind (assert_exec (depth = depth) msg) (\<lambda>_. ret (blockId node))) t'
        (\<lambda>i t. \<exists>tr. i = troot tr \<and> created (snd r) (snd t) depth n G tr \<and> Q (fst t))"
      using tr by auto
  qed
qed

lemma trunc32_le: "n \<le> 2 ^ 31 \<Longrightarrow> trunc32 n = n"
  by (rule trunc_less) simp

lemma created_turns:
  assumes "supplied s" and "created s s' depth n G t" and "turns s' s'' depth t t" and "fst s'' = fst s'"
  shows "created s s'' depth n G t"
  using assms evolves_trans [OF assms(1), of s' "{}" "set (tids t)" s'' "set (tids t)"]
  by (auto simp: created_def grown_def turns_def)

lemma created_cong:
  assumes "\<And>k. k < n \<Longrightarrow> G k = G' k"
  shows "created s s' depth n G t \<longleftrightarrow> created s s' depth n G' t"
proof -
  have "map G [0..<n] = map G' [0..<n]" using assms by simp
  then show ?thesis by (simp only: created_def)
qed

lemma child_room:
  assumes "n * Suc (Suc depth) \<le> avail" and "avail \<le> left + min n (j * l) * Suc depth" and "j * l < n"
  shows "min l (n - j * l) * Suc depth \<le> left"
proof -
  have "j * l + min l (n - j * l) \<le> n" using assms(3) by simp
  then have "(j * l + min l (n - j * l)) * Suc depth \<le> n * Suc depth" by (rule mult_le_mono1)
  then have "j * l * Suc depth + min l (n - j * l) * Suc depth \<le> n * Suc depth" by (simp only: add_mult_distrib)
  moreover have "avail \<le> left + j * l * Suc depth" using assms(2,3) by (simp add: min_absorb2)
  moreover have "n * Suc depth \<le> n * Suc (Suc depth)" by simp
  ultimately show ?thesis using assms(1) by linarith
qed

text \<open>The part of a range \<open>[b, e)\<close> in the child whose first leaf is \<open>J\<close>.\<close>

lemma piece_arith:
  fixes J l b e :: nat
  assumes "J < e" and "b \<le> e" and "b < J + l"
  shows "J + (b - J) = max b (min e J)" and "J + min l (e - J) = max b (min e (J + l))"
    and "b - J \<le> min l (e - J)" and "J + min l (e - J) \<le> e" and "b \<le> J + (b - J)"
    and "e = Suc b \<Longrightarrow> b - J < min l (e - J) \<Longrightarrow> min l (e - J) = Suc (b - J) \<and> J + min l (e - J) = e"
  using assms by (auto simp: max_def min_def)

lemma createNewSubtree_ok:
  fixes I :: "nat \<Rightarrow> 'x \<Rightarrow> bool"
  assumes "depth \<le> maxDepth" and "supplied s" and "b \<le> e" and "0 < e" and "e \<le> mc ^ depth" and "off + e \<le> 2 ^ 31"
    and "creates onCreate I Y (off + b) (off + e)" and "b < e \<longrightarrow> backs onBack trim newNum"
    and "mc ^ depth dvd off" and "trim \<longrightarrow> b < e \<longrightarrow> off + e = newNum \<and> e = Suc b"
    and "I (off + b) x" and "e * Suc depth \<le> length (fst s)"
  shows "returns (LeafTraverser_createNewSubtree depth (traverser False) b e off onCreate onBack) (x, s)
    (\<lambda>node t. \<exists>tr. blockId node = troot tr \<and>
       created s (snd t) depth e (\<lambda>k. gap_or (off + b) Y (off + k)) tr \<and> I (off + e) (fst t))"
  using assms
proof (induction depth arbitrary: x s b e off onCreate I Y onBack trim newNum)
  case 0
  then have e: "e = 1" by simp
  have len: "length (gap_or (off + b) Y off) \<le> mb" if "b = 0 \<or> b = 1"
    using createsD(1) [OF 0(7) _ _ _ 0(2), of off x] 0(11) that e by (auto simp: gap_or_def)
  have "returns ((if b = 0 then onCreate else LeafTraverser_createMaxSizeLeaf (traverser False)) off) (x, s)
      (\<lambda>d t. d = gap_or (off + b) Y off \<and> snd t = s \<and> I (off + 1) (fst t))"
  proof (cases "b = 0")
    case True
    then have "yields (onCreate off) (x, s) (Y off) (\<lambda>t. snd t = s \<and> I (Suc off) (fst t))"
      using createsD(2) [OF 0(7) _ _ _ 0(2), of off x] 0(11) e by auto
    then show ?thesis using True by (auto simp: gap_or_def intro: returns_yields)
  next
    case False
    with 0(3) e have "b = 1" by simp
    then show ?thesis using 0(11) by (simp add: LeafTraverser_createMaxSizeLeaf_def gap_or_def)
  qed
  then have "returns (ebind ((if b = 0 then onCreate else LeafTraverser_createMaxSizeLeaf (traverser False)) off)
      (\<lambda>d. zoom_snd (DataNodeStore_createNewLeafNode bs L d))) (x, s)
    (\<lambda>node t. \<exists>tr. blockId node = troot tr \<and> created s (snd t) 0 e (\<lambda>k. gap_or (off + b) Y (off + k)) tr \<and> I (off + e) (fst t))"
  proof (rule returns_ebind, elim conjE)
    fix d t assume d: "d = gap_or (off + b) Y off" "snd t = s" "I (off + 1) (fst t)"
    have "length d \<le> mb" using len d(1) 0(3) e by fastforce
    moreover have "fst s \<noteq> []" using 0(12) e by auto
    ultimately have "returns (DataNodeStore_createNewLeafNode bs L d) s
        (\<lambda>node t. \<exists>i. node = DataLeafNode i \<and> grown s t 0 (Tip i d) \<and> Suc (length (fst t)) = length (fst s))"
      using create_leaf_grown [OF 0(2)] by blast
    then show "returns (zoom_snd (DataNodeStore_createNewLeafNode bs L d)) t
        (\<lambda>node t. \<exists>tr. blockId node = troot tr \<and> created s (snd t) 0 e (\<lambda>k. gap_or (off + b) Y (off + k)) tr \<and> I (off + e) (fst t))"
      using d e by (intro returns_zoom_snd) (auto elim!: returns_mono simp: created_def, force)
  qed
  with 0(3) e show ?case
    by (auto simp: not_readOnly_def intro!: returns_assert)
next
  case (Suc depth)
  define l where "l = mc ^ depth"
  define bc where "bc = b div l"
  define ec where "ec = cdiv e l"
  define G where "G k = gap_or (off + b) Y (off + k)" for k
  define Inv where "Inv j vs t \<longleftrightarrow> (\<exists>ts. vs = map troot ts \<and> created_kids s depth e G j ts (snd t) \<and>
      I (off + max b (min e (j * l))) (fst t))" for j vs and t :: "'x \<times> 's hl_state"
  have l: "0 < l" "l \<le> 2 ^ 31" and D: "depth \<le> maxDepth" and e31: "e \<le> 2 ^ 31"
    using Suc.prems(1,6) leaves_bound [of depth] by (simp_all add: l_def)
  have bcl: "bc * l \<le> b" and blt: "b < Suc bc * l" using l(1) by (simp_all add: bc_def dividend_less_div_times)
  have ecl: "e \<le> ec * l" and lt_ec: "j < ec \<longleftrightarrow> j * l < e" for j
    using cdiv_le_iff [OF l(1), of e ec] less_cdiv_iff [OF l(1), of j e] by (simp_all add: ec_def)
  have bec: "bc \<le> ec"
  proof (rule ccontr)
    assume "\<not> bc \<le> ec"
    then have "Suc ec * l \<le> bc * l" by (intro mult_le_mono1) simp
    with bcl ecl Suc.prems(3) l(1) show False by simp
  qed
  have maxLeaves: "LeafTraverser_maxLeavesForTreeDepth (traverser False) depth = l"
    using maxLeaves_eq [OF D] by (simp add: l_def)
  have endc: "ceilDivision 32 e l = ec" unfolding ec_def by (rule ceilDivision32) (use l e31 in auto)
  have child: "returns (LeafTraverser_createNewSubtree depth (traverser False) b' e' (trunc32 (off + trunc32 (j * l))) onC onB) t
      (\<lambda>node t'. \<exists>tr. blockId node = troot tr \<and> created (snd t) (snd t') depth (min l (e - j * l)) (\<lambda>q. G (j * l + q)) tr \<and>
         I (off + max b (min e (Suc j * l))) (fst t'))"
    if j: "j * l < e" and inv: "created_kids s depth e G j ts (snd t)" "J (off + j * l + b') (fst t)"
      and e': "e' = min l (e - j * l)" and b': "b' \<le> e'"
      and cr: "creates onC J Y (off + j * l + b') (off + j * l + e')" and ba: "b' < e' \<longrightarrow> backs onB tri num"
      and tri: "tri \<longrightarrow> b' < e' \<longrightarrow> off + j * l + e' = num \<and> e' = Suc b'"
      and Gq: "\<And>q. q < e' \<Longrightarrow> gap_or (off + j * l + b') Y (off + j * l + q) = G (j * l + q)"
      and J: "\<And>y. J (off + j * l + e') y \<Longrightarrow> I (off + max b (min e (Suc j * l))) y"
    for j b' e' onC onB t ts tri num and J :: "nat \<Rightarrow> 'x \<Rightarrow> bool"
  proof -
    have tr: "trunc32 (off + trunc32 (j * l)) = off + j * l"
      using j Suc.prems(6) by (simp add: trunc32_le)
    have "returns (LeafTraverser_createNewSubtree depth (traverser False) b' e' (off + j * l) onC onB) (fst t, snd t)
      (\<lambda>node t'. \<exists>tr. blockId node = troot tr \<and>
         created (snd t) (snd t') depth e' (\<lambda>k. gap_or (off + j * l + b') Y (off + j * l + k)) tr \<and> J (off + j * l + e') (fst t'))"
    proof (rule Suc.IH [OF D _ b' _ _ _ cr ba _ tri inv(2)])
      show "supplied (snd t)" using inv(1) by (simp add: created_kids_def forest_def)
      show "0 < e'" "e' \<le> mc ^ depth" using j l(1) by (simp_all add: e' l_def)
      show "off + j * l + e' \<le> 2 ^ 31" using j Suc.prems(6) by (simp add: e')
      have "mc ^ depth dvd off" using Suc.prems(9) by (metis dvd_mult_right power_Suc)
      then show "mc ^ depth dvd off + j * l" by (simp add: l_def)
      show "e' * Suc depth \<le> length (fst (snd t))"
        unfolding e' by (rule child_room [OF Suc.prems(12) _ j]) (use inv(1) in \<open>simp add: created_kids_def l_def\<close>)
    qed
    moreover note created_cong [of e' "\<lambda>k. gap_or (off + j * l + b') Y (off + j * l + k)" "\<lambda>q. G (j * l + q)", OF Gq]
    ultimately show ?thesis
      unfolding tr prod.collapse e' [symmetric] by (elim returns_mono) (use J in auto)
  qed
  have new: "returns m t (\<lambda>v. Inv (Suc j) (vs @ [v]))" if "j * l < e" and "created_kids s depth e G j ts (snd t)" and "vs = map troot ts"
      and "returns m t (\<lambda>i t'. \<exists>tr. i = troot tr \<and> created (snd t) (snd t') depth (min l (e - j * l)) (\<lambda>q. G (j * l + q)) tr \<and>
         I (off + max b (min e (Suc j * l))) (fst t'))"
    for j vs ts t and m :: "('x \<times> 's hl_state, block_id) exec"
    using that(4)
  proof (rule returns_mono, elim exE conjE)
    fix i t' tr assume "i = troot tr" "I (off + max b (min e (Suc j * l))) (fst t')"
      "created (snd t) (snd t') depth (min l (e - j * l)) (\<lambda>q. G (j * l + q)) tr"
    with created_kids_snoc [OF Suc.prems(2) that(2), of "snd t'" tr] that(1,3) show "Inv (Suc j) (vs @ [i]) t'"
      unfolding Inv_def by (intro exI [of _ "ts @ [tr]"]) (simp add: l_def)
  qed
  show ?case
    unfolding LeafTraverser_createNewSubtree.simps Let_def not_readOnly_def leaf_traverser.select_convs maxLeaves endc
  proof (intro returns_assert returns_lift [where x = bc], goal_cases)
    case 5
    show ?case
    proof (rule returns_ebind [OF returns_collect_each [where Inv = Inv and us = "[]"]], goal_cases)
      case 2
      then show ?case using Suc.prems(2,11) by (auto simp: Inv_def created_kids_def forest_Nil)
    next
      case (3 j vs t)
      then obtain ts where ts: "vs = map troot ts" "created_kids s depth e G j ts (snd t)" "I (off + max b (min e (j * l))) (fst t)"
        by (auto simp: Inv_def)
      have jl: "Suc j * l \<le> b" using 3 bcl mult_le_mono1 [of "Suc j" bc l] by linarith
      with l(1) Suc.prems(3) have je: "j * l < e" "min l (e - j * l) = l" by simp_all
      show ?case
      proof (rule new [OF je(1) ts(2,1)], rule child_created, rule child [where ?J3 = "\<lambda>_ y. y = fst t", OF je(1) ts(2) refl _ _ creates_gap])
        show "I (off + max b (min e (Suc j * l))) y" if "y = fst t" for y
        proof -
          have "max b (min e (j * l)) = b" "max b (min e (Suc j * l)) = b" using jl by (auto simp: max_def min_def)
          then show ?thesis using ts(3) that by simp
        qed
        show "gap_or (off + j * l + l) Y (off + j * l + q) = G (j * l + q)" if "q < l" for q
          using jl that by (simp add: gap_or_def G_def)
      qed (simp_all add: je(2))
    next
      case (4 vs t)
      show ?case
      proof (rule returns_ebind [OF returns_collect_each [where Inv = Inv and us = vs]], goal_cases)
        case (3 j us t)
        then obtain ts where ts: "us = map troot ts" "created_kids s depth e G j ts (snd t)" "I (off + max b (min e (j * l))) (fst t)"
          by (auto simp: Inv_def)
        have je: "j * l < e" using 3 lt_ec by simp
        have "Suc bc * l \<le> Suc j * l" using 3 by (intro mult_le_mono1) simp
        then have bj: "b < Suc j * l" using blt by linarith
        have sub: "sub32 e (j * l) = e - j * l" "trunc32 (j * l) = j * l"
          using je e31 by (simp_all add: sub32_le trunc32_le)
        have "b < j * l + l" using bj by simp
        note piece = piece_arith [OF je Suc.prems(3) this]
        show ?case
        proof (rule new [OF je ts(2,1)], rule child_created, rule child [where ?J3 = I, OF je ts(2)])
          show "creates onCreate I Y (off + j * l + maxZeroSubtraction b (trunc32 (j * l)))
              (off + j * l + min l (sub32 e (trunc32 (j * l))))"
            by (rule creates_shift [OF Suc.prems(7)]) (use piece in \<open>simp_all add: sub\<close>)
        next
          show "I (off + max b (min e (Suc j * l))) y" if "I (off + j * l + min l (sub32 e (trunc32 (j * l)))) y" for y
            using that piece(2) by (simp only: sub add.assoc mult_Suc add.commute)
          show "I (off + j * l + maxZeroSubtraction b (trunc32 (j * l))) (fst t)"
            using ts(3) piece(1) by (simp only: sub add.assoc maxZeroSubtraction_eq)
          show "gap_or (off + j * l + maxZeroSubtraction b (trunc32 (j * l))) Y (off + j * l + q) = G (j * l + q)" for q
            by (auto simp: sub gap_or_def G_def add.assoc)
          show "trim \<longrightarrow> maxZeroSubtraction b (trunc32 (j * l)) < min l (sub32 e (trunc32 (j * l))) \<longrightarrow>
              off + j * l + min l (sub32 e (trunc32 (j * l))) = newNum \<and>
              min l (sub32 e (trunc32 (j * l))) = Suc (maxZeroSubtraction b (trunc32 (j * l)))"
            using Suc.prems(10) piece(6) by (auto simp: sub add.assoc)
          show "maxZeroSubtraction b (trunc32 (j * l)) < min l (sub32 e (trunc32 (j * l))) \<longrightarrow> backs onBack trim newNum"
            using Suc.prems(8) by (auto simp: sub)
        qed (use piece in \<open>simp_all add: sub\<close>)
      next
        case (4 us t)
        then obtain ts where ts: "vs @ us = map troot ts" "created_kids s depth e G ec ts (snd t)" "I (off + max b (min e (ec * l))) (fst t)"
          by (auto simp: Inv_def)
        have pos: "max b (min e (ec * l)) = e" using Suc.prems(3) ecl by simp
        have len: "length ts = cdiv e (mc ^ depth)" using ts(2) by (simp add: created_kids_def ec_def l_def)
        then have ne: "0 < length (vs @ us)" using ts(1) Suc.prems(4) by (metis cdiv_pos length_map mc_pos(3))
        show ?case
        proof (rule returns_assert [OF ne], rule returns_ebind)
          have "returns (DataNodeStore_createNewInnerNode bs L (Suc depth) (map troot ts)) (snd t)
              (\<lambda>node s''. \<exists>i. blockId node = i \<and> created s s'' (Suc depth) e G (Br i ts))"
            by (rule created_inner [OF Suc.prems(2) _ Suc.prems(4,5,1,12)]) (use ts(2) in \<open>simp add: ec_def l_def\<close>)
          then show "returns (zoom_snd (DataNodeStore_createNewInnerNode bs L (Suc depth) (vs @ us))) t
              (\<lambda>node t'. created s (snd t') (Suc depth) e G (Br (blockId node) ts) \<and> I (off + e) (fst t'))"
            using ts(3) unfolding ts(1) pos by (intro returns_zoom_snd) (auto elim!: returns_mono)
        next
          fix node t' assume t': "created s (snd t') (Suc depth) e G (Br (blockId node) ts) \<and> I (off + e) (fst t')"
          have "returns (if b < e then onBack (blockId node) else ret ()) t'
              (\<lambda>_ t''. created s (snd t'') (Suc depth) e G (Br (blockId node) ts) \<and> I (off + e) (fst t''))"
          proof (cases "b < e")
            case True
            have "returns (onBack (blockId node)) (fst t', snd t') (\<lambda>_ t''. fst t'' = fst t' \<and> fst (snd t'') = fst (snd t') \<and>
                turns (snd t') (snd t'') (Suc depth) (Br (blockId node) ts) (Br (blockId node) (kept trim (cdiv e (mc ^ depth)) ts)))"
              using Suc.prems(8) [rule_format, OF True, unfolded backs_def, rule_format, of "snd t'" depth "blockId node" ts e off "fst t'"]
                t' Suc.prems True len by (simp add: created_def grown_def)
            moreover have "kept trim (cdiv e (mc ^ depth)) ts = ts" by (simp add: kept_def len)
            ultimately show ?thesis using True t' created_turns [OF Suc.prems(2) t' [THEN conjunct1]]
              by (auto elim!: returns_mono)
          qed (use t' in simp)
          then show "returns (ebind (if b < e then onBack (blockId node) else ret ()) (\<lambda>_. ret node)) t'
              (\<lambda>node t. \<exists>tr. blockId node = troot tr \<and>
                 created s (snd t) (Suc depth) e (\<lambda>k. gap_or (off + b) Y (off + k)) tr \<and> I (off + e) (fst t))"
            unfolding G_def by (rule returns_ebind) (auto intro!: exI [of _ "Br (blockId node) ts"])
        qed
      qed (use 4 bec in simp_all)
    qed simp
  qed (use Suc.prems ceilLog [of "Suc depth" e] l(1) in \<open>simp_all add: udiv_def bc_def\<close>)
qed

end

end
