(* ===== verification/TreeTraversal.thy ===== *)
theory TreeTraversal
  imports TreeCreation
begin

text \<open>
  The leaf traversal of \<open>LeafTraverser.cpp\<close> is correct: on a left-max tree in the heap it calls back for the
  existing leaves of the range in order, creates the missing ones, fills the gap between the old end and
  the range with zeroes, and leaves a left-max tree with exactly the leaves that the callbacks gave.
\<close>

section \<open>The leaves after a traversal\<close>

text \<open>
  A traversal of the leaves \<open>[b, e)\<close> of a subtree with the \<open>n\<close> leaves \<open>xs\<close>: the last existing leaf is grown to the full
  size if the subtree grows behind it (\<open>grow\<close> says that it grows outside of the subtree), the range gets the
  contents \<open>W\<close>, and what is created in front of the range is zero.
\<close>

definition old_leaf :: "nat \<Rightarrow> nat \<Rightarrow> nat \<Rightarrow> bool \<Rightarrow> data list \<Rightarrow> nat \<Rightarrow> data" where
  "old_leaf m n e grow xs k = (if Suc k = n \<and> (grow \<or> n < e) then resized m (xs ! k) else xs ! k)"

definition new_leaf :: "nat \<Rightarrow> nat \<Rightarrow> nat \<Rightarrow> nat \<Rightarrow> bool \<Rightarrow> data list \<Rightarrow> (nat \<Rightarrow> data) \<Rightarrow> nat \<Rightarrow> data" where
  "new_leaf m n b e grow xs W k =
     (if b \<le> k \<and> k < e then W k else if k < n then old_leaf m n e grow xs k else zeroes m)"

text \<open>What this means for the child that starts at leaf \<open>J\<close>.\<close>

lemma old_leaf_child:
  fixes J l n e :: nat
  assumes "J < n" and "J + l < n \<Longrightarrow> \<not> grow'" and "n \<le> J + l \<Longrightarrow> grow' \<longleftrightarrow> grow \<or> J + l < e"
    and "q < min l (n - J)" and "xs ! (J + q) = ys ! q"
  shows "old_leaf m (min l (n - J)) (min l (e - J)) grow' ys q = old_leaf m n e grow xs (J + q)"
proof (cases "J + l < n")
  case True
  then show ?thesis using assms by (auto simp: old_leaf_def)
next
  case False
  then have "Suc q = min l (n - J) \<longleftrightarrow> Suc (J + q) = n" using assms(1,4) by auto
  moreover have "grow' \<or> min l (n - J) < min l (e - J) \<longleftrightarrow> grow \<or> n < e"
    using False assms(1,3) by (auto simp: min_def split: if_splits)
  ultimately show ?thesis using assms(5) by (auto simp: old_leaf_def)
qed

lemma target_child:
  fixes J l n e b :: nat
  assumes "J < n" and "J + l < n \<Longrightarrow> \<not> grow'" and "n \<le> J + l \<Longrightarrow> grow' \<longleftrightarrow> grow \<or> J + l < e"
    and "q < l" and "\<And>q. q < min l (n - J) \<Longrightarrow> xs ! (J + q) = ys ! q"
  shows "new_leaf m (min l (n - J)) (b - J) (min l (e - J)) grow' ys (\<lambda>q. W (J + q)) q = new_leaf m n b e grow xs W (J + q)"
proof -
  have "b - J \<le> q \<and> q < min l (e - J) \<longleftrightarrow> b \<le> J + q \<and> J + q < e" using assms(4) by auto
  moreover have "q < min l (n - J) \<longleftrightarrow> J + q < n" using assms(4) by auto
  ultimately show ?thesis
    using old_leaf_child [OF assms(1-3), of q xs ys m] assms(5) by (simp add: new_leaf_def)
qed

text \<open>The number of leaves that a traversal leaves behind; a resize trims them to the end of the range.\<close>

definition leaves_after :: "bool \<Rightarrow> nat \<Rightarrow> nat \<Rightarrow> nat \<Rightarrow> nat" where
  "leaves_after trim n b e = (if trim \<and> b < e then e else max n e)"

context tree_store
begin

section \<open>Existing subtrees\<close>

definition visits ::
  "(nat \<Rightarrow> bool \<Rightarrow> leaf_handle \<Rightarrow> (('x, 's) tr_state, unit) exec) \<Rightarrow> (nat \<Rightarrow> 'x \<Rightarrow> bool) \<Rightarrow>
   (nat \<Rightarrow> data) \<Rightarrow> (nat \<Rightarrow> data) \<Rightarrow> (nat \<Rightarrow> bool) \<Rightarrow> nat \<Rightarrow> nat \<Rightarrow> bool" where
  "visits onExisting I Z Y F begin end \<longleftrightarrow> (\<forall>k x s h v. begin \<le> k \<longrightarrow> k < end \<longrightarrow> I k x \<longrightarrow> supplied s \<longrightarrow>
     heap_of s (lh_blockId h) = Some v \<longrightarrow> leaf_bytes L (Z k) v \<longrightarrow>
     returns (onExisting k (F k) h) (x, s) (\<lambda>_ t. I (Suc k) (fst t) \<and> supplied (snd t) \<and> fst (snd t) = fst s \<and>
       (\<exists>w. leaf_bytes L (Y k) w \<and> heap_of (snd t) = (heap_of s)(lh_blockId h \<mapsto> w))))"

definition callbacks_ok ::
  "('x, 's) tr_callbacks \<Rightarrow> (nat \<Rightarrow> 'x \<Rightarrow> bool) \<Rightarrow> (nat \<Rightarrow> data) \<Rightarrow> (nat \<Rightarrow> data) \<Rightarrow> (nat \<Rightarrow> bool) \<Rightarrow> nat \<Rightarrow> nat \<Rightarrow> nat \<Rightarrow>
   bool \<Rightarrow> nat \<Rightarrow> bool" where
  "callbacks_ok cb I Z Y F begin n end trim newNum \<longleftrightarrow>
     visits (onExistingLeaf cb) I Z Y F begin (min end n) \<and> creates (onCreateLeaf cb) I Y (max begin n) end \<and>
     (begin < end \<longrightarrow> backs (onBacktrackFromSubtree cb) trim newNum)"

definition range_ok :: "bool \<Rightarrow> nat \<Rightarrow> nat \<Rightarrow> nat \<Rightarrow> nat \<Rightarrow> nat \<Rightarrow> bool \<Rightarrow> bool \<Rightarrow> nat \<Rightarrow> bool" where
  "range_ok ro depth n b e off grow trim newNum \<longleftrightarrow> depth \<le> maxDepth \<and> b \<le> e \<and> e \<le> mc ^ depth \<and> off + e \<le> 2 ^ 31 \<and>
     mc ^ depth dvd off \<and> (grow \<longrightarrow> n \<le> e) \<and> (b < e \<or> grow) \<and> (ro \<longrightarrow> e \<le> n \<and> \<not> grow \<and> \<not> trim) \<and>
     (trim \<longrightarrow> b < e \<longrightarrow> off + e = newNum \<and> e = Suc b)"

text \<open>
  Off the left border of the traversal, the range starts inside of the tree or the tree is complete up to
  its last child.
\<close>

definition left_ok :: "bool \<Rightarrow> nat \<Rightarrow> nat \<Rightarrow> nat \<Rightarrow> tree \<Rightarrow> bool" where
  "left_ok left depth n b t \<longleftrightarrow> left \<or> depth = 0 \<or> b < n \<or>
     n = length (kids t) * mc ^ (depth - 1) \<and> length (last (leaves t)) = mb"

definition traverses :: "bool \<Rightarrow> nat \<Rightarrow> ('x, 's) subtree_traversal \<Rightarrow> bool" where
  "traverses ro depth f \<longleftrightarrow> (\<forall>x s t n b e off left right grow cb I Z Y F trim newNum.
     tree_in s depth t \<longrightarrow> shape mc depth n t \<longrightarrow> range_ok ro depth n b e off grow trim newNum \<longrightarrow>
     left_ok left depth n b t \<longrightarrow>
     callbacks_ok cb I Z Y F (off + b) (off + n) (off + e) trim newNum \<longrightarrow>
     (\<forall>k. b \<le> k \<longrightarrow> k < e \<longrightarrow> k < n \<longrightarrow>
        Z (off + k) = old_leaf mb n e grow (leaves t) k \<and> F (off + k) = (right \<and> Suc k = n \<and> e = n)) \<longrightarrow>
     I (off + b) x \<longrightarrow> (max n e - n) * depth \<le> length (fst s) \<longrightarrow>
     returns (f (troot t) b e off left right grow cb) (x, s) (\<lambda>_ r. \<exists>t'. turns s (snd r) depth t t' \<and>
       shape mc depth (leaves_after trim n b e) t' \<and>
       leaves t' = map (new_leaf mb n b e grow (leaves t) (\<lambda>k. Y (off + k))) [0..<leaves_after trim n b e] \<and>
       I (off + e) (fst r) \<and> length (fst s) \<le> length (fst (snd r)) + (max n e - n) * depth))"

lemma traversesI:
  assumes "\<And>x s t n b e off left right grow cb I Z Y F trim newNum.
     tree_in s depth t \<Longrightarrow> shape mc depth n t \<Longrightarrow> range_ok ro depth n b e off grow trim newNum \<Longrightarrow>
     left_ok left depth n b t \<Longrightarrow>
     callbacks_ok cb I Z Y F (off + b) (off + n) (off + e) trim newNum \<Longrightarrow>
     (\<And>k. b \<le> k \<Longrightarrow> k < e \<Longrightarrow> k < n \<Longrightarrow>
        Z (off + k) = old_leaf mb n e grow (leaves t) k \<and> F (off + k) = (right \<and> Suc k = n \<and> e = n)) \<Longrightarrow>
     I (off + b) x \<Longrightarrow> (max n e - n) * depth \<le> length (fst s) \<Longrightarrow>
     returns (f (troot t) b e off left right grow cb) (x, s) (\<lambda>_ r. \<exists>t'. turns s (snd r) depth t t' \<and>
       shape mc depth (leaves_after trim n b e) t' \<and>
       leaves t' = map (new_leaf mb n b e grow (leaves t) (\<lambda>k. Y (off + k))) [0..<leaves_after trim n b e] \<and>
       I (off + e) (fst r) \<and> length (fst s) \<le> length (fst (snd r)) + (max n e - n) * depth)"
  shows "traverses ro depth f"
  unfolding traverses_def by (intro allI impI assms) blast+

lemma traversesD:
  assumes "traverses ro depth f" and "tree_in s depth t" and "shape mc depth n t"
    and "range_ok ro depth n b e off grow trim newNum" and "left_ok left depth n b t"
    and "callbacks_ok cb I Z Y F (off + b) (off + n) (off + e) trim newNum"
    and "\<And>k. b \<le> k \<Longrightarrow> k < e \<Longrightarrow> k < n \<Longrightarrow>
        Z (off + k) = old_leaf mb n e grow (leaves t) k \<and> F (off + k) = (right \<and> Suc k = n \<and> e = n)"
    and "I (off + b) x" and "(max n e - n) * depth \<le> length (fst s)"
  shows "returns (f (troot t) b e off left right grow cb) (x, s) (\<lambda>_ r. \<exists>t'. turns s (snd r) depth t t' \<and>
       shape mc depth (leaves_after trim n b e) t' \<and>
       leaves t' = map (new_leaf mb n b e grow (leaves t) (\<lambda>k. Y (off + k))) [0..<leaves_after trim n b e] \<and>
       I (off + e) (fst r) \<and> length (fst s) \<le> length (fst (snd r)) + (max n e - n) * depth)"
  using assms unfolding traverses_def by blast

subsection \<open>Leaves\<close>

lemma turns_tip:
  assumes "tree_in s 0 (Tip i d)" and "supplied s'" and "fst s' = fst s" and "heap_of s' = (heap_of s)(i \<mapsto> w)"
    and "leaf_bytes L d' w"
  shows "turns s s' 0 (Tip i d) (Tip i d')"
  using assms by (auto simp: turns_def tree_in_def evolves_def)

lemma leaf_handle_does:
  assumes "leaf_bytes L d v"
  shows "does (at (lh_blockId h) v) (LeafHandle_node bs L h) (h\<lparr>lh_loaded := True\<rparr>) (\<lambda>h. h)"
proof (cases "lh_loaded h")
  case True
  then have "h\<lparr>lh_loaded := True\<rparr> = h" by (cases h) simp
  with True show ?thesis by (simp only: LeafHandle_node_def if_True does_ret)
next
  case False
  then show ?thesis
    unfolding LeafHandle_node_def by simp (rule does_read [OF load_leaf_does [OF assms]], simp)
qed

lemma resized_full: "length d = m \<Longrightarrow> resized m d = d"
  by (simp add: resized_def zeroes_def)

text \<open>The growth of the last leaf.\<close>

lemma grow_leaf_ok:
  assumes "tree_in s 0 (Tip i d)" and "\<not> ro"
  shows "returns (ebind (zoom_snd (LeafHandle_node bs L (LeafHandle_new_id i))) (\<lambda>leafHandle.
      ebind (zoom_snd (DataLeafNode_numBytes bs (lh_blockId leafHandle))) (\<lambda>n.
      if n \<noteq> mb
      then ebind (not_readOnly (traverser ro) msg) (\<lambda>_.
           ebind (zoom_snd (DataLeafNode_resize bs (uninitialised L) (lh_blockId leafHandle) mb)) (\<lambda>_. ret leafHandle))
      else ret leafHandle))) (x, s)
    (\<lambda>h r. lh_blockId h = i \<and> fst r = x \<and> fst (snd r) = fst s \<and> turns s (snd r) 0 (Tip i d) (Tip i (resized mb d)))"
proof -
  obtain v where v: "heap_of s i = Some v" "leaf_bytes L d v" using assms(1) by (auto simp: tree_in_def)
  have sup: "supplied s" using assms(1) by (simp add: tree_in_def)
  let ?h = "\<lparr>lh_blockId = i, lh_loaded = True\<rparr>"
  obtain w where w: "leaf_bytes L (resized mb d) w"
    "\<And>i. does (at i v) (DataLeafNode_resize bs (uninitialised L) i mb) () (\<lambda>h. h(i \<mapsto> w))"
    using leaf_resize_does [OF v(2) order_refl, of "uninitialised L"] by auto
  have node: "does (at i v) (LeafHandle_node bs L (LeafHandle_new_id i)) ?h (\<lambda>h. h)"
    using leaf_handle_does [OF v(2), of "LeafHandle_new_id i"] by (simp add: LeafHandle_new_id_def)
  show ?thesis
  proof (rule returns_does [OF node], use sup v(1) in simp, use v(1) in simp, rule returns_does [OF numBytes_does [OF leaf_node [OF v(2)]]])
    fix s1 s2 assume *: "supplied s1" "fst s1 = fst (snd (x, s))" "heap_of s1 = heap_of (snd (x, s))"
      "supplied s2" "fst s2 = fst (snd (fst (x, s), s1))" "heap_of s2 = heap_of (snd (fst (x, s), s1))"
    show "returns (if length d \<noteq> mb
        then ebind (not_readOnly (traverser ro) msg) (\<lambda>_.
             ebind (zoom_snd (DataLeafNode_resize bs (uninitialised L) (lh_blockId ?h) mb)) (\<lambda>_. ret ?h))
        else ret ?h) (fst (fst (x, s), s1), s2)
      (\<lambda>h r. lh_blockId h = i \<and> fst r = x \<and> fst (snd r) = fst s \<and> turns s (snd r) 0 (Tip i d) (Tip i (resized mb d)))"
    proof (cases "length d = mb")
      case True
      then show ?thesis using * turns_same [OF assms(1), of s2] by (simp add: resized_full)
    next
      case False
      have "returns (ebind (zoom_snd (DataLeafNode_resize bs (uninitialised L) i mb)) (\<lambda>_. ret ?h)) (x, s2)
        (\<lambda>h r. lh_blockId h = i \<and> fst r = x \<and> fst (snd r) = fst s \<and> turns s (snd r) 0 (Tip i d) (Tip i (resized mb d)))"
        by (rule returns_does [OF w(2)]) (use * v(1) turns_tip [OF assms(1) _ _ _ w(1)] in auto)
      with False assms(2) show ?thesis by (simp add: not_readOnly_def)
    qed
  qed (use v(1) in simp_all)
qed

lemma visits_shift:
  assumes "visits f I Z Y F begin end" and "begin \<le> begin'" and "end' \<le> end"
  shows "visits f I Z Y F begin' end'"
  using assms unfolding visits_def by (meson less_le_trans order_trans)

lemma visitsD:
  assumes "visits onExisting I Z Y F begin end" and "begin \<le> k" and "k < end" and "I k x"
    and "tree_in s 0 (Tip (lh_blockId h) (Z k))"
  shows "returns (onExisting k (F k) h) (x, s) (\<lambda>_ t. I (Suc k) (fst t) \<and> fst (snd t) = fst s \<and>
    turns s (snd t) 0 (Tip (lh_blockId h) (Z k)) (Tip (lh_blockId h) (Y k)))"
proof -
  obtain v where "supplied s" "heap_of s (lh_blockId h) = Some v" "leaf_bytes L (Z k) v"
    using assms(5) by (auto simp: tree_in_def)
  with assms(1-4) have "returns (onExisting k (F k) h) (x, s) (\<lambda>_ t. I (Suc k) (fst t) \<and> supplied (snd t) \<and> fst (snd t) = fst s \<and>
       (\<exists>w. leaf_bytes L (Y k) w \<and> heap_of (snd t) = (heap_of s)(lh_blockId h \<mapsto> w)))"
    unfolding visits_def by blast
  then show ?thesis by (rule returns_mono) (auto intro: turns_tip [OF assms(5)])
qed

lemma traverse_leaf:
  "traverses ro 0 (LeafTraverser_traverseExistingSubtree 0 (traverser ro))"
proof (rule traversesI, goal_cases)
  case (1 x s t n b e off left right grow cb I Z Y F trim newNum)
  then obtain i d where t: "t = Tip i d" "n = 1" by (cases t) (auto simp: tree_in_def)
  have be: "b \<le> e" "e \<le> 1" "b < e \<or> grow" "grow \<longrightarrow> e = 1" "ro \<longrightarrow> \<not> grow"
    using 1(3) by (auto simp: range_ok_def t(2))
  then have after: "leaves_after trim n b e = 1" by (auto simp: leaves_after_def t(2))
  define d' where "d' = (if grow then resized mb d else d)"
  have old: "old_leaf mb n e grow (leaves t) 0 = d'" using be(2) by (simp add: old_leaf_def d'_def t)
  let ?grown = "if grow
      then ebind (zoom_snd (LeafHandle_node bs L (LeafHandle_new_id i))) (\<lambda>leafHandle.
        ebind (zoom_snd (DataLeafNode_numBytes bs (lh_blockId leafHandle))) (\<lambda>n.
        if n \<noteq> mb
        then ebind (not_readOnly (traverser ro) ''Can't grow the last leaf in a read-only traversal'') (\<lambda>_.
             ebind (zoom_snd (DataLeafNode_resize bs (uninitialised L) (lh_blockId leafHandle) mb)) (\<lambda>_. ret leafHandle))
        else ret leafHandle))
      else ret (LeafHandle_new_id i)"
  have grown: "returns ?grown (x, s) (\<lambda>h r. lh_blockId h = i \<and> fst r = x \<and> fst (snd r) = fst s \<and>
      turns s (snd r) 0 (Tip i d) (Tip i d'))"
  proof (cases grow)
    case True
    then have "\<not> ro" using be(5) by blast
    then show ?thesis unfolding d'_def if_P [OF True] by (intro grow_leaf_ok 1(1) [unfolded t(1)])
  next
    case False
    then show ?thesis using turns_refl [OF 1(1)] by (simp add: d'_def t LeafHandle_new_id_def)
  qed
  have "returns (ebind ?grown (\<lambda>h. if b = 0 \<and> e = 1 then onExistingLeaf cb off right h else ret ())) (x, s)
      (\<lambda>_ r. turns s (snd r) 0 (Tip i d) (Tip i (new_leaf mb n b e grow (leaves t) (\<lambda>k. Y (off + k)) 0)) \<and>
         I (off + e) (fst r) \<and> fst (snd r) = fst s)"
  proof (rule returns_ebind [OF grown])
    fix h :: leaf_handle and r assume h: "lh_blockId h = i \<and> fst r = x \<and> fst (snd r) = fst s \<and> turns s (snd r) 0 (Tip i d) (Tip i d')"
    show "returns (if b = 0 \<and> e = 1 then onExistingLeaf cb off right h else ret ()) r
      (\<lambda>_ r. turns s (snd r) 0 (Tip i d) (Tip i (new_leaf mb n b e grow (leaves t) (\<lambda>k. Y (off + k)) 0)) \<and>
         I (off + e) (fst r) \<and> fst (snd r) = fst s)"
    proof (cases "b = 0 \<and> e = 1")
      case True
      have vis: "visits (onExistingLeaf cb) I Z Y F (off + b) (min (off + e) (off + n))"
        using 1(5) by (simp add: callbacks_ok_def)
      have ZF: "Z off = d'" "F off = right" using 1(6) [of 0] True old by (simp_all add: t(2))
      have "returns (onExistingLeaf cb off (F off) h) (fst r, snd r) (\<lambda>_ t. I (Suc off) (fst t) \<and> fst (snd t) = fst (snd r) \<and>
          turns (snd r) (snd t) 0 (Tip (lh_blockId h) (Z off)) (Tip (lh_blockId h) (Y off)))"
        by (rule visitsD [OF vis]) (use 1(7) True h ZF in \<open>auto simp: t(2) turns_def\<close>)
      then show ?thesis
        using True h turns_trans [of s 0 "Tip i d" "snd r"] 1(1)
        by (auto elim!: returns_mono simp: ZF new_leaf_def t)
    next
      case False
      then have "b = 1" "e = 1" using be by auto
      then show ?thesis using h 1(7) old False by (simp add: new_leaf_def t(2))
    qed
  qed
  then have "returns (ebind ?grown (\<lambda>h. if b = 0 \<and> e = 1 then onExistingLeaf cb off right h else ret ())) (x, s)
      (\<lambda>_ r. \<exists>t'. turns s (snd r) 0 (Tip i d) t' \<and> shape mc 0 1 t' \<and>
         leaves t' = map (new_leaf mb n b e grow (leaves t) (\<lambda>k. Y (off + k))) [0..<1] \<and>
         I (off + e) (fst r) \<and> length (fst s) \<le> length (fst (snd r)) + (max n e - n) * 0)"
    by (rule returns_mono) (intro exI [of _ "Tip i (new_leaf mb n b e grow (leaves t) (\<lambda>k. Y (off + k)) 0)"], simp)
  then show ?case
    unfolding LeafTraverser_traverseExistingSubtree.simps leaf_traverser.select_convs after t(1) tree.sel
    by (intro returns_assert) (use be in simp_all)
qed

subsection \<open>Children of an inner node\<close>

definition kid_ok :: "nat \<Rightarrow> nat \<Rightarrow> (nat \<Rightarrow> data) \<Rightarrow> nat \<Rightarrow> tree \<Rightarrow> bool" where
  "kid_ok depth N G k t \<longleftrightarrow> shape mc depth (min (mc ^ depth) (N - k * mc ^ depth)) t \<and>
     leaves t = map (\<lambda>q. G (k * mc ^ depth + q)) [0..<min (mc ^ depth) (N - k * mc ^ depth)]"

lemma kid_same:
  assumes "shape mc (Suc depth) n (Br i ts)" and "k < length ts"
    and "min (mc ^ depth) (N - k * mc ^ depth) = min (mc ^ depth) (n - k * mc ^ depth)"
    and "\<And>q. q < min (mc ^ depth) (n - k * mc ^ depth) \<Longrightarrow>
      G (k * mc ^ depth + q) = leaves (Br i ts) ! (k * mc ^ depth + q)"
  shows "kid_ok depth N G k (ts ! k)"
proof -
  have sh: "shape mc depth (min (mc ^ depth) (n - k * mc ^ depth)) (ts ! k)" using assms(1,2) by simp
  then have "length (leaves (ts ! k)) = min (mc ^ depth) (n - k * mc ^ depth)" by (intro length_leaves) simp_all
  moreover have "G (k * mc ^ depth + q) = leaves (ts ! k) ! q" if "q < min (mc ^ depth) (n - k * mc ^ depth)" for q
    using assms(4) [OF that] nth_leaves [OF mc_pos(1) assms(1,2) that] by simp
  ultimately have "leaves (ts ! k) = map (\<lambda>q. G (k * mc ^ depth + q)) [0..<min (mc ^ depth) (n - k * mc ^ depth)]"
    by (intro nth_equalityI) simp_all
  with sh assms(3) show ?thesis by (simp add: kid_ok_def)
qed

lemma kids_tree:
  assumes "0 < N" and "N \<le> mc ^ Suc depth" and "length ts = cdiv N (mc ^ depth)"
    and "\<And>k. k < length ts \<Longrightarrow> kid_ok depth N G k (ts ! k)"
  shows "shape mc (Suc depth) N (Br i ts)" and "leaves (Br i ts) = map G [0..<N]"
proof -
  show "shape mc (Suc depth) N (Br i ts)" using assms by (simp add: kid_ok_def)
  show "leaves (Br i ts) = map G [0..<N]"
    unfolding leaves.simps by (rule concat_pieces [of "mc ^ depth"]) (use assms in \<open>auto simp: kid_ok_def\<close>)
qed

text \<open>The state of the traversal of the children of an inner node before child \<open>j\<close>.\<close>

definition walk ::
  "'s hl_state \<Rightarrow> nat \<Rightarrow> block_id \<Rightarrow> tree list \<Rightarrow> nat \<Rightarrow> nat \<Rightarrow> nat \<Rightarrow> nat \<Rightarrow> nat \<Rightarrow> (nat \<Rightarrow> data) \<Rightarrow>
   (nat \<Rightarrow> 'x \<Rightarrow> bool) \<Rightarrow> nat \<Rightarrow> ('x, 's) tr_state \<Rightarrow> bool" where
  "walk s depth i ts n b e off N G I j r \<longleftrightarrow> (\<exists>us. turns s (snd r) (Suc depth) (Br i ts) (Br i us) \<and>
     length us = max (length ts) j \<and> (\<forall>k<j. kid_ok depth N G k (us ! k)) \<and> (\<forall>k. j \<le> k \<longrightarrow> k < length ts \<longrightarrow> us ! k = ts ! k) \<and>
     I (off + max b (min e (j * mc ^ depth))) (fst r) \<and>
     length (fst s) \<le> length (fst (snd r)) + (min (max n e) (j * mc ^ depth) - n) * Suc depth)"

lemma growth_step:
  fixes n e J l :: nat
  assumes "J < n"
  shows "min (max n e) (J + l) - n = (min (max n e) J - n) + (max (min l (n - J)) (min l (e - J)) - min l (n - J))"
  using assms by (auto simp: min_def max_def)

lemma growth_step_new:
  fixes n e J l :: nat
  assumes "n \<le> J" and "J < e"
  shows "min (max n e) (J + l) - n = (min (max n e) J - n) + min l (e - J)"
  using assms by (auto simp: min_def max_def)

lemma walk_existing:
  assumes "tree_in s (Suc depth) (Br i ts)" and "walk s depth i ts n b e off N G I j r" and "j < length ts"
    and "j * mc ^ depth < n" and "turns (snd r) (snd r') depth (ts ! j) t'" and "kid_ok depth N G j t'"
    and "I (off + max b (min e (Suc j * mc ^ depth))) (fst r')"
    and "length (fst (snd r)) \<le> length (fst (snd r')) +
      (max (min (mc ^ depth) (n - j * mc ^ depth)) (min (mc ^ depth) (e - j * mc ^ depth)) - min (mc ^ depth) (n - j * mc ^ depth)) * depth"
  shows "walk s depth i ts n b e off N G I (Suc j) r'"
proof -
  let ?l = "mc ^ depth"
  obtain us where us: "turns s (snd r) (Suc depth) (Br i ts) (Br i us)" "length us = max (length ts) j"
      "\<forall>k<j. kid_ok depth N G k (us ! k)" "\<forall>k. j \<le> k \<longrightarrow> k < length ts \<longrightarrow> us ! k = ts ! k"
      "length (fst s) \<le> length (fst (snd r)) + (min (max n e) (j * ?l) - n) * Suc depth"
    using assms(2) by (auto simp: walk_def)
  have len: "length us = length ts" using us(2) assms(3) by simp
  have "turns (snd r) (snd r') (Suc depth) (Br i us) (Br i (us[j := t']))"
    by (rule turns_child [OF turns_in [OF us(1)]]) (use assms(3,5) us(4) len in simp_all)
  then have "turns s (snd r') (Suc depth) (Br i ts) (Br i (us[j := t']))" by (rule turns_trans [OF assms(1) us(1)])
  moreover have "length (fst s) \<le> length (fst (snd r')) + (min (max n e) (Suc j * ?l) - n) * Suc depth"
  proof -
    let ?g = "max (min ?l (n - j * ?l)) (min ?l (e - j * ?l)) - min ?l (n - j * ?l)"
    have "min (max n e) (Suc j * ?l) - n = (min (max n e) (j * ?l) - n) + ?g"
      using growth_step [OF assms(4), of e ?l] by (simp only: mult_Suc add.commute [of ?l])
    moreover have "?g * depth \<le> ?g * Suc depth" by (rule mult_le_mono2) simp
    ultimately show ?thesis using us(5) assms(8) by (simp only: add_mult_distrib)
  qed
  ultimately show ?thesis
    unfolding walk_def
    by (intro exI [of _ "us[j := t']"]) (use us(3,4) len assms(3,6,7) in \<open>auto simp: nth_list_update less_Suc_eq\<close>)
qed

lemma walk_new:
  assumes "tree_in s (Suc depth) (Br i ts)" and "walk s depth i ts n b e off N G I j r" and "length ts \<le> j" and "j < mc"
    and "n \<le> j * mc ^ depth" and "j * mc ^ depth < e" and "min (mc ^ depth) (N - j * mc ^ depth) = min (mc ^ depth) (e - j * mc ^ depth)"
    and "created (snd r) (snd r') depth (min (mc ^ depth) (e - j * mc ^ depth)) (\<lambda>q. G (j * mc ^ depth + q)) t'"
    and "blockId child = troot t'" and "I (off + max b (min e (Suc j * mc ^ depth))) (fst r')"
  shows "returns (zoom_snd (DataInnerNode_addChild bs junk i child)) r' (\<lambda>_. walk s depth i ts n b e off N G I (Suc j))"
proof -
  let ?l = "mc ^ depth"
  obtain us where us: "turns s (snd r) (Suc depth) (Br i ts) (Br i us)" "length us = j"
      "\<forall>k<j. kid_ok depth N G k (us ! k)" "length (fst s) \<le> length (fst (snd r)) + (min (max n e) (j * ?l) - n) * Suc depth"
    using assms(2,3) by (auto simp: walk_def)
  have g: "grown (snd r) (snd r') depth t'" and kid: "kid_ok depth N G j t'"
    and used: "length (fst (snd r)) \<le> length (fst (snd r')) + min ?l (e - j * ?l) * Suc depth"
    using assms(7,8) by (simp_all add: created_def kid_ok_def)
  have growth: "min (max n e) (Suc j * ?l) - n = (min (max n e) (j * ?l) - n) + min ?l (e - j * ?l)"
    using growth_step_new [OF assms(5,6), of ?l] by (simp only: mult_Suc add.commute [of ?l])
  have "length (fst s) \<le> length (fst (snd r')) + (min (max n e) (Suc j * ?l) - n) * Suc depth"
    using us(4) used unfolding growth add_mult_distrib by linarith
  then have "walk s depth i ts n b e off N G I (Suc j) (fst r', s'')"
    if "turns (snd r) s'' (Suc depth) (Br i us) (Br i (us @ [t']))" "fst s'' = fst (snd r')" for s''
    unfolding walk_def
    by (intro exI [of _ "us @ [t']"])
      (use that turns_trans [OF assms(1) us(1) that(1)] us(2,3) kid assms(3,10) in \<open>auto simp: nth_append less_Suc_eq\<close>)
  moreover have "yields (DataInnerNode_addChild bs junk i child) (snd r') ()
      (\<lambda>s''. turns (snd r) s'' (Suc depth) (Br i us) (Br i (us @ [t'])) \<and> fst s'' = fst (snd r'))"
    by (rule addChild_ok [OF turns_in [OF us(1)] _ g assms(9)]) (use us(2) assms(4) in simp)
  ultimately show ?thesis
    by (intro returns_zoom_snd) (auto elim!: returns_yields)
qed

text \<open>The part of a range in child \<open>j\<close>.\<close>

lemma child_range:
  fixes j :: nat
  assumes "range_ok ro (Suc depth) n b e off grow trim newNum" and "J = j * mc ^ depth" and "l = mc ^ depth"
    and "b < J + l" and "J < e" and "J < n" and "grow' \<longleftrightarrow> n \<le> J + l \<and> (grow \<or> J + l < e)"
  shows "range_ok ro depth (min l (n - J)) (b - J) (min l (e - J)) (off + J) grow' trim newNum"
proof -
  have r: "Suc depth \<le> maxDepth" "b \<le> e" "off + e \<le> 2 ^ 31" "mc ^ Suc depth dvd off" "grow \<longrightarrow> n \<le> e" "b < e \<or> grow"
    "ro \<longrightarrow> e \<le> n \<and> \<not> grow \<and> \<not> trim" "trim \<longrightarrow> b < e \<longrightarrow> off + e = newNum \<and> e = Suc b"
    using assms(1) by (simp_all add: range_ok_def)
  note piece = piece_arith [OF assms(5) r(2) assms(4)]
  have "mc ^ depth dvd off + J" using r(4) by (metis assms(2) dvd_add dvd_mult_right dvd_triv_right power_Suc)
  moreover have "grow' \<longrightarrow> min l (n - J) \<le> min l (e - J)" using assms(7) r(5) by auto
  moreover have "b - J < l" using assms(3,4) mc_pos(3) [of depth] by linarith
  then have "b - J < min l (e - J) \<or> grow'" using r(2,5,6) assms(4-7) by auto
  moreover have "ro \<longrightarrow> min l (e - J) \<le> min l (n - J) \<and> \<not> grow' \<and> \<not> trim" using r(7) assms(7) by auto
  moreover have "trim \<longrightarrow> b - J < min l (e - J) \<longrightarrow> off + J + min l (e - J) = newNum \<and> min l (e - J) = Suc (b - J)"
    using r(8) piece(6) assms(5) by auto
  moreover have "off + J + min l (e - J) \<le> 2 ^ 31" using piece(4) r(3) by linarith
  moreover have "min l (e - J) \<le> mc ^ depth" "depth \<le> maxDepth" using r(1) by (simp_all add: assms(3))
  ultimately show ?thesis unfolding range_ok_def using piece(3) by blast
qed

lemma child_after:
  fixes J l :: nat
  assumes "b \<le> e" and "b < J + l" and "J < e" and "J < n" and "0 < l"
  shows "leaves_after trim (min l (n - J)) (b - J) (min l (e - J)) = min l (leaves_after trim n b e - J)"
proof -
  have "b - J < min l (e - J) \<longleftrightarrow> b < e" using assms by auto
  then show ?thesis using assms by (auto simp: leaves_after_def max_def min_def)
qed

lemma child_callbacks:
  assumes "callbacks_ok cb I Z Y F (off + b) (off + n) (off + e) trim newNum" and "b \<le> e" and "b < J + l" and "J < e" and "J < n"
  shows "callbacks_ok cb I Z Y F (off + J + (b - J)) (off + J + min l (n - J)) (off + J + min l (e - J)) trim newNum"
proof -
  have cb: "visits (onExistingLeaf cb) I Z Y F (off + b) (min (off + e) (off + n))"
    "creates (onCreateLeaf cb) I Y (max (off + b) (off + n)) (off + e)"
    "off + b < off + e \<longrightarrow> backs (onBacktrackFromSubtree cb) trim newNum"
    using assms(1) by (simp_all add: callbacks_ok_def)
  note piece = piece_arith [OF assms(4,2,3)]
  have n: "J + min l (n - J) \<le> n" using assms(5) by simp
  have "visits (onExistingLeaf cb) I Z Y F (off + J + (b - J)) (min (off + J + min l (e - J)) (off + J + min l (n - J)))"
    by (rule visits_shift [OF cb(1)], use piece(5) in linarith, rule min.mono) (use piece(4) n in linarith)+
  moreover have "creates (onCreateLeaf cb) I Y (max (off + J + (b - J)) (off + J + min l (n - J))) (off + J + min l (e - J))"
  proof (cases "n \<le> J + l")
    case True
    show ?thesis by (rule creates_shift [OF cb(2)]) (use True piece(4,5) n assms(5) in auto)
  qed (auto simp: creates_def)
  ultimately show ?thesis using cb(3) assms(2) by (auto simp: callbacks_ok_def)
qed

subsection \<open>In front of the range\<close>

lemma walk_initial:
  assumes "tree_in s (Suc depth) (Br i ts)" and "j \<le> length ts" and "j * mc ^ depth \<le> b" and "j * mc ^ depth \<le> n"
    and "\<And>k. k < j \<Longrightarrow> kid_ok depth N G k (ts ! k)" and "I (off + b) x"
  shows "walk s depth i ts n b e off N G I j (x, s)"
proof -
  have "max b (min e (j * mc ^ depth)) = b" using assms(3) by simp
  then show ?thesis
    unfolding walk_def
    by (intro exI [of _ ts]) (use assms turns_refl [OF assms(1)] in \<open>simp add: max_absorb1\<close>)
qed

lemma kid_before:
  assumes "shape mc (Suc depth) n (Br i ts)" and "k < length ts" and "Suc k * mc ^ depth \<le> b" and "b \<le> e"
    and "Suc k * mc ^ depth \<le> n" and "Suc k * mc ^ depth = n \<Longrightarrow> length (last (leaves (Br i ts))) = mb"
  shows "kid_ok depth (leaves_after trim n b e) (new_leaf mb n b e grow (leaves (Br i ts)) W) k (ts ! k)"
proof (rule kid_same [OF assms(1,2)])
  let ?l = "mc ^ depth"
  show "min ?l (leaves_after trim n b e - k * ?l) = min ?l (n - k * ?l)"
    using assms(3-5) by (auto simp: leaves_after_def)
  fix q assume "q < min ?l (n - k * ?l)"
  then have q: "k * ?l + q < Suc k * ?l" by simp
  have "length (leaves (Br i ts)) = n" by (rule length_leaves [OF _ assms(1)]) simp
  then have "leaves (Br i ts) ! (k * ?l + q) = last (leaves (Br i ts))" if "Suc (k * ?l + q) = n"
    using that by (metis diff_Suc_1 last_conv_nth length_0_conv nat.distinct(1))
  then have "old_leaf mb n e grow (leaves (Br i ts)) (k * ?l + q) = leaves (Br i ts) ! (k * ?l + q)"
    using assms(5,6) q by (auto simp: old_leaf_def intro!: resized_full)
  then show "new_leaf mb n b e grow (leaves (Br i ts)) W (k * ?l + q) = leaves (Br i ts) ! (k * ?l + q)"
    using q assms(3,5) by (simp add: new_leaf_def)
qed

lemma inner_in:
  assumes "tree_in s (Suc depth) (Br i ts)"
  obtains v where "heap_of s i = Some v" and "inner_bytes L (Suc depth) (map troot ts) v" and "supplied s"
  using assms by (auto simp: tree_in_def)

lemma callbacks_none: "callbacks_ok no_leaves_callbacks I Z Y F a n a trim newNum"
  by (simp add: callbacks_ok_def visits_def creates_def)

lemma last_child:
  assumes "0 < l" and "0 < n" and "m = cdiv n l"
  shows "0 < m" and "(m - 1) * l < n" and "n \<le> (m - 1) * l + l" and "m * l = (m - 1) * l + l"
proof -
  show m: "0 < m" using assms by simp
  then show ml: "m * l = (m - 1) * l + l" by (cases m) simp_all
  show "(m - 1) * l < n" using m assms less_cdiv_iff [OF assms(1), of "m - 1" n] by simp
  show "n \<le> (m - 1) * l + l" using assms cdiv_le_iff [OF assms(1), of n m] ml by simp
qed

text \<open>The last existing child is completed when the range starts behind it.\<close>

lemma fill_last_child:
  assumes D: "traverses False depth descend" and tr: "tree_in s (Suc depth) (Br i ts)" and sh: "shape mc (Suc depth) n (Br i ts)"
    and depth: "Suc depth \<le> maxDepth" and room: "(mc ^ depth - min (mc ^ depth) (n - (length ts - 1) * mc ^ depth)) * depth \<le> length (fst s)"
  shows "returns (descend (troot (last ts)) (mc ^ depth) (mc ^ depth) ((length ts - 1) * mc ^ depth) True False True no_leaves_callbacks) (x, s)
    (\<lambda>_ r. \<exists>t'. turns s (snd r) depth (ts ! (length ts - 1)) t' \<and> shape mc depth (mc ^ depth) t' \<and>
       leaves t' = map (new_leaf mb n ((length ts - 1) * mc ^ depth + mc ^ depth) ((length ts - 1) * mc ^ depth + mc ^ depth) True
         (leaves (Br i ts)) W \<circ> (+) ((length ts - 1) * mc ^ depth)) [0..<mc ^ depth] \<and>
       fst r = x \<and> length (fst s) \<le> length (fst (snd r)) + (mc ^ depth - min (mc ^ depth) (n - (length ts - 1) * mc ^ depth)) * depth)"
proof -
  let ?l = "mc ^ depth" and ?j = "length ts - 1"
  have num: "length ts = cdiv n ?l" using sh by simp
  note m = last_child [OF mc_pos(3) shape_pos [OF sh] num]
  then have j: "?j < length ts" "?j * ?l < n" and n: "n \<le> ?j * ?l + ?l" by simp_all
  let ?n = "min ?l (n - ?j * ?l)"
  have last: "last ts = ts ! ?j" using m(1) by (simp add: last_conv_nth)
  have ch: "tree_in s depth (ts ! ?j)" "shape mc depth ?n (ts ! ?j)"
    using tree_in_child [OF tr j(1)] sh j(1) by simp_all
  have l31: "?j * ?l + ?l \<le> 2 ^ 31"
  proof -
    have "length ts \<le> mc" using sh by (simp add: num(1) cdiv_le_iff)
    then have "length ts * ?l \<le> mc * ?l" by (rule mult_le_mono1)
    then show ?thesis using leaves_bound [OF depth] m(4) by simp
  qed
  have "returns (descend (troot (ts ! ?j)) ?l ?l (?j * ?l) True False True no_leaves_callbacks) (x, s)
    (\<lambda>_ r. \<exists>t'. turns s (snd r) depth (ts ! ?j) t' \<and> shape mc depth (leaves_after False ?n ?l ?l) t' \<and>
       leaves t' = map (new_leaf mb ?n ?l ?l True (leaves (ts ! ?j)) (\<lambda>k. Y (?j * ?l + k))) [0..<leaves_after False ?n ?l ?l] \<and>
       fst r = x \<and> length (fst s) \<le> length (fst (snd r)) + (max ?n ?l - ?n) * depth)" for Y
    by (rule traversesD [OF D ch _ _ callbacks_none, where I = "\<lambda>_ y. y = x"])
      (use depth l31 room in \<open>auto simp: range_ok_def left_ok_def\<close>)
  note * = this [of W]
  have eq: "new_leaf mb ?n ?l ?l True (leaves (ts ! ?j)) (\<lambda>k. W (?j * ?l + k)) q =
      new_leaf mb n (?j * ?l + ?l) (?j * ?l + ?l) True (leaves (Br i ts)) W (?j * ?l + q)" if "q < ?l" for q
  proof -
    have "leaves (Br i ts) ! (?j * ?l + p) = leaves (ts ! ?j) ! p" if "p < ?n" for p
      by (rule nth_leaves [OF _ sh j(1) that]) simp
    from target_child [where xs = "leaves (Br i ts)" and grow = True and grow' = True and b = "?j * ?l + ?l" and e = "?j * ?l + ?l"
        and m = mb and W = W, OF j(2) _ _ that this] n
    show ?thesis by simp
  qed
  have "leaves_after False ?n ?l ?l = ?l" "max ?n ?l = ?l" by (simp_all add: leaves_after_def)
  with * eq show ?thesis unfolding last by (elim returns_mono) (auto simp: comp_def)
qed

lemma walk_start:
  assumes D: "traverses ro depth descend" and tr: "tree_in s (Suc depth) (Br i ts)" and sh: "shape mc (Suc depth) n (Br i ts)"
    and rg: "range_ok ro (Suc depth) n b e off grow trim newNum" and lf: "left_ok left (Suc depth) n b (Br i ts)"
    and Ix: "I (off + b) x" and room: "(max n e - n) * Suc depth \<le> length (fst s)"
  shows "returns (if left \<and> b div mc ^ depth \<ge> length ts
      then ebind (assert_exec (length ts > 0) msg) (\<lambda>_.
           ebind (zoom_snd (DataInnerNode_readLastChild bs i)) (\<lambda>child.
           descend child (mc ^ depth) (mc ^ depth) (trunc32 (sub32 (length ts) 1 * mc ^ depth)) True False True no_leaves_callbacks))
      else ret ()) (x, s)
    (\<lambda>_. walk s depth i ts n b e off (leaves_after trim n b e) (new_leaf mb n b e grow (leaves (Br i ts)) W) I
       (min (b div mc ^ depth) (length ts)))"
proof -
  let ?l = "mc ^ depth" and ?m = "length ts" and ?G = "new_leaf mb n b e grow (leaves (Br i ts)) W"
  let ?J = "(?m - 1) * ?l" and ?walk = "walk s depth i ts n b e off (leaves_after trim n b e) ?G I"
  have num: "?m = cdiv n ?l" using sh by simp
  note m = last_child [OF mc_pos(3) shape_pos [OF sh] num]
  have be: "b \<le> e" "b < e \<or> grow" "Suc depth \<le> maxDepth" "ro \<longrightarrow> e \<le> n \<and> \<not> grow" using rg by (auto simp: range_ok_def)
  have bl: "b div ?l * ?l \<le> b" by simp
  have before: "kid_ok depth (leaves_after trim n b e) ?G k (ts ! k)" if "k < ?m - 1" "Suc k * ?l \<le> b" for k
  proof (rule kid_before [OF sh _ that(2) be(1)])
    have "Suc k * ?l \<le> ?J" using that(1) by (intro mult_le_mono1) simp
    with m(2) show "Suc k * ?l \<le> n" "Suc k * ?l = n \<Longrightarrow> length (last (leaves (Br i ts))) = mb" by simp_all
  qed (use that in simp)
  show ?thesis
  proof (cases "b div ?l < ?m")
    case True
    have "?walk (b div ?l) (x, s)"
    proof (rule walk_initial [OF tr])
      show "b div ?l \<le> ?m" "b div ?l * ?l \<le> b" "I (off + b) x" using True bl Ix by simp_all
      have "b div ?l * ?l \<le> ?J" using True by (intro mult_le_mono1) simp
      then show "b div ?l * ?l \<le> n" using m(2) by linarith
      fix k assume k: "k < b div ?l"
      have "Suc k * ?l \<le> b div ?l * ?l" using k by (intro mult_le_mono1) simp
      then show "kid_ok depth (leaves_after trim n b e) ?G k (ts ! k)" using bl k True by (intro before) linarith+
    qed
    with True show ?thesis by simp
  next
    case False
    then have "?m * ?l \<le> b div ?l * ?l" by (intro mult_le_mono1) simp
    then have mb: "?J + ?l \<le> b" using bl m(4) by linarith
    have grows: "grow \<or> n < e" using be(1,2) mb m(3) by linarith
    have initial: "?walk (?m - 1) (x, s)"
    proof (rule walk_initial [OF tr])
      show "kid_ok depth (leaves_after trim n b e) ?G k (ts ! k)" if "k < ?m - 1" for k
        using that mb mult_le_mono1 [of "Suc k" "?m - 1" ?l] by (intro before) linarith+
    qed (use mb m(2) Ix in simp_all)
    show ?thesis
    proof (cases left)
      case True
      have "\<not> ro" using be mb m(3) by linarith
      then have D': "traverses False depth descend" using D by simp
      obtain v where v: "heap_of s i = Some v" "inner_bytes L (Suc depth) (map troot ts) v" "supplied s"
        by (rule inner_in [OF tr])
      have "?m \<le> mc" using sh by (simp add: num cdiv_le_iff)
      then have "?m < 2 ^ 32" using sizes(6) by simp
      then have sub: "sub32 ?m 1 = ?m - 1" using m(1) by (intro sub32_le) linarith+
      have "?J \<le> mc * ?l" using \<open>?m \<le> mc\<close> by (intro mult_le_mono1) simp
      then have "?J \<le> 2 ^ 31" using leaves_bound [OF be(3)] unfolding power_Suc by (rule order_trans)
      then have off: "trunc32 (sub32 ?m 1 * ?l) = ?J" unfolding sub by (rule trunc32_le)
      have troot: "last (map troot ts) = troot (last ts)" using m(1) by (simp add: last_map)
      have "returns (ebind (zoom_snd (DataInnerNode_readLastChild bs i)) (\<lambda>child.
           descend child ?l ?l ?J True False True no_leaves_callbacks)) (x, s) (\<lambda>_. ?walk ?m)"
      proof (rule returns_does [OF readLastChild_does [OF v(2)]], unfold troot)
        fix s1 assume s1: "supplied s1" "fst s1 = fst (snd (x, s))" "heap_of s1 = heap_of (snd (x, s))"
        have tr1: "tree_in s1 (Suc depth) (Br i ts)" and ch: "tree_in s depth (ts ! (?m - 1))"
          using tr s1 tree_in_child [OF tr, of "?m - 1"] m(1) by (simp_all add: tree_in_def)
        have el: "?J + ?l \<le> e" using mb be(1) by linarith
        then have counts: "max (min ?l (n - ?J)) (min ?l (e - ?J)) = ?l" "min ?l (leaves_after trim n b e - ?J) = ?l"
          by (auto simp: leaves_after_def)
        have "?l - min ?l (n - ?J) \<le> max n e - n" using el m(2,3) by auto
        then have "(?l - min ?l (n - ?J)) * depth \<le> (max n e - n) * Suc depth" by (intro mult_le_mono) simp_all
        then have room1: "(?l - min ?l (n - ?J)) * depth \<le> length (fst s1)" using room s1(2) by simp
        have "new_leaf mb n (?J + ?l) (?J + ?l) True (leaves (Br i ts)) W (?J + q) = ?G (?J + q)" if "q < ?l" for q
          using that mb grows by (auto simp: new_leaf_def old_leaf_def)
        then have G: "map (new_leaf mb n (?J + ?l) (?J + ?l) True (leaves (Br i ts)) W \<circ> (+) ?J) [0..<?l] =
            map (\<lambda>q. ?G (?J + q)) [0..<?l]" by simp
        show "returns (descend (troot (last ts)) ?l ?l ?J True False True no_leaves_callbacks) (fst (x, s), s1) (\<lambda>_. ?walk ?m)"
          unfolding fst_conv
        proof (rule returns_mono [OF fill_last_child [OF D' tr1 sh be(3) room1, of x W]], elim exE conjE)
          fix r t' assume t': "turns s1 (snd r) depth (ts ! (?m - 1)) t'" "shape mc depth ?l t'" "fst r = x"
            "leaves t' = map (new_leaf mb n (?J + ?l) (?J + ?l) True (leaves (Br i ts)) W \<circ> (+) ?J) [0..<?l]"
            "length (fst s1) \<le> length (fst (snd r)) + (?l - min ?l (n - ?J)) * depth"
          have "?walk (Suc (?m - 1)) r"
          proof (rule walk_existing [OF tr initial])
            show "turns (snd (x, s)) (snd r) depth (ts ! (?m - 1)) t'"
              using turns_trans [OF ch turns_same [OF ch] t'(1)] s1 by simp
            show "kid_ok depth (leaves_after trim n b e) ?G (?m - 1) t'"
              using t'(2,4) unfolding kid_ok_def counts G by simp
            have "max b (min e (Suc (?m - 1) * ?l)) = b" using mb by simp
            then show "I (off + max b (min e (Suc (?m - 1) * ?l))) (fst r)" using Ix t'(3) by simp
            show "length (fst (snd (x, s))) \<le> length (fst (snd r)) +
                (max (min ?l (n - ?J)) (min ?l (e - ?J)) - min ?l (n - ?J)) * depth"
              using t'(5) s1(2) unfolding counts by simp
          qed (use m(1,2) in simp_all)
          then show "?walk ?m r" using m(1) by simp
        qed
      qed (use v in simp_all)
      with True False m(1) show ?thesis unfolding off by simp
    next
      case False': False
      then have full: "n = ?m * ?l" "length (last (leaves (Br i ts))) = mb" using lf mb m(3) by (auto simp: left_ok_def)
      have "?walk ?m (x, s)"
      proof (rule walk_initial [OF tr])
        fix k assume k: "k < ?m"
        then have "Suc k * ?l \<le> ?m * ?l" by (intro mult_le_mono1) simp
        then have "Suc k * ?l \<le> b" "Suc k * ?l \<le> n" using mb m(4) full(1) by linarith+
        then show "kid_ok depth (leaves_after trim n b e) ?G k (ts ! k)"
          by (rule kid_before [OF sh k _ be(1)]) (rule full(2))
      qed (use mb m(4) full(1) Ix in simp_all)
      with False False' show ?thesis by simp
    qed
  qed
qed

subsection \<open>Existing and new children in the range\<close>

lemma child_flags:
  fixes j m n e l :: nat
  assumes "0 < l" and "m = cdiv n l" and "j < m"
  shows "j = m - 1 \<longleftrightarrow> n \<le> j * l + l" and "j = m - 1 \<Longrightarrow> m < cdiv e l \<longleftrightarrow> j * l + l < e"
    and "j = m - 1 \<Longrightarrow> j * l < e \<Longrightarrow> m = cdiv e l \<longleftrightarrow> e \<le> j * l + l"
proof -
  have ml: "Suc j * l = j * l + l" by simp
  have "j = m - 1 \<longleftrightarrow> m \<le> Suc j" using assms(3) by linarith
  also have "\<dots> \<longleftrightarrow> n \<le> j * l + l" using cdiv_le_iff [OF assms(1), of n "Suc j"] unfolding assms(2) ml .
  finally show "j = m - 1 \<longleftrightarrow> n \<le> j * l + l" .
  assume j: "j = m - 1"
  then have m: "m = Suc j" using assms(3) by simp
  show "m < cdiv e l \<longleftrightarrow> j * l + l < e" using less_cdiv_iff [OF assms(1), of "Suc j" e] unfolding m ml .
  assume "j * l < e"
  then have "j < cdiv e l" using less_cdiv_iff [OF assms(1), of j e] by simp
  then show "m = cdiv e l \<longleftrightarrow> e \<le> j * l + l" using cdiv_le_iff [OF assms(1), of e m] m ml by auto
qed

lemma existing_child:
  assumes D: "traverses ro depth descend" and tr: "tree_in s (Suc depth) (Br i ts)" and sh: "shape mc (Suc depth) n (Br i ts)"
    and rg: "range_ok ro (Suc depth) n b e off grow trim newNum" and lf: "left_ok left (Suc depth) n b (Br i ts)"
    and cb: "callbacks_ok cb I Z Y F (off + b) (off + n) (off + e) trim newNum"
    and ZF: "\<And>k. b \<le> k \<Longrightarrow> k < e \<Longrightarrow> k < n \<Longrightarrow>
        Z (off + k) = old_leaf mb n e grow (leaves (Br i ts)) k \<and> F (off + k) = (right \<and> Suc k = n \<and> e = n)"
    and room: "(max n e - n) * Suc depth \<le> length (fst s)"
    and j: "j < length ts" "b div mc ^ depth \<le> j" "j * mc ^ depth < e"
    and w: "walk s depth i ts n b e off (leaves_after trim n b e) (new_leaf mb n b e grow (leaves (Br i ts)) (\<lambda>k. Y (off + k))) I j r"
  shows "returns (descend (troot (ts ! j)) (b - j * mc ^ depth) (min (mc ^ depth) (e - j * mc ^ depth)) (off + j * mc ^ depth)
      (left \<and> j = b div mc ^ depth) (right \<and> j = length ts - 1 \<and> length ts = cdiv e (mc ^ depth))
      ((grow \<or> cdiv e (mc ^ depth) > length ts) \<and> j = length ts - 1) cb) r
    (\<lambda>_. walk s depth i ts n b e off (leaves_after trim n b e) (new_leaf mb n b e grow (leaves (Br i ts)) (\<lambda>k. Y (off + k))) I (Suc j))"
proof -
  define l where "l = mc ^ depth"
  define J where "J = j * l"
  let ?n = "min l (n - J)" and ?e = "min l (e - J)" and ?N = "leaves_after trim n b e"
  let ?G = "new_leaf mb n b e grow (leaves (Br i ts)) (\<lambda>k. Y (off + k))"
  let ?grow = "(grow \<or> cdiv e l > length ts) \<and> j = length ts - 1"
  have l: "0 < l" and num: "length ts = cdiv n l" using sh by (simp_all add: l_def)
  have Jn: "J < n" and Je: "J < e" and bl: "b < J + l" and be: "b \<le> e"
    using j less_cdiv_iff [OF l, of j n] num rg div_less_iff_less_mult [OF l, of b "Suc j"]
    by (simp_all add: J_def l_def range_ok_def add.commute)
  note flags = child_flags [OF l num j(1), folded J_def]
  have grow': "?grow \<longleftrightarrow> n \<le> J + l \<and> (grow \<or> J + l < e)" using flags(1,2) by auto
  have nth: "leaves (Br i ts) ! (J + p) = leaves (ts ! j) ! p" if "p < ?n" for p
    unfolding J_def l_def by (rule nth_leaves [OF _ sh j(1)]) (use that in \<open>simp_all add: J_def l_def\<close>)
  obtain us where us: "turns s (snd r) (Suc depth) (Br i ts) (Br i us)" "length us = length ts" "us ! j = ts ! j"
      "I (off + max b (min e J)) (fst r)" "length (fst s) \<le> length (fst (snd r)) + (min (max n e) J - n) * Suc depth"
    using w j(1) by (auto simp: walk_def J_def l_def)
  have ch: "tree_in (snd r) depth (ts ! j)" "shape mc depth ?n (ts ! j)"
    using tree_in_child [OF turns_in [OF us(1)], of j] us(2,3) j(1) sh by (simp_all add: J_def l_def)
  note piece = piece_arith [OF Je be bl]
  have "returns (descend (troot (ts ! j)) (b - J) ?e (off + J) (left \<and> j = b div l)
      (right \<and> j = length ts - 1 \<and> length ts = cdiv e l) ?grow cb) (fst r, snd r)
    (\<lambda>_ r'. \<exists>t'. turns (snd r) (snd r') depth (ts ! j) t' \<and> shape mc depth (leaves_after trim ?n (b - J) ?e) t' \<and>
       leaves t' = map (new_leaf mb ?n (b - J) ?e ?grow (leaves (ts ! j)) (\<lambda>k. Y (off + J + k))) [0..<leaves_after trim ?n (b - J) ?e] \<and>
       I (off + J + ?e) (fst r') \<and> length (fst (snd r)) \<le> length (fst (snd r')) + (max ?n ?e - ?n) * depth)"
  proof (rule traversesD [OF D ch _ _ child_callbacks [OF cb be bl Je Jn]])
    show "range_ok ro depth ?n (b - J) ?e (off + J) ?grow trim newNum"
      by (rule child_range [OF rg _ _ bl Je Jn grow']) (simp_all add: J_def l_def)
    show "left_ok (left \<and> j = b div l) depth ?n (b - J) (ts ! j)"
    proof (cases "j = b div l")
      case True
      have "b < n" if "\<not> left"
      proof (rule ccontr)
        assume "\<not> b < n"
        then have "n = length ts * l" using lf that by (auto simp: left_ok_def l_def)
        then have "length ts \<le> b div l" using \<open>\<not> b < n\<close> l by (simp add: less_eq_div_iff_mult_less_eq)
        with True j(1) show False by simp
      qed
      then show ?thesis using True l bl Jn by (auto simp: left_ok_def)
    next
      case False
      then have "Suc (b div l) * l \<le> J" using j(2) unfolding J_def l_def by (intro mult_le_mono1) simp
      moreover have "b < Suc (b div l) * l" using l by (simp add: dividend_less_div_times)
      ultimately have "b < J" by linarith
      then show ?thesis using Jn l by (simp add: left_ok_def)
    qed
    show "Z (off + J + k) = old_leaf mb ?n ?e ?grow (leaves (ts ! j)) k \<and>
        F (off + J + k) = ((right \<and> j = length ts - 1 \<and> length ts = cdiv e l) \<and> Suc k = ?n \<and> ?e = ?n)"
      if k: "b - J \<le> k" "k < ?e" "k < ?n" for k
    proof -
      have k': "b \<le> J + k" "J + k < e" "J + k < n" using k by auto
      have "old_leaf mb ?n ?e ?grow (leaves (ts ! j)) k = old_leaf mb n e grow (leaves (Br i ts)) (J + k)"
        by (rule old_leaf_child [OF Jn _ _ k(3) nth [OF k(3)]]) (use grow' in auto)
      moreover have "(right \<and> j = length ts - 1 \<and> length ts = cdiv e l) \<and> Suc k = ?n \<and> ?e = ?n \<longleftrightarrow> right \<and> Suc (J + k) = n \<and> e = n"
        using flags(1) flags(3) [OF _ Je] k k' by auto
      ultimately show ?thesis using ZF [OF k'] by (simp add: add.assoc)
    qed
    show "I (off + J + (b - J)) (fst r)" using us(4) piece(1) by (simp add: add.assoc)
    have "min (max n e) J - n = 0" using Jn by simp
    then have "length (fst s) \<le> length (fst (snd r))" using us(5) by simp
    moreover have "max ?n ?e - ?n \<le> max n e - n" using Jn by (auto simp: max_def min_def)
    then have "(max ?n ?e - ?n) * depth \<le> (max n e - n) * Suc depth" by (rule mult_le_mono) simp
    ultimately show "(max ?n ?e - ?n) * depth \<le> length (fst (snd r))" using room by linarith
  qed
  then show ?thesis
    unfolding l_def [symmetric] J_def [symmetric] prod.collapse
  proof (rule returns_mono, elim exE conjE)
    fix r' t' assume t': "turns (snd r) (snd r') depth (ts ! j) t'" "shape mc depth (leaves_after trim ?n (b - J) ?e) t'"
      "leaves t' = map (new_leaf mb ?n (b - J) ?e ?grow (leaves (ts ! j)) (\<lambda>k. Y (off + J + k))) [0..<leaves_after trim ?n (b - J) ?e]"
      "I (off + J + ?e) (fst r')" "length (fst (snd r)) \<le> length (fst (snd r')) + (max ?n ?e - ?n) * depth"
    note after = child_after [OF be bl Je Jn l, of trim]
    have G: "new_leaf mb ?n (b - J) ?e ?grow (leaves (ts ! j)) (\<lambda>k. Y (off + J + k)) q = ?G (J + q)" if "q < l" for q
      using target_child [where W = "\<lambda>k. Y (off + k)" and m = mb and b = b and xs = "leaves (Br i ts)" and ys = "leaves (ts ! j)",
          OF Jn _ _ that nth, of ?grow grow e] grow' by (auto simp: add.assoc)
    have kid: "kid_ok depth ?N ?G j t'"
      unfolding kid_ok_def l_def [symmetric] J_def [symmetric]
      using t'(2,3) G unfolding after by simp
    have "I (off + max b (min e (Suc j * l))) (fst r')"
      using t'(4) piece(2) by (simp add: J_def add.assoc add.commute)
    then show "walk s depth i ts n b e off ?N ?G I (Suc j) r'"
      using walk_existing [OF tr w j(1) Jn [unfolded J_def l_def] t'(1) kid] t'(5) unfolding J_def l_def by simp
  qed
qed


lemma creates_none: "creates onCreate I Y begin begin"
  by (simp add: creates_def)

lemma new_child:
  assumes tr: "tree_in s (Suc depth) (Br i ts)" and sh: "shape mc (Suc depth) n (Br i ts)"
    and rg: "range_ok ro (Suc depth) n b e off grow trim newNum"
    and cb: "callbacks_ok cb I Z Y F (off + b) (off + n) (off + e) trim newNum"
    and room: "(max n e - n) * Suc depth \<le> length (fst s)"
    and j: "length ts \<le> j" "j * mc ^ depth < e"
    and w: "walk s depth i ts n b e off (leaves_after trim n b e) (new_leaf mb n b e grow (leaves (Br i ts)) (\<lambda>k. Y (off + k))) I j r"
  shows "returns (ebind (LeafTraverser_createNewSubtree depth (traverser False) (min (mc ^ depth) (b - j * mc ^ depth))
        (min (mc ^ depth) (e - j * mc ^ depth)) (off + j * mc ^ depth)
        (if j \<ge> b div mc ^ depth then onCreateLeaf cb else LeafTraverser_createMaxSizeLeaf (traverser ro)) (onBacktrackFromSubtree cb))
      (\<lambda>child. zoom_snd (DataInnerNode_addChild bs junk i child))) r
    (\<lambda>_. walk s depth i ts n b e off (leaves_after trim n b e) (new_leaf mb n b e grow (leaves (Br i ts)) (\<lambda>k. Y (off + k))) I (Suc j))"
proof -
  define l where "l = mc ^ depth"
  define J where "J = j * l"
  let ?e = "min l (e - J)" and ?G = "new_leaf mb n b e grow (leaves (Br i ts)) (\<lambda>k. Y (off + k))"
  let ?onCreate = "if j \<ge> b div l then onCreateLeaf cb else LeafTraverser_createMaxSizeLeaf (traverser ro)"
  have r: "Suc depth \<le> maxDepth" "b \<le> e" "e \<le> mc ^ Suc depth" "off + e \<le> 2 ^ 31" "mc ^ Suc depth dvd off"
    "trim \<longrightarrow> b < e \<longrightarrow> off + e = newNum \<and> e = Suc b"
    using rg by (simp_all add: range_ok_def)
  have l: "0 < l" by (simp add: l_def)
  have Jn: "n \<le> J" using j(1) sh cdiv_le_iff [OF l, of n j] by (simp add: J_def l_def)
  have Je: "J < e" using j(2) by (simp add: J_def l_def)
  have jmc: "j < mc"
  proof (rule ccontr)
    assume "\<not> j < mc"
    then have "mc * l \<le> J" unfolding J_def by (intro mult_le_mono1) simp
    with Je r(3) show False by (simp add: l_def)
  qed
  have Ir: "I (off + max b (min e J)) (fst r)" and sup: "supplied (snd r)"
    and used: "length (fst s) \<le> length (fst (snd r)) + (min (max n e) J - n) * Suc depth"
    using w by (auto simp: walk_def J_def l_def turns_def tree_in_def)
  have room': "?e * Suc depth \<le> length (fst (snd r))"
  proof -
    have "max n e - n = (J - n) + (e - J)" "min (max n e) J - n = J - n" using Jn Je by auto
    then have "(e - J) * Suc depth \<le> length (fst (snd r))" using room used by (simp only: add_mult_distrib)
    moreover have "?e * Suc depth \<le> (e - J) * Suc depth" by (intro mult_le_mono1) simp
    ultimately show ?thesis by linarith
  qed
  have "mc ^ depth dvd off" using r(5) by (metis dvd_mult_right power_Suc)
  then have dvd: "mc ^ depth dvd off + J" by (simp add: J_def l_def)
  have sizes': "depth \<le> maxDepth" "0 < ?e" "?e \<le> mc ^ depth" "off + J + ?e \<le> 2 ^ 31" using r(1,4) Je l by (simp_all add: l_def)
  have create: "returns (LeafTraverser_createNewSubtree depth (traverser False) (min l (b - J)) ?e (off + J) ?onCreate (onBacktrackFromSubtree cb)) r
    (\<lambda>node t. \<exists>tr. blockId node = troot tr \<and> created (snd r) (snd t) depth ?e (\<lambda>q. ?G (J + q)) tr \<and>
       I (off + max b (min e (Suc j * l))) (fst t))"
  proof (cases "b div l \<le> j")
    case True
    have bJ: "b < J + l" using True div_less_iff_less_mult [OF l, of b "Suc j"] by (simp add: J_def add.commute)
    note piece = piece_arith [OF Je r(2) bJ]
    have b': "min l (b - J) = b - J" using bJ by auto
    have "returns (LeafTraverser_createNewSubtree depth (traverser False) (b - J) ?e (off + J) (onCreateLeaf cb) (onBacktrackFromSubtree cb)) (fst r, snd r)
      (\<lambda>node t. \<exists>tr. blockId node = troot tr \<and> created (snd r) (snd t) depth ?e (\<lambda>k. gap_or (off + J + (b - J)) Y (off + J + k)) tr \<and>
         I (off + J + ?e) (fst t))"
    proof (rule createNewSubtree_ok [OF sizes'(1) sup piece(3) sizes'(2-4) _ _ dvd _ _ room'])
      show "creates (onCreateLeaf cb) I Y (off + J + (b - J)) (off + J + ?e)"
        by (rule creates_shift [of _ _ _ "max (off + b) (off + n)" "off + e"]) (use cb Jn Je in \<open>auto simp: callbacks_ok_def\<close>)
      show "b - J < ?e \<longrightarrow> backs (onBacktrackFromSubtree cb) trim newNum" using cb by (auto simp: callbacks_ok_def)
      show "trim \<longrightarrow> b - J < ?e \<longrightarrow> off + J + ?e = newNum \<and> ?e = Suc (b - J)"
        using r(6) piece(6) by (auto simp: add.assoc)
      show "I (off + J + (b - J)) (fst r)" using Ir piece(1) by (simp add: add.assoc)
    qed
    moreover have "created (snd r) t depth ?e (\<lambda>k. gap_or (off + J + (b - J)) Y (off + J + k)) u \<longleftrightarrow>
        created (snd r) t depth ?e (\<lambda>q. ?G (J + q)) u" for t u
      by (rule created_cong) (use Jn in \<open>auto simp: gap_or_def new_leaf_def add.assoc\<close>)
    moreover have "off + J + ?e = off + max b (min e (Suc j * l))" using piece(2) by (simp add: J_def add.assoc add.commute)
    ultimately show ?thesis using True unfolding b' by simp
  next
    case False
    then have "Suc j * l \<le> b div l * l" by (intro mult_le_mono1) simp
    also have "\<dots> \<le> b" by simp
    finally have bJ: "J + l \<le> b" by (simp add: J_def add.commute)
    then have e': "?e = l" "min l (b - J) = l" using r(2) by auto
    have "returns (LeafTraverser_createNewSubtree depth (traverser False) l l (off + J) ?onCreate (onBacktrackFromSubtree cb)) (fst r, snd r)
      (\<lambda>node t. \<exists>tr. blockId node = troot tr \<and> created (snd r) (snd t) depth l (\<lambda>k. gap_or (off + J + l) Y (off + J + k)) tr \<and>
         fst t = fst r)"
      by (rule createNewSubtree_ok [OF sizes'(1) sup _ _ _ _ creates_none _ dvd, where I = "\<lambda>_ y. y = fst r"])
        (use sizes' room' e' in simp_all)
    moreover have "created (snd r) t depth l (\<lambda>k. gap_or (off + J + l) Y (off + J + k)) u \<longleftrightarrow>
        created (snd r) t depth l (\<lambda>q. ?G (J + q)) u" for t u
      by (rule created_cong) (use Jn bJ in \<open>auto simp: gap_or_def new_leaf_def\<close>)
    moreover have "max b (min e J) = b" "max b (min e (Suc j * l)) = b" using bJ by (auto simp: J_def)
    ultimately show ?thesis unfolding e' using Ir by (auto elim!: returns_mono) blast+
  qed
  have after: "min l (leaves_after trim n b e - J) = ?e"
    using Jn Je by (auto simp: leaves_after_def)
  show ?thesis
    unfolding l_def [symmetric] J_def [symmetric]
  proof (rule returns_ebind [OF create], elim exE conjE)
    fix child t u assume u: "blockId child = troot u" "created (snd r) (snd t) depth ?e (\<lambda>q. ?G (J + q)) u"
      "I (off + max b (min e (Suc j * l))) (fst t)"
    show "returns (zoom_snd (DataInnerNode_addChild bs junk i child)) t
        (\<lambda>_. walk s depth i ts n b e off (leaves_after trim n b e) ?G I (Suc j))"
      by (rule walk_new [OF tr w j(1) jmc _ j(2) _ _ u(1)]) (use Jn after u in \<open>simp_all add: J_def l_def\<close>)
  qed
qed

subsection \<open>Inner nodes\<close>

lemma walk_same:
  assumes "tree_in s (Suc depth) (Br i ts)" and "walk s depth i ts n b e off N G I j r" and "supplied s'"
    and "fst s' = fst (snd r)" and "heap_of s' = heap_of (snd r)"
  shows "walk s depth i ts n b e off N G I j (fst r, s')"
proof -
  obtain us where us: "turns s (snd r) (Suc depth) (Br i ts) (Br i us)" "length us = max (length ts) j"
      "\<forall>k<j. kid_ok depth N G k (us ! k)" "\<forall>k. j \<le> k \<longrightarrow> k < length ts \<longrightarrow> us ! k = ts ! k"
      "I (off + max b (min e (j * mc ^ depth))) (fst r)"
      "length (fst s) \<le> length (fst (snd r)) + (min (max n e) (j * mc ^ depth) - n) * Suc depth"
    using assms(2) by (auto simp: walk_def)
  have "turns s s' (Suc depth) (Br i ts) (Br i us)"
    by (rule turns_trans [OF assms(1) us(1) turns_same [OF turns_in [OF us(1)] assms(3-5)]])
  then show ?thesis unfolding walk_def using us assms(4) by (intro exI [of _ us]) simp
qed

lemma walk_read:
  assumes tr: "tree_in s (Suc depth) (Br i ts)" and w: "walk s depth i ts n b e off N G I j r" and j: "j < length ts"
    and f: "\<And>s'. walk s depth i ts n b e off N G I j (fst r, s') \<Longrightarrow> returns (f (troot (ts ! j))) (fst r, s') Q"
  shows "returns (ebind (zoom_snd (DataInnerNode_readChild bs i j)) f) r Q"
proof -
  obtain us where us: "turns s (snd r) (Suc depth) (Br i ts) (Br i us)" "length us = length ts" "us ! j = ts ! j"
    using w j by (auto simp: walk_def)
  obtain v where v: "heap_of (snd r) i = Some v" "inner_bytes L (Suc depth) (map troot us) v" "supplied (snd r)"
    by (rule inner_in [OF turns_in [OF us(1)]])
  have nth: "map troot us ! j = troot (ts ! j)" using us(2,3) j by simp
  show ?thesis
    by (rule returns_does [OF readChild_does [OF v(2), of j]])
      (use v us(2) j in \<open>simp_all add: nth f [OF walk_same [OF tr w]]\<close>)
qed

text \<open>After the loops, the node is backtracked from and the children form the new tree.\<close>

lemma walk_end:
  assumes tr: "tree_in s (Suc depth) (Br i ts)" and sh: "shape mc (Suc depth) n (Br i ts)"
    and rg: "range_ok ro (Suc depth) n b e off grow trim newNum"
    and cb: "callbacks_ok cb I Z Y F (off + b) (off + n) (off + e) trim newNum"
    and w: "walk s depth i ts n b e off (leaves_after trim n b e) (new_leaf mb n b e grow (leaves (Br i ts)) W) I (cdiv e (mc ^ depth)) r"
  shows "returns (if e > b then onBacktrackFromSubtree cb i else ret ()) r (\<lambda>_ r. \<exists>t'. turns s (snd r) (Suc depth) (Br i ts) t' \<and>
       shape mc (Suc depth) (leaves_after trim n b e) t' \<and>
       leaves t' = map (new_leaf mb n b e grow (leaves (Br i ts)) W) [0..<leaves_after trim n b e] \<and>
       I (off + e) (fst r) \<and> length (fst s) \<le> length (fst (snd r)) + (max n e - n) * Suc depth)"
proof -
  define l where "l = mc ^ depth"
  let ?N = "leaves_after trim n b e" and ?G = "new_leaf mb n b e grow (leaves (Br i ts)) W" and ?ec = "cdiv e l"
  have r: "Suc depth \<le> maxDepth" "b \<le> e" "e \<le> mc ^ Suc depth" "mc ^ Suc depth dvd off" "grow \<longrightarrow> n \<le> e"
    "trim \<longrightarrow> b < e \<longrightarrow> off + e = newNum"
    using rg by (simp_all add: range_ok_def)
  have l: "0 < l" and num: "length ts = cdiv n l" and n: "0 < n" "n \<le> mc ^ Suc depth" using sh by (simp_all add: l_def)
  have ecl: "e \<le> ?ec * l" using cdiv_le_iff [OF l, of e ?ec] by simp
  obtain us where us: "turns s (snd r) (Suc depth) (Br i ts) (Br i us)" "length us = max (length ts) ?ec"
      "\<forall>k<?ec. kid_ok depth ?N ?G k (us ! k)" "\<forall>k. ?ec \<le> k \<longrightarrow> k < length ts \<longrightarrow> us ! k = ts ! k"
      "I (off + max b (min e (?ec * l))) (fst r)"
      "length (fst s) \<le> length (fst (snd r)) + (min (max n e) (?ec * l) - n) * Suc depth"
    using w by (auto simp: walk_def l_def)
  have Ie: "I (off + e) (fst r)" using us(5) ecl r(2) by (simp add: max_absorb2)
  have "(min (max n e) (?ec * l) - n) * Suc depth \<le> (max n e - n) * Suc depth" by (intro mult_le_mono1) auto
  with us(6) have used: "length (fst s) \<le> length (fst (snd r)) + (max n e - n) * Suc depth" by linarith
  let ?us = "kept (trim \<and> b < e) ?ec us"
  have "returns (if e > b then onBacktrackFromSubtree cb i else ret ()) r
      (\<lambda>_ r'. fst r' = fst r \<and> fst (snd r') = fst (snd r) \<and> turns (snd r) (snd r') (Suc depth) (Br i us) (Br i ?us))"
  proof (cases "b < e")
    case True
    then have "backs (onBacktrackFromSubtree cb) trim newNum" using cb by (simp add: callbacks_ok_def)
    from this [unfolded backs_def, rule_format, OF turns_in [OF us(1)] r(1) _ r(3,4), of "fst r"] True r(6) us(2)
    show ?thesis by (simp add: l_def)
  next
    case False
    then show ?thesis using turns_refl [OF turns_in [OF us(1)]] by (simp add: kept_def)
  qed
  moreover have "shape mc (Suc depth) ?N (Br i ?us) \<and> leaves (Br i ?us) = map ?G [0..<?N]"
  proof -
    have "0 < ?N" "?N \<le> mc ^ Suc depth" using n r(3) by (auto simp: leaves_after_def)
    moreover have "length ?us = cdiv ?N (mc ^ depth)"
      using us(2) num cdiv_max [OF l, of n e] by (auto simp: kept_def leaves_after_def l_def min_absorb2)
    moreover have "kid_ok depth ?N ?G k (?us ! k)" if k: "k < length ?us" for k
    proof (cases "k < ?ec")
      case True
      then have "?us ! k = us ! k" by (simp add: kept_def)
      then show ?thesis using us(3) True by simp
    next
      case False
      then have k': "\<not> (trim \<and> b < e)" "k < length ts" "?us ! k = ts ! k" using k us(2,4) by (auto simp: kept_def split: if_splits)
      have "?ec * l \<le> k * l" using False by (intro mult_le_mono1) simp
      then have el: "e \<le> k * l" using ecl by linarith
      have "kid_ok depth ?N ?G k (ts ! k)"
        by (rule kid_same [OF sh k'(2)])
          (use k'(1) el r(5) in \<open>auto simp: leaves_after_def new_leaf_def old_leaf_def l_def max_def\<close>)
      with k'(3) show ?thesis by simp
    qed
    ultimately show ?thesis using kids_tree [of ?N depth ?us ?G i] by blast
  qed
  ultimately show ?thesis
    by (elim returns_mono) (use Ie used turns_trans [OF tr us(1)] in \<open>metis prod.collapse\<close>)
qed

lemma traverse_inner:
  assumes D: "traverses ro depth descend"
  shows "traverses ro (Suc depth) (LeafTraverser_traverseInner depth descend (traverser ro))"
proof (rule traversesI, goal_cases)
  case (1 x s t n b e off left right grow cb I Z Y F trim newNum)
  then obtain i ts where t: "t = Br i ts" by (cases t) (auto simp: tree_in_def)
  note tr = 1(1) [unfolded t] and sh = 1(2) [unfolded t] and rg = 1(3) and lf = 1(4) [unfolded t] and cb = 1(5) and ZF = 1(6) [unfolded t] and Ix = 1(7) and room = 1(8)
  define l where "l = mc ^ depth"
  define bc where "bc = b div l"
  define ec where "ec = cdiv e l"
  let ?m = "length ts" and ?G = "new_leaf mb n b e grow (leaves (Br i ts)) (\<lambda>k. Y (off + k))"
  have r: "Suc depth \<le> maxDepth" "b \<le> e" "e \<le> mc ^ Suc depth" "off + e \<le> 2 ^ 31" "grow \<longrightarrow> n \<le> e" "ro \<longrightarrow> e \<le> n"
    using rg by (simp_all add: range_ok_def)
  have l: "0 < l" "l \<le> 2 ^ 31" and e31: "e \<le> 2 ^ 31" and num: "?m = cdiv n l"
    using sh r(1,4) leaves_bound [of depth] by (simp_all add: l_def)
  have ecl: "e \<le> ec * l" and lt_ec: "j < ec \<longleftrightarrow> j * l < e" for j
    using cdiv_le_iff [OF l(1), of e ec] less_cdiv_iff [OF l(1), of j e] by (simp_all add: ec_def)
  have le_ec: "ec \<le> k \<longleftrightarrow> e \<le> k * l" "?m \<le> k \<longleftrightarrow> n \<le> k * l" for k unfolding ec_def num by (rule cdiv_le_iff [OF l(1)])+
  have n_le: "n \<le> mc * l" using sh by (simp add: l_def)
  have "b div l \<le> ec" using r(2) ecl div_le_mono [of b "ec * l" l] l(1) by simp
  then have bec: "bc \<le> ec" by (simp add: bc_def)
  have maxLeaves: "LeafTraverser_maxLeavesForTreeDepth (traverser ro) depth = l"
    using maxLeaves_eq [of depth] r(1) by (simp add: l_def)
  have endc: "ceilDivision 32 e l = ec" unfolding ec_def by (rule ceilDivision32) (use l e31 in auto)
  obtain v where v: "heap_of s i = Some v" "inner_bytes L (Suc depth) (map troot ts) v" "supplied s"
    by (rule inner_in [OF tr])
  show ?case
    unfolding t tree.sel LeafTraverser_traverseInner_def Let_def leaf_traverser.select_convs maxLeaves endc
  proof (rule returns_assert [OF r(2)], rule returns_lift [where x = bc], goal_cases)
    case 2
    show ?case
    proof (rule returns_assert, goal_cases)
      case 2
      show ?case
      proof (rule returns_does [OF numChildren_does [OF inner_node [OF v(2)]]], goal_cases)
        case (3 s1)
        then have s1: "supplied s1" "fst s1 = fst s" "heap_of s1 = heap_of s" by simp_all
        have tr1: "tree_in s1 (Suc depth) (Br i ts)" using tr s1 by (simp add: tree_in_def)
        have room1: "(max n e - n) * Suc depth \<le> length (fst s1)" using room s1(2) by simp
        let ?walk = "walk s1 depth i ts n b e off (leaves_after trim n b e) ?G I"
        have "0 < ?m" "?m \<le> mc" using shape_pos [OF sh] l(1) n_le by (simp_all add: num cdiv_le_iff)
        then have m32: "?m < 2 ^ 32" "0 < ?m" using sizes(6) by simp_all
        have sub1: "sub32 ?m 1 = ?m - 1" using m32 by (intro sub32_le) linarith+
        have child_off: "trunc32 (j * l) = j * l" "sub32 e (j * l) = e - j * l" "trunc32 (off + j * l) = off + j * l" if "j * l < e" for j
          using that e31 r(4) by (simp_all add: sub32_le trunc32_le)
        show ?case
          unfolding length_map fst_conv
        proof (intro returns_assert, goal_cases)
          case 3
          show ?case
          proof (rule returns_ebind [OF walk_start [where W = "\<lambda>k. Y (off + k)" and I = I and x = x, OF D tr1 sh rg lf Ix room1, folded l_def bc_def]],
              rule returns_ebind [where P = "\<lambda>_. ?walk (min ec ?m)"], goal_cases)
            case (1 u r0)
            show ?case
            proof (cases "bc \<le> min ec ?m")
              case True
              show ?thesis
              proof (rule returns_for_each [OF True])
                show "?walk bc r0" using 1 True by (simp add: min_absorb1)
                fix j r1 assume j: "bc \<le> j" "j < min ec ?m" "?walk j r1"
                have je: "j * l < e" using j(2) lt_ec by simp
                note off = child_off [OF je]
                show "returns (ebind (zoom_snd (DataInnerNode_readChild bs i j)) (\<lambda>childBlockId.
                    ebind (assert_exec (min l (sub32 e (trunc32 (j * l))) \<le> l) msg) (\<lambda>_.
                    descend childBlockId (maxZeroSubtraction b (trunc32 (j * l))) (min l (sub32 e (trunc32 (j * l))))
                      (trunc32 (off + trunc32 (j * l))) (left \<and> j = bc) (right \<and> j = sub32 ?m 1 \<and> ?m = ec)
                      ((grow \<or> ec > ?m) \<and> j = sub32 ?m 1) cb))) r1 (\<lambda>_. ?walk (Suc j))" for msg
                proof (rule walk_read [OF tr1 j(3)])
                  fix s' assume w: "?walk j (fst r1, s')"
                  show "returns (ebind (assert_exec (min l (sub32 e (trunc32 (j * l))) \<le> l) msg) (\<lambda>_.
                    descend (troot (ts ! j)) (maxZeroSubtraction b (trunc32 (j * l))) (min l (sub32 e (trunc32 (j * l))))
                      (trunc32 (off + trunc32 (j * l))) (left \<and> j = bc) (right \<and> j = sub32 ?m 1 \<and> ?m = ec)
                      ((grow \<or> ec > ?m) \<and> j = sub32 ?m 1) cb)) (fst r1, s') (\<lambda>_. ?walk (Suc j))"
                    unfolding off sub1 maxZeroSubtraction_eq
                    by (rule returns_assert, simp, unfold bc_def ec_def l_def,
                        rule existing_child [OF D tr1 sh rg lf cb ZF room1 _ _ _ w])
                      (use j je in \<open>simp_all add: l_def bc_def t\<close>)
                qed (use j in simp)
              qed
            next
              case False
              then have "?m < bc" "min ec ?m = ?m" using bec by auto
              then show ?thesis using 1 False by simp
            qed
          next
            case (2 u r0 u' r1)
            show ?case
            proof (rule returns_ebind [where P = "\<lambda>_. ?walk ec"], goal_cases)
              case 1
              show ?case
              proof (cases "?m \<le> ec")
                case True
                show ?thesis
                proof (rule returns_for_each [OF True])
                  show "?walk ?m r1" using 2 True by (simp add: min_absorb2)
                  fix j r2 assume j: "?m \<le> j" "j < ec" "?walk j r2"
                  have je: "j * l < e" using j(2) lt_ec by simp
                  note off = child_off [OF je]
                  have "n \<le> j * l" using j(1) le_ec(2) by simp
                  then have "\<not> ro" using r(6) je by linarith
                  then have ro: "ro = False" by simp
                  show "returns (ebind (not_readOnly (traverser ro) msg) (\<lambda>_.
                      ebind (LeafTraverser_createNewSubtree depth (traverser ro) (min l (maxZeroSubtraction b (trunc32 (j * l))))
                        (min l (sub32 e (trunc32 (j * l)))) (trunc32 (off + trunc32 (j * l)))
                        (if bc \<le> j then onCreateLeaf cb else LeafTraverser_createMaxSizeLeaf (traverser ro)) (onBacktrackFromSubtree cb))
                      (\<lambda>child. zoom_snd (DataInnerNode_addChild bs (uninitialised L) i child)))) r2 (\<lambda>_. ?walk (Suc j))" for msg
                    unfolding not_readOnly_def off maxZeroSubtraction_eq ro
                    by (rule returns_assert, simp, unfold bc_def l_def, rule new_child [OF tr1 sh rg [unfolded ro] cb room1 _ _ j(3)])
                      (use j je in \<open>simp_all add: l_def\<close>)
                qed
              next
                case False
                then show ?thesis using 2 by simp
              qed
            next
              case (2 u r2)
              have "returns (if e > b then onBacktrackFromSubtree cb i else ret ()) r2 (\<lambda>_ r. \<exists>t'. turns s1 (snd r) (Suc depth) (Br i ts) t' \<and>
                 shape mc (Suc depth) (leaves_after trim n b e) t' \<and> leaves t' = map ?G [0..<leaves_after trim n b e] \<and>
                 I (off + e) (fst r) \<and> length (fst s1) \<le> length (fst (snd r)) + (max n e - n) * Suc depth)"
                by (rule walk_end [OF tr1 sh rg cb]) (use 2 in \<open>simp add: ec_def l_def\<close>)
              then show ?case
                by (elim returns_mono) (use turns_trans [OF tr turns_same [OF tr s1]] s1(2) in fastforce)
            qed
          qed
        qed (use r(5,6) ecl le_ec(2) [of ?m] in \<open>auto simp: le_ec intro: order_trans\<close>)
      qed (use v in simp_all)
    qed (use r(3) in \<open>simp add: le_ec l_def\<close>)
  qed (use l(1) in \<open>simp add: udiv_def bc_def\<close>)
qed

end

end
