(* ===== verification/TreeRoots.thy ===== *)
theory TreeRoots
  imports TreeTraversal
begin

text \<open>
  The root of a tree: the descent of the traversal from the root, the growth of the tree by a level, the
  collapse of a chain of nodes with one child, and the removal of subtrees. The main result is that
  \<open>LeafTraverser::_traverseAndUpdateRoot\<close> takes a left-max tree of least depth to one.
\<close>

section \<open>Root nodes\<close>

fun node_of :: "tree \<Rightarrow> data_node" where
  "node_of (Tip i d) = DataLeafNode i"
| "node_of (Br i ts) = DataInnerNode i"

fun reroot :: "block_id \<Rightarrow> tree \<Rightarrow> tree" where
  "reroot j (Tip i d) = Tip j d"
| "reroot j (Br i ts) = Br j ts"

fun branches :: "tree \<Rightarrow> tree list" where
  "branches (Tip i d) = []"
| "branches (Br i ts) = ts"

fun node_value :: "node_layout \<Rightarrow> nat \<Rightarrow> tree \<Rightarrow> data \<Rightarrow> bool" where
  "node_value L depth (Tip i d) v \<longleftrightarrow> depth = 0 \<and> leaf_bytes L d v"
| "node_value L depth (Br i ts) v \<longleftrightarrow> inner_bytes L depth (map troot ts) v"

text \<open>A tree has the least depth for its leaves if its root is a leaf or has several children.\<close>

fun proper :: "tree \<Rightarrow> bool" where
  "proper (Tip i d) \<longleftrightarrow> True"
| "proper (Br i ts) \<longleftrightarrow> length ts \<noteq> 1"

lemma blockId_node_of [simp]: "blockId (node_of t) = troot t"
  by (cases t) simp_all

lemma reroot_simps [simp]: "troot (reroot j t) = j" "leaves (reroot j t) = leaves t" "branches (reroot j t) = branches t"
  "proper (reroot j t) = proper t" "shape c depth n (reroot j t) = shape c depth n t"
  "node_value L depth (reroot j t) v = node_value L depth t v"
  by (cases t; cases depth; simp)+

lemma tids_branches: "tids t = troot t # concat (map tids (branches t))"
  by (cases t) simp_all

lemma holds_branches:
  "holds L h depth t \<longleftrightarrow> (\<exists>v. h (troot t) = Some v \<and> node_value L depth t v) \<and> (\<forall>u\<in>set (branches t). holds L h (depth - 1) u)"
  by (cases t; cases depth) (auto simp: inner_bytes_def)

context node_heap
begin

lemma node_value_bytes:
  assumes "node_value L depth t v"
  obtains sz where "node_bytes L depth sz v"
  using assms by (cases t) (auto simp: leaf_bytes_def inner_bytes_def)

lemma load_block_does:
  assumes "node_value L depth t v" and "depth \<le> 10"
  shows "does (at i v) (DataNodeStore_load_block bs L i) (node_of (reroot i t)) (\<lambda>h. h)"
proof (cases t)
  case (Tip j d)
  then have v: "leaf_bytes L d v" using assms(1) by simp
  show ?thesis
    unfolding DataNodeStore_load_block_def
    by (rule does_read [OF Depth_does [OF leaf_node [OF v]]]) (simp add: Tip leaf_new_does [OF v])
next
  case (Br j ts)
  then have v: "inner_bytes L depth (map troot ts) v" using assms(1) by simp
  have u: "unat (of_nat depth :: byte) = depth" by (rule node_bytes_unat [OF inner_node [OF v]])
  then have "(of_nat depth :: byte) \<noteq> 0" using v by (metis inner_bytes_def unat_0 less_irrefl)
  with u assms(2) show ?thesis
    unfolding DataNodeStore_load_block_def DataNodeStore_MAX_DEPTH_def
    by (intro does_read [OF Depth_does [OF inner_node [OF v]]]) (simp add: Br inner_new_does [OF v])
qed

lemma load_does:
  assumes "node_value L depth t v" and "depth \<le> 10"
  shows "does (at i v) (DataNodeStore_load bs L i) (Some (node_of (reroot i t))) (\<lambda>h. h)"
proof -
  obtain sz where v: "node_bytes L depth sz v" by (rule node_value_bytes [OF assms(1)])
  show ?thesis
    unfolding DataNodeStore_load_def
    by (intro does_read [OF Block_open_does])
      (simp, intro does_read [OF Block_size_does [OF len_v [OF v]]] does_read [OF does_assert]
          does_read [OF load_block_does [OF assms] does_ret], simp)
qed

lemma copy_ok:
  assumes "supplied s" and "fst s = j # ids" and "heap_of s (blockId node) = Some v" and "node_value L depth t v" and "depth \<le> 10"
  shows "yields (DataNodeStore_createNewNodeAsCopyFrom bs L node) s (node_of (reroot j t))
    (\<lambda>r. supplied r \<and> fst r = ids \<and> heap_of r = (heap_of s)(j \<mapsto> v))"
proof -
  obtain sz where vb: "node_bytes L depth sz v" by (rule node_value_bytes [OF assms(4)])
  let ?i = "blockId node"
  have "yields (ebind (utils_copyToNewBlock bs ?i) (DataNodeStore_load_block bs L)) r (node_of (reroot j t))
      (\<lambda>r'. supplied r' \<and> fst r' = ids \<and> heap_of r' = (heap_of s)(j \<mapsto> v))"
    if r: "supplied r" "fst r = fst s" "heap_of r = heap_of s" for r
    unfolding utils_copyToNewBlock_def ebind_assoc
  proof (rule yields_ebind [OF Block_data_ok [OF r(1)]])
    show "heap_of r ?i = Some v" using r(3) assms(3) by simp
    fix r' assume r': "supplied r' \<and> fst r' = fst r \<and> heap_of r' = heap_of r"
    show "yields (ebind (Block_create bs v) (DataNodeStore_load_block bs L)) r' (node_of (reroot j t))
        (\<lambda>r'. supplied r' \<and> fst r' = ids \<and> heap_of r' = (heap_of s)(j \<mapsto> v))"
      using create_ok [of r' j ids v "DataNodeStore_load_block bs L", OF _ _ len_v [OF vb] load_block_does [OF assms(4,5)]]
        r' r assms(2) by simp
  qed
  then show ?thesis
    unfolding DataNodeStore_createNewNodeAsCopyFrom_def
    by (intro yields_ebind [OF doesD [OF layout_does [OF len_v [OF vb]] assms(1)]] yields_assert) (use assms(3) in auto)
qed

lemma fillWithZeroes_does:
  "length w = blocksizeBytes L \<Longrightarrow> does (at i w) (utils_fillWithZeroes bs i) () (\<lambda>h. h(i \<mapsto> zeroes (blocksizeBytes L)))"
  unfolding utils_fillWithZeroes_def
  by (rule does_read [OF Block_size_does], assumption, rule does_weaken [OF Block_write_does]) (auto simp: write_at_def)

lemma initialize_does:
  assumes "length w = blocksizeBytes L" and "0 < depth" and "depth < 2 ^ 8" and "0 < length is" and "length is \<le> maxChildrenPerInnerNode L"
  obtains w' where "inner_bytes L depth is w'"
    and "does (at i w) (DataInnerNode_InitializeNewNode bs i L depth is) (DataInnerNode i) (\<lambda>h. h(i \<mapsto> w'))"
proof -
  let ?v = "DataNodeView_serialize L DataNode_FORMAT_VERSION_HEADER (of_nat depth)
    (of_nat (length is)) (DataInnerNode_serializeChildren is)"
  have v: "inner_bytes L depth is ?v" by (rule inner_serialize [OF layout assms(2-5)])
  have fit: "length (DataInnerNode_serializeChildren is) \<le> maxBytesPerLeaf L"
    using assms(5) sizes(5) by (simp add: serializeChildren_eq)
  have len: "length ?v = blocksizeBytes L" by (rule length_node_serialize [OF layout fit])
  have junk: "DataNodeLayout_new (blocksizeBytes L) (uninitialised L) = Inr L"
    using layout by (simp add: DataNodeLayout_new_def node_simps layout_ok_def)
  have wr: "does (at i w) (DataNodeView_initialize bs i L DataNode_FORMAT_VERSION_HEADER (of_nat depth)
      (of_nat (length is)) (DataInnerNode_serializeChildren is)) () (\<lambda>h. h(i \<mapsto> ?v))"
    unfolding DataNodeView_initialize_def Let_def
    by (intro does_read [OF Block_size_does [OF assms(1)]] does_read [OF does_lift [OF junk]] does_read [OF does_assert]
          does_weaken [OF Block_write_does [OF assms(1)]])
      (use assms(1) len fit in \<open>auto simp: write_at_def maxBytesPerLeaf_def\<close>)
  have "does (at i w) (DataInnerNode_InitializeNewNode bs i L depth is) (DataInnerNode i) (\<lambda>h. h(i \<mapsto> ?v))"
    unfolding DataInnerNode_InitializeNewNode_def
    by (rule does_read [OF does_assert], use assms(4) in \<open>simp add: Suc_le_eq\<close>,
        rule does_ebind [OF wr, of "at i ?v" _ _ "\<lambda>h. h", OF inner_new_does [OF v]]) simp
  with v show thesis by (rule that)
qed

lemma convert_does:
  assumes "node_bytes L depth sz v" and "Suc depth < 2 ^ 8" and "length w = blocksizeBytes L" and "blockId child \<noteq> blockId node"
  obtains w' where "inner_bytes L (Suc depth) [blockId child] w'"
    and "does (\<lambda>h. h (blockId node) = Some w \<and> h (blockId child) = Some v) (DataNode_convertToNewInnerNode bs L node child)
      (DataInnerNode (blockId node)) (\<lambda>h. h(blockId node \<mapsto> w'))"
proof -
  let ?i = "blockId node" and ?c = "blockId child" and ?z = "zeroes (blocksizeBytes L)"
  let ?P = "\<lambda>z h. h ?i = Some z \<and> h ?c = Some v"
  obtain w' where w': "inner_bytes L (Suc depth) [?c] w'"
    "does (at ?i ?z) (DataInnerNode_InitializeNewNode bs ?i L (Suc depth) [?c]) (DataInnerNode ?i) (\<lambda>h. h(?i \<mapsto> w'))"
    by (rule initialize_does [of ?z "Suc depth" "[?c]" ?i]) (use assms(2) sizes(2) in auto)
  have fill: "does (?P w) (utils_fillWithZeroes bs ?i) () (\<lambda>h. h(?i \<mapsto> ?z))"
    by (rule does_pre [OF fillWithZeroes_does [OF assms(3)]]) simp
  have depth: "does (?P ?z) (DataNode_depth bs child) depth (\<lambda>h. h)"
    by (rule does_pre [OF depth_does [OF assms(1) refl]]) simp
  have init: "does (?P ?z) (DataInnerNode_InitializeNewNode bs ?i L (depth + 1) [?c]) (DataInnerNode ?i) (\<lambda>h. h(?i \<mapsto> w'))"
    using does_pre [OF w'(2), of "?P ?z"] by simp
  have "does (?P w) (DataNode_convertToNewInnerNode bs L node child) (DataInnerNode ?i) (\<lambda>h. (h(?i \<mapsto> ?z))(?i \<mapsto> w'))"
    unfolding DataNode_convertToNewInnerNode_def
    by (rule does_ebind [OF fill], rule does_read [OF depth], rule init) (use assms(4) in simp)
  then have "does (?P w) (DataNode_convertToNewInnerNode bs L node child) (DataInnerNode ?i) (\<lambda>h. h(?i \<mapsto> w'))" by simp
  with w'(1) show thesis by (rule that)
qed

lemma overwriteNode_does:
  assumes "node_value L depth t v" and "depth \<le> 10" and "length w = blocksizeBytes L"
  shows "does (\<lambda>h. h (blockId root) = Some w \<and> h (blockId source) = Some v) (DataNodeStore_overwriteNodeWith bs L root source)
      (node_of (reroot (blockId root) t)) (\<lambda>h. h(blockId root \<mapsto> v))"
proof -
  let ?P = "\<lambda>h. h (blockId root) = Some w \<and> h (blockId source) = Some v"
  obtain sz where "node_bytes L depth sz v" by (rule node_value_bytes [OF assms(1)])
  then have len: "length v = blocksizeBytes L" by (rule len_v)
  have wr: "does ?P (Block_write bs (blockId root) v 0) () (\<lambda>h. h(blockId root \<mapsto> v))"
    by (rule does_weaken [OF Block_write_does [OF assms(3)]]) (use assms(3) len in \<open>auto simp: write_at_def\<close>)
  have copy: "does ?P (utils_copyTo bs (blockId root) (blockId source)) () (\<lambda>h. h(blockId root \<mapsto> v))"
    unfolding utils_copyTo_def
    by (intro does_read [OF does_pre [OF Block_size_does [OF assms(3)]]] does_read [OF does_pre [OF Block_data_does]]
          does_read [OF does_assert]) (use len wr in auto)
  show ?thesis
    unfolding DataNodeStore_overwriteNodeWith_def
    by (intro does_read [OF does_pre [OF layout_does [OF assms(3)]]] does_read [OF does_pre [OF layout_does [OF len]]]
          does_read [OF does_assert] does_ebind [OF copy, of "at (blockId root) v" _ _ "\<lambda>h. h", OF load_block_does [OF assms(1,2)]])
      auto
qed

lemma turns_into:
  "supplied s \<Longrightarrow> turns s s' depth t t' \<Longrightarrow> turns s' s'' depth' t' t'' \<Longrightarrow> turns s s'' depth' t t''"
  by (auto simp: turns_def intro: evolves_trans)

lemma tree_value:
  assumes "tree_in s depth t"
  obtains v where "heap_of s (troot t) = Some v" and "node_value L depth t v" and "supplied s"
    and "\<forall>u\<in>set (branches t). holds L (heap_of s) (depth - 1) u" and "distinct (troot t # concat (map tids (branches t)))"
  using assms holds_branches [of L "heap_of s" depth t] tids_branches [of t] by (metis tree_in_def)

end

context tree_store
begin

section \<open>Growth by a level\<close>

lemma increase_ok:
  assumes "tree_in s depth t" and "depth < maxDepth" and "fst s = j # ids"
  shows "yields (LeafTraverser_increaseTreeDepth (traverser False) (node_of t)) (x, s) (DataInnerNode (troot t))
    (\<lambda>r. fst r = x \<and> fst (snd r) = ids \<and> turns s (snd r) (Suc depth) t (Br (troot t) [reroot j t]))"
proof -
  obtain v where v: "heap_of s (troot t) = Some v" "node_value L depth t v" "supplied s"
      "\<forall>u\<in>set (branches t). holds L (heap_of s) (depth - 1) u" "distinct (troot t # concat (map tids (branches t)))"
    by (rule tree_value [OF assms(1)])
  obtain sz where vb: "node_bytes L depth sz v" by (rule node_value_bytes [OF v(2)])
  have depth: "depth \<le> 10" "Suc depth < 2 ^ 8" using assms(2) maxDepth by simp_all
  have fresh: "heap_of s j = None" using v(3) assms(3) by (simp add: supplied_def)
  then have j: "j \<notin> set (tids t)" using assms(1) holds_ids [of L "heap_of s" depth t j] by (auto simp: tree_in_def)
  let ?t = "Br (troot t) [reroot j t]"
  obtain w where w: "inner_bytes L (Suc depth) [j] w"
    "does (\<lambda>h. h (troot t) = Some v \<and> h j = Some v) (DataNode_convertToNewInnerNode bs L (node_of t) (node_of (reroot j t)))
      (DataInnerNode (troot t)) (\<lambda>h. h(troot t \<mapsto> w))"
    by (rule convert_does [OF vb depth(2) len_v [OF vb], of "node_of (reroot j t)" "node_of t"]) (use v(1) fresh in auto)
  have turns: "turns s r (Suc depth) t ?t" if r: "supplied r" "fst r = ids" "heap_of r = (heap_of s)(j \<mapsto> v, troot t \<mapsto> w)" for r
  proof -
    have "holds L (heap_of r) (depth - 1) u" if "u \<in> set (branches t)" for u
    proof -
      have "k \<noteq> troot t \<and> k \<noteq> j" if "k \<in> set (tids u)" for k
        using v(5) j that \<open>u \<in> set (branches t)\<close> unfolding tids_branches [of t] by auto
      then have "holds L (heap_of r) (depth - 1) u = holds L (heap_of s) (depth - 1) u"
        using r(3) by (intro holds_cong) simp
      then show ?thesis using v(4) that by simp
    qed
    moreover have "troot t \<noteq> j" using v(1) fresh by auto
    ultimately have "holds L (heap_of r) depth (reroot j t)"
      unfolding holds_branches [of L "heap_of r" depth] using r(3) v(2) by simp
    then have "tree_in r (Suc depth) ?t"
      using r w(1) v(5) j by (auto simp: tree_in_def tids_branches [of "reroot j t"] tids_branches [of t])
    moreover have "set (tids ?t) = insert j (set (tids t))" by (auto simp: tids_branches [of "reroot j t"] tids_branches [of t])
    then have "evolves s r (set (tids t)) (set (tids ?t))"
      using r assms(3) by (auto simp: evolves_def)
    ultimately show ?thesis by (simp add: turns_def)
  qed
  have "yields (ebind (DataNodeStore_createNewNodeAsCopyFrom bs L (node_of t)) (DataNode_convertToNewInnerNode bs L (node_of t))) s
      (DataInnerNode (troot t)) (\<lambda>r. fst r = ids \<and> turns s r (Suc depth) t ?t)"
  proof (rule yields_ebind [OF copy_ok [OF v(3) assms(3) _ v(2) depth(1)]])
    fix r assume r: "supplied r \<and> fst r = ids \<and> heap_of r = (heap_of s)(j \<mapsto> v)"
    have "troot t \<noteq> j" using v(1) fresh by auto
    from doesD [OF w(2), of r] r v(1) this turns
    show "yields (DataNode_convertToNewInnerNode bs L (node_of t) (node_of (reroot j t))) r (DataInnerNode (troot t))
        (\<lambda>r. fst r = ids \<and> turns s r (Suc depth) t ?t)" by (auto elim!: yields_mono)
  qed (use v(1) in simp)
  then show ?thesis
    unfolding LeafTraverser_increaseTreeDepth_def not_readOnly_def
    by (auto simp: yields_def zoom_snd_def ebind_def split: prod.splits sum.splits)
qed

section \<open>Collapse of the root\<close>

lemma single_child:
  assumes "shape mc (Suc depth) n (Br i [t])"
  shows "shape mc depth n t"
proof -
  have "1 = cdiv n (mc ^ depth)" "shape mc depth (min (mc ^ depth) n) t" using assms by simp_all
  moreover from this have "n \<le> mc ^ depth" using cdiv_le_iff [of "mc ^ depth" n 1] mc_pos(3) by (metis mult_1 order_refl)
  ultimately show ?thesis by (simp add: min_absorb2)
qed

lemma remove_root:
  assumes "supplied s" and "evolves s s' (set (tids t)) B" and "heap_of s i \<noteq> None" and "i \<notin> set (tids t)"
    and "supplied s''" and "fst s'' = fst s'" and "heap_of s'' = (heap_of s')(i := None)"
  shows "evolves s s'' (insert i (set (tids t))) B"
proof -
  have "i \<notin> B" using evolves_outside [OF assms(1,2,4,3)] by simp
  then show ?thesis using assms(2,5-7) by (auto simp: evolves_def)
qed

lemma collapse_chain_ok:
  assumes "tree_in s depth t" and "shape mc depth n t" and "depth \<le> 10" and "depth < fuel"
  shows "returns (LeafTraverser_whileRootHasOnlyOneChildRemoveRootReturnChild fuel (traverser False) (troot t)) (x, s)
    (\<lambda>node r. \<exists>depth' u. node = node_of u \<and> fst r = x \<and> fst (snd r) = fst s \<and> depth' \<le> depth \<and> tree_in (snd r) depth' u \<and>
       shape mc depth' n u \<and> leaves u = leaves t \<and> proper u \<and> evolves s (snd r) (set (tids t)) (set (tids u)))"
  using assms
proof (induction depth arbitrary: s t fuel)
  case 0
  then obtain fuel' i d where f: "fuel = Suc fuel'" "t = Tip i d" by (cases fuel; cases t) (auto simp: tree_in_def)
  obtain v where v: "heap_of s i = Some v" "leaf_bytes L d v" "supplied s" using 0(1) by (auto simp: f tree_in_def)
  show ?case
    unfolding f LeafTraverser_whileRootHasOnlyOneChildRemoveRootReturnChild.simps not_readOnly_def tree.sel leaf_traverser.select_convs
  proof (rule returns_assert, simp, rule returns_does [OF load_leaf_does [OF v(2)]], goal_cases)
    case (3 s1)
    then have "turns s s1 0 t t" by (intro turns_same 0(1)) simp_all
    then show ?case using 0(2) 3 unfolding f by (auto simp: turns_def intro!: exI [of _ 0] exI [of _ "Tip i d"])
  qed (use v in simp_all)
next
  case (Suc depth)
  then obtain fuel' i ts where f: "fuel = Suc fuel'" "t = Br i ts" by (cases fuel; cases t) (auto simp: tree_in_def)
  obtain v where v: "heap_of s i = Some v" "inner_bytes L (Suc depth) (map troot ts) v" "supplied s"
    using inner_in [of s depth i ts] Suc.prems(1) by (metis f(2))
  show ?case
    unfolding f LeafTraverser_whileRootHasOnlyOneChildRemoveRootReturnChild.simps not_readOnly_def tree.sel leaf_traverser.select_convs
  proof (rule returns_assert, simp, rule returns_does [OF load_inner_does [OF v(2)]], use Suc.prems in simp, goal_cases)
    case (3 s1)
    then have s1: "supplied s1" "fst s1 = fst s" "heap_of s1 = heap_of s" by simp_all
    show ?case
      unfolding option.case data_node.case fst_conv
    proof (rule returns_does [OF numChildren_does [OF inner_node [OF v(2)]]], goal_cases)
      case (3 s2)
      then have s2: "supplied s2" "fst s2 = fst s" "heap_of s2 = heap_of s" using s1 by simp_all
      show ?case
      proof (cases "length ts = 1")
        case False
        have "turns s s2 (Suc depth) t t" by (intro turns_same Suc.prems(1) s2)
        then show ?thesis
          using False Suc.prems(2) s2 unfolding f
          by (auto simp: turns_def simp del: shape.simps intro!: exI [of _ "Suc depth"] exI [of _ "Br i ts"])
      next
        case True
        then obtain u where u: "ts = [u]" by (cases ts) auto
        have ch: "tree_in s depth u" "shape mc depth n u"
          using tree_in_child [of s depth i ts 0] Suc.prems(1,2) single_child [of depth n i u] by (simp_all add: f u del: shape.simps)
        show ?thesis
          unfolding if_P [OF True, folded length_map] length_map if_P [OF True]
        proof (rule returns_does [OF readChild_does [OF v(2), of 0]], goal_cases)
          case (4 s3)
          then have s3: "supplied s3" "fst s3 = fst s" "heap_of s3 = heap_of s" using s2 by simp_all
          then have "tree_in s3 depth u" using ch(1) by (simp add: tree_in_def)
          from Suc.IH [OF this ch(2)] Suc.prems f(1)
          have IH: "returns (LeafTraverser_whileRootHasOnlyOneChildRemoveRootReturnChild fuel' (traverser False) (troot u)) (x, s3)
            (\<lambda>node r. \<exists>depth' w. node = node_of w \<and> fst r = x \<and> fst (snd r) = fst s3 \<and> depth' \<le> depth \<and> tree_in (snd r) depth' w \<and>
               shape mc depth' n w \<and> leaves w = leaves u \<and> proper w \<and> evolves s3 (snd r) (set (tids u)) (set (tids w)))" by simp
          have i: "i \<notin> set (tids u)" "heap_of s3 i \<noteq> None" using Suc.prems(1) v(1) s3(3) by (auto simp: f u tree_in_def)
          show ?case
            unfolding u list.map nth_Cons_0 fst_conv
          proof (rule returns_ebind [OF IH], elim exE conjE, goal_cases)
            case (1 node r depth' w)
            have keep: "i \<notin> set (tids w)" "heap_of (snd r) i = heap_of s3 i"
              by (rule evolves_outside [OF s3(1) 1(9) i])+
            show ?case
            proof (rule returns_does [OF remove_does], goal_cases)
              case (3 s4)
              then have s4: "supplied s4" "fst s4 = fst (snd r)" "heap_of s4 = (heap_of (snd r))(i := None)" by simp_all
              have "holds L (heap_of s4) depth' w = holds L (heap_of (snd r)) depth' w"
                by (rule holds_cong) (use s4(3) keep(1) in auto)
              then have "tree_in s4 depth' w" using 1(5) s4(1) by (simp add: tree_in_def)
              moreover have "evolves s3 s4 (insert i (set (tids u))) (set (tids w))"
                by (rule remove_root [OF s3(1) 1(9) i(2,1) s4])
              then have "evolves s s4 (insert i (set (tids u))) (set (tids w))" using s3 by (simp add: evolves_def)
              ultimately show ?case
                using 1 s3(2) s4(2) by (auto intro!: exI [of _ depth'] exI [of _ w])
            qed (use 1(5) keep i in \<open>simp_all add: tree_in_def\<close>)
          qed
        qed (use v s2 u in simp_all)
      qed
    qed (use v s1 in simp_all)
  qed (use v in simp_all)
qed

text \<open>The node found takes the place of the root.\<close>

lemma take_root:
  assumes "tree_in s depth w" and "i \<notin> set (tids w)" and "node_value L depth w v" and "heap_of s (troot w) = Some v"
    and "supplied s'" and "fst s' = fst s" and "heap_of s' = (heap_of s)(i \<mapsto> v, troot w := None)"
  shows "tree_in s' depth (reroot i w)" and "evolves s s' (insert i (set (tids w))) (set (tids (reroot i w)))"
proof -
  obtain v' where w: "supplied s" "\<forall>u\<in>set (branches w). holds L (heap_of s) (depth - 1) u" "distinct (troot w # concat (map tids (branches w)))"
    by (rule tree_value [OF assms(1)])
  note ids = tids_branches [of w] tids_branches [of "reroot i w"]
  have "holds L (heap_of s') (depth - 1) u" if u: "u \<in> set (branches w)" for u
  proof -
    have "k \<noteq> troot w \<and> k \<noteq> i" if "k \<in> set (tids u)" for k
      using w(3) assms(2) that u unfolding ids by auto
    then have "holds L (heap_of s') (depth - 1) u = holds L (heap_of s) (depth - 1) u"
      using assms(7) by (intro holds_cong) simp
    then show ?thesis using w(2) u by simp
  qed
  moreover have "heap_of s' i = Some v" using assms(2,7) by (auto simp: ids)
  ultimately have "holds L (heap_of s') depth (reroot i w)"
    using assms(3) holds_branches [of L "heap_of s'" depth "reroot i w"] by simp
  moreover have "distinct (tids (reroot i w))" using w(3) assms(2) by (auto simp: ids)
  ultimately show "tree_in s' depth (reroot i w)" using assms(5) by (simp add: tree_in_def)
  show "evolves s s' (insert i (set (tids w))) (set (tids (reroot i w)))"
    using assms(5-7) by (auto simp: evolves_def ids)
qed

lemma replaceRoot_ok:
  assumes tr: "tree_in s depth t" and sh: "shape mc depth n t" and depth: "depth \<le> 10" and ro: "ro \<longrightarrow> proper t"
  shows "returns (LeafTraverser_whileRootHasOnlyOneChildReplaceRootWithItsChild 256 (traverser ro) (node_of t)) (x, s)
    (\<lambda>node r. \<exists>depth' t'. node = node_of t' \<and> fst r = x \<and> fst (snd r) = fst s \<and> depth' \<le> depth \<and>
       turns s (snd r) depth' t t' \<and> shape mc depth' n t' \<and> leaves t' = leaves t \<and> proper t')"
proof (cases t)
  case (Tip i d)
  then show ?thesis
    using turns_refl [OF tr] sh
    by (auto simp: LeafTraverser_whileRootHasOnlyOneChildReplaceRootWithItsChild_def intro!: exI [of _ depth] exI [of _ t])
next
  case (Br i ts)
  then obtain dep where dep: "depth = Suc dep" using tr by (cases depth) (auto simp: tree_in_def)
  obtain v where v: "heap_of s i = Some v" "inner_bytes L (Suc dep) (map troot ts) v" "supplied s"
    using inner_in [of s dep i ts] tr unfolding Br dep by metis
  show ?thesis
    unfolding Br node_of.simps LeafTraverser_whileRootHasOnlyOneChildReplaceRootWithItsChild_def data_node.case leaf_traverser.select_convs
  proof (rule returns_does [OF numChildren_does [OF inner_node [OF v(2)]]], goal_cases)
    case (3 s1)
    then have s1: "supplied s1" "fst s1 = fst s" "heap_of s1 = heap_of s" by simp_all
    show ?case
    proof (cases "length ts = 1")
      case False
      have "turns s s1 depth t t" by (rule turns_same [OF tr s1])
      then show ?thesis
        using False s1 sh Br by (auto simp del: shape.simps intro!: exI [of _ depth] exI [of _ "Br i ts"])
    next
      case True
      then obtain u where u: "ts = [u]" by (cases ts) auto
      have ro: "\<not> ro" using ro True Br by simp
      have ch: "tree_in s dep u" "shape mc dep n u"
        using tree_in_child [of s dep i ts 0] tr sh single_child [of dep n i u] by (simp_all add: Br dep u del: shape.simps)
      show ?thesis
        unfolding length_map if_P [OF True] not_readOnly_def leaf_traverser.select_convs fst_conv
      proof (rule returns_assert [OF ro], rule returns_does [OF readChild_does [OF v(2), of 0]], goal_cases)
        case (4 s2)
        then have s2: "supplied s2" "fst s2 = fst s" "heap_of s2 = heap_of s" using s1 by simp_all
        have ch2: "tree_in s2 dep u" using ch(1) s2 by (simp add: tree_in_def)
        have i: "i \<notin> set (tids u)" "heap_of s2 i \<noteq> None" "heap_of s2 i = Some v" using tr v(1) s2(3) by (auto simp: Br dep u tree_in_def)
        have ro': "ro = False" using ro by simp
        have "dep \<le> 10" "dep < 256" using depth dep by simp_all
        note IH = collapse_chain_ok [OF ch2 ch(2) this, of x]
        show ?case
          unfolding u list.map nth_Cons_0 fst_conv ro'
        proof (rule returns_ebind [OF IH], elim exE conjE, goal_cases)
          case (1 node r depth' w)
          have keep: "i \<notin> set (tids w)" "heap_of (snd r) i = Some v"
            using evolves_outside [OF s2(1) 1(9) i(1,2)] i(3) by simp_all
          obtain vw where vw: "heap_of (snd r) (troot w) = Some vw" "node_value L depth' w vw" "supplied (snd r)"
            by (rule tree_value [OF 1(5)])
          have len: "length v = blocksizeBytes L" using inner_node [OF v(2)] by (rule len_v)
          have d10: "depth' \<le> 10" using 1(4) dep depth by simp
          have ne: "troot w \<noteq> i" using keep(1) by (metis troot_in_tids)
          show ?case
            unfolding 1(1)
          proof (rule returns_does [OF overwriteNode_does [OF vw(2) d10 len]], goal_cases)
            case (3 s3)
            then show ?case
            proof (intro returns_does [OF remove_does], goal_cases)
              case (3 s4)
              then have s4: "supplied s4" "fst s4 = fst (snd r)" "heap_of s4 = (heap_of (snd r))(i \<mapsto> vw, troot w := None)" by simp_all
              note root = take_root [OF 1(5) keep(1) vw(2,1) s4]
              have "evolves s2 (snd r) (insert i (set (tids u))) (insert i (set (tids w)))"
                using evolves_frame [OF 1(9), of "{i}"] by simp
              from evolves_trans [OF s2(1) this root(2)] have "evolves s s4 (insert i (set (tids u))) (set (tids (reroot i w)))"
                using s2 by (simp add: evolves_def)
              then have "turns s s4 depth' (Br i [u]) (reroot i w)" using root(1) by (simp add: turns_def)
              then show ?case
                using 1 s4(2) s2(2) dep by (auto intro!: exI [of _ depth'] exI [of _ "reroot i w"])
            qed (use vw ne in simp_all)
          qed (use vw keep in simp_all)
        qed
      qed (use v s1 u in simp_all)
    qed
  qed (use v in simp_all)
qed

section \<open>Traversal from the root\<close>

lemma traverse_existing: "traverses ro depth (LeafTraverser_traverseExistingSubtree depth (traverser ro))"
proof (induction depth)
  case 0
  show ?case by (rule traverse_leaf)
next
  case (Suc depth)
  show ?case
  proof (rule traversesI, goal_cases)
    case (1 x s t n b e off left right grow cb I Z Y F trim newNum)
    then obtain i ts where t: "t = Br i ts" by (cases t) (auto simp: tree_in_def)
    obtain v where v: "heap_of s i = Some v" "inner_bytes L (Suc depth) (map troot ts) v" "supplied s"
      using inner_in [of s depth i ts] 1(1) unfolding t by metis
    have d10: "Suc depth \<le> 10" using 1(3) maxDepth by (simp add: range_ok_def)
    show ?case
      unfolding t LeafTraverser_traverseExistingSubtree.simps tree.sel leaf_traverser.select_convs
    proof (rule returns_does [OF load_inner_does [OF v(2) d10]], goal_cases)
      case (3 s1)
      then show ?case
      proof (simp only: option.case data_node.case returns_ebind_ret fst_conv snd_conv,
          intro returns_does [OF depth_does [OF inner_node [OF v(2)] data_node.sel(2)]] returns_assert, goal_cases)
        case (4 s2)
        then have s2: "supplied s2" "fst s2 = fst s" "heap_of s2 = heap_of s" by simp_all
        have tr: "tree_in s2 (Suc depth) (Br i ts)" using 1(1) s2 by (simp add: tree_in_def t)
        have "returns (LeafTraverser_traverseInner depth (LeafTraverser_traverseExistingSubtree depth (traverser ro)) (traverser ro)
            (troot (Br i ts)) b e off left right grow cb) (x, s2) (\<lambda>_ r. \<exists>t'. turns s2 (snd r) (Suc depth) (Br i ts) t' \<and>
           shape mc (Suc depth) (leaves_after trim n b e) t' \<and>
           leaves t' = map (new_leaf mb n b e grow (leaves (Br i ts)) (\<lambda>k. Y (off + k))) [0..<leaves_after trim n b e] \<and>
           I (off + e) (fst r) \<and> length (fst s2) \<le> length (fst (snd r)) + (max n e - n) * Suc depth)"
          by (rule traversesD [OF traverse_inner [OF Suc] tr 1(2) [unfolded t] 1(3) 1(4) [unfolded t] 1(5) 1(6) [unfolded t] 1(7)])
            (use 1(8) s2(2) in simp_all)
        then show ?case
          using turns_into [OF v(3) turns_same [OF 1(1) s2]] unfolding t tree.sel fst_conv
          by (elim returns_mono) (use s2(2) in force)
      qed (use v in simp_all)
    qed (use v in simp_all)
  qed
qed

text \<open>
  One pass over the tree from its root, without or before the growth of the tree: it visits the part of
  the range that fits into the depth, and fills the tree up if the range goes on behind it.
\<close>

definition pass_ok ::
  "bool \<Rightarrow> nat \<Rightarrow> nat \<Rightarrow> tree \<Rightarrow> nat \<Rightarrow> nat \<Rightarrow> ('x, 's) tr_callbacks \<Rightarrow> (nat \<Rightarrow> 'x \<Rightarrow> bool) \<Rightarrow> (nat \<Rightarrow> data) \<Rightarrow> bool \<Rightarrow> nat \<Rightarrow> bool" where
  "pass_ok ro depth n t b e cb I Y trim newNum \<longleftrightarrow> shape mc depth n t \<and> depth \<le> maxDepth \<and> b < e \<and> e \<le> mc ^ maxDepth \<and>
     (\<exists>Z F. callbacks_ok cb I Z Y F b n e trim newNum \<and>
        (\<forall>k. b \<le> k \<longrightarrow> k < e \<longrightarrow> k < n \<longrightarrow> Z k = old_leaf mb n e False (leaves t) k \<and> F k = (Suc k = n \<and> e = n))) \<and>
     (\<forall>k. b \<le> k \<longrightarrow> Suc k < e \<longrightarrow> length (Y k) = mb) \<and>
     (trim \<longrightarrow> e = newNum \<and> e = Suc b) \<and> (ro \<longrightarrow> e \<le> n \<and> \<not> trim \<and> proper t)"

lemma callbacks_empty: "e \<le> b \<Longrightarrow> callbacks_ok cb I Z Y F b n e trim newNum"
  by (auto simp: callbacks_ok_def visits_def creates_def)

lemma callbacks_shrink:
  assumes "callbacks_ok cb I Z Y F b n e trim newNum" and "n \<le> M" and "b < M"
  shows "callbacks_ok cb I Z Y F b n (min e M) trim newNum"
  using assms visits_shift [of "onExistingLeaf cb" I Z Y F b "min e n" b "min (min e M) n"]
    creates_shift [of "onCreateLeaf cb" I Y "max b n" e "max b n" "min e M"]
  by (auto simp: callbacks_ok_def)

lemma root_leaf_pass:
  assumes tr: "tree_in s 0 (Tip i d)" and ok: "pass_ok ro 0 1 (Tip i d) b e cb I Y trim newNum" and Ix: "I b x"
  shows "returns (ebind (zoom_snd (DataLeafNode_numBytes bs i)) (\<lambda>n.
      ebind (if e > 1 \<and> n \<noteq> mb then zoom_snd (DataLeafNode_resize bs (uninitialised L) i mb) else ret ()) (\<lambda>_.
      if b = 0 \<and> e \<ge> 1 then onExistingLeaf cb 0 (e = 1) (LeafHandle_new_node i) else ret ()))) (x, s)
    (\<lambda>_ r. turns s (snd r) 0 (Tip i d) (Tip i (new_leaf mb 1 b e False [d] Y 0)) \<and> I (max b 1) (fst r) \<and> fst (snd r) = fst s)"
proof -
  define d' where "d' = (if e > 1 then resized mb d else d)"
  obtain v where v: "heap_of s i = Some v" "leaf_bytes L d v" "supplied s" using tr by (auto simp: tree_in_def)
  obtain w where w: "leaf_bytes L (resized mb d) w"
    "\<And>i. does (at i v) (DataLeafNode_resize bs (uninitialised L) i mb) () (\<lambda>h. h(i \<mapsto> w))"
    using leaf_resize_does [OF v(2) order_refl, of "uninitialised L"] by auto
  obtain Z F where ZF: "visits (onExistingLeaf cb) I Z Y F b (min e 1)"
      "\<forall>k. b \<le> k \<longrightarrow> k < e \<longrightarrow> k < 1 \<longrightarrow> Z k = old_leaf mb 1 e False [d] k \<and> F k = (Suc k = 1 \<and> e = 1)"
    using ok unfolding pass_ok_def callbacks_ok_def leaves.simps by blast
  have be: "b < e" using ok by (simp add: pass_ok_def)
  have visit: "returns (if b = 0 \<and> e \<ge> 1 then onExistingLeaf cb 0 (e = 1) (LeafHandle_new_node i) else ret ()) r
      (\<lambda>_ r. turns s (snd r) 0 (Tip i d) (Tip i (new_leaf mb 1 b e False [d] Y 0)) \<and> I (max b 1) (fst r) \<and> fst (snd r) = fst s)"
    if r: "turns s (snd r) 0 (Tip i d) (Tip i d')" "fst r = x" "fst (snd r) = fst s" for r
  proof (cases "b = 0")
    case True
    have Z: "Z 0 = d'" "F 0 = (e = 1)" using ZF(2) [rule_format, of 0] True be by (simp_all add: old_leaf_def d'_def)
    have h: "lh_blockId (LeafHandle_new_node i) = i" by (simp add: LeafHandle_new_node_def)
    have "returns (onExistingLeaf cb 0 (F 0) (LeafHandle_new_node i)) (fst r, snd r) (\<lambda>_ t. I (Suc 0) (fst t) \<and> fst (snd t) = fst (snd r) \<and>
        turns (snd r) (snd t) 0 (Tip i (Z 0)) (Tip i (Y 0)))"
      using visitsD [OF ZF(1), of 0 "fst r" "snd r" "LeafHandle_new_node i"] True be Ix r turns_in [OF r(1)] by (simp add: h Z)
    then show ?thesis
      using True be r turns_into [OF v(3) r(1)] by (auto elim!: returns_mono simp: Z new_leaf_def)
  next
    case False
    then show ?thesis using r Ix be by (simp add: new_leaf_def old_leaf_def d'_def max_absorb1)
  qed
  show ?thesis
  proof (rule returns_does [OF numBytes_does [OF leaf_node [OF v(2)]]], goal_cases)
    case (3 s1)
    then have s1: "supplied s1" "fst s1 = fst s" "heap_of s1 = heap_of s" by simp_all
    show ?case
    proof (cases "e > 1 \<and> length d \<noteq> mb")
      case True
      show ?thesis
        unfolding if_P [OF True]
      proof (rule returns_does [OF w(2)], goal_cases)
        case (3 s2)
        then have "turns s s2 0 (Tip i d) (Tip i d')"
          using turns_tip [OF tr _ _ _ w(1), of s2] s1 True by (simp add: d'_def)
        then show ?case using 3 s1 by (intro visit) simp_all
      qed (use s1 v in simp_all)
    next
      case False
      then have "d' = d" by (auto simp: d'_def resized_full)
      then have "turns s s1 0 (Tip i d) (Tip i d')" using turns_same [OF tr s1] by simp
      then show ?thesis unfolding if_not_P [OF False] returns_ebind_ret using s1 by (intro visit) simp_all
    qed
  qed (use v in simp_all)
qed

lemma root_pass:
  assumes tr: "tree_in s depth t" and ok: "pass_ok ro depth n t b e cb I Y trim newNum" and lf: "left_ok left depth n b t"
    and Ix: "I b x" and room: "(max n (min e (mc ^ depth)) - n) * depth \<le> length (fst s)"
  shows "returns (case depth of
        0 \<Rightarrow> (case node_of t of
            DataInnerNode i \<Rightarrow> throw (AssertFailed msg)
          | DataLeafNode leaf \<Rightarrow>
              ebind (zoom_snd (DataLeafNode_numBytes bs leaf)) (\<lambda>n.
              ebind (if mc ^ depth < e \<and> n \<noteq> mb then zoom_snd (DataLeafNode_resize bs (uninitialised L) leaf mb) else ret ()) (\<lambda>_.
              if b = 0 \<and> e \<ge> 1 then onExistingLeaf cb 0 (e = 1) (LeafHandle_new_node leaf) else ret ())))
      | Suc childDepth \<Rightarrow> (case node_of t of
            DataLeafNode i \<Rightarrow> throw (AssertFailed msg')
          | DataInnerNode inner \<Rightarrow>
              LeafTraverser_traverseInner childDepth (LeafTraverser_traverseExistingSubtree childDepth (traverser ro)) (traverser ro) inner
                (min b (mc ^ depth)) (min e (mc ^ depth)) 0 left (\<not> mc ^ depth < e) (mc ^ depth < e) cb)) (x, s)
    (\<lambda>_ r. \<exists>t'. turns s (snd r) depth t t' \<and> shape mc depth (leaves_after trim n b (min e (mc ^ depth))) t' \<and>
       leaves t' = map (new_leaf mb n b e False (leaves t) Y) [0..<leaves_after trim n b (min e (mc ^ depth))] \<and>
       I (max b (min e (mc ^ depth))) (fst r) \<and>
       length (fst s) \<le> length (fst (snd r)) + (max n (min e (mc ^ depth)) - n) * depth)"
proof (cases t)
  case (Tip i d)
  then have [simp]: "depth = 0" "n = 1" using tr ok by (cases depth; auto simp: tree_in_def pass_ok_def)+
  have be: "b < e" using ok by (simp add: pass_ok_def)
  then have "leaves_after trim 1 b (min e 1) = 1" by (auto simp: leaves_after_def)
  moreover have "max b (min e 1) = max b 1" using be by auto
  moreover have "turns s s' 0 (Tip i d) (Tip i a) \<Longrightarrow> \<exists>t'. turns s s' 0 (Tip i d) t' \<and> shape mc 0 1 t' \<and> leaves t' = [a]" for s' a
    by (intro exI [of _ "Tip i a"]) simp
  ultimately show ?thesis
    using root_leaf_pass [OF tr [unfolded Tip \<open>depth = 0\<close>] ok [unfolded Tip \<open>depth = 0\<close> \<open>n = 1\<close>] Ix] unfolding Tip
    by (auto elim!: returns_mono)
next
  case (Br i ts)
  then obtain dep where dep: "depth = Suc dep" using tr by (cases depth) (auto simp: tree_in_def)
  let ?M = "mc ^ depth"
  let ?b = "min b ?M" and ?e = "min e ?M" and ?inc = "?M < e"
  have p: "shape mc depth n t" "depth \<le> maxDepth" "b < e" "e \<le> mc ^ maxDepth" "trim \<longrightarrow> e = newNum \<and> e = Suc b" "ro \<longrightarrow> e \<le> n \<and> \<not> trim"
    using ok unfolding pass_ok_def by blast+
  obtain Z F where cb: "callbacks_ok cb I Z Y F b n e trim newNum"
      and ZF: "\<forall>k. b \<le> k \<longrightarrow> k < e \<longrightarrow> k < n \<longrightarrow> Z k = old_leaf mb n e False (leaves t) k \<and> F k = (Suc k = n \<and> e = n)"
    using ok unfolding pass_ok_def by blast
  have n: "n \<le> ?M" "0 < n" using shape_le [OF _ p(1)] shape_pos [OF p(1)] by simp_all
  have M31: "?M \<le> 2 ^ 31" using leaves_bound [OF p(2)] .
  have rg: "range_ok ro depth n ?b ?e 0 ?inc trim newNum"
    using p n M31 by (auto simp: range_ok_def)
  define J where "J = (if b < ?M then I else (\<lambda>_. I b))"
  have cb': "callbacks_ok cb J Z Y F (0 + ?b) (0 + n) (0 + ?e) trim newNum"
  proof (cases "b < ?M")
    case True
    then show ?thesis using callbacks_shrink [OF cb n(1) True] by (simp add: J_def)
  next
    case False
    then show ?thesis by (intro callbacks_empty) simp
  qed
  have lf': "left_ok left depth n ?b t" using lf n by (auto simp: left_ok_def)
  have after: "leaves_after trim n ?b ?e = leaves_after trim n b ?e" by (auto simp: leaves_after_def)
  have tgt: "new_leaf mb n ?b ?e ?inc (leaves t) Y k = new_leaf mb n b e False (leaves t) Y k" if "k < ?M" for k
    using that n by (auto simp: new_leaf_def old_leaf_def)
  have "returns (LeafTraverser_traverseInner dep (LeafTraverser_traverseExistingSubtree dep (traverser ro)) (traverser ro) (troot t)
      ?b ?e 0 left (\<not> ?inc) ?inc cb) (x, s) (\<lambda>_ r. \<exists>t'. turns s (snd r) depth t t' \<and>
       shape mc depth (leaves_after trim n ?b ?e) t' \<and>
       leaves t' = map (new_leaf mb n ?b ?e ?inc (leaves t) (\<lambda>k. Y (0 + k))) [0..<leaves_after trim n ?b ?e] \<and>
       J (0 + ?e) (fst r) \<and> length (fst s) \<le> length (fst (snd r)) + (max n ?e - n) * depth)"
    unfolding dep
  proof (rule traversesD [OF traverse_inner [OF traverse_existing] _ _ rg [unfolded dep] lf' [unfolded dep] cb' [unfolded dep]])
    show "Z (0 + k) = old_leaf mb n (min e (mc ^ Suc dep)) (mc ^ Suc dep < e) (leaves t) k \<and>
        F (0 + k) = (\<not> mc ^ Suc dep < e \<and> Suc k = n \<and> min e (mc ^ Suc dep) = n)"
      if "min b (mc ^ Suc dep) \<le> k" "k < min e (mc ^ Suc dep)" "k < n" for k
      using ZF [rule_format, of k] that n(1) by (auto simp: old_leaf_def dep)
    show "J (0 + min b (mc ^ Suc dep)) x" using Ix by (auto simp: J_def dep)
  qed (use tr p(1) room in \<open>simp_all add: dep\<close>)
  moreover have "J ?e y \<Longrightarrow> I (max b ?e) y" for y using p(3) by (auto simp: J_def max_def split: if_splits)
  moreover have "leaves_after trim n b ?e \<le> ?M" using n by (auto simp: leaves_after_def)
  then have "map (new_leaf mb n ?b ?e ?inc (leaves t) Y) [0..<leaves_after trim n b ?e] =
      map (new_leaf mb n b e False (leaves t) Y) [0..<leaves_after trim n b ?e]" using tgt by simp
  ultimately show ?thesis
    unfolding after using Br by (auto simp: dep elim!: returns_mono simp del: power_Suc)
qed

text \<open>The passes together, with the growth of the tree in between and the collapse at the end.\<close>

definition room_for :: "nat \<Rightarrow> nat \<Rightarrow> nat \<Rightarrow> nat" where
  "room_for depth n e = (if n < e then (e - n) * Suc maxDepth + (maxDepth - depth) else 0)"

lemma room_step:
  assumes "n \<le> M" and "M < e" and "depth < maxDepth"
  shows "room_for depth n e = (M - n) * Suc maxDepth + Suc (room_for (Suc depth) M e)"
proof -
  have "e - n = (M - n) + (e - M)" "n < e" using assms(1,2) by simp_all
  then have "(e - n) * Suc maxDepth = (M - n) * Suc maxDepth + (e - M) * Suc maxDepth"
    by (simp only: add_mult_distrib)
  then show ?thesis
    unfolding room_for_def if_P [OF \<open>n < e\<close>] if_P [OF assms(2)] using assms(3) by linarith
qed

lemma room_for_pass:
  assumes "depth \<le> maxDepth"
  shows "(max n e - n) * depth \<le> room_for depth n e" and "(max n (min e M) - n) * depth \<le> room_for depth n e"
proof -
  have le: "(e - n) * depth \<le> (e - n) * Suc maxDepth" using assms by (intro mult_le_mono2) simp
  show *: "(max n e - n) * depth \<le> room_for depth n e"
  proof (cases "n < e")
    case True
    then show ?thesis using le unfolding room_for_def by (simp only: max_absorb2 less_imp_le if_True)
  qed (simp add: room_for_def max_absorb1)
  have "(max n (min e M) - n) * depth \<le> (max n e - n) * depth" by (intro mult_le_mono1) auto
  with * show "(max n (min e M) - n) * depth \<le> room_for depth n e" by linarith
qed

lemma full_root:
  assumes "length (last (leaves t)) = mb" and "shape mc depth (mc ^ depth) t"
  shows "shape mc (Suc depth) (mc ^ depth) (Br i [reroot j t])" and "leaves (Br i [reroot j t]) = leaves t"
    and "left_ok left (Suc depth) (mc ^ depth) b (Br i [reroot j t])"
proof -
  have "mc ^ depth \<le> mc ^ Suc depth" using mc_pos(1) by (intro power_increasing) (auto simp: Suc_le_eq simp del: mc_pos)
  then show "shape mc (Suc depth) (mc ^ depth) (Br i [reroot j t])"
    using assms(2) cdiv_mult [of "mc ^ depth" 1] by simp
  show "leaves (Br i [reroot j t]) = leaves t" by simp
  then show "left_ok left (Suc depth) (mc ^ depth) b (Br i [reroot j t])"
    using assms(1) by (simp add: left_ok_def)
qed

lemma proper_shape: "shape mc depth n t \<Longrightarrow> shape mc depth n t' \<Longrightarrow> proper t \<longleftrightarrow> proper t'"
  by (cases depth; cases t; cases t') auto

text \<open>The growth of a complete tree leaves a range that lies behind it.\<close>

lemma pass_ok_grown:
  assumes ok: "pass_ok False depth n t b e cb I Y trim newNum" and M: "mc ^ depth < e" and sh: "shape mc (Suc depth) (mc ^ depth) t'"
  shows "pass_ok False (Suc depth) (mc ^ depth) t' (max b (mc ^ depth)) e cb I Y trim newNum"
proof -
  let ?M = "mc ^ depth"
  have p: "shape mc depth n t" "depth \<le> maxDepth" "b < e" "e \<le> mc ^ maxDepth" "trim \<longrightarrow> e = newNum \<and> e = Suc b"
    "\<forall>k. b \<le> k \<longrightarrow> Suc k < e \<longrightarrow> length (Y k) = mb"
    using ok unfolding pass_ok_def by blast+
  obtain Z F where cb: "callbacks_ok cb I Z Y F b n e trim newNum" using ok unfolding pass_ok_def by blast
  have n: "n \<le> ?M" using shape_le [OF _ p(1)] by simp
  have "depth \<noteq> maxDepth" using M p(4) by auto
  then have "Suc depth \<le> maxDepth" using p(2) by simp
  moreover have "callbacks_ok cb I Z Y F (max b ?M) ?M e trim newNum"
    using cb n p(3) creates_shift [of "onCreateLeaf cb" I Y "max b n" e "max (max b ?M) ?M" e]
    by (auto simp: callbacks_ok_def visits_def)
  moreover have "trim \<longrightarrow> e = newNum \<and> e = Suc (max b ?M)" using p(5) M by auto
  ultimately show ?thesis
    unfolding pass_ok_def using sh p(3,4,6) M by (auto intro!: exI [of _ Z] exI [of _ F] simp del: shape.simps)
qed

lemma target_grown:
  assumes n: "n \<le> M" and M: "M < e" and full: "\<forall>k. b \<le> k \<longrightarrow> Suc k < e \<longrightarrow> length (Y k) = mb"
    and xs: "xs = map (new_leaf mb n b e False ys Y) [0..<M]" and "0 < M"
  shows "length (last xs) = mb" and "new_leaf mb M (max b M) e False xs Y k = new_leaf mb n b e False ys Y k"
proof -
  have len: "length (new_leaf mb n b e False ys Y (M - 1)) = mb"
    using full M n \<open>0 < M\<close> by (auto simp: new_leaf_def old_leaf_def)
  with \<open>0 < M\<close> show "length (last xs) = mb" by (simp add: xs last_map)
  show "new_leaf mb M (max b M) e False xs Y k = new_leaf mb n b e False ys Y k"
  proof (cases "k < M")
    case True
    then have "old_leaf mb M e False xs k = new_leaf mb n b e False ys Y k"
      using len by (auto simp: old_leaf_def xs resized_full)
    with True show ?thesis by (simp add: new_leaf_def [of mb M])
  next
    case False
    then show ?thesis using n by (auto simp: new_leaf_def)
  qed
qed

lemma rounds_ok:
  assumes "tree_in s depth t" and "pass_ok ro depth n t b e cb I Y trim newNum" and "left_ok left depth n b t"
    and "I b x" and "room_for depth n e \<le> length (fst s)" and "maxDepth < fuel + depth"
  shows "returns (LeafTraverser_traverseAndUpdateRoot_rounds fuel (traverser ro) (node_of t) b e left cb) (x, s)
    (\<lambda>node r. \<exists>depth' t'. node = node_of t' \<and> depth' \<le> maxDepth \<and> turns s (snd r) depth' t t' \<and>
       shape mc depth' (leaves_after trim n b e) t' \<and> proper t' \<and>
       leaves t' = map (new_leaf mb n b e False (leaves t) Y) [0..<leaves_after trim n b e] \<and>
       I e (fst r) \<and> length (fst s) \<le> length (fst (snd r)) + room_for depth n e)"
  using assms
proof (induction fuel arbitrary: s depth t n b x left)
  case 0
  then show ?case by (simp add: pass_ok_def)
next
  case (Suc fuel)
  let ?M = "mc ^ depth"
  have p: "shape mc depth n t" "depth \<le> maxDepth" "b < e" "e \<le> mc ^ maxDepth" "trim \<longrightarrow> e = newNum \<and> e = Suc b"
    "ro \<longrightarrow> e \<le> n \<and> \<not> trim \<and> proper t" "\<forall>k. b \<le> k \<longrightarrow> Suc k < e \<longrightarrow> length (Y k) = mb"
    using Suc.prems(2) unfolding pass_ok_def by blast+
  obtain Z F where cb: "callbacks_ok cb I Z Y F b n e trim newNum" using Suc.prems(2) unfolding pass_ok_def by blast
  have n: "n \<le> ?M" "0 < n" using shape_le [OF _ p(1)] shape_pos [OF p(1)] by simp_all
  have maxLeaves: "LeafTraverser_maxLeavesForTreeDepth (traverser ro) depth = ?M" by (rule maxLeaves_eq [OF p(2)])
  obtain v where v: "heap_of s (troot t) = Some v" "node_value L depth t v" "supplied s" by (rule tree_value [OF Suc.prems(1)])
  obtain sz where vb: "node_bytes L depth sz v" by (rule node_value_bytes [OF v(2)])
  have room: "(max n (min e ?M) - n) * depth \<le> length (fst s)"
    using room_for_pass(2) [OF p(2), of n e ?M] Suc.prems(5) by linarith
  show ?case
    unfolding LeafTraverser_traverseAndUpdateRoot_rounds.simps Let_def leaf_traverser.select_convs
  proof (rule returns_assert, use p(3) in simp, rule returns_does [OF depth_does [OF vb blockId_node_of]], goal_cases)
    case (3 s1)
    then have s1: "supplied s1" "fst s1 = fst s" "heap_of s1 = heap_of s" by simp_all
    have tr1: "tree_in s1 depth t" using Suc.prems(1) s1 by (simp add: tree_in_def)
    have t1: "turns s s1 depth t t" by (rule turns_same [OF Suc.prems(1) s1])
    have room1: "(max n (min e ?M) - n) * depth \<le> length (fst s1)" using room s1(2) by simp
    show ?case
      unfolding maxLeaves fst_conv
    proof (rule returns_assert, use p(6) n(1) in force,
        rule returns_ebind [OF root_pass [OF tr1 Suc.prems(2,3,4) room1]], elim exE conjE, goal_cases)
      case (1 u r t')
      have tt: "turns s (snd r) depth t t'" by (rule turns_into [OF v(3) t1 1(1)])
      have nt: "node_of t' = node_of t"
        using 1(1) Suc.prems(1) by (cases t; cases t'; cases depth) (auto simp: turns_def tree_in_def)
      show ?case
      proof (cases "?M < e")
        case False
        then have me: "min e ?M = e" by simp
        have pr: "ro \<longrightarrow> proper t'"
          using p(1,6) 1(2) proper_shape [of depth n t t'] unfolding me by (auto simp: leaves_after_def max_absorb1)
        have d10: "depth \<le> 10" using p(2) maxDepth by simp
        have "returns (LeafTraverser_whileRootHasOnlyOneChildReplaceRootWithItsChild 256 (traverser ro) (node_of t')) (fst r, snd r)
          (\<lambda>node r'. \<exists>depth' t''. node = node_of t'' \<and> fst r' = fst r \<and> fst (snd r') = fst (snd r) \<and> depth' \<le> depth \<and>
             turns (snd r) (snd r') depth' t' t'' \<and> shape mc depth' (leaves_after trim n b e) t'' \<and> leaves t'' = leaves t' \<and> proper t'')"
          by (rule replaceRoot_ok [OF turns_in [OF tt] 1(2) [unfolded me] d10 pr])
        then have collapsed: "returns (LeafTraverser_whileRootHasOnlyOneChildReplaceRootWithItsChild 256 (traverser ro) (node_of t)) r
          (\<lambda>node r'. \<exists>depth' t''. node = node_of t'' \<and> fst r' = fst r \<and> fst (snd r') = fst (snd r) \<and> depth' \<le> depth \<and>
             turns (snd r) (snd r') depth' t' t'' \<and> shape mc depth' (leaves_after trim n b e) t'' \<and> leaves t'' = leaves t' \<and> proper t'')"
          unfolding nt prod.collapse .
        have "(max n e - n) * depth \<le> room_for depth n e" by (rule room_for_pass [OF p(2)])
        then have used: "length (fst s) \<le> length (fst (snd r)) + room_for depth n e" using 1(5) s1(2) unfolding me by simp
        have Ie: "I e (fst r)" using 1(4) p(3) unfolding me by (simp add: max_absorb2)
        note lv = 1(3) [unfolded me]
        show ?thesis
          unfolding if_not_P [OF False]
        proof (rule returns_mono [OF collapsed], elim exE conjE, goal_cases)
          case (1 node r' depth' t'')
          have "turns s (snd r') depth' t t''" by (rule turns_into [OF v(3) tt 1(5)])
          then show ?case
            using 1 used Ie lv p(2) by (intro exI [of _ depth'] exI [of _ t'']) simp
        qed
      next
        case True
        then have me: "min e ?M = ?M" by simp
        have ro: "ro = False" using p(6) n(1) True by auto
        have N1: "leaves_after trim n b ?M = ?M" using p(5) n(1) True by (auto simp: leaves_after_def)
        have depth: "depth < maxDepth"
        proof (rule ccontr)
          assume "\<not> depth < maxDepth"
          then have "mc ^ maxDepth \<le> ?M" by (intro power_increasing) (use mc_pos(1) in \<open>auto simp: Suc_le_eq\<close>)
          with True p(4) show False by simp
        qed
        have lv: "leaves t' = map (new_leaf mb n b e False (leaves t) Y) [0..<?M]" using 1(3) unfolding me N1 .
        note tg = target_grown [OF n(1) True p(7) lv mc_pos(3)]
        have used: "length (fst s) \<le> length (fst (snd r)) + (?M - n) * Suc maxDepth"
        proof -
          have "length (fst s) \<le> length (fst (snd r)) + (?M - n) * depth" using 1(5) s1(2) n(1) unfolding me by (simp add: max_absorb2)
          moreover have "(?M - n) * depth \<le> (?M - n) * Suc maxDepth" using p(2) by (intro mult_le_mono2) simp
          ultimately show ?thesis by linarith
        qed
        note step = room_step [OF n(1) True depth]
        then have "fst (snd r) \<noteq> []" using used Suc.prems(5) by auto
        then obtain j ids where ids: "fst (snd r) = j # ids" by (cases "fst (snd r)") auto
        let ?t = "Br (troot t') [reroot j t']"
        have grow: "yields (LeafTraverser_increaseTreeDepth (traverser False) (node_of t')) (fst r, snd r) (DataInnerNode (troot t'))
            (\<lambda>r'. fst r' = fst r \<and> fst (snd r') = ids \<and> turns (snd r) (snd r') (Suc depth) t' ?t)"
          by (rule increase_ok [OF turns_in [OF tt] depth ids])
        have sh: "shape mc depth ?M t'" using 1(2) unfolding me N1 .
        note root = full_root [OF tg(1) sh]
        have ee: "leaves_after trim ?M (max b ?M) e = e" "leaves_after trim n b e = e"
          using True n(1) by (auto simp: leaves_after_def)
        show ?thesis
          unfolding if_P [OF True] ro nt [symmetric]
        proof (rule returns_yields_ebind [OF grow [unfolded prod.collapse]])
          fix r1 assume r1: "fst r1 = fst r \<and> fst (snd r1) = ids \<and> turns (snd r) (snd r1) (Suc depth) t' ?t"
          have t2: "turns s (snd r1) (Suc depth) t ?t" using turns_into [OF v(3) tt] r1 by blast
          have "returns (LeafTraverser_traverseAndUpdateRoot_rounds fuel (traverser False) (node_of ?t) (max b ?M) e False cb) (fst r1, snd r1)
            (\<lambda>node r'. \<exists>depth' t''. node = node_of t'' \<and> depth' \<le> maxDepth \<and> turns (snd r1) (snd r') depth' ?t t'' \<and>
               shape mc depth' (leaves_after trim ?M (max b ?M) e) t'' \<and> proper t'' \<and>
               leaves t'' = map (new_leaf mb ?M (max b ?M) e False (leaves ?t) Y) [0..<leaves_after trim ?M (max b ?M) e] \<and>
               I e (fst r') \<and> length (fst (snd r1)) \<le> length (fst (snd r')) + room_for (Suc depth) ?M e)"
          proof (rule Suc.IH [unfolded ro])
            show "pass_ok False (Suc depth) ?M ?t (max b ?M) e cb I Y trim newNum"
              by (rule pass_ok_grown [OF Suc.prems(2) [unfolded ro] True root(1)])
            show "I (max b ?M) (fst r1)" using 1(4) r1 unfolding me by simp
            show "room_for (Suc depth) ?M e \<le> length (fst (snd r1))" using step used Suc.prems(5) ids r1 by simp
          qed (use turns_in [OF t2] root(3) Suc.prems(6) in simp_all)
          moreover have "map (new_leaf mb ?M (max b ?M) e False (leaves ?t) Y) [0..<e] = map (new_leaf mb n b e False (leaves t) Y) [0..<e]"
            unfolding root(2) tg(2) ..
          ultimately show "returns (LeafTraverser_traverseAndUpdateRoot_rounds fuel (traverser False) (DataInnerNode (troot t')) (max b ?M) e False cb) r1
            (\<lambda>node r'. \<exists>depth' t''. node = node_of t'' \<and> depth' \<le> maxDepth \<and> turns s (snd r') depth' t t'' \<and>
               shape mc depth' (leaves_after trim n b e) t'' \<and> proper t'' \<and>
               leaves t'' = map (new_leaf mb n b e False (leaves t) Y) [0..<leaves_after trim n b e] \<and>
               I e (fst r') \<and> length (fst s) \<le> length (fst (snd r')) + room_for depth n e)"
            unfolding ee prod.collapse node_of.simps
            by (elim returns_mono) (use turns_into [OF v(3) t2] step used ids r1 in force)
        qed
      qed
    qed
  qed (use v in simp_all)
qed

end

end
