(* ===== verification/TreeRemoval.thy ===== *)
theory TreeRemoval
  imports TreeRoots
begin

text \<open>
  Removal: \<open>DataNodeStore::removeSubtree\<close> removes exactly the blocks of a tree, and the callback with which
  \<open>DataTree::resizeNumBytes\<close> trims the nodes on the right border keeps exactly the children that are needed.
\<close>

context tree_store
begin

section \<open>Subtrees\<close>

abbreviation without :: "heap \<Rightarrow> block_id set \<Rightarrow> heap" where
  "without h A \<equiv> h |` (- A)"

lemma holds_without:
  assumes "holds L h depth t" and "set (tids t) \<inter> A = {}"
  shows "holds L (without h A) depth t"
proof -
  have "holds L (without h A) depth t = holds L h depth t"
    by (rule holds_cong) (use assms(2) in \<open>auto simp: restrict_map_def disjoint_iff\<close>)
  then show ?thesis using assms(1) by simp
qed

lemma returns_step:
  assumes "does P m y U" and "supplied s" and "P (heap_of s)"
    and "\<And>s'. supplied s' \<Longrightarrow> fst s' = fst s \<Longrightarrow> heap_of s' = U (heap_of s) \<Longrightarrow> returns (f y) s' Q"
  shows "returns (ebind m f) s Q"
  using doesD [OF assms(1-3)] assms(4) by (auto intro: returns_yields_ebind)

lemma returns_last:
  assumes "does P m y U" and "supplied s" and "P (heap_of s)"
    and "\<And>s'. supplied s' \<Longrightarrow> fst s' = fst s \<Longrightarrow> heap_of s' = U (heap_of s) \<Longrightarrow> Q y s'"
  shows "returns m s Q"
  using doesD [OF assms(1-3)] assms(4) by (auto intro: returns_yields)

lemma remove_children_ok:
  assumes tr: "tree_in s (Suc depth) (Br i ts)"
    and child: "\<And>s t. t \<in> set ts \<Longrightarrow> tree_in s depth t \<Longrightarrow> returns (remove_child (troot t)) s
      (\<lambda>_ s'. supplied s' \<and> fst s' = fst s \<and> heap_of s' = without (heap_of s) (set (tids t)))"
  shows "returns (ebind (for_each (\<lambda>c. ebind (DataInnerNode_readChild bs i c) remove_child) [0..<length ts]) (\<lambda>_.
      DataNodeStore_remove bs i)) s
    (\<lambda>_ s'. supplied s' \<and> fst s' = fst s \<and> heap_of s' = without (heap_of s) (set (tids (Br i ts))))"
proof -
  obtain v where v: "heap_of s i = Some v" "inner_bytes L (Suc depth) (map troot ts) v" "supplied s" by (rule inner_in [OF tr])
  have dist: "i \<notin> set (concat (map tids ts))" "distinct (concat (map tids ts))" using tr by (simp_all add: tree_in_def)
  define gone where "gone j = set (concat (map tids (take j ts)))" for j
  define Inv where "Inv j s' \<longleftrightarrow> supplied s' \<and> fst s' = fst s \<and> heap_of s' = without (heap_of s) (gone j)" for j s'
  have i: "i \<notin> gone j" for j using dist(1) set_take_subset [of j ts] by (auto simp: gone_def)
  have "returns (for_each (\<lambda>c. ebind (DataInnerNode_readChild bs i c) remove_child) [0..<length ts]) s (\<lambda>_. Inv (length ts))"
  proof (rule returns_for_each)
    show "Inv 0 s" using v(3) by (simp add: Inv_def gone_def restrict_map_def)
    fix j s' assume j: "j < length ts" "Inv j s'"
    then have s': "supplied s'" "fst s' = fst s" "heap_of s' = without (heap_of s) (gone j)" by (simp_all add: Inv_def)
    have at: "heap_of s' i = Some v" using s'(3) v(1) i by simp
    have split: "take (Suc j) ts = take j ts @ [ts ! j]" by (rule take_Suc_conv_app_nth [OF j(1)])
    have "distinct (concat (map tids (take (Suc j) ts)))"
      using dist(2) by (metis append_take_drop_id concat_append distinct_append map_append)
    then have disj: "set (tids (ts ! j)) \<inter> gone j = {}" unfolding split gone_def by auto
    have child_in: "tree_in s' depth (ts ! j)"
      using tree_in_child [OF tr j(1)] s' holds_without [OF _ disj, of "heap_of s" depth] by (simp add: tree_in_def)
    have nth: "map troot ts ! j = troot (ts ! j)" using j(1) by simp
    show "returns (ebind (DataInnerNode_readChild bs i j) remove_child) s' (\<lambda>_. Inv (Suc j))"
    proof (rule returns_step [OF readChild_does [OF v(2), of j]], goal_cases)
      case (4 s'')
      then have "tree_in s'' depth (ts ! j)" using child_in by (simp add: tree_in_def)
      from child [OF _ this] show ?case
        unfolding nth
      proof (rule returns_mono)
        show "ts ! j \<in> set ts" using j(1) by simp
        fix x s3 assume "supplied s3 \<and> fst s3 = fst s'' \<and> heap_of s3 = without (heap_of s'') (set (tids (ts ! j)))"
        moreover have "gone (Suc j) = gone j \<union> set (tids (ts ! j))" unfolding gone_def split by auto
        ultimately show "Inv (Suc j) s3" using 4 s' by (auto simp: Inv_def restrict_map_def)
      qed
    qed (use j s' at in simp_all)
  qed simp
  then show ?thesis
  proof (rule returns_ebind)
    fix x s' assume inv: "Inv (length ts) s'"
    show "returns (DataNodeStore_remove bs i) s' (\<lambda>_ s'. supplied s' \<and> fst s' = fst s \<and> heap_of s' = without (heap_of s) (set (tids (Br i ts))))"
      by (rule returns_last [OF remove_does]) (use inv i [of "length ts"] v in \<open>auto simp: Inv_def gone_def restrict_map_def fun_eq_iff\<close>)
  qed
qed

lemma removeSubtree_at_ok:
  "tree_in s depth t \<Longrightarrow> depth \<le> 10 \<Longrightarrow> returns (DataNodeStore_removeSubtree_at depth bs L (troot t)) s
    (\<lambda>_ s'. supplied s' \<and> fst s' = fst s \<and> heap_of s' = without (heap_of s) (set (tids t)))"
proof (induction depth arbitrary: s t)
  case 0
  then obtain i d where t: "t = Tip i d" by (cases t) (auto simp: tree_in_def)
  show ?case
    unfolding t DataNodeStore_removeSubtree_at.simps tree.sel
    by (rule returns_last [OF remove_does]) (use 0(1) in \<open>auto simp: t tree_in_def restrict_map_def fun_eq_iff\<close>)
next
  case (Suc depth)
  then obtain i ts where t: "t = Br i ts" by (cases t) (auto simp: tree_in_def)
  obtain v where v: "heap_of s i = Some v" "inner_bytes L (Suc depth) (map troot ts) v" "supplied s"
    by (rule inner_in [OF Suc.prems(1) [unfolded t]])
  show ?case
    unfolding t DataNodeStore_removeSubtree_at.simps tree.sel
  proof (rule returns_step [OF load_inner_does [OF v(2) Suc.prems(2)]], goal_cases)
    case (3 s1)
    show ?case
    proof (rule returns_assert, simp, simp only: option.case data_node.case returns_ebind_ret,
        rule returns_step [OF depth_does [OF inner_node [OF v(2)] data_node.sel(2)]], goal_cases)
      case (3 s2)
      show ?case
      proof (rule returns_assert, simp, rule returns_step [OF numChildren_does [OF inner_node [OF v(2)]]], goal_cases)
        case (3 s3)
        have s3: "supplied s3" "fst s3 = fst s" "heap_of s3 = heap_of s"
          using 3 \<open>fst s2 = fst s1\<close> \<open>fst s1 = fst s\<close> \<open>heap_of s2 = heap_of s1\<close> \<open>heap_of s1 = heap_of s\<close> by simp_all
        have "tree_in s3 (Suc depth) (Br i ts)" using Suc.prems(1) s3 by (simp add: tree_in_def t)
        from remove_children_ok [OF this, of "DataNodeStore_removeSubtree_at depth bs L"] Suc.IH Suc.prems(2)
        show ?case unfolding length_map using s3 by simp
      qed (use 3 \<open>heap_of s1 = heap_of s\<close> v in simp_all)
    qed (use 3 v in simp_all)
  qed (use v in simp_all)
qed

lemma removeSubtree_ok:
  assumes "tree_in s depth t" and "depth \<le> 10"
  shows "returns (DataNodeStore_removeSubtree bs L (node_of t)) s
    (\<lambda>_ s'. supplied s' \<and> fst s' = fst s \<and> heap_of s' = without (heap_of s) (set (tids t)))"
proof (cases t)
  case (Tip i d)
  then have "depth = 0" using assms(1) by (cases depth) (auto simp: tree_in_def)
  then show ?thesis
    using removeSubtree_at_ok [OF assms] by (simp add: Tip DataNodeStore_removeSubtree_def)
next
  case (Br i ts)
  then obtain dep where dep: "depth = Suc dep" using assms(1) by (cases depth) (auto simp: tree_in_def)
  note tr = assms(1) [unfolded Br dep]
  obtain v where v: "heap_of s i = Some v" "inner_bytes L (Suc dep) (map troot ts) v" "supplied s" by (rule inner_in [OF tr])
  show ?thesis
    unfolding Br node_of.simps DataNodeStore_removeSubtree_def data_node.case
  proof (rule returns_step [OF numChildren_does [OF inner_node [OF v(2)]]], goal_cases)
    case (3 s1)
    show ?case
    proof (rule returns_step [OF depth_does [OF inner_node [OF v(2)] data_node.sel(2)]], goal_cases)
      case (3 s2)
      have s2: "supplied s2" "fst s2 = fst s" "heap_of s2 = heap_of s"
        using 3 \<open>fst s1 = fst s\<close> \<open>heap_of s1 = heap_of s\<close> by simp_all
      have "tree_in s2 (Suc dep) (Br i ts)" using tr s2 by (simp add: tree_in_def)
      from remove_children_ok [OF this, of "DataNodeStore_removeSubtree_at (Suc dep - 1) bs L"] removeSubtree_at_ok assms(2) dep
      show ?case unfolding length_map using s2 by simp
    qed (use 3 v in simp_all)
  qed (use v in simp_all)
qed

section \<open>Trimming\<close>

abbreviation env :: "'s data_tree_env" where
  "env \<equiv> \<lparr>dte_nodeStore = bs, dte_layout = L, dte_ceilLog = clog\<rparr>"

lemma butlast_child:
  assumes tr: "tree_in s (Suc depth) (Br i ts)" and ts: "ts \<noteq> []"
    and s': "supplied s'" "fst s' = fst s" "heap_of s' = (without (heap_of s) (set (tids (last ts))))(i \<mapsto> w)"
    and w: "inner_bytes L (Suc depth) (map troot (butlast ts)) w"
  shows "turns s s' (Suc depth) (Br i ts) (Br i (butlast ts))"
proof -
  have ids: "tids (Br i ts) = i # concat (map tids (butlast ts)) @ tids (last ts)"
  proof -
    have "tids (Br i (butlast ts @ [last ts])) = i # concat (map tids (butlast ts)) @ tids (last ts)" by simp
    then show ?thesis by (simp only: append_butlast_last_id [OF ts])
  qed
  have hold: "\<forall>t\<in>set ts. holds L (heap_of s) depth t" using tr by (simp add: tree_in_def)
  have dist: "distinct (i # concat (map tids (butlast ts)) @ tids (last ts))" using tr unfolding tree_in_def ids by blast
  have "holds L (heap_of s') depth t" if t: "t \<in> set (butlast ts)" for t
  proof -
    have "holds L (heap_of s') depth t = holds L (heap_of s) depth t"
      by (rule holds_cong) (use dist t s'(3) in \<open>auto simp: restrict_map_def\<close>)
    then show ?thesis using hold in_set_butlastD [OF t] by simp
  qed
  then have "tree_in s' (Suc depth) (Br i (butlast ts))"
    using s' w dist by (auto simp: tree_in_def)
  moreover have "evolves s s' (set (tids (Br i ts))) (set (tids (Br i (butlast ts))))"
    using s' unfolding ids by (auto simp: evolves_def restrict_map_def)
  ultimately show ?thesis by (simp add: turns_def)
qed

lemma removeChildrenRightOf_ok:
  assumes "tree_in s (Suc depth) (Br i ts)" and "Suc depth \<le> 10" and "0 < k" and "k \<le> length ts" and "length ts - k < fuel"
  shows "returns (DataTree_removeChildrenRightOf fuel env k i) s
    (\<lambda>_ s'. fst s' = fst s \<and> turns s s' (Suc depth) (Br i ts) (Br i (take k ts)))"
  using assms
proof (induction fuel arbitrary: s ts)
  case 0
  then show ?case by simp
next
  case (Suc fuel)
  note tr = Suc.prems(1)
  obtain v where v: "heap_of s i = Some v" "inner_bytes L (Suc depth) (map troot ts) v" "supplied s" by (rule inner_in [OF tr])
  show ?case
    unfolding DataTree_removeChildrenRightOf.simps data_tree_env.select_convs
  proof (rule returns_step [OF numChildren_does [OF inner_node [OF v(2)]]], goal_cases)
    case (3 s1)
    then have s1: "supplied s1" "fst s1 = fst s" "heap_of s1 = heap_of s" by simp_all
    show ?case
    proof (cases "k < length ts")
      case False
      then show ?thesis using turns_same [OF tr s1] s1(2) Suc.prems(4) by simp
    next
      case True
      have ts: "ts \<noteq> []" "map troot ts \<noteq> []" "1 < length (map troot ts)" using True Suc.prems(3) by auto
      have sub: "sub32 (Suc depth) 1 mod 2 ^ 8 = depth" using Suc.prems(2) by (subst sub32_le) simp_all
      have lst: "last (map troot ts) = troot (last ts)" using ts(1) by (simp add: last_map)
      show ?thesis
        unfolding length_map if_P [OF True]
      proof (rule returns_step [OF depth_does [OF inner_node [OF v(2)] data_node.sel(2)]], goal_cases)
        case (3 s2)
        then have s2: "supplied s2" "fst s2 = fst s" "heap_of s2 = heap_of s" using s1 by simp_all
        show ?case
        proof (rule returns_step [OF readLastChild_does [OF v(2)]], goal_cases)
          case (3 s3)
          then have s3: "supplied s3" "fst s3 = fst s" "heap_of s3 = heap_of s" using s2 by simp_all
          have "tree_in s3 depth (ts ! (length ts - 1))"
            using tree_in_child [OF tr, of "length ts - 1"] ts(1) s3 by (simp add: tree_in_def)
          then have ch: "tree_in s3 depth (last ts)" using ts(1) by (simp add: last_conv_nth)
          have removed: "returns (DataNodeStore_removeSubtree_at depth bs L (troot (last ts))) s3
              (\<lambda>_ s'. supplied s' \<and> fst s' = fst s3 \<and> heap_of s' = without (heap_of s3) (set (tids (last ts))))"
            by (rule removeSubtree_at_ok [OF ch]) (use Suc.prems(2) in simp)
          show ?case
            unfolding sub lst
          proof (rule returns_ebind [OF removed])
            fix x s4 assume s4: "supplied s4 \<and> fst s4 = fst s3 \<and> heap_of s4 = without (heap_of s3) (set (tids (last ts)))"
            have "i \<notin> set (tids (last ts))" using tr ts(1) by (auto simp: tree_in_def)
            then have at: "heap_of s4 i = Some v" using s4 s3 v(1) by simp
            obtain w where w: "inner_bytes L (Suc depth) (butlast (map troot ts)) w"
              "does (at i v) (DataInnerNode_removeLastChild bs i) () (\<lambda>h. h(i \<mapsto> w))"
              by (rule inner_removeLast_does [OF v(2) ts(3)])
            show "returns (ebind (DataInnerNode_removeLastChild bs i) (\<lambda>_. DataTree_removeChildrenRightOf fuel env k i)) s4
                (\<lambda>_ s'. fst s' = fst s \<and> turns s s' (Suc depth) (Br i ts) (Br i (take k ts)))"
            proof (rule returns_step [OF w(2)], goal_cases)
              case (3 s5)
              then have s5: "supplied s5" "fst s5 = fst s" "heap_of s5 = (without (heap_of s) (set (tids (last ts))))(i \<mapsto> w)"
                using s4 s3 by simp_all
              have t5: "turns s s5 (Suc depth) (Br i ts) (Br i (butlast ts))"
                by (rule butlast_child [OF tr ts(1) s5]) (use w(1) in \<open>simp add: map_butlast\<close>)
              have "take k (butlast ts) = take k ts" using True by (simp add: butlast_conv_take min_absorb1)
              moreover have "k \<le> length (butlast ts)" "length (butlast ts) - k < fuel" using True Suc.prems(5) by auto
              note Suc.IH [OF turns_in [OF t5] Suc.prems(2,3) this]
              ultimately show ?case
                by (auto elim!: returns_mono intro: turns_trans [OF tr t5] simp: s5(2))
            qed (use s4 at in simp_all)
          qed
        qed (use v s2 in simp_all)
      qed (use v s1 in simp_all)
    qed
  qed (use v in simp_all)
qed

lemma needed_children:
  fixes l m e q :: nat
  assumes "0 < l" and "0 < m" and "0 < e" and "e \<le> m * l"
  shows "cdiv (q * (m * l) + e) l = q * m + cdiv e l" and "cdiv (q * m + cdiv e l) m = Suc q"
proof -
  have e: "0 < cdiv e l" "cdiv e l \<le> m" using assms by (simp_all add: cdiv_le_iff)
  have "cdiv (k * b + a) b = k + cdiv a b" if "0 < b" for a b k :: nat
  proof -
    have "k * b + a + b - 1 = (a + b - 1) + k * b" using that by simp
    then show ?thesis using that unfolding cdiv_def by (simp only: div_mult_self1)
  qed
  from this [OF assms(1), of "q * m" e] this [OF assms(2), of q "cdiv e l"]
  show "cdiv (q * (m * l) + e) l = q * m + cdiv e l" "cdiv (q * m + cdiv e l) m = Suc q"
    using e assms(2) by (simp_all add: mult.assoc antisym cdiv_le_iff Suc_le_eq)
qed

lemma backs_trim:
  assumes "newNum \<le> 2 ^ 31"
  shows "backs (DataTree_resizeOnBacktrack env newNum) True newNum"
  unfolding backs_def
proof (intro allI impI, goal_cases)
  case (1 depth x s i ts off e)
  note tr = 1(1)
  define l where "l = mc ^ depth"
  let ?k = "cdiv e l"
  obtain v where v: "heap_of s i = Some v" "inner_bytes L (Suc depth) (map troot ts) v" "supplied s" by (rule inner_in [OF tr])
  obtain q where q: "off = q * (mc * l)" using 1(5) by (auto simp: l_def dvd_def mult.commute)
  have e: "0 < e" "e \<le> mc * l" and num: "newNum = q * (mc * l) + e" using 1(3,4,6) q by (auto simp: l_def)
  have l: "0 < l" "l \<le> 2 ^ 31" using 1(2) leaves_bound [of depth] by (simp_all add: l_def)
  note need = needed_children [OF l(1) mc_pos(1) e, of q, folded num]
  have k: "0 < ?k" "?k \<le> length ts" using e l 1(7) by (simp_all add: l_def)
  have mc32: "mc < 2 ^ 28" by (rule sizes(6))
  have "cdiv newNum l \<le> newNum" using l(1) by (simp add: cdiv_le_iff)
  then have nodes: "q * mc + ?k \<le> 2 ^ 31" using need(1) assms by simp
  have "depth \<le> maxDepth" using 1(2) by simp
  then have pow: "intPow 64 mc depth = l" using l(2) unfolding l_def by (subst intPow_eq) (simp_all add: mod_less)
  have sub: "sub64 (Suc depth) 1 = depth" using 1(2) maxDepth by (subst sub64_le) simp_all
  have trunc: "trunc32 mc = mc" "trunc32 l = l" using mc32 l(2) by (simp_all add: trunc32_le)
  have cd: "ceilDivision 32 newNum l = q * mc + ?k" using ceilDivision32 [OF l(1) assms l(2)] need(1) by simp
  have cd2: "ceilDivision 32 (q * mc + ?k) mc = Suc q" using ceilDivision32 [of mc "q * mc + ?k"] nodes mc32 need(2) by simp
  have qm: "q * mc \<le> 2 ^ 31" using nodes by simp
  have "q * 1 \<le> q * mc" using mc_pos(1) by (intro mult_le_mono2) (simp only: Suc_le_eq One_nat_def)
  then have "q * 1 \<le> 2 ^ 31" using qm by (rule order_trans)
  then have "Suc q < 2 ^ 32" by simp
  with qm have rest: "sub32 (q * mc + ?k) (trunc32 (sub32 (Suc q) 1 * mc)) = ?k"
    using nodes by (simp add: sub32_le trunc32_le)
  have "returns (DataTree_removeChildrenRightOf (Suc (length ts)) env ?k i) s' (\<lambda>_ s''. fst s'' = fst s \<and>
      turns s s'' (Suc depth) (Br i ts) (Br i (take ?k ts)))" if s': "supplied s'" "fst s' = fst s" "heap_of s' = heap_of s" for s'
  proof -
    have "tree_in s' (Suc depth) (Br i ts)" using tr s' by (simp add: tree_in_def)
    then have "returns (DataTree_removeChildrenRightOf (Suc (length ts)) env ?k i) s' (\<lambda>_ s''. fst s'' = fst s' \<and>
      turns s' s'' (Suc depth) (Br i ts) (Br i (take ?k ts)))"
      by (rule removeChildrenRightOf_ok) (use k 1(2) maxDepth in auto)
    then show ?thesis using turns_trans [OF tr turns_same [OF tr s']] s'(2) by (auto elim!: returns_mono)
  qed
  note finish = this
  show ?case
    unfolding DataTree_resizeOnBacktrack_def data_tree_env.select_convs Let_def l_def [symmetric] kept_def if_True
  proof (rule returns_zoom_snd, unfold snd_conv fst_conv, rule returns_step [OF depth_does [OF inner_node [OF v(2)] data_node.sel(2)]], goal_cases)
    case (3 s1)
    then have s1: "supplied s1" "fst s1 = fst s" "heap_of s1 = heap_of s" by simp_all
    show ?case
      unfolding trunc sub pow cd cd2 rest
    proof (rule returns_lift, simp only: udiv_def if_not_P [OF gr_implies_not0 [OF l(1)]],
        rule returns_step [OF numChildren_does [OF inner_node [OF v(2)]]], goal_cases)
      case (3 s2)
      then have s2: "supplied s2" "fst s2 = fst s" "heap_of s2 = heap_of s" using s1 by simp_all
      show ?case
        unfolding length_map by (rule returns_assert [OF k(2)], rule returns_mono [OF finish [OF s2]]) simp
    qed (use s1 v in simp_all)
  qed (use v in simp_all)
qed

end

end
