(* ===== verification/Chunks.thy ===== *)
theory Chunks
  imports TreeShapes
begin

text \<open>
  The bytes of a blob cut into the contents of its leaves, and what a write or a resize of the bytes means
  for the pieces.
\<close>

section \<open>Pieces of a byte list\<close>

definition chunk :: "nat \<Rightarrow> 'a list \<Rightarrow> nat \<Rightarrow> 'a list" where
  "chunk m D k = take m (drop (k * m) D)"

text \<open>The number of leaves for some bytes: at least one.\<close>

definition leaf_count :: "nat \<Rightarrow> nat \<Rightarrow> nat" where
  "leaf_count m sz = max 1 (cdiv sz m)"

lemma length_chunk [simp]: "length (chunk m D k) = min m (length D - k * m)"
  by (simp add: chunk_def)

lemma nth_chunk: "q < m \<Longrightarrow> k * m + q < length D \<Longrightarrow> chunk m D k ! q = D ! (k * m + q)"
  by (simp add: chunk_def)

lemma concat_chunks: "concat (map (chunk m D) [0..<n]) = take (n * m) D"
proof (induction n)
  case (Suc n)
  have "take (n * m + m) D = take (n * m) D @ take m (drop (n * m) D)" by (rule take_add)
  with Suc show ?case by (simp add: chunk_def add.commute)
qed simp

lemma leaf_count_pos [simp]: "0 < leaf_count m sz" "leaf_count m sz \<noteq> 0"
  by (simp_all add: leaf_count_def)

lemma leaf_count_le_iff: "0 < m \<Longrightarrow> leaf_count m sz \<le> k \<longleftrightarrow> 0 < k \<and> sz \<le> k * m"
  by (auto simp: leaf_count_def cdiv_le_iff)

lemma less_leaf_count_iff: "0 < m \<Longrightarrow> k < leaf_count m sz \<longleftrightarrow> k = 0 \<or> k * m < sz"
  by (auto simp: leaf_count_def less_max_iff_disj less_cdiv_iff)

lemma leaf_count_max: "0 < m \<Longrightarrow> leaf_count m (max a b) = max (leaf_count m a) (leaf_count m b)"
  by (simp add: leaf_count_def cdiv_max max.assoc max.left_commute)

lemma concat_leaf_chunks: "0 < m \<Longrightarrow> concat (map (chunk m D) [0..<leaf_count m (length D)]) = D"
  using leaf_count_le_iff [of m "length D" "leaf_count m (length D)"] by (simp add: concat_chunks)

text \<open>A list is given by its pieces.\<close>

lemma list_eqI: "length xs = n \<Longrightarrow> length ys = n \<Longrightarrow> (\<And>i. i < n \<Longrightarrow> xs ! i = ys ! i) \<Longrightarrow> xs = ys"
  by (rule nth_equalityI) simp_all

lemma nth_zeroes [simp]: "i < n \<Longrightarrow> zeroes n ! i = 0"
  by (simp add: zeroes_def)

lemma nth_resized: "i < k \<Longrightarrow> resized k d ! i = (if i < length d then d ! i else 0)"
  by (auto simp: resized_def nth_append)

lemma chunk_resized:
  assumes "k * m < n"
  shows "chunk m (resized n D) k = resized (min m (n - k * m)) (chunk m D k)"
  by (rule list_eqI [where n = "min m (n - k * m)"]) (use assms in \<open>auto simp: nth_chunk nth_resized\<close>)

section \<open>Writing\<close>

text \<open>A write behind the end fills the gap with zeroes.\<close>

definition update :: "data \<Rightarrow> nat \<Rightarrow> data \<Rightarrow> data" where
  "update D off src = write_at off src (D @ zeroes (off + length src - length D))"

lemma length_update: "length (update D off src) = max (length D) (off + length src)"
  by (simp add: update_def max_def)

lemma nth_update:
  assumes "i < max (length D) (off + length src)"
  shows "update D off src ! i =
    (if off \<le> i \<and> i < off + length src then src ! (i - off) else if i < length D then D ! i else 0)"
  using assms by (auto simp: update_def nth_write_at nth_append)

lemma write_chunk:
  assumes "0 < m" and "k * m < off + length src" and "off < k * m + m" and "src \<noteq> []"
  shows "write_at (off - k * m) (slice (k * m - off) (min m (off + length src - k * m) - (off - k * m)) src)
      (resized (min m (max (length D) (off + length src) - k * m)) (chunk m D k)) = chunk m (update D off src) k"
    (is "write_at ?b ?s ?d = _")
proof (rule list_eqI)
  have s: "length ?s = min m (off + length src - k * m) - ?b" using assms by auto
  have fit: "?b + length ?s \<le> length ?d" unfolding s using assms by auto
  show "length (write_at ?b ?s ?d) = min m (max (length D) (off + length src) - k * m)"
    using length_write_at [OF fit] by simp
  show "length (chunk m (update D off src) k) = min m (max (length D) (off + length src) - k * m)"
    by (simp add: length_update)
  fix i assume i: "i < min m (max (length D) (off + length src) - k * m)"
  have "chunk m (update D off src) k ! i = update D off src ! (k * m + i)" using i by (intro nth_chunk) (auto simp: length_update)
  also have "\<dots> = (if off \<le> k * m + i \<and> k * m + i < off + length src then src ! (k * m + i - off)
      else if k * m + i < length D then D ! (k * m + i) else 0)" using i by (intro nth_update) auto
  also have "\<dots> = write_at ?b ?s ?d ! i"
  proof -
    have "write_at ?b ?s ?d ! i = (if ?b \<le> i \<and> i < ?b + length ?s then ?s ! (i - ?b) else ?d ! i)"
      using fit i by (intro nth_write_at) simp_all
    moreover have "?b \<le> i \<and> i < ?b + length ?s \<longleftrightarrow> off \<le> k * m + i \<and> k * m + i < off + length src"
      unfolding s using i assms by auto
    moreover have "?s ! (i - ?b) = src ! (k * m + i - off)" if "off \<le> k * m + i \<and> k * m + i < off + length src"
    proof -
      have "?s ! (i - ?b) = src ! ((k * m - off) + (i - ?b))" using that i assms by (intro nth_slice) auto
      moreover have "(k * m - off) + (i - ?b) = k * m + i - off" using that by auto
      ultimately show ?thesis by simp
    qed
    moreover have "?d ! i = (if k * m + i < length D then D ! (k * m + i) else 0)"
      using i by (auto simp: nth_resized nth_chunk)
    ultimately show ?thesis by simp
  qed
  finally show "write_at ?b ?s ?d ! i = chunk m (update D off src) k ! i" by simp
qed

lemma write_new_chunk:
  assumes "0 < m" and "k * m < off + length src" and "off < k * m + m" and "src \<noteq> []" and "length D \<le> k * m"
  shows "zeroes (off - k * m) @ slice (k * m - off) (min m (off + length src - k * m) - (off - k * m)) src = chunk m (update D off src) k"
proof -
  let ?b = "off - k * m" and ?n = "min m (off + length src - k * m)"
  have "chunk m D k = []" using assms(5) by (simp add: chunk_def)
  then have d: "resized (min m (max (length D) (off + length src) - k * m)) (chunk m D k) = zeroes ?n"
    using assms(2,5) by (simp add: resized_def max_absorb2)
  have "length (slice (k * m - off) (?n - ?b) src) = ?n - ?b" using assms by auto
  moreover have "?b \<le> ?n" using assms by (auto simp: Suc_leI neq_Nil_conv)
  ultimately have "write_at ?b (slice (k * m - off) (?n - ?b) src) (zeroes ?n) = zeroes ?b @ slice (k * m - off) (?n - ?b) src"
    by (simp add: write_at_def zeroes_def min_absorb1)
  then show ?thesis using write_chunk [OF assms(1-4), of D] unfolding d by simp
qed

text \<open>Pieces outside of the written range.\<close>

lemma chunk_update_before:
  assumes "k * m + m \<le> off"
  shows "chunk m (update D off src) k = resized m (chunk m D k)"
  by (rule list_eqI [where n = m]) (use assms in \<open>auto simp: length_update nth_chunk nth_update nth_resized\<close>)

lemma chunk_update_after:
  assumes "off + length src \<le> k * m" and "off + length src \<le> length D"
  shows "chunk m (update D off src) k = chunk m D k"
  by (rule list_eqI [where n = "min m (length D - k * m)"])
    (use assms in \<open>auto simp: length_update nth_chunk nth_update max_absorb1\<close>)

text \<open>The bytes of a blob after a write: nothing happens for an empty source, even beyond the end.\<close>

definition written :: "data \<Rightarrow> nat \<Rightarrow> data \<Rightarrow> data" where
  "written D off src = (if src = [] then D else update D off src)"

lemma length_written: "length (written D off src) = (if src = [] then length D else max (length D) (off + length src))"
  by (simp add: written_def length_update)

end
