(* ===== verification/TreeBytes.thy ===== *)
theory TreeBytes
  imports TreeRemoval Chunks
begin

text \<open>
  \<open>DataTree\<close> is a byte array: the tree object of a blob with the bytes \<open>D\<close> reads, writes, resizes and
  measures exactly \<open>D\<close>, whatever the shape of its tree, and its size cache is always right.
\<close>

context tree_store
begin

section \<open>Blobs in the heap\<close>

definition bytes_in :: "'s hl_state \<Rightarrow> nat \<Rightarrow> tree \<Rightarrow> data \<Rightarrow> bool" where
  "bytes_in s depth t D \<longleftrightarrow> tree_in s depth t \<and> depth \<le> maxDepth \<and> proper t \<and>
     shape mc depth (leaf_count mb (length D)) t \<and> leaves t = map (chunk mb D) [0..<leaf_count mb (length D)]"

definition object_ok :: "data_tree \<Rightarrow> tree \<Rightarrow> data \<Rightarrow> bool" where
  "object_ok T t D \<longleftrightarrow> rootNode T = node_of t \<and> dt_blockId T = troot t \<and>
     (sizeCache T = None \<or> sizeCache T = Some \<lparr>sc_numLeaves = leaf_count mb (length D), sc_numBytes = length D\<rparr>)"

text \<open>Bytes that a tree of the greatest depth can hold.\<close>

abbreviation maxSize :: nat where
  "maxSize \<equiv> mc ^ maxDepth * mb"

lemma mb_pos [simp]: "0 < mb" "mb \<noteq> 0"
  using sizes(3) by simp_all

lemma leaf_count_bound: "leaf_count mb k \<le> mc ^ maxDepth \<longleftrightarrow> k \<le> maxSize"
  by (simp add: leaf_count_le_iff)

lemma bytes_size: "bytes_in s depth t D \<Longrightarrow> length D \<le> maxSize"
proof -
  assume b: "bytes_in s depth t D"
  then have "leaf_count mb (length D) \<le> mc ^ depth" by (intro shape_le [of mc depth _ t]) (simp_all add: bytes_in_def)
  also have "\<dots> \<le> mc ^ maxDepth"
    using b mc_pos(1) by (intro power_increasing) (simp_all add: bytes_in_def Suc_le_eq del: mc_pos)
  finally show ?thesis by (simp only: leaf_count_bound)
qed

lemma maxSize_bound: "maxSize + mb < 2 ^ 64" "k \<le> maxSize \<Longrightarrow> k < 2 ^ 64"
proof -
  have "mc ^ maxDepth * mb \<le> 2 ^ 31 * 2 ^ 32" using few_leaves sizes(4) by (intro mult_le_mono) simp_all
  then show "maxSize + mb < 2 ^ 64" using sizes(4) by simp
  then show "k \<le> maxSize \<Longrightarrow> k < 2 ^ 64" by simp
qed

section \<open>Sizes\<close>

lemma leaves_fit: "holds L h depth t \<Longrightarrow> d \<in> set (leaves t) \<Longrightarrow> length d \<le> mb"
  by (induction "L" h depth t rule: holds.induct) (auto simp: leaf_bytes_def)

lemma size_of_right_border:
  assumes "tree_in s depth t" and "shape mc depth n t" and "depth \<le> maxDepth" and "depth < fuel"
  shows "returns (DataTree_computeSizeCache_loop fuel env (node_of t)) s
    (\<lambda>c s'. c = \<lparr>sc_numLeaves = n, sc_numBytes = (n - 1) * mb + length (last (leaves t))\<rparr> \<and>
       supplied s' \<and> fst s' = fst s \<and> heap_of s' = heap_of s)"
  using assms
proof (induction depth arbitrary: s t n fuel)
  case 0
  then obtain fuel' i d where f: "fuel = Suc fuel'" "t = Tip i d" by (cases fuel; cases t) (auto simp: tree_in_def)
  obtain v where v: "heap_of s i = Some v" "leaf_bytes L d v" "supplied s" using 0(1) by (auto simp: f tree_in_def)
  show ?case
    unfolding f DataTree_computeSizeCache_loop.simps node_of.simps data_node.case data_tree_env.select_convs
    by (rule returns_step [OF numBytes_does [OF leaf_node [OF v(2)]]]) (use v 0(2) f in auto)
next
  case (Suc depth)
  then obtain fuel' i ts where f: "fuel = Suc fuel'" "t = Br i ts" by (cases fuel; cases t) (auto simp: tree_in_def)
  define l where "l = mc ^ depth"
  let ?m = "length ts" and ?J = "(length ts - 1) * l"
  note tr = Suc.prems(1) [unfolded f(2)] and sh = Suc.prems(2) [unfolded f(2)]
  obtain v where v: "heap_of s i = Some v" "inner_bytes L (Suc depth) (map troot ts) v" "supplied s" by (rule inner_in [OF tr])
  have l: "0 < l" "l \<le> 2 ^ 31" and num: "?m = cdiv n l" and n: "n \<le> mc ^ Suc depth"
    using sh Suc.prems(3) leaves_bound [of depth] by (simp_all add: l_def)
  note m = last_child [OF l(1) shape_pos [OF sh] num]
  have n31: "n \<le> 2 ^ 31" using n leaves_bound [OF Suc.prems(3)] by simp
  have ch: "tree_in s depth (last ts)" "shape mc depth (n - ?J) (last ts)"
  proof -
    have j: "?m - 1 < ?m" "last ts = ts ! (?m - 1)" using m(1) by (simp_all add: last_conv_nth)
    then show "tree_in s depth (last ts)" using tree_in_child [OF tr, of "?m - 1"] by simp
    have "shape mc depth (min l (n - j * l)) (ts ! j)" if "j < ?m" for j using sh that by (simp add: l_def)
    from this [OF j(1)] show "shape mc depth (n - ?J) (last ts)" using m(3) unfolding j(2) by (simp add: min_absorb2)
  qed
  have lst: "last (leaves t) = last (leaves (last ts))"
  proof -
    have "leaves (last ts) \<noteq> []" using length_leaves [OF _ ch(2)] m(2) by auto
    moreover have "ts = butlast ts @ [last ts]" using m(1) by simp
    then have "leaves t = concat (map leaves (butlast ts)) @ leaves (last ts)"
      unfolding f(2) leaves.simps by (metis concat.simps concat_append append_Nil2 list.simps(8,9) map_append)
    ultimately show ?thesis by simp
  qed
  have "?m \<le> mc" using n l(1) by (simp add: num cdiv_le_iff l_def)
  then have sub: "sub32 ?m 1 = ?m - 1" using sizes(6) m(1) by (intro sub32_le) (linarith, simp)
  have pow: "DataTree_leavesPerFullChild env (Suc depth) = l"
  proof -
    have "sub64 (Suc depth) 1 = depth" using Suc.prems(3) maxDepth by (subst sub64_le) simp_all
    moreover have "intPow 64 mc depth = l" using l(2) unfolding l_def by (subst intPow_eq) (simp_all add: mod_less)
    ultimately show ?thesis using l(2) by (simp add: DataTree_leavesPerFullChild_def trunc32_le)
  qed
  have J: "trunc32 (sub32 ?m 1 * l) = ?J" using m(2) n31 unfolding sub by (intro trunc32_le) simp
  have nmb: "n * mb < 2 ^ 63"
  proof -
    have "n * mb \<le> 2 ^ 31 * mb" using n31 by (rule mult_le_mono1)
    also have "\<dots> < 2 ^ 63" using sizes(4) by simp
    finally show ?thesis .
  qed
  have "?J * mb \<le> n * mb" using m(2) by (intro mult_le_mono1) simp
  then have Jmb: "trunc64 (?J * mb) = ?J * mb" by (rule trunc_less(2) [OF le_less_trans]) (use nmb in simp)
  show ?case
    unfolding f DataTree_computeSizeCache_loop.simps node_of.simps data_node.case data_tree_env.select_convs Let_def
  proof (rule returns_step [OF numChildren_does [OF inner_node [OF v(2)]]], goal_cases)
    case (3 s1)
    then have s1: "supplied s1" "fst s1 = fst s" "heap_of s1 = heap_of s" by simp_all
    show ?case
    proof (rule returns_step [OF depth_does [OF inner_node [OF v(2)] data_node.sel(2)]], goal_cases)
      case (3 s2)
      then have s2: "supplied s2" "fst s2 = fst s" "heap_of s2 = heap_of s" using s1 by simp_all
      show ?case
        unfolding length_map pow J Jmb
      proof (rule returns_step [OF readLastChild_does [OF v(2)]], goal_cases)
        case (3 s3)
        then have s3: "supplied s3" "fst s3 = fst s" "heap_of s3 = heap_of s" using s2 by simp_all
        have ch3: "tree_in s3 depth (last ts)" using ch(1) s3 by (simp add: tree_in_def)
        have troot: "last (map troot ts) = troot (last ts)" using m(1) by (simp add: last_map)
        obtain vc where vc: "heap_of s3 (troot (last ts)) = Some vc" "node_value L depth (last ts) vc" by (rule tree_value [OF ch3])
        have "depth \<le> 10" using Suc.prems(3) maxDepth by simp
        note ld = load_does [OF vc(2) this, of "troot (last ts)"]
        have "reroot (troot (last ts)) (last ts) = last ts" by (cases "last ts") simp_all
        then show ?case
          unfolding troot
        proof (intro returns_step [OF ld] s3(1) vc(1), goal_cases)
          case (1 s4)
          then have s4: "supplied s4" "fst s4 = fst s" "heap_of s4 = heap_of s" using s3 by simp_all
          then have "tree_in s4 depth (last ts)" using ch(1) by (simp add: tree_in_def)
          from Suc.IH [OF this ch(2)] have IH: "returns (DataTree_computeSizeCache_loop fuel' env (node_of (last ts))) s4
            (\<lambda>c s'. c = \<lparr>sc_numLeaves = n - ?J, sc_numBytes = (n - ?J - 1) * mb + length (last (leaves (last ts)))\<rparr> \<and>
               supplied s' \<and> fst s' = fst s4 \<and> heap_of s' = heap_of s4)"
            using Suc.prems(3,4) f(1) by simp
          have len: "length (last (leaves (last ts))) \<le> mb"
          proof (rule leaves_fit)
            show "holds L (heap_of s) depth (last ts)" using ch(1) by (simp add: tree_in_def)
            have "leaves (last ts) \<noteq> []" using length_leaves [OF _ ch(2)] m(2) by auto
            then show "last (leaves (last ts)) \<in> set (leaves (last ts))" by simp
          qed
          have "trunc32 (?J + (n - ?J)) = n" using m(2) n31 by (simp add: trunc32_le)
          moreover have "trunc64 (?J * mb + ((n - ?J - 1) * mb + length (last (leaves (last ts))))) = (n - 1) * mb + length (last (leaves (last ts)))"
          proof -
            have "(n - 1) = ?J + (n - ?J - 1)" using m(2) by simp
            then have sum: "(n - 1) * mb = ?J * mb + (n - ?J - 1) * mb" by (metis add_mult_distrib)
            have "n * mb = (n - 1) * mb + mb" using m(2) by (cases n) simp_all
            then have "(n - 1) * mb + length (last (leaves (last ts))) < 2 ^ 64" using nmb len by simp
            then show ?thesis using trunc_less(2) unfolding add.assoc [symmetric] sum by blast
          qed
          ultimately show ?case
            unfolding 1(1) option.case using s4 lst f(2)
            by (intro returns_ebind [OF IH]) simp
        qed
      qed (use v s2 in simp_all)
    qed (use v s1 in simp_all)
  qed (use v in simp_all)
qed

lemma last_chunk_size:
  "(leaf_count mb (length D) - 1) * mb + length (chunk mb D (leaf_count mb (length D) - 1)) = length D"
proof -
  let ?n = "leaf_count mb (length D)"
  have "?n - 1 = 0 \<or> (?n - 1) * mb < length D" using less_leaf_count_iff [of mb "?n - 1" "length D"] by simp
  moreover have "length D \<le> ?n * mb" using leaf_count_le_iff [of mb "length D" ?n] by simp
  moreover have "?n * mb = (?n - 1) * mb + mb" by (cases ?n) simp_all
  ultimately show ?thesis by auto
qed

lemma computeSizeCache_ok:
  assumes "bytes_in s depth t D"
  shows "returns (DataTree_computeSizeCache env (node_of t)) s
    (\<lambda>c s'. c = \<lparr>sc_numLeaves = leaf_count mb (length D), sc_numBytes = length D\<rparr> \<and>
       supplied s' \<and> fst s' = fst s \<and> heap_of s' = heap_of s)"
proof -
  let ?n = "leaf_count mb (length D)"
  have t: "tree_in s depth t" "shape mc depth ?n t" "depth \<le> maxDepth" "leaves t = map (chunk mb D) [0..<?n]"
    using assms by (simp_all add: bytes_in_def)
  have "last (leaves t) = chunk mb D (?n - 1)" unfolding t(4) by (simp add: last_map)
  then show ?thesis
    using size_of_right_border [OF t(1-3), of 256] maxDepth t(3) last_chunk_size [of D]
    by (simp add: DataTree_computeSizeCache_def)
qed

text \<open>The state of a tree object with the bytes \<open>D\<close> in the tree \<open>t\<close>.\<close>

definition blob_at :: "'s tree_state \<Rightarrow> tree \<Rightarrow> data \<Rightarrow> bool" where
  "blob_at r t D \<longleftrightarrow> (\<exists>depth. bytes_in (snd r) depth t D) \<and> object_ok (fst r) t D"

lemma bytes_in_same: "bytes_in s depth t D \<Longrightarrow> supplied s' \<Longrightarrow> heap_of s' = heap_of s \<Longrightarrow> bytes_in s' depth t D"
  by (simp add: bytes_in_def tree_in_def)

lemma blob_supplied: "blob_at r t D \<Longrightarrow> supplied (snd r)"
  by (auto simp: blob_at_def bytes_in_def tree_in_def)

lemma sizeCache_ok:
  assumes "blob_at r t D"
  shows "returns (DataTree_getOrComputeSizeCache env) r
    (\<lambda>c r'. c = \<lparr>sc_numLeaves = leaf_count mb (length D), sc_numBytes = length D\<rparr> \<and> blob_at r' t D \<and>
       fst (snd r') = fst (snd r) \<and> heap_of (snd r') = heap_of (snd r))"
proof -
  obtain depth where b: "bytes_in (snd r) depth t D" "object_ok (fst r) t D" using assms by (auto simp: blob_at_def)
  show ?thesis
  proof (cases "sizeCache (fst r)")
    case None
    from computeSizeCache_ok [OF b(1)] obtain s' where
      s': "DataTree_computeSizeCache env (node_of t) (snd r) = (Inr \<lparr>sc_numLeaves = leaf_count mb (length D), sc_numBytes = length D\<rparr>, s')"
        "supplied s'" "fst s' = fst (snd r)" "heap_of s' = heap_of (snd r)"
      by (auto simp: returns_def)
    then have "bytes_in s' depth t D" using bytes_in_same [OF b(1)] by simp
    with None b(2) s' show ?thesis
      by (auto simp: returns_def DataTree_getOrComputeSizeCache_def CachedValue_getOrCompute_def ebind_def zoom_snd_def
          blob_at_def object_ok_def)
  next
    case (Some c)
    with assms b(2) show ?thesis
      by (auto simp: returns_def DataTree_getOrComputeSizeCache_def CachedValue_getOrCompute_def ebind_def object_ok_def)
  qed
qed

lemma numBytes_ok:
  assumes "blob_at r t D"
  shows "returns (DataTree_numBytes env) r (\<lambda>n r'. n = length D \<and> blob_at r' t D \<and>
       fst (snd r') = fst (snd r) \<and> heap_of (snd r') = heap_of (snd r))"
  unfolding DataTree_numBytes_def by (rule returns_ebind [OF sizeCache_ok [OF assms]]) simp

lemma numLeaves_ok:
  assumes "blob_at r t D"
  shows "returns (DataTree_numLeaves env) r (\<lambda>n r'. n = leaf_count mb (length D) \<and> blob_at r' t D \<and>
       fst (snd r') = fst (snd r) \<and> heap_of (snd r') = heap_of (snd r))"
  unfolding DataTree_numLeaves_def by (rule returns_ebind [OF sizeCache_ok [OF assms]]) simp

section \<open>Traversals\<close>

text \<open>
  The effect of an operation on the tree of a blob: its blocks change, the identifier of its root does not,
  and no more identifiers are used than the new leaves and levels need.
\<close>

definition blob_step :: "'s hl_state \<Rightarrow> 's hl_state \<Rightarrow> tree \<Rightarrow> tree \<Rightarrow> nat \<Rightarrow> bool" where
  "blob_step s s' t t' k \<longleftrightarrow> evolves s s' (set (tids t)) (set (tids t')) \<and> troot t' = troot t \<and> length (fst s) \<le> length (fst s') + k"

lemma leafIndices_ok:
  assumes bytes: "bytes_in s depth t D" and be: "b < e" "e \<le> mc ^ maxDepth" and n: "n = leaf_count mb (length D)"
    and cb: "callbacks_ok cb I (old_leaf mb n e False (leaves t)) Y (\<lambda>k. Suc k = n \<and> e = n) b n e trim newNum"
    and full: "\<And>k. b \<le> k \<Longrightarrow> Suc k < e \<Longrightarrow> length (Y k) = mb"
    and trim: "trim \<longrightarrow> e = newNum \<and> e = Suc b" and ro: "ro \<longrightarrow> e \<le> n \<and> \<not> trim"
    and Ix: "I b x" and room: "room_for 0 n e \<le> length (fst s)"
    and D': "leaf_count mb (length D') = leaves_after trim n b e"
      "\<And>k. k < leaves_after trim n b e \<Longrightarrow> new_leaf mb n b e False (leaves t) Y k = chunk mb D' k"
  shows "returns (DataTree_traverseLeavesByLeafIndices env (node_of t) b e ro cb) (x, s)
    (\<lambda>node r. \<exists>depth' t'. node = node_of t' \<and> bytes_in (snd r) depth' t' D' \<and> blob_step s (snd r) t t' (room_for 0 n e) \<and> I e (fst r))"
proof -
  have t: "tree_in s depth t" "shape mc depth n t" "depth \<le> maxDepth" "proper t"
    using bytes by (simp_all add: bytes_in_def n)
  have "pass_ok ro depth n t b e cb I Y trim newNum"
    unfolding pass_ok_def using t(2-4) be cb full trim ro by blast
  moreover have "room_for depth n e \<le> room_for 0 n e" by (simp add: room_for_def del: mult_Suc_right)
  moreover have "left_ok True depth n b t" by (simp add: left_ok_def)
  ultimately have "returns (LeafTraverser_traverseAndUpdateRoot_rounds 256 (traverser ro) (node_of t) b e True cb) (x, s)
    (\<lambda>node r. \<exists>depth' t'. node = node_of t' \<and> depth' \<le> maxDepth \<and> turns s (snd r) depth' t t' \<and>
       shape mc depth' (leaves_after trim n b e) t' \<and> proper t' \<and>
       leaves t' = map (new_leaf mb n b e False (leaves t) Y) [0..<leaves_after trim n b e] \<and>
       I e (fst r) \<and> length (fst s) \<le> length (fst (snd r)) + room_for depth n e)"
    using rounds_ok [OF t(1), of ro n b e cb I Y trim newNum True x 256] Ix room maxDepth by simp
  moreover have "map (new_leaf mb n b e False (leaves t) Y) [0..<leaves_after trim n b e] = map (chunk mb D') [0..<leaves_after trim n b e]"
    using D'(2) by simp
  moreover have "\<not> e \<le> b" using be(1) by simp
  ultimately show ?thesis
    unfolding DataTree_traverseLeavesByLeafIndices_def LeafTraverser_traverseAndUpdateRoot_def data_tree_env.select_convs
    using \<open>room_for depth n e \<le> room_for 0 n e\<close>
    by (auto elim!: returns_mono simp: bytes_in_def turns_def blob_step_def D'(1)) (metis add_le_mono1 add.commute order_trans)
qed

section \<open>Resizing\<close>

lemma leaf_count_arith:
  assumes "k \<le> maxSize"
  shows "trunc32 (max 1 (ceilDivision 64 k mb)) = leaf_count mb k" and "sub32 (leaf_count mb k) 1 = leaf_count mb k - 1"
    and "trunc32 (sub64 k (trunc64 ((leaf_count mb k - 1) * mb))) = k - (leaf_count mb k - 1) * mb"
    and "k - (leaf_count mb k - 1) * mb \<le> mb" and "leaf_count mb k \<le> mc ^ maxDepth" and "leaf_count mb k \<le> 2 ^ 31"
    and "(leaf_count mb k - 1) * mb \<le> k"
proof -
  let ?N = "leaf_count mb k"
  have k64: "k + mb < 2 ^ 64" using assms maxSize_bound(1) by linarith
  have cd: "ceilDivision 64 k mb = cdiv k mb" unfolding cdiv_def by (rule ceilDivision_eq) (use k64 in simp_all)
  show N: "?N \<le> mc ^ maxDepth" using assms leaf_count_bound by blast
  then show N31: "?N \<le> 2 ^ 31" using few_leaves by simp
  then show "trunc32 (max 1 (ceilDivision 64 k mb)) = ?N" unfolding cd leaf_count_def by (rule trunc32_le)
  show "sub32 ?N 1 = ?N - 1" using N31 by (intro sub32_le) (simp_all add: Suc_leI)
  have lower: "(?N - 1) * mb \<le> k" using less_leaf_count_iff [of mb "?N - 1" k] by auto
  then show "(leaf_count mb k - 1) * mb \<le> k" .
  have "k \<le> ?N * mb" using leaf_count_le_iff [of mb k ?N] by simp
  moreover have "?N * mb = (?N - 1) * mb + mb" by (cases ?N) simp_all
  ultimately show z: "k - (?N - 1) * mb \<le> mb" by simp
  have "sub64 k (trunc64 ((?N - 1) * mb)) = k - (?N - 1) * mb"
    using lower k64 by (simp add: sub64_le)
  then show "trunc32 (sub64 k (trunc64 ((?N - 1) * mb))) = k - (?N - 1) * mb" using z sizes(4) by simp
qed

lemma chunk_resized_full:
  assumes "Suc j * mb \<le> k"
  shows "chunk mb (resized k D) j = resized mb (chunk mb D j)"
proof -
  have "j * mb < k" "mb \<le> k - j * mb" using assms mb_pos(1) by (simp_all only: mult_Suc)
  then show ?thesis using chunk_resized [of j mb k D] by (simp add: min_absorb1)
qed

lemma resized_target:
  assumes k: "k \<le> maxSize" and n: "n = leaf_count mb (length D)" and N: "N = leaf_count mb k" and lv: "xs = map (chunk mb D) [0..<n]"
    and Y: "Y = (\<lambda>j. if j < n then resized (k - (N - 1) * mb) (old_leaf mb n N False xs j) else zeroes (k - (N - 1) * mb))"
    and j: "j < N"
  shows "new_leaf mb n (N - 1) N False xs Y j = chunk mb (resized k D) j"
proof -
  have Nk: "(N - 1) * mb \<le> k" unfolding N by (rule leaf_count_arith [OF k])
  have empty: "chunk mb D i = []" if "n \<le> i" for i
    using that leaf_count_le_iff [of mb "length D" i] unfolding n by (simp add: chunk_def)
  have len: "length (chunk mb D i) = mb" if "Suc i < n" for i
    using that less_leaf_count_iff [of mb "Suc i" "length D"] unfolding n by simp
  have zero: "zeroes m = resized m []" for m by (simp add: resized_def)
  have xs: "xs ! i = chunk mb D i" if "i < n" for i using that by (simp add: lv)
  show ?thesis
  proof (cases "j = N - 1")
    case True
    have last: "chunk mb (resized k D) (N - 1) = resized (k - (N - 1) * mb) (chunk mb D (N - 1))"
    proof (cases "(N - 1) * mb < k")
      case True
      have "min mb (k - (N - 1) * mb) = k - (N - 1) * mb" using leaf_count_arith(4) [OF k] unfolding N by (rule min_absorb2)
      then show ?thesis using chunk_resized [OF True, of D] by simp
    next
      case False
      then have "(N - 1) * mb = k" using Nk by simp
      then show ?thesis by (simp add: chunk_def resized_def zeroes_def)
    qed
    have "new_leaf mb n (N - 1) N False xs Y j = Y j" using True j by (simp add: new_leaf_def)
    also have "\<dots> = resized (k - (N - 1) * mb) (chunk mb D j)"
    proof (cases "j < n")
      case in_old: True
      have "old_leaf mb n N False xs j = xs ! j" using True j by (auto simp: old_leaf_def)
      then show ?thesis using in_old xs by (simp add: Y)
    qed (simp add: Y zero empty)
    finally show ?thesis using last True by simp
  next
    case False
    then have jN: "j < N - 1" using j by simp
    then have "Suc j * mb \<le> (N - 1) * mb" by (intro mult_le_mono1) simp
    then have "Suc j * mb \<le> k" using Nk by linarith
    then have "chunk mb (resized k D) j = resized mb (chunk mb D j)" by (rule chunk_resized_full)
    moreover have "new_leaf mb n (N - 1) N False xs Y j = resized mb (chunk mb D j)"
      using jN len [of j] xs [of j] empty [of j] by (auto simp: new_leaf_def old_leaf_def zero resized_full)
    ultimately show ?thesis by simp
  qed
qed

lemma resizeLeaf_visits:
  assumes "z \<le> mb" and "\<And>j. b \<le> j \<Longrightarrow> j < min e n \<Longrightarrow> P j"
  shows "visits (DataTree_resizeOnExistingLeaf env z) (\<lambda>_ _. True) Z (\<lambda>j. if P j then resized z (Z j) else Q j) F b (min e n)"
  unfolding visits_def
proof (intro allI impI, goal_cases)
  case (1 j x s h v)
  have P: "P j" using assms(2) 1 by blast
  obtain w where w: "leaf_bytes L (resized z (Z j)) w"
    "\<And>i. does (at i v) (DataLeafNode_resize bs (uninitialised L) i z) () (\<lambda>h. h(i \<mapsto> w))"
    using leaf_resize_does [OF 1(6) assms(1)] by blast
  show ?case
    unfolding DataTree_resizeOnExistingLeaf_def data_tree_env.select_convs if_P [OF P]
  proof (rule returns_does [OF leaf_handle_does [OF 1(6)]], goal_cases)
    case (3 s1)
    show ?case
    proof (rule returns_does [OF numBytes_does [OF leaf_node [OF 1(6)]]], goal_cases)
      case (3 s2)
      have s2: "supplied s2" "fst s2 = fst s" "heap_of s2 = heap_of s"
        using 3 \<open>fst s1 = _\<close> \<open>heap_of s1 = _\<close> by simp_all
      show ?case
      proof (cases "length (Z j) = z")
        case True
        then have "resized z (Z j) = Z j" by (rule resized_full)
        moreover have "(heap_of s)(lh_blockId h \<mapsto> v) = heap_of s" using 1(5) by (simp add: fun_upd_idem)
        ultimately show ?thesis using True s2 1(6) by auto
      next
        case False
        have "returns (zoom_snd (DataLeafNode_resize bs (uninitialised L) (lh_blockId h) z)) (x, s2)
            (\<lambda>_ t. True \<and> supplied (snd t) \<and> fst (snd t) = fst s \<and>
               (\<exists>w. leaf_bytes L (resized z (Z j)) w \<and> heap_of (snd t) = (heap_of s)(lh_blockId h \<mapsto> w)))"
          by (rule returns_does' [OF w(2)]) (use s2 1(5) w(1) in auto)
        then show ?thesis using False by simp
      qed
    qed (use 3 1(5) in simp_all)
  qed (use 1 in simp_all)
qed

text \<open>The wrapper that a \<open>DataTree\<close> puts around a traversal.\<close>

lemma traversal_object:
  assumes "returns (m (node_of t)) (x, snd r) (\<lambda>node q. \<exists>depth' t'. node = node_of t' \<and> bytes_in (snd q) depth' t' D' \<and>
      blob_step (snd r) (snd q) t t' k \<and> I (fst q))" and "blob_at r t D"
  shows "returns (\<lambda>s. case m (rootNode (fst s)) (x, snd s) of
          (Inl e, q) \<Rightarrow> (Inl e, (fst s, snd q))
        | (Inr root, q) \<Rightarrow> (Inr (g (fst q)), ((fst s)\<lparr>rootNode := root\<rparr>, snd q))) r
    (\<lambda>y q. \<exists>depth' t' z. bytes_in (snd q) depth' t' D' \<and> blob_step (snd r) (snd q) t t' k \<and> I z \<and> y = g z \<and>
       rootNode (fst q) = node_of t' \<and> dt_blockId (fst q) = troot t' \<and> sizeCache (fst q) = sizeCache (fst r))"
proof -
  have id: "dt_blockId (fst r) = troot t" "rootNode (fst r) = node_of t" using assms(2) by (simp_all add: blob_at_def object_ok_def)
  obtain q depth' t' where q: "m (node_of t) (x, snd r) = (Inr (node_of t'), q)" "bytes_in (snd q) depth' t' D'"
      "blob_step (snd r) (snd q) t t' k" "I (fst q)"
    using assms(1) by (auto simp: returns_def)
  moreover from this(3) have "troot t' = troot t" by (simp add: blob_step_def)
  ultimately show ?thesis using id
    by (auto simp: returns_def intro!: exI [of _ depth'] exI [of _ t'] exI [of _ "fst q"])
qed

lemma resize_ok:
  assumes blob: "blob_at r t D" and k: "k \<le> maxSize"
    and room: "room_for 0 (leaf_count mb (length D)) (leaf_count mb k) \<le> length (fst (snd r))"
  shows "returns (DataTree_resizeNumBytes env k) r (\<lambda>_ r'. \<exists>t'. blob_at r' t' (resized k D) \<and>
    blob_step (snd r) (snd r') t t' (room_for 0 (leaf_count mb (length D)) (leaf_count mb k)))"
proof -
  define N where "N = leaf_count mb k"
  define n where "n = leaf_count mb (length D)"
  define z where "z = k - (N - 1) * mb"
  obtain depth where b: "bytes_in (snd r) depth t D" "object_ok (fst r) t D" using blob by (auto simp: blob_at_def)
  note ar = leaf_count_arith [OF k, folded N_def]
  let ?cb = "\<lparr>onExistingLeaf = DataTree_resizeOnExistingLeaf env z, onCreateLeaf = (\<lambda>index. ret (zeroes z)),
    onBacktrackFromSubtree = DataTree_resizeOnBacktrack env N\<rparr> :: (unit, 's) tr_callbacks"
  let ?Z = "old_leaf mb n N False (leaves t)"
  let ?Y = "\<lambda>j. if j < n then resized z (?Z j) else zeroes z"
  have lv: "leaves t = map (chunk mb D) [0..<n]" using b(1) by (simp add: bytes_in_def n_def)
  have Npos: "0 < N" "N - 1 < N" "Suc (N - 1) = N" by (simp_all add: N_def)
  have "visits (onExistingLeaf ?cb) (\<lambda>_ _. True) ?Z ?Y (\<lambda>j. Suc j = n \<and> N = n) (N - 1) (min N n)"
    unfolding tr_callbacks.select_convs by (rule resizeLeaf_visits) (use ar(4) in \<open>simp_all add: z_def\<close>)
  moreover have "creates (onCreateLeaf ?cb) (\<lambda>_ _. True) ?Y (max (N - 1) n) N"
    using ar(4) by (auto simp: creates_def yields_def z_def)
  moreover have "backs (onBacktrackFromSubtree ?cb) True N" using backs_trim [OF ar(6)] by simp
  ultimately have cb: "callbacks_ok ?cb (\<lambda>_ _. True) ?Z ?Y (\<lambda>j. Suc j = n \<and> N = n) (N - 1) n N True N"
    by (simp add: callbacks_ok_def)
  have after: "leaves_after True n (N - 1) N = N" using Npos by (simp add: leaves_after_def)
  have run: "returns (DataTree_traverseLeavesByLeafIndices env (node_of t) (N - 1) N False ?cb) ((), snd r)
    (\<lambda>node q. \<exists>depth' t'. node = node_of t' \<and> bytes_in (snd q) depth' t' (resized k D) \<and>
       blob_step (snd r) (snd q) t t' (room_for 0 n N) \<and> True)"
    by (rule leafIndices_ok [OF b(1) Npos(2) ar(5) n_def cb, where D' = "resized k D"])
      (use Npos room after resized_target [OF k n_def N_def lv refl, folded z_def] in \<open>simp_all flip: n_def N_def\<close>)
  show ?thesis
    unfolding DataTree_resizeNumBytes_def Let_def data_tree_env.select_convs ar(1) [folded N_def] ar(2,3) z_def [symmetric]
      N_def [symmetric] n_def [symmetric]
  proof (rule returns_ebind [OF traversal_object [where g = "\<lambda>_. ()"
        and m = "\<lambda>root. DataTree_traverseLeavesByLeafIndices env root (N - 1) N False ?cb", OF run blob]], elim exE conjE, goal_cases)
    case (1 y q depth' t')
    then show ?case
      by (auto simp: CachedValue_update_def returns_def blob_at_def object_ok_def N_def intro!: exI [of _ t'])
  qed
qed

end

end
