(* ===== verification/TreeIO.thy ===== *)
theory TreeIO
  imports TreeBytes
begin

text \<open>
  Reading and writing ranges of bytes: \<open>DataTree::_traverseLeavesByByteIndices\<close> with the callbacks of
  \<open>readBytes\<close>, \<open>tryReadBytes\<close>, \<open>readAllBytes\<close> and \<open>writeBytes\<close>.
\<close>

context tree_store
begin

section \<open>The part of a range in a leaf\<close>

lemma leaf_piece:
  assumes "k * mb < en" and "off < k * mb + mb" and "off < en" and "en \<le> maxSize"
  shows "trunc64 (k * mb) = k * mb" and "trunc32 (off - k * mb) = off - k * mb"
    and "trunc32 (min mb (sub64 en (k * mb))) = min mb (en - k * mb)"
    and "sub32 (min mb (en - k * mb)) (off - k * mb) = min mb (en - k * mb) - (off - k * mb)"
    and "off - k * mb < min mb (en - k * mb)" and "trunc64 (k * mb + (off - k * mb)) = k * mb + (off - k * mb)"
    and "trunc64 (sub64 (k * mb) off + (off - k * mb)) = k * mb - off"
    and "trunc64 (sub64 (k * mb) off + (off - k * mb) + (min mb (en - k * mb) - (off - k * mb))) =
      (k * mb - off) + (min mb (en - k * mb) - (off - k * mb))"
    and "k * mb + (off - k * mb) - off = k * mb - off"
    and "(k * mb - off) + (min mb (en - k * mb) - (off - k * mb)) \<le> en - off"
    and "off \<le> k * mb + (off - k * mb)"
proof -
  let ?J = "k * mb" and ?b = "off - k * mb" and ?e = "min mb (en - k * mb)"
  have en: "en < 2 ^ 63"
  proof -
    have "maxSize \<le> 2 ^ 31 * mb" using few_leaves by (rule mult_le_mono1)
    also have "\<dots> < 2 ^ 63" using sizes(4) by simp
    finally show ?thesis using assms(4) by linarith
  qed
  have J: "?J < 2 ^ 64" using en assms(1) by simp
  then show "trunc64 ?J = ?J" by (rule trunc_less)
  have "?b < mb" "?b < en - ?J" using assms mb_pos(1) by linarith+
  then show b: "?b < ?e" by simp
  then have b32: "?b < 2 ^ 32" "?e < 2 ^ 32" using sizes(4) by auto
  then show "trunc32 ?b = ?b" by simp
  have "sub64 en ?J = en - ?J" using assms(1) en by (simp add: sub64_le)
  then show "trunc32 (min mb (sub64 en ?J)) = ?e" using b32 by simp
  show "sub32 ?e ?b = ?e - ?b" using b b32 by (simp add: sub32_le)
  show "trunc64 (?J + ?b) = ?J + ?b" using en assms(1,3) by (intro trunc_less(2)) simp
  show "?J + ?b - off = ?J - off" "(?J - off) + (?e - ?b) \<le> en - off" "off \<le> ?J + ?b" using assms by auto
  have s: "sub64 ?J off + ?b = (if ?J < off then 2 ^ 64 else ?J - off)"
  proof (cases "?J < off")
    case True
    then have "?J + (2 ^ 64 - off mod 2 ^ 64) < 2 ^ 64" "off mod 2 ^ 64 = off" using en assms(3) by auto
    then have "sub64 ?J off = ?J + (2 ^ 64 - off)" unfolding sub64_def by (metis mod_less)
    then show ?thesis using True en assms(3) by simp
  next
    case False
    then show ?thesis using J by (simp add: sub64_le)
  qed
  have "trunc64 (2 ^ 64 + m) = m" if "m < 2 ^ 64" for m using that by (simp add: trunc64_def)
  then show "trunc64 (sub64 ?J off + ?b) = ?J - off" "trunc64 (sub64 ?J off + ?b + (?e - ?b)) = (?J - off) + (?e - ?b)"
    unfolding s using J b32 en assms(1) by (auto simp: trunc64_def)
qed

lemma returns_zoom_growing:
  "returns m (snd (fst s), snd s) (\<lambda>x t. Q x ((fst (fst s), fst t), snd t)) \<Longrightarrow> returns (zoom_growing m) s Q"
  by (auto simp: returns_def zoom_growing_def)

lemma yields_zoom_growing:
  "yields m (snd (fst s), snd s) x (\<lambda>t. Q ((fst (fst s), fst t), snd t)) \<Longrightarrow> yields (zoom_growing m) s x Q"
  by (auto simp: yields_def zoom_growing_def)

lemma returns_set_growing: "returns (f ()) ((True, snd (fst s)), snd s) Q \<Longrightarrow> returns (ebind set_growing f) s Q"
  by (simp add: returns_def set_growing_def ebind_def)

lemma yields_set_growing: "yields (f ()) ((True, snd (fst s)), snd s) y Q \<Longrightarrow> yields (ebind set_growing f) s y Q"
  by (simp add: yields_def set_growing_def ebind_def)

text \<open>
  An existing leaf with the content \<open>d\<close>: if it is the last one of the blob and the range goes beyond its
  end, it is grown first.
\<close>

definition leaf_effect :: "(('x, 's) tr_state, unit) exec \<Rightarrow> ('x \<Rightarrow> bool) \<Rightarrow> ('x \<Rightarrow> bool) \<Rightarrow> block_id \<Rightarrow> data \<Rightarrow> data \<Rightarrow> bool" where
  "leaf_effect m J J' i d d' \<longleftrightarrow> (\<forall>x s v. J x \<longrightarrow> supplied s \<longrightarrow> heap_of s i = Some v \<longrightarrow> leaf_bytes L d v \<longrightarrow>
     returns m (x, s) (\<lambda>_ t. J' (fst t) \<and> supplied (snd t) \<and> fst (snd t) = fst s \<and>
       (\<exists>w. leaf_bytes L d' w \<and> heap_of (snd t) = (heap_of s)(i \<mapsto> w))))"

lemma leaf_effect_mono:
  "leaf_effect m J J' i d d' \<Longrightarrow> (\<And>x. K x \<Longrightarrow> J x) \<Longrightarrow> (\<And>x. J' x \<Longrightarrow> K' x) \<Longrightarrow> leaf_effect m K K' i d d'"
  unfolding leaf_effect_def by (fast elim!: returns_mono)

lemma byteOnExistingLeaf_ok:
  assumes piece: "k * mb < en" "off < k * mb + mb" "off < en" "en \<le> maxSize" and F: "F \<longrightarrow> k = sub32 e 1"
    and g: "g' \<longleftrightarrow> g \<or> (F \<and> length d < min mb (en - k * mb))"
    and d2: "d2 = (if F \<and> length d < min mb (en - k * mb) then resized (min mb (en - k * mb)) d else d)"
    and cb: "\<And>h'. lh_blockId h' = lh_blockId h \<Longrightarrow>
      leaf_effect (onExistingLeafBytes cb (k * mb) h' (off - k * mb) (min mb (en - k * mb) - (off - k * mb))) J J' (lh_blockId h) d2 d3"
  shows "leaf_effect (DataTree_byteOnExistingLeaf env off en e cb k F h) (\<lambda>x. fst x = g \<and> J (snd x)) (\<lambda>x. fst x = g' \<and> J' (snd x))
    (lh_blockId h) d d3"
  unfolding leaf_effect_def
proof (intro allI impI, goal_cases)
  case (1 x s v)
  note lp = leaf_piece [OF piece]
  let ?e = "min mb (en - k * mb)" and ?i = "lh_blockId h"
  let ?Q = "\<lambda>_ t. (fst (fst t) = g' \<and> J' (snd (fst t))) \<and> supplied (snd t) \<and> fst (snd t) = fst s \<and>
       (\<exists>w. leaf_bytes L d3 w \<and> heap_of (snd t) = (heap_of s)(?i \<mapsto> w))"
  let ?call = "\<lambda>h'. zoom_growing (onExistingLeafBytes cb (k * mb) h' (off - k * mb) (?e - (off - k * mb)))"
  have call: "returns (?call h') r ?Q"
    if h': "lh_blockId h' = ?i" and r: "fst (fst r) = g'" "snd (fst r) = snd x" "supplied (snd r)" "fst (snd r) = fst s"
      "leaf_bytes L d2 v2" "heap_of (snd r) = (heap_of s)(?i \<mapsto> v2)" for h' r v2
  proof (rule returns_zoom_growing)
    have "returns (onExistingLeafBytes cb (k * mb) h' (off - k * mb) (?e - (off - k * mb))) (snd x, snd r)
        (\<lambda>_ t. J' (fst t) \<and> supplied (snd t) \<and> fst (snd t) = fst (snd r) \<and>
           (\<exists>w. leaf_bytes L d3 w \<and> heap_of (snd t) = (heap_of (snd r))(?i \<mapsto> w)))"
      using cb [OF h', unfolded leaf_effect_def, rule_format, of "snd x" "snd r" v2] 1(1) r by simp
    then show "returns (onExistingLeafBytes cb (k * mb) h' (off - k * mb) (?e - (off - k * mb))) (snd (fst r), snd r)
        (\<lambda>y t. ?Q y ((fst (fst r), fst t), snd t))"
      using r by (auto elim!: returns_mono)
  qed
  have upd: "(heap_of s)(?i \<mapsto> v) = heap_of s" using 1(3) by (simp add: fun_upd_idem)
  show ?case
    unfolding DataTree_byteOnExistingLeaf_def Let_def data_tree_env.select_convs maxZeroSubtraction_eq lp(1-4)
  proof (rule returns_assert [OF piece(1)], cases F)
    case False
    then have d2': "d2 = d" "g' = g" using d2 g by auto
    show "returns (ebind (if F then ebind (assert_exec (k = sub32 e 1) ''If we traversed further right, this wouldn't be the right border leaf.'') (\<lambda>_.
               ebind (zoom_snd (LeafHandle_node bs L h)) (\<lambda>h.
               ebind (zoom_snd (DataLeafNode_numBytes bs (lh_blockId h))) (\<lambda>n.
               if n < ?e
               then ebind (zoom_snd (DataLeafNode_resize bs (uninitialised L) (lh_blockId h) ?e)) (\<lambda>_. ebind set_growing (\<lambda>_. ret h))
               else ret h))) else ret h) ?call) (x, s) ?Q"
      unfolding if_not_P [OF False] returns_ebind_ret
      by (rule call [of h "(x, s)" v]) (use 1 d2' upd in simp_all)
  next
    case True
    show "returns (ebind (if F then ebind (assert_exec (k = sub32 e 1) ''If we traversed further right, this wouldn't be the right border leaf.'') (\<lambda>_.
               ebind (zoom_snd (LeafHandle_node bs L h)) (\<lambda>h.
               ebind (zoom_snd (DataLeafNode_numBytes bs (lh_blockId h))) (\<lambda>n.
               if n < ?e
               then ebind (zoom_snd (DataLeafNode_resize bs (uninitialised L) (lh_blockId h) ?e)) (\<lambda>_. ebind set_growing (\<lambda>_. ret h))
               else ret h))) else ret h) ?call) (x, s) ?Q"
      unfolding if_P [OF True] ebind_assoc
    proof (rule returns_assert, use F True in simp, rule returns_does [OF leaf_handle_does [OF 1(4)]], goal_cases)
      case (3 s1)
      then have s1: "supplied s1" "fst s1 = fst s" "heap_of s1 = heap_of s" by simp_all
      let ?h = "h\<lparr>lh_loaded := True\<rparr>"
      have h: "lh_blockId ?h = ?i" by simp
      show ?case
        unfolding ebind_assoc
      proof (rule returns_does [OF numBytes_does [OF leaf_node [OF 1(4)]]], goal_cases)
        case (3 s2)
        then have s2: "supplied s2" "fst s2 = fst s" "heap_of s2 = heap_of s" using s1 by simp_all
        show ?case
        proof (cases "length d < ?e")
          case False
          then have d2': "d2 = d" "g' = g" using d2 g by auto
          show ?thesis
            unfolding if_not_P [OF False] returns_ebind_ret
            by (rule call [OF h, of _ v]) (use 1 d2' upd s2 in simp_all)
        next
          case less: True
          obtain w where w: "leaf_bytes L (resized ?e d) w"
            "\<And>i. does (at i v) (DataLeafNode_resize bs (uninitialised L) i ?e) () (\<lambda>h. h(i \<mapsto> w))"
            using leaf_resize_does [OF 1(4), of ?e "uninitialised L"] by auto
          show ?thesis
            unfolding if_P [OF less] ebind_assoc h
          proof (rule returns_does [OF w(2)], goal_cases)
            case (3 s3)
            show ?case
              by (rule returns_set_growing, unfold returns_ebind_ret, rule call [OF h, of _ w])
                (use 3 1 s2 d2 g w(1) True less in simp_all)
          qed (use s2 1 in simp_all)
        qed
      qed (use s1 1 in simp_all)
    qed (use 1 in simp_all)
  qed
qed

section \<open>Writing\<close>

lemma write_leaf_effect:
  assumes piece: "k * mb < en" "off < k * mb + mb" "off < en" "en \<le> maxSize" and src: "length src = en - off"
    and d: "min mb (en - k * mb) \<le> length d" and h: "lh_blockId h = i"
  shows "leaf_effect (DataTree_writeOnExistingLeaf env src off (en - off) (k * mb) h (off - k * mb) (min mb (en - k * mb) - (off - k * mb)))
    (\<lambda>_. True) (\<lambda>_. True) i d (write_at (off - k * mb) (slice (k * mb - off) (min mb (en - k * mb) - (off - k * mb)) src) d)"
  unfolding leaf_effect_def
proof (intro allI impI, goal_cases)
  case (1 x s v)
  note lp = leaf_piece [OF piece]
  let ?b = "off - k * mb" and ?n = "min mb (en - k * mb) - (off - k * mb)"
  let ?s = "slice (k * mb - off) ?n src"
  have "?n \<le> length src - (k * mb - off)" using lp(10) src by linarith
  then have len: "length ?s = ?n" by simp
  have fit: "?b + length ?s \<le> length d" unfolding len using lp(5) d by linarith
  have asrt: "trunc64 (k * mb + ?b) \<ge> off \<and> trunc64 (sub64 (k * mb) off + ?b) \<le> en - off \<and>
      trunc64 (sub64 (k * mb) off + ?b + ?n) \<le> en - off"
    unfolding lp(6-8) using lp(10,11) by linarith
  show ?case
    unfolding DataTree_writeOnExistingLeaf_def data_tree_env.select_convs lp(9) h
  proof (rule returns_assert [OF asrt], cases "?b = 0 \<and> ?n = mb")
    case True
    have ld: "length d \<le> mb" using 1(4) by (simp add: leaf_bytes_def)
    have "length ?s = mb" unfolding len using True by blast
    then obtain w where w: "leaf_bytes L ?s w"
      "\<And>i v. does (at i v) (DataNodeStore_overwriteLeaf bs L i ?s) (DataLeafNode i) (\<lambda>h. h(i \<mapsto> w))"
      by (rule overwriteLeaf_does) blast
    have "length ?s = length d" using fit ld \<open>length ?s = mb\<close> by linarith
    then have "write_at ?b ?s d = ?s" using True by (simp only: write_at_0_all)
    then have "returns (ebind (zoom_snd (DataNodeStore_overwriteLeaf bs L i ?s)) (\<lambda>_. ret ())) (x, s)
       (\<lambda>_ t. True \<and> supplied (snd t) \<and> fst (snd t) = fst s \<and>
         (\<exists>w. leaf_bytes L (write_at ?b ?s d) w \<and> heap_of (snd t) = (heap_of s)(i \<mapsto> w)))"
      by (intro returns_does [OF w(2)]) (use 1 w(1) in auto)
    then show "returns (if ?b = 0 \<and> ?n = mb
        then ebind (zoom_snd (DataNodeStore_overwriteLeaf bs L i ?s)) (\<lambda>_. ret ())
        else ebind (zoom_snd (LeafHandle_node bs L h)) (\<lambda>h. zoom_snd (DataLeafNode_write bs (lh_blockId h) ?s ?b))) (x, s)
       (\<lambda>_ t. True \<and> supplied (snd t) \<and> fst (snd t) = fst s \<and>
         (\<exists>w. leaf_bytes L (write_at ?b ?s d) w \<and> heap_of (snd t) = (heap_of s)(i \<mapsto> w)))"
      unfolding if_P [OF True] .
  next
    case False
    have w: "leaf_bytes L (write_at ?b ?s d) (write_at (?b + 8) ?s v)" by (rule leaf_write_bytes [OF 1(4) fit])
    have "returns (ebind (zoom_snd (LeafHandle_node bs L h)) (\<lambda>h. zoom_snd (DataLeafNode_write bs (lh_blockId h) ?s ?b))) (x, s)
       (\<lambda>_ t. True \<and> supplied (snd t) \<and> fst (snd t) = fst s \<and>
         (\<exists>w. leaf_bytes L (write_at ?b ?s d) w \<and> heap_of (snd t) = (heap_of s)(i \<mapsto> w)))"
    proof (rule returns_does [OF leaf_handle_does [OF 1(4)]], goal_cases)
      case (3 s1)
      have "lh_blockId (h\<lparr>lh_loaded := True\<rparr>) = i" using h by simp
      then show ?case
        using 3 1 w h by (auto intro!: returns_does' [OF leaf_write_does [OF 1(4) fit]])
    qed (use 1 h in simp_all)
    then show "returns (if ?b = 0 \<and> ?n = mb
        then ebind (zoom_snd (DataNodeStore_overwriteLeaf bs L i ?s)) (\<lambda>_. ret ())
        else ebind (zoom_snd (LeafHandle_node bs L h)) (\<lambda>h. zoom_snd (DataLeafNode_write bs (lh_blockId h) ?s ?b))) (x, s)
       (\<lambda>_ t. True \<and> supplied (snd t) \<and> fst (snd t) = fst s \<and>
         (\<exists>w. leaf_bytes L (write_at ?b ?s d) w \<and> heap_of (snd t) = (heap_of s)(i \<mapsto> w)))"
      unfolding if_not_P [OF False] .
  qed
qed

lemma write_create_leaf:
  assumes piece: "k * mb < en" "off < k * mb + mb" "off < en" "en \<le> maxSize" and src: "length src = en - off"
    and first: "k = b \<or> off \<le> k * mb" and last: "k = sub32 e 1 \<or> k * mb + mb \<le> en" and D: "length D \<le> k * mb"
  shows "yields (DataTree_byteOnCreateLeaf env False off en b e
      \<lparr>onExistingLeafBytes = f, onCreateLeafBytes = DataTree_writeOnCreateLeaf src off (en - off)\<rparr> k) (x, s)
    (chunk mb (update D off src) k) (\<lambda>t. snd t = s \<and> fst (fst t))"
proof -
  note lp = leaf_piece [OF piece]
  let ?b = "off - k * mb" and ?n = "min mb (en - k * mb) - (off - k * mb)"
  let ?s = "slice (k * mb - off) ?n src"
  have en: "off + length src = en" "src \<noteq> []" using piece(3) src by auto
  have "?n \<le> length src - (k * mb - off)" using lp(10) src by linarith
  then have len: "length ?s = ?n" by simp
  have new: "zeroes ?b @ ?s = chunk mb (update D off src) k"
    using write_new_chunk [of mb k off src D] piece(1,2) en D by simp
  have sub: "sub64 (k * mb + ?b) off = k * mb - off" "trunc64 (k * mb - off + ?n) = k * mb - off + ?n"
  proof -
    have "k * mb + ?b < 2 ^ 64" "k * mb - off + ?n < 2 ^ 64" using maxSize_bound(2) [OF piece(4)] piece(1,3) lp(10) by linarith+
    then show "sub64 (k * mb + ?b) off = k * mb - off" "trunc64 (k * mb - off + ?n) = k * mb - off + ?n"
      using lp(9,11) by (simp_all add: sub64_le)
  qed
  have asrt: "off \<le> k * mb + ?b \<and> k * mb - off \<le> en - off \<and> k * mb - off + ?n \<le> en - off" using lp(10,11) by linarith
  have first': "k = b \<or> ?b = 0" and last': "k = sub32 e 1 \<or> min mb (en - k * mb) = mb" using first last by auto
  have create: "yields (DataTree_writeOnCreateLeaf src off (en - off) (k * mb + ?b) ?n) q ?s (\<lambda>t. t = q)" for q
    using asrt unfolding DataTree_writeOnCreateLeaf_def sub lp(9) by (simp add: yields_def)
  show ?thesis
    unfolding DataTree_byteOnCreateLeaf_def Let_def data_tree_env.select_convs maxZeroSubtraction_eq lp(1-4,6) byte_callbacks.select_convs
  proof (rule yields_assert, simp, rule yields_set_growing, rule yields_assert [OF piece(1)], rule yields_assert [OF first'],
      rule yields_assert [OF last'], rule yields_ebind [OF yields_zoom_growing [where x = ?s and Q = "\<lambda>t. snd t = s \<and> fst (fst t)"]], goal_cases)
    case 1
    show ?case unfolding fst_conv snd_conv using create [of "(snd x, s)"] by (rule yields_mono) simp
  next
    case (2 t)
    have "yields (if ?b \<noteq> 0 then ret (zeroes ?b @ ?s) else ret ?s) t (zeroes ?b @ ?s) (\<lambda>t'. t' = t)"
      unfolding yields_def by (intro exI [of _ t]) (simp add: zeroes_def)
    then show ?case
      unfolding new [symmetric] using 2 by (intro yields_assert [OF len]) (auto elim!: yields_mono)
  qed
qed

text \<open>The range in leaves.\<close>

lemma range_leaves:
  assumes "off < en" and "en \<le> maxSize"
  shows "trunc32 (off div mb) = off div mb" and "trunc32 (ceilDivision 64 en mb) = leaf_count mb en"
    and "off div mb < leaf_count mb en" and "leaf_count mb en \<le> mc ^ maxDepth"
    and "off div mb \<le> k \<Longrightarrow> k < leaf_count mb en \<Longrightarrow> k * mb < en \<and> off < k * mb + mb"
    and "off div mb \<le> k \<Longrightarrow> k = off div mb \<or> off \<le> k * mb"
    and "k < leaf_count mb en \<Longrightarrow> k = sub32 (leaf_count mb en) 1 \<or> k * mb + mb \<le> en"
proof -
  let ?e = "leaf_count mb en"
  note ar = leaf_count_arith [OF assms(2)]
  show e: "?e \<le> mc ^ maxDepth" by (rule ar)
  have "0 < cdiv en mb" using assms(1) by simp
  then have cd: "max 1 (ceilDivision 64 en mb) = ceilDivision 64 en mb"
    using maxSize_bound(1) assms(2) unfolding cdiv_def by (subst (1 2) ceilDivision_eq) auto
  then show "trunc32 (ceilDivision 64 en mb) = ?e" using ar(1) by simp
  show be: "off div mb < ?e"
    using assms(1) by (auto simp: less_leaf_count_iff intro: le_less_trans [OF div_times_less_eq_dividend])
  then show "trunc32 (off div mb) = off div mb" using ar(6) by (intro trunc32_le) linarith
  show "k * mb < en \<and> off < k * mb + mb" if "off div mb \<le> k" "k < ?e"
    using that assms(1) div_less_iff_less_mult [of mb off "Suc k"] by (auto simp: less_leaf_count_iff add.commute)
  show "k = off div mb \<or> off \<le> k * mb" if "off div mb \<le> k"
  proof (cases "k = off div mb")
    case False
    then have "Suc (off div mb) * mb \<le> k * mb" using that by (intro mult_le_mono1) simp
    moreover have "off < Suc (off div mb) * mb" by (simp add: dividend_less_div_times)
    ultimately show ?thesis by linarith
  qed simp
  show "k = sub32 ?e 1 \<or> k * mb + mb \<le> en" if "k < ?e"
  proof (cases "Suc k = ?e")
    case True
    then have "k = ?e - 1" by simp
    then show ?thesis using ar(2) by simp
  next
    case False
    then have "Suc k < ?e" using that by simp
    then show ?thesis by (simp add: less_leaf_count_iff add.commute)
  qed
qed

text \<open>An existing leaf of the range before the bytes are written to it.\<close>

lemma write_base:
  assumes "off < en" and "en \<le> maxSize" and n: "n = leaf_count mb (length D)" and e: "e = leaf_count mb en" and xs: "xs = map (chunk mb D) [0..<n]"
    and k: "off div mb \<le> k" "k < e" "k < n"
  shows "(if (Suc k = n \<and> e = n) \<and> length (old_leaf mb n e False xs k) < min mb (en - k * mb)
      then resized (min mb (en - k * mb)) (old_leaf mb n e False xs k) else old_leaf mb n e False xs k) =
    resized (min mb (max (length D) en - k * mb)) (chunk mb D k)" (is "?d = _")
    and "(Suc k = n \<and> e = n) \<and> length (old_leaf mb n e False xs k) < min mb (en - k * mb) \<longleftrightarrow> Suc k = n \<and> e = n \<and> length D < en"
proof -
  have xk: "xs ! k = chunk mb D k" using k(3) by (simp add: xs)
  have ke: "k * mb < en" using range_leaves(5) [OF assms(1,2), of k] k e by simp
  have en: "en \<le> e * mb" "length D \<le> n * mb"
    using leaf_count_le_iff [of mb en e] leaf_count_le_iff [of mb "length D" n] by (simp_all add: e n)
  have lower: "k = 0 \<or> k * mb < length D" using k(3) less_leaf_count_iff [of mb k "length D"] n by simp
  have full: "Suc k * mb < length D" if "Suc k < n" using that less_leaf_count_iff [of mb "Suc k" "length D"] n by simp
  have more: "n * mb < en" if "n < e" using that less_leaf_count_iff [of mb n en] n e by auto
  have kn: "n * mb = k * mb + mb" if "Suc k = n" using that by auto
  have last: "length (chunk mb D k) = length D - k * mb" if "Suc k = n" using en(2) kn [OF that] by simp
  have less: "length (chunk mb D k) < min mb (en - k * mb) \<longleftrightarrow> length D < en" if "Suc k = n" "e = n"
    unfolding last [OF that(1)] using en(1) kn [OF that(1)] lower ke that(2) mb_pos(1) by auto
  show "(Suc k = n \<and> e = n) \<and> length (old_leaf mb n e False xs k) < min mb (en - k * mb) \<longleftrightarrow> Suc k = n \<and> e = n \<and> length D < en"
    using less xk by (auto simp: old_leaf_def)
  show "?d = resized (min mb (max (length D) en - k * mb)) (chunk mb D k)"
  proof (cases "Suc k = n")
    case False
    then have "length (chunk mb D k) = mb" "min mb (max (length D) en - k * mb) = mb" using full k(3) by auto
    then show ?thesis using False xk by (simp add: old_leaf_def resized_full)
  next
    case True
    then consider "n < e" | "e = n" using k(2) by linarith
    then show ?thesis
    proof cases
      case 1
      then have "min mb (max (length D) en - k * mb) = mb" using more kn [OF True] by auto
      then show ?thesis using 1 True xk by (simp add: old_leaf_def)
    next
      case 2
      have old: "old_leaf mb n e False xs k = chunk mb D k" using 2 xk by (simp add: old_leaf_def)
      show ?thesis
      proof (cases "length D < en")
        case lt: True
        then show ?thesis unfolding old using less [OF True 2] True 2 by (simp add: max_absorb2)
      next
        case False
        then have "min mb (max (length D) en - k * mb) = length (chunk mb D k)" by (simp add: max_absorb1)
        moreover have "\<not> ((Suc k = n \<and> e = n) \<and> length (chunk mb D k) < min mb (en - k * mb))" using less False by blast
        ultimately show ?thesis unfolding old by (simp only: if_False resized_full)
      qed
    qed
  qed
qed

lemma write_target:
  assumes "off < en" and "en \<le> maxSize" and n: "n = leaf_count mb (length D)" and e: "e = leaf_count mb en" and xs: "xs = map (chunk mb D) [0..<n]"
    and en: "off + length src = en" and k: "k < max n e"
  shows "new_leaf mb n (off div mb) e False xs (chunk mb (update D off src)) k = chunk mb (update D off src) k"
proof (cases "off div mb \<le> k \<and> k < e")
  case False
  have be: "off div mb < e" using range_leaves(3) [OF assms(1,2)] e by simp
  have D: "length D \<le> n * mb" "en \<le> e * mb" using leaf_count_le_iff [of mb "length D" n] leaf_count_le_iff [of mb en e] by (simp_all add: n e)
  have full: "Suc k * mb < length D" if "Suc k < n" using that less_leaf_count_iff [of mb "Suc k" "length D"] n by simp
  show ?thesis
  proof (cases "k < off div mb")
    case True
    then have "Suc k * mb \<le> off div mb * mb" by (intro mult_le_mono1) simp
    also have "\<dots> \<le> off" by simp
    finally have upd: "chunk mb (update D off src) k = resized mb (chunk mb D k)" by (intro chunk_update_before) (simp add: add.commute)
    show ?thesis
    proof (cases "k < n")
      case kn: True
      have "Suc k < e" using True be by simp
      then have "Suc k < n \<or> n < e" using kn by linarith
      then show ?thesis
        using True kn full upd by (auto simp: new_leaf_def old_leaf_def xs resized_full)
    next
      case False
      then have "n * mb \<le> k * mb" by (intro mult_le_mono1) simp
      then have "length D \<le> k * mb" using D(1) by linarith
      then have "chunk mb D k = []" by (simp add: chunk_def)
      then show ?thesis using True False upd by (simp add: new_leaf_def resized_def zeroes_def)
    qed
  next
    case ge: False
    then have ke: "e \<le> k" "k < n" using False k by auto
    then have "e * mb \<le> k * mb" by (intro mult_le_mono1) simp
    then have "en \<le> k * mb" using D(2) by linarith
    moreover have "k * mb < length D" using ke be less_leaf_count_iff [of mb k "length D"] n by auto
    ultimately have "chunk mb (update D off src) k = chunk mb D k" using en by (intro chunk_update_after) simp_all
    then show ?thesis using ge ke False by (auto simp: new_leaf_def old_leaf_def xs)
  qed
qed (simp add: new_leaf_def)

lemma write_grows:
  assumes "off < en" and "en \<le> maxSize" and n: "n = leaf_count mb (length D)" and e: "e = leaf_count mb en"
  shows "n < e \<or> (e = n \<and> length D < en) \<longleftrightarrow> length D < en"
proof -
  have "n < e \<Longrightarrow> length D < en"
    using leaf_count_max [of mb "length D" en] n e by (metis linorder_not_less max.absorb1 max.cobounded2 mb_pos(1))
  moreover have "length D < en \<Longrightarrow> n \<le> e"
    using leaf_count_max [of mb "length D" en] n e by (metis less_imp_le max.absorb2 max.cobounded1 mb_pos(1))
  ultimately show ?thesis by auto
qed

lemma visits_effect:
  assumes "\<And>k x h. b \<le> k \<Longrightarrow> k < e \<Longrightarrow> I k x \<Longrightarrow> leaf_effect (f k (F k) h) (\<lambda>y. y = x) (I (Suc k)) (lh_blockId h) (Z k) (Y k)"
  shows "visits f I Z Y F b e"
  using assms unfolding visits_def leaf_effect_def by blast

lemma write_visits:
  assumes en: "off + length src = en" "src \<noteq> []" "en \<le> maxSize" and n: "n = leaf_count mb (length D)" and e: "e = leaf_count mb en"
    and lv: "leaves t = map (chunk mb D) [0..<n]" and b: "b = off div mb"
  shows "visits (DataTree_byteOnExistingLeaf env off en e \<lparr>onExistingLeafBytes = DataTree_writeOnExistingLeaf env src off (length src),
        onCreateLeafBytes = g\<rparr>) (\<lambda>k x. fst x \<longleftrightarrow> b < k \<and> (n < k \<or> (k = n \<and> e = n \<and> length D < en)))
      (old_leaf mb n e False (leaves t)) (chunk mb (update D off src)) (\<lambda>k. Suc k = n \<and> e = n) b (min e n)"
proof (rule visits_effect)
  fix k and x :: "bool \<times> unit" and h :: leaf_handle
  assume k: "b \<le> k" "k < min e n" and Ix: "fst x \<longleftrightarrow> b < k \<and> (n < k \<or> (k = n \<and> e = n \<and> length D < en))"
  have oe: "off < en" using en by (cases src) auto
  have kb: "off div mb \<le> k" "k < e" "k < n" using k b by simp_all
  have pc: "k * mb < en" "off < k * mb + mb" using range_leaves(5) [OF oe en(3) kb(1)] kb(2) e by simp_all
  note base = write_base [OF oe en(3) n e lv kb]
  let ?d2 = "resized (min mb (max (length D) en - k * mb)) (chunk mb D k)"
  have src: "length src = en - off" using en(1) by simp
  have "min mb (en - k * mb) \<le> length ?d2" by simp
  note eff = write_leaf_effect [OF pc oe en(3) src this]
  have chunk: "write_at (off - k * mb) (slice (k * mb - off) (min mb (en - k * mb) - (off - k * mb)) src) ?d2 = chunk mb (update D off src) k"
    using write_chunk [of mb k off src D] pc en by simp
  have "leaf_effect (DataTree_byteOnExistingLeaf env off en e \<lparr>onExistingLeafBytes = DataTree_writeOnExistingLeaf env src off (length src),
        onCreateLeafBytes = g\<rparr> k (Suc k = n \<and> e = n) h) (\<lambda>x. fst x = False \<and> True) (\<lambda>x. fst x = (Suc k = n \<and> e = n \<and> length D < en) \<and> True)
      (lh_blockId h) (old_leaf mb n e False (leaves t) k) (chunk mb (update D off src) k)"
  proof (rule byteOnExistingLeaf_ok [OF pc oe en(3) _ _ base(1) [symmetric], where J = "\<lambda>_. True" and J' = "\<lambda>_. True"])
    show "Suc k = n \<and> e = n \<longrightarrow> k = sub32 e 1" using leaf_count_arith(2) [OF en(3)] e by auto
    show "(Suc k = n \<and> e = n \<and> length D < en) \<longleftrightarrow> False \<or> (Suc k = n \<and> e = n) \<and> length (old_leaf mb n e False (leaves t) k) < min mb (en - k * mb)"
      using base(2) by blast
    fix h' :: leaf_handle assume "lh_blockId h' = lh_blockId h"
    from eff [OF this] show "leaf_effect (onExistingLeafBytes \<lparr>onExistingLeafBytes = DataTree_writeOnExistingLeaf env src off (length src),
        onCreateLeafBytes = g\<rparr> (k * mb) h' (off - k * mb) (min mb (en - k * mb) - (off - k * mb))) (\<lambda>_. True) (\<lambda>_. True)
        (lh_blockId h) ?d2 (chunk mb (update D off src) k)"
      unfolding chunk byte_callbacks.select_convs src .
  qed
  then show "leaf_effect (DataTree_byteOnExistingLeaf env off en e \<lparr>onExistingLeafBytes = DataTree_writeOnExistingLeaf env src off (length src),
        onCreateLeafBytes = g\<rparr> k (Suc k = n \<and> e = n) h) (\<lambda>y. y = x)
      (\<lambda>x. fst x \<longleftrightarrow> b < Suc k \<and> (n < Suc k \<or> (Suc k = n \<and> e = n \<and> length D < en))) (lh_blockId h)
      (old_leaf mb n e False (leaves t) k) (chunk mb (update D off src) k)"
    by (rule leaf_effect_mono) (use k Ix in auto)
qed

lemma write_creates:
  assumes en: "off + length src = en" "src \<noteq> []" "en \<le> maxSize" and n: "n = leaf_count mb (length D)" and e: "e = leaf_count mb en"
    and b: "b = off div mb"
  shows "creates (DataTree_byteOnCreateLeaf env False off en b e \<lparr>onExistingLeafBytes = f, onCreateLeafBytes = DataTree_writeOnCreateLeaf src off (length src)\<rparr>)
      (\<lambda>k x. fst x \<longleftrightarrow> b < k \<and> (n < k \<or> (k = n \<and> e = n \<and> length D < en))) (chunk mb (update D off src)) (max b n) e"
  unfolding creates_def
proof (intro allI impI, goal_cases)
  case (1 k x s)
  have oe: "off < en" using en by (cases src) auto
  note rl = range_leaves [OF oe en(3)]
  have kb: "off div mb \<le> k" "k < leaf_count mb en" "n \<le> k" using 1 b e by simp_all
  have src: "length src = en - off" using en(1) by simp
  have D: "length D \<le> k * mb" using kb(3) leaf_count_le_iff [of mb "length D" k] n by simp
  have pc: "k * mb < en" "off < k * mb + mb" using rl(5) [OF kb(1,2)] by simp_all
  have "yields (DataTree_byteOnCreateLeaf env False off en b e
      \<lparr>onExistingLeafBytes = f, onCreateLeafBytes = DataTree_writeOnCreateLeaf src off (en - off)\<rparr> k) (x, s)
    (chunk mb (update D off src) k) (\<lambda>t. snd t = s \<and> fst (fst t))"
    by (rule write_create_leaf [OF pc oe en(3) src _ _ D]) (use rl(6) [OF kb(1)] rl(7) [OF kb(2)] b e in auto)
  then show ?case
    using kb(3) 1(1) src by (auto elim!: yields_mono)
qed

text \<open>The end of a traversal: the size cache follows the growth.\<close>

lemma growing_done:
  assumes "bytes_in (snd q) depth' t' D'" and "rootNode (fst q) = node_of t'" and "dt_blockId (fst q) = troot t'"
    and "sizeCache (fst q) = sizeCache (fst r)" and "object_ok (fst r) t D" and "\<not> ro \<or> \<not> g"
    and "g \<Longrightarrow> leaf_count mb (length D') = e \<and> length D' = en" and "\<not> g \<Longrightarrow> length D' = length D"
  shows "returns (ebind (assert_exec (\<not> ro \<or> \<not> g) msg) (\<lambda>_.
      ebind (if g then CachedValue_update (\<lambda>cache. Some \<lparr>sc_numLeaves = e, sc_numBytes = en\<rparr>) else ret ()) (\<lambda>_.
      ret result))) q (\<lambda>y r'. y = result \<and> blob_at r' t' D' \<and> snd r' = snd q)"
proof (rule returns_assert [OF assms(6)], cases g)
  case True
  have "blob_at ((fst q)\<lparr>sizeCache := Some \<lparr>sc_numLeaves = e, sc_numBytes = en\<rparr>\<rparr>, snd q) t' D'"
    using assms(1-3,7) True by (auto simp: blob_at_def object_ok_def)
  with True show "returns (ebind (if g then CachedValue_update (\<lambda>cache. Some \<lparr>sc_numLeaves = e, sc_numBytes = en\<rparr>) else ret ()) (\<lambda>_.
      ret result)) q (\<lambda>y r'. y = result \<and> blob_at r' t' D' \<and> snd r' = snd q)"
    by (simp add: returns_def CachedValue_update_def ebind_def)
next
  case False
  have "blob_at q t' D'" using assms(1-5,8) False by (auto simp: blob_at_def object_ok_def)
  with False show "returns (ebind (if g then CachedValue_update (\<lambda>cache. Some \<lparr>sc_numLeaves = e, sc_numBytes = en\<rparr>) else ret ()) (\<lambda>_.
      ret result)) q (\<lambda>y r'. y = result \<and> blob_at r' t' D' \<and> snd r' = snd q)"
    by simp
qed

lemma write_ok:
  assumes blob: "blob_at r t D" and size: "off + length src \<le> maxSize"
    and room: "room_for 0 (leaf_count mb (length D)) (leaf_count mb (off + length src)) \<le> length (fst (snd r))"
  shows "returns (DataTree_writeBytes env src off (length src)) r (\<lambda>_ r'. \<exists>t'. blob_at r' t' (written D off src) \<and>
    blob_step (snd r) (snd r') t t' (room_for 0 (leaf_count mb (length D)) (leaf_count mb (off + length src))))"
proof (cases "src = []")
  case True
  have "evolves (snd r) (snd r) (set (tids t)) (set (tids t))"
    using evolves_frame [OF evolves_refl [of "snd r" "snd r"], of "set (tids t)"] blob_supplied [OF blob] by simp
  then show ?thesis
    using True blob by (auto simp: DataTree_writeBytes_def DataTree_traverseLeavesByByteIndices_def written_def blob_step_def)
next
  case False
  define en where "en = off + length src"
  define n where "n = leaf_count mb (length D)"
  define e where "e = leaf_count mb en"
  define b where "b = off div mb"
  have oe: "off < en" "en \<le> maxSize" "length src \<noteq> 0" using False size by (auto simp: en_def)
  note rl = range_leaves [OF oe(1,2)]
  obtain depth where bi: "bytes_in (snd r) depth t D" "object_ok (fst r) t D" using blob by (auto simp: blob_at_def)
  have lv: "leaves t = map (chunk mb D) [0..<n]" using bi(1) by (simp add: bytes_in_def n_def)
  have tr64: "trunc64 en = en" using maxSize_bound(2) [OF oe(2)] by simp
  let ?bcb = "\<lparr>onExistingLeafBytes = DataTree_writeOnExistingLeaf env src off (length src),
    onCreateLeafBytes = DataTree_writeOnCreateLeaf src off (length src)\<rparr> :: (unit, 's) byte_callbacks"
  let ?cb = "\<lparr>onExistingLeaf = DataTree_byteOnExistingLeaf env off en e ?bcb,
    onCreateLeaf = DataTree_byteOnCreateLeaf env False off en b e ?bcb, onBacktrackFromSubtree = (\<lambda>node. ret ())\<rparr>"
  let ?I = "\<lambda>k x. fst x \<longleftrightarrow> b < k \<and> (n < k \<or> (k = n \<and> e = n \<and> length D < en))"
  have cb: "callbacks_ok ?cb ?I (old_leaf mb n e False (leaves t)) (chunk mb (update D off src)) (\<lambda>k. Suc k = n \<and> e = n) b n e False 0"
    unfolding callbacks_ok_def tr_callbacks.select_convs
    using write_visits [OF en_def [symmetric] False oe(2) n_def e_def lv b_def]
      write_creates [OF en_def [symmetric] False oe(2) n_def e_def b_def] backs_nothing by blast
  have len: "length (update D off src) = max (length D) en" by (simp add: length_update en_def)
  have after: "leaves_after False n b e = max n e" by (simp add: leaves_after_def)
  have run: "returns (DataTree_traverseLeavesByLeafIndices env (node_of t) b e False ?cb) ((False, ()), snd r)
    (\<lambda>node q. \<exists>depth' t'. node = node_of t' \<and> bytes_in (snd q) depth' t' (update D off src) \<and>
       blob_step (snd r) (snd q) t t' (room_for 0 n e) \<and> ?I e (fst q))"
  proof (rule leafIndices_ok [OF bi(1) _ _ n_def cb])
    show "b < e" "e \<le> mc ^ maxDepth" using rl(3,4) by (simp_all add: b_def e_def)
    show "length (chunk mb (update D off src) k) = mb" if "b \<le> k" "Suc k < e" for k
      using that less_leaf_count_iff [of mb "Suc k" en] by (auto simp: len e_def)
    show "leaf_count mb (length (update D off src)) = leaves_after False n b e"
      unfolding after len unfolding n_def e_def by (rule leaf_count_max) simp
    show "new_leaf mb n b e False (leaves t) (chunk mb (update D off src)) k = chunk mb (update D off src) k"
      if "k < leaves_after False n b e" for k
      using write_target [OF oe(1,2) n_def e_def lv en_def [symmetric]] that [unfolded after] by (simp add: b_def)
    show "room_for 0 n e \<le> length (fst (snd r))" using room by (simp add: n_def e_def en_def)
  qed simp_all
  show ?thesis
    unfolding DataTree_writeBytes_def DataTree_traverseLeavesByByteIndices_def if_not_P [OF oe(3)] Let_def tr64 data_tree_env.select_convs
      rl(1) [folded b_def] rl(2) b_def [symmetric] e_def [symmetric] n_def [symmetric] en_def [symmetric]
  proof (rule returns_ebind [OF traversal_object [where g = "\<lambda>z. z"
        and m = "\<lambda>root. DataTree_traverseLeavesByLeafIndices env root b e False ?cb", OF run blob]], elim exE conjE, goal_cases)
    case (1 y q depth' t' z)
    have g: "fst z \<longleftrightarrow> length D < en"
      using 1(3) rl(3) write_grows [OF oe(1,2) n_def e_def] by (auto simp: b_def e_def)
    have sizes': "leaf_count mb (length (update D off src)) = e \<and> length (update D off src) = en" if "fst z"
      using that g by (simp add: len e_def max_absorb2)
    have same: "length (update D off src) = length D" if "\<not> fst z" using that g by (simp add: len max_absorb1)
    have w: "written D off src = update D off src" using False by (simp add: written_def)
    show ?case
      unfolding 1(4) case_prod_unfold w
      by (rule returns_mono [OF growing_done [OF 1(1,5-7) bi(2) _ sizes' same]]) (use 1(2) in auto)
  qed
qed

section \<open>Reading\<close>

lemma slice_add: "slice off (p + m) D = slice off p D @ slice (off + p) m D"
  by (simp add: slice_def take_add drop_drop) (simp add: add.commute)

lemma slice_chunk: "b + m \<le> mb \<Longrightarrow> slice b m (chunk mb D k) = slice (k * mb + b) m D"
  by (simp add: slice_def chunk_def take_drop drop_drop add.commute min_absorb1)

lemma write_at_read: "length A = p \<Longrightarrow> write_at p X (A @ drop p B) = A @ X @ drop (p + length X) B"
  by (simp add: write_at_def add.commute)

text \<open>The buffer when the leaves before \<open>k\<close> have been read.\<close>

definition buffer_at :: "nat \<Rightarrow> nat \<Rightarrow> data \<Rightarrow> data \<Rightarrow> nat \<Rightarrow> data" where
  "buffer_at off en D B k = slice off (min en (k * mb) - off) D @ drop (min en (k * mb) - off) B"

lemma read_leaf_effect:
  assumes piece: "k * mb < en" "off < k * mb + mb" "off < en" "en \<le> maxSize" and D: "en \<le> length D" and h: "lh_blockId h = i"
  shows "leaf_effect (DataTree_readOnExistingLeaf env off (en - off) (k * mb) h (off - k * mb) (min mb (en - k * mb) - (off - k * mb)))
    (\<lambda>buf. buf = buffer_at off en D B k) (\<lambda>buf. buf = buffer_at off en D B (Suc k)) i (chunk mb D k) (chunk mb D k)"
  unfolding leaf_effect_def
proof (intro allI impI, goal_cases)
  case (1 x s v)
  note lp = leaf_piece [OF piece]
  let ?b = "off - k * mb" and ?m = "min mb (en - k * mb) - (off - k * mb)" and ?p = "k * mb - off"
  have fit: "?b + ?m \<le> length (chunk mb D k)" "?b + ?m \<le> mb" using lp(5) D by auto
  have asrt: "trunc64 (k * mb + ?b) \<ge> off \<and> trunc64 (sub64 (k * mb) off + ?b) \<le> en - off \<and>
      trunc64 (sub64 (k * mb) off + ?b + ?m) \<le> en - off"
    unfolding lp(6-8) using lp(10,11) by linarith
  have p: "min en (k * mb) - off = ?p" "min en (Suc k * mb) - off = ?p + ?m" "k * mb + ?b = off + ?p" using piece by auto
  let ?X = "slice ?b ?m (chunk mb D k)"
  have X: "?X = slice (off + ?p) ?m D" using slice_chunk [OF fit(2), of D k] by (simp only: p(3))
  have "length (slice off ?p D) = ?p" using D piece(1) by (simp add: min_absorb1)
  moreover have "length ?X = ?m" unfolding length_slice using fit(1) by linarith
  ultimately have "write_at ?p ?X (slice off ?p D @ drop ?p B) = slice off (?p + ?m) D @ drop (?p + ?m) B"
    using write_at_read [of "slice off ?p D" ?p ?X B] unfolding X slice_add by simp
  then have buf: "write_at ?p ?X (buffer_at off en D B k) = buffer_at off en D B (Suc k)" unfolding buffer_at_def p .
  show ?case
    unfolding DataTree_readOnExistingLeaf_def data_tree_env.select_convs lp(9)
  proof (rule returns_assert [OF asrt], rule returns_does [OF leaf_handle_does [OF 1(4)]], goal_cases)
    case (3 s1)
    then have s1: "supplied s1" "fst s1 = fst s" "heap_of s1 = heap_of s" by simp_all
    have h': "lh_blockId (h\<lparr>lh_loaded := True\<rparr>) = i" using h by simp
    show ?case
      unfolding h'
    proof (rule returns_does [OF leaf_read_does [OF 1(4) fit(1)]], goal_cases)
      case (3 s2)
      have "heap_of s2 = (heap_of s)(i \<mapsto> v)" using 3 s1 1(3) by (simp add: fun_upd_idem)
      then show ?case using 3 s1 1(1,4) buf by (auto simp: returns_def)
    qed (use s1 1 in simp_all)
  qed (use 1 h in simp_all)
qed

lemma read_visits:
  assumes en: "off < en" "en \<le> length D" "length D \<le> maxSize" and n: "n = leaf_count mb (length D)" and e: "e = leaf_count mb en"
    and lv: "leaves t = map (chunk mb D) [0..<n]" and b: "b = off div mb" and en_n: "e \<le> n"
  shows "visits (DataTree_byteOnExistingLeaf env off en e \<lparr>onExistingLeafBytes = DataTree_readOnExistingLeaf env off (en - off),
        onCreateLeafBytes = g\<rparr>) (\<lambda>k x. x = (False, buffer_at off en D B k))
      (old_leaf mb n e False (leaves t)) (chunk mb D) (\<lambda>k. Suc k = n \<and> e = n) b (min e n)"
proof (rule visits_effect)
  fix k and x :: "bool \<times> data" and h :: leaf_handle
  assume k: "b \<le> k" "k < min e n" and Ix: "x = (False, buffer_at off en D B k)"
  have em: "en \<le> maxSize" using en by simp
  have kb: "off div mb \<le> k" "k < e" "k < n" using k b by simp_all
  have pc: "k * mb < en" "off < k * mb + mb" using range_leaves(5) [OF en(1) em kb(1)] kb(2) e by simp_all
  have old: "old_leaf mb n e False (leaves t) k = chunk mb D k" using kb en_n lv by (simp add: old_leaf_def)
  have len: "\<not> length (chunk mb D k) < min mb (en - k * mb)" using en(2) by auto
  have "leaf_effect (DataTree_byteOnExistingLeaf env off en e \<lparr>onExistingLeafBytes = DataTree_readOnExistingLeaf env off (en - off),
        onCreateLeafBytes = g\<rparr> k (Suc k = n \<and> e = n) h) (\<lambda>x. fst x = False \<and> snd x = buffer_at off en D B k)
      (\<lambda>x. fst x = False \<and> snd x = buffer_at off en D B (Suc k)) (lh_blockId h) (chunk mb D k) (chunk mb D k)"
  proof (rule byteOnExistingLeaf_ok [OF pc en(1) em, where J = "\<lambda>x. x = buffer_at off en D B k" and J' = "\<lambda>x. x = buffer_at off en D B (Suc k)"
        and ?d2.0 = "chunk mb D k"])
    show "Suc k = n \<and> e = n \<longrightarrow> k = sub32 e 1" using leaf_count_arith(2) [OF em] e by auto
    fix h' :: leaf_handle assume "lh_blockId h' = lh_blockId h"
    from read_leaf_effect [OF pc en(1) em en(2) this, of B]
    show "leaf_effect (onExistingLeafBytes \<lparr>onExistingLeafBytes = DataTree_readOnExistingLeaf env off (en - off),
        onCreateLeafBytes = g\<rparr> (k * mb) h' (off - k * mb) (min mb (en - k * mb) - (off - k * mb)))
        (\<lambda>x. x = buffer_at off en D B k) (\<lambda>x. x = buffer_at off en D B (Suc k)) (lh_blockId h) (chunk mb D k) (chunk mb D k)"
      unfolding byte_callbacks.select_convs .
  qed (use len in auto)
  then show "leaf_effect (DataTree_byteOnExistingLeaf env off en e \<lparr>onExistingLeafBytes = DataTree_readOnExistingLeaf env off (en - off),
        onCreateLeafBytes = g\<rparr> k (Suc k = n \<and> e = n) h) (\<lambda>y. y = x) (\<lambda>x. x = (False, buffer_at off en D B (Suc k))) (lh_blockId h)
      (old_leaf mb n e False (leaves t) k) (chunk mb D k)"
    unfolding old by (rule leaf_effect_mono) (use Ix in \<open>auto simp: prod_eq_iff\<close>)
qed

lemma leaf_count_mono: "k \<le> m \<Longrightarrow> leaf_count mb k \<le> leaf_count mb m"
  using leaf_count_max [of mb k m] by (metis max.absorb2 max.cobounded1 mb_pos(1))

lemma no_change: "supplied s \<Longrightarrow> blob_step s s t t 0"
  using evolves_frame [OF evolves_refl [of s s], of "set (tids t)"] by (simp add: blob_step_def)

lemma doRead_ok:
  assumes blob: "blob_at r t D" and range: "off + count \<le> length D"
  shows "returns (DataTree_doReadBytes env off count B) r (\<lambda>buf r'. buf = slice off count D @ drop count B \<and>
    (\<exists>t'. blob_at r' t' D \<and> blob_step (snd r) (snd r') t t' 0))"
proof (cases "count = 0")
  case True
  then show ?thesis
    using blob no_change [OF blob_supplied [OF blob], of t]
    by (auto simp: DataTree_doReadBytes_def DataTree_traverseLeavesByByteIndices_def slice_def)
next
  case False
  define en where "en = off + count"
  define n where "n = leaf_count mb (length D)"
  define e where "e = leaf_count mb en"
  define b where "b = off div mb"
  have count: "count = en - off" by (simp add: en_def)
  obtain depth where bi: "bytes_in (snd r) depth t D" "object_ok (fst r) t D" using blob by (auto simp: blob_at_def)
  have oe: "off < en" "en \<le> length D" "length D \<le> maxSize" "en - off \<noteq> 0"
    using False range bytes_size [OF bi(1)] by (auto simp: en_def)
  have em: "en \<le> maxSize" using oe by simp
  note rl = range_leaves [OF oe(1) em]
  have lv: "leaves t = map (chunk mb D) [0..<n]" using bi(1) by (simp add: bytes_in_def n_def)
  have en_n: "e \<le> n" using leaf_count_mono [OF oe(2)] by (simp add: e_def n_def)
  have tr64: "trunc64 (off + (en - off)) = en" using maxSize_bound(2) [OF em] oe(1) by simp
  let ?bcb = "\<lparr>onExistingLeafBytes = DataTree_readOnExistingLeaf env off (en - off),
    onCreateLeafBytes = (\<lambda>beginByte count. throw (AssertFailed ''Reading shouldn't create new leaves.''))\<rparr> :: (data, 's) byte_callbacks"
  let ?cb = "\<lparr>onExistingLeaf = DataTree_byteOnExistingLeaf env off en e ?bcb,
    onCreateLeaf = DataTree_byteOnCreateLeaf env True off en b e ?bcb, onBacktrackFromSubtree = (\<lambda>node. ret ())\<rparr>"
  let ?I = "\<lambda>k x. x = (False, buffer_at off en D B k)"
  have cb: "callbacks_ok ?cb ?I (old_leaf mb n e False (leaves t)) (chunk mb D) (\<lambda>k. Suc k = n \<and> e = n) b n e False 0"
    unfolding callbacks_ok_def tr_callbacks.select_convs
    using read_visits [OF oe(1-3) n_def e_def lv b_def en_n] backs_nothing en_n by (auto simp: creates_def)
  have after: "leaves_after False n b e = n" using en_n by (simp add: leaves_after_def)
  have run: "returns (DataTree_traverseLeavesByLeafIndices env (node_of t) b e True ?cb) ((False, B), snd r)
    (\<lambda>node q. \<exists>depth' t'. node = node_of t' \<and> bytes_in (snd q) depth' t' D \<and> blob_step (snd r) (snd q) t t' (room_for 0 n e) \<and> ?I e (fst q))"
  proof (rule leafIndices_ok [OF bi(1) _ _ n_def cb])
    show "b < e" "e \<le> mc ^ maxDepth" using rl(3,4) by (simp_all add: b_def e_def)
    show "length (chunk mb D k) = mb" if "b \<le> k" "Suc k < e" for k
      using that oe(2) less_leaf_count_iff [of mb "Suc k" en] by (auto simp: e_def)
    show "leaf_count mb (length D) = leaves_after False n b e" unfolding after by (rule n_def [symmetric])
    show "new_leaf mb n b e False (leaves t) (chunk mb D) k = chunk mb D k" if "k < leaves_after False n b e" for k
      using that lv en_n unfolding after by (auto simp: new_leaf_def old_leaf_def)
    show "(False, B) = (False, buffer_at off en D B b)"
    proof -
      have "min en (b * mb) - off = 0" using div_times_less_eq_dividend [of off mb] by (simp add: b_def min.coboundedI2)
      then show ?thesis by (simp add: buffer_at_def slice_def)
    qed
    show "room_for 0 n e \<le> length (fst (snd r))" using en_n by (simp add: room_for_def)
  qed (use en_n in simp_all)
  have "room_for 0 n e = 0" using en_n by (simp add: room_for_def)
  note run = run [unfolded this]
  have "en \<le> e * mb" using leaf_count_le_iff [of mb en e] by (simp add: e_def)
  then have fin: "buffer_at off en D B e = slice off (en - off) D @ drop (en - off) B" by (simp add: buffer_at_def min_absorb1)
  show ?thesis
    unfolding count DataTree_doReadBytes_def DataTree_traverseLeavesByByteIndices_def if_not_P [OF oe(4)] Let_def tr64 data_tree_env.select_convs
      rl(1) [folded b_def] rl(2) b_def [symmetric] e_def [symmetric] n_def [symmetric]
  proof (rule returns_ebind [OF traversal_object [where g = "\<lambda>z. z"
        and m = "\<lambda>root. DataTree_traverseLeavesByLeafIndices env root b e True ?cb", OF run blob]], elim exE conjE, goal_cases)
    case (1 y q depth' t' z)
    show ?case
      unfolding 1(3,4) prod.case fin
      by (rule returns_mono [OF growing_done [OF 1(1,5-7) bi(2)]]) (use 1(2) in auto)
  qed
qed

text \<open>The signed minimum of \<open>tryReadBytes\<close> is the number of bytes there are.\<close>

lemma realCount_eq:
  assumes "sz < 2 ^ 63" and "off < 2 ^ 63" and "count < 2 ^ 63"
  shows "DataTree_realCount sz off count = min count (sz - off)"
proof -
  have sint: "sint (word_of_int k :: u64) = k" if "- (2 ^ 63) \<le> k" "k < 2 ^ 63" for k
    using that by (simp add: signed_of_int signed_take_bit_int_eq_self)
  have "sint (of_nat count :: u64) = int count" using sint [of "int count"] assms(3) by simp
  moreover have "sint (of_nat sz - of_nat off :: u64) = int sz - int off"
    using sint [of "int sz - int off"] assms(1,2) by simp
  ultimately show ?thesis by (auto simp: DataTree_realCount_def)
qed

lemma maxSize_signed: "k \<le> maxSize \<Longrightarrow> k < 2 ^ 63"
proof -
  have "mc ^ maxDepth * mb \<le> 2 ^ 31 * mb" using few_leaves by (intro mult_le_mono) simp_all
  also have "\<dots> < 2 ^ 63" using sizes(4) by simp
  finally show "k \<le> maxSize \<Longrightarrow> k < 2 ^ 63" by simp
qed

lemma blob_size: "blob_at r t D \<Longrightarrow> length D \<le> maxSize"
  unfolding blob_at_def by (elim conjE exE) (rule bytes_size)

lemma blob_step_after: "fst s1 = fst s \<Longrightarrow> heap_of s1 = heap_of s \<Longrightarrow> blob_step s1 s' t t' k \<Longrightarrow> blob_step s s' t t' k"
  by (simp add: blob_step_def evolves_def)

text \<open>What a reading operation does: it returns \<open>x\<close> and leaves the bytes of the blob as they are.\<close>

definition reads :: "'s tree_state \<Rightarrow> tree \<Rightarrow> data \<Rightarrow> 's tree_state \<Rightarrow> bool" where
  "reads r t D r' \<longleftrightarrow> (\<exists>t'. blob_at r' t' D \<and> blob_step (snd r) (snd r') t t' 0)"

lemma reads_after: "fst (snd r1) = fst (snd r) \<Longrightarrow> heap_of (snd r1) = heap_of (snd r) \<Longrightarrow> reads r1 t D r' \<Longrightarrow> reads r t D r'"
  unfolding reads_def by (elim exE conjE) (rule exI, erule conjI, rule blob_step_after)

lemma doRead_after:
  assumes "blob_at r1 t D" and "fst (snd r1) = fst (snd r)" and "heap_of (snd r1) = heap_of (snd r)" and "off + count \<le> length D"
  shows "returns (DataTree_doReadBytes env off count B) r1 (\<lambda>buf r'. buf = slice off count D @ drop count B \<and> reads r t D r')"
  by (rule returns_mono [OF doRead_ok [OF assms(1,4)]]) (use reads_after [OF assms(2,3)] in \<open>simp add: reads_def\<close>)

lemma tryRead_ok:
  assumes "blob_at r t D" and "off < 2 ^ 63" and "count < 2 ^ 63"
  shows "returns (DataTree_tryReadBytes env off count B) r (\<lambda>(m, buf) r'.
    m = min count (length D - off) \<and> buf = slice off m D @ drop m B \<and> reads r t D r')"
  unfolding DataTree_tryReadBytes_def
proof (rule returns_ebind [OF numBytes_ok [OF assms(1)]], elim conjE, goal_cases)
  case (1 sz r1)
  let ?m = "min count (length D - off)"
  have m: "DataTree_realCount sz off count = ?m"
    unfolding 1(1) by (rule realCount_eq) (use assms(2,3) maxSize_signed [OF blob_size [OF assms(1)]] in simp_all)
  show ?case
  proof (cases "off \<le> length D")
    case True
    then show ?thesis unfolding Let_def m by (intro returns_ebind [OF doRead_after [OF 1(2-4)]]) auto
  next
    case False
    then have "?m = 0" by simp
    with 1(2-4) no_change [OF blob_supplied [OF 1(2)], of t] show ?thesis
      unfolding Let_def m
      by (auto simp: DataTree_doReadBytes_def DataTree_traverseLeavesByByteIndices_def slice_def reads_def intro!: blob_step_after)
  qed
qed

lemma read_ok:
  assumes "blob_at r t D" and "off + count \<le> length D"
  shows "returns (DataTree_readBytes env off count B) r (\<lambda>buf r'. buf = slice off count D @ drop count B \<and> reads r t D r')"
  unfolding DataTree_readBytes_def
proof (rule returns_ebind [OF numBytes_ok [OF assms(1)]], elim conjE, goal_cases)
  case (1 sz r1)
  have D: "length D < 2 ^ 63" using maxSize_signed [OF blob_size [OF assms(1)]] .
  then have inside: "\<not> (sz < off \<or> sz < trunc64 (off + count))" using assms(2) 1(1) by (simp add: trunc_less(2))
  have "off < 2 ^ 63" "count < 2 ^ 63" using D assms(2) by simp_all
  from tryRead_ok [OF 1(2) this] show ?case
    unfolding if_not_P [OF inside]
  proof (rule returns_ebind, goal_cases)
    case (1 x r2)
    then show ?case
      using reads_after [OF \<open>fst (snd r1) = _\<close> \<open>heap_of (snd r1) = _\<close>, of t D r2] assms(2) by auto
  qed
qed

lemma read_outside:
  assumes "blob_at r t D" and "off < 2 ^ 63" and "count < 2 ^ 63" and "length D < off + count"
  shows "fst (DataTree_readBytes env off count B r) =
    Inl (RuntimeError ''BlobOnBlocks::read() read outside blob. Use BlobOnBlocks::tryRead() if this should be allowed.'')"
proof -
  obtain r1 where "DataTree_numBytes env r = (Inr (length D), r1)" using numBytes_ok [OF assms(1)] by (auto simp: returns_def)
  then show ?thesis using assms(2-4) by (simp add: DataTree_readBytes_def ebind_def throw_def trunc_less(2))
qed

lemma readAll_ok:
  assumes "blob_at r t D"
  shows "returns (DataTree_readAllBytes fill env) r (\<lambda>buf r'. buf = D \<and> reads r t D r')"
  unfolding DataTree_readAllBytes_def
proof (rule returns_ebind [OF numBytes_ok [OF assms]], elim conjE, goal_cases)
  case (1 sz r1)
  then show ?case by (intro returns_mono [OF doRead_after [OF 1(2-4)]]) auto
qed

end

end
