(* ===== verification/Blobs.thy ===== *)
theory Blobs
  imports DataTrees
begin

text \<open>
  \<open>src/src/blobstore/interface\<close>, \<open>src/src/blobstore/implementations/onblocks/BlobOnBlocks.cpp\<close>,
  \<open>BlobStoreOnBlocks.cpp\<close> and \<open>parallelaccessdatatreestore\<close>: blobs are byte arrays addressed by the
  identifier of the root of their tree. \<open>ParallelAccessDataTreeStore\<close> keeps one \<open>DataTree\<close> object per open
  blob; the model keeps the open objects beside the block store.
\<close>

section \<open>The interface\<close>

text \<open>A blob store as its clients see it, on states \<open>'w\<close>. Blobs are named by their identifier.\<close>

record 'w blob_store =
  blob_create :: "('w, block_id) exec"
  blob_load :: "block_id \<Rightarrow> ('w, bool) exec"
  blob_remove :: "block_id \<Rightarrow> ('w, unit) exec"
  blob_size :: "block_id \<Rightarrow> ('w, nat) exec"
  blob_resize :: "block_id \<Rightarrow> nat \<Rightarrow> ('w, unit) exec"
  blob_readAll :: "block_id \<Rightarrow> ('w, data) exec"
  blob_read :: "block_id \<Rightarrow> nat \<Rightarrow> nat \<Rightarrow> ('w, data) exec"
  blob_tryRead :: "block_id \<Rightarrow> nat \<Rightarrow> nat \<Rightarrow> ('w, data) exec"
  blob_write :: "block_id \<Rightarrow> data \<Rightarrow> nat \<Rightarrow> ('w, unit) exec"
  blob_flush :: "block_id \<Rightarrow> ('w, unit) exec"
  blob_numNodes :: "block_id \<Rightarrow> ('w, nat) exec"
  blob_numBlocks :: "('w, nat) exec"
  blob_estimateSpaceForNumBlocksLeft :: "('w, nat) exec"
  blob_virtualBlocksizeBytes :: nat

section \<open>ParallelAccessDataTreeStore\<close>

type_synonym 's blob_state = "(block_id \<times> data_tree) list \<times> 's hl_state"

definition ParallelAccessDataTreeStore_load :: "'s data_tree_env \<Rightarrow> block_id \<Rightarrow> ('s blob_state, bool) exec" where
  "ParallelAccessDataTreeStore_load E i =
     ebind (gets (\<lambda>s. map_of (fst s) i)) (\<lambda>found.
       case found of
         Some tree \<Rightarrow> ret True
       | None \<Rightarrow>
           ebind (zoom_snd (DataTreeStore_load E i)) (\<lambda>loaded.
             case loaded of
               None \<Rightarrow> ret False
             | Some tree \<Rightarrow> ebind (modify (\<lambda>s. (um_insert (i, tree) (fst s), snd s))) (\<lambda>_. ret True)))"

definition ParallelAccessDataTreeStore_createNewTree :: "'s data_tree_env \<Rightarrow> ('s blob_state, block_id) exec" where
  "ParallelAccessDataTreeStore_createNewTree E =
     ebind (zoom_snd (DataTreeStore_createNewTree E)) (\<lambda>tree.
     ebind (gets (\<lambda>s. map_of (fst s) (dt_blockId tree) = None)) (\<lambda>inserted.
     ebind (assert_exec inserted ''Inserting failed. Already exists.'') (\<lambda>_.
     ebind (modify (\<lambda>s. (um_insert (dt_blockId tree, tree) (fst s), snd s))) (\<lambda>_.
     ret (dt_blockId tree)))))"

text \<open>Removal of a blob whose last reference is the one handed in, and of a closed blob.\<close>

definition ParallelAccessDataTreeStore_remove :: "'s data_tree_env \<Rightarrow> block_id \<Rightarrow> ('s blob_state, unit) exec" where
  "ParallelAccessDataTreeStore_remove E i =
     ebind (gets (\<lambda>s. map_of (fst s) i)) (\<lambda>found.
       case found of
         Some tree \<Rightarrow>
           ebind (modify (\<lambda>s. (AList.delete i (fst s), snd s))) (\<lambda>_.
           zoom_snd (DataTreeStore_remove_tree E tree))
       | None \<Rightarrow> zoom_snd (DataTreeStore_remove E i))"

text \<open>The release of the last reference.\<close>

definition ParallelAccessDataTreeStore_release :: "block_id \<Rightarrow> ('s blob_state, unit) exec" where
  "ParallelAccessDataTreeStore_release i = modify (\<lambda>s. (AList.delete i (fst s), snd s))"

text \<open>An operation of the tree object a reference points to.\<close>

definition DataTreeRef_run :: "block_id \<Rightarrow> ('s tree_state, 'a) exec \<Rightarrow> ('s blob_state, 'a) exec" where
  "DataTreeRef_run i m s =
     (case map_of (fst s) i of
        None \<Rightarrow> (Inl MemoryFault, s)
      | Some tree \<Rightarrow> (case m (tree, snd s) of (r, t) \<Rightarrow> (r, (um_put i (fst t) (fst s), snd t))))"

section \<open>BlobOnBlocks\<close>

definition BlobOnBlocks_size :: "'s data_tree_env \<Rightarrow> block_id \<Rightarrow> ('s blob_state, nat) exec" where
  "BlobOnBlocks_size E i = DataTreeRef_run i (DataTree_numBytes E)"

definition BlobOnBlocks_resize :: "'s data_tree_env \<Rightarrow> block_id \<Rightarrow> nat \<Rightarrow> ('s blob_state, unit) exec" where
  "BlobOnBlocks_resize E i numBytes = DataTreeRef_run i (DataTree_resizeNumBytes E numBytes)"

definition BlobOnBlocks_readAll :: "byte \<Rightarrow> 's data_tree_env \<Rightarrow> block_id \<Rightarrow> ('s blob_state, data) exec" where
  "BlobOnBlocks_readAll fill E i = DataTreeRef_run i (DataTree_readAllBytes fill E)"

text \<open>
  The callers of \<open>read\<close> and \<open>tryRead\<close> pass a buffer of the requested size; \<open>fill\<close> is what it holds before.
\<close>

definition BlobOnBlocks_read :: "byte \<Rightarrow> 's data_tree_env \<Rightarrow> block_id \<Rightarrow> nat \<Rightarrow> nat \<Rightarrow> ('s blob_state, data) exec" where
  "BlobOnBlocks_read fill E i offset count = DataTreeRef_run i (DataTree_readBytes E offset count (replicate count fill))"

definition BlobOnBlocks_tryRead :: "byte \<Rightarrow> 's data_tree_env \<Rightarrow> block_id \<Rightarrow> nat \<Rightarrow> nat \<Rightarrow> ('s blob_state, data) exec" where
  "BlobOnBlocks_tryRead fill E i offset count =
     DataTreeRef_run i (ebind (DataTree_tryReadBytes E offset count (replicate count fill)) (\<lambda>(n, target). ret (take n target)))"

definition BlobOnBlocks_write :: "'s data_tree_env \<Rightarrow> block_id \<Rightarrow> data \<Rightarrow> nat \<Rightarrow> ('s blob_state, unit) exec" where
  "BlobOnBlocks_write E i source offset = DataTreeRef_run i (DataTree_writeBytes E source offset (length source))"

definition BlobOnBlocks_numNodes :: "'s data_tree_env \<Rightarrow> block_id \<Rightarrow> ('s blob_state, nat) exec" where
  "BlobOnBlocks_numNodes E i = DataTreeRef_run i (DataTree_numNodes E)"

section \<open>BlobStoreOnBlocks\<close>

text \<open>\<open>flush\<close> has no effect on open blocks, whose writes are visible at once in this model.\<close>

definition BlobStoreOnBlocks :: "byte \<Rightarrow> nat \<Rightarrow> 's data_tree_env \<Rightarrow> 's blob_state blob_store" where
  "BlobStoreOnBlocks fill physicalBlocksizeBytes E =
     \<lparr>blob_create = ParallelAccessDataTreeStore_createNewTree E,
      blob_load = ParallelAccessDataTreeStore_load E,
      blob_remove = ParallelAccessDataTreeStore_remove E,
      blob_size = BlobOnBlocks_size E,
      blob_resize = BlobOnBlocks_resize E,
      blob_readAll = BlobOnBlocks_readAll fill E,
      blob_read = BlobOnBlocks_read fill E,
      blob_tryRead = BlobOnBlocks_tryRead fill E,
      blob_write = BlobOnBlocks_write E,
      blob_flush = (\<lambda>i. ret ()),
      blob_numNodes = BlobOnBlocks_numNodes E,
      blob_numBlocks = zoom_snd (DataNodeStore_numNodes (dte_nodeStore E)),
      blob_estimateSpaceForNumBlocksLeft =
        zoom_snd (DataNodeStore_estimateSpaceForNumNodesLeft (dte_nodeStore E) physicalBlocksizeBytes),
      blob_virtualBlocksizeBytes = DataNodeStore_virtualBlocksizeBytes (dte_layout E)\<rparr>"

end
