(* ===== verification/BlobArrays.thy ===== *)
theory BlobArrays
  imports TreeIO Blobs
begin

text \<open>
  What a blob store promises to its clients: blobs are byte arrays that can be read, written, resized and
  removed independently of each other. The locale \<open>blob_arrays\<close> states the contract; \<open>BlobStoreOnBlocks\<close>
  keeps it on every block store that the trees work on.
\<close>

section \<open>The contract\<close>

text \<open>
  \<open>rep w M\<close>: the blobs of the state \<open>w\<close> are the byte arrays \<open>M\<close>. \<open>opened w\<close> are the blobs that are open,
  \<open>ids_left w\<close> the identifiers that are left for new blocks, \<open>need m n\<close> how many of them a blob of
  \<open>m\<close> bytes may use to grow to \<open>n\<close> bytes, \<open>limit\<close> the greatest size of a blob.
\<close>

locale blob_arrays =
  fixes B :: "'w blob_store"
    and rep :: "'w \<Rightarrow> (block_id \<rightharpoonup> data) \<Rightarrow> bool"
    and opened :: "'w \<Rightarrow> block_id set"
    and ids_left :: "'w \<Rightarrow> nat"
    and need :: "nat \<Rightarrow> nat \<Rightarrow> nat"
    and limit :: nat
  assumes limit: "limit < 2 ^ 63"
    and shrink: "n \<le> m \<Longrightarrow> need m n = 0"
    and opened: "rep w M \<Longrightarrow> opened w \<subseteq> dom M"
    and within: "rep w M \<Longrightarrow> M i = Some D \<Longrightarrow> length D \<le> limit"
    and create: "rep w M \<Longrightarrow> 0 < ids_left w \<Longrightarrow>
      returns (blob_create B) w (\<lambda>i w'. M i = None \<and> rep w' (M(i \<mapsto> [])) \<and> opened w' = insert i (opened w) \<and>
        ids_left w \<le> Suc (ids_left w'))"
    and load: "rep w M \<Longrightarrow> i \<in> dom M \<Longrightarrow>
      returns (blob_load B i) w (\<lambda>found w'. found \<and> rep w' M \<and> opened w' = insert i (opened w) \<and> ids_left w \<le> ids_left w')"
    and remove: "rep w M \<Longrightarrow> i \<in> dom M \<Longrightarrow>
      returns (blob_remove B i) w (\<lambda>_ w'. rep w' (M(i := None)) \<and> opened w' = opened w - {i} \<and> ids_left w \<le> ids_left w')"
    and size_of: "rep w M \<Longrightarrow> i \<in> opened w \<Longrightarrow> M i = Some D \<Longrightarrow>
      returns (blob_size B i) w (\<lambda>n w'. n = length D \<and> rep w' M \<and> opened w' = opened w \<and> ids_left w \<le> ids_left w')"
    and readAll: "rep w M \<Longrightarrow> i \<in> opened w \<Longrightarrow> M i = Some D \<Longrightarrow>
      returns (blob_readAll B i) w (\<lambda>d w'. d = D \<and> rep w' M \<and> opened w' = opened w \<and> ids_left w \<le> ids_left w')"
    and read: "rep w M \<Longrightarrow> i \<in> opened w \<Longrightarrow> M i = Some D \<Longrightarrow> off + count \<le> length D \<Longrightarrow>
      returns (blob_read B i off count) w (\<lambda>d w'. d = slice off count D \<and> rep w' M \<and> opened w' = opened w \<and> ids_left w \<le> ids_left w')"
    and read_outside: "rep w M \<Longrightarrow> i \<in> opened w \<Longrightarrow> M i = Some D \<Longrightarrow> off < 2 ^ 63 \<Longrightarrow> count < 2 ^ 63 \<Longrightarrow>
      length D < off + count \<Longrightarrow> fst (blob_read B i off count w) =
        Inl (RuntimeError ''BlobOnBlocks::read() read outside blob. Use BlobOnBlocks::tryRead() if this should be allowed.'')"
    and tryRead: "rep w M \<Longrightarrow> i \<in> opened w \<Longrightarrow> M i = Some D \<Longrightarrow> off < 2 ^ 63 \<Longrightarrow> count < 2 ^ 63 \<Longrightarrow>
      returns (blob_tryRead B i off count) w
        (\<lambda>d w'. d = slice off count D \<and> rep w' M \<and> opened w' = opened w \<and> ids_left w \<le> ids_left w')"
    and resize: "rep w M \<Longrightarrow> i \<in> opened w \<Longrightarrow> M i = Some D \<Longrightarrow> n \<le> limit \<Longrightarrow> need (length D) n \<le> ids_left w \<Longrightarrow>
      returns (blob_resize B i n) w
        (\<lambda>_ w'. rep w' (M(i \<mapsto> resized n D)) \<and> opened w' = opened w \<and> ids_left w \<le> ids_left w' + need (length D) n)"
    and write_to: "rep w M \<Longrightarrow> i \<in> opened w \<Longrightarrow> M i = Some D \<Longrightarrow> off + length src \<le> limit \<Longrightarrow>
      need (length D) (off + length src) \<le> ids_left w \<Longrightarrow>
      returns (blob_write B i src off) w
        (\<lambda>_ w'. rep w' (M(i \<mapsto> written D off src)) \<and> opened w' = opened w \<and>
           ids_left w \<le> ids_left w' + need (length D) (off + length src))"

section \<open>The trees of a blob store\<close>

context tree_store
begin

text \<open>
  \<open>blob_heap s T M\<close>: the heap consists of the trees \<open>T\<close>, no two of which share a block, and the tree with
  the root \<open>i\<close> holds the bytes of the blob \<open>i\<close>.
\<close>

definition blob_heap :: "'s hl_state \<Rightarrow> (block_id \<rightharpoonup> tree) \<Rightarrow> (block_id \<rightharpoonup> data) \<Rightarrow> bool" where
  "blob_heap s T M \<longleftrightarrow> supplied s \<and> dom T = dom M \<and>
     (\<forall>i t D. T i = Some t \<longrightarrow> M i = Some D \<longrightarrow> troot t = i \<and> (\<exists>depth. bytes_in s depth t D)) \<and>
     (\<forall>i j t u. T i = Some t \<longrightarrow> T j = Some u \<longrightarrow> i \<noteq> j \<longrightarrow> set (tids t) \<inter> set (tids u) = {}) \<and>
     (\<forall>k. heap_of s k \<noteq> None \<longrightarrow> (\<exists>i t. T i = Some t \<and> k \<in> set (tids t)))"

lemma holds_dom: "holds L h depth t \<Longrightarrow> k \<in> set (tids t) \<Longrightarrow> h k \<noteq> None"
  by (induction L h depth t rule: holds.induct) auto

lemma blob_heapD:
  assumes "blob_heap s T M" and "M i = Some D"
  obtains t depth where "T i = Some t" and "troot t = i" and "bytes_in s depth t D"
  using assms unfolding blob_heap_def by (metis domD domI)

lemma blob_heap_same:
  assumes "blob_heap s T M" and "supplied s'" and "heap_of s' = heap_of s"
  shows "blob_heap s' T M"
  using assms bytes_in_same [of s _ _ _ s'] unfolding blob_heap_def by metis

text \<open>Blobs beside the blocks that an operation changes.\<close>

lemma bytes_in_beside:
  assumes "bytes_in s depth u D" and "evolves s s' A C" and "set (tids u) \<inter> A = {}"
  shows "bytes_in s' depth u D" and "set (tids u) \<inter> C = {}"
proof -
  have tr: "supplied s" "holds L (heap_of s) depth u" using assms(1) by (simp_all add: bytes_in_def tree_in_def)
  have out: "k \<notin> C" "heap_of s' k = heap_of s k" if "k \<in> set (tids u)" for k
    using evolves_outside [OF tr(1) assms(2), of k] holds_dom [OF tr(2) that] that assms(3) by auto
  then show "set (tids u) \<inter> C = {}" by auto
  have "holds L (heap_of s') depth u = holds L (heap_of s) depth u" by (rule holds_cong) (use out(2) in auto)
  then show "bytes_in s' depth u D"
    using assms(1) evolves_supplied [OF assms(2)] by (simp add: bytes_in_def tree_in_def)
qed

lemma blob_heap_change:
  assumes heap: "blob_heap s T M" and evo: "evolves s s' A (set (tids t'))"
    and A: "A = (case T i of None \<Rightarrow> {} | Some t \<Rightarrow> set (tids t))"
    and new: "bytes_in s' depth' t' D'" "troot t' = i"
  shows "blob_heap s' (T(i \<mapsto> t')) (M(i \<mapsto> D'))"
proof -
  have dis: "set (tids u) \<inter> A = {}" if "T j = Some u" "j \<noteq> i" for j u
    using heap that by (auto simp: A blob_heap_def split: option.splits)
  have old: "(\<exists>depth. bytes_in s' depth u D) \<and> troot u = j" if "T j = Some u" "M j = Some D" "j \<noteq> i" for j u D
    using heap that bytes_in_beside(1) [OF _ evo dis [OF that(1,3)]] unfolding blob_heap_def by blast
  have apart: "set (tids u) \<inter> set (tids t') = {}" if "T j = Some u" "j \<noteq> i" for j u
  proof -
    have "j \<in> dom M" using heap that(1) unfolding blob_heap_def by blast
    then obtain D where "M j = Some D" by blast
    then show ?thesis using heap that bytes_in_beside(2) [OF _ evo dis [OF that]] unfolding blob_heap_def by blast
  qed
  have cover: "\<exists>j u. (T(i \<mapsto> t')) j = Some u \<and> k \<in> set (tids u)" if "heap_of s' k \<noteq> None" for k
  proof (cases "k \<in> set (tids t')")
    case False
    then have k: "k \<notin> A" "heap_of s k \<noteq> None" using evo that by (auto simp: evolves_def split: if_splits)
    then obtain j u where "T j = Some u" "k \<in> set (tids u)" using heap unfolding blob_heap_def by blast
    moreover from this have "j \<noteq> i" using k(1) by (auto simp: A)
    ultimately show ?thesis by auto
  qed auto
  show ?thesis
    unfolding blob_heap_def
  proof (intro conjI allI impI)
    show "supplied s'" using evo by (rule evolves_supplied)
    show "dom (T(i \<mapsto> t')) = dom (M(i \<mapsto> D'))" using heap by (simp add: blob_heap_def)
    fix j u D assume "(T(i \<mapsto> t')) j = Some u" "(M(i \<mapsto> D')) j = Some D"
    then show "troot u = j" "\<exists>depth. bytes_in s' depth u D" using old [of j u D] new by (auto split: if_splits)
  next
    fix j k u v assume "(T(i \<mapsto> t')) j = Some u" "(T(i \<mapsto> t')) k = Some v" "j \<noteq> k"
    then show "set (tids u) \<inter> set (tids v) = {}"
      using apart [of j u] apart [of k v] heap by (auto simp: blob_heap_def split: if_splits)
  next
    fix k assume "heap_of s' k \<noteq> None"
    then show "\<exists>j u. (T(i \<mapsto> t')) j = Some u \<and> k \<in> set (tids u)" by (rule cover)
  qed
qed

lemma blob_heap_remove:
  assumes heap: "blob_heap s T M" and t: "T i = Some t"
    and s': "supplied s'" "heap_of s' = without (heap_of s) (set (tids t))"
  shows "blob_heap s' (T(i := None)) (M(i := None))"
proof -
  have dis: "set (tids u) \<inter> set (tids t) = {}" if "T j = Some u" "j \<noteq> i" for j u
    using heap t that unfolding blob_heap_def by blast
  have old: "bytes_in s' depth u D" if "T j = Some u" "j \<noteq> i" "bytes_in s depth u D" for j u D depth
    using that(3) s' holds_without [OF _ dis [OF that(1,2)]] by (simp add: bytes_in_def tree_in_def)
  have cover: "\<exists>j u. (T(i := None)) j = Some u \<and> k \<in> set (tids u)" if "heap_of s' k \<noteq> None" for k
  proof -
    have k: "k \<notin> set (tids t)" "heap_of s k \<noteq> None" using that by (auto simp: s'(2) restrict_map_def split: if_splits)
    then obtain j u where "T j = Some u" "k \<in> set (tids u)" using heap unfolding blob_heap_def by blast
    moreover from this have "j \<noteq> i" using k(1) t by auto
    ultimately show ?thesis by auto
  qed
  show ?thesis
    unfolding blob_heap_def
  proof (intro conjI allI impI)
    show "supplied s'" by (rule s')
    show "dom (T(i := None)) = dom (M(i := None))" using heap by (simp add: blob_heap_def)
    fix j u D assume "(T(i := None)) j = Some u" "(M(i := None)) j = Some D"
    then have j: "T j = Some u" "M j = Some D" "j \<noteq> i" by (auto split: if_splits)
    with heap obtain depth where "bytes_in s depth u D" "troot u = j" unfolding blob_heap_def by blast
    with old [OF j(1,3)] show "troot u = j" "\<exists>depth. bytes_in s' depth u D" by blast+
  next
    fix j k u v assume "(T(i := None)) j = Some u" "(T(i := None)) k = Some v" "j \<noteq> k"
    then show "set (tids u) \<inter> set (tids v) = {}" using heap unfolding blob_heap_def by (metis fun_upd_apply option.distinct(1))
  next
    fix k assume "heap_of s' k \<noteq> None"
    then show "\<exists>j u. (T(i := None)) j = Some u \<and> k \<in> set (tids u)" by (rule cover)
  qed
qed

section \<open>Open blobs\<close>

definition represents :: "'s blob_state \<Rightarrow> (block_id \<rightharpoonup> data) \<Rightarrow> bool" where
  "represents w M \<longleftrightarrow> (\<exists>T. blob_heap (snd w) T M \<and> um_wf (fst w) \<and>
     (\<forall>i tr. map_of (fst w) i = Some tr \<longrightarrow> (\<exists>t D. T i = Some t \<and> M i = Some D \<and> object_ok tr t D)))"

definition open_blobs :: "'s blob_state \<Rightarrow> block_id set" where
  "open_blobs w = dom (map_of (fst w))"

definition growth :: "nat \<Rightarrow> nat \<Rightarrow> nat" where
  "growth m n = room_for 0 (leaf_count mb m) (leaf_count mb n)"

lemma represents_opened: "represents w M \<Longrightarrow> open_blobs w \<subseteq> dom M"
  unfolding represents_def open_blobs_def by blast

lemma represents_size:
  assumes "represents w M" and "M i = Some D"
  shows "length D \<le> maxSize"
proof -
  obtain T where "blob_heap (snd w) T M" using assms(1) by (auto simp: represents_def)
  from blob_heapD [OF this assms(2)] obtain t depth where "bytes_in (snd w) depth t D" by blast
  then show ?thesis by (rule bytes_size)
qed

lemma represents_start:
  assumes "inv b" and "blocks b = Map.empty" and "distinct ids"
  shows "represents ([], (ids, b)) Map.empty"
  using assms by (auto simp: represents_def blob_heap_def supplied_def)

text \<open>A store without blobs has no blocks.\<close>

lemma represents_nothing: "represents w Map.empty \<Longrightarrow> heap_of (snd w) = Map.empty"
  unfolding represents_def blob_heap_def by (intro ext) (metis dom_empty dom_eq_empty_conv option.distinct(1))

text \<open>An operation on the tree object of an open blob.\<close>

lemma run_ok:
  assumes rep: "represents w M" and i: "i \<in> open_blobs w" and D: "M i = Some D"
    and m: "\<And>r t. blob_at r t D \<Longrightarrow> snd r = snd w \<Longrightarrow>
      returns m r (\<lambda>x r'. Q x \<and> (\<exists>t'. blob_at r' t' D' \<and> blob_step (snd r) (snd r') t t' k))"
  shows "returns (DataTreeRef_run i m) w (\<lambda>x w'. Q x \<and> represents w' (M(i \<mapsto> D')) \<and> open_blobs w' = open_blobs w \<and>
    length (fst (snd w)) \<le> length (fst (snd w')) + k)"
proof -
  obtain T where T: "blob_heap (snd w) T M" "um_wf (fst w)"
    "\<And>j tr. map_of (fst w) j = Some tr \<Longrightarrow> \<exists>t D. T j = Some t \<and> M j = Some D \<and> object_ok tr t D"
    using rep by (auto simp: represents_def)
  obtain tr where tr: "map_of (fst w) i = Some tr" using i by (auto simp: open_blobs_def)
  obtain t where t: "T i = Some t" "object_ok tr t D" using T(3) [OF tr] D by auto
  from blob_heapD [OF T(1) D] t(1) obtain depth where b: "bytes_in (snd w) depth t D" "troot t = i" by auto
  have at: "blob_at (tr, snd w) t D" using b t by (auto simp: blob_at_def)
  from m [OF at] obtain x r' t' where run: "m (tr, snd w) = (Inr x, r')" "Q x" "blob_at r' t' D'"
      "blob_step (snd w) (snd r') t t' k"
    by (auto simp: returns_def)
  obtain depth' where b': "bytes_in (snd r') depth' t' D'" "object_ok (fst r') t' D'" using run(3) by (auto simp: blob_at_def)
  have step: "evolves (snd w) (snd r') (set (tids t)) (set (tids t'))" "troot t' = i"
      "length (fst (snd w)) \<le> length (fst (snd r')) + k"
    using run(4) b(2) by (simp_all add: blob_step_def)
  let ?w = "(um_put i (fst r') (fst w), snd r')"
  have "blob_heap (snd r') (T(i \<mapsto> t')) (M(i \<mapsto> D'))"
    by (rule blob_heap_change [OF T(1) step(1) _ b'(1) step(2)]) (simp add: t(1))
  moreover have "\<exists>u E. (T(i \<mapsto> t')) j = Some u \<and> (M(i \<mapsto> D')) j = Some E \<and> object_ok obj u E"
    if "map_of (fst ?w) j = Some obj" for j obj
    using that T(3) [of j obj] b'(2) by (auto split: if_splits)
  ultimately have "represents ?w (M(i \<mapsto> D'))" using um_wf_put [OF T(2), of i "fst r'"] unfolding represents_def by (metis fst_conv snd_conv)
  moreover have "open_blobs ?w = open_blobs w" using tr by (auto simp: open_blobs_def)
  ultimately show ?thesis using run(1,2) step(3) tr by (auto simp: returns_def DataTreeRef_run_def)
qed

text \<open>Opening, creating and removing blobs.\<close>

lemma new_object: "sizeCache (DataTree_new (node_of t)) = None" "object_ok (DataTree_new (node_of t)) t D"
  by (cases t; simp add: object_ok_def DataTree_new_def)+

lemma load_tree:
  assumes "blob_heap s T M" and "M i = Some D"
  shows "returns (DataTreeStore_load env i) s (\<lambda>tree s'. (\<exists>t depth. T i = Some t \<and> tree = Some (DataTree_new (node_of t)) \<and>
      tree_in s' depth t \<and> depth \<le> 10) \<and> blob_heap s' T M \<and> fst s' = fst s \<and> heap_of s' = heap_of s)"
proof -
  obtain t depth where t: "T i = Some t" "troot t = i" "bytes_in s depth t D" by (rule blob_heapD [OF assms])
  have tr: "tree_in s depth t" "depth \<le> 10" using t(3) maxDepth by (auto simp: bytes_in_def)
  obtain v where v: "heap_of s i = Some v" "node_value L depth t v" "supplied s" using tree_value [OF tr(1)] t(2) by metis
  have "reroot i t = t" using t(2) by (cases t) simp_all
  note ld = load_does [OF v(2) tr(2), of i, unfolded this]
  show ?thesis
    unfolding DataTreeStore_load_def data_tree_env.select_convs
  proof (rule returns_step [OF ld v(3)], goal_cases)
    case (2 s')
    then have "blob_heap s' T M" "tree_in s' depth t" using blob_heap_same [OF assms(1)] tr(1) by (simp_all add: tree_in_def)
    then show ?case using 2 t(1) tr(2) by auto
  qed (use v in simp)
qed

lemma load_blob_ok:
  assumes rep: "represents w M" and i: "i \<in> dom M"
  shows "returns (ParallelAccessDataTreeStore_load env i) w (\<lambda>found w'. found \<and> represents w' M \<and>
    open_blobs w' = insert i (open_blobs w) \<and> length (fst (snd w')) = length (fst (snd w)))"
proof (cases "map_of (fst w) i")
  case (Some tr)
  then show ?thesis using rep by (auto simp: returns_def ParallelAccessDataTreeStore_load_def open_blobs_def ebind_def)
next
  case None
  obtain D where D: "M i = Some D" using i by blast
  obtain T where T: "blob_heap (snd w) T M" "um_wf (fst w)"
    "\<And>j tr. map_of (fst w) j = Some tr \<Longrightarrow> \<exists>t D. T j = Some t \<and> M j = Some D \<and> object_ok tr t D"
    using rep by (auto simp: represents_def)
  from load_tree [OF T(1) D] obtain s' t where s': "DataTreeStore_load env i (snd w) = (Inr (Some (DataTree_new (node_of t))), s')"
      "T i = Some t" "blob_heap s' T M" "fst s' = fst (snd w)"
    by (auto simp: returns_def)
  let ?w = "(um_insert (i, DataTree_new (node_of t)) (fst w), s')"
  have "\<exists>u E. T j = Some u \<and> M j = Some E \<and> object_ok obj u E" if "map_of (fst ?w) j = Some obj" for j obj
    using that T(3) [of j obj] s'(2) D new_object(2) [of t D] None by (auto simp: map_of_um_insert split: if_splits)
  then have "represents ?w M" using um_wf_insert [OF T(2)] s'(3) unfolding represents_def by (metis fst_conv snd_conv)
  moreover have "open_blobs ?w = insert i (open_blobs w)" using None by (auto simp: open_blobs_def map_of_um_insert split: if_splits)
  ultimately show ?thesis
    using s'(1,4) None by (auto simp: returns_def ParallelAccessDataTreeStore_load_def ebind_def zoom_snd_def)
qed

lemma create_blob_ok:
  assumes rep: "represents w M" and room: "0 < length (fst (snd w))"
  shows "returns (ParallelAccessDataTreeStore_createNewTree env) w (\<lambda>i w'. M i = None \<and> represents w' (M(i \<mapsto> [])) \<and>
    open_blobs w' = insert i (open_blobs w) \<and> Suc (length (fst (snd w'))) = length (fst (snd w)))"
proof -
  obtain T where T: "blob_heap (snd w) T M" "um_wf (fst w)"
    "\<And>j tr. map_of (fst w) j = Some tr \<Longrightarrow> \<exists>t D. T j = Some t \<and> M j = Some D \<and> object_ok tr t D"
    using rep by (auto simp: represents_def)
  have sup: "supplied (snd w)" "dom T = dom M" using T(1) by (simp_all add: blob_heap_def)
  from create_leaf_grown [OF sup(1), of "[]"] room obtain i s' where
    s': "DataNodeStore_createNewLeafNode bs L [] (snd w) = (Inr (DataLeafNode i), s')" "grown (snd w) s' 0 (Tip i [])"
      "Suc (length (fst s')) = length (fst (snd w))"
    by (auto simp: returns_def)
  have evo: "evolves (snd w) s' {} {i}" and tr: "tree_in s' 0 (Tip i [])" using s'(2) by (simp_all add: grown_def)
  have fresh: "i \<in> set (fst (snd w))" using evo by (auto simp: evolves_def)
  have M: "M i = None"
  proof (rule ccontr)
    assume "M i \<noteq> None"
    then obtain D where "M i = Some D" by blast
    from blob_heapD [OF T(1) this] obtain t depth where "troot t = i" "bytes_in (snd w) depth t D" by blast
    then have "heap_of (snd w) i \<noteq> None" using holds_dom [of "heap_of (snd w)" depth t i] by (auto simp: bytes_in_def tree_in_def)
    then show False using supplied_None [OF sup(1) fresh] by simp
  qed
  then have Ti: "T i = None" using sup(2) by blast
  have lc: "leaf_count mb 0 = 1" by (simp add: leaf_count_def cdiv_def)
  have b: "bytes_in s' 0 (Tip i []) []" using tr by (simp add: bytes_in_def lc chunk_def)
  have heap: "blob_heap s' (T(i \<mapsto> Tip i [])) (M(i \<mapsto> []))"
    by (rule blob_heap_change [OF T(1) _ _ b]) (use evo Ti in simp_all)
  have closed: "map_of (fst w) i = None" using T(3) [of i] M by (cases "map_of (fst w) i") auto
  let ?tree = "DataTree_new (DataLeafNode i)"
  let ?w = "(um_insert (i, ?tree) (fst w), s')"
  have "object_ok ?tree (Tip i []) []" using new_object(2) [of "Tip i []" "[]"] by simp
  then have "\<exists>u E. (T(i \<mapsto> Tip i [])) j = Some u \<and> (M(i \<mapsto> [])) j = Some E \<and> object_ok obj u E"
    if "map_of (fst ?w) j = Some obj" for j obj
    using that T(3) [of j obj] closed by (auto simp: map_of_um_insert split: if_splits)
  then have "represents ?w (M(i \<mapsto> []))" using um_wf_insert [OF T(2)] heap unfolding represents_def by (metis fst_conv snd_conv)
  moreover have "open_blobs ?w = insert i (open_blobs w)" using closed by (auto simp: open_blobs_def map_of_um_insert split: if_splits)
  moreover have "dt_blockId ?tree = i" by (simp add: DataTree_new_def)
  ultimately show ?thesis
    using s'(1,3) closed M
    by (simp add: returns_def ParallelAccessDataTreeStore_createNewTree_def DataTreeStore_createNewTree_def ebind_def zoom_snd_def)
qed

lemma map_of_delete [simp]: "map_of (AList.delete k xs) = (map_of xs)(k := None)"
  by (rule delete_conv')

lemma represents_removed:
  assumes "blob_heap s' (T(i := None)) (M(i := None))" and "um_wf m"
    and "\<And>j tr. map_of m j = Some tr \<Longrightarrow> \<exists>t D. T j = Some t \<and> M j = Some D \<and> object_ok tr t D" and "map_of m' = (map_of m)(i := None)"
    and "um_wf m'"
  shows "represents (m', s') (M(i := None))" and "open_blobs (m', s') = open_blobs (m, s) - {i}"
proof -
  have "\<exists>u E. (T(i := None)) j = Some u \<and> (M(i := None)) j = Some E \<and> object_ok obj u E" if "map_of m' j = Some obj" for j obj
    using that assms(3) [of j obj] assms(4) by (auto split: if_splits)
  then show "represents (m', s') (M(i := None))" using assms(1,5) unfolding represents_def by (metis fst_conv snd_conv)
  show "open_blobs (m', s') = open_blobs (m, s) - {i}" using assms(4) by (auto simp: open_blobs_def split: if_splits)
qed

lemma remove_blob_ok:
  assumes rep: "represents w M" and i: "i \<in> dom M"
  shows "returns (ParallelAccessDataTreeStore_remove env i) w (\<lambda>_ w'. represents w' (M(i := None)) \<and>
    open_blobs w' = open_blobs w - {i} \<and> length (fst (snd w')) = length (fst (snd w)))"
proof -
  obtain D where D: "M i = Some D" using i by blast
  obtain T where T: "blob_heap (snd w) T M" "um_wf (fst w)"
    "\<And>j tr. map_of (fst w) j = Some tr \<Longrightarrow> \<exists>t D. T j = Some t \<and> M j = Some D \<and> object_ok tr t D"
    using rep by (auto simp: represents_def)
  have w: "w = (fst w, snd w)" by simp
  show ?thesis
  proof (cases "map_of (fst w) i")
    case None
    have keep: "map_of (fst w) = (map_of (fst w))(i := None)" using None by (auto simp: fun_eq_iff)
    have "returns (DataTreeStore_remove env i) (snd w)
        (\<lambda>_ s'. blob_heap s' (T(i := None)) (M(i := None)) \<and> fst s' = fst (snd w))"
      unfolding DataTreeStore_remove_def
    proof (rule returns_ebind [OF load_tree [OF T(1) D]], elim exE conjE, goal_cases)
      case (1 tree s1 t depth)
      have root: "rootNode (DataTree_new (node_of t)) = node_of t" by (simp add: DataTree_new_def)
      show ?case
        unfolding \<open>tree = _\<close> option.case DataTreeStore_remove_tree_def data_tree_env.select_convs root
        by (rule returns_mono [OF removeSubtree_ok [OF \<open>tree_in s1 depth t\<close> \<open>depth \<le> 10\<close>]])
          (use 1 blob_heap_remove [OF \<open>blob_heap s1 T M\<close> \<open>T i = Some t\<close>] in auto)
    qed
    then obtain s' where s': "DataTreeStore_remove env i (snd w) = (Inr (), s')" "blob_heap s' (T(i := None)) (M(i := None))" "fst s' = fst (snd w)"
      by (auto simp: returns_def)
    note r = represents_removed [OF s'(2) T(2,3) keep T(2)]
    have "ParallelAccessDataTreeStore_remove env i w = (Inr (), (fst w, s'))"
      using None s'(1) by (simp add: ParallelAccessDataTreeStore_remove_def ebind_def zoom_snd_def)
    then show ?thesis using r(1) r(2) [of "snd w"] s'(3) by (simp add: returns_def)
  next
    case (Some tr)
    obtain t where t: "T i = Some t" "object_ok tr t D" using T(3) [OF Some] D by auto
    from blob_heapD [OF T(1) D] t(1) obtain depth where b: "bytes_in (snd w) depth t D" by auto
    have tri: "tree_in (snd w) depth t" "depth \<le> 10" using b maxDepth by (auto simp: bytes_in_def)
    have "rootNode tr = node_of t" using t(2) by (simp add: object_ok_def)
    with removeSubtree_ok [OF tri] obtain s' where s': "DataTreeStore_remove_tree env tr (snd w) = (Inr (), s')"
        "supplied s'" "fst s' = fst (snd w)" "heap_of s' = without (heap_of (snd w)) (set (tids t))"
      by (auto simp: returns_def DataTreeStore_remove_tree_def)
    note r = represents_removed [OF blob_heap_remove [OF T(1) t(1) s'(2,4)] T(2,3) map_of_delete um_wf_delete [OF T(2)]]
    have "ParallelAccessDataTreeStore_remove env i w = (Inr (), (AList.delete i (fst w), s'))"
      using Some s'(1) by (simp add: ParallelAccessDataTreeStore_remove_def ebind_def zoom_snd_def)
    then show ?thesis using r(1) r(2) [of "snd w"] s'(3) by (simp add: returns_def)
  qed
qed

section \<open>The contract holds\<close>

lemmas store_ops = BlobStoreOnBlocks_def blob_store.select_convs BlobOnBlocks_size_def BlobOnBlocks_resize_def
  BlobOnBlocks_readAll_def BlobOnBlocks_read_def BlobOnBlocks_tryRead_def BlobOnBlocks_write_def

text \<open>A reading operation on an open blob.\<close>

lemma run_reads:
  assumes rep: "represents w M" "i \<in> open_blobs w" "M i = Some D"
    and m: "\<And>r t. blob_at r t D \<Longrightarrow> returns m r (\<lambda>x r'. Q x \<and> reads r t D r')"
  shows "returns (DataTreeRef_run i m) w (\<lambda>x w'. Q x \<and> represents w' M \<and> open_blobs w' = open_blobs w \<and>
    length (fst (snd w)) \<le> length (fst (snd w')))"
proof -
  have M: "M(i \<mapsto> D) = M" using rep(3) by (simp add: fun_upd_idem)
  have "returns m r (\<lambda>x r'. Q x \<and> (\<exists>t'. blob_at r' t' D \<and> blob_step (snd r) (snd r') t t' 0))" if "blob_at r t D" for r t
    using m [OF that] unfolding reads_def .
  from run_ok [OF rep this] show ?thesis unfolding M by simp
qed

lemma reads_refl:
  assumes "blob_at r' t D" and "fst (snd r') = fst (snd r)" and "heap_of (snd r') = heap_of (snd r)"
  shows "reads r t D r'"
  unfolding reads_def using assms(1) blob_step_after [OF assms(2,3) no_change [OF blob_supplied [OF assms(1)]]] by blast

lemma keeps_arrays: "blob_arrays (BlobStoreOnBlocks fill p env) represents open_blobs (\<lambda>w. length (fst (snd w))) growth maxSize"
proof
  show "maxSize < 2 ^ 63" by (rule maxSize_signed) simp
next
  fix m n :: nat assume "n \<le> m"
  then show "growth m n = 0" using leaf_count_mono [of n m] by (simp add: growth_def room_for_def)
next
  fix w :: "'s blob_state" and M assume rep: "represents w M"
  show "open_blobs w \<subseteq> dom M" by (rule represents_opened [OF rep])
  show "length D \<le> maxSize" if "M i = Some D" for i D using represents_size [OF rep that] .
  show "returns (blob_create (BlobStoreOnBlocks fill p env)) w (\<lambda>i w'. M i = None \<and> represents w' (M(i \<mapsto> [])) \<and>
      open_blobs w' = insert i (open_blobs w) \<and> length (fst (snd w)) \<le> Suc (length (fst (snd w'))))" if "0 < length (fst (snd w))"
    unfolding store_ops by (rule returns_mono [OF create_blob_ok [OF rep that]]) auto
  fix i
  show "returns (blob_load (BlobStoreOnBlocks fill p env) i) w (\<lambda>found w'. found \<and> represents w' M \<and>
      open_blobs w' = insert i (open_blobs w) \<and> length (fst (snd w)) \<le> length (fst (snd w')))" if "i \<in> dom M"
    unfolding store_ops by (rule returns_mono [OF load_blob_ok [OF rep that]]) auto
  show "returns (blob_remove (BlobStoreOnBlocks fill p env) i) w (\<lambda>_ w'. represents w' (M(i := None)) \<and>
      open_blobs w' = open_blobs w - {i} \<and> length (fst (snd w)) \<le> length (fst (snd w')))" if "i \<in> dom M"
    unfolding store_ops by (rule returns_mono [OF remove_blob_ok [OF rep that]]) auto
  assume i: "i \<in> open_blobs w"
  fix D assume D: "M i = Some D"
  note rd = run_reads [OF rep i D]
  show "returns (blob_size (BlobStoreOnBlocks fill p env) i) w (\<lambda>n w'. n = length D \<and> represents w' M \<and>
      open_blobs w' = open_blobs w \<and> length (fst (snd w)) \<le> length (fst (snd w')))"
    unfolding store_ops by (rule rd, rule returns_mono [OF numBytes_ok]) (assumption, simp add: reads_refl)
  show "returns (blob_readAll (BlobStoreOnBlocks fill p env) i) w (\<lambda>d w'. d = D \<and> represents w' M \<and>
      open_blobs w' = open_blobs w \<and> length (fst (snd w)) \<le> length (fst (snd w')))"
    unfolding store_ops by (rule rd, rule readAll_ok)
  fix off count :: nat
  have buf: "slice off m D @ drop m (replicate count fill) = slice off m D" if "count \<le> m" for m using that by simp
  show "returns (blob_read (BlobStoreOnBlocks fill p env) i off count) w (\<lambda>d w'. d = slice off count D \<and> represents w' M \<and>
      open_blobs w' = open_blobs w \<and> length (fst (snd w)) \<le> length (fst (snd w')))" if "off + count \<le> length D"
    unfolding store_ops by (rule rd, rule returns_mono [OF read_ok [OF _ that]]) (assumption, simp add: buf)
  show "returns (blob_tryRead (BlobStoreOnBlocks fill p env) i off count) w (\<lambda>d w'. d = slice off count D \<and> represents w' M \<and>
      open_blobs w' = open_blobs w \<and> length (fst (snd w)) \<le> length (fst (snd w')))" if "off < 2 ^ 63" "count < 2 ^ 63"
    unfolding store_ops
  proof (rule rd, rule returns_ebind [OF tryRead_ok [OF _ that]], assumption, goal_cases)
    case (1 r t x r')
    then show ?case by (auto simp: slice_def min_def)
  qed
  show "fst (blob_read (BlobStoreOnBlocks fill p env) i off count w) =
      Inl (RuntimeError ''BlobOnBlocks::read() read outside blob. Use BlobOnBlocks::tryRead() if this should be allowed.'')"
    if "off < 2 ^ 63" "count < 2 ^ 63" "length D < off + count"
  proof -
    obtain T where T: "blob_heap (snd w) T M"
      "\<And>j tr. map_of (fst w) j = Some tr \<Longrightarrow> \<exists>t D. T j = Some t \<and> M j = Some D \<and> object_ok tr t D"
      using rep by (auto simp: represents_def)
    obtain tr where tr: "map_of (fst w) i = Some tr" using i by (auto simp: open_blobs_def)
    obtain t depth where t: "object_ok tr t D" "bytes_in (snd w) depth t D" using T(2) [OF tr] D blob_heapD [OF T(1) D] by fastforce
    then have "blob_at (tr, snd w) t D" by (auto simp: blob_at_def)
    from read_outside [OF this that, of "replicate count fill"] show ?thesis
      by (auto simp: store_ops DataTreeRef_run_def tr split: prod.splits)
  qed
  show "returns (blob_resize (BlobStoreOnBlocks fill p env) i n) w (\<lambda>_ w'. represents w' (M(i \<mapsto> resized n D)) \<and>
      open_blobs w' = open_blobs w \<and> length (fst (snd w)) \<le> length (fst (snd w')) + growth (length D) n)"
    if "n \<le> maxSize" "growth (length D) n \<le> length (fst (snd w))" for n
    unfolding store_ops
  proof (rule returns_mono [OF run_ok [OF rep i D, where Q = "\<lambda>_. True" and D' = "resized n D" and k = "growth (length D) n"]], goal_cases)
    case (1 r t)
    then show ?case using resize_ok [OF 1(1) that(1)] that(2) by (simp add: growth_def)
  qed simp
  show "returns (blob_write (BlobStoreOnBlocks fill p env) i src off) w (\<lambda>_ w'. represents w' (M(i \<mapsto> written D off src)) \<and>
      open_blobs w' = open_blobs w \<and> length (fst (snd w)) \<le> length (fst (snd w')) + growth (length D) (off + length src))"
    if "off + length src \<le> maxSize" "growth (length D) (off + length src) \<le> length (fst (snd w))" for src
    unfolding store_ops
  proof (rule returns_mono [OF run_ok [OF rep i D, where Q = "\<lambda>_. True" and D' = "written D off src" and k = "growth (length D) (off + length src)"]], goal_cases)
    case (1 r t)
    then show ?case using write_ok [OF 1(1) that(1)] that(2) by (simp add: growth_def)
  qed simp
qed

end

end
