(* ===== verification/BlobScripts.thy ===== *)
theory BlobScripts
  imports BlobArrays
begin

text \<open>
  Blob stores as an abstract data type. A script is a sequence of operations that names blobs by the order of
  their creation; its specification works on a list of byte arrays. Every blob store with the contract
  \<open>blob_arrays\<close> answers a script as the specification does, whatever identifiers it hands out.
\<close>

section \<open>Scripts\<close>

datatype blob_op =
  CreateBlob | LoadBlob nat | RemoveBlob nat | SizeOf nat | ResizeTo nat nat | ReadAllOf nat
| ReadFrom nat nat nat | TryReadFrom nat nat nat | WriteInto nat data nat

datatype blob_answer = Done | Found bool | Size nat | Bytes data

text \<open>The script on a blob store: \<open>ids\<close> are the identifiers of the blobs created so far.\<close>

fun run_blob_op :: "'w blob_store \<Rightarrow> block_id list \<Rightarrow> blob_op \<Rightarrow> ('w, block_id list \<times> blob_answer) exec" where
  "run_blob_op B ids CreateBlob = ebind (blob_create B) (\<lambda>i. ret (ids @ [i], Done))"
| "run_blob_op B ids (LoadBlob h) = ebind (blob_load B (ids ! h)) (\<lambda>found. ret (ids, Found found))"
| "run_blob_op B ids (RemoveBlob h) = ebind (blob_remove B (ids ! h)) (\<lambda>_. ret (ids, Done))"
| "run_blob_op B ids (SizeOf h) = ebind (blob_size B (ids ! h)) (\<lambda>n. ret (ids, Size n))"
| "run_blob_op B ids (ResizeTo h n) = ebind (blob_resize B (ids ! h) n) (\<lambda>_. ret (ids, Done))"
| "run_blob_op B ids (ReadAllOf h) = ebind (blob_readAll B (ids ! h)) (\<lambda>d. ret (ids, Bytes d))"
| "run_blob_op B ids (ReadFrom h off n) = ebind (blob_read B (ids ! h) off n) (\<lambda>d. ret (ids, Bytes d))"
| "run_blob_op B ids (TryReadFrom h off n) = ebind (blob_tryRead B (ids ! h) off n) (\<lambda>d. ret (ids, Bytes d))"
| "run_blob_op B ids (WriteInto h src off) = ebind (blob_write B (ids ! h) src off) (\<lambda>_. ret (ids, Done))"

primrec run_script :: "'w blob_store \<Rightarrow> block_id list \<Rightarrow> blob_op list \<Rightarrow> ('w, blob_answer list) exec" where
  "run_script B ids [] = ret []"
| "run_script B ids (x # xs) =
     ebind (run_blob_op B ids x) (\<lambda>(ids', a). ebind (run_script B ids' xs) (\<lambda>as. ret (a # as)))"

section \<open>Specification\<close>

text \<open>The byte arrays in the order of their creation; \<open>None\<close> for one that has been removed.\<close>

type_synonym arrays = "data option list"

fun spec_blob_op :: "arrays \<Rightarrow> blob_op \<Rightarrow> arrays \<times> blob_answer" where
  "spec_blob_op S CreateBlob = (S @ [Some []], Done)"
| "spec_blob_op S (LoadBlob h) = (S, Found True)"
| "spec_blob_op S (RemoveBlob h) = (S[h := None], Done)"
| "spec_blob_op S (SizeOf h) = (S, Size (length (the (S ! h))))"
| "spec_blob_op S (ResizeTo h n) = (S[h := Some (resized n (the (S ! h)))], Done)"
| "spec_blob_op S (ReadAllOf h) = (S, Bytes (the (S ! h)))"
| "spec_blob_op S (ReadFrom h off n) = (S, Bytes (slice off n (the (S ! h))))"
| "spec_blob_op S (TryReadFrom h off n) = (S, Bytes (slice off n (the (S ! h))))"
| "spec_blob_op S (WriteInto h src off) = (S[h := Some (written (the (S ! h)) off src)], Done)"

primrec spec_arrays :: "arrays \<Rightarrow> blob_op list \<Rightarrow> arrays" where
  "spec_arrays S [] = S"
| "spec_arrays S (x # xs) = spec_arrays (fst (spec_blob_op S x)) xs"

primrec spec_script :: "arrays \<Rightarrow> blob_op list \<Rightarrow> blob_answer list" where
  "spec_script S [] = []"
| "spec_script S (x # xs) = snd (spec_blob_op S x) # spec_script (fst (spec_blob_op S x)) xs"

text \<open>An operation is allowed on blobs that exist, within the greatest size, and reads must stay inside the blob.\<close>

fun handle_of :: "blob_op \<Rightarrow> nat option" where
  "handle_of CreateBlob = None"
| "handle_of (LoadBlob h) = Some h"
| "handle_of (RemoveBlob h) = Some h"
| "handle_of (SizeOf h) = Some h"
| "handle_of (ResizeTo h n) = Some h"
| "handle_of (ReadAllOf h) = Some h"
| "handle_of (ReadFrom h off n) = Some h"
| "handle_of (TryReadFrom h off n) = Some h"
| "handle_of (WriteInto h src off) = Some h"

fun sizes_ok :: "nat \<Rightarrow> data \<Rightarrow> blob_op \<Rightarrow> bool" where
  "sizes_ok limit D (ResizeTo h n) \<longleftrightarrow> n \<le> limit"
| "sizes_ok limit D (ReadFrom h off n) \<longleftrightarrow> off + n \<le> length D"
| "sizes_ok limit D (TryReadFrom h off n) \<longleftrightarrow> off < 2 ^ 63 \<and> n < 2 ^ 63"
| "sizes_ok limit D (WriteInto h src off) \<longleftrightarrow> off + length src \<le> limit"
| "sizes_ok limit D _ \<longleftrightarrow> True"

definition op_allowed :: "nat \<Rightarrow> arrays \<Rightarrow> blob_op \<Rightarrow> bool" where
  "op_allowed limit S x =
     (case handle_of x of None \<Rightarrow> True | Some h \<Rightarrow> h < length S \<and> S ! h \<noteq> None \<and> sizes_ok limit (the (S ! h)) x)"

primrec script_allowed :: "nat \<Rightarrow> arrays \<Rightarrow> blob_op list \<Rightarrow> bool" where
  "script_allowed limit S [] \<longleftrightarrow> True"
| "script_allowed limit S (x # xs) \<longleftrightarrow> op_allowed limit S x \<and> script_allowed limit (fst (spec_blob_op S x)) xs"

text \<open>How many identifiers the operations may use up.\<close>

fun op_cost :: "(nat \<Rightarrow> nat \<Rightarrow> nat) \<Rightarrow> arrays \<Rightarrow> blob_op \<Rightarrow> nat" where
  "op_cost need S CreateBlob = 1"
| "op_cost need S (ResizeTo h n) = need (length (the (S ! h))) n"
| "op_cost need S (WriteInto h src off) = need (length (the (S ! h))) (off + length src)"
| "op_cost need S _ = 0"

primrec script_cost :: "(nat \<Rightarrow> nat \<Rightarrow> nat) \<Rightarrow> arrays \<Rightarrow> blob_op list \<Rightarrow> nat" where
  "script_cost need S [] = 0"
| "script_cost need S (x # xs) = op_cost need S x + script_cost need (fst (spec_blob_op S x)) xs"

section \<open>Simulation\<close>

context blob_arrays
begin

definition sim :: "block_id list \<Rightarrow> arrays \<Rightarrow> 'w \<Rightarrow> bool" where
  "sim ids S w \<longleftrightarrow> length ids = length S \<and> (\<exists>M. rep w M \<and>
     (\<forall>h D. h < length S \<longrightarrow> S ! h = Some D \<longrightarrow> M (ids ! h) = Some D \<and> ids ! h \<in> opened w) \<and>
     (\<forall>h h'. h < length S \<longrightarrow> h' < length S \<longrightarrow> S ! h \<noteq> None \<longrightarrow> S ! h' \<noteq> None \<longrightarrow> ids ! h = ids ! h' \<longrightarrow> h = h') \<and>
     (\<forall>i\<in>dom M. \<exists>h<length S. S ! h \<noteq> None \<and> ids ! h = i))"

lemma sim_change:
  assumes "sim ids S w" and "h < length S" and "S ! h = Some D"
    and "\<And>M. rep w M \<Longrightarrow> M (ids ! h) = Some D \<Longrightarrow> ids ! h \<in> opened w \<Longrightarrow>
      returns m w (\<lambda>x w'. Q x \<and> rep w' (M(ids ! h := D')) \<and> opened w - {ids ! h} \<subseteq> opened w' \<and> (D' \<noteq> None \<longrightarrow> ids ! h \<in> opened w') \<and>
        ids_left w \<le> ids_left w' + k)"
  shows "returns m w (\<lambda>x w'. Q x \<and> sim ids (S[h := D']) w' \<and> ids_left w \<le> ids_left w' + k)"
proof -
  let ?i = "ids ! h"
  obtain M where len: "length ids = length S" and M: "rep w M"
    "\<And>h D. h < length S \<Longrightarrow> S ! h = Some D \<Longrightarrow> M (ids ! h) = Some D \<and> ids ! h \<in> opened w"
    "\<And>h h'. h < length S \<Longrightarrow> h' < length S \<Longrightarrow> S ! h \<noteq> None \<Longrightarrow> S ! h' \<noteq> None \<Longrightarrow> ids ! h = ids ! h' \<Longrightarrow> h = h'"
    "\<And>i. i \<in> dom M \<Longrightarrow> \<exists>h<length S. S ! h \<noteq> None \<and> ids ! h = i"
    using assms(1) unfolding sim_def by blast
  have "M ?i = Some D" "?i \<in> opened w" using M(2) [OF assms(2,3)] by simp_all
  from assms(4) [OF M(1) this] show ?thesis
  proof (rule returns_mono, elim conjE, intro conjI)
    fix x w' assume w': "rep w' (M(?i := D'))" "opened w - {?i} \<subseteq> opened w'" "D' \<noteq> None \<longrightarrow> ?i \<in> opened w'"
    have other: "ids ! h' \<noteq> ?i" if "h' < length S" "S ! h' \<noteq> None" "h' \<noteq> h" for h'
      using M(3) [OF that(1) assms(2) that(2)] assms(3) that(3) by auto
    have alive: "(M(?i := D')) (ids ! h') = Some E \<and> ids ! h' \<in> opened w'" if "h' < length S" "S[h := D'] ! h' = Some E" for h' E
    proof (cases "h' = h")
      case True
      then show ?thesis using that w'(3) by simp
    next
      case False
      then have "S ! h' = Some E" using that by simp
      then show ?thesis using M(2) [OF that(1)] other [OF that(1) _ False] w'(2) by auto
    qed
    have before: "S ! h' \<noteq> None" if "S[h := D'] ! h' \<noteq> None" "h' < length S" for h'
      using that assms(3) by (cases "h' = h") auto
    have all: "\<exists>h'<length S. S[h := D'] ! h' \<noteq> None \<and> ids ! h' = j" if j: "j \<in> dom (M(?i := D'))" for j
    proof (cases "j = ?i")
      case True
      then show ?thesis using j assms(2) by (intro exI [of _ h]) (auto split: if_splits)
    next
      case False
      then have "j \<in> dom M" using j by (auto split: if_splits)
      then obtain h' where "h' < length S" "S ! h' \<noteq> None" "ids ! h' = j" using M(4) by blast
      moreover from this False have "h' \<noteq> h" by auto
      ultimately show ?thesis by (intro exI [of _ h']) simp
    qed
    show "sim ids (S[h := D']) w'"
      unfolding sim_def length_list_update
    proof (intro conjI exI [of _ "M(?i := D')"] allI impI ballI)
      fix k k' assume "k < length S" "k' < length S" "S[h := D'] ! k \<noteq> None" "S[h := D'] ! k' \<noteq> None" "ids ! k = ids ! k'"
      then show "k = k'" using M(3) [of k k'] before by blast
    qed (use alive all len w'(1) in blast)+
  qed
qed

lemma sim_keep:
  assumes "sim ids S w" and "h < length S" and "S ! h = Some D"
    and m: "\<And>M. rep w M \<Longrightarrow> M (ids ! h) = Some D \<Longrightarrow> ids ! h \<in> opened w \<Longrightarrow>
      returns m w (\<lambda>x w'. Q x \<and> rep w' M \<and> opened w' = opened w \<and> ids_left w \<le> ids_left w')"
  shows "returns m w (\<lambda>x w'. Q x \<and> sim ids S w' \<and> ids_left w \<le> ids_left w')"
proof -
  have S: "S[h := Some D] = S" using assms(3) by (metis list_update_id)
  have "returns m w (\<lambda>x w'. Q x \<and> sim ids (S[h := Some D]) w' \<and> ids_left w \<le> ids_left w' + 0)"
  proof (rule sim_change [OF assms(1-3)])
    fix M assume M: "rep w M" "M (ids ! h) = Some D" "ids ! h \<in> opened w"
    have "M(ids ! h := Some D) = M" using M(2) by (simp add: fun_upd_idem)
    then show "returns m w (\<lambda>x w'. Q x \<and> rep w' (M(ids ! h := Some D)) \<and> opened w - {ids ! h} \<subseteq> opened w' \<and>
        (Some D \<noteq> None \<longrightarrow> ids ! h \<in> opened w') \<and> ids_left w \<le> ids_left w' + 0)"
      using m [OF M] M(3) by (auto elim!: returns_mono)
  qed
  then show ?thesis unfolding S by simp
qed

lemma sim_create:
  assumes "sim ids S w" and "0 < ids_left w"
  shows "returns (blob_create B) w (\<lambda>i w'. sim (ids @ [i]) (S @ [Some []]) w' \<and> ids_left w \<le> ids_left w' + 1)"
proof -
  obtain M where len: "length ids = length S" and M: "rep w M"
    "\<And>h D. h < length S \<Longrightarrow> S ! h = Some D \<Longrightarrow> M (ids ! h) = Some D \<and> ids ! h \<in> opened w"
    "\<And>h h'. h < length S \<Longrightarrow> h' < length S \<Longrightarrow> S ! h \<noteq> None \<Longrightarrow> S ! h' \<noteq> None \<Longrightarrow> ids ! h = ids ! h' \<Longrightarrow> h = h'"
    "\<And>i. i \<in> dom M \<Longrightarrow> \<exists>h<length S. S ! h \<noteq> None \<and> ids ! h = i"
    using assms(1) unfolding sim_def by blast
  from create [OF M(1) assms(2)] show ?thesis
  proof (rule returns_mono, elim conjE, intro conjI)
    fix i w' assume i: "M i = None" "rep w' (M(i \<mapsto> []))" "opened w' = insert i (opened w)"
    have new: "ids ! h \<noteq> i" if "h < length S" "S ! h \<noteq> None" for h using M(2) [OF that(1)] that(2) i(1) by auto
    show "sim (ids @ [i]) (S @ [Some []]) w'"
      unfolding sim_def
    proof (intro conjI exI [of _ "M(i \<mapsto> [])"] allI impI)
      fix h D assume "h < length (S @ [Some []])" "(S @ [Some []]) ! h = Some D"
      then show "(M(i \<mapsto> [])) ((ids @ [i]) ! h) = Some D" "(ids @ [i]) ! h \<in> opened w'"
        using M(2) [of h D] new [of h] len i(3) by (auto simp: nth_append less_Suc_eq split: if_splits)
    next
      fix h h' assume "h < length (S @ [Some []])" "h' < length (S @ [Some []])" "(S @ [Some []]) ! h \<noteq> None"
        "(S @ [Some []]) ! h' \<noteq> None" "(ids @ [i]) ! h = (ids @ [i]) ! h'"
      then show "h = h'"
        using M(3) [of h h'] new [of h] new [of h'] len by (auto simp: nth_append less_Suc_eq split: if_splits)
    next
      show "\<forall>j\<in>dom (M(i \<mapsto> [])). \<exists>h<length (S @ [Some []]). (S @ [Some []]) ! h \<noteq> None \<and> (ids @ [i]) ! h = j"
      proof
        fix j assume j: "j \<in> dom (M(i \<mapsto> []))"
        show "\<exists>h<length (S @ [Some []]). (S @ [Some []]) ! h \<noteq> None \<and> (ids @ [i]) ! h = j"
        proof (cases "j = i")
          case True
          then show ?thesis using len by (intro exI [of _ "length S"]) (simp add: nth_append)
        next
          case False
          then have "j \<in> dom M" using j by auto
          then obtain h where "h < length S" "S ! h \<noteq> None" "ids ! h = j" using M(4) by blast
          then show ?thesis using len by (intro exI [of _ h]) (simp add: nth_append)
        qed
      qed
    qed (use len i in simp_all)
  qed simp
qed

lemma op_simulates:
  assumes s: "sim ids S w" and ok: "op_allowed limit S x" and cost: "op_cost need S x \<le> ids_left w"
  shows "returns (run_blob_op B ids x) w (\<lambda>(ids', a) w'. sim ids' (fst (spec_blob_op S x)) w' \<and> a = snd (spec_blob_op S x) \<and>
    ids_left w \<le> ids_left w' + op_cost need S x)"
proof (cases "handle_of x")
  case None
  then have x: "x = CreateBlob" by (cases x) simp_all
  show ?thesis unfolding x run_blob_op.simps by (rule returns_ebind [OF sim_create [OF s]]) (use cost x in auto)
next
  case (Some h)
  then have h: "h < length S" and sz: "sizes_ok limit (the (S ! h)) x" and "S ! h \<noteq> None" using ok by (auto simp: op_allowed_def)
  then obtain D where D: "S ! h = Some D" by blast
  note keep = sim_keep [OF s h D] and change = sim_change [OF s h D]
  show ?thesis
  proof (cases x)
    case CreateBlob
    then show ?thesis using Some by simp
  next
    case (LoadBlob h')
    have "returns (blob_load B (ids ! h)) w (\<lambda>x w'. x \<and> sim ids S w' \<and> ids_left w \<le> ids_left w')"
      by (rule keep, rule returns_mono [OF load], assumption+) (use sz cost LoadBlob Some D in \<open>auto simp: insert_absorb\<close>)
    then have "returns (run_blob_op B ids x) w (\<lambda>(ids', a) w'. sim ids' (fst (spec_blob_op S x)) w' \<and> a = snd (spec_blob_op S x) \<and>
        ids_left w \<le> ids_left w' + op_cost need S x)"
      using LoadBlob Some D by (auto intro!: returns_ebind elim: returns_mono)
    then show ?thesis .
  next
    case (RemoveBlob h')
    have "returns (blob_remove B (ids ! h)) w (\<lambda>x w'. True \<and> sim ids (S[h := None]) w' \<and> ids_left w \<le> ids_left w' + 0)"
      by (rule change, rule returns_mono [OF remove], assumption+) (use sz cost RemoveBlob Some D in \<open>auto\<close>)
    then have "returns (run_blob_op B ids x) w (\<lambda>(ids', a) w'. sim ids' (fst (spec_blob_op S x)) w' \<and> a = snd (spec_blob_op S x) \<and>
        ids_left w \<le> ids_left w' + op_cost need S x)"
      using RemoveBlob Some D by (auto intro!: returns_ebind elim: returns_mono)
    then show ?thesis .
  next
    case (SizeOf h')
    have "returns (blob_size B (ids ! h)) w (\<lambda>x w'. x = length D \<and> sim ids S w' \<and> ids_left w \<le> ids_left w')"
      by (rule keep, rule size_of)
    then have "returns (run_blob_op B ids x) w (\<lambda>(ids', a) w'. sim ids' (fst (spec_blob_op S x)) w' \<and> a = snd (spec_blob_op S x) \<and>
        ids_left w \<le> ids_left w' + op_cost need S x)"
      using SizeOf Some D by (auto intro!: returns_ebind elim: returns_mono)
    then show ?thesis .
  next
    case (ResizeTo h' n)
    have "returns (blob_resize B (ids ! h) n) w (\<lambda>x w'. True \<and> sim ids (S[h := Some (resized n D)]) w' \<and> ids_left w \<le> ids_left w' + need (length D) n)"
      by (rule change, rule returns_mono [OF resize], assumption+) (use sz cost ResizeTo Some D in \<open>auto\<close>)
    then have "returns (run_blob_op B ids x) w (\<lambda>(ids', a) w'. sim ids' (fst (spec_blob_op S x)) w' \<and> a = snd (spec_blob_op S x) \<and>
        ids_left w \<le> ids_left w' + op_cost need S x)"
      using ResizeTo Some D by (auto intro!: returns_ebind elim: returns_mono)
    then show ?thesis .
  next
    case (ReadAllOf h')
    have "returns (blob_readAll B (ids ! h)) w (\<lambda>x w'. x = D \<and> sim ids S w' \<and> ids_left w \<le> ids_left w')"
      by (rule keep, rule readAll)
    then have "returns (run_blob_op B ids x) w (\<lambda>(ids', a) w'. sim ids' (fst (spec_blob_op S x)) w' \<and> a = snd (spec_blob_op S x) \<and>
        ids_left w \<le> ids_left w' + op_cost need S x)"
      using ReadAllOf Some D by (auto intro!: returns_ebind elim: returns_mono)
    then show ?thesis .
  next
    case (ReadFrom h' off n)
    have "returns (blob_read B (ids ! h) off n) w (\<lambda>x w'. x = slice off n D \<and> sim ids S w' \<and> ids_left w \<le> ids_left w')"
      by (rule keep, rule read, assumption+) (use sz cost ReadFrom Some D in \<open>auto\<close>)
    then have "returns (run_blob_op B ids x) w (\<lambda>(ids', a) w'. sim ids' (fst (spec_blob_op S x)) w' \<and> a = snd (spec_blob_op S x) \<and>
        ids_left w \<le> ids_left w' + op_cost need S x)"
      using ReadFrom Some D by (auto intro!: returns_ebind elim: returns_mono)
    then show ?thesis .
  next
    case (TryReadFrom h' off n)
    have "returns (blob_tryRead B (ids ! h) off n) w (\<lambda>x w'. x = slice off n D \<and> sim ids S w' \<and> ids_left w \<le> ids_left w')"
      by (rule keep, rule tryRead, assumption+) (use sz cost TryReadFrom Some D in \<open>auto\<close>)
    then have "returns (run_blob_op B ids x) w (\<lambda>(ids', a) w'. sim ids' (fst (spec_blob_op S x)) w' \<and> a = snd (spec_blob_op S x) \<and>
        ids_left w \<le> ids_left w' + op_cost need S x)"
      using TryReadFrom Some D by (auto intro!: returns_ebind elim: returns_mono)
    then show ?thesis .
  next
    case (WriteInto h' src off)
    have "returns (blob_write B (ids ! h) src off) w (\<lambda>x w'. True \<and> sim ids (S[h := Some (written D off src)]) w' \<and> ids_left w \<le> ids_left w' + need (length D) (off + length src))"
      by (rule change, rule returns_mono [OF write_to], assumption+) (use sz cost WriteInto Some D in \<open>auto\<close>)
    then have "returns (run_blob_op B ids x) w (\<lambda>(ids', a) w'. sim ids' (fst (spec_blob_op S x)) w' \<and> a = snd (spec_blob_op S x) \<and>
        ids_left w \<le> ids_left w' + op_cost need S x)"
      using WriteInto Some D by (auto intro!: returns_ebind elim: returns_mono)
    then show ?thesis .
  qed
qed

lemma script_simulates:
  "sim ids S w \<Longrightarrow> script_allowed limit S xs \<Longrightarrow> script_cost need S xs \<le> ids_left w \<Longrightarrow>
   \<exists>w' ids'. run_script B ids xs w = (Inr (spec_script S xs), w') \<and> sim ids' (spec_arrays S xs) w'"
proof (induction xs arbitrary: ids S w)
  case Nil
  then show ?case by (auto simp: ret_def)
next
  case (Cons x xs)
  from op_simulates [OF Cons.prems(1), of x] Cons.prems(2,3)
  obtain ids' w' where x: "run_blob_op B ids x w = (Inr (ids', snd (spec_blob_op S x)), w')"
      "sim ids' (fst (spec_blob_op S x)) w'" "ids_left w \<le> ids_left w' + op_cost need S x"
    by (auto simp: returns_def)
  have "script_cost need (fst (spec_blob_op S x)) xs \<le> ids_left w'" using x(3) Cons.prems(3) by simp
  with Cons.IH [OF x(2)] Cons.prems(2) obtain w'' ids'' where
    "run_script B ids' xs w' = (Inr (spec_script (fst (spec_blob_op S x)) xs), w'')"
    "sim ids'' (spec_arrays (fst (spec_blob_op S x)) xs) w''"
    by auto
  with x(1) show ?case by (auto simp: ebind_def)
qed

lemma sim_arrays:
  assumes "sim ids S w"
  obtains M where "rep w M" and "\<And>h D. h < length S \<Longrightarrow> S ! h = Some D \<Longrightarrow> M (ids ! h) = Some D"
    and "(\<forall>h<length S. S ! h = None) \<Longrightarrow> M = Map.empty"
proof -
  from assms obtain M where M: "rep w M" "\<forall>h D. h < length S \<longrightarrow> S ! h = Some D \<longrightarrow> M (ids ! h) = Some D \<and> ids ! h \<in> opened w"
    "\<forall>i\<in>dom M. \<exists>h<length S. S ! h \<noteq> None \<and> ids ! h = i"
    unfolding sim_def by (elim conjE exE)
  show thesis
  proof (rule that [OF M(1)])
    show "M (ids ! h) = Some D" if "h < length S" "S ! h = Some D" for h D using M(2) that by blast
    assume none: "\<forall>h<length S. S ! h = None"
    have "i \<notin> dom M" for i
    proof
      assume "i \<in> dom M"
      from bspec [OF M(3) this] obtain h where "h < length S" "S ! h \<noteq> None" by blast
      with none show False by simp
    qed
    then show "M = Map.empty" by (intro ext) (simp add: domIff)
  qed
qed

lemma sim_start: "rep w Map.empty \<Longrightarrow> sim [] [] w"
  unfolding sim_def by auto

end

end
