(* ===== verification/DirEntries.thy ===== *)
theory DirEntries
  imports BlockIds
begin

unbundle bit_operations_syntax

text \<open>
  \<open>src/src/fspp/fs_interface/Types.h\<close>, \<open>Context.h\<close>, \<open>src/src/cpp-utils/system/time.h\<close> and
  \<open>src/src/cryfs/impl/filesystem/fsblobstore/utils\<close>: modes, timestamps, directory entries with their
  byte representation, and the directory listing, a vector ordered by block identifier that is searched
  linearly from a hinted position. The lemmas show the search equal to a plain one on ordered listings,
  the invariant of the listing under every operation, and the round trip of its bytes.
\<close>

section \<open>Timestamps\<close>

text \<open>\<open>tv_sec\<close> and \<open>tv_nsec\<close> are signed 64 bit integers.\<close>

record timespec =
  tv_sec :: u64
  tv_nsec :: u64

definition timespec_less :: "timespec \<Rightarrow> timespec \<Rightarrow> bool" where
  "timespec_less lhs rhs \<longleftrightarrow>
     sint (tv_sec lhs) < sint (tv_sec rhs) \<or>
     (tv_sec lhs = tv_sec rhs \<and> sint (tv_nsec lhs) < sint (tv_nsec rhs))"

datatype TimestampUpdateBehavior = noatime | strictatime | relatime | nodiratime_relatime | nodiratime_strictatime

definition relatime_shouldUpdate :: "timespec \<Rightarrow> timespec \<Rightarrow> timespec \<Rightarrow> bool" where
  "relatime_shouldUpdate oldATime oldMTime newATime =
     (let yesterday = \<lparr>tv_sec = tv_sec newATime - 60 * 60 * 24, tv_nsec = tv_nsec newATime\<rparr>
      in timespec_less oldATime oldMTime \<or> timespec_less oldATime yesterday)"

fun shouldUpdateATimeOnFileRead ::
  "TimestampUpdateBehavior \<Rightarrow> timespec \<Rightarrow> timespec \<Rightarrow> timespec \<Rightarrow> bool" where
  "shouldUpdateATimeOnFileRead noatime oldATime oldMTime newATime = False"
| "shouldUpdateATimeOnFileRead strictatime oldATime oldMTime newATime = True"
| "shouldUpdateATimeOnFileRead relatime oldATime oldMTime newATime = relatime_shouldUpdate oldATime oldMTime newATime"
| "shouldUpdateATimeOnFileRead nodiratime_relatime oldATime oldMTime newATime =
     relatime_shouldUpdate oldATime oldMTime newATime"
| "shouldUpdateATimeOnFileRead nodiratime_strictatime oldATime oldMTime newATime = True"

fun shouldUpdateATimeOnDirectoryRead ::
  "TimestampUpdateBehavior \<Rightarrow> timespec \<Rightarrow> timespec \<Rightarrow> timespec \<Rightarrow> bool" where
  "shouldUpdateATimeOnDirectoryRead noatime oldATime oldMTime newATime = False"
| "shouldUpdateATimeOnDirectoryRead strictatime oldATime oldMTime newATime = True"
| "shouldUpdateATimeOnDirectoryRead relatime oldATime oldMTime newATime = relatime_shouldUpdate oldATime oldMTime newATime"
| "shouldUpdateATimeOnDirectoryRead nodiratime_relatime oldATime oldMTime newATime = False"
| "shouldUpdateATimeOnDirectoryRead nodiratime_strictatime oldATime oldMTime newATime = False"

section \<open>Modes\<close>

type_synonym mode = u32

definition S_IFMT :: mode where "S_IFMT = 61440"
definition S_IFDIR :: mode where "S_IFDIR = 16384"
definition S_IFREG :: mode where "S_IFREG = 32768"
definition S_IFLNK :: mode where "S_IFLNK = 40960"

definition addFileFlag :: "mode \<Rightarrow> mode" where "addFileFlag m = m OR S_IFREG"
definition addDirFlag :: "mode \<Rightarrow> mode" where "addDirFlag m = m OR S_IFDIR"
definition addSymlinkFlag :: "mode \<Rightarrow> mode" where "addSymlinkFlag m = m OR S_IFLNK"

definition hasFileFlag :: "mode \<Rightarrow> bool" where "hasFileFlag m \<longleftrightarrow> m AND S_IFMT = S_IFREG"
definition hasDirFlag :: "mode \<Rightarrow> bool" where "hasDirFlag m \<longleftrightarrow> m AND S_IFMT = S_IFDIR"
definition hasSymlinkFlag :: "mode \<Rightarrow> bool" where "hasSymlinkFlag m \<longleftrightarrow> m AND S_IFMT = S_IFLNK"

lemmas mode_defs = S_IFMT_def S_IFDIR_def S_IFREG_def S_IFLNK_def
  addFileFlag_def addDirFlag_def addSymlinkFlag_def hasFileFlag_def hasDirFlag_def hasSymlinkFlag_def

lemma mode_flags_exclusive:
  "hasFileFlag m \<Longrightarrow> \<not> hasDirFlag m \<and> \<not> hasSymlinkFlag m"
  "hasDirFlag m \<Longrightarrow> \<not> hasFileFlag m \<and> \<not> hasSymlinkFlag m"
  "hasSymlinkFlag m \<Longrightarrow> \<not> hasFileFlag m \<and> \<not> hasDirFlag m"
  by (auto simp: mode_defs)

section \<open>DirEntry\<close>

datatype entry_type = DIR | FILE | SYMLINK

definition EntryType_value :: "entry_type \<Rightarrow> byte" where
  "EntryType_value t = (case t of DIR \<Rightarrow> 0 | FILE \<Rightarrow> 1 | SYMLINK \<Rightarrow> 2)"

text \<open>A byte that is not one of the three values is a type the constructor of an entry rejects.\<close>

definition EntryType_of_value :: "byte \<Rightarrow> entry_type option" where
  "EntryType_of_value b =
     (if b = 0 then Some DIR else if b = 1 then Some FILE else if b = 2 then Some SYMLINK else None)"

lemma EntryType_roundtrip [simp]: "EntryType_of_value (EntryType_value t) = Some t"
  by (cases t) (simp_all add: EntryType_value_def EntryType_of_value_def)

record dir_entry =
  de_type :: entry_type
  de_name :: data
  de_blockId :: block_id
  de_mode :: mode
  de_uid :: u32
  de_gid :: u32
  de_lastAccessTime :: timespec
  de_lastModificationTime :: timespec
  de_lastMetadataChangeTime :: timespec

definition hasTypeFlag :: "entry_type \<Rightarrow> mode \<Rightarrow> bool" where
  "hasTypeFlag t m =
     (case t of FILE \<Rightarrow> hasFileFlag m | DIR \<Rightarrow> hasDirFlag m | SYMLINK \<Rightarrow> hasSymlinkFlag m)"

definition DirEntry_new ::
  "entry_type \<Rightarrow> data \<Rightarrow> block_id \<Rightarrow> mode \<Rightarrow> u32 \<Rightarrow> u32 \<Rightarrow> timespec \<Rightarrow> timespec \<Rightarrow> timespec \<Rightarrow> dir_entry result" where
  "DirEntry_new type name i m uid gid lastAccessTime lastModificationTime lastMetadataChangeTime =
     (let m = (case type of FILE \<Rightarrow> addFileFlag m | DIR \<Rightarrow> addDirFlag m | SYMLINK \<Rightarrow> addSymlinkFlag m)
      in rbind (ASSERT ((hasFileFlag m \<and> type = FILE) \<or> (hasDirFlag m \<and> type = DIR) \<or> (hasSymlinkFlag m \<and> type = SYMLINK))
                  ''Unknown mode in entry'') (\<lambda>_.
         Inr \<lparr>de_type = type, de_name = name, de_blockId = i, de_mode = m, de_uid = uid, de_gid = gid,
              de_lastAccessTime = lastAccessTime, de_lastModificationTime = lastModificationTime,
              de_lastMetadataChangeTime = lastMetadataChangeTime\<rparr>))"

text \<open>The setters; \<open>now\<close> is what \<open>cpputils::time::now()\<close> returns.\<close>

definition DirEntry_updateLastMetadataChangeTime :: "timespec \<Rightarrow> dir_entry \<Rightarrow> dir_entry" where
  "DirEntry_updateLastMetadataChangeTime now e = e\<lparr>de_lastMetadataChangeTime := now\<rparr>"

definition DirEntry_setType :: "timespec \<Rightarrow> entry_type \<Rightarrow> dir_entry \<Rightarrow> dir_entry" where
  "DirEntry_setType now v e = DirEntry_updateLastMetadataChangeTime now (e\<lparr>de_type := v\<rparr>)"

definition DirEntry_setName :: "timespec \<Rightarrow> data \<Rightarrow> dir_entry \<Rightarrow> dir_entry" where
  "DirEntry_setName now v e = DirEntry_updateLastMetadataChangeTime now (e\<lparr>de_name := v\<rparr>)"

definition DirEntry_setMode :: "timespec \<Rightarrow> mode \<Rightarrow> dir_entry \<Rightarrow> dir_entry" where
  "DirEntry_setMode now v e = DirEntry_updateLastMetadataChangeTime now (e\<lparr>de_mode := v\<rparr>)"

definition DirEntry_setUid :: "timespec \<Rightarrow> u32 \<Rightarrow> dir_entry \<Rightarrow> dir_entry" where
  "DirEntry_setUid now v e = DirEntry_updateLastMetadataChangeTime now (e\<lparr>de_uid := v\<rparr>)"

definition DirEntry_setGid :: "timespec \<Rightarrow> u32 \<Rightarrow> dir_entry \<Rightarrow> dir_entry" where
  "DirEntry_setGid now v e = DirEntry_updateLastMetadataChangeTime now (e\<lparr>de_gid := v\<rparr>)"

definition DirEntry_setLastAccessTime :: "timespec \<Rightarrow> dir_entry \<Rightarrow> dir_entry" where
  "DirEntry_setLastAccessTime v e = e\<lparr>de_lastAccessTime := v\<rparr>"

definition DirEntry_setLastModificationTime :: "timespec \<Rightarrow> timespec \<Rightarrow> dir_entry \<Rightarrow> dir_entry" where
  "DirEntry_setLastModificationTime now v e =
     DirEntry_updateLastMetadataChangeTime now (e\<lparr>de_lastModificationTime := v\<rparr>)"

lemmas DirEntry_set_defs = DirEntry_updateLastMetadataChangeTime_def DirEntry_setType_def DirEntry_setName_def
  DirEntry_setMode_def DirEntry_setUid_def DirEntry_setGid_def DirEntry_setLastAccessTime_def
  DirEntry_setLastModificationTime_def

subsection \<open>Serialisation\<close>

definition serializedTimeValueSize :: nat where "serializedTimeValueSize = 12"

definition serializeTimeValue :: "timespec \<Rightarrow> data" where
  "serializeTimeValue v = serialize (tv_sec v) @ serialize (ucast (tv_nsec v) :: u32)"

definition serializeString :: "data \<Rightarrow> data" where
  "serializeString v = v @ [0]"

definition DirEntry_serializedSize :: "dir_entry \<Rightarrow> nat" where
  "DirEntry_serializedSize e =
     1 + 4 + 4 + 4 + 3 * serializedTimeValueSize + (length (de_name e) + 1) + BINARY_LENGTH"

definition DirEntry_serialize :: "dir_entry \<Rightarrow> data result" where
  "DirEntry_serialize e =
     rbind (ASSERT ((de_type e = FILE \<and> hasFileFlag (de_mode e) \<and> \<not> hasDirFlag (de_mode e) \<and> \<not> hasSymlinkFlag (de_mode e)) \<or>
                    (de_type e = DIR \<and> \<not> hasFileFlag (de_mode e) \<and> hasDirFlag (de_mode e) \<and> \<not> hasSymlinkFlag (de_mode e)) \<or>
                    (de_type e = SYMLINK \<and> \<not> hasFileFlag (de_mode e) \<and> \<not> hasDirFlag (de_mode e) \<and> hasSymlinkFlag (de_mode e)))
              ''Wrong mode bit set for this type'') (\<lambda>_.
     let dest = serialize (EntryType_value (de_type e)) @ serialize (de_mode e) @ serialize (de_uid e) @
                serialize (de_gid e) @ serializeTimeValue (de_lastAccessTime e) @
                serializeTimeValue (de_lastModificationTime e) @ serializeTimeValue (de_lastMetadataChangeTime e) @
                serializeString (de_name e) @ BlockId_ToBinary (de_blockId e)
     in rbind (ASSERT (length dest = DirEntry_serializedSize e) ''Didn't write correct number of elements'') (\<lambda>_.
        Inr dest))"

text \<open>
  Reading has no bound: a read past the buffer is a memory fault. A reader returns the value and what is
  left of the buffer.
\<close>

definition read_int :: "data \<Rightarrow> ('a::len word \<times> data) result" where
  "read_int pos = rbind (deserialize pos) (\<lambda>w. Inr (w, drop (sizeof TYPE('a)) pos))"

definition deserializeTimeValue :: "data \<Rightarrow> (timespec \<times> data) result" where
  "deserializeTimeValue pos =
     rbind (read_int pos) (\<lambda>(s :: u64, pos).
     rbind (read_int pos) (\<lambda>(n :: u32, pos).
     Inr (\<lparr>tv_sec = s, tv_nsec = ucast n\<rparr>, pos)))"

definition deserializeString :: "data \<Rightarrow> (data \<times> data) result" where
  "deserializeString pos =
     (if 0 \<in> set pos then let v = takeWhile (\<lambda>b. b \<noteq> 0) pos in Inr (v, drop (length v + 1) pos)
      else Inl MemoryFault)"

definition deserializeBlockId :: "data \<Rightarrow> (block_id \<times> data) result" where
  "deserializeBlockId pos = rbind (BlockId_FromBinary pos) (\<lambda>i. Inr (i, drop BINARY_LENGTH pos))"

definition DirEntry_deserialize :: "data \<Rightarrow> (dir_entry \<times> data) result" where
  "DirEntry_deserialize pos =
     rbind (read_int pos) (\<lambda>(t :: byte, pos).
     rbind (read_int pos) (\<lambda>(m :: u32, pos).
     rbind (read_int pos) (\<lambda>(uid :: u32, pos).
     rbind (read_int pos) (\<lambda>(gid :: u32, pos).
     rbind (deserializeTimeValue pos) (\<lambda>(lastAccessTime, pos).
     rbind (deserializeTimeValue pos) (\<lambda>(lastModificationTime, pos).
     rbind (deserializeTimeValue pos) (\<lambda>(lastMetadataChangeTime, pos).
     rbind (deserializeString pos) (\<lambda>(name, pos).
     rbind (deserializeBlockId pos) (\<lambda>(i, pos).
     case EntryType_of_value t of
       None \<Rightarrow> Inl (AssertFailed ''Unknown mode in entry'')
     | Some type \<Rightarrow>
         rbind (DirEntry_new type name i m uid gid lastAccessTime lastModificationTime lastMetadataChangeTime)
           (\<lambda>e. Inr (e, pos)))))))))))"

section \<open>DirEntryList\<close>

type_synonym dir_entries = "dir_entry list"

text \<open>
  Serialisation fills a buffer of the summed size; the running offset is a 32 bit integer. \<open>junk\<close> is what
  the fresh buffer holds.
\<close>

definition DirEntryList_serializedSize :: "dir_entries \<Rightarrow> nat" where
  "DirEntryList_serializedSize es = sum_list (map DirEntry_serializedSize es)"

fun DirEntryList_serialize_loop :: "block_id option \<Rightarrow> dir_entries \<Rightarrow> nat \<Rightarrow> data \<Rightarrow> data result" where
  "DirEntryList_serialize_loop previous [] offset serialized = Inr serialized"
| "DirEntryList_serialize_loop previous (e # es) offset serialized =
     rbind (ASSERT (case previous of None \<Rightarrow> True | Some p \<Rightarrow> p < de_blockId e)
              ''Invariant hurt: Directory entries should be ordered by blockId and not have duplicate blockIds.'') (\<lambda>_.
     rbind (DirEntry_serialize e) (\<lambda>bytes.
     if offset + length bytes \<le> length serialized
     then DirEntryList_serialize_loop (Some (de_blockId e)) es ((offset + DirEntry_serializedSize e) mod 2 ^ 32)
            (write_at offset bytes serialized)
     else Inl MemoryFault))"

definition DirEntryList_serialize :: "byte \<Rightarrow> dir_entries \<Rightarrow> data result" where
  "DirEntryList_serialize junk es =
     DirEntryList_serialize_loop None es 0 (replicate (DirEntryList_serializedSize es) junk)"

lemma rbind_cong [fundef_cong]:
  "m = m' \<Longrightarrow> (\<And>x. m' = Inr x \<Longrightarrow> f x = f' x) \<Longrightarrow> rbind m f = rbind m' f'"
  by (cases m') auto

lemma read_int_shorter: "read_int pos = Inr (w :: 'a::len word, pos') \<Longrightarrow> length pos' \<le> length pos"
  by (auto simp: read_int_def rbind_Inr_iff)

lemma deserialize_entry_shorter:
  assumes "DirEntry_deserialize pos = Inr (e, pos')"
  shows "length pos' < length pos"
proof -
  have time: "length q \<le> length p" if "deserializeTimeValue p = Inr (v, q)" for p q v
    using that by (auto simp: deserializeTimeValue_def rbind_Inr_iff dest!: read_int_shorter)
  have str: "length q < length p" if "deserializeString p = Inr (v, q)" for p q v
    using that by (cases p) (auto simp: deserializeString_def Let_def split: if_splits)
  have bid: "length q \<le> length p" if "deserializeBlockId p = Inr (v, q)" for p q v
    using that by (auto simp: deserializeBlockId_def rbind_Inr_iff)
  show ?thesis using assms unfolding DirEntry_deserialize_def
    by (fastforce simp: rbind_Inr_iff split: option.splits prod.splits dest!: read_int_shorter time str bid)
qed

function DirEntryList_deserialize_loop :: "data \<Rightarrow> dir_entries \<Rightarrow> dir_entries result" where
  "DirEntryList_deserialize_loop pos es =
     (if pos = [] then Inr es
      else
        rbind (DirEntry_deserialize pos) (\<lambda>(e, pos).
        rbind (ASSERT (es = [] \<or> de_blockId (last es) < de_blockId e)
                 ''Invariant hurt: Directory entries should be ordered by blockId and not have duplicate blockIds.'') (\<lambda>_.
        DirEntryList_deserialize_loop pos (es @ [e]))))"
  by pat_completeness auto
termination
  by (relation "measure (length \<circ> fst)") (auto dest: deserialize_entry_shorter)

declare DirEntryList_deserialize_loop.simps [simp del]

definition DirEntryList_deserializeFrom :: "data \<Rightarrow> dir_entries result" where
  "DirEntryList_deserializeFrom d = DirEntryList_deserialize_loop d []"

subsection \<open>Searching\<close>

text \<open>
  Iterators are positions; the end is the length. The start position of \<open>_findFirst\<close> is computed from
  the first byte of the identifier with floating point arithmetic: it is the parameter \<open>sp\<close>, which takes
  that byte and the number of entries. The code asserts that it is in range.
\<close>

type_synonym startpos = "byte \<Rightarrow> nat \<Rightarrow> nat"

fun findFirst_back :: "(dir_entry \<Rightarrow> bool) \<Rightarrow> dir_entries \<Rightarrow> nat \<Rightarrow> nat" where
  "findFirst_back P es 0 = 0"
| "findFirst_back P es (Suc i) = (if P (es ! Suc i) then findFirst_back P es i else Suc i)"

function findFirst_forward :: "(dir_entry \<Rightarrow> bool) \<Rightarrow> dir_entries \<Rightarrow> nat \<Rightarrow> nat" where
  "findFirst_forward P es i = (if i < length es \<and> \<not> P (es ! i) then findFirst_forward P es (Suc i) else i)"
  by pat_completeness auto
termination
  by (relation "measure (\<lambda>(P, es, i). length es - i)") auto

declare findFirst_forward.simps [simp del]

definition DirEntryList_findFirst ::
  "startpos \<Rightarrow> dir_entries \<Rightarrow> block_id \<Rightarrow> (dir_entry \<Rightarrow> bool) \<Rightarrow> nat result" where
  "DirEntryList_findFirst sp es hint P =
     (if es = [] then Inr 0
      else
        let iter = sp (hd (BlockId_ToBinary hint)) (length es)
        in rbind (ASSERT (iter < length es) ''Startpos out of range'') (\<lambda>_.
           Inr (findFirst_forward P es (findFirst_back P es iter))))"

definition DirEntryList_findLowerBound :: "startpos \<Rightarrow> dir_entries \<Rightarrow> block_id \<Rightarrow> nat result" where
  "DirEntryList_findLowerBound sp es i = DirEntryList_findFirst sp es i (\<lambda>e. \<not> de_blockId e < i)"

definition DirEntryList_findUpperBound :: "startpos \<Rightarrow> dir_entries \<Rightarrow> block_id \<Rightarrow> nat result" where
  "DirEntryList_findUpperBound sp es i = DirEntryList_findFirst sp es i (\<lambda>e. i < de_blockId e)"

definition DirEntryList_findById :: "startpos \<Rightarrow> dir_entries \<Rightarrow> block_id \<Rightarrow> nat result" where
  "DirEntryList_findById sp es i =
     rbind (DirEntryList_findLowerBound sp es i) (\<lambda>found.
     if found = length es \<or> de_blockId (es ! found) \<noteq> i then Inr (length es) else Inr found)"

definition find_if :: "('a \<Rightarrow> bool) \<Rightarrow> 'a list \<Rightarrow> nat" where
  "find_if P xs = length (takeWhile (\<lambda>x. \<not> P x) xs)"

definition DirEntryList_findByName :: "dir_entries \<Rightarrow> data \<Rightarrow> nat" where
  "DirEntryList_findByName es name = find_if (\<lambda>e. de_name e = name) es"

definition DirEntryList_hasChild :: "dir_entries \<Rightarrow> data \<Rightarrow> bool" where
  "DirEntryList_hasChild es name \<longleftrightarrow> length es \<noteq> DirEntryList_findByName es name"

definition vector_erase :: "nat \<Rightarrow> 'a list \<Rightarrow> 'a list" where
  "vector_erase i xs = take i xs @ drop (Suc i) xs"

definition vector_insert :: "nat \<Rightarrow> 'a \<Rightarrow> 'a list \<Rightarrow> 'a list" where
  "vector_insert i x xs = take i xs @ x # drop i xs"

subsection \<open>Operations\<close>

text \<open>
  The operations work on the listing as their state, so that an exception leaves it as it was then, and
  beside it on a state \<open>'x\<close> of the caller that the callback \<open>onOverwritten\<close> changes.
\<close>

type_synonym 'x dir_state = "'x \<times> dir_entries"

definition entries :: "('x dir_state, dir_entries) exec" where
  "entries = gets snd"

definition set_entries :: "dir_entries \<Rightarrow> ('x dir_state, unit) exec" where
  "set_entries es = modify (\<lambda>s. (fst s, es))"

record new_entry =
  ne_name :: data
  ne_blobId :: block_id
  ne_type :: entry_type
  ne_mode :: mode
  ne_uid :: u32
  ne_gid :: u32
  ne_lastAccessTime :: timespec
  ne_lastModificationTime :: timespec

definition DirEntryList_insert :: "startpos \<Rightarrow> timespec \<Rightarrow> new_entry \<Rightarrow> ('x dir_state, unit) exec" where
  "DirEntryList_insert sp now n =
     ebind entries (\<lambda>es.
     ebind (lift_result (DirEntryList_findUpperBound sp es (ne_blobId n))) (\<lambda>insert_pos.
     ebind (lift_result (DirEntry_new (ne_type n) (ne_name n) (ne_blobId n) (ne_mode n) (ne_uid n) (ne_gid n)
              (ne_lastAccessTime n) (ne_lastModificationTime n) now)) (\<lambda>e.
     set_entries (vector_insert insert_pos e es))))"

definition DirEntryList_add :: "startpos \<Rightarrow> timespec \<Rightarrow> new_entry \<Rightarrow> ('x dir_state, unit) exec" where
  "DirEntryList_add sp now n =
     ebind entries (\<lambda>es.
     if DirEntryList_hasChild es (ne_name n) then throw (Errno EEXIST)
     else DirEntryList_insert sp now n)"

definition DirEntryList_checkAllowedOverwrite :: "entry_type \<Rightarrow> entry_type \<Rightarrow> unit result" where
  "DirEntryList_checkAllowedOverwrite oldType newType =
     (if oldType \<noteq> newType
      then if oldType = DIR then Inl (Errno EISDIR)
           else if newType = DIR then Inl (Errno ENOTDIR)
           else Inr ()
      else Inr ())"

definition DirEntryList_overwrite :: "startpos \<Rightarrow> timespec \<Rightarrow> nat \<Rightarrow> new_entry \<Rightarrow> ('x dir_state, unit) exec" where
  "DirEntryList_overwrite sp now entry n =
     ebind entries (\<lambda>es.
     ebind (lift_result (DirEntryList_checkAllowedOverwrite (de_type (es ! entry)) (ne_type n))) (\<lambda>_.
     ebind (set_entries (vector_erase entry es)) (\<lambda>_.
     DirEntryList_insert sp now n)))"

definition DirEntryList_addOrOverwrite ::
  "startpos \<Rightarrow> timespec \<Rightarrow> new_entry \<Rightarrow> (block_id \<Rightarrow> ('x, unit) exec) \<Rightarrow> ('x dir_state, unit) exec" where
  "DirEntryList_addOrOverwrite sp now n onOverwritten =
     ebind entries (\<lambda>es.
     let found = DirEntryList_findByName es (ne_name n) in
     if found \<noteq> length es
     then
       ebind (zoom_fst (onOverwritten (de_blockId (es ! found)))) (\<lambda>_.
       DirEntryList_overwrite sp now found n)
     else DirEntryList_insert sp now n)"

definition DirEntryList_rename ::
  "startpos \<Rightarrow> timespec \<Rightarrow> block_id \<Rightarrow> data \<Rightarrow> (block_id \<Rightarrow> ('x, unit) exec) \<Rightarrow> ('x dir_state, unit) exec" where
  "DirEntryList_rename sp now i name onOverwritten =
     ebind entries (\<lambda>es.
     let foundSameName = DirEntryList_findByName es name in
     ebind (if foundSameName \<noteq> length es \<and> de_blockId (es ! foundSameName) \<noteq> i
            then
              ebind (lift_result (DirEntryList_findById sp es i)) (\<lambda>found.
              if found = length es then throw (Errno ENOENT)
              else
                ebind (lift_result (DirEntryList_checkAllowedOverwrite (de_type (es ! foundSameName)) (de_type (es ! found)))) (\<lambda>_.
                ebind (zoom_fst (onOverwritten (de_blockId (es ! foundSameName)))) (\<lambda>_.
                set_entries (vector_erase foundSameName es))))
            else ret ()) (\<lambda>_.
     ebind entries (\<lambda>es.
     ebind (lift_result (DirEntryList_findById sp es i)) (\<lambda>found.
     if found = length es then throw (Errno ENOENT)
     else set_entries (es[found := DirEntry_setName now name (es ! found)])))))"

definition DirEntryList_get_name :: "dir_entries \<Rightarrow> data \<Rightarrow> dir_entry option" where
  "DirEntryList_get_name es name =
     (let found = DirEntryList_findByName es name in if found = length es then None else Some (es ! found))"

definition DirEntryList_get_id :: "startpos \<Rightarrow> dir_entries \<Rightarrow> block_id \<Rightarrow> dir_entry option result" where
  "DirEntryList_get_id sp es i =
     rbind (DirEntryList_findById sp es i) (\<lambda>found.
     Inr (if found = length es then None else Some (es ! found)))"

definition DirEntryList_remove_name :: "data \<Rightarrow> ('x dir_state, unit) exec" where
  "DirEntryList_remove_name name =
     ebind entries (\<lambda>es.
     let found = DirEntryList_findByName es name in
     if found = length es then throw (Errno ENOENT)
     else set_entries (vector_erase found es))"

definition DirEntryList_remove_id :: "startpos \<Rightarrow> block_id \<Rightarrow> ('x dir_state, unit) exec" where
  "DirEntryList_remove_id sp i =
     ebind entries (\<lambda>es.
     ebind (lift_result (DirEntryList_findLowerBound sp es i)) (\<lambda>lowerBound.
     let upperBound = lowerBound + find_if (\<lambda>e. de_blockId e \<noteq> i) (drop lowerBound es)
     in set_entries (take lowerBound es @ drop upperBound es)))"

text \<open>Operations that change one entry, found by its identifier.\<close>

definition DirEntryList_at :: "startpos \<Rightarrow> block_id \<Rightarrow> ('x dir_state, nat) exec" where
  "DirEntryList_at sp i =
     ebind entries (\<lambda>es.
     ebind (lift_result (DirEntryList_findById sp es i)) (\<lambda>found.
     if found = length es then throw (Errno ENOENT) else ret found))"

definition modify_entry :: "nat \<Rightarrow> (dir_entry \<Rightarrow> dir_entry) \<Rightarrow> ('x dir_state, unit) exec" where
  "modify_entry found f = modify (\<lambda>s. (fst s, (snd s)[found := f (snd s ! found)]))"

definition DirEntryList_setMode :: "startpos \<Rightarrow> timespec \<Rightarrow> block_id \<Rightarrow> mode \<Rightarrow> ('x dir_state, unit) exec" where
  "DirEntryList_setMode sp now i m =
     ebind (DirEntryList_at sp i) (\<lambda>found.
     ebind entries (\<lambda>es.
     ebind (assert_exec ((hasFileFlag m \<and> hasFileFlag (de_mode (es ! found))) \<or>
                         (hasDirFlag m \<and> hasDirFlag (de_mode (es ! found))) \<or> hasSymlinkFlag m)
              ''Unknown mode in entry'') (\<lambda>_.
     modify_entry found (DirEntry_setMode now m))))"

definition DirEntryList_setUidGid ::
  "startpos \<Rightarrow> timespec \<Rightarrow> block_id \<Rightarrow> u32 \<Rightarrow> u32 \<Rightarrow> ('x dir_state, bool) exec" where
  "DirEntryList_setUidGid sp now i uid gid =
     ebind (DirEntryList_at sp i) (\<lambda>found.
     ebind (if uid \<noteq> -1 then modify_entry found (DirEntry_setUid now uid) else ret ()) (\<lambda>_.
     ebind (if gid \<noteq> -1 then modify_entry found (DirEntry_setGid now gid) else ret ()) (\<lambda>_.
     ret (uid \<noteq> -1 \<or> gid \<noteq> -1))))"

definition DirEntryList_setAccessTimes ::
  "startpos \<Rightarrow> timespec \<Rightarrow> block_id \<Rightarrow> timespec \<Rightarrow> timespec \<Rightarrow> ('x dir_state, unit) exec" where
  "DirEntryList_setAccessTimes sp now i lastAccessTime lastModificationTime =
     ebind (DirEntryList_at sp i) (\<lambda>found.
     ebind (modify_entry found (DirEntry_setLastAccessTime lastAccessTime)) (\<lambda>_.
     modify_entry found (DirEntry_setLastModificationTime now lastModificationTime)))"

definition DirEntryList_updateAccessTimestampForChild ::
  "startpos \<Rightarrow> timespec \<Rightarrow> block_id \<Rightarrow> TimestampUpdateBehavior \<Rightarrow> ('x dir_state, bool) exec" where
  "DirEntryList_updateAccessTimestampForChild sp now i behavior =
     ebind (DirEntryList_at sp i) (\<lambda>found.
     ebind entries (\<lambda>es.
     let lastAccessTime = de_lastAccessTime (es ! found);
         lastModificationTime = de_lastModificationTime (es ! found);
         should = (case de_type (es ! found) of
             DIR \<Rightarrow> shouldUpdateATimeOnDirectoryRead behavior lastAccessTime lastModificationTime now
           | _ \<Rightarrow> shouldUpdateATimeOnFileRead behavior lastAccessTime lastModificationTime now) in
     if should
     then ebind (modify_entry found (DirEntry_setLastAccessTime now)) (\<lambda>_. ret True)
     else ret False))"

definition DirEntryList_updateModificationTimestampForChild ::
  "startpos \<Rightarrow> timespec \<Rightarrow> block_id \<Rightarrow> ('x dir_state, unit) exec" where
  "DirEntryList_updateModificationTimestampForChild sp now i =
     ebind (DirEntryList_at sp i) (\<lambda>found.
     modify_entry found (DirEntry_setLastModificationTime now now))"

section \<open>Correctness of the search\<close>

lemma find_if_le: "find_if P xs \<le> length xs"
  by (simp add: find_if_def length_takeWhile_le)

lemma find_if_least: "j < find_if P xs \<Longrightarrow> \<not> P (xs ! j)"
  unfolding find_if_def by (metis nth_mem set_takeWhileD takeWhile_nth)

lemma find_if_holds: "find_if P xs < length xs \<Longrightarrow> P (xs ! find_if P xs)"
  unfolding find_if_def using nth_length_takeWhile [of "\<lambda>x. \<not> P x" xs] by simp

lemma find_if_eqI:
  assumes "k \<le> length xs" and "\<And>j. j < k \<Longrightarrow> \<not> P (xs ! j)" and "k < length xs \<Longrightarrow> P (xs ! k)"
  shows "find_if P xs = k"
proof (rule linorder_cases [of "find_if P xs" k])
  assume "find_if P xs < k"
  then show ?thesis using find_if_holds [of P xs] assms(1,2) by auto
next
  assume "k < find_if P xs"
  then show ?thesis using find_if_least [of k P xs] find_if_le [of P xs] assms(3) by auto
qed

lemma find_if_none: "find_if P xs = length xs \<longleftrightarrow> (\<forall>x\<in>set xs. \<not> P x)"
proof
  assume "find_if P xs = length xs"
  then show "\<forall>x\<in>set xs. \<not> P x" using find_if_least [of _ P xs] by (metis in_set_conv_nth)
qed (auto intro: find_if_eqI)

lemma find_if_some: "\<exists>x\<in>set xs. P x \<Longrightarrow> find_if P xs < length xs \<and> P (xs ! find_if P xs)"
  by (metis find_if_none find_if_le find_if_holds le_neq_implies_less)

text \<open>A predicate that stays true to the right of an entry for which it holds.\<close>

definition upward :: "('a \<Rightarrow> bool) \<Rightarrow> 'a list \<Rightarrow> bool" where
  "upward P xs \<longleftrightarrow> (\<forall>i j. i \<le> j \<and> j < length xs \<and> P (xs ! i) \<longrightarrow> P (xs ! j))"

lemma findFirst_back_le: "findFirst_back P es i \<le> i"
  by (induction i) auto

lemma findFirst_back_stop:
  "upward P es \<Longrightarrow> i < length es \<Longrightarrow> j < findFirst_back P es i \<Longrightarrow> \<not> P (es ! j)"
proof (induction i)
  case (Suc i)
  show ?case
  proof (cases "P (es ! Suc i)")
    case True
    then show ?thesis using Suc by simp
  next
    case False
    then show ?thesis using Suc.prems unfolding upward_def
      by (metis findFirst_back.simps(2) less_imp_le)
  qed
qed simp

lemma findFirst_forward_find:
  "(\<And>j. j < i \<Longrightarrow> \<not> P (es ! j)) \<Longrightarrow> i \<le> length es \<Longrightarrow> findFirst_forward P es i = find_if P es"
proof (induction P es i rule: findFirst_forward.induct)
  case (1 P es i)
  show ?case
  proof (cases "i < length es \<and> \<not> P (es ! i)")
    case True
    then have "findFirst_forward P es (Suc i) = find_if P es"
      using 1 by (metis less_Suc_eq Suc_leI)
    with True show ?thesis by (subst findFirst_forward.simps) simp
  next
    case False
    then have "find_if P es = i" using 1(2,3) by (intro find_if_eqI) auto
    moreover have "findFirst_forward P es i = i" using False by (subst findFirst_forward.simps) auto
    ultimately show ?thesis by simp
  qed
qed

text \<open>The hinted search finds the same position as a linear search, wherever it starts.\<close>

lemma findFirst_eq_find_if:
  assumes "upward P es" and "\<And>b n. 0 < n \<Longrightarrow> sp b n < n"
  shows "DirEntryList_findFirst sp es hint P = Inr (find_if P es)"
proof (cases "es = []")
  case True
  then show ?thesis by (simp add: DirEntryList_findFirst_def find_if_def)
next
  case False
  let ?i = "sp (hd (BlockId_ToBinary hint)) (length es)"
  have i: "?i < length es" using False assms(2) by simp
  then have "findFirst_back P es ?i \<le> length es" using findFirst_back_le [of P es ?i] by simp
  then have "findFirst_forward P es (findFirst_back P es ?i) = find_if P es"
    using findFirst_back_stop [OF assms(1) i] by (intro findFirst_forward_find) auto
  with False i show ?thesis by (simp add: DirEntryList_findFirst_def Let_def)
qed

section \<open>The listing as a map\<close>

definition ids_sorted :: "dir_entries \<Rightarrow> bool" where
  "ids_sorted es \<longleftrightarrow> sorted_wrt (<) (map de_blockId es)"

text \<open>
  The invariant: ordered by identifier, one entry per name, and a mode that fits the type (which
  serialisation asserts).
\<close>

definition dir_inv :: "dir_entries \<Rightarrow> bool" where
  "dir_inv es \<longleftrightarrow>
     ids_sorted es \<and> distinct (map de_name es) \<and> (\<forall>e\<in>set es. hasTypeFlag (de_type e) (de_mode e))"

text \<open>What a directory means: its entries by name.\<close>

definition dir_map :: "dir_entries \<Rightarrow> data \<Rightarrow> dir_entry option" where
  "dir_map es = map_of (map (\<lambda>e. (de_name e, e)) es)"

lemma dir_inv_Nil [simp]: "dir_inv []"
  by (simp add: dir_inv_def ids_sorted_def)

lemma dir_map_Some:
  assumes "distinct (map de_name es)"
  shows "dir_map es n = Some e \<longleftrightarrow> e \<in> set es \<and> de_name e = n"
proof -
  have "map fst (map (\<lambda>e. (de_name e, e)) es) = map de_name es" by (induction es) auto
  with assms have "distinct (map fst (map (\<lambda>e. (de_name e, e)) es))" by (simp only:)
  then show ?thesis by (auto simp: dir_map_def)
qed

lemma dir_map_None: "dir_map es n = None \<longleftrightarrow> n \<notin> de_name ` set es"
  by (auto simp: dir_map_def map_of_eq_None_iff image_image)

lemma dir_map_eqI:
  assumes "distinct (map de_name es)" and "\<And>n e. e \<in> set es \<and> de_name e = n \<longleftrightarrow> m n = Some e"
  shows "dir_map es = m"
proof
  fix n
  show "dir_map es n = m n"
    using assms(2) dir_map_Some [OF assms(1)] by (metis option.exhaust)
qed

lemma ids_sorted_distinct: "ids_sorted es \<Longrightarrow> distinct (map de_blockId es)"
  unfolding ids_sorted_def by (simp add: strict_sorted_iff)

lemma ids_sorted_nth_less: "ids_sorted es \<Longrightarrow> i < j \<Longrightarrow> j < length es \<Longrightarrow> de_blockId (es ! i) < de_blockId (es ! j)"
  unfolding ids_sorted_def by (simp add: sorted_wrt_iff_nth_less)

lemma upward_bounds:
  assumes "ids_sorted es"
  shows "upward (\<lambda>e. \<not> de_blockId e < i) es" and "upward (\<lambda>e. i < de_blockId e) es"
proof -
  have le: "de_blockId (es ! j) \<le> de_blockId (es ! k)" if "j \<le> k" "k < length es" for j k
    using ids_sorted_nth_less [OF assms, of j k] that by (cases "j = k") auto
  show "upward (\<lambda>e. \<not> de_blockId e < i) es" and "upward (\<lambda>e. i < de_blockId e) es"
    unfolding upward_def by (meson le leD leI order_trans le_less_trans less_le_trans)+
qed

lemma vector_insert_append: "vector_insert (length as) x (as @ bs) = as @ x # bs"
  by (simp add: vector_insert_def)

lemma vector_erase_append: "vector_erase (length as) (as @ x # bs) = as @ bs"
  by (simp add: vector_erase_def)

lemma split_at:
  assumes "k < length xs"
  obtains as bs where "xs = as @ xs ! k # bs" and "k = length as"
  by (rule that [of "take k xs" "drop (Suc k) xs"]) (use assms id_take_nth_drop in auto)

lemma set_vector_insert [simp]: "set (vector_insert k x xs) = insert x (set xs)"
  unfolding vector_insert_def by (metis Un_insert_right append_take_drop_id list.simps(15) set_append)

lemma set_vector_erase:
  assumes "k < length xs" and "distinct (map f xs)"
  shows "set (vector_erase k xs) = {x \<in> set xs. f x \<noteq> f (xs ! k)}" and "distinct (map f (vector_erase k xs))"
proof -
  obtain as bs x where xs: "xs = as @ x # bs" "k = length as" using split_at [OF assms(1)] by metis
  then have k: "xs ! k = x" and e: "vector_erase k xs = as @ bs" by (simp_all add: vector_erase_append)
  show "set (vector_erase k xs) = {y \<in> set xs. f y \<noteq> f (xs ! k)}" "distinct (map f (vector_erase k xs))"
    unfolding k e using assms(2) by (auto simp: xs(1)) (metis imageI)+
qed

lemma distinct_vector_insert:
  assumes "distinct (map f xs)" and "f x \<notin> f ` set xs"
  shows "distinct (map f (vector_insert k x xs))"
proof -
  obtain as bs where xs: "xs = as @ bs" and i: "vector_insert k x xs = as @ x # bs"
    unfolding vector_insert_def by (metis append_take_drop_id)
  show ?thesis unfolding i using assms by (auto simp: xs)
qed

lemma sorted_vector_erase: "k < length es \<Longrightarrow> ids_sorted es \<Longrightarrow> ids_sorted (vector_erase k es)"
proof -
  assume "k < length es" "ids_sorted es"
  moreover then obtain as bs x where "es = as @ x # bs" "k = length as" using split_at by metis
  ultimately show ?thesis by (simp add: vector_erase_append ids_sorted_def sorted_wrt_append)
qed

lemma sorted_vector_insert:
  assumes "ids_sorted es" and "de_blockId e \<notin> de_blockId ` set es"
    and "k = find_if (\<lambda>x. de_blockId e < de_blockId x) es"
  shows "ids_sorted (vector_insert k e es)"
proof -
  let ?P = "\<lambda>x. de_blockId e < de_blockId x"
  have le: "k \<le> length es" unfolding assms(3) by (rule find_if_le)
  have before: "de_blockId (es ! j) < de_blockId e" if "j < k" for j
  proof -
    have "\<not> ?P (es ! j)" using that unfolding assms(3) by (rule find_if_least)
    moreover have "de_blockId (es ! j) \<noteq> de_blockId e" using assms(2) that le by (metis image_eqI nth_mem order_less_le_trans)
    ultimately show ?thesis by simp
  qed
  have after: "de_blockId e < de_blockId (es ! j)" if "k \<le> j" "j < length es" for j
  proof -
    have "?P (es ! k)" using that find_if_holds [of ?P es] by (simp add: assms(3))
    then show ?thesis using ids_sorted_nth_less [OF assms(1), of k j] that by (cases "j = k") auto
  qed
  have "\<forall>x\<in>set (take k es). de_blockId x < de_blockId e"
    using before le by (auto simp: in_set_conv_nth)
  moreover have "\<forall>x\<in>set (drop k es). de_blockId e < de_blockId x"
    using after by (fastforce simp: in_set_conv_nth)
  moreover have "sorted_wrt (<) (map de_blockId (take k es) @ map de_blockId (drop k es))"
    using assms(1) by (simp only: ids_sorted_def map_append [symmetric] append_take_drop_id)
  ultimately show ?thesis
    unfolding ids_sorted_def vector_insert_def by (auto simp: sorted_wrt_append)
qed

subsection \<open>The operations on the map\<close>

text \<open>The contract of the start position: the code asserts that it is in range.\<close>

locale hinted_search =
  fixes sp :: startpos
  assumes in_range: "0 < n \<Longrightarrow> sp b n < n"
begin

lemma findLowerBound: "ids_sorted es \<Longrightarrow> DirEntryList_findLowerBound sp es i = Inr (find_if (\<lambda>e. \<not> de_blockId e < i) es)"
  and findUpperBound: "ids_sorted es \<Longrightarrow> DirEntryList_findUpperBound sp es i = Inr (find_if (\<lambda>e. i < de_blockId e) es)"
  unfolding DirEntryList_findLowerBound_def DirEntryList_findUpperBound_def
  by (simp_all add: findFirst_eq_find_if upward_bounds in_range)

lemma findById:
  assumes "ids_sorted es"
  shows "DirEntryList_findById sp es i = Inr (find_if (\<lambda>e. de_blockId e = i) es)"
proof -
  let ?L = "\<lambda>e. \<not> de_blockId e < i" and ?E = "\<lambda>e. de_blockId e = i"
  let ?k = "find_if ?L es"
  have le: "?k \<le> length es" by (rule find_if_le)
  have before: "\<not> ?E (es ! j)" if "j < ?k" for j using find_if_least [OF that] by simp
  have id: "DirEntryList_findById sp es i =
      (if ?k = length es \<or> de_blockId (es ! ?k) \<noteq> i then Inr (length es) else Inr ?k)"
    using findLowerBound [OF assms, of i] by (simp add: DirEntryList_findById_def)
  show ?thesis
  proof (cases "?k = length es \<or> de_blockId (es ! ?k) \<noteq> i")
    case False
    then have "find_if ?E es = ?k" using le before by (intro find_if_eqI) auto
    with False show ?thesis unfolding id by simp
  next
    case True
    have "\<not> ?E (es ! j)" if "j < length es" for j
    proof (cases "j < ?k")
      case ge: False
      then have k: "?k < length es" using that le by simp
      then have "i < de_blockId (es ! ?k)" using find_if_holds [OF k] True by simp
      also have "\<dots> \<le> de_blockId (es ! j)"
        using ids_sorted_nth_less [OF assms, of ?k j] ge that by (cases "?k = j") auto
      finally show ?thesis by simp
    qed (use before in blast)
    then have "find_if ?E es = length es" by (intro find_if_eqI) auto
    with True show ?thesis unfolding id by simp
  qed
qed

lemma findById_Some:
  assumes "ids_sorted es" and "e \<in> set es"
  obtains k where "DirEntryList_findById sp es (de_blockId e) = Inr k" and "k < length es" and "es ! k = e"
proof -
  let ?k = "find_if (\<lambda>x. de_blockId x = de_blockId e) es"
  have k: "?k < length es" "de_blockId (es ! ?k) = de_blockId e"
    using find_if_some [of es "\<lambda>x. de_blockId x = de_blockId e"] assms(2) by auto
  then have "es ! ?k = e"
    using ids_sorted_distinct [OF assms(1)] assms(2) by (auto simp: distinct_map inj_on_def)
  then show ?thesis using that [of ?k] k findById [OF assms(1)] by simp
qed

lemma findById_None:
  assumes "ids_sorted es" and "i \<notin> de_blockId ` set es"
  shows "DirEntryList_findById sp es i = Inr (length es)"
  using findById [OF assms(1), of i] find_if_none [of "\<lambda>e. de_blockId e = i" es] assms(2) by force

lemma get_name_eq: "distinct (map de_name es) \<Longrightarrow> DirEntryList_get_name es name = dir_map es name"
proof -
  assume d: "distinct (map de_name es)"
  let ?P = "\<lambda>e. de_name e = name"
  show ?thesis
  proof (cases "\<exists>e\<in>set es. ?P e")
    case True
    then have "find_if ?P es < length es" "?P (es ! find_if ?P es)" using find_if_some [OF True] by auto
    moreover then have "dir_map es name = Some (es ! find_if ?P es)" by (simp add: dir_map_Some [OF d])
    ultimately show ?thesis by (simp add: DirEntryList_get_name_def DirEntryList_findByName_def Let_def)
  next
    case False
    then have "find_if ?P es = length es" by (simp add: find_if_none)
    moreover have "dir_map es name = None" using False by (auto simp: dir_map_None)
    ultimately show ?thesis by (simp add: DirEntryList_get_name_def DirEntryList_findByName_def)
  qed
qed

lemma insert_ok:
  assumes "dir_inv es" and "ne_name n \<notin> de_name ` set es" and "ne_blobId n \<notin> de_blockId ` set es"
    and new: "DirEntry_new (ne_type n) (ne_name n) (ne_blobId n) (ne_mode n) (ne_uid n) (ne_gid n)
      (ne_lastAccessTime n) (ne_lastModificationTime n) now = Inr e"
  shows "yields (DirEntryList_insert sp now n) (x, es) ()
    (\<lambda>t. fst t = x \<and> dir_inv (snd t) \<and> dir_map (snd t) = (dir_map es)(ne_name n \<mapsto> e))"
proof -
  have inv: "ids_sorted es" "distinct (map de_name es)" using assms(1) by (auto simp: dir_inv_def)
  have e: "de_name e = ne_name n" "de_blockId e = ne_blobId n" "hasTypeFlag (de_type e) (de_mode e)"
    using new by (auto simp: DirEntry_new_def Let_def ASSERT_def hasTypeFlag_def split: if_splits entry_type.splits)
  let ?k = "find_if (\<lambda>x. ne_blobId n < de_blockId x) es"
  let ?es = "vector_insert ?k e es"
  have "ids_sorted ?es" using sorted_vector_insert [OF inv(1), of e] assms(3) e(2) by simp
  moreover have d: "distinct (map de_name ?es)"
    using inv(2) assms(2) e(1) by (intro distinct_vector_insert) simp_all
  ultimately have inv': "dir_inv ?es" using assms(1) e(3) by (simp add: dir_inv_def)
  have "dir_map ?es = (dir_map es)(ne_name n \<mapsto> e)"
    using assms(2) e(1) dir_map_Some [OF inv(2)] by (intro dir_map_eqI [OF d]) (auto simp: image_iff)
  then show ?thesis
    using inv' findUpperBound [OF inv(1), of "ne_blobId n"] new
    by (simp add: DirEntryList_insert_def entries_def set_entries_def yields_def)
qed

lemma hasChild_iff: "DirEntryList_hasChild es name \<longleftrightarrow> dir_map es name \<noteq> None"
  using find_if_none [of "\<lambda>e. de_name e = name" es]
  by (auto simp: DirEntryList_hasChild_def DirEntryList_findByName_def dir_map_None)

lemma add_ok:
  assumes "dir_inv es" and "dir_map es (ne_name n) = None" and "ne_blobId n \<notin> de_blockId ` set es"
    and "DirEntry_new (ne_type n) (ne_name n) (ne_blobId n) (ne_mode n) (ne_uid n) (ne_gid n)
      (ne_lastAccessTime n) (ne_lastModificationTime n) now = Inr e"
  shows "yields (DirEntryList_add sp now n) (x, es) ()
    (\<lambda>t. fst t = x \<and> dir_inv (snd t) \<and> dir_map (snd t) = (dir_map es)(ne_name n \<mapsto> e))"
proof -
  have "\<not> DirEntryList_hasChild es (ne_name n)" using assms(2) by (simp add: hasChild_iff)
  then have "DirEntryList_add sp now n (x, es) = DirEntryList_insert sp now n (x, es)"
    by (simp add: DirEntryList_add_def entries_def)
  then show ?thesis
    using insert_ok [OF assms(1) _ assms(3,4), of x] assms(2) by (simp add: yields_def dir_map_None)
qed

lemma add_exists:
  "dir_map es (ne_name n) \<noteq> None \<Longrightarrow> DirEntryList_add sp now n (x, es) = (Inl (Errno EEXIST), (x, es))"
  by (simp add: DirEntryList_add_def entries_def hasChild_iff)

lemma findByName_Some:
  assumes "dir_map es name \<noteq> None" and "distinct (map de_name es)"
  obtains k where "DirEntryList_findByName es name = k" and "k < length es" and "dir_map es name = Some (es ! k)"
    and "de_name (es ! k) = name"
proof -
  have ex: "\<exists>e\<in>set es. de_name e = name" using assms(1) by (auto simp: dir_map_None)
  let ?k = "find_if (\<lambda>e. de_name e = name) es"
  have k: "?k < length es" "de_name (es ! ?k) = name" using find_if_some [OF ex] by auto
  then have "dir_map es name = Some (es ! ?k)" by (simp add: dir_map_Some [OF assms(2)])
  then show ?thesis using that [of ?k] k by (simp add: DirEntryList_findByName_def)
qed

lemma erase_ok:
  assumes "dir_inv es" and "k < length es"
  shows "dir_inv (vector_erase k es)" and "dir_map (vector_erase k es) = (dir_map es)(de_name (es ! k) := None)"
    and "de_blockId ` set (vector_erase k es) = de_blockId ` set es - {de_blockId (es ! k)}"
proof -
  have inv: "ids_sorted es" "distinct (map de_name es)" using assms(1) by (auto simp: dir_inv_def)
  note er = set_vector_erase [OF assms(2) inv(2)]
  note er2 = set_vector_erase [OF assms(2) ids_sorted_distinct [OF inv(1)]]
  show "dir_inv (vector_erase k es)"
    using assms(1) er sorted_vector_erase [OF assms(2) inv(1)] by (auto simp: dir_inv_def)
  show "dir_map (vector_erase k es) = (dir_map es)(de_name (es ! k) := None)"
    using er dir_map_Some [OF inv(2)] by (intro dir_map_eqI [OF er(2)]) (auto split: if_splits)
  show "de_blockId ` set (vector_erase k es) = de_blockId ` set es - {de_blockId (es ! k)}"
    unfolding er2(1) by auto
qed

lemma remove_name_ok:
  assumes "dir_inv es" and "dir_map es name \<noteq> None"
  shows "yields (DirEntryList_remove_name name) (x, es) ()
    (\<lambda>t. fst t = x \<and> dir_inv (snd t) \<and> dir_map (snd t) = (dir_map es)(name := None))"
proof -
  from assms(1) have "distinct (map de_name es)" by (simp add: dir_inv_def)
  from findByName_Some [OF assms(2) this] obtain k where
    k: "DirEntryList_findByName es name = k" "k < length es" "de_name (es ! k) = name" by metis
  then show ?thesis
    using erase_ok [OF assms(1) k(2)]
    by (simp add: DirEntryList_remove_name_def entries_def set_entries_def yields_def Let_def)
qed

lemma update_ok:
  assumes "dir_inv es" and "k < length es" and "de_blockId e' = de_blockId (es ! k)"
    and "hasTypeFlag (de_type e') (de_mode e')"
    and "de_name e' \<notin> de_name ` (set es - {es ! k})"
  shows "dir_inv (es[k := e'])" and "dir_map (es[k := e']) = (dir_map es)(de_name (es ! k) := None, de_name e' \<mapsto> e')"
proof -
  have inv: "ids_sorted es" "distinct (map de_name es)" using assms(1) by (auto simp: dir_inv_def)
  have ids: "map de_blockId (es[k := e']) = map de_blockId es"
    using assms(2,3) by (simp add: map_update) (metis list_update_id nth_map)
  obtain as bs x where es: "es = as @ x # bs" "k = length as" using split_at [OF assms(2)] by metis
  then have x: "es ! k = x" and up: "es[k := e'] = as @ e' # bs" by simp_all
  have dx: "x \<notin> set as" "x \<notin> set bs" using inv(2) by (auto simp: es(1))
  then have rest: "de_name e' \<notin> de_name ` set as" "de_name e' \<notin> de_name ` set bs"
    using assms(5) unfolding x by (auto simp: es(1))
  have d: "distinct (map de_name (es[k := e']))" unfolding up using inv(2) rest by (auto simp: es(1))
  show "dir_inv (es[k := e'])"
    using assms(1,4) d ids set_update_subset_insert [of es k e'] by (auto simp: dir_inv_def ids_sorted_def)
  show "dir_map (es[k := e']) = (dir_map es)(de_name (es ! k) := None, de_name e' \<mapsto> e')"
  proof (rule dir_map_eqI [OF d])
    fix n e
    show "e \<in> set (es[k := e']) \<and> de_name e = n \<longleftrightarrow> ((dir_map es)(de_name (es ! k) := None, de_name e' \<mapsto> e')) n = Some e"
      unfolding up x using inv(2) rest dx dir_map_Some [OF inv(2)] by (auto simp: es(1) image_iff)
  qed
qed

text \<open>
  Renaming within a directory: the target name, if another entry has it, is overwritten when the types
  allow it, and the callback is run on its blob.
\<close>

lemma rename_fresh:
  assumes "dir_inv es" and "e \<in> set es" and "dir_map es name = None \<or> de_name e = name"
  shows "yields (DirEntryList_rename sp now (de_blockId e) name f) (x, es) ()
    (\<lambda>t. fst t = x \<and> dir_inv (snd t) \<and>
      dir_map (snd t) = (dir_map es)(de_name e := None, name \<mapsto> DirEntry_setName now name e))"
proof -
  have inv: "ids_sorted es" "distinct (map de_name es)" using assms(1) by (auto simp: dir_inv_def)
  obtain k where k: "DirEntryList_findById sp es (de_blockId e) = Inr k" "k < length es" "es ! k = e"
    by (rule findById_Some [OF inv(1) assms(2)])
  have skip: "\<not> (DirEntryList_findByName es name \<noteq> length es \<and>
      de_blockId (es ! DirEntryList_findByName es name) \<noteq> de_blockId e)"
  proof (cases "dir_map es name")
    case None
    then show ?thesis using find_if_none [of "\<lambda>e. de_name e = name" es]
      by (auto simp: DirEntryList_findByName_def dir_map_None)
  next
    case (Some y)
    then have "de_name e = name" "y \<in> set es" "de_name y = name"
      using assms(3) dir_map_Some [OF inv(2), of name y] by simp_all
    then have "y = e" using assms(2) inv(2) by (auto simp: distinct_map inj_on_def)
    then show ?thesis using findByName_Some [OF _ inv(2), of name] Some by (metis option.distinct(1) option.inject)
  qed
  let ?e = "DirEntry_setName now name e"
  have names: "de_name ?e \<notin> de_name ` (set es - {es ! k})"
    using assms(3) inv(2) assms(2) k(3) by (auto simp: DirEntry_set_defs dir_map_None distinct_map inj_on_def)
  have "hasTypeFlag (de_type ?e) (de_mode ?e)" using assms(1,2) by (simp add: dir_inv_def DirEntry_set_defs)
  note up = update_ok [OF assms(1) k(2) _ this names]
  show ?thesis
    using skip k up by (auto simp: DirEntryList_rename_def entries_def set_entries_def yields_def Let_def DirEntry_set_defs)
qed

lemma rename_overwrite:
  assumes "dir_inv es" and "e \<in> set es" and "dir_map es name = Some old" and "de_name e \<noteq> name"
    and "DirEntryList_checkAllowedOverwrite (de_type old) (de_type e) = Inr ()"
    and "f (de_blockId old) x = (Inr (), x')"
  shows "yields (DirEntryList_rename sp now (de_blockId e) name f) (x, es) ()
    (\<lambda>t. fst t = x' \<and> dir_inv (snd t) \<and>
      dir_map (snd t) = (dir_map es)(de_name e := None, name \<mapsto> DirEntry_setName now name e))"
proof -
  have inv: "ids_sorted es" "distinct (map de_name es)" using assms(1) by (auto simp: dir_inv_def)
  obtain k where k: "DirEntryList_findById sp es (de_blockId e) = Inr k" "k < length es" "es ! k = e"
    by (rule findById_Some [OF inv(1) assms(2)])
  have "dir_map es name \<noteq> None" using assms(3) by simp
  from findByName_Some [OF this inv(2)] obtain j where j: "DirEntryList_findByName es name = j" "j < length es"
      "old = es ! j" "de_name old = name" using assms(3) by (metis option.inject)
  have "old \<noteq> e" using j(4) assms(4) by auto
  then have ids: "de_blockId old \<noteq> de_blockId e"
    using ids_sorted_distinct [OF inv(1)] assms(2) j(2,3) by (auto simp: distinct_map inj_on_def)
  let ?es = "vector_erase j es"
  note er = erase_ok [OF assms(1) j(2)]
  have e: "e \<in> set ?es" using set_vector_erase(1) [OF j(2) inv(2)] assms(2,4) j(3,4) by auto
  have sorted: "ids_sorted ?es" using er(1) by (simp add: dir_inv_def)
  have "dir_map ?es name = None" using er(2) j(3,4) by simp
  then obtain t where t: "DirEntryList_rename sp now (de_blockId e) name f (x', ?es) = (Inr (), t)"
      "fst t = x'" "dir_inv (snd t)"
      "dir_map (snd t) = (dir_map ?es)(de_name e := None, name \<mapsto> DirEntry_setName now name e)"
    using rename_fresh [OF er(1) e, of name now f x'] by (auto simp: yields_def)
  obtain l where l: "DirEntryList_findById sp ?es (de_blockId e) = Inr l" "l < length ?es" "?es ! l = e"
    by (rule findById_Some [OF sorted e])
  have "DirEntryList_rename sp now (de_blockId e) name f (x', ?es) =
      (Inr (), (x', ?es[l := DirEntry_setName now name e]))"
    using l \<open>dir_map ?es name = None\<close> find_if_none [of "\<lambda>e. de_name e = name" ?es]
    by (auto simp: DirEntryList_rename_def DirEntryList_findByName_def entries_def set_entries_def Let_def dir_map_None)
  then have t': "t = (x', ?es[l := DirEntry_setName now name e])" using t(1) by simp
  have "DirEntryList_rename sp now (de_blockId e) name f (x, es) = (Inr (), t)"
    using k j ids l assms(5,6)
    by (simp add: DirEntryList_rename_def entries_def set_entries_def Let_def ebind_def zoom_fst_def t')
  then show ?thesis using t er(2) j(3,4) by (auto simp: yields_def fun_eq_iff)
qed

end

text \<open>The start position in exact arithmetic.\<close>

definition exact_startpos :: startpos where
  "exact_startpos b n = unat b * (n - 1) div 255"

interpretation exact_search: hinted_search exact_startpos
proof
  fix n :: nat and b :: byte
  assume "0 < n"
  have "unat b * (n - 1) \<le> 255 * (n - 1)" using unat_byte_less [of b] by (intro mult_le_mono1) simp
  then have "unat b * (n - 1) div 255 \<le> 255 * (n - 1) div 255" by (rule div_le_mono)
  then show "exact_startpos b n < n" using \<open>0 < n\<close> by (simp add: exact_startpos_def)
qed

section \<open>Round trip of the bytes\<close>

definition entry_bytes :: "dir_entry \<Rightarrow> data" where
  "entry_bytes e =
     serialize (EntryType_value (de_type e)) @ serialize (de_mode e) @ serialize (de_uid e) @
     serialize (de_gid e) @ serializeTimeValue (de_lastAccessTime e) @
     serializeTimeValue (de_lastModificationTime e) @ serializeTimeValue (de_lastMetadataChangeTime e) @
     serializeString (de_name e) @ BlockId_ToBinary (de_blockId e)"

text \<open>
  Entries whose bytes give them back: a name without a null byte, nanoseconds that fit 32 bit (a
  \<open>timespec\<close> has fewer than \<open>10 ^ 9\<close> of them), and a mode of the right type.
\<close>

definition entry_wf :: "dir_entry \<Rightarrow> bool" where
  "entry_wf e \<longleftrightarrow>
     hasTypeFlag (de_type e) (de_mode e) \<and> 0 \<notin> set (de_name e) \<and>
     unat (tv_nsec (de_lastAccessTime e)) < 2 ^ 32 \<and> unat (tv_nsec (de_lastModificationTime e)) < 2 ^ 32 \<and>
     unat (tv_nsec (de_lastMetadataChangeTime e)) < 2 ^ 32"

lemma length_entry_bytes [simp]: "length (entry_bytes e) = DirEntry_serializedSize e"
  by (simp add: entry_bytes_def DirEntry_serializedSize_def serializeTimeValue_def serializeString_def
      serializedTimeValueSize_def BINARY_LENGTH_def)

lemma DirEntry_serialize_eq:
  "hasTypeFlag (de_type e) (de_mode e) \<Longrightarrow> DirEntry_serialize e = Inr (entry_bytes e)"
proof -
  assume flag: "hasTypeFlag (de_type e) (de_mode e)"
  have "ASSERT ((de_type e = FILE \<and> hasFileFlag (de_mode e) \<and> \<not> hasDirFlag (de_mode e) \<and> \<not> hasSymlinkFlag (de_mode e)) \<or>
      (de_type e = DIR \<and> \<not> hasFileFlag (de_mode e) \<and> hasDirFlag (de_mode e) \<and> \<not> hasSymlinkFlag (de_mode e)) \<or>
      (de_type e = SYMLINK \<and> \<not> hasFileFlag (de_mode e) \<and> \<not> hasDirFlag (de_mode e) \<and> hasSymlinkFlag (de_mode e)))
      msg = Inr ()" for msg
  proof (cases "de_type e")
    case FILE
    with flag show ?thesis using mode_flags_exclusive(1) [of "de_mode e"] by (simp add: hasTypeFlag_def)
  next
    case DIR
    with flag show ?thesis using mode_flags_exclusive(2) [of "de_mode e"] by (simp add: hasTypeFlag_def)
  next
    case SYMLINK
    with flag show ?thesis using mode_flags_exclusive(3) [of "de_mode e"] by (simp add: hasTypeFlag_def)
  qed
  then show ?thesis
    unfolding DirEntry_serialize_def entry_bytes_def [symmetric] Let_def by simp
qed

lemma flag_absorb: "m AND S_IFMT = f \<Longrightarrow> m OR f = (m :: mode)"
  by (auto simp: bit_eq_iff bit_simps)

lemma DirEntry_new_same:
  assumes "hasTypeFlag (de_type e) (de_mode e)"
  shows "DirEntry_new (de_type e) (de_name e) (de_blockId e) (de_mode e) (de_uid e) (de_gid e)
    (de_lastAccessTime e) (de_lastModificationTime e) (de_lastMetadataChangeTime e) = Inr e"
proof -
  have "(case de_type e of FILE \<Rightarrow> addFileFlag (de_mode e) | DIR \<Rightarrow> addDirFlag (de_mode e)
      | SYMLINK \<Rightarrow> addSymlinkFlag (de_mode e)) = de_mode e"
    using assms flag_absorb [of "de_mode e"]
    by (cases "de_type e") (auto simp: hasTypeFlag_def addFileFlag_def addDirFlag_def addSymlinkFlag_def
        hasFileFlag_def hasDirFlag_def hasSymlinkFlag_def)
  then show ?thesis
    using assms by (cases "de_type e") (simp_all add: DirEntry_new_def hasTypeFlag_def)
qed

lemma read_int_serialize:
  "read_int (serialize (a :: byte) @ rest) = Inr (a, rest)"
  "read_int (serialize (b :: u32) @ rest) = Inr (b, rest)"
  "read_int (serialize (c :: u64) @ rest) = Inr (c, rest)"
  by (simp_all add: read_int_def)

lemma ucast_nsec: "unat (n :: u64) < 2 ^ 32 \<Longrightarrow> ucast (ucast n :: u32) = n"
proof -
  assume "unat n < 2 ^ 32"
  then have "unat (take_bit 32 n) = unat n" by (simp add: unsigned_take_bit_eq take_bit_nat_eq_self)
  then have "take_bit 32 n = n" by (simp add: word_unat_eq_iff)
  moreover have "ucast (ucast n :: u32) = take_bit 32 n"
    by (simp add: bit_eq_iff bit_simps)
  ultimately show ?thesis by simp
qed

lemma deserializeTimeValue_serialize:
  "unat (tv_nsec v) < 2 ^ 32 \<Longrightarrow> deserializeTimeValue (serializeTimeValue v @ rest) = Inr (v, rest)"
  by (simp add: deserializeTimeValue_def serializeTimeValue_def read_int_serialize ucast_nsec)

lemma deserializeString_serialize: "0 \<notin> set v \<Longrightarrow> deserializeString (serializeString v @ rest) = Inr (v, rest)"
proof -
  assume "0 \<notin> set v"
  then have "takeWhile (\<lambda>b. b \<noteq> 0) (v @ 0 # rest) = v" by (subst takeWhile_append2) auto
  then show ?thesis by (simp add: deserializeString_def serializeString_def)
qed

lemma DirEntry_roundtrip:
  assumes "entry_wf e"
  shows "DirEntry_deserialize (entry_bytes e @ rest) = Inr (e, rest)"
  using assms
  by (simp add: DirEntry_deserialize_def entry_bytes_def entry_wf_def read_int_serialize
      deserializeTimeValue_serialize deserializeString_serialize deserializeBlockId_def BINARY_LENGTH_def
      DirEntry_new_same)

lemma serialize_loop_eq:
  assumes "\<forall>e\<in>set es. hasTypeFlag (de_type e) (de_mode e)"
    and "sorted_wrt (<) (map de_blockId es)" and "\<forall>p e. previous = Some p \<and> e \<in> set es \<longrightarrow> p < de_blockId e"
    and "length junk = DirEntryList_serializedSize es" and "length done + length junk < 2 ^ 32"
  shows "DirEntryList_serialize_loop previous es (length done) (done @ junk) = Inr (done @ concat (map entry_bytes es))"
  using assms
proof (induction es arbitrary: previous "done" junk)
  case Nil
  then show ?case by (simp add: DirEntryList_serializedSize_def)
next
  case (Cons e es)
  let ?b = "entry_bytes e" and ?n = "DirEntry_serializedSize e"
  have len: "?n \<le> length junk" using Cons.prems(4) by (simp add: DirEntryList_serializedSize_def)
  have "write_at (length done) ?b (done @ junk) = (done @ ?b) @ drop ?n junk"
    by (simp add: write_at_def)
  moreover have "(length done + ?n) mod 2 ^ 32 = length (done @ ?b)" using Cons.prems(5) len by simp
  moreover have "DirEntryList_serialize_loop (Some (de_blockId e)) es (length (done @ ?b)) ((done @ ?b) @ drop ?n junk) =
      Inr ((done @ ?b) @ concat (map entry_bytes es))"
    using Cons.prems len by (intro Cons.IH) (auto simp: DirEntryList_serializedSize_def)
  moreover have "ASSERT (case previous of None \<Rightarrow> True | Some p \<Rightarrow> p < de_blockId e) msg = Inr ()" for msg
    using Cons.prems(3) by (auto split: option.splits)
  moreover have "DirEntry_serialize e = Inr ?b" using Cons.prems(1) by (simp add: DirEntry_serialize_eq)
  ultimately show ?case using len by (simp del: ASSERT_Inr_iff)
qed

lemma deserialize_loop_eq:
  assumes "\<forall>e\<in>set es. entry_wf e" and "sorted_wrt (<) (map de_blockId (acc @ es))"
  shows "DirEntryList_deserialize_loop (concat (map entry_bytes es)) acc = Inr (acc @ es)"
  using assms
proof (induction es arbitrary: acc)
  case Nil
  then show ?case by (simp add: DirEntryList_deserialize_loop.simps)
next
  case (Cons e es)
  have "length (entry_bytes e) \<noteq> 0" unfolding length_entry_bytes by (simp add: DirEntry_serializedSize_def)
  then have "entry_bytes e \<noteq> []" by force
  moreover have "acc = [] \<or> de_blockId (last acc) < de_blockId e"
    using Cons.prems(2) by (cases "acc = []") (auto simp: sorted_wrt_append)
  moreover have "DirEntryList_deserialize_loop (concat (map entry_bytes es)) (acc @ [e]) = Inr ((acc @ [e]) @ es)"
    using Cons.prems by (intro Cons.IH) simp_all
  ultimately show ?case
    using Cons.prems(1) DirEntry_roundtrip [of e "concat (map entry_bytes es)"]
    by (subst DirEntryList_deserialize_loop.simps) auto
qed

lemma DirEntryList_serialize_eq:
  assumes "dir_inv es" and "DirEntryList_serializedSize es < 2 ^ 32"
  shows "DirEntryList_serialize junk es = Inr (concat (map entry_bytes es))"
  using assms serialize_loop_eq [of es None "replicate (DirEntryList_serializedSize es) junk" "[]"]
  by (simp add: DirEntryList_serialize_def dir_inv_def ids_sorted_def)

section \<open>Properties\<close>

text \<open>
  Saving a directory and loading it again gives the same listing: for a listing with the invariant
  whose entries are well-formed and whose bytes fit the 32 bit offset, \<open>deserializeFrom\<close> of what
  \<open>serialize\<close> writes is the listing.
\<close>

theorem dir_listing_roundtrip:
  assumes "dir_inv es" and "\<forall>e\<in>set es. entry_wf e" and "DirEntryList_serializedSize es < 2 ^ 32"
  shows "rbind (DirEntryList_serialize junk es) DirEntryList_deserializeFrom = Inr es"
  using DirEntryList_serialize_eq [OF assms(1,3), of junk] deserialize_loop_eq [OF assms(2), of "[]"] assms(1)
  by (simp add: DirEntryList_deserializeFrom_def dir_inv_def ids_sorted_def)

definition example_time :: timespec where
  "example_time = \<lparr>tv_sec = 1700000000, tv_nsec = 5\<rparr>"

definition example_entry :: "data \<Rightarrow> block_id \<Rightarrow> entry_type \<Rightarrow> dir_entry" where
  "example_entry name i t =
     \<lparr>de_type = t, de_name = name, de_blockId = i,
      de_mode = (case t of DIR \<Rightarrow> 16832 | FILE \<Rightarrow> 33184 | SYMLINK \<Rightarrow> 41471), de_uid = 1000, de_gid = 1000,
      de_lastAccessTime = example_time, de_lastModificationTime = example_time,
      de_lastMetadataChangeTime = example_time\<rparr>"

definition example_dir :: dir_entries where
  "example_dir = [example_entry [97] (bid 3) FILE, example_entry [98] (bid 5) DIR, example_entry [99] (bid 9) FILE]"

lemma example_dir_inv: "dir_inv example_dir"
  by (simp add: dir_inv_def ids_sorted_def example_dir_def example_entry_def hasTypeFlag_def mode_defs)

lemma dir_listing_roundtrip_witness:
  "rbind (DirEntryList_serialize 0 example_dir) DirEntryList_deserializeFrom = Inr example_dir"
proof (rule dir_listing_roundtrip [OF example_dir_inv])
  show "\<forall>e\<in>set example_dir. entry_wf e"
    by (simp add: example_dir_def example_entry_def entry_wf_def hasTypeFlag_def mode_defs example_time_def)
  show "DirEntryList_serializedSize example_dir < 2 ^ 32"
    by (simp add: example_dir_def example_entry_def DirEntryList_serializedSize_def DirEntry_serializedSize_def
        serializedTimeValueSize_def BINARY_LENGTH_def)
qed

text \<open>
  C31. The hinted search is equal to a plain linear one: on a listing ordered by identifier, from any start
  position in range, \<open>_findById\<close> returns the position of the entry with the identifier, or the end.
\<close>

theorem findById_is_linear_search:
  assumes "ids_sorted es" and "\<forall>b n. 0 < n \<longrightarrow> sp b n < n"
  shows "DirEntryList_findById sp es i = Inr (find_if (\<lambda>e. de_blockId e = i) es)"
proof -
  have "hinted_search sp" using assms(2) by unfold_locales blast
  then show ?thesis using assms(1) by (rule hinted_search.findById)
qed

lemma findById_is_linear_search_witness:
  "DirEntryList_findById exact_startpos example_dir (bid 9) = Inr 2"
proof -
  have "ids_sorted example_dir" using example_dir_inv by (simp add: dir_inv_def)
  then have "DirEntryList_findById exact_startpos example_dir (bid 9) =
      Inr (find_if (\<lambda>e. de_blockId e = bid 9) example_dir)"
    using exact_search.in_range by (intro findById_is_linear_search) auto
  then show ?thesis by (simp add: find_if_def example_dir_def example_entry_def)
qed

text \<open>
  Adding a child: if the name is taken the result is \<open>EEXIST\<close> and nothing changes; otherwise, for a
  blob that is not yet in the directory, the listing keeps its invariant and maps the name to the new
  entry, all other names as before.
\<close>

theorem add_child:
  assumes "dir_inv es" and "\<forall>b n. 0 < n \<longrightarrow> sp b n < n"
    and "ne_blobId n \<notin> de_blockId ` set es"
    and "DirEntry_new (ne_type n) (ne_name n) (ne_blobId n) (ne_mode n) (ne_uid n) (ne_gid n)
      (ne_lastAccessTime n) (ne_lastModificationTime n) now = Inr e"
  shows "if dir_map es (ne_name n) = None
    then yields (DirEntryList_add sp now n) (x, es) ()
      (\<lambda>t. fst t = x \<and> dir_inv (snd t) \<and> dir_map (snd t) = (dir_map es)(ne_name n \<mapsto> e))
    else DirEntryList_add sp now n (x, es) = (Inl (Errno EEXIST), (x, es))"
proof -
  have search: "hinted_search sp" using assms(2) by unfold_locales blast
  show ?thesis
    using hinted_search.add_ok [OF search assms(1) _ assms(3,4)]
      hinted_search.add_exists [OF search, of es n now x] by auto
qed

definition example_new :: "data \<Rightarrow> block_id \<Rightarrow> entry_type \<Rightarrow> new_entry" where
  "example_new name i t =
     \<lparr>ne_name = name, ne_blobId = i, ne_type = t,
      ne_mode = (case t of DIR \<Rightarrow> 16832 | FILE \<Rightarrow> 33184 | SYMLINK \<Rightarrow> 41471), ne_uid = 1000, ne_gid = 1000,
      ne_lastAccessTime = example_time, ne_lastModificationTime = example_time\<rparr>"

lemma example_new_entry:
  "DirEntry_new (ne_type (example_new name i t)) name i (ne_mode (example_new name i t)) 1000 1000
     example_time example_time example_time = Inr (example_entry name i t)"
  by (cases t) (simp_all add: example_new_def example_entry_def DirEntry_new_def mode_defs)

lemma add_child_witness:
  "DirEntryList_add exact_startpos example_time (example_new [97] (bid 7) FILE) ((), example_dir) =
     (Inl (Errno EEXIST), ((), example_dir)) \<and>
   yields (DirEntryList_add exact_startpos example_time (example_new [100] (bid 7) FILE)) ((), example_dir) ()
     (\<lambda>t. fst t = () \<and> dir_inv (snd t) \<and>
       dir_map (snd t) = (dir_map example_dir)([100] \<mapsto> example_entry [100] (bid 7) FILE))"
proof -
  have sp: "\<forall>b n. 0 < n \<longrightarrow> exact_startpos b n < n" using exact_search.in_range by blast
  have fresh: "ne_blobId (example_new name (bid 7) FILE) \<notin> de_blockId ` set example_dir" for name
    by (simp add: example_new_def example_dir_def example_entry_def)
  have new: "DirEntry_new (ne_type (example_new name (bid 7) FILE)) (ne_name (example_new name (bid 7) FILE))
      (ne_blobId (example_new name (bid 7) FILE)) (ne_mode (example_new name (bid 7) FILE))
      (ne_uid (example_new name (bid 7) FILE)) (ne_gid (example_new name (bid 7) FILE))
      (ne_lastAccessTime (example_new name (bid 7) FILE)) (ne_lastModificationTime (example_new name (bid 7) FILE))
      example_time = Inr (example_entry name (bid 7) FILE)" for name
    using example_new_entry [of name "bid 7" FILE] by (simp add: example_new_def)
  have maps: "dir_map example_dir [97] \<noteq> None" "dir_map example_dir [100] = None"
    by (simp_all add: dir_map_def example_dir_def example_entry_def)
  have name: "ne_name (example_new name (bid 7) FILE) = name" for name by (simp add: example_new_def)
  show ?thesis
    using add_child [OF example_dir_inv sp fresh new, of "[97]" "()"]
      add_child [OF example_dir_inv sp fresh new, of "[100]" "()"] maps by (simp add: name)
qed

text \<open>
  Renaming within a directory: when the new name is free or already the entry's own, the entry moves
  to the new name; when another entry has it and the types allow the overwrite, the callback is run on
  the blob of that entry, which is replaced. The invariant is kept.
\<close>

theorem rename_child:
  assumes "dir_inv es" and "\<forall>b n. 0 < n \<longrightarrow> sp b n < n" and "e \<in> set es"
    and "\<forall>old. dir_map es name = Some old \<and> de_name e \<noteq> name \<longrightarrow>
      DirEntryList_checkAllowedOverwrite (de_type old) (de_type e) = Inr () \<and> f (de_blockId old) x = (Inr (), g old x)"
  shows "yields (DirEntryList_rename sp now (de_blockId e) name f) (x, es) ()
    (\<lambda>t. fst t = (case dir_map es name of None \<Rightarrow> x | Some old \<Rightarrow> if de_name e = name then x else g old x) \<and>
      dir_inv (snd t) \<and> dir_map (snd t) = (dir_map es)(de_name e := None, name \<mapsto> DirEntry_setName now name e))"
proof -
  have search: "hinted_search sp" using assms(2) by unfold_locales blast
  show ?thesis
  proof (cases "dir_map es name = None \<or> de_name e = name")
    case True
    then show ?thesis
      using hinted_search.rename_fresh [OF search assms(1,3) True, of now f x]
      by (auto simp: yields_def split: option.splits)
  next
    case False
    then obtain old where old: "dir_map es name = Some old" "de_name e \<noteq> name" by auto
    then show ?thesis
      using hinted_search.rename_overwrite [OF search assms(1,3) old, of f x "g old x" now] assms(4)
      by (auto simp: yields_def)
  qed
qed

lemma rename_child_witness:
  "yields (DirEntryList_rename exact_startpos example_time (bid 3) [99] (\<lambda>i. modify (\<lambda>removed. i # removed))) ([], example_dir) ()
    (\<lambda>t. fst t = [bid 9] \<and> dir_inv (snd t) \<and>
      dir_map (snd t) = (dir_map example_dir)([97] := None, [99] \<mapsto> DirEntry_setName example_time [99] (example_entry [97] (bid 3) FILE)))"
proof -
  have sp: "\<forall>b n. 0 < n \<longrightarrow> exact_startpos b n < n" using exact_search.in_range by blast
  have m: "dir_map example_dir [99] = Some (example_entry [99] (bid 9) FILE)"
    by (simp add: dir_map_def example_dir_def example_entry_def)
  have e: "example_entry [97] (bid 3) FILE \<in> set example_dir" by (simp add: example_dir_def)
  have f: "de_name (example_entry [97] (bid 3) FILE) = [97]" "de_blockId (example_entry [97] (bid 3) FILE) = bid 3"
    "de_blockId (example_entry [99] (bid 9) FILE) = bid 9" by (simp_all add: example_entry_def)
  show ?thesis
    using rename_child [OF example_dir_inv sp e, where name = "[99]" and x = "[]"
        and f = "\<lambda>i. modify (\<lambda>removed. i # removed)" and g = "\<lambda>old removed. de_blockId old # removed" and now = example_time] m f
    by (simp add: DirEntryList_checkAllowedOverwrite_def example_entry_def)
qed

text \<open>
  \<open>addOrOverwrite\<close> runs the callback before it checks the types: moving a directory onto a file of
  another directory fails with \<open>ENOTDIR\<close> and leaves the listing as it was, but the callback (which
  removes the blob of the file) has been run.
\<close>

theorem addOrOverwrite_callback_before_check:
  assumes "distinct (map de_name es)" and "dir_map es (ne_name n) = Some old" and "de_type old \<noteq> DIR"
    and "ne_type n = DIR" and "onOverwritten (de_blockId old) x = (Inr (), x')"
  shows "DirEntryList_addOrOverwrite sp now n onOverwritten (x, es) = (Inl (Errno ENOTDIR), (x', es))"
proof -
  have ne: "dir_map es (ne_name n) \<noteq> None" using assms(2) by simp
  obtain k where "DirEntryList_findByName es (ne_name n) = k" "k < length es" "es ! k = old"
    using exact_search.findByName_Some [OF ne assms(1)] assms(2) by (metis option.inject)
  then show ?thesis using assms(3-5)
    by (simp add: DirEntryList_addOrOverwrite_def DirEntryList_overwrite_def DirEntryList_checkAllowedOverwrite_def
        entries_def Let_def ebind_def zoom_fst_def)
qed

lemma addOrOverwrite_callback_before_check_witness:
  "DirEntryList_addOrOverwrite exact_startpos example_time (example_new [97] (bid 7) DIR)
     (\<lambda>i. modify (\<lambda>removed. i # removed)) ([], example_dir) =
   (Inl (Errno ENOTDIR), ([bid 3], example_dir))"
proof (rule addOrOverwrite_callback_before_check)
  show "distinct (map de_name example_dir)" using example_dir_inv by (simp add: dir_inv_def)
  show "dir_map example_dir (ne_name (example_new [97] (bid 7) DIR)) = Some (example_entry [97] (bid 3) FILE)"
    by (simp add: dir_map_def example_dir_def example_entry_def example_new_def)
qed (simp_all add: example_entry_def example_new_def)

end
