(* ===== verification/FsBlobs.thy ===== *)
theory FsBlobs
  imports Blobs DirEntries
begin

text \<open>
  \<open>src/src/cryfs/impl/filesystem/fsblobstore\<close>: the blobs of a file system. Each starts with a header
  (format version, type, parent pointer); files and symlinks keep their content behind it, directories
  their listing, which is kept in memory and written back when it has changed. The theory is generic in
  the blob store below.
\<close>

section \<open>FsBlobView\<close>

definition FsBlobView_FORMAT_VERSION_HEADER :: u16 where "FsBlobView_FORMAT_VERSION_HEADER = 1"
definition FsBlobView_HEADER_SIZE :: nat where "FsBlobView_HEADER_SIZE = 2 + 1 + BINARY_LENGTH"
definition FsBlobView_OLD_HEADER_SIZE :: nat where "FsBlobView_OLD_HEADER_SIZE = 2 + 1"

text \<open>The blob types have the same values as the entry types: \<open>DIR\<close> 0, \<open>FILE\<close> 1, \<open>SYMLINK\<close> 2.\<close>

definition FsBlobView_InitializeBlob :: "'w blob_store \<Rightarrow> block_id \<Rightarrow> entry_type \<Rightarrow> block_id \<Rightarrow> ('w, unit) exec" where
  "FsBlobView_InitializeBlob B i blobType parent =
     ebind (blob_resize B i FsBlobView_HEADER_SIZE) (\<lambda>_.
     ebind (blob_write B i (serialize FsBlobView_FORMAT_VERSION_HEADER) 0) (\<lambda>_.
     ebind (blob_write B i [EntryType_value blobType] 2) (\<lambda>_.
     blob_write B i (BlockId_ToBinary parent) 3)))"

definition FsBlobView_getFormatVersionHeader :: "'w blob_store \<Rightarrow> block_id \<Rightarrow> ('w, u16) exec" where
  "FsBlobView_getFormatVersionHeader B i =
     ebind (blob_read B i 0 2) (\<lambda>d. lift_result (deserialize d))"

definition FsBlobView_checkHeader :: "'w blob_store \<Rightarrow> block_id \<Rightarrow> ('w, unit) exec" where
  "FsBlobView_checkHeader B i =
     ebind (FsBlobView_getFormatVersionHeader B i) (\<lambda>actualFormatVersion.
     if FsBlobView_FORMAT_VERSION_HEADER \<noteq> actualFormatVersion
     then throw (RuntimeError ''This file system entity has the wrong format. Was it created with a newer version of CryFS?'')
     else ret ())"

text \<open>The type byte as it is; \<open>load\<close> decides what it means.\<close>

definition FsBlobView_blobType_byte :: "'w blob_store \<Rightarrow> block_id \<Rightarrow> ('w, byte) exec" where
  "FsBlobView_blobType_byte B i = ebind (blob_read B i 2 1) (\<lambda>d. lift_result (deserialize d))"

definition FsBlobView_blobType :: "'w blob_store \<Rightarrow> block_id \<Rightarrow> ('w, byte) exec" where
  "FsBlobView_blobType B i = ebind (FsBlobView_checkHeader B i) (\<lambda>_. FsBlobView_blobType_byte B i)"

definition FsBlobView_loadParentPointer :: "'w blob_store \<Rightarrow> block_id \<Rightarrow> ('w, block_id) exec" where
  "FsBlobView_loadParentPointer B i =
     ebind (blob_read B i 3 BINARY_LENGTH) (\<lambda>d. lift_result (BlockId_FromBinary d))"

text \<open>The constructor returns the parent pointer, the only state the view keeps.\<close>

definition FsBlobView_new :: "'w blob_store \<Rightarrow> block_id \<Rightarrow> ('w, block_id) exec" where
  "FsBlobView_new B i = ebind (FsBlobView_checkHeader B i) (\<lambda>_. FsBlobView_loadParentPointer B i)"

definition FsBlobView_storeParentPointer :: "'w blob_store \<Rightarrow> block_id \<Rightarrow> block_id \<Rightarrow> ('w, unit) exec" where
  "FsBlobView_storeParentPointer B i parent = blob_write B i (BlockId_ToBinary parent) 3"

definition FsBlobView_size :: "'w blob_store \<Rightarrow> block_id \<Rightarrow> ('w, nat) exec" where
  "FsBlobView_size B i = ebind (blob_size B i) (\<lambda>n. ret (sub64 n FsBlobView_HEADER_SIZE))"

definition FsBlobView_resize :: "'w blob_store \<Rightarrow> block_id \<Rightarrow> nat \<Rightarrow> ('w, unit) exec" where
  "FsBlobView_resize B i numBytes = blob_resize B i (trunc64 (numBytes + FsBlobView_HEADER_SIZE))"

text \<open>A blob shorter than the header makes the size of the copy wrap, which the allocation rejects.\<close>

definition FsBlobView_readAll :: "'w blob_store \<Rightarrow> block_id \<Rightarrow> ('w, data) exec" where
  "FsBlobView_readAll B i =
     ebind (blob_readAll B i) (\<lambda>d.
     if length d < FsBlobView_HEADER_SIZE then throw BadAlloc else ret (drop FsBlobView_HEADER_SIZE d))"

definition FsBlobView_read :: "'w blob_store \<Rightarrow> block_id \<Rightarrow> nat \<Rightarrow> nat \<Rightarrow> ('w, data) exec" where
  "FsBlobView_read B i offset sz = blob_read B i (trunc64 (offset + FsBlobView_HEADER_SIZE)) sz"

definition FsBlobView_tryRead :: "'w blob_store \<Rightarrow> block_id \<Rightarrow> nat \<Rightarrow> nat \<Rightarrow> ('w, data) exec" where
  "FsBlobView_tryRead B i offset sz = blob_tryRead B i (trunc64 (offset + FsBlobView_HEADER_SIZE)) sz"

definition FsBlobView_write :: "'w blob_store \<Rightarrow> block_id \<Rightarrow> data \<Rightarrow> nat \<Rightarrow> ('w, unit) exec" where
  "FsBlobView_write B i source offset = blob_write B i source (trunc64 (offset + FsBlobView_HEADER_SIZE))"

text \<open>The migration of blobs written before there were parent pointers.\<close>

definition FsBlobView_migrate :: "'w blob_store \<Rightarrow> block_id \<Rightarrow> block_id \<Rightarrow> ('w, unit) exec" where
  "FsBlobView_migrate B i parentId =
     ebind (FsBlobView_getFormatVersionHeader B i) (\<lambda>version.
     if version \<noteq> 0 then ret ()
     else
       ebind (blob_readAll B i) (\<lambda>d.
       ebind (blob_size B i) (\<lambda>n.
       ebind (blob_resize B i (n + BINARY_LENGTH)) (\<lambda>_.
       ebind (blob_write B i (drop FsBlobView_OLD_HEADER_SIZE d) FsBlobView_HEADER_SIZE) (\<lambda>_.
       ebind (blob_write B i (BlockId_ToBinary parentId) 3) (\<lambda>_.
       blob_write B i (serialize FsBlobView_FORMAT_VERSION_HEADER) 0))))))"

section \<open>FileBlob\<close>

definition FileBlob_new :: "'w blob_store \<Rightarrow> block_id \<Rightarrow> ('w, block_id) exec" where
  "FileBlob_new B i =
     ebind (FsBlobView_new B i) (\<lambda>parent.
     ebind (FsBlobView_blobType_byte B i) (\<lambda>t.
     ebind (assert_exec (t = EntryType_value FILE) ''Loaded blob is not a file'') (\<lambda>_.
     ret parent)))"

definition FileBlob_InitializeEmptyFile :: "'w blob_store \<Rightarrow> block_id \<Rightarrow> block_id \<Rightarrow> ('w, block_id) exec" where
  "FileBlob_InitializeEmptyFile B i parent =
     ebind (FsBlobView_InitializeBlob B i FILE parent) (\<lambda>_. FileBlob_new B i)"

definition FileBlob_read :: "'w blob_store \<Rightarrow> block_id \<Rightarrow> nat \<Rightarrow> nat \<Rightarrow> ('w, data) exec" where
  "FileBlob_read B i offset count = FsBlobView_tryRead B i offset count"

definition FileBlob_write :: "'w blob_store \<Rightarrow> block_id \<Rightarrow> data \<Rightarrow> nat \<Rightarrow> ('w, unit) exec" where
  "FileBlob_write B i source offset = FsBlobView_write B i source offset"

definition FileBlob_resize :: "'w blob_store \<Rightarrow> block_id \<Rightarrow> nat \<Rightarrow> ('w, unit) exec" where
  "FileBlob_resize B i sz = FsBlobView_resize B i sz"

definition FileBlob_size :: "'w blob_store \<Rightarrow> block_id \<Rightarrow> ('w, nat) exec" where
  "FileBlob_size B i = FsBlobView_size B i"

section \<open>SymlinkBlob\<close>

text \<open>The target is a C string: it ends at the first null byte.\<close>

definition SymlinkBlob_readTargetFromBlob :: "'w blob_store \<Rightarrow> block_id \<Rightarrow> ('w, data) exec" where
  "SymlinkBlob_readTargetFromBlob B i =
     ebind (FsBlobView_size B i) (\<lambda>n.
     ebind (FsBlobView_read B i 0 n) (\<lambda>d. ret (takeWhile (\<lambda>b. b \<noteq> 0) d)))"

definition SymlinkBlob_new :: "'w blob_store \<Rightarrow> block_id \<Rightarrow> ('w, block_id \<times> data) exec" where
  "SymlinkBlob_new B i =
     ebind (FsBlobView_new B i) (\<lambda>parent.
     ebind (SymlinkBlob_readTargetFromBlob B i) (\<lambda>target.
     ebind (FsBlobView_blobType_byte B i) (\<lambda>t.
     ebind (assert_exec (t = EntryType_value SYMLINK) ''Loaded blob is not a symlink'') (\<lambda>_.
     ret (parent, target)))))"

definition SymlinkBlob_InitializeSymlink ::
  "'w blob_store \<Rightarrow> block_id \<Rightarrow> data \<Rightarrow> block_id \<Rightarrow> ('w, block_id \<times> data) exec" where
  "SymlinkBlob_InitializeSymlink B i target parent =
     ebind (FsBlobView_InitializeBlob B i SYMLINK parent) (\<lambda>_.
     ebind (FsBlobView_new B i) (\<lambda>_.
     ebind (FsBlobView_resize B i (length target)) (\<lambda>_.
     ebind (FsBlobView_write B i target 0) (\<lambda>_.
     SymlinkBlob_new B i))))"

section \<open>DirBlob\<close>

record dir_blob =
  db_blockId :: block_id
  db_parent :: block_id
  db_entries :: dir_entries
  db_changed :: bool

definition DIR_LSTAT_SIZE :: nat where "DIR_LSTAT_SIZE = 4096"

definition DirBlob_readEntriesFromBlob :: "'w blob_store \<Rightarrow> block_id \<Rightarrow> ('w, dir_entries) exec" where
  "DirBlob_readEntriesFromBlob B i =
     ebind (FsBlobView_readAll B i) (\<lambda>d. lift_result (DirEntryList_deserializeFrom d))"

definition DirBlob_new :: "'w blob_store \<Rightarrow> block_id \<Rightarrow> ('w, dir_blob) exec" where
  "DirBlob_new B i =
     ebind (FsBlobView_new B i) (\<lambda>parent.
     ebind (FsBlobView_blobType_byte B i) (\<lambda>t.
     ebind (assert_exec (t = EntryType_value DIR) ''Loaded blob is not a directory'') (\<lambda>_.
     ebind (DirBlob_readEntriesFromBlob B i) (\<lambda>es.
     ret \<lparr>db_blockId = i, db_parent = parent, db_entries = es, db_changed = False\<rparr>))))"

definition DirBlob_InitializeEmptyDir :: "'w blob_store \<Rightarrow> block_id \<Rightarrow> block_id \<Rightarrow> ('w, dir_blob) exec" where
  "DirBlob_InitializeEmptyDir B i parent =
     ebind (FsBlobView_InitializeBlob B i DIR parent) (\<lambda>_. DirBlob_new B i)"

definition DirBlob_writeEntriesToBlob :: "byte \<Rightarrow> 'w blob_store \<Rightarrow> dir_blob \<Rightarrow> ('w, dir_blob) exec" where
  "DirBlob_writeEntriesToBlob junk B d =
     (if db_changed d
      then
        ebind (lift_result (DirEntryList_serialize junk (db_entries d))) (\<lambda>serialized.
        ebind (FsBlobView_resize B (db_blockId d) (length serialized)) (\<lambda>_.
        ebind (FsBlobView_write B (db_blockId d) serialized 0) (\<lambda>_.
        ret (d\<lparr>db_changed := False\<rparr>))))
      else ret d)"

definition DirBlob_flush :: "byte \<Rightarrow> 'w blob_store \<Rightarrow> dir_blob \<Rightarrow> ('w, dir_blob) exec" where
  "DirBlob_flush junk B d =
     ebind (DirBlob_writeEntriesToBlob junk B d) (\<lambda>d.
     ebind (blob_flush B (db_blockId d)) (\<lambda>_. ret d))"

text \<open>
  An operation on the listing, run on the listing of a directory and a state \<open>'x\<close> of the caller (for the
  callback on overwritten entries). \<open>mark\<close> says when the directory counts as changed.
\<close>

definition DirBlob_run ::
  "('x dir_state, 'a) exec \<Rightarrow> ('a \<Rightarrow> bool) \<Rightarrow> dir_blob \<Rightarrow> 'x \<Rightarrow> 'a result \<times> dir_blob \<times> 'x" where
  "DirBlob_run m mark d x =
     (case m (x, db_entries d) of
        (Inl e, t) \<Rightarrow> (Inl e, d\<lparr>db_entries := snd t\<rparr>, fst t)
      | (Inr a, t) \<Rightarrow> (Inr a, d\<lparr>db_entries := snd t, db_changed := (db_changed d \<or> mark a)\<rparr>, fst t))"

definition DirBlob_addChild ::
  "startpos \<Rightarrow> timespec \<Rightarrow> new_entry \<Rightarrow> dir_blob \<Rightarrow> 'x \<Rightarrow> unit result \<times> dir_blob \<times> 'x" where
  "DirBlob_addChild sp now n = DirBlob_run (DirEntryList_add sp now n) (\<lambda>_. True)"

definition DirBlob_AddChildSymlink_mode :: mode where
  "DirBlob_AddChildSymlink_mode = addSymlinkFlag 0 OR 511"

definition DirBlob_AddOrOverwriteChild ::
  "startpos \<Rightarrow> timespec \<Rightarrow> new_entry \<Rightarrow> (block_id \<Rightarrow> ('x, unit) exec) \<Rightarrow> dir_blob \<Rightarrow> 'x \<Rightarrow> unit result \<times> dir_blob \<times> 'x" where
  "DirBlob_AddOrOverwriteChild sp now n onOverwritten =
     DirBlob_run (DirEntryList_addOrOverwrite sp now n onOverwritten) (\<lambda>_. True)"

definition DirBlob_RenameChild ::
  "startpos \<Rightarrow> timespec \<Rightarrow> block_id \<Rightarrow> data \<Rightarrow> (block_id \<Rightarrow> ('x, unit) exec) \<Rightarrow> dir_blob \<Rightarrow> 'x \<Rightarrow> unit result \<times> dir_blob \<times> 'x" where
  "DirBlob_RenameChild sp now i newName onOverwritten =
     DirBlob_run (DirEntryList_rename sp now i newName onOverwritten) (\<lambda>_. True)"

definition DirBlob_GetChild_name :: "data \<Rightarrow> dir_blob \<Rightarrow> dir_entry option" where
  "DirBlob_GetChild_name name d = DirEntryList_get_name (db_entries d) name"

definition DirBlob_GetChild_id :: "startpos \<Rightarrow> block_id \<Rightarrow> dir_blob \<Rightarrow> dir_entry option result" where
  "DirBlob_GetChild_id sp i d = DirEntryList_get_id sp (db_entries d) i"

definition DirBlob_RemoveChild_name :: "data \<Rightarrow> dir_blob \<Rightarrow> 'x \<Rightarrow> unit result \<times> dir_blob \<times> 'x" where
  "DirBlob_RemoveChild_name name = DirBlob_run (DirEntryList_remove_name name) (\<lambda>_. True)"

definition DirBlob_RemoveChild_id :: "startpos \<Rightarrow> block_id \<Rightarrow> dir_blob \<Rightarrow> 'x \<Rightarrow> unit result \<times> dir_blob \<times> 'x" where
  "DirBlob_RemoveChild_id sp i = DirBlob_run (DirEntryList_remove_id sp i) (\<lambda>_. True)"

definition DirBlob_AppendChildrenTo :: "(entry_type \<times> data) list \<Rightarrow> dir_blob \<Rightarrow> (entry_type \<times> data) list" where
  "DirBlob_AppendChildrenTo result d = result @ map (\<lambda>e. (de_type e, de_name e)) (db_entries d)"

definition DirBlob_updateAccessTimestampForChild ::
  "startpos \<Rightarrow> timespec \<Rightarrow> block_id \<Rightarrow> TimestampUpdateBehavior \<Rightarrow> dir_blob \<Rightarrow> 'x \<Rightarrow> bool result \<times> dir_blob \<times> 'x" where
  "DirBlob_updateAccessTimestampForChild sp now i behavior =
     DirBlob_run (DirEntryList_updateAccessTimestampForChild sp now i behavior) (\<lambda>updated. updated)"

definition DirBlob_updateModificationTimestampForChild ::
  "startpos \<Rightarrow> timespec \<Rightarrow> block_id \<Rightarrow> dir_blob \<Rightarrow> 'x \<Rightarrow> unit result \<times> dir_blob \<times> 'x" where
  "DirBlob_updateModificationTimestampForChild sp now i =
     DirBlob_run (DirEntryList_updateModificationTimestampForChild sp now i) (\<lambda>_. True)"

definition DirBlob_chmodChild ::
  "startpos \<Rightarrow> timespec \<Rightarrow> block_id \<Rightarrow> mode \<Rightarrow> dir_blob \<Rightarrow> 'x \<Rightarrow> unit result \<times> dir_blob \<times> 'x" where
  "DirBlob_chmodChild sp now i m = DirBlob_run (DirEntryList_setMode sp now i m) (\<lambda>_. True)"

definition DirBlob_chownChild ::
  "startpos \<Rightarrow> timespec \<Rightarrow> block_id \<Rightarrow> u32 \<Rightarrow> u32 \<Rightarrow> dir_blob \<Rightarrow> 'x \<Rightarrow> bool result \<times> dir_blob \<times> 'x" where
  "DirBlob_chownChild sp now i uid gid = DirBlob_run (DirEntryList_setUidGid sp now i uid gid) (\<lambda>changed. changed)"

definition DirBlob_utimensChild ::
  "startpos \<Rightarrow> timespec \<Rightarrow> block_id \<Rightarrow> timespec \<Rightarrow> timespec \<Rightarrow> dir_blob \<Rightarrow> 'x \<Rightarrow> unit result \<times> dir_blob \<times> 'x" where
  "DirBlob_utimensChild sp now i lastAccessTime lastModificationTime =
     DirBlob_run (DirEntryList_setAccessTimes sp now i lastAccessTime lastModificationTime) (\<lambda>_. True)"

definition DirBlob_NumChildren :: "dir_blob \<Rightarrow> nat" where
  "DirBlob_NumChildren d = length (db_entries d)"

section \<open>FsBlobStore\<close>

text \<open>A loaded blob with what its object keeps in memory: the parent pointer, and the target or listing.\<close>

datatype fs_blob =
    FileBlob (fs_file_id: block_id) (fs_file_parent: block_id)
  | DirBlob (fs_dir: dir_blob)
  | SymlinkBlob (fs_symlink_id: block_id) (fs_symlink_parent: block_id) (fs_target: data)

definition FsBlobStore_createFileBlob :: "'w blob_store \<Rightarrow> block_id \<Rightarrow> ('w, fs_blob) exec" where
  "FsBlobStore_createFileBlob B parent =
     ebind (blob_create B) (\<lambda>i.
     ebind (FileBlob_InitializeEmptyFile B i parent) (\<lambda>p. ret (FileBlob i p)))"

definition FsBlobStore_createDirBlob :: "'w blob_store \<Rightarrow> block_id \<Rightarrow> ('w, fs_blob) exec" where
  "FsBlobStore_createDirBlob B parent =
     ebind (blob_create B) (\<lambda>i.
     ebind (DirBlob_InitializeEmptyDir B i parent) (\<lambda>d. ret (DirBlob d)))"

definition FsBlobStore_createSymlinkBlob :: "'w blob_store \<Rightarrow> data \<Rightarrow> block_id \<Rightarrow> ('w, fs_blob) exec" where
  "FsBlobStore_createSymlinkBlob B target parent =
     ebind (blob_create B) (\<lambda>i.
     ebind (SymlinkBlob_InitializeSymlink B i target parent) (\<lambda>(p, t). ret (SymlinkBlob i p t)))"

definition FsBlobStore_load :: "'w blob_store \<Rightarrow> block_id \<Rightarrow> ('w, fs_blob option) exec" where
  "FsBlobStore_load B i =
     ebind (blob_load B i) (\<lambda>found.
     if \<not> found then ret None
     else
       ebind (FsBlobView_blobType B i) (\<lambda>t.
       if t = EntryType_value FILE then ebind (FileBlob_new B i) (\<lambda>p. ret (Some (FileBlob i p)))
       else if t = EntryType_value DIR then ebind (DirBlob_new B i) (\<lambda>d. ret (Some (DirBlob d)))
       else if t = EntryType_value SYMLINK then ebind (SymlinkBlob_new B i) (\<lambda>(p, target). ret (Some (SymlinkBlob i p target)))
       else throw (AssertFailed ''Unknown magic number'')))"

text \<open>Removing a directory object writes its listing back first (\<open>releaseBaseBlob\<close>).\<close>

definition FsBlobStore_remove :: "byte \<Rightarrow> 'w blob_store \<Rightarrow> fs_blob \<Rightarrow> ('w, unit) exec" where
  "FsBlobStore_remove junk B blob =
     (case blob of
        FileBlob i p \<Rightarrow> blob_remove B i
      | SymlinkBlob i p t \<Rightarrow> blob_remove B i
      | DirBlob d \<Rightarrow> ebind (DirBlob_writeEntriesToBlob junk B d) (\<lambda>_. blob_remove B (db_blockId d)))"

text \<open>
  The migration walks the directory tree; \<open>fuel\<close> bounds its depth (a cycle of directories would never
  end). \<open>signal\<close> is whether a signal has occurred before the given child is migrated.
\<close>

primrec FsBlobStore_migrate_node ::
  "nat \<Rightarrow> 'w blob_store \<Rightarrow> (data \<Rightarrow> bool) \<Rightarrow> block_id \<Rightarrow> block_id \<Rightarrow> ('w, unit) exec" where
  "FsBlobStore_migrate_node 0 B signal node parentId = throw OutOfFuel"
| "FsBlobStore_migrate_node (Suc fuel) B signal node parentId =
     ebind (FsBlobView_migrate B node parentId) (\<lambda>_.
     ebind (blob_numNodes B node) (\<lambda>n.
     ebind (FsBlobView_blobType B node) (\<lambda>t.
     if t = EntryType_value DIR
     then
       ebind (DirBlob_new B node) (\<lambda>dir.
       for_each (\<lambda>(ty, name).
         if signal name then throw (RuntimeError ''Caught signal'')
         else
           case DirBlob_GetChild_name name dir of
             None \<Rightarrow> throw (AssertFailed ''Couldn't load child, although it was returned as a child in the list.'')
           | Some entry \<Rightarrow>
               ebind (blob_load B (de_blockId entry)) (\<lambda>found.
               ebind (assert_exec found ''Couldn't load child blob'') (\<lambda>_.
               FsBlobStore_migrate_node fuel B signal (de_blockId entry) node)))
         (DirBlob_AppendChildrenTo [] dir))
     else ret ())))"

definition FsBlobStore_migrate ::
  "nat \<Rightarrow> 'w blob_store \<Rightarrow> (data \<Rightarrow> bool) \<Rightarrow> block_id \<Rightarrow> ('w, unit) exec" where
  "FsBlobStore_migrate fuel B signal rootBlobId =
     ebind (blob_load B rootBlobId) (\<lambda>found.
     if \<not> found then throw (RuntimeError ''Could not load root blob'')
     else FsBlobStore_migrate_node fuel B signal rootBlobId BlockId_Null)"

end
