(* ===== verification/FsContents.thy ===== *)
theory FsContents
  imports BlobScripts FsBlobs
begin

text \<open>
  Files, symlinks and directories over any blob store with the contract \<open>blob_arrays\<close>: what a file system
  blob consists of, that each operation acts on its content and leaves its header alone, and that what is
  written is what is loaded.
\<close>

section \<open>The bytes of a file system blob\<close>

definition fs_header :: "entry_type \<Rightarrow> block_id \<Rightarrow> data" where
  "fs_header t parent = serialize FsBlobView_FORMAT_VERSION_HEADER @ [EntryType_value t] @ BlockId_ToBinary parent"

text \<open>The header of the format before parent pointers.\<close>

definition old_fs_header :: "entry_type \<Rightarrow> data" where
  "old_fs_header t = serialize (0 :: u16) @ [EntryType_value t]"

lemma header_sizes [simp]: "FsBlobView_HEADER_SIZE = 19" "FsBlobView_OLD_HEADER_SIZE = 3"
  by (simp_all add: FsBlobView_HEADER_SIZE_def FsBlobView_OLD_HEADER_SIZE_def BINARY_LENGTH_def)

lemma length_fs_header [simp]: "length (fs_header t p) = 19" and length_old_fs_header [simp]: "length (old_fs_header t) = 3"
  by (simp_all add: fs_header_def old_fs_header_def)

lemma fs_header_fields:
  "slice 0 2 (fs_header t p @ C) = serialize FsBlobView_FORMAT_VERSION_HEADER"
  "slice 2 1 (fs_header t p @ C) = [EntryType_value t]"
  "slice 3 16 (fs_header t p @ C) = BlockId_ToBinary p"
  by (simp_all add: fs_header_def slice_def)

lemma lift_result_Inr: "lift_result (Inr x) = ret x"
  by (simp add: lift_result_def ret_def fun_eq_iff)

lemma EntryType_value_inject [simp]: "EntryType_value s = EntryType_value t \<longleftrightarrow> s = t"
  by (cases s; cases t) (simp_all add: EntryType_value_def)

text \<open>Writes and resizes behind a header.\<close>

lemma written_inside: "off + length src \<le> length D \<Longrightarrow> written D off src = write_at off src D"
  by (simp add: written_def update_def write_at_def zeroes_def)

lemma written_behind: "length H = n \<Longrightarrow> written (H @ C) (off + n) src = H @ written C off src"
  by (auto simp: written_def update_def write_at_def zeroes_def)

lemma resized_behind: "length H = n \<Longrightarrow> resized (k + n) (H @ C) = H @ resized k C"
  by (simp add: resized_def)

lemma slice_behind: "length H = n \<Longrightarrow> slice (off + n) count (H @ C) = slice off count C"
  by (simp add: slice_def)

lemma header_written:
  assumes "length D = 19"
  shows "written (written (written D 0 (serialize FsBlobView_FORMAT_VERSION_HEADER)) 2 [EntryType_value t]) 3 (BlockId_ToBinary p) =
    fs_header t p"
  using assms by (simp add: written_inside) (simp add: write_at_def fs_header_def)

text \<open>The bytes of a listing that \<open>DirEntryList\<close> can save and load.\<close>

definition saveable :: "dir_entries \<Rightarrow> bool" where
  "saveable es \<longleftrightarrow> dir_inv es \<and> (\<forall>e\<in>set es. entry_wf e) \<and> DirEntryList_serializedSize es < 2 ^ 32"

definition listing :: "dir_entries \<Rightarrow> data" where
  "listing es = concat (map entry_bytes es)"

lemma listing_save: "saveable es \<Longrightarrow> DirEntryList_serialize junk es = Inr (listing es)"
  by (simp add: saveable_def listing_def DirEntryList_serialize_eq)

lemma listing_load: "saveable es \<Longrightarrow> DirEntryList_deserializeFrom (listing es) = Inr es"
  using deserialize_loop_eq [of es "[]"] by (simp add: saveable_def listing_def DirEntryList_deserializeFrom_def dir_inv_def ids_sorted_def)

text \<open>The object that loading a blob gives.\<close>

definition fs_object :: "block_id \<Rightarrow> entry_type \<Rightarrow> block_id \<Rightarrow> data \<Rightarrow> fs_blob \<Rightarrow> bool" where
  "fs_object i t p C b \<longleftrightarrow>
     (case t of
        FILE \<Rightarrow> b = FileBlob i p
      | SYMLINK \<Rightarrow> b = SymlinkBlob i p (takeWhile (\<lambda>b. b \<noteq> 0) C)
      | DIR \<Rightarrow> \<exists>es. saveable es \<and> C = listing es \<and> b = DirBlob \<lparr>db_blockId = i, db_parent = p, db_entries = es, db_changed = False\<rparr>)"

section \<open>Views\<close>

context blob_arrays
begin

abbreviation becomes :: "'w \<Rightarrow> (block_id \<rightharpoonup> data) \<Rightarrow> nat \<Rightarrow> 'w \<Rightarrow> bool" where
  "becomes w M k w' \<equiv> rep w' M \<and> opened w' = opened w \<and> ids_left w \<le> ids_left w' + k"

text \<open>One step of a program over the blob store, then the rest.\<close>

lemma after_read:
  assumes "rep w M" and "i \<in> opened w" and "M i = Some D" and "off + count \<le> length D"
    and "\<And>w'. becomes w M 0 w' \<Longrightarrow> returns (f (slice off count D)) w' Q"
  shows "returns (ebind (blob_read B i off count) f) w Q"
  by (rule returns_ebind [OF read [OF assms(1-4)]]) (use assms(5) in simp)

lemma after_readAll:
  assumes "rep w M" and "i \<in> opened w" and "M i = Some D" and "\<And>w'. becomes w M 0 w' \<Longrightarrow> returns (f D) w' Q"
  shows "returns (ebind (blob_readAll B i) f) w Q"
  by (rule returns_ebind [OF readAll [OF assms(1-3)]]) (use assms(4) in simp)

lemma after_size:
  assumes "rep w M" and "i \<in> opened w" and "M i = Some D" and "\<And>w'. becomes w M 0 w' \<Longrightarrow> returns (f (length D)) w' Q"
  shows "returns (ebind (blob_size B i) f) w Q"
  by (rule returns_ebind [OF size_of [OF assms(1-3)]]) (use assms(4) in simp)

lemma after_resize:
  assumes "rep w M" and "i \<in> opened w" and "M i = Some D" and "n \<le> limit" and "need (length D) n \<le> ids_left w"
    and "\<And>w'. becomes w (M(i \<mapsto> resized n D)) (need (length D) n) w' \<Longrightarrow> returns (f ()) w' Q"
  shows "returns (ebind (blob_resize B i n) f) w Q"
  by (rule returns_ebind [OF resize [OF assms(1-5)]]) (use assms(6) in simp)

lemma after_write:
  assumes "rep w M" and "i \<in> opened w" and "M i = Some D" and "off + length src \<le> limit" and "need (length D) (off + length src) \<le> ids_left w"
    and "\<And>w'. becomes w (M(i \<mapsto> written D off src)) (need (length D) (off + length src)) w' \<Longrightarrow> returns (f ()) w' Q"
  shows "returns (ebind (blob_write B i src off) f) w Q"
  by (rule returns_ebind [OF write_to [OF assms(1-5)]]) (use assms(6) in simp)

lemma InitializeBlob_ok:
  assumes "rep w M" and "i \<in> opened w" and "M i = Some D" and "19 \<le> limit" and "need (length D) 19 \<le> ids_left w"
  shows "returns (FsBlobView_InitializeBlob B i t p) w (\<lambda>_. becomes w (M(i \<mapsto> fs_header t p)) (need (length D) 19))"
proof -
  let ?D1 = "resized 19 D"
  let ?D2 = "written ?D1 0 (serialize FsBlobView_FORMAT_VERSION_HEADER)"
  let ?D3 = "written ?D2 2 [EntryType_value t]"
  have len: "length ?D1 = 19" "length ?D2 = 19" "length ?D3 = 19" by (simp_all add: length_written)
  have free: "need 19 n = 0" if "n \<le> 19" for n using shrink [OF that] .
  show ?thesis
    unfolding FsBlobView_InitializeBlob_def header_sizes
  proof (rule after_resize [OF assms(1-5)], elim conjE, goal_cases)
    case (1 w1)
    show ?case
    proof (rule after_write [where M = "M(i \<mapsto> ?D1)" and D = ?D1], use 1 assms len free in simp_all, elim conjE, goal_cases)
      case (1 w2)
      note w2 = 1
      show ?case
      proof (rule after_write [where M = "M(i \<mapsto> ?D2)" and D = ?D2], use w2 assms len free in simp_all, elim conjE, goal_cases)
        case (1 w3)
        have "returns (blob_write B i (BlockId_ToBinary p) 3) w3 (\<lambda>_ w'. rep w' ((M(i \<mapsto> ?D3))(i \<mapsto> fs_header t p)) \<and>
            opened w' = opened w3 \<and> ids_left w3 \<le> ids_left w' + need (length ?D3) (3 + length (BlockId_ToBinary p)))"
          unfolding header_written [OF len(1), symmetric] by (rule write_to) (use 1 w2 assms len free in simp_all)
        then show ?case using 1 w2 \<open>opened w1 = _\<close> \<open>ids_left w \<le> _\<close> len free by (auto elim!: returns_mono)
      qed
    qed
  qed
qed

text \<open>Loading: \<open>fs_at w M i t p C\<close> says that the blob \<open>i\<close> is open, of type \<open>t\<close>, with parent \<open>p\<close> and content \<open>C\<close>.\<close>

definition fs_at :: "'w \<Rightarrow> (block_id \<rightharpoonup> data) \<Rightarrow> block_id \<Rightarrow> entry_type \<Rightarrow> block_id \<Rightarrow> data \<Rightarrow> bool" where
  "fs_at w M i t p C \<longleftrightarrow> rep w M \<and> i \<in> opened w \<and> M i = Some (fs_header t p @ C)"

lemma fs_atD: "fs_at w M i t p C \<Longrightarrow> rep w M" "fs_at w M i t p C \<Longrightarrow> i \<in> opened w"
  "fs_at w M i t p C \<Longrightarrow> M i = Some (fs_header t p @ C)"
  by (simp_all add: fs_at_def)

lemma fs_at_limit: "fs_at w M i t p C \<Longrightarrow> length C + 19 \<le> limit"
  using within [of w M i "fs_header t p @ C"] by (simp add: fs_at_def)

lemma fs_at_becomes: "fs_at w M i t p C \<Longrightarrow> becomes w M k w' \<Longrightarrow> fs_at w' M i t p C"
  by (simp add: fs_at_def)

lemma becomes_trans: "becomes w M k w1 \<Longrightarrow> becomes w1 N l w2 \<Longrightarrow> becomes w N (k + l) w2"
  by auto

lemma view_read:
  assumes "fs_at w M i t p C" and "off + n \<le> 19"
    and "\<And>w'. fs_at w' M i t p C \<Longrightarrow> becomes w M 0 w' \<Longrightarrow> returns (f (slice off n (fs_header t p @ C))) w' Q"
  shows "returns (ebind (blob_read B i off n) f) w Q"
  by (rule after_read [OF fs_atD [OF assms(1)]]) (use assms fs_at_becomes in auto)

lemma checkHeader_ok:
  assumes "fs_at w M i t p C"
  shows "returns (FsBlobView_checkHeader B i) w (\<lambda>_. becomes w M 0)"
  unfolding FsBlobView_checkHeader_def FsBlobView_getFormatVersionHeader_def ebind_assoc
  by (rule view_read [OF assms])
    (use deserialize_serialize_widths(2) [of FsBlobView_FORMAT_VERSION_HEADER "[]"] in \<open>simp_all add: fs_header_fields lift_result_Inr\<close>)

lemma blobType_byte_ok:
  assumes "fs_at w M i t p C"
  shows "returns (FsBlobView_blobType_byte B i) w (\<lambda>b w'. b = EntryType_value t \<and> becomes w M 0 w')"
  unfolding FsBlobView_blobType_byte_def by (rule view_read [OF assms]) (simp_all add: fs_header_fields [simplified] lift_result_Inr)

lemma blobType_ok:
  assumes "fs_at w M i t p C"
  shows "returns (FsBlobView_blobType B i) w (\<lambda>b w'. b = EntryType_value t \<and> becomes w M 0 w')"
  unfolding FsBlobView_blobType_def
proof (rule returns_ebind [OF checkHeader_ok [OF assms]], goal_cases)
  case (1 x w1)
  then show ?case using blobType_byte_ok [OF fs_at_becomes [OF assms 1]] by (auto elim!: returns_mono)
qed

lemma view_new_ok:
  assumes "fs_at w M i t p C"
  shows "returns (FsBlobView_new B i) w (\<lambda>q w'. q = p \<and> becomes w M 0 w')"
  unfolding FsBlobView_new_def FsBlobView_loadParentPointer_def
proof (rule returns_ebind [OF checkHeader_ok [OF assms]], goal_cases)
  case (1 x w1)
  show ?case
    using FromBinary_ToBinary [of p "[]"] 1
    by (intro view_read [OF fs_at_becomes [OF assms 1]]) (simp_all add: BINARY_LENGTH_def fs_header_fields lift_result_Inr)
qed

section \<open>Files\<close>

lemma FileBlob_new_ok:
  assumes "fs_at w M i FILE p C"
  shows "returns (FileBlob_new B i) w (\<lambda>q w'. q = p \<and> becomes w M 0 w')"
  unfolding FileBlob_new_def
proof (rule returns_ebind [OF view_new_ok [OF assms]], elim conjE, goal_cases)
  case (1 q w1)
  then have w1: "becomes w M 0 w1" by simp
  show ?case
    by (rule returns_ebind [OF blobType_byte_ok [OF fs_at_becomes [OF assms w1]]]) (use 1 in auto)
qed

text \<open>A directory or symlink is not opened as a file.\<close>

lemma FileBlob_new_wrong:
  assumes "fs_at w M i t p C" and "t \<noteq> FILE"
  shows "fst (FileBlob_new B i w) = Inl (AssertFailed ''Loaded blob is not a file'')"
proof -
  obtain w1 where w1: "FsBlobView_new B i w = (Inr p, w1)" "becomes w M 0 w1"
    using view_new_ok [OF assms(1)] by (auto simp: returns_def)
  obtain w2 where "FsBlobView_blobType_byte B i w1 = (Inr (EntryType_value t), w2)"
    using blobType_byte_ok [OF fs_at_becomes [OF assms(1) w1(2)]] by (auto simp: returns_def)
  then show ?thesis using w1(1) assms(2) by (simp add: FileBlob_new_def ebind_def assert_exec_def throw_def)
qed

lemma FileBlob_size_ok:
  assumes "fs_at w M i t p C"
  shows "returns (FileBlob_size B i) w (\<lambda>n w'. n = length C \<and> becomes w M 0 w')"
  unfolding FileBlob_size_def FsBlobView_size_def
  by (rule after_size [OF fs_atD [OF assms]]) (use fs_at_limit [OF assms] limit in \<open>simp add: sub64_le\<close>)

lemma FileBlob_read_ok:
  assumes "fs_at w M i t p C" and "off + 19 < 2 ^ 63" and "count < 2 ^ 63"
  shows "returns (FileBlob_read B i off count) w (\<lambda>d w'. d = slice off count C \<and> becomes w M 0 w')"
proof -
  have "trunc64 (off + 19) = off + 19" using assms(2) by (intro trunc_less(2)) simp
  then show ?thesis
    using tryRead [OF fs_atD [OF assms(1)] assms(2,3)] slice_behind [of "fs_header t p" 19 off count C]
    by (simp add: FileBlob_read_def FsBlobView_tryRead_def)
qed

lemma FileBlob_write_ok:
  assumes "fs_at w M i t p C" and "off + length src + 19 \<le> limit"
    and "need (length C + 19) (off + length src + 19) \<le> ids_left w"
  shows "returns (FileBlob_write B i src off) w (\<lambda>_ w'. fs_at w' (M(i \<mapsto> fs_header t p @ written C off src)) i t p (written C off src) \<and>
    becomes w (M(i \<mapsto> fs_header t p @ written C off src)) (need (length C + 19) (off + length src + 19)) w')"
proof -
  have "trunc64 (off + 19) = off + 19" using assms(2) limit by (intro trunc_less(2)) simp
  then show ?thesis
    using write_to [OF fs_atD [OF assms(1)], of "off + 19" src] assms fs_atD(2) [OF assms(1)]
      written_behind [of "fs_header t p" 19 C off src]
    by (auto simp: FileBlob_write_def FsBlobView_write_def fs_at_def add_ac elim!: returns_mono)
qed

lemma FileBlob_resize_ok:
  assumes "fs_at w M i t p C" and "n + 19 \<le> limit" and "need (length C + 19) (n + 19) \<le> ids_left w"
  shows "returns (FileBlob_resize B i n) w (\<lambda>_ w'. fs_at w' (M(i \<mapsto> fs_header t p @ resized n C)) i t p (resized n C) \<and>
    becomes w (M(i \<mapsto> fs_header t p @ resized n C)) (need (length C + 19) (n + 19)) w')"
proof -
  have "trunc64 (n + 19) = n + 19" using assms(2) limit by (intro trunc_less(2)) simp
  then show ?thesis
    using resize [OF fs_atD [OF assms(1)] assms(2)] assms(3) fs_atD(2) [OF assms(1)] resized_behind [of "fs_header t p" 19 n C]
    by (auto simp: FileBlob_resize_def FsBlobView_resize_def fs_at_def add_ac elim!: returns_mono)
qed

lemma created_blob:
  assumes "rep w M" and "0 < ids_left w" and "19 \<le> limit" and "Suc (need 0 19) \<le> ids_left w"
    and init: "\<And>i w1. M i = None \<Longrightarrow> fs_at w1 (M(i \<mapsto> fs_header t p)) i t p [] \<Longrightarrow> opened w1 = insert i (opened w) \<Longrightarrow>
      ids_left w \<le> ids_left w1 + Suc (need 0 19) \<Longrightarrow> returns (f i) w1 Q"
  shows "returns (ebind (blob_create B) (\<lambda>i. ebind (FsBlobView_InitializeBlob B i t p) (\<lambda>_. f i))) w Q"
proof (rule returns_ebind [OF create [OF assms(1,2)]], elim conjE, goal_cases)
  case (1 i w0)
  have "returns (FsBlobView_InitializeBlob B i t p) w0 (\<lambda>_. becomes w0 ((M(i \<mapsto> []))(i \<mapsto> fs_header t p)) (need (length ([] :: data)) 19))"
    by (rule InitializeBlob_ok) (use 1 assms in simp_all)
  then show ?case
  proof (rule returns_ebind, goal_cases)
    case (1 x w1)
    then show ?case
      using \<open>opened w0 = _\<close> \<open>ids_left w \<le> _\<close> \<open>M i = None\<close> by (intro init) (simp_all add: fs_at_def)
  qed
qed

lemma createFileBlob_ok:
  assumes "rep w M" and "19 \<le> limit" and "Suc (need 0 19) \<le> ids_left w"
  shows "returns (FsBlobStore_createFileBlob B p) w (\<lambda>b w'. \<exists>i. b = FileBlob i p \<and> M i = None \<and>
    fs_at w' (M(i \<mapsto> fs_header FILE p)) i FILE p [] \<and> opened w' = insert i (opened w) \<and> ids_left w \<le> ids_left w' + Suc (need 0 19))"
  unfolding FsBlobStore_createFileBlob_def FileBlob_InitializeEmptyFile_def ebind_assoc
proof (rule created_blob [OF assms(1) _ assms(2,3)], use assms(3) in simp, goal_cases)
  case (1 i w1)
  show ?case
    by (rule returns_ebind [OF FileBlob_new_ok [OF 1(2)]]) (use 1 fs_at_becomes [OF 1(2)] in auto)
qed

section \<open>Symlinks\<close>

lemma SymlinkBlob_new_ok:
  assumes "fs_at w M i SYMLINK p C"
  shows "returns (SymlinkBlob_new B i) w (\<lambda>x w'. x = (p, takeWhile (\<lambda>b. b \<noteq> 0) C) \<and> becomes w M 0 w')"
  unfolding SymlinkBlob_new_def SymlinkBlob_readTargetFromBlob_def ebind_assoc
proof (rule returns_ebind [OF view_new_ok [OF assms]], elim conjE, goal_cases)
  case (1 q w1)
  then have f1: "fs_at w1 M i SYMLINK p C" using fs_at_becomes [OF assms, of w1 0] by simp
  show ?case
    unfolding FileBlob_size_def [symmetric]
  proof (rule returns_ebind [OF FileBlob_size_ok [OF f1]], elim conjE, goal_cases)
    case (1 n w2)
    note w2 = 1
    then have f2: "fs_at w2 M i SYMLINK p C" using fs_at_becomes [OF f1, of w2 0] by simp
    have "trunc64 (0 + 19) = 19" by (simp add: trunc64_def)
    then have view: "FsBlobView_read B i 0 n = blob_read B i 19 n" by (simp add: FsBlobView_read_def)
    show ?case
      unfolding view
    proof (rule after_read [OF fs_atD [OF f2]], use w2 in simp, goal_cases)
      case (1 w3)
      have d: "slice 19 n (fs_header SYMLINK p @ C) = C" using w2(1) slice_behind [of "fs_header SYMLINK p" 19 0 n C] by simp
      have f3: "fs_at w3 M i SYMLINK p C" using fs_at_becomes [OF f2 1] .
      show ?case
        unfolding d returns_ebind_ret
        by (rule returns_ebind [OF blobType_byte_ok [OF f3]]) (use 1 w2 \<open>opened w1 = _\<close> \<open>ids_left w \<le> _\<close> \<open>q = p\<close> in auto)
    qed
  qed
qed

lemma InitializeSymlink_ok:
  assumes at: "fs_at w M i SYMLINK p []" and size: "length target + 19 \<le> limit" and room: "need 19 (length target + 19) \<le> ids_left w"
  shows "returns (ebind (FsBlobView_new B i) (\<lambda>_. ebind (FsBlobView_resize B i (length target)) (\<lambda>_.
      ebind (FsBlobView_write B i target 0) (\<lambda>_. SymlinkBlob_new B i)))) w
    (\<lambda>x w'. x = (p, takeWhile (\<lambda>b. b \<noteq> 0) target) \<and> becomes w (M(i \<mapsto> fs_header SYMLINK p @ target)) (need 19 (length target + 19)) w')"
proof (rule returns_ebind [OF view_new_ok [OF at]], elim conjE, goal_cases)
  case (1 q w1)
  let ?M = "M(i \<mapsto> fs_header SYMLINK p @ resized (length target) [])"
  have f1: "fs_at w1 M i SYMLINK p []" using fs_at_becomes [OF at, of w1 0] 1 by simp
  have n1: "need (length ([] :: data) + 19) (length target + 19) \<le> ids_left w1" using room 1 by simp
  show ?case
    unfolding FileBlob_resize_def [symmetric] FileBlob_write_def [symmetric]
  proof (rule returns_ebind [OF FileBlob_resize_ok [OF f1 size n1]], elim conjE, goal_cases)
    case (1 x w2)
    note w2 = 1
    have free: "need (length (resized (length target) []) + 19) (0 + length target + 19) = 0" by (simp add: shrink)
    have wr: "written (resized (length target) []) 0 target = target" by (simp add: written_inside) (simp add: write_at_def)
    have M: "?M(i \<mapsto> fs_header SYMLINK p @ target) = M(i \<mapsto> fs_header SYMLINK p @ target)" by simp
    show ?case
    proof (rule returns_ebind [OF FileBlob_write_ok [OF w2(1), of 0 target]], use size free in simp, use free in simp,
        unfold wr free M, elim conjE, goal_cases)
      case (1 x w3)
      show ?case
        by (rule returns_mono [OF SymlinkBlob_new_ok [OF 1(1)]])
          (use 1 w2 \<open>opened w1 = _\<close> \<open>ids_left w \<le> _\<close> in auto)
    qed
  qed
qed

lemma createSymlinkBlob_ok:
  assumes "rep w M" and "length target + 19 \<le> limit" and "Suc (need 0 19 + need 19 (length target + 19)) \<le> ids_left w"
  shows "returns (FsBlobStore_createSymlinkBlob B target p) w (\<lambda>b w'. \<exists>i. b = SymlinkBlob i p (takeWhile (\<lambda>b. b \<noteq> 0) target) \<and>
    M i = None \<and> fs_at w' (M(i \<mapsto> fs_header SYMLINK p @ target)) i SYMLINK p target \<and> opened w' = insert i (opened w) \<and>
    ids_left w \<le> ids_left w' + Suc (need 0 19 + need 19 (length target + 19)))"
  unfolding FsBlobStore_createSymlinkBlob_def SymlinkBlob_InitializeSymlink_def ebind_assoc
proof (rule created_blob [OF assms(1)], use assms(2,3) in simp_all, goal_cases)
  case (1 i w1)
  have M: "(M(i \<mapsto> fs_header SYMLINK p))(i \<mapsto> fs_header SYMLINK p @ target) = M(i \<mapsto> fs_header SYMLINK p @ target)" by simp
  have room: "need 19 (length target + 19) \<le> ids_left w1" using 1(4) assms(3) by simp
  have "returns (ebind (ebind (FsBlobView_new B i) (\<lambda>_. ebind (FsBlobView_resize B i (length target)) (\<lambda>_.
      ebind (FsBlobView_write B i target 0) (\<lambda>_. SymlinkBlob_new B i)))) (\<lambda>(p, t). ret (SymlinkBlob i p t))) w1
    (\<lambda>b w'. \<exists>i. b = SymlinkBlob i p (takeWhile (\<lambda>b. b \<noteq> 0) target) \<and>
    M i = None \<and> fs_at w' (M(i \<mapsto> fs_header SYMLINK p @ target)) i SYMLINK p target \<and> opened w' = insert i (opened w) \<and>
    ids_left w \<le> ids_left w' + Suc (need 0 19 + need 19 (length target + 19)))"
    by (rule returns_ebind [OF InitializeSymlink_ok [OF 1(2) assms(2) room, unfolded M]])
      (use 1 in \<open>auto simp: fs_at_def\<close>)
  then show ?case unfolding ebind_assoc add_Suc_right .
qed

section \<open>Directories\<close>

lemma DirBlob_new_ok:
  assumes at: "fs_at w M i DIR p (listing es)" and es: "saveable es"
  shows "returns (DirBlob_new B i) w (\<lambda>d w'. d = \<lparr>db_blockId = i, db_parent = p, db_entries = es, db_changed = False\<rparr> \<and> becomes w M 0 w')"
  unfolding DirBlob_new_def
proof (rule returns_ebind [OF view_new_ok [OF at]], elim conjE, goal_cases)
  case (1 q w1)
  note w1 = 1
  then have f1: "fs_at w1 M i DIR p (listing es)" using fs_at_becomes [OF at, of w1 0] by simp
  show ?case
  proof (rule returns_ebind [OF blobType_byte_ok [OF f1]], elim conjE, rule returns_assert, simp, goal_cases)
    case (1 t w2)
    note w2 = 1
    then have f2: "fs_at w2 M i DIR p (listing es)" using fs_at_becomes [OF f1, of w2 0] by simp
    show ?case
      unfolding DirBlob_readEntriesFromBlob_def FsBlobView_readAll_def ebind_assoc
    proof (rule after_readAll [OF fs_atD [OF f2]], goal_cases)
      case (1 w3)
      then show ?case using w1 w2 listing_load [OF es] by (simp add: lift_result_Inr)
    qed
  qed
qed

lemma createDirBlob_ok:
  assumes "rep w M" and "19 \<le> limit" and "Suc (need 0 19) \<le> ids_left w"
  shows "returns (FsBlobStore_createDirBlob B p) w (\<lambda>b w'. \<exists>i.
    b = DirBlob \<lparr>db_blockId = i, db_parent = p, db_entries = [], db_changed = False\<rparr> \<and> M i = None \<and>
    fs_at w' (M(i \<mapsto> fs_header DIR p)) i DIR p [] \<and> opened w' = insert i (opened w) \<and> ids_left w \<le> ids_left w' + Suc (need 0 19))"
  unfolding FsBlobStore_createDirBlob_def DirBlob_InitializeEmptyDir_def ebind_assoc
proof (rule created_blob [OF assms(1) _ assms(2,3)], use assms(3) in simp, goal_cases)
  case (1 i w1)
  have es: "saveable []" "listing [] = []"
    by (simp_all add: saveable_def listing_def dir_inv_def ids_sorted_def DirEntryList_serializedSize_def)
  show ?case
    by (rule returns_ebind [OF DirBlob_new_ok [OF 1(2) [folded es(2)] es(1)]]) (use 1 fs_at_becomes [OF 1(2)] in auto)
qed

text \<open>Saving a changed directory.\<close>

lemma writeEntriesToBlob_ok:
  assumes at: "fs_at w M (db_blockId d) DIR p C" and es: "saveable (db_entries d)" and changed: "db_changed d"
    and size: "length (listing (db_entries d)) + 19 \<le> limit"
    and room: "need (length C + 19) (length (listing (db_entries d)) + 19) \<le> ids_left w"
  shows "returns (DirBlob_writeEntriesToBlob junk B d) w (\<lambda>d' w'. d' = d\<lparr>db_changed := False\<rparr> \<and>
    fs_at w' (M(db_blockId d \<mapsto> fs_header DIR p @ listing (db_entries d))) (db_blockId d) DIR p (listing (db_entries d)) \<and>
    becomes w (M(db_blockId d \<mapsto> fs_header DIR p @ listing (db_entries d))) (need (length C + 19) (length (listing (db_entries d)) + 19)) w')"
proof -
  let ?i = "db_blockId d" and ?n = "length (listing (db_entries d))"
  have prog: "DirBlob_writeEntriesToBlob junk B d = ebind (FileBlob_resize B ?i ?n) (\<lambda>_.
      ebind (FileBlob_write B ?i (listing (db_entries d)) 0) (\<lambda>_. ret (d\<lparr>db_changed := False\<rparr>)))"
    using changed listing_save [OF es, of junk]
    by (simp add: DirBlob_writeEntriesToBlob_def lift_result_Inr FileBlob_resize_def FileBlob_write_def fun_eq_iff)
  have free: "need (length (resized ?n C) + 19) (0 + ?n + 19) = 0" by (simp add: shrink)
  have wr: "written (resized ?n C) 0 (listing (db_entries d)) = listing (db_entries d)" by (simp add: written_inside) (simp add: write_at_def)
  have M: "(M(?i \<mapsto> X))(?i \<mapsto> Y) = M(?i \<mapsto> Y)" for X Y by simp
  show ?thesis
    unfolding prog
  proof (rule returns_ebind [OF FileBlob_resize_ok [OF at size room]], elim conjE, goal_cases)
    case (1 x w1)
    note w1 = 1
    show ?case
    proof (rule returns_ebind [OF FileBlob_write_ok [OF w1(1), of 0 "listing (db_entries d)"]], use size in simp, use free in simp,
        unfold wr free M, elim conjE, goal_cases)
      case (1 x w2)
      then show ?case using w1 by simp
    qed
  qed
qed

section \<open>Loading\<close>

lemma load_at: "rep w M \<Longrightarrow> M i = Some (fs_header t p @ C) \<Longrightarrow>
  returns (blob_load B i) w (\<lambda>found w'. found \<and> fs_at w' M i t p C \<and> opened w' = insert i (opened w) \<and> ids_left w \<le> ids_left w')"
  by (rule returns_mono [OF load]) (auto simp: fs_at_def)

lemma FsBlobStore_load_ok:
  assumes rep: "rep w M" and i: "M i = Some (fs_header t p @ C)" and dir: "t = DIR \<Longrightarrow> \<exists>es. saveable es \<and> C = listing es"
  shows "returns (FsBlobStore_load B i) w (\<lambda>b w'. (\<exists>x. b = Some x \<and> fs_object i t p C x) \<and> fs_at w' M i t p C \<and>
    opened w' = insert i (opened w) \<and> ids_left w \<le> ids_left w')"
  unfolding FsBlobStore_load_def
proof (rule returns_ebind [OF load_at [OF rep i]], elim conjE, goal_cases)
  case (1 found w1)
  note w1 = 1
  have f: "\<not> \<not> found" using 1 by simp
  show ?case
    unfolding if_not_P [OF f]
  proof (rule returns_ebind [OF blobType_ok [OF w1(2)]], elim conjE, goal_cases)
    case (1 b w2)
    note w2 = 1
    have at: "fs_at w2 M i t p C" using fs_at_becomes [OF w1(2), of w2 0] w2 by simp
    note fin = fs_at_becomes [OF at, where k = 0]
    show ?case
    proof (cases t)
      case FILE
      then show ?thesis
        unfolding w2(1) using at w1 w2 fin by (auto intro!: returns_ebind [OF FileBlob_new_ok] simp: fs_object_def)
    next
      case SYMLINK
      then show ?thesis
        unfolding w2(1) using at w1 w2 fin by (auto intro!: returns_ebind [OF SymlinkBlob_new_ok] simp: fs_object_def)
    next
      case DIR
      then obtain es where es: "saveable es" "C = listing es" using dir by blast
      then show ?thesis
        unfolding w2(1) using at w1 w2 fin DIR by (auto intro!: returns_ebind [OF DirBlob_new_ok [OF _ es(1)]] simp: fs_object_def)
    qed
  qed
qed

section \<open>Migration\<close>

lemma migrated_bytes:
  fixes C :: data and t :: entry_type and p :: block_id
  defines "D1 \<equiv> resized (length C + 19) (old_fs_header t @ C)"
  defines "D2 \<equiv> written D1 19 C"
  defines "D3 \<equiv> written D2 3 (BlockId_ToBinary p)"
  shows "length D1 = length C + 19" and "length D2 = length C + 19" and "length D3 = length C + 19"
    and "written D3 0 (serialize FsBlobView_FORMAT_VERSION_HEADER) = fs_header t p @ C"
proof -
  show len: "length D1 = length C + 19" "length D2 = length C + 19" "length D3 = length C + 19"
    by (simp_all add: D1_def D2_def D3_def length_written)
  have D1: "D1 = old_fs_header t @ C @ zeroes 16" by (simp add: D1_def resized_def)
  have D2: "D2 = take 19 D1 @ C" by (simp add: D2_def written_inside len write_at_def)
  have "take 3 D1 = old_fs_header t" by (simp add: D1)
  then have "take 3 D2 = old_fs_header t" "drop 19 D2 = C" by (simp_all add: D2 len)
  moreover have "D3 = take 3 D2 @ BlockId_ToBinary p @ drop 19 D2" by (simp add: D3_def written_inside len write_at_def)
  ultimately have D3: "D3 = old_fs_header t @ BlockId_ToBinary p @ C" by simp
  show "written D3 0 (serialize FsBlobView_FORMAT_VERSION_HEADER) = fs_header t p @ C"
    by (simp add: written_inside len) (simp add: D3 write_at_def old_fs_header_def fs_header_def)
qed

lemma migrate_writes:
  fixes C :: data and t :: entry_type and p :: block_id
  defines "D1 \<equiv> resized (length C + 19) (old_fs_header t @ C)"
  assumes w: "rep w (M(i \<mapsto> D1))" "i \<in> opened w" and size: "length C + 19 \<le> limit"
  shows "returns (ebind (blob_write B i C 19) (\<lambda>_. ebind (blob_write B i (BlockId_ToBinary p) 3) (\<lambda>_.
      blob_write B i (serialize FsBlobView_FORMAT_VERSION_HEADER) 0))) w (\<lambda>_. becomes w (M(i \<mapsto> fs_header t p @ C)) 0)"
proof -
  let ?D2 = "written D1 19 C"
  let ?D3 = "written ?D2 3 (BlockId_ToBinary p)"
  note mig = migrated_bytes(1,2) [where C = C and t = t, folded D1_def] migrated_bytes(3,4) [where C = C and t = t and p = p, folded D1_def]
  have free: "need (length C + 19) n = 0" if "n \<le> length C + 19" for n using shrink [OF that] .
  show ?thesis
  proof (rule after_write [OF w(1,2), where D = D1], simp, use size in simp, use mig(1) free in simp, goal_cases)
    case (1 w2)
    then have w2: "becomes w (M(i \<mapsto> ?D2)) 0 w2" using mig(1) free by simp
    show ?case
    proof (rule after_write [where w = w2 and M = "M(i \<mapsto> ?D2)" and D = ?D2], use w2 w size mig(2) free in simp_all, goal_cases)
      case (1 w3)
      then have w3: "becomes w (M(i \<mapsto> ?D3)) 0 w3" using w2 mig(2) free by simp
      have "returns (blob_write B i (serialize FsBlobView_FORMAT_VERSION_HEADER) 0) w3 (\<lambda>_ w'.
          rep w' ((M(i \<mapsto> ?D3))(i \<mapsto> fs_header t p @ C)) \<and> opened w' = opened w3 \<and>
          ids_left w3 \<le> ids_left w' + need (length ?D3) (0 + length (serialize FsBlobView_FORMAT_VERSION_HEADER)))"
        unfolding mig(4) [symmetric] by (rule write_to) (use w3 w size mig(3) free in simp_all)
      then show ?case using w3 mig(3) free by (auto elim!: returns_mono)
    qed
  qed
qed

lemma migrate_ok:
  assumes rep: "rep w M" "i \<in> opened w" "M i = Some (old_fs_header t @ C)"
    and size: "length C + 19 \<le> limit" and room: "need (length C + 3) (length C + 19) \<le> ids_left w"
  shows "returns (FsBlobView_migrate B i p) w (\<lambda>_. becomes w (M(i \<mapsto> fs_header t p @ C)) (need (length C + 3) (length C + 19)))"
proof -
  let ?D = "old_fs_header t @ C"
  have ver: "deserialize (slice 0 2 ?D) = Inr (0 :: u16)"
    using deserialize_serialize_widths(2) [of 0 "[]"] by (simp add: old_fs_header_def slice_def)
  have n: "length ?D + BINARY_LENGTH = length C + 19" "length ?D = length C + 3" by (simp_all add: BINARY_LENGTH_def)
  have D: "drop 3 ?D = C" by simp
  have at: "rep w' M \<and> i \<in> opened w'" if "becomes w M 0 w'" for w' using that rep by simp
  have rest: "returns (ebind (blob_readAll B i) (\<lambda>d. ebind (blob_size B i) (\<lambda>n. ebind (blob_resize B i (n + BINARY_LENGTH)) (\<lambda>_.
      ebind (blob_write B i (drop 3 d) 19) (\<lambda>_. ebind (blob_write B i (BlockId_ToBinary p) 3) (\<lambda>_.
      blob_write B i (serialize FsBlobView_FORMAT_VERSION_HEADER) 0)))))) w1
    (\<lambda>_. becomes w (M(i \<mapsto> fs_header t p @ C)) (need (length C + 3) (length C + 19)))" if w1: "becomes w M 0 w1" for w1
  proof (rule after_readAll [OF conjunct1 [OF at [OF w1]] conjunct2 [OF at [OF w1]] rep(3)])
    fix w2 assume "becomes w1 M 0 w2"
    then have w2: "becomes w M 0 w2" using w1 by simp
    show "returns (ebind (blob_size B i) (\<lambda>n. ebind (blob_resize B i (n + BINARY_LENGTH)) (\<lambda>_.
      ebind (blob_write B i (drop 3 ?D) 19) (\<lambda>_. ebind (blob_write B i (BlockId_ToBinary p) 3) (\<lambda>_.
      blob_write B i (serialize FsBlobView_FORMAT_VERSION_HEADER) 0))))) w2
      (\<lambda>_. becomes w (M(i \<mapsto> fs_header t p @ C)) (need (length C + 3) (length C + 19)))"
    proof (rule after_size [OF conjunct1 [OF at [OF w2]] conjunct2 [OF at [OF w2]] rep(3)], unfold n(1) D)
      fix w3 assume "becomes w2 M 0 w3"
      then have w3: "becomes w M 0 w3" using w2 by simp
      have room3: "need (length ?D) (length C + 19) \<le> ids_left w3" unfolding n(2) using room w3 by simp
      show "returns (ebind (blob_resize B i (length C + 19)) (\<lambda>_.
          ebind (blob_write B i C 19) (\<lambda>_. ebind (blob_write B i (BlockId_ToBinary p) 3) (\<lambda>_.
          blob_write B i (serialize FsBlobView_FORMAT_VERSION_HEADER) 0)))) w3
        (\<lambda>_. becomes w (M(i \<mapsto> fs_header t p @ C)) (need (length C + 3) (length C + 19)))"
      proof (rule after_resize [OF conjunct1 [OF at [OF w3]] conjunct2 [OF at [OF w3]] rep(3) size room3])
        fix w4 assume w4: "becomes w3 (M(i \<mapsto> resized (length C + 19) ?D)) (need (length ?D) (length C + 19)) w4"
        then have "i \<in> opened w4" using w3 rep by simp
        from returns_mono [OF migrate_writes [OF conjunct1 [OF w4] this size]]
        show "returns (ebind (blob_write B i C 19) (\<lambda>_. ebind (blob_write B i (BlockId_ToBinary p) 3) (\<lambda>_.
            blob_write B i (serialize FsBlobView_FORMAT_VERSION_HEADER) 0))) w4
          (\<lambda>_. becomes w (M(i \<mapsto> fs_header t p @ C)) (need (length C + 3) (length C + 19)))"
          using w3 w4 [unfolded n(2)] by simp
      qed
    qed
  qed
  show ?thesis
    unfolding FsBlobView_migrate_def FsBlobView_getFormatVersionHeader_def ebind_assoc header_sizes
    by (rule after_read [OF rep], simp, unfold ver lift_result_Inr returns_ebind_ret) (use rest in simp)
qed

text \<open>A blob that has the current format already is left alone.\<close>

lemma migrate_again:
  assumes "fs_at w M i t q C"
  shows "returns (FsBlobView_migrate B i p) w (\<lambda>_. becomes w M 0)"
  unfolding FsBlobView_migrate_def FsBlobView_getFormatVersionHeader_def ebind_assoc
  by (rule view_read [OF assms])
    (use deserialize_serialize_widths(2) [of FsBlobView_FORMAT_VERSION_HEADER "[]"] in
      \<open>simp_all add: fs_header_fields lift_result_Inr FsBlobView_FORMAT_VERSION_HEADER_def\<close>)

section \<open>Programs over file system blobs\<close>

text \<open>Create a file, write to it, ask for its size and read from it.\<close>

lemma file_program_ok:
  assumes rep: "rep w M" and size: "off + length src + 19 \<le> limit"
    and room: "Suc (need 0 19 + need 19 (off + length src + 19)) \<le> ids_left w" and reads: "off' + 19 < 2 ^ 63" "count < 2 ^ 63"
  shows "returns (ebind (FsBlobStore_createFileBlob B p) (\<lambda>b. ebind (FileBlob_write B (fs_file_id b) src off) (\<lambda>_.
      ebind (FileBlob_size B (fs_file_id b)) (\<lambda>n. ebind (FileBlob_read B (fs_file_id b) off' count) (\<lambda>d. ret (fs_file_id b, n, d)))))) w
    (\<lambda>(i, n, d) w'. M i = None \<and> n = length (written [] off src) \<and> d = slice off' count (written [] off src) \<and>
      rep w' (M(i \<mapsto> fs_header FILE p @ written [] off src)))"
proof (rule returns_ebind [OF createFileBlob_ok [OF rep]], use size room in simp, use room in simp, elim exE conjE, goal_cases)
  case (1 b w1 i)
  note b = 1
  have room1: "need (length ([] :: data) + 19) (off + length src + 19) \<le> ids_left w1" using room b by simp
  show ?case
    unfolding b(1) fs_blob.sel
  proof (rule returns_ebind [OF FileBlob_write_ok [OF b(3) size room1]], elim conjE, goal_cases)
    case (1 x w2)
    note w2 = 1
    show ?case
    proof (rule returns_ebind [OF FileBlob_size_ok [OF w2(1)]], elim conjE, goal_cases)
      case (1 n w3)
      note w3 = 1
      have at: "fs_at w3 (M(i \<mapsto> fs_header FILE p @ written [] off src)) i FILE p (written [] off src)"
        using w2(1) w3 by (simp add: fs_at_def)
      show ?case by (rule returns_ebind [OF FileBlob_read_ok [OF at reads]]) (use w3 b(2) in simp)
    qed
  qed
qed

text \<open>Create a directory, save a listing and load the directory again.\<close>

lemma dir_program_ok:
  assumes rep: "rep w M" and es: "saveable es" and size: "length (listing es) + 19 \<le> limit"
    and room: "Suc (need 0 19 + need 19 (length (listing es) + 19)) \<le> ids_left w"
  shows "returns (ebind (FsBlobStore_createDirBlob B p) (\<lambda>b.
      ebind (DirBlob_writeEntriesToBlob junk B ((fs_dir b)\<lparr>db_entries := es, db_changed := True\<rparr>)) (\<lambda>d.
      FsBlobStore_load B (db_blockId d)))) w
    (\<lambda>b w'. \<exists>i. M i = None \<and> b = Some (DirBlob \<lparr>db_blockId = i, db_parent = p, db_entries = es, db_changed = False\<rparr>) \<and>
      rep w' (M(i \<mapsto> fs_header DIR p @ listing es)))"
proof (rule returns_ebind [OF createDirBlob_ok [OF rep]], use size room in simp, use room in simp, elim exE conjE, goal_cases)
  case (1 b w1 i)
  note b = 1
  let ?d = "\<lparr>db_blockId = i, db_parent = p, db_entries = es, db_changed = True\<rparr>"
  have d: "(fs_dir b)\<lparr>db_entries := es, db_changed := True\<rparr> = ?d" using b(1) by simp
  have room1: "need (length ([] :: data) + 19) (length (listing (db_entries ?d)) + 19) \<le> ids_left w1" using room b by simp
  have at: "fs_at w1 (M(i \<mapsto> fs_header DIR p)) (db_blockId ?d) DIR p []" using b(3) by simp
  show ?case
    unfolding d
  proof (rule returns_ebind [OF writeEntriesToBlob_ok [OF at _ _ _ room1]], use es size in simp, simp, use size in simp, elim conjE, goal_cases)
    case (1 d' w2)
    have i: "db_blockId d' = i" using 1(1) by simp
    have "returns (FsBlobStore_load B i) w2 (\<lambda>b w'. (\<exists>x. b = Some x \<and> fs_object i DIR p (listing es) x) \<and>
        fs_at w' (M(i \<mapsto> fs_header DIR p @ listing es)) i DIR p (listing es) \<and> opened w' = insert i (opened w2) \<and> ids_left w2 \<le> ids_left w')"
      by (rule FsBlobStore_load_ok) (use 1 es in auto)
    then show ?case
      unfolding i
    proof (rule returns_mono, elim conjE exE, goal_cases)
      case (1 y w3 x)
      then obtain es' where es': "saveable es'" "listing es = listing es'"
          "x = DirBlob \<lparr>db_blockId = i, db_parent = p, db_entries = es', db_changed = False\<rparr>"
        by (auto simp: fs_object_def)
      have "es' = es" using listing_load [OF es] listing_load [OF es'(1), folded es'(2)] by simp
      then show ?case using 1 es'(3) b(2) by (intro exI [of _ i]) (simp add: fs_at_def)
    qed
  qed
qed

text \<open>Create a symlink and load it again.\<close>

lemma symlink_program_ok:
  assumes rep: "rep w M" and size: "length tgt + 19 \<le> limit"
    and room: "Suc (need 0 19 + need 19 (length tgt + 19)) \<le> ids_left w"
  shows "returns (ebind (FsBlobStore_createSymlinkBlob B tgt p) (\<lambda>b. FsBlobStore_load B (fs_symlink_id b))) w
    (\<lambda>b w'. \<exists>i. M i = None \<and> b = Some (SymlinkBlob i p (takeWhile (\<lambda>b. b \<noteq> 0) tgt)) \<and> rep w' (M(i \<mapsto> fs_header SYMLINK p @ tgt)))"
proof (rule returns_ebind [OF createSymlinkBlob_ok [OF rep size room]], elim exE conjE, goal_cases)
  case (1 b w1 i)
  have "returns (FsBlobStore_load B i) w1 (\<lambda>b w'. (\<exists>x. b = Some x \<and> fs_object i SYMLINK p tgt x) \<and>
      fs_at w' (M(i \<mapsto> fs_header SYMLINK p @ tgt)) i SYMLINK p tgt \<and> opened w' = insert i (opened w1) \<and> ids_left w1 \<le> ids_left w')"
    by (rule FsBlobStore_load_ok) (use 1 in \<open>auto simp: fs_at_def\<close>)
  then show ?case using 1 by (auto elim!: returns_mono simp: fs_object_def fs_at_def)
qed

text \<open>A blob in the old format, migrated and loaded.\<close>

lemma migrate_program_ok:
  assumes rep: "rep w M" and size: "length C + 19 \<le> limit" and dir: "t = DIR \<longrightarrow> (\<exists>es. saveable es \<and> C = listing es)"
    and room: "Suc (need 0 (length C + 3) + need (length C + 3) (length C + 19)) \<le> ids_left w"
  shows "returns (ebind (blob_create B) (\<lambda>i. ebind (blob_write B i (old_fs_header t @ C) 0) (\<lambda>_.
      ebind (FsBlobView_migrate B i p) (\<lambda>_. FsBlobStore_load B i)))) w
    (\<lambda>b w'. \<exists>i x. M i = None \<and> b = Some x \<and> fs_object i t p C x \<and> rep w' (M(i \<mapsto> fs_header t p @ C)))"
proof (rule returns_ebind [OF create [OF rep]], use room in simp, elim conjE, goal_cases)
  case (1 i w1)
  note w1 = 1
  let ?O = "old_fs_header t @ C"
  have wr: "written [] 0 ?O = ?O" by (simp add: written_def update_def write_at_def zeroes_def)
  have len: "0 + length ?O = length C + 3" by simp
  have M: "(M(i \<mapsto> x))(i \<mapsto> y) = M(i \<mapsto> y)" for x y by simp
  show ?case
  proof (rule after_write [where M = "M(i \<mapsto> [])" and D = "[]"], use w1 in simp, use w1 in simp, simp, use size in simp, unfold len,
      use room w1 in simp, unfold wr M list.size(3), elim conjE, goal_cases)
    case (1 w2)
    have "returns (FsBlobView_migrate B i p) w2 (\<lambda>_. becomes w2 ((M(i \<mapsto> ?O))(i \<mapsto> fs_header t p @ C)) (need (length C + 3) (length C + 19)))"
      by (rule migrate_ok) (use 1 w1 size room in simp_all)
    then show ?case
      unfolding M
    proof (rule returns_ebind, elim conjE, goal_cases)
      case (1 x w3)
      have "returns (FsBlobStore_load B i) w3 (\<lambda>b w'. (\<exists>x. b = Some x \<and> fs_object i t p C x) \<and>
          fs_at w' (M(i \<mapsto> fs_header t p @ C)) i t p C \<and> opened w' = insert i (opened w3) \<and> ids_left w3 \<le> ids_left w')"
        by (rule FsBlobStore_load_ok) (use 1 dir in simp_all)
      then show ?case
        by (rule returns_mono, elim conjE exE, intro exI [of _ i]) (use w1 in \<open>auto simp: fs_at_def\<close>)
    qed
  qed
qed

text \<open>A read that leaves the blob.\<close>

lemma read_outside_program:
  assumes rep: "rep w M" and size: "length src \<le> limit" and room: "Suc (need 0 (length src)) \<le> ids_left w"
    and range: "off < 2 ^ 63" "count < 2 ^ 63" "length src < off + count"
  shows "fst (ebind (blob_create B) (\<lambda>i. ebind (blob_write B i src 0) (\<lambda>_. blob_read B i off count)) w) =
    Inl (RuntimeError ''BlobOnBlocks::read() read outside blob. Use BlobOnBlocks::tryRead() if this should be allowed.'')"
proof -
  from create [OF rep] room obtain i w1 where c: "blob_create B w = (Inr i, w1)" "rep w1 (M(i \<mapsto> []))" "opened w1 = insert i (opened w)"
      "ids_left w \<le> Suc (ids_left w1)"
    by (auto simp: returns_def simp del: fun_upd_apply)
  have wr: "written [] 0 src = src" by (simp add: written_def update_def write_at_def zeroes_def)
  have "returns (blob_write B i src 0) w1 (\<lambda>_ w'. rep w' ((M(i \<mapsto> []))(i \<mapsto> written [] 0 src)) \<and> opened w' = opened w1 \<and>
      ids_left w1 \<le> ids_left w' + need (length ([] :: data)) (0 + length src))"
    by (rule write_to) (use c size room in simp_all)
  then obtain w2 where w2: "blob_write B i src 0 w1 = (Inr (), w2)" "rep w2 (M(i \<mapsto> src))" "i \<in> opened w2"
    unfolding wr using c(3) by (auto simp: returns_def simp del: fun_upd_apply)
  have "(M(i \<mapsto> src)) i = Some src" by simp
  from read_outside [OF w2(2,3) this range] show ?thesis using c(1) w2(1) by (simp add: ebind_def)
qed

end

end
