(* ===== verification/Ciphers.thy ===== *)
theory Ciphers
  imports CppData
begin

unbundle bit_operations_syntax

text \<open>
  The cipher concept of \<open>src/src/cpp-utils/crypto/symmetric/Cipher.h\<close> as a record of operations and
  its contract as the locale \<open>cipher\<close>; \<open>AEADCipher\<close> (the wrapper around the AEAD modes of Crypto++,
  whose cores are arguments) and \<open>FakeAuthenticatedCipher\<close> implement it. Encryption draws its
  initialisation vector from a random source, whose state is \<open>'r\<close>.
\<close>

section \<open>The cipher concept\<close>

record ('r, 'k) cipher =
  encrypt_of :: "data \<Rightarrow> 'k \<Rightarrow> ('r, data) exec"
  decrypt_of :: "data \<Rightarrow> 'k \<Rightarrow> data option result"
  ciphertextSize_of :: "u32 \<Rightarrow> u32"
  plaintextSize_of :: "u32 \<Rightarrow> u32"

text \<open>
  What \<open>EncryptedBlockStore2\<close> relies on: a message that fits the 32 bit sizes of the interface is
  encrypted without error, decrypts to itself, and grows by a fixed overhead.
\<close>

locale cipher =
  fixes C :: "('r, 'k) cipher"
    and key_ok :: "'k \<Rightarrow> bool"
    and overhead :: nat
  assumes encrypt: "key_ok k \<Longrightarrow> length d + overhead < 2 ^ 32 \<Longrightarrow>
      \<exists>c r'. encrypt_of C d k r = (Inr c, r') \<and> decrypt_of C c k = Inr (Some d) \<and>
             length c = length d + overhead"
    and sizes: "n + overhead < 2 ^ 32 \<Longrightarrow> unat (ciphertextSize_of C (of_nat n)) = n + overhead"
      "n + overhead < 2 ^ 32 \<Longrightarrow> unat (plaintextSize_of C (of_nat (n + overhead))) = n"
begin

lemma plaintextSize_inverts_ciphertextSize:
  assumes "n + overhead < 2 ^ 32"
  shows "unat (plaintextSize_of C (ciphertextSize_of C (of_nat n))) = n"
proof -
  have "ciphertextSize_of C (of_nat n) = of_nat (n + overhead)"
    using sizes(1) [OF assms] by (metis of_nat_unat ucast_id)
  then show ?thesis using sizes(2) [OF assms] by simp
qed

end

section \<open>FakeAuthenticatedCipher\<close>

definition xor_byte :: "u64 \<Rightarrow> nat \<Rightarrow> byte" where
  "xor_byte key i = ucast (drop_bit (56 - 8 * (i mod 8)) key AND 0xFF)"

definition FakeAuthenticatedCipher_xor :: "data \<Rightarrow> u64 \<Rightarrow> data" where
  "FakeAuthenticatedCipher_xor src key = map (\<lambda>(i, b). b XOR xor_byte key i) (enumerate 0 src)"

definition FakeAuthenticatedCipher_checksum :: "data \<Rightarrow> u64 \<Rightarrow> u64" where
  "FakeAuthenticatedCipher_checksum d encKey =
     fold (\<lambda>(i, b) checksum. checksum XOR push_bit (56 - 8 * (i mod 8)) (ucast b))
       (enumerate 0 d) (34343435 * encKey)"

definition FakeAuthenticatedCipher_ciphertextSize :: "u32 \<Rightarrow> u32" where
  "FakeAuthenticatedCipher_ciphertextSize plaintextBlockSize = plaintextBlockSize + 8 + 8"

definition FakeAuthenticatedCipher_plaintextSize :: "u32 \<Rightarrow> u32" where
  "FakeAuthenticatedCipher_plaintextSize ciphertextBlockSize = ciphertextBlockSize - 8 - 8"

text \<open>
  The sizes are \<open>unsigned int\<close>: a longer buffer is cut to its size modulo \<open>2^32\<close>. \<open>rnd\<close> is the random
  device.
\<close>

definition FakeAuthenticatedCipher_encrypt ::
  "('r, u64) exec \<Rightarrow> data \<Rightarrow> u64 \<Rightarrow> ('r, data) exec" where
  "FakeAuthenticatedCipher_encrypt rnd plaintext encKey =
     (let n = unat (of_nat (length plaintext) :: u32); body = take n plaintext
      in ebind rnd (\<lambda>iv.
           let head = serialize iv @ FakeAuthenticatedCipher_xor body (encKey XOR iv)
           in ret (head @ serialize (FakeAuthenticatedCipher_checksum head encKey))))"

definition FakeAuthenticatedCipher_decrypt :: "data \<Rightarrow> u64 \<Rightarrow> data option result" where
  "FakeAuthenticatedCipher_decrypt ciphertext encKey =
     (let sz = of_nat (length ciphertext) :: u32;
          n = unat (FakeAuthenticatedCipher_plaintextSize sz)
      in if sz < 16 then Inr None
         else rbind (deserializeWithOffset ciphertext (n + 8)) (\<lambda>actualParity.
           if FakeAuthenticatedCipher_checksum (take (n + 8) ciphertext) encKey \<noteq> actualParity
           then Inr None
           else rbind (deserialize ciphertext) (\<lambda>iv.
             Inr (Some (FakeAuthenticatedCipher_xor (slice 8 n ciphertext) (encKey XOR iv))))))"

definition FakeAuthenticatedCipher :: "('r, u64) exec \<Rightarrow> ('r, u64) cipher" where
  "FakeAuthenticatedCipher rnd = \<lparr>
     encrypt_of = FakeAuthenticatedCipher_encrypt rnd,
     decrypt_of = FakeAuthenticatedCipher_decrypt,
     ciphertextSize_of = FakeAuthenticatedCipher_ciphertextSize,
     plaintextSize_of = FakeAuthenticatedCipher_plaintextSize\<rparr>"

lemma length_FakeAuthenticatedCipher_xor [simp]:
  "length (FakeAuthenticatedCipher_xor src key) = length src"
  by (simp add: FakeAuthenticatedCipher_xor_def)

lemma FakeAuthenticatedCipher_xor_xor:
  "FakeAuthenticatedCipher_xor (FakeAuthenticatedCipher_xor src key) key = src"
proof (rule nth_equalityI)
  fix i assume "i < length (FakeAuthenticatedCipher_xor (FakeAuthenticatedCipher_xor src key) key)"
  then have i: "i < length src" by simp
  have nth: "FakeAuthenticatedCipher_xor xs key ! i = xs ! i XOR xor_byte key i"
    if "i < length xs" for xs
    using that by (simp add: FakeAuthenticatedCipher_xor_def nth_enumerate_eq)
  show "FakeAuthenticatedCipher_xor (FakeAuthenticatedCipher_xor src key) key ! i = src ! i"
    using i by (simp add: nth xor.assoc)
qed simp

lemma unat_u32_small: "n < 2 ^ 32 \<Longrightarrow> unat (of_nat n :: u32) = n"
  by (simp add: unat_of_nat)

lemma u32_minus_16: "n + 16 < 2 ^ 32 \<Longrightarrow> unat (of_nat (n + 16) - 8 - 8 :: u32) = n"
proof -
  assume "n + 16 < 2 ^ 32"
  moreover have "(of_nat (n + 16) - 8 - 8 :: u32) = of_nat n" by simp
  ultimately show ?thesis by (simp add: unat_of_nat)
qed

lemma FakeAuthenticatedCipher_decrypt_encrypt:
  assumes "length d + 16 < 2 ^ 32"
  shows "FakeAuthenticatedCipher_decrypt
      (let head = serialize iv @ FakeAuthenticatedCipher_xor d (k XOR iv)
       in head @ serialize (FakeAuthenticatedCipher_checksum head k)) k = Inr (Some d)"
proof -
  define head where "head = serialize iv @ FakeAuthenticatedCipher_xor d (k XOR iv)"
  define c where "c = head @ serialize (FakeAuthenticatedCipher_checksum head k)"
  have head: "length head = length d + 8" by (simp add: head_def)
  then have c: "length c = length d + 16" by (simp add: c_def)
  have n: "unat (FakeAuthenticatedCipher_plaintextSize (of_nat (length c))) = length d"
    unfolding FakeAuthenticatedCipher_plaintextSize_def c using u32_minus_16 [OF assms] .
  have "\<not> (of_nat (length c) :: u32) < 16"
    unfolding word_less_nat_alt using assms unat_u32_small [of "length d + 16"] c by simp
  moreover have "deserializeWithOffset c (length d + 8) =
      Inr (FakeAuthenticatedCipher_checksum head k)"
    using head deserialize_serialize_widths(4) [of "FakeAuthenticatedCipher_checksum head k" "[]"]
    by (simp add: deserializeWithOffset_def c_def)
  moreover have "take (length d + 8) c = head" using head by (simp add: c_def)
  moreover have "deserialize c = Inr iv" by (simp add: c_def head_def)
  moreover have "slice 8 (length d) c = FakeAuthenticatedCipher_xor d (k XOR iv)"
    by (simp add: c_def head_def slice_def)
  ultimately show ?thesis
    unfolding FakeAuthenticatedCipher_decrypt_def Let_def head_def [symmetric] c_def [symmetric] n
    by (simp add: FakeAuthenticatedCipher_xor_xor)
qed

text \<open>A random device: a sequence of outputs, position by position.\<close>

definition random_device :: "(nat \<Rightarrow> u64) \<Rightarrow> (nat, u64) exec" where
  "random_device outputs n = (Inr (outputs n), Suc n)"

interpretation fake_cipher: cipher "FakeAuthenticatedCipher (random_device f)" "\<lambda>_. True" 16 for f
proof unfold_locales
  fix k :: u64 and d :: data and r :: nat
  assume len: "length d + 16 < 2 ^ 32"
  then have n: "unat (of_nat (length d) :: u32) = length d" by (simp add: unat_u32_small)
  show "\<exists>c r'. encrypt_of (FakeAuthenticatedCipher (random_device f)) d k r = (Inr c, r') \<and>
      decrypt_of (FakeAuthenticatedCipher (random_device f)) c k = Inr (Some d) \<and>
      length c = length d + 16"
    using FakeAuthenticatedCipher_decrypt_encrypt [OF len, of "f r" k] n
    by (simp add: FakeAuthenticatedCipher_def FakeAuthenticatedCipher_encrypt_def random_device_def
        ebind_def Let_def)
next
  fix n :: nat assume n: "n + 16 < 2 ^ 32"
  have "(of_nat n + 8 + 8 :: u32) = of_nat (n + 16)" by simp
  then have "unat (of_nat n + 8 + 8 :: u32) = n + 16" using unat_u32_small [OF n] by argo
  then show "unat (ciphertextSize_of (FakeAuthenticatedCipher (random_device f)) (of_nat n)) = n + 16"
    by (simp add: FakeAuthenticatedCipher_def FakeAuthenticatedCipher_ciphertextSize_def)
  show "unat (plaintextSize_of (FakeAuthenticatedCipher (random_device f)) (of_nat (n + 16))) = n"
    using u32_minus_16 [OF n]
    by (simp add: FakeAuthenticatedCipher_def FakeAuthenticatedCipher_plaintextSize_def)
qed

section \<open>AEADCipher\<close>

text \<open>
  \<open>aead_enc key iv plaintext\<close> and \<open>aead_dec key iv ciphertext\<close> are the authenticated encryption and
  decryption filters of Crypto++ (the ciphertext carries the tag, \<open>None\<close> is
  \<open>HashVerificationFailed\<close>); \<open>random n\<close> is \<open>Random::PseudoRandom().getFixedSize<n>()\<close>. Keys are their
  bytes.
\<close>

record aead_params =
  KEYSIZE :: nat
  IV_SIZE :: nat
  TAG_SIZE :: nat

definition AEADCipher_ciphertextSize :: "aead_params \<Rightarrow> u32 \<Rightarrow> u32" where
  "AEADCipher_ciphertextSize P plaintextBlockSize =
     plaintextBlockSize + of_nat (IV_SIZE P) + of_nat (TAG_SIZE P)"

definition AEADCipher_plaintextSize :: "aead_params \<Rightarrow> u32 \<Rightarrow> u32" where
  "AEADCipher_plaintextSize P ciphertextBlockSize =
     ciphertextBlockSize - of_nat (IV_SIZE P) - of_nat (TAG_SIZE P)"

definition AEADCipher_encrypt :: "aead_params \<Rightarrow> (data \<Rightarrow> data \<Rightarrow> data \<Rightarrow> data) \<Rightarrow>
    (nat \<Rightarrow> ('r, data) exec) \<Rightarrow> data \<Rightarrow> data \<Rightarrow> ('r, data) exec" where
  "AEADCipher_encrypt P aead_enc random plaintext encKey =
     (let n = unat (of_nat (length plaintext) :: u32)
      in ebind (assert_exec (length encKey = KEYSIZE P) ''Wrong key size'') (\<lambda>_.
         ebind (random (IV_SIZE P)) (\<lambda>iv.
         ret (iv @ aead_enc encKey iv (take n plaintext)))))"

definition AEADCipher_decrypt :: "aead_params \<Rightarrow> (data \<Rightarrow> data \<Rightarrow> data \<Rightarrow> data option) \<Rightarrow>
    data \<Rightarrow> data \<Rightarrow> data option result" where
  "AEADCipher_decrypt P aead_dec ciphertext encKey =
     rbind (ASSERT (length encKey = KEYSIZE P) ''Wrong key size'') (\<lambda>_.
       let sz = unat (of_nat (length ciphertext) :: u32)
       in if sz < IV_SIZE P + TAG_SIZE P then Inr None
          else Inr (aead_dec encKey (take (IV_SIZE P) ciphertext)
                      (slice (IV_SIZE P) (sz - IV_SIZE P) ciphertext)))"

text \<open>
  The wrapper never lets a message through that the mode rejects, and hands back what the mode
  authenticated; \<open>dec_enc\<close> is the documented contract of the mode.
\<close>

lemma AEADCipher_decrypt_encrypt:
  assumes dec_enc: "\<And>k iv m. aead_dec k iv (aead_enc k iv m) = Some m"
    and size: "\<And>k iv m. length (aead_enc k iv m) = length m + TAG_SIZE P"
    and iv: "\<And>r. \<exists>iv r'. random (IV_SIZE P) r = (Inr iv, r') \<and> length iv = IV_SIZE P"
    and key: "length k = KEYSIZE P"
    and len: "length d + (IV_SIZE P + TAG_SIZE P) < 2 ^ 32"
  shows "\<exists>c r'. AEADCipher_encrypt P aead_enc random d k r = (Inr c, r') \<and>
    AEADCipher_decrypt P aead_dec c k = Inr (Some d) \<and>
    length c = length d + (IV_SIZE P + TAG_SIZE P)"
proof -
  obtain v r' where v: "random (IV_SIZE P) r = (Inr v, r')" "length v = IV_SIZE P"
    using iv by blast
  have n: "unat (of_nat (length d) :: u32) = length d" using len by (simp add: unat_u32_small)
  let ?c = "v @ aead_enc k v d"
  have c: "length ?c = length d + (IV_SIZE P + TAG_SIZE P)" using v size by simp
  then have "unat (of_nat (length ?c) :: u32) = length ?c"
    using len by (intro unat_u32_small) simp
  then have "AEADCipher_decrypt P aead_dec ?c k = Inr (Some d)"
    using key v(2) c size dec_enc
    by (simp add: AEADCipher_decrypt_def Let_def slice_def)
  moreover have "AEADCipher_encrypt P aead_enc random d k r = (Inr ?c, r')"
    using v n key by (simp add: AEADCipher_encrypt_def Let_def ebind_def)
  ultimately show ?thesis using c by blast
qed

end
