(* ===== verification/EncryptedStore.thy ===== *)
theory EncryptedStore
  imports BlockStores Ciphers
begin

text \<open>
  \<open>src/src/blockstore/implementations/encrypted/EncryptedBlockStore2.h\<close>: a decorator that keeps a
  format header and the ciphertext of every block in the base store. The state is the state of the
  random source and the state of the base store. Over any base store that meets the block store
  contract and any cipher that meets the cipher contract, the decorator meets the block store
  contract again, for the map of decrypted blocks.
\<close>

section \<open>Format header\<close>

definition EncryptedBlockStore2_FORMAT_VERSION_HEADER_OLD :: u16 where
  "EncryptedBlockStore2_FORMAT_VERSION_HEADER_OLD = 0"

definition EncryptedBlockStore2_FORMAT_VERSION_HEADER :: u16 where
  "EncryptedBlockStore2_FORMAT_VERSION_HEADER = 1"

definition EncryptedBlockStore2_prependFormatHeaderToData :: "data \<Rightarrow> data" where
  "EncryptedBlockStore2_prependFormatHeaderToData d =
     serialize EncryptedBlockStore2_FORMAT_VERSION_HEADER @ d"

definition EncryptedBlockStore2_readFormatHeader :: "data \<Rightarrow> u16 result" where
  "EncryptedBlockStore2_readFormatHeader d = deserialize d"

definition EncryptedBlockStore2_checkFormatHeader :: "data \<Rightarrow> unit result" where
  "EncryptedBlockStore2_checkFormatHeader d =
     rbind (EncryptedBlockStore2_readFormatHeader d) (\<lambda>formatVersionHeader.
       if formatVersionHeader = EncryptedBlockStore2_FORMAT_VERSION_HEADER \<or>
          formatVersionHeader = EncryptedBlockStore2_FORMAT_VERSION_HEADER_OLD
       then Inr ()
       else Inl (RuntimeError ''The encrypted block has the wrong format. Was it created with a newer version of CryFS?''))"

section \<open>Migration of the old format\<close>

definition EncryptedBlockStore2_blockIdHeaderIsCorrect :: "block_id \<Rightarrow> data \<Rightarrow> bool result" where
  "EncryptedBlockStore2_blockIdHeaderIsCorrect blockId d =
     rbind (BlockId_FromBinary d) (\<lambda>i. Inr (blockId = i))"

definition EncryptedBlockStore2_migrateBlock :: "data \<Rightarrow> data result" where
  "EncryptedBlockStore2_migrateBlock d = Data_copyAndRemovePrefix d BINARY_LENGTH"

section \<open>Encryption and decryption of a block\<close>

definition EncryptedBlockStore2_encrypt ::
  "('r, 'k) cipher \<Rightarrow> 'k \<Rightarrow> data \<Rightarrow> ('r, data) exec" where
  "EncryptedBlockStore2_encrypt C encKey d =
     ebind (encrypt_of C d encKey) (\<lambda>encrypted.
       ret (EncryptedBlockStore2_prependFormatHeaderToData encrypted))"

definition EncryptedBlockStore2_tryDecrypt ::
  "('r, 'k) cipher \<Rightarrow> 'k \<Rightarrow> block_id \<Rightarrow> data \<Rightarrow> data option result" where
  "EncryptedBlockStore2_tryDecrypt C encKey blockId d =
     rbind (EncryptedBlockStore2_checkFormatHeader d) (\<lambda>_.
     rbind (decrypt_of C (drop (sizeof TYPE(16)) d) encKey) (\<lambda>decrypted.
       case decrypted of
         None \<Rightarrow> Inr None
       | Some plain \<Rightarrow>
           rbind (EncryptedBlockStore2_readFormatHeader d) (\<lambda>formatVersionHeader.
             if EncryptedBlockStore2_FORMAT_VERSION_HEADER_OLD = formatVersionHeader
             then rbind (EncryptedBlockStore2_blockIdHeaderIsCorrect blockId plain) (\<lambda>correct.
                    if \<not> correct then Inr None
                    else rbind (EncryptedBlockStore2_migrateBlock plain) (\<lambda>m. Inr (Some m)))
             else Inr (Some plain))))"

section \<open>The store\<close>

definition EncryptedBlockStore2_tryCreate ::
  "('r, 'k) cipher \<Rightarrow> 'k \<Rightarrow> 's block_store2 \<Rightarrow> block_id \<Rightarrow> data \<Rightarrow> ('r \<times> 's, bool) exec" where
  "EncryptedBlockStore2_tryCreate C encKey base blockId d =
     ebind (zoom_fst (EncryptedBlockStore2_encrypt C encKey d)) (\<lambda>encrypted.
       zoom_snd (tryCreate_of base blockId encrypted))"

definition EncryptedBlockStore2_remove ::
  "'s block_store2 \<Rightarrow> block_id \<Rightarrow> ('r \<times> 's, bool) exec" where
  "EncryptedBlockStore2_remove base blockId = zoom_snd (remove_of base blockId)"

definition EncryptedBlockStore2_load ::
  "('r, 'k) cipher \<Rightarrow> 'k \<Rightarrow> 's block_store2 \<Rightarrow> block_id \<Rightarrow> ('r \<times> 's, data option) exec" where
  "EncryptedBlockStore2_load C encKey base blockId =
     ebind (zoom_snd (load_of base blockId)) (\<lambda>loaded.
       case loaded of
         None \<Rightarrow> ret None
       | Some d \<Rightarrow> lift_result (EncryptedBlockStore2_tryDecrypt C encKey blockId d))"

definition EncryptedBlockStore2_store ::
  "('r, 'k) cipher \<Rightarrow> 'k \<Rightarrow> 's block_store2 \<Rightarrow> block_id \<Rightarrow> data \<Rightarrow> ('r \<times> 's, unit) exec" where
  "EncryptedBlockStore2_store C encKey base blockId d =
     ebind (zoom_fst (EncryptedBlockStore2_encrypt C encKey d)) (\<lambda>encrypted.
       zoom_snd (store_of base blockId encrypted))"

definition EncryptedBlockStore2_numBlocks :: "'s block_store2 \<Rightarrow> ('r \<times> 's, nat) exec" where
  "EncryptedBlockStore2_numBlocks base = zoom_snd (numBlocks_of base)"

definition EncryptedBlockStore2_estimateNumFreeBytes :: "'s block_store2 \<Rightarrow> ('r \<times> 's, nat) exec" where
  "EncryptedBlockStore2_estimateNumFreeBytes base = zoom_snd (estimateNumFreeBytes_of base)"

text \<open>The argument of \<open>plaintextSize\<close> is a 32 bit integer.\<close>

definition EncryptedBlockStore2_blockSizeFromPhysicalBlockSize ::
  "('r, 'k) cipher \<Rightarrow> 's block_store2 \<Rightarrow> nat \<Rightarrow> nat" where
  "EncryptedBlockStore2_blockSizeFromPhysicalBlockSize C base blockSize =
     (let baseBlockSize = blockSizeFromPhysicalBlockSize_of base blockSize
      in if baseBlockSize \<le> unat (ciphertextSize_of C 0) + sizeof TYPE(16) then 0
         else unat (plaintextSize_of C (of_nat (baseBlockSize - sizeof TYPE(16)))))"

definition EncryptedBlockStore2_forEachBlock :: "'s block_store2 \<Rightarrow> ('r \<times> 's, block_id list) exec" where
  "EncryptedBlockStore2_forEachBlock base = zoom_snd (forEachBlock_of base)"

definition EncryptedBlockStore2 ::
  "('r, 'k) cipher \<Rightarrow> 'k \<Rightarrow> 's block_store2 \<Rightarrow> ('r \<times> 's) block_store2" where
  "EncryptedBlockStore2 C encKey base = \<lparr>
     tryCreate_of = EncryptedBlockStore2_tryCreate C encKey base,
     remove_of = EncryptedBlockStore2_remove base,
     load_of = EncryptedBlockStore2_load C encKey base,
     store_of = EncryptedBlockStore2_store C encKey base,
     numBlocks_of = EncryptedBlockStore2_numBlocks base,
     estimateNumFreeBytes_of = EncryptedBlockStore2_estimateNumFreeBytes base,
     blockSizeFromPhysicalBlockSize_of = EncryptedBlockStore2_blockSizeFromPhysicalBlockSize C base,
     forEachBlock_of = EncryptedBlockStore2_forEachBlock base\<rparr>"

lemma EncryptedBlockStore2_sel [simp]:
  "tryCreate_of (EncryptedBlockStore2 C k b) = EncryptedBlockStore2_tryCreate C k b"
  "remove_of (EncryptedBlockStore2 C k b) = EncryptedBlockStore2_remove b"
  "load_of (EncryptedBlockStore2 C k b) = EncryptedBlockStore2_load C k b"
  "store_of (EncryptedBlockStore2 C k b) = EncryptedBlockStore2_store C k b"
  "numBlocks_of (EncryptedBlockStore2 C k b) = EncryptedBlockStore2_numBlocks b"
  "blockSizeFromPhysicalBlockSize_of (EncryptedBlockStore2 C k b) =
     EncryptedBlockStore2_blockSizeFromPhysicalBlockSize C b"
  by (simp_all add: EncryptedBlockStore2_def)

section \<open>The abstraction\<close>

text \<open>
  A stored block is readable if it decrypts under its identifier; the store represents the map of
  decrypted blocks.
\<close>

definition encrypted_inv :: "('r, 'k) cipher \<Rightarrow> 'k \<Rightarrow> ('s \<Rightarrow> bool) \<Rightarrow> ('s \<Rightarrow> block_id \<rightharpoonup> data) \<Rightarrow>
    'r \<times> 's \<Rightarrow> bool" where
  "encrypted_inv C encKey binv bblocks = (\<lambda>(r, s). binv s \<and>
     (\<forall>i c. bblocks s i = Some c \<longrightarrow> (\<exists>d. EncryptedBlockStore2_tryDecrypt C encKey i c = Inr (Some d))))"

definition encrypted_blocks :: "('r, 'k) cipher \<Rightarrow> 'k \<Rightarrow> ('s \<Rightarrow> block_id \<rightharpoonup> data) \<Rightarrow>
    'r \<times> 's \<Rightarrow> block_id \<rightharpoonup> data" where
  "encrypted_blocks C encKey bblocks = (\<lambda>(r, s) i.
     case bblocks s i of None \<Rightarrow> None
     | Some c \<Rightarrow> (case EncryptedBlockStore2_tryDecrypt C encKey i c of Inl _ \<Rightarrow> None | Inr d \<Rightarrow> d))"

definition encrypted_fits :: "nat \<Rightarrow> (data \<Rightarrow> bool) \<Rightarrow> data \<Rightarrow> bool" where
  "encrypted_fits overhead bfits d \<longleftrightarrow>
     length d + overhead < 2 ^ 32 \<and> (\<forall>c. length c = length d + overhead + 2 \<longrightarrow> bfits c)"

definition encrypted_capacity :: "('s \<Rightarrow> nat \<Rightarrow> bool) \<Rightarrow> 'r \<times> 's \<Rightarrow> nat \<Rightarrow> bool" where
  "encrypted_capacity bcapacity = (\<lambda>(r, s). bcapacity s)"

lemmas encrypted_abs = encrypted_inv_def encrypted_blocks_def encrypted_fits_def encrypted_capacity_def

lemma encrypted_blocks_upd:
  assumes "EncryptedBlockStore2_tryDecrypt C k i c = Inr (Some d)" and "bblocks t = (bblocks s)(i \<mapsto> c)"
  shows "encrypted_blocks C k bblocks (r', t) = (encrypted_blocks C k bblocks (r, s))(i \<mapsto> d)"
  using assms by (auto simp: encrypted_blocks_def fun_eq_iff)

lemma readFormatHeader_prepend [simp]:
  "EncryptedBlockStore2_readFormatHeader (EncryptedBlockStore2_prependFormatHeaderToData c) =
     Inr EncryptedBlockStore2_FORMAT_VERSION_HEADER"
  by (simp add: EncryptedBlockStore2_readFormatHeader_def
      EncryptedBlockStore2_prependFormatHeaderToData_def)

lemma tryDecrypt_prepend:
  "EncryptedBlockStore2_tryDecrypt C k i (EncryptedBlockStore2_prependFormatHeaderToData c) =
     decrypt_of C c k"
proof -
  have "EncryptedBlockStore2_checkFormatHeader (EncryptedBlockStore2_prependFormatHeaderToData c) = Inr ()"
    by (simp add: EncryptedBlockStore2_checkFormatHeader_def)
  moreover have "drop (sizeof TYPE(16)) (EncryptedBlockStore2_prependFormatHeaderToData c) = c"
    by (simp add: EncryptedBlockStore2_prependFormatHeaderToData_def)
  moreover have "EncryptedBlockStore2_FORMAT_VERSION_HEADER_OLD \<noteq>
      EncryptedBlockStore2_FORMAT_VERSION_HEADER"
    by (simp add: EncryptedBlockStore2_FORMAT_VERSION_HEADER_OLD_def
        EncryptedBlockStore2_FORMAT_VERSION_HEADER_def)
  ultimately show ?thesis
    by (cases "decrypt_of C c k")
      (simp_all add: EncryptedBlockStore2_tryDecrypt_def split: option.splits)
qed

text \<open>Blocks of the old format carry their identifier in front of the plaintext.\<close>

lemma tryDecrypt_old_format:
  assumes "decrypt_of C c k = Inr (Some (BlockId_ToBinary j @ d))"
  shows "EncryptedBlockStore2_tryDecrypt C k i
     (serialize EncryptedBlockStore2_FORMAT_VERSION_HEADER_OLD @ c) =
       Inr (if i = j then Some d else None)"
  using assms
  by (simp add: EncryptedBlockStore2_tryDecrypt_def EncryptedBlockStore2_checkFormatHeader_def
      EncryptedBlockStore2_readFormatHeader_def EncryptedBlockStore2_blockIdHeaderIsCorrect_def
      EncryptedBlockStore2_migrateBlock_def Data_copyAndRemovePrefix_def BINARY_LENGTH_def)

section \<open>The contract is preserved\<close>

locale encrypted_store =
  base: block_store2 base binv bblocks bfits bcapacity + cipher C key_ok overhead
  for base :: "'s block_store2" and binv bblocks bfits bcapacity
    and C :: "('r, 'k) cipher" and key_ok overhead +
  fixes encKey :: 'k
  assumes encKey: "key_ok encKey"
begin

abbreviation einv where "einv \<equiv> encrypted_inv C encKey binv bblocks"
abbreviation eblocks where "eblocks \<equiv> encrypted_blocks C encKey bblocks"
abbreviation efits where "efits \<equiv> encrypted_fits overhead bfits"
abbreviation ecapacity :: "'r \<times> 's \<Rightarrow> nat \<Rightarrow> bool" where "ecapacity \<equiv> encrypted_capacity bcapacity"

lemma encrypt_block:
  assumes "length d + overhead < 2 ^ 32"
  obtains c r' where "EncryptedBlockStore2_encrypt C encKey d r = (Inr c, r')"
    and "length c = length d + overhead + 2"
    and "\<And>i. EncryptedBlockStore2_tryDecrypt C encKey i c = Inr (Some d)"
proof -
  obtain c r' where c: "encrypt_of C d encKey r = (Inr c, r')" "decrypt_of C c encKey = Inr (Some d)"
      "length c = length d + overhead"
    using encrypt [OF encKey assms] by blast
  show thesis
  proof (rule that)
    show "EncryptedBlockStore2_encrypt C encKey d r =
        (Inr (EncryptedBlockStore2_prependFormatHeaderToData c), r')"
      using c(1) by (simp add: EncryptedBlockStore2_encrypt_def ebind_def)
    show "length (EncryptedBlockStore2_prependFormatHeaderToData c) = length d + overhead + 2"
      using c(3) by (simp add: EncryptedBlockStore2_prependFormatHeaderToData_def)
    show "EncryptedBlockStore2_tryDecrypt C encKey i
        (EncryptedBlockStore2_prependFormatHeaderToData c) = Inr (Some d)" for i
      using c(2) by (simp add: tryDecrypt_prepend)
  qed
qed

text \<open>Writing a block through any base operation that meets the law of a write.\<close>

lemma write_block:
  assumes inv: "einv (r, s)" and fits: "efits d"
    and op: "\<And>c. bfits c \<Longrightarrow> yields (m c) s x (\<lambda>t. binv t \<and>
       bblocks t = (bblocks s)(i \<mapsto> c) \<and> (\<forall>n. bcapacity s (Suc n) \<longrightarrow> bcapacity t n))"
  shows "yields (ebind (zoom_fst (EncryptedBlockStore2_encrypt C encKey d)) (\<lambda>c. zoom_snd (m c)))
    (r, s) x (\<lambda>t. einv t \<and> eblocks t = (eblocks (r, s))(i \<mapsto> d) \<and>
       (\<forall>n. ecapacity (r, s) (Suc n) \<longrightarrow> ecapacity t n))"
proof -
  have "length d + overhead < 2 ^ 32" using fits by (simp add: encrypted_fits_def)
  then obtain c r' where c: "EncryptedBlockStore2_encrypt C encKey d r = (Inr c, r')"
      "length c = length d + overhead + 2"
      "\<And>j. EncryptedBlockStore2_tryDecrypt C encKey j c = Inr (Some d)"
    by (rule encrypt_block [where r = r]) blast
  have "bfits c" using fits c(2) by (simp add: encrypted_fits_def)
  from op [OF this] obtain t where t: "m c s = (Inr x, t)" "binv t"
      "bblocks t = (bblocks s)(i \<mapsto> c)" "\<forall>n. bcapacity s (Suc n) \<longrightarrow> bcapacity t n"
    by (rule yieldsE) blast
  have "ebind (zoom_fst (EncryptedBlockStore2_encrypt C encKey d)) (\<lambda>c. zoom_snd (m c)) (r, s) =
      (Inr x, (r', t))"
    using c(1) t(1) by (simp add: ebind_def zoom_fst_eq zoom_snd_eq)
  moreover have "einv (r', t)" using inv t(2,3) c(3) by (auto simp: encrypted_inv_def)
  moreover have "eblocks (r', t) = (eblocks (r, s))(i \<mapsto> d)"
    using c(3) t(3) by (rule encrypted_blocks_upd)
  moreover have "\<forall>n. ecapacity (r, s) (Suc n) \<longrightarrow> ecapacity (r', t) n"
    using t(4) by (simp add: encrypted_capacity_def)
  ultimately show ?thesis by (blast intro: yieldsI)
qed

lemma eblocks_eq: "bblocks t = bblocks s \<Longrightarrow> eblocks (r', t) = eblocks (r, s)"
  by (simp add: encrypted_blocks_def)

lemma eblocks_None_iff: "einv (r, s) \<Longrightarrow> eblocks (r, s) i = None \<longleftrightarrow> bblocks s i = None"
  by (fastforce simp: encrypted_inv_def encrypted_blocks_def split: option.splits)

lemma eblocks_dom: "einv (r, s) \<Longrightarrow> dom (eblocks (r, s)) = dom (bblocks s)"
  using eblocks_None_iff by (auto simp: dom_def)

end

sublocale encrypted_store \<subseteq> encrypted: block_store2
  "EncryptedBlockStore2 C encKey base" einv eblocks efits ecapacity
proof unfold_locales
  fix s :: "'r \<times> 's" and i d
  assume inv: "einv s"
  obtain r b where s: "s = (r, b)" by (cases s)
  have binv: "binv b" using inv by (simp add: s encrypted_inv_def)
  show "yields (load_of (EncryptedBlockStore2 C encKey base) i) s (eblocks s i)
      (\<lambda>t. einv t \<and> eblocks t = eblocks s \<and> (\<forall>n. ecapacity s n \<longrightarrow> ecapacity t n))"
  proof -
    from base.load [OF binv, of i] obtain t where t: "load_of base i b = (Inr (bblocks b i), t)"
        "binv t" "bblocks t = bblocks b" "\<forall>n. bcapacity b n \<longrightarrow> bcapacity t n"
      by (rule yieldsE) blast
    have "EncryptedBlockStore2_load C encKey base i (r, b) = (Inr (eblocks (r, b) i), (r, t))"
      using t(1) inv unfolding s EncryptedBlockStore2_load_def
      by (fastforce simp: ebind_def zoom_snd_eq encrypted_abs split: option.splits sum.splits)
    moreover have "einv (r, t)" using inv t(2,3) by (simp add: s encrypted_inv_def)
    ultimately show ?thesis
      using eblocks_eq [OF t(3)] t(4) by (auto simp: s yields_def encrypted_capacity_def)
  qed
  show "yields (store_of (EncryptedBlockStore2 C encKey base) i d) s ()
      (\<lambda>t. einv t \<and> eblocks t = (eblocks s)(i \<mapsto> d) \<and> (\<forall>n. ecapacity s (Suc n) \<longrightarrow> ecapacity t n))"
    if "efits d" "ecapacity s (Suc 0)"
    using write_block [OF inv [unfolded s] that(1) base.store [OF binv]] that(2)
    by (simp add: s EncryptedBlockStore2_store_def encrypted_capacity_def)
  show "yields (tryCreate_of (EncryptedBlockStore2 C encKey base) i d) s True
      (\<lambda>t. einv t \<and> eblocks t = (eblocks s)(i \<mapsto> d) \<and> (\<forall>n. ecapacity s (Suc n) \<longrightarrow> ecapacity t n))"
    if "efits d" "ecapacity s (Suc 0)" "eblocks s i = None"
  proof -
    have "bblocks b i = None" using that(3) eblocks_None_iff inv by (simp add: s)
    from write_block [OF inv [unfolded s] that(1) base.tryCreate_fresh [OF binv _ _ this]] that(2)
    show ?thesis by (simp add: s EncryptedBlockStore2_tryCreate_def encrypted_capacity_def)
  qed
  show "yields (remove_of (EncryptedBlockStore2 C encKey base) i) s (eblocks s i \<noteq> None)
      (\<lambda>t. einv t \<and> eblocks t = (eblocks s)(i := None) \<and> (\<forall>n. ecapacity s n \<longrightarrow> ecapacity t n))"
  proof -
    have ne: "(eblocks (r, b) i \<noteq> None) = (bblocks b i \<noteq> None)"
      using eblocks_None_iff inv by (simp add: s)
    show ?thesis
      unfolding EncryptedBlockStore2_sel EncryptedBlockStore2_remove_def s ne
      by (rule yields_zoom_snd, unfold fst_conv snd_conv, rule yields_mono [OF base.remove [OF binv]])
        (use inv in \<open>auto simp: s encrypted_abs fun_eq_iff\<close>)
  qed
  show "yields (numBlocks_of (EncryptedBlockStore2 C encKey base)) s (card (dom (eblocks s)))
      (\<lambda>t. einv t \<and> eblocks t = eblocks s \<and> (\<forall>n. ecapacity s n \<longrightarrow> ecapacity t n))"
    unfolding EncryptedBlockStore2_sel EncryptedBlockStore2_numBlocks_def s
      eblocks_dom [OF inv [unfolded s]]
    by (rule yields_zoom_snd, unfold fst_conv snd_conv, rule yields_mono [OF base.numBlocks [OF binv]])
      (use inv in \<open>auto simp: s encrypted_abs fun_eq_iff\<close>)
  show "finite (dom (eblocks s))"
    using base.finite_blocks [OF binv] eblocks_dom inv by (simp add: s)
next
  fix s :: "'r \<times> 's" and m n assume "ecapacity s n" "m \<le> n"
  then show "ecapacity s m" using base.capacity_mono by (auto simp: encrypted_capacity_def)
qed

locale encrypted_store_strict = encrypted_store base binv bblocks bfits bcapacity C key_ok overhead encKey +
  base_strict: block_store2_strict base binv bblocks bfits bcapacity
  for base :: "'s block_store2" and binv bblocks bfits bcapacity
    and C :: "('r, 'k) cipher" and key_ok overhead and encKey

sublocale encrypted_store_strict \<subseteq> encrypted: block_store2_strict
  "EncryptedBlockStore2 C encKey base" einv eblocks efits ecapacity
proof unfold_locales
  fix s :: "'r \<times> 's" and i d
  assume inv: "einv s" and ex: "eblocks s i \<noteq> None" and fits: "efits d" and cap: "ecapacity s (Suc 0)"
  obtain r b where s: "s = (r, b)" by (cases s)
  have binv: "binv b" using inv by (simp add: s encrypted_inv_def)
  have bex: "bblocks b i \<noteq> None" using ex eblocks_None_iff [of r b i] inv unfolding s by metis
  have "length d + overhead < 2 ^ 32" using fits by (simp add: encrypted_fits_def)
  then obtain c r' where c: "EncryptedBlockStore2_encrypt C encKey d r = (Inr c, r')"
      "length c = length d + overhead + 2"
    by (rule encrypt_block [where r = r]) blast
  have "bfits c" "bcapacity b (Suc 0)"
    using fits c(2) cap by (simp_all add: s encrypted_fits_def encrypted_capacity_def)
  from base_strict.tryCreate_existing [OF binv bex this] obtain t where
    t: "tryCreate_of base i c b = (Inr False, t)" "binv t" "bblocks t = bblocks b"
      "\<forall>n. bcapacity b n \<longrightarrow> bcapacity t n"
    by (rule yieldsE) blast
  have "EncryptedBlockStore2_tryCreate C encKey base i d (r, b) = (Inr False, (r', t))"
    using c(1) t(1)
    by (simp add: EncryptedBlockStore2_tryCreate_def ebind_def zoom_fst_eq zoom_snd_eq)
  moreover have "einv (r', t)" using inv t(2,3) by (simp add: s encrypted_inv_def)
  ultimately show "yields (tryCreate_of (EncryptedBlockStore2 C encKey base) i d) s False
      (\<lambda>t. einv t \<and> eblocks t = eblocks s \<and> (\<forall>n. ecapacity s n \<longrightarrow> ecapacity t n))"
    using eblocks_eq [OF t(3)] t(4) by (auto simp: s yields_def encrypted_capacity_def)
qed

text \<open>The instance the unit tests of the code use: the fake cipher over the in-memory store.\<close>

interpretation encrypted_inmemory: encrypted_store_strict
  "InMemoryBlockStore2 m" inmemory_inv map_of "\<lambda>d. True" "\<lambda>s n. True"
  "FakeAuthenticatedCipher (random_device f)" "\<lambda>_. True" 16 k for m f k
  by unfold_locales simp

context encrypted_store
begin

lemma store_contract: "block_store2 (EncryptedBlockStore2 C encKey base) einv eblocks efits ecapacity"
  by (rule encrypted.block_store2_axioms)

end

section \<open>Properties\<close>

text \<open>
  C25. Encryption keeps the contract of a block store: over any base store and any cipher that meet their
  contracts, the encrypted store answers every call as the map of the decrypted blocks does, as long as
  blocks leave room for the overhead of the cipher in 32 bits.
\<close>

theorem encrypted_store_contract:
  assumes "block_store2 base binv bblocks bfits bcapacity" and "cipher C key_ok overhead" and "key_ok encKey"
  shows "block_store2 (EncryptedBlockStore2 C encKey base) (encrypted_inv C encKey binv bblocks)
    (encrypted_blocks C encKey bblocks) (encrypted_fits overhead bfits) (encrypted_capacity bcapacity)"
  by (rule encrypted_store.store_contract [where key_ok = key_ok])
    (intro encrypted_store.intro encrypted_store_axioms.intro assms)

theorem encrypted_store_contract_witness:
  "block_store2 (EncryptedBlockStore2 (FakeAuthenticatedCipher (random_device (\<lambda>n. of_nat n))) 5 (InMemoryBlockStore2 0))
    (encrypted_inv (FakeAuthenticatedCipher (random_device (\<lambda>n. of_nat n))) 5 inmemory_inv map_of)
    (encrypted_blocks (FakeAuthenticatedCipher (random_device (\<lambda>n. of_nat n))) 5 map_of)
    (encrypted_fits 16 (\<lambda>d. True)) (encrypted_capacity (\<lambda>s n. True))"
  by (rule encrypted_store_contract [OF inmemory.block_store2_axioms fake_cipher.cipher_axioms]) simp

text \<open>
  A block of the old format, which carries its identifier in front of the plaintext, is read under the
  identifier it was stored with, without that prefix, and under no other.
\<close>

theorem old_format_block_loads:
  assumes "load_of base i s = (Inr (Some (serialize EncryptedBlockStore2_FORMAT_VERSION_HEADER_OLD @ c)), s')"
    and "decrypt_of C c k = Inr (Some (BlockId_ToBinary j @ d))"
  shows "EncryptedBlockStore2_load C k base i (r, s) = (Inr (if i = j then Some d else None), (r, s'))"
  using assms by (simp add: EncryptedBlockStore2_load_def ebind_def zoom_snd_def tryDecrypt_old_format)

theorem old_format_block_loads_witness:
  "\<exists>c. EncryptedBlockStore2_load (FakeAuthenticatedCipher (random_device (\<lambda>n. 9))) 5 (InMemoryBlockStore2 0) (bid 2)
     (0, [(bid 2, serialize EncryptedBlockStore2_FORMAT_VERSION_HEADER_OLD @ c)]) =
       (Inr (Some [1, 2, 3]), (0, [(bid 2, serialize EncryptedBlockStore2_FORMAT_VERSION_HEADER_OLD @ c)]))"
proof -
  obtain c where c: "decrypt_of (FakeAuthenticatedCipher (random_device (\<lambda>n. 9))) c 5 =
      Inr (Some (BlockId_ToBinary (bid 2) @ [1, 2, 3]))"
    using cipher.encrypt [OF fake_cipher.cipher_axioms, where k = 5 and d = "BlockId_ToBinary (bid 2) @ [1, 2, 3]" and r = 0] by auto
  have "load_of (InMemoryBlockStore2 0) (bid 2) [(bid 2, serialize EncryptedBlockStore2_FORMAT_VERSION_HEADER_OLD @ c)] =
      (Inr (Some (serialize EncryptedBlockStore2_FORMAT_VERSION_HEADER_OLD @ c)),
       [(bid 2, serialize EncryptedBlockStore2_FORMAT_VERSION_HEADER_OLD @ c)])"
    by (simp add: store_simps)
  from old_format_block_loads [OF this c, of 0] show ?thesis by auto
qed

text \<open>
  The block size announced for a physical size is exact: a plaintext of the announced size is stored
  in a block of the physical size, neither more nor less.
\<close>

theorem physical_block_size_exact:
  assumes "cipher C key_ok overhead" and "key_ok k"
    and "blockSizeFromPhysicalBlockSize_of base n = n" and "overhead + 2 < n" and "n < 2 ^ 32"
    and "length d = EncryptedBlockStore2_blockSizeFromPhysicalBlockSize C base n"
  shows "\<exists>c r'. EncryptedBlockStore2_encrypt C k d r = (Inr c, r') \<and> length c = n"
proof -
  have size: "unat (ciphertextSize_of C (of_nat m)) = m + overhead"
      "unat (plaintextSize_of C (of_nat (m + overhead))) = m" if "m + overhead < 2 ^ 32" for m
    using cipher.sizes [OF assms(1) that] by auto
  have "unat (ciphertextSize_of C 0) = overhead" using size(1) [of 0] assms(4,5) by simp
  moreover have "n - 2 = (n - 2 - overhead) + overhead" "n - 2 - overhead + overhead < 2 ^ 32"
    using assms(4,5) by auto
  ultimately have len: "length d = n - 2 - overhead"
    using assms(3-6) size(2) [of "n - 2 - overhead"]
    by (simp add: EncryptedBlockStore2_blockSizeFromPhysicalBlockSize_def Let_def del: of_nat_add)
  then have "length d + overhead < 2 ^ 32" using assms(4,5) by simp
  from cipher.encrypt [OF assms(1,2) this, of r] obtain c r' where
    "encrypt_of C d k r = (Inr c, r')" "length c = length d + overhead" by blast
  then show ?thesis using len assms(4)
    by (simp add: EncryptedBlockStore2_encrypt_def ebind_def EncryptedBlockStore2_prependFormatHeaderToData_def)
qed

theorem physical_block_size_exact_witness:
  "\<exists>c r'. EncryptedBlockStore2_encrypt (FakeAuthenticatedCipher (random_device (\<lambda>n. 9))) 5 (replicate 82 7) 0 = (Inr c, r')
     \<and> length c = 100"
proof (rule physical_block_size_exact [OF fake_cipher.cipher_axioms, where base = "InMemoryBlockStore2 0"])
  show "length (replicate 82 (7 :: byte)) = EncryptedBlockStore2_blockSizeFromPhysicalBlockSize
      (FakeAuthenticatedCipher (random_device (\<lambda>n. 9))) (InMemoryBlockStore2 0) 100"
    by (simp add: EncryptedBlockStore2_blockSizeFromPhysicalBlockSize_def FakeAuthenticatedCipher_def
        FakeAuthenticatedCipher_ciphertextSize_def FakeAuthenticatedCipher_plaintextSize_def)
qed simp_all

end
