(* ===== verification/KnownVersions.thy ===== *)
theory KnownVersions
  imports BlockIds
begin

text \<open>
  \<open>src/src/blockstore/implementations/integrity/KnownBlockVersions.cpp\<close>: the client's memory of the
  newest version it has seen of every block from every client, on which the integrity store rests.
  The model has every operation and the state file; the lemmas show that version numbers never go
  down, that the state file is read back as it was written, and where the version counter wraps.
\<close>

section \<open>State\<close>

record known_block_versions =
  integrityViolationOnPreviousRun :: bool
  knownVersions :: "((u32 \<times> block_id) \<times> u64) list"
  lastUpdateClientId :: "(block_id \<times> u32) list"
  myClientId :: u32
  valid :: bool

definition CLIENT_ID_FOR_DELETED_BLOCK :: u32 where
  "CLIENT_ID_FOR_DELETED_BLOCK = 0"

definition KnownBlockVersions_OLD_HEADER :: data where
  "KnownBlockVersions_OLD_HEADER = ascii ''cryfs.integritydata.knownblockversions;0''"

definition KnownBlockVersions_HEADER :: data where
  "KnownBlockVersions_HEADER = ascii ''cryfs.integritydata.knownblockversions;1''"

section \<open>Versions\<close>

definition KnownBlockVersions_checkAndUpdateVersion ::
  "u32 \<Rightarrow> block_id \<Rightarrow> u64 \<Rightarrow> (known_block_versions, bool) exec" where
  "KnownBlockVersions_checkAndUpdateVersion clientId blockId version =
     ebind (assert_exec (clientId \<noteq> CLIENT_ID_FOR_DELETED_BLOCK) ''This is not a valid client id'') (\<lambda>_.
     ebind (assert_exec (version > 0) ''Version has to be >0'') (\<lambda>_.
     ebind (gets valid) (\<lambda>v.
     ebind (assert_exec v ''Object not valid due to a std::move'') (\<lambda>_.
     ebind (modify (knownVersions_update (um_insert ((clientId, blockId), 0)))) (\<lambda>_.
     ebind (gets (\<lambda>s. um_get 0 (clientId, blockId) (knownVersions s))) (\<lambda>found.
       if found > version then ret False
       else
         ebind (modify (lastUpdateClientId_update (um_insert (blockId, 0)))) (\<lambda>_.
         ebind (gets (\<lambda>s. um_get 0 blockId (lastUpdateClientId s))) (\<lambda>last.
           if found = version \<and> last \<noteq> clientId then ret False
           else
             ebind (modify (knownVersions_update (um_put (clientId, blockId) version))) (\<lambda>_.
             ebind (modify (lastUpdateClientId_update (um_put blockId clientId))) (\<lambda>_.
             ret True))))))))))"

definition KnownBlockVersions_incrementVersion :: "block_id \<Rightarrow> (known_block_versions, u64) exec" where
  "KnownBlockVersions_incrementVersion blockId =
     ebind (gets myClientId) (\<lambda>me.
     ebind (modify (knownVersions_update (um_insert ((me, blockId), 0)))) (\<lambda>_.
     ebind (gets (\<lambda>s. um_get 0 (me, blockId) (knownVersions s))) (\<lambda>found.
       let newVersion = found + 1
       in if newVersion = - 1 then throw (RuntimeError ''Version overflow'')
          else
            ebind (modify (knownVersions_update (um_put (me, blockId) newVersion))) (\<lambda>_.
            ebind (modify (lastUpdateClientId_update (um_put blockId me))) (\<lambda>_.
            ret newVersion)))))"

definition KnownBlockVersions_getBlockVersion ::
  "u32 \<Rightarrow> block_id \<Rightarrow> known_block_versions \<Rightarrow> u64 result" where
  "KnownBlockVersions_getBlockVersion clientId blockId s =
     (case map_of (knownVersions s) (clientId, blockId) of None \<Rightarrow> Inl OutOfRange | Some v \<Rightarrow> Inr v)"

definition KnownBlockVersions_markBlockAsDeleted :: "block_id \<Rightarrow> (known_block_versions, unit) exec" where
  "KnownBlockVersions_markBlockAsDeleted blockId =
     modify (lastUpdateClientId_update (um_put blockId CLIENT_ID_FOR_DELETED_BLOCK))"

definition KnownBlockVersions_blockShouldExist :: "block_id \<Rightarrow> known_block_versions \<Rightarrow> bool" where
  "KnownBlockVersions_blockShouldExist blockId s =
     (case map_of (lastUpdateClientId s) blockId of
        None \<Rightarrow> False
      | Some c \<Rightarrow> c \<noteq> CLIENT_ID_FOR_DELETED_BLOCK)"

definition KnownBlockVersions_existingBlocks :: "known_block_versions \<Rightarrow> block_id list" where
  "KnownBlockVersions_existingBlocks s =
     map fst (filter (\<lambda>e. snd e \<noteq> CLIENT_ID_FOR_DELETED_BLOCK) (lastUpdateClientId s))"

definition KnownBlockVersions_setIntegrityViolationOnPreviousRun ::
  "bool \<Rightarrow> (known_block_versions, unit) exec" where
  "KnownBlockVersions_setIntegrityViolationOnPreviousRun v =
     modify (integrityViolationOnPreviousRun_update (\<lambda>_. v))"

section \<open>The state file\<close>

text \<open>The loops over the entries, shared by the two maps.\<close>

fun write_entries :: "('e \<Rightarrow> serializer \<Rightarrow> serializer result) \<Rightarrow> 'e list \<Rightarrow> serializer \<Rightarrow> serializer result" where
  "write_entries w [] s = Inr s"
| "write_entries w (e # es) s = rbind (w e s) (write_entries w es)"

fun read_entries :: "(deserializer \<Rightarrow> (('k \<times> 'v) \<times> deserializer) result) \<Rightarrow> nat \<Rightarrow>
    ('k \<times> 'v) list \<Rightarrow> deserializer \<Rightarrow> (('k \<times> 'v) list \<times> deserializer) result" where
  "read_entries r 0 acc d = Inr (acc, d)"
| "read_entries r (Suc n) acc d = rbind (r d) (\<lambda>(e, d'). read_entries r n (um_insert e acc) d')"

definition KnownBlockVersions_serializeKnownVersionsEntry ::
  "(u32 \<times> block_id) \<times> u64 \<Rightarrow> serializer \<Rightarrow> serializer result" where
  "KnownBlockVersions_serializeKnownVersionsEntry entry s =
     rbind (Serializer_writeUint32 (fst (fst entry)) s) (\<lambda>s.
     rbind (Serializer_writeFixedSizeData (BlockId_ToBinary (snd (fst entry))) s)
       (Serializer_writeUint64 (snd entry)))"

definition KnownBlockVersions_deserializeKnownVersionsEntry ::
  "deserializer \<Rightarrow> (((u32 \<times> block_id) \<times> u64) \<times> deserializer) result" where
  "KnownBlockVersions_deserializeKnownVersionsEntry d =
     rbind (Deserializer_readUint32 d) (\<lambda>(clientId, d).
     rbind (Deserializer_readFixedSizeData BINARY_LENGTH d) (\<lambda>(b, d).
     rbind (Deserializer_readUint64 d) (\<lambda>(version, d).
     Inr (((clientId, BlockId_of b), version), d))))"

definition KnownBlockVersions_serializeKnownVersions ::
  "((u32 \<times> block_id) \<times> u64) list \<Rightarrow> serializer \<Rightarrow> serializer result" where
  "KnownBlockVersions_serializeKnownVersions m s =
     rbind (Serializer_writeUint64 (of_nat (length m)) s)
       (write_entries KnownBlockVersions_serializeKnownVersionsEntry m)"

definition KnownBlockVersions_deserializeKnownVersions ::
  "deserializer \<Rightarrow> (((u32 \<times> block_id) \<times> u64) list \<times> deserializer) result" where
  "KnownBlockVersions_deserializeKnownVersions d =
     rbind (Deserializer_readUint64 d) (\<lambda>(numEntries, d).
       read_entries KnownBlockVersions_deserializeKnownVersionsEntry (unat numEntries) [] d)"

definition KnownBlockVersions_serializeLastUpdateClientIdEntry ::
  "block_id \<times> u32 \<Rightarrow> serializer \<Rightarrow> serializer result" where
  "KnownBlockVersions_serializeLastUpdateClientIdEntry entry s =
     rbind (Serializer_writeFixedSizeData (BlockId_ToBinary (fst entry)) s)
       (Serializer_writeUint32 (snd entry))"

definition KnownBlockVersions_deserializeLastUpdateClientIdEntry ::
  "deserializer \<Rightarrow> ((block_id \<times> u32) \<times> deserializer) result" where
  "KnownBlockVersions_deserializeLastUpdateClientIdEntry d =
     rbind (Deserializer_readFixedSizeData BINARY_LENGTH d) (\<lambda>(b, d).
     rbind (Deserializer_readUint32 d) (\<lambda>(clientId, d).
     Inr ((BlockId_of b, clientId), d)))"

definition KnownBlockVersions_serializeLastUpdateClientIds ::
  "(block_id \<times> u32) list \<Rightarrow> serializer \<Rightarrow> serializer result" where
  "KnownBlockVersions_serializeLastUpdateClientIds m s =
     rbind (Serializer_writeUint64 (of_nat (length m)) s)
       (write_entries KnownBlockVersions_serializeLastUpdateClientIdEntry m)"

definition KnownBlockVersions_deserializeLastUpdateClientIds ::
  "deserializer \<Rightarrow> ((block_id \<times> u32) list \<times> deserializer) result" where
  "KnownBlockVersions_deserializeLastUpdateClientIds d =
     rbind (Deserializer_readUint64 d) (\<lambda>(numEntries, d).
       read_entries KnownBlockVersions_deserializeLastUpdateClientIdEntry (unat numEntries) [] d)"

text \<open>The buffer size the constructor of the serializer is given, and the file it produces.\<close>

definition KnownBlockVersions_fileSize :: "known_block_versions \<Rightarrow> nat" where
  "KnownBlockVersions_fileSize s =
     Serializer_StringSize KnownBlockVersions_HEADER + Serializer_BoolSize +
     sizeof TYPE(64) + length (knownVersions s) * (sizeof TYPE(32) + BINARY_LENGTH + sizeof TYPE(64)) +
     sizeof TYPE(64) + length (lastUpdateClientId s) * (BINARY_LENGTH + sizeof TYPE(32))"

definition KnownBlockVersions_saveStateFile :: "known_block_versions \<Rightarrow> data result" where
  "KnownBlockVersions_saveStateFile s =
     rbind (rbind (Serializer_writeString KnownBlockVersions_HEADER
                     (Serializer_new (zeroes (KnownBlockVersions_fileSize s)))) (\<lambda>ser.
            rbind (Serializer_writeBool (integrityViolationOnPreviousRun s) ser) (\<lambda>ser.
            rbind (KnownBlockVersions_serializeKnownVersions (knownVersions s) ser)
              (KnownBlockVersions_serializeLastUpdateClientIds (lastUpdateClientId s)))))
       Serializer_finished"

text \<open>
  The file is \<open>None\<close> if it does not exist. The result is the loaded state and what the file holds
  afterwards: a file of the old format is rewritten.
\<close>

definition KnownBlockVersions_loadStateFile ::
  "data option \<Rightarrow> known_block_versions \<Rightarrow> (known_block_versions \<times> data option) result" where
  "KnownBlockVersions_loadStateFile file s =
     (case file of
        None \<Rightarrow> Inr (s, None)
      | Some f \<Rightarrow>
          rbind (Deserializer_readString (Deserializer_new f)) (\<lambda>(loaded_header, d).
            if KnownBlockVersions_OLD_HEADER = loaded_header then
              rbind (KnownBlockVersions_deserializeKnownVersions d) (\<lambda>(kv, d).
              rbind (KnownBlockVersions_deserializeLastUpdateClientIds d) (\<lambda>(lu, d).
              rbind (Deserializer_finished d) (\<lambda>_.
                let s' = s\<lparr>knownVersions := kv, lastUpdateClientId := lu\<rparr>
                in rbind (KnownBlockVersions_saveStateFile s') (\<lambda>f'. Inr (s', Some f')))))
            else if KnownBlockVersions_HEADER \<noteq> loaded_header then
              Inl (RuntimeError ''Invalid local state: Invalid integrity file header.'')
            else
              rbind (Deserializer_readBool d) (\<lambda>(viol, d).
              rbind (KnownBlockVersions_deserializeKnownVersions d) (\<lambda>(kv, d).
              rbind (KnownBlockVersions_deserializeLastUpdateClientIds d) (\<lambda>(lu, d).
              rbind (Deserializer_finished d) (\<lambda>_.
                Inr (s\<lparr>integrityViolationOnPreviousRun := viol, knownVersions := kv,
                       lastUpdateClientId := lu\<rparr>, Some f)))))))"

definition KnownBlockVersions_new ::
  "data option \<Rightarrow> u32 \<Rightarrow> (known_block_versions \<times> data option) result" where
  "KnownBlockVersions_new file me =
     rbind (ASSERT (me \<noteq> CLIENT_ID_FOR_DELETED_BLOCK) ''This is not a valid client id'') (\<lambda>_.
       KnownBlockVersions_loadStateFile file
         \<lparr>integrityViolationOnPreviousRun = False, knownVersions = [], lastUpdateClientId = [],
          myClientId = me, valid = True\<rparr>)"

text \<open>The move constructor leaves an invalid object behind; the destructor saves a valid one.\<close>

definition KnownBlockVersions_move ::
  "known_block_versions \<Rightarrow> known_block_versions \<times> known_block_versions" where
  "KnownBlockVersions_move rhs =
     (\<lparr>integrityViolationOnPreviousRun = integrityViolationOnPreviousRun rhs,
       knownVersions = knownVersions rhs, lastUpdateClientId = lastUpdateClientId rhs,
       myClientId = myClientId rhs, valid = True\<rparr>,
      rhs\<lparr>knownVersions := [], lastUpdateClientId := [], valid := False\<rparr>)"

definition KnownBlockVersions_destroy ::
  "known_block_versions \<Rightarrow> data option \<Rightarrow> data option result" where
  "KnownBlockVersions_destroy s file =
     (if valid s then rbind (KnownBlockVersions_saveStateFile s) (\<lambda>f. Inr (Some f)) else Inr file)"

section \<open>Behaviour of the version checks\<close>

definition known_version :: "known_block_versions \<Rightarrow> u32 \<Rightarrow> block_id \<Rightarrow> u64" where
  "known_version s c i = um_get 0 (c, i) (knownVersions s)"

definition last_client :: "known_block_versions \<Rightarrow> block_id \<Rightarrow> u32" where
  "last_client s i = um_get 0 i (lastUpdateClientId s)"

definition kbv_inv :: "known_block_versions \<Rightarrow> bool" where
  "kbv_inv s \<longleftrightarrow> um_wf (knownVersions s) \<and> um_wf (lastUpdateClientId s) \<and> valid s \<and>
     myClientId s \<noteq> CLIENT_ID_FOR_DELETED_BLOCK"

text \<open>A version is acceptable if it is new, or if it is the current one.\<close>

definition acceptable :: "known_block_versions \<Rightarrow> u32 \<Rightarrow> block_id \<Rightarrow> u64 \<Rightarrow> bool" where
  "acceptable s c i v \<longleftrightarrow>
     known_version s c i < v \<or> (known_version s c i = v \<and> last_client s i = c)"

lemma checkAndUpdateVersion_accept:
  assumes "kbv_inv s" and "c \<noteq> 0" and "v > 0" and "acceptable s c i v"
  obtains t where "KnownBlockVersions_checkAndUpdateVersion c i v s = (Inr True, t)"
    and "kbv_inv t" and "myClientId t = myClientId s"
    and "integrityViolationOnPreviousRun t = integrityViolationOnPreviousRun s"
    and "\<And>c' j. known_version t c' j = (if (c', j) = (c, i) then v else known_version s c' j)"
    and "\<And>j. last_client t j = (if j = i then c else last_client s j)"
    and "map_of (lastUpdateClientId t) = (map_of (lastUpdateClientId s))(i \<mapsto> c)"
proof -
  let ?t = "s\<lparr>knownVersions := um_put (c, i) v (um_insert ((c, i), 0) (knownVersions s)),
    lastUpdateClientId := um_put i c (um_insert (i, 0) (lastUpdateClientId s))\<rparr>"
  have "KnownBlockVersions_checkAndUpdateVersion c i v s = (Inr True, ?t)"
    using assms
    by (auto simp: KnownBlockVersions_checkAndUpdateVersion_def CLIENT_ID_FOR_DELETED_BLOCK_def
        kbv_inv_def acceptable_def known_version_def last_client_def)
  then show thesis
  proof (rule that)
    show "kbv_inv ?t" using assms(1) by (simp add: kbv_inv_def)
    show "known_version ?t c' j = (if (c', j) = (c, i) then v else known_version s c' j)" for c' j
      by (simp add: known_version_def)
    show "last_client ?t j = (if j = i then c else last_client s j)" for j
      by (simp add: last_client_def)
    show "map_of (lastUpdateClientId ?t) = (map_of (lastUpdateClientId s))(i \<mapsto> c)"
      by (auto simp: fun_eq_iff map_of_um_insert)
  qed simp_all
qed

lemma checkAndUpdateVersion_reject:
  assumes "kbv_inv s" and "c \<noteq> 0" and "v > 0" and "\<not> acceptable s c i v"
  obtains t where "KnownBlockVersions_checkAndUpdateVersion c i v s = (Inr False, t)"
    and "kbv_inv t" and "known_version t = known_version s" and "last_client t = last_client s"
    and "myClientId t = myClientId s"
    and "integrityViolationOnPreviousRun t = integrityViolationOnPreviousRun s"
proof -
  let ?kv = "um_insert ((c, i), 0) (knownVersions s)"
  let ?t = "s\<lparr>knownVersions := ?kv, lastUpdateClientId :=
    (if known_version s c i > v then lastUpdateClientId s else um_insert (i, 0) (lastUpdateClientId s))\<rparr>"
  have "\<not> known_version s c i < v" "known_version s c i = v \<longrightarrow> last_client s i \<noteq> c"
    using assms(4) by (auto simp: acceptable_def)
  then have "KnownBlockVersions_checkAndUpdateVersion c i v s = (Inr False, ?t)"
    using assms(1-3)
    by (auto simp: KnownBlockVersions_checkAndUpdateVersion_def CLIENT_ID_FOR_DELETED_BLOCK_def
        kbv_inv_def known_version_def last_client_def)
  then show thesis
  proof (rule that)
    show "kbv_inv ?t" using assms(1) by (simp add: kbv_inv_def)
    show "known_version ?t = known_version s" by (simp add: known_version_def fun_eq_iff)
    show "last_client ?t = last_client s" by (simp add: last_client_def fun_eq_iff)
  qed simp_all
qed

lemma word_Suc_neq_max_less: "(w :: u64) \<noteq> - 1 \<Longrightarrow> w < w + 1"
proof -
  assume "w \<noteq> - 1"
  then have "1 + w \<noteq> 0" by (metis add.commute add_eq_0_iff)
  then have "unat (1 + w) = Suc (unat w)" by (rule unatSuc)
  then show ?thesis by (simp add: word_less_nat_alt add.commute)
qed

lemma incrementVersion_ok:
  assumes "kbv_inv s" and "known_version s (myClientId s) i + 1 \<noteq> - 1"
  obtains t where "KnownBlockVersions_incrementVersion i s =
      (Inr (known_version s (myClientId s) i + 1), t)"
    and "kbv_inv t" and "myClientId t = myClientId s"
    and "integrityViolationOnPreviousRun t = integrityViolationOnPreviousRun s"
    and "\<And>c' j. known_version t c' j = (if (c', j) = (myClientId s, i)
           then known_version s (myClientId s) i + 1 else known_version s c' j)"
    and "\<And>j. last_client t j = (if j = i then myClientId s else last_client s j)"
    and "map_of (lastUpdateClientId t) = (map_of (lastUpdateClientId s))(i \<mapsto> myClientId s)"
proof -
  let ?v = "known_version s (myClientId s) i + 1"
  let ?t = "s\<lparr>knownVersions := um_put (myClientId s, i) ?v
      (um_insert ((myClientId s, i), 0) (knownVersions s)),
    lastUpdateClientId := um_put i (myClientId s) (lastUpdateClientId s)\<rparr>"
  have "KnownBlockVersions_incrementVersion i s = (Inr ?v, ?t)"
    using assms(2) by (simp add: KnownBlockVersions_incrementVersion_def known_version_def Let_def)
  then show thesis
  proof (rule that)
    show "kbv_inv ?t" using assms(1) by (simp add: kbv_inv_def)
    show "known_version ?t c' j = (if (c', j) = (myClientId s, i)
           then known_version s (myClientId s) i + 1 else known_version s c' j)" for c' j
      by (simp add: known_version_def)
    show "last_client ?t j = (if j = i then myClientId s else last_client s j)" for j
      by (simp add: last_client_def)
  qed simp_all
qed

section \<open>Versions never go down\<close>

text \<open>
  The events in the life of the object, with the versions of loaded blocks below the maximum of the
  64 bit counter: no client that runs this code writes the maximum.
\<close>

inductive kbv_step :: "known_block_versions \<Rightarrow> known_block_versions \<Rightarrow> bool" where
  check: "c \<noteq> 0 \<Longrightarrow> 0 < v \<Longrightarrow> v < - 1 \<Longrightarrow>
    KnownBlockVersions_checkAndUpdateVersion c i v s = (Inr b, t) \<Longrightarrow> kbv_step s t"
| increment: "KnownBlockVersions_incrementVersion i s = (Inr v, t) \<Longrightarrow> kbv_step s t"
| deleted: "KnownBlockVersions_markBlockAsDeleted i s = (Inr (), t) \<Longrightarrow> kbv_step s t"
| violation: "KnownBlockVersions_setIntegrityViolationOnPreviousRun b s = (Inr (), t) \<Longrightarrow> kbv_step s t"

definition versions_bounded :: "known_block_versions \<Rightarrow> bool" where
  "versions_bounded s \<longleftrightarrow> (\<forall>c i. known_version s c i < - 1)"

definition versions_le :: "known_block_versions \<Rightarrow> known_block_versions \<Rightarrow> bool" where
  "versions_le s t \<longleftrightarrow> (\<forall>c i. known_version s c i \<le> known_version t c i)"

lemma check_step:
  assumes "kbv_inv s" "versions_bounded s" "c \<noteq> 0" "0 < v" "v < - 1"
    and step: "KnownBlockVersions_checkAndUpdateVersion c i v s = (Inr b, t)"
  shows "kbv_inv t \<and> versions_bounded t \<and> versions_le s t"
proof (cases "acceptable s c i v")
  case True
  from checkAndUpdateVersion_accept [OF assms(1,3,4) True] step
  have "kbv_inv t" "\<And>c' j. known_version t c' j = (if (c', j) = (c, i) then v else known_version s c' j)"
    by (metis Pair_inject)+
  with True assms(2,5) show ?thesis
    by (auto simp: versions_bounded_def versions_le_def acceptable_def)
next
  case False
  from checkAndUpdateVersion_reject [OF assms(1,3,4) False] step
  have "kbv_inv t" "known_version t = known_version s"
    by (metis Pair_inject)+
  with assms(2) show ?thesis by (auto simp: versions_bounded_def versions_le_def)
qed

lemma incrementVersion_not_overflow:
  "KnownBlockVersions_incrementVersion i s = (Inr v, t) \<Longrightarrow> known_version s (myClientId s) i + 1 \<noteq> - 1"
  by (auto simp: KnownBlockVersions_incrementVersion_def known_version_def Let_def split: if_splits)

lemma word_neq_max_less: "(w :: u64) \<noteq> - 1 \<longleftrightarrow> w < - 1"
  by (metis word_order.not_eq_extremum)

lemma increment_step:
  assumes "kbv_inv s" "versions_bounded s"
    and step: "KnownBlockVersions_incrementVersion i s = (Inr v, t)"
  shows "kbv_inv t \<and> versions_bounded t \<and> versions_le s t"
proof -
  let ?v = "known_version s (myClientId s) i"
  have no: "?v + 1 \<noteq> - 1" by (rule incrementVersion_not_overflow [OF step])
  have "?v \<noteq> - 1" using assms(2) by (simp add: versions_bounded_def word_neq_max_less)
  then have less: "?v < ?v + 1" by (rule word_Suc_neq_max_less)
  from incrementVersion_ok [OF assms(1) no] step
  have "kbv_inv t" "\<And>c' j. known_version t c' j =
      (if (c', j) = (myClientId s, i) then ?v + 1 else known_version s c' j)"
    by (metis Pair_inject)+
  moreover have "?v + 1 < - 1" using no by (simp only: word_neq_max_less)
  ultimately show ?thesis using less assms(2)
    by (auto simp: versions_bounded_def versions_le_def)
qed

lemma kbv_step_le:
  assumes "kbv_step s t" "kbv_inv s" "versions_bounded s"
  shows "kbv_inv t \<and> versions_bounded t \<and> versions_le s t"
  using assms
proof cases
  case deleted
  then show ?thesis using assms(2,3)
    by (auto simp: KnownBlockVersions_markBlockAsDeleted_def kbv_inv_def versions_bounded_def
        versions_le_def known_version_def)
next
  case violation
  then show ?thesis using assms(2,3)
    by (auto simp: KnownBlockVersions_setIntegrityViolationOnPreviousRun_def kbv_inv_def
        versions_bounded_def versions_le_def known_version_def)
qed (use check_step increment_step assms in \<open>blast+\<close>)

lemma kbv_steps_le:
  assumes "kbv_step\<^sup>*\<^sup>* s t" "kbv_inv s" "versions_bounded s"
  shows "kbv_inv t \<and> versions_bounded t \<and> versions_le s t"
  using assms
proof (induction rule: rtranclp_induct)
  case base
  then show ?case by (simp add: versions_le_def)
next
  case (step t u)
  then show ?case using kbv_step_le [of t u] unfolding versions_le_def by (meson order_trans)
qed

text \<open>
  The increment compares the new version, not the old one, with the maximum: from the maximum itself
  the counter wraps to 0.
\<close>

lemma incrementVersion_at_max:
  assumes "known_version s (myClientId s) i = - 1"
  shows "fst (KnownBlockVersions_incrementVersion i s) = Inr 0"
  using assms by (simp add: KnownBlockVersions_incrementVersion_def known_version_def Let_def)

section \<open>The state file is read back\<close>

lemma write_entries_appends:
  "(\<And>e. Serializer_appends (w e) (f e)) \<Longrightarrow> Serializer_appends (write_entries w es) (concat (map f es))"
proof (induction es)
  case Nil
  then show ?case by (simp add: Serializer_appends_def)
next
  case (Cons e es)
  then show ?case
    using Serializer_appends_then [OF Cons.prems [of e] Cons.IH]
    by (simp add: Serializer_appends_def)
qed

lemma read_entries_reads:
  assumes "\<And>e. Deserializer_reads r (f e) e" and "um_wf (acc @ es)"
  shows "Deserializer_reads (read_entries r (length es) acc) (concat (map f es)) (acc @ es)"
  using assms(2)
proof (induction es arbitrary: acc)
  case Nil
  then show ?case by (simp add: Deserializer_reads_def)
next
  case (Cons e es)
  have "map_of acc (fst e) = None"
    using Cons.prems by (auto simp: um_wf_def map_of_eq_None_iff)
  then have ins: "um_insert e acc = acc @ [e]" by (simp add: um_insert_def)
  have "Deserializer_reads (read_entries r (length es) (acc @ [e])) (concat (map f es)) (acc @ e # es)"
    using Cons.IH [of "acc @ [e]"] Cons.prems by simp
  with ins Deserializer_reads_then [OF assms(1) [of e],
      of "\<lambda>e. read_entries r (length es) (um_insert e acc)"]
  show ?case by (simp add: Deserializer_reads_def)
qed

definition known_entry_bytes :: "(u32 \<times> block_id) \<times> u64 \<Rightarrow> data" where
  "known_entry_bytes e = serialize (fst (fst e)) @ BlockId_ToBinary (snd (fst e)) @ serialize (snd e)"

definition last_entry_bytes :: "block_id \<times> u32 \<Rightarrow> data" where
  "last_entry_bytes e = BlockId_ToBinary (fst e) @ serialize (snd e)"

definition state_file_bytes :: "known_block_versions \<Rightarrow> data" where
  "state_file_bytes s = (KnownBlockVersions_HEADER @ [0]) @ [if integrityViolationOnPreviousRun s then 1 else 0] @
     (serialize (of_nat (length (knownVersions s)) :: u64) @ concat (map known_entry_bytes (knownVersions s))) @
     (serialize (of_nat (length (lastUpdateClientId s)) :: u64) @
       concat (map last_entry_bytes (lastUpdateClientId s)))"

lemma serialize_entries_append:
  "Serializer_appends (KnownBlockVersions_serializeKnownVersions m)
     (serialize (of_nat (length m) :: u64) @ concat (map known_entry_bytes m))"
  "Serializer_appends (KnownBlockVersions_serializeLastUpdateClientIds l)
     (serialize (of_nat (length l) :: u64) @ concat (map last_entry_bytes l))"
proof -
  have "Serializer_appends (KnownBlockVersions_serializeKnownVersionsEntry e) (known_entry_bytes e)" for e
    unfolding KnownBlockVersions_serializeKnownVersionsEntry_def known_entry_bytes_def
    by (intro Serializer_appends_intros)
  then show "Serializer_appends (KnownBlockVersions_serializeKnownVersions m)
     (serialize (of_nat (length m) :: u64) @ concat (map known_entry_bytes m))"
    unfolding KnownBlockVersions_serializeKnownVersions_def
    by (intro Serializer_appends_intros write_entries_appends)
  have "Serializer_appends (KnownBlockVersions_serializeLastUpdateClientIdEntry e) (last_entry_bytes e)" for e
    unfolding KnownBlockVersions_serializeLastUpdateClientIdEntry_def last_entry_bytes_def
    by (intro Serializer_appends_intros)
  then show "Serializer_appends (KnownBlockVersions_serializeLastUpdateClientIds l)
     (serialize (of_nat (length l) :: u64) @ concat (map last_entry_bytes l))"
    unfolding KnownBlockVersions_serializeLastUpdateClientIds_def
    by (intro Serializer_appends_intros write_entries_appends)
qed

lemma length_concat_entries:
  "length (concat (map known_entry_bytes m)) = length m * 28"
  "length (concat (map last_entry_bytes l)) = length l * 20"
  by (induction m) (simp_all add: known_entry_bytes_def, induction l, simp_all add: last_entry_bytes_def)

lemma saveStateFile_bytes: "KnownBlockVersions_saveStateFile s = Inr (state_file_bytes s)"
  unfolding KnownBlockVersions_saveStateFile_def
proof (rule Serializer_run_finished)
  show "Serializer_appends (\<lambda>x. rbind (Serializer_writeString KnownBlockVersions_HEADER x) (\<lambda>ser.
            rbind (Serializer_writeBool (integrityViolationOnPreviousRun s) ser) (\<lambda>ser.
            rbind (KnownBlockVersions_serializeKnownVersions (knownVersions s) ser)
              (KnownBlockVersions_serializeLastUpdateClientIds (lastUpdateClientId s)))))
     (state_file_bytes s)"
    unfolding state_file_bytes_def
    by (intro Serializer_appends_intros serialize_entries_append)
  show "length (zeroes (KnownBlockVersions_fileSize s)) = length (state_file_bytes s)"
    by (simp add: KnownBlockVersions_fileSize_def state_file_bytes_def length_concat_entries
        Serializer_StringSize_def Serializer_BoolSize_def BINARY_LENGTH_def)
qed

lemma deserialize_entries_read:
  assumes "length m < 2 ^ 64" and "um_wf m"
  shows "Deserializer_reads KnownBlockVersions_deserializeKnownVersions
     (serialize (of_nat (length m) :: u64) @ concat (map known_entry_bytes m)) m"
proof -
  have entry: "Deserializer_reads KnownBlockVersions_deserializeKnownVersionsEntry (known_entry_bytes e) e" for e
  proof -
    obtain c i v where e: "e = ((c, i), v)" by (metis prod.exhaust)
    show ?thesis
      unfolding KnownBlockVersions_deserializeKnownVersionsEntry_def [abs_def] known_entry_bytes_def e fst_conv snd_conv
      by (rule Deserializer_reads_then [OF Deserializer_readUint_reads(3)],
          rule Deserializer_reads_then [OF Deserializer_readFixedSizeData_reads],
          simp add: BINARY_LENGTH_def,
          rule Deserializer_reads_then [OF Deserializer_readUint_reads(4), where cs = "[]", simplified])
        (simp add: Deserializer_reads_return)
  qed
  have "unat (of_nat (length m) :: u64) = length m" using assms(1) by (simp add: unat_of_nat)
  with read_entries_reads [of _ known_entry_bytes "[]" m, OF entry] assms(2)
  show ?thesis
    unfolding KnownBlockVersions_deserializeKnownVersions_def [abs_def]
    by (intro Deserializer_reads_then [OF Deserializer_readUint_reads(4)]) simp
qed

lemma deserialize_last_entries_read:
  assumes "length m < 2 ^ 64" and "um_wf m"
  shows "Deserializer_reads KnownBlockVersions_deserializeLastUpdateClientIds
     (serialize (of_nat (length m) :: u64) @ concat (map last_entry_bytes m)) m"
proof -
  have entry: "Deserializer_reads KnownBlockVersions_deserializeLastUpdateClientIdEntry (last_entry_bytes e) e" for e
  proof -
    obtain i c where e: "e = (i, c)" by (metis prod.exhaust)
    show ?thesis
      unfolding KnownBlockVersions_deserializeLastUpdateClientIdEntry_def [abs_def] last_entry_bytes_def e fst_conv snd_conv
      by (rule Deserializer_reads_then [OF Deserializer_readFixedSizeData_reads],
          simp add: BINARY_LENGTH_def,
          rule Deserializer_reads_then [OF Deserializer_readUint_reads(3), where cs = "[]", simplified])
        (simp add: Deserializer_reads_return)
  qed
  have "unat (of_nat (length m) :: u64) = length m" using assms(1) by (simp add: unat_of_nat)
  with read_entries_reads [of _ last_entry_bytes "[]" m, OF entry] assms(2)
  show ?thesis
    unfolding KnownBlockVersions_deserializeLastUpdateClientIds_def [abs_def]
    by (intro Deserializer_reads_then [OF Deserializer_readUint_reads(4)]) simp
qed

lemma header_no_nullbyte: "0 \<notin> set KnownBlockVersions_HEADER"
  and headers_differ: "KnownBlockVersions_OLD_HEADER \<noteq> KnownBlockVersions_HEADER"
  by (simp_all add: KnownBlockVersions_HEADER_def KnownBlockVersions_OLD_HEADER_def ascii_def)

lemma loadStateFile_bytes:
  assumes "um_wf (knownVersions s)" "um_wf (lastUpdateClientId s)"
    and "length (state_file_bytes s) < 2 ^ 63"
  shows "KnownBlockVersions_loadStateFile (Some (state_file_bytes s)) s0 =
    Inr (s0\<lparr>integrityViolationOnPreviousRun := integrityViolationOnPreviousRun s,
            knownVersions := knownVersions s, lastUpdateClientId := lastUpdateClientId s\<rparr>,
         Some (state_file_bytes s))"
proof -
  let ?f = "state_file_bytes s"
  have len: "length (knownVersions s) < 2 ^ 64" "length (lastUpdateClientId s) < 2 ^ 64"
    using assms(3) by (simp_all add: state_file_bytes_def length_concat_entries)
  let ?v = "serialize (of_nat (length (knownVersions s)) :: u64) @ concat (map known_entry_bytes (knownVersions s))"
  let ?l = "serialize (of_nat (length (lastUpdateClientId s)) :: u64) @ concat (map last_entry_bytes (lastUpdateClientId s))"
  have "des_at (Deserializer_new ?f) ((KnownBlockVersions_HEADER @ [0]) @
      ([if integrityViolationOnPreviousRun s then 1 else 0] @ ?v @ ?l))"
    using assms(3) by (simp add: des_at_def Deserializer_new_def state_file_bytes_def)
  then obtain d1 where d1: "Deserializer_readString (Deserializer_new ?f) = Inr (KnownBlockVersions_HEADER, d1)"
      "des_at d1 ([if integrityViolationOnPreviousRun s then 1 else 0] @ ?v @ ?l)"
    using Deserializer_readString_reads [OF header_no_nullbyte] unfolding Deserializer_reads_def by blast
  then obtain d2 where d2: "Deserializer_readBool d1 = Inr (integrityViolationOnPreviousRun s, d2)"
      "des_at d2 (?v @ ?l)"
    using Deserializer_readBool_reads unfolding Deserializer_reads_def by blast
  then obtain d3 where d3: "KnownBlockVersions_deserializeKnownVersions d2 = Inr (knownVersions s, d3)"
      "des_at d3 (?l @ [])"
    using deserialize_entries_read [OF len(1) assms(1)] unfolding Deserializer_reads_def by auto
  then obtain d4 where d4: "KnownBlockVersions_deserializeLastUpdateClientIds d3 =
      Inr (lastUpdateClientId s, d4)" "des_at d4 []"
    using deserialize_last_entries_read [OF len(2) assms(2)] unfolding Deserializer_reads_def by blast
  then have "Deserializer_finished d4 = Inr ()"
    by (auto simp: Deserializer_finished_def des_at_def)
  with d1(1) d2(1) d3(1) d4(1) headers_differ show ?thesis
    by (simp add: KnownBlockVersions_loadStateFile_def)
qed

section \<open>Properties\<close>


definition example_kbv :: known_block_versions where
  "example_kbv = \<lparr>integrityViolationOnPreviousRun = False, knownVersions = [((7, bid 1), 5)],
     lastUpdateClientId = [(bid 1, 7)], myClientId = 7, valid = True\<rparr>"

lemma zero_less_max_u64: "(0 :: u64) < - 1"
  by (simp flip: word_neq_max_less)

lemma example_kbv_inv: "kbv_inv example_kbv" "versions_bounded example_kbv"
  using zero_less_max_u64
  by (auto simp: kbv_inv_def versions_bounded_def known_version_def um_get_def um_wf_def
      example_kbv_def CLIENT_ID_FOR_DELETED_BLOCK_def)


text \<open>
  the state file written by \<open>_saveStateFile\<close> is read back by the constructor of the next run as
  exactly the state that was saved.
\<close>

theorem state_file_roundtrip:
  assumes "kbv_inv s" and "length (state_file_bytes s) < 2 ^ 63"
  shows "\<exists>f. KnownBlockVersions_saveStateFile s = Inr f \<and>
    KnownBlockVersions_new (Some f) (myClientId s) = Inr (s, Some f)"
  using loadStateFile_bytes [OF _ _ assms(2)] assms(1)
  by (simp add: saveStateFile_bytes KnownBlockVersions_new_def kbv_inv_def)

theorem state_file_roundtrip_witness:
  "\<exists>f. KnownBlockVersions_saveStateFile example_kbv = Inr f \<and>
    KnownBlockVersions_new (Some f) 7 = Inr (example_kbv, Some f)"
  using state_file_roundtrip [OF example_kbv_inv(1)]
  by (simp add: example_kbv_def state_file_bytes_def known_entry_bytes_def last_entry_bytes_def KnownBlockVersions_HEADER_def)

end
