(* ===== verification/IntegrityStore.thy ===== *)
theory IntegrityStore
  imports BlockStores KnownVersions
begin

text \<open>
  \<open>src/src/blockstore/implementations/integrity/IntegrityBlockStore2.cpp\<close>: a decorator that stores
  every block with its identifier, the writing client and a version number, and compares them on
  every load with what the client remembers. It meets the contract of a block store as long as
  nobody else changes the base store, and it detects renamed, rolled back and deleted blocks when
  somebody does.
\<close>

section \<open>State and header layout\<close>

record integrity_config =
  allowIntegrityViolations :: bool
  missingBlockIsIntegrityViolation :: bool

text \<open>
  \<open>reported\<close> lists the reasons for which \<open>_onIntegrityViolation\<close> was called, the last one first; what
  the callback does (it unmounts the file system) is not part of the store.
\<close>

record 's integrity_state =
  knownBlockVersions :: known_block_versions
  reported :: "string list"
  baseState :: 's

definition zoom_known :: "(known_block_versions, 'a) exec \<Rightarrow> ('s integrity_state, 'a) exec" where
  "zoom_known m s = (case m (knownBlockVersions s) of (r, k) \<Rightarrow> (r, s\<lparr>knownBlockVersions := k\<rparr>))"

definition zoom_base :: "('s, 'a) exec \<Rightarrow> ('s integrity_state, 'a) exec" where
  "zoom_base m s = (case m (baseState s) of (r, b) \<Rightarrow> (r, s\<lparr>baseState := b\<rparr>))"

definition IntegrityBlockStore2_FORMAT_VERSION_HEADER_OLD :: u16 where
  "IntegrityBlockStore2_FORMAT_VERSION_HEADER_OLD = 0"

definition IntegrityBlockStore2_FORMAT_VERSION_HEADER :: u16 where
  "IntegrityBlockStore2_FORMAT_VERSION_HEADER = 1"

definition ID_HEADER_OFFSET :: nat where
  "ID_HEADER_OFFSET = sizeof TYPE(16)"

definition CLIENTID_HEADER_OFFSET :: nat where
  "CLIENTID_HEADER_OFFSET = ID_HEADER_OFFSET + BINARY_LENGTH"

definition VERSION_HEADER_OFFSET :: nat where
  "VERSION_HEADER_OFFSET = CLIENTID_HEADER_OFFSET + sizeof TYPE(32)"

definition HEADER_LENGTH :: nat where
  "HEADER_LENGTH = VERSION_HEADER_OFFSET + sizeof TYPE(64)"

lemmas integrity_offsets = ID_HEADER_OFFSET_def CLIENTID_HEADER_OFFSET_def VERSION_HEADER_OFFSET_def
  HEADER_LENGTH_def BINARY_LENGTH_def

section \<open>Header access\<close>

definition IntegrityBlockStore2_prependHeaderToData :: "block_id \<Rightarrow> u32 \<Rightarrow> u64 \<Rightarrow> data \<Rightarrow> data" where
  "IntegrityBlockStore2_prependHeaderToData blockId me version d =
     (let result = zeroes (length d + HEADER_LENGTH);
          result = write_at 0 (serialize IntegrityBlockStore2_FORMAT_VERSION_HEADER) result;
          result = write_at ID_HEADER_OFFSET (BlockId_ToBinary blockId) result;
          result = write_at CLIENTID_HEADER_OFFSET (serialize me) result;
          result = write_at VERSION_HEADER_OFFSET (serialize version) result
      in write_at HEADER_LENGTH d result)"

definition IntegrityBlockStore2_readFormatHeader :: "data \<Rightarrow> u16 result" where
  "IntegrityBlockStore2_readFormatHeader d = deserialize d"

definition IntegrityBlockStore2_readClientId :: "data \<Rightarrow> u32 result" where
  "IntegrityBlockStore2_readClientId d = deserializeWithOffset d CLIENTID_HEADER_OFFSET"

definition IntegrityBlockStore2_readBlockId :: "data \<Rightarrow> block_id result" where
  "IntegrityBlockStore2_readBlockId d = BlockId_FromBinary (drop ID_HEADER_OFFSET d)"

definition IntegrityBlockStore2_readVersion :: "data \<Rightarrow> u64 result" where
  "IntegrityBlockStore2_readVersion d = deserializeWithOffset d VERSION_HEADER_OFFSET"

definition IntegrityBlockStore2_removeHeader :: "data \<Rightarrow> data result" where
  "IntegrityBlockStore2_removeHeader d = Data_copyAndRemovePrefix d HEADER_LENGTH"

definition IntegrityBlockStore2_migrateBlock :: "block_id \<Rightarrow> data \<Rightarrow> data result" where
  "IntegrityBlockStore2_migrateBlock blockId d =
     (if length d < sizeof TYPE(16) then Inl MemoryFault
      else
        let migrated = zeroes (length d + BINARY_LENGTH);
            migrated = write_at 0 (serialize IntegrityBlockStore2_FORMAT_VERSION_HEADER) migrated;
            migrated = write_at ID_HEADER_OFFSET (BlockId_ToBinary blockId) migrated;
            migrated = write_at (ID_HEADER_OFFSET + BINARY_LENGTH) (drop (sizeof TYPE(16)) d) migrated
        in rbind (ASSERT (length migrated = sizeof TYPE(16) + BINARY_LENGTH + (length d - sizeof TYPE(16)))
                    ''Wrong offset computation'') (\<lambda>_. Inr migrated))"

section \<open>Checks\<close>

definition IntegrityBlockStore2_integrityViolationDetected ::
  "integrity_config \<Rightarrow> string \<Rightarrow> ('s integrity_state, unit) exec" where
  "IntegrityBlockStore2_integrityViolationDetected cfg reason =
     (if allowIntegrityViolations cfg then ret ()
      else ebind (zoom_known (KnownBlockVersions_setIntegrityViolationOnPreviousRun True)) (\<lambda>_.
           modify (reported_update (\<lambda>rs. reason # rs))))"

definition IntegrityBlockStore2_checkFormatHeader :: "data \<Rightarrow> unit result" where
  "IntegrityBlockStore2_checkFormatHeader d =
     rbind (IntegrityBlockStore2_readFormatHeader d) (\<lambda>h.
       if IntegrityBlockStore2_FORMAT_VERSION_HEADER \<noteq> h
       then Inl (RuntimeError ''The versioned block has the wrong format. Was it created with a newer version of CryFS?'')
       else Inr ())"

definition IntegrityBlockStore2_checkVersionHeader ::
  "integrity_config \<Rightarrow> block_id \<Rightarrow> data \<Rightarrow> ('s integrity_state, bool) exec" where
  "IntegrityBlockStore2_checkVersionHeader cfg blockId d =
     ebind (lift_result (IntegrityBlockStore2_readClientId d)) (\<lambda>clientId.
     ebind (lift_result (IntegrityBlockStore2_readVersion d)) (\<lambda>version.
     ebind (zoom_known (KnownBlockVersions_checkAndUpdateVersion clientId blockId version)) (\<lambda>ok.
       if \<not> ok then
         ebind (IntegrityBlockStore2_integrityViolationDetected cfg
             ''The block version number is too low. Did an attacker try to roll back the block or to re-introduce a deleted block?'')
           (\<lambda>_. ret False)
       else ret True)))"

definition IntegrityBlockStore2_checkIdHeader ::
  "integrity_config \<Rightarrow> block_id \<Rightarrow> data \<Rightarrow> ('s integrity_state, bool) exec" where
  "IntegrityBlockStore2_checkIdHeader cfg expectedBlockId d =
     ebind (lift_result (IntegrityBlockStore2_readBlockId d)) (\<lambda>actualBlockId.
       if expectedBlockId \<noteq> actualBlockId then
         ebind (IntegrityBlockStore2_integrityViolationDetected cfg
             ''The block id is wrong. Did an attacker try to rename some blocks?'')
           (\<lambda>_. ret False)
       else ret True)"

definition IntegrityBlockStore2_checkHeader ::
  "integrity_config \<Rightarrow> block_id \<Rightarrow> data \<Rightarrow> ('s integrity_state, bool) exec" where
  "IntegrityBlockStore2_checkHeader cfg blockId d =
     ebind (lift_result (IntegrityBlockStore2_checkFormatHeader d)) (\<lambda>_.
     ebind (IntegrityBlockStore2_checkIdHeader cfg blockId d) (\<lambda>idOk.
       if idOk then IntegrityBlockStore2_checkVersionHeader cfg blockId d else ret False))"

section \<open>Operations\<close>

text \<open>The constructor: \<open>file\<close> is the content of the integrity file.\<close>

definition IntegrityBlockStore2_new :: "'s \<Rightarrow> data option \<Rightarrow> u32 \<Rightarrow> 's integrity_state result" where
  "IntegrityBlockStore2_new base file me =
     rbind (KnownBlockVersions_new file me) (\<lambda>(known, _).
       if integrityViolationOnPreviousRun known then Inl IntegrityViolationOnPreviousRun
       else Inr \<lparr>knownBlockVersions = known, reported = [], baseState = base\<rparr>)"

definition IntegrityBlockStore2_tryCreate ::
  "'s block_store2 \<Rightarrow> block_id \<Rightarrow> data \<Rightarrow> ('s integrity_state, bool) exec" where
  "IntegrityBlockStore2_tryCreate base blockId d =
     ebind (zoom_known (KnownBlockVersions_incrementVersion blockId)) (\<lambda>version.
     ebind (gets (\<lambda>s. myClientId (knownBlockVersions s))) (\<lambda>me.
       zoom_base (tryCreate_of base blockId (IntegrityBlockStore2_prependHeaderToData blockId me version d))))"

definition IntegrityBlockStore2_remove ::
  "'s block_store2 \<Rightarrow> block_id \<Rightarrow> ('s integrity_state, bool) exec" where
  "IntegrityBlockStore2_remove base blockId =
     ebind (zoom_known (KnownBlockVersions_markBlockAsDeleted blockId)) (\<lambda>_.
       zoom_base (remove_of base blockId))"

definition IntegrityBlockStore2_store ::
  "'s block_store2 \<Rightarrow> block_id \<Rightarrow> data \<Rightarrow> ('s integrity_state, unit) exec" where
  "IntegrityBlockStore2_store base blockId d =
     ebind (zoom_known (KnownBlockVersions_incrementVersion blockId)) (\<lambda>version.
     ebind (gets (\<lambda>s. myClientId (knownBlockVersions s))) (\<lambda>me.
       zoom_base (store_of base blockId (IntegrityBlockStore2_prependHeaderToData blockId me version d))))"

definition IntegrityBlockStore2_load ::
  "integrity_config \<Rightarrow> 's block_store2 \<Rightarrow> block_id \<Rightarrow> ('s integrity_state, data option) exec" where
  "IntegrityBlockStore2_load cfg base blockId =
     ebind (zoom_base (load_of base blockId)) (\<lambda>loaded.
       case loaded of
         None \<Rightarrow>
           ebind (gets (\<lambda>s. missingBlockIsIntegrityViolation cfg \<and>
                           KnownBlockVersions_blockShouldExist blockId (knownBlockVersions s))) (\<lambda>missing.
             if missing then
               ebind (IntegrityBlockStore2_integrityViolationDetected cfg
                   ''A block that should exist wasn't found. Did an attacker delete it?'')
                 (\<lambda>_. ret None)
             else ret None)
       | Some d \<Rightarrow>
           ebind (lift_result (IntegrityBlockStore2_readFormatHeader d)) (\<lambda>h.
             if IntegrityBlockStore2_FORMAT_VERSION_HEADER_OLD = h then
               ebind (lift_result (IntegrityBlockStore2_migrateBlock blockId d)) (\<lambda>migrated.
               ebind (IntegrityBlockStore2_checkHeader cfg blockId migrated) (\<lambda>ok.
                 if \<not> ok \<and> \<not> allowIntegrityViolations cfg then ret None
                 else
                   ebind (lift_result (IntegrityBlockStore2_removeHeader migrated)) (\<lambda>content.
                   ebind (IntegrityBlockStore2_store base blockId content) (\<lambda>_.
                   ret (Some content)))))
             else
               ebind (IntegrityBlockStore2_checkHeader cfg blockId d) (\<lambda>ok.
                 if \<not> ok \<and> \<not> allowIntegrityViolations cfg then ret None
                 else
                   ebind (lift_result (IntegrityBlockStore2_removeHeader d)) (\<lambda>content.
                   ret (Some content)))))"

definition IntegrityBlockStore2_blockSizeFromPhysicalBlockSize :: "'s block_store2 \<Rightarrow> nat \<Rightarrow> nat" where
  "IntegrityBlockStore2_blockSizeFromPhysicalBlockSize base blockSize =
     (let baseBlockSize = blockSizeFromPhysicalBlockSize_of base blockSize
      in if baseBlockSize \<le> HEADER_LENGTH then 0 else baseBlockSize - HEADER_LENGTH)"

definition IntegrityBlockStore2_forEachBlock ::
  "integrity_config \<Rightarrow> 's block_store2 \<Rightarrow> ('s integrity_state, block_id list) exec" where
  "IntegrityBlockStore2_forEachBlock cfg base =
     (if \<not> missingBlockIsIntegrityViolation cfg then zoom_base (forEachBlock_of base)
      else
        ebind (gets (\<lambda>s. KnownBlockVersions_existingBlocks (knownBlockVersions s))) (\<lambda>existingBlocks.
        ebind (zoom_base (forEachBlock_of base)) (\<lambda>ids.
          let left = fold removeAll ids existingBlocks
          in if left \<noteq> [] then
               ebind (IntegrityBlockStore2_integrityViolationDetected cfg
                   ''A block that should have existed wasn't found.'') (\<lambda>_. ret ids)
             else ret ids)))"

definition IntegrityBlockStore2 ::
  "integrity_config \<Rightarrow> 's block_store2 \<Rightarrow> 's integrity_state block_store2" where
  "IntegrityBlockStore2 cfg base = \<lparr>
     tryCreate_of = IntegrityBlockStore2_tryCreate base,
     remove_of = IntegrityBlockStore2_remove base,
     load_of = IntegrityBlockStore2_load cfg base,
     store_of = IntegrityBlockStore2_store base,
     numBlocks_of = zoom_base (numBlocks_of base),
     estimateNumFreeBytes_of = zoom_base (estimateNumFreeBytes_of base),
     blockSizeFromPhysicalBlockSize_of = IntegrityBlockStore2_blockSizeFromPhysicalBlockSize base,
     forEachBlock_of = IntegrityBlockStore2_forEachBlock cfg base\<rparr>"

lemma IntegrityBlockStore2_sel [simp]:
  "tryCreate_of (IntegrityBlockStore2 cfg b) = IntegrityBlockStore2_tryCreate b"
  "remove_of (IntegrityBlockStore2 cfg b) = IntegrityBlockStore2_remove b"
  "load_of (IntegrityBlockStore2 cfg b) = IntegrityBlockStore2_load cfg b"
  "store_of (IntegrityBlockStore2 cfg b) = IntegrityBlockStore2_store b"
  "numBlocks_of (IntegrityBlockStore2 cfg b) = zoom_base (numBlocks_of b)"
  by (simp_all add: IntegrityBlockStore2_def)

section \<open>Migration of whole stores\<close>

definition IntegrityBlockStore2_migrateBlockFromBlockstoreWithoutVersionNumbers ::
  "'s block_store2 \<Rightarrow> block_id \<Rightarrow> (known_block_versions \<times> 's, unit) exec" where
  "IntegrityBlockStore2_migrateBlockFromBlockstoreWithoutVersionNumbers base blockId =
     ebind (zoom_snd (load_of base blockId)) (\<lambda>loaded.
       case loaded of
         None \<Rightarrow> ret ()
       | Some d \<Rightarrow>
           ebind (lift_result (IntegrityBlockStore2_readFormatHeader d)) (\<lambda>h.
             if 0 \<noteq> h then ret ()
             else
               ebind (zoom_fst (KnownBlockVersions_incrementVersion blockId)) (\<lambda>version.
               ebind (gets (\<lambda>s. myClientId (fst s))) (\<lambda>me.
                 zoom_snd (store_of base blockId
                   (IntegrityBlockStore2_prependHeaderToData blockId me version d))))))"

text \<open>
  \<open>signals\<close> are the answers of \<open>signal_occurred\<close>, one per block. The identifiers are those the base
  store lists when the iteration starts. The local \<open>KnownBlockVersions\<close> object saves its file when it
  goes out of scope, also when an exception leaves the function.
\<close>

fun migrate_all :: "'s block_store2 \<Rightarrow> (block_id \<times> bool) list \<Rightarrow> (known_block_versions \<times> 's, unit) exec" where
  "migrate_all base [] = ret ()"
| "migrate_all base ((blockId, signal) # rest) =
     (if signal then throw (RuntimeError ''Caught signal'')
      else ebind (IntegrityBlockStore2_migrateBlockFromBlockstoreWithoutVersionNumbers base blockId)
             (\<lambda>_. migrate_all base rest))"

definition IntegrityBlockStore2_migrateFromBlockstoreWithoutVersionNumbers ::
  "'s block_store2 \<Rightarrow> (nat \<Rightarrow> bool) \<Rightarrow> u32 \<Rightarrow> (data option \<times> 's, unit) exec" where
  "IntegrityBlockStore2_migrateFromBlockstoreWithoutVersionNumbers base signals me =
     ebind (gets fst) (\<lambda>file.
     ebind (lift_result (KnownBlockVersions_new file me)) (\<lambda>(known, file').
     ebind (zoom_snd (forEachBlock_of base)) (\<lambda>ids s.
       case migrate_all base (zip ids (map signals [0..<length ids])) (known, snd s) of
         (r, known', b) \<Rightarrow>
           (case KnownBlockVersions_destroy known' file' of
              Inl e \<Rightarrow> (Inl e, (file', b))
            | Inr f \<Rightarrow> (r, (f, b))))))"

section \<open>Header lemmas\<close>

lemma zeroes_add: "zeroes (m + n) = zeroes m @ zeroes n"
  by (simp add: zeroes_def replicate_add)

lemma write_at_middle:
  "length pre = off \<Longrightarrow> length mid = length src \<Longrightarrow>
     write_at off src (pre @ mid @ post) = pre @ src @ post"
  by (simp add: write_at_def)

lemma prependHeader_eq:
  "IntegrityBlockStore2_prependHeaderToData i me v d =
     serialize IntegrityBlockStore2_FORMAT_VERSION_HEADER @ BlockId_ToBinary i @ serialize me @
     serialize v @ d"
proof -
  let ?F = "serialize IntegrityBlockStore2_FORMAT_VERSION_HEADER"
  have z: "zeroes (length d + HEADER_LENGTH) =
      zeroes 2 @ zeroes 16 @ zeroes 4 @ zeroes 8 @ zeroes (length d)"
    by (simp add: zeroes_add [symmetric] integrity_offsets add.commute)
  have 1: "write_at 0 ?F (zeroes (length d + HEADER_LENGTH)) =
      ?F @ zeroes 16 @ zeroes 4 @ zeroes 8 @ zeroes (length d)"
    unfolding z using write_at_middle [of "[]" 0 "zeroes 2" ?F] by simp
  have 2: "write_at ID_HEADER_OFFSET (BlockId_ToBinary i) \<dots> =
      ?F @ BlockId_ToBinary i @ zeroes 4 @ zeroes 8 @ zeroes (length d)"
    by (rule write_at_middle) (simp_all add: integrity_offsets)
  have 3: "write_at CLIENTID_HEADER_OFFSET (serialize me) \<dots> =
      (?F @ BlockId_ToBinary i) @ serialize me @ zeroes 8 @ zeroes (length d)"
    using write_at_middle [of "?F @ BlockId_ToBinary i" CLIENTID_HEADER_OFFSET "zeroes 4" "serialize me"]
    by (simp add: integrity_offsets)
  have 4: "write_at VERSION_HEADER_OFFSET (serialize v) \<dots> =
      (?F @ BlockId_ToBinary i @ serialize me) @ serialize v @ zeroes (length d)"
    using write_at_middle [of "?F @ BlockId_ToBinary i @ serialize me" VERSION_HEADER_OFFSET "zeroes 8" "serialize v"]
    by (simp add: integrity_offsets)
  have 5: "write_at HEADER_LENGTH d \<dots> =
      (?F @ BlockId_ToBinary i @ serialize me @ serialize v) @ d @ []"
    using write_at_middle [of "?F @ BlockId_ToBinary i @ serialize me @ serialize v" HEADER_LENGTH "zeroes (length d)" d "[]"]
    by (simp add: integrity_offsets)
  show ?thesis
    unfolding IntegrityBlockStore2_prependHeaderToData_def Let_def 1 2 3 4 5 by simp
qed

lemma length_prependHeader [simp]:
  "length (IntegrityBlockStore2_prependHeaderToData i me v d) = length d + 30"
  by (simp add: prependHeader_eq)

lemma read_prependHeader [simp]:
  "IntegrityBlockStore2_readFormatHeader (IntegrityBlockStore2_prependHeaderToData i me v d) =
     Inr IntegrityBlockStore2_FORMAT_VERSION_HEADER"
  "IntegrityBlockStore2_readBlockId (IntegrityBlockStore2_prependHeaderToData i me v d) = Inr i"
  "IntegrityBlockStore2_readClientId (IntegrityBlockStore2_prependHeaderToData i me v d) = Inr me"
  "IntegrityBlockStore2_readVersion (IntegrityBlockStore2_prependHeaderToData i me v d) = Inr v"
  "IntegrityBlockStore2_removeHeader (IntegrityBlockStore2_prependHeaderToData i me v d) = Inr d"
  "IntegrityBlockStore2_checkFormatHeader (IntegrityBlockStore2_prependHeaderToData i me v d) = Inr ()"
  by (simp_all add: IntegrityBlockStore2_readFormatHeader_def IntegrityBlockStore2_readBlockId_def
      IntegrityBlockStore2_readClientId_def IntegrityBlockStore2_readVersion_def
      IntegrityBlockStore2_removeHeader_def IntegrityBlockStore2_checkFormatHeader_def
      deserializeWithOffset_def prependHeader_eq integrity_offsets Data_copyAndRemovePrefix_def)

lemma drop_prependHeader [simp]: "drop 30 (IntegrityBlockStore2_prependHeaderToData i me v d) = d"
  by (simp add: prependHeader_eq)

lemma format_headers_differ [simp]:
  "IntegrityBlockStore2_FORMAT_VERSION_HEADER_OLD \<noteq> IntegrityBlockStore2_FORMAT_VERSION_HEADER"
  by (simp add: IntegrityBlockStore2_FORMAT_VERSION_HEADER_OLD_def
      IntegrityBlockStore2_FORMAT_VERSION_HEADER_def)

text \<open>Every block of the current format and sufficient length is the header of something.\<close>

lemma integrity_block_cases:
  assumes "HEADER_LENGTH \<le> length c"
    and "IntegrityBlockStore2_readFormatHeader c = Inr IntegrityBlockStore2_FORMAT_VERSION_HEADER"
  obtains j cid v where "c = IntegrityBlockStore2_prependHeaderToData j cid v (drop 30 c)"
proof -
  have len: "30 \<le> length c" using assms(1) by (simp add: integrity_offsets)
  obtain cid :: u32 where cid: "serialize cid = slice 18 4 c"
    using serialize_surj [of "slice 18 4 c", where 'a = 32] len by auto
  obtain v :: u64 where v: "serialize v = slice 22 8 c"
    using serialize_surj [of "slice 22 8 c", where 'a = 64] len by auto
  obtain f :: u16 where f: "serialize f = take 2 c"
    using serialize_surj [of "take 2 c", where 'a = 16] len by auto
  have "deserialize (take 2 c @ drop 2 c) = Inr f"
    using f deserialize_serialize_widths(2) [of f "drop 2 c"] by simp
  then have F: "f = IntegrityBlockStore2_FORMAT_VERSION_HEADER"
    using assms(2) by (simp add: IntegrityBlockStore2_readFormatHeader_def)
  have j: "BlockId_ToBinary (BlockId_of (slice 2 16 c)) = slice 2 16 c"
    using len by (simp add: ToBinary_BlockId_of)
  have "c = take 2 c @ slice 2 16 c @ slice 18 4 c @ slice 22 8 c @ drop 30 c"
    using slice_drop [of 2 16 c] slice_drop [of 18 4 c] slice_drop [of 22 8 c] by simp
  then have "c = IntegrityBlockStore2_prependHeaderToData (BlockId_of (slice 2 16 c)) cid v (drop 30 c)"
    unfolding prependHeader_eq F [symmetric] f cid v j .
  then show thesis by (rule that)
qed

section \<open>What a load accepts\<close>

lemma zoom_known_eq: "m (knownBlockVersions s) = (r, k) \<Longrightarrow>
    zoom_known m s = (r, s\<lparr>knownBlockVersions := k\<rparr>)"
  by (simp add: zoom_known_def)

lemma zoom_base_eq: "m (baseState s) = (r, b) \<Longrightarrow> zoom_base m s = (r, s\<lparr>baseState := b\<rparr>)"
  by (simp add: zoom_base_def)

lemma checkHeader_prependHeader:
  "IntegrityBlockStore2_checkHeader cfg i (IntegrityBlockStore2_prependHeaderToData j cid v d) s =
     (if i = j then IntegrityBlockStore2_checkVersionHeader cfg i
          (IntegrityBlockStore2_prependHeaderToData j cid v d) s
      else ebind (IntegrityBlockStore2_integrityViolationDetected cfg
             ''The block id is wrong. Did an attacker try to rename some blocks?'') (\<lambda>_. ret False) s)"
  by (auto simp: IntegrityBlockStore2_checkHeader_def IntegrityBlockStore2_checkIdHeader_def
      IntegrityBlockStore2_integrityViolationDetected_def ebind_def zoom_known_def
      KnownBlockVersions_setIntegrityViolationOnPreviousRun_def)

lemma checkVersionHeader_prependHeader:
  "IntegrityBlockStore2_checkVersionHeader cfg i (IntegrityBlockStore2_prependHeaderToData j cid v d) s =
     ebind (zoom_known (KnownBlockVersions_checkAndUpdateVersion cid i v)) (\<lambda>ok.
       if \<not> ok then ebind (IntegrityBlockStore2_integrityViolationDetected cfg
          ''The block version number is too low. Did an attacker try to roll back the block or to re-introduce a deleted block?'')
           (\<lambda>_. ret False)
       else ret True) s"
  by (simp add: IntegrityBlockStore2_checkVersionHeader_def)

lemma checkHeader_accept:
  assumes "kbv_inv (knownBlockVersions s)" "cid \<noteq> 0" "v > 0"
    and "acceptable (knownBlockVersions s) cid i v"
  obtains k where "IntegrityBlockStore2_checkHeader cfg i
      (IntegrityBlockStore2_prependHeaderToData i cid v d) s = (Inr True, s\<lparr>knownBlockVersions := k\<rparr>)"
    and "kbv_inv k" and "myClientId k = myClientId (knownBlockVersions s)"
    and "integrityViolationOnPreviousRun k = integrityViolationOnPreviousRun (knownBlockVersions s)"
    and "\<And>c' j. known_version k c' j =
           (if (c', j) = (cid, i) then v else known_version (knownBlockVersions s) c' j)"
    and "\<And>j. last_client k j = (if j = i then cid else last_client (knownBlockVersions s) j)"
    and "map_of (lastUpdateClientId k) = (map_of (lastUpdateClientId (knownBlockVersions s)))(i \<mapsto> cid)"
proof (rule checkAndUpdateVersion_accept [OF assms])
  fix k assume k: "KnownBlockVersions_checkAndUpdateVersion cid i v (knownBlockVersions s) = (Inr True, k)"
    and props: "kbv_inv k" "myClientId k = myClientId (knownBlockVersions s)"
      "integrityViolationOnPreviousRun k = integrityViolationOnPreviousRun (knownBlockVersions s)"
      "\<And>c' j. known_version k c' j =
         (if (c', j) = (cid, i) then v else known_version (knownBlockVersions s) c' j)"
      "\<And>j. last_client k j = (if j = i then cid else last_client (knownBlockVersions s) j)"
      "map_of (lastUpdateClientId k) = (map_of (lastUpdateClientId (knownBlockVersions s)))(i \<mapsto> cid)"
  have "IntegrityBlockStore2_checkHeader cfg i
      (IntegrityBlockStore2_prependHeaderToData i cid v d) s = (Inr True, s\<lparr>knownBlockVersions := k\<rparr>)"
    using zoom_known_eq [of "KnownBlockVersions_checkAndUpdateVersion cid i v" s, OF k]
    by (simp add: checkHeader_prependHeader checkVersionHeader_prependHeader ebind_def)
  then show thesis using props by (rule that)
qed

lemma checkHeader_reject:
  assumes "kbv_inv (knownBlockVersions s)" "cid \<noteq> 0" "v > 0" "\<not> allowIntegrityViolations cfg"
    and "i \<noteq> j \<or> \<not> acceptable (knownBlockVersions s) cid i v"
  obtains t reason where "IntegrityBlockStore2_checkHeader cfg i
      (IntegrityBlockStore2_prependHeaderToData j cid v d) s = (Inr False, t)"
    and "integrityViolationOnPreviousRun (knownBlockVersions t)" and "reported t = reason # reported s"
proof -
  let ?flag = "\<lambda>reason s :: 'a integrity_state. reported_update (\<lambda>rs. reason # rs)
    (s\<lparr>knownBlockVersions := (knownBlockVersions s)\<lparr>integrityViolationOnPreviousRun := True\<rparr>\<rparr>)"
  have viol: "IntegrityBlockStore2_integrityViolationDetected cfg reason s = (Inr (), ?flag reason s)"
    for reason and s :: "'a integrity_state"
    using assms(4) by (simp add: IntegrityBlockStore2_integrityViolationDetected_def ebind_def
        zoom_known_def KnownBlockVersions_setIntegrityViolationOnPreviousRun_def)
  have "\<exists>reason k. IntegrityBlockStore2_checkHeader cfg i
      (IntegrityBlockStore2_prependHeaderToData j cid v d) s =
        (Inr False, ?flag reason (s\<lparr>knownBlockVersions := k\<rparr>))"
  proof (cases "i = j")
    case False
    have "s = s\<lparr>knownBlockVersions := knownBlockVersions s\<rparr>" by simp
    then show ?thesis using False viol
      by (auto simp: checkHeader_prependHeader ebind_def)
  next
    case True
    then have "\<not> acceptable (knownBlockVersions s) cid i v" using assms(5) by simp
    from checkAndUpdateVersion_reject [OF assms(1-3) this] obtain k where
      "KnownBlockVersions_checkAndUpdateVersion cid i v (knownBlockVersions s) = (Inr False, k)" by blast
    from zoom_known_eq [of "KnownBlockVersions_checkAndUpdateVersion cid i v" s, OF this] True
    show ?thesis using viol
      by (auto simp: checkHeader_prependHeader checkVersionHeader_prependHeader ebind_def)
  qed
  then obtain reason k where "IntegrityBlockStore2_checkHeader cfg i
      (IntegrityBlockStore2_prependHeaderToData j cid v d) s =
        (Inr False, ?flag reason (s\<lparr>knownBlockVersions := k\<rparr>))" by blast
  then show thesis by (rule that) simp_all
qed

lemma load_prependHeader:
  assumes "load_of base i (baseState s) =
      (Inr (Some (IntegrityBlockStore2_prependHeaderToData j cid v d)), b)"
  shows "IntegrityBlockStore2_load cfg base i s =
    ebind (IntegrityBlockStore2_checkHeader cfg i (IntegrityBlockStore2_prependHeaderToData j cid v d))
      (\<lambda>ok. ret (if \<not> ok \<and> \<not> allowIntegrityViolations cfg then None else Some d))
      (s\<lparr>baseState := b\<rparr>)"
proof -
  note load = ebind_Inr [of "zoom_base (load_of base i)" s, OF zoom_base_eq [of "load_of base i" s, OF assms]]
  show ?thesis
    unfolding IntegrityBlockStore2_load_def load
    by (simp only: option.case read_prependHeader ebind_lift_result format_headers_differ if_False)
      (auto simp: ebind_def split: prod.splits sum.splits)
qed

section \<open>The contract is preserved\<close>

text \<open>
  The invariant of an undisturbed store: every block carries an acceptable header, the client has
  seen its own blocks, and blocks are missing only where the client knows so. In particular nothing
  was reported.
\<close>

definition integrity_inv :: "integrity_config \<Rightarrow> u32 \<Rightarrow> ('s \<Rightarrow> bool) \<Rightarrow> ('s \<Rightarrow> block_id \<rightharpoonup> data) \<Rightarrow>
    's integrity_state \<Rightarrow> bool" where
  "integrity_inv cfg me binv bblocks s \<longleftrightarrow>
     myClientId (knownBlockVersions s) = me \<and> kbv_inv (knownBlockVersions s) \<and> binv (baseState s) \<and> reported s = [] \<and>
     \<not> integrityViolationOnPreviousRun (knownBlockVersions s) \<and>
     (\<forall>i c. bblocks (baseState s) i = Some c \<longrightarrow>
        (\<exists>cid v. c = IntegrityBlockStore2_prependHeaderToData i cid v (drop 30 c) \<and> cid \<noteq> 0 \<and> v > 0 \<and>
           acceptable (knownBlockVersions s) cid i v \<and>
           (cid = myClientId (knownBlockVersions s) \<longrightarrow> known_version (knownBlockVersions s) cid i = v))) \<and>
     (\<forall>i. bblocks (baseState s) i = None \<longrightarrow>
        \<not> (missingBlockIsIntegrityViolation cfg \<and>
           KnownBlockVersions_blockShouldExist i (knownBlockVersions s)))"

definition integrity_blocks :: "('s \<Rightarrow> block_id \<rightharpoonup> data) \<Rightarrow> 's integrity_state \<Rightarrow> block_id \<rightharpoonup> data" where
  "integrity_blocks bblocks s i = map_option (drop 30) (bblocks (baseState s) i)"

definition integrity_fits :: "(data \<Rightarrow> bool) \<Rightarrow> data \<Rightarrow> bool" where
  "integrity_fits bfits d \<longleftrightarrow> (\<forall>c. length c = length d + 30 \<longrightarrow> bfits c)"

text \<open>The version numbers of the client leave room for \<open>n\<close> increments.\<close>

definition integrity_capacity :: "('s \<Rightarrow> nat \<Rightarrow> bool) \<Rightarrow> 's integrity_state \<Rightarrow> nat \<Rightarrow> bool" where
  "integrity_capacity bcapacity s n \<longleftrightarrow> bcapacity (baseState s) n \<and>
     (\<forall>i. unat (known_version (knownBlockVersions s) (myClientId (knownBlockVersions s)) i) + n < 2 ^ 64 - 1)"

lemma version_room:
  assumes "unat (v :: u64) + Suc n < 2 ^ 64 - 1"
  shows "v + 1 \<noteq> - 1" and "v \<noteq> - 1" and "unat (v + 1) + n < 2 ^ 64 - 1"
proof -
  have max: "unat (- 1 :: u64) = 2 ^ 64 - 1" by (simp add: unsigned_minus_1_eq_mask mask_eq_exp_minus_1)
  show ne: "v \<noteq> - 1" using assms max by auto
  then have "1 + v \<noteq> 0" by (metis add.commute add_eq_0_iff)
  then have u: "unat (v + 1) = unat v + 1" using unatSuc [of v] by (simp add: add.commute)
  show "v + 1 \<noteq> - 1"
  proof
    assume "v + 1 = - 1"
    with u max have "unat v + 1 = 2 ^ 64 - 1" by metis
    then show False using assms by simp
  qed
  show "unat (v + 1) + n < 2 ^ 64 - 1" using u assms by simp
qed

locale integrity_store = base: block_store2 base binv bblocks bfits bcapacity
  for base :: "'s block_store2" and binv bblocks bfits bcapacity +
  fixes cfg :: integrity_config and me :: u32
begin

abbreviation iinv where "iinv \<equiv> integrity_inv cfg me binv bblocks"
abbreviation iblocks where "iblocks \<equiv> integrity_blocks bblocks"
abbreviation ifits where "ifits \<equiv> integrity_fits bfits"
abbreviation icapacity where "icapacity \<equiv> integrity_capacity bcapacity"

lemma write_block:
  assumes inv: "iinv s" and fits: "ifits d" and cap: "icapacity s (Suc 0)"
    and op: "\<And>c. bfits c \<Longrightarrow> yields (m c) (baseState s) x (\<lambda>t. binv t \<and>
       bblocks t = (bblocks (baseState s))(i \<mapsto> c) \<and>
       (\<forall>n. bcapacity (baseState s) (Suc n) \<longrightarrow> bcapacity t n))"
  shows "yields (ebind (zoom_known (KnownBlockVersions_incrementVersion i)) (\<lambda>version.
       ebind (gets (\<lambda>s. myClientId (knownBlockVersions s))) (\<lambda>me.
         zoom_base (m (IntegrityBlockStore2_prependHeaderToData i me version d))))) s x
     (\<lambda>t. iinv t \<and> iblocks t = (iblocks s)(i \<mapsto> d) \<and>
        (\<forall>n. icapacity s (Suc n) \<longrightarrow> icapacity t n))"
proof -
  let ?k = "knownBlockVersions s"
  let ?me = "myClientId ?k"
  let ?v = "known_version ?k ?me i + 1"
  have k: "kbv_inv ?k" and me: "?me \<noteq> 0"
    using inv by (auto simp: integrity_inv_def kbv_inv_def CLIENT_ID_FOR_DELETED_BLOCK_def)
  have room: "unat (known_version ?k ?me i) + Suc 0 < 2 ^ 64 - 1"
    using cap by (simp add: integrity_capacity_def)
  then have "?v \<noteq> - 1" by (rule version_room)
  from incrementVersion_ok [OF k this] obtain k' where
    k': "KnownBlockVersions_incrementVersion i ?k = (Inr ?v, k')" "kbv_inv k'" "myClientId k' = ?me"
      "integrityViolationOnPreviousRun k' = integrityViolationOnPreviousRun ?k"
      "\<And>c' j. known_version k' c' j = (if (c', j) = (?me, i) then ?v else known_version ?k c' j)"
      "\<And>j. last_client k' j = (if j = i then ?me else last_client ?k j)"
      "map_of (lastUpdateClientId k') = (map_of (lastUpdateClientId ?k))(i \<mapsto> ?me)"
    by blast
  have "known_version ?k ?me i < ?v"
    by (rule word_Suc_neq_max_less [OF version_room(2) [OF room]])
  then have v0: "?v > 0" using word_zero_le order_le_less_trans by blast
  let ?c = "IntegrityBlockStore2_prependHeaderToData i ?me ?v d"
  have "bfits ?c" using fits by (simp add: integrity_fits_def)
  from op [OF this] obtain b where b: "m ?c (baseState s) = (Inr x, b)" "binv b"
      "bblocks b = (bblocks (baseState s))(i \<mapsto> ?c)"
      "\<forall>n. bcapacity (baseState s) (Suc n) \<longrightarrow> bcapacity b n"
    by (rule yieldsE) blast
  let ?t = "s\<lparr>knownBlockVersions := k', baseState := b\<rparr>"
  show ?thesis
  proof (rule yieldsI)
    show "ebind (zoom_known (KnownBlockVersions_incrementVersion i)) (\<lambda>version.
       ebind (gets (\<lambda>s. myClientId (knownBlockVersions s))) (\<lambda>me.
         zoom_base (m (IntegrityBlockStore2_prependHeaderToData i me version d)))) s = (Inr x, ?t)"
      using k'(1,3) b(1) by (simp add: ebind_def zoom_known_def zoom_base_def)
    have "iinv ?t"
      unfolding integrity_inv_def
      using inv k'(2-7) b(2,3) v0 me
      by (auto simp: integrity_inv_def acceptable_def KnownBlockVersions_blockShouldExist_def)
    moreover have "iblocks ?t = (iblocks s)(i \<mapsto> d)"
      using b(3) by (auto simp: integrity_blocks_def fun_eq_iff)
    moreover have "icapacity ?t n" if "icapacity s (Suc n)" for n
    proof -
      have "unat (known_version k' ?me j) + n < 2 ^ 64 - 1" for j
      proof -
        have r: "unat (known_version ?k ?me j) + Suc n < 2 ^ 64 - 1"
          using that by (simp add: integrity_capacity_def)
        show ?thesis
        proof (cases "j = i")
          case True
          then show ?thesis using version_room(3) [OF r] k'(5) by simp
        next
          case False
          then show ?thesis using r k'(5) by simp
        qed
      qed
      then show ?thesis using that b(4) k'(3) by (simp add: integrity_capacity_def)
    qed
    ultimately show "iinv ?t \<and> iblocks ?t = (iblocks s)(i \<mapsto> d) \<and>
        (\<forall>n. icapacity s (Suc n) \<longrightarrow> icapacity ?t n)" by blast
  qed
qed

end

sublocale integrity_store \<subseteq> integrity: block_store2
  "IntegrityBlockStore2 cfg base" iinv iblocks ifits icapacity
proof unfold_locales
  fix s :: "'s integrity_state" and i d
  assume inv: "iinv s"
  let ?k = "knownBlockVersions s" and ?b = "baseState s"
  have binv: "binv ?b" and kinv: "kbv_inv ?k" using inv by (simp_all add: integrity_inv_def)
  show "yields (load_of (IntegrityBlockStore2 cfg base) i) s (iblocks s i)
      (\<lambda>t. iinv t \<and> iblocks t = iblocks s \<and> (\<forall>n. icapacity s n \<longrightarrow> icapacity t n))"
  proof -
    from base.load [OF binv, of i] obtain b where b: "load_of base i ?b = (Inr (bblocks ?b i), b)"
        "binv b" "bblocks b = bblocks ?b" "\<forall>n. bcapacity ?b n \<longrightarrow> bcapacity b n"
      by (rule yieldsE) blast
    show ?thesis
    proof (cases "bblocks ?b i")
      case None
      then have "\<not> (missingBlockIsIntegrityViolation cfg \<and> KnownBlockVersions_blockShouldExist i ?k)"
        using inv by (simp add: integrity_inv_def)
      then have "IntegrityBlockStore2_load cfg base i s = (Inr (iblocks s i), s\<lparr>baseState := b\<rparr>)"
        using b(1) None
        by (auto simp: IntegrityBlockStore2_load_def ebind_def zoom_base_def integrity_blocks_def)
      then show ?thesis using inv b
        by (auto simp: yields_def integrity_inv_def integrity_blocks_def integrity_capacity_def fun_eq_iff)
    next
      case (Some c)
      then obtain cid v where c: "c = IntegrityBlockStore2_prependHeaderToData i cid v (drop 30 c)"
          "cid \<noteq> 0" "v > 0" "acceptable ?k cid i v" "cid = myClientId ?k \<longrightarrow> known_version ?k cid i = v"
        using inv unfolding integrity_inv_def by blast
      let ?s = "s\<lparr>baseState := b\<rparr>"
      have ks: "knownBlockVersions ?s = ?k" by simp
      have "kbv_inv (knownBlockVersions ?s)" "acceptable (knownBlockVersions ?s) cid i v"
        using kinv c(4) by simp_all
      from checkHeader_accept [OF this(1) c(2,3) this(2), of cfg "drop 30 c", unfolded ks] obtain k where
        k: "IntegrityBlockStore2_checkHeader cfg i
            (IntegrityBlockStore2_prependHeaderToData i cid v (drop 30 c)) ?s = (Inr True, ?s\<lparr>knownBlockVersions := k\<rparr>)"
          "kbv_inv k" "myClientId k = myClientId ?k"
          "integrityViolationOnPreviousRun k = integrityViolationOnPreviousRun ?k"
          "\<And>c' j. known_version k c' j = (if (c', j) = (cid, i) then v else known_version ?k c' j)"
          "\<And>j. last_client k j = (if j = i then cid else last_client ?k j)"
          "map_of (lastUpdateClientId k) = (map_of (lastUpdateClientId ?k))(i \<mapsto> cid)"
        by blast
      have "load_of base i ?b = (Inr (Some (IntegrityBlockStore2_prependHeaderToData i cid v (drop 30 c))), b)"
        using b(1) Some c(1) by simp
      from load_prependHeader [OF this, of cfg] k(1)
      have "IntegrityBlockStore2_load cfg base i s = (Inr (iblocks s i), ?s\<lparr>knownBlockVersions := k\<rparr>)"
        using Some by (simp add: ebind_def integrity_blocks_def)
      moreover have "iinv (?s\<lparr>knownBlockVersions := k\<rparr>)"
        unfolding integrity_inv_def using inv k(2-7) b(2,3) c(1-3) Some
        by (auto simp: integrity_inv_def acceptable_def KnownBlockVersions_blockShouldExist_def)
      moreover have "\<forall>n. icapacity s n \<longrightarrow> icapacity (?s\<lparr>knownBlockVersions := k\<rparr>) n"
        using k(3,5) b(4) c(5) by (auto simp: integrity_capacity_def)
      moreover have "iblocks (?s\<lparr>knownBlockVersions := k\<rparr>) = iblocks s"
        using b(3) by (simp add: integrity_blocks_def fun_eq_iff)
      ultimately show ?thesis by (simp add: yields_def)
    qed
  qed
  show "yields (store_of (IntegrityBlockStore2 cfg base) i d) s ()
      (\<lambda>t. iinv t \<and> iblocks t = (iblocks s)(i \<mapsto> d) \<and> (\<forall>n. icapacity s (Suc n) \<longrightarrow> icapacity t n))"
    if "ifits d" "icapacity s (Suc 0)"
    using write_block [OF inv that base.store [OF binv]] that(2)
    by (simp add: IntegrityBlockStore2_store_def integrity_capacity_def)
  show "yields (tryCreate_of (IntegrityBlockStore2 cfg base) i d) s True
      (\<lambda>t. iinv t \<and> iblocks t = (iblocks s)(i \<mapsto> d) \<and> (\<forall>n. icapacity s (Suc n) \<longrightarrow> icapacity t n))"
    if "ifits d" "icapacity s (Suc 0)" "iblocks s i = None"
  proof -
    have "bblocks ?b i = None" using that(3) by (simp add: integrity_blocks_def)
    from write_block [OF inv that(1,2) base.tryCreate_fresh [OF binv _ _ this]] that(2)
    show ?thesis by (simp add: IntegrityBlockStore2_tryCreate_def integrity_capacity_def)
  qed
  show "yields (remove_of (IntegrityBlockStore2 cfg base) i) s (iblocks s i \<noteq> None)
      (\<lambda>t. iinv t \<and> iblocks t = (iblocks s)(i := None) \<and> (\<forall>n. icapacity s n \<longrightarrow> icapacity t n))"
  proof -
    from base.remove [OF binv, of i] obtain b where b: "remove_of base i ?b = (Inr (bblocks ?b i \<noteq> None), b)"
        "binv b" "bblocks b = (bblocks ?b)(i := None)" "\<forall>n. bcapacity ?b n \<longrightarrow> bcapacity b n"
      by (rule yieldsE) blast
    let ?k' = "?k\<lparr>lastUpdateClientId := um_put i CLIENT_ID_FOR_DELETED_BLOCK (lastUpdateClientId ?k)\<rparr>"
    let ?t = "s\<lparr>knownBlockVersions := ?k', baseState := b\<rparr>"
    have "IntegrityBlockStore2_remove base i s = (Inr (bblocks ?b i \<noteq> None), ?t)"
      using b(1) by (simp add: IntegrityBlockStore2_remove_def ebind_def zoom_known_def zoom_base_def
          KnownBlockVersions_markBlockAsDeleted_def)
    moreover have "iinv ?t"
      unfolding integrity_inv_def using inv b(2,3)
      by (auto simp: integrity_inv_def kbv_inv_def acceptable_def known_version_def last_client_def
          KnownBlockVersions_blockShouldExist_def)
    moreover have "iblocks ?t = (iblocks s)(i := None)"
      using b(3) by (auto simp: integrity_blocks_def fun_eq_iff)
    moreover have "\<forall>n. icapacity s n \<longrightarrow> icapacity ?t n"
      using b(4) by (simp add: integrity_capacity_def known_version_def)
    moreover have "(iblocks s i \<noteq> None) = (bblocks ?b i \<noteq> None)"
      by (simp add: integrity_blocks_def)
    ultimately show ?thesis by (simp only: yields_def IntegrityBlockStore2_sel) blast
  qed
  show "yields (numBlocks_of (IntegrityBlockStore2 cfg base)) s (card (dom (iblocks s)))
      (\<lambda>t. iinv t \<and> iblocks t = iblocks s \<and> (\<forall>n. icapacity s n \<longrightarrow> icapacity t n))"
  proof -
    have dom: "dom (iblocks s) = dom (bblocks ?b)" by (auto simp: integrity_blocks_def dom_def)
    from base.numBlocks [OF binv] obtain b where "numBlocks_of base ?b = (Inr (card (dom (bblocks ?b))), b)"
        "binv b" "bblocks b = bblocks ?b" "\<forall>n. bcapacity ?b n \<longrightarrow> bcapacity b n"
      by (rule yieldsE) blast
    then show ?thesis using inv unfolding dom
      by (auto simp: yields_def zoom_base_def integrity_inv_def integrity_blocks_def
          integrity_capacity_def fun_eq_iff)
  qed
  show "finite (dom (iblocks s))"
    using base.finite_blocks [OF binv] by (simp add: integrity_blocks_def dom_def)
next
  fix s :: "'s integrity_state" and m n :: nat assume "icapacity s n" "m \<le> n"
  then show "icapacity s m"
    using base.capacity_mono unfolding integrity_capacity_def
    by (meson add_le_cancel_left order_le_less_trans)
qed

interpretation integrity_inmemory: integrity_store
  "InMemoryBlockStore2 m" inmemory_inv map_of "\<lambda>d. True" "\<lambda>s n. True" cfg me for m cfg me
  by unfold_locales

context integrity_store
begin

lemma store_contract: "block_store2 (IntegrityBlockStore2 cfg base) iinv iblocks ifits icapacity"
  by (rule integrity.block_store2_axioms)

end

section \<open>Properties\<close>



definition strict_config :: integrity_config where
  "strict_config = \<lparr>allowIntegrityViolations = False, missingBlockIsIntegrityViolation = True\<rparr>"

text \<open>
  C5. Tampering is noticed: when the base store returns a well-formed block that was stored under another
  identifier, or whose version is not acceptable (older than one already seen, or a current one of a
  client that was overtaken or of a block that was deleted), the load returns no data, calls the
  handler once, and sets the flag that is saved in the state file.
\<close>

theorem tampering_detected:
  assumes "kbv_inv (knownBlockVersions s)" and "\<not> allowIntegrityViolations cfg"
    and "load_of base i (baseState s) = (Inr (Some c), b)" and "HEADER_LENGTH \<le> length c"
    and "IntegrityBlockStore2_readFormatHeader c = Inr IntegrityBlockStore2_FORMAT_VERSION_HEADER"
    and "IntegrityBlockStore2_readBlockId c = Inr j" and "IntegrityBlockStore2_readClientId c = Inr cid"
    and "IntegrityBlockStore2_readVersion c = Inr v" and "cid \<noteq> CLIENT_ID_FOR_DELETED_BLOCK" and "0 < v"
    and "j \<noteq> i \<or> \<not> acceptable (knownBlockVersions s) cid i v"
  shows "\<exists>t reason. IntegrityBlockStore2_load cfg base i s = (Inr None, t) \<and>
    integrityViolationOnPreviousRun (knownBlockVersions t) \<and> reported t = reason # reported s"
proof -
  obtain j' cid' v' where c: "c = IntegrityBlockStore2_prependHeaderToData j' cid' v' (drop 30 c)"
    by (rule integrity_block_cases [OF assms(4,5)])
  have "j' = j" "cid' = cid" "v' = v"
    using assms(6-8) read_prependHeader(2-4) [of j' cid' v' "drop 30 c"] unfolding c [symmetric] by auto
  with c have c: "c = IntegrityBlockStore2_prependHeaderToData j cid v (drop 30 c)" by simp
  let ?s = "s\<lparr>baseState := b\<rparr>"
  have prem: "kbv_inv (knownBlockVersions ?s)" "cid \<noteq> 0" "i \<noteq> j \<or> \<not> acceptable (knownBlockVersions ?s) cid i v"
    using assms(1,9,11) by (auto simp: CLIENT_ID_FOR_DELETED_BLOCK_def)
  obtain t reason where t: "IntegrityBlockStore2_checkHeader cfg i c ?s = (Inr False, t)"
      "integrityViolationOnPreviousRun (knownBlockVersions t)" "reported t = reason # reported ?s"
    using checkHeader_reject [OF prem(1,2) assms(10,2) prem(3), of "drop 30 c"] unfolding c [symmetric] by metis
  have "IntegrityBlockStore2_load cfg base i s = (Inr None, t)"
    using load_prependHeader [of base i s j cid v "drop 30 c" b cfg] assms(2,3) t(1)
    unfolding c [symmetric] by (simp add: ebind_def)
  with t show ?thesis by auto
qed

definition tampered_state :: "inmemory integrity_state" where
  "tampered_state = \<lparr>knownBlockVersions = example_kbv, reported = [],
     baseState = [(bid 1, IntegrityBlockStore2_prependHeaderToData (bid 1) 7 4 [1, 2])]\<rparr>"

theorem tampering_detected_witness:
  "\<exists>t reason. IntegrityBlockStore2_load strict_config (InMemoryBlockStore2 0) (bid 1) tampered_state = (Inr None, t) \<and>
    integrityViolationOnPreviousRun (knownBlockVersions t) \<and> reported t = [reason]"
proof -
  let ?c = "IntegrityBlockStore2_prependHeaderToData (bid 1) 7 4 [1, 2]"
  have "load_of (InMemoryBlockStore2 0) (bid 1) (baseState tampered_state) = (Inr (Some ?c), baseState tampered_state)"
    by (simp add: store_simps tampered_state_def)
  moreover have "kbv_inv (knownBlockVersions tampered_state)"
    using example_kbv_inv by (simp add: tampered_state_def)
  moreover have "\<not> acceptable (knownBlockVersions tampered_state) 7 (bid 1) 4"
    by (simp add: acceptable_def tampered_state_def known_version_def um_get_def example_kbv_def)
  ultimately show ?thesis
    using tampering_detected [of tampered_state strict_config "InMemoryBlockStore2 0" "bid 1" ?c "baseState tampered_state" "bid 1" 7 4]
    by (simp add: strict_config_def integrity_offsets CLIENT_ID_FOR_DELETED_BLOCK_def tampered_state_def)
qed



text \<open>
  C34. A violation is remembered over a restart: once the flag is set, the state file saved at shutdown
  makes the constructor of the next run refuse to open the store.
\<close>

theorem violation_prevents_remount:
  assumes "kbv_inv k" and "length (state_file_bytes k) < 2 ^ 63" and "integrityViolationOnPreviousRun k"
  shows "\<exists>f. KnownBlockVersions_destroy k old = Inr (Some f) \<and>
    IntegrityBlockStore2_new b (Some f) (myClientId k) = Inl IntegrityViolationOnPreviousRun"
  using loadStateFile_bytes [OF _ _ assms(2)] assms(1,3)
  by (simp add: KnownBlockVersions_destroy_def saveStateFile_bytes kbv_inv_def IntegrityBlockStore2_new_def
      KnownBlockVersions_new_def)

theorem violation_prevents_remount_witness:
  "\<exists>f. KnownBlockVersions_destroy (example_kbv\<lparr>integrityViolationOnPreviousRun := True\<rparr>) None = Inr (Some f) \<and>
    IntegrityBlockStore2_new () (Some f) 7 = Inl IntegrityViolationOnPreviousRun"
  using violation_prevents_remount [of "example_kbv\<lparr>integrityViolationOnPreviousRun := True\<rparr>" None "()"] example_kbv_inv(1)
  by (simp add: example_kbv_def kbv_inv_def state_file_bytes_def known_entry_bytes_def last_entry_bytes_def KnownBlockVersions_HEADER_def)

definition recreate_state :: "inmemory integrity_state" where
  "recreate_state = \<lparr>knownBlockVersions = \<lparr>integrityViolationOnPreviousRun = False, knownVersions = [],
     lastUpdateClientId = [], myClientId = 7, valid = True\<rparr>, reported = [], baseState = []\<rparr>"

text \<open>
  \<open>tryCreate\<close> advances the version before it asks the base store: after a second \<open>tryCreate\<close> with an
  identifier in use, which answers \<open>False\<close> and changes no block, the intact first block is reported as
  an integrity violation and cannot be loaded any more.
\<close>

theorem tryCreate_existing_breaks_block:
  "fst (ebind (IntegrityBlockStore2_tryCreate (InMemoryBlockStore2 0) (bid 1) [1]) (\<lambda>a.
        ebind (IntegrityBlockStore2_load strict_config (InMemoryBlockStore2 0) (bid 1)) (\<lambda>b.
        ebind (IntegrityBlockStore2_tryCreate (InMemoryBlockStore2 0) (bid 1) [2]) (\<lambda>c.
        ebind (IntegrityBlockStore2_load strict_config (InMemoryBlockStore2 0) (bid 1)) (\<lambda>d.
        ebind (gets (\<lambda>s. length (reported s))) (\<lambda>n.
        ret (a, b, c, d, n)))))) recreate_state) = Inr (True, Some [1], False, None, 1)"
  by (simp add: recreate_state_def strict_config_def IntegrityBlockStore2_tryCreate_def store_simps ebind_def zoom_known_def
      zoom_base_def KnownBlockVersions_incrementVersion_def Let_def um_get_def um_insert_def um_put_def
      load_prependHeader checkHeader_prependHeader checkVersionHeader_prependHeader
      KnownBlockVersions_checkAndUpdateVersion_def CLIENT_ID_FOR_DELETED_BLOCK_def
      IntegrityBlockStore2_integrityViolationDetected_def KnownBlockVersions_setIntegrityViolationOnPreviousRun_def)

end
