(* ===== verification/QueueMaps.thy ===== *)
theory QueueMaps
  imports Prelude
begin

text \<open>
  \<open>src/src/blockstore/implementations/caching/cache/QueueMap.h\<close>: a queue and a map at the same time,
  a doubly linked list through the entries of an \<open>unordered_map\<close>, closed by a sentinel. The model
  keeps the pointers. An entry of the map never moves, so its address is its key; following a
  pointer to an entry that was erased is a \<open>MemoryFault\<close>. The refinement lemmas show that the
  pointer structure implements a list of pairs with distinct keys and that no such fault happens.
\<close>

section \<open>Data\<close>

datatype 'k entry_ptr = Sentinel | EntryOf 'k

record ('k, 'v) queue_entry =
  prev_of :: "'k entry_ptr"
  next_of :: "'k entry_ptr"
  key_of :: "'k option"
  value_of :: "'v option"

record ('k, 'v) queue_map =
  entries :: "('k \<times> ('k, 'v) queue_entry) list"
  sentinel :: "('k, 'v) queue_entry"

definition QueueMap_new :: "('k, 'v) queue_map" where
  "QueueMap_new = \<lparr>entries = [],
     sentinel = \<lparr>prev_of = Sentinel, next_of = Sentinel, key_of = None, value_of = None\<rparr>\<rparr>"

text \<open>Dereferencing and assigning through a pointer to an entry.\<close>

definition entry_at :: "('k, 'v) queue_map \<Rightarrow> 'k entry_ptr \<Rightarrow> ('k, 'v) queue_entry option" where
  "entry_at m p = (case p of Sentinel \<Rightarrow> Some (sentinel m) | EntryOf k \<Rightarrow> map_of (entries m) k)"

definition update_entry :: "'k entry_ptr \<Rightarrow> (('k, 'v) queue_entry \<Rightarrow> ('k, 'v) queue_entry) \<Rightarrow>
    (('k, 'v) queue_map, unit) exec" where
  "update_entry p f m =
     (case p of
        Sentinel \<Rightarrow> (Inr (), m\<lparr>sentinel := f (sentinel m)\<rparr>)
      | EntryOf k \<Rightarrow>
          (case map_of (entries m) k of
             None \<Rightarrow> (Inl MemoryFault, m)
           | Some e \<Rightarrow> (Inr (), m\<lparr>entries := um_put k (f e) (entries m)\<rparr>)))"

section \<open>Operations\<close>

definition QueueMap_push :: "'k \<Rightarrow> 'v \<Rightarrow> (('k, 'v) queue_map, unit) exec" where
  "QueueMap_push key v m =
     (if map_of (entries m) key \<noteq> None
      then (Inl (LogicError ''There is already an element with this key''), m)
      else
        ebind (modify (\<lambda>m. m\<lparr>entries := um_insert (key,
                 \<lparr>prev_of = prev_of (sentinel m), next_of = Sentinel, key_of = Some key, value_of = Some v\<rparr>) (entries m)\<rparr>)) (\<lambda>_.
        ebind (update_entry (prev_of (sentinel m)) (next_of_update (\<lambda>_. EntryOf key))) (\<lambda>_.
        update_entry Sentinel (prev_of_update (\<lambda>_. EntryOf key)))) m)"

definition QueueMap_removeFromQueue ::
  "('k, 'v) queue_entry \<Rightarrow> (('k, 'v) queue_map, unit) exec" where
  "QueueMap_removeFromQueue e =
     ebind (update_entry (prev_of e) (next_of_update (\<lambda>_. next_of e))) (\<lambda>_.
     update_entry (next_of e) (prev_of_update (\<lambda>_. prev_of e)))"

definition QueueMap_pop_key :: "'k \<Rightarrow> (('k, 'v) queue_map, 'v option) exec" where
  "QueueMap_pop_key key m =
     (case map_of (entries m) key of
        None \<Rightarrow> (Inr None, m)
      | Some found \<Rightarrow>
          ebind (QueueMap_removeFromQueue found) (\<lambda>_.
          ebind (modify (\<lambda>m. m\<lparr>entries := AList.delete key (entries m)\<rparr>)) (\<lambda>_.
          ret (value_of found))) m)"

definition QueueMap_pop :: "(('k, 'v) queue_map, 'v option) exec" where
  "QueueMap_pop m =
     (if next_of (sentinel m) = Sentinel then (Inr None, m)
      else (case entry_at m (next_of (sentinel m)) of
              None \<Rightarrow> (Inl MemoryFault, m)
            | Some e \<Rightarrow> (case key_of e of None \<Rightarrow> (Inl MemoryFault, m) | Some k \<Rightarrow> QueueMap_pop_key k m)))"

definition QueueMap_peekKey :: "('k, 'v) queue_map \<Rightarrow> 'k option result" where
  "QueueMap_peekKey m =
     (if next_of (sentinel m) = Sentinel then Inr None
      else (case entry_at m (next_of (sentinel m)) of
              None \<Rightarrow> Inl MemoryFault
            | Some e \<Rightarrow> (case key_of e of None \<Rightarrow> Inl MemoryFault | Some k \<Rightarrow> Inr (Some k))))"

definition QueueMap_peek :: "('k, 'v) queue_map \<Rightarrow> 'v option result" where
  "QueueMap_peek m =
     (if next_of (sentinel m) = Sentinel then Inr None
      else (case entry_at m (next_of (sentinel m)) of
              None \<Rightarrow> Inl MemoryFault
            | Some e \<Rightarrow> (case value_of e of None \<Rightarrow> Inl MemoryFault | Some v \<Rightarrow> Inr (Some v))))"

definition QueueMap_size :: "('k, 'v) queue_map \<Rightarrow> nat" where
  "QueueMap_size m = length (entries m)"

section \<open>Linked segments\<close>

text \<open>
  \<open>seg nx pv p ks q\<close>: starting at \<open>p\<close>, the pointers lead through the entries \<open>ks\<close> to \<open>q\<close> and back.
\<close>

fun seg :: "('k entry_ptr \<Rightarrow> 'k entry_ptr option) \<Rightarrow> ('k entry_ptr \<Rightarrow> 'k entry_ptr option) \<Rightarrow>
    'k entry_ptr \<Rightarrow> 'k list \<Rightarrow> 'k entry_ptr \<Rightarrow> bool" where
  "seg nx pv p [] q \<longleftrightarrow> nx p = Some q \<and> pv q = Some p"
| "seg nx pv p (k # ks) q \<longleftrightarrow> nx p = Some (EntryOf k) \<and> pv (EntryOf k) = Some p \<and> seg nx pv (EntryOf k) ks q"

lemma seg_append: "seg nx pv p (ks @ k # ls) q \<longleftrightarrow>
    seg nx pv p ks (EntryOf k) \<and> seg nx pv (EntryOf k) ls q"
  by (induction ks arbitrary: p) auto

lemma seg_frame:
  assumes "seg nx pv p ks q" and "\<And>x. x = p \<or> x \<in> EntryOf ` set ks \<Longrightarrow> nx' x = nx x"
    and "\<And>x. x = q \<or> x \<in> EntryOf ` set ks \<Longrightarrow> pv' x = pv x"
  shows "seg nx' pv' p ks q"
  using assms by (induction ks arbitrary: p) auto

lemma seg_last: "seg nx pv p ks q \<Longrightarrow> pv q = Some (last (p # map EntryOf ks))"
  by (induction ks arbitrary: p) auto

lemma seg_first: "seg nx pv p ks q \<Longrightarrow> nx p = Some (hd (map EntryOf ks @ [q]))"
  by (cases ks) auto

lemma seg_last_next: "seg nx pv p ks q \<Longrightarrow> nx (last (p # map EntryOf ks)) = Some q"
  by (induction ks arbitrary: p) auto

text \<open>Appending an entry at the end, and unlinking one.\<close>

lemma last_EntryOf_in: "l = last (p # map EntryOf ks) \<Longrightarrow> ks \<noteq> [] \<Longrightarrow> l \<in> EntryOf ` set ks"
  by (simp add: last_map)

lemma seg_snoc:
  assumes "seg nx pv p ks q" and "k \<notin> set ks" and "EntryOf k \<noteq> p" and "p \<notin> EntryOf ` set ks"
    and "distinct ks" and "q \<notin> EntryOf ` set ks" and "q \<noteq> EntryOf k"
    and l: "l = last (p # map EntryOf ks)"
    and nx': "nx' (EntryOf k) = Some q" "nx' l = Some (EntryOf k)"
      "\<And>y. y \<noteq> l \<Longrightarrow> y \<noteq> EntryOf k \<Longrightarrow> nx' y = nx y"
    and pv': "pv' (EntryOf k) = Some l" "pv' q = Some (EntryOf k)"
      "\<And>y. y \<noteq> q \<Longrightarrow> y \<noteq> EntryOf k \<Longrightarrow> pv' y = pv y"
  shows "seg nx' pv' p (ks @ [k]) q"
  using assms(1-8)
proof (induction ks arbitrary: p)
  case Nil
  then show ?case using nx' pv' by simp
next
  case (Cons a ks)
  have l': "l = last (EntryOf a # map EntryOf ks)" using Cons.prems by simp
  then have "p \<noteq> l" using Cons.prems last_EntryOf_in [OF l'] by (cases "ks = []") auto
  then have "nx' p = Some (EntryOf a)" using nx'(3) Cons.prems by simp
  moreover have "pv' (EntryOf a) = Some p" using pv'(3) Cons.prems by fastforce
  moreover have "seg nx' pv' (EntryOf a) (ks @ [k]) q"
    by (rule Cons.IH) (use Cons.prems l' in auto)
  ultimately show ?case by simp
qed

lemma seg_unlink:
  assumes "seg nx pv p as x" and bs: "seg nx pv x bs q"
    and "distinct (as @ bs)" and "p \<notin> EntryOf ` set (as @ bs)" and "q \<notin> EntryOf ` set (as @ bs)"
    and "x \<notin> EntryOf ` set (as @ bs)" "x \<noteq> p" "x \<noteq> q"
    and l: "l = last (p # map EntryOf as)" and f: "f = hd (map EntryOf bs @ [q])"
    and nx': "nx' l = Some f" "\<And>y. y \<noteq> x \<Longrightarrow> y \<noteq> l \<Longrightarrow> nx' y = nx y"
    and pv': "pv' f = Some l" "\<And>y. y \<noteq> x \<Longrightarrow> y \<noteq> f \<Longrightarrow> pv' y = pv y"
  shows "seg nx' pv' p (as @ bs) q"
  using assms(1,3-9)
proof (induction as arbitrary: p)
  case Nil
  show ?case
  proof (cases bs)
    case Nil
    then show ?thesis using f \<open>l = last (p # map EntryOf [])\<close> nx' pv' by simp
  next
    case (Cons b bs')
    have fb: "f = EntryOf b" and lp: "l = p" using f Cons \<open>l = last (p # map EntryOf [])\<close> by simp_all
    have "seg nx pv (EntryOf b) bs' q" using bs Cons by simp
    then have "seg nx' pv' (EntryOf b) bs' q"
    proof (rule seg_frame)
      show "nx' y = nx y" if "y = EntryOf b \<or> y \<in> EntryOf ` set bs'" for y
        using that Nil.prems Cons lp by (intro nx'(2)) auto
      show "pv' y = pv y" if "y = q \<or> y \<in> EntryOf ` set bs'" for y
        using that Nil.prems Cons fb by (intro pv'(2)) auto
    qed
    then show ?thesis using Cons fb lp nx'(1) pv'(1) by simp
  qed
next
  case (Cons a as)
  have l': "l = last (EntryOf a # map EntryOf as)" using Cons.prems by simp
  then have "p \<noteq> l" using Cons.prems last_EntryOf_in [OF l'] by (cases "as = []") auto
  then have "nx' p = Some (EntryOf a)" using nx'(2) [of p] Cons.prems by simp
  moreover have "f \<noteq> EntryOf a" using f Cons.prems by (cases bs) auto
  then have "pv' (EntryOf a) = Some p" using pv'(2) [of "EntryOf a"] Cons.prems by auto
  moreover have "seg nx' pv' (EntryOf a) (as @ bs) q"
    by (rule Cons.IH) (use Cons.prems l' in auto)
  ultimately show ?case by simp
qed

section \<open>Refinement to a list\<close>

definition next_ptr :: "('k, 'v) queue_map \<Rightarrow> 'k entry_ptr \<Rightarrow> 'k entry_ptr option" where
  "next_ptr m p = map_option next_of (entry_at m p)"

definition prev_ptr :: "('k, 'v) queue_map \<Rightarrow> 'k entry_ptr \<Rightarrow> 'k entry_ptr option" where
  "prev_ptr m p = map_option prev_of (entry_at m p)"

text \<open>\<open>queue_rep m xs\<close>: the structure holds the pairs \<open>xs\<close>, the oldest first.\<close>

definition queue_rep :: "('k, 'v) queue_map \<Rightarrow> ('k \<times> 'v) list \<Rightarrow> bool" where
  "queue_rep m xs \<longleftrightarrow> distinct (map fst xs) \<and> um_wf (entries m) \<and>
     (\<forall>k. map_option (\<lambda>e. (key_of e, value_of e)) (map_of (entries m) k) =
          map_option (\<lambda>v. (Some k, Some v)) (map_of xs k)) \<and>
     seg (next_ptr m) (prev_ptr m) Sentinel (map fst xs) Sentinel"

lemma queue_rep_new: "queue_rep QueueMap_new []"
  by (simp add: queue_rep_def QueueMap_new_def next_ptr_def prev_ptr_def entry_at_def)

lemma queue_rep_lookup:
  "queue_rep m xs \<Longrightarrow> map_of (entries m) k = None \<longleftrightarrow> map_of xs k = None"
proof -
  assume "queue_rep m xs"
  then have "map_option (\<lambda>e. (key_of e, value_of e)) (map_of (entries m) k) =
      map_option (\<lambda>v. (Some k, Some v)) (map_of xs k)"
    unfolding queue_rep_def by blast
  then show ?thesis by (cases "map_of (entries m) k"; cases "map_of xs k") auto
qed

lemma queue_rep_entry:
  assumes "queue_rep m xs" and "map_of xs k = Some v"
  obtains e where "map_of (entries m) k = Some e" and "key_of e = Some k" and "value_of e = Some v"
proof -
  have "map_option (\<lambda>e. (key_of e, value_of e)) (map_of (entries m) k) = Some (Some k, Some v)"
    using assms by (simp add: queue_rep_def)
  then show thesis using that by auto
qed

lemma update_entry_ok:
  assumes "entry_at m p = Some e"
  obtains m' where "update_entry p f m = (Inr (), m')"
    and "\<And>q. entry_at m' q = (if q = p then Some (f e) else entry_at m q)"
    and "um_wf (entries m) \<Longrightarrow> um_wf (entries m')"
proof (cases p)
  case Sentinel
  let ?m = "m\<lparr>sentinel := f (sentinel m)\<rparr>"
  show thesis
  proof (rule that)
    show "update_entry p f m = (Inr (), ?m)" by (simp add: update_entry_def Sentinel)
    show "entry_at ?m q = (if q = p then Some (f e) else entry_at m q)" for q
      using assms by (auto simp: entry_at_def Sentinel split: entry_ptr.splits)
  qed simp
next
  case (EntryOf k)
  let ?m = "m\<lparr>entries := um_put k (f e) (entries m)\<rparr>"
  show thesis
  proof (rule that)
    show "update_entry p f m = (Inr (), ?m)" using assms by (simp add: update_entry_def EntryOf entry_at_def)
    show "entry_at ?m q = (if q = p then Some (f e) else entry_at m q)" for q
      by (auto simp: entry_at_def EntryOf split: entry_ptr.splits)
  qed simp
qed

lemma entry_at_EntryOf [simp]: "entry_at m (EntryOf k) = map_of (entries m) k"
  and entry_at_Sentinel [simp]: "entry_at m Sentinel = Some (sentinel m)"
  by (simp_all add: entry_at_def)

lemma queue_rep_ends:
  assumes "queue_rep m xs"
  shows "prev_of (sentinel m) = last (Sentinel # map EntryOf (map fst xs))"
    and "next_of (sentinel m) = hd (map EntryOf (map fst xs) @ [Sentinel])"
    and "\<exists>e. entry_at m (last (Sentinel # map EntryOf (map fst xs))) = Some e"
proof -
  have seg: "seg (next_ptr m) (prev_ptr m) Sentinel (map fst xs) Sentinel"
    using assms by (simp add: queue_rep_def)
  show "prev_of (sentinel m) = last (Sentinel # map EntryOf (map fst xs))"
    using seg_last [OF seg] by (simp add: prev_ptr_def)
  show "next_of (sentinel m) = hd (map EntryOf (map fst xs) @ [Sentinel])"
    using seg_first [OF seg] by (simp add: next_ptr_def)
  show "\<exists>e. entry_at m (last (Sentinel # map EntryOf (map fst xs))) = Some e"
    using seg_last_next [OF seg] unfolding next_ptr_def by (auto simp del: last.simps)
qed

lemma QueueMap_push_fresh:
  assumes rep: "queue_rep m xs" and fresh: "map_of xs k = None"
  shows "yields (QueueMap_push k v) m () (\<lambda>m'. queue_rep m' (xs @ [(k, v)]))"
proof -
  let ?ks = "map fst xs"
  let ?l = "prev_of (sentinel m)"
  let ?new = "\<lparr>prev_of = ?l, next_of = Sentinel, key_of = Some k, value_of = Some v\<rparr>"
  let ?m1 = "m\<lparr>entries := um_insert (k, ?new) (entries m)\<rparr>"
  have none: "map_of (entries m) k = None" using queue_rep_lookup [OF rep] fresh by simp
  have l: "?l = last (Sentinel # map EntryOf ?ks)" by (rule queue_rep_ends [OF rep])
  have kxs: "k \<notin> set ?ks" using fresh by (simp add: map_of_eq_None_iff)
  have lk: "?l \<noteq> EntryOf k"
  proof (cases "?ks = []")
    case False
    from last_EntryOf_in [OF l this] kxs show ?thesis by (metis imageE entry_ptr.inject)
  qed (simp add: l)
  have at1: "entry_at ?m1 q = (if q = EntryOf k then Some ?new else entry_at m q)" for q
    using none by (cases q) (auto simp: map_of_um_insert)
  obtain e where e: "entry_at m ?l = Some e" using queue_rep_ends(3) [OF rep] unfolding l by blast
  then have "entry_at ?m1 ?l = Some e" using at1 lk by simp
  from update_entry_ok [OF this, of "next_of_update (\<lambda>_. EntryOf k)"] obtain m2 where
    m2: "update_entry ?l (next_of_update (\<lambda>_. EntryOf k)) ?m1 = (Inr (), m2)"
      "\<And>q. entry_at m2 q = (if q = ?l then Some (e\<lparr>next_of := EntryOf k\<rparr>) else entry_at ?m1 q)"
      "um_wf (entries ?m1) \<Longrightarrow> um_wf (entries m2)" by blast
  have "entry_at m2 Sentinel = Some (sentinel m2)" by simp
  from update_entry_ok [OF this, of "prev_of_update (\<lambda>_. EntryOf k)"] obtain m3 where
    m3: "update_entry Sentinel (prev_of_update (\<lambda>_. EntryOf k)) m2 = (Inr (), m3)"
      "\<And>q. entry_at m3 q = (if q = Sentinel then Some (sentinel m2\<lparr>prev_of := EntryOf k\<rparr>) else entry_at m2 q)"
      "um_wf (entries m2) \<Longrightarrow> um_wf (entries m3)" by blast
  have run: "QueueMap_push k v m = (Inr (), m3)"
    using none m2(1) m3(1) by (simp add: QueueMap_push_def ebind_def)
  have wf: "um_wf (entries m3)" using rep m2(3) m3(3) by (simp add: queue_rep_def)
  have s2: "sentinel m2 = (if ?l = Sentinel then e\<lparr>next_of := EntryOf k\<rparr> else sentinel m)"
    using m2(2) [of Sentinel] at1 [of Sentinel] by (auto split: if_splits)
  have at3: "entry_at m3 q = map_option (\<lambda>x.
      (if q = Sentinel then prev_of_update (\<lambda>_. EntryOf k) else id)
      ((if q = ?l then next_of_update (\<lambda>_. EntryOf k) else id) x))
      (if q = EntryOf k then Some ?new else entry_at m q)" for q
    using m2(2) [of q] m3(2) [of q] at1 [of q] s2 e lk by (auto simp: option.map_ident)
  have seg: "seg (next_ptr m) (prev_ptr m) Sentinel ?ks Sentinel"
    using rep by (simp add: queue_rep_def)
  have "seg (next_ptr m3) (prev_ptr m3) Sentinel (?ks @ [k]) Sentinel"
  proof (rule seg_snoc [OF seg kxs _ _ _ _ _ l])
    show "distinct ?ks" using rep by (simp add: queue_rep_def)
    show "next_ptr m3 ?l = Some (EntryOf k)" using at3 [of ?l] e lk by (auto simp: next_ptr_def)
    show "prev_ptr m3 (EntryOf k) = Some ?l" using at3 [of "EntryOf k"] lk by (auto simp: prev_ptr_def)
    show "prev_ptr m3 Sentinel = Some (EntryOf k)" using at3 [of Sentinel] by (simp add: prev_ptr_def)
    show "next_ptr m3 (EntryOf k) = Some Sentinel" using at3 [of "EntryOf k"] lk by (auto simp: next_ptr_def)
    show "next_ptr m3 y = next_ptr m y" if "y \<noteq> ?l" "y \<noteq> EntryOf k" for y
      using at3 [of y] that by (auto simp: next_ptr_def option.map_comp o_def)
    show "prev_ptr m3 y = prev_ptr m y" if "y \<noteq> Sentinel" "y \<noteq> EntryOf k" for y
      using at3 [of y] that by (auto simp: prev_ptr_def option.map_comp o_def)
  qed auto
  moreover have "map_option (\<lambda>e. (key_of e, value_of e)) (map_of (entries m3) j) =
      map_option (\<lambda>v. (Some j, Some v)) (map_of (xs @ [(k, v)]) j)" for j
  proof -
    have "map_option (\<lambda>e. (key_of e, value_of e)) (map_of (entries m3) j) =
      map_option (\<lambda>e. (key_of e, value_of e)) (if j = k then Some ?new else map_of (entries m) j)"
      using at3 [of "EntryOf j"] by (cases "map_of (entries m) j") auto
    also have "\<dots> = map_option (\<lambda>v. (Some j, Some v)) (map_of (xs @ [(k, v)]) j)"
      using rep fresh by (auto simp: queue_rep_def map_add_def split: option.splits)
    finally show ?thesis .
  qed
  ultimately have "queue_rep m3 (xs @ [(k, v)])"
    using rep wf kxs by (simp add: queue_rep_def)
  with run show ?thesis by (rule yieldsI)
qed

lemma QueueMap_push_existing:
  assumes "queue_rep m xs" and "map_of xs k \<noteq> None"
  shows "QueueMap_push k v m = (Inl (LogicError ''There is already an element with this key''), m)"
  using assms queue_rep_lookup [OF assms(1), of k] by (simp add: QueueMap_push_def)

lemma delete_append: "AList.delete k (xs @ ys) = AList.delete k xs @ AList.delete k ys"
  by (induction xs) auto

lemma QueueMap_pop_key_refines:
  assumes rep: "queue_rep m xs"
  shows "yields (QueueMap_pop_key k) m (map_of xs k) (\<lambda>m'. queue_rep m' (AList.delete k xs))"
proof (cases "map_of xs k")
  case None
  then have "map_of (entries m) k = None" using queue_rep_lookup [OF rep] by simp
  moreover have "AList.delete k xs = xs" using None
    by (simp add: map_of_eq_None_iff)
  ultimately show ?thesis using rep None by (auto simp: QueueMap_pop_key_def yields_def)
next
  case (Some v)
  then obtain as bs where xs: "xs = as @ (k, v) # bs"
    by (metis map_of_SomeD split_list)
  have dist: "distinct (map fst xs)" using rep by (simp add: queue_rep_def)
  have del: "AList.delete k xs = as @ bs"
    using dist unfolding xs by (simp add: delete_append)
  obtain e where e: "map_of (entries m) k = Some e" "key_of e = Some k" "value_of e = Some v"
    using queue_rep_entry [OF rep Some] .
  let ?nx = "next_ptr m" and ?pv = "prev_ptr m"
  have "seg ?nx ?pv Sentinel (map fst xs) Sentinel" using rep by (simp add: queue_rep_def)
  then have segs: "seg ?nx ?pv Sentinel (map fst as) (EntryOf k)"
      "seg ?nx ?pv (EntryOf k) (map fst bs) Sentinel"
    by (simp_all add: xs seg_append)
  define l where "l = last (Sentinel # map EntryOf (map fst as))"
  define f where "f = hd (map EntryOf (map fst bs) @ [Sentinel])"
  have l: "prev_of e = l" using seg_last [OF segs(1)] e(1) by (simp add: prev_ptr_def l_def)
  have f: "next_of e = f" using seg_first [OF segs(2)] e(1) by (simp add: next_ptr_def f_def)
  have dk: "k \<notin> set (map fst as)" "k \<notin> set (map fst bs)" using dist by (auto simp: xs)
  have lk: "l \<noteq> EntryOf k" using dk(1) unfolding l_def by (cases as rule: rev_cases) auto
  have fk: "f \<noteq> EntryOf k" using dk(2) unfolding f_def by (cases bs) auto
  have "\<exists>el. entry_at m l = Some el"
    using seg_last_next [OF segs(1)] unfolding next_ptr_def l_def by (auto simp del: last.simps)
  then obtain el where el: "entry_at m l = Some el" by blast
  have "\<exists>ef. entry_at m f = Some ef"
  proof (cases bs)
    case (Cons b bs')
    then have "map_of xs (fst b) \<noteq> None" by (auto simp: xs map_of_eq_None_iff)
    then have "map_of (entries m) (fst b) \<noteq> None" using queue_rep_lookup [OF rep, of "fst b"] by (simp only: not_False_eq_True)
    then show ?thesis using Cons by (auto simp: f_def)
  qed (simp add: f_def)
  then obtain ef where ef: "entry_at m f = Some ef" by blast
  from update_entry_ok [OF el, of "next_of_update (\<lambda>_. f)"] obtain m1 where
    m1: "update_entry l (next_of_update (\<lambda>_. f)) m = (Inr (), m1)"
      "\<And>q. entry_at m1 q = (if q = l then Some (el\<lparr>next_of := f\<rparr>) else entry_at m q)"
      "um_wf (entries m) \<Longrightarrow> um_wf (entries m1)" by blast
  obtain ef1 where "entry_at m1 f = Some ef1" using m1(2) [of f] ef by (cases "f = l") auto
  from update_entry_ok [OF this, of "prev_of_update (\<lambda>_. l)"] obtain m2 where
    m2: "update_entry f (prev_of_update (\<lambda>_. l)) m1 = (Inr (), m2)"
      "\<And>q. entry_at m2 q = (if q = f then Some (ef1\<lparr>prev_of := l\<rparr>) else entry_at m1 q)"
      "um_wf (entries m1) \<Longrightarrow> um_wf (entries m2)" by blast
  let ?m3 = "m2\<lparr>entries := AList.delete k (entries m2)\<rparr>"
  have run: "QueueMap_pop_key k m = (Inr (Some v), ?m3)"
    using e m1(1) m2(1) by (simp add: QueueMap_pop_key_def QueueMap_removeFromQueue_def ebind_def l f)
  have ef1: "ef1 = (if f = l then el\<lparr>next_of := f\<rparr> else ef)"
    using \<open>entry_at m1 f = Some ef1\<close> m1(2) [of f] ef by (auto split: if_splits)
  have at3: "entry_at ?m3 q = (if q = EntryOf k then None else map_option
      (\<lambda>x. (if q = f then prev_of_update (\<lambda>_. l) else id)
             ((if q = l then next_of_update (\<lambda>_. f) else id) x)) (entry_at m q))" for q
  proof -
    have "entry_at ?m3 q = (if q = EntryOf k then None else entry_at m2 q)"
      by (cases q) (simp_all add: delete_conv')
    then show ?thesis using m1(2) [of q] m2(2) [of q] ef1 ef el
      by (cases "q = EntryOf k") (auto simp: option.map_ident)
  qed
  have "seg (next_ptr ?m3) (prev_ptr ?m3) Sentinel (map fst as @ map fst bs) Sentinel"
  proof (rule seg_unlink [OF segs _ _ _ _ _ _ l_def f_def])
    show "distinct (map fst as @ map fst bs)" using dist by (simp add: xs)
    show "EntryOf k \<notin> EntryOf ` set (map fst as @ map fst bs)" using dk by auto
    show "next_ptr ?m3 l = Some f" using at3 [of l] lk el by (cases "l = f") (simp_all add: next_ptr_def)
    show "prev_ptr ?m3 f = Some l" using at3 [of f] fk ef by (cases "l = f") (simp_all add: prev_ptr_def)
    show "next_ptr ?m3 y = next_ptr m y" if "y \<noteq> EntryOf k" "y \<noteq> l" for y
      using at3 [of y] that by (cases "y = f") (simp_all add: next_ptr_def option.map_comp o_def)
    show "prev_ptr ?m3 y = prev_ptr m y" if "y \<noteq> EntryOf k" "y \<noteq> f" for y
      using at3 [of y] that by (cases "y = l") (simp_all add: prev_ptr_def option.map_comp o_def)
  qed auto
  moreover have "map_option (\<lambda>e. (key_of e, value_of e)) (map_of (entries ?m3) j) =
      map_option (\<lambda>v. (Some j, Some v)) (map_of (AList.delete k xs) j)" for j
  proof -
    have "map_option (\<lambda>e. (key_of e, value_of e)) (map_of (entries ?m3) j) =
        (if j = k then None else map_option (\<lambda>e. (key_of e, value_of e)) (map_of (entries m) j))"
      using at3 [of "EntryOf j"] by (cases "map_of (entries m) j") auto
    then show ?thesis using rep by (simp add: queue_rep_def delete_conv')
  qed
  moreover have "um_wf (entries ?m3)"
    using rep m1(3) m2(3) by (simp add: queue_rep_def um_wf_def distinct_delete)
  ultimately have "queue_rep ?m3 (AList.delete k xs)"
    using dist unfolding queue_rep_def del by (simp add: xs)
  with run Some show ?thesis by (simp add: yields_def)
qed

text \<open>The head of the queue, as the pointers reach it.\<close>

lemma queue_rep_head:
  assumes "queue_rep m ((k, v) # xs)"
  obtains e where "next_of (sentinel m) = EntryOf k" and "map_of (entries m) k = Some e"
    and "key_of e = Some k" and "value_of e = Some v"
  using queue_rep_ends(2) [OF assms] queue_rep_entry [OF assms, of k v] by auto

lemma queue_rep_empty: "queue_rep m [] \<Longrightarrow> next_of (sentinel m) = Sentinel"
  using queue_rep_ends(2) [of m "[]"] by simp

lemma QueueMap_pop_refines:
  assumes "queue_rep m xs"
  shows "yields QueueMap_pop m (case xs of [] \<Rightarrow> None | (k, v) # _ \<Rightarrow> Some v) (\<lambda>m'. queue_rep m' (tl xs))"
proof (cases xs)
  case Nil
  then show ?thesis using assms queue_rep_empty [of m] by (auto simp: QueueMap_pop_def yields_def)
next
  case (Cons x xs')
  obtain k v where x: "x = (k, v)" by (cases x)
  have "k \<notin> fst ` set xs'" using assms by (simp add: queue_rep_def Cons x)
  then have "AList.delete k xs = tl xs" by (simp add: Cons x)
  with QueueMap_pop_key_refines [OF assms, of k] have
    "yields (QueueMap_pop_key k) m (Some v) (\<lambda>m'. queue_rep m' (tl xs))" by (simp add: Cons x)
  moreover obtain e where "next_of (sentinel m) = EntryOf k" "map_of (entries m) k = Some e"
      "key_of e = Some k"
    using assms unfolding Cons x by (rule queue_rep_head)
  then have "QueueMap_pop m = QueueMap_pop_key k m" by (simp add: QueueMap_pop_def)
  ultimately show ?thesis by (simp add: yields_def Cons x)
qed

lemma QueueMap_peek_refines:
  assumes "queue_rep m xs"
  shows "QueueMap_peekKey m = Inr (case xs of [] \<Rightarrow> None | (k, v) # _ \<Rightarrow> Some k)"
    and "QueueMap_peek m = Inr (case xs of [] \<Rightarrow> None | (k, v) # _ \<Rightarrow> Some v)"
proof -
  have "QueueMap_peekKey m = Inr (case xs of [] \<Rightarrow> None | (k, v) # _ \<Rightarrow> Some k) \<and>
      QueueMap_peek m = Inr (case xs of [] \<Rightarrow> None | (k, v) # _ \<Rightarrow> Some v)"
  proof (cases xs)
    case Nil
    then show ?thesis using assms queue_rep_empty [of m]
      by (simp add: QueueMap_peekKey_def QueueMap_peek_def)
  next
    case (Cons x xs')
    obtain k v where x: "x = (k, v)" by (cases x)
    from assms have "queue_rep m ((k, v) # xs')" by (simp add: Cons x)
    then obtain e where "next_of (sentinel m) = EntryOf k" "map_of (entries m) k = Some e"
        "key_of e = Some k" "value_of e = Some v"
      by (rule queue_rep_head)
    then show ?thesis by (simp add: QueueMap_peekKey_def QueueMap_peek_def Cons x)
  qed
  then show "QueueMap_peekKey m = Inr (case xs of [] \<Rightarrow> None | (k, v) # _ \<Rightarrow> Some k)"
    and "QueueMap_peek m = Inr (case xs of [] \<Rightarrow> None | (k, v) # _ \<Rightarrow> Some v)" by blast+
qed

lemma QueueMap_size_refines:
  assumes "queue_rep m xs"
  shows "QueueMap_size m = length xs"
proof -
  have dom: "dom (map_of (entries m)) = dom (map_of xs)"
    using queue_rep_lookup [OF assms] by (auto simp: dom_def)
  have "distinct (map fst xs)" "distinct (map fst (entries m))"
    using assms by (simp_all add: queue_rep_def um_wf_def)
  then have "card (dom (map_of xs)) = length xs" "card (dom (map_of (entries m))) = length (entries m)"
    by (metis distinct_card dom_map_of_conv_image_fst length_map set_map)+
  then show ?thesis using dom by (simp add: QueueMap_size_def)
qed

section \<open>The interface the cache relies on\<close>

locale addressable_queue =
  fixes push :: "'k \<Rightarrow> 'v \<Rightarrow> ('s, unit) exec"
    and pop_key :: "'k \<Rightarrow> ('s, 'v option) exec"
    and pop :: "('s, 'v option) exec"
    and peekKey :: "'s \<Rightarrow> 'k option result"
    and peek :: "'s \<Rightarrow> 'v option result"
    and size_of :: "'s \<Rightarrow> nat"
    and rep :: "'s \<Rightarrow> ('k \<times> 'v) list \<Rightarrow> bool"
  assumes rep_distinct: "rep m xs \<Longrightarrow> distinct (map fst xs)"
    and push_fresh: "rep m xs \<Longrightarrow> map_of xs k = None \<Longrightarrow>
      yields (push k v) m () (\<lambda>m'. rep m' (xs @ [(k, v)]))"
    and pop_key: "rep m xs \<Longrightarrow> yields (pop_key k) m (map_of xs k) (\<lambda>m'. rep m' (AList.delete k xs))"
    and pop: "rep m xs \<Longrightarrow>
      yields pop m (case xs of [] \<Rightarrow> None | (k, v) # _ \<Rightarrow> Some v) (\<lambda>m'. rep m' (tl xs))"
    and peekKey: "rep m xs \<Longrightarrow> peekKey m = Inr (case xs of [] \<Rightarrow> None | (k, v) # _ \<Rightarrow> Some k)"
    and peek: "rep m xs \<Longrightarrow> peek m = Inr (case xs of [] \<Rightarrow> None | (k, v) # _ \<Rightarrow> Some v)"
    and size_of: "rep m xs \<Longrightarrow> size_of m = length xs"
begin

text \<open>First in, first out: an element that is pushed last is popped after all the others.\<close>

lemma push_then_pop:
  assumes "rep m xs" "map_of xs k = None"
  shows "yields (ebind (push k v) (\<lambda>_. pop)) m (case xs of [] \<Rightarrow> Some v | (k', v') # _ \<Rightarrow> Some v')
    (\<lambda>m'. rep m' (tl (xs @ [(k, v)])))"
proof (rule yields_ebind [OF push_fresh [OF assms]])
  fix t assume "rep t (xs @ [(k, v)])"
  from pop [OF this] show "yields pop t (case xs of [] \<Rightarrow> Some v | (k', v') # _ \<Rightarrow> Some v')
      (\<lambda>m'. rep m' (tl (xs @ [(k, v)])))"
    by (cases xs) auto
qed

lemma push_then_pop_key:
  assumes "rep m xs" "map_of xs k = None"
  shows "yields (ebind (push k v) (\<lambda>_. pop_key k)) m (Some v) (\<lambda>m'. rep m' xs)"
proof (rule yields_ebind [OF push_fresh [OF assms]])
  fix t assume t: "rep t (xs @ [(k, v)])"
  have "AList.delete k (xs @ [(k, v)]) = xs"
    using assms(2) by (simp add: delete_append map_of_eq_None_iff)
  with pop_key [OF t, of k] assms(2) show "yields (pop_key k) t (Some v) (\<lambda>m'. rep m' xs)"
    by (simp add: map_add_def)
qed

end

interpretation queue_map: addressable_queue
  QueueMap_push QueueMap_pop_key QueueMap_pop QueueMap_peekKey QueueMap_peek QueueMap_size queue_rep
proof unfold_locales
  show "distinct (map fst xs)" if "queue_rep m xs" for m :: "('k, 'v) queue_map" and xs
    using that by (simp add: queue_rep_def)
qed (simp_all add: QueueMap_push_fresh QueueMap_pop_key_refines QueueMap_pop_refines
    QueueMap_peek_refines QueueMap_size_refines)

section \<open>Properties\<close>

text \<open>
  C29. The doubly linked queue with its hash map implements an addressable first-in first-out queue: a new
  queue represents the empty list, pushing a new key appends, popping a key deletes it wherever it is,
  popping and peeking take the oldest element, and no access goes through a dangling pointer.
\<close>

theorem queue_map_refines_list:
  "queue_rep (QueueMap_new :: ('k, 'v) queue_map) [] \<and>
   addressable_queue QueueMap_push QueueMap_pop_key QueueMap_pop QueueMap_peekKey QueueMap_peek QueueMap_size
     (queue_rep :: ('k, 'v) queue_map \<Rightarrow> _)"
  using queue_rep_new queue_map.addressable_queue_axioms by blast

text \<open>A key that is in the queue is refused, and the queue stays as it is.\<close>

theorem push_existing_rejected:
  assumes "queue_rep m xs" and "map_of xs k \<noteq> None"
  shows "QueueMap_push k v m = (Inl (LogicError ''There is already an element with this key''), m)"
  using QueueMap_push_existing [OF assms] .

theorem push_existing_rejected_witness:
  "\<exists>m. QueueMap_push (1 :: nat) True QueueMap_new = (Inr (), m) \<and>
     QueueMap_push 1 False m = (Inl (LogicError ''There is already an element with this key''), m)"
proof -
  from QueueMap_push_fresh [OF queue_rep_new, of "1 :: nat" True] obtain m where
    m: "QueueMap_push (1 :: nat) True QueueMap_new = (Inr (), m)" "queue_rep m [(1, True)]"
    by (auto simp: yields_def)
  from m(1) push_existing_rejected [OF m(2), of 1 False] show ?thesis by simp
qed

end
