(* ===== verification/Caches.thy ===== *)
theory Caches
  imports QueueMaps
begin

text \<open>
  \<open>src/src/blockstore/implementations/caching/cache/Cache.h\<close> and \<open>CacheEntry.h\<close>: a bounded cache in
  insertion order. An entry that leaves the cache is destroyed, which has an effect outside of the
  cache (a dirty block is written back); that effect is the argument \<open>destroy\<close>, an operation on the
  surrounding state \<open>'w\<close>. The state of the operations is the pair of the queue and the surrounding
  state. Every operation runs here without another thread in between; \<open>_deleteEntry\<close> gives up the
  mutex while the destructor runs, which the theory \<open>CachingStore\<close> takes up for the one place where
  it matters.
\<close>

section \<open>Entries\<close>

text \<open>Times are in microseconds, the resolution of \<open>microsec_clock\<close>.\<close>

record 'v cache_entry =
  lastAccess :: int
  cached :: 'v

definition CacheEntry_new :: "int \<Rightarrow> 'v \<Rightarrow> 'v cache_entry" where
  "CacheEntry_new currentTime v = \<lparr>lastAccess = currentTime, cached = v\<rparr>"

text \<open>\<open>ageSeconds() > PURGE_LIFETIME_SEC\<close>, where the life time is half a second.\<close>

definition CacheEntry_isOld :: "int \<Rightarrow> 'v cache_entry \<Rightarrow> bool" where
  "CacheEntry_isOld currentTime e \<longleftrightarrow> 2 * (currentTime - lastAccess e) > 1000000"

type_synonym ('k, 'v, 'w) cache_state = "('k, 'v cache_entry) queue_map \<times> 'w"

section \<open>Operations\<close>

definition Cache_pop :: "'k \<Rightarrow> (('k, 'v, 'w) cache_state, 'v option) exec" where
  "Cache_pop key =
     ebind (zoom_fst (QueueMap_pop_key key)) (\<lambda>found.
       case found of None \<Rightarrow> ret None | Some e \<Rightarrow> ret (Some (cached e)))"

definition Cache_deleteEntry :: "('v \<Rightarrow> ('w, unit) exec) \<Rightarrow> (('k, 'v, 'w) cache_state, unit) exec" where
  "Cache_deleteEntry destroy =
     ebind (\<lambda>s. (QueueMap_peekKey (fst s), s)) (\<lambda>key.
     ebind (assert_exec (key \<noteq> None) ''There was no entry to delete'') (\<lambda>_.
     ebind (zoom_fst QueueMap_pop) (\<lambda>v.
       case v of None \<Rightarrow> ret () | Some e \<Rightarrow> zoom_snd (destroy (cached e)))))"

fun Cache_makeSpace_loop :: "('v \<Rightarrow> ('w, unit) exec) \<Rightarrow> nat \<Rightarrow> nat \<Rightarrow>
    (('k, 'v, 'w) cache_state, unit) exec" where
  "Cache_makeSpace_loop destroy MAX_ENTRIES 0 =
     ebind (gets (\<lambda>s. QueueMap_size (fst s))) (\<lambda>n.
       if n = MAX_ENTRIES then throw OutOfFuel else ret ())"
| "Cache_makeSpace_loop destroy MAX_ENTRIES (Suc fuel) =
     ebind (gets (\<lambda>s. QueueMap_size (fst s))) (\<lambda>n.
       if n = MAX_ENTRIES
       then ebind (Cache_deleteEntry destroy) (\<lambda>_. Cache_makeSpace_loop destroy MAX_ENTRIES fuel)
       else ret ())"

definition Cache_makeSpaceForEntry :: "('v \<Rightarrow> ('w, unit) exec) \<Rightarrow> nat \<Rightarrow>
    (('k, 'v, 'w) cache_state, unit) exec" where
  "Cache_makeSpaceForEntry destroy MAX_ENTRIES =
     ebind (gets (\<lambda>s. QueueMap_size (fst s))) (\<lambda>fuel.
     ebind (Cache_makeSpace_loop destroy MAX_ENTRIES (Suc fuel)) (\<lambda>_.
     ebind (gets (\<lambda>s. QueueMap_size (fst s))) (\<lambda>n.
     assert_exec (n < MAX_ENTRIES) ''Removing entry from cache didn't work'')))"

definition Cache_push :: "('v \<Rightarrow> ('w, unit) exec) \<Rightarrow> nat \<Rightarrow> int \<Rightarrow> 'k \<Rightarrow> 'v \<Rightarrow>
    (('k, 'v, 'w) cache_state, unit) exec" where
  "Cache_push destroy MAX_ENTRIES currentTime key v =
     ebind (gets (\<lambda>s. QueueMap_size (fst s))) (\<lambda>n.
     ebind (assert_exec (n \<le> MAX_ENTRIES) ''Cache too full'') (\<lambda>_.
     ebind (Cache_makeSpaceForEntry destroy MAX_ENTRIES) (\<lambda>_.
     zoom_fst (QueueMap_push key (CacheEntry_new currentTime v)))))"

definition Cache_deleteMatchingEntryAtBeginning :: "('v \<Rightarrow> ('w, unit) exec) \<Rightarrow>
    ('v cache_entry \<Rightarrow> bool) \<Rightarrow> (('k, 'v, 'w) cache_state, bool) exec" where
  "Cache_deleteMatchingEntryAtBeginning destroy matches =
     ebind (\<lambda>s. (QueueMap_peek (fst s), s)) (\<lambda>front.
     ebind (gets (\<lambda>s. QueueMap_size (fst s))) (\<lambda>n.
       if n > 0 \<and> (case front of None \<Rightarrow> False | Some e \<Rightarrow> matches e)
       then ebind (Cache_deleteEntry destroy) (\<lambda>_. ret True)
       else ret False))"

fun Cache_deleteMatching_loop :: "('v \<Rightarrow> ('w, unit) exec) \<Rightarrow> ('v cache_entry \<Rightarrow> bool) \<Rightarrow> nat \<Rightarrow>
    (('k, 'v, 'w) cache_state, unit) exec" where
  "Cache_deleteMatching_loop destroy matches 0 = throw OutOfFuel"
| "Cache_deleteMatching_loop destroy matches (Suc fuel) =
     ebind (Cache_deleteMatchingEntryAtBeginning destroy matches) (\<lambda>again.
       if again then Cache_deleteMatching_loop destroy matches fuel else ret ())"

definition Cache_deleteMatchingEntriesAtBeginning :: "('v \<Rightarrow> ('w, unit) exec) \<Rightarrow>
    ('v cache_entry \<Rightarrow> bool) \<Rightarrow> (('k, 'v, 'w) cache_state, unit) exec" where
  "Cache_deleteMatchingEntriesAtBeginning destroy matches =
     ebind (gets (\<lambda>s. QueueMap_size (fst s))) (\<lambda>fuel.
       Cache_deleteMatching_loop destroy matches (Suc fuel))"

text \<open>\<open>numThreads\<close> workers, one after the other.\<close>

fun Cache_deleteMatchingEntriesAtBeginningParallel :: "nat \<Rightarrow> ('v \<Rightarrow> ('w, unit) exec) \<Rightarrow>
    ('v cache_entry \<Rightarrow> bool) \<Rightarrow> (('k, 'v, 'w) cache_state, unit) exec" where
  "Cache_deleteMatchingEntriesAtBeginningParallel 0 destroy matches = ret ()"
| "Cache_deleteMatchingEntriesAtBeginningParallel (Suc numThreads) destroy matches =
     ebind (Cache_deleteMatchingEntriesAtBeginning destroy matches) (\<lambda>_.
       Cache_deleteMatchingEntriesAtBeginningParallel numThreads destroy matches)"

definition Cache_deleteAllEntriesParallel :: "nat \<Rightarrow> ('v \<Rightarrow> ('w, unit) exec) \<Rightarrow>
    (('k, 'v, 'w) cache_state, unit) exec" where
  "Cache_deleteAllEntriesParallel cores destroy =
     Cache_deleteMatchingEntriesAtBeginningParallel (2 * max 1 cores) destroy (\<lambda>_. True)"

definition Cache_deleteOldEntriesParallel :: "nat \<Rightarrow> ('v \<Rightarrow> ('w, unit) exec) \<Rightarrow> int \<Rightarrow>
    (('k, 'v, 'w) cache_state, unit) exec" where
  "Cache_deleteOldEntriesParallel cores destroy currentTime =
     Cache_deleteMatchingEntriesAtBeginningParallel (2 * max 1 cores) destroy (CacheEntry_isOld currentTime)"

definition Cache_flush :: "nat \<Rightarrow> ('v \<Rightarrow> ('w, unit) exec) \<Rightarrow> (('k, 'v, 'w) cache_state, unit) exec" where
  "Cache_flush cores destroy = Cache_deleteAllEntriesParallel cores destroy"

definition Cache_destructor :: "nat \<Rightarrow> ('v \<Rightarrow> ('w, unit) exec) \<Rightarrow> (('k, 'v, 'w) cache_state, unit) exec" where
  "Cache_destructor cores destroy =
     ebind (Cache_deleteAllEntriesParallel cores destroy) (\<lambda>_.
     ebind (gets (\<lambda>s. QueueMap_size (fst s))) (\<lambda>n.
     assert_exec (n = 0) ''Error in _deleteAllEntriesParallel()''))"

definition Cache_size :: "('k, 'v, 'w) cache_state \<Rightarrow> nat" where
  "Cache_size s = QueueMap_size (fst s)"

section \<open>Behaviour\<close>

text \<open>
  \<open>P xs w\<close> is any property of the cached entries and the surrounding state that destroying the
  oldest entry keeps.
\<close>

definition destroy_keeps :: "('v \<Rightarrow> ('w, unit) exec) \<Rightarrow> (('k \<times> 'v cache_entry) list \<Rightarrow> 'w \<Rightarrow> bool) \<Rightarrow> bool" where
  "destroy_keeps destroy P \<longleftrightarrow>
     (\<forall>k e xs w. P ((k, e) # xs) w \<longrightarrow> yields (destroy (cached e)) w () (P xs))"

lemma Cache_pop_refines:
  assumes "queue_rep q xs"
  shows "yields (Cache_pop k) (q, w) (map_option cached (map_of xs k))
    (\<lambda>(q', w'). queue_rep q' (AList.delete k xs) \<and> w' = w)"
  unfolding Cache_pop_def
proof (rule yields_ebind)
  show "yields (zoom_fst (QueueMap_pop_key k)) (q, w) (map_of xs k)
      (\<lambda>(q', w'). queue_rep q' (AList.delete k xs) \<and> w' = w)"
    by (rule yields_zoom_fst) (use queue_map.pop_key [OF assms, of k] in simp)
qed (auto split: option.splits)

lemma Cache_deleteEntry_refines:
  assumes "queue_rep q ((k, e) # xs)" and "destroy_keeps destroy P" and "P ((k, e) # xs) w"
  shows "yields (Cache_deleteEntry destroy) (q, w) () (\<lambda>(q', w'). queue_rep q' xs \<and> P xs w')"
proof -
  from queue_map.pop [OF assms(1)] obtain q' where q': "QueueMap_pop q = (Inr (Some e), q')" "queue_rep q' xs"
    by (auto elim: yieldsE)
  from assms(2,3) have "yields (destroy (cached e)) w () (P xs)" by (simp add: destroy_keeps_def)
  then obtain w' where "destroy (cached e) w = (Inr (), w')" "P xs w'" by (rule yieldsE)
  with q' queue_map.peekKey [OF assms(1)] show ?thesis
    by (simp add: Cache_deleteEntry_def yields_def ebind_def zoom_fst_def zoom_snd_def)
qed

text \<open>A push evicts at most one entry, the oldest, and only from a full cache.\<close>

lemma Cache_makeSpace_loop_done:
  "QueueMap_size q \<noteq> maxEntries \<Longrightarrow> Cache_makeSpace_loop destroy maxEntries fuel (q, w) = (Inr (), (q, w))"
  by (cases fuel) simp_all

lemma Cache_makeSpaceForEntry_refines:
  assumes "queue_rep q xs" and "length xs \<le> maxEntries" and "0 < maxEntries"
    and "destroy_keeps destroy P" and "P xs w"
  shows "yields (Cache_makeSpaceForEntry destroy maxEntries) (q, w) ()
    (\<lambda>(q', w'). let ys = if length xs = maxEntries then tl xs else xs in queue_rep q' ys \<and> P ys w')"
proof (cases "length xs = maxEntries")
  case True
  then obtain k e ys where xs: "xs = (k, e) # ys" using assms(3) by (cases xs) auto
  from Cache_deleteEntry_refines [OF assms(1) [unfolded xs] assms(4) assms(5) [unfolded xs]]
  obtain q' w' where d: "Cache_deleteEntry destroy (q, w) = (Inr (), (q', w'))" "queue_rep q' ys" "P ys w'"
    by (auto elim: yieldsE)
  have sizes: "QueueMap_size q = maxEntries" "QueueMap_size q' = length ys" "Suc (length ys) = maxEntries"
    using queue_map.size_of [OF assms(1)] queue_map.size_of [OF d(2)] True xs by auto
  then have "Cache_makeSpace_loop destroy maxEntries fuel (q', w') = (Inr (), (q', w'))" for fuel
    by (intro Cache_makeSpace_loop_done) simp
  then show ?thesis using d True xs sizes
    by (simp add: Cache_makeSpaceForEntry_def yields_def ebind_def Let_def)
next
  case False
  with assms(1,2,5) queue_map.size_of [OF assms(1)] show ?thesis
    by (simp add: Cache_makeSpaceForEntry_def yields_def ebind_def)
qed

lemma Cache_push_refines:
  assumes "queue_rep q xs" and "length xs \<le> maxEntries" and "0 < maxEntries" and "map_of xs k = None"
    and "destroy_keeps destroy P" and "P xs w"
  shows "yields (Cache_push destroy maxEntries t k v) (q, w) ()
    (\<lambda>(q', w'). let ys = if length xs = maxEntries then tl xs else xs
      in queue_rep q' (ys @ [(k, CacheEntry_new t v)]) \<and> P ys w')"
proof -
  let ?ys = "if length xs = maxEntries then tl xs else xs"
  have fresh: "map_of ?ys k = None"
    using assms(4) by (cases xs) (auto split: if_splits)
  from Cache_makeSpaceForEntry_refines [OF assms(1-3,5,6)] obtain q' w' where
    m: "Cache_makeSpaceForEntry destroy maxEntries (q, w) = (Inr (), (q', w'))" "queue_rep q' ?ys" "P ?ys w'"
    by (auto simp: Let_def elim!: yieldsE)
  from queue_map.push_fresh [OF m(2) fresh, of "CacheEntry_new t v"] obtain q'' where
    "QueueMap_push k (CacheEntry_new t v) q' = (Inr (), q'')"
      "queue_rep q'' (?ys @ [(k, CacheEntry_new t v)])"
    by (rule yieldsE)
  then show ?thesis using m queue_map.size_of [OF assms(1)] assms(2)
    by (simp add: Cache_push_def yields_def ebind_def zoom_fst_def Let_def)
qed

lemma Cache_deleteMatchingEntryAtBeginning_refines:
  assumes "queue_rep q xs" and "destroy_keeps destroy P" and "P xs w"
  shows "yields (Cache_deleteMatchingEntryAtBeginning destroy matches) (q, w)
    (xs \<noteq> [] \<and> matches (snd (hd xs)))
    (\<lambda>(q', w'). let ys = if xs \<noteq> [] \<and> matches (snd (hd xs)) then tl xs else xs
       in queue_rep q' ys \<and> P ys w')"
proof (cases "xs \<noteq> [] \<and> matches (snd (hd xs))")
  case True
  then obtain k e ys where xs: "xs = (k, e) # ys" by (cases xs) auto
  from Cache_deleteEntry_refines [OF assms(1) [unfolded xs] assms(2) assms(3) [unfolded xs]]
  obtain q' w' where "Cache_deleteEntry destroy (q, w) = (Inr (), (q', w'))" "queue_rep q' ys" "P ys w'"
    by (auto elim: yieldsE)
  with True show ?thesis
    using queue_map.peek [OF assms(1)] queue_map.size_of [OF assms(1)]
    by (simp add: Cache_deleteMatchingEntryAtBeginning_def yields_def ebind_def xs)
next
  case False
  then show ?thesis
    using assms queue_map.peek [OF assms(1)] queue_map.size_of [OF assms(1)]
    by (cases xs) (auto simp: Cache_deleteMatchingEntryAtBeginning_def yields_def ebind_def)
qed

text \<open>The purge removes exactly the matching entries at the front, and its loop ends.\<close>

lemma Cache_deleteMatching_loop_refines:
  assumes "queue_rep q xs" and "destroy_keeps destroy P" and "P xs w" and "length xs < fuel"
  shows "yields (Cache_deleteMatching_loop destroy matches fuel) (q, w) ()
    (\<lambda>(q', w'). let ys = dropWhile (\<lambda>x. matches (snd x)) xs in queue_rep q' ys \<and> P ys w')"
  using assms(1,3,4)
proof (induction fuel arbitrary: q w xs)
  case 0
  then show ?case by simp
next
  case (Suc fuel)
  note step = Cache_deleteMatchingEntryAtBeginning_refines [OF Suc.prems(1) assms(2) Suc.prems(2), of matches]
  show ?case
  proof (cases "xs \<noteq> [] \<and> matches (snd (hd xs))")
    case True
    then have eq: "dropWhile (\<lambda>x. matches (snd x)) xs = dropWhile (\<lambda>x. matches (snd x)) (tl xs)"
      by (cases xs) auto
    show ?thesis
      unfolding Cache_deleteMatching_loop.simps
    proof (rule yields_ebind [OF step], clarify)
      fix q' w' assume "let ys = if xs \<noteq> [] \<and> matches (snd (hd xs)) then tl xs else xs
        in queue_rep q' ys \<and> P ys w'"
      then have "queue_rep q' (tl xs)" "P (tl xs) w'" using True by (simp_all add: Let_def)
      moreover have "length (tl xs) < fuel" using Suc.prems(3) True by (cases xs) auto
      ultimately have "yields (Cache_deleteMatching_loop destroy matches fuel) (q', w') ()
          (\<lambda>(q', w'). let ys = dropWhile (\<lambda>x. matches (snd x)) (tl xs) in queue_rep q' ys \<and> P ys w')"
        by (rule Suc.IH)
      with True show "yields (if xs \<noteq> [] \<and> matches (snd (hd xs)) then Cache_deleteMatching_loop destroy matches fuel else ret ())
        (q', w') () (\<lambda>(q', w'). let ys = dropWhile (\<lambda>x. matches (snd x)) xs in queue_rep q' ys \<and> P ys w')"
        by (simp add: eq)
    qed
  next
    case False
    then have eq: "dropWhile (\<lambda>x. matches (snd x)) xs = xs" by (cases xs) auto
    show ?thesis
      unfolding Cache_deleteMatching_loop.simps
      by (rule yields_ebind [OF step]) (use False in \<open>auto simp: eq\<close>)
  qed
qed

lemma Cache_deleteMatchingEntriesAtBeginning_refines:
  assumes "queue_rep q xs" and "destroy_keeps destroy P" and "P xs w"
  shows "yields (Cache_deleteMatchingEntriesAtBeginning destroy matches) (q, w) ()
    (\<lambda>(q', w'). let ys = dropWhile (\<lambda>x. matches (snd x)) xs in queue_rep q' ys \<and> P ys w')"
  using Cache_deleteMatching_loop_refines [OF assms, of "Suc (length xs)" matches] queue_map.size_of [OF assms(1)]
  by (simp add: Cache_deleteMatchingEntriesAtBeginning_def yields_def del: Cache_deleteMatching_loop.simps)

text \<open>The number of workers does not matter, as long as there is one.\<close>

lemma Cache_deleteMatchingEntriesAtBeginningParallel_refines:
  assumes "queue_rep q xs" and "destroy_keeps destroy P" and "P xs w" and "0 < numThreads"
  shows "yields (Cache_deleteMatchingEntriesAtBeginningParallel numThreads destroy matches) (q, w) ()
    (\<lambda>(q', w'). let ys = dropWhile (\<lambda>x. matches (snd x)) xs in queue_rep q' ys \<and> P ys w')"
  using assms(1,3,4)
proof (induction numThreads arbitrary: q w xs)
  case 0
  then show ?case by simp
next
  case (Suc n)
  show ?case
    unfolding Cache_deleteMatchingEntriesAtBeginningParallel.simps
  proof (rule yields_ebind [OF Cache_deleteMatchingEntriesAtBeginning_refines [OF Suc.prems(1) assms(2) Suc.prems(2)]],
      clarify)
    fix q' w' assume "let ys = dropWhile (\<lambda>x. matches (snd x)) xs in queue_rep q' ys \<and> P ys w'"
    then have t: "queue_rep q' (dropWhile (\<lambda>x. matches (snd x)) xs)" "P (dropWhile (\<lambda>x. matches (snd x)) xs) w'"
      by (simp_all add: Let_def)
    have idem: "dropWhile (\<lambda>x. matches (snd x)) (dropWhile (\<lambda>x. matches (snd x)) xs) =
        dropWhile (\<lambda>x. matches (snd x)) xs"
      by (induction xs) auto
    show "yields (Cache_deleteMatchingEntriesAtBeginningParallel n destroy matches) (q', w') ()
      (\<lambda>(q', w'). let ys = dropWhile (\<lambda>x. matches (snd x)) xs in queue_rep q' ys \<and> P ys w')"
      using Suc.IH [OF t] t by (cases n) (simp_all add: idem)
  qed
qed

end
