(* ===== verification/CachingStore.thy ===== *)
theory CachingStore
  imports BlockStores Caches
begin

text \<open>
  \<open>src/src/blockstore/implementations/caching/CachingBlockStore2.cpp\<close>: a decorator that keeps the
  blocks in use in a write-back cache. The state is the cache, the set of blocks that are not in the
  base store yet, the base store and the clock. It meets the block store contract: what it stores
  is what the cache holds, over what the base store holds.
\<close>

section \<open>State\<close>

record cached_block =
  cb_blockId :: block_id
  cb_data :: data
  cb_dirty :: bool

record 's caching_rest =
  cachedBlocksNotInBaseStore :: "block_id list"
  cacheBase :: 's
  clock :: int

type_synonym 's caching_state = "(block_id, cached_block, 's caching_rest) cache_state"

definition zoom_cacheBase :: "('s, 'a) exec \<Rightarrow> ('s caching_rest, 'a) exec" where
  "zoom_cacheBase m w = (case m (cacheBase w) of (r, b) \<Rightarrow> (r, w\<lparr>cacheBase := b\<rparr>))"

definition CachingBlockStore2_MAX_ENTRIES :: nat where
  "CachingBlockStore2_MAX_ENTRIES = 1000"

section \<open>Cached blocks\<close>

definition erase_notInBase :: "block_id \<Rightarrow> 's caching_rest \<Rightarrow> 's caching_rest" where
  "erase_notInBase i w = w\<lparr>cachedBlocksNotInBaseStore := removeAll i (cachedBlocksNotInBaseStore w)\<rparr>"

definition CachedBlock_destroy :: "'s block_store2 \<Rightarrow> cached_block \<Rightarrow> ('s caching_rest, unit) exec" where
  "CachedBlock_destroy base cb =
     ebind (if cb_dirty cb then zoom_cacheBase (store_of base (cb_blockId cb) (cb_data cb)) else ret ())
       (\<lambda>_. modify (erase_notInBase (cb_blockId cb)))"

definition CachedBlock_write :: "data \<Rightarrow> cached_block \<Rightarrow> cached_block" where
  "CachedBlock_write d cb = cb\<lparr>cb_data := d, cb_dirty := True\<rparr>"

definition CachedBlock_markNotDirty :: "cached_block \<Rightarrow> cached_block" where
  "CachedBlock_markNotDirty cb = cb\<lparr>cb_dirty := False\<rparr>"

section \<open>Operations\<close>

definition caching_push :: "'s block_store2 \<Rightarrow> block_id \<Rightarrow> cached_block \<Rightarrow> ('s caching_state, unit) exec" where
  "caching_push base blockId cb =
     ebind (gets (\<lambda>s. clock (snd s))) (\<lambda>t.
       Cache_push (CachedBlock_destroy base) CachingBlockStore2_MAX_ENTRIES t blockId cb)"

definition CachingBlockStore2_tryCreate ::
  "'s block_store2 \<Rightarrow> block_id \<Rightarrow> data \<Rightarrow> ('s caching_state, bool) exec" where
  "CachingBlockStore2_tryCreate base blockId d =
     ebind (Cache_pop blockId) (\<lambda>popped.
       case popped of
         Some cb \<Rightarrow> ebind (caching_push base blockId cb) (\<lambda>_. ret False)
       | None \<Rightarrow>
           ebind (caching_push base blockId \<lparr>cb_blockId = blockId, cb_data = d, cb_dirty = True\<rparr>) (\<lambda>_.
           ebind (zoom_snd (modify (\<lambda>w. w\<lparr>cachedBlocksNotInBaseStore := List.insert blockId (cachedBlocksNotInBaseStore w)\<rparr>))) (\<lambda>_.
           ret True)))"

definition CachingBlockStore2_remove :: "'s block_store2 \<Rightarrow> block_id \<Rightarrow> ('s caching_state, bool) exec" where
  "CachingBlockStore2_remove base blockId =
     ebind (Cache_pop blockId) (\<lambda>popped.
       case popped of
         Some cb \<Rightarrow>
           ebind (gets (\<lambda>s. blockId \<in> set (cachedBlocksNotInBaseStore (snd s)))) (\<lambda>notInBase.
           ebind (on_error
                    (if notInBase then ret ()
                     else ebind (zoom_snd (zoom_cacheBase (remove_of base blockId))) (\<lambda>existedInBaseStore.
                            if \<not> existedInBaseStore
                            then throw (RuntimeError ''Tried to remove block. Block existed in cache and stated it exists in base store, but wasn't found there.'')
                            else ret ()))
                    (\<lambda>s. snd (zoom_snd (CachedBlock_destroy base cb) s))) (\<lambda>_.
           ebind (zoom_snd (CachedBlock_destroy base (CachedBlock_markNotDirty cb))) (\<lambda>_.
           ret True)))
       | None \<Rightarrow> zoom_snd (zoom_cacheBase (remove_of base blockId)))"

definition CachingBlockStore2_loadFromCacheOrBaseStore ::
  "'s block_store2 \<Rightarrow> block_id \<Rightarrow> ('s caching_state, cached_block option) exec" where
  "CachingBlockStore2_loadFromCacheOrBaseStore base blockId =
     ebind (Cache_pop blockId) (\<lambda>popped.
       case popped of
         Some cb \<Rightarrow> ret (Some cb)
       | None \<Rightarrow>
           ebind (zoom_snd (zoom_cacheBase (load_of base blockId))) (\<lambda>loaded.
             case loaded of
               None \<Rightarrow> ret None
             | Some d \<Rightarrow> ret (Some \<lparr>cb_blockId = blockId, cb_data = d, cb_dirty = False\<rparr>)))"

definition CachingBlockStore2_load ::
  "'s block_store2 \<Rightarrow> block_id \<Rightarrow> ('s caching_state, data option) exec" where
  "CachingBlockStore2_load base blockId =
     ebind (CachingBlockStore2_loadFromCacheOrBaseStore base blockId) (\<lambda>loaded.
       case loaded of
         None \<Rightarrow> ret None
       | Some cb \<Rightarrow> ebind (caching_push base blockId cb) (\<lambda>_. ret (Some (cb_data cb))))"

definition CachingBlockStore2_store ::
  "'s block_store2 \<Rightarrow> block_id \<Rightarrow> data \<Rightarrow> ('s caching_state, unit) exec" where
  "CachingBlockStore2_store base blockId d =
     ebind (Cache_pop blockId) (\<lambda>popped.
       case popped of
         Some cb \<Rightarrow> caching_push base blockId (CachedBlock_write d cb)
       | None \<Rightarrow>
           let cb = \<lparr>cb_blockId = blockId, cb_data = d, cb_dirty = False\<rparr>
           in ebind (on_error (zoom_snd (zoom_cacheBase (store_of base blockId d)))
                       (\<lambda>s. snd (zoom_snd (CachedBlock_destroy base cb) s))) (\<lambda>_.
              caching_push base blockId cb))"

definition CachingBlockStore2_numBlocks :: "'s block_store2 \<Rightarrow> ('s caching_state, nat) exec" where
  "CachingBlockStore2_numBlocks base =
     ebind (gets (\<lambda>s. length (cachedBlocksNotInBaseStore (snd s)))) (\<lambda>numInCacheButNotInBaseStore.
     ebind (zoom_snd (zoom_cacheBase (numBlocks_of base))) (\<lambda>n.
     ret (n + numInCacheButNotInBaseStore)))"

definition CachingBlockStore2_forEachBlock :: "'s block_store2 \<Rightarrow> ('s caching_state, block_id list) exec" where
  "CachingBlockStore2_forEachBlock base =
     ebind (gets (\<lambda>s. cachedBlocksNotInBaseStore (snd s))) (\<lambda>ids.
     ebind (zoom_snd (zoom_cacheBase (forEachBlock_of base))) (\<lambda>baseIds.
     ret (ids @ baseIds)))"

definition CachingBlockStore2_flush :: "nat \<Rightarrow> 's block_store2 \<Rightarrow> ('s caching_state, unit) exec" where
  "CachingBlockStore2_flush cores base = Cache_flush cores (CachedBlock_destroy base)"

text \<open>The destructor, which destroys the cache.\<close>

definition CachingBlockStore2_destroy :: "nat \<Rightarrow> 's block_store2 \<Rightarrow> ('s caching_state, unit) exec" where
  "CachingBlockStore2_destroy cores base = Cache_destructor cores (CachedBlock_destroy base)"

text \<open>What the periodic task of the cache does when it wakes up.\<close>

definition CachingBlockStore2_purge :: "nat \<Rightarrow> 's block_store2 \<Rightarrow> ('s caching_state, unit) exec" where
  "CachingBlockStore2_purge cores base =
     ebind (gets (\<lambda>s. clock (snd s))) (\<lambda>t.
       Cache_deleteOldEntriesParallel cores (CachedBlock_destroy base) t)"

definition CachingBlockStore2 :: "'s block_store2 \<Rightarrow> 's caching_state block_store2" where
  "CachingBlockStore2 base = \<lparr>
     tryCreate_of = CachingBlockStore2_tryCreate base,
     remove_of = CachingBlockStore2_remove base,
     load_of = CachingBlockStore2_load base,
     store_of = CachingBlockStore2_store base,
     numBlocks_of = CachingBlockStore2_numBlocks base,
     estimateNumFreeBytes_of = zoom_snd (zoom_cacheBase (estimateNumFreeBytes_of base)),
     blockSizeFromPhysicalBlockSize_of = blockSizeFromPhysicalBlockSize_of base,
     forEachBlock_of = CachingBlockStore2_forEachBlock base\<rparr>"

lemma CachingBlockStore2_sel [simp]:
  "tryCreate_of (CachingBlockStore2 b) = CachingBlockStore2_tryCreate b"
  "remove_of (CachingBlockStore2 b) = CachingBlockStore2_remove b"
  "load_of (CachingBlockStore2 b) = CachingBlockStore2_load b"
  "store_of (CachingBlockStore2 b) = CachingBlockStore2_store b"
  "numBlocks_of (CachingBlockStore2 b) = CachingBlockStore2_numBlocks b"
  by (simp_all add: CachingBlockStore2_def)

section \<open>The abstraction\<close>

text \<open>The cached blocks as a map, from the queue or from the list it represents.\<close>

definition cache_view :: "(block_id, cached_block cache_entry) queue_map \<Rightarrow> block_id \<rightharpoonup> cached_block" where
  "cache_view q i = Option.bind (map_of (entries q) i) (\<lambda>e. map_option cached (value_of e))"

definition list_view :: "(block_id \<times> cached_block cache_entry) list \<Rightarrow> block_id \<rightharpoonup> cached_block" where
  "list_view xs i = map_option cached (map_of xs i)"

lemma cache_view_rep: "queue_rep q xs \<Longrightarrow> cache_view q = list_view xs"
proof
  fix i assume rep: "queue_rep q xs"
  show "cache_view q i = list_view xs i"
  proof (cases "map_of xs i")
    case None
    then have "map_of (entries q) i = None" using queue_rep_lookup [OF rep] by simp
    with None show ?thesis by (simp add: cache_view_def list_view_def)
  next
    case (Some v)
    from queue_rep_entry [OF rep this] obtain e where "map_of (entries q) i = Some e" "value_of e = Some v" .
    with Some show ?thesis by (simp add: cache_view_def list_view_def)
  qed
qed

definition overlay :: "(block_id \<rightharpoonup> cached_block) \<Rightarrow> (block_id \<rightharpoonup> data) \<Rightarrow> block_id \<rightharpoonup> data" where
  "overlay c b i = (case c i of Some cb \<Rightarrow> Some (cb_data cb) | None \<Rightarrow> b i)"

definition dirty_blocks :: "(block_id \<rightharpoonup> cached_block) \<Rightarrow> block_id set" where
  "dirty_blocks c = {i. \<exists>cb. c i = Some cb \<and> cb_dirty cb}"

text \<open>
  A clean block agrees with the base store; a block outside of the base store is dirty and on the
  list of such blocks; and there is capacity left to write every dirty block back.
\<close>

definition entry_ok :: "(data \<Rightarrow> bool) \<Rightarrow> bool \<Rightarrow> data option \<Rightarrow> block_id \<Rightarrow> cached_block \<Rightarrow> bool" where
  "entry_ok bfits notInBase stored i cb \<longleftrightarrow> cb_blockId cb = i \<and> (cb_dirty cb \<longrightarrow> bfits (cb_data cb)) \<and>
     (if notInBase then cb_dirty cb \<and> stored = None else stored \<noteq> None) \<and>
     (\<not> cb_dirty cb \<longrightarrow> stored = Some (cb_data cb))"

definition cache_ok :: "('s \<Rightarrow> bool) \<Rightarrow> ('s \<Rightarrow> block_id \<rightharpoonup> data) \<Rightarrow> (data \<Rightarrow> bool) \<Rightarrow> ('s \<Rightarrow> nat \<Rightarrow> bool) \<Rightarrow>
    (block_id \<rightharpoonup> cached_block) \<Rightarrow> block_id list \<Rightarrow> 's \<Rightarrow> bool" where
  "cache_ok binv bblocks bfits bcapacity c nis s \<longleftrightarrow>
     binv s \<and> distinct nis \<and> set nis \<subseteq> dom c \<and> finite (dom c) \<and> bcapacity s (card (dirty_blocks c)) \<and>
     (\<forall>i cb. c i = Some cb \<longrightarrow> entry_ok bfits (i \<in> set nis) (bblocks s i) i cb)"

definition caching_inv :: "('s \<Rightarrow> bool) \<Rightarrow> ('s \<Rightarrow> block_id \<rightharpoonup> data) \<Rightarrow> (data \<Rightarrow> bool) \<Rightarrow> ('s \<Rightarrow> nat \<Rightarrow> bool) \<Rightarrow>
    's caching_state \<Rightarrow> bool" where
  "caching_inv binv bblocks bfits bcapacity = (\<lambda>(q, w).
     (\<exists>xs. queue_rep q xs \<and> length xs \<le> CachingBlockStore2_MAX_ENTRIES) \<and>
     cache_ok binv bblocks bfits bcapacity (cache_view q) (cachedBlocksNotInBaseStore w) (cacheBase w))"

definition caching_blocks :: "('s \<Rightarrow> block_id \<rightharpoonup> data) \<Rightarrow> 's caching_state \<Rightarrow> block_id \<rightharpoonup> data" where
  "caching_blocks bblocks = (\<lambda>(q, w). overlay (cache_view q) (bblocks (cacheBase w)))"

definition caching_capacity :: "('s \<Rightarrow> nat \<Rightarrow> bool) \<Rightarrow> 's caching_state \<Rightarrow> nat \<Rightarrow> bool" where
  "caching_capacity bcapacity = (\<lambda>(q, w) n.
     bcapacity (cacheBase w) (n + card (dirty_blocks (cache_view q))))"

lemma list_view_snoc:
  "map_of xs i = None \<Longrightarrow> list_view (xs @ [(i, CacheEntry_new t cb)]) = (list_view xs)(i \<mapsto> cb)"
  by (auto simp: list_view_def fun_eq_iff map_add_def CacheEntry_new_def split: option.splits)

lemma list_view_delete: "list_view (AList.delete i xs) = (list_view xs)(i := None)"
  by (auto simp: list_view_def fun_eq_iff delete_conv')

lemma list_view_tail:
  "distinct (map fst ((k, e) # xs)) \<Longrightarrow> list_view xs = (list_view ((k, e) # xs))(k := None)"
  by (auto simp: list_view_def fun_eq_iff map_of_eq_None_iff)

lemma list_view_dom: "dom (list_view xs) = fst ` set xs"
  by (simp add: list_view_def dom_def flip: dom_map_of_conv_image_fst)

lemma dirty_blocks_remove: "dirty_blocks (c(i := None)) = dirty_blocks c - {i}"
  by (auto simp: dirty_blocks_def)

lemma dirty_blocks_upd: "dirty_blocks (c(i \<mapsto> cb)) =
    (if cb_dirty cb then insert i (dirty_blocks c) else dirty_blocks c - {i})"
  by (auto simp: dirty_blocks_def)

lemma finite_dirty_blocks: "finite (dom c) \<Longrightarrow> finite (dirty_blocks c)"
  by (rule finite_subset [of _ "dom c"]) (auto simp: dirty_blocks_def)

lemma overlay_simps [simp]:
  "c i = Some cb \<Longrightarrow> overlay c b i = Some (cb_data cb)"
  "c i = None \<Longrightarrow> overlay c b i = b i"
  by (simp_all add: overlay_def)

section \<open>Eviction\<close>

locale caching_store = base: block_store2 base binv bblocks bfits bcapacity
  for base :: "'s block_store2" and binv bblocks bfits bcapacity
begin

abbreviation ok where "ok \<equiv> cache_ok binv bblocks bfits bcapacity"
abbreviation cinv where "cinv \<equiv> caching_inv binv bblocks bfits bcapacity"
abbreviation cblocks where "cblocks \<equiv> caching_blocks bblocks"
abbreviation ccapacity where "ccapacity \<equiv> caching_capacity bcapacity"

text \<open>
  \<open>good B K c w\<close>: the cached blocks \<open>c\<close> over the base store are well-formed, represent the map \<open>B\<close>
  and leave the capacity \<open>K\<close>.
\<close>

definition good :: "(block_id \<rightharpoonup> data) \<Rightarrow> (nat \<Rightarrow> bool) \<Rightarrow> (block_id \<rightharpoonup> cached_block) \<Rightarrow> 's caching_rest \<Rightarrow> bool" where
  "good B K c w \<longleftrightarrow> ok c (cachedBlocksNotInBaseStore w) (cacheBase w) \<and>
     overlay c (bblocks (cacheBase w)) = B \<and>
     (\<forall>n. K n \<longrightarrow> bcapacity (cacheBase w) (n + card (dirty_blocks c)))"

lemma destroy_clean:
  assumes "good B K c w" and "c i = Some cb" and "\<not> cb_dirty cb"
  shows "yields (CachedBlock_destroy base cb) w () (good B K (c(i := None)))"
proof -
  have i: "cb_blockId cb = i" "i \<notin> set (cachedBlocksNotInBaseStore w)" "bblocks (cacheBase w) i = Some (cb_data cb)"
    using assms by (auto simp: good_def cache_ok_def entry_ok_def split: if_splits)
  have D: "dirty_blocks (c(i := None)) = dirty_blocks c"
    using assms(2,3) by (auto simp: dirty_blocks_def)
  have "good B K (c(i := None)) (erase_notInBase i w)"
    using assms i(2,3) unfolding good_def D
    by (auto simp: cache_ok_def D erase_notInBase_def fun_eq_iff overlay_def split: option.splits)
  then show ?thesis using assms(3) i(1) by (simp add: CachedBlock_destroy_def yields_def)
qed

lemma destroy_dirty:
  assumes g: "good B K c w" and "c i = Some cb" and "cb_dirty cb"
  shows "yields (CachedBlock_destroy base cb) w () (good B K (c(i := None)))"
proof -
  let ?s = "cacheBase w" and ?D = "dirty_blocks c"
  have ok: "ok c (cachedBlocksNotInBaseStore w) ?s" and B: "overlay c (bblocks ?s) = B"
    and K: "\<And>n. K n \<Longrightarrow> bcapacity ?s (n + card ?D)"
    using g by (auto simp: good_def)
  have i: "cb_blockId cb = i" "bfits (cb_data cb)" "binv ?s" "finite (dom c)" "bcapacity ?s (card ?D)"
    using ok assms(2,3) by (auto simp: cache_ok_def entry_ok_def)
  have "i \<in> ?D" using assms by (auto simp: dirty_blocks_def)
  moreover have fin: "finite ?D" using i(4) by (rule finite_dirty_blocks)
  ultimately have card: "card ?D = Suc (card (dirty_blocks (c(i := None))))"
    unfolding dirty_blocks_remove by (rule card.remove [rotated])
  have "bcapacity ?s (Suc 0)" by (rule base.capacity_mono [OF i(5)]) (simp add: card)
  from base.store [OF i(3,2) this, of i] obtain t where t: "store_of base i (cb_data cb) ?s = (Inr (), t)"
      "binv t" "bblocks t = (bblocks ?s)(i \<mapsto> cb_data cb)" "\<forall>n. bcapacity ?s (Suc n) \<longrightarrow> bcapacity t n"
    by (rule yieldsE) blast
  let ?w = "erase_notInBase i (w\<lparr>cacheBase := t\<rparr>)"
  have "ok (c(i := None)) (cachedBlocksNotInBaseStore ?w) t"
    unfolding cache_ok_def
  proof (intro conjI allI impI)
    show "binv t" by (rule t)
    have nis: "distinct (cachedBlocksNotInBaseStore w)" "set (cachedBlocksNotInBaseStore w) \<subseteq> dom c"
      using ok unfolding cache_ok_def by blast+
    then show "distinct (cachedBlocksNotInBaseStore ?w)"
        "set (cachedBlocksNotInBaseStore ?w) \<subseteq> dom (c(i := None))"
      by (auto simp: erase_notInBase_def distinct_removeAll)
    show "finite (dom (c(i := None)))" using i(4) by simp
    show "bcapacity t (card (dirty_blocks (c(i := None))))" using i(5) card t(4) by simp
    fix j cb' assume j: "(c(i := None)) j = Some cb'"
    then have "j \<noteq> i" "c j = Some cb'" by (auto split: if_splits)
    then show "entry_ok bfits (j \<in> set (cachedBlocksNotInBaseStore ?w)) (bblocks t j) j cb'"
      using ok t(3) by (simp add: cache_ok_def erase_notInBase_def)
  qed
  moreover have "overlay (c(i := None)) (bblocks t) = B"
    unfolding B [symmetric] overlay_def t(3) using assms(2) by (auto simp: fun_eq_iff split: option.splits)
  moreover have "bcapacity t (n + card (dirty_blocks (c(i := None))))" if "K n" for n
    using K [OF that] t(4) card by simp
  ultimately have "good B K (c(i := None)) ?w"
    by (simp add: good_def erase_notInBase_def)
  then show ?thesis using t(1) assms(3) i(1)
    by (simp add: CachedBlock_destroy_def yields_def ebind_def zoom_cacheBase_def)
qed

lemma destroy_good:
  assumes "good B K c w" and "c i = Some cb"
  shows "yields (CachedBlock_destroy base cb) w () (good B K (c(i := None)))"
  using destroy_clean [OF assms] destroy_dirty [OF assms] by blast

text \<open>
  Pushing a block that is in nobody's hands but ours; \<open>h\<close> is the change that is still due to the list
  of blocks outside of the base store (\<open>tryCreate\<close> makes it after the push).
\<close>

definition pending :: "(block_id list \<Rightarrow> block_id list) \<Rightarrow> 's caching_rest \<Rightarrow> 's caching_rest" where
  "pending h w = w\<lparr>cachedBlocksNotInBaseStore := h (cachedBlocksNotInBaseStore w)\<rparr>"

lemma destroy_pending:
  assumes "\<And>n. h (removeAll (cb_blockId cb) n) = removeAll (cb_blockId cb) (h n)"
    and "yields (CachedBlock_destroy base cb) (pending h w) () Q"
  shows "yields (CachedBlock_destroy base cb) w () (\<lambda>w'. Q (pending h w'))"
proof -
  have "pending h (erase_notInBase (cb_blockId cb) v) = erase_notInBase (cb_blockId cb) (pending h v)" for v
    by (simp add: pending_def erase_notInBase_def assms(1))
  moreover have "pending h (v\<lparr>cacheBase := b\<rparr>) = (pending h v)\<lparr>cacheBase := b\<rparr>"
      "cacheBase (pending h v) = cacheBase v" for v b
    by (simp_all add: pending_def)
  ultimately show ?thesis using assms(2)
    by (auto simp: CachedBlock_destroy_def yields_def ebind_def zoom_cacheBase_def
        split: prod.splits sum.splits if_splits)
qed

lemma good_blockId: "good B K c w \<Longrightarrow> c i = Some cb \<Longrightarrow> cb_blockId cb = i"
  unfolding good_def cache_ok_def entry_ok_def by blast

lemma push_good:
  assumes rep: "queue_rep q xs" "length xs \<le> CachingBlockStore2_MAX_ENTRIES" "map_of xs i = None"
    and h: "\<And>j n. j \<noteq> i \<Longrightarrow> h (removeAll j n) = removeAll j (h n)"
    and g: "good B K ((list_view xs)(i \<mapsto> cb)) (pending h w)"
  shows "yields (caching_push base i cb) (q, w) ()
    (\<lambda>(q', w'). (\<exists>ys. queue_rep q' ys \<and> length ys \<le> CachingBlockStore2_MAX_ENTRIES) \<and>
       good B K (cache_view q') (pending h w'))"
proof -
  let ?t = "clock w"
  let ?e = "CacheEntry_new ?t cb"
  define P where "P ys w \<longleftrightarrow> distinct (map fst (ys @ [(i, ?e)])) \<and>
     good B K (list_view (ys @ [(i, ?e)])) (pending h w)" for ys w
  have "destroy_keeps (CachedBlock_destroy base) P"
    unfolding destroy_keeps_def
  proof (intro allI impI)
    fix k e ys w assume P: "P ((k, e) # ys) w"
    let ?c = "list_view (((k, e) # ys) @ [(i, ?e)])"
    have d: "distinct (map fst ((k, e) # ys @ [(i, ?e)]))" and "good B K ?c (pending h w)"
      using P by (simp_all add: P_def)
    then have "yields (CachedBlock_destroy base (cached e)) (pending h w) () (good B K (?c(k := None)))"
      by (intro destroy_good) (simp_all add: list_view_def)
    moreover have "?c(k := None) = list_view (ys @ [(i, ?e)])"
      using list_view_tail [OF d] by simp
    moreover have "cb_blockId (cached e) = k"
      by (rule good_blockId [OF \<open>good B K ?c (pending h w)\<close>]) (simp add: list_view_def)
    moreover have "k \<noteq> i" using d by auto
    ultimately have "yields (CachedBlock_destroy base (cached e)) w () (\<lambda>w'. good B K (list_view (ys @ [(i, ?e)])) (pending h w'))"
      using destroy_pending [of h "cached e" w] h by simp
    then show "yields (CachedBlock_destroy base (cached e)) w () (P ys)"
      by (rule yields_mono) (use d in \<open>simp add: P_def\<close>)
  qed
  moreover have "P xs w"
    using g rep(3) queue_map.rep_distinct [OF rep(1)]
    by (simp add: P_def list_view_snoc map_of_eq_None_iff)
  ultimately have "yields (Cache_push (CachedBlock_destroy base) CachingBlockStore2_MAX_ENTRIES ?t i cb) (q, w) ()
    (\<lambda>(q', w'). let ys = if length xs = CachingBlockStore2_MAX_ENTRIES then tl xs else xs
      in queue_rep q' (ys @ [(i, ?e)]) \<and> P ys w')"
    by (intro Cache_push_refines [OF rep(1,2) _ rep(3)]) (simp_all add: CachingBlockStore2_MAX_ENTRIES_def)
  then have "yields (Cache_push (CachedBlock_destroy base) CachingBlockStore2_MAX_ENTRIES ?t i cb) (q, w) ()
    (\<lambda>(q', w'). (\<exists>ys. queue_rep q' ys \<and> length ys \<le> CachingBlockStore2_MAX_ENTRIES) \<and>
       good B K (cache_view q') (pending h w'))"
  proof (rule yields_mono, clarify)
    fix q' w'
    let ?ys = "if length xs = CachingBlockStore2_MAX_ENTRIES then tl xs else xs"
    assume "let ys = ?ys in queue_rep q' (ys @ [(i, ?e)]) \<and> P ys w'"
    then have r: "queue_rep q' (?ys @ [(i, ?e)])" and "P ?ys w'" by (simp_all add: Let_def)
    then have "good B K (cache_view q') (pending h w')" by (simp add: cache_view_rep [OF r] P_def)
    moreover have "length (?ys @ [(i, ?e)]) \<le> CachingBlockStore2_MAX_ENTRIES"
      using rep(2) by (auto simp: CachingBlockStore2_MAX_ENTRIES_def)
    ultimately show "(\<exists>ys. queue_rep q' ys \<and> length ys \<le> CachingBlockStore2_MAX_ENTRIES) \<and>
        good B K (cache_view q') (pending h w')" using r by blast
  qed
  then show ?thesis by (simp add: caching_push_def yields_def)
qed

lemma good_cinv:
  "cinv (q, w) \<longleftrightarrow> (\<exists>xs. queue_rep q xs \<and> length xs \<le> CachingBlockStore2_MAX_ENTRIES) \<and>
     good (cblocks (q, w)) (ccapacity (q, w)) (cache_view q) w"
  by (auto simp: caching_inv_def good_def caching_blocks_def caching_capacity_def)

lemma good_result:
  assumes "\<exists>xs. queue_rep q xs \<and> length xs \<le> CachingBlockStore2_MAX_ENTRIES"
    and "good B K (cache_view q) w"
  shows "cinv (q, w) \<and> cblocks (q, w) = B \<and> (\<forall>n. K n \<longrightarrow> ccapacity (q, w) n)"
  using assms by (auto simp: caching_inv_def good_def caching_blocks_def caching_capacity_def)

lemma pending_id [simp]: "pending (\<lambda>n. n) w = w"
  by (simp add: pending_def)

section \<open>Changes of the cached map\<close>

lemma good_cap: "good B K c w \<Longrightarrow> K n \<Longrightarrow> m \<le> n + card (dirty_blocks c) \<Longrightarrow> bcapacity (cacheBase w) m"
  unfolding good_def using base.capacity_mono by blast

lemma good_base:
  assumes "good B K c w" and "binv s" and "bblocks s = bblocks (cacheBase w)"
    and "\<forall>n. bcapacity (cacheBase w) n \<longrightarrow> bcapacity s n"
  shows "good B K c (w\<lparr>cacheBase := s\<rparr>)"
  using assms by (simp add: good_def cache_ok_def)

lemma good_clean:
  assumes "good B K c w" and "c i = None" and "bblocks (cacheBase w) i = Some d"
  shows "good B K (c(i \<mapsto> \<lparr>cb_blockId = i, cb_data = d, cb_dirty = False\<rparr>)) w"
proof -
  have D: "dirty_blocks (c(i \<mapsto> \<lparr>cb_blockId = i, cb_data = d, cb_dirty = False\<rparr>)) = dirty_blocks c"
    using assms(2) by (auto simp: dirty_blocks_def)
  have "i \<notin> set (cachedBlocksNotInBaseStore w)"
    using assms(1,2) unfolding good_def cache_ok_def by blast
  moreover have "overlay (c(i \<mapsto> \<lparr>cb_blockId = i, cb_data = d, cb_dirty = False\<rparr>)) (bblocks (cacheBase w)) =
      overlay c (bblocks (cacheBase w))"
    using assms(2,3) by (auto simp: overlay_def fun_eq_iff)
  ultimately show ?thesis using assms unfolding good_def cache_ok_def D
    by (auto simp: entry_ok_def)
qed

text \<open>A dirty block put into the cache, over a block that is there or a new one.\<close>

lemma good_dirty:
  assumes g: "good B K c w" and K: "K (Suc 0)" and "bfits (cb_data cb)" and "cb_dirty cb" and "cb_blockId cb = i"
    and nis: "set nis \<subseteq> insert i (dom c)" "distinct nis"
      "\<And>j. j \<noteq> i \<Longrightarrow> j \<in> set nis \<longleftrightarrow> j \<in> set (cachedBlocksNotInBaseStore w)"
      "i \<in> set nis \<longleftrightarrow> bblocks (cacheBase w) i = None"
  shows "good (B(i \<mapsto> cb_data cb)) (\<lambda>n. K (Suc n)) (c(i \<mapsto> cb)) (w\<lparr>cachedBlocksNotInBaseStore := nis\<rparr>)"
proof -
  let ?c = "c(i \<mapsto> cb)" and ?s = "cacheBase w"
  have fin: "finite (dom c)" and binv: "binv ?s"
    and ent: "\<And>j cb'. c j = Some cb' \<Longrightarrow> entry_ok bfits (j \<in> set (cachedBlocksNotInBaseStore w)) (bblocks ?s j) j cb'"
    and B: "overlay c (bblocks ?s) = B"
    using g unfolding good_def cache_ok_def by blast+
  have card: "card (dirty_blocks ?c) \<le> Suc (card (dirty_blocks c))"
    using assms(4) card_insert_le_m1 [of "Suc (card (dirty_blocks c))"]
    by (simp add: dirty_blocks_upd card_insert_if [OF finite_dirty_blocks [OF fin]])
  have cap: "bcapacity ?s (n + card (dirty_blocks ?c))" if "K (Suc n)" for n
    by (rule good_cap [OF g that]) (use card in simp)
  have "ok ?c nis ?s"
    unfolding cache_ok_def
  proof (intro conjI allI impI)
    show "bcapacity ?s (card (dirty_blocks ?c))" by (rule good_cap [OF g K]) (use card in simp)
    fix j cb' assume j: "?c j = Some cb'"
    show "entry_ok bfits (j \<in> set nis) (bblocks ?s j) j cb'"
    proof (cases "j = i")
      case True
      then show ?thesis using j assms(3-5) nis(4) by (auto simp: entry_ok_def)
    next
      case False
      then show ?thesis using j ent [of j cb'] nis(3) [OF False] by simp
    qed
  qed (use binv nis(1,2) fin in auto)
  moreover have "overlay ?c (bblocks ?s) = B(i \<mapsto> cb_data cb)"
    unfolding B [symmetric] by (auto simp: overlay_def fun_eq_iff)
  ultimately show ?thesis using cap by (simp add: good_def)
qed

text \<open>A write that goes through to the base store.\<close>

lemma good_through:
  assumes g: "good B K c w" and "c i = None" and K: "K (Suc 0)"
    and s: "binv s" "bblocks s = (bblocks (cacheBase w))(i \<mapsto> d)"
      "\<forall>n. bcapacity (cacheBase w) (Suc n) \<longrightarrow> bcapacity s n"
  shows "good (B(i \<mapsto> d)) (\<lambda>n. K (Suc n)) c (w\<lparr>cacheBase := s\<rparr>)"
proof -
  have "bcapacity s (n + card (dirty_blocks c))" if "K (Suc n)" for n
    using good_cap [OF g that, of "Suc (n + card (dirty_blocks c))"] s(3) by simp
  moreover have "bcapacity s (card (dirty_blocks c))"
    using good_cap [OF g K, of "Suc (card (dirty_blocks c))"] s(3) by simp
  moreover have "entry_ok bfits (j \<in> set (cachedBlocksNotInBaseStore w)) (bblocks s j) j cb" if "c j = Some cb" for j cb
  proof -
    have "j \<noteq> i" using that assms(2) by auto
    then show ?thesis using g that s(2) by (simp add: good_def cache_ok_def)
  qed
  moreover have "overlay c (bblocks s) = B(i \<mapsto> d)"
  proof -
    have B: "overlay c (bblocks (cacheBase w)) = B" using g by (simp add: good_def)
    show ?thesis unfolding B [symmetric] s(2) using assms(2)
      by (auto simp: overlay_def fun_eq_iff split: option.splits)
  qed
  ultimately show ?thesis using g s(1) unfolding good_def cache_ok_def by simp
qed

lemma good_remove:
  assumes g: "good B K c w" and s: "binv s" "bblocks s = (bblocks (cacheBase w))(i := None)"
      "\<forall>n. bcapacity (cacheBase w) n \<longrightarrow> bcapacity s n"
  shows "good (B(i := None)) K (c(i := None)) (erase_notInBase i (w\<lparr>cacheBase := s\<rparr>))"
proof -
  let ?D = "dirty_blocks c" and ?c = "c(i := None)"
  have fin: "finite (dom c)" and B: "overlay c (bblocks (cacheBase w)) = B"
    and nis: "set (cachedBlocksNotInBaseStore w) \<subseteq> dom c" "distinct (cachedBlocksNotInBaseStore w)"
    using g unfolding good_def cache_ok_def by blast+
  have card: "card (dirty_blocks ?c) \<le> card ?D"
    by (simp add: dirty_blocks_remove card_Diff1_le)
  have "bcapacity (cacheBase w) (card ?D)" using g unfolding good_def cache_ok_def by blast
  then have "bcapacity s (card (dirty_blocks ?c))" using s(3) base.capacity_mono [OF _ card] by blast
  moreover have "bcapacity s (n + card (dirty_blocks ?c))" if "K n" for n
    using good_cap [OF g that, of "n + card (dirty_blocks ?c)"] card s(3) by simp
  moreover have "entry_ok bfits (j \<in> set (removeAll i (cachedBlocksNotInBaseStore w))) (bblocks s j) j cb"
    if "?c j = Some cb" for j cb
  proof -
    have "j \<noteq> i" "c j = Some cb" using that by (auto split: if_splits)
    then show ?thesis using g s(2) by (simp add: good_def cache_ok_def)
  qed
  moreover have "overlay ?c (bblocks s) = B(i := None)"
    unfolding B [symmetric] s(2) by (auto simp: overlay_def fun_eq_iff split: option.splits)
  moreover have "set (removeAll i (cachedBlocksNotInBaseStore w)) \<subseteq> dom ?c" using nis(1) by auto
  ultimately show ?thesis using s(1) fin nis(2)
    by (simp add: good_def cache_ok_def erase_notInBase_def distinct_removeAll)
qed

section \<open>The operations\<close>

text \<open>Every operation first takes the block out of the cache.\<close>

lemma after_pop:
  assumes rep: "queue_rep q xs" "length xs \<le> CachingBlockStore2_MAX_ENTRIES"
    and cont: "\<And>q'. queue_rep q' (AList.delete i xs) \<Longrightarrow>
      length (AList.delete i xs) \<le> CachingBlockStore2_MAX_ENTRIES \<Longrightarrow>
      map_of (AList.delete i xs) i = None \<Longrightarrow> yields (f (list_view xs i)) (q', w) x Q"
  shows "yields (ebind (Cache_pop i) f) (q, w) x Q"
proof (rule yields_ebind [OF Cache_pop_refines [OF rep(1)]], clarify)
  fix q' assume "queue_rep q' (AList.delete i xs)"
  then show "yields (f (map_option cached (map_of xs i))) (q', w) x Q"
    using cont [of q'] rep(2) length_delete_le [of i xs]
    by (simp add: list_view_def delete_conv')
qed

lemma push_result:
  assumes rep: "queue_rep q (AList.delete i xs)" "length (AList.delete i xs) \<le> CachingBlockStore2_MAX_ENTRIES"
      "map_of (AList.delete i xs) i = None"
    and g: "good B K ((list_view xs)(i \<mapsto> cb)) w"
  shows "yields (caching_push base i cb) (q, w) ()
    (\<lambda>t. cinv t \<and> cblocks t = B \<and> (\<forall>n. K n \<longrightarrow> ccapacity t n))"
proof -
  have "good B K ((list_view (AList.delete i xs))(i \<mapsto> cb)) (pending (\<lambda>n. n) w)"
    using g by (simp add: list_view_delete)
  from push_good [OF rep refl this] show ?thesis
  proof (rule yields_mono, clarify)
    fix q' w' ys assume "queue_rep q' ys" "length ys \<le> CachingBlockStore2_MAX_ENTRIES"
      and "good B K (cache_view q') (pending (\<lambda>n. n) w')"
    then show "cinv (q', w') \<and> cblocks (q', w') = B \<and> (\<forall>n. K n \<longrightarrow> ccapacity (q', w') n)"
      using good_result [of q' B K w'] by auto
  qed
qed

lemma load_ok:
  assumes "cinv s"
  shows "yields (CachingBlockStore2_load base i) s (cblocks s i)
    (\<lambda>t. cinv t \<and> cblocks t = cblocks s \<and> (\<forall>n. ccapacity s n \<longrightarrow> ccapacity t n))"
proof -
  obtain q w where s: "s = (q, w)" by (cases s)
  obtain xs where rep: "queue_rep q xs" "length xs \<le> CachingBlockStore2_MAX_ENTRIES"
    and g: "good (cblocks s) (ccapacity s) (list_view xs) w"
    using assms cache_view_rep unfolding s good_cinv by metis
  let ?c = "list_view xs"
  have Bi: "cblocks s i = overlay ?c (bblocks (cacheBase w)) i" using g by (simp add: good_def)
  show ?thesis
    unfolding CachingBlockStore2_load_def CachingBlockStore2_loadFromCacheOrBaseStore_def s ebind_assoc
  proof (rule after_pop [OF rep])
    fix q' assume r: "queue_rep q' (AList.delete i xs)"
      "length (AList.delete i xs) \<le> CachingBlockStore2_MAX_ENTRIES" "map_of (AList.delete i xs) i = None"
    show "yields (ebind (case ?c i of None \<Rightarrow> ebind (zoom_snd (zoom_cacheBase (load_of base i)))
           (\<lambda>loaded. case loaded of None \<Rightarrow> ret None
              | Some d \<Rightarrow> ret (Some \<lparr>cb_blockId = i, cb_data = d, cb_dirty = False\<rparr>))
         | Some cb \<Rightarrow> ret (Some cb))
        (\<lambda>loaded. case loaded of None \<Rightarrow> ret None
           | Some cb \<Rightarrow> ebind (caching_push base i cb) (\<lambda>_. ret (Some (cb_data cb))))) (q', w)
       (cblocks (q, w) i)
       (\<lambda>t. cinv t \<and> cblocks t = cblocks (q, w) \<and> (\<forall>n. ccapacity (q, w) n \<longrightarrow> ccapacity t n))"
    proof (cases "?c i")
      case (Some cb)
      then have "?c(i \<mapsto> cb) = ?c" by auto
      with g have "good (cblocks s) (ccapacity s) (?c(i \<mapsto> cb)) w" by simp
      from push_result [OF r this] Some Bi show ?thesis
        by (auto simp: s yields_def ebind_def)
    next
      case None
      have "binv (cacheBase w)" using g unfolding good_def cache_ok_def by blast
      from base.load [OF this, of i] obtain b where b: "load_of base i (cacheBase w) = (Inr (bblocks (cacheBase w) i), b)"
          "binv b" "bblocks b = bblocks (cacheBase w)" "\<forall>n. bcapacity (cacheBase w) n \<longrightarrow> bcapacity b n"
        by (rule yieldsE) blast
      have g': "good (cblocks s) (ccapacity s) ?c (w\<lparr>cacheBase := b\<rparr>)" by (rule good_base [OF g b(2-4)])
      show ?thesis
      proof (cases "bblocks (cacheBase w) i")
        case None
        have c': "list_view (AList.delete i xs) = ?c" using \<open>?c i = None\<close> by (auto simp: list_view_delete)
        have "good (cblocks s) (ccapacity s) (cache_view q') (w\<lparr>cacheBase := b\<rparr>)"
          using g' by (simp add: cache_view_rep [OF r(1)] c')
        from good_result [OF _ this] r(1,2)
        show ?thesis using \<open>?c i = None\<close> None b(1) Bi
          by (auto simp: s yields_def ebind_def zoom_snd_def zoom_cacheBase_def)
      next
        case (Some d)
        then have "good (cblocks s) (ccapacity s) (?c(i \<mapsto> \<lparr>cb_blockId = i, cb_data = d, cb_dirty = False\<rparr>)) (w\<lparr>cacheBase := b\<rparr>)"
          by (intro good_clean [OF g' \<open>?c i = None\<close>]) (simp add: b(3))
        from push_result [OF r this] show ?thesis using \<open>?c i = None\<close> Some b(1) Bi
          by (auto simp: s yields_def ebind_def zoom_snd_def zoom_cacheBase_def)
      qed
    qed
  qed
qed

lemma store_ok:
  assumes "cinv s" and fits: "bfits d" and cap: "ccapacity s (Suc 0)"
  shows "yields (CachingBlockStore2_store base i d) s ()
    (\<lambda>t. cinv t \<and> cblocks t = (cblocks s)(i \<mapsto> d) \<and> (\<forall>n. ccapacity s (Suc n) \<longrightarrow> ccapacity t n))"
proof -
  obtain q w where s: "s = (q, w)" by (cases s)
  obtain xs where rep: "queue_rep q xs" "length xs \<le> CachingBlockStore2_MAX_ENTRIES"
    and g: "good (cblocks s) (ccapacity s) (list_view xs) w"
    using assms(1) cache_view_rep unfolding s good_cinv by metis
  let ?c = "list_view xs" and ?new = "\<lparr>cb_blockId = i, cb_data = d, cb_dirty = False\<rparr>"
  show ?thesis
    unfolding CachingBlockStore2_store_def s
  proof (rule after_pop [OF rep])
    fix q' assume r: "queue_rep q' (AList.delete i xs)"
      "length (AList.delete i xs) \<le> CachingBlockStore2_MAX_ENTRIES" "map_of (AList.delete i xs) i = None"
    show "yields (case ?c i of None \<Rightarrow> let cb = ?new
           in ebind (on_error (zoom_snd (zoom_cacheBase (store_of base i d)))
                (\<lambda>s. snd (zoom_snd (CachedBlock_destroy base cb) s))) (\<lambda>_. caching_push base i cb)
         | Some cb \<Rightarrow> caching_push base i (CachedBlock_write d cb)) (q', w) ()
       (\<lambda>t. cinv t \<and> cblocks t = (cblocks (q, w))(i \<mapsto> d) \<and> (\<forall>n. ccapacity (q, w) (Suc n) \<longrightarrow> ccapacity t n))"
    proof (cases "?c i")
      case (Some cb)
      let ?nis = "cachedBlocksNotInBaseStore w"
      have ok: "entry_ok bfits (i \<in> set ?nis) (bblocks (cacheBase w) i) i cb" "set ?nis \<subseteq> dom ?c" "distinct ?nis"
        using g Some unfolding good_def cache_ok_def by blast+
      have "good ((cblocks s)(i \<mapsto> cb_data (CachedBlock_write d cb))) (\<lambda>n. ccapacity s (Suc n))
          (?c(i \<mapsto> CachedBlock_write d cb)) (w\<lparr>cachedBlocksNotInBaseStore := ?nis\<rparr>)"
        by (rule good_dirty [OF g cap])
          (use ok fits in \<open>auto simp: CachedBlock_write_def entry_ok_def split: if_splits\<close>)
      then have "good ((cblocks s)(i \<mapsto> d)) (\<lambda>n. ccapacity s (Suc n)) (?c(i \<mapsto> CachedBlock_write d cb)) w"
        by (simp add: CachedBlock_write_def)
      from push_result [OF r this] Some show ?thesis by (simp add: s)
    next
      case None
      have "binv (cacheBase w)" using g unfolding good_def cache_ok_def by blast
      moreover have "bcapacity (cacheBase w) (Suc 0)" by (rule good_cap [OF g cap]) simp
      ultimately obtain b where b: "store_of base i d (cacheBase w) = (Inr (), b)" "binv b"
          "bblocks b = (bblocks (cacheBase w))(i \<mapsto> d)" "\<forall>n. bcapacity (cacheBase w) (Suc n) \<longrightarrow> bcapacity b n"
        using yieldsE [OF base.store [OF _ fits]] by metis
      have g': "good ((cblocks s)(i \<mapsto> d)) (\<lambda>n. ccapacity s (Suc n)) ?c (w\<lparr>cacheBase := b\<rparr>)"
        by (rule good_through [OF g None cap b(2-4)])
      then have "good ((cblocks s)(i \<mapsto> d)) (\<lambda>n. ccapacity s (Suc n)) (?c(i \<mapsto> ?new)) (w\<lparr>cacheBase := b\<rparr>)"
        by (rule good_clean) (simp_all add: None b(3))
      from push_result [OF r this] None b(1) show ?thesis
        by (auto simp: s yields_def ebind_def zoom_snd_def zoom_cacheBase_def on_error_def Let_def)
    qed
  qed
qed

lemma tryCreate_ok:
  assumes "cinv s" and fits: "bfits d" and cap: "ccapacity s (Suc 0)" and fresh: "cblocks s i = None"
  shows "yields (CachingBlockStore2_tryCreate base i d) s True
    (\<lambda>t. cinv t \<and> cblocks t = (cblocks s)(i \<mapsto> d) \<and> (\<forall>n. ccapacity s (Suc n) \<longrightarrow> ccapacity t n))"
proof -
  obtain q w where s: "s = (q, w)" by (cases s)
  obtain xs where rep: "queue_rep q xs" "length xs \<le> CachingBlockStore2_MAX_ENTRIES"
    and g: "good (cblocks s) (ccapacity s) (list_view xs) w"
    using assms(1) cache_view_rep unfolding s good_cinv by metis
  let ?c = "list_view xs" and ?new = "\<lparr>cb_blockId = i, cb_data = d, cb_dirty = True\<rparr>"
  have "overlay ?c (bblocks (cacheBase w)) i = None" using g fresh by (simp add: good_def)
  then have c: "?c i = None" and b: "bblocks (cacheBase w) i = None"
    by (auto simp: overlay_def split: option.splits)
  let ?h = "List.insert i" and ?nis = "cachedBlocksNotInBaseStore w"
  have nis: "set ?nis \<subseteq> dom ?c" "distinct ?nis" using g unfolding good_def cache_ok_def by blast+
  have "good ((cblocks s)(i \<mapsto> cb_data ?new)) (\<lambda>n. ccapacity s (Suc n)) (?c(i \<mapsto> ?new))
      (w\<lparr>cachedBlocksNotInBaseStore := ?h ?nis\<rparr>)"
    by (rule good_dirty [OF g cap]) (use nis fits b in auto)
  then have g': "good ((cblocks s)(i \<mapsto> d)) (\<lambda>n. ccapacity s (Suc n))
      ((list_view (AList.delete i xs))(i \<mapsto> ?new)) (pending ?h w)"
    by (simp add: pending_def list_view_delete)
  have h: "?h (removeAll j n) = removeAll j (?h n)" if "j \<noteq> i" for j n
    using that by (auto simp: List.insert_def)
  show ?thesis
    unfolding CachingBlockStore2_tryCreate_def s
  proof (rule after_pop [OF rep], simp only: c option.case)
    fix q' assume r: "queue_rep q' (AList.delete i xs)"
      "length (AList.delete i xs) \<le> CachingBlockStore2_MAX_ENTRIES" "map_of (AList.delete i xs) i = None"
    show "yields (ebind (caching_push base i ?new) (\<lambda>_.
           ebind (zoom_snd (modify (\<lambda>w. w\<lparr>cachedBlocksNotInBaseStore := ?h (cachedBlocksNotInBaseStore w)\<rparr>))) (\<lambda>_. ret True))) (q', w) True
       (\<lambda>t. cinv t \<and> cblocks t = (cblocks (q, w))(i \<mapsto> d) \<and> (\<forall>n. ccapacity (q, w) (Suc n) \<longrightarrow> ccapacity t n))"
    proof (rule yields_ebind [OF push_good [OF r h g']], assumption, clarify)
      fix q'' w'' ys assume "queue_rep q'' ys" "length ys \<le> CachingBlockStore2_MAX_ENTRIES"
        and "good ((cblocks s)(i \<mapsto> d)) (\<lambda>n. ccapacity s (Suc n)) (cache_view q'') (pending ?h w'')"
      then have "cinv (q'', pending ?h w'') \<and> cblocks (q'', pending ?h w'') = (cblocks s)(i \<mapsto> d) \<and>
          (\<forall>n. ccapacity s (Suc n) \<longrightarrow> ccapacity (q'', pending ?h w'') n)"
        by (intro good_result) auto
      then show "yields (ebind (zoom_snd (modify (\<lambda>w. w\<lparr>cachedBlocksNotInBaseStore := ?h (cachedBlocksNotInBaseStore w)\<rparr>))) (\<lambda>_. ret True)) (q'', w'') True
       (\<lambda>t. cinv t \<and> cblocks t = (cblocks (q, w))(i \<mapsto> d) \<and> (\<forall>n. ccapacity (q, w) (Suc n) \<longrightarrow> ccapacity t n))"
        by (auto simp: s yields_def ebind_def zoom_snd_def pending_def)
    qed
  qed
qed

lemma remove_ok:
  assumes "cinv s"
  shows "yields (CachingBlockStore2_remove base i) s (cblocks s i \<noteq> None)
    (\<lambda>t. cinv t \<and> cblocks t = (cblocks s)(i := None) \<and> (\<forall>n. ccapacity s n \<longrightarrow> ccapacity t n))"
proof -
  obtain q w where s: "s = (q, w)" by (cases s)
  obtain xs where rep: "queue_rep q xs" "length xs \<le> CachingBlockStore2_MAX_ENTRIES"
    and g: "good (cblocks s) (ccapacity s) (list_view xs) w"
    using assms(1) cache_view_rep unfolding s good_cinv by metis
  let ?c = "list_view xs" and ?nis = "cachedBlocksNotInBaseStore w"
  have Bi: "cblocks s i = overlay ?c (bblocks (cacheBase w)) i" using g by (simp add: good_def)
  have binv: "binv (cacheBase w)" and nis: "set ?nis \<subseteq> dom ?c"
    using g unfolding good_def cache_ok_def by blast+
  from base.remove [OF binv, of i] obtain b where b: "remove_of base i (cacheBase w) = (Inr (bblocks (cacheBase w) i \<noteq> None), b)"
      "binv b" "bblocks b = (bblocks (cacheBase w))(i := None)" "\<forall>n. bcapacity (cacheBase w) n \<longrightarrow> bcapacity b n"
    by (rule yieldsE) blast
  show ?thesis
    unfolding CachingBlockStore2_remove_def s
  proof (rule after_pop [OF rep])
    fix q' assume r: "queue_rep q' (AList.delete i xs)"
      "length (AList.delete i xs) \<le> CachingBlockStore2_MAX_ENTRIES" "map_of (AList.delete i xs) i = None"
    have view: "cache_view q' = ?c(i := None)" by (simp add: cache_view_rep [OF r(1)] list_view_delete)
    have result: "cinv (q', w') \<and> cblocks (q', w') = (cblocks s)(i := None) \<and> (\<forall>n. ccapacity s n \<longrightarrow> ccapacity (q', w') n)"
      if "good ((cblocks s)(i := None)) (ccapacity s) (?c(i := None)) w'" for w'
      by (rule good_result) (use that r view in auto)
    show "yields (case ?c i of None \<Rightarrow> zoom_snd (zoom_cacheBase (remove_of base i))
         | Some cb \<Rightarrow> ebind (gets (\<lambda>s. i \<in> set (cachedBlocksNotInBaseStore (snd s)))) (\<lambda>notInBase.
             ebind (on_error (if notInBase then ret ()
                else ebind (zoom_snd (zoom_cacheBase (remove_of base i))) (\<lambda>existedInBaseStore.
                  if \<not> existedInBaseStore
                  then throw (RuntimeError ''Tried to remove block. Block existed in cache and stated it exists in base store, but wasn't found there.'')
                  else ret ())) (\<lambda>s. snd (zoom_snd (CachedBlock_destroy base cb) s))) (\<lambda>_.
             ebind (zoom_snd (CachedBlock_destroy base (CachedBlock_markNotDirty cb))) (\<lambda>_. ret True))))
       (q', w) (cblocks (q, w) i \<noteq> None)
       (\<lambda>t. cinv t \<and> cblocks t = (cblocks (q, w))(i := None) \<and> (\<forall>n. ccapacity (q, w) n \<longrightarrow> ccapacity t n))"
    proof (cases "?c i")
      case None
      then have "i \<notin> set ?nis" using nis by auto
      then have "erase_notInBase i (w\<lparr>cacheBase := b\<rparr>) = w\<lparr>cacheBase := b\<rparr>"
        by (simp add: erase_notInBase_def)
      with good_remove [OF g b(2-4)] result
      have "cinv (q', w\<lparr>cacheBase := b\<rparr>) \<and> cblocks (q', w\<lparr>cacheBase := b\<rparr>) = (cblocks s)(i := None) \<and>
          (\<forall>n. ccapacity s n \<longrightarrow> ccapacity (q', w\<lparr>cacheBase := b\<rparr>) n)" by simp
      then show ?thesis using None Bi b(1)
        by (simp add: s yields_def zoom_snd_def zoom_cacheBase_def)
    next
      case (Some cb)
      have ent: "entry_ok bfits (i \<in> set ?nis) (bblocks (cacheBase w) i) i cb"
        using g Some unfolding good_def cache_ok_def by blast
      have id: "cb_blockId (CachedBlock_markNotDirty cb) = i" "\<not> cb_dirty (CachedBlock_markNotDirty cb)"
        using ent by (simp_all add: CachedBlock_markNotDirty_def entry_ok_def)
      show ?thesis
      proof (cases "i \<in> set ?nis")
        case True
        then have "(bblocks (cacheBase w))(i := None) = bblocks (cacheBase w)"
          using ent by (auto simp: entry_ok_def)
        then have "good ((cblocks s)(i := None)) (ccapacity s) (?c(i := None)) (erase_notInBase i w)"
          using good_remove [OF g binv, of i] by simp
        from result [OF this] show ?thesis using Some Bi True id
          by (simp add: s yields_def ebind_def zoom_snd_def on_error_def CachedBlock_destroy_def)
      next
        case False
        then have "bblocks (cacheBase w) i \<noteq> None" using ent by (auto simp: entry_ok_def)
        with result [OF good_remove [OF g b(2-4)]] show ?thesis using Some Bi False id b(1)
          by (simp add: s yields_def ebind_def zoom_snd_def zoom_cacheBase_def on_error_def CachedBlock_destroy_def)
      qed
    qed
  qed
qed

lemma numBlocks_ok:
  assumes "cinv s"
  shows "yields (CachingBlockStore2_numBlocks base) s (card (dom (cblocks s)))
    (\<lambda>t. cinv t \<and> cblocks t = cblocks s \<and> (\<forall>n. ccapacity s n \<longrightarrow> ccapacity t n))"
    and "finite (dom (cblocks s))"
proof -
  obtain q w where s: "s = (q, w)" by (cases s)
  have rep: "\<exists>xs. queue_rep q xs \<and> length xs \<le> CachingBlockStore2_MAX_ENTRIES"
    and g: "good (cblocks s) (ccapacity s) (cache_view q) w"
    using assms unfolding s good_cinv by blast+
  let ?c = "cache_view q" and ?nis = "cachedBlocksNotInBaseStore w" and ?s = "cacheBase w"
  have binv: "binv ?s" and nis: "set ?nis \<subseteq> dom ?c" "distinct ?nis"
    and ent: "\<And>i cb. ?c i = Some cb \<Longrightarrow> entry_ok bfits (i \<in> set ?nis) (bblocks ?s i) i cb"
    using g unfolding good_def cache_ok_def by blast+
  have B: "cblocks s = overlay ?c (bblocks ?s)" using g by (simp add: good_def)
  have dom: "dom (cblocks s) = dom (bblocks ?s) \<union> set ?nis" and disj: "dom (bblocks ?s) \<inter> set ?nis = {}"
    using nis(1) ent unfolding B overlay_def
    by (fastforce simp: dom_def entry_ok_def split: option.splits if_splits)+
  have fin: "finite (dom (bblocks ?s))" by (rule base.finite_blocks [OF binv])
  then show "finite (dom (cblocks s))" by (simp add: dom)
  have card: "card (dom (cblocks s)) = card (dom (bblocks ?s)) + length ?nis"
    unfolding dom using disj fin nis(2) by (simp add: card_Un_disjoint distinct_card)
  from base.numBlocks [OF binv] obtain b where b: "numBlocks_of base ?s = (Inr (card (dom (bblocks ?s))), b)"
      "binv b" "bblocks b = bblocks ?s" "\<forall>n. bcapacity ?s n \<longrightarrow> bcapacity b n"
    by (rule yieldsE) blast
  from good_result [OF rep good_base [OF g b(2-4)]]
  show "yields (CachingBlockStore2_numBlocks base) s (card (dom (cblocks s)))
    (\<lambda>t. cinv t \<and> cblocks t = cblocks s \<and> (\<forall>n. ccapacity s n \<longrightarrow> ccapacity t n))"
    using b(1) card
    by (simp add: s CachingBlockStore2_numBlocks_def yields_def ebind_def zoom_snd_def zoom_cacheBase_def)
qed

text \<open>
  Flushing or purging changes where blocks live, not what is stored; after a flush the base store
  alone holds everything.
\<close>

lemma deleteMatching_ok:
  assumes "cinv s" and "0 < numThreads"
  shows "yields (Cache_deleteMatchingEntriesAtBeginningParallel numThreads (CachedBlock_destroy base) matches) s ()
    (\<lambda>t. cinv t \<and> cblocks t = cblocks s \<and> (\<forall>n. ccapacity s n \<longrightarrow> ccapacity t n) \<and>
       ((\<forall>e. matches e) \<longrightarrow> bblocks (cacheBase (snd t)) = cblocks s \<and> QueueMap_size (fst t) = 0))"
proof -
  obtain q w where s: "s = (q, w)" by (cases s)
  obtain xs where rep: "queue_rep q xs" "length xs \<le> CachingBlockStore2_MAX_ENTRIES"
    and g: "good (cblocks s) (ccapacity s) (list_view xs) w"
    using assms(1) cache_view_rep unfolding s good_cinv by metis
  define P where "P ys w \<longleftrightarrow> distinct (map fst ys) \<and> length ys \<le> CachingBlockStore2_MAX_ENTRIES \<and>
     good (cblocks s) (ccapacity s) (list_view ys) w" for ys w
  have keeps: "destroy_keeps (CachedBlock_destroy base) P"
    unfolding destroy_keeps_def
  proof (intro allI impI)
    fix k e ys v assume "P ((k, e) # ys) v"
    then have d: "distinct (map fst ((k, e) # ys))" "length ys < CachingBlockStore2_MAX_ENTRIES"
      and "good (cblocks s) (ccapacity s) (list_view ((k, e) # ys)) v" by (simp_all add: P_def)
    from destroy_good [OF this(3), of k "cached e"]
    have "yields (CachedBlock_destroy base (cached e)) v () (good (cblocks s) (ccapacity s) (list_view ys))"
      using list_view_tail [OF d(1)] by (simp add: list_view_def)
    then show "yields (CachedBlock_destroy base (cached e)) v () (P ys)"
      by (rule yields_mono) (use d in \<open>simp add: P_def\<close>)
  qed
  have "P xs w" using g rep queue_map.rep_distinct [OF rep(1)] by (simp add: P_def)
  from Cache_deleteMatchingEntriesAtBeginningParallel_refines [OF rep(1) keeps this assms(2), of matches]
  show ?thesis unfolding s
  proof (rule yields_mono, clarify)
    fix q' w'
    let ?ys = "dropWhile (\<lambda>x. matches (snd x)) xs"
    assume "let ys = ?ys in queue_rep q' ys \<and> P ys w'"
    then have r: "queue_rep q' ?ys" and P: "P ?ys w'" by (simp_all add: Let_def)
    have "cinv (q', w') \<and> cblocks (q', w') = cblocks s \<and> (\<forall>n. ccapacity s n \<longrightarrow> ccapacity (q', w') n)"
      by (rule good_result) (use r P in \<open>auto simp: P_def cache_view_rep [OF r]\<close>)
    moreover have "bblocks (cacheBase w') = cblocks s \<and> QueueMap_size q' = 0" if "\<forall>e. matches e"
    proof -
      have ys: "?ys = []" using that by simp
      have "list_view ?ys = Map.empty" unfolding ys by (simp add: list_view_def fun_eq_iff)
      then show ?thesis using P queue_map.size_of [OF r] unfolding ys by (simp add: P_def good_def overlay_def fun_eq_iff)
    qed
    ultimately show "cinv (q', w') \<and> cblocks (q', w') = cblocks (q, w) \<and>
        (\<forall>n. ccapacity (q, w) n \<longrightarrow> ccapacity (q', w') n) \<and>
        ((\<forall>e. matches e) \<longrightarrow> bblocks (cacheBase (snd (q', w'))) = cblocks (q, w) \<and> QueueMap_size (fst (q', w')) = 0)"
      by (simp add: s)
  qed
qed

lemma flush_ok:
  assumes "cinv s"
  shows "yields (CachingBlockStore2_flush cores base) s ()
    (\<lambda>t. cinv t \<and> cblocks t = cblocks s \<and> bblocks (cacheBase (snd t)) = cblocks s)"
  unfolding CachingBlockStore2_flush_def Cache_flush_def Cache_deleteAllEntriesParallel_def
  by (rule yields_mono [OF deleteMatching_ok [OF assms]]) auto

lemma destroy_ok:
  assumes "cinv s"
  shows "yields (CachingBlockStore2_destroy cores base) s ()
    (\<lambda>t. cinv t \<and> cblocks t = cblocks s \<and> bblocks (cacheBase (snd t)) = cblocks s)"
  unfolding CachingBlockStore2_destroy_def Cache_destructor_def Cache_deleteAllEntriesParallel_def
  by (rule yields_ebind [OF deleteMatching_ok [OF assms]]) (auto simp: yields_def ebind_def)

lemma purge_ok:
  assumes "cinv s"
  shows "yields (CachingBlockStore2_purge cores base) s () (\<lambda>t. cinv t \<and> cblocks t = cblocks s)"
proof -
  have "yields (Cache_deleteOldEntriesParallel cores (CachedBlock_destroy base) (clock (snd s))) s ()
      (\<lambda>t. cinv t \<and> cblocks t = cblocks s)"
    unfolding Cache_deleteOldEntriesParallel_def
    by (rule yields_mono [OF deleteMatching_ok [OF assms]]) auto
  then show ?thesis by (simp add: CachingBlockStore2_purge_def yields_def)
qed

end

sublocale caching_store \<subseteq> caching: block_store2
  "CachingBlockStore2 base" cinv cblocks bfits ccapacity
proof unfold_locales
  fix s :: "'s caching_state" and m n :: nat assume "ccapacity s n" "m \<le> n"
  then show "ccapacity s m"
    using base.capacity_mono by (cases s) (fastforce simp: caching_capacity_def)
qed (simp_all add: load_ok store_ok tryCreate_ok remove_ok numBlocks_ok del: not_None_eq)

interpretation caching_inmemory: caching_store
  "InMemoryBlockStore2 m" inmemory_inv map_of "\<lambda>d. True" "\<lambda>s n. True" for m
  by unfold_locales

definition CachingBlockStore2_new :: "'s \<Rightarrow> int \<Rightarrow> 's caching_state" where
  "CachingBlockStore2_new base t =
     (QueueMap_new, \<lparr>cachedBlocksNotInBaseStore = [], cacheBase = base, clock = t\<rparr>)"

lemma caching_inv_new:
  assumes "binv s" and "bcapacity s 0"
  shows "caching_inv binv bblocks bfits bcapacity (CachingBlockStore2_new s t)"
    and "caching_blocks bblocks (CachingBlockStore2_new s t) = bblocks s"
proof -
  have view: "cache_view QueueMap_new = Map.empty"
    by (simp add: cache_view_def QueueMap_new_def fun_eq_iff)
  then show "caching_inv binv bblocks bfits bcapacity (CachingBlockStore2_new s t)"
    using assms queue_rep_new
    by (auto simp: caching_inv_def CachingBlockStore2_new_def cache_ok_def dirty_blocks_def
        intro!: exI [of _ "[]"])
  show "caching_blocks bblocks (CachingBlockStore2_new s t) = bblocks s"
    using view by (simp add: caching_blocks_def CachingBlockStore2_new_def overlay_def fun_eq_iff)
qed

context caching_store
begin

lemma store_contract: "block_store2 (CachingBlockStore2 base) cinv cblocks bfits ccapacity"
  by (rule caching.block_store2_axioms)

end

section \<open>Properties\<close>





text \<open>
  \<open>tryCreate\<close> looks only at the cache: a block that exists in the base store and is not cached is
  silently replaced, and the call answers that it was created.
\<close>

theorem tryCreate_ignores_base_store:
  "fst (ebind (CachingBlockStore2_tryCreate (InMemoryBlockStore2 0) (bid 1) [2]) (\<lambda>created.
        ebind (CachingBlockStore2_flush 4 (InMemoryBlockStore2 0)) (\<lambda>_.
        ebind (gets (\<lambda>s. map_of (cacheBase (snd s)) (bid 1))) (\<lambda>d. ret (created, d))))
      (CachingBlockStore2_new [(bid 1, [1])] 0)) = Inr (True, Some [2])"
  by code_simp

end
