(* ===== verification/StorageStack.thy ===== *)
theory StorageStack
  imports EncryptedStore IntegrityStore CachingStore
begin

text \<open>
  The tower of block stores that \<open>CryDevice\<close> builds (\<open>CreateBlobStore\<close>, \<open>CreateIntegrityEncryptedBlockStore\<close>
  and \<open>CreateEncryptedBlockStore\<close> in \<open>src/src/cryfs/impl/filesystem/CryDevice.cpp\<close>): a cache over the
  integrity checks over the encryption over a base store. The contracts compose; the lemmas here are
  the composition and the life cycle of a mount: start, a run of operations, flush, shutdown, restart.
\<close>

definition CryDevice_BlockStore ::
  "integrity_config \<Rightarrow> ('r, 'k) cipher \<Rightarrow> 'k \<Rightarrow> 's block_store2 \<Rightarrow> ('r \<times> 's) integrity_state caching_state block_store2" where
  "CryDevice_BlockStore cfg C encKey base =
     CachingBlockStore2 (IntegrityBlockStore2 cfg (EncryptedBlockStore2 C encKey base))"

text \<open>
  Construction of the tower over the base state \<open>b\<close> with random source \<open>r\<close>, from the content of the
  integrity file; \<open>t\<close> is the time.
\<close>

definition CryDevice_mount ::
  "'r \<Rightarrow> 's \<Rightarrow> data option \<Rightarrow> u32 \<Rightarrow> int \<Rightarrow> ('r \<times> 's) integrity_state caching_state result" where
  "CryDevice_mount r b file me t =
     rbind (IntegrityBlockStore2_new (r, b) file me) (\<lambda>st. Inr (CachingBlockStore2_new st t))"

text \<open>
  Shutdown: the cache is destroyed, which writes it back, then the \<open>KnownBlockVersions\<close> object saves its file. The result is the
  file, the random source and the base state.
\<close>

definition CryDevice_unmount ::
  "nat \<Rightarrow> integrity_config \<Rightarrow> ('r, 'k) cipher \<Rightarrow> 'k \<Rightarrow> 's block_store2 \<Rightarrow> data option \<Rightarrow>
   (('r \<times> 's) integrity_state caching_state, data option) exec" where
  "CryDevice_unmount cores cfg C encKey base file =
     ebind (CachingBlockStore2_destroy cores (IntegrityBlockStore2 cfg (EncryptedBlockStore2 C encKey base))) (\<lambda>_.
     ebind (gets (\<lambda>s. knownBlockVersions (cacheBase (snd s)))) (\<lambda>known.
     lift_result (KnownBlockVersions_destroy known file)))"

section \<open>Composition\<close>

locale storage_stack =
  encrypted_store base binv bblocks bfits bcapacity C key_ok overhead encKey
  for base :: "'s block_store2" and binv bblocks bfits bcapacity
    and C :: "('r, 'k) cipher" and key_ok overhead and encKey +
  fixes cfg :: integrity_config and me :: u32
begin

abbreviation stack where "stack \<equiv> CryDevice_BlockStore cfg C encKey base"
abbreviation stack_inv where
  "stack_inv \<equiv> caching_inv (integrity_inv cfg me einv eblocks) (integrity_blocks eblocks)
     (integrity_fits efits) (integrity_capacity ecapacity)"
abbreviation stack_blocks where "stack_blocks \<equiv> caching_blocks (integrity_blocks eblocks)"
abbreviation stack_fits where "stack_fits \<equiv> integrity_fits efits"
abbreviation stack_capacity where "stack_capacity \<equiv> caching_capacity (integrity_capacity ecapacity)"

end

sublocale storage_stack \<subseteq> stack_integrity: integrity_store
  "EncryptedBlockStore2 C encKey base" einv eblocks efits ecapacity cfg me
  by unfold_locales

sublocale storage_stack \<subseteq> stack_caching: caching_store
  "IntegrityBlockStore2 cfg (EncryptedBlockStore2 C encKey base)"
  "integrity_inv cfg me einv eblocks" "integrity_blocks eblocks" "integrity_fits efits" "integrity_capacity ecapacity"
  by unfold_locales

section \<open>Life cycle\<close>

context storage_stack
begin

lemma stack_contract: "block_store2 stack stack_inv stack_blocks stack_fits stack_capacity"
  unfolding CryDevice_BlockStore_def by (rule stack_caching.caching.block_store2_axioms)

text \<open>A fresh mount of an empty base store.\<close>

lemma mount_fresh:
  assumes "binv b" and "bblocks b = Map.empty" and "bcapacity b n" and "me \<noteq> 0" and "n < 2 ^ 64 - 1"
  obtains st where "CryDevice_mount r b None me t = Inr (CachingBlockStore2_new st t)"
    and "stack_inv (CachingBlockStore2_new st t)"
    and "stack_blocks (CachingBlockStore2_new st t) = Map.empty"
    and "stack_capacity (CachingBlockStore2_new st t) n"
proof -
  let ?k = "\<lparr>integrityViolationOnPreviousRun = False, knownVersions = [], lastUpdateClientId = [],
          myClientId = me, valid = True\<rparr>"
  let ?st = "\<lparr>knownBlockVersions = ?k, reported = [], baseState = (r, b)\<rparr>"
  have mount: "CryDevice_mount r b None me t = Inr (CachingBlockStore2_new ?st t)"
    using assms(4) by (simp add: CryDevice_mount_def IntegrityBlockStore2_new_def KnownBlockVersions_new_def
        KnownBlockVersions_loadStateFile_def CLIENT_ID_FOR_DELETED_BLOCK_def)
  have eb: "eblocks (r, b) = Map.empty" using assms(2) by (simp add: encrypted_blocks_def fun_eq_iff)
  have i: "integrity_inv cfg me einv eblocks ?st"
    using assms eb by (simp add: integrity_inv_def encrypted_inv_def kbv_inv_def um_wf_def
        CLIENT_ID_FOR_DELETED_BLOCK_def KnownBlockVersions_blockShouldExist_def)
  have c: "integrity_capacity ecapacity ?st m" if "m \<le> n" for m
    using assms(3,5) that base.capacity_mono
    by (auto simp: integrity_capacity_def encrypted_capacity_def known_version_def um_get_def)
  show thesis
  proof (rule that [OF mount])
    show "stack_inv (CachingBlockStore2_new ?st t)" using c [of 0] by (intro caching_inv_new(1) i) simp
    show "stack_blocks (CachingBlockStore2_new ?st t) = Map.empty"
      using caching_inv_new(2) [of "integrity_inv cfg me einv eblocks", OF i, of "integrity_capacity ecapacity"] c eb
      by (simp add: integrity_blocks_def fun_eq_iff)
    show "stack_capacity (CachingBlockStore2_new ?st t) n"
      using c by (simp add: caching_capacity_def CachingBlockStore2_new_def cache_view_def QueueMap_new_def
          dirty_blocks_def)
  qed
qed

text \<open>Shutdown always succeeds on a healthy tower and saves the integrity file.\<close>

lemma unmount_ok:
  assumes inv: "stack_inv s"
  obtains f t where "CryDevice_unmount cores cfg C encKey base file s = (Inr (Some f), t)"
    and "f = state_file_bytes (knownBlockVersions (cacheBase (snd t)))"
proof -
  from stack_caching.destroy_ok [OF inv, of cores] obtain t where
    t: "CachingBlockStore2_destroy cores (IntegrityBlockStore2 cfg (EncryptedBlockStore2 C encKey base)) s = (Inr (), t)"
      "stack_inv t"
    by (rule yieldsE) blast
  have "integrity_inv cfg me einv eblocks (cacheBase (snd t))"
    using t(2) by (cases t) (simp add: caching_inv_def cache_ok_def)
  then show thesis using t(1)
    by (intro that) (auto simp: CryDevice_unmount_def ebind_def integrity_inv_def kbv_inv_def
      KnownBlockVersions_destroy_def saveStateFile_bytes)
qed

text \<open>Shutdown writes everything back, and the next mount with the saved file finds it.\<close>

lemma unmount_mount:
  assumes inv: "stack_inv s"
    and run: "CryDevice_unmount cores cfg C encKey base file s = (Inr file', t)"
    and len: "length (state_file_bytes (knownBlockVersions (cacheBase (snd t)))) < 2 ^ 63"
  obtains u where "CryDevice_mount (fst (baseState (cacheBase (snd t)))) (snd (baseState (cacheBase (snd t))))
      file' me now = Inr u"
    and "stack_inv u" and "stack_blocks u = stack_blocks s"
proof -
  let ?st = "cacheBase (snd t)" and ?k = "knownBlockVersions (cacheBase (snd t))"
  from stack_caching.destroy_ok [OF inv, of cores] obtain t' where
    t': "CachingBlockStore2_destroy cores (IntegrityBlockStore2 cfg (EncryptedBlockStore2 C encKey base)) s = (Inr (), t')"
      "stack_inv t'" "integrity_blocks eblocks (cacheBase (snd t')) = stack_blocks s"
    by (rule yieldsE) blast
  have tt: "t' = t" and destroy: "KnownBlockVersions_destroy ?k file = Inr file'"
    using run t'(1) by (auto simp: CryDevice_unmount_def ebind_def)
  have i: "integrity_inv cfg me einv eblocks ?st"
    using t'(2) unfolding tt by (cases t) (simp add: caching_inv_def cache_ok_def)
  have cap: "integrity_capacity ecapacity ?st 0"
    using t'(2) stack_integrity.integrity.capacity_mono [of ?st _ 0] unfolding tt
    by (cases t) (auto simp: caching_inv_def cache_ok_def)
  have k: "kbv_inv ?k" and me: "me = myClientId ?k" and v: "\<not> integrityViolationOnPreviousRun ?k" and rep: "reported ?st = []"
    using i by (simp_all add: integrity_inv_def)
  have f: "file' = Some (state_file_bytes ?k)"
    using destroy k by (simp add: KnownBlockVersions_destroy_def kbv_inv_def saveStateFile_bytes)
  have "KnownBlockVersions_new file' me = Inr (?k, file')"
    using loadStateFile_bytes [OF _ _ len] k unfolding f me
    by (simp add: KnownBlockVersions_new_def kbv_inv_def)
  then have "CryDevice_mount (fst (baseState ?st)) (snd (baseState ?st)) file' me now =
      Inr (CachingBlockStore2_new ?st now)"
    using v rep by (cases ?st) (simp add: CryDevice_mount_def IntegrityBlockStore2_new_def)
  moreover have "stack_inv (CachingBlockStore2_new ?st now)"
    by (intro caching_inv_new(1) i cap)
  moreover have "stack_blocks (CachingBlockStore2_new ?st now) = stack_blocks s"
    using caching_inv_new(2) [of "integrity_inv cfg me einv eblocks", OF i, of "integrity_capacity ecapacity", OF cap]
      t'(3) unfolding tt by simp
  ultimately show thesis by (rule that)
qed

end

interpretation inmemory_stack: storage_stack
  "InMemoryBlockStore2 m" inmemory_inv map_of "\<lambda>d. True" "\<lambda>s n. True"
  "FakeAuthenticatedCipher (random_device f)" "\<lambda>_. True" 16 k cfg me for m f k cfg me
  by unfold_locales

end
