(* ===== verification/HexStrings.thy ===== *)
theory HexStrings
  imports BlockIds
begin

text \<open>
  Hexadecimal strings: \<open>ToString\<close> and \<open>FromString\<close> of \<open>cpp-utils/data/Data.cpp\<close> and \<open>FixedSizeData.h\<close>, which
  use the filters of Crypto++. The encoder writes upper case digits; the decoder reads both cases, skips every
  other character and drops an unpaired last digit.
\<close>

section \<open>The filters\<close>

definition ALLOWED_BLOCKID_CHARACTERS :: string where
  "ALLOWED_BLOCKID_CHARACTERS = ''0123456789ABCDEF''"

definition hex_digit :: "nat \<Rightarrow> char" where
  "hex_digit n = ''0123456789ABCDEF'' ! n"

definition hex_value :: "char \<Rightarrow> nat option" where
  "hex_value c =
     (let n = of_char c :: nat in
      if 48 \<le> n \<and> n \<le> 57 then Some (n - 48)
      else if 65 \<le> n \<and> n \<le> 70 then Some (n - 55)
      else if 97 \<le> n \<and> n \<le> 102 then Some (n - 87) else None)"

definition HexEncoder :: "data \<Rightarrow> string" where
  "HexEncoder d = concat (map (\<lambda>b. [hex_digit (unat b div 16), hex_digit (unat b mod 16)]) d)"

fun join_nibbles :: "nat list \<Rightarrow> data" where
  "join_nibbles (a # b # ns) = of_nat (16 * a + b) # join_nibbles ns"
| "join_nibbles _ = []"

definition HexDecoder :: "string \<Rightarrow> data" where
  "HexDecoder s = join_nibbles (List.map_filter hex_value s)"

lemma hex_value_digit [simp]: "n < 16 \<Longrightarrow> hex_value (hex_digit n) = Some n"
proof -
  have "\<forall>n\<in>set [0..<16]. hex_value (hex_digit n) = Some n" by code_simp
  then show "n < 16 \<Longrightarrow> hex_value (hex_digit n) = Some n" by simp
qed

lemma hex_digit_allowed: "n < 16 \<Longrightarrow> hex_digit n \<in> set ALLOWED_BLOCKID_CHARACTERS"
  unfolding hex_digit_def ALLOWED_BLOCKID_CHARACTERS_def by (rule nth_mem) simp

lemma allowed_digit:
  assumes "c \<in> set ALLOWED_BLOCKID_CHARACTERS"
  obtains n where "n < 16" and "c = hex_digit n"
  using assms unfolding hex_digit_def ALLOWED_BLOCKID_CHARACTERS_def in_set_conv_nth by (auto simp: numeral_nat)

lemma length_HexEncoder [simp]: "length (HexEncoder d) = 2 * length d"
  by (induction d) (simp_all add: HexEncoder_def)

lemma HexEncoder_allowed: "set (HexEncoder d) \<subseteq> set ALLOWED_BLOCKID_CHARACTERS"
proof -
  have "unat b div 16 < 16" for b :: byte using unat_byte_less [of b] by simp
  then show ?thesis by (auto simp: HexEncoder_def intro!: hex_digit_allowed)
qed

lemma HexDecoder_HexEncoder [simp]: "HexDecoder (HexEncoder d) = d"
proof (induction d)
  case (Cons b d)
  have "unat b div 16 < 16" using unat_byte_less [of b] by simp
  then show ?case using Cons by (simp add: HexDecoder_def HexEncoder_def map_filter_simps mult.commute)
qed (simp add: HexDecoder_def HexEncoder_def map_filter_simps)

lemma HexEncoder_HexDecoder:
  "set s \<subseteq> set ALLOWED_BLOCKID_CHARACTERS \<Longrightarrow> even (length s) \<Longrightarrow> HexEncoder (HexDecoder s) = s"
proof (induction s rule: induct_list012)
  case (3 a b s)
  obtain m where m: "m < 16" "a = hex_digit m" using 3 by (auto elim: allowed_digit)
  obtain n where n: "n < 16" "b = hex_digit n" using 3 by (auto elim: allowed_digit)
  have v: "unat (of_nat (16 * m + n) :: byte) = 16 * m + n" using m n by (simp add: unat_of_nat take_bit_eq_mod del: of_nat_add of_nat_mult)
  have "HexEncoder (HexDecoder s) = s" using 3 by auto
  then show ?case
    using m n v by (simp add: HexDecoder_def HexEncoder_def map_filter_simps del: of_nat_add of_nat_mult)
qed (simp_all add: HexDecoder_def HexEncoder_def map_filter_simps)

lemma length_HexDecoder: "set s \<subseteq> set ALLOWED_BLOCKID_CHARACTERS \<Longrightarrow> even (length s) \<Longrightarrow> 2 * length (HexDecoder s) = length s"
  by (metis HexEncoder_HexDecoder length_HexEncoder)

section \<open>Data and FixedSizeData\<close>

definition Data_FromString :: "(nat \<Rightarrow> data) \<Rightarrow> string \<Rightarrow> data result" where
  "Data_FromString alloc s =
     rbind (ASSERT (length s mod 2 = 0) ''hex encoded data cannot have odd number of characters'') (\<lambda>_.
     rbind (Data_new alloc (length s div 2)) (\<lambda>d.
     Inr (write_at 0 (take (length d) (HexDecoder s)) d)))"

definition Data_ToString :: "data \<Rightarrow> string result" where
  "Data_ToString d =
     (let s = HexEncoder d in rbind (ASSERT (length s = 2 * length d) ''Created wrongly sized string'') (\<lambda>_. Inr s))"

definition FixedSizeData_FromString :: "nat \<Rightarrow> string \<Rightarrow> data result" where
  "FixedSizeData_FromString SIZE s =
     rbind (ASSERT (length s = 2 * SIZE) ''Wrong string size for parsing FixedSizeData'') (\<lambda>_.
     Inr (write_at 0 (take SIZE (HexDecoder s)) (zeroes SIZE)))"

definition FixedSizeData_ToString :: "nat \<Rightarrow> data \<Rightarrow> string result" where
  "FixedSizeData_ToString SIZE d =
     (let s = HexEncoder d in rbind (ASSERT (length s = 2 * SIZE) ''Created wrongly sized string'') (\<lambda>_. Inr s))"

definition FixedSizeData_take :: "nat \<Rightarrow> data \<Rightarrow> data" where
  "FixedSizeData_take n d = take n d"

definition FixedSizeData_drop :: "nat \<Rightarrow> data \<Rightarrow> data" where
  "FixedSizeData_drop n d = drop n d"

lemma FixedSizeData_ToString_eq [simp]: "length d = SIZE \<Longrightarrow> FixedSizeData_ToString SIZE d = Inr (HexEncoder d)"
  by (simp add: FixedSizeData_ToString_def)

lemma FixedSizeData_roundtrip: "length d = SIZE \<Longrightarrow> FixedSizeData_FromString SIZE (HexEncoder d) = Inr d"
  by (simp add: FixedSizeData_FromString_def write_at_def zeroes_def)

lemma FixedSizeData_FromString_eq:
  assumes "set s \<subseteq> set ALLOWED_BLOCKID_CHARACTERS" and "length s = 2 * SIZE"
  shows "FixedSizeData_FromString SIZE s = Inr (HexDecoder s) \<and> length (HexDecoder s) = SIZE"
  using assms length_HexDecoder [of s] by (simp add: FixedSizeData_FromString_def write_at_def)

lemma Data_string_roundtrip:
  assumes "Data_new alloc (length d) = Inr e" and "length e = length d"
  shows "rbind (Data_ToString d) (Data_FromString alloc) = Inr d"
  using assms by (simp add: Data_ToString_def Data_FromString_def write_at_def)

section \<open>Block identifiers\<close>

definition STRING_LENGTH :: nat where
  "STRING_LENGTH = 2 * BINARY_LENGTH"

definition BlockId_ToString :: "block_id \<Rightarrow> string result" where
  "BlockId_ToString i = FixedSizeData_ToString BINARY_LENGTH (BlockId_ToBinary i)"

definition BlockId_FromString :: "string \<Rightarrow> block_id result" where
  "BlockId_FromString s = rbind (FixedSizeData_FromString BINARY_LENGTH s) (\<lambda>d. Inr (BlockId_of d))"

abbreviation id_string :: "block_id \<Rightarrow> string" where
  "id_string i \<equiv> HexEncoder (BlockId_ToBinary i)"

lemma BlockId_ToString_eq [simp]: "BlockId_ToString i = Inr (id_string i)"
  by (simp add: BlockId_ToString_def BINARY_LENGTH_def)

lemma BlockId_FromString_id [simp]: "BlockId_FromString (id_string i) = Inr i"
  by (simp add: BlockId_FromString_def BINARY_LENGTH_def FixedSizeData_roundtrip)

lemma id_string_inject [simp]: "id_string i = id_string j \<longleftrightarrow> i = j"
  by (metis BlockId_FromString_id sum.inject(2))

lemma id_string_surj:
  assumes "set s \<subseteq> set ALLOWED_BLOCKID_CHARACTERS" and "length s = STRING_LENGTH"
  obtains i where "s = id_string i" and "BlockId_FromString s = Inr i"
proof
  have h: "FixedSizeData_FromString BINARY_LENGTH s = Inr (HexDecoder s)" "length (HexDecoder s) = 16"
    using FixedSizeData_FromString_eq [of s BINARY_LENGTH] assms by (simp_all add: STRING_LENGTH_def BINARY_LENGTH_def)
  then show "s = id_string (BlockId_of (HexDecoder s))"
    using HexEncoder_HexDecoder assms by (simp add: ToBinary_BlockId_of STRING_LENGTH_def)
  show "BlockId_FromString s = Inr (BlockId_of (HexDecoder s))"
    using h by (simp add: BlockId_FromString_def)
qed

end
