(* ===== verification/OnDiskStore.thy ===== *)
theory OnDiskStore
  imports BlockStores HexStrings
begin

text \<open>
  \<open>blockstore/implementations/ondisk/OnDiskBlockStore2.cpp\<close>, the store at the bottom of the tower: every block
  is a file with a header, named by the hexadecimal identifier, in a directory named by its first three digits.
  The operating system is a parameter: the record \<open>disk\<close> has the calls the code makes, and the locale \<open>disk_laws\<close>
  what they do to the tree of files below the directory of the store.
\<close>

section \<open>The disk\<close>

text \<open>
  Paths are relative to the directory of the store. An opened \<open>ifstream\<close> has the bytes of the file, a position and
  the offset behind which reading fails; \<open>open_out\<close> is the constructor of a truncating \<open>ofstream\<close> and returns \<open>good()\<close>,
  and so does \<open>put\<close>, which writes the bytes to the opened file.
\<close>

type_synonym disk_path = "string list"

record istream =
  is_bytes :: data
  is_pos :: nat
  is_limit :: nat
  is_good :: bool

record 'd disk =
  exists_of :: "disk_path \<Rightarrow> ('d, bool) exec"
  is_regular_file_of :: "disk_path \<Rightarrow> ('d, bool) exec"
  is_directory_of :: "disk_path \<Rightarrow> ('d, bool) exec"
  is_empty_of :: "disk_path \<Rightarrow> ('d, bool) exec"
  remove_path_of :: "disk_path \<Rightarrow> ('d, bool) exec"
  create_directory_of :: "disk_path \<Rightarrow> ('d, bool) exec"
  open_in_of :: "disk_path \<Rightarrow> ('d, istream) exec"
  open_out_of :: "disk_path \<Rightarrow> ('d, bool) exec"
  put_of :: "disk_path \<Rightarrow> data \<Rightarrow> ('d, bool) exec"
  directory_iterator_of :: "disk_path \<Rightarrow> ('d, string list) exec"
  free_disk_space_of :: "('d, nat) exec"

section \<open>Loading and storing buffers\<close>

definition Data_getStreamSize :: "istream \<Rightarrow> nat" where
  "Data_getStreamSize stream = length (is_bytes stream) - is_pos stream"

text \<open>A read that fails sets the state of the stream; what it leaves in the buffer is not used by anyone.\<close>

definition Data_LoadFromStream_size :: "istream \<Rightarrow> nat \<Rightarrow> data \<times> istream" where
  "Data_LoadFromStream_size stream n =
     (let pos = is_pos stream + n in
      (slice (is_pos stream) n (is_bytes stream),
       stream\<lparr>is_pos := pos, is_good := is_good stream \<and> pos \<le> is_limit stream \<and> pos \<le> length (is_bytes stream)\<rparr>))"

definition Data_LoadFromStream :: "istream \<Rightarrow> data \<times> istream" where
  "Data_LoadFromStream stream = Data_LoadFromStream_size stream (Data_getStreamSize stream)"

definition Data_LoadFromFile :: "'d disk \<Rightarrow> disk_path \<Rightarrow> ('d, data option) exec" where
  "Data_LoadFromFile dk filepath =
     ebind (open_in_of dk filepath) (\<lambda>stream.
     if \<not> is_good stream then ret None
     else case Data_LoadFromStream stream of (d, stream') \<Rightarrow>
       if \<not> is_good stream' then throw (RuntimeError ''Error reading from file'') else ret (Some d))"

definition Data_StoreToStream :: "'d disk \<Rightarrow> disk_path \<Rightarrow> data \<Rightarrow> ('d, bool) exec" where
  "Data_StoreToStream dk filepath d = put_of dk filepath d"

definition Data_StoreToFile :: "'d disk \<Rightarrow> data \<Rightarrow> disk_path \<Rightarrow> ('d, unit) exec" where
  "Data_StoreToFile dk d filepath =
     ebind (open_out_of dk filepath) (\<lambda>good.
     if \<not> good then throw (RuntimeError ''Could not open file for writing'')
     else ebind (Data_StoreToStream dk filepath d) (\<lambda>good.
       if \<not> good then throw (RuntimeError ''Error writing to file'') else ret ()))"

section \<open>OnDiskBlockStore2\<close>

definition OnDiskBlockStore2_FORMAT_VERSION_HEADER_PREFIX :: data where
  "OnDiskBlockStore2_FORMAT_VERSION_HEADER_PREFIX = ascii ''cryfs;block;''"

definition OnDiskBlockStore2_FORMAT_VERSION_HEADER :: data where
  "OnDiskBlockStore2_FORMAT_VERSION_HEADER = OnDiskBlockStore2_FORMAT_VERSION_HEADER_PREFIX @ ascii ''0''"

definition PREFIX_LENGTH :: nat where
  "PREFIX_LENGTH = 3"

definition POSTFIX_LENGTH :: nat where
  "POSTFIX_LENGTH = STRING_LENGTH - PREFIX_LENGTH"

definition OnDiskBlockStore2_getFilepath :: "block_id \<Rightarrow> disk_path result" where
  "OnDiskBlockStore2_getFilepath blockId =
     rbind (BlockId_ToString blockId) (\<lambda>blockIdStr. Inr [take PREFIX_LENGTH blockIdStr, drop PREFIX_LENGTH blockIdStr])"

definition formatVersionHeaderSize :: nat where
  "formatVersionHeaderSize = length OnDiskBlockStore2_FORMAT_VERSION_HEADER + 1"

text \<open>
  \<open>memcmp\<close> of the beginning of a buffer with a constant: the buffer must be that long. The header is a C string, so
  \<open>formatVersionHeaderSize\<close> bytes of it end with the null byte.
\<close>

definition starts_with :: "data \<Rightarrow> data \<Rightarrow> bool result" where
  "starts_with d prefix = (if length d < length prefix then Inl MemoryFault else Inr (memcmp (take (length prefix) d) prefix = 0))"

definition OnDiskBlockStore2_isAcceptedCryfsHeader :: "data \<Rightarrow> bool result" where
  "OnDiskBlockStore2_isAcceptedCryfsHeader d = starts_with d (OnDiskBlockStore2_FORMAT_VERSION_HEADER @ [0])"

definition OnDiskBlockStore2_isOtherCryfsHeader :: "data \<Rightarrow> bool result" where
  "OnDiskBlockStore2_isOtherCryfsHeader d = starts_with d OnDiskBlockStore2_FORMAT_VERSION_HEADER_PREFIX"

definition OnDiskBlockStore2_checkAndRemoveHeader :: "data \<Rightarrow> data result" where
  "OnDiskBlockStore2_checkAndRemoveHeader d =
     rbind (OnDiskBlockStore2_isAcceptedCryfsHeader d) (\<lambda>accepted.
     if \<not> accepted then
       rbind (OnDiskBlockStore2_isOtherCryfsHeader d) (\<lambda>other.
       if other then Inl (RuntimeError ''This block is not supported yet. Maybe it was created with a newer version of CryFS?'')
       else Inl (RuntimeError ''This is not a valid block.''))
     else Inr (slice formatVersionHeaderSize (length d - formatVersionHeaderSize) d))"

definition OnDiskBlockStore2_store :: "'d disk \<Rightarrow> block_id \<Rightarrow> data \<Rightarrow> ('d, unit) exec" where
  "OnDiskBlockStore2_store dk blockId d =
     ebind (lift_result (OnDiskBlockStore2_getFilepath blockId)) (\<lambda>filepath.
     ebind (create_directory_of dk (butlast filepath)) (\<lambda>_.
     Data_StoreToFile dk (OnDiskBlockStore2_FORMAT_VERSION_HEADER @ [0] @ d) filepath))"

definition OnDiskBlockStore2_tryCreate :: "'d disk \<Rightarrow> block_id \<Rightarrow> data \<Rightarrow> ('d, bool) exec" where
  "OnDiskBlockStore2_tryCreate dk blockId d =
     ebind (lift_result (OnDiskBlockStore2_getFilepath blockId)) (\<lambda>filepath.
     ebind (exists_of dk filepath) (\<lambda>ex.
     if ex then ret False
     else ebind (OnDiskBlockStore2_store dk blockId d) (\<lambda>_. ret True)))"

definition OnDiskBlockStore2_remove :: "'d disk \<Rightarrow> block_id \<Rightarrow> ('d, bool) exec" where
  "OnDiskBlockStore2_remove dk blockId =
     ebind (lift_result (OnDiskBlockStore2_getFilepath blockId)) (\<lambda>filepath.
     ebind (is_regular_file_of dk filepath) (\<lambda>regular.
     if \<not> regular then ret False
     else ebind (remove_path_of dk filepath) (\<lambda>retval.
       if \<not> retval then ret False
       else ebind (is_empty_of dk (butlast filepath)) (\<lambda>empty.
         if empty then ebind (remove_path_of dk (butlast filepath)) (\<lambda>_. ret True) else ret True))))"

definition OnDiskBlockStore2_load :: "'d disk \<Rightarrow> block_id \<Rightarrow> ('d, data option) exec" where
  "OnDiskBlockStore2_load dk blockId =
     ebind (lift_result (OnDiskBlockStore2_getFilepath blockId)) (\<lambda>filepath.
     ebind (Data_LoadFromFile dk filepath) (\<lambda>fileContent.
     case fileContent of
       None \<Rightarrow> ret None
     | Some d \<Rightarrow> ebind (lift_result (OnDiskBlockStore2_checkAndRemoveHeader d)) (\<lambda>x. ret (Some x))))"

primrec numBlocks_loop :: "'d disk \<Rightarrow> nat \<Rightarrow> string list \<Rightarrow> ('d, nat) exec" where
  "numBlocks_loop dk count [] = ret count"
| "numBlocks_loop dk count (prefixDir # dirs) =
     ebind (is_directory_of dk [prefixDir]) (\<lambda>dir.
     if dir then ebind (directory_iterator_of dk [prefixDir]) (\<lambda>es. numBlocks_loop dk (count + length es) dirs)
     else numBlocks_loop dk count dirs)"

definition OnDiskBlockStore2_numBlocks :: "'d disk \<Rightarrow> ('d, nat) exec" where
  "OnDiskBlockStore2_numBlocks dk = ebind (directory_iterator_of dk []) (\<lambda>dirs. numBlocks_loop dk 0 dirs)"

definition OnDiskBlockStore2_estimateNumFreeBytes :: "'d disk \<Rightarrow> ('d, nat) exec" where
  "OnDiskBlockStore2_estimateNumFreeBytes dk = free_disk_space_of dk"

definition OnDiskBlockStore2_blockSizeFromPhysicalBlockSize :: "nat \<Rightarrow> nat" where
  "OnDiskBlockStore2_blockSizeFromPhysicalBlockSize blockSize =
     (if blockSize \<le> formatVersionHeaderSize then 0 else blockSize - formatVersionHeaderSize)"

definition valid_name :: "nat \<Rightarrow> string \<Rightarrow> bool" where
  "valid_name n name \<longleftrightarrow> length name = n \<and> list_all (\<lambda>c. c \<in> set ALLOWED_BLOCKID_CHARACTERS) name"

primrec forEachBlock_files :: "string \<Rightarrow> string list \<Rightarrow> block_id list result" where
  "forEachBlock_files blockIdPrefix [] = Inr []"
| "forEachBlock_files blockIdPrefix (blockIdPostfix # names) =
     (if \<not> valid_name POSTFIX_LENGTH blockIdPostfix then forEachBlock_files blockIdPrefix names
      else rbind (BlockId_FromString (blockIdPrefix @ blockIdPostfix)) (\<lambda>i.
        rbind (forEachBlock_files blockIdPrefix names) (\<lambda>is. Inr (i # is))))"

primrec forEachBlock_loop :: "'d disk \<Rightarrow> string list \<Rightarrow> ('d, block_id list) exec" where
  "forEachBlock_loop dk [] = ret []"
| "forEachBlock_loop dk (prefixDir # dirs) =
     ebind (is_directory_of dk [prefixDir]) (\<lambda>dir.
     if \<not> dir then forEachBlock_loop dk dirs
     else if \<not> valid_name PREFIX_LENGTH prefixDir then forEachBlock_loop dk dirs
     else ebind (directory_iterator_of dk [prefixDir]) (\<lambda>names.
       ebind (lift_result (forEachBlock_files prefixDir names)) (\<lambda>is.
       ebind (forEachBlock_loop dk dirs) (\<lambda>js. ret (is @ js)))))"

definition OnDiskBlockStore2_forEachBlock :: "'d disk \<Rightarrow> ('d, block_id list) exec" where
  "OnDiskBlockStore2_forEachBlock dk = ebind (directory_iterator_of dk []) (\<lambda>dirs. forEachBlock_loop dk dirs)"

definition OnDiskBlockStore2 :: "'d disk \<Rightarrow> 'd block_store2" where
  "OnDiskBlockStore2 dk = \<lparr>
     tryCreate_of = OnDiskBlockStore2_tryCreate dk,
     remove_of = OnDiskBlockStore2_remove dk,
     load_of = OnDiskBlockStore2_load dk,
     store_of = OnDiskBlockStore2_store dk,
     numBlocks_of = OnDiskBlockStore2_numBlocks dk,
     estimateNumFreeBytes_of = OnDiskBlockStore2_estimateNumFreeBytes dk,
     blockSizeFromPhysicalBlockSize_of = OnDiskBlockStore2_blockSizeFromPhysicalBlockSize,
     forEachBlock_of = OnDiskBlockStore2_forEachBlock dk\<rparr>"

lemma OnDiskBlockStore2_sel [simp]:
  "tryCreate_of (OnDiskBlockStore2 dk) = OnDiskBlockStore2_tryCreate dk"
  "remove_of (OnDiskBlockStore2 dk) = OnDiskBlockStore2_remove dk"
  "load_of (OnDiskBlockStore2 dk) = OnDiskBlockStore2_load dk"
  "store_of (OnDiskBlockStore2 dk) = OnDiskBlockStore2_store dk"
  "numBlocks_of (OnDiskBlockStore2 dk) = OnDiskBlockStore2_numBlocks dk"
  "blockSizeFromPhysicalBlockSize_of (OnDiskBlockStore2 dk) = OnDiskBlockStore2_blockSizeFromPhysicalBlockSize"
  "forEachBlock_of (OnDiskBlockStore2 dk) = OnDiskBlockStore2_forEachBlock dk"
  by (simp_all add: OnDiskBlockStore2_def)

section \<open>File names\<close>

abbreviation id_dir :: "block_id \<Rightarrow> string" where
  "id_dir i \<equiv> take 3 (id_string i)"

abbreviation id_file :: "block_id \<Rightarrow> string" where
  "id_file i \<equiv> drop 3 (id_string i)"

lemma getFilepath_eq [simp]: "OnDiskBlockStore2_getFilepath i = Inr [id_dir i, id_file i]"
  by (simp add: OnDiskBlockStore2_getFilepath_def PREFIX_LENGTH_def)

lemma id_path_inject [simp]: "id_dir i = id_dir j \<and> id_file i = id_file j \<longleftrightarrow> i = j"
  by (metis append_take_drop_id id_string_inject)

lemma valid_id_names: "valid_name PREFIX_LENGTH (id_dir i)" "valid_name POSTFIX_LENGTH (id_file i)"
  using HexEncoder_allowed [of "BlockId_ToBinary i"]
  by (auto simp: valid_name_def list_all_iff PREFIX_LENGTH_def POSTFIX_LENGTH_def STRING_LENGTH_def BINARY_LENGTH_def
      dest!: in_set_takeD in_set_dropD)

lemma valid_names_id:
  assumes "valid_name PREFIX_LENGTH a" and "valid_name POSTFIX_LENGTH b"
  obtains i where "a = id_dir i" and "b = id_file i" and "BlockId_FromString (a @ b) = Inr i"
proof -
  have "set (a @ b) \<subseteq> set ALLOWED_BLOCKID_CHARACTERS" "length (a @ b) = STRING_LENGTH" "length a = 3"
    using assms by (auto simp: valid_name_def list_all_iff PREFIX_LENGTH_def POSTFIX_LENGTH_def STRING_LENGTH_def BINARY_LENGTH_def)
  with id_string_surj [of "a @ b"] that show ?thesis by (metis append_eq_conv_conj)
qed

lemma header_length [simp]: "length OnDiskBlockStore2_FORMAT_VERSION_HEADER = 13" "formatVersionHeaderSize = 14"
  by (simp_all add: formatVersionHeaderSize_def OnDiskBlockStore2_FORMAT_VERSION_HEADER_def
      OnDiskBlockStore2_FORMAT_VERSION_HEADER_PREFIX_def ascii_def)

definition disk_header :: data where
  "disk_header = OnDiskBlockStore2_FORMAT_VERSION_HEADER @ [0]"

lemma length_disk_header [simp]: "length disk_header = 14"
  by (simp add: disk_header_def)

lemma header_and_data: "OnDiskBlockStore2_FORMAT_VERSION_HEADER @ [0] @ d = disk_header @ d"
  by (simp add: disk_header_def)

lemma checkAndRemoveHeader_eq [simp]: "OnDiskBlockStore2_checkAndRemoveHeader (disk_header @ d) = Inr d"
  by (simp add: disk_header_def OnDiskBlockStore2_checkAndRemoveHeader_def OnDiskBlockStore2_isAcceptedCryfsHeader_def starts_with_def
      memcmp_zero slice_def)

lemma Data_LoadFromStream_all:
  "Data_LoadFromStream \<lparr>is_bytes = c, is_pos = 0, is_limit = length c, is_good = True\<rparr> =
     (c, \<lparr>is_bytes = c, is_pos = length c, is_limit = length c, is_good = True\<rparr>)"
  by (simp add: Data_LoadFromStream_def Data_LoadFromStream_size_def Data_getStreamSize_def slice_def Let_def)

section \<open>The laws of a disk\<close>

text \<open>
  \<open>tree d\<close> is the tree of files, with the directory of the store as root. \<open>room d n\<close> says that \<open>n\<close> more files can be
  written, \<open>fits\<close> which contents a file can have: without room, a write fails.
\<close>

datatype disk_node = Folder | Regular data

locale disk_laws =
  fixes dk :: "'d disk" and dinv :: "'d \<Rightarrow> bool" and tree :: "'d \<Rightarrow> disk_path \<rightharpoonup> disk_node"
    and fits :: "data \<Rightarrow> bool" and room :: "'d \<Rightarrow> nat \<Rightarrow> bool"
  assumes parents: "dinv d \<Longrightarrow> tree d [] = Some Folder" "dinv d \<Longrightarrow> tree d (p @ [name]) \<noteq> None \<Longrightarrow> tree d p = Some Folder"
    and exists_law: "dinv d \<Longrightarrow> yields (exists_of dk p) d (tree d p \<noteq> None)
      (\<lambda>e. dinv e \<and> tree e = tree d \<and> room e = room d)"
    and is_regular_file: "dinv d \<Longrightarrow> yields (is_regular_file_of dk p) d (\<exists>c. tree d p = Some (Regular c))
      (\<lambda>e. dinv e \<and> tree e = tree d \<and> room e = room d)"
    and is_directory: "dinv d \<Longrightarrow> yields (is_directory_of dk p) d (tree d p = Some Folder)
      (\<lambda>e. dinv e \<and> tree e = tree d \<and> room e = room d)"
    and is_empty: "dinv d \<Longrightarrow> tree d p = Some Folder \<Longrightarrow> yields (is_empty_of dk p) d (\<forall>name. tree d (p @ [name]) = None)
      (\<lambda>e. dinv e \<and> tree e = tree d \<and> room e = room d)"
    and remove_path: "dinv d \<Longrightarrow> p \<noteq> [] \<Longrightarrow> tree d p \<noteq> None \<Longrightarrow> (\<forall>name. tree d (p @ [name]) = None) \<Longrightarrow>
      yields (remove_path_of dk p) d True (\<lambda>e. dinv e \<and> tree e = (tree d)(p := None) \<and> (\<forall>n. room d n \<longrightarrow> room e n))"
    and create_directory: "dinv d \<Longrightarrow> tree d p = Some Folder \<Longrightarrow> tree d (p @ [name]) \<in> {None, Some Folder} \<Longrightarrow> room d (Suc 0) \<Longrightarrow>
      yields (create_directory_of dk (p @ [name])) d (tree d (p @ [name]) = None)
        (\<lambda>e. dinv e \<and> tree e = (tree d)(p @ [name] \<mapsto> Folder) \<and> (\<forall>n. room d n \<longrightarrow> room e n))"
    and open_in: "dinv d \<Longrightarrow> tree d p \<noteq> Some Folder \<Longrightarrow> \<exists>stream. yields (open_in_of dk p) d stream
        (\<lambda>e. dinv e \<and> tree e = tree d \<and> room e = room d) \<and>
      (case tree d p of
         Some (Regular c) \<Rightarrow> stream = \<lparr>is_bytes = c, is_pos = 0, is_limit = length c, is_good = True\<rparr>
       | _ \<Rightarrow> \<not> is_good stream)"
    and open_out: "dinv d \<Longrightarrow> tree d p = Some Folder \<Longrightarrow> tree d (p @ [name]) \<noteq> Some Folder \<Longrightarrow> room d (Suc 0) \<Longrightarrow>
      yields (open_out_of dk (p @ [name])) d True
        (\<lambda>e. dinv e \<and> tree e = (tree d)(p @ [name] \<mapsto> Regular []) \<and> (\<forall>n. room d n \<longrightarrow> room e n))"
    and put: "dinv d \<Longrightarrow> tree d p = Some (Regular []) \<Longrightarrow> fits c \<Longrightarrow> room d (Suc 0) \<Longrightarrow>
      yields (put_of dk p c) d True
        (\<lambda>e. dinv e \<and> tree e = (tree d)(p \<mapsto> Regular c) \<and> (\<forall>n. room d (Suc n) \<longrightarrow> room e n))"
    and directory_iterator: "dinv d \<Longrightarrow> tree d p = Some Folder \<Longrightarrow> \<exists>ns. yields (directory_iterator_of dk p) d ns
      (\<lambda>e. dinv e \<and> tree e = tree d \<and> room e = room d) \<and> distinct ns \<and> set ns = {name. tree d (p @ [name]) \<noteq> None}"
    and room_mono: "room d n \<Longrightarrow> m \<le> n \<Longrightarrow> room d m"
begin

lemma load_file:
  assumes "dinv d" and "tree d p \<noteq> Some Folder"
  shows "yields (Data_LoadFromFile dk p) d (case tree d p of Some (Regular c) \<Rightarrow> Some c | _ \<Rightarrow> None)
    (\<lambda>e. dinv e \<and> tree e = tree d \<and> room e = room d)"
proof -
  obtain stream where s: "yields (open_in_of dk p) d stream (\<lambda>e. dinv e \<and> tree e = tree d \<and> room e = room d)"
    "case tree d p of Some (Regular c) \<Rightarrow> stream = \<lparr>is_bytes = c, is_pos = 0, is_limit = length c, is_good = True\<rparr>
       | _ \<Rightarrow> \<not> is_good stream"
    using open_in [OF assms] by blast
  show ?thesis
    unfolding Data_LoadFromFile_def
    using s(2) assms(2)
    by (intro yields_ebind [OF s(1)]) (auto simp: Data_LoadFromStream_all split: option.splits disk_node.splits)
qed

lemma store_file:
  assumes "dinv d" and "tree d p = Some Folder" and "tree d (p @ [name]) \<noteq> Some Folder" and "fits c" and "room d (Suc 0)"
  shows "yields (Data_StoreToFile dk c (p @ [name])) d ()
    (\<lambda>e. dinv e \<and> tree e = (tree d)(p @ [name] \<mapsto> Regular c) \<and> (\<forall>n. room d (Suc n) \<longrightarrow> room e n))"
  unfolding Data_StoreToFile_def Data_StoreToStream_def
proof (rule yields_ebind [OF open_out [OF assms(1-3,5)]], elim conjE)
  fix e assume e: "dinv e" "tree e = (tree d)(p @ [name] \<mapsto> Regular [])" "\<forall>n. room d n \<longrightarrow> room e n"
  have w: "yields (put_of dk (p @ [name]) c) e True
      (\<lambda>f. dinv f \<and> tree f = (tree e)(p @ [name] \<mapsto> Regular c) \<and> (\<forall>n. room e (Suc n) \<longrightarrow> room f n))"
    using e assms by (intro put) auto
  show "yields (if \<not> True then throw (RuntimeError ''Could not open file for writing'')
      else ebind (put_of dk (p @ [name]) c) (\<lambda>good. if \<not> good then throw (RuntimeError ''Error writing to file'') else ret ())) e ()
      (\<lambda>e. dinv e \<and> tree e = (tree d)(p @ [name] \<mapsto> Regular c) \<and> (\<forall>n. room d (Suc n) \<longrightarrow> room e n))"
    using e by (auto intro!: yields_ebind [OF w])
qed

end

section \<open>The store meets the contract\<close>

text \<open>
  What the directory looks like: whatever is in a subdirectory is a block with its header, and no file stands in
  the place of a subdirectory. Other files, such as the configuration file, are allowed beside the subdirectories.
\<close>

definition disk_blocks :: "('d \<Rightarrow> disk_path \<rightharpoonup> disk_node) \<Rightarrow> 'd \<Rightarrow> block_id \<rightharpoonup> data" where
  "disk_blocks tree d i = (case tree d [id_dir i, id_file i] of Some (Regular c) \<Rightarrow> Some (drop 14 c) | _ \<Rightarrow> None)"

definition disk_inv :: "('d \<Rightarrow> bool) \<Rightarrow> ('d \<Rightarrow> disk_path \<rightharpoonup> disk_node) \<Rightarrow> 'd \<Rightarrow> bool" where
  "disk_inv dinv tree d \<longleftrightarrow> dinv d \<and>
     (\<forall>a b n. tree d [a, b] = Some n \<longrightarrow> (\<exists>i c. a = id_dir i \<and> b = id_file i \<and> n = Regular (disk_header @ c))) \<and>
     (\<forall>i. tree d [id_dir i] \<in> {None, Some Folder})"

definition disk_fits :: "(data \<Rightarrow> bool) \<Rightarrow> data \<Rightarrow> bool" where
  "disk_fits fits d \<longleftrightarrow> fits (disk_header @ d)"

context disk_laws
begin

abbreviation "sinv \<equiv> disk_inv dinv tree"
abbreviation "sblocks \<equiv> disk_blocks tree"

lemma sinv_dinv: "sinv d \<Longrightarrow> dinv d"
  by (simp add: disk_inv_def)

lemma sinv_cong: "sinv d \<Longrightarrow> dinv e \<Longrightarrow> tree e = tree d \<Longrightarrow> sinv e \<and> sblocks e = sblocks d"
  by (simp add: disk_inv_def disk_blocks_def fun_eq_iff)

lemma block_file:
  assumes "sinv d"
  shows "tree d [id_dir i, id_file i] = map_option (\<lambda>c. Regular (disk_header @ c)) (sblocks d i)"
proof (cases "tree d [id_dir i, id_file i]")
  case (Some n)
  then obtain c where "n = Regular (disk_header @ c)" using assms unfolding disk_inv_def by blast
  then show ?thesis using Some by (simp add: disk_blocks_def)
qed (simp add: disk_blocks_def)

lemma ebind_lift_Inr [simp]: "ebind (lift_result (Inr x)) f = f x"
  by (simp add: fun_eq_iff)

lemma ebind_path: "ebind (lift_result (OnDiskBlockStore2_getFilepath i)) f = f [id_dir i, id_file i]"
  by simp

lemma disk_load:
  assumes "sinv d"
  shows "yields (OnDiskBlockStore2_load dk i) d (sblocks d i) (\<lambda>e. sinv e \<and> sblocks e = sblocks d \<and> room e = room d)"
proof -
  note f = block_file [OF assms, of i]
  have l: "yields (Data_LoadFromFile dk [id_dir i, id_file i]) d (map_option (\<lambda>c. disk_header @ c) (sblocks d i))
      (\<lambda>e. dinv e \<and> tree e = tree d \<and> room e = room d)"
    using load_file [OF sinv_dinv [OF assms], of "[id_dir i, id_file i]"] unfolding f by (cases "sblocks d i") simp_all
  show ?thesis
    unfolding OnDiskBlockStore2_load_def ebind_path
    by (intro yields_ebind [OF l]) (use assms sinv_cong in \<open>auto split: option.splits\<close>)
qed

lemma sinv_file:
  assumes "sinv d" and "dinv e" and "tree e = (tree d)([id_dir i] \<mapsto> Folder, [id_dir i, id_file i] \<mapsto> Regular (disk_header @ c))"
  shows "sinv e \<and> sblocks e = (sblocks d)(i \<mapsto> c)"
proof -
  have "sblocks e j = ((sblocks d)(i \<mapsto> c)) j" for j
    using assms(3) id_path_inject [of j i] by (auto simp: disk_blocks_def)
  then show ?thesis
    using assms unfolding disk_inv_def by (auto simp: fun_eq_iff)
qed

lemma disk_store:
  assumes "sinv d" and "disk_fits fits c" and "room d (Suc 0)"
  shows "yields (OnDiskBlockStore2_store dk i c) d ()
    (\<lambda>e. sinv e \<and> sblocks e = (sblocks d)(i \<mapsto> c) \<and> (\<forall>n. room d (Suc n) \<longrightarrow> room e n))"
proof -
  have d: "dinv d" "tree d [] = Some Folder" "tree d ([] @ [id_dir i]) \<in> {None, Some Folder}"
    using assms parents(1) by (auto simp: disk_inv_def)
  have c: "yields (create_directory_of dk (butlast [id_dir i, id_file i])) d (tree d [id_dir i] = None)
      (\<lambda>e. dinv e \<and> tree e = (tree d)([id_dir i] \<mapsto> Folder) \<and> (\<forall>n. room d n \<longrightarrow> room e n))"
    using create_directory [OF d assms(3)] by simp
  show ?thesis
    unfolding OnDiskBlockStore2_store_def ebind_path header_and_data
  proof (rule yields_ebind [OF c], elim conjE)
    fix e assume e: "dinv e" "tree e = (tree d)([id_dir i] \<mapsto> Folder)" "\<forall>n. room d n \<longrightarrow> room e n"
    have "tree e ([id_dir i] @ [id_file i]) \<noteq> Some Folder"
      using block_file [OF assms(1), of i] e(2) by (cases "sblocks d i") auto
    from store_file [OF e(1) _ this, of "disk_header @ c"] e assms(2,3)
    have w: "yields (Data_StoreToFile dk (disk_header @ c) [id_dir i, id_file i]) e ()
        (\<lambda>f. dinv f \<and> tree f = (tree d)([id_dir i] \<mapsto> Folder, [id_dir i, id_file i] \<mapsto> Regular (disk_header @ c)) \<and>
          (\<forall>n. room e (Suc n) \<longrightarrow> room f n))"
      by (simp add: disk_fits_def)
    show "yields (Data_StoreToFile dk (disk_header @ c) [id_dir i, id_file i]) e ()
        (\<lambda>e. sinv e \<and> sblocks e = (sblocks d)(i \<mapsto> c) \<and> (\<forall>n. room d (Suc n) \<longrightarrow> room e n))"
      by (rule yields_mono [OF w]) (use sinv_file [OF assms(1)] e(3) in blast)
  qed
qed

lemma disk_tryCreate:
  assumes "sinv d" and "disk_fits fits c" and "room d (Suc 0)"
  shows "yields (OnDiskBlockStore2_tryCreate dk i c) d (sblocks d i = None)
    (\<lambda>e. sinv e \<and> sblocks e = (if sblocks d i = None then (sblocks d)(i \<mapsto> c) else sblocks d) \<and>
      (\<forall>n. room d (if sblocks d i = None then Suc n else n) \<longrightarrow> room e n))"
proof -
  have x: "yields (exists_of dk [id_dir i, id_file i]) d (sblocks d i \<noteq> None) (\<lambda>e. dinv e \<and> tree e = tree d \<and> room e = room d)"
    using exists_law [OF sinv_dinv [OF assms(1)], of "[id_dir i, id_file i]"] unfolding block_file [OF assms(1)] by simp
  show ?thesis
    unfolding OnDiskBlockStore2_tryCreate_def ebind_path
  proof (rule yields_ebind [OF x], elim conjE)
    fix e assume e: "dinv e" "tree e = tree d" "room e = room d"
    then have s: "sinv e" "sblocks e = sblocks d" using sinv_cong [OF assms(1)] by blast+
    then show "yields (if sblocks d i \<noteq> None then ret False else ebind (OnDiskBlockStore2_store dk i c) (\<lambda>_. ret True)) e
        (sblocks d i = None)
        (\<lambda>e. sinv e \<and> sblocks e = (if sblocks d i = None then (sblocks d)(i \<mapsto> c) else sblocks d) \<and>
          (\<forall>n. room d (if sblocks d i = None then Suc n else n) \<longrightarrow> room e n))"
      using yields_ebind [OF disk_store [OF s(1) assms(2), of i], of "\<lambda>_. ret True"] e assms(3)
      by (cases "sblocks d i") (simp_all add: fun_upd_def)
  qed
qed

lemma sinv_removed:
  assumes "sinv d" and "dinv e" and "tree e = (tree d)([id_dir i, id_file i] := None) \<or>
    tree e = (tree d)([id_dir i, id_file i] := None, [id_dir i] := None)"
  shows "sinv e \<and> sblocks e = (sblocks d)(i := None)"
proof -
  have "sblocks e j = ((sblocks d)(i := None)) j" for j
    using assms(3) id_path_inject [of j i] by (auto simp: disk_blocks_def)
  moreover have "tree e [a, b] = Some n \<Longrightarrow> tree d [a, b] = Some n" for a b n
    using assms(3) by (auto split: if_splits)
  moreover have "tree e [id_dir j] \<in> {None, Some Folder}" for j
  proof -
    have "tree e [id_dir j] = tree d [id_dir j] \<or> tree e [id_dir j] = None" using assms(3) by (auto split: if_splits)
    then show ?thesis using assms(1) unfolding disk_inv_def by auto
  qed
  ultimately show ?thesis
    using assms(1,2) unfolding disk_inv_def by (auto simp: fun_eq_iff)
qed

lemma disk_remove:
  assumes "sinv d"
  shows "yields (OnDiskBlockStore2_remove dk i) d (sblocks d i \<noteq> None)
    (\<lambda>e. sinv e \<and> sblocks e = (sblocks d)(i := None) \<and> (\<forall>n. room d n \<longrightarrow> room e n))"
proof -
  let ?p = "[id_dir i, id_file i]"
  note f = block_file [OF assms, of i]
  have r: "yields (is_regular_file_of dk ?p) d (sblocks d i \<noteq> None) (\<lambda>e. dinv e \<and> tree e = tree d \<and> room e = room d)"
    using is_regular_file [OF sinv_dinv [OF assms], of ?p] unfolding f by (cases "sblocks d i") simp_all
  show ?thesis
    unfolding OnDiskBlockStore2_remove_def ebind_path
  proof (rule yields_ebind [OF r], elim conjE)
    fix e assume e: "dinv e" "tree e = tree d" "room e = room d"
    show "yields (if \<not> sblocks d i \<noteq> None then ret False
        else ebind (remove_path_of dk ?p) (\<lambda>retval. if \<not> retval then ret False
          else ebind (is_empty_of dk (butlast ?p)) (\<lambda>empty.
            if empty then ebind (remove_path_of dk (butlast ?p)) (\<lambda>_. ret True) else ret True)))
        e (sblocks d i \<noteq> None) (\<lambda>e. sinv e \<and> sblocks e = (sblocks d)(i := None) \<and> (\<forall>n. room d n \<longrightarrow> room e n))"
    proof (cases "sblocks d i")
      case None
      then have "(sblocks d)(i := None) = sblocks d" by auto
      then show ?thesis using None e sinv_cong [OF assms e(1,2)] by simp
    next
      case (Some c)
      then have t: "tree e ?p = Some (Regular (disk_header @ c))" using f e by simp
      then have "\<forall>name. tree e (?p @ [name]) = None" using parents(2) [OF e(1), of ?p] by fastforce
      with t have rm: "yields (remove_path_of dk ?p) e True (\<lambda>f. dinv f \<and> tree f = (tree e)(?p := None) \<and> (\<forall>n. room e n \<longrightarrow> room f n))"
        by (intro remove_path [OF e(1)]) auto
      have dir: "tree e [id_dir i] = Some Folder" using parents(2) [OF e(1), of "[id_dir i]" "id_file i"] t by simp
      have "yields (ebind (is_empty_of dk [id_dir i]) (\<lambda>empty. if empty then ebind (remove_path_of dk [id_dir i]) (\<lambda>_. ret True) else ret True))
          g True (\<lambda>e. sinv e \<and> sblocks e = (sblocks d)(i := None) \<and> (\<forall>n. room d n \<longrightarrow> room e n))"
        if g: "dinv g" "tree g = (tree e)(?p := None)" "\<forall>n. room e n \<longrightarrow> room g n" for g
      proof (rule yields_ebind [OF is_empty [OF g(1)]])
        show "tree g [id_dir i] = Some Folder" using g(2) dir by simp
      next
        fix h assume "dinv h \<and> tree h = tree g \<and> room h = room g"
        then have h: "dinv h" "tree h = (tree d)(?p := None)" "\<forall>n. room d n \<longrightarrow> room h n" "tree h [id_dir i] = Some Folder" "tree h = tree g"
          using g e dir by auto
        show "yields (if \<forall>name. tree g ([id_dir i] @ [name]) = None then ebind (remove_path_of dk [id_dir i]) (\<lambda>_. ret True) else ret True)
            h True (\<lambda>e. sinv e \<and> sblocks e = (sblocks d)(i := None) \<and> (\<forall>n. room d n \<longrightarrow> room e n))"
        proof (cases "\<forall>name. tree g ([id_dir i] @ [name]) = None")
          case True
          then have "yields (remove_path_of dk [id_dir i]) h True
              (\<lambda>f. dinv f \<and> tree f = (tree h)([id_dir i] := None) \<and> (\<forall>n. room h n \<longrightarrow> room f n))"
            using h(4,5) by (intro remove_path [OF h(1)]) auto
          then have "yields (remove_path_of dk [id_dir i]) h True
              (\<lambda>f. sinv f \<and> sblocks f = (sblocks d)(i := None) \<and> (\<forall>n. room d n \<longrightarrow> room f n))"
            by (rule yields_mono) (use sinv_removed [OF assms] h(2,3) in auto)
          then have "yields (ebind (remove_path_of dk [id_dir i]) (\<lambda>_. ret True)) h True
              (\<lambda>f. sinv f \<and> sblocks f = (sblocks d)(i := None) \<and> (\<forall>n. room d n \<longrightarrow> room f n))"
            by (rule yields_ebind) simp
          with True show ?thesis by (simp only: simp_thms if_True)
        next
          case False
          then show ?thesis using sinv_removed [OF assms h(1), of i] h(2,3) by (simp only: if_False) simp
        qed
      qed
      then show ?thesis using Some by (auto intro!: yields_ebind [OF rm] cong: if_cong)
    qed
  qed
qed

text \<open>The files of the subdirectories are the blocks.\<close>

lemma children:
  assumes "dinv d" and "tree d p = Some Folder"
  obtains ns where "yields (directory_iterator_of dk p) d ns (\<lambda>e. dinv e \<and> tree e = tree d \<and> room e = room d)"
    and "distinct ns" and "set ns = {name. tree d (p @ [name]) \<noteq> None}"
  using directory_iterator [OF assms] by blast

lemma children_run:
  assumes "dinv d" and "tree d p = Some Folder"
  obtains ns e where "directory_iterator_of dk p d = (Inr ns, e)" and "dinv e" and "tree e = tree d" and "room e = room d"
    and "distinct ns" and "set ns = {name. tree d (p @ [name]) \<noteq> None}"
proof -
  obtain ns where "yields (directory_iterator_of dk p) d ns (\<lambda>e. dinv e \<and> tree e = tree d \<and> room e = room d)"
    "distinct ns" "set ns = {name. tree d (p @ [name]) \<noteq> None}"
    using assms by (rule children)
  then show thesis using that by (auto elim!: yieldsE)
qed

lemma finite_children: "dinv d \<Longrightarrow> tree d p = Some Folder \<Longrightarrow> finite {name. tree d (p @ [name]) \<noteq> None}"
  by (metis children List.finite_set)

lemma block_iff: "sinv d \<Longrightarrow> tree d [id_dir i, id_file i] \<noteq> None \<longleftrightarrow> i \<in> dom (sblocks d)"
  by (simp add: block_file dom_def)

lemma entry_block: "sinv d \<Longrightarrow> tree d [a, b] \<noteq> None \<Longrightarrow> \<exists>i\<in>dom (sblocks d). a = id_dir i \<and> b = id_file i"
  using block_iff unfolding disk_inv_def by blast

lemma entry_folder: "sinv d \<Longrightarrow> tree d [a, b] \<noteq> None \<Longrightarrow> tree d [a] = Some Folder"
  using parents(2) [of d "[a]" b] by (simp add: sinv_dinv)

lemma block_folder: "sinv d \<Longrightarrow> i \<in> dom (sblocks d) \<Longrightarrow> tree d [id_dir i] = Some Folder"
  using entry_folder [of d "id_dir i" "id_file i"] block_iff by blast

lemma block_paths:
  assumes "sinv d"
  shows "(\<lambda>i. (id_dir i, id_file i)) ` dom (sblocks d) =
    (SIGMA a : {a. tree d [a] = Some Folder}. {b. tree d [a, b] \<noteq> None})" (is "?l = ?r")
proof
  show "?l \<subseteq> ?r" using block_folder [OF assms] block_iff [OF assms] by auto
  show "?r \<subseteq> ?l" using entry_block [OF assms] by (auto simp: image_iff)
qed

lemma inj_block_paths: "inj_on (\<lambda>i. (id_dir i, id_file i)) A"
  by (rule inj_onI) simp

lemma count_blocks:
  assumes "sinv d"
  shows "finite (dom (sblocks d))"
    and "card (dom (sblocks d)) = (\<Sum>a | tree d [a] = Some Folder. card {b. tree d [a, b] \<noteq> None})"
proof -
  let ?A = "{a. tree d [a] = Some Folder}"
  note d = sinv_dinv [OF assms]
  have A: "finite ?A" by (rule finite_subset [OF _ finite_children [OF d parents(1) [OF d]]]) auto
  have B: "\<forall>a\<in>?A. finite {b. tree d [a, b] \<noteq> None}" using finite_children [OF d, of "[_]"] by simp
  have fin: "finite (SIGMA a : ?A. {b. tree d [a, b] \<noteq> None})" using A B by blast
  then show "finite (dom (sblocks d))"
    unfolding block_paths [OF assms, symmetric] by (rule finite_imageD [OF _ inj_block_paths])
  show "card (dom (sblocks d)) = (\<Sum>a | tree d [a] = Some Folder. card {b. tree d [a, b] \<noteq> None})"
    using card_image [OF inj_block_paths, of "dom (sblocks d)"] card_SigmaI [OF A B] by (simp add: block_paths [OF assms])
qed

lemma numBlocks_loop_counts:
  "dinv d \<Longrightarrow> yields (numBlocks_loop dk k ns) d
     (k + (\<Sum>a\<leftarrow>ns. if tree d [a] = Some Folder then card {b. tree d [a, b] \<noteq> None} else 0))
     (\<lambda>e. dinv e \<and> tree e = tree d \<and> room e = room d)"
proof (induction ns arbitrary: k d)
  case (Cons a ns)
  show ?case
    unfolding numBlocks_loop.simps
  proof (rule yields_ebind [OF is_directory [OF Cons.prems, of "[a]"]], elim conjE)
    fix e assume e: "dinv e" "tree e = tree d" "room e = room d"
    note IH = Cons.IH [OF e(1), unfolded e(2,3)]
    show "yields (if tree d [a] = Some Folder then ebind (directory_iterator_of dk [a]) (\<lambda>es. numBlocks_loop dk (k + length es) ns)
        else numBlocks_loop dk k ns) e
        (k + (\<Sum>a\<leftarrow>a # ns. if tree d [a] = Some Folder then card {b. tree d [a, b] \<noteq> None} else 0))
        (\<lambda>e. dinv e \<and> tree e = tree d \<and> room e = room d)"
    proof (cases "tree d [a] = Some Folder")
      case True
      then obtain es where es: "yields (directory_iterator_of dk [a]) e es (\<lambda>f. dinv f \<and> tree f = tree e \<and> room f = room e)"
        "distinct es" "set es = {b. tree d [a, b] \<noteq> None}"
        using children [OF e(1), of "[a]"] e(2) by auto
      have "yields (ebind (directory_iterator_of dk [a]) (\<lambda>es. numBlocks_loop dk (k + length es) ns)) e
          (k + length es + (\<Sum>a\<leftarrow>ns. if tree d [a] = Some Folder then card {b. tree d [a, b] \<noteq> None} else 0))
          (\<lambda>e. dinv e \<and> tree e = tree d \<and> room e = room d)"
      proof (rule yields_ebind [OF es(1)], elim conjE)
        fix f assume f: "dinv f" "tree f = tree e" "room f = room e"
        show "yields (numBlocks_loop dk (k + length es) ns) f
            (k + length es + (\<Sum>a\<leftarrow>ns. if tree d [a] = Some Folder then card {b. tree d [a, b] \<noteq> None} else 0))
            (\<lambda>e. dinv e \<and> tree e = tree d \<and> room e = room d)"
          using Cons.IH [OF f(1), of "k + length es"] unfolding f(2,3) e(2,3) .
      qed
      then show ?thesis using True es(3) distinct_card [OF es(2)] by (simp add: add.assoc)
    qed (use IH [of k] in simp)
  qed
qed simp

lemma disk_numBlocks:
  assumes "sinv d"
  shows "yields (OnDiskBlockStore2_numBlocks dk) d (card (dom (sblocks d))) (\<lambda>e. sinv e \<and> sblocks e = sblocks d \<and> room e = room d)"
proof -
  note d = sinv_dinv [OF assms] parents(1) [OF sinv_dinv [OF assms]]
  obtain ns where ns: "yields (directory_iterator_of dk []) d ns (\<lambda>e. dinv e \<and> tree e = tree d \<and> room e = room d)"
    "distinct ns" "set ns = {a. tree d ([] @ [a]) \<noteq> None}"
    using children [OF d] by blast
  have "(\<Sum>a\<leftarrow>ns. if tree d [a] = Some Folder then card {b. tree d [a, b] \<noteq> None} else 0) = card (dom (sblocks d))"
    unfolding count_blocks(2) [OF assms] sum_list_distinct_conv_sum_set [OF ns(2)]
    by (rule sum.mono_neutral_cong_right) (use ns(3) finite_set [of ns] in auto)
  note total = this
  have "yields (numBlocks_loop dk 0 ns) e (card (dom (sblocks d))) (\<lambda>f. sinv f \<and> sblocks f = sblocks d \<and> room f = room d)"
    if "dinv e" "tree e = tree d" "room e = room d" for e
  proof (rule yields_mono)
    show "yields (numBlocks_loop dk 0 ns) e (card (dom (sblocks d))) (\<lambda>f. dinv f \<and> tree f = tree d \<and> room f = room d)"
      using numBlocks_loop_counts [OF that(1), of 0 ns] total unfolding that(2,3) by simp
  qed (use sinv_cong [OF assms] in auto)
  then show ?thesis
    unfolding OnDiskBlockStore2_numBlocks_def by (intro yields_ebind [OF ns(1)]) blast
qed

lemma forEachBlock_files_ids:
  assumes "valid_name PREFIX_LENGTH a" and "distinct ns"
  shows "\<exists>is. forEachBlock_files a ns = Inr is \<and> distinct is \<and> set is = {i. id_dir i = a \<and> id_file i \<in> set ns}"
  using assms(2)
proof (induction ns)
  case (Cons b ns)
  then obtain "is" where r: "forEachBlock_files a ns = Inr is" "distinct is" "set is = {i. id_dir i = a \<and> id_file i \<in> set ns}"
    by auto
  show ?case
  proof (cases "valid_name POSTFIX_LENGTH b")
    case True
    then obtain i where i: "a = id_dir i" "b = id_file i" "BlockId_FromString (a @ b) = Inr i"
      using assms(1) valid_names_id by blast
    have "{j. id_dir j = a \<and> id_file j \<in> set (b # ns)} = insert i (set is)"
      unfolding r(3) using i(1,2) id_path_inject [of _ i] by fastforce
    then show ?thesis using True r i Cons.prems by auto
  next
    case False
    then have "id_file j \<noteq> b" for j using valid_id_names by blast
    then show ?thesis using False r by auto
  qed
qed simp

lemma forEachBlock_loop_ids:
  "sinv d \<Longrightarrow> distinct ns \<Longrightarrow> \<exists>is. yields (forEachBlock_loop dk ns) d is (\<lambda>e. sinv e \<and> sblocks e = sblocks d \<and> room e = room d) \<and>
     distinct is \<and> set is = {i \<in> dom (sblocks d). id_dir i \<in> set ns}"
proof (induction ns arbitrary: d)
  case (Cons a ns)
  obtain e where e: "is_directory_of dk [a] d = (Inr (tree d [a] = Some Folder), e)" "dinv e" "tree e = tree d" "room e = room d"
    using is_directory [OF sinv_dinv [OF Cons.prems(1)], of "[a]"] by (auto elim: yieldsE)
  then have s: "sinv e" "sblocks e = sblocks d" using sinv_cong [OF Cons.prems(1)] by blast+
  have skip: "{i \<in> dom (sblocks d). id_dir i = a} = {}" if "\<not> (tree d [a] = Some Folder \<and> valid_name PREFIX_LENGTH a)"
    using block_folder [OF Cons.prems(1)] valid_id_names that by blast
  show ?case
  proof (cases "tree d [a] = Some Folder \<and> valid_name PREFIX_LENGTH a")
    case True
    obtain names f where f: "directory_iterator_of dk [a] e = (Inr names, f)" "dinv f" "tree f = tree d" "room f = room d"
      "distinct names" "set names = {b. tree d ([a] @ [b]) \<noteq> None}"
      using children_run [OF e(2), of "[a]"] True unfolding e(3,4) by blast
    have t: "sinv f" "sblocks f = sblocks d" using sinv_cong [OF Cons.prems(1) f(2,3)] by blast+
    obtain "is" where i: "forEachBlock_files a names = Inr is" "distinct is" "set is = {i. id_dir i = a \<and> id_file i \<in> set names}"
      using forEachBlock_files_ids f(5) True by blast
    obtain js g where j: "forEachBlock_loop dk ns f = (Inr js, g)" "sinv g" "sblocks g = sblocks d" "room g = room d" "distinct js"
      "set js = {i \<in> dom (sblocks d). id_dir i \<in> set ns}"
      using Cons.IH [OF t(1)] Cons.prems(2) t(2) f(4) by (auto elim!: yieldsE)
    have "set is = {i \<in> dom (sblocks d). id_dir i = a}"
      unfolding i(3) f(6) by (auto simp: block_iff [OF Cons.prems(1), symmetric])
    then have "distinct (is @ js)" "set (is @ js) = {i \<in> dom (sblocks d). id_dir i \<in> set (a # ns)}"
      using i(2) j(5,6) Cons.prems(2) by auto
    then show ?thesis using True e(1) f(1) i(1) j(1-4)
      by (intro exI [of _ "is @ js"]) (auto simp: yields_def ebind_def)
  next
    case False
    obtain js g where j: "forEachBlock_loop dk ns e = (Inr js, g)" "sinv g" "sblocks g = sblocks d" "room g = room d" "distinct js"
      "set js = {i \<in> dom (sblocks d). id_dir i \<in> set ns}"
      using Cons.IH [OF s(1)] Cons.prems(2) s(2) e(4) by (auto elim!: yieldsE)
    then show ?thesis using False e(1) skip [OF False]
      by (intro exI [of _ js]) (auto simp: yields_def ebind_def)
  qed
qed simp

lemma disk_forEachBlock:
  assumes "sinv d"
  shows "\<exists>is. yields (OnDiskBlockStore2_forEachBlock dk) d is (\<lambda>e. sinv e \<and> sblocks e = sblocks d) \<and> distinct is \<and>
    set is = dom (sblocks d)"
proof -
  note d = sinv_dinv [OF assms] parents(1) [OF sinv_dinv [OF assms]]
  obtain ns e where ns: "directory_iterator_of dk [] d = (Inr ns, e)" "dinv e" "tree e = tree d" "distinct ns"
    "set ns = {a. tree d ([] @ [a]) \<noteq> None}"
    using d by (rule children_run)
  have s: "sinv e" "sblocks e = sblocks d" using sinv_cong [OF assms ns(2,3)] by blast+
  have "id_dir i \<in> set ns" if "i \<in> dom (sblocks d)" for i
    using block_folder [OF assms that] ns(5) by simp
  then have "{i \<in> dom (sblocks d). id_dir i \<in> set ns} = dom (sblocks d)" by blast
  then show ?thesis
    using forEachBlock_loop_ids [OF s(1) ns(4)] ns(1) s(2)
    by (auto simp: OnDiskBlockStore2_forEachBlock_def yields_def ebind_def)
qed

lemma on_disk_strict: "block_store2_strict (OnDiskBlockStore2 dk) sinv sblocks (disk_fits fits) room"
proof unfold_locales
  fix d i c
  assume inv: "sinv d"
  show "yields (load_of (OnDiskBlockStore2 dk) i) d (sblocks d i)
      (\<lambda>e. sinv e \<and> sblocks e = sblocks d \<and> (\<forall>n. room d n \<longrightarrow> room e n))"
    using yields_mono [OF disk_load [OF inv]] by simp
  show "yields (remove_of (OnDiskBlockStore2 dk) i) d (sblocks d i \<noteq> None)
      (\<lambda>e. sinv e \<and> sblocks e = (sblocks d)(i := None) \<and> (\<forall>n. room d n \<longrightarrow> room e n))"
    using disk_remove [OF inv] by simp
  show "yields (numBlocks_of (OnDiskBlockStore2 dk)) d (card (dom (sblocks d)))
      (\<lambda>e. sinv e \<and> sblocks e = sblocks d \<and> (\<forall>n. room d n \<longrightarrow> room e n))"
    using yields_mono [OF disk_numBlocks [OF inv]] by simp
  show "finite (dom (sblocks d))" by (rule count_blocks(1) [OF inv])
  assume c: "disk_fits fits c" "room d (Suc 0)"
  show "yields (store_of (OnDiskBlockStore2 dk) i c) d ()
      (\<lambda>e. sinv e \<and> sblocks e = (sblocks d)(i \<mapsto> c) \<and> (\<forall>n. room d (Suc n) \<longrightarrow> room e n))"
    using disk_store [OF inv c] by simp
  show "yields (tryCreate_of (OnDiskBlockStore2 dk) i c) d True
      (\<lambda>e. sinv e \<and> sblocks e = (sblocks d)(i \<mapsto> c) \<and> (\<forall>n. room d (Suc n) \<longrightarrow> room e n))" if "sblocks d i = None"
    using disk_tryCreate [OF inv c, of i] that by simp
  show "yields (tryCreate_of (OnDiskBlockStore2 dk) i c) d False
      (\<lambda>e. sinv e \<and> sblocks e = sblocks d \<and> (\<forall>n. room d n \<longrightarrow> room e n))" if "sblocks d i \<noteq> None"
    using disk_tryCreate [OF inv c, of i] that by auto
qed (rule room_mono)

end

sublocale disk_laws \<subseteq> on_disk: block_store2_strict "OnDiskBlockStore2 dk" "disk_inv dinv tree" "disk_blocks tree" "disk_fits fits" room
  by (rule on_disk_strict)

section \<open>A disk in memory\<close>

text \<open>
  The calls on a list of paths with their contents, with the error behaviour that their documentation describes. The
  directory of the store itself is not in the list.
\<close>

type_synonym file_tree = "(disk_path \<times> disk_node) list"

definition file_at :: "file_tree \<Rightarrow> disk_path \<rightharpoonup> disk_node" where
  "file_at d p = (if p = [] then Some Folder else map_of d p)"

definition names_in :: "disk_path \<Rightarrow> file_tree \<Rightarrow> string list" where
  "names_in p d = map (last \<circ> fst) (filter (\<lambda>e. butlast (fst e) = p) d)"

definition query :: "(file_tree \<Rightarrow> 'a) \<Rightarrow> (file_tree, 'a) exec" where
  "query f d = (Inr (f d), d)"

definition memory_disk :: "nat \<Rightarrow> file_tree disk" where
  "memory_disk free = \<lparr>
     exists_of = (\<lambda>p. query (\<lambda>d. file_at d p \<noteq> None)),
     is_regular_file_of = (\<lambda>p. query (\<lambda>d. case file_at d p of Some (Regular c) \<Rightarrow> True | _ \<Rightarrow> False)),
     is_directory_of = (\<lambda>p. query (\<lambda>d. file_at d p = Some Folder)),
     is_empty_of = (\<lambda>p. query (\<lambda>d. names_in p d = [])),
     remove_path_of = (\<lambda>p d. if file_at d p = None then (Inr False, d)
       else if p = [] \<or> names_in p d \<noteq> [] then (Inl (RuntimeError ''Directory not empty''), d)
       else (Inr True, AList.delete p d)),
     create_directory_of = (\<lambda>p d. case file_at d p of
         Some Folder \<Rightarrow> (Inr False, d)
       | Some (Regular c) \<Rightarrow> (Inl (RuntimeError ''File exists''), d)
       | None \<Rightarrow> if file_at d (butlast p) = Some Folder then (Inr True, AList.update p Folder d)
           else (Inl (RuntimeError ''No such file or directory''), d)),
     open_in_of = (\<lambda>p. query (\<lambda>d. case file_at d p of
         Some (Regular c) \<Rightarrow> \<lparr>is_bytes = c, is_pos = 0, is_limit = length c, is_good = True\<rparr>
       | _ \<Rightarrow> \<lparr>is_bytes = [], is_pos = 0, is_limit = 0, is_good = False\<rparr>)),
     open_out_of = (\<lambda>p d. if file_at d p \<noteq> Some Folder \<and> file_at d (butlast p) = Some Folder
       then (Inr True, AList.update p (Regular []) d) else (Inr False, d)),
     put_of = (\<lambda>p c d. (Inr True, AList.update p (Regular c) d)),
     directory_iterator_of = (\<lambda>p d. if file_at d p = Some Folder then (Inr (names_in p d), d)
       else (Inl (RuntimeError ''No such file or directory''), d)),
     free_disk_space_of = ret free\<rparr>"

definition file_tree_inv :: "file_tree \<Rightarrow> bool" where
  "file_tree_inv d \<longleftrightarrow> distinct (map fst d) \<and> list_all (\<lambda>e. fst e \<noteq> [] \<and> file_at d (butlast (fst e)) = Some Folder) d"

lemma set_names_in: "file_tree_inv d \<Longrightarrow> set (names_in p d) = {n. file_at d (p @ [n]) \<noteq> None}"
proof -
  assume "file_tree_inv d"
  then have "\<forall>e\<in>set d. fst e \<noteq> []" by (auto simp: file_tree_inv_def list_all_iff)
  then have "set (names_in p d) = {n. p @ [n] \<in> fst ` set d}"
    by (force simp: names_in_def image_iff)
  then show ?thesis by (simp add: file_at_def map_of_eq_None_iff)
qed

lemma distinct_names_in:
  assumes "file_tree_inv d"
  shows "distinct (names_in p d)"
proof -
  have "distinct (map fst (filter (\<lambda>e. butlast (fst e) = p) d))"
    using assms by (simp add: file_tree_inv_def distinct_map_filter)
  moreover have "inj_on last (fst ` set (filter (\<lambda>e. butlast (fst e) = p) d))"
    using assms by (intro inj_onI) (auto simp: file_tree_inv_def list_all_iff, metis append_butlast_last_id fst_conv)
  ultimately show ?thesis unfolding names_in_def by (simp add: distinct_map comp_inj_on)
qed

lemma file_tree_parent: "file_tree_inv d \<Longrightarrow> file_at d (p @ [n]) \<noteq> None \<Longrightarrow> file_at d p = Some Folder"
  by (auto simp: file_tree_inv_def list_all_iff file_at_def dest!: map_of_SomeD)

lemma file_tree_update:
  assumes "file_tree_inv d" and "file_at d p = Some Folder" and "x = Folder \<or> file_at d (p @ [n]) \<noteq> Some Folder"
  shows "file_tree_inv (AList.update (p @ [n]) x d) \<and> file_at (AList.update (p @ [n]) x d) = (file_at d)(p @ [n] \<mapsto> x)"
proof -
  let ?e = "AList.update (p @ [n]) x d"
  have e: "file_at ?e = (file_at d)(p @ [n] \<mapsto> x)" by (auto simp: file_at_def fun_eq_iff update_conv')
  have "fst k \<noteq> [] \<and> file_at ?e (butlast (fst k)) = Some Folder" if "k \<in> set ?e" for k
  proof -
    have "fst k \<in> insert (p @ [n]) (fst ` set d)" using that dom_update [of "p @ [n]" x d] by blast
    then show ?thesis using assms unfolding e by (auto simp: file_tree_inv_def list_all_iff)
  qed
  with e assms(1) show ?thesis by (simp add: file_tree_inv_def distinct_update list_all_iff)
qed

lemma file_tree_delete:
  assumes "file_tree_inv d" and "p \<noteq> []" and "\<forall>n. file_at d (p @ [n]) = None"
  shows "file_tree_inv (AList.delete p d) \<and> file_at (AList.delete p d) = (file_at d)(p := None)"
proof -
  let ?e = "AList.delete p d"
  have e: "file_at ?e = (file_at d)(p := None)" using assms(2) by (auto simp: file_at_def fun_eq_iff delete_conv')
  have "fst k \<noteq> [] \<and> file_at ?e (butlast (fst k)) = Some Folder" if "k \<in> set ?e" for k
  proof -
    have k: "k \<in> set d" using that unfolding AList.delete_eq by simp
    then have "fst k \<noteq> []" "file_at d (butlast (fst k)) = Some Folder" using assms(1) by (auto simp: file_tree_inv_def list_all_iff)
    moreover have "butlast (fst k) \<noteq> p"
    proof
      assume "butlast (fst k) = p"
      then have "fst k = p @ [last (fst k)]" using \<open>fst k \<noteq> []\<close> by (metis append_butlast_last_id)
      then have "file_at d (fst k) = None" using assms(3) by metis
      then show False using k \<open>fst k \<noteq> []\<close> by (auto simp: file_at_def map_of_eq_None_iff)
    qed
    ultimately show ?thesis unfolding e by simp
  qed
  with e assms(1) show ?thesis by (simp add: file_tree_inv_def distinct_delete list_all_iff)
qed

interpretation memory_disk: disk_laws "memory_disk free" file_tree_inv file_at "\<lambda>c. True" "\<lambda>d n. True" for free
proof unfold_locales
  fix d :: file_tree and p name c
  assume d: "file_tree_inv d"
  show "file_at d [] = Some Folder" by (simp add: file_at_def)
  show "file_at d p = Some Folder" if "file_at d (p @ [name]) \<noteq> None" using file_tree_parent [OF d that] .
  note simps = memory_disk_def query_def yields_def d
  show "yields (exists_of (memory_disk free) p) d (file_at d p \<noteq> None)
      (\<lambda>e. file_tree_inv e \<and> file_at e = file_at d \<and> (\<lambda>n. True) = (\<lambda>n. True))" by (simp add: simps)
  show "yields (is_regular_file_of (memory_disk free) p) d (\<exists>c. file_at d p = Some (Regular c))
      (\<lambda>e. file_tree_inv e \<and> file_at e = file_at d \<and> (\<lambda>n. True) = (\<lambda>n. True))"
    by (simp add: simps split: option.splits disk_node.splits)
  show "yields (is_directory_of (memory_disk free) p) d (file_at d p = Some Folder)
      (\<lambda>e. file_tree_inv e \<and> file_at e = file_at d \<and> (\<lambda>n. True) = (\<lambda>n. True))" by (simp add: simps)
  have n: "names_in p d = [] \<longleftrightarrow> (\<forall>name. file_at d (p @ [name]) = None)" using set_names_in [OF d, of p] by auto
  then show "yields (is_empty_of (memory_disk free) p) d (\<forall>name. file_at d (p @ [name]) = None)
      (\<lambda>e. file_tree_inv e \<and> file_at e = file_at d \<and> (\<lambda>n. True) = (\<lambda>n. True))" by (simp add: simps)
  show "yields (remove_path_of (memory_disk free) p) d True
      (\<lambda>e. file_tree_inv e \<and> file_at e = (file_at d)(p := None) \<and> (\<forall>n. True \<longrightarrow> True))"
    if "p \<noteq> []" "file_at d p \<noteq> None" "\<forall>name. file_at d (p @ [name]) = None"
    using file_tree_delete [OF d] that n by (auto simp: simps)
  show "yields (create_directory_of (memory_disk free) (p @ [name])) d (file_at d (p @ [name]) = None)
      (\<lambda>e. file_tree_inv e \<and> file_at e = (file_at d)(p @ [name] \<mapsto> Folder) \<and> (\<forall>n. True \<longrightarrow> True))"
    if "file_at d p = Some Folder" "file_at d (p @ [name]) \<in> {None, Some Folder}"
    using file_tree_update [OF d that(1), of Folder name] that by (auto simp: simps fun_upd_idem)
  show "\<exists>stream. yields (open_in_of (memory_disk free) p) d stream
        (\<lambda>e. file_tree_inv e \<and> file_at e = file_at d \<and> (\<lambda>n. True) = (\<lambda>n. True)) \<and>
      (case file_at d p of
         Some (Regular c) \<Rightarrow> stream = \<lparr>is_bytes = c, is_pos = 0, is_limit = length c, is_good = True\<rparr>
       | _ \<Rightarrow> \<not> is_good stream)"
    if "file_at d p \<noteq> Some Folder"
    using that by (auto simp: simps split: option.splits disk_node.splits)
  show "yields (open_out_of (memory_disk free) (p @ [name])) d True
      (\<lambda>e. file_tree_inv e \<and> file_at e = (file_at d)(p @ [name] \<mapsto> Regular []) \<and> (\<forall>n. True \<longrightarrow> True))"
    if "file_at d p = Some Folder" "file_at d (p @ [name]) \<noteq> Some Folder"
    using file_tree_update [OF d that(1), of "Regular []" name] that by (auto simp: simps)
  show "yields (put_of (memory_disk free) p c) d True
      (\<lambda>e. file_tree_inv e \<and> file_at e = (file_at d)(p \<mapsto> Regular c) \<and> (\<forall>n. True \<longrightarrow> True))"
    if "file_at d p = Some (Regular [])"
  proof -
    have "p \<noteq> []" using that by (auto simp: file_at_def)
    then have p: "butlast p @ [last p] = p" by simp
    then have "file_at d (butlast p) = Some Folder" using file_tree_parent [OF d, of "butlast p" "last p"] that by simp
    from file_tree_update [OF d this, of "Regular c" "last p"] that show ?thesis unfolding p by (auto simp: simps)
  qed
  show "\<exists>ns. yields (directory_iterator_of (memory_disk free) p) d ns
      (\<lambda>e. file_tree_inv e \<and> file_at e = file_at d \<and> (\<lambda>n. True) = (\<lambda>n. True)) \<and> distinct ns \<and>
      set ns = {name. file_at d (p @ [name]) \<noteq> None}"
    if "file_at d p = Some Folder"
    using that set_names_in [OF d] distinct_names_in [OF d] by (auto simp: simps)
qed

section \<open>Properties\<close>

text \<open>
  C26. The store on disk meets the contract of a block store on every disk with the laws: loads return what was stored, creating an existing
  block is refused, removing forgets the block, and the count is the number of blocks, whatever other files stand beside the
  subdirectories.
\<close>

theorem on_disk_store_contract:
  assumes "disk_laws dk dinv tree fits room"
  shows "block_store2_strict (OnDiskBlockStore2 dk) (disk_inv dinv tree) (disk_blocks tree) (disk_fits fits) room"
  using assms by (rule disk_laws.on_disk_strict)

text \<open>A disk with a configuration file and one block.\<close>

definition example_disk :: file_tree where
  "example_disk = [([''cryfs.config''], Regular [1]), ([''010''], Folder), ([''010'', ''10101010101010101010101010101''], Regular (disk_header @ [7, 8]))]"

lemma hex_bid:
  "HexEncoder (replicate 16 1) = ''01010101010101010101010101010101''" "HexEncoder (replicate 16 2) = ''02020202020202020202020202020202''"
  by code_simp+

lemma example_disk_inv: "disk_inv file_tree_inv file_at example_disk"
proof -
  have "''010'' = id_dir (bid 1) \<and> ''10101010101010101010101010101'' = id_file (bid 1)"
    by (simp add: hex_bid)
  moreover have "length (id_dir i) = 3" for i by simp
  then have "\<forall>i. id_dir i \<noteq> ''cryfs.config''" by (metis length_Cons list.size(3) numeral_3_eq_3 nat.inject nat.distinct(1))
  ultimately show ?thesis
    unfolding disk_inv_def
    by (auto simp: file_tree_inv_def example_disk_def file_at_def simp del: ToBinary_bid split: if_splits)
qed

lemma on_disk_store_contract_witness:
  "yields (ebind (store_of (OnDiskBlockStore2 (memory_disk 0)) (bid 2) [5]) (\<lambda>_. load_of (OnDiskBlockStore2 (memory_disk 0)) (bid 1)))
    example_disk (Some [7, 8]) (\<lambda>t. disk_blocks file_at t = (disk_blocks file_at example_disk)(bid 2 \<mapsto> [5]))"
proof -
  have b: "disk_blocks file_at example_disk (bid 1) = Some [7, 8]"
    by (simp add: disk_blocks_def example_disk_def file_at_def hex_bid)
  have c: "block_store2 (OnDiskBlockStore2 (memory_disk 0)) (disk_inv file_tree_inv file_at) (disk_blocks file_at)
      (disk_fits (\<lambda>c. True)) (\<lambda>d n. True)"
    using on_disk_store_contract [OF memory_disk.disk_laws_axioms] by (rule block_store2_strict.axioms)
  show ?thesis
    using block_store2.load_after_store [OF c example_disk_inv, of "[5]" "bid 2" "bid 1"] b
    by (auto simp: disk_fits_def elim!: yields_mono)
qed

text \<open>
  C27. \<open>forEachBlock\<close> visits every block exactly once and nothing else, whatever the order in which the disk lists its files.
\<close>

theorem on_disk_forEachBlock:
  assumes "disk_laws dk dinv tree fits room" and "disk_inv dinv tree d"
  shows "\<exists>is e. OnDiskBlockStore2_forEachBlock dk d = (Inr is, e) \<and> distinct is \<and> set is = dom (disk_blocks tree d)"
  using disk_laws.disk_forEachBlock [OF assms] by (auto simp: yields_def)

lemma on_disk_forEachBlock_witness:
  "\<exists>is e. OnDiskBlockStore2_forEachBlock (memory_disk 0) example_disk = (Inr is, e) \<and> distinct is \<and> bid 1 \<in> set is \<and> bid 2 \<notin> set is"
proof -
  have b: "bid 1 \<in> dom (disk_blocks file_at example_disk)" "bid 2 \<notin> dom (disk_blocks file_at example_disk)"
    by (auto simp: disk_blocks_def example_disk_def file_at_def hex_bid)
  show ?thesis using on_disk_forEachBlock [OF memory_disk.disk_laws_axioms [of 0] example_disk_inv] b by metis
qed

end
