(* ===== verification/BlobTowers.thy ===== *)
theory BlobTowers
  imports FsContents StorageStack OnDiskStore
begin

text \<open>
  Blob stores on the block stores of the repository: in memory, and on a cache over an encrypted store on disk, for every cipher with
  the contract of \<open>Ciphers\<close> and every disk with the laws of \<open>OnDiskStore\<close> that does not fill up. Here the interfaces meet the definitions that implement them.
\<close>

section \<open>Trees on block stores\<close>

text \<open>
  What the trees ask of \<open>utils::ceilLog\<close>, a computation in \<open>long double\<close>: it is not greater than a depth
  whose full tree has room for the leaves.
\<close>

definition ceilLog_ok :: "(nat \<Rightarrow> nat \<Rightarrow> nat) \<Rightarrow> nat \<Rightarrow> nat \<Rightarrow> bool" where
  "ceilLog_ok clog b maxDepth \<longleftrightarrow> (\<forall>depth\<le>maxDepth. \<forall>e\<in>{1..b ^ depth}. clog b e mod 2 ^ 8 \<le> depth)"

text \<open>A layout and a greatest depth for which leaf indices stay within 31 bits.\<close>

definition tree_limits :: "(nat \<Rightarrow> nat \<Rightarrow> nat) \<Rightarrow> node_layout \<Rightarrow> nat \<Rightarrow> bool" where
  "tree_limits clog L maxDepth \<longleftrightarrow> layout_ok L \<and> maxDepth \<le> 10 \<and> maxChildrenPerInnerNode L ^ maxDepth \<le> 2 ^ 31 \<and>
     ceilLog_ok clog (maxChildrenPerInnerNode L) maxDepth"

lemma tree_store_on:
  assumes "block_heap bs ok blocks fits capacity (blocksizeBytes L)" and "tree_limits clog L maxDepth"
  shows "tree_store bs ok blocks fits capacity L clog maxDepth"
proof (intro tree_store.intro node_heap.intro assms(1))
  show "node_heap_axioms L" using assms(2) by unfold_locales (simp add: tree_limits_def)
  show "tree_store_axioms L clog maxDepth" using assms(2) by unfold_locales (auto simp: tree_limits_def ceilLog_ok_def)
qed

text \<open>An exact logarithm.\<close>

function exact_ceilLog :: "nat \<Rightarrow> nat \<Rightarrow> nat" where
  "exact_ceilLog b e = (if e \<le> 1 \<or> b \<le> 1 then 0 else Suc (exact_ceilLog b (cdiv e b)))"
  by auto
termination
proof (relation "measure snd")
  fix b e :: nat assume "\<not> (e \<le> 1 \<or> b \<le> 1)"
  then have "1 < e" "1 < b" by simp_all
  then have "e \<le> (e - 1) * b" by (cases e; cases b) auto
  then have "cdiv e b \<le> e - 1" using \<open>1 < b\<close> by (simp add: cdiv_le_iff)
  then show "((b, cdiv e b), (b, e)) \<in> measure snd" using \<open>1 < e\<close> by simp
qed simp

declare exact_ceilLog.simps [simp del]

lemma exact_ceilLog_le: "1 < b \<Longrightarrow> e \<le> b ^ depth \<Longrightarrow> exact_ceilLog b e \<le> depth"
proof (induction depth arbitrary: e)
  case 0
  then show ?case by (simp add: exact_ceilLog.simps)
next
  case (Suc depth)
  then have "cdiv e b \<le> b ^ depth" by (simp add: cdiv_le_iff mult.commute)
  then show ?case using Suc by (subst exact_ceilLog.simps) simp
qed

lemma exact_ceilLog_ok: "1 < b \<Longrightarrow> ceilLog_ok exact_ceilLog b maxDepth"
  unfolding ceilLog_ok_def by (auto intro!: le_trans [OF mod_less_eq_dividend] exact_ceilLog_le)

section \<open>In memory\<close>

text \<open>
  Nodes of the smallest block size, and of 16 KiB blocks: two children per inner node and trees of depth 10, 1023 children and
  trees of depth 3 (about 17 TB per blob).
\<close>

definition layout_of :: "nat \<Rightarrow> node_layout" where
  "layout_of n = \<lparr>blocksizeBytes = n, uninitialised = 0\<rparr>"

lemma layout_of_sizes: "40 \<le> n \<Longrightarrow> n < 2 ^ 32 \<Longrightarrow> layout_ok (layout_of n) \<and>
  maxChildrenPerInnerNode (layout_of n) = (n - 8) div 16 \<and> maxBytesPerLeaf (layout_of n) = n - 8"
  using datasizeBytes_eq [of "layout_of n"]
  by (simp add: layout_ok_def layout_of_def maxChildrenPerInnerNode_def maxBytesPerLeaf_def node_simps)

lemma small_limits: "tree_limits exact_ceilLog (layout_of 40) 10"
  and default_limits: "tree_limits exact_ceilLog (layout_of 16384) 3"
  using layout_of_sizes [of 40] layout_of_sizes [of 16384] by (simp_all add: tree_limits_def exact_ceilLog_ok)

interpretation inmemory_nodes: node_heap "InMemoryBlockStore2 m" inmemory_inv map_of "\<lambda>d. True" "\<lambda>s n. True" "layout_of 16384" for m
  by unfold_locales (simp add: layout_of_sizes)

interpretation inmemory_trees: tree_store "InMemoryBlockStore2 m" inmemory_inv map_of "\<lambda>d. True" "\<lambda>s n. True"
  "layout_of 16384" exact_ceilLog 3 for m
  by (rule tree_store_on [OF inmemory_heap.block_heap_axioms default_limits])

interpretation inmemory_blobs: blob_arrays
  "BlobStoreOnBlocks fill p \<lparr>dte_nodeStore = InMemoryBlockStore2 m, dte_layout = layout_of 16384, dte_ceilLog = exact_ceilLog\<rparr>"
  "inmemory_trees.represents" "inmemory_trees.open_blobs" "\<lambda>w. length (fst (snd w))" "inmemory_trees.growth" "1023 ^ 3 * 16376" for fill p m
  using inmemory_trees.keeps_arrays [of fill p m] by (simp add: layout_of_sizes)

section \<open>On an encrypted store on disk with a cache\<close>

definition cached_encrypted :: "('r, 'k) cipher \<Rightarrow> 'k \<Rightarrow> 'd disk \<Rightarrow> ('r \<times> 'd) caching_state block_store2" where
  "cached_encrypted C encKey dk = CachingBlockStore2 (EncryptedBlockStore2 C encKey (OnDiskBlockStore2 dk))"

definition cached_inv :: "('d \<Rightarrow> bool) \<Rightarrow> ('d \<Rightarrow> disk_path \<rightharpoonup> disk_node) \<Rightarrow> ('r, 'k) cipher \<Rightarrow> 'k \<Rightarrow> nat \<Rightarrow> ('r \<times> 'd) caching_state \<Rightarrow> bool" where
  "cached_inv dinv tree C encKey overhead = caching_inv (encrypted_inv C encKey (disk_inv dinv tree) (disk_blocks tree)) (encrypted_blocks C encKey (disk_blocks tree))
     (encrypted_fits overhead (disk_fits (\<lambda>c. True))) (encrypted_capacity (\<lambda>s n. True))"

definition cached_blocks :: "('d \<Rightarrow> disk_path \<rightharpoonup> disk_node) \<Rightarrow> ('r, 'k) cipher \<Rightarrow> 'k \<Rightarrow> ('r \<times> 'd) caching_state \<Rightarrow> block_id \<rightharpoonup> data" where
  "cached_blocks tree C encKey = caching_blocks (encrypted_blocks C encKey (disk_blocks tree))"

definition cached_blob_store :: "byte \<Rightarrow> nat \<Rightarrow> ('r, 'k) cipher \<Rightarrow> 'k \<Rightarrow> 'd disk \<Rightarrow> (nat \<Rightarrow> nat \<Rightarrow> nat) \<Rightarrow> node_layout \<Rightarrow>
    ('r \<times> 'd) caching_state blob_state blob_store" where
  "cached_blob_store fill p C encKey dk clog L =
     BlobStoreOnBlocks fill p \<lparr>dte_nodeStore = cached_encrypted C encKey dk, dte_layout = L, dte_ceilLog = clog\<rparr>"

text \<open>The state after start on a disk without blocks: \<open>ids\<close> are the identifiers that \<open>BlockId::Random\<close> will deliver.\<close>

definition fresh_blobs :: "block_id list \<Rightarrow> 'r \<Rightarrow> 'd \<Rightarrow> int \<Rightarrow> ('r \<times> 'd) caching_state blob_state" where
  "fresh_blobs ids r d t = ([], (ids, CachingBlockStore2_new (r, d) t))"

definition fresh_disk :: "('d \<Rightarrow> bool) \<Rightarrow> ('d \<Rightarrow> disk_path \<rightharpoonup> disk_node) \<Rightarrow> 'd \<Rightarrow> bool" where
  "fresh_disk dinv tree d \<longleftrightarrow> disk_inv dinv tree d \<and> disk_blocks tree d = Map.empty"

text \<open>The greatest size of a blob, and the identifiers it may take to grow from \<open>k\<close> to \<open>n\<close> bytes.\<close>

definition blob_limit :: "node_layout \<Rightarrow> nat \<Rightarrow> nat" where
  "blob_limit L maxDepth = maxChildrenPerInnerNode L ^ maxDepth * maxBytesPerLeaf L"

definition blob_need :: "node_layout \<Rightarrow> nat \<Rightarrow> nat \<Rightarrow> nat \<Rightarrow> nat" where
  "blob_need L maxDepth k n =
     (let a = leaf_count (maxBytesPerLeaf L) k; b = leaf_count (maxBytesPerLeaf L) n in
      if a < b then (b - a) * Suc maxDepth + maxDepth else 0)"

text \<open>The blobs \<open>M\<close> of a state: trees that partition its blocks.\<close>

definition holds_blobs :: "('d \<Rightarrow> bool) \<Rightarrow> ('d \<Rightarrow> disk_path \<rightharpoonup> disk_node) \<Rightarrow> ('r, 'k) cipher \<Rightarrow> 'k \<Rightarrow> nat \<Rightarrow> node_layout \<Rightarrow> nat \<Rightarrow>
    ('r \<times> 'd) caching_state blob_state \<Rightarrow> (block_id \<rightharpoonup> data) \<Rightarrow> bool" where
  "holds_blobs dinv tree C encKey overhead L maxDepth =
     tree_store.represents (cached_inv dinv tree C encKey overhead) (cached_blocks tree C encKey) L maxDepth"

text \<open>A disk, a cipher, a layout and a depth that go together.\<close>

definition blob_setting :: "'d disk \<Rightarrow> ('d \<Rightarrow> bool) \<Rightarrow> ('d \<Rightarrow> disk_path \<rightharpoonup> disk_node) \<Rightarrow> ('r, 'k) cipher \<Rightarrow> ('k \<Rightarrow> bool) \<Rightarrow> nat \<Rightarrow> 'k \<Rightarrow> (nat \<Rightarrow> nat \<Rightarrow> nat) \<Rightarrow> node_layout \<Rightarrow> nat \<Rightarrow> bool" where
  "blob_setting dk dinv tree C key_ok overhead encKey clog L maxDepth \<longleftrightarrow>
     disk_laws dk dinv tree (\<lambda>c. True) (\<lambda>d n. True) \<and> cipher C key_ok overhead \<and> key_ok encKey \<and> tree_limits clog L maxDepth \<and> blocksizeBytes L + overhead < 2 ^ 32"

lemma cached_tree_store:
  assumes "blob_setting dk dinv tree C key_ok overhead encKey clog L maxDepth"
  shows "tree_store (cached_encrypted C encKey dk) (cached_inv dinv tree C encKey overhead) (cached_blocks tree C encKey)
    (encrypted_fits overhead (disk_fits (\<lambda>c. True))) (caching_capacity (encrypted_capacity (\<lambda>s n. True))) L clog maxDepth"
proof (rule tree_store_on)
  have disk: "disk_laws dk dinv tree (\<lambda>c. True) (\<lambda>d n. True)" and c: "cipher C key_ok overhead" "key_ok encKey" and L: "blocksizeBytes L + overhead < 2 ^ 32"
    and lim: "tree_limits clog L maxDepth" using assms by (simp_all add: blob_setting_def)
  have "encrypted_store (OnDiskBlockStore2 dk) (disk_inv dinv tree) (disk_blocks tree) (disk_fits (\<lambda>c. True)) (\<lambda>s n. True) C key_ok overhead encKey"
    by (intro encrypted_store.intro encrypted_store_axioms.intro block_store2_strict.axioms(1) [OF disk_laws.on_disk_strict [OF disk]] c)
  note e = encrypted_store.store_contract [OF this]
  note c = caching_store.store_contract [OF caching_store.intro [OF e]]
  show "block_heap (cached_encrypted C encKey dk) (cached_inv dinv tree C encKey overhead) (cached_blocks tree C encKey)
      (encrypted_fits overhead (disk_fits (\<lambda>c. True))) (caching_capacity (encrypted_capacity (\<lambda>s n. True))) (blocksizeBytes L)"
    unfolding cached_encrypted_def cached_inv_def cached_blocks_def
    by (intro block_heap.intro c, unfold_locales) (use L in \<open>auto simp: encrypted_fits_def disk_fits_def caching_capacity_def encrypted_capacity_def\<close>)
  show "tree_limits clog L maxDepth" by (rule lim)
qed

lemma growth_eq: "tree_store.growth L maxDepth = blob_need L maxDepth"
  if "tree_store bs ok blocks fits capacity L clog maxDepth" for bs ok blocks fits capacity
  unfolding fun_eq_iff tree_store.growth_def [OF that] tree_store.room_for_def [OF that] blob_need_def Let_def by simp

lemma cached_blob_arrays:
  assumes "blob_setting dk dinv tree C key_ok overhead encKey clog L maxDepth"
  shows "blob_arrays (cached_blob_store fill p C encKey dk clog L) (holds_blobs dinv tree C encKey overhead L maxDepth)
    tree_store.open_blobs (\<lambda>w. length (fst (snd w))) (blob_need L maxDepth) (blob_limit L maxDepth)"
  using tree_store.keeps_arrays [OF cached_tree_store [OF assms], of fill p] growth_eq [OF cached_tree_store [OF assms]]
  by (simp add: cached_blob_store_def holds_blobs_def blob_limit_def)

lemma fresh_holds:
  assumes "blob_setting dk dinv tree C key_ok overhead encKey clog L maxDepth" and "fresh_disk dinv tree d" and "distinct ids"
  shows "holds_blobs dinv tree C encKey overhead L maxDepth (fresh_blobs ids r d t) Map.empty"
proof -
  have inv: "encrypted_inv C encKey (disk_inv dinv tree) (disk_blocks tree) (r, d)"
    using assms(2) by (simp add: encrypted_inv_def fresh_disk_def)
  have cap: "encrypted_capacity (\<lambda>s n. True) (r, d) 0" by (simp add: encrypted_capacity_def)
  have "cached_inv dinv tree C encKey overhead (CachingBlockStore2_new (r, d) t)"
    unfolding cached_inv_def by (intro caching_inv_new(1) inv cap)
  moreover have "cached_blocks tree C encKey (CachingBlockStore2_new (r, d) t) = Map.empty"
    unfolding cached_blocks_def
    using caching_inv_new(2) [of "encrypted_inv C encKey (disk_inv dinv tree) (disk_blocks tree)" "(r, d)" "encrypted_capacity (\<lambda>s n. True)", OF inv cap]
    using assms(2) by (simp add: encrypted_blocks_def fresh_disk_def fun_eq_iff)
  ultimately show ?thesis
    unfolding holds_blobs_def fresh_blobs_def
    by (rule tree_store.represents_start [OF cached_tree_store [OF assms(1)] _ _ assms(3)])
qed

lemma no_blobs_no_blocks:
  assumes "blob_setting dk dinv tree C key_ok overhead encKey clog L maxDepth" and "holds_blobs dinv tree C encKey overhead L maxDepth w Map.empty"
  shows "cached_blocks tree C encKey (snd (snd w)) = Map.empty"
  using tree_store.represents_nothing [OF cached_tree_store [OF assms(1)]] assms(2) by (simp add: holds_blobs_def)

lemma script_from_fresh:
  assumes "blob_setting dk dinv tree C key_ok overhead encKey clog L maxDepth" and "fresh_disk dinv tree d" and "distinct ids"
    and "script_allowed (blob_limit L maxDepth) [] xs" and "script_cost (blob_need L maxDepth) [] xs \<le> length ids"
  obtains w ids' where
    "run_script (cached_blob_store fill p C encKey dk clog L) [] xs (fresh_blobs ids r d t) = (Inr (spec_script [] xs), w)"
    and "blob_arrays.sim (holds_blobs dinv tree C encKey overhead L maxDepth) tree_store.open_blobs ids' (spec_arrays [] xs) w"
proof -
  note arrays = cached_blob_arrays [OF assms(1), of fill p]
  note start = blob_arrays.sim_start [OF arrays fresh_holds [OF assms(1-3), of r t]]
  have "script_cost (blob_need L maxDepth) [] xs \<le> length (fst (snd (fresh_blobs ids r d t)))"
    using assms(5) by (simp add: fresh_blobs_def)
  from blob_arrays.script_simulates [OF arrays start assms(4) this] that show thesis by blast
qed

text \<open>The setting of the examples: the smallest blocks and the cipher of the tests.\<close>

definition test_cipher :: "(nat, u64) cipher" where
  "test_cipher = FakeAuthenticatedCipher (random_device (\<lambda>n. of_nat n))"

lemma test_setting: "blob_setting (memory_disk free) file_tree_inv file_at test_cipher (\<lambda>k. True) 16 5 exact_ceilLog (layout_of 40) 10"
  unfolding blob_setting_def test_cipher_def
  using memory_disk.disk_laws_axioms fake_cipher.cipher_axioms small_limits by (simp add: layout_of_def)

lemma test_disk: "fresh_disk file_tree_inv file_at []"
  by (auto simp: fresh_disk_def disk_inv_def file_tree_inv_def file_at_def disk_blocks_def)

lemma test_sizes: "blob_limit (layout_of 40) 10 = 32768"
  "blob_need (layout_of 40) 10 k n = (if leaf_count 32 k < leaf_count 32 n then (leaf_count 32 n - leaf_count 32 k) * 11 + 10 else 0)"
  using layout_of_sizes [of 40] by (simp_all add: blob_limit_def blob_need_def Let_def)

definition test_ids :: "block_id list" where
  "test_ids = map bid (map of_nat [1..<100])"

lemma distinct_test_ids: "distinct test_ids"
proof -
  have "(of_nat i :: byte) \<noteq> of_nat j" if "i < 100" "j < 100" "i \<noteq> j" for i j
  proof
    assume "(of_nat i :: byte) = of_nat j"
    then have "unat (of_nat i :: byte) = unat (of_nat j :: byte)" by simp
    then show False using that by (simp add: unat_of_nat)
  qed
  then have "inj_on (of_nat :: nat \<Rightarrow> byte) (set [1..<100])" by (intro inj_onI) (simp, metis)
  then show ?thesis unfolding test_ids_def distinct_map by (auto simp: inj_on_def)
qed

interpretation test_blobs: blob_arrays "cached_blob_store fill p test_cipher 5 (memory_disk free) exact_ceilLog (layout_of 40)"
  "holds_blobs file_tree_inv file_at test_cipher 5 16 (layout_of 40) 10" tree_store.open_blobs "\<lambda>w. length (fst (snd w))"
  "blob_need (layout_of 40) 10" "blob_limit (layout_of 40) 10" for fill p free
  by (rule cached_blob_arrays [OF test_setting])

section \<open>Properties\<close>

text \<open>
  C1. A blob store on blocks is a store of byte arrays: every script of operations (creating, loading, removing,
  resizing, reading and writing blobs, in any order and at any offsets) is answered as the list of byte arrays
  answers it, through the trees of nodes, the cache and the encryption. The script must name existing
  blobs, stay within the size of the deepest tree and leave enough identifiers for new blocks.
\<close>

theorem blob_store_refines_arrays:
  assumes "blob_setting dk dinv tree C key_ok overhead encKey clog L maxDepth" and "fresh_disk dinv tree d" and "distinct ids"
    and "script_allowed (blob_limit L maxDepth) [] xs" and "script_cost (blob_need L maxDepth) [] xs \<le> length ids"
  shows "\<exists>w. run_script (cached_blob_store fill p C encKey dk clog L) [] xs (fresh_blobs ids r d t) = (Inr (spec_script [] xs), w)"
  by (rule script_from_fresh [OF assms]) blast

definition test_script :: "blob_op list" where
  "test_script = [CreateBlob, WriteInto 0 [1, 2, 3] 30, SizeOf 0, CreateBlob, WriteInto 1 [7] 0, ReadFrom 0 29 4,
     ResizeTo 0 31, ReadAllOf 1, RemoveBlob 1, TryReadFrom 0 30 100]"

lemmas script_defs = op_allowed_def resized_def written_def update_def write_at_def slice_def zeroes_def

lemma test_script_spec: "spec_script [] test_script =
  [Done, Done, Size 33, Done, Done, Bytes [0, 1, 2, 3], Done, Bytes [7], Done, Bytes [1]]"
  by (simp add: test_script_def script_defs numeral_eq_Suc)

lemma blob_store_refines_arrays_witness:
  "\<exists>w. run_script (cached_blob_store 0 0 test_cipher 5 (memory_disk 0) exact_ceilLog (layout_of 40)) [] test_script (fresh_blobs test_ids 0 [] 0) =
    (Inr [Done, Done, Size 33, Done, Done, Bytes [0, 1, 2, 3], Done, Bytes [7], Done, Bytes [1]], w)"
  unfolding test_script_spec [symmetric]
proof (rule blob_store_refines_arrays [OF test_setting [of 0] test_disk distinct_test_ids])
  show "script_allowed (blob_limit (layout_of 40) 10) [] test_script"
    by (simp add: test_script_def test_sizes script_defs)
  show "script_cost (blob_need (layout_of 40) 10) [] test_script \<le> length test_ids"
    by (simp add: test_script_def test_sizes script_defs leaf_count_def cdiv_def test_ids_def)
qed

text \<open>
  C4. Removing blobs leaks nothing: when a script has removed every blob that it created, the block store holds
  no block at all, however the blobs had grown and shrunk.
\<close>

theorem removed_blobs_leave_no_blocks:
  assumes "blob_setting dk dinv tree C key_ok overhead encKey clog L maxDepth" and "fresh_disk dinv tree d" and "distinct ids"
    and "script_allowed (blob_limit L maxDepth) [] xs" and "script_cost (blob_need L maxDepth) [] xs \<le> length ids"
    and "\<forall>a\<in>set (spec_arrays [] xs). a = None"
  shows "\<exists>as w. run_script (cached_blob_store fill p C encKey dk clog L) [] xs (fresh_blobs ids r d t) = (Inr as, w) \<and>
    cached_blocks tree C encKey (snd (snd w)) = Map.empty"
proof -
  obtain w ids' where run: "run_script (cached_blob_store fill p C encKey dk clog L) [] xs (fresh_blobs ids r d t) = (Inr (spec_script [] xs), w)"
    and sim: "blob_arrays.sim (holds_blobs dinv tree C encKey overhead L maxDepth) tree_store.open_blobs ids' (spec_arrays [] xs) w"
    by (rule script_from_fresh [OF assms(1-5)])
  note arrays = cached_blob_arrays [OF assms(1), of fill p]
  have "\<forall>h<length (spec_arrays [] xs). spec_arrays [] xs ! h = None" using assms(6) by auto
  with blob_arrays.sim_arrays [OF arrays sim] have "holds_blobs dinv tree C encKey overhead L maxDepth w Map.empty" by metis
  from run no_blobs_no_blocks [OF assms(1) this] show ?thesis by blast
qed

lemma removed_blobs_leave_no_blocks_witness:
  "\<exists>as w. run_script (cached_blob_store 0 0 test_cipher 5 (memory_disk 0) exact_ceilLog (layout_of 40)) []
      [CreateBlob, WriteInto 0 [1, 2, 3] 100, RemoveBlob 0] (fresh_blobs test_ids 0 [] 0) = (Inr as, w) \<and>
    cached_blocks file_at test_cipher 5 (snd (snd w)) = Map.empty"
proof (rule removed_blobs_leave_no_blocks [OF test_setting [of 0] test_disk distinct_test_ids])
  show "script_allowed (blob_limit (layout_of 40) 10) [] [CreateBlob, WriteInto 0 [1, 2, 3] 100, RemoveBlob 0]"
    by (simp add: test_sizes script_defs)
  show "script_cost (blob_need (layout_of 40) 10) [] [CreateBlob, WriteInto 0 [1, 2, 3] 100, RemoveBlob 0] \<le> length test_ids"
    by (simp add: test_sizes script_defs leaf_count_def cdiv_def test_ids_def)
qed (simp add: script_defs)

text \<open>
  C7. A file holds what was written to it: create a file, write bytes at an offset, and its size and any read, also beyond the end,
  are those of the written bytes, with zeroes before the offset. Every other blob keeps its content.
\<close>

theorem file_write_read:
  assumes "blob_setting dk dinv tree C key_ok overhead encKey clog L maxDepth" and "holds_blobs dinv tree C encKey overhead L maxDepth w M"
    and "off + length src + 19 \<le> blob_limit L maxDepth"
    and "Suc (blob_need L maxDepth 0 19 + blob_need L maxDepth 19 (off + length src + 19)) \<le> length (fst (snd w))"
    and "off' + 19 < 2 ^ 63" and "count < 2 ^ 63" and "B = cached_blob_store fill p C encKey dk clog L"
  shows "\<exists>i w'. ebind (FsBlobStore_createFileBlob B parent) (\<lambda>b. ebind (FileBlob_write B (fs_file_id b) src off) (\<lambda>_.
      ebind (FileBlob_size B (fs_file_id b)) (\<lambda>n. ebind (FileBlob_read B (fs_file_id b) off' count) (\<lambda>d. ret (fs_file_id b, n, d))))) w =
    (Inr (i, length (written [] off src), slice off' count (written [] off src)), w') \<and> M i = None \<and>
    holds_blobs dinv tree C encKey overhead L maxDepth w' (M(i \<mapsto> fs_header FILE parent @ written [] off src))"
  using blob_arrays.file_program_ok [OF cached_blob_arrays [OF assms(1), of fill p] assms(2-6), of parent]
  unfolding assms(7) returns_def by (auto simp del: fun_upd_apply)

lemma file_write_read_witness:
  "\<exists>i w'. (let B = cached_blob_store 0 0 test_cipher 5 (memory_disk 0) exact_ceilLog (layout_of 40) in
      ebind (FsBlobStore_createFileBlob B (bid 200)) (\<lambda>b. ebind (FileBlob_write B (fs_file_id b) [1, 2, 3] 30) (\<lambda>_.
      ebind (FileBlob_size B (fs_file_id b)) (\<lambda>n. ebind (FileBlob_read B (fs_file_id b) 29 10) (\<lambda>d. ret (fs_file_id b, n, d)))))
        (fresh_blobs test_ids 0 [] 0)) = (Inr (i, 33, [0, 1, 2, 3]), w')"
proof -
  have e: "length (written ([] :: data) 30 [1, 2, 3]) = 33" "slice 29 10 (written ([] :: data) 30 [1, 2, 3]) = [0, 1, 2, 3]"
    by (simp_all add: script_defs numeral_eq_Suc)
  show ?thesis
    using file_write_read [OF test_setting [of 0] fresh_holds [OF test_setting [of 0] test_disk distinct_test_ids, of 0 0], where off = 30 and src = "[1, 2, 3]"
        and off' = 29 and count = 10 and parent = "bid 200" and fill = 0 and p = 0, OF _ _ _ _ refl]
    unfolding e Let_def by (auto simp: test_sizes fresh_blobs_def test_ids_def leaf_count_def cdiv_def)
qed

text \<open>
  C8. A directory that is saved is loaded again with the same parent and the same listing, through its bytes
  in the blob: for a listing with the invariant and well-formed entries.
\<close>

theorem directory_saved_and_loaded:
  assumes "blob_setting dk dinv tree C key_ok overhead encKey clog L maxDepth" and "holds_blobs dinv tree C encKey overhead L maxDepth w M"
    and "saveable es" and "length (listing es) + 19 \<le> blob_limit L maxDepth"
    and "Suc (blob_need L maxDepth 0 19 + blob_need L maxDepth 19 (length (listing es) + 19)) \<le> length (fst (snd w))"
    and "B = cached_blob_store fill p C encKey dk clog L"
  shows "\<exists>i w'. ebind (FsBlobStore_createDirBlob B parent) (\<lambda>b.
      ebind (DirBlob_writeEntriesToBlob junk B ((fs_dir b)\<lparr>db_entries := es, db_changed := True\<rparr>)) (\<lambda>d.
      FsBlobStore_load B (db_blockId d))) w =
    (Inr (Some (DirBlob \<lparr>db_blockId = i, db_parent = parent, db_entries = es, db_changed = False\<rparr>)), w') \<and> M i = None \<and>
    holds_blobs dinv tree C encKey overhead L maxDepth w' (M(i \<mapsto> fs_header DIR parent @ listing es))"
  using blob_arrays.dir_program_ok [OF cached_blob_arrays [OF assms(1), of fill p] assms(2-5), of parent junk]
  unfolding assms(6) returns_def by (auto simp del: fun_upd_apply)

lemma example_saveable: "saveable example_dir" "length (listing example_dir) = 201"
  unfolding saveable_def using example_dir_inv
  by (simp_all add: listing_def example_dir_def example_entry_def entry_wf_def hasTypeFlag_def mode_defs example_time_def
      DirEntryList_serializedSize_def DirEntry_serializedSize_def serializedTimeValueSize_def BINARY_LENGTH_def)

lemma directory_saved_and_loaded_witness:
  "\<exists>i w'. (let B = cached_blob_store 0 0 test_cipher 5 (memory_disk 0) exact_ceilLog (layout_of 40) in
      ebind (FsBlobStore_createDirBlob B (bid 200)) (\<lambda>b.
      ebind (DirBlob_writeEntriesToBlob 0 B ((fs_dir b)\<lparr>db_entries := example_dir, db_changed := True\<rparr>)) (\<lambda>d.
      FsBlobStore_load B (db_blockId d))) (fresh_blobs test_ids 0 [] 0)) =
    (Inr (Some (DirBlob \<lparr>db_blockId = i, db_parent = bid 200, db_entries = example_dir, db_changed = False\<rparr>)), w')"
  using directory_saved_and_loaded [OF test_setting [of 0] fresh_holds [OF test_setting [of 0] test_disk distinct_test_ids, of 0 0] example_saveable(1),
      where parent = "bid 200" and fill = 0 and p = 0 and junk = 0, OF _ _ refl]
  unfolding Let_def by (auto simp: example_saveable(2) test_sizes fresh_blobs_def test_ids_def leaf_count_def cdiv_def)

text \<open>
  A symlink is loaded with the target it was created with, up to the first null byte of the target.
\<close>

theorem symlink_created_and_loaded:
  assumes "blob_setting dk dinv tree C key_ok overhead encKey clog L maxDepth" and "holds_blobs dinv tree C encKey overhead L maxDepth w M"
    and "length tgt + 19 \<le> blob_limit L maxDepth"
    and "Suc (blob_need L maxDepth 0 19 + blob_need L maxDepth 19 (length tgt + 19)) \<le> length (fst (snd w))"
    and "B = cached_blob_store fill p C encKey dk clog L"
  shows "\<exists>i w'. ebind (FsBlobStore_createSymlinkBlob B tgt parent) (\<lambda>b. FsBlobStore_load B (fs_symlink_id b)) w =
    (Inr (Some (SymlinkBlob i parent (takeWhile (\<lambda>b. b \<noteq> 0) tgt))), w') \<and> M i = None \<and>
    holds_blobs dinv tree C encKey overhead L maxDepth w' (M(i \<mapsto> fs_header SYMLINK parent @ tgt))"
  using blob_arrays.symlink_program_ok [OF cached_blob_arrays [OF assms(1), of fill p] assms(2-4), of parent]
  unfolding assms(5) returns_def by (auto simp del: fun_upd_apply)

lemma symlink_created_and_loaded_witness:
  "\<exists>i w'. (let B = cached_blob_store 0 0 test_cipher 5 (memory_disk 0) exact_ceilLog (layout_of 40) in
      ebind (FsBlobStore_createSymlinkBlob B [47, 97, 47, 98] (bid 200)) (\<lambda>b. FsBlobStore_load B (fs_symlink_id b)) (fresh_blobs test_ids 0 [] 0)) =
    (Inr (Some (SymlinkBlob i (bid 200) [47, 97, 47, 98])), w')"
  using symlink_created_and_loaded [OF test_setting [of 0] fresh_holds [OF test_setting [of 0] test_disk distinct_test_ids, of 0 0], where tgt = "[47, 97, 47, 98]"
      and parent = "bid 200" and fill = 0 and p = 0, OF _ _ refl]
  unfolding Let_def by (auto simp: test_sizes fresh_blobs_def test_ids_def leaf_count_def cdiv_def)

text \<open>
  C9. Migration keeps the content: a blob in the format without parent pointers is loaded, after \<open>migrate\<close>,
  as a blob of its type with the given parent and exactly the content it had.
\<close>

theorem migration_keeps_content:
  assumes "blob_setting dk dinv tree C key_ok overhead encKey clog L maxDepth" and "holds_blobs dinv tree C encKey overhead L maxDepth w M"
    and "length D + 19 \<le> blob_limit L maxDepth" and "t = DIR \<longrightarrow> (\<exists>es. saveable es \<and> D = listing es)"
    and "Suc (blob_need L maxDepth 0 (length D + 3) + blob_need L maxDepth (length D + 3) (length D + 19)) \<le> length (fst (snd w))"
    and "B = cached_blob_store fill p C encKey dk clog L"
  shows "\<exists>i x w'. ebind (blob_create B) (\<lambda>i. ebind (blob_write B i (old_fs_header t @ D) 0) (\<lambda>_.
      ebind (FsBlobView_migrate B i parent) (\<lambda>_. FsBlobStore_load B i))) w = (Inr (Some x), w') \<and> fs_object i t parent D x \<and>
    holds_blobs dinv tree C encKey overhead L maxDepth w' (M(i \<mapsto> fs_header t parent @ D))"
  using blob_arrays.migrate_program_ok [OF cached_blob_arrays [OF assms(1), of fill p] assms(2-5), where p = parent]
  unfolding assms(6) returns_def by (auto simp del: fun_upd_apply)

lemma migration_keeps_content_witness:
  "\<exists>i w'. (let B = cached_blob_store 0 0 test_cipher 5 (memory_disk 0) exact_ceilLog (layout_of 40) in
      ebind (blob_create B) (\<lambda>i. ebind (blob_write B i [0, 0, 2, 97, 98] 0) (\<lambda>_.
      ebind (FsBlobView_migrate B i (bid 200)) (\<lambda>_. FsBlobStore_load B i))) (fresh_blobs test_ids 0 [] 0)) =
    (Inr (Some (SymlinkBlob i (bid 200) [97, 98])), w')"
proof -
  have old: "old_fs_header SYMLINK @ [97, 98] = [0, 0, 2, 97, 98]" by (simp add: old_fs_header_def serialize_def EntryType_value_def upt_rec)
  show ?thesis
    using migration_keeps_content [OF test_setting [of 0] fresh_holds [OF test_setting [of 0] test_disk distinct_test_ids, of 0 0], where D = "[97, 98]" and t = SYMLINK
        and parent = "bid 200" and fill = 0 and p = 0, OF _ _ _ refl]
    unfolding Let_def old by (auto simp: test_sizes fresh_blobs_def test_ids_def leaf_count_def cdiv_def fs_object_def)
qed

text \<open>
  A read that is not inside the blob fails: \<open>read\<close> never returns bytes that are not there, also when its
  range starts inside the blob.
\<close>

theorem read_outside_fails:
  assumes "blob_setting dk dinv tree C key_ok overhead encKey clog L maxDepth" and "holds_blobs dinv tree C encKey overhead L maxDepth w M"
    and "length src \<le> blob_limit L maxDepth" and "Suc (blob_need L maxDepth 0 (length src)) \<le> length (fst (snd w))"
    and "off < 2 ^ 63" and "count < 2 ^ 63" and "length src < off + count" and "B = cached_blob_store fill p C encKey dk clog L"
  shows "fst (ebind (blob_create B) (\<lambda>i. ebind (blob_write B i src 0) (\<lambda>_. blob_read B i off count)) w) =
    Inl (RuntimeError ''BlobOnBlocks::read() read outside blob. Use BlobOnBlocks::tryRead() if this should be allowed.'')"
  unfolding assms(8) by (rule blob_arrays.read_outside_program [OF cached_blob_arrays [OF assms(1), of fill p] assms(2-7)])

lemma read_outside_fails_witness:
  "fst ((let B = cached_blob_store 0 0 test_cipher 5 (memory_disk 0) exact_ceilLog (layout_of 40) in
      ebind (blob_create B) (\<lambda>i. ebind (blob_write B i [1, 2, 3] 0) (\<lambda>_. blob_read B i 1 3))) (fresh_blobs test_ids 0 [] 0)) =
    Inl (RuntimeError ''BlobOnBlocks::read() read outside blob. Use BlobOnBlocks::tryRead() if this should be allowed.'')"
  unfolding Let_def
  by (rule read_outside_fails [OF test_setting [of 0] fresh_holds [OF test_setting [of 0] test_disk distinct_test_ids, of 0 0] _ _ _ _ _ refl])
    (simp_all add: test_sizes fresh_blobs_def test_ids_def leaf_count_def cdiv_def)

end
