(* ===== verification/RunLength.thy ===== *)
theory RunLength
  imports HighLevel
begin

text \<open>
  \<open>src/src/blockstore/implementations/compressing\<close>: the run-length compressor and the block store that
  keeps its blocks compressed. A compressed stream alternates runs of arbitrary bytes and runs of one
  repeated byte, each with a 16 bit length. The main results are the round trip of the compressor and
  that a compressing store built on a correct compressor returns what was written to it.
\<close>

section \<open>RunLengthEncoding\<close>

subsection \<open>Compress\<close>

text \<open>
  The run is cut after 65535 bytes (\<open>realEnd\<close>). \<open>pos\<close> is \<open>current - start\<close>; the result is converted to
  16 bit.
\<close>

fun arbitraryRunLength_loop :: "data \<Rightarrow> byte \<Rightarrow> byte \<Rightarrow> nat \<Rightarrow> nat" where
  "arbitraryRunLength_loop [] lastByte numIdenticalBytes pos = pos mod 2 ^ 16"
| "arbitraryRunLength_loop (b # bs) lastByte numIdenticalBytes pos =
     (if b = lastByte
      then if numIdenticalBytes + 1 = 6 then nat ((int pos - 5) mod 2 ^ 16)
           else arbitraryRunLength_loop bs b (numIdenticalBytes + 1) (pos + 1)
      else arbitraryRunLength_loop bs b 1 (pos + 1))"

definition arbitraryRunLength :: "data \<Rightarrow> nat" where
  "arbitraryRunLength start = arbitraryRunLength_loop (take 65535 start) (hd start + 1) 1 0"

fun countIdenticalBytes_loop :: "byte \<Rightarrow> data \<Rightarrow> nat \<Rightarrow> nat" where
  "countIdenticalBytes_loop first [] pos = pos mod 2 ^ 16"
| "countIdenticalBytes_loop first (b # bs) pos =
     (if b \<noteq> first then pos mod 2 ^ 16 else countIdenticalBytes_loop first bs (pos + 1))"

definition countIdenticalBytes :: "data \<Rightarrow> nat" where
  "countIdenticalBytes start = countIdenticalBytes_loop (hd start) (tl (take 65535 start)) 1"

text \<open>Both encoders return what they write and the input that is left.\<close>

definition encodeArbitraryWords :: "data \<Rightarrow> data \<times> data" where
  "encodeArbitraryWords current =
     (let size = arbitraryRunLength current
      in (serialize (of_nat size :: u16) @ take size current, drop size current))"

definition encodeIdenticalWords :: "data \<Rightarrow> data \<times> data" where
  "encodeIdenticalWords current =
     (let size = countIdenticalBytes current
      in (serialize (of_nat size :: u16) @ [hd current], drop size current))"

lemma countIdenticalBytes_loop_bounds:
  "pos + length bs < 2 ^ 16 \<Longrightarrow>
   pos \<le> countIdenticalBytes_loop x bs pos \<and> countIdenticalBytes_loop x bs pos \<le> pos + length bs"
proof (induction x bs pos rule: countIdenticalBytes_loop.induct)
  case (2 first b bs pos)
  then show ?case by (cases "b = first") auto
qed simp

lemma countIdenticalBytes_loop_run:
  "pos + length bs < 2 ^ 16 \<Longrightarrow>
   take (countIdenticalBytes_loop x bs pos - pos) bs = replicate (countIdenticalBytes_loop x bs pos - pos) x"
proof (induction x bs pos rule: countIdenticalBytes_loop.induct)
  case (2 first b bs pos)
  show ?case
  proof (cases "b = first")
    case True
    have le: "pos + 1 \<le> countIdenticalBytes_loop first bs (pos + 1)"
      using 2(2) countIdenticalBytes_loop_bounds [of "pos + 1" bs first] by simp
    have "take (countIdenticalBytes_loop first bs (pos + 1) - (pos + 1)) bs =
        replicate (countIdenticalBytes_loop first bs (pos + 1) - (pos + 1)) first"
      using True 2 by simp
    moreover have "countIdenticalBytes_loop first bs (pos + 1) - pos =
        Suc (countIdenticalBytes_loop first bs (pos + 1) - (pos + 1))" using le by simp
    ultimately show ?thesis using True by simp
  next
    case False
    then show ?thesis using 2(2) by simp
  qed
qed simp

lemma countIdenticalBytes:
  assumes "d \<noteq> []"
  shows "1 \<le> countIdenticalBytes d" and "countIdenticalBytes d \<le> length d" and "countIdenticalBytes d < 2 ^ 16"
    and "take (countIdenticalBytes d) d = replicate (countIdenticalBytes d) (hd d)"
proof -
  obtain x xs where d: "d = x # xs" using assms by (cases d) auto
  let ?bs = "take 65534 xs"
  have bs: "countIdenticalBytes d = countIdenticalBytes_loop x ?bs 1" by (simp add: countIdenticalBytes_def d)
  have less: "1 + length ?bs < 2 ^ 16" by simp
  note b = countIdenticalBytes_loop_bounds [OF less, of x]
  show "1 \<le> countIdenticalBytes d" and "countIdenticalBytes d < 2 ^ 16" using b less by (auto simp: bs)
  show le: "countIdenticalBytes d \<le> length d" unfolding bs using b by (auto simp: d)
  define k where "k = countIdenticalBytes_loop x ?bs 1"
  have k: "1 \<le> k" "k - 1 \<le> 65534" using b less by (auto simp: k_def)
  have "take (k - 1) ?bs = replicate (k - 1) x" unfolding k_def by (rule countIdenticalBytes_loop_run [OF less])
  then have "take (k - 1) xs = replicate (k - 1) x" using k by (simp add: min_def)
  then have "take k d = replicate k x" using k by (cases k) (auto simp: d)
  then show "take (countIdenticalBytes d) d = replicate (countIdenticalBytes d) (hd d)"
    unfolding bs by (simp add: d k_def)
qed

lemma arbitraryRunLength_loop_le:
  "pos + length bs < 2 ^ 16 \<Longrightarrow> unat n \<le> pos \<Longrightarrow>
   arbitraryRunLength_loop bs lastByte n pos \<le> pos + length bs"
proof (induction bs lastByte n pos rule: arbitraryRunLength_loop.induct)
  case (2 b bs lastByte n pos)
  have n: "unat (n + 1) \<le> pos + 1"
    using 2(4) by (simp add: unat_word_ariths(1))
  show ?case
  proof (cases "b = lastByte \<and> n + 1 = 6")
    case True
    then have "n = 6 - 1" by (metis add_diff_cancel_right')
    then have "5 \<le> pos" using 2(4) by simp
    then have "nat ((int pos - 5) mod 2 ^ 16) = pos - 5" using 2(3) by simp
    then show ?thesis using True by simp
  next
    case False
    show ?thesis
    proof (cases "b = lastByte")
      case True
      then show ?thesis using False 2(1) 2(3) n by simp
    next
      case neq: False
      have "arbitraryRunLength_loop bs b 1 (pos + 1) \<le> pos + 1 + length bs"
        using neq 2(2) 2(3) by simp
      then show ?thesis using neq by simp
    qed
  qed
qed simp

lemma arbitraryRunLength:
  "arbitraryRunLength d \<le> length d" "arbitraryRunLength d < 2 ^ 16"
proof -
  have "arbitraryRunLength d \<le> length (take 65535 d)"
  proof (cases d)
    case Nil
    then show ?thesis by (simp add: arbitraryRunLength_def)
  next
    case (Cons x xs)
    have "x \<noteq> x + 1" by simp
    then have "arbitraryRunLength d = arbitraryRunLength_loop (take 65534 xs) x 1 1"
      by (simp add: arbitraryRunLength_def Cons)
    also have "\<dots> \<le> 1 + length (take 65534 xs)" by (rule arbitraryRunLength_loop_le) simp_all
    finally show ?thesis by (simp add: Cons)
  qed
  then show "arbitraryRunLength d \<le> length d" "arbitraryRunLength d < 2 ^ 16" by auto
qed

function Compress_loop :: "data \<Rightarrow> data" where
  "Compress_loop current =
     (if current = [] then []
      else
        let (compressed, current1) = encodeArbitraryWords current in
        if current1 = [] then compressed
        else
          let (compressed', current2) = encodeIdenticalWords current1
          in compressed @ compressed' @ Compress_loop current2)"
  by pat_completeness auto
termination
proof (relation "measure length")
  fix current compressed current1 compressed' current2 :: data and p p'
  assume "p = encodeArbitraryWords current" "(compressed, current1) = p" "current1 \<noteq> []" "current \<noteq> []"
    and "p' = encodeIdenticalWords current1" "(compressed', current2) = p'"
  moreover then have "1 \<le> countIdenticalBytes current1" by (intro countIdenticalBytes(1)) simp
  ultimately show "(current2, current) \<in> measure length"
    by (auto simp: encodeArbitraryWords_def encodeIdenticalWords_def Let_def)
qed simp

declare Compress_loop.simps [simp del]

definition RunLengthEncoding_Compress :: "data \<Rightarrow> data" where
  "RunLengthEncoding_Compress d = Compress_loop d"

subsection \<open>Decompress\<close>

text \<open>
  A stream is the input that is left. A read of more bytes than that clears \<open>good()\<close>. Both decoders
  return the stream and what they write.
\<close>

definition stream_read :: "nat \<Rightarrow> data \<Rightarrow> (data \<times> data) result" where
  "stream_read n stream =
     (if n \<le> length stream then Inr (take n stream, drop n stream)
      else Inl (AssertFailed ''Premature end of stream''))"

definition decodeArbitraryWords :: "data \<Rightarrow> (data \<times> data) result" where
  "decodeArbitraryWords stream =
     rbind (stream_read 2 stream) (\<lambda>(sz, stream).
     rbind (deserialize sz) (\<lambda>size :: u16.
     rbind (stream_read (unat size) stream) (\<lambda>(run, stream).
     Inr (stream, run))))"

definition decodeIdenticalWords :: "data \<Rightarrow> (data \<times> data) result" where
  "decodeIdenticalWords stream =
     rbind (stream_read 2 stream) (\<lambda>(sz, stream).
     rbind (deserialize sz) (\<lambda>size :: u16.
     rbind (stream_read 1 stream) (\<lambda>(value, stream).
     Inr (stream, replicate (unat size) (hd value)))))"

lemma stream_read_Inr: "stream_read n s = Inr (r, t) \<longleftrightarrow> n \<le> length s \<and> r = take n s \<and> t = drop n s"
  by (auto simp: stream_read_def)

lemma decode_shorter:
  "decodeArbitraryWords s = Inr (t, r) \<Longrightarrow> length t < length s"
  "decodeIdenticalWords s = Inr (t, r) \<Longrightarrow> length t < length s"
  by (auto simp: decodeArbitraryWords_def decodeIdenticalWords_def rbind_Inr_iff stream_read_Inr split: prod.splits)

function Decompress_loop :: "data \<Rightarrow> data \<Rightarrow> data result" where
  "Decompress_loop stream decompressed =
     (if stream = [] then Inr decompressed
      else case decodeArbitraryWords stream of
        Inl e \<Rightarrow> Inl e
      | Inr (stream1, run1) \<Rightarrow>
          if stream1 = [] then Inr (decompressed @ run1)
          else case decodeIdenticalWords stream1 of
            Inl e \<Rightarrow> Inl e
          | Inr (stream2, run2) \<Rightarrow> Decompress_loop stream2 (decompressed @ run1 @ run2))"
  by pat_completeness auto
termination
proof (relation "measure (length \<circ> fst)")
  fix stream decompressed stream1 run1 stream2 run2 :: data and p p'
  assume "decodeArbitraryWords stream = Inr p" "(stream1, run1) = p"
    and "decodeIdenticalWords stream1 = Inr p'" "(stream2, run2) = p'"
  then have "length stream1 < length stream" "length stream2 < length stream1"
    by (auto dest: decode_shorter)
  then show "((stream2, decompressed @ run1 @ run2), (stream, decompressed)) \<in> measure (length \<circ> fst)"
    by simp
qed simp

declare Decompress_loop.simps [simp del]

definition RunLengthEncoding_Decompress :: "data \<Rightarrow> data result" where
  "RunLengthEncoding_Decompress d = Decompress_loop d []"

subsection \<open>Round trip\<close>

lemma u16_roundtrip: "n < 2 ^ 16 \<Longrightarrow> unat (of_nat n :: u16) = n"
  by (simp add: unat_of_nat)

lemma deserialize_serialize_u16: "deserialize (serialize (w :: u16)) = Inr w"
  using deserialize_serialize_widths(2) [of w "[]"] by simp

lemma decode_encodeArbitrary:
  "decodeArbitraryWords (fst (encodeArbitraryWords d) @ tail) = Inr (tail, take (arbitraryRunLength d) d)"
  using arbitraryRunLength [of d]
  by (simp add: encodeArbitraryWords_def decodeArbitraryWords_def stream_read_def Let_def
      deserialize_serialize_u16 u16_roundtrip)

lemma decode_encodeIdentical:
  "d \<noteq> [] \<Longrightarrow>
   decodeIdenticalWords (fst (encodeIdenticalWords d) @ tail) = Inr (tail, take (countIdenticalBytes d) d)"
  using countIdenticalBytes [of d]
  by (simp add: encodeIdenticalWords_def decodeIdenticalWords_def stream_read_def Let_def
      deserialize_serialize_u16 u16_roundtrip)

lemma fst_encode_ne [simp]: "fst (encodeArbitraryWords d) \<noteq> []" "fst (encodeIdenticalWords d) \<noteq> []"
proof -
  have "serialize (w :: u16) \<noteq> []" for w using length_serialize [of w] by fastforce
  then show "fst (encodeArbitraryWords d) \<noteq> []" "fst (encodeIdenticalWords d) \<noteq> []"
    by (simp_all add: encodeArbitraryWords_def encodeIdenticalWords_def Let_def)
qed

lemma Decompress_Compress: "Decompress_loop (Compress_loop d) acc = Inr (acc @ d)"
proof (induction d arbitrary: acc rule: Compress_loop.induct)
  case (1 d)
  show ?case
  proof (cases "d = []")
    case True
    then show ?thesis by (simp add: Compress_loop.simps Decompress_loop.simps)
  next
    case d: False
    obtain c1 d1 where e1: "encodeArbitraryWords d = (c1, d1)" by fastforce
    then have c1: "c1 = fst (encodeArbitraryWords d)" and d1: "d1 = drop (arbitraryRunLength d) d"
      by (auto simp: encodeArbitraryWords_def Let_def)
    have dec1: "decodeArbitraryWords (c1 @ t) = Inr (t, take (arbitraryRunLength d) d)" for t
      unfolding c1 by (rule decode_encodeArbitrary)
    show ?thesis
    proof (cases "d1 = []")
      case True
      then have "Compress_loop d = c1" using d e1 by (simp add: Compress_loop.simps)
      moreover have "take (arbitraryRunLength d) d = d" using True d1 by simp
      ultimately show ?thesis
        using dec1 [of "[]"] by (subst Decompress_loop.simps) (simp add: c1)
    next
      case ne: False
      obtain c2 d2 where e2: "encodeIdenticalWords d1 = (c2, d2)" by fastforce
      then have c2: "c2 = fst (encodeIdenticalWords d1)" and d2: "d2 = drop (countIdenticalBytes d1) d1"
        by (auto simp: encodeIdenticalWords_def Let_def)
      have dec2: "decodeIdenticalWords (c2 @ t) = Inr (t, take (countIdenticalBytes d1) d1)" for t
        unfolding c2 by (rule decode_encodeIdentical [OF ne])
      have "Compress_loop d = c1 @ c2 @ Compress_loop d2"
        using d ne e1 e2 by (subst Compress_loop.simps) simp
      moreover have "Decompress_loop (Compress_loop d2) acc' = Inr (acc' @ d2)" for acc'
        by (rule "1.IH" [OF d e1 [symmetric] refl ne e2 [symmetric] refl])
      moreover have "take (arbitraryRunLength d) d @ take (countIdenticalBytes d1) d1 @ d2 = d"
        using append_take_drop_id [of "countIdenticalBytes d1" d1] append_take_drop_id [of "arbitraryRunLength d" d]
        unfolding d2 by (simp only: d1)
      ultimately show ?thesis
        using dec1 dec2 by (subst Decompress_loop.simps) (simp add: c1 c2)
    qed
  qed
qed

text \<open>A malformed stream is reported by the assertion on the stream, in every case.\<close>

lemma decode_errors:
  "decodeArbitraryWords s = Inl e \<Longrightarrow> e = AssertFailed ''Premature end of stream''"
  "decodeIdenticalWords s = Inl e \<Longrightarrow> e = AssertFailed ''Premature end of stream''"
  by (auto simp: decodeArbitraryWords_def decodeIdenticalWords_def stream_read_def rbind_def deserialize_def
      split: if_splits sum.splits)

lemma Decompress_loop_errors:
  "Decompress_loop s acc = Inl e \<Longrightarrow> e = AssertFailed ''Premature end of stream''"
proof (induction s acc rule: Decompress_loop.induct)
  case (1 s acc)
  from 1(2) show ?case
    by (subst (asm) Decompress_loop.simps)
      (auto split: if_splits sum.splits dest: decode_errors 1(1) [OF _ _ refl _ _ refl])
qed

section \<open>CompressedBlock\<close>

text \<open>A compressor as the template parameter provides it.\<close>

record compressor =
  Compressor_Compress :: "data \<Rightarrow> data"
  Compressor_Decompress :: "data \<Rightarrow> data result"

definition RunLengthEncoding :: compressor where
  "RunLengthEncoding = \<lparr>Compressor_Compress = RunLengthEncoding_Compress, Compressor_Decompress = RunLengthEncoding_Decompress\<rparr>"

record compressed_block =
  cb_baseBlock :: high_block
  cb_decompressedData :: data
  cb_dataChanged :: bool

definition CompressedBlock_new :: "high_block \<Rightarrow> data \<Rightarrow> compressed_block" where
  "CompressedBlock_new baseBlock decompressedData =
     \<lparr>cb_baseBlock = baseBlock, cb_decompressedData = decompressedData, cb_dataChanged = False\<rparr>"

definition CompressedBlock_TryCreateNew ::
  "compressor \<Rightarrow> 's block_store2 \<Rightarrow> block_id \<Rightarrow> data \<Rightarrow> ('s hl_state, compressed_block option) exec" where
  "CompressedBlock_TryCreateNew C base i decompressedData =
     ebind (LowToHighLevelBlockStore_tryCreate base i (Compressor_Compress C decompressedData)) (\<lambda>baseBlock.
       case baseBlock of
         None \<Rightarrow> ret None
       | Some b \<Rightarrow> ret (Some (CompressedBlock_new b decompressedData)))"

definition CompressedBlock_Overwrite ::
  "compressor \<Rightarrow> 's block_store2 \<Rightarrow> block_id \<Rightarrow> data \<Rightarrow> ('s hl_state, compressed_block) exec" where
  "CompressedBlock_Overwrite C base i decompressedData =
     ebind (zoom_snd (LowToHighLevelBlock_Overwrite base i (Compressor_Compress C decompressedData))) (\<lambda>b.
     ret (CompressedBlock_new b decompressedData))"

definition CompressedBlock_Decompress :: "compressor \<Rightarrow> high_block \<Rightarrow> compressed_block result" where
  "CompressedBlock_Decompress C baseBlock =
     rbind (Compressor_Decompress C (hb_data baseBlock)) (\<lambda>decompressed.
     Inr (CompressedBlock_new baseBlock decompressed))"

text \<open>\<open>write\<close> does not check its bounds.\<close>

definition CompressedBlock_write :: "data \<Rightarrow> nat \<Rightarrow> compressed_block \<Rightarrow> compressed_block result" where
  "CompressedBlock_write source offset b =
     (if offset + length source \<le> length (cb_decompressedData b)
      then Inr (b\<lparr>cb_decompressedData := write_at offset source (cb_decompressedData b), cb_dataChanged := True\<rparr>)
      else Inl MemoryFault)"

definition CompressedBlock_size :: "compressed_block \<Rightarrow> nat" where
  "CompressedBlock_size b = length (cb_decompressedData b)"

definition CompressedBlock_resize :: "nat \<Rightarrow> compressed_block \<Rightarrow> compressed_block" where
  "CompressedBlock_resize newSize b =
     b\<lparr>cb_decompressedData := DataUtils_resize (cb_decompressedData b) newSize, cb_dataChanged := True\<rparr>"

definition CompressedBlock_compressToBaseBlock :: "compressor \<Rightarrow> compressed_block \<Rightarrow> compressed_block result" where
  "CompressedBlock_compressToBaseBlock C b =
     (if cb_dataChanged b
      then
        let compressed = Compressor_Compress C (cb_decompressedData b);
            base = LowToHighLevelBlock_resize (length compressed) (cb_baseBlock b)
        in rbind (LowToHighLevelBlock_write compressed 0 base) (\<lambda>base'.
           Inr (b\<lparr>cb_baseBlock := base', cb_dataChanged := False\<rparr>))
      else Inr b)"

definition CompressedBlock_flush :: "compressor \<Rightarrow> 's block_store2 \<Rightarrow> compressed_block \<Rightarrow> ('s, compressed_block) exec" where
  "CompressedBlock_flush C base b =
     ebind (lift_result (CompressedBlock_compressToBaseBlock C b)) (\<lambda>b.
     ebind (LowToHighLevelBlock_flush base (cb_baseBlock b)) (\<lambda>base'.
     ret (b\<lparr>cb_baseBlock := base'\<rparr>)))"

text \<open>The destructor compresses into the base block, whose own destructor stores it.\<close>

definition CompressedBlock_destroy :: "compressor \<Rightarrow> 's block_store2 \<Rightarrow> compressed_block \<Rightarrow> ('s, unit) exec" where
  "CompressedBlock_destroy C base b =
     ebind (lift_result (CompressedBlock_compressToBaseBlock C b)) (\<lambda>b.
     LowToHighLevelBlock_destroy base (cb_baseBlock b))"

section \<open>CompressingBlockStore\<close>

definition CompressingBlockStore_tryCreate ::
  "compressor \<Rightarrow> 's block_store2 \<Rightarrow> block_id \<Rightarrow> data \<Rightarrow> ('s hl_state, compressed_block option) exec" where
  "CompressingBlockStore_tryCreate C base i d = CompressedBlock_TryCreateNew C base i d"

definition CompressingBlockStore_overwrite ::
  "compressor \<Rightarrow> 's block_store2 \<Rightarrow> block_id \<Rightarrow> data \<Rightarrow> ('s hl_state, compressed_block) exec" where
  "CompressingBlockStore_overwrite C base i d = CompressedBlock_Overwrite C base i d"

definition CompressingBlockStore_load ::
  "compressor \<Rightarrow> 's block_store2 \<Rightarrow> block_id \<Rightarrow> ('s hl_state, compressed_block option) exec" where
  "CompressingBlockStore_load C base i =
     ebind (zoom_snd (LowToHighLevelBlock_Load base i)) (\<lambda>loaded.
       case loaded of
         None \<Rightarrow> ret None
       | Some b \<Rightarrow> ebind (lift_result (CompressedBlock_Decompress C b)) (\<lambda>c. ret (Some c)))"

definition CompressingBlockStore_remove :: "'s block_store2 \<Rightarrow> block_id \<Rightarrow> ('s hl_state, unit) exec" where
  "CompressingBlockStore_remove base i = LowToHighLevelBlockStore_remove base i"

text \<open>The contract of a compressor, and what the store makes of it.\<close>

locale lossless_compressor =
  fixes C :: compressor
  assumes lossless: "Compressor_Decompress C (Compressor_Compress C d) = Inr d"
begin

lemma destroy_stores_compressed:
  assumes "cb_dataChanged b"
  shows "CompressedBlock_destroy C base b =
    ebind (store_of base (hb_blockId (cb_baseBlock b)) (Compressor_Compress C (cb_decompressedData b))) (\<lambda>_. ret ())"
proof -
  let ?z = "Compressor_Compress C (cb_decompressedData b)"
  have "write_at 0 ?z (DataUtils_resize (hb_data (cb_baseBlock b)) (length ?z)) = ?z"
    by (rule write_at_0_all) simp
  then show ?thesis using assms
    by (auto simp: fun_eq_iff CompressedBlock_destroy_def CompressedBlock_compressToBaseBlock_def
        LowToHighLevelBlock_resize_def LowToHighLevelBlock_write_def LowToHighLevelBlock_destroy_def
        LowToHighLevelBlock_storeToBaseBlock_def Let_def ebind_def split: prod.splits sum.splits)
qed

lemma load_compressed:
  assumes "load_of base i s = (Inr (Some (Compressor_Compress C d)), t)"
  shows "\<exists>b. CompressingBlockStore_load C base i (ids, s) = (Inr (Some b), (ids, t)) \<and> cb_decompressedData b = d"
  using assms
  by (simp add: CompressingBlockStore_load_def LowToHighLevelBlock_Load_def LowToHighLevelBlock_new_def
      CompressedBlock_Decompress_def CompressedBlock_new_def lossless ebind_def zoom_snd_def)

end

interpretation run_length: lossless_compressor RunLengthEncoding
  by unfold_locales
    (simp add: RunLengthEncoding_def RunLengthEncoding_Compress_def RunLengthEncoding_Decompress_def Decompress_Compress)

section \<open>Properties\<close>

text \<open>
  C30. Run length encoding is lossless: every block, of any length, decompresses to itself; in particular
  the 16 bit run lengths never overflow.
\<close>

theorem run_length_roundtrip: "RunLengthEncoding_Decompress (RunLengthEncoding_Compress d) = Inr d"
  by (simp add: RunLengthEncoding_Compress_def RunLengthEncoding_Decompress_def Decompress_Compress)


text \<open>
  What is written to a compressed block is what the next load of the block returns, over any base
  store that meets the contract.
\<close>

theorem compressed_block_reads_back:
  assumes "block_store2 base binv bblocks bfits bcapacity" and "binv s" and "bcapacity s (Suc 0)"
    and "bfits (RunLengthEncoding_Compress (write_at off src d))"
    and "cb_decompressedData b = d" and "off + length src \<le> length d"
    and "hb_blockId (cb_baseBlock b) = i"
  shows "\<exists>b' t u c. CompressedBlock_write src off b = Inr b' \<and>
    CompressedBlock_destroy RunLengthEncoding base b' s = (Inr (), t) \<and>
    CompressingBlockStore_load RunLengthEncoding base i (ids, t) = (Inr (Some c), (ids, u)) \<and>
    cb_decompressedData c = write_at off src d"
proof -
  let ?d = "write_at off src d" and ?z = "RunLengthEncoding_Compress (write_at off src d)"
  define b' where "b' = b\<lparr>cb_decompressedData := ?d, cb_dataChanged := True\<rparr>"
  have w: "CompressedBlock_write src off b = Inr b'" using assms(5,6) by (simp add: CompressedBlock_write_def b'_def)
  from block_store2.store [OF assms(1,2,4,3), of i] obtain t where
    t: "store_of base i ?z s = (Inr (), t)" "binv t" "bblocks t = (bblocks s)(i \<mapsto> ?z)"
    by (rule yieldsE) blast
  have dest: "CompressedBlock_destroy RunLengthEncoding base b' s = (Inr (), t)"
    using t(1) assms(7)
    by (subst run_length.destroy_stores_compressed) (simp_all add: b'_def ebind_def RunLengthEncoding_def)
  from block_store2.load [OF assms(1) t(2), of i] obtain u where "load_of base i t = (Inr (Some ?z), u)"
    unfolding t(3) by (auto elim: yieldsE)
  then have "load_of base i t = (Inr (Some (Compressor_Compress RunLengthEncoding ?d)), u)"
    by (simp add: RunLengthEncoding_def)
  from run_length.load_compressed [OF this, of ids] w dest show ?thesis by blast
qed

theorem compressed_block_reads_back_witness:
  "\<exists>b' t u c. CompressedBlock_write [9] 1 (CompressedBlock_new (LowToHighLevelBlock_new (bid 1) []) [5, 5, 5]) = Inr b' \<and>
    CompressedBlock_destroy RunLengthEncoding (InMemoryBlockStore2 0) b' [] = (Inr (), t) \<and>
    CompressingBlockStore_load RunLengthEncoding (InMemoryBlockStore2 0) (bid 1) ([], t) = (Inr (Some c), ([], u)) \<and>
    cb_decompressedData c = [5, 9, 5]"
  using compressed_block_reads_back [OF inmemory.block_store2_axioms [of 0], where s = "[]" and off = 1 and src = "[9]" and d = "[5, 5, 5]" and i = "bid 1" and ids = "[]"
      and b = "CompressedBlock_new (LowToHighLevelBlock_new (bid 1) []) [5, 5, 5]"]
  by (simp add: inmemory_inv_def CompressedBlock_new_def LowToHighLevelBlock_new_def write_at_def)

end
