(* ===== verification/ParallelAccess.thy ===== *)
theory ParallelAccess
  imports HighLevel "HOL-Library.Multiset"
begin

text \<open>
  \<open>src/src/parallelaccessstore/ParallelAccessStore.h\<close>: one shared object per key, with a reference
  count, and removal that waits for the last reference. Each critical section of the code is one
  operation; threads interleave between them, which the step relation at the end describes. The
  invariant shows that the reference counts are the numbers of live references, so that a destructor
  always finds its resource.
\<close>

section \<open>State\<close>

text \<open>
  A promise in \<open>_resourcesToRemove\<close> is unset or holds the resource its waiter is going to remove.
\<close>

record 'r open_resource =
  or_resource :: 'r
  refCount :: nat

record ('k, 'r, 'b) pa_store =
  openResources :: "('k \<times> 'r open_resource) list"
  resourcesToRemove :: "('k \<times> 'r option) list"
  pa_baseStore :: 'b

record ('k, 'r, 'b) pa_base =
  loadFromBaseStore :: "'k \<Rightarrow> ('b, 'r option) exec"
  removeFromBaseStore :: "'r \<Rightarrow> ('b, unit) exec"
  removeFromBaseStore_key :: "'k \<Rightarrow> ('b, unit) exec"

definition OpenResource_new :: "'r \<Rightarrow> 'r open_resource" where
  "OpenResource_new resource = \<lparr>or_resource = resource, refCount = 0\<rparr>"

definition OpenResource_getReference :: "'r open_resource \<Rightarrow> 'r open_resource" where
  "OpenResource_getReference o1 = o1\<lparr>refCount := (refCount o1 + 1) mod 2 ^ 32\<rparr>"

definition OpenResource_releaseReference :: "'r open_resource \<Rightarrow> 'r open_resource" where
  "OpenResource_releaseReference o1 = o1\<lparr>refCount := (refCount o1 + (2 ^ 32 - 1)) mod 2 ^ 32\<rparr>"

definition OpenResource_refCountIsZero :: "'r open_resource \<Rightarrow> bool" where
  "OpenResource_refCountIsZero o1 \<longleftrightarrow> refCount o1 = 0"

definition in_base :: "('b, 'a) exec \<Rightarrow> (('k, 'r, 'b) pa_store, 'a) exec" where
  "in_base m s = (case m (pa_baseStore s) of (r, b) \<Rightarrow> (r, s\<lparr>pa_baseStore := b\<rparr>))"

section \<open>Operations\<close>

text \<open>A reference is identified by its key: what it points to is the open resource of that key.\<close>

definition ParallelAccessStore_isOpened :: "'k \<Rightarrow> (('k, 'r, 'b) pa_store, bool) exec" where
  "ParallelAccessStore_isOpened key = gets (\<lambda>s. map_of (openResources s) key \<noteq> None)"

definition ParallelAccessStore_add :: "'k \<Rightarrow> 'r \<Rightarrow> (('k, 'r, 'b) pa_store, unit) exec" where
  "ParallelAccessStore_add key resource =
     ebind (gets (\<lambda>s. map_of (openResources s) key = None)) (\<lambda>inserted.
     ebind (assert_exec inserted ''Inserting failed. Already exists.'') (\<lambda>_.
     modify (\<lambda>s. s\<lparr>openResources :=
       um_insert (key, OpenResource_getReference (OpenResource_new resource)) (openResources s)\<rparr>)))"

definition ParallelAccessStore_addReference :: "'k \<Rightarrow> 'r open_resource \<Rightarrow> (('k, 'r, 'b) pa_store, unit) exec" where
  "ParallelAccessStore_addReference key found =
     modify (\<lambda>s. s\<lparr>openResources := um_put key (OpenResource_getReference found) (openResources s)\<rparr>)"

definition ParallelAccessStore_loadOrAdd ::
  "'k \<Rightarrow> ('r \<Rightarrow> 'r) \<Rightarrow> (('k, 'r, 'b) pa_store, 'r) exec \<Rightarrow> (('k, 'r, 'b) pa_store, unit) exec" where
  "ParallelAccessStore_loadOrAdd key onExists onAdd =
     ebind (gets (\<lambda>s. map_of (openResources s) key)) (\<lambda>found.
       case found of
         None \<Rightarrow> ebind onAdd (\<lambda>resource. ParallelAccessStore_add key resource)
       | Some o1 \<Rightarrow>
           ebind (ParallelAccessStore_addReference key o1) (\<lambda>_.
           modify (\<lambda>s. s\<lparr>openResources :=
             um_put key (OpenResource_getReference o1\<lparr>or_resource := onExists (or_resource o1)\<rparr>) (openResources s)\<rparr>)))"

definition ParallelAccessStore_load ::
  "('k, 'r, 'b) pa_base \<Rightarrow> 'k \<Rightarrow> (('k, 'r, 'b) pa_store, bool) exec" where
  "ParallelAccessStore_load base key =
     ebind (gets (\<lambda>s. map_of (openResources s) key)) (\<lambda>found.
       case found of
         None \<Rightarrow>
           ebind (in_base (loadFromBaseStore base key)) (\<lambda>resource.
             case resource of
               None \<Rightarrow> ret False
             | Some r \<Rightarrow> ebind (ParallelAccessStore_add key r) (\<lambda>_. ret True))
       | Some o1 \<Rightarrow> ebind (ParallelAccessStore_addReference key o1) (\<lambda>_. ret True))"

text \<open>Setting a promise twice throws.\<close>

definition ParallelAccessStore_setPromise :: "'k \<Rightarrow> 'r \<Rightarrow> (('k, 'r, 'b) pa_store, unit) exec" where
  "ParallelAccessStore_setPromise key resource =
     ebind (gets (\<lambda>s. map_of (resourcesToRemove s) key)) (\<lambda>foundToRemove.
       case foundToRemove of
         None \<Rightarrow> ret ()
       | Some (Some r) \<Rightarrow> throw (LogicError ''promise_already_satisfied'')
       | Some None \<Rightarrow> modify (\<lambda>s. s\<lparr>resourcesToRemove := um_put key (Some resource) (resourcesToRemove s)\<rparr>))"

definition ParallelAccessStore_release :: "'k \<Rightarrow> (('k, 'r, 'b) pa_store, unit) exec" where
  "ParallelAccessStore_release key =
     ebind (gets (\<lambda>s. map_of (openResources s) key)) (\<lambda>found.
       case found of
         None \<Rightarrow> throw (AssertFailed ''Didn't find key'')
       | Some o1 \<Rightarrow>
           let o2 = OpenResource_releaseReference o1 in
           ebind (modify (\<lambda>s. s\<lparr>openResources := um_put key o2 (openResources s)\<rparr>)) (\<lambda>_.
           if OpenResource_refCountIsZero o2
           then
             ebind (ParallelAccessStore_setPromise key (or_resource o2)) (\<lambda>_.
             modify (\<lambda>s. s\<lparr>openResources := AList.delete key (openResources s)\<rparr>))
           else ret ()))"

definition ParallelAccessStore_resourceToRemoveFuture :: "'k \<Rightarrow> (('k, 'r, 'b) pa_store, unit) exec" where
  "ParallelAccessStore_resourceToRemoveFuture key =
     ebind (gets (\<lambda>s. map_of (resourcesToRemove s) key = None)) (\<lambda>inserted.
     ebind (assert_exec inserted ''Inserting failed'') (\<lambda>_.
     modify (\<lambda>s. s\<lparr>resourcesToRemove := um_insert (key, None) (resourcesToRemove s)\<rparr>)))"

text \<open>What a remover does once its future is ready.\<close>

definition ParallelAccessStore_removeReady ::
  "('k, 'r, 'b) pa_base \<Rightarrow> 'k \<Rightarrow> 'r \<Rightarrow> (('k, 'r, 'b) pa_store, unit) exec" where
  "ParallelAccessStore_removeReady base key resourceToRemove =
     ebind (modify (\<lambda>s. s\<lparr>resourcesToRemove := AList.delete key (resourcesToRemove s)\<rparr>)) (\<lambda>_.
     in_base (removeFromBaseStore base resourceToRemove))"

text \<open>
  The two \<open>remove\<close> functions when no other thread runs in between: they block forever (here: out of
  fuel) when another reference is alive.
\<close>

definition ParallelAccessStore_waitAndRemove ::
  "('k, 'r, 'b) pa_base \<Rightarrow> 'k \<Rightarrow> (('k, 'r, 'b) pa_store, unit) exec" where
  "ParallelAccessStore_waitAndRemove base key =
     ebind (gets (\<lambda>s. map_of (resourcesToRemove s) key)) (\<lambda>future.
       case future of
         Some (Some r) \<Rightarrow> ParallelAccessStore_removeReady base key r
       | _ \<Rightarrow> throw OutOfFuel)"

definition ParallelAccessStore_remove ::
  "('k, 'r, 'b) pa_base \<Rightarrow> 'k \<Rightarrow> (('k, 'r, 'b) pa_store, unit) exec" where
  "ParallelAccessStore_remove base key =
     ebind (ParallelAccessStore_resourceToRemoveFuture key) (\<lambda>_.
     ebind (ParallelAccessStore_release key) (\<lambda>_.
     ParallelAccessStore_waitAndRemove base key))"

definition ParallelAccessStore_remove_key ::
  "('k, 'r, 'b) pa_base \<Rightarrow> 'k \<Rightarrow> (('k, 'r, 'b) pa_store, unit) exec" where
  "ParallelAccessStore_remove_key base key =
     ebind (ParallelAccessStore_isOpened key) (\<lambda>found.
       if found
       then
         ebind (ParallelAccessStore_resourceToRemoveFuture key) (\<lambda>_.
         ParallelAccessStore_waitAndRemove base key)
       else in_base (removeFromBaseStore_key base key))"

definition ParallelAccessStore_destroy :: "(('k, 'r, 'b) pa_store, unit) exec" where
  "ParallelAccessStore_destroy =
     ebind (gets (\<lambda>s. openResources s = [])) (\<lambda>noneOpen.
     ebind (assert_exec noneOpen ''Still resources open when trying to destruct'') (\<lambda>_.
     ebind (gets (\<lambda>s. resourcesToRemove s = [])) (\<lambda>noneToRemove.
     assert_exec noneToRemove ''Still resources to remove when trying to destruct'')))"

section \<open>Threads\<close>

text \<open>
  The system: the store, the live references (with their keys), the removers that wait for a promise,
  and the calls of \<open>remove(key)\<close> that have seen the resource open and have not asked for the future yet
  (the code reads \<open>_openResources\<close> there without the lock).
\<close>

record ('k, 'r, 'b) pa_system =
  pa_store :: "('k, 'r, 'b) pa_store"
  liveRefs :: "'k multiset"
  waiting :: "'k multiset"
  sawOpen :: "'k multiset"

inductive pa_step :: "('k, 'r, 'b) pa_base \<Rightarrow> ('k, 'r, 'b) pa_system \<Rightarrow> ('k, 'r, 'b) pa_system \<Rightarrow> bool"
  for base where
  add: "ParallelAccessStore_add k r (pa_store y) = (Inr (), s') \<Longrightarrow>
    pa_step base y (y\<lparr>pa_store := s', liveRefs := add_mset k (liveRefs y)\<rparr>)"
| load: "ParallelAccessStore_load base k (pa_store y) = (Inr True, s') \<Longrightarrow>
    pa_step base y (y\<lparr>pa_store := s', liveRefs := add_mset k (liveRefs y)\<rparr>)"
| load_missing: "ParallelAccessStore_load base k (pa_store y) = (Inr False, s') \<Longrightarrow>
    pa_step base y (y\<lparr>pa_store := s'\<rparr>)"
| loadOrAdd: "ParallelAccessStore_loadOrAdd k onExists (in_base onAdd) (pa_store y) = (Inr (), s') \<Longrightarrow>
    pa_step base y (y\<lparr>pa_store := s', liveRefs := add_mset k (liveRefs y)\<rparr>)"
| release: "k \<in># liveRefs y \<Longrightarrow> ParallelAccessStore_release k (pa_store y) = (Inr (), s') \<Longrightarrow>
    pa_step base y (y\<lparr>pa_store := s', liveRefs := liveRefs y - {#k#}\<rparr>)"
| remove_begin: "k \<in># liveRefs y \<Longrightarrow>
    ParallelAccessStore_resourceToRemoveFuture k (pa_store y) = (Inr (), s') \<Longrightarrow>
    pa_step base y (y\<lparr>pa_store := s', waiting := add_mset k (waiting y)\<rparr>)"
| remove_key_open: "ParallelAccessStore_isOpened k (pa_store y) = (Inr True, s') \<Longrightarrow>
    pa_step base y (y\<lparr>sawOpen := add_mset k (sawOpen y)\<rparr>)"
| remove_key_begin: "k \<in># sawOpen y \<Longrightarrow>
    ParallelAccessStore_resourceToRemoveFuture k (pa_store y) = (Inr (), s') \<Longrightarrow>
    pa_step base y (y\<lparr>pa_store := s', waiting := add_mset k (waiting y), sawOpen := sawOpen y - {#k#}\<rparr>)"
| remove_finish: "k \<in># waiting y \<Longrightarrow> map_of (resourcesToRemove (pa_store y)) k = Some (Some r) \<Longrightarrow>
    ParallelAccessStore_removeReady base k r (pa_store y) = (Inr (), s') \<Longrightarrow>
    pa_step base y (y\<lparr>pa_store := s', waiting := waiting y - {#k#}\<rparr>)"
| remove_closed: "ParallelAccessStore_isOpened k (pa_store y) = (Inr False, s') \<Longrightarrow>
    in_base (removeFromBaseStore_key base k) (pa_store y) = (Inr (), s'') \<Longrightarrow>
    pa_step base y (y\<lparr>pa_store := s''\<rparr>)"

inductive pa_reachable :: "('k, 'r, 'b) pa_base \<Rightarrow> ('k, 'r, 'b) pa_system \<Rightarrow> bool" for base where
  start: "pa_reachable base \<lparr>pa_store = \<lparr>openResources = [], resourcesToRemove = [], pa_baseStore = b\<rparr>,
    liveRefs = {#}, waiting = {#}, sawOpen = {#}\<rparr>"
| step: "pa_reachable base y \<Longrightarrow> pa_step base y z \<Longrightarrow> size (liveRefs z) < 2 ^ 32 \<Longrightarrow> pa_reachable base z"

section \<open>The invariant\<close>

definition refs_of :: "('k, 'r, 'b) pa_store \<Rightarrow> 'k \<Rightarrow> nat" where
  "refs_of s k = (case map_of (openResources s) k of None \<Rightarrow> 0 | Some o1 \<Rightarrow> refCount o1)"

definition pa_inv :: "('k, 'r, 'b) pa_system \<Rightarrow> bool" where
  "pa_inv y \<longleftrightarrow>
     um_wf (openResources (pa_store y)) \<and> um_wf (resourcesToRemove (pa_store y)) \<and>
     (\<forall>k. refs_of (pa_store y) k = count (liveRefs y) k) \<and>
     (\<forall>k o1. map_of (openResources (pa_store y)) k = Some o1 \<longrightarrow> 0 < refCount o1) \<and>
     (\<forall>k. count (waiting y) k = (if map_of (resourcesToRemove (pa_store y)) k = None then 0 else 1))"

lemma in_base_eq: "in_base m s = (r, t) \<Longrightarrow> \<exists>b. t = s\<lparr>pa_baseStore := b\<rparr>"
  by (auto simp: in_base_def split: prod.splits)

lemma refs_of_base [simp]: "refs_of (s\<lparr>pa_baseStore := b\<rparr>) = refs_of s"
  by (simp add: refs_of_def fun_eq_iff)

lemma add_cases:
  assumes "ParallelAccessStore_add k r s = (Inr u, s')"
  shows "map_of (openResources s) k = None"
    and "s' = s\<lparr>openResources := openResources s @ [(k, \<lparr>or_resource = r, refCount = 1\<rparr>)]\<rparr>"
proof -
  show *: "map_of (openResources s) k = None"
    using assms by (auto simp: ParallelAccessStore_add_def assert_exec_def split: if_splits)
  with assms show "s' = s\<lparr>openResources := openResources s @ [(k, \<lparr>or_resource = r, refCount = 1\<rparr>)]\<rparr>"
    by (auto simp: ParallelAccessStore_add_def um_insert_def OpenResource_getReference_def OpenResource_new_def)
qed

lemma pa_inv_addref:
  assumes "pa_inv y"
    and "map_of (openResources s') = (map_of (openResources (pa_store y)))(k \<mapsto> o1)"
    and "refCount o1 = count (liveRefs y) k + 1"
    and "um_wf (openResources s')" and "resourcesToRemove s' = resourcesToRemove (pa_store y)"
  shows "pa_inv (y\<lparr>pa_store := s', liveRefs := add_mset k (liveRefs y)\<rparr>)"
  using assms by (auto simp: pa_inv_def refs_of_def)

lemma pa_inv_base: "pa_inv y \<Longrightarrow> pa_inv (y\<lparr>pa_store := (pa_store y)\<lparr>pa_baseStore := b\<rparr>\<rparr>)"
  by (simp add: pa_inv_def)

lemma pa_inv_add:
  assumes "pa_inv y" and "ParallelAccessStore_add k r s = (Inr u, s')" and "s = (pa_store y)\<lparr>pa_baseStore := b\<rparr>"
  shows "pa_inv (y\<lparr>pa_store := s', liveRefs := add_mset k (liveRefs y)\<rparr>)"
proof (rule pa_inv_addref [OF assms(1)])
  note s' = add_cases [OF assms(2)]
  have fresh: "map_of (openResources (pa_store y)) k = None" using s'(1) assms(3) by simp
  show "map_of (openResources s') =
      (map_of (openResources (pa_store y)))(k \<mapsto> \<lparr>or_resource = r, refCount = 1\<rparr>)"
    using fresh by (auto simp: s'(2) assms(3) fun_eq_iff map_add_def split: option.splits)
  show "refCount \<lparr>or_resource = r, refCount = 1\<rparr> = count (liveRefs y) k + 1"
    using assms(1) fresh by (simp add: pa_inv_def refs_of_def) (metis option.simps(4))
  show "um_wf (openResources s')"
    using assms(1) s'(1) by (auto simp: s'(2) assms(3) pa_inv_def um_wf_def map_of_eq_None_iff)
  show "resourcesToRemove s' = resourcesToRemove (pa_store y)" by (simp add: s'(2) assms(3))
qed

lemma pa_inv_share:
  assumes "pa_inv y" and "map_of (openResources (pa_store y)) k = Some o1"
    and "size (liveRefs y) + 1 < 2 ^ 32" and "refCount o2 = refCount (OpenResource_getReference o1)"
    and "map_of (openResources s') = (map_of (openResources (pa_store y)))(k \<mapsto> o2)"
    and "um_wf (openResources s')" and "resourcesToRemove s' = resourcesToRemove (pa_store y)"
  shows "pa_inv (y\<lparr>pa_store := s', liveRefs := add_mset k (liveRefs y)\<rparr>)"
proof (rule pa_inv_addref [OF assms(1,5) _ assms(6,7)])
  have "refCount o1 = count (liveRefs y) k"
    using assms(1,2) by (simp add: pa_inv_def refs_of_def) (metis option.simps(5))
  moreover have "count (liveRefs y) k \<le> size (liveRefs y)" by (rule count_le_size)
  ultimately have "refCount o1 + 1 < 2 ^ 32" "refCount o1 = count (liveRefs y) k" using assms(3) by simp_all
  then show "refCount o2 = count (liveRefs y) k + 1"
    unfolding assms(4) OpenResource_getReference_def by simp
qed

lemma releaseReference_eq:
  assumes "0 < refCount o1" and "refCount o1 < 2 ^ 32"
  shows "OpenResource_releaseReference o1 = o1\<lparr>refCount := refCount o1 - 1\<rparr>"
proof -
  have "refCount o1 + (2 ^ 32 - 1) = (refCount o1 - 1) + 2 ^ 32" using assms(1) by simp
  then have "(refCount o1 + (2 ^ 32 - 1)) mod 2 ^ 32 = (refCount o1 - 1) mod 2 ^ 32" by (metis mod_add_self2)
  also have "\<dots> = refCount o1 - 1" using assms(2) by (intro mod_less) linarith
  finally show ?thesis by (simp only: OpenResource_releaseReference_def)
qed

lemma release_cases:
  assumes "ParallelAccessStore_release k s = (Inr u, s')" and "map_of (openResources s) k = Some o1"
    and "0 < refCount o1" and "refCount o1 < 2 ^ 32"
  shows "refCount o1 = 1 \<Longrightarrow> map_of (openResources s') = (map_of (openResources s))(k := None)"
    and "refCount o1 \<noteq> 1 \<Longrightarrow>
      map_of (openResources s') = (map_of (openResources s))(k \<mapsto> o1\<lparr>refCount := refCount o1 - 1\<rparr>)"
    and "um_wf (openResources s) \<Longrightarrow> um_wf (openResources s')"
    and "um_wf (resourcesToRemove s) \<Longrightarrow> um_wf (resourcesToRemove s')"
    and "map_of (resourcesToRemove s') j = None \<longleftrightarrow> map_of (resourcesToRemove s) j = None"
  using assms
  by (auto simp: ParallelAccessStore_release_def ParallelAccessStore_setPromise_def
      OpenResource_refCountIsZero_def releaseReference_eq ebind_def Let_def delete_conv' fun_eq_iff
      split: option.splits if_splits)

lemma pa_inv_release:
  assumes "pa_inv y" and "k \<in># liveRefs y" and "size (liveRefs y) < 2 ^ 32"
    and rel: "ParallelAccessStore_release k (pa_store y) = (Inr u, s')"
  shows "pa_inv (y\<lparr>pa_store := s', liveRefs := liveRefs y - {#k#}\<rparr>)"
proof -
  have refs: "refs_of (pa_store y) j = count (liveRefs y) j" for j using assms(1) by (simp add: pa_inv_def)
  have "0 < count (liveRefs y) k" using assms(2) by simp
  then obtain o1 where o1: "map_of (openResources (pa_store y)) k = Some o1" "refCount o1 = count (liveRefs y) k"
    using refs [of k] by (auto simp: refs_of_def count_eq_zero_iff split: option.splits)
  have pos: "0 < refCount o1" "refCount o1 < 2 ^ 32"
    using assms(2,3) o1(2) count_le_size [of "liveRefs y" k] by auto
  note r = release_cases [OF rel o1(1) pos]
  have "refs_of s' j = count (liveRefs y - {#k#}) j" for j
    using refs [of j] o1 r(1,2) by (cases "refCount o1 = 1") (auto simp: refs_of_def)
  moreover have "0 < refCount o2" if "map_of (openResources s') j = Some o2" for j o2
    using that assms(1) r(1,2) pos by (cases "refCount o1 = 1") (auto simp: pa_inv_def split: if_splits)
  ultimately show ?thesis using assms(1) r(3,4,5) by (simp add: pa_inv_def)
qed

lemma pa_inv_future:
  assumes "pa_inv y" and "ParallelAccessStore_resourceToRemoveFuture k (pa_store y) = (Inr u, s')"
  shows "pa_inv (y\<lparr>pa_store := s', waiting := add_mset k (waiting y), sawOpen := w\<rparr>)"
proof -
  have k: "map_of (resourcesToRemove (pa_store y)) k = None"
    and s': "s' = (pa_store y)\<lparr>resourcesToRemove := um_insert (k, None) (resourcesToRemove (pa_store y))\<rparr>"
    using assms(2) by (auto simp: ParallelAccessStore_resourceToRemoveFuture_def assert_exec_def split: if_splits)
  have "refs_of s' = refs_of (pa_store y)" by (simp add: refs_of_def s' fun_eq_iff)
  moreover have "count (add_mset k (waiting y)) j = (if map_of (resourcesToRemove s') j = None then 0 else 1)" for j
    using assms(1) k by (cases "j = k") (simp_all add: pa_inv_def s' map_of_um_insert)
  ultimately show ?thesis using assms(1) by (simp add: pa_inv_def s')
qed

lemma pa_inv_finish:
  assumes "pa_inv y" and "k \<in># waiting y" and "map_of (resourcesToRemove (pa_store y)) k = Some p"
    and "ParallelAccessStore_removeReady base k r (pa_store y) = (Inr u, s')"
  shows "pa_inv (y\<lparr>pa_store := s', waiting := waiting y - {#k#}\<rparr>)"
  using assms
  by (auto simp: pa_inv_def ParallelAccessStore_removeReady_def refs_of_def delete_conv'
      dest!: in_base_eq split: if_splits)

lemma pa_inv_load:
  assumes "pa_inv y" and "ParallelAccessStore_load base k (pa_store y) = (Inr b, s')"
    and "size (liveRefs y) + 1 < 2 ^ 32 \<or> \<not> b"
  shows "if b then pa_inv (y\<lparr>pa_store := s', liveRefs := add_mset k (liveRefs y)\<rparr>)
    else pa_inv (y\<lparr>pa_store := s'\<rparr>)"
proof (cases "map_of (openResources (pa_store y)) k")
  case None
  from assms(2) None obtain r' b' where base: "loadFromBaseStore base k (pa_baseStore (pa_store y)) = (r', b')"
    by fastforce
  show ?thesis
  proof (cases r')
    case (Inl e)
    then show ?thesis using assms(2) None base
      by (simp add: ParallelAccessStore_load_def ebind_def in_base_def)
  next
    case (Inr found)
    show ?thesis
    proof (cases found)
      case fn: None
      then show ?thesis using assms(1,2) None base Inr
        by (auto simp: ParallelAccessStore_load_def ebind_def in_base_def pa_inv_base)
    next
      case (Some r)
      then have "b" and "ParallelAccessStore_add k r ((pa_store y)\<lparr>pa_baseStore := b'\<rparr>) = (Inr (), s')"
        using assms(2) None base Inr
        by (auto simp: ParallelAccessStore_load_def ebind_def in_base_def split: prod.splits sum.splits)
      then show ?thesis using pa_inv_add [OF assms(1)] by simp
    qed
  qed
next
  case (Some o1)
  then have "b" and s': "s' = (pa_store y)\<lparr>openResources :=
      um_put k (OpenResource_getReference o1) (openResources (pa_store y))\<rparr>"
    using assms(2) by (auto simp: ParallelAccessStore_load_def ParallelAccessStore_addReference_def)
  then show ?thesis
    using pa_inv_share [OF assms(1) Some, of "OpenResource_getReference o1" s'] assms(1,3)
    by (simp add: pa_inv_def)
qed

lemma pa_inv_loadOrAdd:
  assumes "pa_inv y" and "ParallelAccessStore_loadOrAdd k onExists (in_base onAdd) (pa_store y) = (Inr u, s')"
    and "size (liveRefs y) + 1 < 2 ^ 32"
  shows "pa_inv (y\<lparr>pa_store := s', liveRefs := add_mset k (liveRefs y)\<rparr>)"
proof (cases "map_of (openResources (pa_store y)) k")
  case None
  obtain r' b' where base: "onAdd (pa_baseStore (pa_store y)) = (r', b')" by fastforce
  with assms(2) None obtain r where
    "ParallelAccessStore_add k r ((pa_store y)\<lparr>pa_baseStore := b'\<rparr>) = (Inr (), s')"
    by (cases r') (auto simp: ParallelAccessStore_loadOrAdd_def ebind_def in_base_def)
  then show ?thesis using pa_inv_add [OF assms(1)] by simp
next
  case (Some o1)
  define o2 where "o2 = OpenResource_getReference o1\<lparr>or_resource := onExists (or_resource o1)\<rparr>"
  have s': "s' = (pa_store y)\<lparr>openResources :=
      um_put k o2 (um_put k (OpenResource_getReference o1) (openResources (pa_store y)))\<rparr>"
    using assms(2) Some
    by (simp add: ParallelAccessStore_loadOrAdd_def ParallelAccessStore_addReference_def o2_def)
  show ?thesis
  proof (rule pa_inv_share [OF assms(1) Some assms(3)])
    show "refCount o2 = refCount (OpenResource_getReference o1)" by (simp add: o2_def)
    show "um_wf (openResources s')" using assms(1) by (simp add: s' pa_inv_def)
  qed (simp_all add: s')
qed

lemma pa_inv_step:
  assumes "pa_step base y z" and "pa_inv y" and "size (liveRefs y) < 2 ^ 32" and "size (liveRefs z) < 2 ^ 32"
  shows "pa_inv z"
  using assms
proof (cases rule: pa_step.cases)
  case (add k r s')
  then show ?thesis using pa_inv_add [OF assms(2) add(2), of "pa_baseStore (pa_store y)"] by simp
next
  case (load k s')
  then show ?thesis using pa_inv_load [OF assms(2) load(2)] assms(4) by simp
next
  case (load_missing k s')
  then show ?thesis using pa_inv_load [OF assms(2) load_missing(2)] by simp
next
  case (loadOrAdd k onExists onAdd s')
  then show ?thesis using pa_inv_loadOrAdd [OF assms(2) loadOrAdd(2)] assms(4) by simp
next
  case (release k s')
  then show ?thesis using pa_inv_release [OF assms(2) _ assms(3)] by simp
next
  case (remove_begin k s')
  then show ?thesis using pa_inv_future [OF assms(2) remove_begin(3), of "sawOpen y"] by simp
next
  case (remove_key_open k s')
  then show ?thesis using assms(2) by (simp add: pa_inv_def)
next
  case (remove_key_begin k s')
  then show ?thesis using pa_inv_future [OF assms(2) remove_key_begin(3)] by simp
next
  case (remove_finish k r s')
  then show ?thesis using pa_inv_finish [OF assms(2)] by simp
next
  case (remove_closed k s' s'')
  then show ?thesis using assms(2) by (auto dest!: in_base_eq simp: pa_inv_base)
qed

lemma pa_reachable_inv: "pa_reachable base y \<Longrightarrow> pa_inv y \<and> size (liveRefs y) < 2 ^ 32"
proof (induction rule: pa_reachable.induct)
  case (start b)
  then show ?case by (simp add: pa_inv_def refs_of_def)
next
  case (step y z)
  then show ?case using pa_inv_step by blast
qed

section \<open>Properties\<close>

lemma pa_inv_open: "pa_inv y \<Longrightarrow> k \<in># liveRefs y \<longleftrightarrow> map_of (openResources (pa_store y)) k \<noteq> None"
  unfolding pa_inv_def refs_of_def
  by (metis count_greater_zero_iff option.case_eq_if option.exhaust_sel less_nat_zero_code)

lemma release_error:
  assumes "map_of (openResources s) k \<noteq> None" and "fst (ParallelAccessStore_release k s) = Inl e"
  shows "e = LogicError ''promise_already_satisfied'' \<and> (\<exists>r. map_of (resourcesToRemove s) k = Some (Some r))"
  using assms
  by (auto simp: ParallelAccessStore_release_def ParallelAccessStore_setPromise_def ebind_def Let_def
      split: option.splits if_splits)

text \<open>
  C32. In every reachable state of the threads, the resource of a live reference is open with a reference
  count that is the number of live references to it, so the destructor of a reference finds its key
  (it can only fail because the promise of a removal has been set before), and the store can be
  destroyed once there are no references and no waiting removals.
\<close>

theorem references_counted:
  assumes "pa_reachable base y"
  shows "(\<forall>k. k \<in># liveRefs y \<longrightarrow>
      (\<exists>o1. map_of (openResources (pa_store y)) k = Some o1 \<and> refCount o1 = count (liveRefs y) k) \<and>
      (\<forall>e. fst (ParallelAccessStore_release k (pa_store y)) = Inl e \<longrightarrow>
        (\<exists>r. map_of (resourcesToRemove (pa_store y)) k = Some (Some r)))) \<and>
    (liveRefs y = {#} \<and> waiting y = {#} \<longrightarrow> fst (ParallelAccessStore_destroy (pa_store y)) = Inr ())"
proof (intro conjI allI impI)
  have inv: "pa_inv y" using pa_reachable_inv [OF assms] by blast
  fix k assume "k \<in># liveRefs y"
  then obtain o1 where o1: "map_of (openResources (pa_store y)) k = Some o1"
    using pa_inv_open [OF inv, of k] by auto
  moreover have "refCount o1 = count (liveRefs y) k"
    using inv o1 by (simp add: pa_inv_def refs_of_def) (metis option.simps(5))
  ultimately show "\<exists>o1. map_of (openResources (pa_store y)) k = Some o1 \<and> refCount o1 = count (liveRefs y) k"
    by blast
  show "\<exists>r. map_of (resourcesToRemove (pa_store y)) k = Some (Some r)"
    if "fst (ParallelAccessStore_release k (pa_store y)) = Inl e" for e
    using release_error [OF _ that] o1 by simp
next
  have inv: "pa_inv y" using pa_reachable_inv [OF assms] by blast
  assume empty: "liveRefs y = {#} \<and> waiting y = {#}"
  have "map_of (openResources (pa_store y)) j = None" for j
    using pa_inv_open [OF inv, of j] empty by auto
  moreover have "map_of (resourcesToRemove (pa_store y)) j = None" for j
    using inv empty by (auto simp: pa_inv_def split: if_splits)
  ultimately have "openResources (pa_store y) = []" "resourcesToRemove (pa_store y) = []"
    by (metis list.exhaust prod.exhaust map_of_Cons_code(2) option.distinct(1))+
  then show "fst (ParallelAccessStore_destroy (pa_store y)) = Inr ()"
    by (simp add: ParallelAccessStore_destroy_def)
qed

text \<open>A base store that holds the keys of a list, each with itself as its resource.\<close>

definition key_base :: "(nat, nat, nat list) pa_base" where
  "key_base = \<lparr>loadFromBaseStore = (\<lambda>k. gets (\<lambda>ks. if k \<in> set ks then Some k else None)),
     removeFromBaseStore = (\<lambda>r. modify (remove1 r)), removeFromBaseStore_key = (\<lambda>k. modify (remove1 k))\<rparr>"

definition pa_idle :: "(nat \<times> nat open_resource) list \<Rightarrow> (nat \<times> nat option) list \<Rightarrow> nat multiset \<Rightarrow>
    nat multiset \<Rightarrow> nat multiset \<Rightarrow> (nat, nat, nat list) pa_system" where
  "pa_idle opn rem live wait saw =
     \<lparr>pa_store = \<lparr>openResources = opn, resourcesToRemove = rem, pa_baseStore = [7]\<rparr>,
      liveRefs = live, waiting = wait, sawOpen = saw\<rparr>"

lemmas pa_run_simps = pa_idle_def key_base_def in_base_def ParallelAccessStore_load_def ParallelAccessStore_add_def
  ParallelAccessStore_release_def ParallelAccessStore_setPromise_def
  ParallelAccessStore_resourceToRemoveFuture_def ParallelAccessStore_isOpened_def
  OpenResource_getReference_def OpenResource_new_def OpenResource_releaseReference_def
  OpenResource_refCountIsZero_def um_insert_def um_put_def ebind_def

lemma pa_run:
  assumes "pa_reachable key_base (pa_idle [] [] {#} {#} {#})"
  shows "pa_reachable key_base (pa_idle [(7, \<lparr>or_resource = 7, refCount = 1\<rparr>)] [] {#7#} {#} {#})"
  by (rule pa_reachable.step [OF assms])
    (auto simp: pa_run_simps intro: pa_step.load [where k = 7 and y = "pa_idle [] [] {#} {#} {#}", simplified pa_run_simps, simplified])

lemma pa_start: "pa_reachable key_base (pa_idle [] [] {#} {#} {#})"
  unfolding pa_idle_def by (rule pa_reachable.start)

lemma references_counted_witness:
  "fst (ParallelAccessStore_release 7 (pa_store (pa_idle [(7, \<lparr>or_resource = 7, refCount = 1\<rparr>)] [] {#7#} {#} {#}))) \<noteq>
   Inl (AssertFailed ''Didn't find key'')"
  using references_counted [OF pa_run [OF pa_start]] by (auto simp: pa_idle_def)

text \<open>
  \<open>remove(key)\<close> looks at \<open>_openResources\<close> without the lock. When the last reference is released between
  that look and the request for the future, nobody sets the promise: the remover waits although there is
  neither a reference nor an open resource.
\<close>

lemma pa_run_lost:
  "pa_reachable key_base (pa_idle [] [(7, None)] {#} {#7#} {#})"
proof -
  let ?o = "[(7, \<lparr>or_resource = 7, refCount = 1\<rparr>)] :: (nat \<times> nat open_resource) list"
  have "pa_reachable key_base (pa_idle ?o [] {#7#} {#} {#7#})"
    by (rule pa_reachable.step [OF pa_run [OF pa_start]])
      (auto simp: pa_run_simps intro: pa_step.remove_key_open [where k = 7 and y = "pa_idle ?o [] {#7#} {#} {#}", simplified pa_run_simps, simplified])
  then have "pa_reachable key_base (pa_idle [] [] {#} {#} {#7#})"
    by (rule pa_reachable.step)
      (auto simp: pa_run_simps intro: pa_step.release [where k = 7 and y = "pa_idle ?o [] {#7#} {#} {#7#}", simplified pa_run_simps, simplified])
  then show ?thesis
    by (rule pa_reachable.step)
      (auto simp: pa_run_simps intro: pa_step.remove_key_begin [where k = 7 and y = "pa_idle [] [] {#} {#} {#7#}", simplified pa_run_simps, simplified])
qed


text \<open>
  The other race: between the release that sets the promise and the remover's critical section, another
  thread can load the resource again, and its release sets the promise a second time.
\<close>

lemma pa_run_reload:
  "pa_reachable key_base (pa_idle [(7, \<lparr>or_resource = 7, refCount = 1\<rparr>)] [(7, Some 7)] {#7#} {#7#} {#})"
proof -
  let ?o = "[(7, \<lparr>or_resource = 7, refCount = 1\<rparr>)] :: (nat \<times> nat open_resource) list"
  have "pa_reachable key_base (pa_idle ?o [(7, None)] {#7#} {#7#} {#})"
    by (rule pa_reachable.step [OF pa_run [OF pa_start]])
      (auto simp: pa_run_simps intro: pa_step.remove_begin [where k = 7 and y = "pa_idle ?o [] {#7#} {#} {#}", simplified pa_run_simps, simplified])
  then have "pa_reachable key_base (pa_idle [] [(7, Some 7)] {#} {#7#} {#})"
    by (rule pa_reachable.step)
      (auto simp: pa_run_simps intro: pa_step.release [where k = 7 and y = "pa_idle ?o [(7, None)] {#7#} {#7#} {#}", simplified pa_run_simps, simplified])
  then show ?thesis
    by (rule pa_reachable.step)
      (auto simp: pa_run_simps intro: pa_step.load [where k = 7 and y = "pa_idle [] [(7, Some 7)] {#} {#7#} {#}", simplified pa_run_simps, simplified])
qed

text \<open>
  The destructor of a reference can throw: there is a run after which releasing a live reference sets
  a promise that is set already.
\<close>

theorem release_sets_promise_twice:
  "\<exists>y. pa_reachable key_base y \<and> 7 \<in># liveRefs y \<and>
     fst (ParallelAccessStore_release 7 (pa_store y)) = Inl (LogicError ''promise_already_satisfied'')"
proof (intro exI conjI)
  show "pa_reachable key_base (pa_idle [(7, \<lparr>or_resource = 7, refCount = 1\<rparr>)] [(7, Some 7)] {#7#} {#7#} {#})"
    by (rule pa_run_reload)
qed (simp_all add: pa_run_simps)

end
