(* ===== verification/Versions.thy ===== *)
theory Versions
  imports Prelude "HOL-Library.List_Lexorder" "HOL-Library.Product_Lexorder"
begin

text \<open>
  \<open>src/src/gitversion\<close>: parsing and comparing version numbers such as \<open>0.9.4-alpha+20.g4a2b1c\<close>, on which the decision
  rests whether a file system is opened, migrated or refused.
\<close>

section \<open>Strings of the C++ library\<close>

text \<open>An \<open>istringstream\<close>: the characters that are left and \<open>good()\<close>. \<open>getline\<close> consumes the delimiter; at the end of the stream it sets \<open>eofbit\<close>.\<close>

type_synonym istringstream = "string \<times> bool"

definition getline :: "char \<Rightarrow> istringstream \<Rightarrow> string \<times> istringstream" where
  "getline delimiter stream =
     (case stream of (s, good) \<Rightarrow>
        if \<not> good then ([], (s, False))
        else (takeWhile (\<lambda>c. c \<noteq> delimiter) s,
          (case dropWhile (\<lambda>c. c \<noteq> delimiter) s of [] \<Rightarrow> ([], False) | _ # r \<Rightarrow> (r, True))))"

abbreviation char_code :: "char \<Rightarrow> nat" where
  "char_code c \<equiv> of_char c"

definition is_space :: "char \<Rightarrow> bool" where
  "is_space c \<longleftrightarrow> (of_char c :: nat) = 32 \<or> (of_char c :: nat) \<in> {9..13}"

definition is_digit :: "char \<Rightarrow> bool" where
  "is_digit c \<longleftrightarrow> (of_char c :: nat) \<in> {48..57}"

definition decimal :: "string \<Rightarrow> nat" where
  "decimal s = foldl (\<lambda>n c. 10 * n + (of_char c - 48)) 0 s"

text \<open>\<open>std::stoul\<close> skips white space, accepts a sign and ignores what follows the digits; a minus sign negates modulo \<open>2^64\<close>.\<close>

definition stoul :: "string \<Rightarrow> nat result" where
  "stoul s =
     (let s1 = dropWhile is_space s;
          neg = (s1 \<noteq> [] \<and> hd s1 = CHR ''-'');
          s2 = (if s1 \<noteq> [] \<and> hd s1 \<in> {CHR ''-'', CHR ''+''} then tl s1 else s1);
          digits = takeWhile is_digit s2;
          n = decimal digits
      in if digits = [] then Inl InvalidArgument
         else if 2 ^ 64 \<le> n then Inl OutOfRange
         else Inr (if neg then (2 ^ 64 - n) mod 2 ^ 64 else n))"

fun strcmp :: "string \<Rightarrow> string \<Rightarrow> int" where
  "strcmp [] [] = 0"
| "strcmp [] (b # bs) = - int (char_code b)"
| "strcmp (a # as) [] = int (char_code a)"
| "strcmp (a # as) (b # bs) =
     (if a \<noteq> b then int (char_code a) - int (char_code b) else if char_code a = 0 then 0 else strcmp as bs)"

section \<open>Parser\<close>

record version_info =
  isDevVersion :: bool
  isStableVersion :: bool
  versionTag :: string
  gitCommitId :: string
  majorVersion :: string
  minorVersion :: string
  hotfixVersion :: string
  commitsSinceTag :: u32

definition Parser_splitAt :: "string \<Rightarrow> char \<Rightarrow> string \<times> string option" where
  "Parser_splitAt versionString delimiter =
     (case getline delimiter (versionString, True) of (versionNumber, stream) \<Rightarrow>
        if \<not> snd stream then (versionNumber, None)
        else (versionNumber, Some (fst (getline (CHR 0x0A) stream))))"

definition Parser_extractMajorMinorHotfix :: "string \<Rightarrow> string \<times> string \<times> string" where
  "Parser_extractMajorMinorHotfix versionNumber =
     (case getline (CHR ''.'') (versionNumber, True) of (major, s1) \<Rightarrow>
      case (if \<not> snd s1 then (''0'', s1) else getline (CHR ''.'') s1) of (minor, s2) \<Rightarrow>
      let hotfix = (if \<not> snd s2 then ''0'' else fst (getline (CHR 0x0A) s2))
      in (major, minor, hotfix))"

definition Parser_extractMajorMinorHotfixTag :: "string \<Rightarrow> string \<times> string \<times> string \<times> string" where
  "Parser_extractMajorMinorHotfixTag versionNumber =
     (case Parser_splitAt versionNumber (CHR ''-'') of (majorMinorHotfix, tag) \<Rightarrow>
      case Parser_extractMajorMinorHotfix majorMinorHotfix of (major, minor, hotfix) \<Rightarrow>
      (major, minor, hotfix, (case tag of None \<Rightarrow> [] | Some t \<Rightarrow> t)))"

definition Parser_extractGitCommitIdAndCommitsSinceTag :: "string \<Rightarrow> (string \<times> nat) result" where
  "Parser_extractGitCommitIdAndCommitsSinceTag versionInfo =
     (case getline (CHR ''.'') (versionInfo, True) of (commits, s1) \<Rightarrow>
      if \<not> snd s1 then Inl (LogicError (''Invalid version information: Missing delimiter after commitsSinceTag (versionInfo: '' @ versionInfo @ '').''))
      else case getline (CHR ''.'') s1 of (commitId, s2) \<Rightarrow>
        if commitId = [] \<or> hd commitId \<noteq> CHR ''g''
        then Inl (LogicError (''Invalid version information: Git commit id component doesn't start with 'g' (versionInfo: '' @ versionInfo @ '').''))
        else rbind (stoul commits) (\<lambda>n. Inr (tl commitId, n)))"

definition Parser_parse :: "string \<Rightarrow> version_info result" where
  "Parser_parse versionString =
     (case Parser_splitAt versionString (CHR ''+'') of (versionNumber, versionInfo) \<Rightarrow>
      case Parser_extractMajorMinorHotfixTag versionNumber of (major, minor, hotfix, tag) \<Rightarrow>
      rbind (case versionInfo of
          None \<Rightarrow> Inr ([], 0)
        | Some info \<Rightarrow> if info \<noteq> ''unknown'' then Parser_extractGitCommitIdAndCommitsSinceTag info else Inr ([], 0)) (\<lambda>(commitId, commits).
      Inr \<lparr>isDevVersion = versionInfo \<noteq> None, isStableVersion = versionInfo = None \<and> (tag = [] \<or> tag = ''stable''),
        versionTag = tag, gitCommitId = commitId, majorVersion = major, minorVersion = minor, hotfixVersion = hotfix,
        commitsSinceTag = of_nat commits\<rparr>))"

section \<open>VersionCompare\<close>

definition VersionCompare_versionTagCompare :: "string \<Rightarrow> string \<Rightarrow> int" where
  "VersionCompare_versionTagCompare tag1 tag2 =
     (if tag1 = [] then (if tag2 = [] then 0 else 1)
      else if tag2 = [] then -1 else strcmp tag1 tag2)"

definition VersionCompare_isOlderThan :: "string \<Rightarrow> string \<Rightarrow> bool result" where
  "VersionCompare_isOlderThan v1Str v2Str =
     rbind (Parser_parse v1Str) (\<lambda>v1.
     rbind (Parser_parse v2Str) (\<lambda>v2.
     rbind (stoul (majorVersion v1)) (\<lambda>v1_major.
     rbind (stoul (majorVersion v2)) (\<lambda>v2_major.
     rbind (stoul (minorVersion v1)) (\<lambda>v1_minor.
     rbind (stoul (minorVersion v2)) (\<lambda>v2_minor.
     rbind (stoul (hotfixVersion v1)) (\<lambda>v1_hotfix.
     rbind (stoul (hotfixVersion v2)) (\<lambda>v2_hotfix.
     let tagCompare = VersionCompare_versionTagCompare (versionTag v1) (versionTag v2) in
     Inr (v1_major < v2_major \<or> (v1_major = v2_major \<and> (
       v1_minor < v2_minor \<or> (v1_minor = v2_minor \<and> (
         v1_hotfix < v2_hotfix \<or> (v1_hotfix = v2_hotfix \<and> (
           0 > tagCompare \<or> (0 = tagCompare \<and>
             commitsSinceTag v1 < commitsSinceTag v2))))))))))))))))"

section \<open>Parsing what is printed\<close>

lemma getline_delim: "\<forall>c\<in>set s. c \<noteq> d \<Longrightarrow> getline d (s @ d # r, True) = (s, (r, True))"
  by (simp add: getline_def takeWhile_tail dropWhile_append3 split: prod.splits)

lemma getline_end:
  assumes "\<forall>c\<in>set s. c \<noteq> d"
  shows "getline d (s, True) = (s, ([], False))"
proof -
  have "dropWhile (\<lambda>c. c \<noteq> d) s = []" using assms unfolding dropWhile_eq_Nil_conv by blast
  then show ?thesis using assms by (simp add: getline_def del: dropWhile_eq_Nil_conv)
qed

text \<open>A version number as it is written, with an optional tag and the commits since it.\<close>

definition version_string :: "string \<Rightarrow> string \<Rightarrow> string \<Rightarrow> string \<Rightarrow> (string \<times> string) option \<Rightarrow> string" where
  "version_string major minor hotfix tag dev =
     major @ ''.'' @ minor @ ''.'' @ hotfix @ (if tag = [] then [] else ''-'' @ tag) @
     (case dev of None \<Rightarrow> [] | Some (commits, commitId) \<Rightarrow> ''+'' @ commits @ ''.g'' @ commitId)"

definition plain :: "char set \<Rightarrow> string \<Rightarrow> bool" where
  "plain D s \<longleftrightarrow> (\<forall>c\<in>set s. c \<noteq> CHR 0x0A \<and> c \<notin> D)"

lemma split_number:
  assumes "plain {CHR ''.''} major" and "plain {CHR ''.''} minor" and "plain {} hotfix"
  shows "Parser_extractMajorMinorHotfix (major @ ''.'' @ minor @ ''.'' @ hotfix) = (major, minor, hotfix)"
  using assms getline_delim [of major "CHR ''.''"] getline_delim [of minor "CHR ''.''" hotfix] getline_end [of hotfix "CHR 0x0A"]
  by (simp add: Parser_extractMajorMinorHotfix_def plain_def)

lemma splitAt_none: "plain {d} s \<Longrightarrow> Parser_splitAt s d = (s, None)"
  by (simp add: Parser_splitAt_def plain_def getline_end)

lemma splitAt_some: "plain {d} s \<Longrightarrow> plain {} r \<Longrightarrow> Parser_splitAt (s @ d # r) d = (s, Some r)"
  by (simp add: Parser_splitAt_def plain_def getline_delim getline_end)

lemma plain_append [simp]: "plain D (s @ t) \<longleftrightarrow> plain D s \<and> plain D t"
  and plain_Cons [simp]: "plain D (c # s) \<longleftrightarrow> c \<noteq> CHR 0x0A \<and> c \<notin> D \<and> plain D s"
  and plain_Nil [simp]: "plain D []"
  by (auto simp: plain_def)

lemma plain_mono: "plain D s \<Longrightarrow> E \<subseteq> D \<Longrightarrow> plain E s"
  by (auto simp: plain_def)

lemma parse_printed:
  assumes "plain (set ''.-+'') major" "plain (set ''.-+'') minor" "plain (set ''-+'') hotfix" "plain (set ''+'') tag"
    and "case dev of None \<Rightarrow> commits = 0 \<and> commitId = []
      | Some (c, i) \<Rightarrow> plain (set ''.'') c \<and> stoul c = Inr commits \<and> plain (set ''.'') i \<and> i = commitId"
  shows "Parser_parse (version_string major minor hotfix tag dev) =
    Inr \<lparr>isDevVersion = dev \<noteq> None, isStableVersion = dev = None \<and> (tag = [] \<or> tag = ''stable''), versionTag = tag,
      gitCommitId = commitId, majorVersion = major, minorVersion = minor, hotfixVersion = hotfix, commitsSinceTag = of_nat commits\<rparr>"
proof -
  let ?n = "major @ ''.'' @ minor @ ''.'' @ hotfix"
  let ?t = "?n @ (if tag = [] then [] else ''-'' @ tag)"
  have p: "plain {CHR ''.''} major" "plain {CHR ''.''} minor" "plain {} hotfix" "plain {} tag"
    using assms(1-4) by (auto elim: plain_mono)
  have q: "plain {CHR ''-''} major" "plain {CHR ''-''} minor" "plain {CHR ''-''} hotfix"
    "plain {CHR ''+''} major" "plain {CHR ''+''} minor" "plain {CHR ''+''} hotfix" "plain {CHR ''+''} tag"
    using assms(1-4) by (auto elim: plain_mono)
  have n: "plain {CHR ''-''} ?n" and t: "plain {CHR ''+''} ?t" using q by simp_all
  have tag: "Parser_splitAt ?t (CHR ''-'') = (?n, if tag = [] then None else Some tag)"
    using splitAt_none [OF n] splitAt_some [OF n p(4)] by simp
  have number: "Parser_extractMajorMinorHotfixTag ?t = (major, minor, hotfix, tag)"
    unfolding Parser_extractMajorMinorHotfixTag_def tag using split_number [OF p(1-3)] by simp
  show ?thesis
  proof (cases dev)
    case None
    then show ?thesis using assms(5) splitAt_none [OF t] number by (simp add: Parser_parse_def version_string_def)
  next
    case (Some d)
    obtain c i where d: "d = (c, i)" by (cases d)
    have c: "plain (set ''.'') c" "stoul c = Inr commits" "plain (set ''.'') i" "i = commitId" using assms(5) Some d by auto
    let ?i = "c @ ''.g'' @ i"
    have "plain {} ?i" using plain_mono [OF c(1)] plain_mono [OF c(3)] by simp
    then have split: "Parser_splitAt (?t @ CHR ''+'' # ?i) (CHR ''+'') = (?t, Some ?i)" by (rule splitAt_some [OF t])
    have "Parser_extractGitCommitIdAndCommitsSinceTag ?i = Inr (commitId, commits)"
      using c getline_delim [of c "CHR ''.''" "''g'' @ i"] getline_end [of "''g'' @ i" "CHR ''.''"]
      by (simp add: Parser_extractGitCommitIdAndCommitsSinceTag_def plain_def)
    moreover have "?i \<noteq> ''unknown''"
    proof
      assume "?i = ''unknown''"
      then have "CHR ''.'' \<in> set ''unknown''" by (metis in_set_conv_decomp append_Cons)
      then show False by simp
    qed
    moreover have "version_string major minor hotfix tag dev = ?t @ CHR ''+'' # ?i" using Some d by (simp add: version_string_def)
    ultimately show ?thesis using split number Some by (simp add: Parser_parse_def)
  qed
qed

section \<open>The order\<close>

text \<open>A tag as a list of numbers up to its first null character; having no tag comes last.\<close>

definition tag_key :: "string \<Rightarrow> nat \<times> nat list" where
  "tag_key tag = (if tag = [] then (1, []) else (0, takeWhile (\<lambda>n. n \<noteq> 0) (map of_char tag)))"

lemma strcmp_less: "strcmp s t < 0 \<longleftrightarrow> takeWhile (\<lambda>n. n \<noteq> 0) (map of_char s) < (takeWhile (\<lambda>n. n \<noteq> 0) (map of_char t) :: nat list)"
  and strcmp_zero: "strcmp s t = 0 \<longleftrightarrow> takeWhile (\<lambda>n. n \<noteq> 0) (map of_char s) = (takeWhile (\<lambda>n. n \<noteq> 0) (map of_char t) :: nat list)"
proof (induction s t rule: strcmp.induct)
  case (4 a as b bs)
  have inj: "char_code a = char_code b \<longleftrightarrow> a = b" using inj_of_char by (auto simp: inj_def)
  then have nz: "a \<noteq> b \<Longrightarrow> char_code a = 0 \<Longrightarrow> 0 < char_code b" by (metis gr0I)
  { case 1 then show ?case using 4 by (cases "a = b") (use inj nz in auto)
  next
    case 2 then show ?case using 4 by (cases "a = b") (use inj nz in auto) }
qed auto

lemma tagCompare_less: "VersionCompare_versionTagCompare s t < 0 \<longleftrightarrow> tag_key s < tag_key t"
  and tagCompare_zero: "VersionCompare_versionTagCompare s t = 0 \<longleftrightarrow> tag_key s = tag_key t"
  by (auto simp: VersionCompare_versionTagCompare_def tag_key_def strcmp_less strcmp_zero)

definition version_key :: "string \<Rightarrow> (nat \<times> nat \<times> nat \<times> (nat \<times> nat list) \<times> nat) result" where
  "version_key s =
     rbind (Parser_parse s) (\<lambda>v. rbind (stoul (majorVersion v)) (\<lambda>major. rbind (stoul (minorVersion v)) (\<lambda>minor.
     rbind (stoul (hotfixVersion v)) (\<lambda>hotfix. Inr (major, minor, hotfix, tag_key (versionTag v), unat (commitsSinceTag v))))))"

text \<open>
  The order of version numbers: two strings that are version numbers are compared by a linear order on major, minor and hotfix
  number, tag (a version with a tag comes before the one without) and number of commits, so that
  exactly one of older, newer and equivalent holds and being older is transitive.
\<close>

theorem version_order:
  assumes "version_key s = Inr k" and "version_key t = Inr l"
  shows "VersionCompare_isOlderThan s t = Inr (k < l)"
  using assms
  by (auto simp: version_key_def VersionCompare_isOlderThan_def rbind_Inr_iff less_prod_def' tagCompare_less tagCompare_zero
      word_less_nat_alt Let_def split: sum.splits elim!: rbind_cases)

lemmas version_parts = version_key_def Parser_parse_def Parser_splitAt_def Parser_extractMajorMinorHotfixTag_def
  Parser_extractMajorMinorHotfix_def Parser_extractGitCommitIdAndCommitsSinceTag_def getline_def stoul_def decimal_def
  is_space_def is_digit_def tag_key_def Let_def

lemma version_order_witness:
  "VersionCompare_isOlderThan ''0.9.4-alpha+12.g4a2b'' ''0.10'' = Inr True \<and>
   VersionCompare_isOlderThan ''0.10'' ''0.9.4-alpha+12.g4a2b'' = Inr False"
proof -
  have k: "version_key ''0.9.4-alpha+12.g4a2b'' = Inr (0, 9, 4, (0, [97, 108, 112, 104, 97]), 12)"
    by (simp add: version_parts)
  have l: "version_key ''0.10'' = Inr (0, 10, 0, (1, []), 0)"
    by (simp add: version_parts)
  show ?thesis using version_order [OF k l] version_order [OF l k] by simp
qed

end
