(* ===== verification/ConfigCrypto.thy ===== *)
theory ConfigCrypto
  imports Ciphers HexStrings
begin

text \<open>
  \<open>cryfs/impl/config/crypto\<close> and \<open>CryCipher.cpp\<close>: the two layers of encryption of the configuration file, with padding to a fixed
  size in each, the byte formats of both layers (the outer one also in its old version), the table of ciphers, and
  the keys with their derivation from a password. The ciphers of Crypto++ and scrypt are parameters.
\<close>

section \<open>Strings and exceptions\<close>

definition text_of :: "data \<Rightarrow> string" where
  "text_of d = map (\<lambda>b. char_of (unat b)) d"

lemma unat_of_char: "unat (of_char c :: byte) = of_char c"
proof -
  have "(of_char c :: byte) = of_nat (of_char c)" by (cases c) (simp add: of_char_def horner_sum_foldr)
  moreover have "(of_char c :: nat) < 2 ^ 8" using nat_of_char_less_256 [of c] by simp
  ultimately show ?thesis by (simp add: unat_of_nat)
qed

lemma text_of_ascii [simp]: "text_of (ascii s) = s"
  by (induction s) (simp_all add: text_of_def ascii_def unat_of_char)

text \<open>\<open>catch (const exception \<and>e)\<close> that returns \<open>none\<close>; undefined behaviour is not caught.\<close>

definition catch_none :: "'a result \<Rightarrow> 'a option result" where
  "catch_none r = (case r of Inr x \<Rightarrow> Inr (Some x) | Inl e \<Rightarrow> if e = MemoryFault \<or> e = OutOfFuel then Inl e else Inr None)"

lemma catch_none_Inr [simp]: "catch_none (Inr x) = Inr (Some x)"
  by (simp add: catch_none_def)

section \<open>EncryptionKey\<close>

definition EncryptionKey_Null :: "nat \<Rightarrow> data" where
  "EncryptionKey_Null keySize = zeroes keySize"

definition EncryptionKey_FromString :: "(nat \<Rightarrow> data) \<Rightarrow> string \<Rightarrow> data result" where
  "EncryptionKey_FromString alloc keyData =
     rbind (Data_FromString alloc keyData) (\<lambda>d.
     rbind (ASSERT (2 * length d = length keyData) ''Wrong input size for EncryptionKey::FromString()'') (\<lambda>_. Inr d))"

definition EncryptionKey_ToString :: "data \<Rightarrow> string result" where
  "EncryptionKey_ToString key =
     rbind (Data_ToString key) (\<lambda>s. rbind (ASSERT (length s = 2 * length key) ''Wrong string length'') (\<lambda>_. Inr s))"

definition EncryptionKey_CreateKey :: "('r, data) exec \<Rightarrow> ('r, data) exec" where
  "EncryptionKey_CreateKey randomGenerator = randomGenerator"

definition EncryptionKey_take :: "nat \<Rightarrow> data \<Rightarrow> data result" where
  "EncryptionKey_take numTaken key = rbind (ASSERT (numTaken \<le> length key) ''Out of bounds'') (\<lambda>_. Inr (take numTaken key))"

definition EncryptionKey_drop :: "nat \<Rightarrow> data \<Rightarrow> data result" where
  "EncryptionKey_drop numDropped key = rbind (ASSERT (numDropped \<le> length key) ''Out of bounds'') (\<lambda>_. Inr (drop numDropped key))"

section \<open>SCryptParameters\<close>

record scrypt_parameters =
  scrypt_salt :: data
  scrypt_n :: u64
  scrypt_r :: u32
  scrypt_p :: u32

definition SCryptParameters_serializedSize :: "scrypt_parameters \<Rightarrow> nat" where
  "SCryptParameters_serializedSize k = length (scrypt_salt k) + sizeof TYPE(64) + sizeof TYPE(32) + sizeof TYPE(32)"

definition SCryptParameters_serialize :: "scrypt_parameters \<Rightarrow> data result" where
  "SCryptParameters_serialize k =
     rbind (Serializer_writeUint64 (scrypt_n k) (Serializer_new (zeroes (SCryptParameters_serializedSize k)))) (\<lambda>s.
     rbind (Serializer_writeUint32 (scrypt_r k) s) (\<lambda>s.
     rbind (Serializer_writeUint32 (scrypt_p k) s) (\<lambda>s.
     rbind (Serializer_writeTailData (scrypt_salt k) s) Serializer_finished)))"

definition SCryptParameters_deserialize :: "data \<Rightarrow> scrypt_parameters result" where
  "SCryptParameters_deserialize d =
     rbind (Deserializer_readUint64 (Deserializer_new d)) (\<lambda>(n, s).
     rbind (Deserializer_readUint32 s) (\<lambda>(r, s).
     rbind (Deserializer_readUint32 s) (\<lambda>(p, s).
     rbind (Deserializer_readTailData s) (\<lambda>(salt, s).
     rbind (Deserializer_finished s) (\<lambda>_.
     Inr \<lparr>scrypt_salt = salt, scrypt_n = n, scrypt_r = r, scrypt_p = p\<rparr>)))))"

definition SCryptParameters_deserializeOldFormat :: "deserializer \<Rightarrow> (scrypt_parameters \<times> deserializer) result" where
  "SCryptParameters_deserializeOldFormat source =
     rbind (Deserializer_readUint64 source) (\<lambda>(n, s).
     rbind (Deserializer_readUint32 s) (\<lambda>(r, s).
     rbind (Deserializer_readUint32 s) (\<lambda>(p, s).
     rbind (Deserializer_readData s) (\<lambda>(salt, s).
     Inr (\<lparr>scrypt_salt = salt, scrypt_n = n, scrypt_r = r, scrypt_p = p\<rparr>, s)))))"

section \<open>OuterConfig\<close>

record outer_config =
  kdfParameters :: data
  encryptedInnerConfig :: data
  wasInDeprecatedConfigFormat :: bool

definition OuterConfig_OLD_HEADER :: string where
  "OuterConfig_OLD_HEADER = ''cryfs.config;0;scrypt''"

definition OuterConfig_HEADER :: string where
  "OuterConfig_HEADER = ''cryfs.config;1;scrypt''"

definition OuterConfig_writeHeader :: "serializer \<Rightarrow> serializer result" where
  "OuterConfig_writeHeader = Serializer_writeString (ascii OuterConfig_HEADER)"

definition OuterConfig_serialize :: "outer_config \<Rightarrow> data result" where
  "OuterConfig_serialize c =
     rbind (OuterConfig_writeHeader (Serializer_new (zeroes (Serializer_StringSize (ascii OuterConfig_HEADER) +
         Serializer_DataSize (kdfParameters c) + length (encryptedInnerConfig c))))) (\<lambda>s.
     rbind (Serializer_writeData (kdfParameters c) s) (\<lambda>s.
     rbind (Serializer_writeTailData (encryptedInnerConfig c) s) Serializer_finished))"

definition OuterConfig_deserializeOldFormat :: "deserializer \<Rightarrow> outer_config result" where
  "OuterConfig_deserializeOldFormat s =
     rbind (SCryptParameters_deserializeOldFormat s) (\<lambda>(kdf, s).
     rbind (SCryptParameters_serialize kdf) (\<lambda>kdfSerialized.
     rbind (Deserializer_readTailData s) (\<lambda>(inner, s).
     rbind (Deserializer_finished s) (\<lambda>_.
     Inr \<lparr>kdfParameters = kdfSerialized, encryptedInnerConfig = inner, wasInDeprecatedConfigFormat = True\<rparr>))))"

definition OuterConfig_deserializeNewFormat :: "deserializer \<Rightarrow> outer_config result" where
  "OuterConfig_deserializeNewFormat s =
     rbind (Deserializer_readData s) (\<lambda>(kdf, s).
     rbind (Deserializer_readTailData s) (\<lambda>(inner, s).
     rbind (Deserializer_finished s) (\<lambda>_.
     Inr \<lparr>kdfParameters = kdf, encryptedInnerConfig = inner, wasInDeprecatedConfigFormat = False\<rparr>)))"

definition OuterConfig_deserialize :: "data \<Rightarrow> outer_config option result" where
  "OuterConfig_deserialize d = catch_none
     (rbind (Deserializer_readString (Deserializer_new d)) (\<lambda>(header, s).
      if text_of header = OuterConfig_OLD_HEADER then OuterConfig_deserializeOldFormat s
      else if text_of header = OuterConfig_HEADER then OuterConfig_deserializeNewFormat s
      else Inl (RuntimeError ''Invalid header'')))"

section \<open>InnerConfig\<close>

record inner_config =
  ic_cipherName :: string
  encryptedConfig :: data

definition InnerConfig_HEADER :: string where
  "InnerConfig_HEADER = ''cryfs.config.inner;0''"

definition InnerConfig_serialize :: "inner_config \<Rightarrow> data result" where
  "InnerConfig_serialize c =
     rbind (Serializer_writeString (ascii InnerConfig_HEADER) (Serializer_new (zeroes (Serializer_StringSize (ascii InnerConfig_HEADER) +
         Serializer_StringSize (ascii (ic_cipherName c)) + length (encryptedConfig c))))) (\<lambda>s.
     rbind (Serializer_writeString (ascii (ic_cipherName c)) s) (\<lambda>s.
     rbind (Serializer_writeTailData (encryptedConfig c) s) Serializer_finished))"

definition InnerConfig_checkHeader :: "deserializer \<Rightarrow> deserializer result" where
  "InnerConfig_checkHeader s =
     rbind (Deserializer_readString s) (\<lambda>(header, s).
     if text_of header \<noteq> InnerConfig_HEADER
     then Inl (RuntimeError ''Invalid header. Maybe this filesystem was created with a different version of CryFS?'') else Inr s)"

definition InnerConfig_deserialize :: "data \<Rightarrow> inner_config option result" where
  "InnerConfig_deserialize d = catch_none
     (rbind (InnerConfig_checkHeader (Deserializer_new d)) (\<lambda>s.
      rbind (Deserializer_readString s) (\<lambda>(cipherName, s).
      rbind (Deserializer_readTailData s) (\<lambda>(result, s).
      rbind (Deserializer_finished s) (\<lambda>_.
      Inr \<lparr>ic_cipherName = text_of cipherName, encryptedConfig = result\<rparr>)))))"

section \<open>CryCiphers\<close>

text \<open>
  A \<open>CryCipherInstance\<close>: the name and the key size of its cipher class, and the warning. \<open>prim\<close> gives the operations of the
  cipher class with a name; \<open>random\<close> is what a generator writes into a buffer of a size.
\<close>

record cry_cipher =
  cipherName :: string
  KEYSIZE :: nat
  warning :: "string option"

definition CryCiphers_MAX_KEY_SIZE :: nat where
  "CryCiphers_MAX_KEY_SIZE = 56"

definition INTEGRITY_WARNING :: string where
  "INTEGRITY_WARNING = ''This cipher does not ensure integrity.''"

definition CryCiphers_SUPPORTED_CIPHERS :: "cry_cipher list" where
  "CryCiphers_SUPPORTED_CIPHERS =
     [\<lparr>cipherName = ''xchacha20-poly1305'', KEYSIZE = 32, warning = None\<rparr>,
      \<lparr>cipherName = ''aes-256-gcm'', KEYSIZE = 32, warning = None\<rparr>,
      \<lparr>cipherName = ''aes-256-cfb'', KEYSIZE = 32, warning = Some INTEGRITY_WARNING\<rparr>,
      \<lparr>cipherName = ''aes-128-gcm'', KEYSIZE = 16, warning = None\<rparr>,
      \<lparr>cipherName = ''aes-128-cfb'', KEYSIZE = 16, warning = Some INTEGRITY_WARNING\<rparr>,
      \<lparr>cipherName = ''twofish-256-gcm'', KEYSIZE = 32, warning = None\<rparr>,
      \<lparr>cipherName = ''twofish-256-cfb'', KEYSIZE = 32, warning = Some INTEGRITY_WARNING\<rparr>,
      \<lparr>cipherName = ''twofish-128-gcm'', KEYSIZE = 16, warning = None\<rparr>,
      \<lparr>cipherName = ''twofish-128-cfb'', KEYSIZE = 16, warning = Some INTEGRITY_WARNING\<rparr>,
      \<lparr>cipherName = ''serpent-256-gcm'', KEYSIZE = 32, warning = None\<rparr>,
      \<lparr>cipherName = ''serpent-256-cfb'', KEYSIZE = 32, warning = Some INTEGRITY_WARNING\<rparr>,
      \<lparr>cipherName = ''serpent-128-gcm'', KEYSIZE = 16, warning = None\<rparr>,
      \<lparr>cipherName = ''serpent-128-cfb'', KEYSIZE = 16, warning = Some INTEGRITY_WARNING\<rparr>,
      \<lparr>cipherName = ''cast-256-gcm'', KEYSIZE = 32, warning = None\<rparr>,
      \<lparr>cipherName = ''cast-256-cfb'', KEYSIZE = 32, warning = Some INTEGRITY_WARNING\<rparr>,
      \<lparr>cipherName = ''mars-448-gcm'', KEYSIZE = 56, warning = None\<rparr>,
      \<lparr>cipherName = ''mars-448-cfb'', KEYSIZE = 56, warning = Some INTEGRITY_WARNING\<rparr>,
      \<lparr>cipherName = ''mars-256-gcm'', KEYSIZE = 32, warning = None\<rparr>,
      \<lparr>cipherName = ''mars-256-cfb'', KEYSIZE = 32, warning = Some INTEGRITY_WARNING\<rparr>,
      \<lparr>cipherName = ''mars-128-gcm'', KEYSIZE = 16, warning = None\<rparr>,
      \<lparr>cipherName = ''mars-128-cfb'', KEYSIZE = 16, warning = Some INTEGRITY_WARNING\<rparr>]"

definition CryCiphers_find :: "string \<Rightarrow> cry_cipher result" where
  "CryCiphers_find name =
     (case List.find (\<lambda>element. cipherName element = name) CryCiphers_SUPPORTED_CIPHERS of
        None \<Rightarrow> Inl (AssertFailed (''Unknown Cipher: '' @ name))
      | Some c \<Rightarrow> Inr c)"

definition CryCiphers_supportedCipherNames :: "string list" where
  "CryCiphers_supportedCipherNames = map cipherName CryCiphers_SUPPORTED_CIPHERS"

definition CryCipher_createKey :: "(nat \<Rightarrow> ('r, data) exec) \<Rightarrow> cry_cipher \<Rightarrow> ('r, string) exec" where
  "CryCipher_createKey random c =
     ebind (EncryptionKey_CreateKey (random (KEYSIZE c))) (\<lambda>key. lift_result (EncryptionKey_ToString key))"

text \<open>The inner encryptor of a cipher is given by its cipher and the key for it.\<close>

definition CryCipher_createInnerConfigEncryptor :: "cry_cipher \<Rightarrow> data \<Rightarrow> (cry_cipher \<times> data) result" where
  "CryCipher_createInnerConfigEncryptor c key =
     rbind (ASSERT (length key = CryCiphers_MAX_KEY_SIZE) ''Wrong key size'') (\<lambda>_.
     rbind (EncryptionKey_take (KEYSIZE c) key) (\<lambda>k. Inr (c, k)))"

section \<open>The encryptors\<close>

definition InnerEncryptor_CONFIG_SIZE :: nat where
  "InnerEncryptor_CONFIG_SIZE = 900"

definition ConcreteInnerEncryptor_encrypt ::
  "(string \<Rightarrow> ('r, data) cipher) \<Rightarrow> (nat \<Rightarrow> data) \<Rightarrow> cry_cipher \<times> data \<Rightarrow> data \<Rightarrow> ('r, inner_config) exec" where
  "ConcreteInnerEncryptor_encrypt prim pad ck config =
     ebind (lift_result (RandomPadding_add pad config InnerEncryptor_CONFIG_SIZE)) (\<lambda>padded.
     ebind (encrypt_of (prim (cipherName (fst ck))) padded (snd ck)) (\<lambda>encrypted.
     ret \<lparr>ic_cipherName = cipherName (fst ck), encryptedConfig = encrypted\<rparr>))"

definition ConcreteInnerEncryptor_decrypt ::
  "(string \<Rightarrow> ('r, data) cipher) \<Rightarrow> cry_cipher \<times> data \<Rightarrow> inner_config \<Rightarrow> data option result" where
  "ConcreteInnerEncryptor_decrypt prim ck innerConfig =
     (if ic_cipherName innerConfig \<noteq> cipherName (fst ck) then Inr None
      else rbind (decrypt_of (prim (cipherName (fst ck))) (encryptedConfig innerConfig) (snd ck)) (\<lambda>decrypted.
        case decrypted of None \<Rightarrow> Inr None | Some d \<Rightarrow> RandomPadding_remove d))"

definition OuterEncryptor_CONFIG_SIZE :: nat where
  "OuterEncryptor_CONFIG_SIZE = 1024"

abbreviation outer_cipher :: string where
  "outer_cipher \<equiv> ''aes-256-gcm''"

record outer_encryptor =
  oe_key :: data
  oe_kdfParameters :: data

definition OuterEncryptor_encrypt ::
  "(string \<Rightarrow> ('r, data) cipher) \<Rightarrow> (nat \<Rightarrow> data) \<Rightarrow> outer_encryptor \<Rightarrow> data \<Rightarrow> ('r, outer_config) exec" where
  "OuterEncryptor_encrypt prim pad E plaintext =
     ebind (lift_result (RandomPadding_add pad plaintext OuterEncryptor_CONFIG_SIZE)) (\<lambda>padded.
     ebind (encrypt_of (prim outer_cipher) padded (oe_key E)) (\<lambda>ciphertext.
     ret \<lparr>kdfParameters = oe_kdfParameters E, encryptedInnerConfig = ciphertext, wasInDeprecatedConfigFormat = False\<rparr>))"

definition OuterEncryptor_decrypt :: "(string \<Rightarrow> ('r, data) cipher) \<Rightarrow> outer_encryptor \<Rightarrow> outer_config \<Rightarrow> data option result" where
  "OuterEncryptor_decrypt prim E outerConfig =
     rbind (ASSERT (Data_equal (kdfParameters outerConfig) (oe_kdfParameters E)) ''OuterEncryptor was initialized with wrong key config'') (\<lambda>_.
     rbind (decrypt_of (prim outer_cipher) (encryptedInnerConfig outerConfig) (oe_key E)) (\<lambda>inner.
     case inner of None \<Rightarrow> Inr None | Some d \<Rightarrow> RandomPadding_remove d))"

definition OuterKeySize :: nat where
  "OuterKeySize = 32"

definition MaxTotalKeySize :: nat where
  "MaxTotalKeySize = OuterKeySize + CryCiphers_MAX_KEY_SIZE"

record config_encryptor =
  ce_derivedKey :: data
  ce_kdfParameters :: data

definition CryConfigEncryptor_new :: "data \<Rightarrow> data \<Rightarrow> config_encryptor result" where
  "CryConfigEncryptor_new derivedKey kdf =
     rbind (ASSERT (length derivedKey = MaxTotalKeySize) ''Wrong key size'') (\<lambda>_.
     Inr \<lparr>ce_derivedKey = derivedKey, ce_kdfParameters = kdf\<rparr>)"

definition CryConfigEncryptor_outerEncryptor :: "config_encryptor \<Rightarrow> outer_encryptor result" where
  "CryConfigEncryptor_outerEncryptor E =
     rbind (EncryptionKey_take OuterKeySize (ce_derivedKey E)) (\<lambda>outerKey.
     Inr \<lparr>oe_key = outerKey, oe_kdfParameters = ce_kdfParameters E\<rparr>)"

definition CryConfigEncryptor_innerEncryptor :: "config_encryptor \<Rightarrow> string \<Rightarrow> (cry_cipher \<times> data) result" where
  "CryConfigEncryptor_innerEncryptor E name =
     rbind (EncryptionKey_drop OuterKeySize (ce_derivedKey E)) (\<lambda>innerKey.
     rbind (CryCiphers_find name) (\<lambda>c. CryCipher_createInnerConfigEncryptor c innerKey))"

definition CryConfigEncryptor_encrypt ::
  "(string \<Rightarrow> ('r, data) cipher) \<Rightarrow> (nat \<Rightarrow> data) \<Rightarrow> config_encryptor \<Rightarrow> data \<Rightarrow> string \<Rightarrow> ('r, data) exec" where
  "CryConfigEncryptor_encrypt prim pad E plaintext name =
     ebind (lift_result (CryConfigEncryptor_innerEncryptor E name)) (\<lambda>inner.
     ebind (ConcreteInnerEncryptor_encrypt prim pad inner plaintext) (\<lambda>innerConfig.
     ebind (lift_result (InnerConfig_serialize innerConfig)) (\<lambda>serializedInnerConfig.
     ebind (lift_result (CryConfigEncryptor_outerEncryptor E)) (\<lambda>outer.
     ebind (OuterEncryptor_encrypt prim pad outer serializedInnerConfig) (\<lambda>outerConfig.
     lift_result (OuterConfig_serialize outerConfig))))))"

record decrypted_config =
  dc_data :: data
  dc_cipherName :: string
  dc_wasInDeprecatedConfigFormat :: bool

definition CryConfigEncryptor_decrypt ::
  "(string \<Rightarrow> ('r, data) cipher) \<Rightarrow> config_encryptor \<Rightarrow> data \<Rightarrow> decrypted_config option result" where
  "CryConfigEncryptor_decrypt prim E d =
     rbind (OuterConfig_deserialize d) (\<lambda>outerConfig. case outerConfig of None \<Rightarrow> Inr None | Some outerConfig \<Rightarrow>
     rbind (CryConfigEncryptor_outerEncryptor E) (\<lambda>outer.
     rbind (OuterEncryptor_decrypt prim outer outerConfig) (\<lambda>serialized. case serialized of None \<Rightarrow> Inr None | Some serialized \<Rightarrow>
     rbind (InnerConfig_deserialize serialized) (\<lambda>innerConfig. case innerConfig of None \<Rightarrow> Inr None | Some innerConfig \<Rightarrow>
     rbind (CryConfigEncryptor_innerEncryptor E (ic_cipherName innerConfig)) (\<lambda>inner.
     rbind (ConcreteInnerEncryptor_decrypt prim inner innerConfig) (\<lambda>plaintext. case plaintext of None \<Rightarrow> Inr None | Some plaintext \<Rightarrow>
     Inr (Some \<lparr>dc_data = plaintext, dc_cipherName = ic_cipherName innerConfig,
       dc_wasInDeprecatedConfigFormat = wasInDeprecatedConfigFormat outerConfig\<rparr>)))))))"

section \<open>Key providers\<close>

text \<open>The key derivation function of Crypto++ is the parameter \<open>scrypt\<close>.\<close>

record scrypt_settings =
  SALT_LEN :: nat
  settings_N :: u64
  settings_r :: u32
  settings_p :: u32

definition SCrypt_deriveExistingKey ::
  "(nat \<Rightarrow> string \<Rightarrow> scrypt_parameters \<Rightarrow> data result) \<Rightarrow> nat \<Rightarrow> string \<Rightarrow> data \<Rightarrow> data result" where
  "SCrypt_deriveExistingKey scrypt keySize password kdf =
     rbind (SCryptParameters_deserialize kdf) (\<lambda>parameters. scrypt keySize password parameters)"

definition SCrypt_deriveNewKey ::
  "(nat \<Rightarrow> string \<Rightarrow> scrypt_parameters \<Rightarrow> data result) \<Rightarrow> (nat \<Rightarrow> ('r, data) exec) \<Rightarrow> scrypt_settings \<Rightarrow> nat \<Rightarrow> string \<Rightarrow>
   ('r, data \<times> data) exec" where
  "SCrypt_deriveNewKey scrypt random settings keySize password =
     ebind (random (SALT_LEN settings)) (\<lambda>salt.
     let kdf = \<lparr>scrypt_salt = salt, scrypt_n = settings_N settings, scrypt_r = settings_r settings, scrypt_p = settings_p settings\<rparr> in
     ebind (lift_result (scrypt keySize password kdf)) (\<lambda>key.
     ebind (lift_result (SCryptParameters_serialize kdf)) (\<lambda>serialized. ret (key, serialized))))"

record 'r key_provider =
  requestKeyForExistingFilesystem :: "nat \<Rightarrow> data \<Rightarrow> ('r, data) exec"
  requestKeyForNewFilesystem :: "nat \<Rightarrow> ('r, data \<times> data) exec"

text \<open>The key that \<open>saveEncryptionKey\<close> copies for the caller is the value that the request returns.\<close>

definition CryPresetPasswordBasedKeyProvider ::
  "(nat \<Rightarrow> string \<Rightarrow> scrypt_parameters \<Rightarrow> data result) \<Rightarrow> (nat \<Rightarrow> ('r, data) exec) \<Rightarrow> scrypt_settings \<Rightarrow> string \<Rightarrow> 'r key_provider" where
  "CryPresetPasswordBasedKeyProvider scrypt random settings password =
     \<lparr>requestKeyForExistingFilesystem = (\<lambda>keySize kdf. lift_result (SCrypt_deriveExistingKey scrypt keySize password kdf)),
      requestKeyForNewFilesystem = (\<lambda>keySize. SCrypt_deriveNewKey scrypt random settings keySize password)\<rparr>"

definition CryDirectKeyProvider :: "data \<Rightarrow> 'r key_provider" where
  "CryDirectKeyProvider encryptionKey =
     \<lparr>requestKeyForExistingFilesystem = (\<lambda>keySize kdf.
        ebind (assert_exec (length encryptionKey = keySize) ''CryDirectKeyProvider: Invalid key size requested'') (\<lambda>_. ret encryptionKey)),
      requestKeyForNewFilesystem = (\<lambda>keySize. throw (LogicError ''CryDirectKeyProvider can't be used for new filesystems''))\<rparr>"

definition CryConfigEncryptorFactory_loadExistingKey :: "'r key_provider \<Rightarrow> data \<Rightarrow> ('r, config_encryptor option) exec" where
  "CryConfigEncryptorFactory_loadExistingKey keyProvider d =
     ebind (lift_result (OuterConfig_deserialize d)) (\<lambda>outerConfig. case outerConfig of None \<Rightarrow> ret None | Some outerConfig \<Rightarrow>
     ebind (requestKeyForExistingFilesystem keyProvider MaxTotalKeySize (kdfParameters outerConfig)) (\<lambda>key.
     ebind (lift_result (CryConfigEncryptor_new key (kdfParameters outerConfig))) (\<lambda>E. ret (Some E))))"

definition CryConfigEncryptorFactory_deriveNewKey :: "'r key_provider \<Rightarrow> ('r, config_encryptor) exec" where
  "CryConfigEncryptorFactory_deriveNewKey keyProvider =
     ebind (requestKeyForNewFilesystem keyProvider MaxTotalKeySize) (\<lambda>(key, kdf). lift_result (CryConfigEncryptor_new key kdf))"

section \<open>Round trips\<close>

lemma writeTailData_appends:
  assumes "Serializer_appends m bs" and "length fresh = length bs + length d"
  shows "rbind (m (Serializer_new fresh)) (\<lambda>s. rbind (Serializer_writeTailData d s) Serializer_finished) = Inr (bs @ d)"
proof -
  let ?f = "Serializer_new fresh"
  have f: "ser_wf ?f" "ser_room ?f = length bs + length d" "written ?f = []"
    using assms(2) by (simp_all add: ser_wf_def ser_room_def written_def Serializer_new_def)
  then obtain t where t: "m ?f = Inr t" "ser_wf t" "written t = bs" "ser_room t = length d"
    using assms(1) unfolding Serializer_appends_def by fastforce
  then obtain u where u: "Serializer_writeBytes d t = Inr u" "ser_wf u" "written u = bs @ d" "ser_room u = 0"
    using Serializer_writeBytes_appends [of d] unfolding Serializer_appends_def by fastforce
  have "ser_pos t + length d = length (ser_result t)" "ser_pos u = length (ser_result u)"
    using t(2,4) u(2,4) by (auto simp: ser_wf_def ser_room_def)
  with t(1) u show ?thesis by (simp add: Serializer_writeTailData_def Serializer_finished_def written_def)
qed

lemma readTailData_reads:
  assumes "des_at d bs"
  obtains d' where "Deserializer_readTailData d = Inr (bs, d')" and "Deserializer_finished d' = Inr ()"
proof -
  have n: "length (des_source d) - des_pos d = length bs" using assms by (auto simp: des_at_def)
  obtain d' where d': "Deserializer_readBytes (length bs) d = Inr (bs, d')" "des_at d' []"
    using Deserializer_readBytes_reads [of bs] assms unfolding Deserializer_reads_def by (metis append_Nil2)
  then have "des_pos d' = length (des_source d')" by (auto simp: des_at_def)
  with d' n that show thesis by (simp add: Deserializer_readTailData_def Deserializer_finished_def)
qed

lemma reads_at: "Deserializer_reads m bs v \<Longrightarrow> des_at d (bs @ rest) \<Longrightarrow> \<exists>d'. m d = Inr (v, d') \<and> des_at d' rest"
  unfolding Deserializer_reads_def by blast

lemma des_at_new: "length d < 2 ^ 63 \<Longrightarrow> des_at (Deserializer_new d) d"
  by (simp add: des_at_def Deserializer_new_def)

lemma rbind_assoc: "rbind (rbind m f) g = rbind m (\<lambda>x. rbind (f x) g)"
  by (cases m) simp_all

lemma InnerConfig_roundtrip:
  assumes "0 \<notin> set (ascii (ic_cipherName c))" and "length (encryptedConfig c) + length (ic_cipherName c) < 2 ^ 62"
  shows "\<exists>bs. InnerConfig_serialize c = Inr bs \<and> length bs = 22 + length (ic_cipherName c) + length (encryptedConfig c) \<and>
    InnerConfig_deserialize bs = Inr (Some c)"
proof -
  let ?h = "ascii InnerConfig_HEADER @ [0]" and ?n = "ascii (ic_cipherName c) @ [0]" and ?e = "encryptedConfig c"
  have s: "InnerConfig_serialize c = Inr ((?h @ ?n) @ ?e)"
    using writeTailData_appends [OF Serializer_appends_then [OF Serializer_writeString_appends [of "ascii InnerConfig_HEADER"]
          Serializer_writeString_appends [of "ascii (ic_cipherName c)"]], of "zeroes n" ?e for n]
    by (simp add: InnerConfig_serialize_def Serializer_StringSize_def rbind_assoc)
  have "des_at (Deserializer_new (?h @ ?n @ ?e)) (?h @ ?n @ ?e)"
    using assms(2) by (intro des_at_new) (simp add: InnerConfig_HEADER_def)
  moreover have "0 \<notin> set (ascii InnerConfig_HEADER)" by (simp add: InnerConfig_HEADER_def ascii_def)
  ultimately obtain d1 where d1: "Deserializer_readString (Deserializer_new (?h @ ?n @ ?e)) = Inr (ascii InnerConfig_HEADER, d1)" "des_at d1 (?n @ ?e)"
    using reads_at [OF Deserializer_readString_reads] by blast
  then obtain d2 where d2: "Deserializer_readString d1 = Inr (ascii (ic_cipherName c), d2)" "des_at d2 ?e"
    using reads_at [OF Deserializer_readString_reads [OF assms(1)]] by blast
  obtain d3 where d3: "Deserializer_readTailData d2 = Inr (?e, d3)" "Deserializer_finished d3 = Inr ()"
    using d2(2) by (rule readTailData_reads)
  show ?thesis
    unfolding s using d1(1) d2(1) d3 by (simp add: InnerConfig_deserialize_def InnerConfig_checkHeader_def InnerConfig_HEADER_def)
qed

lemma OuterConfig_roundtrip:
  assumes "length (encryptedInnerConfig c) + length (kdfParameters c) < 2 ^ 62" and "\<not> wasInDeprecatedConfigFormat c"
  shows "\<exists>bs. OuterConfig_serialize c = Inr bs \<and> length bs = 30 + length (kdfParameters c) + length (encryptedInnerConfig c) \<and>
    OuterConfig_deserialize bs = Inr (Some c)"
proof -
  let ?h = "ascii OuterConfig_HEADER @ [0]" and ?k = "serialize (of_nat (length (kdfParameters c)) :: u64) @ kdfParameters c"
    and ?e = "encryptedInnerConfig c"
  have s: "OuterConfig_serialize c = Inr ((?h @ ?k) @ ?e)"
    using writeTailData_appends [OF Serializer_appends_then [OF Serializer_writeString_appends [of "ascii OuterConfig_HEADER"]
          Serializer_writeData_appends [of "kdfParameters c"]], of "zeroes n" ?e for n]
    by (simp add: OuterConfig_serialize_def OuterConfig_writeHeader_def Serializer_StringSize_def Serializer_DataSize_def rbind_assoc ac_simps)
  have "des_at (Deserializer_new (?h @ ?k @ ?e)) (?h @ ?k @ ?e)"
    using assms(1) by (intro des_at_new) (simp add: OuterConfig_HEADER_def)
  moreover have "0 \<notin> set (ascii OuterConfig_HEADER)" by (simp add: OuterConfig_HEADER_def ascii_def)
  ultimately obtain d1 where d1: "Deserializer_readString (Deserializer_new (?h @ ?k @ ?e)) = Inr (ascii OuterConfig_HEADER, d1)" "des_at d1 (?k @ ?e)"
    using reads_at [OF Deserializer_readString_reads] by blast
  have "length (kdfParameters c) < 2 ^ 63" using assms(1) by simp
  then obtain d2 where d2: "Deserializer_readData d1 = Inr (kdfParameters c, d2)" "des_at d2 ?e"
    using reads_at [OF Deserializer_readData_reads] d1(2) by blast
  obtain d3 where d3: "Deserializer_readTailData d2 = Inr (?e, d3)" "Deserializer_finished d3 = Inr ()"
    using d2(2) by (rule readTailData_reads)
  show ?thesis
    unfolding s using d1(1) d2(1) d3 assms(2)
    by (simp add: OuterConfig_deserialize_def OuterConfig_deserializeNewFormat_def OuterConfig_HEADER_def OuterConfig_OLD_HEADER_def)
qed

lemma SCryptParameters_roundtrip:
  assumes "length (scrypt_salt k) < 2 ^ 62"
  shows "\<exists>bs. SCryptParameters_serialize k = Inr bs \<and> length bs = 16 + length (scrypt_salt k) \<and> SCryptParameters_deserialize bs = Inr k"
proof -
  let ?n = "serialize (scrypt_n k)" and ?r = "serialize (scrypt_r k)" and ?p = "serialize (scrypt_p k)" and ?s = "scrypt_salt k"
  have s: "SCryptParameters_serialize k = Inr ((?n @ ?r @ ?p) @ ?s)"
    using writeTailData_appends [OF Serializer_appends_then [OF Serializer_writeUint_appends(4) [of "scrypt_n k"]
          Serializer_appends_then [OF Serializer_writeUint_appends(3) [of "scrypt_r k"] Serializer_writeUint_appends(3) [of "scrypt_p k"]]],
        of "zeroes n" ?s for n]
    by (simp add: SCryptParameters_serialize_def SCryptParameters_serializedSize_def rbind_assoc)
  have "des_at (Deserializer_new (?n @ ?r @ ?p @ ?s)) (?n @ ?r @ ?p @ ?s)" using assms by (intro des_at_new) simp
  then obtain d1 where d1: "Deserializer_readUint64 (Deserializer_new (?n @ ?r @ ?p @ ?s)) = Inr (scrypt_n k, d1)" "des_at d1 (?r @ ?p @ ?s)"
    using reads_at [OF Deserializer_readUint_reads(4)] by blast
  then obtain d2 where d2: "Deserializer_readUint32 d1 = Inr (scrypt_r k, d2)" "des_at d2 (?p @ ?s)"
    using reads_at [OF Deserializer_readUint_reads(3)] by blast
  then obtain d3 where d3: "Deserializer_readUint32 d2 = Inr (scrypt_p k, d3)" "des_at d3 ?s"
    using reads_at [OF Deserializer_readUint_reads(3)] by blast
  obtain d4 where d4: "Deserializer_readTailData d3 = Inr (?s, d4)" "Deserializer_finished d4 = Inr ()"
    using d3(2) by (rule readTailData_reads)
  show ?thesis unfolding s using d1(1) d2(1) d3(1) d4 by (simp add: SCryptParameters_deserialize_def)
qed

text \<open>A key that is derived from a password for a new file is derived again from the same password with the stored parameters.\<close>

lemma password_key_again:
  assumes "random (SALT_LEN settings) r = (Inr salt, r1)" and "length salt < 2 ^ 62"
    and "scrypt n password \<lparr>scrypt_salt = salt, scrypt_n = settings_N settings, scrypt_r = settings_r settings, scrypt_p = settings_p settings\<rparr> = Inr key"
    and "kp = CryPresetPasswordBasedKeyProvider scrypt random settings password"
  shows "\<exists>kdf. requestKeyForNewFilesystem kp n r = (Inr (key, kdf), r1) \<and> length kdf = 16 + length salt \<and>
    (\<forall>r. requestKeyForExistingFilesystem kp n kdf r = (Inr key, r))"
proof -
  let ?k = "\<lparr>scrypt_salt = salt, scrypt_n = settings_N settings, scrypt_r = settings_r settings, scrypt_p = settings_p settings\<rparr>"
  obtain bs where b: "SCryptParameters_serialize ?k = Inr bs" "SCryptParameters_deserialize bs = Inr ?k" "length bs = 16 + length salt"
    using SCryptParameters_roundtrip [of ?k] assms(2) by auto
  have "requestKeyForNewFilesystem kp n r = (Inr (key, bs), r1)"
    using assms(1,3) b(1) by (simp add: assms(4) CryPresetPasswordBasedKeyProvider_def SCrypt_deriveNewKey_def ebind_def Let_def)
  moreover have "requestKeyForExistingFilesystem kp n bs r = (Inr key, r)" for r
    using assms(3) b(2) by (simp add: assms(4) CryPresetPasswordBasedKeyProvider_def SCrypt_deriveExistingKey_def)
  ultimately show ?thesis using b(3) by blast
qed

lemma padding_roundtrip:
  assumes "length d + 4 < size'" and "size' < 2 ^ 32" and "\<And>n. length (pad n) = n"
  shows "\<exists>p. RandomPadding_add pad d size' = Inr p \<and> length p = size' \<and> RandomPadding_remove p = Inr (Some d)"
proof -
  let ?sz = "of_nat (length d) :: u32" and ?limit = "of_nat size' - 4 :: u64"
  have sz: "unat ?sz = length d" using assms by (simp add: unat_of_nat)
  have lim: "?limit = of_nat (size' - 4)" using assms by simp
  have uz: "(ucast ?sz :: u64) = of_nat (length d)"
  proof -
    have "unat (ucast ?sz :: u64) = length d" using sz assms by (simp add: unsigned_ucast_eq take_bit_nat_eq_self)
    then show ?thesis by (metis of_nat_unat ucast_id)
  qed
  have diff: "unat (?limit - ucast ?sz) = size' - 4 - length d"
    unfolding lim uz using assms by (simp add: unat_of_nat of_nat_diff [symmetric] del: of_nat_diff)
  have le: "\<not> ucast ?sz \<ge> ?limit"
    unfolding lim uz word_le_nat_alt using assms by (simp add: unat_of_nat del: of_nat_diff)
  let ?p = "serialize ?sz @ d @ pad (size' - 4 - length d)"
  have add: "RandomPadding_add pad d size' = Inr ?p"
    using le diff sz assms by (simp add: RandomPadding_add_def Data_new_def Let_def)
  have "RandomPadding_remove ?p = Inr (Some d)"
    using deserialize_serialize [of ?sz "d @ pad (size' - 4 - length d)"] sz assms
    by (simp add: RandomPadding_remove_def slice_def)
  then show ?thesis using add assms by simp
qed

lemma supported_cipher:
  assumes "CryCiphers_find name = Inr c"
  shows "cipherName c = name" and "KEYSIZE c \<le> 56" and "0 \<notin> set (ascii name)" and "length name \<le> 18"
proof -
  have all: "\<forall>c\<in>set CryCiphers_SUPPORTED_CIPHERS. KEYSIZE c \<le> 56 \<and> 0 \<notin> set (ascii (cipherName c)) \<and> length (cipherName c) \<le> 18"
    by code_simp
  have f: "List.find (\<lambda>element. cipherName element = name) CryCiphers_SUPPORTED_CIPHERS = Some c"
    using assms by (auto simp: CryCiphers_find_def split: option.splits)
  then have "c \<in> set CryCiphers_SUPPORTED_CIPHERS" and n: "cipherName c = name" by (auto simp: find_Some_iff)
  with all show "cipherName c = name" "KEYSIZE c \<le> 56" "0 \<notin> set (ascii name)" "length name \<le> 18" by auto
qed

text \<open>The ciphers and keys that an encryptor uses for a cipher name.\<close>

definition config_ciphers_ok :: "(string \<Rightarrow> ('r, data) cipher) \<Rightarrow> (nat \<Rightarrow> data) \<Rightarrow> config_encryptor \<Rightarrow> string \<Rightarrow> nat \<Rightarrow> nat \<Rightarrow> bool" where
  "config_ciphers_ok prim pad E name k l \<longleftrightarrow>
     (\<forall>n. length (pad n) = n) \<and> length (ce_derivedKey E) = MaxTotalKeySize \<and> length (ce_kdfParameters E) < 2 ^ 31 \<and>
     (\<exists>c. CryCiphers_find name = Inr c \<and> cipher (prim name) (\<lambda>key. length key = KEYSIZE c) k) \<and>
     cipher (prim outer_cipher) (\<lambda>key. length key = 32) l \<and> k \<le> 64 \<and> l \<le> 64"

lemma encryptor_roundtrip:
  assumes "config_ciphers_ok prim pad E name k l" and "length plaintext < 896"
  shows "\<exists>bs r'. CryConfigEncryptor_encrypt prim pad E plaintext name r = (Inr bs, r') \<and>
    length bs = 1054 + length (ce_kdfParameters E) + l \<and> OuterConfig_deserialize bs \<noteq> Inr None \<and>
    (\<exists>oc. OuterConfig_deserialize bs = Inr (Some oc) \<and> kdfParameters oc = ce_kdfParameters E) \<and>
    CryConfigEncryptor_decrypt prim E bs =
      Inr (Some \<lparr>dc_data = plaintext, dc_cipherName = name, dc_wasInDeprecatedConfigFormat = False\<rparr>)"
proof -
  obtain c where pad: "\<And>n. length (pad n) = n" and key: "length (ce_derivedKey E) = 88" and kdf: "length (ce_kdfParameters E) < 2 ^ 31"
    and c: "CryCiphers_find name = Inr c" and ic: "cipher (prim name) (\<lambda>key. length key = KEYSIZE c) k"
    and oc: "cipher (prim outer_cipher) (\<lambda>key. length key = 32) l" and kl: "k \<le> 64" "l \<le> 64"
    using assms(1) by (auto simp: config_ciphers_ok_def MaxTotalKeySize_def OuterKeySize_def CryCiphers_MAX_KEY_SIZE_def)
  note name = supported_cipher [OF c]
  let ?ik = "take (KEYSIZE c) (drop 32 (ce_derivedKey E))" and ?ok = "take 32 (ce_derivedKey E)"
  have inner: "CryConfigEncryptor_innerEncryptor E name = Inr (c, ?ik)"
    using key name(2) c by (simp add: CryConfigEncryptor_innerEncryptor_def EncryptionKey_drop_def OuterKeySize_def
        CryCipher_createInnerConfigEncryptor_def CryCiphers_MAX_KEY_SIZE_def EncryptionKey_take_def)
  have outer: "CryConfigEncryptor_outerEncryptor E = Inr \<lparr>oe_key = ?ok, oe_kdfParameters = ce_kdfParameters E\<rparr>"
    using key by (simp add: CryConfigEncryptor_outerEncryptor_def EncryptionKey_take_def OuterKeySize_def)
  obtain p where p: "RandomPadding_add pad plaintext 900 = Inr p" "length p = 900" "RandomPadding_remove p = Inr (Some plaintext)"
    using padding_roundtrip [of plaintext 900 pad] assms(2) pad by auto
  obtain x r1 where x: "encrypt_of (prim name) p ?ik r = (Inr x, r1)" "decrypt_of (prim name) x ?ik = Inr (Some p)" "length x = 900 + k"
    using cipher.encrypt [OF ic, of ?ik p r] key name(2) p(2) kl by auto
  let ?i = "\<lparr>ic_cipherName = name, encryptedConfig = x\<rparr>"
  obtain ib where i: "InnerConfig_serialize ?i = Inr ib" "length ib = 922 + length name + k" "InnerConfig_deserialize ib = Inr (Some ?i)"
    using InnerConfig_roundtrip [of ?i] name(3,4) x(3) kl by auto
  obtain q where q: "RandomPadding_add pad ib 1024 = Inr q" "length q = 1024" "RandomPadding_remove q = Inr (Some ib)"
    using padding_roundtrip [of ib 1024 pad] i(2) name(4) kl pad by auto
  obtain y r2 where y: "encrypt_of (prim outer_cipher) q ?ok r1 = (Inr y, r2)" "decrypt_of (prim outer_cipher) y ?ok = Inr (Some q)"
      "length y = 1024 + l"
    using cipher.encrypt [OF oc, of ?ok q r1] key q(2) kl by auto
  let ?o = "\<lparr>kdfParameters = ce_kdfParameters E, encryptedInnerConfig = y, wasInDeprecatedConfigFormat = False\<rparr>"
  obtain bs where ob: "OuterConfig_serialize ?o = Inr bs" "length bs = 1054 + length (ce_kdfParameters E) + l" "OuterConfig_deserialize bs = Inr (Some ?o)"
    using OuterConfig_roundtrip [of ?o] y(3) kl kdf by auto
  have "CryConfigEncryptor_encrypt prim pad E plaintext name r = (Inr bs, r2)"
    using inner outer p(1) x(1) i(1) q(1) y(1) ob(1) name(1)
    by (simp add: CryConfigEncryptor_encrypt_def ConcreteInnerEncryptor_encrypt_def OuterEncryptor_encrypt_def ebind_def
        InnerEncryptor_CONFIG_SIZE_def OuterEncryptor_CONFIG_SIZE_def)
  moreover have "CryConfigEncryptor_decrypt prim E bs =
      Inr (Some \<lparr>dc_data = plaintext, dc_cipherName = name, dc_wasInDeprecatedConfigFormat = False\<rparr>)"
    using inner outer p(3) x(2) i(3) q(3) y(2) ob(3) name(1)
    by (simp add: CryConfigEncryptor_decrypt_def OuterEncryptor_decrypt_def ConcreteInnerEncryptor_decrypt_def Data_equal_iff)
  ultimately show ?thesis using ob by auto
qed

section \<open>Authenticated ciphers by name\<close>

definition AEADCipher ::
  "aead_params \<Rightarrow> (data \<Rightarrow> data \<Rightarrow> data \<Rightarrow> data) \<Rightarrow> (data \<Rightarrow> data \<Rightarrow> data \<Rightarrow> data option) \<Rightarrow> (nat \<Rightarrow> ('r, data) exec) \<Rightarrow> ('r, data) cipher" where
  "AEADCipher P aead_enc aead_dec random =
     \<lparr>encrypt_of = AEADCipher_encrypt P aead_enc random, decrypt_of = AEADCipher_decrypt P aead_dec,
      ciphertextSize_of = AEADCipher_ciphertextSize P, plaintextSize_of = AEADCipher_plaintextSize P\<rparr>"

lemma AEADCipher_is_cipher:
  assumes "\<And>k iv m. aead_dec k iv (aead_enc k iv m) = Some m" and "\<And>k iv m. length (aead_enc k iv m) = length m + TAG_SIZE P"
    and "\<And>r. \<exists>iv r'. random (IV_SIZE P) r = (Inr iv, r') \<and> length iv = IV_SIZE P"
  shows "cipher (AEADCipher P aead_enc aead_dec random) (\<lambda>k. length k = aead_params.KEYSIZE P) (IV_SIZE P + TAG_SIZE P)"
proof
  fix k d :: data and r :: 'a
  assume "length k = aead_params.KEYSIZE P" and "length d + (IV_SIZE P + TAG_SIZE P) < 2 ^ 32"
  then show "\<exists>c r'. encrypt_of (AEADCipher P aead_enc aead_dec random) d k r = (Inr c, r') \<and>
      decrypt_of (AEADCipher P aead_enc aead_dec random) c k = Inr (Some d) \<and> length c = length d + (IV_SIZE P + TAG_SIZE P)"
    using AEADCipher_decrypt_encrypt [where aead_dec = aead_dec and aead_enc = aead_enc and random = random, OF assms]
    by (simp add: AEADCipher_def)
next
  fix n :: nat assume n: "n + (IV_SIZE P + TAG_SIZE P) < 2 ^ 32"
  have "(of_nat n + of_nat (IV_SIZE P) + of_nat (TAG_SIZE P) :: u32) = of_nat (n + (IV_SIZE P + TAG_SIZE P))" by simp
  then show "unat (ciphertextSize_of (AEADCipher P aead_enc aead_dec random) (of_nat n)) = n + (IV_SIZE P + TAG_SIZE P)"
    using unat_u32_small [OF n] unfolding AEADCipher_def AEADCipher_ciphertextSize_def by (simp add: add.assoc)
  have "(of_nat (n + (IV_SIZE P + TAG_SIZE P)) - of_nat (IV_SIZE P) - of_nat (TAG_SIZE P) :: u32) = of_nat n" by simp
  then show "unat (plaintextSize_of (AEADCipher P aead_enc aead_dec random) (of_nat (n + (IV_SIZE P + TAG_SIZE P)))) = n"
    using unat_u32_small [of n] n unfolding AEADCipher_def AEADCipher_plaintextSize_def by simp
qed

text \<open>A small authenticated mode: the tag is the sum of all bytes.\<close>

definition sum_tag :: "data \<Rightarrow> data \<Rightarrow> data \<Rightarrow> data" where
  "sum_tag k iv m = m @ [sum_list (k @ iv @ m)]"

definition check_sum_tag :: "data \<Rightarrow> data \<Rightarrow> data \<Rightarrow> data option" where
  "check_sum_tag k iv c = (if c \<noteq> [] \<and> sum_tag k iv (butlast c) = c then Some (butlast c) else None)"

lemma sum_tag_cipher:
  assumes "\<And>r. \<exists>iv r'. random (1 :: nat) r = (Inr iv, r') \<and> length iv = 1"
  shows "cipher (AEADCipher (aead_params.make n 1 1) sum_tag check_sum_tag random) (\<lambda>k. length k = n) 2"
  using AEADCipher_is_cipher [of check_sum_tag sum_tag "aead_params.make n 1 1" random] assms
  by (simp add: sum_tag_def check_sum_tag_def aead_params.make_def numeral_2_eq_2)

end
