(* ===== verification/PropertyTrees.thy ===== *)
theory PropertyTrees
  imports Versions ConfigCrypto
begin

text \<open>
  What the configuration and the local state use of \<open>boost::property_tree\<close>: a tree as the association list of its dotted
  paths with their text, the translation of numbers and truth values to text through streams, and the JSON format as a pair of parameters
  with the law that what is written is read back (locale \<open>json_laws\<close>).
\<close>

section \<open>Numbers and truth values as text\<close>

fun show_nat :: "nat \<Rightarrow> string" where
  "show_nat n = (if n < 10 then [char_of (48 + n)] else show_nat (n div 10) @ [char_of (48 + n mod 10)])"

declare show_nat.simps [simp del]

text \<open>
  \<open>operator>>\<close> for an unsigned type of \<open>w\<close> bits: white space, a sign, digits. The result is the number (\<open>None\<close> when the stream fails)
  and the rest of the text.
\<close>

definition extract_uint :: "nat \<Rightarrow> string \<Rightarrow> nat option \<times> string" where
  "extract_uint w s =
     (let s1 = dropWhile is_space s;
          neg = (s1 \<noteq> [] \<and> hd s1 = CHR ''-'');
          s2 = (if s1 \<noteq> [] \<and> hd s1 \<in> {CHR ''-'', CHR ''+''} then tl s1 else s1);
          digits = takeWhile is_digit s2;
          n = decimal digits
      in (if digits = [] \<or> 2 ^ w \<le> n then None else Some (if neg then (2 ^ w - n) mod 2 ^ w else n), dropWhile is_digit s2))"

text \<open>The translator of a property tree reads a value and accepts only white space behind it.\<close>

definition get_uint :: "nat \<Rightarrow> string \<Rightarrow> nat option" where
  "get_uint w s = (case extract_uint w s of (v, rest) \<Rightarrow> if dropWhile is_space rest = [] then v else None)"

definition put_bool :: "bool \<Rightarrow> string" where
  "put_bool b = (if b then ''true'' else ''false'')"

definition get_bool :: "string \<Rightarrow> bool option" where
  "get_bool s =
     (let t = dropWhile is_space s;
          behind = (\<lambda>word. take (length word) t = word \<and> dropWhile is_space (drop (length word) t) = [])
      in if behind ''1'' \<or> behind ''true'' then Some True else if behind ''0'' \<or> behind ''false'' then Some False else None)"

lemma char_code_digit [simp]: "(d :: nat) < 10 \<Longrightarrow> char_code (char_of (48 + d)) = 48 + d"
  by simp

lemma is_digit_show: "(d :: nat) < 10 \<Longrightarrow> is_digit (char_of (48 + d))"
  by (simp add: is_digit_def)

lemma digits_show_nat: "list_all is_digit (show_nat n)" and show_nat_Nil [simp]: "show_nat n \<noteq> []"
proof -
  show "list_all is_digit (show_nat n)"
  proof (induction n rule: show_nat.induct)
    case (1 n)
    then show ?case using is_digit_show by (subst show_nat.simps) auto
  qed
  show "show_nat n \<noteq> []" by (subst show_nat.simps) simp
qed

lemma decimal_show_nat: "decimal (show_nat n) = n"
proof (induction n rule: show_nat.induct)
  case (1 n)
  then show ?case by (subst show_nat.simps) (auto simp: decimal_def)
qed

lemma extract_show_nat:
  assumes "n < 2 ^ w"
  shows "extract_uint w (show_nat n) = (Some n, [])"
proof -
  have d: "takeWhile is_digit (show_nat n) = show_nat n" "dropWhile is_digit (show_nat n) = []"
    using digits_show_nat [of n] by (simp_all add: takeWhile_eq_all_conv dropWhile_eq_Nil_conv list_all_iff)
  obtain c r where c: "show_nat n = c # r" by (cases "show_nat n") simp_all
  then have "is_digit c" using digits_show_nat [of n] by simp
  then have "\<not> is_space c" "c \<noteq> CHR ''-''" "c \<noteq> CHR ''+''" by (auto simp: is_digit_def is_space_def)
  then show ?thesis
    using d assms decimal_show_nat [of n] unfolding extract_uint_def c by (simp add: Let_def)
qed

lemma get_show_nat: "n < 2 ^ w \<Longrightarrow> get_uint w (show_nat n) = Some n"
  by (simp add: get_uint_def extract_show_nat)

lemma get_put_bool [simp]: "get_bool (put_bool b) = Some b"
  by (cases b) (simp_all add: get_bool_def put_bool_def is_space_def Let_def)

section \<open>Trees\<close>

type_synonym ptree = "(string \<times> string) list"

definition ptree_put :: "string \<Rightarrow> string \<Rightarrow> ptree \<Rightarrow> ptree" where
  "ptree_put k v pt = AList.update k v pt"

text \<open>A missing node is the exception \<open>ptree_bad_path\<close>, text that is no value of the type \<open>ptree_bad_data\<close>; both are runtime errors.\<close>

definition ptree_get :: "string \<Rightarrow> ptree \<Rightarrow> string result" where
  "ptree_get k pt = (case map_of pt k of None \<Rightarrow> Inl (RuntimeError (''No such node ('' @ k @ '')'')) | Some v \<Rightarrow> Inr v)"

definition ptree_get_uint :: "nat \<Rightarrow> string \<Rightarrow> ptree \<Rightarrow> nat result" where
  "ptree_get_uint w k pt =
     rbind (ptree_get k pt) (\<lambda>v. case get_uint w v of None \<Rightarrow> Inl (RuntimeError ''conversion of data to type failed'') | Some n \<Rightarrow> Inr n)"

definition ptree_default :: "string \<Rightarrow> string \<Rightarrow> ptree \<Rightarrow> string" where
  "ptree_default k z pt = (case map_of pt k of None \<Rightarrow> z | Some v \<Rightarrow> v)"

definition ptree_optional :: "(string \<Rightarrow> 'a option) \<Rightarrow> string \<Rightarrow> ptree \<Rightarrow> 'a option" where
  "ptree_optional get k pt = Option.bind (map_of pt k) get"

lemma map_of_ptree_put [simp]: "map_of (ptree_put k v pt) = (map_of pt)(k \<mapsto> v)"
  by (simp add: ptree_put_def update_conv')

section \<open>JSON\<close>

text \<open>
  \<open>write_json\<close> and \<open>read_json\<close> of boost, for trees whose paths and texts are printable and in which no node has both a text and
  children: no path continues another one. Other trees may be refused by \<open>write_json\<close>: JSON cannot represent them.
\<close>

definition printable :: "string \<Rightarrow> bool" where
  "printable s \<longleftrightarrow> list_all (\<lambda>c. 32 \<le> char_code c \<and> char_code c < 127) s"

definition below :: "string \<Rightarrow> string \<Rightarrow> bool" where
  "below k k' \<longleftrightarrow> take (Suc (length k)) k' = k @ ''.''"

definition printable_tree :: "ptree \<Rightarrow> bool" where
  "printable_tree pt \<longleftrightarrow> list_all (\<lambda>e. printable (fst e) \<and> printable (snd e)) pt \<and>
     list_all (\<lambda>k. list_all (\<lambda>k'. \<not> below k k') (map fst pt)) (map fst pt)"

record json =
  write_json :: "ptree \<Rightarrow> data result"
  read_json :: "data \<Rightarrow> ptree result"

locale json_laws =
  fixes J :: json
  assumes read_written: "printable_tree pt \<Longrightarrow> \<exists>d pt'. write_json J pt = Inr d \<and> read_json J d = Inr pt' \<and> printable_tree pt' \<and> map_of pt' = map_of pt"

lemma fst_ptree_put: "map fst (ptree_put k v pt) = (if k \<in> set (map fst pt) then map fst pt else map fst pt @ [k])"
  unfolding ptree_put_def by (rule update_keys)

lemma printable_put:
  assumes "printable_tree pt" and "printable k" and "printable v"
    and "list_all (\<lambda>k'. \<not> below k k' \<and> \<not> below k' k) (map fst pt)"
  shows "printable_tree (ptree_put k v pt)"
proof -
  have "list_all (\<lambda>e. printable (fst e) \<and> printable (snd e)) (ptree_put k v pt)"
    using assms(1) [unfolded printable_tree_def, THEN conjunct1] assms(2,3) unfolding ptree_put_def by (induction pt) auto
  moreover have "\<not> below k k" by (simp add: below_def)
  ultimately show ?thesis
    using assms(1,4) unfolding printable_tree_def fst_ptree_put by (auto simp: list_all_iff)
qed

lemma printable_Nil [simp]: "printable_tree []"
  by (simp add: printable_tree_def)

lemma printable_show_nat [simp]: "printable (show_nat n)"
  using digits_show_nat [of n] unfolding printable_def list_all_iff is_digit_def by fastforce

lemma printable_put_bool [simp]: "printable (put_bool b)"
  by (cases b) (simp_all add: printable_def put_bool_def)

text \<open>A format with the law: texts end with a null byte, and a mark precedes every entry.\<close>

definition mark_string :: "string \<Rightarrow> data" where
  "mark_string s = ascii s @ [0]"

primrec mark_tree :: "ptree \<Rightarrow> data" where
  "mark_tree [] = [0]"
| "mark_tree (e # pt) = 1 # mark_string (fst e) @ mark_string (snd e) @ mark_tree pt"

definition unmark_string :: "data \<Rightarrow> (string \<times> data) option" where
  "unmark_string d =
     (case dropWhile (\<lambda>b. b \<noteq> 0) d of [] \<Rightarrow> None | _ # r \<Rightarrow> Some (text_of (takeWhile (\<lambda>b. b \<noteq> 0) d), r))"

primrec unmark_tree :: "nat \<Rightarrow> data \<Rightarrow> ptree result" where
  "unmark_tree 0 d = Inl (RuntimeError ''expected value'')"
| "unmark_tree (Suc n) d =
     (case d of [] \<Rightarrow> Inl (RuntimeError ''expected value'') | m # r \<Rightarrow>
        if m = 0 then Inr []
        else case unmark_string r of None \<Rightarrow> Inl (RuntimeError ''expected value'') | Some (k, r1) \<Rightarrow>
          case unmark_string r1 of None \<Rightarrow> Inl (RuntimeError ''expected value'') | Some (v, r2) \<Rightarrow>
            rbind (unmark_tree n r2) (\<lambda>pt. Inr ((k, v) # pt)))"

definition marked_json :: json where
  "marked_json = \<lparr>write_json = (\<lambda>pt. Inr (mark_tree pt)), read_json = (\<lambda>d. unmark_tree (length d) d)\<rparr>"

lemma unmark_mark_string:
  assumes "printable s"
  shows "unmark_string (mark_string s @ r) = Some (s, r)"
proof -
  have "\<forall>c\<in>set s. 32 \<le> unat (of_char c :: byte)" using assms by (auto simp: printable_def list_all_iff unat_of_char)
  then have "\<forall>b\<in>set (ascii s). b \<noteq> 0" by (auto simp: ascii_def)
  then show ?thesis
    unfolding unmark_string_def mark_string_def by (simp add: takeWhile_tail dropWhile_append3)
qed

lemma unmark_mark_tree:
  "list_all (\<lambda>e. printable (fst e) \<and> printable (snd e)) pt \<Longrightarrow> length pt < n \<Longrightarrow> unmark_tree n (mark_tree pt) = Inr pt"
proof (induction pt arbitrary: n)
  case Nil
  then show ?case by (cases n) simp_all
next
  case (Cons e pt)
  then show ?case by (cases n) (simp_all add: unmark_mark_string)
qed

interpretation marked_json: json_laws marked_json
proof unfold_locales
  fix pt assume "printable_tree pt"
  moreover have "length pt < length (mark_tree pt)" by (induction pt) auto
  ultimately show "\<exists>d pt'. write_json marked_json pt = Inr d \<and> read_json marked_json d = Inr pt' \<and> printable_tree pt' \<and> map_of pt' = map_of pt"
    by (simp add: marked_json_def unmark_mark_tree printable_tree_def)
qed

end
