(* ===== verification/LocalState.thy ===== *)
theory LocalState
  imports PropertyTrees OnDiskStore KnownVersions
begin

text \<open>
  \<open>src/src/cryfs/impl/localstate\<close>: what a client remembers of the file systems it has opened, outside of them: for each file system
  its client identifier and a salted hash of the encryption key, and for each base directory the identifier of its file system. A
  file system that an attacker has replaced is recognised by them.

  The state is that of the random generator with the disk of the state directory. Paths are relative to that directory.
\<close>

section \<open>Parameters\<close>

text \<open>JSON of boost, the pseudo random generator (\<open>get\<close> with a number of bytes) and SHA-512 of Crypto++.\<close>

record 'r services =
  sv_json :: json
  sv_random :: "nat \<Rightarrow> ('r, data) exec"
  sv_sha512 :: "data \<Rightarrow> data"

section \<open>Hashes\<close>

record key_hash =
  digest :: data
  hash_salt :: data

definition hash :: "'r services \<Rightarrow> data \<Rightarrow> data \<Rightarrow> key_hash" where
  "hash V d salt = \<lparr>digest = sv_sha512 V (salt @ d), hash_salt = salt\<rparr>"

definition generateSalt :: "'r services \<Rightarrow> ('r, data) exec" where
  "generateSalt V = sv_random V 8"

section \<open>LocalStateDir\<close>

text \<open>\<open>create_directories\<close> is called with a directory whose parent exists.\<close>

definition LocalStateDir_createDirIfNotExists :: "'e disk \<Rightarrow> disk_path \<Rightarrow> ('e, unit) exec" where
  "LocalStateDir_createDirIfNotExists sd path =
     ebind (exists_of sd path) (\<lambda>ex. if \<not> ex then ebind (create_directory_of sd path) (\<lambda>_. ret ()) else ret ())"

definition LocalStateDir_forFilesystemId :: "'e disk \<Rightarrow> data \<Rightarrow> ('e, disk_path) exec" where
  "LocalStateDir_forFilesystemId sd filesystemId =
     ebind (LocalStateDir_createDirIfNotExists sd []) (\<lambda>_.
     ebind (LocalStateDir_createDirIfNotExists sd [''filesystems'']) (\<lambda>_.
     ebind (lift_result (FixedSizeData_ToString 16 filesystemId)) (\<lambda>name.
     ebind (LocalStateDir_createDirIfNotExists sd [''filesystems'', name]) (\<lambda>_.
     ret [''filesystems'', name]))))"

definition LocalStateDir_forBasedirMetadata :: "'e disk \<Rightarrow> ('e, disk_path) exec" where
  "LocalStateDir_forBasedirMetadata sd = ebind (LocalStateDir_createDirIfNotExists sd []) (\<lambda>_. ret [''basedirs''])"

section \<open>LocalStateMetadata\<close>

record local_state =
  ls_myClientId :: u32
  encryptionKeyHash :: key_hash

definition LocalStateMetadata_serialize :: "'r services \<Rightarrow> local_state \<Rightarrow> data result" where
  "LocalStateMetadata_serialize V s =
     rbind (FixedSizeData_ToString 8 (hash_salt (encryptionKeyHash s))) (\<lambda>salt.
     rbind (FixedSizeData_ToString 64 (digest (encryptionKeyHash s))) (\<lambda>hashed.
     write_json (sv_json V)
       (ptree_put ''encryptionKey.hash'' hashed
         (ptree_put ''encryptionKey.salt'' salt
           (ptree_put ''myClientId'' (show_nat (unat (ls_myClientId s))) [])))))"

definition LocalStateMetadata_deserialize :: "'r services \<Rightarrow> data \<Rightarrow> local_state result" where
  "LocalStateMetadata_deserialize V d =
     rbind (read_json (sv_json V) d) (\<lambda>pt.
     rbind (ptree_get_uint 32 ''myClientId'' pt) (\<lambda>clientId.
     rbind (ptree_get ''encryptionKey.salt'' pt) (\<lambda>salt.
     rbind (ptree_get ''encryptionKey.hash'' pt) (\<lambda>hashed.
     rbind (FixedSizeData_FromString 64 hashed) (\<lambda>hashed.
     rbind (FixedSizeData_FromString 8 salt) (\<lambda>salt.
     Inr \<lparr>ls_myClientId = of_nat clientId, encryptionKeyHash = \<lparr>digest = hashed, hash_salt = salt\<rparr>\<rparr>))))))"

definition LocalStateMetadata_load :: "'r services \<Rightarrow> 'e disk \<Rightarrow> disk_path \<Rightarrow> ('e, local_state option) exec" where
  "LocalStateMetadata_load V sd metadataFilePath =
     ebind (open_in_of sd metadataFilePath) (\<lambda>stream.
     if \<not> is_good stream then ret None
     else ebind (lift_result (LocalStateMetadata_deserialize V (fst (Data_LoadFromStream stream)))) (\<lambda>s. ret (Some s)))"

text \<open>
  A truncating \<open>ofstream\<close> and \<open>write_json\<close> to it, which fails for a tree without a JSON representation and when the state of
  the stream is bad behind it.
\<close>

definition save_json :: "'e disk \<Rightarrow> disk_path \<Rightarrow> data result \<Rightarrow> ('e, unit) exec" where
  "save_json sd path json =
     ebind (open_out_of sd path) (\<lambda>good.
     ebind (lift_result json) (\<lambda>d.
     if \<not> good then throw (RuntimeError ''write error'')
     else ebind (put_of sd path d) (\<lambda>good. if good then ret () else throw (RuntimeError ''write error''))))"

definition LocalStateMetadata_save :: "'r services \<Rightarrow> 'e disk \<Rightarrow> disk_path \<Rightarrow> local_state \<Rightarrow> ('e, unit) exec" where
  "LocalStateMetadata_save V sd metadataFilePath s = save_json sd metadataFilePath (LocalStateMetadata_serialize V s)"

text \<open>The loop draws until the identifier is not the one for deleted blocks; \<open>fuel\<close> bounds the number of draws in the model.\<close>

primrec generateClientId :: "'r services \<Rightarrow> nat \<Rightarrow> ('r, u32) exec" where
  "generateClientId V 0 = throw OutOfFuel"
| "generateClientId V (Suc fuel) =
     ebind (sv_random V 4) (\<lambda>d.
     ebind (lift_result (deserialize d)) (\<lambda>clientId.
     if clientId = CLIENT_ID_FOR_DELETED_BLOCK then generateClientId V fuel else ret clientId))"

text \<open>
  \<open>file >> value\<close>: a text without a number gives 0, a number that is too large the greatest value.
\<close>

definition extract_value :: "nat \<Rightarrow> string \<Rightarrow> nat" where
  "extract_value w s =
     (case extract_uint w s of
        (Some n, _) \<Rightarrow> n
      | (None, _) \<Rightarrow>
          let s1 = dropWhile is_space s; s2 = (if s1 \<noteq> [] \<and> hd s1 \<in> {CHR ''-'', CHR ''+''} then tl s1 else s1)
          in if takeWhile is_digit s2 = [] then 0 else 2 ^ w - 1)"

definition tryLoadClientIdFromLegacyFile :: "'e disk \<Rightarrow> disk_path \<Rightarrow> ('e, u32 option) exec" where
  "tryLoadClientIdFromLegacyFile sd metadataFilePath =
     (let myClientIdFile = butlast metadataFilePath @ [''myClientId''] in
      ebind (open_in_of sd myClientIdFile) (\<lambda>stream.
      if \<not> is_good stream then ret None
      else ebind (remove_path_of sd myClientIdFile) (\<lambda>_.
        ret (Some (of_nat (extract_value 32 (text_of (fst (Data_LoadFromStream stream)))))))))"

definition LocalStateMetadata_generate ::
  "'r services \<Rightarrow> 'e disk \<Rightarrow> nat \<Rightarrow> disk_path \<Rightarrow> data \<Rightarrow> ('r \<times> 'e, local_state) exec" where
  "LocalStateMetadata_generate V sd fuel metadataFilePath encryptionKey =
     ebind (zoom_fst (generateClientId V fuel)) (\<lambda>generated.
     ebind (zoom_snd (tryLoadClientIdFromLegacyFile sd metadataFilePath)) (\<lambda>legacy.
     ebind (zoom_fst (generateSalt V)) (\<lambda>salt.
     let s = \<lparr>ls_myClientId = (case legacy of None \<Rightarrow> generated | Some c \<Rightarrow> c), encryptionKeyHash = hash V encryptionKey salt\<rparr> in
     ebind (zoom_snd (LocalStateMetadata_save V sd metadataFilePath s)) (\<lambda>_. ret s))))"

definition LocalStateMetadata_loadOrGenerate ::
  "'r services \<Rightarrow> 'e disk \<Rightarrow> nat \<Rightarrow> disk_path \<Rightarrow> data \<Rightarrow> bool \<Rightarrow> ('r \<times> 'e, local_state) exec" where
  "LocalStateMetadata_loadOrGenerate V sd fuel statePath encryptionKey allowReplacedFilesystem =
     (let metadataFile = statePath @ [''metadata''] in
      ebind (zoom_snd (LocalStateMetadata_load V sd metadataFile)) (\<lambda>loaded.
      case loaded of
        None \<Rightarrow> LocalStateMetadata_generate V sd fuel metadataFile encryptionKey
      | Some s \<Rightarrow>
          if \<not> allowReplacedFilesystem \<and>
            digest (encryptionKeyHash s) \<noteq> digest (hash V encryptionKey (hash_salt (encryptionKeyHash s)))
          then throw (CryfsException ErrorCode_EncryptionKeyChanged)
          else ret s))"

section \<open>BasedirMetadata\<close>

text \<open>\<open>normal\<close> stands for \<open>absolute(basedir).lexically_normal().string()\<close>.\<close>

record basedir_metadata =
  bm_filename :: disk_path
  bm_data :: ptree

definition BasedirMetadata_load :: "'r services \<Rightarrow> 'e disk \<Rightarrow> ('e, basedir_metadata) exec" where
  "BasedirMetadata_load V sd =
     ebind (LocalStateDir_forBasedirMetadata sd) (\<lambda>filename.
     ebind (open_in_of sd filename) (\<lambda>stream.
     if \<not> is_good stream then ret \<lparr>bm_filename = filename, bm_data = []\<rparr>
     else ebind (lift_result (read_json (sv_json V) (fst (Data_LoadFromStream stream)))) (\<lambda>pt.
       ret \<lparr>bm_filename = filename, bm_data = pt\<rparr>)))"

definition BasedirMetadata_save :: "'r services \<Rightarrow> 'e disk \<Rightarrow> basedir_metadata \<Rightarrow> ('e, unit) exec" where
  "BasedirMetadata_save V sd m = save_json sd (bm_filename m) (write_json (sv_json V) (bm_data m))"

definition jsonPathForBasedir :: "string \<Rightarrow> string" where
  "jsonPathForBasedir normal = normal @ ''.filesystemId''"

definition BasedirMetadata_filesystemIdForBasedirIsCorrect :: "string \<Rightarrow> data \<Rightarrow> basedir_metadata \<Rightarrow> bool result" where
  "BasedirMetadata_filesystemIdForBasedirIsCorrect normal filesystemId m =
     (case map_of (bm_data m) (jsonPathForBasedir normal) of
        None \<Rightarrow> Inr True
      | Some entry \<Rightarrow> rbind (FixedSizeData_FromString 16 entry) (\<lambda>fromState. Inr (fromState = filesystemId)))"

definition BasedirMetadata_updateFilesystemIdForBasedir :: "string \<Rightarrow> data \<Rightarrow> basedir_metadata \<Rightarrow> basedir_metadata result" where
  "BasedirMetadata_updateFilesystemIdForBasedir normal filesystemId m =
     rbind (FixedSizeData_ToString 16 filesystemId) (\<lambda>name.
     Inr (m\<lparr>bm_data := ptree_put (jsonPathForBasedir normal) name (bm_data m)\<rparr>))"

section \<open>Reading back\<close>

definition services_ok :: "'r services \<Rightarrow> bool" where
  "services_ok V \<longleftrightarrow> json_laws (sv_json V) \<and> (\<forall>d. length (sv_sha512 V d) = 64)"

lemma printable_hex [simp]: "printable (HexEncoder d)"
proof -
  have "\<forall>c\<in>set ALLOWED_BLOCKID_CHARACTERS. 32 \<le> char_code c \<and> char_code c < 127" by (simp add: ALLOWED_BLOCKID_CHARACTERS_def)
  then show ?thesis using HexEncoder_allowed [of d] unfolding printable_def list_all_iff by blast
qed

lemma local_state_roundtrip:
  assumes "services_ok V" and "length (hash_salt (encryptionKeyHash s)) = 8" and "length (digest (encryptionKeyHash s)) = 64"
  shows "\<exists>d. LocalStateMetadata_serialize V s = Inr d \<and> LocalStateMetadata_deserialize V d = Inr s"
proof -
  let ?pt = "ptree_put ''encryptionKey.hash'' (HexEncoder (digest (encryptionKeyHash s)))
    (ptree_put ''encryptionKey.salt'' (HexEncoder (hash_salt (encryptionKeyHash s)))
      (ptree_put ''myClientId'' (show_nat (unat (ls_myClientId s))) []))"
  have "printable_tree ?pt" by (intro printable_put printable_hex printable_show_nat printable_Nil) (simp_all add: printable_def fst_ptree_put below_def)
  then obtain d pt where pt: "write_json (sv_json V) ?pt = Inr d" "read_json (sv_json V) d = Inr pt" "map_of pt = map_of ?pt"
    using json_laws.read_written assms(1) unfolding services_ok_def by blast
  have "unat (ls_myClientId s) < 2 ^ 32" using unsigned_less [of "ls_myClientId s"] by simp
  note n = get_show_nat [OF this]
  have "LocalStateMetadata_serialize V s = Inr d"
    using assms pt(1) by (simp add: LocalStateMetadata_serialize_def)
  moreover have "LocalStateMetadata_deserialize V d = Inr s"
    using pt(2,3) assms n by (simp add: LocalStateMetadata_deserialize_def ptree_get_uint_def ptree_get_def FixedSizeData_roundtrip)
  ultimately show ?thesis by blast
qed

context disk_laws
begin

lemma open_regular:
  assumes "dinv d" and "tree d p = Some (Regular c)"
  obtains e where "open_in_of dk p d = (Inr \<lparr>is_bytes = c, is_pos = 0, is_limit = length c, is_good = True\<rparr>, e)"
    and "dinv e" and "tree e = tree d" and "room e = room d"
  using open_in [OF assms(1), of p] assms(2) by (auto elim!: yieldsE)

lemma open_missing:
  assumes "dinv d" and "tree d p = None"
  obtains stream e where "open_in_of dk p d = (Inr stream, e)" and "\<not> is_good stream"
    and "dinv e" and "tree e = tree d" and "room e = room d"
  using open_in [OF assms(1), of p] assms(2) by (auto elim!: yieldsE)

lemma save_json_ok:
  assumes "dinv d" and "tree d p = Some Folder" and "tree d (p @ [name]) \<noteq> Some Folder" and "fits c" and "room d (Suc 0)"
  shows "yields (save_json dk (p @ [name]) (Inr c)) d ()
    (\<lambda>e. dinv e \<and> tree e = (tree d)(p @ [name] \<mapsto> Regular c) \<and> (\<forall>n. room d (Suc n) \<longrightarrow> room e n))"
  unfolding save_json_def
proof (rule yields_ebind [OF open_out [OF assms(1-3,5)]], elim conjE)
  fix e assume e: "dinv e" "tree e = (tree d)(p @ [name] \<mapsto> Regular [])" "\<forall>n. room d n \<longrightarrow> room e n"
  have w: "yields (put_of dk (p @ [name]) c) e True
      (\<lambda>f. dinv f \<and> tree f = (tree e)(p @ [name] \<mapsto> Regular c) \<and> (\<forall>n. room e (Suc n) \<longrightarrow> room f n))"
    using e assms by (intro put) auto
  show "yields (ebind (lift_result (Inr c)) (\<lambda>d. if \<not> True then throw (RuntimeError ''write error'')
      else ebind (put_of dk (p @ [name]) d) (\<lambda>good. if good then ret () else throw (RuntimeError ''write error'')))) e ()
      (\<lambda>e. dinv e \<and> tree e = (tree d)(p @ [name] \<mapsto> Regular c) \<and> (\<forall>n. room d (Suc n) \<longrightarrow> room e n))"
    using e by (auto intro!: yields_ebind [OF w])
qed

end

text \<open>Loading the state that a file holds.\<close>

lemma load_saved_state:
  assumes "disk_laws sd dinv tree fits room" and "dinv e" and "tree e p = Some (Regular d)" and "LocalStateMetadata_deserialize V d = Inr s"
  obtains e' where "LocalStateMetadata_load V sd p e = (Inr (Some s), e')" and "dinv e'" and "tree e' = tree e"
proof -
  obtain e' where "open_in_of sd p e = (Inr \<lparr>is_bytes = d, is_pos = 0, is_limit = length d, is_good = True\<rparr>, e')" "dinv e'" "tree e' = tree e"
    using disk_laws.open_regular [OF assms(1), OF assms(2,3)] by blast
  then show thesis using that assms(4) by (simp add: LocalStateMetadata_load_def ebind_def Data_LoadFromStream_all)
qed

lemma generate_state:
  assumes "disk_laws sd dinv tree (\<lambda>c. True) (\<lambda>d n. True)" and "services_ok V" and "dinv e" and "tree e p = Some Folder"
    and "tree e (p @ [''metadata'']) = None" and "tree e (p @ [''myClientId'']) = None"
    and "generateClientId V fuel r = (Inr c, r1)" and "sv_random V 8 r1 = (Inr salt, r2)" and "length salt = 8"
    and "s = \<lparr>ls_myClientId = c, encryptionKeyHash = hash V K salt\<rparr>"
  shows "\<exists>e' d. LocalStateMetadata_loadOrGenerate V sd fuel p K allow (r, e) = (Inr s, (r2, e')) \<and> dinv e' \<and>
    tree e' = (tree e)(p @ [''metadata''] \<mapsto> Regular d) \<and> LocalStateMetadata_deserialize V d = Inr s"
proof -
  obtain d where d: "LocalStateMetadata_serialize V s = Inr d" "LocalStateMetadata_deserialize V d = Inr s"
    using local_state_roundtrip [OF assms(2), of s] assms(2,9,10) by (auto simp: hash_def services_ok_def)
  obtain st e1 where e1: "open_in_of sd (p @ [''metadata'']) e = (Inr st, e1)" "\<not> is_good st" "dinv e1" "tree e1 = tree e"
    using disk_laws.open_missing [OF assms(1), OF assms(3,5)] by blast
  obtain st2 e2 where e2: "open_in_of sd (p @ [''myClientId'']) e1 = (Inr st2, e2)" "\<not> is_good st2" "dinv e2" "tree e2 = tree e"
    using disk_laws.open_missing [OF assms(1), OF e1(3), of "p @ [''myClientId'']"] assms(6) e1(4) by auto
  have f: "tree e2 p = Some Folder" "tree e2 (p @ [''metadata'']) \<noteq> Some Folder" using assms(4,5) e2(4) by auto
  obtain e3 where e3: "save_json sd (p @ [''metadata'']) (Inr d) e2 = (Inr (), e3)" "dinv e3" "tree e3 = (tree e)(p @ [''metadata''] \<mapsto> Regular d)"
    using disk_laws.save_json_ok [OF assms(1), OF e2(3) f, of d] e2(4) by (auto elim!: yieldsE)
  have "LocalStateMetadata_loadOrGenerate V sd fuel p K allow (r, e) = (Inr s, (r2, e3))"
    using e1(1,2) e2(1,2) e3(1) d(1) assms(7,8,10)
    by (simp add: LocalStateMetadata_loadOrGenerate_def LocalStateMetadata_load_def LocalStateMetadata_generate_def LocalStateMetadata_save_def
        tryLoadClientIdFromLegacyFile_def generateSalt_def ebind_def zoom_fst_def zoom_snd_def Let_def)
  with e3(2,3) d(2) show ?thesis by blast
qed

section \<open>Properties\<close>

text \<open>
  C13. A replaced file system is recognised: after the first opening, which remembers a fresh client identifier and the hash of the key,
  every later opening gets the same state exactly if its key has the remembered hash, and otherwise
  fails with \<open>EncryptionKeyChanged\<close>.
\<close>

theorem replaced_key_detected:
  assumes "disk_laws sd dinv tree (\<lambda>c. True) (\<lambda>d n. True)" and "services_ok V" and "dinv e" and "tree e p = Some Folder"
    and "tree e (p @ [''metadata'']) = None" and "tree e (p @ [''myClientId'']) = None"
    and "generateClientId V fuel r = (Inr c, r1)" and "sv_random V 8 r1 = (Inr salt, r2)" and "length salt = 8"
  shows "\<exists>s e'. LocalStateMetadata_loadOrGenerate V sd fuel p K allow (r, e) = (Inr s, (r2, e')) \<and> ls_myClientId s = c \<and>
    (\<forall>K' r' fuel'. fst (LocalStateMetadata_loadOrGenerate V sd fuel' p K' False (r', e')) =
      (if sv_sha512 V (salt @ K') = sv_sha512 V (salt @ K) then Inr s else Inl (CryfsException ErrorCode_EncryptionKeyChanged)))"
proof -
  define s where "s = \<lparr>ls_myClientId = c, encryptionKeyHash = hash V K salt\<rparr>"
  obtain e' d where g: "LocalStateMetadata_loadOrGenerate V sd fuel p K allow (r, e) = (Inr s, (r2, e'))" "dinv e'"
      "tree e' = (tree e)(p @ [''metadata''] \<mapsto> Regular d)" "LocalStateMetadata_deserialize V d = Inr s"
    using generate_state [OF assms(1), OF assms(2-9) s_def, of allow] by blast
  then obtain e2 where l: "LocalStateMetadata_load V sd (p @ [''metadata'']) e' = (Inr (Some s), e2)"
    using load_saved_state [OF assms(1), OF g(2), of "p @ [''metadata'']" d V s] by auto
  have "fst (LocalStateMetadata_loadOrGenerate V sd fuel' p K' False (r', e')) =
      (if sv_sha512 V (salt @ K') = sv_sha512 V (salt @ K) then Inr s else Inl (CryfsException ErrorCode_EncryptionKeyChanged))" for K' r' fuel'
    using l by (auto simp: LocalStateMetadata_loadOrGenerate_def ebind_def zoom_snd_def s_def hash_def Let_def)
  then show ?thesis using g(1) s_def by auto
qed

text \<open>Services for examples: a generator that counts its calls, a hash that keeps the first 64 bytes.\<close>

definition test_services :: "nat services" where
  "test_services = \<lparr>sv_json = marked_json, sv_random = (\<lambda>n r. (Inr (replicate n (of_nat (Suc r))), Suc r)), sv_sha512 = (\<lambda>d. take 64 (d @ zeroes 64))\<rparr>"

lemma test_services_ok [simp]: "services_ok test_services"
proof -
  have "length (take 64 (d @ zeroes 64)) = 64" for d by (simp del: take_append)
  then show ?thesis using marked_json.json_laws_axioms by (simp add: services_ok_def test_services_def del: take_append length_take)
qed

lemma test_random: "sv_random test_services n r = (Inr (replicate n (of_nat (Suc r))), Suc r)"
  by (simp add: test_services_def)

lemma replaced_key_detected_witness:
  "\<exists>s e. LocalStateMetadata_loadOrGenerate test_services (memory_disk 0) 1 [] [7, 8] False (0, []) = (Inr s, (2, e)) \<and>
    fst (LocalStateMetadata_loadOrGenerate test_services (memory_disk 0) 1 [] [7, 8] False (5, e)) = Inr s \<and>
    fst (LocalStateMetadata_loadOrGenerate test_services (memory_disk 0) 1 [] [7, 9] False (5, e)) =
      Inl (CryfsException ErrorCode_EncryptionKeyChanged)"
proof -
  have "serialize (0x01010101 :: u32) = [1, 1, 1, 1]" by (simp add: serialize_def upt_rec)
  moreover have "replicate 4 (1 :: byte) = [1, 1, 1, 1]" by (simp add: numeral_eq_Suc)
  ultimately have d: "deserialize (replicate 4 (1 :: byte)) = Inr (0x01010101 :: u32)"
    using deserialize_serialize [of "0x01010101 :: u32" "[]"] by simp
  have g: "generateClientId test_services 1 0 = (Inr 0x01010101, 1)"
    using d by (simp add: ebind_def test_random CLIENT_ID_FOR_DELETED_BLOCK_def)
  have h: "sv_sha512 test_services (replicate 8 2 @ [7, 9]) \<noteq> sv_sha512 test_services (replicate 8 2 @ [7, 8])"
    by (simp add: test_services_def)
  have "file_tree_inv []" "file_at [] [] = Some Folder" "file_at [] ([] @ [''metadata'']) = None" "file_at [] ([] @ [''myClientId'']) = None"
    by (simp_all add: file_tree_inv_def file_at_def)
  then obtain s e where "LocalStateMetadata_loadOrGenerate test_services (memory_disk 0) 1 [] [7, 8] False (0, []) = (Inr s, (2, e))"
    "\<forall>K' r' fuel'. fst (LocalStateMetadata_loadOrGenerate test_services (memory_disk 0) fuel' [] K' False (r', e)) =
      (if sv_sha512 test_services (replicate 8 2 @ K') = sv_sha512 test_services (replicate 8 2 @ [7, 8]) then Inr s
       else Inl (CryfsException ErrorCode_EncryptionKeyChanged))"
    using replaced_key_detected [OF memory_disk.disk_laws_axioms [of 0], where V = test_services and e = "[]" and p = "[]"
        and fuel = 1 and r = 0 and c = "0x01010101" and ?r1.0 = 1 and salt = "replicate 8 2" and ?r2.0 = 2 and K = "[7, 8]" and allow = False]
      g test_random [of 8 1] by auto
  then show ?thesis using h by auto
qed

text \<open>A client identifier for deleted blocks is never generated, but a legacy file without a number gives it.\<close>

lemma generated_client_id: "generateClientId V fuel r = (Inr c, r') \<Longrightarrow> c \<noteq> CLIENT_ID_FOR_DELETED_BLOCK"
  by (induction fuel arbitrary: r) (auto simp: ebind_def split: prod.splits sum.splits if_splits)

theorem legacy_file_without_number:
  assumes "disk_laws sd dinv tree fits room" and "dinv e" and "tree e (p @ [''myClientId'']) = Some (Regular c)"
    and "extract_value 32 (text_of c) = 0"
  shows "fst (tryLoadClientIdFromLegacyFile sd (p @ [''metadata'']) e) = Inr (Some CLIENT_ID_FOR_DELETED_BLOCK)"
proof -
  let ?f = "p @ [''myClientId'']"
  obtain e1 where e1: "open_in_of sd ?f e = (Inr \<lparr>is_bytes = c, is_pos = 0, is_limit = length c, is_good = True\<rparr>, e1)" "dinv e1" "tree e1 = tree e"
    using disk_laws.open_regular [OF assms(1), OF assms(2,3)] by blast
  have "\<forall>name. tree e1 (?f @ [name]) = None"
    using disk_laws.parents(2) [OF assms(1), OF e1(2), of ?f] assms(3) e1(3) by fastforce
  then obtain e2 where e2: "remove_path_of sd ?f e1 = (Inr True, e2)"
    using disk_laws.remove_path [OF assms(1), OF e1(2), of ?f] assms(3) e1(3) by (auto elim!: yieldsE)
  show ?thesis
    using e1(1) e2 assms(4)
    by (simp add: Data_LoadFromStream_all tryLoadClientIdFromLegacyFile_def ebind_def CLIENT_ID_FOR_DELETED_BLOCK_def Let_def)
qed

end
