(* ===== verification/Configs.thy ===== *)
theory Configs
  imports LocalState
begin

text \<open>
  \<open>src/src/cryfs/impl/config\<close>: the configuration of a file system, its encrypted file, how it is created for a new
  file system, and how it is loaded with the checks on versions, cipher and client.

  The state of the file operations is that of the random generators with the disk of the base directory; the loader also has the disk
  of the local state. Paths of configuration files are relative to the base directory.
\<close>

section \<open>Parameters\<close>

text \<open>
  The services of the local state, the ciphers by name, the random padding, the content of fresh memory,
  the generator for keys, and the version that the build puts into \<open>gitversion::VersionString()\<close>.
\<close>

record 'r config_services =
  cs_services :: "'r services"
  cs_cipher :: "string \<Rightarrow> ('r, data) cipher"
  cs_pad :: "nat \<Rightarrow> data"
  cs_alloc :: "nat \<Rightarrow> data"
  cs_keyGenerator :: "nat \<Rightarrow> ('r, data) exec"
  VersionString :: string

section \<open>CryConfig\<close>

record cry_config =
  RootBlob :: string
  EncryptionKey :: string
  Cipher :: string
  Version :: string
  CreatedWithVersion :: string
  LastOpenedWithVersion :: string
  BlocksizeBytes :: u64
  FilesystemId :: data
  ExclusiveClientId :: "u32 option"
  HasVersionNumbers :: bool
  HasParentPointers :: bool

definition CryConfig_FilesystemFormatVersion :: string where
  "CryConfig_FilesystemFormatVersion = ''0.10''"

definition CryConfig_new :: cry_config where
  "CryConfig_new = \<lparr>RootBlob = [], EncryptionKey = [], Cipher = [], Version = [], CreatedWithVersion = [], LastOpenedWithVersion = [],
     BlocksizeBytes = 0, FilesystemId = zeroes 16, ExclusiveClientId = None, HasVersionNumbers = True, HasParentPointers = True\<rparr>"

definition CryConfig_load :: "'r services \<Rightarrow> data \<Rightarrow> ('r, cry_config) exec" where
  "CryConfig_load V d =
     ebind (lift_result (read_json (sv_json V) d)) (\<lambda>pt.
     ebind (lift_result (ptree_get ''cryfs.rootblob'' pt)) (\<lambda>rootBlob.
     ebind (lift_result (ptree_get ''cryfs.key'' pt)) (\<lambda>encKey.
     ebind (lift_result (ptree_get ''cryfs.cipher'' pt)) (\<lambda>name.
     let version = ptree_default ''cryfs.version'' ''0.8'' pt;
         created = ptree_default ''cryfs.createdWithVersion'' version pt;
         lastOpened = ptree_default ''cryfs.lastOpenedWithVersion'' version pt;
         blocksize = (case ptree_optional (get_uint 64) ''cryfs.blocksizeBytes'' pt of None \<Rightarrow> 32832 | Some n \<Rightarrow> n);
         exclusiveClientId = map_option of_nat (ptree_optional (get_uint 32) ''cryfs.exclusiveClientId'' pt);
         versionNumbers = (case ptree_optional get_bool ''cryfs.migrations.hasVersionNumbers'' pt of None \<Rightarrow> False | Some b \<Rightarrow> b);
         parentPointers = (case ptree_optional get_bool ''cryfs.migrations.hasParentPointers'' pt of None \<Rightarrow> False | Some b \<Rightarrow> b) in
     ebind (case map_of pt ''cryfs.filesystemId'' of
         None \<Rightarrow> sv_random V 16
       | Some s \<Rightarrow> lift_result (FixedSizeData_FromString 16 s)) (\<lambda>filesystemId.
     ret \<lparr>RootBlob = rootBlob, EncryptionKey = encKey, Cipher = name, Version = version, CreatedWithVersion = created,
       LastOpenedWithVersion = lastOpened, BlocksizeBytes = of_nat blocksize, FilesystemId = filesystemId,
       ExclusiveClientId = exclusiveClientId, HasVersionNumbers = versionNumbers, HasParentPointers = parentPointers\<rparr>)))))"

definition CryConfig_tree :: "cry_config \<Rightarrow> string \<Rightarrow> ptree" where
  "CryConfig_tree c filesystemId =
     (let pt = ptree_put ''cryfs.rootblob'' (RootBlob c) [];
          pt = ptree_put ''cryfs.key'' (EncryptionKey c) pt;
          pt = ptree_put ''cryfs.cipher'' (Cipher c) pt;
          pt = ptree_put ''cryfs.version'' (Version c) pt;
          pt = ptree_put ''cryfs.createdWithVersion'' (CreatedWithVersion c) pt;
          pt = ptree_put ''cryfs.lastOpenedWithVersion'' (LastOpenedWithVersion c) pt;
          pt = ptree_put ''cryfs.blocksizeBytes'' (show_nat (unat (BlocksizeBytes c))) pt;
          pt = ptree_put ''cryfs.filesystemId'' filesystemId pt;
          pt = (case ExclusiveClientId c of None \<Rightarrow> pt | Some i \<Rightarrow> ptree_put ''cryfs.exclusiveClientId'' (show_nat (unat i)) pt);
          pt = ptree_put ''cryfs.migrations.hasVersionNumbers'' (put_bool (HasVersionNumbers c)) pt
      in ptree_put ''cryfs.migrations.hasParentPointers'' (put_bool (HasParentPointers c)) pt)"

definition CryConfig_save :: "'r services \<Rightarrow> cry_config \<Rightarrow> data result" where
  "CryConfig_save V c =
     rbind (FixedSizeData_ToString 16 (FilesystemId c)) (\<lambda>filesystemId. write_json (sv_json V) (CryConfig_tree c filesystemId))"

definition CryConfig_missingBlockIsIntegrityViolation :: "cry_config \<Rightarrow> bool" where
  "CryConfig_missingBlockIsIntegrityViolation c \<longleftrightarrow> ExclusiveClientId c \<noteq> None"

section \<open>CryConfigFile\<close>

datatype Access = ReadOnly | ReadWrite

datatype LoadError = ConfigFileNotFound | DecryptionFailed

record cry_config_file =
  cf_path :: disk_path
  cf_config :: cry_config
  cf_encryptor :: config_encryptor
  cf_access :: Access

definition CryConfigFile_save :: "'r config_services \<Rightarrow> 'f disk \<Rightarrow> cry_config_file \<Rightarrow> ('r \<times> 'f, unit) exec" where
  "CryConfigFile_save C dk cf =
     (if cf_access cf = ReadOnly then throw (LogicError ''Tried to save the cryfs.config file while being in read only mode'')
      else ebind (lift_result (CryConfig_save (cs_services C) (cf_config cf))) (\<lambda>configData.
        ebind (zoom_fst (CryConfigEncryptor_encrypt (cs_cipher C) (cs_pad C) (cf_encryptor cf) configData (Cipher (cf_config cf)))) (\<lambda>encrypted.
        zoom_snd (Data_StoreToFile dk encrypted (cf_path cf)))))"

definition CryConfigFile_load ::
  "'r config_services \<Rightarrow> 'f disk \<Rightarrow> disk_path \<Rightarrow> 'r key_provider \<Rightarrow> Access \<Rightarrow> ('r \<times> 'f, LoadError + cry_config_file) exec" where
  "CryConfigFile_load C dk path keyProvider access =
     ebind (zoom_snd (Data_LoadFromFile dk path)) (\<lambda>encryptedConfigData.
     case encryptedConfigData of None \<Rightarrow> ret (Inl ConfigFileNotFound) | Some encryptedConfigData \<Rightarrow>
     ebind (zoom_fst (CryConfigEncryptorFactory_loadExistingKey keyProvider encryptedConfigData)) (\<lambda>encryptor.
     case encryptor of None \<Rightarrow> ret (Inl DecryptionFailed) | Some encryptor \<Rightarrow>
     ebind (lift_result (CryConfigEncryptor_decrypt (cs_cipher C) encryptor encryptedConfigData)) (\<lambda>decrypted.
     case decrypted of None \<Rightarrow> ret (Inl DecryptionFailed) | Some decrypted \<Rightarrow>
     ebind (zoom_fst (CryConfig_load (cs_services C) (dc_data decrypted))) (\<lambda>config.
     if Cipher config \<noteq> dc_cipherName decrypted then ret (Inl DecryptionFailed)
     else let configFile = \<lparr>cf_path = path, cf_config = config, cf_encryptor = encryptor, cf_access = access\<rparr> in
       ebind (if dc_wasInDeprecatedConfigFormat decrypted \<and> access = ReadWrite then CryConfigFile_save C dk configFile else ret ()) (\<lambda>_.
       ret (Inr configFile))))))"

definition CryConfigFile_create ::
  "'r config_services \<Rightarrow> 'f disk \<Rightarrow> disk_path \<Rightarrow> cry_config \<Rightarrow> 'r key_provider \<Rightarrow> ('r \<times> 'f, cry_config_file) exec" where
  "CryConfigFile_create C dk path config keyProvider =
     ebind (zoom_snd (exists_of dk path)) (\<lambda>ex.
     if ex then throw (RuntimeError ''Config file exists already.'')
     else ebind (zoom_fst (CryConfigEncryptorFactory_deriveNewKey keyProvider)) (\<lambda>encryptor.
       let result = \<lparr>cf_path = path, cf_config = config, cf_encryptor = encryptor, cf_access = ReadWrite\<rparr> in
       ebind (CryConfigFile_save C dk result) (\<lambda>_. ret result)))"

section \<open>CryConfigConsole\<close>

definition CryConfigConsole_DEFAULT_CIPHER :: string where
  "CryConfigConsole_DEFAULT_CIPHER = ''xchacha20-poly1305''"

definition CryConfigConsole_DEFAULT_BLOCKSIZE_BYTES :: u32 where
  "CryConfigConsole_DEFAULT_BLOCKSIZE_BYTES = 16 * 1024"

definition CryConfigConsole_DEFAULT_MISSINGBLOCKISINTEGRITYVIOLATION :: bool where
  "CryConfigConsole_DEFAULT_MISSINGBLOCKISINTEGRITYVIOLATION = False"

definition CryConfigConsole_askCipher :: string where
  "CryConfigConsole_askCipher = CryConfigConsole_DEFAULT_CIPHER"

definition CryConfigConsole_askBlocksizeBytes :: u32 where
  "CryConfigConsole_askBlocksizeBytes = CryConfigConsole_DEFAULT_BLOCKSIZE_BYTES"

definition CryConfigConsole_askMissingBlockIsIntegrityViolation :: bool where
  "CryConfigConsole_askMissingBlockIsIntegrityViolation = CryConfigConsole_DEFAULT_MISSINGBLOCKISINTEGRITYVIOLATION"

section \<open>CryConfigCreator\<close>

definition CryConfigCreator_generateBlocksizeBytes :: "u32 option \<Rightarrow> u32" where
  "CryConfigCreator_generateBlocksizeBytes blocksizeBytesFromCommandLine =
     (case blocksizeBytesFromCommandLine of Some n \<Rightarrow> n | None \<Rightarrow> CryConfigConsole_askBlocksizeBytes)"

definition CryConfigCreator_generateCipher :: "string option \<Rightarrow> string result" where
  "CryConfigCreator_generateCipher cipherFromCommandLine =
     (case cipherFromCommandLine of
        Some name \<Rightarrow> rbind (ASSERT (name \<in> set CryCiphers_supportedCipherNames) ''Invalid cipher'') (\<lambda>_. Inr name)
      | None \<Rightarrow> Inr CryConfigConsole_askCipher)"

definition CryConfigCreator_generateMissingBlockIsIntegrityViolation :: "bool option \<Rightarrow> bool" where
  "CryConfigCreator_generateMissingBlockIsIntegrityViolation fromCommandLine =
     (case fromCommandLine of Some b \<Rightarrow> b | None \<Rightarrow> CryConfigConsole_askMissingBlockIsIntegrityViolation)"

definition CryConfigCreator_generateExclusiveClientId :: "bool option \<Rightarrow> u32 \<Rightarrow> u32 option" where
  "CryConfigCreator_generateExclusiveClientId fromCommandLine clientId =
     (if \<not> CryConfigCreator_generateMissingBlockIsIntegrityViolation fromCommandLine then None else Some clientId)"

definition CryConfigCreator_generateEncKey :: "'r config_services \<Rightarrow> string \<Rightarrow> ('r, string) exec" where
  "CryConfigCreator_generateEncKey C name =
     ebind (lift_result (CryCiphers_find name)) (\<lambda>c. CryCipher_createKey (cs_keyGenerator C) c)"

definition CryConfigCreator_generateRootBlobId :: string where
  "CryConfigCreator_generateRootBlobId = []"

definition CryConfigCreator_generateFilesystemID :: "'r config_services \<Rightarrow> ('r, data) exec" where
  "CryConfigCreator_generateFilesystemID C = sv_random (cs_services C) 16"

definition CryConfigCreator_create ::
  "'r config_services \<Rightarrow> 'e disk \<Rightarrow> nat \<Rightarrow> string option \<Rightarrow> u32 option \<Rightarrow> bool option \<Rightarrow> bool \<Rightarrow> ('r \<times> 'e, cry_config \<times> u32) exec" where
  "CryConfigCreator_create C sd fuel cipherFromCommandLine blocksizeBytesFromCommandLine missingFromCommandLine allowReplacedFilesystem =
     ebind (lift_result (CryConfigCreator_generateCipher cipherFromCommandLine)) (\<lambda>name.
     let config = CryConfig_new\<lparr>Cipher := name, Version := CryConfig_FilesystemFormatVersion, CreatedWithVersion := VersionString C,
       LastOpenedWithVersion := VersionString C,
       BlocksizeBytes := ucast (CryConfigCreator_generateBlocksizeBytes blocksizeBytesFromCommandLine),
       RootBlob := CryConfigCreator_generateRootBlobId\<rparr> in
     ebind (zoom_fst (CryConfigCreator_generateFilesystemID C)) (\<lambda>filesystemId.
     let config = config\<lparr>FilesystemId := filesystemId\<rparr> in
     ebind (zoom_fst (CryConfigCreator_generateEncKey C (Cipher config))) (\<lambda>encryptionKey.
     ebind (zoom_snd (LocalStateDir_forFilesystemId sd (FilesystemId config))) (\<lambda>statePath.
     ebind (lift_result (Data_FromString (cs_alloc C) encryptionKey)) (\<lambda>keyData.
     ebind (LocalStateMetadata_loadOrGenerate (cs_services C) sd fuel statePath keyData allowReplacedFilesystem) (\<lambda>localState.
     let myClientId = ls_myClientId localState in
     ret (config\<lparr>EncryptionKey := encryptionKey,
       ExclusiveClientId := CryConfigCreator_generateExclusiveClientId missingFromCommandLine myClientId,
       HasVersionNumbers := True\<rparr>, myClientId)))))))"

section \<open>CryConfigLoader\<close>

record 'r config_loader =
  keyProvider :: "'r key_provider"
  cipherFromCommandLine :: "string option"
  blocksizeBytesFromCommandLine :: "u32 option"
  missingBlockIsIntegrityViolationFromCommandLine :: "bool option"

record config_load_result =
  oldConfig :: cry_config
  configFile :: cry_config_file
  clr_myClientId :: u32

definition zoom_config :: "('r \<times> 'f, 'a) exec \<Rightarrow> (('r \<times> 'e) \<times> 'f, 'a) exec" where
  "zoom_config m w = (case w of ((r, e), f) \<Rightarrow> case m (r, f) of (x, (r', f')) \<Rightarrow> (x, ((r', e), f')))"

definition CryConfigLoader_checkVersion :: "cry_config \<Rightarrow> bool \<Rightarrow> unit result" where
  "CryConfigLoader_checkVersion config allowFilesystemUpgrade =
     rbind (VersionCompare_isOlderThan (Version config) ''0.9.4'') (\<lambda>tooOld.
     if tooOld then Inl (CryfsException ErrorCode_TooOldFilesystemFormat)
     else rbind (VersionCompare_isOlderThan CryConfig_FilesystemFormatVersion (Version config)) (\<lambda>tooNew.
       if tooNew then Inl (CryfsException ErrorCode_TooNewFilesystemFormat)
       else if allowFilesystemUpgrade then Inr ()
       else rbind (VersionCompare_isOlderThan (Version config) CryConfig_FilesystemFormatVersion) (\<lambda>older.
         if older then Inl (CryfsException ErrorCode_TooOldFilesystemFormat) else Inr ())))"

definition CryConfigLoader_checkCipher :: "'r config_loader \<Rightarrow> cry_config \<Rightarrow> unit result" where
  "CryConfigLoader_checkCipher L config =
     (case cipherFromCommandLine L of
        Some name \<Rightarrow> if Cipher config \<noteq> name then Inl (CryfsException ErrorCode_WrongCipher) else Inr ()
      | None \<Rightarrow> Inr ())"

definition CryConfigLoader_checkMissingBlocksAreIntegrityViolations :: "'r config_loader \<Rightarrow> cry_config \<Rightarrow> u32 \<Rightarrow> unit result" where
  "CryConfigLoader_checkMissingBlocksAreIntegrityViolations L config clientId =
     (if missingBlockIsIntegrityViolationFromCommandLine L = Some True \<and> ExclusiveClientId config = None
      then Inl (CryfsException ErrorCode_FilesystemHasDifferentIntegritySetup)
      else if missingBlockIsIntegrityViolationFromCommandLine L = Some False \<and> ExclusiveClientId config \<noteq> None
      then Inl (CryfsException ErrorCode_FilesystemHasDifferentIntegritySetup)
      else case ExclusiveClientId config of
        Some c \<Rightarrow> if c \<noteq> clientId then Inl (CryfsException ErrorCode_SingleClientFileSystem) else Inr ()
      | None \<Rightarrow> Inr ())"

text \<open>The configuration in memory changes in both modes, the file only when it may be written.\<close>

definition update_config ::
  "'r config_services \<Rightarrow> 'f disk \<Rightarrow> bool \<Rightarrow> (cry_config \<Rightarrow> cry_config) \<Rightarrow> cry_config_file \<Rightarrow> ('r \<times> 'f, cry_config_file) exec" where
  "update_config C dk differs set_value cf =
     (if differs then
        let cf = cf\<lparr>cf_config := set_value (cf_config cf)\<rparr> in
        if cf_access cf = ReadWrite then ebind (CryConfigFile_save C dk cf) (\<lambda>_. ret cf) else ret cf
      else ret cf)"

definition CryConfigLoader_loadConfig ::
  "'r config_services \<Rightarrow> 'f disk \<Rightarrow> 'e disk \<Rightarrow> nat \<Rightarrow> 'r config_loader \<Rightarrow> disk_path \<Rightarrow> bool \<Rightarrow> bool \<Rightarrow> Access \<Rightarrow>
   (('r \<times> 'e) \<times> 'f, LoadError + config_load_result) exec" where
  "CryConfigLoader_loadConfig C dk sd fuel L filename allowFilesystemUpgrade allowReplacedFilesystem access =
     ebind (zoom_config (CryConfigFile_load C dk filename (keyProvider L) access)) (\<lambda>config.
     case config of Inl err \<Rightarrow> ret (Inl err) | Inr cf \<Rightarrow>
     let old = cf_config cf;
         cf = (if Version old = ''0.9.7'' \<or> Version old = ''0.9.8'' then cf\<lparr>cf_config := old\<lparr>Version := ''0.9.6''\<rparr>\<rparr> else cf) in
     ebind (lift_result (CryConfigLoader_checkVersion (cf_config cf) allowFilesystemUpgrade)) (\<lambda>_.
     ebind (zoom_config (update_config C dk (Version (cf_config cf) \<noteq> CryConfig_FilesystemFormatVersion)
       (\<lambda>c. c\<lparr>Version := CryConfig_FilesystemFormatVersion\<rparr>) cf)) (\<lambda>cf.
     ebind (zoom_config (update_config C dk (LastOpenedWithVersion (cf_config cf) \<noteq> VersionString C)
       (\<lambda>c. c\<lparr>LastOpenedWithVersion := VersionString C\<rparr>) cf)) (\<lambda>cf.
     ebind (lift_result (CryConfigLoader_checkCipher L (cf_config cf))) (\<lambda>_.
     ebind (zoom_fst (zoom_snd (LocalStateDir_forFilesystemId sd (FilesystemId (cf_config cf))))) (\<lambda>statePath.
     ebind (lift_result (Data_FromString (cs_alloc C) (EncryptionKey (cf_config cf)))) (\<lambda>keyData.
     ebind (zoom_fst (LocalStateMetadata_loadOrGenerate (cs_services C) sd fuel statePath keyData allowReplacedFilesystem)) (\<lambda>localState.
     let myClientId = ls_myClientId localState in
     ebind (lift_result (CryConfigLoader_checkMissingBlocksAreIntegrityViolations L (cf_config cf) myClientId)) (\<lambda>_.
     ret (Inr \<lparr>oldConfig = old, configFile = cf, clr_myClientId = myClientId\<rparr>))))))))))"

definition CryConfigLoader_load ::
  "'r config_services \<Rightarrow> 'f disk \<Rightarrow> 'e disk \<Rightarrow> nat \<Rightarrow> 'r config_loader \<Rightarrow> disk_path \<Rightarrow> bool \<Rightarrow> bool \<Rightarrow> Access \<Rightarrow>
   (('r \<times> 'e) \<times> 'f, LoadError + config_load_result) exec" where
  "CryConfigLoader_load C dk sd fuel L filename allowFilesystemUpgrade allowReplacedFilesystem access =
     CryConfigLoader_loadConfig C dk sd fuel L filename allowFilesystemUpgrade allowReplacedFilesystem access"

definition CryConfigLoader_createConfig ::
  "'r config_services \<Rightarrow> 'f disk \<Rightarrow> 'e disk \<Rightarrow> nat \<Rightarrow> 'r config_loader \<Rightarrow> disk_path \<Rightarrow> bool \<Rightarrow> (('r \<times> 'e) \<times> 'f, config_load_result) exec" where
  "CryConfigLoader_createConfig C dk sd fuel L filename allowReplacedFilesystem =
     ebind (zoom_fst (CryConfigCreator_create C sd fuel (cipherFromCommandLine L) (blocksizeBytesFromCommandLine L)
       (missingBlockIsIntegrityViolationFromCommandLine L) allowReplacedFilesystem)) (\<lambda>(config, myClientId).
     ebind (zoom_config (CryConfigFile_create C dk filename config (keyProvider L))) (\<lambda>result.
     ret \<lparr>oldConfig = config, configFile = result, clr_myClientId = myClientId\<rparr>))"

definition CryConfigLoader_loadOrCreate ::
  "'r config_services \<Rightarrow> 'f disk \<Rightarrow> 'e disk \<Rightarrow> nat \<Rightarrow> 'r config_loader \<Rightarrow> disk_path \<Rightarrow> bool \<Rightarrow> bool \<Rightarrow>
   (('r \<times> 'e) \<times> 'f, LoadError + config_load_result) exec" where
  "CryConfigLoader_loadOrCreate C dk sd fuel L filename allowFilesystemUpgrade allowReplacedFilesystem =
     ebind (zoom_snd (exists_of dk filename)) (\<lambda>ex.
     if ex then CryConfigLoader_loadConfig C dk sd fuel L filename allowFilesystemUpgrade allowReplacedFilesystem ReadWrite
     else ebind (CryConfigLoader_createConfig C dk sd fuel L filename allowReplacedFilesystem) (\<lambda>x. ret (Inr x)))"

definition CryConfigLoader_changeEncryptionKey ::
  "'r config_services \<Rightarrow> 'f disk \<Rightarrow> 'e disk \<Rightarrow> nat \<Rightarrow> 'r config_loader \<Rightarrow> disk_path \<Rightarrow> bool \<Rightarrow> bool \<Rightarrow> 'r key_provider \<Rightarrow>
   (('r \<times> 'e) \<times> 'f, LoadError option) exec" where
  "CryConfigLoader_changeEncryptionKey C dk sd fuel L filename allowFilesystemUpgrade allowReplacedFilesystem newKeyProvider =
     ebind (CryConfigLoader_loadConfig C dk sd fuel L filename allowFilesystemUpgrade allowReplacedFilesystem ReadWrite) (\<lambda>config.
     case config of Inl err \<Rightarrow> ret (Some err) | Inr loaded \<Rightarrow>
     ebind (zoom_fst (zoom_fst (CryConfigEncryptorFactory_deriveNewKey newKeyProvider))) (\<lambda>encryptor.
     ebind (zoom_config (CryConfigFile_save C dk
       \<lparr>cf_path = filename, cf_config = cf_config (configFile loaded), cf_encryptor = encryptor, cf_access = ReadWrite\<rparr>)) (\<lambda>_.
     ret None)))"

section \<open>The configuration as text\<close>

definition config_ok :: "cry_config \<Rightarrow> bool" where
  "config_ok c \<longleftrightarrow> printable (RootBlob c) \<and> printable (EncryptionKey c) \<and> printable (Cipher c) \<and> printable (Version c) \<and>
     printable (CreatedWithVersion c) \<and> printable (LastOpenedWithVersion c) \<and> length (FilesystemId c) = 16"

lemma printable_keys:
  "printable ''cryfs.rootblob''" "printable ''cryfs.key''" "printable ''cryfs.cipher''" "printable ''cryfs.version''"
  "printable ''cryfs.createdWithVersion''" "printable ''cryfs.lastOpenedWithVersion''" "printable ''cryfs.blocksizeBytes''"
  "printable ''cryfs.filesystemId''" "printable ''cryfs.exclusiveClientId''" "printable ''cryfs.migrations.hasVersionNumbers''"
  "printable ''cryfs.migrations.hasParentPointers''"
  by (simp_all add: printable_def)

lemma printable_config: "config_ok c \<Longrightarrow> printable_tree (CryConfig_tree c (HexEncoder (FilesystemId c)))"
  unfolding CryConfig_tree_def Let_def config_ok_def
  by (cases "ExclusiveClientId c"; simp only: option.case; intro printable_put)
    (simp_all add: printable_keys fst_ptree_put below_def)

lemma map_of_config:
  "map_of (CryConfig_tree c i) = [''cryfs.rootblob'' \<mapsto> RootBlob c, ''cryfs.key'' \<mapsto> EncryptionKey c, ''cryfs.cipher'' \<mapsto> Cipher c,
     ''cryfs.version'' \<mapsto> Version c, ''cryfs.createdWithVersion'' \<mapsto> CreatedWithVersion c,
     ''cryfs.lastOpenedWithVersion'' \<mapsto> LastOpenedWithVersion c, ''cryfs.blocksizeBytes'' \<mapsto> show_nat (unat (BlocksizeBytes c)),
     ''cryfs.filesystemId'' \<mapsto> i, ''cryfs.migrations.hasVersionNumbers'' \<mapsto> put_bool (HasVersionNumbers c),
     ''cryfs.migrations.hasParentPointers'' \<mapsto> put_bool (HasParentPointers c)]
     (''cryfs.exclusiveClientId'' := map_option (\<lambda>i. show_nat (unat i)) (ExclusiveClientId c))"
  by (cases "ExclusiveClientId c") (auto simp: CryConfig_tree_def Let_def fun_eq_iff)

lemma config_roundtrip:
  assumes "services_ok V" and "config_ok c"
  shows "\<exists>d. CryConfig_save V c = Inr d \<and> (\<forall>r. CryConfig_load V d r = (Inr c, r))"
proof -
  obtain d pt where pt: "write_json (sv_json V) (CryConfig_tree c (HexEncoder (FilesystemId c))) = Inr d" "read_json (sv_json V) d = Inr pt"
      "map_of pt = map_of (CryConfig_tree c (HexEncoder (FilesystemId c)))"
    using json_laws.read_written printable_config [OF assms(2)] assms(1) unfolding services_ok_def by blast
  have "unat (BlocksizeBytes c) < 2 ^ 64" using unsigned_less [of "BlocksizeBytes c"] by simp
  note b = get_show_nat [OF this]
  have i: "map_option of_nat (Option.bind (map_option (\<lambda>i. show_nat (unat i)) (ExclusiveClientId c)) (get_uint 32)) = ExclusiveClientId c"
  proof (cases "ExclusiveClientId c")
    case (Some i)
    have "unat i < 2 ^ 32" using unsigned_less [of i] by simp
    then show ?thesis using Some get_show_nat by simp
  qed simp
  have "CryConfig_save V c = Inr d" using pt(1) assms(2) by (simp add: CryConfig_save_def config_ok_def)
  moreover have "CryConfig_load V d r = (Inr c, r)" for r
    using pt(2) assms(2) b i
    by (simp add: CryConfig_load_def ebind_def ptree_get_def ptree_default_def ptree_optional_def pt(3) map_of_config config_ok_def
        FixedSizeData_roundtrip Let_def)
  ultimately show ?thesis by blast
qed

section \<open>The configuration file\<close>

text \<open>The bytes \<open>bs\<close> hold the configuration \<open>c\<close> for the encryptor \<open>E\<close>.\<close>

definition holds_config :: "'r config_services \<Rightarrow> config_encryptor \<Rightarrow> cry_config \<Rightarrow> data \<Rightarrow> bool" where
  "holds_config C E c bs \<longleftrightarrow>
     length (ce_derivedKey E) = MaxTotalKeySize \<and>
     (\<exists>oc. OuterConfig_deserialize bs = Inr (Some oc) \<and> kdfParameters oc = ce_kdfParameters E) \<and>
     (\<exists>d. CryConfigEncryptor_decrypt (cs_cipher C) E bs =
         Inr (Some \<lparr>dc_data = d, dc_cipherName = Cipher c, dc_wasInDeprecatedConfigFormat = False\<rparr>) \<and>
       (\<forall>r. CryConfig_load (cs_services C) d r = (Inr c, r)))"

text \<open>A configuration that the encryptor can store: its text has to fit into the padded size.\<close>

definition storable :: "'r config_services \<Rightarrow> config_encryptor \<Rightarrow> cry_config \<Rightarrow> bool" where
  "storable C E c \<longleftrightarrow> services_ok (cs_services C) \<and> config_ok c \<and>
     (\<exists>k l. config_ciphers_ok (cs_cipher C) (cs_pad C) E (Cipher c) k l) \<and>
     (\<forall>d. CryConfig_save (cs_services C) c = Inr d \<longrightarrow> length d < 896)"

definition key_answers :: "'r key_provider \<Rightarrow> config_encryptor \<Rightarrow> bool" where
  "key_answers kp E \<longleftrightarrow>
     (\<forall>r. \<exists>r'. requestKeyForExistingFilesystem kp MaxTotalKeySize (ce_kdfParameters E) r = (Inr (ce_derivedKey E), r'))"

lemma save_config_bytes:
  assumes "storable C E c"
  obtains d bs r' where "CryConfig_save (cs_services C) c = Inr d"
    and "CryConfigEncryptor_encrypt (cs_cipher C) (cs_pad C) E d (Cipher c) r = (Inr bs, r')" and "holds_config C E c bs"
proof -
  obtain d where d: "CryConfig_save (cs_services C) c = Inr d" "\<forall>r. CryConfig_load (cs_services C) d r = (Inr c, r)" "length d < 896"
    using config_roundtrip assms unfolding storable_def by blast
  obtain k l where "config_ciphers_ok (cs_cipher C) (cs_pad C) E (Cipher c) k l" using assms unfolding storable_def by blast
  moreover from this have "length (ce_derivedKey E) = MaxTotalKeySize" by (simp add: config_ciphers_ok_def)
  ultimately show thesis
    using that [OF d(1)] encryptor_roundtrip [of "cs_cipher C" "cs_pad C" E "Cipher c" k l d r] d(2,3) unfolding holds_config_def by auto
qed

context disk_laws
begin

lemma save_config_file:
  assumes "dinv f" and "tree f p = Some Folder" and "tree f (p @ [name]) \<noteq> Some Folder" and "room f (Suc 0)"
    and "storable C E c" and "\<forall>bs. holds_config C E c bs \<longrightarrow> fits bs"
    and "cf = \<lparr>cf_path = p @ [name], cf_config = c, cf_encryptor = E, cf_access = ReadWrite\<rparr>"
  obtains bs r' f' where "CryConfigFile_save C dk cf (r, f) = (Inr (), (r', f'))" and "holds_config C E c bs"
    and "dinv f'" and "tree f' = (tree f)(p @ [name] \<mapsto> Regular bs)" and "\<forall>n. room f (Suc n) \<longrightarrow> room f' n"
proof -
  obtain d bs r' where b: "CryConfig_save (cs_services C) c = Inr d" "holds_config C E c bs"
      "CryConfigEncryptor_encrypt (cs_cipher C) (cs_pad C) E d (Cipher c) r = (Inr bs, r')"
    using save_config_bytes [OF assms(5), of r] by metis
  then have "fits bs" using assms(6) by blast
  obtain f' where f: "Data_StoreToFile dk bs (p @ [name]) f = (Inr (), f')" "dinv f'" "tree f' = (tree f)(p @ [name] \<mapsto> Regular bs)"
      "\<forall>n. room f (Suc n) \<longrightarrow> room f' n"
    using store_file [OF assms(1-3) \<open>fits bs\<close> assms(4)] by (auto elim!: yieldsE)
  have "CryConfigFile_save C dk cf (r, f) = (Inr (), (r', f'))"
    using b(1,3) f(1) by (simp add: CryConfigFile_save_def assms(7) ebind_def zoom_fst_def zoom_snd_def)
  then show thesis using that b(2) f(2-4) by blast
qed

lemma load_config_file:
  assumes "dinv f" and "tree f path = Some (Regular bs)" and "holds_config C E c bs" and "key_answers kp E"
  obtains r' f' where "CryConfigFile_load C dk path kp access (r, f) =
      (Inr (Inr \<lparr>cf_path = path, cf_config = c, cf_encryptor = E, cf_access = access\<rparr>), (r', f'))"
    and "dinv f'" and "tree f' = tree f" and "room f' = room f"
proof -
  obtain f' where f: "Data_LoadFromFile dk path f = (Inr (Some bs), f')" "dinv f'" "tree f' = tree f" "room f' = room f"
    using load_file [OF assms(1), of path] assms(2) by (auto elim!: yieldsE)
  obtain oc d where b: "OuterConfig_deserialize bs = Inr (Some oc)" "kdfParameters oc = ce_kdfParameters E"
      "CryConfigEncryptor_decrypt (cs_cipher C) E bs =
         Inr (Some \<lparr>dc_data = d, dc_cipherName = Cipher c, dc_wasInDeprecatedConfigFormat = False\<rparr>)"
      "\<forall>r. CryConfig_load (cs_services C) d r = (Inr c, r)" "length (ce_derivedKey E) = MaxTotalKeySize"
    using assms(3) unfolding holds_config_def by blast
  obtain r' where r: "requestKeyForExistingFilesystem kp MaxTotalKeySize (ce_kdfParameters E) r = (Inr (ce_derivedKey E), r')"
    using assms(4) unfolding key_answers_def by blast
  have e: "\<lparr>ce_derivedKey = ce_derivedKey E, ce_kdfParameters = ce_kdfParameters E\<rparr> = E" by simp
  have "CryConfigFile_load C dk path kp access (r, f) =
      (Inr (Inr \<lparr>cf_path = path, cf_config = c, cf_encryptor = E, cf_access = access\<rparr>), (r', f'))"
    using f(1) b r by (simp add: CryConfigFile_load_def CryConfigEncryptorFactory_loadExistingKey_def CryConfigEncryptor_new_def ebind_def
        zoom_fst_def zoom_snd_def Let_def e)
  then show thesis using that f(2-4) by blast
qed

end

section \<open>Properties of the file\<close>

text \<open>Creating the file with the key of a new file system.\<close>

lemma create_config_file:
  assumes "disk_laws dk dinv tree (\<lambda>c. True) (\<lambda>d n. True)" and "dinv f" and "tree f p = Some Folder" and "tree f (p @ [name]) = None"
    and "storable C E c" and "requestKeyForNewFilesystem kp MaxTotalKeySize r = (Inr (ce_derivedKey E, ce_kdfParameters E), r1)"
  obtains bs r2 f2 where "CryConfigFile_create C dk (p @ [name]) c kp (r, f) =
      (Inr \<lparr>cf_path = p @ [name], cf_config = c, cf_encryptor = E, cf_access = ReadWrite\<rparr>, (r2, f2))"
    and "holds_config C E c bs" and "dinv f2" and "tree f2 = (tree f)(p @ [name] \<mapsto> Regular bs)"
proof -
  define cf where "cf = \<lparr>cf_path = p @ [name], cf_config = c, cf_encryptor = E, cf_access = ReadWrite\<rparr>"
  obtain f1 where f1: "exists_of dk (p @ [name]) f = (Inr False, f1)" "dinv f1" "tree f1 = tree f"
    using disk_laws.exists_law [OF assms(1), OF assms(2), of "p @ [name]"] assms(4) by (auto elim!: yieldsE)
  have l: "length (ce_derivedKey E) = MaxTotalKeySize" using assms(5) by (auto simp: storable_def config_ciphers_ok_def)
  have t: "tree f1 p = Some Folder" "tree f1 (p @ [name]) \<noteq> Some Folder" using assms(3,4) f1(3) by simp_all
  obtain bs r2 f2 where s: "CryConfigFile_save C dk cf (r1, f1) = (Inr (), (r2, f2))" "holds_config C E c bs" "dinv f2"
      "tree f2 = (tree f1)(p @ [name] \<mapsto> Regular bs)"
    by (rule disk_laws.save_config_file [OF assms(1), OF f1(2) t _ assms(5) _ cf_def, of r1]) simp_all
  have e: "\<lparr>ce_derivedKey = ce_derivedKey E, ce_kdfParameters = ce_kdfParameters E\<rparr> = E" by simp
  have "CryConfigFile_create C dk (p @ [name]) c kp (r, f) = (Inr cf, (r2, f2))"
    using f1(1) s(1) assms(6) l
    by (simp add: CryConfigFile_create_def CryConfigEncryptorFactory_deriveNewKey_def CryConfigEncryptor_new_def ebind_def zoom_fst_def
        zoom_snd_def Let_def cf_def e)
  then show thesis using that s(2-4) f1(3) unfolding cf_def by auto
qed

text \<open>
  C16. A configuration file is read back: after \<open>create\<close>, loading the file with the same key provider gives the configuration that was
  stored, in both access modes and however often, and the file stays as it is.
\<close>

theorem config_file_roundtrip:
  assumes "disk_laws dk dinv tree (\<lambda>c. True) (\<lambda>d n. True)" and "dinv f" and "tree f p = Some Folder" and "tree f (p @ [name]) = None"
    and "storable C E c" and "requestKeyForNewFilesystem kp MaxTotalKeySize r = (Inr (ce_derivedKey E, ce_kdfParameters E), r1)"
    and "key_answers kp E"
  shows "\<exists>cf r2 f2. CryConfigFile_create C dk (p @ [name]) c kp (r, f) = (Inr cf, (r2, f2)) \<and> cf_config cf = c \<and>
    (\<forall>access r'. \<exists>r3 f3. CryConfigFile_load C dk (p @ [name]) kp access (r', f2) = (Inr (Inr (cf\<lparr>cf_access := access\<rparr>)), (r3, f3)) \<and>
      tree f3 = tree f2)"
proof -
  let ?cf = "\<lparr>cf_path = p @ [name], cf_config = c, cf_encryptor = E, cf_access = ReadWrite\<rparr>"
  obtain bs r2 f2 where s: "CryConfigFile_create C dk (p @ [name]) c kp (r, f) = (Inr ?cf, (r2, f2))" "holds_config C E c bs" "dinv f2"
      "tree f2 = (tree f)(p @ [name] \<mapsto> Regular bs)"
    by (rule create_config_file [OF assms(1), OF assms(2-6)])
  have "\<exists>r3 f3. CryConfigFile_load C dk (p @ [name]) kp access (r', f2) = (Inr (Inr (?cf\<lparr>cf_access := access\<rparr>)), (r3, f3)) \<and>
      tree f3 = tree f2" for access r'
  proof -
    have "tree f2 (p @ [name]) = Some (Regular bs)" using s(4) by simp
    from disk_laws.load_config_file [OF assms(1), OF s(3) this s(2) assms(7), of access r'] show ?thesis
      by (metis cry_config_file.update_convs(4))
  qed
  moreover have "cf_config ?cf = c" by simp
  ultimately show ?thesis using s(1) by blast
qed

text \<open>Operations that leave the files as they are, whether they succeed or not.\<close>

definition keeps :: "('f \<Rightarrow> bool) \<Rightarrow> ('f \<Rightarrow> 't) \<Rightarrow> 't \<Rightarrow> ('a \<times> 'f, 'b) exec \<Rightarrow> bool" where
  "keeps dinv tree T m \<longleftrightarrow> (\<forall>w. dinv (snd w) \<and> tree (snd w) = T \<longrightarrow> dinv (snd (snd (m w))) \<and> tree (snd (snd (m w))) = T)"

lemma keeps_ebind: "keeps dinv tree T m \<Longrightarrow> (\<And>x w w'. m w = (Inr x, w') \<Longrightarrow> keeps dinv tree T (g x)) \<Longrightarrow> keeps dinv tree T (ebind m g)"
  unfolding keeps_def ebind_def by (simp split: prod.splits sum.splits) (metis prod.collapse snd_conv)

lemma keeps_simple [simp]:
  "keeps dinv tree T (ret x)" "keeps dinv tree T (throw e)" "keeps dinv tree T (lift_result y)" "keeps dinv tree T (zoom_fst m)"
  by (auto simp: keeps_def zoom_fst_def lift_result_def ret_def throw_def split: prod.splits sum.splits)

lemma keeps_zoom_config:
  fixes dinv :: "'f \<Rightarrow> bool" and m :: "('r \<times> 'f, 'b) exec"
  assumes m: "keeps dinv tree T m"
  shows "keeps dinv tree T (zoom_config m :: (('r \<times> 'e) \<times> 'f, 'b) exec)"
proof (unfold keeps_def, intro allI impI)
  fix w :: "('r \<times> 'e) \<times> 'f"
  assume w: "dinv (snd w) \<and> tree (snd w) = T"
  obtain r e f where "w = ((r, e), f)" by (metis prod.collapse)
  moreover obtain x r' f' where "m (r, f) = (x, (r', f'))" by (metis prod.collapse)
  ultimately show "dinv (snd (snd (zoom_config m w))) \<and> tree (snd (snd (zoom_config m w))) = T"
    using m [unfolded keeps_def, rule_format, of "(r, f)"] w by (simp add: zoom_config_def)
qed

context disk_laws
begin

lemma keeps_load_file: "T p \<noteq> Some Folder \<Longrightarrow> keeps dinv tree T (zoom_snd (Data_LoadFromFile dk p))"
  unfolding keeps_def zoom_snd_def using load_file by (fastforce simp: yields_def)

lemma keeps_load_config_file:
  assumes "T p \<noteq> Some Folder"
  shows "keeps dinv tree T (CryConfigFile_load C dk p kp ReadOnly)"
  unfolding CryConfigFile_load_def
proof (rule keeps_ebind)
  show "keeps dinv tree T (zoom_snd (Data_LoadFromFile dk p))" by (rule keeps_load_file) (rule assms)
qed (auto intro!: keeps_ebind simp: Let_def split: option.splits)

lemma keeps_update_config: "cf_access cf = ReadOnly \<Longrightarrow> keeps dinv tree T (update_config C dk differs g cf)"
  by (simp add: update_config_def Let_def)

end

lemma load_access: "CryConfigFile_load C dk p kp access w = (Inr (Inr cf), w') \<Longrightarrow> cf_access cf = access"
  by (auto simp: CryConfigFile_load_def ebind_def Let_def ret_def split: prod.splits sum.splits option.splits if_splits)

lemma update_access: "update_config C dk differs g cf w = (Inr cf', w') \<Longrightarrow> cf_access cf' = cf_access cf"
  by (auto simp: update_config_def ebind_def Let_def ret_def split: prod.splits sum.splits if_splits)

lemma zoom_config_Inr: "zoom_config m w = (Inr x, w') \<Longrightarrow> \<exists>v v'. m v = (Inr x, v')"
  by (auto simp: zoom_config_def split: prod.splits)

lemma keeps_then:
  "(\<And>x. keeps dinv tree T (g x)) \<Longrightarrow> keeps dinv tree T (ebind (lift_result y) g)"
  "(\<And>x. keeps dinv tree T (h x)) \<Longrightarrow> keeps dinv tree T (ebind (zoom_fst m) h)"
  by (auto intro: keeps_ebind)

lemma keeps_update_then:
  assumes "disk_laws dk dinv tree fits room" and "cf_access cf = ReadOnly" and "\<And>cf'. cf_access cf' = ReadOnly \<Longrightarrow> keeps dinv tree T (g cf')"
  shows "keeps dinv tree T (ebind (zoom_config (update_config C dk b h cf)) g)"
proof (rule keeps_ebind [OF keeps_zoom_config [OF disk_laws.keeps_update_config [OF assms(1), OF assms(2)]]])
  fix cf' w w' assume "zoom_config (update_config C dk b h cf) w = (Inr cf', w')"
  then have "cf_access cf' = ReadOnly" using zoom_config_Inr update_access assms(2) by metis
  then show "keeps dinv tree T (g cf')" by (rule assms(3))
qed

lemma keeps_load_then:
  assumes "disk_laws dk dinv tree fits room" and "T p \<noteq> Some Folder" and "\<And>err. keeps dinv tree T (g (Inl err))"
    and "\<And>cf. cf_access cf = ReadOnly \<Longrightarrow> keeps dinv tree T (g (Inr cf))"
  shows "keeps dinv tree T (ebind (zoom_config (CryConfigFile_load C dk p kp ReadOnly)) g)"
proof (rule keeps_ebind)
  show "keeps dinv tree T (zoom_config (CryConfigFile_load C dk p kp ReadOnly))"
    by (rule keeps_zoom_config, rule disk_laws.keeps_load_config_file [OF assms(1)]) (rule assms(2))
  fix x w w' assume "zoom_config (CryConfigFile_load C dk p kp ReadOnly) w = (Inr x, w')"
  then obtain v v' where v: "CryConfigFile_load C dk p kp ReadOnly v = (Inr x, v')" using zoom_config_Inr by metis
  show "keeps dinv tree T (g x)"
  proof (cases x)
    case (Inr cf)
    then have "cf_access cf = ReadOnly" using v load_access by metis
    then show ?thesis unfolding Inr by (rule assms(4))
  qed (simp add: assms(3))
qed

text \<open>
  C18. Opening for reading writes nothing: with \<open>Access::ReadOnly\<close> the loader leaves every file of the base directory as it is, whatever
  the configuration file contains and whether loading succeeds or fails.
\<close>

theorem read_only_load_keeps_files:
  assumes "disk_laws dk dinv tree fits room" and "dinv f" and "tree f path \<noteq> Some Folder"
    and "CryConfigLoader_load C dk sd fuel L path allowUpgrade allowReplaced ReadOnly ((r, e), f) = (x, ((r', e'), f'))"
  shows "tree f' = tree f"
proof -
  have "keeps dinv tree (tree f) (CryConfigLoader_loadConfig C dk sd fuel L path allowUpgrade allowReplaced ReadOnly)"
    unfolding CryConfigLoader_loadConfig_def
  proof (rule keeps_load_then [OF assms(1)])
    show "tree f path \<noteq> Some Folder" by (rule assms(3))
  qed (auto simp: Let_def intro!: keeps_then keeps_update_then [OF assms(1)])
  then show ?thesis using assms(2,4) unfolding keeps_def CryConfigLoader_load_def by (metis snd_conv)
qed

section \<open>The version check\<close>

lemma format_keys: "version_key ''0.9.4'' = Inr (0, 9, 4, (1, []), 0)" "version_key ''0.10'' = Inr (0, 10, 0, (1, []), 0)"
  by (simp_all add: version_parts)

text \<open>
  C17. Which file systems are opened: those whose format is at least 0.9.4 and at most 0.10, and of these the ones older than
  0.10 only if the upgrade is allowed. Formats that are too old or too new are refused with an error of their own.
\<close>

theorem version_gate:
  assumes "version_key (Version config) = Inr k"
  shows "CryConfigLoader_checkVersion config allowUpgrade =
    (if k < (0, 9, 4, (1, []), 0) then Inl (CryfsException ErrorCode_TooOldFilesystemFormat)
     else if (0, 10, 0, (1, []), 0) < k then Inl (CryfsException ErrorCode_TooNewFilesystemFormat)
     else if k < (0, 10, 0, (1, []), 0) \<and> \<not> allowUpgrade then Inl (CryfsException ErrorCode_TooOldFilesystemFormat)
     else Inr ())"
  unfolding CryConfigLoader_checkVersion_def CryConfig_FilesystemFormatVersion_def
  using version_order [OF assms format_keys(1)] version_order [OF assms format_keys(2)] version_order [OF format_keys(2) assms] by simp

lemma checkVersion_current: "Version c = CryConfig_FilesystemFormatVersion \<Longrightarrow> CryConfigLoader_checkVersion c b = Inr ()"
  unfolding CryConfigLoader_checkVersion_def CryConfig_FilesystemFormatVersion_def
  using version_order [OF format_keys(2) format_keys(1)] version_order [OF format_keys(2) format_keys(2)] by simp

section \<open>Directories of the local state\<close>

context disk_laws
begin

lemma createDir_ok:
  assumes "dinv d" and "tree d p = Some Folder" and "tree d (p @ [name]) \<in> {None, Some Folder}" and "room d (Suc 0)"
  shows "yields (LocalStateDir_createDirIfNotExists dk (p @ [name])) d ()
    (\<lambda>e. dinv e \<and> tree e = (tree d)(p @ [name] \<mapsto> Folder) \<and> (\<forall>n. room d n \<longrightarrow> room e n))"
  unfolding LocalStateDir_createDirIfNotExists_def
proof (rule yields_ebind [OF exists_law [OF assms(1)]], elim conjE)
  fix e assume e: "dinv e" "tree e = tree d" "room e = room d"
  show "yields (if \<not> tree d (p @ [name]) \<noteq> None then ebind (create_directory_of dk (p @ [name])) (\<lambda>_. ret ()) else ret ()) e ()
      (\<lambda>e. dinv e \<and> tree e = (tree d)(p @ [name] \<mapsto> Folder) \<and> (\<forall>n. room d n \<longrightarrow> room e n))"
  proof (cases "tree d (p @ [name])")
    case None
    have "yields (create_directory_of dk (p @ [name])) e True
        (\<lambda>f. dinv f \<and> tree f = (tree e)(p @ [name] \<mapsto> Folder) \<and> (\<forall>n. room e n \<longrightarrow> room f n))"
      using create_directory [OF e(1), of p name] assms e None by simp
    then show ?thesis using None e by (auto intro!: yields_ebind)
  next
    case (Some x)
    then have "(tree d)(p @ [name] \<mapsto> Folder) = tree d" using assms(3) by (auto simp: fun_eq_iff)
    then show ?thesis using Some e by simp
  qed
qed

lemma createDir_root: "dinv d \<Longrightarrow> yields (LocalStateDir_createDirIfNotExists dk []) d () (\<lambda>e. dinv e \<and> tree e = tree d \<and> room e = room d)"
  unfolding LocalStateDir_createDirIfNotExists_def by (rule yields_ebind [OF exists_law]) (auto simp: parents)

lemma forFilesystemId_ok:
  assumes "dinv d" and "length i = 16" and "tree d [''filesystems''] \<in> {None, Some Folder}"
    and "tree d [''filesystems'', HexEncoder i] \<in> {None, Some Folder}" and "room d (Suc 0)"
  obtains e where "LocalStateDir_forFilesystemId dk i d = (Inr [''filesystems'', HexEncoder i], e)" and "dinv e"
    and "tree e = (tree d)([''filesystems''] \<mapsto> Folder, [''filesystems'', HexEncoder i] \<mapsto> Folder)"
    and "\<forall>n. room d n \<longrightarrow> room e n"
proof -
  obtain d1 where d1: "LocalStateDir_createDirIfNotExists dk [] d = (Inr (), d1)" "dinv d1" "tree d1 = tree d" "room d1 = room d"
    using createDir_root [OF assms(1)] by (auto elim!: yieldsE)
  obtain d2 where d2: "LocalStateDir_createDirIfNotExists dk [''filesystems''] d1 = (Inr (), d2)" "dinv d2"
      "tree d2 = (tree d)([''filesystems''] \<mapsto> Folder)" "\<forall>n. room d n \<longrightarrow> room d2 n"
    using createDir_ok [OF d1(2), of "[]" "''filesystems''"] d1 assms(3,5) parents(1) [OF assms(1)] by (auto elim!: yieldsE)
  obtain d3 where d3: "LocalStateDir_createDirIfNotExists dk [''filesystems'', HexEncoder i] d2 = (Inr (), d3)" "dinv d3"
      "tree d3 = (tree d2)([''filesystems'', HexEncoder i] \<mapsto> Folder)" "\<forall>n. room d2 n \<longrightarrow> room d3 n"
    using createDir_ok [OF d2(2), of "[''filesystems'']" "HexEncoder i"] d2 assms(4,5) by (auto elim!: yieldsE)
  have "LocalStateDir_forFilesystemId dk i d = (Inr [''filesystems'', HexEncoder i], d3)"
    using d1(1) d2(1) d3(1) assms(2) by (simp add: LocalStateDir_forFilesystemId_def ebind_def)
  then show thesis using that d2(3,4) d3 by auto
qed

end

section \<open>Opening a file system again\<close>

text \<open>The local state that is known for the file system with configuration \<open>c\<close>.\<close>

definition knows_filesystem :: "'r config_services \<Rightarrow> (disk_path \<rightharpoonup> disk_node) \<Rightarrow> cry_config \<Rightarrow> u32 \<Rightarrow> bool" where
  "knows_filesystem C T c clientId \<longleftrightarrow>
     T [''filesystems''] = Some Folder \<and> T [''filesystems'', HexEncoder (FilesystemId c)] = Some Folder \<and>
     (\<exists>sb s K. T [''filesystems'', HexEncoder (FilesystemId c), ''metadata''] = Some (Regular sb) \<and>
       LocalStateMetadata_deserialize (cs_services C) sb = Inr s \<and> ls_myClientId s = clientId \<and>
       Data_FromString (cs_alloc C) (EncryptionKey c) = Inr K \<and>
       digest (hash (cs_services C) K (hash_salt (encryptionKeyHash s))) = digest (encryptionKeyHash s))"

definition config_current :: "'r config_services \<Rightarrow> 'r config_loader \<Rightarrow> cry_config \<Rightarrow> u32 \<Rightarrow> bool" where
  "config_current C L c clientId \<longleftrightarrow> Version c = CryConfig_FilesystemFormatVersion \<and> LastOpenedWithVersion c = VersionString C \<and>
     length (FilesystemId c) = 16 \<and> CryConfigLoader_checkCipher L c = Inr () \<and>
     CryConfigLoader_checkMissingBlocksAreIntegrityViolations L c clientId = Inr ()"

lemma load_known_state:
  assumes "disk_laws sd einv etree (\<lambda>c. True) (\<lambda>d n. True)" and "einv e" and "length (FilesystemId c) = 16"
    and "knows_filesystem C (etree e) c clientId"
  obtains K e1 s e2 where "LocalStateDir_forFilesystemId sd (FilesystemId c) e = (Inr [''filesystems'', HexEncoder (FilesystemId c)], e1)"
    and "Data_FromString (cs_alloc C) (EncryptionKey c) = Inr K" and "einv e2" and "etree e2 = etree e"
    and "\<forall>r. LocalStateMetadata_loadOrGenerate (cs_services C) sd fuel [''filesystems'', HexEncoder (FilesystemId c)] K allow (r, e1) = (Inr s, (r, e2))"
    and "ls_myClientId s = clientId"
proof -
  let ?p = "[''filesystems'', HexEncoder (FilesystemId c)]"
  obtain sb s K where k: "etree e [''filesystems''] = Some Folder" "etree e ?p = Some Folder" "etree e (?p @ [''metadata'']) = Some (Regular sb)"
      "LocalStateMetadata_deserialize (cs_services C) sb = Inr s" "ls_myClientId s = clientId"
      "Data_FromString (cs_alloc C) (EncryptionKey c) = Inr K"
      "digest (hash (cs_services C) K (hash_salt (encryptionKeyHash s))) = digest (encryptionKeyHash s)"
    using assms(4) unfolding knows_filesystem_def by auto
  obtain e1 where e1: "LocalStateDir_forFilesystemId sd (FilesystemId c) e = (Inr ?p, e1)" "einv e1"
      "etree e1 = (etree e)([''filesystems''] \<mapsto> Folder, ?p \<mapsto> Folder)"
    by (rule disk_laws.forFilesystemId_ok [OF assms(1), OF assms(2,3)]) (simp_all add: k)
  have t: "etree e1 = etree e" using e1(3) k(1,2) by (auto simp: fun_eq_iff)
  then have m: "etree e1 (?p @ [''metadata'']) = Some (Regular sb)" using k(3) by simp
  obtain e2 where e2: "LocalStateMetadata_load (cs_services C) sd (?p @ [''metadata'']) e1 = (Inr (Some s), e2)" "einv e2" "etree e2 = etree e1"
    using load_saved_state [OF assms(1), OF e1(2) m k(4)] by blast
  have "LocalStateMetadata_loadOrGenerate (cs_services C) sd fuel ?p K allow (r, e1) = (Inr s, (r, e2))" for r
    using e2(1) k(7) by (simp add: LocalStateMetadata_loadOrGenerate_def ebind_def zoom_snd_def Let_def)
  then show thesis using that e1(1) k(5,6) e2(2,3) t by metis
qed

lemma load_known_config:
  assumes "disk_laws dk dinv tree fits room" and "disk_laws sd einv etree (\<lambda>c. True) (\<lambda>d n. True)"
    and "dinv f" and "tree f path = Some (Regular bs)" and "holds_config C E c bs" and "key_answers (keyProvider L) E"
    and "config_current C L c clientId" and "einv e" and "knows_filesystem C (etree e) c clientId"
  obtains r' e' f' where "CryConfigLoader_loadConfig C dk sd fuel L path allowUpgrade allowReplaced access ((r, e), f) =
      (Inr (Inr \<lparr>oldConfig = c, configFile = \<lparr>cf_path = path, cf_config = c, cf_encryptor = E, cf_access = access\<rparr>, clr_myClientId = clientId\<rparr>),
       ((r', e'), f'))"
    and "dinv f'" and "tree f' = tree f" and "room f' = room f" and "einv e'" and "etree e' = etree e"
proof -
  let ?cf = "\<lparr>cf_path = path, cf_config = c, cf_encryptor = E, cf_access = access\<rparr>"
  obtain r1 f1 where f1: "CryConfigFile_load C dk path (keyProvider L) access (r, f) = (Inr (Inr ?cf), (r1, f1))"
      "dinv f1" "tree f1 = tree f" "room f1 = room f"
    by (rule disk_laws.load_config_file [OF assms(1), OF assms(3-6)])
  have c: "Version c = CryConfig_FilesystemFormatVersion" "LastOpenedWithVersion c = VersionString C" "length (FilesystemId c) = 16"
      "CryConfigLoader_checkCipher L c = Inr ()" "CryConfigLoader_checkMissingBlocksAreIntegrityViolations L c clientId = Inr ()"
    using assms(7) by (simp_all add: config_current_def)
  have v: "Version c \<noteq> ''0.9.7''" "Version c \<noteq> ''0.9.8''" using c(1) by (simp_all add: CryConfig_FilesystemFormatVersion_def)
  obtain K e1 s e2 where l: "LocalStateDir_forFilesystemId sd (FilesystemId c) e = (Inr [''filesystems'', HexEncoder (FilesystemId c)], e1)"
      "Data_FromString (cs_alloc C) (EncryptionKey c) = Inr K" "einv e2" "etree e2 = etree e"
      "\<forall>r. LocalStateMetadata_loadOrGenerate (cs_services C) sd fuel [''filesystems'', HexEncoder (FilesystemId c)] K allowReplaced (r, e1) = (Inr s, (r, e2))"
      "ls_myClientId s = clientId"
    by (rule load_known_state [OF assms(2), OF assms(8) c(3) assms(9), of fuel allowReplaced])
  have "CryConfigLoader_loadConfig C dk sd fuel L path allowUpgrade allowReplaced access ((r, e), f) =
      (Inr (Inr \<lparr>oldConfig = c, configFile = ?cf, clr_myClientId = clientId\<rparr>), ((r1, e2), f1))"
    using f1(1) v c l checkVersion_current [OF c(1), of allowUpgrade]
    by (simp add: CryConfigLoader_loadConfig_def zoom_config_def update_config_def ebind_def zoom_fst_def zoom_snd_def Let_def)
  then show thesis using that f1(2-4) l(3,4) by blast
qed

text \<open>
  What the generators give for a new file system: identifier, key, client identifier and salt, and the key of the configuration file. The
  configuration is then \<open>c\<close>, with the encryptor \<open>E\<close>.
\<close>

definition draws :: "'r config_services \<Rightarrow> 'r config_loader \<Rightarrow> nat \<Rightarrow> 'r \<Rightarrow> cry_config \<Rightarrow> data \<Rightarrow> u32 \<Rightarrow> data \<Rightarrow> config_encryptor \<Rightarrow> bool" where
  "draws C L fuel r c key clientId salt E \<longleftrightarrow>
     (\<exists>name ci i r1 r2 r3 r4 r5.
       CryConfigCreator_generateCipher (cipherFromCommandLine L) = Inr name \<and> CryCiphers_find name = Inr ci \<and>
       sv_random (cs_services C) 16 r = (Inr i, r1) \<and> length i = 16 \<and>
       cs_keyGenerator C (KEYSIZE ci) r1 = (Inr key, r2) \<and> length key = KEYSIZE ci \<and>
       generateClientId (cs_services C) fuel r2 = (Inr clientId, r3) \<and>
       sv_random (cs_services C) 8 r3 = (Inr salt, r4) \<and> length salt = 8 \<and>
       requestKeyForNewFilesystem (keyProvider L) MaxTotalKeySize r4 = (Inr (ce_derivedKey E, ce_kdfParameters E), r5) \<and>
       c = \<lparr>RootBlob = [], EncryptionKey = HexEncoder key, Cipher = name, Version = CryConfig_FilesystemFormatVersion,
         CreatedWithVersion = VersionString C, LastOpenedWithVersion = VersionString C,
         BlocksizeBytes = ucast (CryConfigCreator_generateBlocksizeBytes (blocksizeBytesFromCommandLine L)), FilesystemId = i,
         ExclusiveClientId = CryConfigCreator_generateExclusiveClientId (missingBlockIsIntegrityViolationFromCommandLine L) clientId,
         HasVersionNumbers = True, HasParentPointers = True\<rparr>)"

lemma key_string:
  assumes "\<forall>n. length (alloc n) = n" and "length key < 2 ^ 63"
  shows "EncryptionKey_ToString key = Inr (HexEncoder key)" and "Data_FromString alloc (HexEncoder key) = Inr key"
  using assms by (simp_all add: EncryptionKey_ToString_def Data_ToString_def Data_FromString_def Data_new_def write_at_def)

lemma draws_current:
  assumes "draws C L fuel r c key clientId salt E"
  shows "config_current C L c clientId"
proof -
  obtain name where "CryConfigCreator_generateCipher (cipherFromCommandLine L) = Inr name" "Cipher c = name"
    using assms unfolding draws_def by auto
  then have "CryConfigLoader_checkCipher L c = Inr ()"
    by (auto simp: CryConfigCreator_generateCipher_def CryConfigLoader_checkCipher_def ASSERT_def split: option.splits if_splits)
  moreover have "ExclusiveClientId c = CryConfigCreator_generateExclusiveClientId (missingBlockIsIntegrityViolationFromCommandLine L) clientId"
    using assms unfolding draws_def by auto
  then have "CryConfigLoader_checkMissingBlocksAreIntegrityViolations L c clientId = Inr ()"
    by (auto simp: CryConfigLoader_checkMissingBlocksAreIntegrityViolations_def CryConfigCreator_generateExclusiveClientId_def
        CryConfigCreator_generateMissingBlockIsIntegrityViolation_def split: option.splits)
  ultimately show ?thesis using assms unfolding config_current_def draws_def by auto
qed

lemma create_config_ok:
  assumes "disk_laws sd einv etree (\<lambda>c. True) (\<lambda>d n. True)" and "services_ok (cs_services C)" and "\<forall>n. length (cs_alloc C n) = n"
    and "einv e" and "etree e [''filesystems''] \<in> {None, Some Folder}" and "etree e [''filesystems'', HexEncoder (FilesystemId c)] = None"
    and "draws C L fuel r c key clientId salt E"
  obtains r4 e' r5 where "CryConfigCreator_create C sd fuel (cipherFromCommandLine L) (blocksizeBytesFromCommandLine L)
      (missingBlockIsIntegrityViolationFromCommandLine L) allow (r, e) = (Inr (c, clientId), (r4, e'))"
    and "einv e'" and "knows_filesystem C (etree e') c clientId"
    and "requestKeyForNewFilesystem (keyProvider L) MaxTotalKeySize r4 = (Inr (ce_derivedKey E, ce_kdfParameters E), r5)"
proof -
  obtain name ci i r1 r2 r3 r4 r5 where d: "CryConfigCreator_generateCipher (cipherFromCommandLine L) = Inr name" "CryCiphers_find name = Inr ci"
      "sv_random (cs_services C) 16 r = (Inr i, r1)" "length i = 16" "cs_keyGenerator C (KEYSIZE ci) r1 = (Inr key, r2)" "length key = KEYSIZE ci"
      "generateClientId (cs_services C) fuel r2 = (Inr clientId, r3)" "sv_random (cs_services C) 8 r3 = (Inr salt, r4)" "length salt = 8"
    and k: "requestKeyForNewFilesystem (keyProvider L) MaxTotalKeySize r4 = (Inr (ce_derivedKey E, ce_kdfParameters E), r5)"
    and c: "c = \<lparr>RootBlob = [], EncryptionKey = HexEncoder key, Cipher = name, Version = CryConfig_FilesystemFormatVersion,
         CreatedWithVersion = VersionString C, LastOpenedWithVersion = VersionString C,
         BlocksizeBytes = ucast (CryConfigCreator_generateBlocksizeBytes (blocksizeBytesFromCommandLine L)), FilesystemId = i,
         ExclusiveClientId = CryConfigCreator_generateExclusiveClientId (missingBlockIsIntegrityViolationFromCommandLine L) clientId,
         HasVersionNumbers = True, HasParentPointers = True\<rparr>"
    using assms(7) unfolding draws_def by blast
  let ?p = "[''filesystems'', HexEncoder i]"
  have key: "length key < 2 ^ 63" using d(6) supported_cipher(2) [OF d(2)] by simp
  note ks = key_string [OF assms(3) key]
  have n: "etree e ?p = None" using assms(6) c by simp
  obtain e1 where e1: "LocalStateDir_forFilesystemId sd i e = (Inr ?p, e1)" "einv e1"
      "etree e1 = (etree e)([''filesystems''] \<mapsto> Folder, ?p \<mapsto> Folder)"
    by (rule disk_laws.forFilesystemId_ok [OF assms(1), OF assms(4) d(4) assms(5)]) (simp_all add: n)
  have below: "etree e (?p @ [x]) = None" for x
    using disk_laws.parents(2) [OF assms(1), OF assms(4), of ?p x] n by (cases "etree e (?p @ [x])") auto
  define s where "s = \<lparr>ls_myClientId = clientId, encryptionKeyHash = hash (cs_services C) key salt\<rparr>"
  have p: "etree e1 ?p = Some Folder" "etree e1 (?p @ [''metadata'']) = None" "etree e1 (?p @ [''myClientId'']) = None"
    using e1(3) below [of "''metadata''"] below [of "''myClientId''"] by simp_all
  obtain e2 sb where g: "LocalStateMetadata_loadOrGenerate (cs_services C) sd fuel ?p key allow (r2, e1) = (Inr s, (r4, e2))" "einv e2"
      "etree e2 = (etree e1)(?p @ [''metadata''] \<mapsto> Regular sb)" "LocalStateMetadata_deserialize (cs_services C) sb = Inr s"
    using generate_state [OF assms(1), OF assms(2) e1(2) p d(7,8,9) s_def, of allow] by blast
  have "CryConfigCreator_create C sd fuel (cipherFromCommandLine L) (blocksizeBytesFromCommandLine L)
      (missingBlockIsIntegrityViolationFromCommandLine L) allow (r, e) = (Inr (c, clientId), (r4, e2))"
    using d e1(1) g(1) ks
    by (simp add: CryConfigCreator_create_def CryConfigCreator_generateFilesystemID_def CryConfigCreator_generateEncKey_def CryCipher_createKey_def
        EncryptionKey_CreateKey_def CryConfigCreator_generateRootBlobId_def CryConfig_new_def ebind_def zoom_fst_def zoom_snd_def Let_def c s_def)
  moreover have "knows_filesystem C (etree e2) c clientId"
    unfolding knows_filesystem_def using e1(3) g(3,4) ks(2) by (auto simp: c s_def hash_def)
  ultimately show thesis using that g(2) k by blast
qed

text \<open>
  C11. A new file system opens again: when there is no configuration file, \<open>loadOrCreate\<close> creates one with the values that
  the generators gave, and every later \<open>loadOrCreate\<close> with the same credentials and options returns the same configuration and the same
  client identifier.
\<close>

theorem created_filesystem_opens:
  assumes "disk_laws dk dinv tree (\<lambda>c. True) (\<lambda>d n. True)" and "disk_laws sd einv etree (\<lambda>c. True) (\<lambda>d n. True)"
    and "dinv f" and "tree f p = Some Folder" and "tree f (p @ [name]) = None"
    and "einv e" and "etree e [''filesystems''] \<in> {None, Some Folder}" and "etree e [''filesystems'', HexEncoder (FilesystemId c)] = None"
    and "draws C L fuel r c key clientId salt E" and "storable C E c" and "key_answers (keyProvider L) E" and "\<forall>n. length (cs_alloc C n) = n"
    and "result = \<lparr>oldConfig = c, configFile = \<lparr>cf_path = p @ [name], cf_config = c, cf_encryptor = E, cf_access = ReadWrite\<rparr>, clr_myClientId = clientId\<rparr>"
  shows "\<exists>r' e' f'. CryConfigLoader_loadOrCreate C dk sd fuel L (p @ [name]) allowUpgrade allowReplaced ((r, e), f) = (Inr (Inr result), ((r', e'), f')) \<and>
    (\<forall>r2 fuel' allowUpgrade' allowReplaced'.
      fst (CryConfigLoader_loadOrCreate C dk sd fuel' L (p @ [name]) allowUpgrade' allowReplaced' ((r2, e'), f')) = Inr (Inr result))"
proof -
  let ?path = "p @ [name]"
  obtain f1 where f1: "exists_of dk ?path f = (Inr False, f1)" "dinv f1" "tree f1 = tree f"
    using disk_laws.exists_law [OF assms(1), OF assms(3), of ?path] assms(5) by (auto elim!: yieldsE)
  have sv: "services_ok (cs_services C)" using assms(10) by (simp add: storable_def)
  obtain r4 e' r5 where cr: "CryConfigCreator_create C sd fuel (cipherFromCommandLine L) (blocksizeBytesFromCommandLine L)
      (missingBlockIsIntegrityViolationFromCommandLine L) allowReplaced (r, e) = (Inr (c, clientId), (r4, e'))"
      "einv e'" "knows_filesystem C (etree e') c clientId"
      "requestKeyForNewFilesystem (keyProvider L) MaxTotalKeySize r4 = (Inr (ce_derivedKey E, ce_kdfParameters E), r5)"
    by (rule create_config_ok [OF assms(2), OF sv assms(12,6-9)])
  have t: "tree f1 p = Some Folder" "tree f1 ?path = None" using assms(4,5) f1(3) by simp_all
  obtain bs r6 f2 where fi: "CryConfigFile_create C dk ?path c (keyProvider L) (r4, f1) =
      (Inr \<lparr>cf_path = ?path, cf_config = c, cf_encryptor = E, cf_access = ReadWrite\<rparr>, (r6, f2))"
      "holds_config C E c bs" "dinv f2" "tree f2 = (tree f1)(?path \<mapsto> Regular bs)"
    by (rule create_config_file [OF assms(1), OF f1(2) t assms(10) cr(4)])
  have "CryConfigLoader_loadOrCreate C dk sd fuel L ?path allowUpgrade allowReplaced ((r, e), f) = (Inr (Inr result), ((r6, e'), f2))"
    using f1(1) cr(1) fi(1)
    by (simp add: CryConfigLoader_loadOrCreate_def CryConfigLoader_createConfig_def zoom_config_def ebind_def zoom_fst_def zoom_snd_def assms(13))
  moreover have "fst (CryConfigLoader_loadOrCreate C dk sd fuel' L ?path allowUpgrade' allowReplaced' ((r2, e'), f2)) = Inr (Inr result)"
    for r2 fuel' allowUpgrade' allowReplaced'
  proof -
    have b: "tree f2 ?path = Some (Regular bs)" using fi(4) by simp
    obtain f3 where f3: "exists_of dk ?path f2 = (Inr True, f3)" "dinv f3" "tree f3 = tree f2"
      using disk_laws.exists_law [OF assms(1), OF fi(3), of ?path] b by (auto elim!: yieldsE)
    have b3: "tree f3 ?path = Some (Regular bs)" using b f3(3) by simp
    show ?thesis
      by (rule load_known_config [OF assms(1), OF assms(2), OF f3(2) b3 fi(2) assms(11) draws_current [OF assms(9)] cr(2,3),
            of fuel' allowUpgrade' allowReplaced' ReadWrite r2])
        (use f3(1) in \<open>simp add: CryConfigLoader_loadOrCreate_def ebind_def zoom_snd_def assms(13)\<close>)
  qed
  ultimately show ?thesis by blast
qed

text \<open>
  C14. Changing the password keeps the file system: after \<open>changeEncryptionKey\<close> on a file system that opens, the file is encrypted with
  the key of the new provider, and opening it with that provider gives the same configuration and the same client identifier.
\<close>

theorem changed_key_opens:
  assumes "disk_laws dk dinv tree (\<lambda>c. True) (\<lambda>d n. True)" and "disk_laws sd einv etree (\<lambda>c. True) (\<lambda>d n. True)"
    and "dinv f" and "tree f p = Some Folder" and "tree f (p @ [name]) = Some (Regular bs)" and "holds_config C E c bs"
    and "key_answers (keyProvider L) E" and "config_current C L c clientId" and "einv e" and "knows_filesystem C (etree e) c clientId"
    and "\<And>r. \<exists>E' r'. requestKeyForNewFilesystem kp MaxTotalKeySize r = (Inr (ce_derivedKey E', ce_kdfParameters E'), r') \<and>
      storable C E' c \<and> key_answers kp E'"
  shows "\<exists>E' r' e' f'. CryConfigLoader_changeEncryptionKey C dk sd fuel L (p @ [name]) allowUpgrade allowReplaced kp ((r, e), f) = (Inr None, ((r', e'), f')) \<and>
    (\<forall>r2 fuel' allowUpgrade' allowReplaced'.
      fst (CryConfigLoader_loadOrCreate C dk sd fuel' (L\<lparr>keyProvider := kp\<rparr>) (p @ [name]) allowUpgrade' allowReplaced' ((r2, e'), f')) =
      Inr (Inr \<lparr>oldConfig = c, configFile = \<lparr>cf_path = p @ [name], cf_config = c, cf_encryptor = E', cf_access = ReadWrite\<rparr>, clr_myClientId = clientId\<rparr>))"
proof -
  let ?path = "p @ [name]" and ?L = "L\<lparr>keyProvider := kp\<rparr>"
  obtain r1 e1 f1 where l: "CryConfigLoader_loadConfig C dk sd fuel L ?path allowUpgrade allowReplaced ReadWrite ((r, e), f) =
      (Inr (Inr \<lparr>oldConfig = c, configFile = \<lparr>cf_path = ?path, cf_config = c, cf_encryptor = E, cf_access = ReadWrite\<rparr>, clr_myClientId = clientId\<rparr>),
       ((r1, e1), f1))" "dinv f1" "tree f1 = tree f" "einv e1" "etree e1 = etree e"
    by (rule load_known_config [OF assms(1), OF assms(2), OF assms(3,5-10), of fuel allowUpgrade allowReplaced ReadWrite r])
  obtain E' r2 where k: "requestKeyForNewFilesystem kp MaxTotalKeySize r1 = (Inr (ce_derivedKey E', ce_kdfParameters E'), r2)"
      "storable C E' c" "key_answers kp E'"
    using assms(11) by blast
  have len: "length (ce_derivedKey E') = MaxTotalKeySize" using k(2) by (auto simp: storable_def config_ciphers_ok_def)
  have t: "tree f1 p = Some Folder" "tree f1 ?path \<noteq> Some Folder" using assms(4,5) l(3) by simp_all
  define cf where "cf = \<lparr>cf_path = ?path, cf_config = c, cf_encryptor = E', cf_access = ReadWrite\<rparr>"
  obtain bs' r3 f2 where s: "CryConfigFile_save C dk cf (r2, f1) = (Inr (), (r3, f2))" "holds_config C E' c bs'" "dinv f2"
      "tree f2 = (tree f1)(?path \<mapsto> Regular bs')"
    by (rule disk_laws.save_config_file [OF assms(1), OF l(2) t _ k(2) _ cf_def, of r2]) simp_all
  have e: "\<lparr>ce_derivedKey = ce_derivedKey E', ce_kdfParameters = ce_kdfParameters E'\<rparr> = E'" by simp
  have "CryConfigLoader_changeEncryptionKey C dk sd fuel L ?path allowUpgrade allowReplaced kp ((r, e), f) = (Inr None, ((r3, e1), f2))"
    using l(1) k(1) s(1) len
    by (simp add: CryConfigLoader_changeEncryptionKey_def CryConfigEncryptorFactory_deriveNewKey_def CryConfigEncryptor_new_def ebind_def
        zoom_fst_def zoom_config_def cf_def e)
  moreover have "fst (CryConfigLoader_loadOrCreate C dk sd fuel' ?L ?path allowUpgrade' allowReplaced' ((r4, e1), f2)) =
      Inr (Inr \<lparr>oldConfig = c, configFile = cf, clr_myClientId = clientId\<rparr>)"
    for r4 fuel' allowUpgrade' allowReplaced'
  proof -
    have b: "tree f2 ?path = Some (Regular bs')" using s(4) by simp
    obtain f3 where f3: "exists_of dk ?path f2 = (Inr True, f3)" "dinv f3" "tree f3 = tree f2"
      using disk_laws.exists_law [OF assms(1), OF s(3), of ?path] b by (auto elim!: yieldsE)
    have b3: "tree f3 ?path = Some (Regular bs')" using b f3(3) by simp
    have ka: "key_answers (keyProvider ?L) E'" using k(3) by simp
    have "CryConfigLoader_checkCipher ?L c = CryConfigLoader_checkCipher L c" by (simp add: CryConfigLoader_checkCipher_def)
    moreover have "CryConfigLoader_checkMissingBlocksAreIntegrityViolations ?L c clientId =
        CryConfigLoader_checkMissingBlocksAreIntegrityViolations L c clientId"
      by (simp add: CryConfigLoader_checkMissingBlocksAreIntegrityViolations_def)
    ultimately have cc: "config_current C ?L c clientId" using assms(8) by (simp add: config_current_def)
    have kf: "knows_filesystem C (etree e1) c clientId" using assms(10) l(5) by simp
    show ?thesis
      by (rule load_known_config [OF assms(1), OF assms(2), OF f3(2) b3 s(2) ka cc l(4) kf, of fuel' allowUpgrade' allowReplaced' ReadWrite r4])
        (use f3(1) in \<open>simp add: CryConfigLoader_loadOrCreate_def ebind_def zoom_snd_def cf_def\<close>)
  qed
  ultimately show ?thesis unfolding cf_def by blast
qed

section \<open>Examples\<close>

definition test_config_services :: "nat config_services" where
  "test_config_services =
     \<lparr>cs_services = test_services,
      cs_cipher = (\<lambda>name. AEADCipher (aead_params.make (case CryCiphers_find name of Inl _ \<Rightarrow> 32 | Inr c \<Rightarrow> KEYSIZE c) 1 1)
        sum_tag check_sum_tag (sv_random test_services)),
      cs_pad = zeroes, cs_alloc = zeroes, cs_keyGenerator = sv_random test_services, VersionString = ''0.11.2''\<rparr>"

definition test_provider :: "string \<Rightarrow> nat key_provider" where
  "test_provider = CryPresetPasswordBasedKeyProvider (\<lambda>n password k. Inr (take n (ascii password @ scrypt_salt k @ zeroes n)))
     (sv_random test_services) \<lparr>SALT_LEN = 4, settings_N = 16, settings_r = 8, settings_p = 1\<rparr>"

definition test_loader :: "nat config_loader" where
  "test_loader = \<lparr>keyProvider = test_provider ''secret'', cipherFromCommandLine = None, blocksizeBytesFromCommandLine = None,
     missingBlockIsIntegrityViolationFromCommandLine = Some True\<rparr>"

definition test_config :: cry_config where
  "test_config = \<lparr>RootBlob = [], EncryptionKey = HexEncoder (replicate 32 2), Cipher = ''xchacha20-poly1305'', Version = ''0.10'',
     CreatedWithVersion = ''0.11.2'', LastOpenedWithVersion = ''0.11.2'', BlocksizeBytes = 16384, FilesystemId = replicate 16 1,
     ExclusiveClientId = Some 0x03030303, HasVersionNumbers = True, HasParentPointers = True\<rparr>"

lemma test_config_services_sel [simp]:
  "cs_services test_config_services = test_services" "cs_alloc test_config_services = zeroes" "cs_pad test_config_services = zeroes"
  "cs_keyGenerator test_config_services = sv_random test_services" "VersionString test_config_services = ''0.11.2''"
  by (simp_all add: test_config_services_def)

lemma find_default: "CryCiphers_find ''xchacha20-poly1305'' = Inr \<lparr>cipherName = ''xchacha20-poly1305'', KEYSIZE = 32, warning = None\<rparr>"
  and find_outer: "CryCiphers_find outer_cipher = Inr \<lparr>cipherName = ''aes-256-gcm'', KEYSIZE = 32, warning = None\<rparr>"
  by (simp_all add: CryCiphers_find_def CryCiphers_SUPPORTED_CIPHERS_def)

lemma test_ciphers:
  "CryCiphers_find name = Inr c \<Longrightarrow> cipher (cs_cipher test_config_services name) (\<lambda>key. length key = KEYSIZE c) 2"
  unfolding test_config_services_def using sum_tag_cipher [of "sv_random test_services" "KEYSIZE c"] by (simp add: test_random)

lemma test_json: "sv_json test_services = marked_json"
  by (simp add: test_services_def)

lemma test_config_ok: "printable root \<Longrightarrow> config_ok (test_config\<lparr>RootBlob := root\<rparr>)"
  by (simp add: config_ok_def test_config_def) (simp add: printable_def)

lemma test_config_size:
  assumes "CryConfig_save test_services (test_config\<lparr>RootBlob := root\<rparr>) = Inr d" and "length root \<le> 32"
  shows "length d < 896"
proof -
  have "length (show_nat 16384) = 5" "length (show_nat 50529027) = 8" by (simp_all add: show_nat.simps)
  then show ?thesis
    using assms by (simp add: CryConfig_save_def test_json marked_json_def test_config_def CryConfig_tree_def ptree_put_def put_bool_def
        Let_def) (auto simp: mark_string_def)
qed

lemma test_storable_root:
  assumes "length (ce_derivedKey E) = MaxTotalKeySize" and "length (ce_kdfParameters E) < 2 ^ 31" and "printable root" and "length root \<le> 32"
  shows "storable test_config_services E (test_config\<lparr>RootBlob := root\<rparr>)"
proof -
  have "config_ciphers_ok (cs_cipher test_config_services) zeroes E (Cipher (test_config\<lparr>RootBlob := root\<rparr>)) 2 2"
    using assms find_default test_ciphers [OF find_default] test_ciphers [OF find_outer] by (simp add: config_ciphers_ok_def test_config_def)
  then show ?thesis using test_config_ok [OF assms(3)] test_config_size assms(4) by (auto simp: storable_def)
qed

lemma test_storable:
  assumes "length (ce_derivedKey E) = MaxTotalKeySize" and "length (ce_kdfParameters E) < 2 ^ 31"
  shows "storable test_config_services E test_config"
proof -
  have "test_config\<lparr>RootBlob := []\<rparr> = test_config" by (simp add: test_config_def)
  then show ?thesis using test_storable_root [OF assms, of "[]"] by (simp add: printable_def)
qed

lemma test_provider_key:
  "\<exists>E r'. requestKeyForNewFilesystem (test_provider password) MaxTotalKeySize r = (Inr (ce_derivedKey E, ce_kdfParameters E), r') \<and>
    storable test_config_services E test_config \<and> key_answers (test_provider password) E"
proof -
  have len: "length (take n (x @ y @ zeroes n)) = n" for n and x y :: data by (simp del: take_append)
  obtain kdf where k: "requestKeyForNewFilesystem (test_provider password) MaxTotalKeySize r =
        (Inr (take MaxTotalKeySize (ascii password @ replicate 4 (of_nat (Suc r)) @ zeroes MaxTotalKeySize), kdf), Suc r)"
      "length kdf = 20" "\<forall>r'. requestKeyForExistingFilesystem (test_provider password) MaxTotalKeySize kdf r' =
        (Inr (take MaxTotalKeySize (ascii password @ replicate 4 (of_nat (Suc r)) @ zeroes MaxTotalKeySize)), r')"
    using password_key_again [of "sv_random test_services" "\<lparr>SALT_LEN = 4, settings_N = 16, settings_r = 8, settings_p = 1\<rparr>" r "replicate 4 (of_nat (Suc r))" "Suc r"
        "\<lambda>n password k. Inr (take n (ascii password @ scrypt_salt k @ zeroes n))" MaxTotalKeySize password _ "test_provider password"]
    by (auto simp: test_random test_provider_def simp del: take_append)
  let ?E = "\<lparr>ce_derivedKey = take MaxTotalKeySize (ascii password @ replicate 4 (of_nat (Suc r)) @ zeroes MaxTotalKeySize), ce_kdfParameters = kdf\<rparr>"
  have "storable test_config_services ?E test_config" using k(2) len by (intro test_storable) simp_all
  moreover have "key_answers (test_provider password) ?E" using k(3) by (simp add: key_answers_def)
  ultimately show ?thesis using k(1) by (intro exI [of _ ?E]) simp
qed

lemma version_gate_witness:
  "CryConfigLoader_checkVersion (test_config\<lparr>Version := ''0.9.6''\<rparr>) True = Inr () \<and>
   CryConfigLoader_checkVersion (test_config\<lparr>Version := ''0.9.6''\<rparr>) False = Inl (CryfsException ErrorCode_TooOldFilesystemFormat)"
proof -
  have "version_key (Version (test_config\<lparr>Version := ''0.9.6''\<rparr>)) = Inr (0, 9, 6, (1, []), 0)" by (simp add: version_parts)
  from version_gate [OF this, of True] version_gate [OF this, of False] show ?thesis by simp
qed

lemma empty_disk: "file_tree_inv []" "file_at [] [] = Some Folder" "p \<noteq> [] \<Longrightarrow> file_at [] p = None"
  by (simp_all add: file_tree_inv_def file_at_def)

lemma config_file_roundtrip_witness:
  "\<exists>cf r f. CryConfigFile_create test_config_services (memory_disk 0) [''cryfs.config''] test_config (test_provider ''secret'') (4, []) = (Inr cf, (r, f)) \<and>
    fst (CryConfigFile_load test_config_services (memory_disk 0) [''cryfs.config''] (test_provider ''secret'') ReadOnly (9, f)) =
      Inr (Inr (cf\<lparr>cf_access := ReadOnly\<rparr>))"
proof -
  obtain E r1 where k: "requestKeyForNewFilesystem (test_provider ''secret'') MaxTotalKeySize 4 = (Inr (ce_derivedKey E, ce_kdfParameters E), r1)"
      "storable test_config_services E test_config" "key_answers (test_provider ''secret'') E"
    using test_provider_key by blast
  from config_file_roundtrip [OF memory_disk.disk_laws_axioms [of 0], where p = "[]" and name = "''cryfs.config''" and f = "[]", OF _ _ _ k(2,1,3)]
  show ?thesis by (simp add: empty_disk) (metis fst_conv)
qed

lemma read_only_load_keeps_files_witness:
  "file_at (snd (snd (CryConfigLoader_load test_config_services (memory_disk 0) (memory_disk 0) 1 test_loader [''cryfs.config''] True True ReadOnly
     ((0, []), [([''cryfs.config''], Regular [1, 2, 3])])))) = file_at [([''cryfs.config''], Regular [1, 2, 3])]"
  (is "file_at (snd (snd ?x)) = file_at ?f")
proof -
  have "file_tree_inv ?f" by (auto simp: file_tree_inv_def file_at_def split: if_splits)
  moreover have "file_at ?f [''cryfs.config''] \<noteq> Some Folder" by (simp add: file_at_def)
  moreover obtain x r e f where "?x = (x, ((r, e), f))" by (metis prod.collapse)
  ultimately show ?thesis using read_only_load_keeps_files [OF memory_disk.disk_laws_axioms [of 0], of ?f "[''cryfs.config'']"] by (metis snd_conv)
qed

lemma test_draws:
  assumes "requestKeyForNewFilesystem (test_provider ''secret'') MaxTotalKeySize 4 = (Inr (ce_derivedKey E, ce_kdfParameters E), r1)"
  shows "draws test_config_services test_loader 1 0 test_config (replicate 32 2) 0x03030303 (replicate 8 4) E"
proof -
  have "serialize (0x03030303 :: u32) = [3, 3, 3, 3]" by (simp add: serialize_def upt_rec)
  moreover have "replicate 4 (3 :: byte) = [3, 3, 3, 3]" by (simp add: numeral_eq_Suc)
  ultimately have "deserialize (replicate 4 (3 :: byte)) = Inr (0x03030303 :: u32)"
    using deserialize_serialize [of "0x03030303 :: u32" "[]"] by simp
  then have g: "generateClientId test_services 1 2 = (Inr 0x03030303, 3)"
    by (simp add: ebind_def test_random CLIENT_ID_FOR_DELETED_BLOCK_def)
  show ?thesis
    unfolding draws_def using assms g
    by (intro exI [of _ "''xchacha20-poly1305''"] exI [of _ "\<lparr>cipherName = ''xchacha20-poly1305'', KEYSIZE = 32, warning = None\<rparr>"]
        exI [of _ "replicate 16 1"] exI [of _ 1] exI [of _ 2] exI [of _ 3] exI [of _ 4] exI [of _ r1])
      (simp add: test_loader_def CryConfigCreator_generateCipher_def CryConfigConsole_askCipher_def CryConfigConsole_DEFAULT_CIPHER_def find_default
        test_random test_config_def CryConfig_FilesystemFormatVersion_def CryConfigCreator_generateBlocksizeBytes_def CryConfigConsole_askBlocksizeBytes_def
        CryConfigConsole_DEFAULT_BLOCKSIZE_BYTES_def CryConfigCreator_generateExclusiveClientId_def
        CryConfigCreator_generateMissingBlockIsIntegrityViolation_def)
qed

abbreviation test_load_or_create :: "nat config_loader \<Rightarrow> ((nat \<times> file_tree) \<times> file_tree, LoadError + config_load_result) exec" where
  "test_load_or_create L \<equiv> CryConfigLoader_loadOrCreate test_config_services (memory_disk 0) (memory_disk 0) 1 L [''cryfs.config''] False False"

lemma created_filesystem_opens_witness:
  "\<exists>x r e f. test_load_or_create test_loader ((0, []), []) = (Inr (Inr x), ((r, e), f)) \<and> cf_config (configFile x) = test_config \<and>
    fst (test_load_or_create test_loader ((100, e), f)) = Inr (Inr x)"
proof -
  obtain E r1 where k: "requestKeyForNewFilesystem (test_provider ''secret'') MaxTotalKeySize 4 = (Inr (ce_derivedKey E, ce_kdfParameters E), r1)"
      "storable test_config_services E test_config" "key_answers (keyProvider test_loader) E"
    using test_provider_key [of "''secret''" 4] by (auto simp: test_loader_def)
  have p: "file_tree_inv []" "file_at [] [] = Some Folder" "file_at [] ([] @ [''cryfs.config'']) = None"
      "file_at [] [''filesystems''] \<in> {None, Some Folder}" "file_at [] [''filesystems'', HexEncoder (FilesystemId test_config)] = None"
      "\<forall>n. length (cs_alloc test_config_services n) = n"
    by (simp_all add: empty_disk)
  from created_filesystem_opens [OF memory_disk.disk_laws_axioms [of 0], OF memory_disk.disk_laws_axioms [of 0], OF p(1-3) p(1,4,5) test_draws [OF k(1)] k(2,3) p(6) refl,
      of False False]
  obtain r e f where "test_load_or_create test_loader ((0, []), []) =
      (Inr (Inr \<lparr>oldConfig = test_config, configFile = \<lparr>cf_path = [''cryfs.config''], cf_config = test_config, cf_encryptor = E, cf_access = ReadWrite\<rparr>,
        clr_myClientId = 0x03030303\<rparr>), ((r, e), f))"
    and "fst (test_load_or_create test_loader ((100, e), f)) =
      Inr (Inr \<lparr>oldConfig = test_config, configFile = \<lparr>cf_path = [''cryfs.config''], cf_config = test_config, cf_encryptor = E, cf_access = ReadWrite\<rparr>,
        clr_myClientId = 0x03030303\<rparr>)"
    unfolding append_Nil by blast
  moreover have "cf_config (configFile \<lparr>oldConfig = test_config, configFile = \<lparr>cf_path = [''cryfs.config''], cf_config = test_config, cf_encryptor = E,
      cf_access = ReadWrite\<rparr>, clr_myClientId = 0x03030303\<rparr>) = test_config" by simp
  ultimately show ?thesis by blast
qed

lemma changed_key_opens_witness:
  "\<exists>e f r' e' f' x. CryConfigLoader_changeEncryptionKey test_config_services (memory_disk 0) (memory_disk 0) 1 test_loader [''cryfs.config''] False False
      (test_provider ''better'') ((50, e), f) = (Inr None, ((r', e'), f')) \<and>
    fst (test_load_or_create (test_loader\<lparr>keyProvider := test_provider ''better''\<rparr>) ((100, e'), f')) = Inr (Inr x) \<and> cf_config (configFile x) = test_config"
proof -
  obtain E r1 where k: "requestKeyForNewFilesystem (test_provider ''secret'') MaxTotalKeySize 4 = (Inr (ce_derivedKey E, ce_kdfParameters E), r1)"
      "storable test_config_services E test_config" "key_answers (keyProvider test_loader) E"
    using test_provider_key [of "''secret''" 4] by (auto simp: test_loader_def)
  have p: "file_tree_inv []" "file_at [] [] = Some Folder" "file_at [] ([] @ [''cryfs.config'']) = None"
      "file_at [] [''filesystems''] \<in> {None, Some Folder}" "file_at [] [''filesystems'', HexEncoder (FilesystemId test_config)] = None"
      "services_ok (cs_services test_config_services)" "\<forall>n. length (cs_alloc test_config_services n) = n"
    by (simp_all add: empty_disk)
  obtain e where e: "file_tree_inv e" "knows_filesystem test_config_services (file_at e) test_config 0x03030303"
    by (rule create_config_ok [OF memory_disk.disk_laws_axioms [of 0], OF p(6,7,1,4,5) test_draws [OF k(1)]])
  obtain bs f where f: "holds_config test_config_services E test_config bs" "file_tree_inv f"
      "file_at f = (file_at [])([] @ [''cryfs.config''] \<mapsto> Regular bs)"
    by (rule create_config_file [OF memory_disk.disk_laws_axioms [of 0], OF p(1-3) k(2,1)])
  have t: "file_at f [] = Some Folder" "file_at f ([] @ [''cryfs.config'']) = Some (Regular bs)" using f(3) by (simp_all add: empty_disk)
  from changed_key_opens [OF memory_disk.disk_laws_axioms [of 0], OF memory_disk.disk_laws_axioms [of 0], OF f(2) t f(1) k(3) draws_current [OF test_draws [OF k(1)]]
      e test_provider_key, of 1 False False "''better''" 50]
  obtain E' r' e' f' where "CryConfigLoader_changeEncryptionKey test_config_services (memory_disk 0) (memory_disk 0) 1 test_loader [''cryfs.config''] False False
      (test_provider ''better'') ((50, e), f) = (Inr None, ((r', e'), f'))"
    and "fst (test_load_or_create (test_loader\<lparr>keyProvider := test_provider ''better''\<rparr>) ((100, e'), f')) =
      Inr (Inr \<lparr>oldConfig = test_config, configFile = \<lparr>cf_path = [''cryfs.config''], cf_config = test_config, cf_encryptor = E', cf_access = ReadWrite\<rparr>,
        clr_myClientId = 0x03030303\<rparr>)"
    unfolding append_Nil by blast
  moreover have "cf_config (configFile \<lparr>oldConfig = test_config, configFile = \<lparr>cf_path = [''cryfs.config''], cf_config = test_config, cf_encryptor = E',
      cf_access = ReadWrite\<rparr>, clr_myClientId = 0x03030303\<rparr>) = test_config" by simp
  ultimately show ?thesis by blast
qed

end
