(* ===== verification/FileSystem.thy ===== *)
theory FileSystem
  imports FsBlobs
begin

text \<open>
  \<open>src/src/cryfs/impl/filesystem\<close> and \<open>src/src/fspp/impl\<close>: the device with its path lookup, the nodes
  (directories, files, symlinks), open files, and the dispatch of the file system operations with the
  list of open files. The blob objects that \<open>CachingFsBlobStore\<close> and \<open>ParallelAccessFsBlobStore\<close> keep
  loaded are part of the state; a directory changes in memory and is written back on \<open>flush\<close> or when
  its object is destroyed.
\<close>

section \<open>State\<close>

record 'w fs_state =
  loadedBlobs :: "(block_id \<times> fs_blob) list"
  fs_store :: 'w

text \<open>
  The fixed surroundings: the blob store, the root, the start position of searches, the content of
  uninitialised buffers, the timestamp behaviour of the mount, and the time and the user of the
  operation. All calls of \<open>now()\<close> within one operation see the same time. The callbacks on file system
  actions (the idle timer) do not touch this state.
\<close>

record 'w cry_device =
  cd_blobStore :: "'w blob_store"
  cd_rootBlobId :: block_id
  cd_startpos :: startpos
  cd_junk :: byte
  cd_behavior :: TimestampUpdateBehavior
  cd_now :: timespec
  cd_uid :: u32
  cd_gid :: u32

definition in_store :: "('w, 'a) exec \<Rightarrow> ('w fs_state, 'a) exec" where
  "in_store m s = (case m (fs_store s) of (r, w) \<Rightarrow> (r, s\<lparr>fs_store := w\<rparr>))"

definition fs_blob_id :: "fs_blob \<Rightarrow> block_id" where
  "fs_blob_id b = (case b of FileBlob i p \<Rightarrow> i | DirBlob d \<Rightarrow> db_blockId d | SymlinkBlob i p t \<Rightarrow> i)"

definition FsBlob_parentPointer :: "fs_blob \<Rightarrow> block_id" where
  "FsBlob_parentPointer b = (case b of FileBlob i p \<Rightarrow> p | DirBlob d \<Rightarrow> db_parent d | SymlinkBlob i p t \<Rightarrow> p)"

definition FsBlob_withParent :: "block_id \<Rightarrow> fs_blob \<Rightarrow> fs_blob" where
  "FsBlob_withParent p b =
     (case b of FileBlob i _ \<Rightarrow> FileBlob i p | DirBlob d \<Rightarrow> DirBlob (d\<lparr>db_parent := p\<rparr>) | SymlinkBlob i _ t \<Rightarrow> SymlinkBlob i p t)"

definition put_blob :: "fs_blob \<Rightarrow> ('w fs_state, unit) exec" where
  "put_blob b = modify (\<lambda>s. s\<lparr>loadedBlobs := um_put (fs_blob_id b) b (loadedBlobs s)\<rparr>)"

text \<open>An operation of a loaded directory object.\<close>

definition on_dir ::
  "block_id \<Rightarrow> (dir_blob \<Rightarrow> 'w fs_state \<Rightarrow> 'a result \<times> dir_blob \<times> 'w fs_state) \<Rightarrow> ('w fs_state, 'a) exec" where
  "on_dir i f s =
     (case map_of (loadedBlobs s) i of
        Some (DirBlob d) \<Rightarrow>
          (case f d s of (r, d', s') \<Rightarrow> (r, s'\<lparr>loadedBlobs := um_put i (DirBlob d') (loadedBlobs s')\<rparr>))
      | _ \<Rightarrow> (Inl MemoryFault, s))"

definition get_dir :: "block_id \<Rightarrow> ('w fs_state, dir_blob) exec" where
  "get_dir i s =
     (case map_of (loadedBlobs s) i of Some (DirBlob d) \<Rightarrow> (Inr d, s) | _ \<Rightarrow> (Inl MemoryFault, s))"

section \<open>The fs blob stores\<close>

definition FsBlobs_load :: "'w cry_device \<Rightarrow> block_id \<Rightarrow> ('w fs_state, fs_blob option) exec" where
  "FsBlobs_load D i =
     ebind (gets (\<lambda>s. map_of (loadedBlobs s) i)) (\<lambda>found.
       case found of
         Some b \<Rightarrow> ret (Some b)
       | None \<Rightarrow>
           ebind (in_store (FsBlobStore_load (cd_blobStore D) i)) (\<lambda>loaded.
             case loaded of
               None \<Rightarrow> ret None
             | Some b \<Rightarrow> ebind (put_blob b) (\<lambda>_. ret (Some b))))"

definition FsBlobs_remove :: "'w cry_device \<Rightarrow> fs_blob \<Rightarrow> ('w fs_state, unit) exec" where
  "FsBlobs_remove D b =
     ebind (modify (\<lambda>s. s\<lparr>loadedBlobs := AList.delete (fs_blob_id b) (loadedBlobs s)\<rparr>)) (\<lambda>_.
     in_store (FsBlobStore_remove (cd_junk D) (cd_blobStore D) b))"

definition FsBlobs_create :: "('w, fs_blob) exec \<Rightarrow> ('w fs_state, block_id) exec" where
  "FsBlobs_create m = ebind (in_store m) (\<lambda>b. ebind (put_blob b) (\<lambda>_. ret (fs_blob_id b)))"

definition DirBlobRef_flush :: "'w cry_device \<Rightarrow> block_id \<Rightarrow> ('w fs_state, unit) exec" where
  "DirBlobRef_flush D i =
     ebind (get_dir i) (\<lambda>d.
     ebind (in_store (DirBlob_flush (cd_junk D) (cd_blobStore D) d)) (\<lambda>d'.
     put_blob (DirBlob d')))"

text \<open>The last reference to a blob is dropped and it leaves the cache: its destructor runs.\<close>

definition FsBlobs_evict :: "'w cry_device \<Rightarrow> block_id \<Rightarrow> ('w fs_state, unit) exec" where
  "FsBlobs_evict D i =
     ebind (gets (\<lambda>s. map_of (loadedBlobs s) i)) (\<lambda>found.
     ebind (case found of
              Some (DirBlob d) \<Rightarrow> ebind (in_store (DirBlob_writeEntriesToBlob (cd_junk D) (cd_blobStore D) d)) (\<lambda>_. ret ())
            | _ \<Rightarrow> ret ()) (\<lambda>_.
     modify (\<lambda>s. s\<lparr>loadedBlobs := AList.delete i (loadedBlobs s)\<rparr>)))"

section \<open>CryDevice\<close>

definition CryDevice_LoadBlob :: "'w cry_device \<Rightarrow> block_id \<Rightarrow> ('w fs_state, fs_blob) exec" where
  "CryDevice_LoadBlob D i =
     ebind (FsBlobs_load D i) (\<lambda>b. case b of None \<Rightarrow> throw (Errno EIO) | Some x \<Rightarrow> ret x)"

definition CryDevice_RemoveBlob :: "'w cry_device \<Rightarrow> block_id \<Rightarrow> ('w fs_state, unit) exec" where
  "CryDevice_RemoveBlob D i =
     ebind (FsBlobs_load D i) (\<lambda>b. case b of None \<Rightarrow> throw (Errno EIO) | Some x \<Rightarrow> FsBlobs_remove D x)"

definition CryDevice_CreateRootBlobAndReturnId :: "'w cry_device \<Rightarrow> ('w fs_state, block_id) exec" where
  "CryDevice_CreateRootBlobAndReturnId D =
     ebind (FsBlobs_create (FsBlobStore_createDirBlob (cd_blobStore D) BlockId_Null)) (\<lambda>i.
     ebind (DirBlobRef_flush D i) (\<lambda>_. ret i))"

text \<open>Paths are absolute: a path is the list of its components below the root.\<close>

type_synonym path = "data list"

text \<open>The walk returns the blob reached and the directory that holds it.\<close>

fun LoadBlobWithAncestors_loop ::
  "'w cry_device \<Rightarrow> (block_id \<Rightarrow> ('w fs_state, unit) exec) \<Rightarrow> path \<Rightarrow> fs_blob \<Rightarrow> block_id option \<Rightarrow>
   ('w fs_state, (fs_blob \<times> block_id option) option) exec" where
  "LoadBlobWithAncestors_loop D ancestor_callback [] currentBlob parentBlob = ret (Some (currentBlob, parentBlob))"
| "LoadBlobWithAncestors_loop D ancestor_callback (component # path) currentBlob parentBlob =
     ebind (ancestor_callback (fs_blob_id currentBlob)) (\<lambda>_.
     case currentBlob of
       DirBlob _ \<Rightarrow>
         ebind (get_dir (fs_blob_id currentBlob)) (\<lambda>d.
         case DirBlob_GetChild_name component d of
           None \<Rightarrow> ret None
         | Some child \<Rightarrow>
             ebind (FsBlobs_load D (de_blockId child)) (\<lambda>nextBlob.
             case nextBlob of
               None \<Rightarrow> throw (Errno EIO)
             | Some b \<Rightarrow>
                 ebind (assert_exec (FsBlob_parentPointer b = db_blockId d) ''Blob has wrong parent pointer'') (\<lambda>_.
                 LoadBlobWithAncestors_loop D ancestor_callback path b (Some (db_blockId d)))))
     | _ \<Rightarrow> throw (Errno ENOTDIR))"

definition CryDevice_LoadBlobWithAncestors ::
  "'w cry_device \<Rightarrow> (block_id \<Rightarrow> ('w fs_state, unit) exec) \<Rightarrow> path \<Rightarrow>
   ('w fs_state, (fs_blob \<times> block_id option) option) exec" where
  "CryDevice_LoadBlobWithAncestors D ancestor_callback path =
     ebind (FsBlobs_load D (cd_rootBlobId D)) (\<lambda>root.
       case root of
         None \<Rightarrow> throw (Errno EIO)
       | Some currentBlob \<Rightarrow>
           ebind (assert_exec (FsBlob_parentPointer currentBlob = BlockId_Null) ''Root Blob should have a nullptr as parent'') (\<lambda>_.
           LoadBlobWithAncestors_loop D ancestor_callback path currentBlob None))"

definition CryDevice_LoadDirBlobWithAncestors ::
  "'w cry_device \<Rightarrow> (block_id \<Rightarrow> ('w fs_state, unit) exec) \<Rightarrow> path \<Rightarrow>
   ('w fs_state, (block_id \<times> block_id option) option) exec" where
  "CryDevice_LoadDirBlobWithAncestors D ancestor_callback path =
     ebind (CryDevice_LoadBlobWithAncestors D ancestor_callback path) (\<lambda>blob.
       case blob of
         None \<Rightarrow> ret None
       | Some (DirBlob d, parent) \<Rightarrow> ret (Some (db_blockId d, parent))
       | Some _ \<Rightarrow> throw (Errno ENOTDIR))"

text \<open>A node object: its dynamic type, its blob and the directories above it.\<close>

record cry_node =
  cn_type :: entry_type
  cn_blockId :: block_id
  cn_parent :: "block_id option"
  cn_grandparent :: "block_id option"

definition CryDevice_Load :: "'w cry_device \<Rightarrow> path \<Rightarrow> ('w fs_state, cry_node option) exec" where
  "CryDevice_Load D path =
     (if path = []
      then ret (Some \<lparr>cn_type = DIR, cn_blockId = cd_rootBlobId D, cn_parent = None, cn_grandparent = None\<rparr>)
      else
        ebind (CryDevice_LoadDirBlobWithAncestors D (\<lambda>_. ret ()) (butlast path)) (\<lambda>parentWithAncestors.
          case parentWithAncestors of
            None \<Rightarrow> ret None
          | Some (parent, grandparent) \<Rightarrow>
              ebind (get_dir parent) (\<lambda>d.
              case DirBlob_GetChild_name (last path) d of
                None \<Rightarrow> ret None
              | Some entry \<Rightarrow>
                  ret (Some \<lparr>cn_type = de_type entry, cn_blockId = de_blockId entry,
                             cn_parent = Some parent, cn_grandparent = grandparent\<rparr>))))"

definition CryDevice_LoadTyped ::
  "'w cry_device \<Rightarrow> entry_type \<Rightarrow> errno \<Rightarrow> path \<Rightarrow> ('w fs_state, cry_node option) exec" where
  "CryDevice_LoadTyped D type e path =
     ebind (CryDevice_Load D path) (\<lambda>loaded.
       case loaded of
         None \<Rightarrow> ret None
       | Some node \<Rightarrow> if cn_type node = type then ret (Some node) else throw (Errno e))"

definition CryDevice_LoadFile :: "'w cry_device \<Rightarrow> path \<Rightarrow> ('w fs_state, cry_node option) exec" where
  "CryDevice_LoadFile D = CryDevice_LoadTyped D FILE EISDIR"

definition CryDevice_LoadDir :: "'w cry_device \<Rightarrow> path \<Rightarrow> ('w fs_state, cry_node option) exec" where
  "CryDevice_LoadDir D = CryDevice_LoadTyped D DIR ENOTDIR"

definition CryDevice_LoadSymlink :: "'w cry_device \<Rightarrow> path \<Rightarrow> ('w fs_state, cry_node option) exec" where
  "CryDevice_LoadSymlink D = CryDevice_LoadTyped D SYMLINK ENOTDIR"

record statvfs =
  sv_max_filename_length :: nat
  sv_blocksize :: nat
  sv_num_total_blocks :: nat
  sv_num_free_blocks :: nat
  sv_num_available_blocks :: nat
  sv_num_total_inodes :: nat
  sv_num_free_inodes :: nat
  sv_num_available_inodes :: nat

definition CryDevice_statfs :: "'w cry_device \<Rightarrow> ('w fs_state, statvfs) exec" where
  "CryDevice_statfs D =
     ebind (in_store (blob_numBlocks (cd_blobStore D))) (\<lambda>numUsedBlocks.
     ebind (in_store (blob_estimateSpaceForNumBlocksLeft (cd_blobStore D))) (\<lambda>numFreeBlocks.
     ret \<lparr>sv_max_filename_length = 255,
          sv_blocksize = trunc32 (blob_virtualBlocksizeBytes (cd_blobStore D)),
          sv_num_total_blocks = trunc64 (numUsedBlocks + numFreeBlocks),
          sv_num_free_blocks = numFreeBlocks, sv_num_available_blocks = numFreeBlocks,
          sv_num_total_inodes = trunc64 (numUsedBlocks + numFreeBlocks),
          sv_num_free_inodes = numFreeBlocks, sv_num_available_inodes = numFreeBlocks\<rparr>))"

section \<open>CryNode\<close>

definition CryNode_LoadBlob :: "'w cry_device \<Rightarrow> cry_node \<Rightarrow> ('w fs_state, fs_blob) exec" where
  "CryNode_LoadBlob D n =
     ebind (CryDevice_LoadBlob D (cn_blockId n)) (\<lambda>blob.
     ebind (assert_exec (case cn_parent n of None \<Rightarrow> True | Some p \<Rightarrow> FsBlob_parentPointer blob = p)
              ''Blob has wrong parent pointer.'') (\<lambda>_.
     ret blob))"

definition update_mtime :: "'w cry_device \<Rightarrow> block_id \<Rightarrow> block_id \<Rightarrow> ('w fs_state, unit) exec" where
  "update_mtime D dir child =
     on_dir dir (DirBlob_updateModificationTimestampForChild (cd_startpos D) (cd_now D) child)"

definition CryNode_updateParentModificationTimestamp :: "'w cry_device \<Rightarrow> cry_node \<Rightarrow> ('w fs_state, unit) exec" where
  "CryNode_updateParentModificationTimestamp D n =
     (case cn_grandparent n of
        None \<Rightarrow> ret ()
      | Some g \<Rightarrow>
          (case cn_parent n of
             None \<Rightarrow> throw (AssertFailed ''Grandparent is set, so also parent has to be set'')
           | Some p \<Rightarrow> update_mtime D g p))"

definition CryNode_updateTargetDirModificationTimestamp ::
  "'w cry_device \<Rightarrow> block_id \<Rightarrow> block_id option \<Rightarrow> ('w fs_state, unit) exec" where
  "CryNode_updateTargetDirModificationTimestamp D targetDir targetDirParent =
     (case targetDirParent of None \<Rightarrow> ret () | Some p \<Rightarrow> update_mtime D p targetDir)"

definition FsBlobRef_setParentPointer :: "'w cry_device \<Rightarrow> fs_blob \<Rightarrow> block_id \<Rightarrow> ('w fs_state, unit) exec" where
  "FsBlobRef_setParentPointer D b parent =
     ebind (put_blob (FsBlob_withParent parent b)) (\<lambda>_.
     in_store (FsBlobView_storeParentPointer (cd_blobStore D) (fs_blob_id b) parent))"

text \<open>\<open>rename\<close> returns the node with its new parent.\<close>

definition CryNode_rename :: "'w cry_device \<Rightarrow> cry_node \<Rightarrow> path \<Rightarrow> ('w fs_state, cry_node) exec" where
  "CryNode_rename D n target =
     (case cn_parent n of
        None \<Rightarrow> throw (Errno EBUSY)
      | Some parent \<Rightarrow>
          if target = [] then throw (Errno EBUSY)
          else
            ebind (CryDevice_LoadDirBlobWithAncestors D
                     (\<lambda>ancestorId. if ancestorId = cn_blockId n then throw (Errno EINVAL) else ret ()) (butlast target)) (\<lambda>found.
            case found of
              None \<Rightarrow> throw (Errno ENOENT)
            | Some (targetParent, targetGrandparent) \<Rightarrow>
                if targetParent = cn_blockId n then throw (Errno EINVAL)
                else
                  ebind (get_dir parent) (\<lambda>pd.
                  ebind (lift_result (DirBlob_GetChild_id (cd_startpos D) (cn_blockId n) pd)) (\<lambda>old.
                  case old of
                    None \<Rightarrow> throw (Errno EIO)
                  | Some oldEntry \<Rightarrow>
                      if targetParent = parent
                      then
                        ebind (CryNode_updateParentModificationTimestamp D n) (\<lambda>_.
                        ebind (on_dir targetParent (DirBlob_RenameChild (cd_startpos D) (cd_now D)
                                 (de_blockId oldEntry) (last target) (CryDevice_RemoveBlob D))) (\<lambda>_.
                        ret n))
                      else
                        ebind (get_dir targetParent) (\<lambda>td.
                        ebind (case DirBlob_GetChild_name (last target) td of
                                 None \<Rightarrow> ret ()
                               | Some preexisting \<Rightarrow>
                                   if de_type preexisting = DIR
                                   then
                                     if cn_type n \<noteq> DIR then throw (Errno EISDIR)
                                     else
                                       ebind (CryDevice_LoadBlob D (de_blockId preexisting)) (\<lambda>b.
                                       case b of
                                         DirBlob d \<Rightarrow> if DirBlob_NumChildren d > 0 then throw (Errno ENOTEMPTY) else ret ()
                                       | _ \<Rightarrow> throw (Errno EIO))
                                   else ret ()) (\<lambda>_.
                        ebind (CryNode_updateParentModificationTimestamp D n) (\<lambda>_.
                        ebind (CryNode_updateTargetDirModificationTimestamp D targetParent targetGrandparent) (\<lambda>_.
                        ebind (on_dir targetParent (DirBlob_AddOrOverwriteChild (cd_startpos D) (cd_now D)
                                 \<lparr>ne_name = last target, ne_blobId = de_blockId oldEntry, ne_type = de_type oldEntry,
                                  ne_mode = de_mode oldEntry, ne_uid = de_uid oldEntry, ne_gid = de_gid oldEntry,
                                  ne_lastAccessTime = de_lastAccessTime oldEntry,
                                  ne_lastModificationTime = de_lastModificationTime oldEntry\<rparr>
                                 (CryDevice_RemoveBlob D))) (\<lambda>_.
                        ebind (on_dir parent (DirBlob_RemoveChild_name (de_name oldEntry))) (\<lambda>_.
                        ebind (CryNode_LoadBlob D n) (\<lambda>b.
                        ebind (FsBlobRef_setParentPointer D b targetParent) (\<lambda>_.
                        ret (n\<lparr>cn_parent := Some targetParent\<rparr>)))))))))))))"

definition CryNode_utimens :: "'w cry_device \<Rightarrow> cry_node \<Rightarrow> timespec \<Rightarrow> timespec \<Rightarrow> ('w fs_state, unit) exec" where
  "CryNode_utimens D n lastAccessTime lastModificationTime =
     (case cn_parent n of
        None \<Rightarrow> ret ()
      | Some p \<Rightarrow> on_dir p (DirBlob_utimensChild (cd_startpos D) (cd_now D) (cn_blockId n) lastAccessTime lastModificationTime))"

definition CryNode_removeNode :: "'w cry_device \<Rightarrow> cry_node \<Rightarrow> ('w fs_state, unit) exec" where
  "CryNode_removeNode D n =
     (case cn_parent n of
        None \<Rightarrow> throw (Errno EIO)
      | Some p \<Rightarrow>
          ebind (on_dir p (DirBlob_RemoveChild_id (cd_startpos D) (cn_blockId n))) (\<lambda>_.
          CryDevice_RemoveBlob D (cn_blockId n)))"

record stat_info =
  st_nlink :: nat
  st_mode :: mode
  st_uid :: u32
  st_gid :: u32
  st_size :: nat
  st_blocks :: nat
  st_atime :: timespec
  st_mtime :: timespec
  st_ctime :: timespec

definition dirEntryToStatInfo :: "dir_entry \<Rightarrow> nat \<Rightarrow> stat_info" where
  "dirEntryToStatInfo dirEntry sz =
     \<lparr>st_nlink = 1, st_mode = de_mode dirEntry, st_uid = de_uid dirEntry, st_gid = de_gid dirEntry, st_size = sz,
      st_blocks = (sz + 512 - 1) div 512, st_atime = de_lastAccessTime dirEntry,
      st_mtime = de_lastModificationTime dirEntry, st_ctime = de_lastMetadataChangeTime dirEntry\<rparr>"

definition FsBlobRef_lstat_size :: "'w cry_device \<Rightarrow> fs_blob \<Rightarrow> ('w fs_state, nat) exec" where
  "FsBlobRef_lstat_size D b =
     (case b of
        FileBlob i p \<Rightarrow> in_store (FileBlob_size (cd_blobStore D) i)
      | DirBlob d \<Rightarrow> ret DIR_LSTAT_SIZE
      | SymlinkBlob i p t \<Rightarrow> ret (length t))"

definition CryNode_stat :: "'w cry_device \<Rightarrow> cry_node \<Rightarrow> ('w fs_state, stat_info) exec" where
  "CryNode_stat D n =
     (case cn_parent n of
        None \<Rightarrow>
          ret \<lparr>st_nlink = 1, st_mode = addDirFlag 0 OR 448, st_uid = cd_uid D, st_gid = cd_gid D,
               st_size = DIR_LSTAT_SIZE, st_blocks = 0, st_atime = cd_now D, st_mtime = cd_now D, st_ctime = cd_now D\<rparr>
      | Some p \<Rightarrow>
          ebind (get_dir p) (\<lambda>d.
          ebind (lift_result (DirBlob_GetChild_id (cd_startpos D) (cn_blockId n) d)) (\<lambda>child.
          case child of
            None \<Rightarrow> throw (Errno ENOENT)
          | Some entry \<Rightarrow>
              ebind (CryNode_LoadBlob D n) (\<lambda>b.
              ebind (FsBlobRef_lstat_size D b) (\<lambda>sz.
              ret (dirEntryToStatInfo entry sz))))))"

definition CryNode_chmod :: "'w cry_device \<Rightarrow> cry_node \<Rightarrow> mode \<Rightarrow> ('w fs_state, unit) exec" where
  "CryNode_chmod D n m =
     (case cn_parent n of
        None \<Rightarrow> ret ()
      | Some p \<Rightarrow> on_dir p (DirBlob_chmodChild (cd_startpos D) (cd_now D) (cn_blockId n) m))"

definition CryNode_chown :: "'w cry_device \<Rightarrow> cry_node \<Rightarrow> u32 \<Rightarrow> u32 \<Rightarrow> ('w fs_state, unit) exec" where
  "CryNode_chown D n uid gid =
     (case cn_parent n of
        None \<Rightarrow> ret ()
      | Some p \<Rightarrow>
          ebind (on_dir p (DirBlob_chownChild (cd_startpos D) (cd_now D) (cn_blockId n) uid gid)) (\<lambda>_. ret ()))"

definition CryNode_checkParentPointer :: "'w cry_device \<Rightarrow> cry_node \<Rightarrow> ('w fs_state, bool) exec" where
  "CryNode_checkParentPointer D n =
     ebind (CryNode_LoadBlob D n) (\<lambda>b.
     ret (FsBlob_parentPointer b = (case cn_parent n of None \<Rightarrow> BlockId_Null | Some p \<Rightarrow> p)))"

section \<open>CryDir, CryFile and CrySymlink\<close>

definition CryDir_LoadBlob :: "'w cry_device \<Rightarrow> cry_node \<Rightarrow> ('w fs_state, dir_blob) exec" where
  "CryDir_LoadBlob D n =
     ebind (CryNode_LoadBlob D n) (\<lambda>b.
     case b of DirBlob d \<Rightarrow> ret d | _ \<Rightarrow> throw (AssertFailed ''Blob does not store a directory''))"

definition CryDir_touch :: "'w cry_device \<Rightarrow> cry_node \<Rightarrow> ('w fs_state, unit) exec" where
  "CryDir_touch D n = (case cn_parent n of None \<Rightarrow> ret () | Some p \<Rightarrow> update_mtime D p (cn_blockId n))"

definition new_child :: "'w cry_device \<Rightarrow> data \<Rightarrow> block_id \<Rightarrow> entry_type \<Rightarrow> mode \<Rightarrow> u32 \<Rightarrow> u32 \<Rightarrow> new_entry" where
  "new_child D name i type m uid gid =
     \<lparr>ne_name = name, ne_blobId = i, ne_type = type, ne_mode = m, ne_uid = uid, ne_gid = gid,
      ne_lastAccessTime = cd_now D, ne_lastModificationTime = cd_now D\<rparr>"

text \<open>An open file: its directory and its blob.\<close>

record cry_open_file =
  of_parent :: block_id
  of_fileBlob :: block_id

definition CryDir_createAndOpenFile ::
  "'w cry_device \<Rightarrow> cry_node \<Rightarrow> data \<Rightarrow> mode \<Rightarrow> u32 \<Rightarrow> u32 \<Rightarrow> ('w fs_state, cry_open_file) exec" where
  "CryDir_createAndOpenFile D n name m uid gid =
     ebind (CryDir_touch D n) (\<lambda>_.
     ebind (FsBlobs_create (FsBlobStore_createFileBlob (cd_blobStore D) (cn_blockId n))) (\<lambda>child.
     ebind (CryDir_LoadBlob D n) (\<lambda>d.
     ebind (on_dir (db_blockId d) (DirBlob_addChild (cd_startpos D) (cd_now D) (new_child D name child FILE m uid gid))) (\<lambda>_.
     ret \<lparr>of_parent = db_blockId d, of_fileBlob = child\<rparr>))))"

definition CryDir_createDir ::
  "'w cry_device \<Rightarrow> cry_node \<Rightarrow> data \<Rightarrow> mode \<Rightarrow> u32 \<Rightarrow> u32 \<Rightarrow> ('w fs_state, unit) exec" where
  "CryDir_createDir D n name m uid gid =
     ebind (CryDir_touch D n) (\<lambda>_.
     ebind (CryDir_LoadBlob D n) (\<lambda>d.
     ebind (FsBlobs_create (FsBlobStore_createDirBlob (cd_blobStore D) (cn_blockId n))) (\<lambda>child.
     on_dir (db_blockId d) (DirBlob_addChild (cd_startpos D) (cd_now D) (new_child D name child DIR m uid gid)))))"

definition CryDir_createSymlink ::
  "'w cry_device \<Rightarrow> cry_node \<Rightarrow> data \<Rightarrow> data \<Rightarrow> u32 \<Rightarrow> u32 \<Rightarrow> ('w fs_state, unit) exec" where
  "CryDir_createSymlink D n name target uid gid =
     ebind (CryDir_touch D n) (\<lambda>_.
     ebind (CryDir_LoadBlob D n) (\<lambda>d.
     ebind (FsBlobs_create (FsBlobStore_createSymlinkBlob (cd_blobStore D) target (cn_blockId n))) (\<lambda>child.
     on_dir (db_blockId d) (DirBlob_addChild (cd_startpos D) (cd_now D)
       (new_child D name child SYMLINK DirBlob_AddChildSymlink_mode uid gid)))))"

definition CryDir_children :: "'w cry_device \<Rightarrow> cry_node \<Rightarrow> ('w fs_state, (entry_type \<times> data) list) exec" where
  "CryDir_children D n =
     ebind (case cn_parent n of
              None \<Rightarrow> ret False
            | Some p \<Rightarrow> on_dir p (DirBlob_updateAccessTimestampForChild (cd_startpos D) (cd_now D) (cn_blockId n) (cd_behavior D))) (\<lambda>_.
     ebind (CryDir_LoadBlob D n) (\<lambda>d.
     ret (DirBlob_AppendChildrenTo [(DIR, ascii ''.''), (DIR, ascii ''..'')] d)))"

definition CryDir_numChildren :: "'w cry_device \<Rightarrow> cry_node \<Rightarrow> ('w fs_state, nat) exec" where
  "CryDir_numChildren D n = ebind (CryDir_LoadBlob D n) (\<lambda>d. ret (DirBlob_NumChildren d))"

definition CryDir_remove :: "'w cry_device \<Rightarrow> cry_node \<Rightarrow> ('w fs_state, unit) exec" where
  "CryDir_remove D n =
     ebind (CryNode_updateParentModificationTimestamp D n) (\<lambda>_.
     ebind (CryDir_LoadBlob D n) (\<lambda>d.
     if DirBlob_NumChildren d \<noteq> 0 then throw (Errno ENOTEMPTY)
     else CryNode_removeNode D n))"

definition CryFile_LoadBlob :: "'w cry_device \<Rightarrow> cry_node \<Rightarrow> ('w fs_state, block_id) exec" where
  "CryFile_LoadBlob D n =
     ebind (CryNode_LoadBlob D n) (\<lambda>b.
     case b of FileBlob i p \<Rightarrow> ret i | _ \<Rightarrow> throw (AssertFailed ''Blob does not store a file''))"

definition CryNode_the_parent :: "cry_node \<Rightarrow> ('w fs_state, block_id) exec" where
  "CryNode_the_parent n =
     (case cn_parent n of
        None \<Rightarrow> throw (AssertFailed ''We are the root directory and can't get the parent of the root directory'')
      | Some p \<Rightarrow> ret p)"

definition CryFile_open :: "'w cry_device \<Rightarrow> cry_node \<Rightarrow> ('w fs_state, cry_open_file) exec" where
  "CryFile_open D n =
     ebind (CryFile_LoadBlob D n) (\<lambda>i.
     ebind (CryNode_the_parent n) (\<lambda>p.
     ret \<lparr>of_parent = p, of_fileBlob = i\<rparr>))"

definition CryFile_truncate :: "'w cry_device \<Rightarrow> cry_node \<Rightarrow> nat \<Rightarrow> ('w fs_state, unit) exec" where
  "CryFile_truncate D n sz =
     ebind (CryFile_LoadBlob D n) (\<lambda>i.
     ebind (in_store (FileBlob_resize (cd_blobStore D) i sz)) (\<lambda>_.
     ebind (CryNode_the_parent n) (\<lambda>p. update_mtime D p (cn_blockId n))))"

definition CryFile_remove :: "'w cry_device \<Rightarrow> cry_node \<Rightarrow> ('w fs_state, unit) exec" where
  "CryFile_remove D n =
     ebind (CryNode_updateParentModificationTimestamp D n) (\<lambda>_. CryNode_removeNode D n)"

definition CrySymlink_target :: "'w cry_device \<Rightarrow> cry_node \<Rightarrow> ('w fs_state, data) exec" where
  "CrySymlink_target D n =
     ebind (CryNode_the_parent n) (\<lambda>p.
     ebind (on_dir p (DirBlob_updateAccessTimestampForChild (cd_startpos D) (cd_now D) (cn_blockId n) (cd_behavior D))) (\<lambda>_.
     ebind (CryNode_LoadBlob D n) (\<lambda>b.
     case b of SymlinkBlob i q t \<Rightarrow> ret t | _ \<Rightarrow> throw (AssertFailed ''Blob does not store a symlink''))))"

definition CryNode_remove :: "'w cry_device \<Rightarrow> cry_node \<Rightarrow> ('w fs_state, unit) exec" where
  "CryNode_remove D n = (case cn_type n of DIR \<Rightarrow> CryDir_remove D n | _ \<Rightarrow> CryFile_remove D n)"

section \<open>CryOpenFile\<close>

definition CryOpenFile_flush :: "'w cry_device \<Rightarrow> cry_open_file \<Rightarrow> ('w fs_state, unit) exec" where
  "CryOpenFile_flush D f =
     ebind (in_store (blob_flush (cd_blobStore D) (of_fileBlob f))) (\<lambda>_. DirBlobRef_flush D (of_parent f))"

definition CryOpenFile_stat :: "'w cry_device \<Rightarrow> cry_open_file \<Rightarrow> ('w fs_state, stat_info) exec" where
  "CryOpenFile_stat D f =
     ebind (get_dir (of_parent f)) (\<lambda>d.
     ebind (lift_result (DirBlob_GetChild_id (cd_startpos D) (of_fileBlob f) d)) (\<lambda>child.
     case child of
       None \<Rightarrow> throw (Errno ENOENT)
     | Some entry \<Rightarrow>
         ebind (in_store (FileBlob_size (cd_blobStore D) (of_fileBlob f))) (\<lambda>sz.
         ret (dirEntryToStatInfo entry sz))))"

definition CryOpenFile_truncate :: "'w cry_device \<Rightarrow> cry_open_file \<Rightarrow> nat \<Rightarrow> ('w fs_state, unit) exec" where
  "CryOpenFile_truncate D f sz =
     ebind (in_store (FileBlob_resize (cd_blobStore D) (of_fileBlob f) sz)) (\<lambda>_.
     update_mtime D (of_parent f) (of_fileBlob f))"

definition CryOpenFile_read :: "'w cry_device \<Rightarrow> cry_open_file \<Rightarrow> nat \<Rightarrow> nat \<Rightarrow> ('w fs_state, data) exec" where
  "CryOpenFile_read D f count offset =
     ebind (on_dir (of_parent f)
              (DirBlob_updateAccessTimestampForChild (cd_startpos D) (cd_now D) (of_fileBlob f) (cd_behavior D))) (\<lambda>_.
     in_store (FileBlob_read (cd_blobStore D) (of_fileBlob f) offset count))"

definition CryOpenFile_write :: "'w cry_device \<Rightarrow> cry_open_file \<Rightarrow> data \<Rightarrow> nat \<Rightarrow> ('w fs_state, unit) exec" where
  "CryOpenFile_write D f buf offset =
     ebind (update_mtime D (of_parent f) (of_fileBlob f)) (\<lambda>_.
     in_store (FileBlob_write (cd_blobStore D) (of_fileBlob f) buf offset))"

definition CryOpenFile_fdatasync :: "'w cry_device \<Rightarrow> cry_open_file \<Rightarrow> ('w fs_state, unit) exec" where
  "CryOpenFile_fdatasync D f = in_store (blob_flush (cd_blobStore D) (of_fileBlob f))"

section \<open>FuseOpenFileList\<close>

text \<open>\<open>IdList\<close> hands out ascending descriptors; the counter is a 32 bit signed integer.\<close>

record 'e id_list =
  id_entries :: "(nat \<times> 'e) list"
  id_counter :: nat

definition IdList_add :: "'e \<Rightarrow> 'e id_list \<Rightarrow> nat \<times> 'e id_list" where
  "IdList_add entry l =
     (let new_id = id_counter l + 1
      in (new_id, l\<lparr>id_entries := um_insert (new_id, entry) (id_entries l), id_counter := new_id\<rparr>))"

definition IdList_get :: "nat \<Rightarrow> 'e id_list \<Rightarrow> 'e result" where
  "IdList_get i l = (case map_of (id_entries l) i of None \<Rightarrow> Inl OutOfRange | Some e \<Rightarrow> Inr e)"

definition IdList_remove :: "nat \<Rightarrow> 'e id_list \<Rightarrow> 'e id_list result" where
  "IdList_remove i l =
     (case map_of (id_entries l) i of
        None \<Rightarrow> Inl OutOfRange
      | Some e \<Rightarrow> Inr (l\<lparr>id_entries := AList.delete i (id_entries l)\<rparr>))"

record 'e open_file_list =
  openFiles :: "'e id_list"
  refcounts :: "(nat \<times> nat) list"

definition FuseOpenFileList_open :: "'e \<Rightarrow> 'e open_file_list \<Rightarrow> nat \<times> 'e open_file_list" where
  "FuseOpenFileList_open file l =
     (case IdList_add file (openFiles l) of
        (descriptor, ids) \<Rightarrow> (descriptor, l\<lparr>openFiles := ids, refcounts := um_insert (descriptor, 0) (refcounts l)\<rparr>))"

text \<open>
  \<open>load\<close> is split at its unlocked region: \<open>begin\<close> takes a reference and returns the file, \<open>end\<close> gives
  the reference back.
\<close>

definition FuseOpenFileList_load_begin :: "nat \<Rightarrow> ('e open_file_list, 'e) exec" where
  "FuseOpenFileList_load_begin descriptor l =
     (case map_of (refcounts l) descriptor of
        None \<Rightarrow> (Inl (Errno EBADF), l)
      | Some n \<Rightarrow>
          (case IdList_get descriptor (openFiles l) of
             Inl e \<Rightarrow> (Inl (Errno EBADF), l)
           | Inr file \<Rightarrow> (Inr file, l\<lparr>refcounts := um_put descriptor (n + 1) (refcounts l)\<rparr>)))"

definition FuseOpenFileList_load_end :: "nat \<Rightarrow> 'e open_file_list \<Rightarrow> 'e open_file_list" where
  "FuseOpenFileList_load_end descriptor l =
     (case map_of (refcounts l) descriptor of
        None \<Rightarrow> l
      | Some n \<Rightarrow> l\<lparr>refcounts := um_put descriptor (n - 1) (refcounts l)\<rparr>)"

text \<open>\<open>close\<close> waits until the count is zero; a descriptor that is not open is out of range.\<close>

definition FuseOpenFileList_close :: "nat \<Rightarrow> ('e open_file_list, unit) exec" where
  "FuseOpenFileList_close descriptor l =
     (case map_of (refcounts l) descriptor of
        None \<Rightarrow> (Inl OutOfRange, l)
      | Some n \<Rightarrow>
          if n \<noteq> 0 then (Inl OutOfFuel, l)
          else
            (case IdList_remove descriptor (openFiles l) of
               Inl e \<Rightarrow> (Inl e, l)
             | Inr ids \<Rightarrow> (Inr (), l\<lparr>openFiles := ids, refcounts := AList.delete descriptor (refcounts l)\<rparr>)))"

section \<open>FilesystemImpl\<close>

record 'w filesystem_impl =
  fi_fs :: "'w fs_state"
  fi_open_files :: "cry_open_file open_file_list"

definition in_fs :: "('w fs_state, 'a) exec \<Rightarrow> ('w filesystem_impl, 'a) exec" where
  "in_fs m s = (case m (fi_fs s) of (r, t) \<Rightarrow> (r, s\<lparr>fi_fs := t\<rparr>))"

definition or_errno :: "errno \<Rightarrow> ('w fs_state, 'a option) exec \<Rightarrow> ('w fs_state, 'a) exec" where
  "or_errno e m = ebind m (\<lambda>x. case x of None \<Rightarrow> throw (Errno e) | Some a \<Rightarrow> ret a)"

definition FilesystemImpl_LoadFile :: "'w cry_device \<Rightarrow> path \<Rightarrow> ('w fs_state, cry_node) exec" where
  "FilesystemImpl_LoadFile D path = or_errno EIO (CryDevice_LoadFile D path)"

definition FilesystemImpl_LoadDir :: "'w cry_device \<Rightarrow> path \<Rightarrow> ('w fs_state, cry_node) exec" where
  "FilesystemImpl_LoadDir D path = or_errno EIO (CryDevice_LoadDir D path)"

definition FilesystemImpl_LoadSymlink :: "'w cry_device \<Rightarrow> path \<Rightarrow> ('w fs_state, cry_node) exec" where
  "FilesystemImpl_LoadSymlink D path = or_errno EIO (CryDevice_LoadSymlink D path)"

definition FilesystemImpl_add_open :: "cry_open_file \<Rightarrow> ('w filesystem_impl, nat) exec" where
  "FilesystemImpl_add_open f s =
     (case FuseOpenFileList_open f (fi_open_files s) of (d, l) \<Rightarrow> (Inr d, s\<lparr>fi_open_files := l\<rparr>))"

definition FilesystemImpl_openFile :: "'w cry_device \<Rightarrow> path \<Rightarrow> ('w filesystem_impl, nat) exec" where
  "FilesystemImpl_openFile D path =
     ebind (in_fs (FilesystemImpl_LoadFile D path)) (\<lambda>file.
     ebind (in_fs (CryFile_open D file)) FilesystemImpl_add_open)"

text \<open>\<open>_open_files.load(descriptor, callback)\<close> when no other thread closes the descriptor meanwhile.\<close>

definition FilesystemImpl_with_open ::
  "nat \<Rightarrow> (cry_open_file \<Rightarrow> ('w fs_state, 'a) exec) \<Rightarrow> ('w filesystem_impl, 'a) exec" where
  "FilesystemImpl_with_open descriptor callback s =
     (case FuseOpenFileList_load_begin descriptor (fi_open_files s) of
        (Inl e, l) \<Rightarrow> (Inl e, s\<lparr>fi_open_files := l\<rparr>)
      | (Inr file, l) \<Rightarrow>
          (case in_fs (callback file) (s\<lparr>fi_open_files := l\<rparr>) of
             (r, t) \<Rightarrow> (r, t\<lparr>fi_open_files := FuseOpenFileList_load_end descriptor (fi_open_files t)\<rparr>)))"

definition FilesystemImpl_flush :: "'w cry_device \<Rightarrow> nat \<Rightarrow> ('w filesystem_impl, unit) exec" where
  "FilesystemImpl_flush D descriptor = FilesystemImpl_with_open descriptor (CryOpenFile_flush D)"

definition FilesystemImpl_closeFile :: "nat \<Rightarrow> ('w filesystem_impl, unit) exec" where
  "FilesystemImpl_closeFile descriptor s =
     (case FuseOpenFileList_close descriptor (fi_open_files s) of (r, l) \<Rightarrow> (r, s\<lparr>fi_open_files := l\<rparr>))"

definition FilesystemImpl_on_node ::
  "'w cry_device \<Rightarrow> path \<Rightarrow> (cry_node \<Rightarrow> ('w fs_state, 'a) exec) \<Rightarrow> ('w filesystem_impl, 'a) exec" where
  "FilesystemImpl_on_node D path f = in_fs (ebind (or_errno ENOENT (CryDevice_Load D path)) f)"

definition FilesystemImpl_lstat :: "'w cry_device \<Rightarrow> path \<Rightarrow> ('w filesystem_impl, stat_info) exec" where
  "FilesystemImpl_lstat D path = FilesystemImpl_on_node D path (CryNode_stat D)"

definition FilesystemImpl_fstat :: "'w cry_device \<Rightarrow> nat \<Rightarrow> ('w filesystem_impl, stat_info) exec" where
  "FilesystemImpl_fstat D descriptor = FilesystemImpl_with_open descriptor (CryOpenFile_stat D)"

definition FilesystemImpl_chmod :: "'w cry_device \<Rightarrow> path \<Rightarrow> mode \<Rightarrow> ('w filesystem_impl, unit) exec" where
  "FilesystemImpl_chmod D path m = FilesystemImpl_on_node D path (\<lambda>n. CryNode_chmod D n m)"

definition FilesystemImpl_chown :: "'w cry_device \<Rightarrow> path \<Rightarrow> u32 \<Rightarrow> u32 \<Rightarrow> ('w filesystem_impl, unit) exec" where
  "FilesystemImpl_chown D path uid gid = FilesystemImpl_on_node D path (\<lambda>n. CryNode_chown D n uid gid)"

definition FilesystemImpl_truncate :: "'w cry_device \<Rightarrow> path \<Rightarrow> nat \<Rightarrow> ('w filesystem_impl, unit) exec" where
  "FilesystemImpl_truncate D path sz =
     in_fs (ebind (FilesystemImpl_LoadFile D path) (\<lambda>n. CryFile_truncate D n sz))"

definition FilesystemImpl_ftruncate :: "'w cry_device \<Rightarrow> nat \<Rightarrow> nat \<Rightarrow> ('w filesystem_impl, unit) exec" where
  "FilesystemImpl_ftruncate D descriptor sz = FilesystemImpl_with_open descriptor (\<lambda>f. CryOpenFile_truncate D f sz)"

definition FilesystemImpl_read :: "'w cry_device \<Rightarrow> nat \<Rightarrow> nat \<Rightarrow> nat \<Rightarrow> ('w filesystem_impl, data) exec" where
  "FilesystemImpl_read D descriptor count offset =
     FilesystemImpl_with_open descriptor (\<lambda>f. CryOpenFile_read D f count offset)"

definition FilesystemImpl_write :: "'w cry_device \<Rightarrow> nat \<Rightarrow> data \<Rightarrow> nat \<Rightarrow> ('w filesystem_impl, unit) exec" where
  "FilesystemImpl_write D descriptor buf offset =
     FilesystemImpl_with_open descriptor (\<lambda>f. CryOpenFile_write D f buf offset)"

definition FilesystemImpl_fsync :: "'w cry_device \<Rightarrow> nat \<Rightarrow> ('w filesystem_impl, unit) exec" where
  "FilesystemImpl_fsync D descriptor = FilesystemImpl_with_open descriptor (CryOpenFile_flush D)"

definition FilesystemImpl_fdatasync :: "'w cry_device \<Rightarrow> nat \<Rightarrow> ('w filesystem_impl, unit) exec" where
  "FilesystemImpl_fdatasync D descriptor = FilesystemImpl_with_open descriptor (CryOpenFile_fdatasync D)"

text \<open>\<open>CryNode::access\<close> allows everything on a node that exists.\<close>

definition CryNode_access :: "'w cry_device \<Rightarrow> cry_node \<Rightarrow> int \<Rightarrow> ('w fs_state, unit) exec" where
  "CryNode_access D n accessMask = ret ()"

definition FilesystemImpl_access :: "'w cry_device \<Rightarrow> path \<Rightarrow> int \<Rightarrow> ('w filesystem_impl, unit) exec" where
  "FilesystemImpl_access D path accessMask = FilesystemImpl_on_node D path (\<lambda>n. CryNode_access D n accessMask)"

text \<open>The values \<open>statfs\<close> copies into the caller's structure.\<close>

definition FilesystemImpl_statfs :: "'w cry_device \<Rightarrow> ('w filesystem_impl, statvfs) exec" where
  "FilesystemImpl_statfs D = in_fs (CryDevice_statfs D)"

definition FilesystemImpl_createAndOpenFile ::
  "'w cry_device \<Rightarrow> path \<Rightarrow> mode \<Rightarrow> u32 \<Rightarrow> u32 \<Rightarrow> ('w filesystem_impl, nat) exec" where
  "FilesystemImpl_createAndOpenFile D path m uid gid =
     ebind (in_fs (ebind (FilesystemImpl_LoadDir D (butlast path)) (\<lambda>dir.
        CryDir_createAndOpenFile D dir (last path) m uid gid))) FilesystemImpl_add_open"

definition FilesystemImpl_mkdir ::
  "'w cry_device \<Rightarrow> path \<Rightarrow> mode \<Rightarrow> u32 \<Rightarrow> u32 \<Rightarrow> ('w filesystem_impl, unit) exec" where
  "FilesystemImpl_mkdir D path m uid gid =
     in_fs (ebind (FilesystemImpl_LoadDir D (butlast path)) (\<lambda>dir. CryDir_createDir D dir (last path) m uid gid))"

definition FilesystemImpl_rmdir :: "'w cry_device \<Rightarrow> path \<Rightarrow> ('w filesystem_impl, unit) exec" where
  "FilesystemImpl_rmdir D path = FilesystemImpl_on_node D path (CryNode_remove D)"

definition FilesystemImpl_unlink :: "'w cry_device \<Rightarrow> path \<Rightarrow> ('w filesystem_impl, unit) exec" where
  "FilesystemImpl_unlink D path = FilesystemImpl_on_node D path (CryNode_remove D)"

definition FilesystemImpl_rename :: "'w cry_device \<Rightarrow> path \<Rightarrow> path \<Rightarrow> ('w filesystem_impl, unit) exec" where
  "FilesystemImpl_rename D from_path to_path =
     FilesystemImpl_on_node D from_path (\<lambda>n. ebind (CryNode_rename D n to_path) (\<lambda>_. ret ()))"

definition FilesystemImpl_readDir ::
  "'w cry_device \<Rightarrow> path \<Rightarrow> ('w filesystem_impl, (entry_type \<times> data) list) exec" where
  "FilesystemImpl_readDir D path = in_fs (ebind (FilesystemImpl_LoadDir D path) (CryDir_children D))"

definition FilesystemImpl_utimens ::
  "'w cry_device \<Rightarrow> path \<Rightarrow> timespec \<Rightarrow> timespec \<Rightarrow> ('w filesystem_impl, unit) exec" where
  "FilesystemImpl_utimens D path atime mtime = FilesystemImpl_on_node D path (\<lambda>n. CryNode_utimens D n atime mtime)"

definition FilesystemImpl_createSymlink ::
  "'w cry_device \<Rightarrow> data \<Rightarrow> path \<Rightarrow> u32 \<Rightarrow> u32 \<Rightarrow> ('w filesystem_impl, unit) exec" where
  "FilesystemImpl_createSymlink D target path uid gid =
     in_fs (ebind (FilesystemImpl_LoadDir D (butlast path)) (\<lambda>dir. CryDir_createSymlink D dir (last path) target uid gid))"

text \<open>The buffer that \<open>readSymlink\<close> fills: the target with its null byte, cut to \<open>size\<close>, and a null byte at its end.\<close>

definition FilesystemImpl_readSymlink :: "'w cry_device \<Rightarrow> path \<Rightarrow> data \<Rightarrow> ('w filesystem_impl, data) exec" where
  "FilesystemImpl_readSymlink D path buf =
     in_fs (ebind (FilesystemImpl_LoadSymlink D path) (\<lambda>n.
     ebind (CrySymlink_target D n) (\<lambda>target.
     if buf = [] then throw MemoryFault
     else ret ((write_at 0 (take (length buf) (target @ [0])) buf)[length buf - 1 := 0]))))"

end
