(* ===== verification/Opening.thy ===== *)
theory Opening
  imports Configs BlobTowers FileSystem
begin

text \<open>
  Opening a file system: the parts of \<open>cryfs-cli/Cli.cpp\<close> that load the configuration with its checks, and the parts of
  \<open>cryfs/impl/filesystem/CryDevice.cpp\<close> that connect the configuration with the stores (root blob, migration, cipher).
  The state of the functions of the device is that of the configuration file (random generators and disk) with that of the blobs; the file
  and the blocks are kept in different parts of the base directory, so they are separate here.
\<close>

section \<open>CryDevice and its configuration\<close>

definition CryCipher_createEncryptedBlockstore ::
  "'r config_services \<Rightarrow> cry_cipher \<Rightarrow> 's block_store2 \<Rightarrow> string \<Rightarrow> ('r \<times> 's) block_store2 result" where
  "CryCipher_createEncryptedBlockstore C c base encKey =
     rbind (EncryptionKey_FromString (cs_alloc C) encKey) (\<lambda>key. Inr (EncryptedBlockStore2 (cs_cipher C (cipherName c)) key base))"

definition CryDevice_CreateEncryptedBlockStore ::
  "'r config_services \<Rightarrow> cry_config \<Rightarrow> 's block_store2 \<Rightarrow> ('r \<times> 's) block_store2 result" where
  "CryDevice_CreateEncryptedBlockStore C config base =
     rbind (CryCiphers_find (Cipher config)) (\<lambda>c. CryCipher_createEncryptedBlockstore C c base (EncryptionKey config))"

definition CryDevice_MigrateOrCreateFsBlobStore ::
  "'r config_services \<Rightarrow> 'f disk \<Rightarrow> nat \<Rightarrow> 'w blob_store \<Rightarrow> (data \<Rightarrow> bool) \<Rightarrow> cry_config_file \<Rightarrow> (('r \<times> 'f) \<times> 'w, cry_config_file) exec" where
  "CryDevice_MigrateOrCreateFsBlobStore C dk fuel B signal cf =
     (let rootBlobId = RootBlob (cf_config cf) in
      if rootBlobId = [] then ret cf
      else if \<not> HasParentPointers (cf_config cf) then
        ebind (lift_result (BlockId_FromString rootBlobId)) (\<lambda>root.
        ebind (zoom_snd (FsBlobStore_migrate fuel B signal root)) (\<lambda>_.
        let cf = cf\<lparr>cf_config := (cf_config cf)\<lparr>HasParentPointers := True\<rparr>\<rparr> in
        ebind (zoom_fst (CryConfigFile_save C dk cf)) (\<lambda>_. ret cf)))
      else ret cf)"

definition CryDevice_GetOrCreateRootBlobId ::
  "'r config_services \<Rightarrow> 'f disk \<Rightarrow> 'w cry_device \<Rightarrow> cry_config_file \<Rightarrow> (('r \<times> 'f) \<times> 'w fs_state, block_id \<times> cry_config_file) exec" where
  "CryDevice_GetOrCreateRootBlobId C dk D cf =
     (let root_blockId = RootBlob (cf_config cf) in
      if root_blockId = [] then
        ebind (zoom_snd (CryDevice_CreateRootBlobAndReturnId D)) (\<lambda>new_blockId.
        ebind (lift_result (BlockId_ToString new_blockId)) (\<lambda>name.
        let cf = cf\<lparr>cf_config := (cf_config cf)\<lparr>RootBlob := name\<rparr>\<rparr> in
        ebind (zoom_fst (CryConfigFile_save C dk cf)) (\<lambda>_. ret (new_blockId, cf))))
      else ebind (lift_result (BlockId_FromString root_blockId)) (\<lambda>i. ret (i, cf)))"

section \<open>Cli\<close>

text \<open>
  Paths are those of the model: \<open>baseDir\<close> is the normalized absolute path as text, a configuration file is named
  relative to it.
\<close>

record program_options =
  baseDir :: string
  configFilePath :: "disk_path option"
  allowFilesystemUpgrade :: bool
  allowReplacedFilesystem :: bool
  createMissingBasedir :: bool
  cipherOption :: "string option"
  blocksizeBytesOption :: "u32 option"
  allowIntegrityViolations :: bool
  missingBlockIsIntegrityViolationOption :: "bool option"

record credentials =
  password :: "string option"
  givenHash :: data

definition Cli_determineConfigFile :: "program_options \<Rightarrow> disk_path" where
  "Cli_determineConfigFile options = (case configFilePath options of None \<Rightarrow> [''cryfs.config''] | Some p \<Rightarrow> p)"

definition Cli_checkConfigIntegrity :: "'r services \<Rightarrow> 'e disk \<Rightarrow> string \<Rightarrow> cry_config_file \<Rightarrow> bool \<Rightarrow> ('e, unit) exec" where
  "Cli_checkConfigIntegrity V sd basedir config allowReplaced =
     (let filesystemId = FilesystemId (cf_config config) in
      ebind (BasedirMetadata_load V sd) (\<lambda>m.
      ebind (if \<not> allowReplaced
          then ebind (lift_result (BasedirMetadata_filesystemIdForBasedirIsCorrect basedir filesystemId m)) (\<lambda>correct.
            if \<not> correct then throw (CryfsException ErrorCode_FilesystemIdChanged) else ret ())
          else ret ()) (\<lambda>_.
      ebind (lift_result (BasedirMetadata_updateFilesystemIdForBasedir basedir filesystemId m)) (\<lambda>m.
      BasedirMetadata_save V sd m))))"

definition Cli_createKeyProvider ::
  "(nat \<Rightarrow> string \<Rightarrow> scrypt_parameters \<Rightarrow> data result) \<Rightarrow> (nat \<Rightarrow> ('r, data) exec) \<Rightarrow> scrypt_settings \<Rightarrow> credentials \<Rightarrow> 'r key_provider" where
  "Cli_createKeyProvider scrypt random settings c =
     (case password c of
        None \<Rightarrow> CryDirectKeyProvider (givenHash c)
      | Some pw \<Rightarrow> CryPresetPasswordBasedKeyProvider scrypt random settings pw)"

definition Cli_loadOrCreateConfigFile ::
  "'r config_services \<Rightarrow> 'f disk \<Rightarrow> 'e disk \<Rightarrow> nat \<Rightarrow> 'r key_provider \<Rightarrow> program_options \<Rightarrow> disk_path \<Rightarrow>
   (('r \<times> 'e) \<times> 'f, LoadError + config_load_result) exec" where
  "Cli_loadOrCreateConfigFile C dk sd fuel kp options path =
     CryConfigLoader_loadOrCreate C dk sd fuel
       \<lparr>keyProvider = kp, cipherFromCommandLine = cipherOption options, blocksizeBytesFromCommandLine = blocksizeBytesOption options,
        missingBlockIsIntegrityViolationFromCommandLine = missingBlockIsIntegrityViolationOption options\<rparr>
       path (allowFilesystemUpgrade options) (allowReplacedFilesystem options)"

definition Cli_loadOrCreateConfig ::
  "'r config_services \<Rightarrow> 'f disk \<Rightarrow> 'e disk \<Rightarrow> nat \<Rightarrow> 'r key_provider \<Rightarrow> program_options \<Rightarrow> (('r \<times> 'e) \<times> 'f, config_load_result) exec" where
  "Cli_loadOrCreateConfig C dk sd fuel kp options =
     ebind (Cli_loadOrCreateConfigFile C dk sd fuel kp options (Cli_determineConfigFile options)) (\<lambda>config.
     case config of
       Inl DecryptionFailed \<Rightarrow> throw (CryfsException ErrorCode_WrongPassword)
     | Inl ConfigFileNotFound \<Rightarrow> throw (CryfsException ErrorCode_InvalidFilesystem)
     | Inr x \<Rightarrow>
         ebind (zoom_fst (zoom_snd (Cli_checkConfigIntegrity (cs_services C) sd (baseDir options) (configFile x)
           (allowReplacedFilesystem options)))) (\<lambda>_. ret x))"

text \<open>The paths of \<open>_checkDirAccessible\<close> are below the root of the disk it runs on.\<close>

definition Cli_checkDirAccessible :: "'h disk \<Rightarrow> disk_path \<Rightarrow> bool \<Rightarrow> error_code \<Rightarrow> ('h, unit) exec" where
  "Cli_checkDirAccessible host dir createMissingDir errorCode =
     ebind (exists_of host dir) (\<lambda>ex.
     ebind (if \<not> ex then
         if createMissingDir
         then ebind (create_directory_of host dir) (\<lambda>created. if \<not> created then throw (CryfsException errorCode) else ret ())
         else throw (CryfsException errorCode)
       else ret ()) (\<lambda>_.
     ebind (is_directory_of host dir) (\<lambda>d. if \<not> d then throw (CryfsException errorCode) else ret ())))"

definition Cli_sanityChecks :: "'h disk \<Rightarrow> disk_path \<Rightarrow> program_options \<Rightarrow> ('h, unit) exec" where
  "Cli_sanityChecks host dir options = Cli_checkDirAccessible host dir (createMissingBasedir options) ErrorCode_InaccessibleBaseDir"

definition Cli_sanityCheckFilesystem :: "'w cry_device \<Rightarrow> ('w fs_state, unit) exec" where
  "Cli_sanityCheckFilesystem D =
     ebind (CryDevice_Load D []) (\<lambda>rootDir.
     case rootDir of
       None \<Rightarrow> throw (CryfsException ErrorCode_InvalidFilesystem)
     | Some n \<Rightarrow>
         if cn_type n \<noteq> DIR then throw (CryfsException ErrorCode_InvalidFilesystem)
         else ebind (CryDir_children D n) (\<lambda>_. ret ()))"

section \<open>Changing the password\<close>

text \<open>
  \<open>cryfs_change_encryption_key\<close> of \<open>src/src/jni/libcryfs-jni.cpp\<close>, with \<open>scrypt\<close>, its settings and the generator of the salt as parameters.
  Exceptions of the loader are not caught.
\<close>

definition cryfs_change_encryption_key ::
  "'r config_services \<Rightarrow> 'f disk \<Rightarrow> 'e disk \<Rightarrow> nat \<Rightarrow> (nat \<Rightarrow> string \<Rightarrow> scrypt_parameters \<Rightarrow> data result) \<Rightarrow> (nat \<Rightarrow> ('r, data) exec) \<Rightarrow>
   scrypt_settings \<Rightarrow> string option \<Rightarrow> data \<Rightarrow> string \<Rightarrow> (('r \<times> 'e) \<times> 'f, bool) exec" where
  "cryfs_change_encryption_key C dk sd fuel scrypt random settings currentPassword hashOfApp newPassword =
     (let currentKeyProvider = (case currentPassword of
            None \<Rightarrow> CryDirectKeyProvider hashOfApp
          | Some pw \<Rightarrow> CryPresetPasswordBasedKeyProvider scrypt random settings pw);
          newKeyProvider = CryPresetPasswordBasedKeyProvider scrypt random settings newPassword;
          configLoader = \<lparr>keyProvider = currentKeyProvider, cipherFromCommandLine = None, blocksizeBytesFromCommandLine = None,
            missingBlockIsIntegrityViolationFromCommandLine = None\<rparr> in
      ebind (CryConfigLoader_changeEncryptionKey C dk sd fuel configLoader [''cryfs.config''] False False newKeyProvider) (\<lambda>result.
      ret (result = None)))"

section \<open>The base directory is recognised\<close>

text \<open>What the file of base directories holds.\<close>

definition known_basedirs :: "'r services \<Rightarrow> (disk_path \<rightharpoonup> disk_node) \<Rightarrow> ptree \<Rightarrow> bool" where
  "known_basedirs V T pt \<longleftrightarrow>
     (case T [''basedirs''] of None \<Rightarrow> pt = [] | Some Folder \<Rightarrow> False | Some (Regular d) \<Rightarrow> read_json (sv_json V) d = Inr pt)"

lemma load_basedirs:
  assumes "disk_laws sd einv etree fits room" and "einv e" and "known_basedirs V (etree e) pt"
  obtains e' where "BasedirMetadata_load V sd e = (Inr \<lparr>bm_filename = [''basedirs''], bm_data = pt\<rparr>, e')" and "einv e'" and "etree e' = etree e"
    and "room e' = room e"
proof -
  obtain e1 where e1: "LocalStateDir_createDirIfNotExists sd [] e = (Inr (), e1)" "einv e1" "etree e1 = etree e" "room e1 = room e"
    using disk_laws.createDir_root [OF assms(1), OF assms(2)] by (auto elim!: yieldsE)
  show thesis
  proof (cases "etree e [''basedirs'']")
    case None
    then have n: "etree e1 [''basedirs''] = None" using e1(3) by simp
    obtain st e2 where "open_in_of sd [''basedirs''] e1 = (Inr st, e2)" "\<not> is_good st" "einv e2" "etree e2 = etree e1" "room e2 = room e1"
      by (rule disk_laws.open_missing [OF assms(1), OF e1(2) n])
    then show thesis using that [of e2] e1 None assms(3)
      by (simp add: BasedirMetadata_load_def LocalStateDir_forBasedirMetadata_def ebind_def known_basedirs_def)
  next
    case (Some x)
    then obtain d where d: "x = Regular d" "read_json (sv_json V) d = Inr pt" using assms(3) by (cases x) (auto simp: known_basedirs_def)
    then have n: "etree e1 [''basedirs''] = Some (Regular d)" using e1(3) Some by simp
    obtain e2 where "open_in_of sd [''basedirs''] e1 = (Inr \<lparr>is_bytes = d, is_pos = 0, is_limit = length d, is_good = True\<rparr>, e2)"
        "einv e2" "etree e2 = etree e1" "room e2 = room e1"
      by (rule disk_laws.open_regular [OF assms(1), OF e1(2) n])
    then show thesis using that [of e2] e1 d(2)
      by (simp add: BasedirMetadata_load_def LocalStateDir_forBasedirMetadata_def ebind_def Data_LoadFromStream_all)
  qed
qed

text \<open>The text of a base directory can be added to the ones that are known.\<close>

definition addable :: "string \<Rightarrow> ptree \<Rightarrow> bool" where
  "addable basedir pt \<longleftrightarrow> printable basedir \<and> printable_tree pt \<and>
     list_all (\<lambda>k. \<not> below (jsonPathForBasedir basedir) k \<and> \<not> below k (jsonPathForBasedir basedir)) (map fst pt)"

lemma addable_after:
  assumes "addable basedir pt" and "printable_tree pt'" and "map_of pt' = (map_of pt)(jsonPathForBasedir basedir \<mapsto> v)"
  shows "addable basedir pt'"
proof -
  have "set (map fst pt') = dom (map_of pt')" by (simp add: dom_map_of_conv_image_fst)
  also have "\<dots> = insert (jsonPathForBasedir basedir) (set (map fst pt))" unfolding assms(3) by (simp add: dom_map_of_conv_image_fst)
  moreover have "\<not> below (jsonPathForBasedir basedir) (jsonPathForBasedir basedir)" by (simp add: below_def)
  ultimately show ?thesis using assms(1,2) unfolding addable_def list_all_iff by auto
qed

lemma integrity_check_passes:
  assumes "disk_laws sd einv etree (\<lambda>c. True) (\<lambda>d n. True)" and "services_ok V" and "einv e" and "known_basedirs V (etree e) pt"
    and "addable basedir pt" and "i = FilesystemId (cf_config cf)" and "length i = 16"
    and "allow \<or> map_of pt (jsonPathForBasedir basedir) \<in> {None, Some (HexEncoder i)}"
  obtains e' pt' where "Cli_checkConfigIntegrity V sd basedir cf allow e = (Inr (), e')" and "einv e'" and "known_basedirs V (etree e') pt'"
    and "addable basedir pt'" and "map_of pt' = (map_of pt)(jsonPathForBasedir basedir \<mapsto> HexEncoder i)"
proof -
  let ?k = "jsonPathForBasedir basedir" and ?m = "\<lparr>bm_filename = [''basedirs''], bm_data = pt\<rparr>"
  obtain e1 where e1: "BasedirMetadata_load V sd e = (Inr ?m, e1)" "einv e1" "etree e1 = etree e"
    by (rule load_basedirs [OF assms(1), OF assms(3,4)])
  have "printable ?k" using assms(5) by (simp add: addable_def jsonPathForBasedir_def printable_def)
  then have "printable_tree (ptree_put ?k (HexEncoder i) pt)"
    using assms(5) unfolding addable_def by (intro printable_put) simp_all
  then obtain d pt' where d: "write_json (sv_json V) (ptree_put ?k (HexEncoder i) pt) = Inr d" "read_json (sv_json V) d = Inr pt'"
      "printable_tree pt'" "map_of pt' = map_of (ptree_put ?k (HexEncoder i) pt)"
    using json_laws.read_written assms(2) unfolding services_ok_def by blast
  have t: "etree e1 [] = Some Folder" "etree e1 ([] @ [''basedirs'']) \<noteq> Some Folder"
    using disk_laws.parents(1) [OF assms(1), OF e1(2)] assms(4) e1(3) by (auto simp: known_basedirs_def split: option.splits disk_node.splits)
  obtain e2 where e2: "save_json sd [''basedirs''] (Inr d) e1 = (Inr (), e2)" "einv e2" "etree e2 = (etree e)([''basedirs''] \<mapsto> Regular d)"
    using disk_laws.save_json_ok [OF assms(1), OF e1(2) t, of d] e1(3) by (auto elim!: yieldsE)
  have "\<not> allow \<Longrightarrow> BasedirMetadata_filesystemIdForBasedirIsCorrect basedir i ?m = Inr True"
    using assms(7,8) by (auto simp: BasedirMetadata_filesystemIdForBasedirIsCorrect_def FixedSizeData_roundtrip)
  then have "Cli_checkConfigIntegrity V sd basedir cf allow e = (Inr (), e2)"
    using e1(1) e2(1) d(1) assms(6,7)
    by (cases allow) (simp_all add: Cli_checkConfigIntegrity_def BasedirMetadata_updateFilesystemIdForBasedir_def BasedirMetadata_save_def ebind_def Let_def)
  moreover have "known_basedirs V (etree e2) pt'" using e2(3) d(2) by (simp add: known_basedirs_def)
  moreover have "map_of pt' = (map_of pt)(?k \<mapsto> HexEncoder i)" using d(4) by simp
  ultimately show thesis using that e2(2) addable_after [OF assms(5) d(3)] by blast
qed

text \<open>
  C12. A replaced file system in a base directory is recognised: after a file system was opened from a base directory, opening
  the same directory again succeeds exactly if the configuration there has the same identifier of the file system; another
  identifier is refused with \<open>FilesystemIdChanged\<close>.
\<close>

theorem replaced_filesystem_detected:
  assumes "disk_laws sd einv etree (\<lambda>c. True) (\<lambda>d n. True)" and "services_ok V" and "einv e" and "known_basedirs V (etree e) pt"
    and "addable basedir pt" and "i = FilesystemId (cf_config cf)" and "length i = 16"
    and "allow \<or> map_of pt (jsonPathForBasedir basedir) \<in> {None, Some (HexEncoder i)}"
  shows "\<exists>e'. Cli_checkConfigIntegrity V sd basedir cf allow e = (Inr (), e') \<and>
    (\<forall>cf'. length (FilesystemId (cf_config cf')) = 16 \<longrightarrow>
      fst (Cli_checkConfigIntegrity V sd basedir cf' False e') =
        (if FilesystemId (cf_config cf') = i then Inr () else Inl (CryfsException ErrorCode_FilesystemIdChanged)))"
proof -
  obtain e' pt' where e': "Cli_checkConfigIntegrity V sd basedir cf allow e = (Inr (), e')" "einv e'" "known_basedirs V (etree e') pt'"
      "addable basedir pt'" "map_of pt' = (map_of pt)(jsonPathForBasedir basedir \<mapsto> HexEncoder i)"
    by (rule integrity_check_passes [OF assms(1), OF assms(2-8)])
  have "fst (Cli_checkConfigIntegrity V sd basedir cf' False e') =
      (if FilesystemId (cf_config cf') = i then Inr () else Inl (CryfsException ErrorCode_FilesystemIdChanged))"
    if l: "length (FilesystemId (cf_config cf')) = 16" for cf'
  proof (cases "FilesystemId (cf_config cf') = i")
    case True
    have "False \<or> map_of pt' (jsonPathForBasedir basedir) \<in> {None, Some (HexEncoder (FilesystemId (cf_config cf')))}" using e'(5) True by simp
    then obtain e2 where "Cli_checkConfigIntegrity V sd basedir cf' False e' = (Inr (), e2)"
      by (rule integrity_check_passes [OF assms(1), OF assms(2) e'(2-4) refl l])
    then show ?thesis using True by simp
  next
    case False
    obtain e2 where "BasedirMetadata_load V sd e' = (Inr \<lparr>bm_filename = [''basedirs''], bm_data = pt'\<rparr>, e2)"
      by (rule load_basedirs [OF assms(1), OF e'(2,3)])
    then show ?thesis
      using False e'(5) assms(7)
      by (auto simp: Cli_checkConfigIntegrity_def ebind_def BasedirMetadata_filesystemIdForBasedirIsCorrect_def FixedSizeData_roundtrip Let_def)
  qed
  with e'(1) show ?thesis by blast
qed

definition test_file :: "cry_config \<Rightarrow> cry_config_file" where
  "test_file c = \<lparr>cf_path = [''cryfs.config''], cf_config = c, cf_encryptor = \<lparr>ce_derivedKey = zeroes MaxTotalKeySize, ce_kdfParameters = []\<rparr>,
     cf_access = ReadWrite\<rparr>"

lemma replaced_filesystem_detected_witness:
  "\<exists>e'. Cli_checkConfigIntegrity test_services (memory_disk 0) ''/data'' (test_file test_config) False [] = (Inr (), e') \<and>
    fst (Cli_checkConfigIntegrity test_services (memory_disk 0) ''/data'' (test_file (test_config\<lparr>FilesystemId := replicate 16 2\<rparr>)) False e') =
      Inl (CryfsException ErrorCode_FilesystemIdChanged)"
proof -
  have "file_tree_inv []" "known_basedirs test_services (file_at []) []" "addable ''/data'' []" "length (replicate 16 (1 :: byte)) = 16"
      "False \<or> map_of [] (jsonPathForBasedir ''/data'') \<in> {None, Some (HexEncoder (replicate 16 1))}"
    by (simp_all add: empty_disk known_basedirs_def addable_def printable_def)
  note r = replaced_filesystem_detected [OF memory_disk.disk_laws_axioms [of 0], OF test_services_ok, where cf = "test_file test_config",
      OF this(1-3) _ this(4,5)]
  have "replicate 16 1 = FilesystemId (cf_config (test_file test_config))" by (simp add: test_file_def test_config_def)
  from r [OF this] obtain e' where e: "Cli_checkConfigIntegrity test_services (memory_disk 0) ''/data'' (test_file test_config) False [] = (Inr (), e')"
    and n: "\<forall>cf'. length (FilesystemId (cf_config cf')) = 16 \<longrightarrow> fst (Cli_checkConfigIntegrity test_services (memory_disk 0) ''/data'' cf' False e') =
        (if FilesystemId (cf_config cf') = replicate 16 1 then Inr () else Inl (CryfsException ErrorCode_FilesystemIdChanged))"
    by blast
  have "FilesystemId (cf_config (test_file (test_config\<lparr>FilesystemId := replicate 16 2\<rparr>))) = replicate 16 2" by (simp add: test_file_def)
  with n have "fst (Cli_checkConfigIntegrity test_services (memory_disk 0) ''/data'' (test_file (test_config\<lparr>FilesystemId := replicate 16 2\<rparr>)) False e') =
      Inl (CryfsException ErrorCode_FilesystemIdChanged)" by (simp add: numeral_eq_Suc)
  with e show ?thesis by blast
qed

section \<open>The root directory is created once\<close>

context blob_arrays
begin

lemma createRoot_ok:
  assumes "rep w M" and "19 \<le> limit" and "Suc (need 0 19) \<le> ids_left w" and "cd_blobStore D = B" and "blob_flush B = (\<lambda>i. ret ())"
  obtains i s' where "CryDevice_CreateRootBlobAndReturnId D \<lparr>loadedBlobs = [], fs_store = w\<rparr> = (Inr i, s')" and "M i = None"
    and "rep (fs_store s') (M(i \<mapsto> fs_header DIR BlockId_Null))"
proof -
  obtain i w' where c: "FsBlobStore_createDirBlob B BlockId_Null w =
      (Inr (DirBlob \<lparr>db_blockId = i, db_parent = BlockId_Null, db_entries = [], db_changed = False\<rparr>), w')"
      "M i = None" "fs_at w' (M(i \<mapsto> fs_header DIR BlockId_Null)) i DIR BlockId_Null []"
    using createDirBlob_ok [OF assms(1-3), of BlockId_Null] unfolding returns_def by blast
  let ?d = "\<lparr>db_blockId = i, db_parent = BlockId_Null, db_entries = [], db_changed = False\<rparr>"
  have "CryDevice_CreateRootBlobAndReturnId D \<lparr>loadedBlobs = [], fs_store = w\<rparr> = (Inr i, \<lparr>loadedBlobs = [(i, DirBlob ?d)], fs_store = w'\<rparr>)"
    using c(1) assms(4,5)
    by (simp add: CryDevice_CreateRootBlobAndReturnId_def FsBlobs_create_def in_store_def ebind_def put_blob_def fs_blob_id_def um_put_def
        DirBlobRef_flush_def get_dir_def DirBlob_flush_def DirBlob_writeEntriesToBlob_def)
  then show thesis using that c(2,3) by (simp add: fs_at_def)
qed

end

text \<open>
  C15. The root directory is created once: for a configuration without a root blob, the device creates an empty directory, in a
  fresh blob beside the others, and stores its identifier in the configuration file; every later device that loads the file
  finds the same root without creating anything.
\<close>

theorem root_blob_remembered:
  assumes "blob_setting dk dinv tree Ci key_ok overhead encKey clog L maxDepth" and "holds_blobs dinv tree Ci encKey overhead L maxDepth w M"
    and "19 \<le> blob_limit L maxDepth" and "Suc (blob_need L maxDepth 0 19) \<le> length (fst (snd w))"
    and "cd_blobStore D = cached_blob_store fill start Ci encKey dk clog L"
    and "disk_laws fd finv ftree (\<lambda>c. True) (\<lambda>d n. True)" and "finv f" and "ftree f p = Some Folder" and "ftree f (p @ [name]) \<noteq> Some Folder"
    and "RootBlob c = []" and "\<And>i. storable C E (c\<lparr>RootBlob := id_string i\<rparr>)" and "key_answers kp E"
  shows "\<exists>i cf' r' f' s'. CryDevice_GetOrCreateRootBlobId C fd D \<lparr>cf_path = p @ [name], cf_config = c, cf_encryptor = E, cf_access = ReadWrite\<rparr>
      ((r, f), \<lparr>loadedBlobs = [], fs_store = w\<rparr>) = (Inr (i, cf'), ((r', f'), s')) \<and> M i = None \<and>
    holds_blobs dinv tree Ci encKey overhead L maxDepth (fs_store s') (M(i \<mapsto> fs_header DIR BlockId_Null)) \<and>
    (\<forall>access r2. \<exists>cf2 r3 f3. CryConfigFile_load C fd (p @ [name]) kp access (r2, f') = (Inr (Inr cf2), (r3, f3)) \<and>
      (\<forall>v. CryDevice_GetOrCreateRootBlobId C fd D cf2 v = (Inr (i, cf2), v)))"
proof -
  let ?B = "cached_blob_store fill start Ci encKey dk clog L"
  have fl: "blob_flush ?B = (\<lambda>i. ret ())" by (simp add: cached_blob_store_def BlobStoreOnBlocks_def)
  obtain i s' where i: "CryDevice_CreateRootBlobAndReturnId D \<lparr>loadedBlobs = [], fs_store = w\<rparr> = (Inr i, s')" "M i = None"
      "holds_blobs dinv tree Ci encKey overhead L maxDepth (fs_store s') (M(i \<mapsto> fs_header DIR BlockId_Null))"
    by (rule blob_arrays.createRoot_ok [OF cached_blob_arrays [OF assms(1), of fill start] assms(2-5) fl])
  define c' where "c' = c\<lparr>RootBlob := id_string i\<rparr>"
  define cf' where "cf' = \<lparr>cf_path = p @ [name], cf_config = c', cf_encryptor = E, cf_access = ReadWrite\<rparr>"
  have st: "storable C E c'" unfolding c'_def by (rule assms(11))
  obtain bs r' f' where f': "CryConfigFile_save C fd cf' (r, f) = (Inr (), (r', f'))" "holds_config C E c' bs" "finv f'"
      "ftree f' = (ftree f)(p @ [name] \<mapsto> Regular bs)"
    by (rule disk_laws.save_config_file [OF assms(6), OF assms(7-9) _ st _ cf'_def, of r]) simp_all
  have "CryDevice_GetOrCreateRootBlobId C fd D \<lparr>cf_path = p @ [name], cf_config = c, cf_encryptor = E, cf_access = ReadWrite\<rparr>
      ((r, f), \<lparr>loadedBlobs = [], fs_store = w\<rparr>) = (Inr (i, cf'), ((r', f'), s'))"
    using i(1) f'(1) assms(10) by (simp add: CryDevice_GetOrCreateRootBlobId_def ebind_def zoom_fst_def zoom_snd_def cf'_def c'_def Let_def)
  moreover have "\<exists>cf2 r3 f3. CryConfigFile_load C fd (p @ [name]) kp access (r2, f') = (Inr (Inr cf2), (r3, f3)) \<and>
      (\<forall>v. CryDevice_GetOrCreateRootBlobId C fd D cf2 v = (Inr (i, cf2), v))" for access r2
  proof -
    have b: "ftree f' (p @ [name]) = Some (Regular bs)" using f'(4) by simp
    obtain r3 f3 where l: "CryConfigFile_load C fd (p @ [name]) kp access (r2, f') =
        (Inr (Inr \<lparr>cf_path = p @ [name], cf_config = c', cf_encryptor = E, cf_access = access\<rparr>), (r3, f3))"
      by (rule disk_laws.load_config_file [OF assms(6), OF f'(3) b f'(2) assms(12), of access r2])
    have "length (id_string i) \<noteq> 0" by simp
    then have "id_string i \<noteq> []" by (metis list.size(3))
    then have "CryDevice_GetOrCreateRootBlobId C fd D \<lparr>cf_path = p @ [name], cf_config = c', cf_encryptor = E, cf_access = access\<rparr> v =
        (Inr (i, \<lparr>cf_path = p @ [name], cf_config = c', cf_encryptor = E, cf_access = access\<rparr>), v)" for v
      by (simp add: CryDevice_GetOrCreateRootBlobId_def ebind_def c'_def)
    with l show ?thesis by blast
  qed
  ultimately show ?thesis using i(2,3) by blast
qed

definition root_device :: "(nat \<times> file_tree) caching_state blob_state cry_device" where
  "root_device =
     \<lparr>cd_blobStore = cached_blob_store 0 0 test_cipher 5 (memory_disk 0) exact_ceilLog (layout_of 40),
      cd_rootBlobId = bid 1, cd_startpos = exact_startpos, cd_junk = 0, cd_behavior = noatime, cd_now = example_time, cd_uid = 0, cd_gid = 0\<rparr>"

lemma root_blob_remembered_witness:
  "\<exists>i cf' r f s cf2 r3 f3. CryDevice_GetOrCreateRootBlobId test_config_services (memory_disk 0) root_device (test_file test_config)
      ((0, []), \<lparr>loadedBlobs = [], fs_store = fresh_blobs test_ids 0 [] 0\<rparr>) = (Inr (i, cf'), ((r, f), s)) \<and>
    CryConfigFile_load test_config_services (memory_disk 0) [''cryfs.config''] (CryDirectKeyProvider (zeroes MaxTotalKeySize)) ReadOnly (7, f) =
      (Inr (Inr cf2), (r3, f3)) \<and>
    fst (CryDevice_GetOrCreateRootBlobId test_config_services (memory_disk 0) root_device cf2 ((9, f), s)) = Inr (i, cf2)"
proof -
  let ?E = "\<lparr>ce_derivedKey = zeroes MaxTotalKeySize, ce_kdfParameters = []\<rparr>"
  have st: "storable test_config_services ?E (test_config\<lparr>RootBlob := id_string i\<rparr>)" for i by (rule test_storable_root) simp_all
  have p: "19 \<le> blob_limit (layout_of 40) 10" "Suc (blob_need (layout_of 40) 10 0 19) \<le> length (fst (snd (fresh_blobs test_ids 0 [] 0)))"
      "cd_blobStore root_device = cached_blob_store 0 0 test_cipher 5 (memory_disk 0) exact_ceilLog (layout_of 40)"
      "file_tree_inv []" "file_at [] [] = Some Folder" "file_at [] ([] @ [''cryfs.config'']) \<noteq> Some Folder"
      "RootBlob test_config = []" "key_answers (CryDirectKeyProvider (zeroes MaxTotalKeySize)) ?E"
    by (simp_all add: test_sizes fresh_blobs_def test_ids_def leaf_count_def cdiv_def root_device_def empty_disk test_config_def key_answers_def
        CryDirectKeyProvider_def ebind_def assert_exec_def)
  from root_blob_remembered [OF test_setting [of 0] fresh_holds [OF test_setting [of 0] test_disk distinct_test_ids, of 0 0] p(1-3),
      OF memory_disk.disk_laws_axioms [of 0], OF p(4-7) st p(8), of 0, unfolded append_Nil, folded test_file_def]
  obtain i cf' r f s where a: "CryDevice_GetOrCreateRootBlobId test_config_services (memory_disk 0) root_device (test_file test_config)
      ((0, []), \<lparr>loadedBlobs = [], fs_store = fresh_blobs test_ids 0 [] 0\<rparr>) = (Inr (i, cf'), ((r, f), s))"
    and b: "\<forall>access r2. \<exists>cf2 r3 f3. CryConfigFile_load test_config_services (memory_disk 0) [''cryfs.config'']
        (CryDirectKeyProvider (zeroes MaxTotalKeySize)) access (r2, f) = (Inr (Inr cf2), (r3, f3)) \<and>
      (\<forall>v. CryDevice_GetOrCreateRootBlobId test_config_services (memory_disk 0) root_device cf2 v = (Inr (i, cf2), v))"
    by blast
  from b obtain cf2 r3 f3 where "CryConfigFile_load test_config_services (memory_disk 0) [''cryfs.config'']
        (CryDirectKeyProvider (zeroes MaxTotalKeySize)) ReadOnly (7, f) = (Inr (Inr cf2), (r3, f3))"
      "\<forall>v. CryDevice_GetOrCreateRootBlobId test_config_services (memory_disk 0) root_device cf2 v = (Inr (i, cf2), v)" by blast
  with a show ?thesis by auto
qed

end
