(* ===== verification/FuseBinding.thy ===== *)
theory FuseBinding
  imports FileSystem
begin

text \<open>
  \<open>src/src/fspp/fuse\<close>: the callbacks that a FUSE driver or the JNI layer calls. Each checks its paths, calls the
  file system and turns exceptions into negative error numbers. Before \<open>init\<close> and after \<open>destroy\<close> the file system
  behind them is \<open>InvalidFilesystem\<close>. Sizes, offsets and descriptors are natural numbers: the kernel passes no
  negative ones, and a descriptor that \<open>open\<close> returned fits the \<open>int\<close> that the file system takes.
\<close>

section \<open>Paths\<close>

text \<open>
  A \<open>boost::filesystem::path\<close> as the code observes it: what boost answers about its root, its string and its generic string, and its
  components below the root.
\<close>

record fs_path =
  has_root_directory :: bool
  has_root_name :: bool
  path_string :: string
  generic_string :: string
  components :: path

definition is_valid_fspp_path :: "fs_path \<Rightarrow> bool" where
  "is_valid_fspp_path path \<longleftrightarrow> has_root_directory path \<and> \<not> has_root_name path \<and> path_string path = generic_string path"

section \<open>The Filesystem interface\<close>

text \<open>The virtual methods, on states \<open>'f\<close> of the file system. Output parameters are results.\<close>

record 'f filesystem =
  setContext :: "TimestampUpdateBehavior \<Rightarrow> ('f, unit) exec"
  createAndOpenFile :: "fs_path \<Rightarrow> mode \<Rightarrow> u32 \<Rightarrow> u32 \<Rightarrow> ('f, nat) exec"
  openFile :: "fs_path \<Rightarrow> int \<Rightarrow> ('f, nat) exec"
  flush_file :: "nat \<Rightarrow> ('f, unit) exec"
  closeFile :: "nat \<Rightarrow> ('f, unit) exec"
  lstat :: "fs_path \<Rightarrow> ('f, stat_info) exec"
  fstat :: "nat \<Rightarrow> ('f, stat_info) exec"
  chmod :: "fs_path \<Rightarrow> mode \<Rightarrow> ('f, unit) exec"
  chown :: "fs_path \<Rightarrow> u32 \<Rightarrow> u32 \<Rightarrow> ('f, unit) exec"
  truncate_path :: "fs_path \<Rightarrow> nat \<Rightarrow> ('f, unit) exec"
  ftruncate :: "nat \<Rightarrow> nat \<Rightarrow> ('f, unit) exec"
  read_file :: "nat \<Rightarrow> nat \<Rightarrow> nat \<Rightarrow> ('f, data) exec"
  write_file :: "nat \<Rightarrow> data \<Rightarrow> nat \<Rightarrow> ('f, unit) exec"
  fsync :: "nat \<Rightarrow> ('f, unit) exec"
  fdatasync :: "nat \<Rightarrow> ('f, unit) exec"
  access :: "fs_path \<Rightarrow> int \<Rightarrow> ('f, unit) exec"
  mkdir :: "fs_path \<Rightarrow> mode \<Rightarrow> u32 \<Rightarrow> u32 \<Rightarrow> ('f, unit) exec"
  rmdir :: "fs_path \<Rightarrow> ('f, unit) exec"
  unlink :: "fs_path \<Rightarrow> ('f, unit) exec"
  rename_path :: "fs_path \<Rightarrow> fs_path \<Rightarrow> ('f, unit) exec"
  utimens :: "fs_path \<Rightarrow> timespec \<Rightarrow> timespec \<Rightarrow> ('f, unit) exec"
  statfs :: "('f, statvfs) exec"
  readDir :: "fs_path \<Rightarrow> ('f, (entry_type \<times> data) list) exec"
  createSymlink :: "data \<Rightarrow> fs_path \<Rightarrow> u32 \<Rightarrow> u32 \<Rightarrow> ('f, unit) exec"
  readSymlink :: "fs_path \<Rightarrow> data \<Rightarrow> ('f, data) exec"

definition not_initialized :: "('f, 'a) exec" where
  "not_initialized = throw (LogicError ''Filesystem not initialized yet'')"

definition InvalidFilesystem :: "'f filesystem" where
  "InvalidFilesystem =
     \<lparr>setContext = (\<lambda>_. not_initialized), createAndOpenFile = (\<lambda>_ _ _ _. not_initialized), openFile = (\<lambda>_ _. not_initialized),
      flush_file = (\<lambda>_. not_initialized), closeFile = (\<lambda>_. not_initialized), lstat = (\<lambda>_. not_initialized),
      fstat = (\<lambda>_. not_initialized), chmod = (\<lambda>_ _. not_initialized), chown = (\<lambda>_ _ _. not_initialized),
      truncate_path = (\<lambda>_ _. not_initialized), ftruncate = (\<lambda>_ _. not_initialized), read_file = (\<lambda>_ _ _. not_initialized),
      write_file = (\<lambda>_ _ _. not_initialized), fsync = (\<lambda>_. not_initialized), fdatasync = (\<lambda>_. not_initialized),
      access = (\<lambda>_ _. not_initialized), mkdir = (\<lambda>_ _ _ _. not_initialized), rmdir = (\<lambda>_. not_initialized),
      unlink = (\<lambda>_. not_initialized), rename_path = (\<lambda>_ _. not_initialized), utimens = (\<lambda>_ _ _. not_initialized),
      statfs = not_initialized, readDir = (\<lambda>_. not_initialized), createSymlink = (\<lambda>_ _ _ _. not_initialized),
      readSymlink = (\<lambda>_ _. not_initialized)\<rparr>"

text \<open>\<open>FilesystemImpl\<close> with the device it owns; \<open>setContext\<close> goes to the device. \<open>openFile\<close> does not use its flags.\<close>

type_synonym 'w impl_state = "'w cry_device \<times> 'w filesystem_impl"

definition with_device :: "('w cry_device \<Rightarrow> ('w filesystem_impl, 'a) exec) \<Rightarrow> ('w impl_state, 'a) exec" where
  "with_device f s = (case f (fst s) (snd s) of (r, t) \<Rightarrow> (r, (fst s, t)))"

definition FilesystemImpl_setContext :: "TimestampUpdateBehavior \<Rightarrow> ('w impl_state, unit) exec" where
  "FilesystemImpl_setContext context = modify (\<lambda>s. ((fst s)\<lparr>cd_behavior := context\<rparr>, snd s))"

definition FilesystemImpl :: "'w impl_state filesystem" where
  "FilesystemImpl =
     \<lparr>setContext = FilesystemImpl_setContext,
      createAndOpenFile = (\<lambda>p m uid gid. with_device (\<lambda>D. FilesystemImpl_createAndOpenFile D (components p) m uid gid)),
      openFile = (\<lambda>p flags. with_device (\<lambda>D. FilesystemImpl_openFile D (components p))),
      flush_file = (\<lambda>d. with_device (\<lambda>D. FilesystemImpl_flush D d)),
      closeFile = (\<lambda>d. with_device (\<lambda>D. FilesystemImpl_closeFile d)),
      lstat = (\<lambda>p. with_device (\<lambda>D. FilesystemImpl_lstat D (components p))),
      fstat = (\<lambda>d. with_device (\<lambda>D. FilesystemImpl_fstat D d)),
      chmod = (\<lambda>p m. with_device (\<lambda>D. FilesystemImpl_chmod D (components p) m)),
      chown = (\<lambda>p uid gid. with_device (\<lambda>D. FilesystemImpl_chown D (components p) uid gid)),
      truncate_path = (\<lambda>p n. with_device (\<lambda>D. FilesystemImpl_truncate D (components p) n)),
      ftruncate = (\<lambda>d n. with_device (\<lambda>D. FilesystemImpl_ftruncate D d n)),
      read_file = (\<lambda>d n off. with_device (\<lambda>D. FilesystemImpl_read D d n off)),
      write_file = (\<lambda>d buf off. with_device (\<lambda>D. FilesystemImpl_write D d buf off)),
      fsync = (\<lambda>d. with_device (\<lambda>D. FilesystemImpl_fsync D d)),
      fdatasync = (\<lambda>d. with_device (\<lambda>D. FilesystemImpl_fdatasync D d)),
      access = (\<lambda>p m. with_device (\<lambda>D. FilesystemImpl_access D (components p) m)),
      mkdir = (\<lambda>p m uid gid. with_device (\<lambda>D. FilesystemImpl_mkdir D (components p) m uid gid)),
      rmdir = (\<lambda>p. with_device (\<lambda>D. FilesystemImpl_rmdir D (components p))),
      unlink = (\<lambda>p. with_device (\<lambda>D. FilesystemImpl_unlink D (components p))),
      rename_path = (\<lambda>p q. with_device (\<lambda>D. FilesystemImpl_rename D (components p) (components q))),
      utimens = (\<lambda>p a m. with_device (\<lambda>D. FilesystemImpl_utimens D (components p) a m)),
      statfs = with_device (\<lambda>D. FilesystemImpl_statfs D),
      readDir = (\<lambda>p. with_device (\<lambda>D. FilesystemImpl_readDir D (components p))),
      createSymlink = (\<lambda>tgt p uid gid. with_device (\<lambda>D. FilesystemImpl_createSymlink D tgt (components p) uid gid)),
      readSymlink = (\<lambda>p buf. with_device (\<lambda>D. FilesystemImpl_readSymlink D (components p) buf))\<rparr>"

section \<open>Fuse\<close>

text \<open>
  The object behind \<open>_fs\<close> is a table of methods with a state. The members \<open>uid\<close> and \<open>gid\<close> are never
  assigned in the class, so their values are arbitrary.
\<close>

record 'f fuse =
  fu_init :: "'f filesystem \<times> 'f"
  fu_fs :: "'f filesystem \<times> 'f"
  fu_running :: bool
  fu_context :: "TimestampUpdateBehavior option"
  fu_uid :: u32
  fu_gid :: u32

definition Fuse_new :: "'f filesystem \<times> 'f \<Rightarrow> u32 \<Rightarrow> u32 \<Rightarrow> 'f fuse" where
  "Fuse_new init uid gid =
     \<lparr>fu_init = init, fu_fs = (InvalidFilesystem, snd init), fu_running = False, fu_context = None, fu_uid = uid, fu_gid = gid\<rparr>"

definition fs_call :: "('f filesystem \<Rightarrow> ('f, 'a) exec) \<Rightarrow> ('f fuse, 'a) exec" where
  "fs_call method s =
     (case method (fst (fu_fs s)) (snd (fu_fs s)) of (r, f) \<Rightarrow> (r, s\<lparr>fu_fs := (fst (fu_fs s), f)\<rparr>))"

definition Fuse_init :: "('f fuse, unit) exec" where
  "Fuse_init =
     ebind (modify (\<lambda>s. s\<lparr>fu_fs := fu_init s, fu_context := Some noatime\<rparr>)) (\<lambda>_.
     ebind (gets fu_context) (\<lambda>context.
     ebind (assert_exec (context \<noteq> None) ''Context should have been initialized in Fuse::run() but somehow didn't'') (\<lambda>_.
     ebind (fs_call (\<lambda>F. setContext F (the context))) (\<lambda>_.
     modify (\<lambda>s. s\<lparr>fu_running := True\<rparr>)))))"

definition Fuse_destroy :: "'f fuse \<Rightarrow> 'f fuse" where
  "Fuse_destroy s = s\<lparr>fu_fs := (InvalidFilesystem, snd (fu_fs s)), fu_running := False\<rparr>"

text \<open>The error numbers of Linux.\<close>

fun errno_value :: "errno \<Rightarrow> int" where
  "errno_value ENOENT = 2"
| "errno_value EIO = 5"
| "errno_value EBADF = 9"
| "errno_value EBUSY = 16"
| "errno_value EEXIST = 17"
| "errno_value ENOTDIR = 20"
| "errno_value EISDIR = 21"
| "errno_value EINVAL = 22"
| "errno_value ENOTEMPTY = 39"

definition ENOMEM_value :: int where "ENOMEM_value = 12"
definition ENOSYS_value :: int where "ENOSYS_value = 38"

text \<open>
  The chain of handlers: an assertion, any other exception and an unknown one give \<open>-EIO\<close>, \<open>FuseErrnoException\<close>
  gives its number. Undefined behaviour is not caught.
\<close>

definition exception_code :: "error \<Rightarrow> int option" where
  "exception_code e =
     (case e of Errno n \<Rightarrow> Some (- errno_value n) | MemoryFault \<Rightarrow> None | OutOfFuel \<Rightarrow> None | _ \<Rightarrow> Some (- errno_value EIO))"

definition fuse_try :: "('f fuse, int \<times> 'a option) exec \<Rightarrow> ('f fuse, int \<times> 'a option) exec" where
  "fuse_try body s =
     (case body s of
        (Inr x, t) \<Rightarrow> (Inr x, t)
      | (Inl e, t) \<Rightarrow> (case exception_code e of Some n \<Rightarrow> (Inr (n, None), t) | None \<Rightarrow> (Inl e, t)))"

definition check_path :: "fs_path \<Rightarrow> string \<Rightarrow> ('f fuse, unit) exec" where
  "check_path path msg = assert_exec (is_valid_fspp_path path) msg"

text \<open>A body that calls one method and returns 0, with the method's result for the output parameters.\<close>

definition call_ok :: "('f filesystem \<Rightarrow> ('f, 'a) exec) \<Rightarrow> ('f fuse, int \<times> 'a option) exec" where
  "call_ok method = ebind (fs_call method) (\<lambda>x. ret (0, Some x))"

abbreviation absolute :: string where "absolute \<equiv> ''has to be an absolute path''"

definition Fuse_getattr :: "fs_path \<Rightarrow> ('f fuse, int \<times> stat_info option) exec" where
  "Fuse_getattr path = fuse_try (ebind (check_path path absolute) (\<lambda>_. call_ok (\<lambda>F. lstat F path)))"

definition Fuse_fgetattr :: "fs_path \<Rightarrow> nat \<Rightarrow> ('f fuse, int \<times> stat_info option) exec" where
  "Fuse_fgetattr path fh =
     (if path_string path = ''/'' then Fuse_getattr path
      else fuse_try (ebind (check_path path absolute) (\<lambda>_. call_ok (\<lambda>F. fstat F fh))))"

definition Fuse_readlink :: "fs_path \<Rightarrow> data \<Rightarrow> ('f fuse, int \<times> data option) exec" where
  "Fuse_readlink path buf = fuse_try (ebind (check_path path absolute) (\<lambda>_. call_ok (\<lambda>F. readSymlink F path buf)))"

text \<open>\<open>"/" == path\<close> compares components: of the paths that pass the assertion, those with none below the root.\<close>

definition Fuse_mkdir :: "fs_path \<Rightarrow> mode \<Rightarrow> ('f fuse, int \<times> unit option) exec" where
  "Fuse_mkdir path m =
     fuse_try (ebind (check_path path absolute) (\<lambda>_.
       if components path = [] then ret (0, Some ())
       else ebind (gets (\<lambda>s. (fu_uid s, fu_gid s))) (\<lambda>(uid, gid). call_ok (\<lambda>F. mkdir F path m uid gid))))"

definition Fuse_unlink :: "fs_path \<Rightarrow> ('f fuse, int \<times> unit option) exec" where
  "Fuse_unlink path = fuse_try (ebind (check_path path absolute) (\<lambda>_. call_ok (\<lambda>F. unlink F path)))"

definition Fuse_rmdir :: "fs_path \<Rightarrow> ('f fuse, int \<times> unit option) exec" where
  "Fuse_rmdir path = fuse_try (ebind (check_path path absolute) (\<lambda>_. call_ok (\<lambda>F. rmdir F path)))"

text \<open>The target \<open>to\<close> is not checked: it may be relative.\<close>

definition Fuse_symlink :: "data \<Rightarrow> fs_path \<Rightarrow> ('f fuse, int \<times> unit option) exec" where
  "Fuse_symlink to_path from_path =
     fuse_try (ebind (check_path from_path absolute) (\<lambda>_.
       ebind (gets (\<lambda>s. (fu_uid s, fu_gid s))) (\<lambda>(uid, gid). call_ok (\<lambda>F. createSymlink F to_path from_path uid gid))))"

definition Fuse_rename :: "fs_path \<Rightarrow> fs_path \<Rightarrow> ('f fuse, int \<times> unit option) exec" where
  "Fuse_rename from_path to_path =
     fuse_try (ebind (check_path from_path ''from has to be an absolute path'') (\<lambda>_.
     ebind (check_path to_path ''rename target has to be an absolute path. If this assert throws, we have to add code here that makes the path absolute.'') (\<lambda>_.
     call_ok (\<lambda>F. rename_path F from_path to_path))))"

text \<open>Hard links are not implemented; the error number is returned without a sign.\<close>

definition Fuse_link :: "fs_path \<Rightarrow> fs_path \<Rightarrow> ('f fuse, int \<times> unit option) exec" where
  "Fuse_link from_path to_path = ret (ENOSYS_value, None)"

definition Fuse_chmod :: "fs_path \<Rightarrow> mode \<Rightarrow> ('f fuse, int \<times> unit option) exec" where
  "Fuse_chmod path m = fuse_try (ebind (check_path path absolute) (\<lambda>_. call_ok (\<lambda>F. chmod F path m)))"

definition Fuse_chown :: "fs_path \<Rightarrow> u32 \<Rightarrow> u32 \<Rightarrow> ('f fuse, int \<times> unit option) exec" where
  "Fuse_chown path uid gid = fuse_try (ebind (check_path path absolute) (\<lambda>_. call_ok (\<lambda>F. chown F path uid gid)))"

definition Fuse_truncate :: "fs_path \<Rightarrow> nat \<Rightarrow> ('f fuse, int \<times> unit option) exec" where
  "Fuse_truncate path n = fuse_try (ebind (check_path path absolute) (\<lambda>_. call_ok (\<lambda>F. truncate_path F path n)))"

definition Fuse_ftruncate :: "nat \<Rightarrow> nat \<Rightarrow> ('f fuse, int \<times> unit option) exec" where
  "Fuse_ftruncate n fh = fuse_try (call_ok (\<lambda>F. ftruncate F fh n))"

definition Fuse_utimens :: "fs_path \<Rightarrow> timespec \<Rightarrow> timespec \<Rightarrow> ('f fuse, int \<times> unit option) exec" where
  "Fuse_utimens path lastAccessTime lastModificationTime =
     fuse_try (ebind (check_path path absolute) (\<lambda>_. call_ok (\<lambda>F. utimens F path lastAccessTime lastModificationTime)))"

definition Fuse_open :: "fs_path \<Rightarrow> int \<Rightarrow> ('f fuse, int \<times> nat option) exec" where
  "Fuse_open path flags = fuse_try (ebind (check_path path absolute) (\<lambda>_. call_ok (\<lambda>F. openFile F path flags)))"

definition Fuse_release :: "nat \<Rightarrow> ('f fuse, int \<times> unit option) exec" where
  "Fuse_release fh = fuse_try (call_ok (\<lambda>F. closeFile F fh))"

text \<open>The 64 bit counts that \<open>read\<close> and \<open>write\<close> return become a 32 bit \<open>int\<close>.\<close>

definition to_int :: "nat \<Rightarrow> int" where
  "to_int n = sint (of_nat n :: u32)"

definition Fuse_read :: "nat \<Rightarrow> nat \<Rightarrow> nat \<Rightarrow> ('f fuse, int \<times> data option) exec" where
  "Fuse_read n offset fh =
     fuse_try (ebind (fs_call (\<lambda>F. read_file F fh n offset)) (\<lambda>d. ret (to_int (length d), Some d)))"

definition Fuse_write :: "data \<Rightarrow> nat \<Rightarrow> nat \<Rightarrow> ('f fuse, int \<times> unit option) exec" where
  "Fuse_write buf offset fh =
     fuse_try (ebind (fs_call (\<lambda>F. write_file F fh buf offset)) (\<lambda>_. ret (to_int (length buf), Some ())))"

definition Fuse_statfs :: "fs_path \<Rightarrow> ('f fuse, int \<times> statvfs option) exec" where
  "Fuse_statfs path = fuse_try (ebind (check_path path absolute) (\<lambda>_. call_ok statfs))"

definition Fuse_flush :: "nat \<Rightarrow> ('f fuse, int \<times> unit option) exec" where
  "Fuse_flush fh = fuse_try (call_ok (\<lambda>F. flush_file F fh))"

definition Fuse_fsync :: "int \<Rightarrow> nat \<Rightarrow> ('f fuse, int \<times> unit option) exec" where
  "Fuse_fsync datasync fh = fuse_try (if datasync \<noteq> 0 then call_ok (\<lambda>F. fdatasync F fh) else call_ok (\<lambda>F. fsync F fh))"

text \<open>
  \<open>filler\<close> adds an entry with its type bits to the caller's buffer and returns the buffer and whether it is
  full.
\<close>

fun entry_mode :: "entry_type \<Rightarrow> mode" where
  "entry_mode DIR = S_IFDIR"
| "entry_mode FILE = S_IFREG"
| "entry_mode SYMLINK = S_IFLNK"

primrec readdir_loop ::
  "('b \<Rightarrow> data \<Rightarrow> mode \<Rightarrow> 'b \<times> bool) \<Rightarrow> 'b \<Rightarrow> (entry_type \<times> data) list \<Rightarrow> int \<times> 'b option" where
  "readdir_loop filler buf [] = (0, Some buf)"
| "readdir_loop filler buf (entry # es) =
     (case filler buf (snd entry) (entry_mode (fst entry)) of (buf', full) \<Rightarrow>
        if full then (- ENOMEM_value, Some buf') else readdir_loop filler buf' es)"

definition Fuse_readdir :: "fs_path \<Rightarrow> 'b \<Rightarrow> ('b \<Rightarrow> data \<Rightarrow> mode \<Rightarrow> 'b \<times> bool) \<Rightarrow> ('f fuse, int \<times> 'b option) exec" where
  "Fuse_readdir path buf filler =
     fuse_try (ebind (check_path path absolute) (\<lambda>_.
       ebind (fs_call (\<lambda>F. readDir F path)) (\<lambda>entries. ret (readdir_loop filler buf entries))))"

definition Fuse_access :: "fs_path \<Rightarrow> int \<Rightarrow> ('f fuse, int \<times> unit option) exec" where
  "Fuse_access path m = fuse_try (ebind (check_path path absolute) (\<lambda>_. call_ok (\<lambda>F. access F path m)))"

definition Fuse_create :: "fs_path \<Rightarrow> mode \<Rightarrow> ('f fuse, int \<times> nat option) exec" where
  "Fuse_create path m =
     fuse_try (ebind (check_path path absolute) (\<lambda>_.
       ebind (gets (\<lambda>s. (fu_uid s, fu_gid s))) (\<lambda>(uid, gid). call_ok (\<lambda>F. createAndOpenFile F path m uid gid))))"

section \<open>Callbacks as data\<close>

datatype fuse_op =
    Getattr fs_path | Fgetattr fs_path nat | Readlink fs_path data | Mkdir fs_path mode | Unlink fs_path | Rmdir fs_path
  | Symlink data fs_path | Rename fs_path fs_path | Link fs_path fs_path | Chmod fs_path mode | Chown fs_path u32 u32
  | Truncate fs_path nat | Ftruncate nat nat | Utimens fs_path timespec timespec | Open fs_path int | Release nat
  | Read nat nat nat | Write data nat nat | Statfs fs_path | Flush nat | Fsync int nat | Readdir fs_path nat
  | Access fs_path int | Create fs_path mode

text \<open>The code that a callback returns; the buffer of \<open>readdir\<close> has room for \<open>n\<close> entries.\<close>

definition code_of :: "('f fuse, int \<times> 'a option) exec \<Rightarrow> ('f fuse, int) exec" where
  "code_of m = ebind m (\<lambda>x. ret (fst x))"

definition bounded_filler :: "nat \<Rightarrow> data list \<Rightarrow> data \<Rightarrow> mode \<Rightarrow> data list \<times> bool" where
  "bounded_filler n buf name m = (if length buf < n then (buf @ [name], False) else (buf, True))"

fun run_fuse :: "fuse_op \<Rightarrow> ('f fuse, int) exec" where
  "run_fuse (Getattr p) = code_of (Fuse_getattr p)"
| "run_fuse (Fgetattr p fh) = code_of (Fuse_fgetattr p fh)"
| "run_fuse (Readlink p buf) = code_of (Fuse_readlink p buf)"
| "run_fuse (Mkdir p m) = code_of (Fuse_mkdir p m)"
| "run_fuse (Unlink p) = code_of (Fuse_unlink p)"
| "run_fuse (Rmdir p) = code_of (Fuse_rmdir p)"
| "run_fuse (Symlink t p) = code_of (Fuse_symlink t p)"
| "run_fuse (Rename p q) = code_of (Fuse_rename p q)"
| "run_fuse (Link p q) = code_of (Fuse_link p q)"
| "run_fuse (Chmod p m) = code_of (Fuse_chmod p m)"
| "run_fuse (Chown p u g) = code_of (Fuse_chown p u g)"
| "run_fuse (Truncate p n) = code_of (Fuse_truncate p n)"
| "run_fuse (Ftruncate n fh) = code_of (Fuse_ftruncate n fh)"
| "run_fuse (Utimens p a m) = code_of (Fuse_utimens p a m)"
| "run_fuse (Open p flags) = code_of (Fuse_open p flags)"
| "run_fuse (Release fh) = code_of (Fuse_release fh)"
| "run_fuse (Read n off fh) = code_of (Fuse_read n off fh)"
| "run_fuse (Write buf off fh) = code_of (Fuse_write buf off fh)"
| "run_fuse (Statfs p) = code_of (Fuse_statfs p)"
| "run_fuse (Flush fh) = code_of (Fuse_flush fh)"
| "run_fuse (Fsync d fh) = code_of (Fuse_fsync d fh)"
| "run_fuse (Readdir p n) = code_of (Fuse_readdir p [] (bounded_filler n))"
| "run_fuse (Access p m) = code_of (Fuse_access p m)"
| "run_fuse (Create p m) = code_of (Fuse_create p m)"

lemmas fuse_defs = Fuse_getattr_def Fuse_fgetattr_def Fuse_readlink_def Fuse_mkdir_def Fuse_unlink_def Fuse_rmdir_def
  Fuse_symlink_def Fuse_rename_def Fuse_link_def Fuse_chmod_def Fuse_chown_def Fuse_truncate_def Fuse_ftruncate_def
  Fuse_utimens_def Fuse_open_def Fuse_release_def Fuse_read_def Fuse_write_def Fuse_statfs_def Fuse_flush_def
  Fuse_fsync_def Fuse_readdir_def Fuse_access_def Fuse_create_def

section \<open>Errors\<close>

text \<open>What leaves a callback: a code, or undefined behaviour below it.\<close>

definition contained :: "('f fuse, 'a) exec \<Rightarrow> bool" where
  "contained m \<longleftrightarrow> (\<forall>s e. fst (m s) = Inl e \<longrightarrow> exception_code e = None)"

lemma contained_try: "contained (fuse_try body)"
  by (auto simp: contained_def fuse_try_def split: prod.splits sum.splits option.splits)

lemma contained_ret: "contained (ret x)"
  by (simp add: contained_def)

lemma contained_code: "contained m \<Longrightarrow> contained (code_of m)"
  unfolding contained_def code_of_def ebind_def by (auto split: prod.splits sum.splits) (metis fst_conv)

lemma contained_run: "contained (run_fuse x)"
  by (cases x) (simp_all add: fuse_defs contained_code contained_try contained_ret)

text \<open>A callback whose body fails with an error.\<close>

lemma try_fails:
  assumes "body s = (Inl e, t)" and "exception_code e = Some n"
  shows "code_of (fuse_try body) s = (Inr n, t)"
  using assms by (simp add: code_of_def fuse_try_def ebind_def)

lemma invalid_call: "fst (fu_fs s) = InvalidFilesystem \<Longrightarrow> method InvalidFilesystem = not_initialized \<Longrightarrow>
  fs_call method s = (Inl (LogicError ''Filesystem not initialized yet''), s)"
  by (cases s) (auto simp: fs_call_def not_initialized_def)

lemma invalid_ok: "fst (fu_fs s) = InvalidFilesystem \<Longrightarrow> method InvalidFilesystem = not_initialized \<Longrightarrow>
  call_ok method s = (Inl (LogicError ''Filesystem not initialized yet''), s)"
  by (simp add: call_ok_def ebind_def invalid_call)

section \<open>Descriptors\<close>

text \<open>The open files: every descriptor has a file and a count, and was handed out by the counter.\<close>

definition open_files_inv :: "'e open_file_list \<Rightarrow> bool" where
  "open_files_inv l \<longleftrightarrow> dom (map_of (refcounts l)) = dom (map_of (id_entries (openFiles l))) \<and>
     (\<forall>d\<in>dom (map_of (refcounts l)). d \<le> id_counter (openFiles l))"

datatype 'e descriptor_op = OpenFile 'e | CloseFile nat

fun descriptor_step :: "'e descriptor_op \<Rightarrow> 'e open_file_list \<Rightarrow> 'e open_file_list" where
  "descriptor_step (OpenFile e) l = snd (FuseOpenFileList_open e l)"
| "descriptor_step (CloseFile d) l = snd (FuseOpenFileList_close d l)"

lemma open_descriptor:
  "FuseOpenFileList_open e l = (d, l') \<Longrightarrow> d = Suc (id_counter (openFiles l)) \<and> id_counter (openFiles l') = d \<and>
   map_of (refcounts l') = (if map_of (refcounts l) d = None then (map_of (refcounts l))(d \<mapsto> 0) else map_of (refcounts l)) \<and>
   map_of (id_entries (openFiles l')) =
     (if map_of (id_entries (openFiles l)) d = None then (map_of (id_entries (openFiles l)))(d \<mapsto> e) else map_of (id_entries (openFiles l)))"
  by (auto simp: FuseOpenFileList_open_def IdList_add_def Let_def fun_eq_iff map_of_um_insert)

lemma close_descriptor:
  "FuseOpenFileList_close d l = (r, l') \<Longrightarrow> id_counter (openFiles l') = id_counter (openFiles l) \<and>
   (l' = l \<or> (r = Inr () \<and> map_of (refcounts l') = (map_of (refcounts l))(d := None) \<and>
     map_of (id_entries (openFiles l')) = (map_of (id_entries (openFiles l)))(d := None)))"
  by (auto simp: FuseOpenFileList_close_def IdList_remove_def delete_conv' split: option.splits if_splits)

lemma descriptor_step_inv:
  assumes "open_files_inv l"
  shows "open_files_inv (descriptor_step x l) \<and> id_counter (openFiles l) \<le> id_counter (openFiles (descriptor_step x l)) \<and>
    (\<forall>d. d \<le> id_counter (openFiles l) \<longrightarrow> map_of (refcounts l) d = None \<longrightarrow> map_of (refcounts (descriptor_step x l)) d = None)"
proof (cases x)
  case (OpenFile e)
  obtain d l' where o: "FuseOpenFileList_open e l = (d, l')" by (cases "FuseOpenFileList_open e l")
  have "Suc (id_counter (openFiles l)) \<notin> dom (map_of (refcounts l))" using assms unfolding open_files_inv_def by (metis not_less_eq_eq order_refl)
  then have new: "map_of (refcounts l) (Suc (id_counter (openFiles l))) = None" "map_of (id_entries (openFiles l)) (Suc (id_counter (openFiles l))) = None"
    using assms unfolding open_files_inv_def by (metis domIff)+
  have "x \<le> Suc (id_counter (openFiles l))" if "map_of (id_entries (openFiles l)) x = Some y" for x y
    using assms that unfolding open_files_inv_def by (metis domI le_SucI)
  then show ?thesis using OpenFile o open_descriptor [OF o] new assms by (auto simp: open_files_inv_def)
next
  case (CloseFile d)
  obtain r l' where c: "FuseOpenFileList_close d l = (r, l')" by (cases "FuseOpenFileList_close d l")
  have "open_files_inv l' \<and> id_counter (openFiles l') = id_counter (openFiles l) \<and> (\<forall>d. map_of (refcounts l) d = None \<longrightarrow> map_of (refcounts l') d = None)"
    using close_descriptor [OF c] assms unfolding open_files_inv_def by (cases "l' = l") (simp, force)
  then show ?thesis using CloseFile c by simp
qed

lemma descriptor_run_inv:
  "open_files_inv l \<Longrightarrow> d \<le> id_counter (openFiles l) \<Longrightarrow> map_of (refcounts l) d = None \<Longrightarrow>
   map_of (refcounts (fold descriptor_step xs l)) d = None"
proof (induction xs arbitrary: l)
  case (Cons x xs)
  show ?case using Cons.IH [of "descriptor_step x l"] Cons.prems descriptor_step_inv [OF Cons.prems(1), of x] by auto
qed simp

lemma bad_descriptor: "map_of (refcounts (fi_open_files f)) fh = None \<Longrightarrow> FilesystemImpl_with_open fh cb f = (Inl (Errno EBADF), f)"
  "map_of (refcounts (fi_open_files f)) fh = None \<Longrightarrow> FilesystemImpl_closeFile fh f = (Inl OutOfRange, f)"
  by (simp_all add: FilesystemImpl_with_open_def FuseOpenFileList_load_begin_def FilesystemImpl_closeFile_def FuseOpenFileList_close_def)

section \<open>Properties\<close>


text \<open>
  C38. After \<open>destroy\<close> every callback fails with \<open>-EIO\<close>, except \<open>mkdir\<close> of the root, which is ignored, and \<open>link\<close>, which is not implemented
  and returns a positive number.
\<close>

theorem fuse_stopped:
  "fst (run_fuse x (Fuse_destroy s)) =
     Inr (case x of Link p q \<Rightarrow> 38 | Mkdir p m \<Rightarrow> if is_valid_fspp_path p \<and> components p = [] then 0 else -5 | _ \<Rightarrow> -5)"
proof -
  let ?s = "Fuse_destroy s"
  have inv: "fst (fu_fs ?s) = InvalidFilesystem" by (simp add: Fuse_destroy_def)
  note ok = invalid_ok [OF inv] invalid_call [OF inv]
  note simps = fuse_defs InvalidFilesystem_def ok code_of_def fuse_try_def ebind_def check_path_def assert_exec_def throw_def exception_code_def
    ENOSYS_value_def
  show ?thesis by (cases x) (auto simp: simps)
qed

text \<open>
  A descriptor that is not open is refused and nothing happens: reading, writing, truncating, flushing and
  syncing return \<open>-EBADF\<close>, closing returns \<open>-EIO\<close>.
\<close>

theorem fuse_bad_descriptor:
  assumes "fu_fs s = (FilesystemImpl, (D, f))" and "map_of (refcounts (fi_open_files f)) fh = None"
    and "x \<in> {Read n off fh, Write buf off fh, Ftruncate n fh, Flush fh, Fsync k fh, Release fh}"
  shows "run_fuse x s = (Inr (if x = Release fh then -5 else -9), s)"
proof -
  have same: "s\<lparr>fu_fs := (FilesystemImpl, D, f)\<rparr> = s" using assms(1) by (cases s) simp
  show ?thesis
    using assms same
    by (auto simp: fuse_defs code_of_def fuse_try_def ebind_def fs_call_def call_ok_def FilesystemImpl_def with_device_def bad_descriptor
        FilesystemImpl_read_def FilesystemImpl_write_def FilesystemImpl_ftruncate_def FilesystemImpl_flush_def FilesystemImpl_fsync_def
        FilesystemImpl_fdatasync_def exception_code_def)
qed

definition test_device :: "inmemory blob_state cry_device" where
  "test_device =
     \<lparr>cd_blobStore = BlobStoreOnBlocks 0 0 \<lparr>dte_nodeStore = InMemoryBlockStore2 0,
        dte_layout = \<lparr>blocksizeBytes = 40, uninitialised = 0\<rparr>, dte_ceilLog = (\<lambda>b e. 0)\<rparr>,
      cd_rootBlobId = bid 1, cd_startpos = exact_startpos, cd_junk = 0, cd_behavior = noatime, cd_now = example_time, cd_uid = 0, cd_gid = 0\<rparr>"

definition test_fuse :: "inmemory blob_state impl_state fuse" where
  "test_fuse = Fuse_new (FilesystemImpl, (test_device,
     \<lparr>fi_fs = \<lparr>loadedBlobs = [], fs_store = ([], ([], []))\<rparr>,
      fi_open_files = \<lparr>openFiles = \<lparr>id_entries = [], id_counter = 0\<rparr>, refcounts = []\<rparr>\<rparr>)) 0 0"

lemma fuse_bad_descriptor_witness:
  "let s = snd (Fuse_init test_fuse) in run_fuse (Read 10 0 3) s = (Inr (-9), s) \<and> run_fuse (Release 3) s = (Inr (-5), s)"
proof -
  let ?s = "snd (Fuse_init test_fuse)"
  obtain f where s: "fu_fs ?s = (FilesystemImpl, (test_device\<lparr>cd_behavior := noatime\<rparr>, f))" "map_of (refcounts (fi_open_files f)) 3 = None"
    by (simp add: test_fuse_def Fuse_new_def Fuse_init_def ebind_def fs_call_def assert_exec_def FilesystemImpl_def FilesystemImpl_setContext_def)
  show ?thesis
    unfolding Let_def
    using fuse_bad_descriptor [OF s, of "Read 10 0 3" 10 0 "[]" 0] fuse_bad_descriptor [OF s, of "Release 3" 10 0 "[]" 0] by simp
qed

text \<open>
  A closed descriptor stays closed: whatever files are opened and closed afterwards, it is never handed out
  again, so an operation on it never reaches another file.
\<close>

theorem closed_descriptor_never_reused:
  assumes "open_files_inv l" and "FuseOpenFileList_close d l = (Inr (), l')"
  shows "map_of (refcounts (fold descriptor_step xs l')) d = None"
proof -
  have l': "l' = descriptor_step (CloseFile d) l" using assms(2) by simp
  have "map_of (refcounts l) d \<noteq> None" "map_of (refcounts l') d = None"
    using assms(2) by (auto simp: FuseOpenFileList_close_def IdList_remove_def delete_conv' split: option.splits if_splits)
  then have "d \<le> id_counter (openFiles l)" using assms(1) by (auto simp: open_files_inv_def)
  then show ?thesis
    using descriptor_step_inv [OF assms(1), of "CloseFile d"] \<open>map_of (refcounts l') d = None\<close> unfolding l' [symmetric]
    by (intro descriptor_run_inv) auto
qed

definition two_open :: "nat open_file_list" where
  "two_open = snd (FuseOpenFileList_open 8 (snd (FuseOpenFileList_open 7 \<lparr>openFiles = \<lparr>id_entries = [], id_counter = 0\<rparr>, refcounts = []\<rparr>)))"

lemma closed_descriptor_never_reused_witness:
  "map_of (refcounts (fold descriptor_step [OpenFile 9, CloseFile 2, OpenFile 5] (snd (FuseOpenFileList_close 1 two_open)))) 1 = None"
proof (rule closed_descriptor_never_reused)
  show "open_files_inv two_open"
    by (auto simp: open_files_inv_def two_open_def FuseOpenFileList_open_def IdList_add_def um_insert_def)
  show "FuseOpenFileList_close 1 two_open = (Inr (), snd (FuseOpenFileList_close 1 two_open))"
    by (simp add: two_open_def FuseOpenFileList_open_def FuseOpenFileList_close_def IdList_add_def IdList_remove_def um_insert_def)
qed

end
