(* ===== verification/JniBinding.thy ===== *)
theory JniBinding
  imports FuseBinding ConfigCrypto
begin

text \<open>
  \<open>src/src/jni/libcryfs-jni.cpp\<close>: the functions that an app calls. A file system is a \<open>Fuse\<close> object behind a pointer that the
  app keeps as a number; \<open>validFusePtrs\<close> are the pointers of open file systems. The strings and arrays of Java are
  given as their contents. A call with a pointer to no object is undefined (\<open>MemoryFault\<close>), and so is an access outside of an array.
\<close>

section \<open>State\<close>

record 'f jni_state =
  fuse_objects :: "(nat \<times> 'f fuse) list"
  validFusePtrs :: "nat set"

definition with_fuse :: "nat \<Rightarrow> ('f fuse, 'a) exec \<Rightarrow> ('f jni_state, 'a) exec" where
  "with_fuse fusePtr m s =
     (case map_of (fuse_objects s) fusePtr of
        None \<Rightarrow> (Inl MemoryFault, s)
      | Some fuse \<Rightarrow> (case m fuse of (r, fuse') \<Rightarrow> (r, s\<lparr>fuse_objects := AList.update fusePtr fuse' (fuse_objects s)\<rparr>)))"

text \<open>The end of \<open>cryfs_init\<close>: the new object, if there is one, is at \<open>fusePtr\<close> and becomes valid; without an object the result is 0.\<close>

definition cryfs_init_register :: "nat \<Rightarrow> 'f fuse option \<Rightarrow> ('f jni_state, nat) exec" where
  "cryfs_init_register fusePtr fuse =
     (case fuse of
        None \<Rightarrow> ret 0
      | Some f \<Rightarrow> ebind (modify (\<lambda>s. s\<lparr>fuse_objects := AList.update fusePtr f (fuse_objects s), validFusePtrs := insert fusePtr (validFusePtrs s)\<rparr>))
          (\<lambda>_. ret fusePtr))"

definition cryfs_destroy :: "nat \<Rightarrow> ('f jni_state, unit) exec" where
  "cryfs_destroy fusePtr =
     ebind (with_fuse fusePtr (modify Fuse_destroy)) (\<lambda>_.
     modify (\<lambda>s. s\<lparr>fuse_objects := AList.delete fusePtr (fuse_objects s), validFusePtrs := validFusePtrs s - {fusePtr}\<rparr>))"

definition cryfs_is_closed :: "nat \<Rightarrow> ('f jni_state, bool) exec" where
  "cryfs_is_closed fusePtr = gets (\<lambda>s. fusePtr \<notin> validFusePtrs s)"

section \<open>Files\<close>

text \<open>A handle is returned as it is, any error as \<open>-1\<close>.\<close>

definition jni_handle :: "int \<times> nat option \<Rightarrow> int" where
  "jni_handle result = (case result of (code, fh) \<Rightarrow> if code = 0 then int (the fh) else -1)"

definition cryfs_create :: "nat \<Rightarrow> fs_path \<Rightarrow> mode \<Rightarrow> ('f jni_state, int) exec" where
  "cryfs_create fusePtr path m = with_fuse fusePtr (ebind (Fuse_create path m) (\<lambda>result. ret (jni_handle result)))"

definition cryfs_open :: "nat \<Rightarrow> fs_path \<Rightarrow> int \<Rightarrow> ('f jni_state, int) exec" where
  "cryfs_open fusePtr path flags = with_fuse fusePtr (ebind (Fuse_open path flags) (\<lambda>result. ret (jni_handle result)))"

text \<open>The result is the code and the array afterwards; the range of the array is not checked.\<close>

definition cryfs_read :: "nat \<Rightarrow> nat \<Rightarrow> nat \<Rightarrow> data \<Rightarrow> nat \<Rightarrow> nat \<Rightarrow> ('f jni_state, int \<times> data) exec" where
  "cryfs_read fusePtr fileHandle fileOffset buffer dstOffset len =
     with_fuse fusePtr (ebind (Fuse_read len fileOffset fileHandle) (\<lambda>(code, bytes).
       case bytes of
         None \<Rightarrow> ret (code, buffer)
       | Some d \<Rightarrow> if dstOffset + length d \<le> length buffer then ret (code, write_at dstOffset d buffer) else throw MemoryFault))"

definition cryfs_write :: "nat \<Rightarrow> nat \<Rightarrow> nat \<Rightarrow> data \<Rightarrow> nat \<Rightarrow> nat \<Rightarrow> ('f jni_state, int) exec" where
  "cryfs_write fusePtr fileHandle fileOffset buffer srcOffset len =
     with_fuse fusePtr
       (if srcOffset + len \<le> length buffer
        then ebind (Fuse_write (slice srcOffset len buffer) fileOffset fileHandle) (\<lambda>(code, _). ret code) else throw MemoryFault)"

definition cryfs_release :: "nat \<Rightarrow> nat \<Rightarrow> ('f jni_state, int) exec" where
  "cryfs_release fusePtr fileHandle = with_fuse fusePtr (code_of (Fuse_release fileHandle))"

section \<open>Paths\<close>

definition cryfs_truncate :: "nat \<Rightarrow> fs_path \<Rightarrow> nat \<Rightarrow> ('f jni_state, int) exec" where
  "cryfs_truncate fusePtr path n = with_fuse fusePtr (code_of (Fuse_truncate path n))"

definition cryfs_unlink :: "nat \<Rightarrow> fs_path \<Rightarrow> ('f jni_state, int) exec" where
  "cryfs_unlink fusePtr path = with_fuse fusePtr (code_of (Fuse_unlink path))"

definition cryfs_mkdir :: "nat \<Rightarrow> fs_path \<Rightarrow> mode \<Rightarrow> ('f jni_state, int) exec" where
  "cryfs_mkdir fusePtr path m = with_fuse fusePtr (code_of (Fuse_mkdir path m))"

definition cryfs_rmdir :: "nat \<Rightarrow> fs_path \<Rightarrow> ('f jni_state, int) exec" where
  "cryfs_rmdir fusePtr path = with_fuse fusePtr (code_of (Fuse_rmdir path))"

definition cryfs_getattr :: "nat \<Rightarrow> fs_path \<Rightarrow> ('f jni_state, int \<times> stat_info option) exec" where
  "cryfs_getattr fusePtr path = with_fuse fusePtr (Fuse_getattr path)"

definition cryfs_rename :: "nat \<Rightarrow> fs_path \<Rightarrow> fs_path \<Rightarrow> ('f jni_state, int) exec" where
  "cryfs_rename fusePtr srcPath dstPath = with_fuse fusePtr (code_of (Fuse_rename srcPath dstPath))"

section \<open>Directories\<close>

text \<open>\<open>operator/\<close> of \<open>boost::filesystem::path\<close> with a name.\<close>

definition path_append :: "fs_path \<Rightarrow> data \<Rightarrow> fs_path" where
  "path_append p name =
     (let sep = (\<lambda>s. if s = [] \<or> last s = CHR ''/'' then s else s @ ''/'') in
      p\<lparr>path_string := sep (path_string p) @ text_of name, generic_string := sep (generic_string p) @ text_of name,
        components := components p @ [name]\<rparr>)"

text \<open>
  \<open>readDir\<close> is the filler that \<open>cryfs_readdir\<close> passes to \<open>Fuse::readdir\<close>. The buffer \<open>st\<close> is the one variable of that function: it is
  cleared before the first entry, and for each entry \<open>st_mode\<close> is set to its type. \<open>filler\<close> is the function of the app.
\<close>

definition readDir ::
  "fs_path \<Rightarrow> ('b \<Rightarrow> data \<Rightarrow> stat_info \<Rightarrow> 'b \<times> bool) \<Rightarrow> 'b \<Rightarrow> data \<Rightarrow> stat_info \<Rightarrow> ('f fuse, ('b \<times> bool) \<times> stat_info) exec" where
  "readDir path filler buf name st =
     (if name = ascii ''.'' \<or> name = ascii ''..'' then ret ((buf, False), st)
      else ebind (Fuse_getattr (path_append path name)) (\<lambda>(code, attributes).
        let st' = (case attributes of None \<Rightarrow> st | Some a \<Rightarrow> a\<lparr>st_mode := st_mode st\<rparr>) in
        ret (filler buf name st', st')))"

primrec jni_readdir_loop ::
  "fs_path \<Rightarrow> ('b \<Rightarrow> data \<Rightarrow> stat_info \<Rightarrow> 'b \<times> bool) \<Rightarrow> 'b \<Rightarrow> stat_info \<Rightarrow> (entry_type \<times> data) list \<Rightarrow> ('f fuse, int \<times> 'b option) exec" where
  "jni_readdir_loop path filler buf st [] = ret (0, Some buf)"
| "jni_readdir_loop path filler buf st (entry # es) =
     ebind (readDir path filler buf (snd entry) (st\<lparr>st_mode := entry_mode (fst entry)\<rparr>)) (\<lambda>((buf', full), st').
     if full then ret (- ENOMEM_value, Some buf') else jni_readdir_loop path filler buf' st' es)"

definition no_stat :: stat_info where
  "no_stat = \<lparr>st_nlink = 0, st_mode = 0, st_uid = 0, st_gid = 0, st_size = 0, st_blocks = 0,
     st_atime = \<lparr>tv_sec = 0, tv_nsec = 0\<rparr>, st_mtime = \<lparr>tv_sec = 0, tv_nsec = 0\<rparr>, st_ctime = \<lparr>tv_sec = 0, tv_nsec = 0\<rparr>\<rparr>"

definition cryfs_readdir ::
  "nat \<Rightarrow> fs_path \<Rightarrow> 'b \<Rightarrow> ('b \<Rightarrow> data \<Rightarrow> stat_info \<Rightarrow> 'b \<times> bool) \<Rightarrow> ('f jni_state, int \<times> 'b option) exec" where
  "cryfs_readdir fusePtr path buf filler =
     with_fuse fusePtr (fuse_try (ebind (check_path path absolute) (\<lambda>_.
       ebind (fs_call (\<lambda>F. filesystem.readDir F path)) (\<lambda>entries. jni_readdir_loop path filler buf no_stat entries))))"

section \<open>Pointers\<close>

text \<open>
  The states that an app reaches: opening (the allocator gives an address that is not in use), any call (which changes its object
  in some way), closing.
\<close>

inductive jni_reachable :: "'f jni_state \<Rightarrow> bool" where
  start: "jni_reachable \<lparr>fuse_objects = [], validFusePtrs = {}\<rparr>"
| opened: "jni_reachable s \<Longrightarrow> map_of (fuse_objects s) fusePtr = None \<Longrightarrow> jni_reachable (snd (cryfs_init_register fusePtr fuse s))"
| called: "jni_reachable s \<Longrightarrow> map_of (fuse_objects s) fusePtr \<noteq> None \<Longrightarrow>
    jni_reachable (s\<lparr>fuse_objects := AList.update fusePtr fuse (fuse_objects s)\<rparr>)"
| closed: "jni_reachable s \<Longrightarrow> jni_reachable (snd (cryfs_destroy fusePtr s))"

lemma call_reachable: "jni_reachable s \<Longrightarrow> jni_reachable (snd (with_fuse fusePtr m s))"
  by (auto simp: with_fuse_def intro: jni_reachable.called split: option.splits prod.splits)

lemma destroy_eq:
  "map_of (fuse_objects s) p = Some f \<Longrightarrow> cryfs_destroy p s =
     (Inr (), s\<lparr>fuse_objects := AList.delete p (AList.update p (Fuse_destroy f) (fuse_objects s)), validFusePtrs := validFusePtrs s - {p}\<rparr>)"
  "map_of (fuse_objects s) p = None \<Longrightarrow> cryfs_destroy p s = (Inl MemoryFault, s)"
  by (simp_all add: cryfs_destroy_def ebind_def with_fuse_def)

lemma reachable_valid: "jni_reachable s \<Longrightarrow> validFusePtrs s = dom (map_of (fuse_objects s))"
proof (induction rule: jni_reachable.induct)
  case (opened s fusePtr fuse)
  then show ?case by (cases fuse) (auto simp: cryfs_init_register_def ebind_def update_conv')
next
  case (called s fusePtr fuse)
  then show ?case by (auto simp: update_conv' split: if_splits)
next
  case (closed s fusePtr)
  then show ?case
    by (cases "map_of (fuse_objects s) fusePtr") (auto simp: destroy_eq delete_conv' update_conv' split: if_splits)
qed simp

text \<open>
  C19. Pointers to file systems: in every state that an app can reach, \<open>cryfs_is_closed\<close> is false exactly for the pointers to
  existing objects, for which a call runs on that object; closing one of them succeeds, makes exactly this pointer closed, and a further call
  with it is undefined.
\<close>

theorem pointer_lifecycle:
  assumes "jni_reachable s"
  shows "(\<forall>p. fst (cryfs_is_closed p s) = Inr (map_of (fuse_objects s) p = None)) \<and>
    (fst (cryfs_is_closed fusePtr s) = Inr False \<longrightarrow>
      (\<exists>s'. cryfs_destroy fusePtr s = (Inr (), s') \<and> (\<forall>p. fst (cryfs_is_closed p s') = (if p = fusePtr then Inr True else fst (cryfs_is_closed p s))) \<and>
        fst (with_fuse fusePtr m s') = Inl MemoryFault))"
proof -
  note v = reachable_valid [OF assms]
  show ?thesis
    by (cases "map_of (fuse_objects s) fusePtr")
      (auto simp: cryfs_is_closed_def gets_def v destroy_eq with_fuse_def delete_conv' update_conv')
qed

definition root_path :: fs_path where
  "root_path = \<lparr>has_root_directory = True, has_root_name = False, path_string = ''/'', generic_string = ''/'', components = []\<rparr>"

lemma pointer_lifecycle_witness:
  "let s = snd (cryfs_init_register 7 (Some test_fuse) \<lparr>fuse_objects = [], validFusePtrs = {}\<rparr>) in
   fst (cryfs_is_closed 7 s) = Inr False \<and> fst (cryfs_is_closed 8 s) = Inr True \<and>
   (\<exists>s'. cryfs_destroy 7 s = (Inr (), s') \<and> fst (cryfs_is_closed 7 s') = Inr True \<and> fst (cryfs_unlink 7 root_path s') = Inl MemoryFault)"
proof -
  let ?s = "snd (cryfs_init_register 7 (Some test_fuse) \<lparr>fuse_objects = [], validFusePtrs = {}\<rparr>)"
  have "jni_reachable ?s" by (rule jni_reachable.opened [OF jni_reachable.start]) simp
  note l = pointer_lifecycle [OF this, of 7 "code_of (Fuse_unlink root_path)"]
  have "map_of (fuse_objects ?s) 7 \<noteq> None" "map_of (fuse_objects ?s) 8 = None" by (simp_all add: cryfs_init_register_def ebind_def)
  with l have c: "fst (cryfs_is_closed 7 ?s) = Inr False" "fst (cryfs_is_closed 8 ?s) = Inr True" by simp_all
  with l obtain s' where "cryfs_destroy 7 ?s = (Inr (), s')" "fst (cryfs_is_closed 7 s') = Inr True"
      "fst (with_fuse 7 (code_of (Fuse_unlink root_path)) s') = Inl MemoryFault" by auto
  with c show ?thesis unfolding Let_def cryfs_unlink_def by blast
qed

section \<open>Listings\<close>

definition dots :: "data \<Rightarrow> bool" where
  "dots name \<longleftrightarrow> name = ascii ''.'' \<or> name = ascii ''..''"

text \<open>An app that collects the entries with their attributes.\<close>

definition collect :: "(data \<times> stat_info) list \<Rightarrow> data \<Rightarrow> stat_info \<Rightarrow> (data \<times> stat_info) list \<times> bool" where
  "collect buf name st = (buf @ [(name, st)], False)"

text \<open>The attributes that the app is told, when \<open>getattr\<close> of a name gives \<open>attrs name\<close> (\<open>None\<close> for a failure).\<close>

fun told :: "(data \<Rightarrow> stat_info option) \<Rightarrow> stat_info \<Rightarrow> (entry_type \<times> data) list \<Rightarrow> (data \<times> stat_info) list" where
  "told attrs st [] = []"
| "told attrs st ((t, name) # es) =
     (if dots name then told attrs (st\<lparr>st_mode := entry_mode t\<rparr>) es
      else let st' = (case attrs name of None \<Rightarrow> st | Some a \<Rightarrow> a)\<lparr>st_mode := entry_mode t\<rparr> in (name, st') # told attrs st' es)"

lemma loop_told:
  assumes "\<And>name f. name \<in> snd ` set es \<Longrightarrow> \<not> dots name \<Longrightarrow> I f \<Longrightarrow>
      \<exists>code f'. Fuse_getattr (path_append path name) f = (Inr (code, attrs name), f') \<and> I f'" and "I f"
  shows "\<exists>f'. jni_readdir_loop path collect buf st es f = (Inr (0, Some (buf @ told attrs st es)), f') \<and> I f'"
  using assms
proof (induction es arbitrary: buf st f)
  case (Cons e es)
  obtain t name where e: "e = (t, name)" by (cases e)
  have IH: "\<exists>f'. jni_readdir_loop path collect buf st es f = (Inr (0, Some (buf @ told attrs st es)), f') \<and> I f'" if "I f" for buf st f
    by (rule Cons.IH [OF Cons.prems(1) that]) simp_all
  show ?case
  proof (cases "dots name")
    case True
    then show ?thesis using IH [OF Cons.prems(2)] by (simp add: e readDir_def dots_def ebind_def)
  next
    case False
    obtain code f1 where f1: "Fuse_getattr (path_append path name) f = (Inr (code, attrs name), f1)" "I f1"
      using Cons.prems(1) [of name f] Cons.prems(2) False by (auto simp: e)
    let ?st = "(case attrs name of None \<Rightarrow> st | Some a \<Rightarrow> a)\<lparr>st_mode := entry_mode t\<rparr>"
    have "readDir path collect buf name (st\<lparr>st_mode := entry_mode t\<rparr>) f = (Inr ((buf @ [(name, ?st)], False), ?st), f1)"
      using False f1(1) by (cases "attrs name") (simp_all add: readDir_def dots_def ebind_def collect_def Let_def)
    then show ?thesis using IH [OF f1(2), of "buf @ [(name, ?st)]" ?st] False by (simp add: e ebind_def Let_def)
  qed
qed simp

text \<open>When every \<open>getattr\<close> succeeds, the app is told of each entry its own attributes.\<close>

lemma told_own:
  "\<forall>e\<in>set es. dots (snd e) \<or> attrs (snd e) \<noteq> None \<Longrightarrow>
     told attrs st es = map (\<lambda>(t, name). (name, (the (attrs name))\<lparr>st_mode := entry_mode t\<rparr>)) (filter (\<lambda>(t, name). \<not> dots name) es)"
  by (induction es arbitrary: st) (auto simp: Let_def)

lemma readdir_told:
  assumes "map_of (fuse_objects s) fusePtr = Some f" and "is_valid_fspp_path path"
    and "fs_call (\<lambda>F. filesystem.readDir F path) f = (Inr es, f1)" and "I f1"
    and "\<And>name f. name \<in> snd ` set es \<Longrightarrow> \<not> dots name \<Longrightarrow> I f \<Longrightarrow>
      \<exists>code f'. Fuse_getattr (path_append path name) f = (Inr (code, attrs name), f') \<and> I f'"
  shows "fst (cryfs_readdir fusePtr path [] collect s) = Inr (0, Some (told attrs no_stat es))"
proof -
  obtain f2 where "jni_readdir_loop path collect [] no_stat es f1 = (Inr (0, Some (told attrs no_stat es)), f2)"
    using loop_told [of es I path attrs f1 "[]" no_stat] assms(4,5) by auto
  then show ?thesis
    using assms(1-3) by (simp add: cryfs_readdir_def with_fuse_def fuse_try_def ebind_def check_path_def assert_exec_def)
qed

text \<open>
  A listing gives every entry with its own attributes: if \<open>getattr\<close> succeeds for all entries of a directory, \<open>cryfs_readdir\<close> hands
  the app each entry except the two dot entries once, in order, with the attributes of that entry and its type as mode.
\<close>

theorem readdir_own_attributes:
  assumes "map_of (fuse_objects s) fusePtr = Some f" and "is_valid_fspp_path path"
    and "fs_call (\<lambda>F. filesystem.readDir F path) f = (Inr es, f1)" and "I f1"
    and "\<And>name f. name \<in> snd ` set es \<Longrightarrow> \<not> dots name \<Longrightarrow> I f \<Longrightarrow>
      \<exists>f'. Fuse_getattr (path_append path name) f = (Inr (0, Some (attr name)), f') \<and> I f'"
  shows "fst (cryfs_readdir fusePtr path [] collect s) =
    Inr (0, Some (map (\<lambda>(t, name). (name, (attr name)\<lparr>st_mode := entry_mode t\<rparr>)) (filter (\<lambda>(t, name). \<not> dots name) es)))"
proof -
  have "\<exists>code f'. Fuse_getattr (path_append path name) f = (Inr (code, Some (attr name)), f') \<and> I f'"
    if "name \<in> snd ` set es" "\<not> dots name" "I f" for name f
    using assms(5) [OF that] by blast
  then have "fst (cryfs_readdir fusePtr path [] collect s) = Inr (0, Some (told (\<lambda>name. Some (attr name)) no_stat es))"
    by (rule readdir_told [where I = I, OF assms(1-4)])
  then show ?thesis by (simp add: told_own)
qed

definition two_entries :: "unit filesystem" where
  "two_entries = InvalidFilesystem\<lparr>filesystem.readDir := (\<lambda>p s. (Inr [(DIR, ascii ''.''), (FILE, ascii ''ab''), (DIR, ascii ''d'')], s)),
     lstat := (\<lambda>p s. (Inr (no_stat\<lparr>st_size := length (path_string p)\<rparr>), s))\<rparr>"

definition two_entries_state :: "unit jni_state" where
  "two_entries_state = \<lparr>fuse_objects = [(5, snd (Fuse_init (Fuse_new (two_entries\<lparr>setContext := (\<lambda>_. ret ())\<rparr>, ()) 0 0)))], validFusePtrs = {5}\<rparr>"

lemma readdir_own_attributes_witness:
  "fst (cryfs_readdir 5 root_path [] collect two_entries_state) =
    Inr (0, Some [(ascii ''ab'', no_stat\<lparr>st_size := 3, st_mode := S_IFREG\<rparr>), (ascii ''d'', no_stat\<lparr>st_size := 2, st_mode := S_IFDIR\<rparr>)])"
proof -
  let ?F = "two_entries\<lparr>setContext := (\<lambda>_. ret ())\<rparr>" and ?es = "[(DIR, ascii ''.''), (FILE, ascii ''ab''), (DIR, ascii ''d'')]"
  define f where "f = snd (Fuse_init (Fuse_new (?F, ()) 0 0))"
  have f: "fu_fs f = (?F, ())" by (simp add: f_def Fuse_init_def Fuse_new_def ebind_def fs_call_def assert_exec_def)
  have a: "\<exists>f'. Fuse_getattr (path_append root_path name) g = (Inr (0, Some (no_stat\<lparr>st_size := Suc (length name)\<rparr>)), f') \<and> fu_fs f' = (?F, ())"
    if "fu_fs g = (?F, ())" for name g
    using that by (simp add: Fuse_getattr_def fuse_try_def ebind_def check_path_def assert_exec_def call_ok_def fs_call_def two_entries_def
        path_append_def root_path_def is_valid_fspp_path_def text_of_def)
  have "map_of (fuse_objects two_entries_state) 5 = Some f" "is_valid_fspp_path root_path"
      "fs_call (\<lambda>F. filesystem.readDir F root_path) f = (Inr ?es, f)"
    by (simp_all add: two_entries_state_def f_def [symmetric] root_path_def is_valid_fspp_path_def fs_call_def f)
      (simp add: two_entries_def f)
  from readdir_own_attributes [where I = "\<lambda>g. fu_fs g = (?F, ())", OF this f a]
  show ?thesis by (simp add: dots_def ascii_def)
qed

text \<open>When it fails for an entry, the app is told the attributes of the entry before it.\<close>

theorem readdir_stale_attributes:
  assumes "map_of (fuse_objects s) fusePtr = Some f" and "is_valid_fspp_path path"
    and "fs_call (\<lambda>F. filesystem.readDir F path) f = (Inr [(FILE, a), (FILE, b)], f1)" and "\<not> dots a" and "\<not> dots b"
    and "Fuse_getattr (path_append path a) f1 = (Inr (0, Some st), f2)" and "Fuse_getattr (path_append path b) f2 = (Inr (code, None), f3)"
  shows "fst (cryfs_readdir fusePtr path [] collect s) =
    Inr (0, Some [(a, st\<lparr>st_mode := S_IFREG\<rparr>), (b, st\<lparr>st_mode := S_IFREG\<rparr>)])"
  using assms by (simp add: cryfs_readdir_def with_fuse_def fuse_try_def ebind_def check_path_def assert_exec_def readDir_def dots_def collect_def Let_def)

end
