(* ===== verification/CfbCiphers.thy ===== *)
theory CfbCiphers
  imports ConfigCrypto
begin

unbundle bit_operations_syntax

text \<open>
  \<open>CFB_Cipher\<close> (\<open>src/src/cpp-utils/crypto/symmetric/CFB_Cipher.h\<close>): the ciphers without authentication. The mode of Crypto++ is a pair of
  functions of key, initialisation vector and message (\<open>ProcessData\<close>), which is not called for an empty message. It meets
  the contract of a cipher; what it does not do is recognise a message that was changed.
\<close>

record cfb_params =
  cfb_KEYSIZE :: nat
  cfb_IV_SIZE :: nat

definition CFB_Cipher_ciphertextSize :: "cfb_params \<Rightarrow> u32 \<Rightarrow> u32" where
  "CFB_Cipher_ciphertextSize P plaintextBlockSize = plaintextBlockSize + of_nat (cfb_IV_SIZE P)"

definition CFB_Cipher_plaintextSize :: "cfb_params \<Rightarrow> u32 \<Rightarrow> u32" where
  "CFB_Cipher_plaintextSize P ciphertextBlockSize = ciphertextBlockSize - of_nat (cfb_IV_SIZE P)"

definition CFB_Cipher_encrypt ::
  "cfb_params \<Rightarrow> (data \<Rightarrow> data \<Rightarrow> data \<Rightarrow> data) \<Rightarrow> (nat \<Rightarrow> ('r, data) exec) \<Rightarrow> data \<Rightarrow> data \<Rightarrow> ('r, data) exec" where
  "CFB_Cipher_encrypt P cfb_enc random plaintext encKey =
     (let n = unat (of_nat (length plaintext) :: u32) in
      ebind (assert_exec (length encKey = cfb_KEYSIZE P) ''Wrong key size'') (\<lambda>_.
      ebind (random (cfb_IV_SIZE P)) (\<lambda>iv.
      ret (iv @ (if n > 0 then cfb_enc encKey iv (take n plaintext) else [])))))"

definition CFB_Cipher_decrypt :: "cfb_params \<Rightarrow> (data \<Rightarrow> data \<Rightarrow> data \<Rightarrow> data) \<Rightarrow> data \<Rightarrow> data \<Rightarrow> data option result" where
  "CFB_Cipher_decrypt P cfb_dec ciphertext encKey =
     rbind (ASSERT (length encKey = cfb_KEYSIZE P) ''Wrong key size'') (\<lambda>_.
     let sz = of_nat (length ciphertext) :: u32 in
     if unat sz < cfb_IV_SIZE P then Inr None
     else let n = unat (CFB_Cipher_plaintextSize P sz) in
       Inr (Some (if n > 0 then cfb_dec encKey (take (cfb_IV_SIZE P) ciphertext) (slice (cfb_IV_SIZE P) n ciphertext) else [])))"

definition CFB_Cipher ::
  "cfb_params \<Rightarrow> (data \<Rightarrow> data \<Rightarrow> data \<Rightarrow> data) \<Rightarrow> (data \<Rightarrow> data \<Rightarrow> data \<Rightarrow> data) \<Rightarrow> (nat \<Rightarrow> ('r, data) exec) \<Rightarrow> ('r, data) cipher" where
  "CFB_Cipher P cfb_enc cfb_dec random =
     \<lparr>encrypt_of = CFB_Cipher_encrypt P cfb_enc random, decrypt_of = CFB_Cipher_decrypt P cfb_dec,
      ciphertextSize_of = CFB_Cipher_ciphertextSize P, plaintextSize_of = CFB_Cipher_plaintextSize P\<rparr>"

text \<open>What the wrapper relies on: the mode decrypts what it encrypted and keeps lengths, and the random source gives vectors of the right size.\<close>

definition cfb_mode_ok ::
  "cfb_params \<Rightarrow> (data \<Rightarrow> data \<Rightarrow> data \<Rightarrow> data) \<Rightarrow> (data \<Rightarrow> data \<Rightarrow> data \<Rightarrow> data) \<Rightarrow> (nat \<Rightarrow> ('r, data) exec) \<Rightarrow> bool" where
  "cfb_mode_ok P cfb_enc cfb_dec random \<longleftrightarrow>
     (\<forall>k iv m. cfb_dec k iv (cfb_enc k iv m) = m \<and> length (cfb_enc k iv m) = length m \<and> length (cfb_dec k iv m) = length m) \<and>
     (\<forall>r. \<exists>iv r'. random (cfb_IV_SIZE P) r = (Inr iv, r') \<and> length iv = cfb_IV_SIZE P)"

lemma cfb_plaintext_size:
  assumes "n + cfb_IV_SIZE P < 2 ^ 32"
  shows "unat (CFB_Cipher_plaintextSize P (of_nat (n + cfb_IV_SIZE P))) = n"
  using assms unat_u32_small [of n] by (simp add: CFB_Cipher_plaintextSize_def)

lemma cfb_decrypt_any:
  assumes "length k = cfb_KEYSIZE P" and "length iv = cfb_IV_SIZE P" and "length m + cfb_IV_SIZE P < 2 ^ 32"
    and "length (cfb_dec k iv m) = length m"
  shows "CFB_Cipher_decrypt P cfb_dec (iv @ m) k = Inr (Some (cfb_dec k iv m))"
proof -
  have "unat (of_nat (length (iv @ m)) :: u32) = length (iv @ m)" using assms(2,3) by (intro unat_u32_small) simp
  moreover have "unat (CFB_Cipher_plaintextSize P (of_nat (length (iv @ m)))) = length m"
    using cfb_plaintext_size [OF assms(3)] assms(2) by (simp add: add.commute)
  ultimately show ?thesis
    using assms(1,2,4) by (auto simp: CFB_Cipher_decrypt_def Let_def slice_def)
qed

lemma cfb_is_cipher:
  assumes "cfb_mode_ok P cfb_enc cfb_dec random"
  shows "cipher (CFB_Cipher P cfb_enc cfb_dec random) (\<lambda>k. length k = cfb_KEYSIZE P) (cfb_IV_SIZE P)"
proof
  fix k d :: data and r :: 'a
  assume k: "length k = cfb_KEYSIZE P" and n: "length d + cfb_IV_SIZE P < 2 ^ 32"
  obtain iv r' where iv: "random (cfb_IV_SIZE P) r = (Inr iv, r')" "length iv = cfb_IV_SIZE P"
    using assms unfolding cfb_mode_ok_def by blast
  have m: "cfb_dec k iv (cfb_enc k iv d) = d" "length (cfb_enc k iv d) = length d"
    using assms by (auto simp: cfb_mode_ok_def)
  have "CFB_Cipher_encrypt P cfb_enc random d k r = (Inr (iv @ cfb_enc k iv d), r')"
    using iv k m(2) n unat_u32_small [of "length d"] by (auto simp: CFB_Cipher_encrypt_def ebind_def Let_def)
  moreover have "CFB_Cipher_decrypt P cfb_dec (iv @ cfb_enc k iv d) k = Inr (Some d)"
    using cfb_decrypt_any [OF k iv(2), of "cfb_enc k iv d" cfb_dec] m n by simp
  ultimately show "\<exists>c r'. encrypt_of (CFB_Cipher P cfb_enc cfb_dec random) d k r = (Inr c, r') \<and>
      decrypt_of (CFB_Cipher P cfb_enc cfb_dec random) c k = Inr (Some d) \<and> length c = length d + cfb_IV_SIZE P"
    using iv(2) m(2) by (simp add: CFB_Cipher_def)
next
  fix n :: nat assume n: "n + cfb_IV_SIZE P < 2 ^ 32"
  show "unat (ciphertextSize_of (CFB_Cipher P cfb_enc cfb_dec random) (of_nat n)) = n + cfb_IV_SIZE P"
    using unat_u32_small [OF n] by (simp add: CFB_Cipher_def CFB_Cipher_ciphertextSize_def)
  show "unat (plaintextSize_of (CFB_Cipher P cfb_enc cfb_dec random) (of_nat (n + cfb_IV_SIZE P))) = n"
    using cfb_plaintext_size [OF n] by (simp add: CFB_Cipher_def)
qed

text \<open>A small mode with feedback for the instances: every byte is combined with the key, the vector and the byte of the ciphertext before it.\<close>

primrec feedback_enc :: "byte \<Rightarrow> data \<Rightarrow> data" where
  "feedback_enc c [] = []"
| "feedback_enc c (b # m) = (let d = b XOR c in d # feedback_enc (d + 1) m)"

primrec feedback_dec :: "byte \<Rightarrow> data \<Rightarrow> data" where
  "feedback_dec c [] = []"
| "feedback_dec c (d # m) = (d XOR c) # feedback_dec (d + 1) m"

definition feedback_cipher :: "nat \<Rightarrow> (nat \<Rightarrow> ('r, data) exec) \<Rightarrow> ('r, data) cipher" where
  "feedback_cipher n random =
     CFB_Cipher \<lparr>cfb_KEYSIZE = n, cfb_IV_SIZE = 1\<rparr> (\<lambda>k iv. feedback_enc (sum_list (k @ iv))) (\<lambda>k iv. feedback_dec (sum_list (k @ iv))) random"

lemma feedback_dec_enc [simp]: "feedback_dec c (feedback_enc c m) = m" "length (feedback_enc c m) = length m" "length (feedback_dec c m) = length m"
  by (induction m arbitrary: c) (simp_all add: Let_def xor.assoc)

lemma feedback_mode_ok:
  "cfb_mode_ok \<lparr>cfb_KEYSIZE = n, cfb_IV_SIZE = 1\<rparr> (\<lambda>k iv. feedback_enc (sum_list (k @ iv))) (\<lambda>k iv. feedback_dec (sum_list (k @ iv)))
    (\<lambda>k. ret (replicate k (5 :: byte)))"
  by (simp add: cfb_mode_ok_def)

interpretation feedback: cipher "feedback_cipher n (\<lambda>k. ret (replicate k 5))" "\<lambda>k. length k = n" 1
  using cfb_is_cipher [OF feedback_mode_ok [of n]] by (simp add: feedback_cipher_def del: sum_list_append)

section \<open>Properties\<close>

text \<open>
  The ciphers without authentication are ciphers, and no more: with a mode that inverts its encryption, every message decrypts to
  itself and grows by exactly the initialisation vector; every text of at least that size, whoever wrote it, decrypts to something,
  and a shorter one is refused, which is why these ciphers carry the warning on integrity.
\<close>

theorem cfb_accepts_everything:
  assumes "cfb_mode_ok P cfb_enc cfb_dec random" and "length k = cfb_KEYSIZE P" and "length c < 2 ^ 32"
  shows "cipher (CFB_Cipher P cfb_enc cfb_dec random) (\<lambda>k. length k = cfb_KEYSIZE P) (cfb_IV_SIZE P) \<and>
    decrypt_of (CFB_Cipher P cfb_enc cfb_dec random) c k =
      Inr (if length c < cfb_IV_SIZE P then None
           else Some (cfb_dec k (take (cfb_IV_SIZE P) c) (drop (cfb_IV_SIZE P) c)))"
proof (cases "length c < cfb_IV_SIZE P")
  case True
  then show ?thesis
    using cfb_is_cipher [OF assms(1)] assms(2,3) unat_u32_small [OF assms(3)] by (simp add: CFB_Cipher_def CFB_Cipher_decrypt_def Let_def)
next
  case False
  have "CFB_Cipher_decrypt P cfb_dec (take (cfb_IV_SIZE P) c @ drop (cfb_IV_SIZE P) c) k =
      Inr (Some (cfb_dec k (take (cfb_IV_SIZE P) c) (drop (cfb_IV_SIZE P) c)))"
    by (rule cfb_decrypt_any [OF assms(2)]) (use False assms(1,3) in \<open>auto simp: cfb_mode_ok_def\<close>)
  then show ?thesis using False cfb_is_cipher [OF assms(1)] by (simp add: CFB_Cipher_def)
qed

lemma cfb_accepts_everything_witness:
  "decrypt_of (feedback_cipher 2 (\<lambda>k. ret (replicate k (5 :: byte))) :: (unit, data) cipher) [5, 1, 2] [1, 1] = Inr (Some [6, 0])"
  using cfb_accepts_everything [OF feedback_mode_ok [where 'a = unit, of 2], of "[1, 1]" "[5, 1, 2]"]
  by (simp add: feedback_cipher_def del: sum_list_append)

end
