(* ===== verification/RandomPool.thy ===== *)
theory RandomPool
  imports CppData
begin

text \<open>
  The pool of random bytes behind \<open>Random::PseudoRandom()\<close> (\<open>src/src/cpp-utils/random\<close>): \<open>RandomDataBuffer\<close>, its version for
  several threads with condition variables, the thread that refills it, and \<open>PseudoRandomPool\<close> with its sizes. Threads are
  interleaved at their critical sections (step relation \<open>pool_step\<close>); a thread that waits for a condition variable takes its next step when
  the condition holds. Sizes are natural numbers with the truncation of \<open>size_t\<close> written out.
\<close>

section \<open>RandomDataBuffer\<close>

record random_buffer =
  usedUntil :: nat
  rb_data :: data

definition RandomDataBuffer_new :: random_buffer where
  "RandomDataBuffer_new = \<lparr>usedUntil = 0, rb_data = []\<rparr>"

definition RandomDataBuffer_size :: "random_buffer \<Rightarrow> nat" where
  "RandomDataBuffer_size b = (length (rb_data b) + 2 ^ 64 - usedUntil b) mod 2 ^ 64"

definition RandomDataBuffer_get :: "nat \<Rightarrow> (random_buffer, data) exec" where
  "RandomDataBuffer_get numBytes =
     ebind (gets RandomDataBuffer_size) (\<lambda>k.
     ebind (assert_exec (numBytes \<le> k) ''Too many bytes requested. Buffer is smaller.'') (\<lambda>_.
     ebind (gets (\<lambda>b. slice (usedUntil b) numBytes (rb_data b))) (\<lambda>d.
     ebind (modify (\<lambda>b. b\<lparr>usedUntil := usedUntil b + numBytes\<rparr>)) (\<lambda>_. ret d))))"

definition RandomDataBuffer_add :: "data \<Rightarrow> (random_buffer, unit) exec" where
  "RandomDataBuffer_add newData =
     ebind (gets RandomDataBuffer_size) (\<lambda>oldSize.
     ebind (RandomDataBuffer_get oldSize) (\<lambda>old.
     modify (\<lambda>b. \<lparr>usedUntil = 0, rb_data = old @ newData\<rparr>)))"

section \<open>ThreadsafeRandomDataBuffer\<close>

text \<open>\<open>_get\<close> under the mutex, once its condition (the buffer is not empty) holds; the bytes go to the target of the caller.\<close>

definition ThreadsafeRandomDataBuffer_getSome :: "nat \<Rightarrow> (random_buffer, data) exec" where
  "ThreadsafeRandomDataBuffer_getSome numBytes =
     ebind (gets RandomDataBuffer_size) (\<lambda>k. RandomDataBuffer_get (min k numBytes))"

text \<open>
  A call of \<open>get\<close>: it has copied \<open>gotten\<close> of \<open>numBytes\<close> bytes to its target, which has exactly \<open>numBytes\<close> bytes, and it
  asks \<open>_get\<close> for \<open>numBytes\<close> more in every round of its loop.
\<close>

datatype request = Getting nat data | Got nat data | Failed error

definition ThreadsafeRandomDataBuffer_get :: "nat \<Rightarrow> data \<Rightarrow> request" where
  "ThreadsafeRandomDataBuffer_get numBytes gotten =
     (if length gotten < numBytes then Getting numBytes gotten else Got numBytes gotten)"

definition ThreadsafeRandomDataBuffer_round :: "nat \<Rightarrow> data \<Rightarrow> data \<Rightarrow> request" where
  "ThreadsafeRandomDataBuffer_round numBytes gotten d =
     (if numBytes < length gotten + length d then Failed MemoryFault
      else case ASSERT (length gotten + length d \<le> numBytes) ''Got too many bytes'' of
          Inl e \<Rightarrow> Failed e
        | Inr _ \<Rightarrow> ThreadsafeRandomDataBuffer_get numBytes (gotten @ d))"

section \<open>RandomGeneratorThread and PseudoRandomPool\<close>

definition PseudoRandomPool_MIN_BUFFER_SIZE :: nat where
  "PseudoRandomPool_MIN_BUFFER_SIZE = 1 * 1024 * 1024"

definition PseudoRandomPool_MAX_BUFFER_SIZE :: nat where
  "PseudoRandomPool_MAX_BUFFER_SIZE = 2 * 1024 * 1024"

text \<open>
  Where the refilling thread is in \<open>_loopIteration\<close>: before \<open>waitUntilSizeIsLessThan\<close>, after it, after it has computed how many bytes
  are needed, after its assertion, or dead because the assertion failed.
\<close>

datatype refiller = Waiting | BelowMinimum | Needs nat | Checked nat | Dead error

definition RandomGeneratorThread_needed :: "nat \<Rightarrow> random_buffer \<Rightarrow> refiller" where
  "RandomGeneratorThread_needed maxSize b = Needs ((maxSize + 2 ^ 64 - RandomDataBuffer_size b) mod 2 ^ 64)"

definition RandomGeneratorThread_check :: "nat \<Rightarrow> nat \<Rightarrow> random_buffer \<Rightarrow> refiller" where
  "RandomGeneratorThread_check maxSize n b =
     (case ASSERT (RandomDataBuffer_size b < maxSize)
          ''This could theoretically fail if another thread refilled the buffer. But we should be the only refilling thread.'' of
        Inl e \<Rightarrow> Dead e
      | Inr _ \<Rightarrow> Checked n)"

text \<open>
  The system: the buffer, the refilling thread, all calls of \<open>get\<close> so far, and for the statements the bytes that \<open>_get\<close>
  copied to which call, in order, and all bytes the generator has made.
\<close>

record pool_system =
  pool :: random_buffer
  refill :: refiller
  requests :: "nat \<Rightarrow> request option"
  copied :: "(nat \<times> data) list"
  generated :: data

inductive pool_step :: "nat \<Rightarrow> nat \<Rightarrow> pool_system \<Rightarrow> pool_system \<Rightarrow> bool" for minSize maxSize where
  request: "requests y r = None \<Longrightarrow>
    pool_step minSize maxSize y (y\<lparr>requests := (requests y)(r \<mapsto> ThreadsafeRandomDataBuffer_get numBytes [])\<rparr>)"
| get: "requests y r = Some (Getting numBytes gotten) \<Longrightarrow> 0 < RandomDataBuffer_size (pool y) \<Longrightarrow>
    ThreadsafeRandomDataBuffer_getSome numBytes (pool y) = (Inr d, b) \<Longrightarrow>
    pool_step minSize maxSize y (y\<lparr>pool := b, copied := copied y @ [(r, d)],
      requests := (requests y)(r \<mapsto> ThreadsafeRandomDataBuffer_round numBytes gotten d)\<rparr>)"
| get_throws: "requests y r = Some (Getting numBytes gotten) \<Longrightarrow> 0 < RandomDataBuffer_size (pool y) \<Longrightarrow>
    ThreadsafeRandomDataBuffer_getSome numBytes (pool y) = (Inl e, b) \<Longrightarrow>
    pool_step minSize maxSize y (y\<lparr>pool := b, requests := (requests y)(r \<mapsto> Failed e)\<rparr>)"
| wait: "refill y = Waiting \<Longrightarrow> RandomDataBuffer_size (pool y) < minSize \<Longrightarrow>
    pool_step minSize maxSize y (y\<lparr>refill := BelowMinimum\<rparr>)"
| needed: "refill y = BelowMinimum \<Longrightarrow>
    pool_step minSize maxSize y (y\<lparr>refill := RandomGeneratorThread_needed maxSize (pool y)\<rparr>)"
| check: "refill y = Needs n \<Longrightarrow>
    pool_step minSize maxSize y (y\<lparr>refill := RandomGeneratorThread_check maxSize n (pool y)\<rparr>)"
| add: "refill y = Checked (length d) \<Longrightarrow> RandomDataBuffer_add d (pool y) = (Inr (), b) \<Longrightarrow>
    pool_step minSize maxSize y (y\<lparr>pool := b, refill := Waiting, generated := generated y @ d\<rparr>)"
| add_throws: "refill y = Checked (length d) \<Longrightarrow> RandomDataBuffer_add d (pool y) = (Inl e, b) \<Longrightarrow>
    pool_step minSize maxSize y (y\<lparr>pool := b, refill := Dead e\<rparr>)"

definition pool_start :: pool_system where
  "pool_start = \<lparr>pool = RandomDataBuffer_new, refill = Waiting, requests = Map.empty, copied = [], generated = []\<rparr>"

definition pool_reachable :: "nat \<Rightarrow> nat \<Rightarrow> pool_system \<Rightarrow> bool" where
  "pool_reachable minSize maxSize y \<longleftrightarrow> (pool_step minSize maxSize)\<^sup>*\<^sup>* pool_start y"

section \<open>The buffer as a queue\<close>

definition unread :: "random_buffer \<Rightarrow> data" where
  "unread b = drop (usedUntil b) (rb_data b)"

definition buffer_ok :: "nat \<Rightarrow> random_buffer \<Rightarrow> bool" where
  "buffer_ok maxSize b \<longleftrightarrow> usedUntil b \<le> length (rb_data b) \<and> length (rb_data b) \<le> maxSize"

lemma buffer_size:
  assumes "buffer_ok maxSize b" and "maxSize < 2 ^ 64"
  shows "RandomDataBuffer_size b = length (unread b)"
proof -
  have "length (rb_data b) + 2 ^ 64 - usedUntil b = (length (rb_data b) - usedUntil b) + 2 ^ 64"
    using assms(1) by (simp add: buffer_ok_def)
  moreover have "length (rb_data b) - usedUntil b < 2 ^ 64"
    using assms unfolding buffer_ok_def by linarith
  ultimately show ?thesis
    by (simp only: RandomDataBuffer_size_def unread_def mod_add_self2 mod_less length_drop)
qed

lemma buffer_get:
  assumes "buffer_ok maxSize b" and "maxSize < 2 ^ 64" and "n \<le> length (unread b)"
  obtains b' where "RandomDataBuffer_get n b = (Inr (take n (unread b)), b')" and "buffer_ok maxSize b'" and "unread b' = drop n (unread b)"
proof
  show "RandomDataBuffer_get n b = (Inr (take n (unread b)), b\<lparr>usedUntil := usedUntil b + n\<rparr>)"
    using assms(3) by (simp add: RandomDataBuffer_get_def buffer_size [OF assms(1,2)] slice_def unread_def)
  show "buffer_ok maxSize (b\<lparr>usedUntil := usedUntil b + n\<rparr>)"
    using assms(1,3) by (auto simp: buffer_ok_def unread_def)
  show "unread (b\<lparr>usedUntil := usedUntil b + n\<rparr>) = drop n (unread b)"
    by (simp add: unread_def add.commute)
qed

lemma buffer_get_some:
  assumes "buffer_ok maxSize b" and "maxSize < 2 ^ 64"
  obtains b' where "ThreadsafeRandomDataBuffer_getSome n b = (Inr (take n (unread b)), b')" and "buffer_ok maxSize b'"
    and "unread b' = drop n (unread b)"
proof -
  obtain b' where "RandomDataBuffer_get (min (length (unread b)) n) b = (Inr (take (min (length (unread b)) n) (unread b)), b')"
      "buffer_ok maxSize b'" "unread b' = drop (min (length (unread b)) n) (unread b)"
    by (rule buffer_get [OF assms, of "min (length (unread b)) n"]) simp_all
  moreover have "take (min (length (unread b)) n) (unread b) = take n (unread b)"
    "drop (min (length (unread b)) n) (unread b) = drop n (unread b)"
    by (simp_all add: min_def)
  ultimately show thesis
    using that by (simp add: ThreadsafeRandomDataBuffer_getSome_def buffer_size [OF assms])
qed

lemma buffer_add:
  assumes "buffer_ok maxSize b" and "maxSize < 2 ^ 64" and "length (unread b) + length d \<le> maxSize"
  obtains b' where "RandomDataBuffer_add d b = (Inr (), b')" and "buffer_ok maxSize b'" and "unread b' = unread b @ d"
proof
  obtain c where c: "RandomDataBuffer_get (length (unread b)) b = (Inr (unread b), c)"
    by (rule buffer_get [OF assms(1,2) order_refl]) simp
  show "RandomDataBuffer_add d b = (Inr (), \<lparr>usedUntil = 0, rb_data = unread b @ d\<rparr>)"
    using c by (simp add: RandomDataBuffer_add_def buffer_size [OF assms(1,2)] ebind_def)
qed (use assms(3) in \<open>simp_all add: buffer_ok_def unread_def\<close>)

section \<open>The invariant\<close>

definition refill_ok :: "nat \<Rightarrow> nat \<Rightarrow> refiller \<Rightarrow> nat \<Rightarrow> bool" where
  "refill_ok minSize maxSize s n \<longleftrightarrow>
     (case s of Waiting \<Rightarrow> True | BelowMinimum \<Rightarrow> n < minSize | Needs k \<Rightarrow> n < minSize \<and> n + k \<le> maxSize
      | Checked k \<Rightarrow> n + k \<le> maxSize | Dead e \<Rightarrow> False)"

definition copied_to :: "nat \<Rightarrow> (nat \<times> data) list \<Rightarrow> data" where
  "copied_to r cs = concat (map snd (filter (\<lambda>c. fst c = r) cs))"

lemma copied_to_simps [simp]:
  "copied_to r [] = []"
  "copied_to r (cs @ [(q, d)]) = (if q = r then copied_to r cs @ d else copied_to r cs)"
  by (auto simp: copied_to_def)

definition request_ok :: "(nat \<times> data) list \<Rightarrow> nat \<Rightarrow> request option \<Rightarrow> bool" where
  "request_ok cs r q \<longleftrightarrow>
     (case q of None \<Rightarrow> copied_to r cs = []
      | Some (Getting n d) \<Rightarrow> length d < n \<and> d = copied_to r cs
      | Some (Got n d) \<Rightarrow> length d = n \<and> d = copied_to r cs
      | Some (Failed e) \<Rightarrow> e = MemoryFault)"

definition pool_inv :: "nat \<Rightarrow> nat \<Rightarrow> pool_system \<Rightarrow> bool" where
  "pool_inv minSize maxSize y \<longleftrightarrow>
     buffer_ok maxSize (pool y) \<and> refill_ok minSize maxSize (refill y) (length (unread (pool y))) \<and>
     concat (map snd (copied y)) @ unread (pool y) = generated y \<and> (\<forall>r. request_ok (copied y) r (requests y r))"

lemma refill_ok_less: "refill_ok minSize maxSize s n \<Longrightarrow> m \<le> n \<Longrightarrow> refill_ok minSize maxSize s m"
  by (auto simp: refill_ok_def split: refiller.splits)

lemma request_ok_other: "q \<noteq> r \<Longrightarrow> request_ok (cs @ [(q, d)]) r x \<longleftrightarrow> request_ok cs r x"
  by (simp add: request_ok_def split: option.splits request.splits)

lemma request_ok_round:
  assumes "request_ok cs r (Some (Getting n g))" and "length d \<le> n"
  shows "request_ok (cs @ [(r, d)]) r (Some (ThreadsafeRandomDataBuffer_round n g d))"
  using assms by (auto simp: request_ok_def ThreadsafeRandomDataBuffer_round_def ThreadsafeRandomDataBuffer_get_def)

lemma pool_inv_step:
  assumes "pool_step minSize maxSize y z" and "pool_inv minSize maxSize y" and "minSize \<le> maxSize" and "maxSize < 2 ^ 64"
  shows "pool_inv minSize maxSize z"
proof -
  have ok: "buffer_ok maxSize (pool y)" and rf: "refill_ok minSize maxSize (refill y) (length (unread (pool y)))"
    and g: "concat (map snd (copied y)) @ unread (pool y) = generated y" and rq: "\<And>r. request_ok (copied y) r (requests y r)"
    using assms(2) by (simp_all add: pool_inv_def)
  note size = buffer_size [OF ok assms(4)]
  from assms(1) show ?thesis
  proof cases
    case (request r n)
    with rq [of r] have "request_ok (copied y) r (Some (ThreadsafeRandomDataBuffer_get n []))"
      by (simp add: request_ok_def ThreadsafeRandomDataBuffer_get_def)
    then show ?thesis using request assms(2) by (simp add: pool_inv_def)
  next
    case (get r n d0 d b)
    obtain b' where b': "ThreadsafeRandomDataBuffer_getSome n (pool y) = (Inr (take n (unread (pool y))), b')" "buffer_ok maxSize b'"
        "unread b' = drop n (unread (pool y))"
      by (rule buffer_get_some [OF ok assms(4)])
    with get(4) have d: "d = take n (unread (pool y))" "b = b'" by simp_all
    have "request_ok (copied y @ [(r, d)]) r (Some (ThreadsafeRandomDataBuffer_round n d0 d))"
      by (rule request_ok_round) (use rq [of r] get(2) d(1) in simp_all)
    moreover have "refill_ok minSize maxSize (refill y) (length (unread b))"
      by (rule refill_ok_less [OF rf]) (simp add: d b')
    moreover have "concat (map snd (copied y @ [(r, d)])) @ unread b = generated y"
      using g by (simp add: d b')
    ultimately show ?thesis using get(1) rq b'(2) d(2) by (auto simp: pool_inv_def request_ok_other)
  next
    case (get_throws r n d0 e b)
    then show ?thesis using buffer_get_some [OF ok assms(4), of n] by auto
  next
    case wait
    then show ?thesis using assms(2) by (simp add: pool_inv_def refill_ok_def size)
  next
    case needed
    have *: "length (unread (pool y)) < minSize" using rf needed(2) by (simp add: refill_ok_def)
    then have "maxSize + 2 ^ 64 - length (unread (pool y)) = (maxSize - length (unread (pool y))) + 2 ^ 64" using assms(3) by simp
    moreover have "maxSize - length (unread (pool y)) < 2 ^ 64" using assms(4) by simp
    ultimately have "(maxSize + 2 ^ 64 - length (unread (pool y))) mod 2 ^ 64 = maxSize - length (unread (pool y))"
      by (simp only: mod_add_self2 mod_less)
    then show ?thesis using needed assms(2,3) * by (simp add: pool_inv_def refill_ok_def RandomGeneratorThread_needed_def size)
  next
    case (check n)
    then show ?thesis using rf assms(2,3) by (auto simp: pool_inv_def refill_ok_def RandomGeneratorThread_check_def size ASSERT_def)
  next
    case (add d b)
    obtain b' where "RandomDataBuffer_add d (pool y) = (Inr (), b')" "buffer_ok maxSize b'" "unread b' = unread (pool y) @ d"
      by (rule buffer_add [OF ok assms(4), of d]) (use rf add(2) in \<open>simp add: refill_ok_def\<close>)
    then show ?thesis using add g rq by (auto simp: pool_inv_def refill_ok_def simp flip: append_assoc)
  next
    case (add_throws d e b)
    then show ?thesis
      using buffer_add [OF ok assms(4), of d] rf by (auto simp: refill_ok_def)
  qed
qed

lemma reachable_pool_inv:
  assumes "pool_reachable minSize maxSize y" and "minSize \<le> maxSize" and "maxSize < 2 ^ 64"
  shows "pool_inv minSize maxSize y"
  using assms(1) unfolding pool_reachable_def
proof (induction rule: rtranclp_induct)
  case base
  show ?case
    by (simp add: pool_inv_def pool_start_def buffer_ok_def RandomDataBuffer_new_def unread_def refill_ok_def request_ok_def)
qed (blast intro: pool_inv_step assms(2,3))

section \<open>Properties\<close>

text \<open>
  C20. No random byte is used twice: in every run of the refilling thread and of any number of callers, the bytes that were copied to the
  callers, in the order of the copies, followed by the bytes left in the buffer, are exactly the bytes the generator has made, so that each of
  them went to at most one caller; and a call that has returned got as many bytes as it asked for, all of them its own.
\<close>

theorem random_bytes_used_once:
  assumes "pool_reachable PseudoRandomPool_MIN_BUFFER_SIZE PseudoRandomPool_MAX_BUFFER_SIZE y"
  shows "concat (map snd (copied y)) @ unread (pool y) = generated y \<and>
    (requests y r = Some (Got n d) \<longrightarrow> length d = n \<and> d = copied_to r (copied y))"
proof -
  have "pool_inv PseudoRandomPool_MIN_BUFFER_SIZE PseudoRandomPool_MAX_BUFFER_SIZE y"
    by (rule reachable_pool_inv [OF assms]) (simp_all add: PseudoRandomPool_MIN_BUFFER_SIZE_def PseudoRandomPool_MAX_BUFFER_SIZE_def)
  then have "concat (map snd (copied y)) @ unread (pool y) = generated y" "request_ok (copied y) r (requests y r)"
    by (simp_all add: pool_inv_def)
  then show ?thesis by (auto simp: request_ok_def)
qed

text \<open>
  C36. The pool is bounded and its thread lives: the buffer never holds more than \<open>MAX_BUFFER_SIZE\<close> bytes, the size computed for a refill
  never wraps around, and the assertion that the comment in the refilling thread doubts never fails.
\<close>

theorem pool_bounded:
  assumes "pool_reachable PseudoRandomPool_MIN_BUFFER_SIZE PseudoRandomPool_MAX_BUFFER_SIZE y"
  shows "RandomDataBuffer_size (pool y) \<le> PseudoRandomPool_MAX_BUFFER_SIZE \<and> refill y \<noteq> Dead e \<and>
    (refill y = Needs n \<longrightarrow> RandomDataBuffer_size (pool y) + n \<le> PseudoRandomPool_MAX_BUFFER_SIZE)"
proof -
  have m: "PseudoRandomPool_MIN_BUFFER_SIZE \<le> PseudoRandomPool_MAX_BUFFER_SIZE" "PseudoRandomPool_MAX_BUFFER_SIZE < 2 ^ 64"
    by (simp_all add: PseudoRandomPool_MIN_BUFFER_SIZE_def PseudoRandomPool_MAX_BUFFER_SIZE_def)
  have inv: "pool_inv PseudoRandomPool_MIN_BUFFER_SIZE PseudoRandomPool_MAX_BUFFER_SIZE y"
    by (rule reachable_pool_inv [OF assms m])
  then have "RandomDataBuffer_size (pool y) = length (unread (pool y))"
    using buffer_size m(2) by (auto simp: pool_inv_def)
  with inv show ?thesis
    by (auto simp: pool_inv_def buffer_ok_def refill_ok_def unread_def)
qed

section \<open>A run\<close>

lemma refill_run:
  assumes "buffer_ok maxSize (pool y)" and "refill y = Waiting" and "unread (pool y) = []"
    and "0 < minSize" and "minSize \<le> maxSize" and "maxSize < 2 ^ 64" and "length d = maxSize"
  obtains z where "(pool_step minSize maxSize)\<^sup>*\<^sup>* y z" and "requests z = requests y" and "copied z = copied y"
    and "buffer_ok maxSize (pool z)" and "unread (pool z) = d" and "refill z = Waiting"
proof -
  note size = buffer_size [OF assms(1,6)]
  let ?y1 = "y\<lparr>refill := BelowMinimum\<rparr>" and ?y2 = "y\<lparr>refill := Needs (length d)\<rparr>" and ?y3 = "y\<lparr>refill := Checked (length d)\<rparr>"
  have "pool_step minSize maxSize y ?y1"
    by (rule pool_step.wait) (use assms size in simp_all)
  moreover have "pool_step minSize maxSize ?y1 ?y2"
    using pool_step.needed [of ?y1 minSize maxSize] assms(3,6,7) size by (simp add: RandomGeneratorThread_needed_def)
  moreover have "pool_step minSize maxSize ?y2 ?y3"
    using pool_step.check [of ?y2 "length d" minSize maxSize] assms(3-5) size by (simp add: RandomGeneratorThread_check_def)
  moreover obtain b where b: "RandomDataBuffer_add d (pool y) = (Inr (), b)" "buffer_ok maxSize b" "unread b = d"
    by (rule buffer_add [OF assms(1,6), of d]) (use assms(3,7) in simp_all)
  moreover have "pool_step minSize maxSize ?y3 (?y3\<lparr>pool := b, refill := Waiting, generated := generated y @ d\<rparr>)"
    using pool_step.add [of ?y3 d b minSize maxSize] b(1) by simp
  ultimately have "(pool_step minSize maxSize)\<^sup>*\<^sup>* y (?y3\<lparr>pool := b, refill := Waiting, generated := generated y @ d\<rparr>)"
    by (meson converse_rtranclp_into_rtranclp rtranclp.rtrancl_refl)
  then show thesis by (rule that) (use b in simp_all)
qed

lemma get_run:
  assumes "buffer_ok maxSize (pool y)" and "maxSize < 2 ^ 64" and "requests y r = Some (Getting n g)" and "unread (pool y) \<noteq> []"
  obtains z where "pool_step minSize maxSize y z" and "buffer_ok maxSize (pool z)" and "refill z = refill y"
    and "unread (pool z) = drop n (unread (pool y))" and "copied z = copied y @ [(r, take n (unread (pool y)))]"
    and "requests z = (requests y)(r \<mapsto> ThreadsafeRandomDataBuffer_round n g (take n (unread (pool y))))"
proof -
  obtain b where b: "ThreadsafeRandomDataBuffer_getSome n (pool y) = (Inr (take n (unread (pool y))), b)" "buffer_ok maxSize b"
      "unread b = drop n (unread (pool y))"
    by (rule buffer_get_some [OF assms(1,2)])
  have "0 < RandomDataBuffer_size (pool y)" using buffer_size [OF assms(1,2)] assms(4) by simp
  from pool_step.get [OF assms(3) this b(1), of minSize maxSize] show thesis by (rule that) (use b in simp_all)
qed

lemma first_refill:
  assumes "0 < minSize" and "minSize \<le> maxSize" and "maxSize < 2 ^ 64" and "0 < n" and "length d = maxSize"
  obtains z where "pool_reachable minSize maxSize z" and "requests z = [0 \<mapsto> Getting n []]" and "copied z = []"
    and "buffer_ok maxSize (pool z)" and "unread (pool z) = d" and "refill z = Waiting"
proof -
  let ?y = "pool_start\<lparr>requests := [0 \<mapsto> Getting n []]\<rparr>"
  have "pool_step minSize maxSize pool_start ?y"
    using pool_step.request [of pool_start 0 minSize maxSize n] assms(4) by (simp add: pool_start_def ThreadsafeRandomDataBuffer_get_def)
  moreover obtain z where z: "(pool_step minSize maxSize)\<^sup>*\<^sup>* ?y z" "requests z = requests ?y" "copied z = copied ?y"
      "buffer_ok maxSize (pool z)" "unread (pool z) = d" "refill z = Waiting"
    by (rule refill_run [of maxSize ?y minSize d])
      (use assms in \<open>simp_all add: pool_start_def buffer_ok_def unread_def RandomDataBuffer_new_def\<close>)
  ultimately have "pool_reachable minSize maxSize z"
    unfolding pool_reachable_def by (meson converse_rtranclp_into_rtranclp)
  then show thesis by (rule that) (use z in \<open>simp_all add: pool_start_def\<close>)
qed

lemma pool_constants:
  "0 < PseudoRandomPool_MIN_BUFFER_SIZE" "PseudoRandomPool_MIN_BUFFER_SIZE \<le> PseudoRandomPool_MAX_BUFFER_SIZE"
  "PseudoRandomPool_MAX_BUFFER_SIZE < 2 ^ 64" "2 < PseudoRandomPool_MAX_BUFFER_SIZE"
  by (simp_all add: PseudoRandomPool_MIN_BUFFER_SIZE_def PseudoRandomPool_MAX_BUFFER_SIZE_def)

lemma served_run:
  obtains z where "pool_reachable PseudoRandomPool_MIN_BUFFER_SIZE PseudoRandomPool_MAX_BUFFER_SIZE z" and "requests z 0 = Some (Got 2 [7, 7])"
    and "copied z = [(0, [7, 7])]"
proof -
  let ?d = "[7, 7] @ replicate (PseudoRandomPool_MAX_BUFFER_SIZE - 2) (0 :: byte)"
  obtain y where y: "pool_reachable PseudoRandomPool_MIN_BUFFER_SIZE PseudoRandomPool_MAX_BUFFER_SIZE y" "requests y = [0 \<mapsto> Getting 2 []]"
      "copied y = []" "buffer_ok PseudoRandomPool_MAX_BUFFER_SIZE (pool y)" "unread (pool y) = ?d"
    by (rule first_refill [OF pool_constants(1-3), of 2 ?d]) (use pool_constants(4) in simp_all)
  obtain z where "pool_step PseudoRandomPool_MIN_BUFFER_SIZE PseudoRandomPool_MAX_BUFFER_SIZE y z"
      "copied z = copied y @ [(0, take 2 ?d)]" "requests z = (requests y)(0 \<mapsto> ThreadsafeRandomDataBuffer_round 2 [] (take 2 ?d))"
    by (rule get_run [OF y(4) pool_constants(3), of 0 2 "[]"]) (use y in simp_all)
  with y(1,3) show thesis
    by (intro that [of z])
      (auto simp: pool_reachable_def ThreadsafeRandomDataBuffer_round_def ThreadsafeRandomDataBuffer_get_def numeral_2_eq_2)
qed

lemma random_bytes_used_once_witness:
  "\<exists>y :: pool_system. requests y 0 = Some (Got 2 [7, 7]) \<and> [7, 7] @ unread (pool y) = generated y"
proof -
  obtain z where z: "pool_reachable PseudoRandomPool_MIN_BUFFER_SIZE PseudoRandomPool_MAX_BUFFER_SIZE z" "requests z 0 = Some (Got 2 [7, 7])"
      "copied z = [(0, [7, 7])]"
    by (rule served_run)
  from random_bytes_used_once [OF z(1), of 0 2 "[7, 7]"] z show ?thesis by auto
qed

lemma pool_bounded_witness:
  "\<exists>y :: pool_system. requests y 0 = Some (Got 2 [7, 7]) \<and> RandomDataBuffer_size (pool y) \<le> PseudoRandomPool_MAX_BUFFER_SIZE"
proof -
  obtain z where z: "pool_reachable PseudoRandomPool_MIN_BUFFER_SIZE PseudoRandomPool_MAX_BUFFER_SIZE z" "requests z 0 = Some (Got 2 [7, 7])"
    by (rule served_run)
  from pool_bounded [OF z(1)] z show ?thesis by blast
qed

text \<open>
  C40. A call may write outside of its target: \<open>get\<close> asks in every round for as many bytes as in the first one, and not for the bytes that
  are still missing. There is a run with one caller in which the buffer is empty after the first round and refilled before
  the second, which then copies more bytes than the target has room for.
\<close>

theorem get_overflows_target:
  "\<exists>y. pool_reachable PseudoRandomPool_MIN_BUFFER_SIZE PseudoRandomPool_MAX_BUFFER_SIZE y \<and> requests y 0 = Some (Failed MemoryFault)"
proof -
  let ?n = PseudoRandomPool_MAX_BUFFER_SIZE and ?m = PseudoRandomPool_MIN_BUFFER_SIZE
  let ?d = "replicate ?n (0 :: byte)"
  note c = pool_constants
  obtain y where y: "pool_reachable ?m ?n y" "requests y = [0 \<mapsto> Getting (Suc ?n) []]" "buffer_ok ?n (pool y)" "unread (pool y) = ?d" "refill y = Waiting"
    by (rule first_refill [OF c(1-3), of "Suc ?n" ?d]) simp_all
  obtain z where z: "pool_step ?m ?n y z" "buffer_ok ?n (pool z)" "refill z = refill y" "unread (pool z) = []"
      "requests z = (requests y)(0 \<mapsto> ThreadsafeRandomDataBuffer_round (Suc ?n) [] ?d)"
    by (rule get_run [OF y(3) c(3), of 0 "Suc ?n" "[]"]) (use y c(4) in simp_all)
  have z': "requests z 0 = Some (Getting (Suc ?n) ?d)"
    by (simp add: z(5) ThreadsafeRandomDataBuffer_round_def ThreadsafeRandomDataBuffer_get_def)
  obtain w where w: "(pool_step ?m ?n)\<^sup>*\<^sup>* z w" "requests w = requests z" "buffer_ok ?n (pool w)" "unread (pool w) = ?d"
    by (rule refill_run [OF z(2) _ z(4) c(1-3), of ?d]) (use z(3) y(5) in simp_all)
  obtain v where v: "pool_step ?m ?n w v" "requests v = (requests w)(0 \<mapsto> ThreadsafeRandomDataBuffer_round (Suc ?n) ?d ?d)"
    by (rule get_run [OF w(3) c(3), of 0 "Suc ?n" ?d]) (use w z' c(4) in simp_all)
  have "pool_reachable ?m ?n v"
    using y(1) z(1) w(1) v(1) unfolding pool_reachable_def by (meson rtranclp.rtrancl_into_rtrancl rtranclp_trans)
  moreover have "requests v 0 = Some (Failed MemoryFault)"
    using c(4) by (simp add: v(2) ThreadsafeRandomDataBuffer_round_def)
  ultimately show ?thesis by blast
qed

end
