(* ===== verification/LeftRightLock.thy ===== *)
theory LeftRightLock
  imports Prelude "HOL-Library.Multiset"
begin

unbundle bit_operations_syntax

text \<open>
  \<open>LeftRight\<close> (\<open>src/src/cpp-utils/thread/LeftRight.h\<close>): readers that never wait, beside one writer at a time. Every atomic load, store and
  increment is a step of its own, so that the index of a counter may be old when the counter is incremented; the body of a
  write function changes its instance in arbitrary partial steps. The counters are 32 bit integers that wrap, with fewer than \<open>2^32\<close> calls of
  \<open>read\<close> at a time.
\<close>

section \<open>The object\<close>

record 'a left_right =
  foregroundCounterIndex :: nat
  foregroundDataIndex :: nat
  lr_counters :: "u32 list"
  lr_data :: "'a list"
  inDestruction :: bool

definition LeftRight_new :: "'a \<Rightarrow> 'a left_right" where
  "LeftRight_new x = \<lparr>foregroundCounterIndex = 0, foregroundDataIndex = 0, lr_counters = [0, 0], lr_data = [x, x], inDestruction = False\<rparr>"

definition IncrementRAII_new :: "nat \<Rightarrow> 'a left_right \<Rightarrow> 'a left_right" where
  "IncrementRAII_new i s = s\<lparr>lr_counters := (lr_counters s)[i := lr_counters s ! i + 1]\<rparr>"

definition IncrementRAII_destroy :: "nat \<Rightarrow> 'a left_right \<Rightarrow> 'a left_right" where
  "IncrementRAII_destroy i s = s\<lparr>lr_counters := (lr_counters s)[i := lr_counters s ! i - 1]\<rparr>"

text \<open>
  \<open>_callWriteFuncOnBackgroundInstance\<close>: the instance while the function runs (any value), after it has returned, and after it
  has thrown.
\<close>

definition LeftRight_partialWrite :: "'a \<Rightarrow> nat \<Rightarrow> 'a left_right \<Rightarrow> 'a left_right" where
  "LeftRight_partialWrite x localDataIndex s = s\<lparr>lr_data := (lr_data s)[localDataIndex XOR 1 := x]\<rparr>"

definition LeftRight_catchWrite :: "nat \<Rightarrow> 'a left_right \<Rightarrow> 'a left_right" where
  "LeftRight_catchWrite localDataIndex s = s\<lparr>lr_data := (lr_data s)[localDataIndex XOR 1 := lr_data s ! localDataIndex]\<rparr>"

definition LeftRight_backgroundCounterIsZero :: "nat \<Rightarrow> 'a left_right \<Rightarrow> bool" where
  "LeftRight_backgroundCounterIsZero counterIndex s \<longleftrightarrow> lr_counters s ! (counterIndex XOR 1) = 0"

section \<open>Threads\<close>

text \<open>
  A call of \<open>read\<close> has loaded the index of a counter, has incremented that counter, has seen that there is no destruction, and runs
  its function on an instance. A call of \<open>write\<close> goes through the six parts of the algorithm, with the value its instance had
  when the function was called. The destructor waits for writers and then looks at the two counters one after the other.
\<close>

datatype reader = LoadedIndex nat | HasCounted nat | Admitted nat | Reading nat nat

datatype 'a writer =
    NoWriter
  | Locked "'a \<Rightarrow> 'a"
  | Begun "'a \<Rightarrow> 'a"
  | WritingFirst "'a \<Rightarrow> 'a" nat 'a
  | WrittenFirst "'a \<Rightarrow> 'a" nat
  | SwitchedData "'a \<Rightarrow> 'a" nat
  | WaitingOld "'a \<Rightarrow> 'a" nat nat
  | Drained "'a \<Rightarrow> 'a" nat nat
  | WaitingNew "'a \<Rightarrow> 'a" nat nat
  | WritingSecond "'a \<Rightarrow> 'a" nat 'a

datatype destructor = Alive | Started | WritersGone | SawZero | Destroyed

record 'a lr_system =
  lr :: "'a left_right"
  readers :: "reader multiset"
  writer :: "'a writer"
  destructor :: destructor
  history :: "'a list"

inductive lr_step :: "'a lr_system \<Rightarrow> 'a lr_system \<Rightarrow> bool" where
  read_load: "lr_step y (y\<lparr>readers := add_mset (LoadedIndex (foregroundCounterIndex (lr y))) (readers y)\<rparr>)"
| read_count: "readers y = add_mset (LoadedIndex i) R \<Longrightarrow>
    lr_step y (y\<lparr>lr := IncrementRAII_new i (lr y), readers := add_mset (HasCounted i) R\<rparr>)"
| read_refused: "readers y = add_mset (HasCounted i) R \<Longrightarrow> inDestruction (lr y) \<Longrightarrow>
    lr_step y (y\<lparr>lr := IncrementRAII_destroy i (lr y), readers := R\<rparr>)"
| read_admitted: "readers y = add_mset (HasCounted i) R \<Longrightarrow> \<not> inDestruction (lr y) \<Longrightarrow> lr_step y (y\<lparr>readers := add_mset (Admitted i) R\<rparr>)"
| read_begin: "readers y = add_mset (Admitted i) R \<Longrightarrow>
    lr_step y (y\<lparr>readers := add_mset (Reading i (foregroundDataIndex (lr y))) R\<rparr>)"
| read_end: "readers y = add_mset (Reading i d) R \<Longrightarrow> lr_step y (y\<lparr>lr := IncrementRAII_destroy i (lr y), readers := R\<rparr>)"
| write_lock: "writer y = NoWriter \<Longrightarrow> lr_step y (y\<lparr>writer := Locked f\<rparr>)"
| write_refused: "writer y = Locked f \<Longrightarrow> inDestruction (lr y) \<Longrightarrow> lr_step y (y\<lparr>writer := NoWriter\<rparr>)"
| write_begin: "writer y = Locked f \<Longrightarrow> \<not> inDestruction (lr y) \<Longrightarrow> lr_step y (y\<lparr>writer := Begun f\<rparr>)"
| write_first: "writer y = Begun f \<Longrightarrow> d = foregroundDataIndex (lr y) \<Longrightarrow>
    lr_step y (y\<lparr>writer := WritingFirst f d (lr_data (lr y) ! (d XOR 1))\<rparr>)"
| first_partial: "writer y = WritingFirst f d v \<Longrightarrow> lr_step y (y\<lparr>lr := LeftRight_partialWrite x d (lr y)\<rparr>)"
| first_done: "writer y = WritingFirst f d v \<Longrightarrow> lr_step y (y\<lparr>lr := LeftRight_partialWrite (f v) d (lr y), writer := WrittenFirst f d\<rparr>)"
| first_throws: "writer y = WritingFirst f d v \<Longrightarrow> lr_step y (y\<lparr>lr := LeftRight_catchWrite d (lr y), writer := NoWriter\<rparr>)"
| switch_data: "writer y = WrittenFirst f d \<Longrightarrow>
    lr_step y (y\<lparr>lr := (lr y)\<lparr>foregroundDataIndex := d XOR 1\<rparr>, writer := SwitchedData f (d XOR 1), history := f (hd (history y)) # history y\<rparr>)"
| load_counter: "writer y = SwitchedData f d \<Longrightarrow> lr_step y (y\<lparr>writer := WaitingOld f d (foregroundCounterIndex (lr y))\<rparr>)"
| old_drained: "writer y = WaitingOld f d c \<Longrightarrow> LeftRight_backgroundCounterIsZero c (lr y) \<Longrightarrow> lr_step y (y\<lparr>writer := Drained f d c\<rparr>)"
| switch_counter: "writer y = Drained f d c \<Longrightarrow>
    lr_step y (y\<lparr>lr := (lr y)\<lparr>foregroundCounterIndex := c XOR 1\<rparr>, writer := WaitingNew f d (c XOR 1)\<rparr>)"
| write_second: "writer y = WaitingNew f d c \<Longrightarrow> LeftRight_backgroundCounterIsZero c (lr y) \<Longrightarrow>
    lr_step y (y\<lparr>writer := WritingSecond f d (lr_data (lr y) ! (d XOR 1))\<rparr>)"
| second_partial: "writer y = WritingSecond f d v \<Longrightarrow> lr_step y (y\<lparr>lr := LeftRight_partialWrite x d (lr y)\<rparr>)"
| second_done: "writer y = WritingSecond f d v \<Longrightarrow> lr_step y (y\<lparr>lr := LeftRight_partialWrite (f v) d (lr y), writer := NoWriter\<rparr>)"
| second_throws: "writer y = WritingSecond f d v \<Longrightarrow> lr_step y (y\<lparr>lr := LeftRight_catchWrite d (lr y), writer := NoWriter\<rparr>)"
| destroy: "destructor y = Alive \<Longrightarrow> lr_step y (y\<lparr>lr := (lr y)\<lparr>inDestruction := True\<rparr>, destructor := Started\<rparr>)"
| destroy_lock: "destructor y = Started \<Longrightarrow> writer y = NoWriter \<Longrightarrow> lr_step y (y\<lparr>destructor := WritersGone\<rparr>)"
| destroy_zero: "destructor y = WritersGone \<Longrightarrow> lr_counters (lr y) ! 0 = 0 \<Longrightarrow> lr_step y (y\<lparr>destructor := SawZero\<rparr>)"
| destroy_again: "destructor y = SawZero \<Longrightarrow> lr_counters (lr y) ! 1 \<noteq> 0 \<Longrightarrow> lr_step y (y\<lparr>destructor := WritersGone\<rparr>)"
| destroy_done: "destructor y = SawZero \<Longrightarrow> lr_counters (lr y) ! 1 = 0 \<Longrightarrow> lr_step y (y\<lparr>destructor := Destroyed\<rparr>)"

inductive lr_reachable :: "'a lr_system \<Rightarrow> bool" where
  start: "lr_reachable \<lparr>lr = LeftRight_new x, readers = {#}, writer = NoWriter, destructor = Alive, history = [x]\<rparr>"
| step: "lr_reachable y \<Longrightarrow> lr_step y z \<Longrightarrow> size (readers z) < 2 ^ 32 \<Longrightarrow> lr_reachable z"

section \<open>The invariant\<close>

text \<open>The readers a counter counts; those among them that may be running.\<close>

fun counted :: "nat \<Rightarrow> reader \<Rightarrow> bool" where
  "counted i (LoadedIndex j) = False"
| "counted i (HasCounted j) = (j = i)"
| "counted i (Admitted j) = (j = i)"
| "counted i (Reading j d) = (j = i)"

fun index_ok :: "reader \<Rightarrow> bool" where
  "index_ok (LoadedIndex j) = (j < 2)"
| "index_ok (HasCounted j) = (j < 2)"
| "index_ok (Admitted j) = (j < 2)"
| "index_ok (Reading j d) = (j < 2 \<and> d < 2)"

definition running :: "reader multiset \<Rightarrow> (nat \<times> nat) set" where
  "running R = {(i, d). Reading i d \<in># R}"

definition shape_ok :: "'a left_right \<Rightarrow> reader multiset \<Rightarrow> bool" where
  "shape_ok s R \<longleftrightarrow> foregroundCounterIndex s < 2 \<and> foregroundDataIndex s < 2 \<and> length (lr_counters s) = 2 \<and> length (lr_data s) = 2 \<and>
     (\<forall>r\<in>#R. index_ok r) \<and> (\<forall>i<2. lr_counters s ! i = of_nat (size (filter_mset (counted i) R)))"

text \<open>
  What the writer knows. Before the data is switched all readers are on the foreground instance; after it, the readers on the old instance
  must leave: once the old counter has been zero they are all counted by the other one, and once that has been zero they are gone.
\<close>

fun writer_ok :: "'a writer \<Rightarrow> nat \<Rightarrow> nat \<Rightarrow> 'a list \<Rightarrow> (nat \<times> nat) set \<Rightarrow> bool" where
  "writer_ok NoWriter fc fd D Q = (D ! (fd XOR 1) = D ! fd \<and> snd ` Q \<subseteq> {fd})"
| "writer_ok (Locked f) fc fd D Q = (D ! (fd XOR 1) = D ! fd \<and> snd ` Q \<subseteq> {fd})"
| "writer_ok (Begun f) fc fd D Q = (D ! (fd XOR 1) = D ! fd \<and> snd ` Q \<subseteq> {fd})"
| "writer_ok (WritingFirst f d v) fc fd D Q = (d = fd \<and> v = D ! fd \<and> snd ` Q \<subseteq> {fd})"
| "writer_ok (WrittenFirst f d) fc fd D Q = (d = fd \<and> D ! (fd XOR 1) = f (D ! fd) \<and> snd ` Q \<subseteq> {fd})"
| "writer_ok (SwitchedData f d) fc fd D Q = (d = fd \<and> D ! fd = f (D ! (fd XOR 1)))"
| "writer_ok (WaitingOld f d c) fc fd D Q = (d = fd \<and> D ! fd = f (D ! (fd XOR 1)) \<and> c = fc)"
| "writer_ok (Drained f d c) fc fd D Q = (d = fd \<and> D ! fd = f (D ! (fd XOR 1)) \<and> c = fc \<and> (\<forall>(i, e)\<in>Q. e = fd \<or> i = fc))"
| "writer_ok (WaitingNew f d c) fc fd D Q = (d = fd \<and> D ! fd = f (D ! (fd XOR 1)) \<and> c = fc \<and> (\<forall>(i, e)\<in>Q. e = fd \<or> i = fc XOR 1))"
| "writer_ok (WritingSecond f d v) fc fd D Q = (d = fd \<and> D ! fd = f v \<and> snd ` Q \<subseteq> {fd})"

text \<open>The value of the foreground instance is the newest of the history; the other one is the one before it while readers may be there.\<close>

definition history_ok :: "'a left_right \<Rightarrow> 'a list \<Rightarrow> (nat \<times> nat) set \<Rightarrow> bool" where
  "history_ok s H Q \<longleftrightarrow> H \<noteq> [] \<and> lr_data s ! foregroundDataIndex s = hd H \<and> (\<forall>(i, d)\<in>Q. lr_data s ! d \<in> set H)"

definition destructor_ok :: "destructor \<Rightarrow> bool \<Rightarrow> 'a writer \<Rightarrow> reader multiset \<Rightarrow> bool" where
  "destructor_ok x b w R \<longleftrightarrow>
     (x \<noteq> Alive \<longrightarrow> b) \<and>
     (x \<in> {WritersGone, SawZero, Destroyed} \<longrightarrow> w = NoWriter \<or> (\<exists>f. w = Locked f)) \<and>
     (x \<in> {SawZero, Destroyed} \<longrightarrow> (\<forall>d. Admitted 0 \<notin># R \<and> Reading 0 d \<notin># R)) \<and>
     (x = Destroyed \<longrightarrow> (\<forall>d. Admitted 1 \<notin># R \<and> Reading 1 d \<notin># R))"

definition lr_inv :: "'a lr_system \<Rightarrow> bool" where
  "lr_inv y \<longleftrightarrow> shape_ok (lr y) (readers y) \<and>
     writer_ok (writer y) (foregroundCounterIndex (lr y)) (foregroundDataIndex (lr y)) (lr_data (lr y)) (running (readers y)) \<and>
     history_ok (lr y) (history y) (running (readers y)) \<and>
     destructor_ok (destructor y) (inDestruction (lr y)) (writer y) (readers y)"

section \<open>Indices and counters\<close>

lemma xor_index [simp]:
  fixes i :: nat
  shows "i < 2 \<Longrightarrow> i XOR Suc 0 < 2" "(i XOR Suc 0) XOR Suc 0 = i" "i XOR Suc 0 \<noteq> i" "i \<noteq> i XOR Suc 0"
proof -
  show "(i XOR Suc 0) XOR Suc 0 = i" by (simp add: xor.assoc)
  show n: "i XOR Suc 0 \<noteq> i"
  proof
    assume "i XOR Suc 0 = i"
    then have "i XOR (i XOR Suc 0) = i XOR i" by simp
    then show False by (simp flip: xor.assoc)
  qed
  then show "i \<noteq> i XOR Suc 0" by metis
  show "i XOR Suc 0 < 2" if "i < 2" using that by (auto simp: less_2_cases_iff)
qed

lemma other_index: "i < 2 \<Longrightarrow> j < 2 \<Longrightarrow> j \<noteq> i \<longleftrightarrow> j = i XOR Suc 0" for i j :: nat
  by (auto simp: less_2_cases_iff)

lemma shape_move:
  assumes "shape_ok s (add_mset r R)" and "index_ok q" and "\<And>i. counted i q = counted i r"
  shows "shape_ok s (add_mset q R)"
  using assms by (auto simp: shape_ok_def)

lemma shape_arrive:
  assumes "shape_ok s R" and "index_ok (LoadedIndex i)"
  shows "shape_ok s (add_mset (LoadedIndex i) R)"
  using assms by (auto simp: shape_ok_def)

lemma shape_count:
  assumes "shape_ok s (add_mset (LoadedIndex i) R)"
  shows "shape_ok (IncrementRAII_new i s) (add_mset (HasCounted i) R)"
  using assms by (auto simp: shape_ok_def IncrementRAII_new_def nth_list_update)

lemma shape_leave:
  assumes "shape_ok s (add_mset r R)" and "counted i r"
  shows "shape_ok (IncrementRAII_destroy i s) R"
proof -
  have "counted j r \<longleftrightarrow> j = i" for j using assms(2) by (cases r) auto
  moreover have "i < 2" using assms by (cases r) (auto simp: shape_ok_def)
  ultimately show ?thesis using assms(1) by (auto simp: shape_ok_def IncrementRAII_destroy_def nth_list_update)
qed

lemma shape_zero:
  assumes "shape_ok s R" and "lr_counters s ! i = 0" and "i < 2" and "size R < 2 ^ 32" and "r \<in># R"
  shows "\<not> counted i r"
proof -
  let ?n = "size (filter_mset (counted i) R)"
  have "of_nat ?n = (0 :: u32)" using assms(1-3) by (simp add: shape_ok_def)
  moreover have "?n < 2 ^ 32" using assms(4) size_filter_mset_lesseq [of "counted i" R] by linarith
  ultimately have "?n = 0" by (auto simp: word_of_nat_eq_0_iff dest: dvd_imp_le)
  then have "r \<notin># filter_mset (counted i) R" by simp
  then show ?thesis using assms(5) by simp
qed

lemma shape_fields [simp]:
  "lr_data (IncrementRAII_new i s) = lr_data s" "lr_data (IncrementRAII_destroy i s) = lr_data s"
  "foregroundDataIndex (IncrementRAII_new i s) = foregroundDataIndex s" "foregroundDataIndex (IncrementRAII_destroy i s) = foregroundDataIndex s"
  "foregroundCounterIndex (IncrementRAII_new i s) = foregroundCounterIndex s"
  "foregroundCounterIndex (IncrementRAII_destroy i s) = foregroundCounterIndex s"
  "inDestruction (IncrementRAII_new i s) = inDestruction s" "inDestruction (IncrementRAII_destroy i s) = inDestruction s"
  by (simp_all add: IncrementRAII_new_def IncrementRAII_destroy_def)

lemma running_simps [simp]:
  "running (add_mset (LoadedIndex i) R) = running R" "running (add_mset (HasCounted i) R) = running R"
  "running (add_mset (Admitted i) R) = running R" "running (add_mset (Reading i d) R) = insert (i, d) (running R)"
  by (auto simp: running_def)

lemma writer_ok_readers: "writer_ok w fc fd D Q \<Longrightarrow> Q' \<subseteq> Q \<union> {(i, fd)} \<Longrightarrow> writer_ok w fc fd D Q'"
  by (cases w) force+

lemma history_ok_readers:
  "history_ok s H Q \<Longrightarrow> Q' \<subseteq> Q \<union> {(i, foregroundDataIndex s)} \<Longrightarrow> lr_data t = lr_data s \<Longrightarrow> foregroundDataIndex t = foregroundDataIndex s \<Longrightarrow>
    history_ok t H Q'"
  by (force simp: history_ok_def)

section \<open>Preservation\<close>

lemma inv_reader_step:
  assumes "lr_inv y" and "shape_ok s R" and "running R \<subseteq> running (readers y) \<union> {(i, foregroundDataIndex (lr y))}"
    and "lr_data s = lr_data (lr y)" "foregroundDataIndex s = foregroundDataIndex (lr y)"
      "foregroundCounterIndex s = foregroundCounterIndex (lr y)" "inDestruction s = inDestruction (lr y)"
    and "destructor_ok (destructor y) (inDestruction (lr y)) (writer y) R"
  shows "lr_inv (y\<lparr>lr := s, readers := R\<rparr>)"
  using assms writer_ok_readers [OF _ assms(3)] history_ok_readers [OF _ assms(3-5)] by (auto simp: lr_inv_def)

lemma inv_writer_step:
  assumes "lr_inv y" and "shape_ok s (readers y)"
    and "writer_ok w (foregroundCounterIndex s) (foregroundDataIndex s) (lr_data s) (running (readers y))"
    and "history_ok s H (running (readers y))" and "inDestruction s = inDestruction (lr y)"
    and "writer y \<noteq> NoWriter" and "\<And>f. writer y = Locked f \<Longrightarrow> w = NoWriter \<or> \<not> inDestruction s"
  shows "lr_inv (y\<lparr>lr := s, writer := w, history := H\<rparr>)"
  using assms by (auto simp: lr_inv_def destructor_ok_def)

lemma inv_step_reader:
  assumes "lr_step y z" and "lr_inv y" and "readers z \<noteq> readers y"
  shows "lr_inv z"
proof -
  have sh: "shape_ok (lr y) (readers y)" and de: "destructor_ok (destructor y) (inDestruction (lr y)) (writer y) (readers y)"
    using assms(2) by (simp_all add: lr_inv_def)
  from assms(1) show ?thesis
  proof cases
    case read_load
    show ?thesis unfolding read_load
      by (rule inv_reader_step [OF assms(2), where s = "lr y", simplified])
        (use sh de in \<open>auto simp: shape_ok_def destructor_ok_def\<close>)
  next
    case (read_count i R)
    show ?thesis unfolding read_count(1)
      by (rule inv_reader_step [OF assms(2) shape_count]) (use sh de read_count(2) in \<open>auto simp: destructor_ok_def\<close>)
  next
    case (read_refused i R)
    show ?thesis unfolding read_refused(1)
      by (rule inv_reader_step [OF assms(2) shape_leave [where r = "HasCounted i"]]) (use sh de read_refused(2) in \<open>auto simp: destructor_ok_def\<close>)
  next
    case (read_admitted i R)
    show ?thesis unfolding read_admitted(1)
      by (rule inv_reader_step [OF assms(2) shape_move [where r = "HasCounted i"], where s = "lr y", simplified])
        (use sh de read_admitted(2,3) in \<open>auto simp: destructor_ok_def shape_ok_def\<close>)
  next
    case (read_begin i R)
    show ?thesis unfolding read_begin(1)
      by (rule inv_reader_step [OF assms(2) shape_move [where r = "Admitted i"], where s = "lr y", simplified])
        (use sh de read_begin(2) in \<open>auto simp: destructor_ok_def shape_ok_def\<close>)
  next
    case (read_end i d R)
    show ?thesis unfolding read_end(1)
      by (rule inv_reader_step [OF assms(2) shape_leave [where r = "Reading i d"]]) (use sh de read_end(2) in \<open>auto simp: destructor_ok_def\<close>)
  qed (use assms(3) in simp_all)
qed

lemma shape_data [simp]:
  "shape_ok (LeftRight_partialWrite x d s) R \<longleftrightarrow> shape_ok s R" "shape_ok (LeftRight_catchWrite d s) R \<longleftrightarrow> shape_ok s R"
  "shape_ok (s\<lparr>inDestruction := b\<rparr>) R \<longleftrightarrow> shape_ok s R"
  by (auto simp: shape_ok_def LeftRight_partialWrite_def LeftRight_catchWrite_def)

lemma write_fields [simp]:
  "lr_data (LeftRight_partialWrite x d s) = (lr_data s)[d XOR Suc 0 := x]"
  "lr_data (LeftRight_catchWrite d s) = (lr_data s)[d XOR Suc 0 := lr_data s ! d]"
  "foregroundDataIndex (LeftRight_partialWrite x d s) = foregroundDataIndex s" "foregroundDataIndex (LeftRight_catchWrite d s) = foregroundDataIndex s"
  "foregroundCounterIndex (LeftRight_partialWrite x d s) = foregroundCounterIndex s"
  "foregroundCounterIndex (LeftRight_catchWrite d s) = foregroundCounterIndex s"
  "inDestruction (LeftRight_partialWrite x d s) = inDestruction s" "inDestruction (LeftRight_catchWrite d s) = inDestruction s"
  by (simp_all add: LeftRight_partialWrite_def LeftRight_catchWrite_def)

text \<open>An instance without readers may be overwritten.\<close>

lemma history_ok_write:
  assumes "history_ok s H Q" and "snd ` Q \<subseteq> {foregroundDataIndex s}" and "lr_data t = (lr_data s)[foregroundDataIndex s XOR Suc 0 := x]"
    and "foregroundDataIndex t = foregroundDataIndex s"
  shows "history_ok t H Q"
  using assms by (force simp: history_ok_def)

lemma inv_step_writer:
  assumes "lr_step y z" and "lr_inv y" and "readers z = readers y" and "destructor z = destructor y" and "size (readers y) < 2 ^ 32"
  shows "lr_inv z"
proof -
  let ?fd = "foregroundDataIndex (lr y)" and ?fc = "foregroundCounterIndex (lr y)"
  have sh: "shape_ok (lr y) (readers y)" and i: "?fd < 2" "?fc < 2" "?fd XOR Suc 0 < 2" "?fc XOR Suc 0 < 2" "length (lr_data (lr y)) = 2"
    and w: "writer_ok (writer y) ?fc ?fd (lr_data (lr y)) (running (readers y))"
    and h: "history_ok (lr y) (history y) (running (readers y))"
    using assms(2) by (simp_all add: lr_inv_def shape_ok_def)
  have q: "Reading j e \<in># readers y \<Longrightarrow> j < 2 \<and> e < 2" for j e using sh by (auto simp: shape_ok_def)
  note step = inv_writer_step [OF assms(2), where s = "lr y" and H = "history y", simplified]
    inv_writer_step [OF assms(2), where H = "history y", simplified]
  from assms(1) show ?thesis
  proof cases
    case (write_lock f)
    then show ?thesis using assms(2) w by (auto simp: lr_inv_def destructor_ok_def)
  next
    case (write_refused f)
    then show ?thesis using step(1) sh w h by auto
  next
    case (write_begin f)
    then show ?thesis using step(1) sh w h by auto
  next
    case (write_first f d)
    then show ?thesis using step(1) sh w h by auto
  next
    case (first_partial f d v x)
    have "history_ok (LeftRight_partialWrite x d (lr y)) (history y) (running (readers y))"
      by (rule history_ok_write [OF h]) (use first_partial w in auto)
    then show ?thesis using first_partial assms(2) w i by (auto simp: lr_inv_def)
  next
    case (first_done f d v)
    have "history_ok (LeftRight_partialWrite (f v) d (lr y)) (history y) (running (readers y))"
      by (rule history_ok_write [OF h]) (use first_done w in auto)
    then show ?thesis using first_done step(2) sh w i by auto
  next
    case (first_throws f d v)
    have "history_ok (LeftRight_catchWrite d (lr y)) (history y) (running (readers y))"
      by (rule history_ok_write [OF h]) (use first_throws w in auto)
    then show ?thesis using first_throws step(2) sh w i by auto
  next
    case (switch_data f d)
    have "history_ok ((lr y)\<lparr>foregroundDataIndex := d XOR 1\<rparr>) (f (hd (history y)) # history y) (running (readers y))"
      using h w switch_data(2) by (auto simp: history_ok_def)
    then show ?thesis unfolding switch_data(1)
      by (rule inv_writer_step [OF assms(2), rotated 2]) (use switch_data(2) sh w i in \<open>auto simp: shape_ok_def\<close>)
  next
    case (load_counter f d)
    then show ?thesis using step(1) sh w h by auto
  next
    case (old_drained f d c)
    have "j = ?fc" if "Reading j e \<in># readers y" for j e
    proof -
      have "\<not> counted (?fc XOR Suc 0) (Reading j e)"
        by (rule shape_zero [OF sh _ i(4) assms(5) that]) (use old_drained w in \<open>simp add: LeftRight_backgroundCounterIsZero_def\<close>)
      then show ?thesis using other_index [OF i(2), of j] q [OF that] by auto
    qed
    then have "\<forall>(j, e)\<in>running (readers y). j = ?fc" by (auto simp: running_def)
    then have "\<forall>(j, e)\<in>running (readers y). e = ?fd \<or> j = ?fc" by auto
    then show ?thesis unfolding old_drained(1) by (intro step(1)) (use old_drained(2) sh w h in auto)
  next
    case (switch_counter f d c)
    have "history_ok ((lr y)\<lparr>foregroundCounterIndex := c XOR 1\<rparr>) (history y) (running (readers y))"
      using h by (simp add: history_ok_def)
    then show ?thesis unfolding switch_counter(1)
      by (intro step(2)) (use switch_counter(2) sh w i in \<open>auto simp: shape_ok_def\<close>)
  next
    case (write_second f d c)
    have "\<not> counted (?fc XOR Suc 0) r" if "r \<in># readers y" for r
      by (rule shape_zero [OF sh _ i(4) assms(5) that]) (use write_second w in \<open>simp add: LeftRight_backgroundCounterIsZero_def\<close>)
    then have "snd ` running (readers y) \<subseteq> {?fd}"
      using write_second w by (fastforce simp: running_def)
    then show ?thesis using write_second step(1) sh w h by auto
  next
    case (second_partial f d v x)
    have "history_ok (LeftRight_partialWrite x d (lr y)) (history y) (running (readers y))"
      by (rule history_ok_write [OF h]) (use second_partial w in auto)
    then show ?thesis using second_partial assms(2) w i by (auto simp: lr_inv_def)
  next
    case (second_done f d v)
    have "history_ok (LeftRight_partialWrite (f v) d (lr y)) (history y) (running (readers y))"
      by (rule history_ok_write [OF h]) (use second_done w in auto)
    then show ?thesis using second_done step(2) sh w i by auto
  next
    case (second_throws f d v)
    have "history_ok (LeftRight_catchWrite d (lr y)) (history y) (running (readers y))"
      by (rule history_ok_write [OF h]) (use second_throws w in auto)
    then show ?thesis using second_throws step(2) sh w i by auto
  qed (use assms(3,4) in simp_all)
qed

lemma inv_step_destructor:
  assumes "lr_step y z" and "lr_inv y" and "destructor z \<noteq> destructor y" and "size (readers y) < 2 ^ 32"
  shows "lr_inv z"
proof -
  have sh: "shape_ok (lr y) (readers y)" and h: "history_ok (lr y) (history y) (running (readers y))"
    using assms(2) by (simp_all add: lr_inv_def)
  note zero = shape_zero [OF sh _ _ assms(4)]
  from assms(1) show ?thesis
  proof cases
    case destroy
    then show ?thesis using assms(2) by (auto simp: lr_inv_def destructor_ok_def history_ok_def)
  next
    case destroy_lock
    then show ?thesis using assms(2) by (auto simp: lr_inv_def destructor_ok_def)
  next
    case destroy_zero
    then show ?thesis using assms(2) zero [of 0 "Admitted 0"] zero [of 0 "Reading 0 d" for d] by (auto simp: lr_inv_def destructor_ok_def)
  next
    case destroy_again
    then show ?thesis using assms(2) by (auto simp: lr_inv_def destructor_ok_def)
  next
    case destroy_done
    then show ?thesis using assms(2) zero [of 1 "Admitted 1"] zero [of 1 "Reading 1 d" for d] by (auto simp: lr_inv_def destructor_ok_def)
  qed (use assms(3) in simp_all)
qed

lemma reachable_lr_inv:
  assumes "lr_reachable y"
  shows "lr_inv y \<and> size (readers y) < 2 ^ 32"
  using assms
proof induction
  case (start x)
  show ?case by (auto simp: lr_inv_def shape_ok_def LeftRight_new_def history_ok_def destructor_ok_def running_def nth_Cons split: nat.splits)
next
  case (step y z)
  then show ?case using inv_step_reader inv_step_writer inv_step_destructor by blast
qed

section \<open>Properties\<close>

text \<open>
  C21. Readers and the writer never meet: in every interleaving of any number of readers with writers, no reader runs on the instance that a
  write function is changing, and what a reader sees is a complete value, the initial one or the result of a write that both instances get.
\<close>

theorem readers_see_complete_values:
  assumes "lr_reachable y" and "Reading i d \<in># readers y"
  shows "writer y \<noteq> WritingFirst f (d XOR 1) v \<and> writer y \<noteq> WritingSecond f (d XOR 1) v \<and> lr_data (lr y) ! d \<in> set (history y)"
proof -
  have inv: "lr_inv y" using reachable_lr_inv [OF assms(1)] by simp
  have r: "(i, d) \<in> running (readers y)" using assms(2) by (simp add: running_def)
  then have "snd ` running (readers y) \<subseteq> {foregroundDataIndex (lr y)} \<Longrightarrow> d = foregroundDataIndex (lr y)" by force
  with inv r show ?thesis by (auto simp: lr_inv_def history_ok_def)
qed

text \<open>
  The destructor waits for everybody: when it has returned, no reader runs on the data or will still do so, and no
  writer is at work.
\<close>

theorem destroyed_unused:
  assumes "lr_reachable y" and "destructor y = Destroyed"
  shows "Reading i d \<notin># readers y \<and> Admitted i \<notin># readers y \<and> (writer y = NoWriter \<or> (\<exists>f. writer y = Locked f))"
proof -
  have inv: "lr_inv y" using reachable_lr_inv [OF assms(1)] by simp
  consider "i = 0" | "i = 1" | "2 \<le> i" by linarith
  then show ?thesis
  proof cases
    assume "2 \<le> i"
    then have "Reading i d \<notin># readers y" "Admitted i \<notin># readers y" using inv by (fastforce simp: lr_inv_def shape_ok_def)+
    then show ?thesis using inv assms(2) by (auto simp: lr_inv_def destructor_ok_def)
  qed (use inv assms(2) in \<open>auto simp: lr_inv_def destructor_ok_def\<close>)
qed

text \<open>
  Between writes the two instances are equal and hold the newest value, whether the last write function returned or threw.
\<close>

theorem instances_agree:
  assumes "lr_reachable y" and "writer y = NoWriter"
  shows "lr_data (lr y) = [hd (history y), hd (history y)]"
proof -
  have inv: "lr_inv y" using reachable_lr_inv [OF assms(1)] by simp
  let ?D = "lr_data (lr y)" and ?d = "foregroundDataIndex (lr y)"
  have "?D ! ?d = hd (history y)" "?D ! (?d XOR 1) = hd (history y)" "?d < 2" "length ?D = 2"
    using inv assms(2) by (simp_all add: lr_inv_def shape_ok_def history_ok_def)
  then show ?thesis by (auto simp: less_2_cases_iff list_eq_iff_nth_eq)
qed

section \<open>A run\<close>

definition lr_start :: "nat lr_system" where
  "lr_start = \<lparr>lr = LeftRight_new 0, readers = {#}, writer = NoWriter, destructor = Alive, history = [0]\<rparr>"

lemmas lr_run = lr_start_def LeftRight_new_def IncrementRAII_new_def LeftRight_partialWrite_def

lemma reachable_start: "lr_reachable lr_start"
  using lr_reachable.start [of 0] by (simp add: lr_start_def)

text \<open>A reader runs while a writer is in the middle of its first write.\<close>

lemma reading_while_writing:
  obtains y where "lr_reachable y" and "Reading 0 0 \<in># readers y" and "writer y = WritingFirst Suc 0 0" and "lr_data (lr y) = [0, 9 :: nat]"
    and "history y = [0]"
proof -
  let ?s = "IncrementRAII_new 0 (LeftRight_new 0)"
  have "lr_reachable (lr_start\<lparr>readers := {#LoadedIndex 0#}\<rparr>)"
    using lr_reachable.step [OF reachable_start lr_step.read_load] by (simp add: lr_run)
  then have "lr_reachable (lr_start\<lparr>lr := ?s, readers := {#HasCounted 0#}\<rparr>)"
    using lr_reachable.step [OF _ lr_step.read_count [of "lr_start\<lparr>readers := {#LoadedIndex 0#}\<rparr>" 0 "{#}"]] by (simp add: lr_start_def)
  then have "lr_reachable (lr_start\<lparr>lr := ?s, readers := {#Admitted 0#}\<rparr>)"
    using lr_reachable.step [OF _ lr_step.read_admitted [of "lr_start\<lparr>lr := ?s, readers := {#HasCounted 0#}\<rparr>" 0 "{#}"]]
    by (simp add: lr_start_def LeftRight_new_def)
  then have "lr_reachable (lr_start\<lparr>lr := ?s, readers := {#Reading 0 0#}\<rparr>)"
    using lr_reachable.step [OF _ lr_step.read_begin [of "lr_start\<lparr>lr := ?s, readers := {#Admitted 0#}\<rparr>" 0 "{#}"]]
    by (simp add: lr_start_def LeftRight_new_def)
  then have "lr_reachable (lr_start\<lparr>lr := ?s, readers := {#Reading 0 0#}, writer := Locked Suc\<rparr>)"
    using lr_reachable.step [OF _ lr_step.write_lock [of "lr_start\<lparr>lr := ?s, readers := {#Reading 0 0#}\<rparr>" Suc]]
    by (simp add: lr_start_def)
  then have "lr_reachable (lr_start\<lparr>lr := ?s, readers := {#Reading 0 0#}, writer := Begun Suc\<rparr>)"
    using lr_reachable.step [OF _ lr_step.write_begin [of "lr_start\<lparr>lr := ?s, readers := {#Reading 0 0#}, writer := Locked Suc\<rparr>" Suc]]
    by (simp add: lr_start_def LeftRight_new_def)
  then have "lr_reachable (lr_start\<lparr>lr := ?s, readers := {#Reading 0 0#}, writer := WritingFirst Suc 0 0\<rparr>)"
    using lr_reachable.step [OF _ lr_step.write_first [of "lr_start\<lparr>lr := ?s, readers := {#Reading 0 0#}, writer := Begun Suc\<rparr>" Suc 0]]
    by (simp add: lr_start_def LeftRight_new_def)
  then have "lr_reachable (lr_start\<lparr>lr := LeftRight_partialWrite 9 0 ?s, readers := {#Reading 0 0#}, writer := WritingFirst Suc 0 0\<rparr>)"
    using lr_reachable.step [OF _ lr_step.first_partial
        [of "lr_start\<lparr>lr := ?s, readers := {#Reading 0 0#}, writer := WritingFirst Suc 0 0\<rparr>" Suc 0 0 9]] by (simp add: lr_start_def)
  then show thesis by (rule that) (simp_all add: lr_run)
qed

lemma readers_see_complete_values_witness:
  "\<exists>y :: nat lr_system. Reading 0 0 \<in># readers y \<and> writer y = WritingFirst Suc 0 0 \<and> lr_data (lr y) = [0, 9 :: nat] \<and> lr_data (lr y) ! 0 \<in> set (history y)"
proof -
  obtain y where y: "lr_reachable y" "Reading 0 0 \<in># readers y" "writer y = WritingFirst Suc 0 0" "lr_data (lr y) = [0, 9 :: nat]"
    by (rule reading_while_writing)
  from readers_see_complete_values [OF y(1,2)] y show ?thesis by blast
qed

lemma instances_agree_witness: "lr_data (lr lr_start) = [0, 0]"
  using instances_agree [OF reachable_start] by (simp add: lr_start_def)

lemma destroyed_unused_witness: "\<exists>y :: nat lr_system. destructor y = Destroyed \<and> Reading 0 0 \<notin># readers y"
proof -
  let ?s = "(LeftRight_new 0)\<lparr>inDestruction := True\<rparr>"
  have "lr_reachable (lr_start\<lparr>lr := ?s, destructor := Started\<rparr>)"
    using lr_reachable.step [OF reachable_start lr_step.destroy] by (simp add: lr_start_def)
  then have "lr_reachable (lr_start\<lparr>lr := ?s, destructor := WritersGone\<rparr>)"
    using lr_reachable.step [OF _ lr_step.destroy_lock [of "lr_start\<lparr>lr := ?s, destructor := Started\<rparr>"]] by (simp add: lr_start_def)
  then have "lr_reachable (lr_start\<lparr>lr := ?s, destructor := SawZero\<rparr>)"
    using lr_reachable.step [OF _ lr_step.destroy_zero [of "lr_start\<lparr>lr := ?s, destructor := WritersGone\<rparr>"]]
    by (simp add: lr_start_def LeftRight_new_def)
  then have "lr_reachable (lr_start\<lparr>lr := ?s, destructor := Destroyed\<rparr>)"
    using lr_reachable.step [OF _ lr_step.destroy_done [of "lr_start\<lparr>lr := ?s, destructor := SawZero\<rparr>"]]
    by (simp add: lr_start_def LeftRight_new_def)
  from destroyed_unused [OF this, of 0 0] show ?thesis by (intro exI [of _ "lr_start\<lparr>lr := ?s, destructor := Destroyed\<rparr>"]) simp
qed

end
