(* ===== verification/LockPools.thy ===== *)
theory LockPools
  imports Prelude "HOL-Library.Multiset"
begin

text \<open>
  \<open>LockPool\<close> and \<open>MutexPoolLock\<close> (\<open>src/src/cpp-utils/lock\<close>): locks by name, which the cache uses for the entries it writes back. Each operation
  is a critical section under the mutex of the pool; a thread that waits on the condition variable sleeps until it
  is woken, by \<open>notify_all\<close> or without a reason, and then looks at the lock again. The overload of \<open>lock\<close> that frees a lock of the
  caller while it waits has the same section.
\<close>

section \<open>The pool\<close>

record 'n lock_pool =
  lockedLocks :: "'n list"

definition LockPool_new :: "'n lock_pool" where
  "LockPool_new = \<lparr>lockedLocks = []\<rparr>"

definition LockPool_isLocked :: "'n \<Rightarrow> 'n lock_pool \<Rightarrow> bool" where
  "LockPool_isLocked lockName s \<longleftrightarrow> lockName \<in> set (lockedLocks s)"

text \<open>The section of \<open>_lock\<close>: the result is false when the thread has to wait.\<close>

definition LockPool_lock :: "'n \<Rightarrow> ('n lock_pool, bool) exec" where
  "LockPool_lock lockName =
     ebind (gets (LockPool_isLocked lockName)) (\<lambda>l.
     if l then ret False
     else ebind (modify (\<lambda>s. s\<lparr>lockedLocks := lockedLocks s @ [lockName]\<rparr>)) (\<lambda>_. ret True))"

definition LockPool_release :: "'n \<Rightarrow> ('n lock_pool, unit) exec" where
  "LockPool_release lockName =
     ebind (gets (LockPool_isLocked lockName)) (\<lambda>found.
     ebind (assert_exec found ''Lock given to release() was not locked'') (\<lambda>_.
     modify (\<lambda>s. s\<lparr>lockedLocks := remove1 lockName (lockedLocks s)\<rparr>)))"

definition LockPool_destroy :: "('n lock_pool, unit) exec" where
  "LockPool_destroy = ebind (gets (\<lambda>s. length (lockedLocks s))) (\<lambda>n. assert_exec (n = 0) ''Still locks open'')"

text \<open>A \<open>MutexPoolLock\<close> knows whether it still has its lock (a non-null \<open>_pool\<close>); its destructor unlocks it then.\<close>

record 'n pool_lock =
  pl_hasPool :: bool
  pl_lockName :: 'n

definition MutexPoolLock_unlock :: "'n pool_lock \<Rightarrow> ('n lock_pool, 'n pool_lock) exec" where
  "MutexPoolLock_unlock l =
     ebind (assert_exec (pl_hasPool l) ''MutexPoolLock is not locked'') (\<lambda>_.
     ebind (LockPool_release (pl_lockName l)) (\<lambda>_. ret (l\<lparr>pl_hasPool := False\<rparr>)))"

definition MutexPoolLock_destroy :: "'n pool_lock \<Rightarrow> ('n lock_pool, unit) exec" where
  "MutexPoolLock_destroy l = (if pl_hasPool l then ebind (MutexPoolLock_unlock l) (\<lambda>_. ret ()) else ret ())"

section \<open>Threads\<close>

text \<open>The names for which threads sleep, those for which they were woken and have not looked yet, and the locks that are held.\<close>

record 'n pool_threads =
  lp :: "'n lock_pool"
  sleeping :: "'n multiset"
  woken :: "'n multiset"
  held :: "'n multiset"

inductive lp_step :: "'n pool_threads \<Rightarrow> 'n pool_threads \<Rightarrow> bool" where
  lock: "LockPool_lock n (lp y) = (Inr True, s) \<Longrightarrow> lp_step y (y\<lparr>lp := s, held := add_mset n (held y)\<rparr>)"
| wait: "LockPool_lock n (lp y) = (Inr False, s) \<Longrightarrow> lp_step y (y\<lparr>lp := s, sleeping := add_mset n (sleeping y)\<rparr>)"
| spurious: "sleeping y = add_mset n S \<Longrightarrow> lp_step y (y\<lparr>sleeping := S, woken := add_mset n (woken y)\<rparr>)"
| look_locked: "woken y = add_mset n W \<Longrightarrow> LockPool_lock n (lp y) = (Inr False, s) \<Longrightarrow>
    lp_step y (y\<lparr>lp := s, woken := W, sleeping := add_mset n (sleeping y)\<rparr>)"
| look_free: "woken y = add_mset n W \<Longrightarrow> LockPool_lock n (lp y) = (Inr True, s) \<Longrightarrow>
    lp_step y (y\<lparr>lp := s, woken := W, held := add_mset n (held y)\<rparr>)"
| unlock: "held y = add_mset n H \<Longrightarrow> MutexPoolLock_destroy \<lparr>pl_hasPool = True, pl_lockName = n\<rparr> (lp y) = (Inr (), s) \<Longrightarrow>
    lp_step y (y\<lparr>lp := s, held := H, sleeping := {#}, woken := woken y + sleeping y\<rparr>)"

definition lp_start :: "'n pool_threads" where
  "lp_start = \<lparr>lp = LockPool_new, sleeping = {#}, woken = {#}, held = {#}\<rparr>"

definition lp_reachable :: "'n pool_threads \<Rightarrow> bool" where
  "lp_reachable y \<longleftrightarrow> lp_step\<^sup>*\<^sup>* lp_start y"

section \<open>The invariant\<close>

definition lp_inv :: "'n pool_threads \<Rightarrow> bool" where
  "lp_inv y \<longleftrightarrow> mset (lockedLocks (lp y)) = held y \<and> distinct (lockedLocks (lp y)) \<and> set_mset (sleeping y) \<subseteq> set (lockedLocks (lp y))"

lemma lock_eq:
  "LockPool_lock n s = (if n \<in> set (lockedLocks s) then (Inr False, s) else (Inr True, s\<lparr>lockedLocks := lockedLocks s @ [n]\<rparr>))"
  by (simp add: LockPool_lock_def LockPool_isLocked_def)

lemma unlock_eq:
  "n \<in> set (lockedLocks s) \<Longrightarrow> MutexPoolLock_destroy \<lparr>pl_hasPool = True, pl_lockName = n\<rparr> s = (Inr (), s\<lparr>lockedLocks := remove1 n (lockedLocks s)\<rparr>)"
  by (simp add: MutexPoolLock_destroy_def MutexPoolLock_unlock_def LockPool_release_def LockPool_isLocked_def ebind_def)

lemma lp_inv_step:
  assumes "lp_step y z" and "lp_inv y"
  shows "lp_inv z"
  using assms
proof cases
  case (unlock n H s)
  then have "n \<in># mset (lockedLocks (lp y))" using assms(2) by (simp add: lp_inv_def)
  then show ?thesis using unlock assms(2) by (auto simp: lp_inv_def unlock_eq)
qed (auto simp: lp_inv_def lock_eq split: if_splits)

lemma reachable_lp_inv: "lp_reachable y \<Longrightarrow> lp_inv y"
  unfolding lp_reachable_def
proof (induction rule: rtranclp_induct)
  case base
  show ?case by (simp add: lp_inv_def lp_start_def LockPool_new_def)
qed (rule lp_inv_step)

section \<open>Properties\<close>

text \<open>
  C22. Locks by name exclude each other and no wake-up is lost: in every interleaving at most one thread holds a name, the holder can always
  release it without failing the assertion, and whoever sleeps waits for a name that somebody holds; the release of any lock wakes
  every sleeper, and a thread that is awake when its name is free gets it.
\<close>

theorem lock_pool_correct:
  assumes "lp_reachable y"
  shows "count (held y) n \<le> 1 \<and> (n \<in># sleeping y \<longrightarrow> n \<in># held y) \<and>
    (n \<in># held y \<longrightarrow> (\<exists>z. lp_step y z \<and> held z = held y - {#n#} \<and> sleeping z = {#} \<and> woken z = woken y + sleeping y)) \<and>
    (n \<in># woken y \<longrightarrow> n \<notin># held y \<longrightarrow> (\<exists>z. lp_step y z \<and> held z = add_mset n (held y) \<and> woken z = woken y - {#n#}))"
proof -
  have inv: "mset (lockedLocks (lp y)) = held y" "distinct (lockedLocks (lp y))" "set_mset (sleeping y) \<subseteq> set (lockedLocks (lp y))"
    using reachable_lp_inv [OF assms] by (simp_all add: lp_inv_def)
  have l: "n \<in># held y \<longleftrightarrow> n \<in> set (lockedLocks (lp y))" by (simp flip: inv(1))
  have "count (held y) n \<le> 1" using inv(1,2) by (metis count_mset distinct_count_atmost_1 le_refl zero_le_one count_mset_0_iff)
  moreover have "\<exists>z. lp_step y z \<and> held z = held y - {#n#} \<and> sleeping z = {#} \<and> woken z = woken y + sleeping y" if h: "n \<in># held y"
  proof -
    obtain H where H: "held y = add_mset n H" using h by (metis mset_add)
    from lp_step.unlock [OF H unlock_eq] h l show ?thesis by (fastforce simp: H)
  qed
  moreover have "\<exists>z. lp_step y z \<and> held z = add_mset n (held y) \<and> woken z = woken y - {#n#}" if h: "n \<in># woken y" "n \<notin># held y"
  proof -
    obtain W where W: "woken y = add_mset n W" using h by (metis mset_add)
    from lp_step.look_free [OF W, of "(lp y)\<lparr>lockedLocks := lockedLocks (lp y) @ [n]\<rparr>"] h(2) l show ?thesis
      by (fastforce simp: W lock_eq)
  qed
  ultimately show ?thesis using inv(3) l by blast
qed

lemma lock_pool_correct_witness:
  "\<exists>y :: nat pool_threads. 7 \<in># sleeping y \<and> 7 \<in># held y \<and>
    (\<exists>z. lp_step y z \<and> held z = {#} \<and> sleeping z = {#} \<and> woken z = {#7#})"
proof -
  let ?s = "\<lparr>lockedLocks = [7 :: nat]\<rparr>"
  let ?y = "\<lparr>lp = ?s, sleeping = {#7#}, woken = {#}, held = {#7#}\<rparr>"
  have "lp_step lp_start \<lparr>lp = ?s, sleeping = {#}, woken = {#}, held = {#7#}\<rparr>"
    using lp_step.lock [of 7 lp_start ?s] by (simp add: lp_start_def LockPool_new_def lock_eq)
  moreover have "lp_step \<lparr>lp = ?s, sleeping = {#}, woken = {#}, held = {#7#}\<rparr> ?y"
    using lp_step.wait [of 7 "\<lparr>lp = ?s, sleeping = {#}, woken = {#}, held = {#7#}\<rparr>" ?s] by (simp add: lock_eq)
  ultimately have "lp_reachable ?y" unfolding lp_reachable_def by (meson rtranclp.rtrancl_into_rtrancl rtranclp.rtrancl_refl)
  from lock_pool_correct [OF this, of 7] show ?thesis by (intro exI [of _ ?y]) auto
qed

end
