(* ===== verification/FsBlobCaches.thy ===== *)
theory FsBlobCaches
  imports BlobTowers FileSystem "HOL-Library.Multiset"
begin

text \<open>
  \<open>CachingFsBlobStore\<close> (\<open>src/src/cryfs/impl/filesystem/cachingfsblobstore\<close>): the bounded cache of file system blobs that nobody uses at the moment,
  over the store of file system blobs. A directory is changed in memory, and only the destructor of its object writes it, which runs when
  it leaves the cache. The state is the queue of the cache with the state of the blobs.
\<close>

section \<open>Operations\<close>

type_synonym 'w fs_cache = "(block_id, fs_blob, 'w) cache_state"

definition CachingFsBlobStore_MAX_ENTRIES :: nat where
  "CachingFsBlobStore_MAX_ENTRIES = 50"

definition FsBlob_destroy :: "byte \<Rightarrow> 'w blob_store \<Rightarrow> fs_blob \<Rightarrow> ('w, unit) exec" where
  "FsBlob_destroy junk B b =
     (case b of DirBlob d \<Rightarrow> ebind (DirBlob_writeEntriesToBlob junk B d) (\<lambda>_. ret ()) | _ \<Rightarrow> ret ())"

definition CachingFsBlobStore_load :: "'w blob_store \<Rightarrow> block_id \<Rightarrow> ('w fs_cache, fs_blob option) exec" where
  "CachingFsBlobStore_load B i =
     ebind (Cache_pop i) (\<lambda>fromCache.
     case fromCache of
       Some b \<Rightarrow> ret (Some b)
     | None \<Rightarrow> zoom_snd (FsBlobStore_load B i))"

definition CachingFsBlobStore_releaseForCache :: "byte \<Rightarrow> 'w blob_store \<Rightarrow> int \<Rightarrow> fs_blob \<Rightarrow> ('w fs_cache, unit) exec" where
  "CachingFsBlobStore_releaseForCache junk B now baseBlob =
     Cache_push (FsBlob_destroy junk B) CachingFsBlobStore_MAX_ENTRIES now (fs_blob_id baseBlob) baseBlob"

definition CachingFsBlobStore_createFileBlob :: "'w blob_store \<Rightarrow> block_id \<Rightarrow> ('w fs_cache, fs_blob) exec" where
  "CachingFsBlobStore_createFileBlob B parent = zoom_snd (FsBlobStore_createFileBlob B parent)"

definition CachingFsBlobStore_createDirBlob :: "'w blob_store \<Rightarrow> block_id \<Rightarrow> ('w fs_cache, fs_blob) exec" where
  "CachingFsBlobStore_createDirBlob B parent = zoom_snd (FsBlobStore_createDirBlob B parent)"

definition CachingFsBlobStore_createSymlinkBlob :: "'w blob_store \<Rightarrow> data \<Rightarrow> block_id \<Rightarrow> ('w fs_cache, fs_blob) exec" where
  "CachingFsBlobStore_createSymlinkBlob B target parent = zoom_snd (FsBlobStore_createSymlinkBlob B target parent)"

definition CachingFsBlobStore_remove_blob :: "byte \<Rightarrow> 'w blob_store \<Rightarrow> fs_blob \<Rightarrow> ('w fs_cache, unit) exec" where
  "CachingFsBlobStore_remove_blob junk B b = zoom_snd (FsBlobStore_remove junk B b)"

definition CachingFsBlobStore_remove :: "byte \<Rightarrow> 'w blob_store \<Rightarrow> block_id \<Rightarrow> ('w fs_cache, unit) exec" where
  "CachingFsBlobStore_remove junk B i =
     ebind (Cache_pop i) (\<lambda>fromCache.
     case fromCache of
       Some b \<Rightarrow> CachingFsBlobStore_remove_blob junk B b
     | None \<Rightarrow> zoom_snd (blob_remove B i))"

text \<open>The destructor of the store destroys its cache.\<close>

definition CachingFsBlobStore_destroy :: "byte \<Rightarrow> 'w blob_store \<Rightarrow> nat \<Rightarrow> ('w fs_cache, unit) exec" where
  "CachingFsBlobStore_destroy junk B cores = Cache_destructor cores (FsBlob_destroy junk B)"

section \<open>What the objects stand for\<close>

text \<open>
  An object of a file or a link reads and writes its blob; an object of a directory stands for the listing of its entries,
  which its blob has only after the object was written.
\<close>

definition fs_bytes :: "(block_id \<rightharpoonup> data) \<Rightarrow> fs_blob \<Rightarrow> data option" where
  "fs_bytes M b =
     (case b of DirBlob d \<Rightarrow> Some (fs_header DIR (db_parent d) @ listing (db_entries d)) | _ \<Rightarrow> M (fs_blob_id b))"

definition object_fits :: "nat \<Rightarrow> (block_id \<rightharpoonup> data) \<Rightarrow> fs_blob \<Rightarrow> bool" where
  "object_fits limit M b \<longleftrightarrow>
     (case b of
        FileBlob i p \<Rightarrow> \<exists>C. M i = Some (fs_header FILE p @ C)
      | SymlinkBlob i p t \<Rightarrow> \<exists>C. M i = Some (fs_header SYMLINK p @ C) \<and> t = takeWhile (\<lambda>b. b \<noteq> 0) C
      | DirBlob d \<Rightarrow> saveable (db_entries d) \<and> length (listing (db_entries d)) + 19 \<le> limit \<and>
          (\<exists>C. M (db_blockId d) = Some (fs_header DIR (db_parent d) @ C) \<and> (db_changed d \<or> C = listing (db_entries d))))"

text \<open>The identifiers it takes to write an object.\<close>

definition write_cost :: "(nat \<Rightarrow> nat \<Rightarrow> nat) \<Rightarrow> (block_id \<rightharpoonup> data) \<Rightarrow> fs_blob \<Rightarrow> nat" where
  "write_cost need M b =
     (case b of
        DirBlob d \<Rightarrow> if db_changed d then need (length (the (M (db_blockId d)))) (length (listing (db_entries d)) + 19) else 0
      | _ \<Rightarrow> 0)"

text \<open>
  \<open>objects_hold\<close>: the blobs are \<open>M\<close>, there is at most one object for each of them, and seen through the objects they are \<open>V\<close>; enough
  identifiers are left to write all objects and for \<open>n\<close> more.
\<close>

definition objects_hold ::
  "('w \<Rightarrow> (block_id \<rightharpoonup> data) \<Rightarrow> bool) \<Rightarrow> ('w \<Rightarrow> block_id set) \<Rightarrow> ('w \<Rightarrow> nat) \<Rightarrow> (nat \<Rightarrow> nat \<Rightarrow> nat) \<Rightarrow> nat \<Rightarrow>
   fs_blob list \<Rightarrow> (block_id \<rightharpoonup> data) \<Rightarrow> nat \<Rightarrow> (block_id \<rightharpoonup> data) \<Rightarrow> 'w \<Rightarrow> bool" where
  "objects_hold rep opened ids_left need limit bs V n M w \<longleftrightarrow>
     rep w M \<and> distinct (map fs_blob_id bs) \<and>
     (\<forall>b\<in>set bs. fs_blob_id b \<in> opened w \<and> object_fits limit M b \<and> V (fs_blob_id b) = fs_bytes M b) \<and>
     (\<forall>i. i \<notin> fs_blob_id ` set bs \<longrightarrow> V i = M i) \<and> sum_list (map (write_cost need M) bs) + n \<le> ids_left w"

definition cached_objects :: "(block_id \<times> fs_blob cache_entry) list \<Rightarrow> fs_blob list" where
  "cached_objects xs = map (\<lambda>(k, e). cached e) xs"

text \<open>\<open>held\<close> are the objects that are in use.\<close>

definition fs_cache_holds ::
  "('w \<Rightarrow> (block_id \<rightharpoonup> data) \<Rightarrow> bool) \<Rightarrow> ('w \<Rightarrow> block_id set) \<Rightarrow> ('w \<Rightarrow> nat) \<Rightarrow> (nat \<Rightarrow> nat \<Rightarrow> nat) \<Rightarrow> nat \<Rightarrow>
   (block_id \<rightharpoonup> data) \<Rightarrow> fs_blob list \<Rightarrow> nat \<Rightarrow> 'w fs_cache \<Rightarrow> bool" where
  "fs_cache_holds rep opened ids_left need limit V held n s \<longleftrightarrow>
     (\<exists>xs M. queue_rep (fst s) xs \<and> length xs \<le> CachingFsBlobStore_MAX_ENTRIES \<and> (\<forall>(k, e)\<in>set xs. k = fs_blob_id (cached e)) \<and>
        objects_hold rep opened ids_left need limit (held @ cached_objects xs) V n M (snd s))"

text \<open>An object as it is after its next write.\<close>

definition clean :: "fs_blob \<Rightarrow> fs_blob" where
  "clean b = (case b of DirBlob d \<Rightarrow> DirBlob (d\<lparr>db_changed := False\<rparr>) | _ \<Rightarrow> b)"

lemma fs_blob_id_simps [simp]: "fs_blob_id (FileBlob i p) = i" "fs_blob_id (DirBlob d) = db_blockId d" "fs_blob_id (SymlinkBlob i p t) = i"
  by (simp_all add: fs_blob_id_def)

lemma fs_header_inject [simp]: "fs_header t p = fs_header u q \<longleftrightarrow> t = u \<and> p = q"
  by (auto simp: fs_header_def)

lemma objects_hold_perm:
  assumes "mset bs = mset cs" and "objects_hold rep opened ids_left need limit bs V n M w"
  shows "objects_hold rep opened ids_left need limit cs V n M w"
proof -
  have "set bs = set cs" by (rule mset_eq_setD [OF assms(1)])
  moreover have "distinct (map fs_blob_id bs) = distinct (map fs_blob_id cs)"
    using assms(1) by (metis mset_eq_imp_distinct_iff mset_map)
  moreover have "sum_list (map (write_cost need M) bs) = sum_list (map (write_cost need M) cs)"
    using assms(1) by (metis mset_map sum_mset_sum_list)
  ultimately show ?thesis using assms(2) by (simp add: objects_hold_def)
qed

lemma cached_objects_simps [simp]:
  "cached_objects [] = []" "cached_objects (x # xs) = cached (snd x) # cached_objects xs"
  "cached_objects (xs @ ys) = cached_objects xs @ cached_objects ys"
  by (simp_all add: cached_objects_def split: prod.splits)

lemma pop_object:
  assumes "map_of xs k = Some e" and "distinct (map fst xs)"
  shows "mset (cached_objects xs) = add_mset (cached e) (mset (cached_objects (AList.delete k xs)))"
  using assms
proof (induction xs)
  case (Cons x xs)
  show ?case
  proof (cases "fst x = k")
    case True
    then have "k \<notin> fst ` set xs" using Cons.prems(2) by auto
    then show ?thesis using Cons.prems True by (cases x) (simp add: delete_id)
  next
    case False
    then show ?thesis using Cons by (cases x) auto
  qed
qed simp

section \<open>The operations on the view\<close>

context blob_arrays
begin

abbreviation objects :: "fs_blob list \<Rightarrow> (block_id \<rightharpoonup> data) \<Rightarrow> nat \<Rightarrow> (block_id \<rightharpoonup> data) \<Rightarrow> 'w \<Rightarrow> bool" where
  "objects \<equiv> objects_hold rep opened ids_left need limit"

lemma destroy_object:
  assumes "objects (b # bs) V n M w"
  shows "\<exists>w' M'. FsBlob_destroy junk B b w = (Inr (), w') \<and> objects bs V n M' w'"
proof -
  have drop: "objects bs V n M w" if "fs_bytes M b = M (fs_blob_id b)" "write_cost need M b = 0"
    using assms that by (auto simp: objects_hold_def)
  show ?thesis
  proof (cases "\<exists>d. b = DirBlob d \<and> db_changed d")
    case True
    then obtain d where d: "b = DirBlob d" "db_changed d" by blast
    let ?i = "db_blockId d" and ?L = "listing (db_entries d)"
    let ?M = "M(?i \<mapsto> fs_header DIR (db_parent d) @ ?L)"
    obtain C where C: "M ?i = Some (fs_header DIR (db_parent d) @ C)" and es: "saveable (db_entries d)" and l: "length ?L + 19 \<le> limit"
      using assms d by (auto simp: objects_hold_def object_fits_def)
    have at: "fs_at w M ?i DIR (db_parent d) C" using assms d C by (simp add: fs_at_def objects_hold_def)
    have cost: "write_cost need M b = need (length C + 19) (length ?L + 19)" using d C by (simp add: write_cost_def add.commute)
    then have room: "need (length C + 19) (length ?L + 19) \<le> ids_left w" using assms by (simp add: objects_hold_def)
    obtain w' where w': "DirBlob_writeEntriesToBlob junk B d w = (Inr (d\<lparr>db_changed := False\<rparr>), w')" "becomes w ?M (write_cost need M b) w'"
      using writeEntriesToBlob_ok [OF at es d(2) l room, of junk] unfolding returns_def cost by auto
    have other: "fs_blob_id c \<noteq> ?i" if "c \<in> set bs" for c
      using assms that d by (force simp: objects_hold_def)
    then have same: "object_fits limit ?M c = object_fits limit M c" "fs_bytes ?M c = fs_bytes M c" "write_cost need ?M c = write_cost need M c"
      if "c \<in> set bs" for c
      using other [OF that] by (cases c; simp add: object_fits_def fs_bytes_def write_cost_def)+
    then have costs: "map (write_cost need ?M) bs = map (write_cost need M) bs" by simp
    have i: "fs_blob_id b = ?i" using d by simp
    have "objects bs V n ?M w'"
      using assms w'(2) same d i unfolding objects_hold_def costs
      by (auto simp: fs_bytes_def)
    then show ?thesis using w'(1) d(1) by (auto simp: FsBlob_destroy_def ebind_def)
  next
    case False
    then have "FsBlob_destroy junk B b w = (Inr (), w)"
      by (cases b) (auto simp: FsBlob_destroy_def DirBlob_writeEntriesToBlob_def ebind_def)
    moreover have "fs_bytes M b = M (fs_blob_id b)"
      using assms False by (cases b) (auto simp: objects_hold_def object_fits_def fs_bytes_def)
    moreover have "write_cost need M b = 0" using False by (cases b) (auto simp: write_cost_def)
    ultimately show ?thesis using drop by blast
  qed
qed

lemma destroy_keeps_objects:
  "destroy_keeps (FsBlob_destroy junk B) (\<lambda>xs w. (\<forall>(k, e)\<in>set xs. k = fs_blob_id (cached e)) \<and> (\<exists>M. objects (held @ cached_objects xs) V n M w))"
  unfolding destroy_keeps_def
proof (intro allI impI, elim conjE exE)
  fix k e and xs :: "(block_id \<times> fs_blob cache_entry) list" and w M
  assume k: "\<forall>(k, e)\<in>set ((k, e) # xs). k = fs_blob_id (cached e)" and M: "objects (held @ cached_objects ((k, e) # xs)) V n M w"
  have "objects (cached e # held @ cached_objects xs) V n M w" by (rule objects_hold_perm [OF _ M]) simp
  from destroy_object [OF this, of junk] k
  show "yields (FsBlob_destroy junk B (cached e)) w ()
      (\<lambda>w. (\<forall>(k, e)\<in>set xs. k = fs_blob_id (cached e)) \<and> (\<exists>M. objects (held @ cached_objects xs) V n M w))"
    by (auto simp: yields_def)
qed

abbreviation fs_cache :: "(block_id \<rightharpoonup> data) \<Rightarrow> fs_blob list \<Rightarrow> nat \<Rightarrow> 'w fs_cache \<Rightarrow> bool" where
  "fs_cache \<equiv> fs_cache_holds rep opened ids_left need limit"

lemma objects_fresh:
  assumes "objects bs V n M w" and "b \<in> set bs" and "V (fs_blob_id b) = Some (fs_header t p @ C)" and "t = DIR \<Longrightarrow> C = listing es \<and> saveable es"
  shows "fs_object (fs_blob_id b) t p C (clean b)"
proof -
  have f: "object_fits limit M b" and v: "fs_bytes M b = Some (fs_header t p @ C)" using assms(1-3) by (auto simp: objects_hold_def)
  show ?thesis
  proof (cases b)
    case (DirBlob d)
    have e: "saveable (db_entries d)" using f DirBlob by (simp add: object_fits_def)
    have "fs_header DIR (db_parent d) @ listing (db_entries d) = fs_header t p @ C" using v DirBlob by (simp add: fs_bytes_def)
    with e show ?thesis using DirBlob
      by (auto simp: fs_object_def clean_def intro!: exI [of _ "db_entries d"])
  qed (use f v in \<open>auto simp: object_fits_def fs_bytes_def fs_object_def clean_def split: entry_type.splits\<close>)
qed

text \<open>Taking an object out of the cache.\<close>

abbreviation cache_of where
  "cache_of xs M V held n s \<equiv> queue_rep (fst s) xs \<and> length xs \<le> CachingFsBlobStore_MAX_ENTRIES \<and>
     (\<forall>(k, e)\<in>set xs. k = fs_blob_id (cached e)) \<and> objects (held @ cached_objects xs) V n M (snd s)"

lemma pop_cache:
  assumes "fs_cache V held n s" and "i \<notin> fs_blob_id ` set held"
  obtains (hit) b s' where "Cache_pop i s = (Inr (Some b), s')" "fs_blob_id b = i" "fs_cache V (b # held) n s'"
  | (miss) s' xs M where "Cache_pop i s = (Inr None, s')" "cache_of xs M V held n s'" "i \<notin> fs_blob_id ` set (held @ cached_objects xs)"
proof -
  obtain q w where s: "s = (q, w)" by (cases s)
  obtain xs M where q: "queue_rep q xs" and l: "length xs \<le> CachingFsBlobStore_MAX_ENTRIES" and k: "\<forall>(k, e)\<in>set xs. k = fs_blob_id (cached e)"
    and M: "objects (held @ cached_objects xs) V n M w"
    using assms(1) by (auto simp: fs_cache_holds_def s)
  have dx: "distinct (map fst xs)" using q by (simp add: queue_rep_def)
  obtain q' where q': "Cache_pop i (q, w) = (Inr (map_option cached (map_of xs i)), (q', w))" "queue_rep q' (AList.delete i xs)"
    using Cache_pop_refines [OF q, of i w] by (auto simp: yields_def)
  have k': "\<forall>(k, e)\<in>set (AList.delete i xs). k = fs_blob_id (cached e)" using k by (auto simp: AList.delete_eq)
  have l': "length (AList.delete i xs) \<le> CachingFsBlobStore_MAX_ENTRIES" using l length_delete_le [of i xs] by linarith
  show thesis
  proof (cases "map_of xs i")
    case (Some e)
    have m: "objects ((cached e # held) @ cached_objects (AList.delete i xs)) V n M w"
      by (rule objects_hold_perm [OF _ M]) (simp add: pop_object [OF Some dx])
    have "fs_cache V (cached e # held) n (q', w)"
      unfolding fs_cache_holds_def using q'(2) k' l' m by auto
    moreover have "fs_blob_id (cached e) = i" using k map_of_SomeD [OF Some] by auto
    ultimately show thesis using hit [of "cached e" "(q', w)"] q'(1) Some s by simp
  next
    case None
    have "fs_blob_id ` set (cached_objects xs) = fst ` set xs"
      using k by (force simp: cached_objects_def image_image)
    then have "i \<notin> fs_blob_id ` set (held @ cached_objects xs)"
      using None assms(2) by (auto simp: map_of_eq_None_iff)
    moreover have "AList.delete i xs = xs" using None by (simp add: delete_id map_of_eq_None_iff)
    ultimately show thesis using miss [of "(q', w)" xs M] q' None s k l M by simp
  qed
qed

lemma load_object:
  assumes "fs_cache V held n s" and "V i = Some (fs_header t p @ C)" and "t = DIR \<Longrightarrow> C = listing es \<and> saveable es" and "i \<notin> fs_blob_id ` set held"
  shows "\<exists>b s'. CachingFsBlobStore_load B i s = (Inr (Some b), s') \<and> fs_blob_id b = i \<and> fs_object i t p C (clean b) \<and> fs_cache V (b # held) n s'"
  using assms(1,4)
proof (cases rule: pop_cache)
  case (hit b s')
  obtain M w bs where "objects (b # bs) V n M w" using hit(3) by (auto simp: fs_cache_holds_def)
  then have "fs_object i t p C (clean b)"
    using objects_fresh [of "b # bs" V n M w b t p C es] hit(2) assms(2,3) by auto
  then show ?thesis using hit by (simp add: CachingFsBlobStore_load_def ebind_def)
next
  case (miss s' xs M)
  obtain q w where s: "s' = (q, w)" by (cases s')
  have Mi: "M i = Some (fs_header t p @ C)" and r: "rep w M" using miss(2,3) assms(2) by (auto simp: objects_hold_def s)
  obtain b w' where b: "FsBlobStore_load B i w = (Inr (Some b), w')" "fs_object i t p C b" "rep w' M" "opened w' = insert i (opened w)"
      "ids_left w \<le> ids_left w'"
    using FsBlobStore_load_ok [OF r Mi] assms(3) by (auto simp: returns_def fs_at_def)
  have c: "clean b = b" "fs_blob_id b = i" "write_cost need M b = 0" "fs_bytes M b = M i" "object_fits limit M b"
    using b(2) Mi within [OF r Mi]
    by (auto simp: fs_object_def clean_def write_cost_def fs_bytes_def object_fits_def split: entry_type.splits)
  have "objects ((b # held) @ cached_objects xs) V n M w'"
    using miss(2,3) b(3-5) c assms(2) Mi by (auto simp: objects_hold_def s)
  then have "fs_cache V (b # held) n (q, w')"
    unfolding fs_cache_holds_def using miss(2) by (auto simp: s)
  moreover have "CachingFsBlobStore_load B i s = (Inr (Some b), (q, w'))"
    using miss(1) b(1) by (simp add: CachingFsBlobStore_load_def ebind_def s zoom_snd_def)
  ultimately show ?thesis using b(2) c by auto
qed

lemma release_object:
  assumes "fs_cache V (b # held) n s"
  shows "\<exists>s'. CachingFsBlobStore_releaseForCache junk B now b s = (Inr (), s') \<and> fs_cache V held n s'"
proof -
  obtain q w where s: "s = (q, w)" by (cases s)
  obtain xs M where q: "queue_rep q xs" and l: "length xs \<le> CachingFsBlobStore_MAX_ENTRIES" and k: "\<forall>(k, e)\<in>set xs. k = fs_blob_id (cached e)"
    and M: "objects ((b # held) @ cached_objects xs) V n M w"
    using assms by (auto simp: fs_cache_holds_def s)
  let ?i = "fs_blob_id b" and ?m = CachingFsBlobStore_MAX_ENTRIES
  let ?ys = "if length xs = ?m then tl xs else xs"
  have ids: "fs_blob_id ` set (cached_objects xs) = fst ` set xs"
    using k by (force simp: cached_objects_def image_image)
  then have new: "map_of xs ?i = None" using M by (auto simp: objects_hold_def map_of_eq_None_iff)
  have m: "0 < ?m" by (simp add: CachingFsBlobStore_MAX_ENTRIES_def)
  obtain q' w' M' where p: "Cache_push (FsBlob_destroy junk B) ?m now ?i b (q, w) = (Inr (), (q', w'))"
      "queue_rep q' (?ys @ [(?i, CacheEntry_new now b)])" "\<forall>(k, e)\<in>set ?ys. k = fs_blob_id (cached e)"
      "objects ((b # held) @ cached_objects ?ys) V n M' w'"
    using Cache_push_refines [OF q l m new destroy_keeps_objects [of junk "b # held" V n], of w now b] k M
    by (fastforce simp: yields_def Let_def)
  have "objects (held @ cached_objects (?ys @ [(?i, CacheEntry_new now b)])) V n M' w'"
    by (rule objects_hold_perm [OF _ p(4)]) (simp add: CacheEntry_new_def)
  moreover have "length (?ys @ [(?i, CacheEntry_new now b)]) \<le> ?m" using l m by auto
  ultimately have "fs_cache V held n (q', w')"
    unfolding fs_cache_holds_def using p(2,3) by (fastforce simp: CacheEntry_new_def)
  then show ?thesis using p(1) by (auto simp: CachingFsBlobStore_releaseForCache_def s)
qed

lemma destroy_cache:
  assumes "fs_cache V [] n s"
  shows "\<exists>q w. CachingFsBlobStore_destroy junk B cores s = (Inr (), (q, w)) \<and> rep w V"
proof -
  obtain q w where s: "s = (q, w)" by (cases s)
  obtain xs M where q: "queue_rep q xs" and k: "\<forall>(k, e)\<in>set xs. k = fs_blob_id (cached e)" and M: "objects ([] @ cached_objects xs) V n M w"
    using assms by (auto simp: fs_cache_holds_def s)
  have c: "0 < 2 * max 1 cores" by simp
  have d: "dropWhile (\<lambda>x. True) ys = []" for ys :: "(block_id \<times> fs_blob cache_entry) list" by (induction ys) simp_all
  let ?P = "\<lambda>xs w. (\<forall>(k, e)\<in>set xs. k = fs_blob_id (cached e)) \<and> (\<exists>M. objects ([] @ cached_objects xs) V n M w)"
  have "?P xs w" using k M by blast
  from Cache_deleteMatchingEntriesAtBeginningParallel_refines [OF q destroy_keeps_objects [of junk "[]" V n] this c, of "\<lambda>_. True"]
  have y: "yields (Cache_deleteMatchingEntriesAtBeginningParallel (2 * max 1 cores) (FsBlob_destroy junk B) (\<lambda>_. True)) (q, w) ()
      (\<lambda>(q', w'). queue_rep q' [] \<and> ?P [] w')"
    unfolding Let_def d .
  obtain q' w' M' where p: "Cache_deleteMatchingEntriesAtBeginningParallel (2 * max 1 cores) (FsBlob_destroy junk B) (\<lambda>_. True) (q, w) = (Inr (), (q', w'))"
      "queue_rep q' []" "objects [] V n M' w'"
    using y by (auto simp: yields_def)
  have "V = M'" using p(3) by (auto simp: objects_hold_def)
  then have "rep w' V" using p(3) by (simp add: objects_hold_def)
  then show ?thesis
    using p(1) queue_map.size_of [OF p(2)]
    by (auto simp: CachingFsBlobStore_destroy_def Cache_destructor_def Cache_deleteAllEntriesParallel_def ebind_def s)
qed

text \<open>A directory in use may be changed.\<close>

lemma change_object:
  assumes "fs_cache V (DirBlob d # held) n s" and "saveable es" and "length (listing es) + 19 \<le> limit"
    and "\<And>m. need m (length (listing es) + 19) \<le> k" and "k \<le> n"
  shows "fs_cache (V(db_blockId d \<mapsto> fs_header DIR (db_parent d) @ listing es))
    (DirBlob (d\<lparr>db_entries := es, db_changed := True\<rparr>) # held) (n - k) s"
proof -
  let ?d = "d\<lparr>db_entries := es, db_changed := True\<rparr>" and ?i = "db_blockId d"
  let ?V = "V(?i \<mapsto> fs_header DIR (db_parent d) @ listing es)"
  obtain xs M where q: "queue_rep (fst s) xs" "length xs \<le> CachingFsBlobStore_MAX_ENTRIES" "\<forall>(k, e)\<in>set xs. k = fs_blob_id (cached e)"
    and M: "objects ((DirBlob d # held) @ cached_objects xs) V n M (snd s)"
    using assms(1) by (auto simp: fs_cache_holds_def)
  let ?bs = "held @ cached_objects xs"
  have at: "rep (snd s) M" "db_blockId d \<in> opened (snd s)" "object_fits limit M (DirBlob d)" and dist: "distinct (?i # map fs_blob_id ?bs)"
    and rest: "\<forall>b\<in>set ?bs. fs_blob_id b \<in> opened (snd s) \<and> object_fits limit M b \<and> V (fs_blob_id b) = fs_bytes M b"
    and unseen: "\<forall>i. i \<notin> fs_blob_id ` set (DirBlob d # ?bs) \<longrightarrow> V i = M i"
    and costs: "sum_list (map (write_cost need M) ?bs) + n \<le> ids_left (snd s)"
    using M unfolding objects_hold_def append_Cons by (simp_all del: map_append set_append sum_list_append)
  have fits: "object_fits limit M (DirBlob ?d)" using at(3) assms(2,3) by (auto simp: object_fits_def)
  have "write_cost need M (DirBlob ?d) \<le> k" using assms(4) by (simp add: write_cost_def)
  then have "sum_list (map (write_cost need M) (DirBlob ?d # ?bs)) + (n - k) \<le> ids_left (snd s)" using costs assms(5) by simp
  moreover have "\<forall>b\<in>set (DirBlob ?d # ?bs). fs_blob_id b \<in> opened (snd s) \<and> object_fits limit M b \<and> ?V (fs_blob_id b) = fs_bytes M b"
  proof
    fix b
    assume b: "b \<in> set (DirBlob ?d # ?bs)"
    show "fs_blob_id b \<in> opened (snd s) \<and> object_fits limit M b \<and> ?V (fs_blob_id b) = fs_bytes M b"
    proof (cases "b = DirBlob ?d")
      case True
      then show ?thesis using at(2) fits by (simp add: fs_bytes_def)
    next
      case False
      then have "b \<in> set ?bs" using b by simp
      moreover from this have "fs_blob_id b \<noteq> ?i" using dist by (metis distinct.simps(2) image_eqI list.set_map)
      ultimately show ?thesis using rest by simp
    qed
  qed
  moreover have "\<forall>i. i \<notin> fs_blob_id ` set (DirBlob ?d # ?bs) \<longrightarrow> ?V i = M i" using unseen by simp
  ultimately have "objects ((DirBlob ?d # held) @ cached_objects xs) ?V (n - k) M (snd s)"
    using at(1) dist unfolding objects_hold_def append_Cons by (simp del: map_append set_append sum_list_append fun_upd_apply)
  then show ?thesis using q by (auto simp: fs_cache_holds_def)
qed

text \<open>Creating and removing blobs.\<close>

lemma objects_elsewhere:
  assumes "objects bs V n M w" and "i \<notin> fs_blob_id ` set bs" and "rep w' (M(i := x))" and "opened w - {i} \<subseteq> opened w'"
    and "ids_left w \<le> ids_left w' + k" and "k \<le> n"
  shows "objects bs (V(i := x)) (n - k) (M(i := x)) w'"
proof -
  have same: "object_fits limit (M(i := x)) b = object_fits limit M b" "fs_bytes (M(i := x)) b = fs_bytes M b"
      "write_cost need (M(i := x)) b = write_cost need M b" "fs_blob_id b \<noteq> i" if "b \<in> set bs" for b
    using assms(2) that by (cases b; force simp: object_fits_def fs_bytes_def write_cost_def)+
  then have costs: "map (write_cost need (M(i := x))) bs = map (write_cost need M) bs" by simp
  show ?thesis using assms same unfolding objects_hold_def costs by auto
qed

lemma objects_dom:
  assumes "objects bs V n M w"
  shows "V i = None \<longleftrightarrow> M i = None"
proof (cases "i \<in> fs_blob_id ` set bs")
  case True
  then obtain b where "b \<in> set bs" "i = fs_blob_id b" by blast
  then have "object_fits limit M b" "V i = fs_bytes M b" using assms by (auto simp: objects_hold_def)
  then show ?thesis using \<open>i = _\<close> by (cases b) (auto simp: object_fits_def fs_bytes_def)
qed (use assms in \<open>simp add: objects_hold_def\<close>)

lemma remove_object:
  assumes "objects (b # bs) V n M w"
  shows "\<exists>w' M'. FsBlobStore_remove junk B b w = (Inr (), w') \<and> objects bs (V(fs_blob_id b := None)) n M' w'"
proof -
  let ?i = "fs_blob_id b"
  obtain w1 M1 where d: "FsBlob_destroy junk B b w = (Inr (), w1)" "objects bs V n M1 w1" using destroy_object [OF assms] by blast
  have "V ?i \<noteq> None" using assms by (cases b) (auto simp: objects_hold_def object_fits_def fs_bytes_def)
  then have "?i \<in> dom M1" using objects_dom [OF d(2)] by auto
  moreover have "rep w1 M1" using d(2) by (simp add: objects_hold_def)
  ultimately obtain w2 where r: "blob_remove B ?i w1 = (Inr (), w2)" "rep w2 (M1(?i := None))" "opened w2 = opened w1 - {?i}" "ids_left w1 \<le> ids_left w2"
    using remove [of w1 M1 ?i] by (auto simp: returns_def)
  have "?i \<notin> fs_blob_id ` set bs" using assms by (simp add: objects_hold_def)
  from objects_elsewhere [OF d(2) this r(2), of 0] have "objects bs (V(?i := None)) n (M1(?i := None)) w2" using r(3,4) by simp
  moreover have "FsBlobStore_remove junk B b w = (Inr (), w2)"
    using d(1) r(1) by (cases b) (auto simp: FsBlobStore_remove_def FsBlob_destroy_def ebind_def split: prod.splits sum.splits)
  ultimately show ?thesis by blast
qed

lemma remove_held:
  assumes "fs_cache V (b # held) n s"
  shows "\<exists>s'. CachingFsBlobStore_remove_blob junk B b s = (Inr (), s') \<and> fs_cache (V(fs_blob_id b := None)) held n s'"
proof -
  obtain xs M where q: "queue_rep (fst s) xs" "length xs \<le> CachingFsBlobStore_MAX_ENTRIES" "\<forall>(k, e)\<in>set xs. k = fs_blob_id (cached e)"
    and M: "objects (b # held @ cached_objects xs) V n M (snd s)"
    using assms by (auto simp: fs_cache_holds_def)
  obtain w' M' where r: "FsBlobStore_remove junk B b (snd s) = (Inr (), w')" "objects (held @ cached_objects xs) (V(fs_blob_id b := None)) n M' w'"
    using remove_object [OF M] by blast
  have "fs_cache (V(fs_blob_id b := None)) held n (fst s, w')"
    unfolding fs_cache_holds_def using q r(2) by auto
  then show ?thesis using r(1) by (auto simp: CachingFsBlobStore_remove_blob_def zoom_snd_def)
qed

lemma remove_key:
  assumes "fs_cache V held n s" and "V i \<noteq> None" and "i \<notin> fs_blob_id ` set held"
  shows "\<exists>s'. CachingFsBlobStore_remove junk B i s = (Inr (), s') \<and> fs_cache (V(i := None)) held n s'"
  using assms(1,3)
proof (cases rule: pop_cache)
  case (hit b s')
  then show ?thesis using remove_held [of V b held n s' junk] by (simp add: CachingFsBlobStore_remove_def ebind_def)
next
  case (miss s' xs M)
  have M: "objects (held @ cached_objects xs) V n M (snd s')" using miss(2) by simp
  have "i \<in> dom M" "rep (snd s') M" using objects_dom [OF M, of i] assms(2) M by (auto simp: objects_hold_def)
  then obtain w' where r: "blob_remove B i (snd s') = (Inr (), w')" "rep w' (M(i := None))" "opened w' = opened (snd s') - {i}"
      "ids_left (snd s') \<le> ids_left w'"
    using remove [of "snd s'" M i] by (auto simp: returns_def)
  have "objects (held @ cached_objects xs) (V(i := None)) n (M(i := None)) w'"
    using objects_elsewhere [OF M miss(3) r(2), of 0] r(3,4) by simp
  then have "fs_cache (V(i := None)) held n (fst s', w')" unfolding fs_cache_holds_def using miss(2) by auto
  then show ?thesis using miss(1) r(1) by (auto simp: CachingFsBlobStore_remove_def ebind_def zoom_snd_def)
qed

lemma create_object:
  assumes "fs_cache V held n s" and "k \<le> n"
    and create: "\<And>M. rep (snd s) M \<Longrightarrow> k \<le> ids_left (snd s) \<Longrightarrow> returns m (snd s) (\<lambda>b w'. \<exists>i. fs_object i t p C b \<and> M i = None \<and>
      fs_at w' (M(i \<mapsto> fs_header t p @ C)) i t p C \<and> opened w' = insert i (opened (snd s)) \<and> ids_left (snd s) \<le> ids_left w' + k)"
  shows "\<exists>b s'. zoom_snd m s = (Inr b, s') \<and> V (fs_blob_id b) = None \<and> fs_object (fs_blob_id b) t p C b \<and>
    fs_cache (V(fs_blob_id b \<mapsto> fs_header t p @ C)) (b # held) (n - k) s'"
proof -
  obtain xs M where q: "queue_rep (fst s) xs" "length xs \<le> CachingFsBlobStore_MAX_ENTRIES" "\<forall>(k, e)\<in>set xs. k = fs_blob_id (cached e)"
    and M: "objects (held @ cached_objects xs) V n M (snd s)"
    using assms(1) by (auto simp: fs_cache_holds_def)
  have "rep (snd s) M" "k \<le> ids_left (snd s)" using M assms(2) by (simp_all add: objects_hold_def)
  then obtain b i w' where c: "m (snd s) = (Inr b, w')" "fs_object i t p C b" "M i = None" "rep w' (M(i \<mapsto> fs_header t p @ C))"
      "opened w' = insert i (opened (snd s))" "ids_left (snd s) \<le> ids_left w' + k"
    using create [of M] by (auto simp: returns_def fs_at_def)
  let ?M = "M(i \<mapsto> fs_header t p @ C)" and ?bs = "held @ cached_objects xs"
  have b: "fs_blob_id b = i" "write_cost need ?M b = 0" "fs_bytes ?M b = ?M i" "object_fits limit ?M b"
    using c(2) within [OF c(4), of i "fs_header t p @ C"]
    by (auto simp: fs_object_def write_cost_def fs_bytes_def object_fits_def split: entry_type.splits)
  have new: "i \<notin> fs_blob_id ` set ?bs"
  proof
    assume "i \<in> fs_blob_id ` set ?bs"
    then obtain a where "a \<in> set ?bs" "i = fs_blob_id a" by blast
    then show False using M opened [OF \<open>rep (snd s) M\<close>] c(3) by (auto simp: objects_hold_def)
  qed
  have "objects ?bs (V(i \<mapsto> fs_header t p @ C)) (n - k) ?M w'"
    by (rule objects_elsewhere [OF M new c(4) _ c(6) assms(2)]) (use c(5) in auto)
  then have "objects ((b # held) @ cached_objects xs) (V(i \<mapsto> fs_header t p @ C)) (n - k) ?M w'"
    using b c(5) new unfolding objects_hold_def append_Cons by (simp del: map_append set_append sum_list_append, metis)
  then have "fs_cache (V(i \<mapsto> fs_header t p @ C)) (b # held) (n - k) (fst s, w')" unfolding fs_cache_holds_def using q by auto
  moreover have "V i = None" using objects_dom [OF M] c(3) by simp
  ultimately show ?thesis using b(1) c(1,2) by (auto simp: zoom_snd_def)
qed

lemmas create_defs = CachingFsBlobStore_createFileBlob_def CachingFsBlobStore_createDirBlob_def CachingFsBlobStore_createSymlinkBlob_def

lemma create_file:
  assumes "fs_cache V held n s" and "19 \<le> limit" and "Suc (need 0 19) \<le> n"
  shows "\<exists>b s'. CachingFsBlobStore_createFileBlob B p s = (Inr b, s') \<and> V (fs_blob_id b) = None \<and> fs_object (fs_blob_id b) FILE p [] b \<and>
    fs_cache (V(fs_blob_id b \<mapsto> fs_header FILE p @ [])) (b # held) (n - Suc (need 0 19)) s'"
  unfolding create_defs
  by (rule create_object [OF assms(1,3)], rule returns_mono [OF createFileBlob_ok [OF _ assms(2)]]) (auto simp: fs_object_def)

lemma create_dir:
  assumes "fs_cache V held n s" and "19 \<le> limit" and "Suc (need 0 19) \<le> n"
  shows "\<exists>b s'. CachingFsBlobStore_createDirBlob B p s = (Inr b, s') \<and> V (fs_blob_id b) = None \<and> fs_object (fs_blob_id b) DIR p [] b \<and>
    fs_cache (V(fs_blob_id b \<mapsto> fs_header DIR p @ [])) (b # held) (n - Suc (need 0 19)) s'"
  unfolding create_defs
proof (rule create_object [OF assms(1,3)])
  fix M
  assume M: "rep (snd s) M" "Suc (need 0 19) \<le> ids_left (snd s)"
  have "saveable []" "listing [] = []"
    by (simp_all add: saveable_def listing_def dir_inv_def ids_sorted_def DirEntryList_serializedSize_def)
  then show "returns (FsBlobStore_createDirBlob B p) (snd s) (\<lambda>b w'. \<exists>i. fs_object i DIR p [] b \<and> M i = None \<and>
      fs_at w' (M(i \<mapsto> fs_header DIR p @ [])) i DIR p [] \<and> opened w' = insert i (opened (snd s)) \<and>
      ids_left (snd s) \<le> ids_left w' + Suc (need 0 19))"
    by (intro returns_mono [OF createDirBlob_ok [OF M(1) assms(2) M(2)]]) (auto simp: fs_object_def)
qed

lemma create_symlink:
  assumes "fs_cache V held n s" and "length t + 19 \<le> limit" and "Suc (need 0 19 + need 19 (length t + 19)) \<le> n"
  shows "\<exists>b s'. CachingFsBlobStore_createSymlinkBlob B t p s = (Inr b, s') \<and> V (fs_blob_id b) = None \<and> fs_object (fs_blob_id b) SYMLINK p t b \<and>
    fs_cache (V(fs_blob_id b \<mapsto> fs_header SYMLINK p @ t)) (b # held) (n - Suc (need 0 19 + need 19 (length t + 19))) s'"
  unfolding create_defs
  by (rule create_object [OF assms(1,3)], rule returns_mono [OF createSymlinkBlob_ok [OF _ assms(2)]]) (auto simp: fs_object_def)

end

section \<open>Properties\<close>

text \<open>
  C10. The cache of file system blobs is transparent: over any blob store with the contract, with the objects in use and the unused objects in
  the cache, the blobs look as if every change of a directory were written at once. Loading gives the current object, from the cache
  or from the blobs; releasing an object, which may write the oldest directory, changes nothing that can be seen; changing the
  entries of a directory in use changes exactly that directory; creating adds exactly the new blob, and removing, of an object in use,
  in the cache or only in the blobs, takes exactly this blob away; and the destructor leaves blobs that hold everything.
\<close>

theorem fs_cache_transparent:
  fixes B :: "'w blob_store"
  assumes "blob_arrays B rep opened ids_left need limit" and "fs_cache_holds rep opened ids_left need limit V held n s"
  shows "(V i = Some (fs_header t p @ C) \<and> (t = DIR \<longrightarrow> C = listing es \<and> saveable es) \<and> i \<notin> fs_blob_id ` set held \<longrightarrow>
      (\<exists>b s'. CachingFsBlobStore_load B i s = (Inr (Some b), s') \<and> fs_object i t p C (clean b) \<and> fs_cache_holds rep opened ids_left need limit V (b # held) n s')) \<and>
    (held = b # rest \<longrightarrow> (\<exists>s'. CachingFsBlobStore_releaseForCache junk B now b s = (Inr (), s') \<and> fs_cache_holds rep opened ids_left need limit V rest n s') \<and>
      (\<exists>s'. CachingFsBlobStore_remove_blob junk B b s = (Inr (), s') \<and> fs_cache_holds rep opened ids_left need limit (V(fs_blob_id b := None)) rest n s')) \<and>
    (held = DirBlob d # rest \<and> saveable fs \<and> length (listing fs) + 19 \<le> limit \<and> (\<forall>m. need m (length (listing fs) + 19) \<le> k) \<and> k \<le> n \<longrightarrow>
      fs_cache_holds rep opened ids_left need limit (V(db_blockId d \<mapsto> fs_header DIR (db_parent d) @ listing fs))
        (DirBlob (d\<lparr>db_entries := fs, db_changed := True\<rparr>) # rest) (n - k) s) \<and>
    (V i \<noteq> None \<and> i \<notin> fs_blob_id ` set held \<longrightarrow> (\<exists>s'. CachingFsBlobStore_remove junk B i s = (Inr (), s') \<and> fs_cache_holds rep opened ids_left need limit (V(i := None)) held n s')) \<and>
    (19 \<le> limit \<and> Suc (need 0 19) \<le> n \<longrightarrow>
      (\<exists>b s'. CachingFsBlobStore_createFileBlob B p s = (Inr b, s') \<and> V (fs_blob_id b) = None \<and> fs_object (fs_blob_id b) FILE p [] b \<and>
        fs_cache_holds rep opened ids_left need limit (V(fs_blob_id b \<mapsto> fs_header FILE p @ [])) (b # held) (n - Suc (need 0 19)) s') \<and>
      (\<exists>b s'. CachingFsBlobStore_createDirBlob B p s = (Inr b, s') \<and> V (fs_blob_id b) = None \<and> fs_object (fs_blob_id b) DIR p [] b \<and>
        fs_cache_holds rep opened ids_left need limit (V(fs_blob_id b \<mapsto> fs_header DIR p @ [])) (b # held) (n - Suc (need 0 19)) s')) \<and>
    (length link + 19 \<le> limit \<and> Suc (need 0 19 + need 19 (length link + 19)) \<le> n \<longrightarrow>
      (\<exists>b s'. CachingFsBlobStore_createSymlinkBlob B link p s = (Inr b, s') \<and> V (fs_blob_id b) = None \<and> fs_object (fs_blob_id b) SYMLINK p link b \<and>
        fs_cache_holds rep opened ids_left need limit (V(fs_blob_id b \<mapsto> fs_header SYMLINK p @ link)) (b # held) (n - Suc (need 0 19 + need 19 (length link + 19))) s')) \<and>
    (held = [] \<longrightarrow> (\<exists>q w. CachingFsBlobStore_destroy junk B cores s = (Inr (), (q, w)) \<and> rep w V))"
    (is "?load \<and> ?held \<and> ?change \<and> ?remove \<and> ?create \<and> ?link \<and> ?destroy")
proof (intro conjI)
  note A = assms(1) and H = assms(2)
  show ?load using blob_arrays.load_object [OF A H, of i t p C es] by blast
  show ?held using blob_arrays.release_object [OF A, of V b rest n s junk now] blob_arrays.remove_held [OF A, of V b rest n s junk] H by blast
  show ?change using blob_arrays.change_object [OF A, of V d rest n s fs k] H by blast
  show ?remove using blob_arrays.remove_key [OF A H, of i junk] by blast
  show ?create using blob_arrays.create_file [OF A H, of p] blob_arrays.create_dir [OF A H, of p] by blast
  show ?link using blob_arrays.create_symlink [OF A H, of link p] by blast
  show ?destroy using blob_arrays.destroy_cache [OF A, of V n s junk cores] H by blast
qed

text \<open>A directory that was created, changed and released is found again with its entries.\<close>

lemma fs_cache_transparent_witness:
  "\<exists>d s'. ebind (CachingFsBlobStore_createDirBlob (cached_blob_store 0 0 test_cipher 5 (memory_disk 0) exact_ceilLog (layout_of 40)) (bid 200)) (\<lambda>b.
      ebind (CachingFsBlobStore_releaseForCache 0 (cached_blob_store 0 0 test_cipher 5 (memory_disk 0) exact_ceilLog (layout_of 40)) 7
        (DirBlob ((fs_dir b)\<lparr>db_entries := example_dir, db_changed := True\<rparr>))) (\<lambda>_.
      CachingFsBlobStore_load (cached_blob_store 0 0 test_cipher 5 (memory_disk 0) exact_ceilLog (layout_of 40)) (fs_blob_id b)))
      (QueueMap_new, fresh_blobs test_ids 0 [] 0) = (Inr (Some (DirBlob d)), s') \<and> db_entries d = example_dir \<and> db_parent d = bid 200"
proof -
  let ?B = "cached_blob_store 0 0 test_cipher 5 (memory_disk 0) exact_ceilLog (layout_of 40)" and ?w = "fresh_blobs test_ids 0 [] 0"
  let ?rep = "holds_blobs file_tree_inv file_at test_cipher 5 16 (layout_of 40) 10" and ?ids = "\<lambda>w. length (fst (snd w))"
  let ?need = "blob_need (layout_of 40) 10" and ?limit = "blob_limit (layout_of 40) 10"
  let ?holds = "fs_cache_holds ?rep tree_store.open_blobs ?ids ?need ?limit"
  note arrays = test_blobs.blob_arrays_axioms [of 0 0 0]
  have w: "?rep ?w Map.empty" by (rule fresh_holds [OF test_setting test_disk distinct_test_ids])
  have n: "?need 0 19 = 0" "?ids ?w = 99" by (simp_all add: test_sizes leaf_count_def cdiv_def fresh_blobs_def test_ids_def)
  have room: "19 \<le> ?limit" "Suc (?need 0 19) \<le> ?ids ?w" unfolding n test_sizes(1) by simp_all
  obtain i w1 where c: "FsBlobStore_createDirBlob ?B (bid 200) ?w =
        (Inr (DirBlob \<lparr>db_blockId = i, db_parent = bid 200, db_entries = [], db_changed = False\<rparr>), w1)"
      "?rep w1 [i \<mapsto> fs_header DIR (bid 200)]" "i \<in> tree_store.open_blobs w1" "99 \<le> ?ids w1 + 1"
    using blob_arrays.createDirBlob_ok [OF arrays w room, of "bid 200"]
    unfolding returns_def blob_arrays.fs_at_def [OF arrays] n append_Nil2 by fastforce
  let ?d = "\<lparr>db_blockId = i, db_parent = bid 200, db_entries = [], db_changed = False\<rparr>"
  let ?e = "?d\<lparr>db_entries := example_dir, db_changed := True\<rparr>"
  have nil: "saveable []" "listing [] = []"
    by (simp_all add: saveable_def listing_def dir_inv_def ids_sorted_def DirEntryList_serializedSize_def)
  have h1: "?holds [i \<mapsto> fs_header DIR (bid 200)] [DirBlob ?d] 98 (QueueMap_new, w1)"
    unfolding fs_cache_holds_def objects_hold_def using c(2-4) queue_rep_new nil
    by (auto simp: fs_bytes_def object_fits_def write_cost_def test_sizes intro!: exI [of _ "[]"])
  have k: "\<forall>m. ?need m (length (listing example_dir) + 19) \<le> 76"
    by (auto simp: test_sizes example_saveable leaf_count_def cdiv_def)
  have h2: "?holds [i \<mapsto> fs_header DIR (bid 200) @ listing example_dir] [DirBlob ?e] (98 - 76) (QueueMap_new, w1)"
    using fs_cache_transparent [OF arrays h1, where d = ?d and rest = "[]" and fs = example_dir and k = 76] k example_saveable
    by (simp add: test_sizes)
  obtain s2 where r: "CachingFsBlobStore_releaseForCache 0 ?B 7 (DirBlob ?e) (QueueMap_new, w1) = (Inr (), s2)"
      "?holds [i \<mapsto> fs_header DIR (bid 200) @ listing example_dir] [] (98 - 76) s2"
    using fs_cache_transparent [OF arrays h2, where b = "DirBlob ?e" and rest = "[]" and junk = 0 and now = 7] by blast
  obtain b s3 where l: "CachingFsBlobStore_load ?B i s2 = (Inr (Some b), s3)" "fs_object i DIR (bid 200) (listing example_dir) (clean b)"
    using fs_cache_transparent [OF arrays r(2), where i = i and t = DIR and p = "bid 200" and C = "listing example_dir" and es = example_dir,
        THEN conjunct1] example_saveable(1) by fastforce
  obtain d es where d: "b = DirBlob d" "saveable es" "listing example_dir = listing es"
      and v: "d\<lparr>db_changed := False\<rparr> = \<lparr>db_blockId = i, db_parent = bid 200, db_entries = es, db_changed = False\<rparr>"
    using l(2) by (cases b) (auto simp: fs_object_def clean_def)
  have e: "db_entries d = es" "db_parent d = bid 200" using arg_cong [OF v, of db_entries] arg_cong [OF v, of db_parent] by simp_all
  have "es = example_dir" using listing_load [OF d(2)] listing_load [OF example_saveable(1)] d(3) by simp
  then have "db_entries d = example_dir \<and> db_parent d = bid 200" using e by simp
  moreover have "ebind (CachingFsBlobStore_createDirBlob ?B (bid 200)) (\<lambda>b. ebind (CachingFsBlobStore_releaseForCache 0 ?B 7
      (DirBlob ((fs_dir b)\<lparr>db_entries := example_dir, db_changed := True\<rparr>))) (\<lambda>_. CachingFsBlobStore_load ?B (fs_blob_id b)))
      (QueueMap_new, ?w) = (Inr (Some (DirBlob d)), s3)"
    using c(1) r(1) l(1) d(1) by (simp add: CachingFsBlobStore_createDirBlob_def ebind_def zoom_snd_def fs_dir_def)
  ultimately show ?thesis by blast
qed

end
