(* ===== verification/Spec2Isabelle.thy ===== *)
theory Spec2Isabelle
  imports BlobTowers RunLength ParallelAccess Opening JniBinding CfbCiphers RandomPool LeftRightLock LockPools FsBlobCaches
begin

text \<open>
  A verification library for libcryfs (\<open>src/src\<close>): the encrypted file system CryFS as a library.

  \<^bold>\<open>The program.\<close> A file system is a tree of directories, files and symbolic links. Each of them is a blob, a
  byte array of any length; a blob is a left-max tree of nodes; a node is a block of fixed size with a random
  16 byte identifier; and blocks go through a tower of block stores (a write-back cache, integrity checks,
  encryption) to a base store. \<open>CryDevice\<close> builds the tower and the blob store on it,
  \<open>FilesystemImpl\<close> offers the file system calls, \<open>Fuse\<close> turns exceptions into error numbers, and the JNI functions
  give it to Java. The key, the cipher and the root of a file system are in its configuration file, which is encrypted with a
  password; what this machine knows about the file system (its identity, its client identifier, a hash of its key) is
  in the local state directory, and a file system is only opened when both agree.

  \<^bold>\<open>How code becomes definitions.\<close> A class is a record or a datatype, a method is a definition named
  \<open>Class_method\<close>, a virtual interface is a record of operations, and a decorator is a function between such
  records. An operation on a state \<open>'s\<close> has the type \<open>('s, 'a) exec\<close> (theory Prelude): it returns a value or an
  error and the state it reached, so a C++ exception keeps the effects that came before it. Failed assertions,
  exceptions, error numbers and undefined accesses (\<open>MemoryFault\<close>) are values of the type \<open>error\<close>.
  Machine integers are words where the code wraps and natural numbers with written-out truncation where it
  computes indices. \<open>std::unordered_map\<close> is an association list with distinct keys. Buffers are byte lists.

  \<^bold>\<open>Theories.\<close>
  \<^item> Prelude, CppData, BlockIds: monads, byte buffers, serialization of integers (\<open>cpp-utils/data\<close>),
    \<open>Serializer\<close>, \<open>Deserializer\<close>, \<open>RandomPadding\<close>, \<open>IdWrapper\<close> with its order.
  \<^item> BlockStores: the interface \<open>BlockStore2\<close> as the record \<open>block_store2\<close> and its contract as the locale
    \<open>block_store2\<close> (an abstraction to a map from identifiers to blocks, an invariant, which blocks fit and how
    many more operations are possible), in which any sequence of operations is shown to be answered as by a map;
    \<open>InMemoryBlockStore2\<close> and \<open>ReadOnlyBlockStore2\<close>.
  \<^item> Ciphers, EncryptedStore: the cipher concept with its contract, the AEAD framing, the encrypted store
    (both formats) over any base store and cipher.
  \<^item> KnownVersions, IntegrityStore: the version bookkeeping with its state file and the integrity checks;
    without outside changes the contract is met with no false alarm, and renamed, rolled back and deleted blocks
    are detected.
  \<^item> QueueMaps, Caches, CachingStore: the linked queue with its hash map (pointers included), the bounded cache,
    the write-back store; the pointer structure refines a list, the store meets the block store contract, a flush
    writes everything.
  \<^item> HexStrings, OnDiskStore: hexadecimal strings and the store on disk, one file per block, over any disk with the laws of the
    locale \<open>disk_laws\<close>; it meets the block store contract and enumerates exactly its blocks.
  \<^item> StorageStack: the tower of \<open>CryDevice\<close> with mount and shutdown; the contracts compose.
  \<^item> HighLevel: block objects with a dirty flag (\<open>LowToHighLevelBlockStore\<close>) and open blocks as the upper layers
    see them, with the calculus for programs on them (locale \<open>block_heap\<close>).
  \<^item> RunLength: the compressing store and the run-length compressor with its round trip.
  \<^item> ParallelAccess: \<open>ParallelAccessStore\<close> as critical sections that threads interleave (step relation
    \<open>pa_step\<close>), the invariant on the reference counts, and two races.
  \<^item> DataNodes, DataTrees, Blobs: node layout, leaf and inner nodes, \<open>LeafTraverser\<close>, \<open>DataTree\<close> with its size
    cache, \<open>DataTreeStore\<close>, \<open>BlobOnBlocks\<close>, \<open>BlobStoreOnBlocks\<close>.
  \<^item> NodeHeap, TreeShapes, TreeHeap: the correctness of the trees begins here. The bytes of a node, each node operation as
    a result with an update of the heap of blocks (locale \<open>node_heap\<close>), trees as a datatype with the left-max shape, the trees
    that a heap holds, and the frame of an operation (\<open>evolves\<close>: which blocks and identifiers it may touch).
  \<^item> TreeCreation, TreeTraversal, TreeRoots, TreeRemoval: the leaf traverser and the operations on roots and subtrees in the
    locale \<open>tree_store\<close>: a traversal visits exactly the leaves of its range in order, creates the missing ones, grows the last
    one, and leaves a left-max tree; growing and collapsing the root keeps its identifier; removal frees exactly the blocks
    of a subtree.
  \<^item> Chunks, TreeBytes, TreeIO: the bytes of a blob cut into leaves; size, resize, write and read of a \<open>DataTree\<close> are those
    of a byte array, with all arithmetic at its width, and the size cache is always right.
  \<^item> BlobArrays, BlobScripts: the contract of a blob store (locale \<open>blob_arrays\<close>: independent byte arrays), its
    proof for \<open>BlobStoreOnBlocks\<close>, and the simulation of scripts of operations by lists of byte arrays.
  \<^item> DirEntries, FsBlobs, FsContents: directory entries and listings with their byte format and search, the blobs of
    directories, files and links, and what they hold over any blob store with the contract.
  \<^item> BlobTowers: the interpretations, in memory and on a cache over an encrypted store on disk, with the properties of blobs, files,
    directories and links. They use the cached encrypted store on disk without integrity checks, since the contract of the trees
    has no bound on the number of operations, and the integrity checks allow fewer than \<open>2^64 - 1\<close>.
  \<^item> FileSystem: path lookup, the node operations (create, rename, unlink, timestamps), open files and
    \<open>FilesystemImpl\<close>.
  \<^item> FsBlobCaches: \<open>CachingFsBlobStore\<close>, the cache of the last 50 unused file system blobs over any blob store with the contract;
    it is transparent, although a directory is written only when its object leaves the cache.
  \<^item> FuseBinding: the callbacks of \<open>fspp/fuse/Fuse.cpp\<close> on any \<open>Filesystem\<close>, \<open>InvalidFilesystem\<close> included; what they
    let through and what they return after shutdown and for descriptors that are not open.
  \<^item> Versions: the parser of version strings and their order (\<open>gitversion\<close>).
  \<^item> ConfigCrypto: encryption keys, scrypt parameters, the inner and the outer layer of the encrypted configuration file,
    the table of ciphers and the key providers (\<open>cryfs/impl/config/crypto\<close>, \<open>cpp-utils/crypto/kdf\<close>); each layer
    returns what was put into it.
  \<^item> PropertyTrees, LocalState: \<open>boost::property_tree\<close> with its JSON format as a locale \<open>json_laws\<close>, and
    the local state directory: \<open>LocalStateMetadata\<close> recognizes a key that was replaced, \<open>BasedirMetadata\<close> a file system that was.
  \<^item> Configs: \<open>CryConfig\<close>, \<open>CryConfigFile\<close>, \<open>CryConfigConsole\<close>, \<open>CryConfigCreator\<close> and \<open>CryConfigLoader\<close>; a configuration is
    loaded as it was saved, a created file system is opened again, a change of the password keeps the rest, and versions are checked.
  \<^item> Opening: what \<open>CryDevice\<close> and \<open>cryfs-cli/Cli.cpp\<close> do with the configuration when a file system is opened, the checks on directories and
    the change of the encryption key by \<open>jni/libcryfs-jni.cpp\<close>.
  \<^item> JniBinding: the other functions of \<open>jni/libcryfs-jni.cpp\<close> with the set of valid pointers; a closed file system is never used again.
  \<^item> CfbCiphers: the ciphers without authentication; they are ciphers and accept every ciphertext.
  \<^item> RandomPool, LeftRightLock, LockPools: threads in step relations. The random pool with its refilling thread gives no byte out twice
    (and may write outside of a target), \<open>LeftRight\<close> keeps readers and writers on different instances at every atomic operation,
    and \<open>LockPool\<close> excludes and wakes as it should.
  This theory states the properties that span components.

  \<^bold>\<open>Bounds and fuel.\<close> Recursions that follow a data structure in the store have fuel: the growth and the
  collapse of the root of a tree get one unit per depth a byte can hold (256), the walk over ancestors one unit per
  path component, loops of the queue one unit per entry; a store whose nodes form a cycle is the only one on which the code would not
  return, and there the model answers \<open>OutOfFuel\<close>. The deletion loops of the cache recurse on the number of entries. Random
  identifiers come from a supply in the state, so that runs are deterministic; collisions are excluded by a
  supply without repetitions and in use nowhere, which the contracts name.

  The theorems on trees are for depths up to 10 with at most \<open>2^31\<close> leaves, which keeps the 32 bit leaf indices of the
  code from wrapping: 1023 children per node and depth 3 for blocks of 16 KiB, blobs of 17 TB.

  \<^bold>\<open>Parameters.\<close> Third-party code is an argument: the AEAD primitives of Crypto++ (locale \<open>cipher\<close>: what is
  encrypted is decrypted to itself, ciphertexts are longer by a fixed overhead), the random source, the floating
  point \<open>ceilLog\<close>, the calls of the operating system on files (locale \<open>disk_laws\<close>), scrypt and SHA512 (functions of their inputs),
  the JSON parser and printer of boost (locale \<open>json_laws\<close>). Every locale is interpreted on definitions of the model.

  \<^bold>\<open>Not modelled.\<close> Crypto++, the Gzip compressor and boost are libraries that the sources call. Threads are modelled where they share
  state by design (ParallelAccess, RandomPool, LeftRightLock, LockPools); timers (the periodic flush is an operation), logging and the profiler have no effect on the results. Of the command line the splitting of arguments,
  the look for newer versions on the network and the set-up of the process are left out, and so is \<open>Cli::initFilesystem\<close> as one function (its
  steps are definitions of Opening). The key provider that asks for a password on a terminal is left out: the library only uses the
  providers with a given password or key. Of the JNI functions the conversion of Java arrays and strings is not modelled, and not
  the copies of the password hash between them. The wrappers that forward every method (\<open>parallelaccessfsblobstore\<close>, \<open>cachingfsblobstore\<close>,
  \<open>parallelaccess\<close>) and the test suites are left out.
\<close>

section \<open>The storage tower\<close>

text \<open>
  C2. The whole tower of block stores is a map: over any base store and any cipher that meet their
  contracts, mounted on an empty base store, every sequence of loads, stores, creations of new blocks,
  removals and counts is answered exactly as by a map from identifiers to blocks, without any error or
  integrity alarm, provided the blocks leave room for the headers in 32 bits and there are fewer than
  \<open>2^64 - 1\<close> operations.
\<close>

theorem storage_tower_behaves_as_map:
  fixes base :: "'s block_store2" and C :: "('r, 'k) cipher"
  assumes "block_store2 base binv bblocks bfits bcapacity" and "cipher C key_ok overhead" and "key_ok encKey"
    and "binv b" and "bblocks b = Map.empty" and "bcapacity b (length ps)" and "me \<noteq> 0" and "length ps < 2 ^ 64 - 1"
    and "\<forall>p\<in>set ps. \<forall>d\<in>op_data p. integrity_fits (encrypted_fits overhead bfits) d"
    and "fresh_creates Map.empty ps"
  shows "\<exists>s t. CryDevice_mount r b None me now = Inr s \<and>
    run_ops (CryDevice_BlockStore cfg C encKey base) ps s = (Inr (spec_answers Map.empty ps), t)"
proof -
  have stack: "storage_stack base binv bblocks bfits bcapacity C key_ok overhead encKey"
    by (intro storage_stack.intro encrypted_store.intro encrypted_store_axioms.intro assms(1-3))
  show ?thesis
  proof (rule storage_stack.mount_fresh [OF stack assms(4-8), of r now cfg])
    fix st :: "('r \<times> 's) integrity_state"
    let ?s = "CachingBlockStore2_new st now"
    assume "CryDevice_mount r b None me now = Inr ?s"
      and s: "caching_inv (integrity_inv cfg me (encrypted_inv C encKey binv bblocks) (encrypted_blocks C encKey bblocks))
          (integrity_blocks (encrypted_blocks C encKey bblocks)) (integrity_fits (encrypted_fits overhead bfits))
          (integrity_capacity (encrypted_capacity bcapacity)) ?s"
        "caching_blocks (integrity_blocks (encrypted_blocks C encKey bblocks)) ?s = Map.empty"
        "caching_capacity (integrity_capacity (encrypted_capacity bcapacity)) ?s (length ps)"
    moreover from block_store2.run_ops_refines [OF storage_stack.stack_contract [OF stack, where cfg = cfg and me = me] s(1) assms(9), of 0]
      s(2,3) assms(10) have "\<exists>t. run_ops (CryDevice_BlockStore cfg C encKey base) ps ?s = (Inr (spec_answers Map.empty ps), t)"
      by (auto simp: yields_def)
    ultimately show ?thesis by blast
  qed
qed

definition example_ops :: "store_op list" where
  "example_ops = [TryCreate (bid 1) [1, 2], Store (bid 2) [3], NumBlocks, Remove (bid 1), Load (bid 1), Load (bid 2)]"

theorem storage_tower_behaves_as_map_witness:
  "\<exists>s t. CryDevice_mount 0 [] None 7 0 = Inr s \<and>
    run_ops (CryDevice_BlockStore strict_config (FakeAuthenticatedCipher (random_device (\<lambda>n. of_nat n))) 5 (OnDiskBlockStore2 (memory_disk 0)))
      example_ops s = (Inr [Created True, Stored, Counted 2, Removed True, Loaded None, Loaded (Some [3])], t)"
proof -
  have spec: "spec_answers Map.empty example_ops =
      [Created True, Stored, Counted 2, Removed True, Loaded None, Loaded (Some [3])]"
    and fits: "\<forall>p\<in>set example_ops. \<forall>d\<in>op_data p. integrity_fits (encrypted_fits 16 (disk_fits (\<lambda>c. True))) d"
    and new: "fresh_creates Map.empty example_ops" and len: "length example_ops < 2 ^ 64 - 1"
    by (simp_all add: example_ops_def integrity_fits_def encrypted_fits_def disk_fits_def)
  show ?thesis
    unfolding spec [symmetric]
    by (rule storage_tower_behaves_as_map [OF memory_disk.on_disk.block_store2_axioms fake_cipher.cipher_axioms _ _ _ _ _ len fits new])
      (use test_disk in \<open>simp_all add: fresh_disk_def\<close>)
qed

text \<open>
  C3. A remount finds everything: after any such run, shutting down (write-back of the cache, saving of
  the integrity file) succeeds, and mounting again with the saved file, provided it has fewer than
  \<open>2^63\<close> bytes, succeeds too and then every block that the map holds, and no other, is loaded with its
  content.
\<close>

theorem remount_preserves_blocks:
  fixes base :: "'s block_store2" and C :: "('r, 'k) cipher"
  assumes "block_store2 base binv bblocks bfits bcapacity" and "cipher C key_ok overhead" and "key_ok encKey"
    and "binv b" and "bblocks b = Map.empty" and "bcapacity b (length ps)" and "me \<noteq> 0" and "length ps < 2 ^ 64 - 1"
    and "\<forall>p\<in>set ps. \<forall>d\<in>op_data p. integrity_fits (encrypted_fits overhead bfits) d"
    and "fresh_creates Map.empty ps"
  shows "\<exists>s f t. CryDevice_mount r b None me now = Inr s \<and>
    ebind (run_ops (CryDevice_BlockStore cfg C encKey base) ps)
      (\<lambda>_. CryDevice_unmount cores cfg C encKey base None) s = (Inr (Some f), t) \<and>
    (length f < 2 ^ 63 \<longrightarrow> (\<exists>u. CryDevice_mount (fst (baseState (cacheBase (snd t)))) (snd (baseState (cacheBase (snd t)))) (Some f) me later = Inr u \<and>
      (\<forall>i. fst (load_of (CryDevice_BlockStore cfg C encKey base) i u) = Inr (fold (\<lambda>p m. spec_map m p) ps Map.empty i))))"
proof -
  have stack: "storage_stack base binv bblocks bfits bcapacity C key_ok overhead encKey"
    by (intro storage_stack.intro encrypted_store.intro encrypted_store_axioms.intro assms(1-3))
  let ?inv = "caching_inv (integrity_inv cfg me (encrypted_inv C encKey binv bblocks) (encrypted_blocks C encKey bblocks))
          (integrity_blocks (encrypted_blocks C encKey bblocks)) (integrity_fits (encrypted_fits overhead bfits))
          (integrity_capacity (encrypted_capacity bcapacity))"
  let ?blocks = "caching_blocks (integrity_blocks (encrypted_blocks C encKey bblocks))"
  note contract = storage_stack.stack_contract [OF stack, where cfg = cfg and me = me]
  obtain s where s: "CryDevice_mount r b None me now = Inr s" "?inv s" "?blocks s = Map.empty"
      "caching_capacity (integrity_capacity (encrypted_capacity bcapacity)) s (length ps)"
    by (rule storage_stack.mount_fresh [OF stack assms(4-8), of r now cfg]) blast
  from block_store2.run_ops_refines [OF contract s(2) assms(9), of 0] s(3,4) assms(10)
  obtain s' where s': "run_ops (CryDevice_BlockStore cfg C encKey base) ps s = (Inr (spec_answers Map.empty ps), s')"
      "?inv s'" "?blocks s' = fold (\<lambda>p m. spec_map m p) ps Map.empty"
    by (auto simp: yields_def)
  obtain f t where f: "CryDevice_unmount cores cfg C encKey base None s' = (Inr (Some f), t)"
      "f = state_file_bytes (knownBlockVersions (cacheBase (snd t)))"
    by (rule storage_stack.unmount_ok [OF stack s'(2), of cores None])
  have "\<exists>u. CryDevice_mount (fst (baseState (cacheBase (snd t)))) (snd (baseState (cacheBase (snd t)))) (Some f) me later = Inr u \<and>
      (\<forall>i. fst (load_of (CryDevice_BlockStore cfg C encKey base) i u) = Inr (fold (\<lambda>p m. spec_map m p) ps Map.empty i))"
    if "length f < 2 ^ 63"
  proof (rule storage_stack.unmount_mount [OF stack s'(2) f(1) that [unfolded f(2)], of later])
    fix u assume u: "CryDevice_mount (fst (baseState (cacheBase (snd t)))) (snd (baseState (cacheBase (snd t)))) (Some f) me later = Inr u"
      "?inv u" "?blocks u = ?blocks s'"
    have "fst (load_of (CryDevice_BlockStore cfg C encKey base) i u) = Inr (fold (\<lambda>p m. spec_map m p) ps Map.empty i)" for i
      using block_store2.load [OF contract u(2), of i] u(3) s'(3) by (auto simp: yields_def)
    with u(1) show ?thesis by blast
  qed
  moreover have "ebind (run_ops (CryDevice_BlockStore cfg C encKey base) ps)
      (\<lambda>_. CryDevice_unmount cores cfg C encKey base None) s = (Inr (Some f), t)"
    using s'(1) f(1) by (simp add: ebind_def)
  ultimately show ?thesis using s(1) by blast
qed

lemma example_file_short:
  assumes "CryDevice_mount 0 [] None 7 0 = Inr s"
    and "ebind (run_ops (CryDevice_BlockStore strict_config (FakeAuthenticatedCipher (random_device (\<lambda>n. of_nat n))) 5 (InMemoryBlockStore2 0)) [Load (bid 1)])
      (\<lambda>_. CryDevice_unmount 0 strict_config (FakeAuthenticatedCipher (random_device (\<lambda>n. of_nat n))) 5 (InMemoryBlockStore2 0) None) s
      = (Inr (Some f), t)"
  shows "length f < 2 ^ 63"
proof -
  have s: "s = CachingBlockStore2_new \<lparr>knownBlockVersions = \<lparr>integrityViolationOnPreviousRun = False, knownVersions = [],
      lastUpdateClientId = [], myClientId = 7, valid = True\<rparr>, reported = [], baseState = (0, [])\<rparr> 0"
    using assms(1) by (simp add: CryDevice_mount_def IntegrityBlockStore2_new_def KnownBlockVersions_new_def
        KnownBlockVersions_loadStateFile_def CLIENT_ID_FOR_DELETED_BLOCK_def)
  have "run_ops (CryDevice_BlockStore strict_config (FakeAuthenticatedCipher (random_device (\<lambda>n. of_nat n))) 5 (InMemoryBlockStore2 0))
      [Load (bid 1)] s = (Inr [Loaded None], s)"
    unfolding s
    by (simp add: CachingBlockStore2_new_def QueueMap_new_def CryDevice_BlockStore_def CachingBlockStore2_def ebind_def
        answer_def CachingBlockStore2_load_def CachingBlockStore2_loadFromCacheOrBaseStore_def Cache_pop_def zoom_fst_def
        QueueMap_pop_key_def zoom_snd_def zoom_cacheBase_def IntegrityBlockStore2_def IntegrityBlockStore2_load_def
        EncryptedBlockStore2_def EncryptedBlockStore2_load_def store_simps KnownBlockVersions_blockShouldExist_def
        zoom_base_def CLIENT_ID_FOR_DELETED_BLOCK_def)
  then have "CryDevice_unmount 0 strict_config (FakeAuthenticatedCipher (random_device (\<lambda>n. of_nat n))) 5 (InMemoryBlockStore2 0) None s
      = (Inr (Some f), t)"
    using assms(2) by (simp add: ebind_def)
  then have "length f < 1000"
    unfolding s
    by (auto simp: CachingBlockStore2_new_def QueueMap_new_def CryDevice_unmount_def CachingBlockStore2_destroy_def
        Cache_destructor_def Cache_deleteAllEntriesParallel_def numeral_2_eq_2 Cache_deleteMatchingEntriesAtBeginning_def
        Cache_deleteMatchingEntryAtBeginning_def QueueMap_size_def QueueMap_peek_def ebind_def
        KnownBlockVersions_destroy_def saveStateFile_bytes state_file_bytes_def KnownBlockVersions_HEADER_def)
  then show ?thesis by simp
qed

theorem remount_preserves_blocks_witness:
  "\<exists>s f t u. CryDevice_mount 0 [] None 7 0 = Inr s \<and>
    ebind (run_ops (CryDevice_BlockStore strict_config (FakeAuthenticatedCipher (random_device (\<lambda>n. of_nat n))) 5 (InMemoryBlockStore2 0)) [Load (bid 1)])
      (\<lambda>_. CryDevice_unmount 0 strict_config (FakeAuthenticatedCipher (random_device (\<lambda>n. of_nat n))) 5 (InMemoryBlockStore2 0) None) s
      = (Inr (Some f), t) \<and>
    CryDevice_mount (fst (baseState (cacheBase (snd t)))) (snd (baseState (cacheBase (snd t)))) (Some f) 7 9 = Inr u \<and>
    fst (load_of (CryDevice_BlockStore strict_config (FakeAuthenticatedCipher (random_device (\<lambda>n. of_nat n))) 5 (InMemoryBlockStore2 0)) (bid 1) u) = Inr None"
proof -
  have *: "inmemory_inv []" "map_of ([] :: inmemory) = Map.empty" "True" "(7 :: u32) \<noteq> 0" "length [Load (bid 1)] < 2 ^ 64 - 1"
    "\<forall>p\<in>set [Load (bid 1)]. \<forall>d\<in>op_data p. integrity_fits (encrypted_fits 16 (\<lambda>d. True)) d"
    "fresh_creates Map.empty [Load (bid 1)]"
    by (simp_all add: inmemory_inv_def)
  from remount_preserves_blocks [OF inmemory.block_store2_axioms [of 0] fake_cipher.cipher_axioms [of "\<lambda>n. of_nat n"] TrueI *,
      where r = 0 and now = 0 and later = 9 and cores = 0 and cfg = strict_config and encKey = 5]
  obtain s f t where r: "CryDevice_mount 0 [] None 7 0 = Inr s"
    "ebind (run_ops (CryDevice_BlockStore strict_config (FakeAuthenticatedCipher (random_device (\<lambda>n. of_nat n))) 5 (InMemoryBlockStore2 0)) [Load (bid 1)])
      (\<lambda>_. CryDevice_unmount 0 strict_config (FakeAuthenticatedCipher (random_device (\<lambda>n. of_nat n))) 5 (InMemoryBlockStore2 0) None) s
      = (Inr (Some f), t)"
    "length f < 2 ^ 63 \<longrightarrow> (\<exists>u. CryDevice_mount (fst (baseState (cacheBase (snd t)))) (snd (baseState (cacheBase (snd t)))) (Some f) 7 9 = Inr u \<and>
      (\<forall>i. fst (load_of (CryDevice_BlockStore strict_config (FakeAuthenticatedCipher (random_device (\<lambda>n. of_nat n))) 5 (InMemoryBlockStore2 0)) i u) =
        Inr (fold (\<lambda>p m. spec_map m p) [Load (bid 1)] Map.empty i)))"
    by blast
  from r(3) example_file_short [OF r(1,2)] obtain u where
    "CryDevice_mount (fst (baseState (cacheBase (snd t)))) (snd (baseState (cacheBase (snd t)))) (Some f) 7 9 = Inr u"
    "\<forall>i. fst (load_of (CryDevice_BlockStore strict_config (FakeAuthenticatedCipher (random_device (\<lambda>n. of_nat n))) 5 (InMemoryBlockStore2 0)) i u) =
        Inr (fold (\<lambda>p m. spec_map m p) [Load (bid 1)] Map.empty i)" by blast
  moreover from this(2) have "fst (load_of (CryDevice_BlockStore strict_config (FakeAuthenticatedCipher (random_device (\<lambda>n. of_nat n))) 5 (InMemoryBlockStore2 0)) (bid 1) u) = Inr None"
    by simp
  ultimately show ?thesis using r(1,2) by blast
qed

end
